(* ===== verification/Prelude.thy ===== *)
theory Prelude
  imports Main "HOL-Library.Word"
begin

text \<open>
  Shared vocabulary of the development: results of fallible Rust functions, machine
  integers with Rust's checked operations, the collections of facts the component proofs
  use, and the interface of a component whose operations are steps of a machine.
\<close>

named_theorems result_simps \<open>rewrites for the result monad\<close>
named_theorems invar_intros \<open>preservation lemmas of the operations\<close>

section \<open>Results\<close>

text \<open>
  A Rust \<open>Result\<close> is a sum: \<open>Inl\<close> is \<open>Err\<close>, \<open>Inr\<close> is \<open>Ok\<close>. \<open>rbind\<close> is the question mark
  operator, \<open>ok_or\<close> is \<open>Option::ok_or\<close>.
\<close>

definition rbind :: "'e + 'a \<Rightarrow> ('a \<Rightarrow> 'e + 'b) \<Rightarrow> 'e + 'b" where
  "rbind m f = (case m of Inl e \<Rightarrow> Inl e | Inr v \<Rightarrow> f v)"

definition ok_or :: "'a option \<Rightarrow> 'e \<Rightarrow> 'e + 'a" where
  "ok_or x e = (case x of None \<Rightarrow> Inl e | Some v \<Rightarrow> Inr v)"

definition guard_or :: "bool \<Rightarrow> 'e \<Rightarrow> 'e + unit" where
  "guard_or b e = (if b then Inr () else Inl e)"

definition is_some_and :: "'a option \<Rightarrow> ('a \<Rightarrow> bool) \<Rightarrow> bool" where
  "is_some_and x p = (case x of None \<Rightarrow> False | Some v \<Rightarrow> p v)"

definition opt_filter :: "('a \<Rightarrow> bool) \<Rightarrow> 'a option \<Rightarrow> 'a option" where
  "opt_filter p x = (case x of None \<Rightarrow> None | Some v \<Rightarrow> if p v then Some v else None)"

lemma rbind_simps [simp]:
  "rbind (Inl e) f = Inl e"
  "rbind (Inr v) f = f v"
  by (simp_all add: rbind_def)

lemma rbind_Inr_iff [result_simps]: "rbind m f = Inr b \<longleftrightarrow> (\<exists>a. m = Inr a \<and> f a = Inr b)"
  by (cases m) auto

lemma rbind_Inl_iff [result_simps]:
  "rbind m f = Inl e \<longleftrightarrow> m = Inl e \<or> (\<exists>a. m = Inr a \<and> f a = Inl e)"
  by (cases m) auto

lemma rbind_cong [fundef_cong]:
  "m = m' \<Longrightarrow> (\<And>v. m' = Inr v \<Longrightarrow> f v = g v) \<Longrightarrow> rbind m f = rbind m' g"
  by (cases m') auto

lemma ok_or_simps [simp]:
  "ok_or None e = Inl e"
  "ok_or (Some v) e = Inr v"
  by (simp_all add: ok_or_def)

lemma ok_or_Inr_iff [simp, result_simps]: "ok_or x e = Inr v \<longleftrightarrow> x = Some v"
  by (cases x) auto

lemma ok_or_Inl_iff [simp, result_simps]: "ok_or x e = Inl e' \<longleftrightarrow> x = None \<and> e' = e"
  by (cases x) auto

lemma guard_or_Inr_iff [simp, result_simps]: "guard_or b e = Inr u \<longleftrightarrow> b"
  by (simp add: guard_or_def)

lemma guard_or_Inl_iff [simp, result_simps]: "guard_or b e = Inl e' \<longleftrightarrow> \<not> b \<and> e' = e"
  by (auto simp: guard_or_def)

lemma guard_or_simps [simp]:
  "guard_or True e = Inr ()"
  "guard_or False e = Inl e"
  by (simp_all add: guard_or_def)

lemma is_some_and_simps [simp]:
  "is_some_and None p = False"
  "is_some_and (Some v) p = p v"
  by (simp_all add: is_some_and_def)

lemma is_some_and_iff: "is_some_and x p \<longleftrightarrow> (\<exists>v. x = Some v \<and> p v)"
  by (cases x) auto

lemma opt_filter_simps [simp]:
  "opt_filter p None = None"
  "opt_filter p (Some v) = (if p v then Some v else None)"
  by (simp_all add: opt_filter_def)

lemma opt_filter_Some_iff: "opt_filter p x = Some v \<longleftrightarrow> x = Some v \<and> p v"
  by (cases x) auto

text \<open>A loop with \<open>?\<close> in its body: fold over a list, stopping at the first error.\<close>

fun try_fold :: "('s \<Rightarrow> 'a \<Rightarrow> 'e + 's) \<Rightarrow> 's \<Rightarrow> 'a list \<Rightarrow> 'e + 's" where
  "try_fold f s [] = Inr s"
| "try_fold f s (x # xs) = rbind (f s x) (\<lambda>s'. try_fold f s' xs)"

lemma try_fold_append [simp]:
  "try_fold f s (xs @ ys) = rbind (try_fold f s xs) (\<lambda>s'. try_fold f s' ys)"
  by (induction xs arbitrary: s) (auto simp: rbind_def split: sum.splits)

lemma try_fold_invariant:
  assumes "try_fold f s xs = Inr t" and "P s"
    and "\<And>s x s'. x \<in> set xs \<Longrightarrow> P s \<Longrightarrow> f s x = Inr s' \<Longrightarrow> P s'"
  shows "P t"
  using assms
proof (induction xs arbitrary: s)
  case Nil
  then show ?case by simp
next
  case (Cons x xs)
  from Cons.prems(1) obtain s' where s': "f s x = Inr s'" and rest: "try_fold f s' xs = Inr t"
    by (auto simp: result_simps)
  have "P s'" by (rule Cons.prems(3) [OF _ Cons.prems(2) s']) simp
  show ?case
    by (rule Cons.IH [OF rest \<open>P s'\<close>]) (rule Cons.prems(3), simp_all)
qed

section \<open>Machine integers\<close>

type_synonym u64 = "64 word"
type_synonym i64 = int \<comment> \<open>only compared, or range-checked by \<open>try_i64\<close>; no unchecked arithmetic\<close>

text \<open>\<open>u64::checked_add\<close>.\<close>

definition checked_add_u64 :: "u64 \<Rightarrow> u64 \<Rightarrow> u64 option" where
  "checked_add_u64 a b = (if unat a + unat b < 2 ^ 64 then Some (a + b) else None)"

text \<open>\<open>i64::try_from\<close> on a wider integer, and \<open>u64::try_from\<close>.\<close>

definition try_i64 :: "int \<Rightarrow> int option" where
  "try_i64 n = (if - (2 ^ 63) \<le> n \<and> n < 2 ^ 63 then Some n else None)"

definition try_u64 :: "int \<Rightarrow> int option" where
  "try_u64 n = (if 0 \<le> n \<and> n < 2 ^ 64 then Some n else None)"

lemma try_i64_Some_iff: "try_i64 n = Some m \<longleftrightarrow> m = n \<and> - (2 ^ 63) \<le> n \<and> n < 2 ^ 63"
  by (auto simp: try_i64_def)

lemma checked_add_u64_Some:
  assumes "checked_add_u64 a b = Some c"
  shows "unat c = unat a + unat b"
  using assms by (auto simp: checked_add_u64_def unat_word_ariths split: if_splits)

lemma checked_add_u64_one_less:
  assumes "checked_add_u64 a 1 = Some c"
  shows "a < c"
  using checked_add_u64_Some [OF assms] by (simp add: word_less_nat_alt)

section \<open>Machines\<close>

text \<open>
  A component whose operations are steps \<open>state \<Rightarrow> operation \<Rightarrow> state\<close>. \<open>run\<close> performs a
  sequence of them; a law of one step becomes a law of every run.
\<close>

definition run :: "('s \<Rightarrow> 'o \<Rightarrow> 's) \<Rightarrow> 's \<Rightarrow> 'o list \<Rightarrow> 's" where
  "run step s os = foldl step s os"

lemma run_simps [simp]:
  "run step s [] = s"
  "run step s (x # xs) = run step (step s x) xs"
  "run step s (xs @ ys) = run step (run step s xs) ys"
  by (simp_all add: run_def)

locale machine =
  fixes step :: "'s \<Rightarrow> 'o \<Rightarrow> 's"
    and inv :: "'s \<Rightarrow> bool"
  assumes step_inv: "inv s \<Longrightarrow> inv (step s a)"
begin

lemma run_inv: "inv s \<Longrightarrow> inv (run step s os)"
  by (induction os arbitrary: s) (simp_all add: step_inv)

end

text \<open>A machine whose state only ever grows in some order (progress is never lost).\<close>

locale growing_machine = machine +
  fixes le :: "'a \<Rightarrow> 'a \<Rightarrow> bool"
  assumes le_refl: "inv s \<Longrightarrow> le s s"
    and le_trans: "le s t \<Longrightarrow> le t u \<Longrightarrow> le s u"
    and step_le: "inv s \<Longrightarrow> le s (step s a)"
begin

lemma run_le: "inv s \<Longrightarrow> le s (run step s os)"
proof (induction os arbitrary: s)
  case Nil
  then show ?case by (simp add: le_refl)
next
  case (Cons a os)
  have "le s (step s a)" and "inv (step s a)"
    using Cons.prems by (simp_all add: step_le step_inv)
  then have "le (step s a) (run step (step s a) os)" by (rule_tac Cons.IH)
  with \<open>le s (step s a)\<close> show ?case by (auto intro: le_trans)
qed

lemma prefix_le: "inv s \<Longrightarrow> le (run step s os) (run step s (os @ os'))"
  using run_le [OF run_inv] by simp

end

end
