(* ===== verification/Rust_Strings.thy ===== *)
theory Rust_Strings
  imports Prelude "HOL-Library.Char_ord" "HOL-Library.List_Lexorder"
begin

text \<open>
  The part of Rust's \<open>str\<close> the program uses. A \<open>String\<close> is its UTF-8 byte sequence, a
  HOL \<open>string\<close> whose characters are bytes; the order of \<open>HOL-Library.List_Lexorder\<close> on it
  is the order of \<open>str\<close>. \<open>trim\<close> removes every character with the Unicode
  \<open>White_Space\<close> property, in its UTF-8 encoding; the ASCII case maps leave bytes above
  127 alone, as Rust's do.
\<close>

section \<open>White space\<close>

definition byte :: "char \<Rightarrow> nat" where
  "byte c = of_char c"

definition ws1 :: "char \<Rightarrow> bool" where
  "ws1 a \<longleftrightarrow> byte a \<in> {9, 10, 11, 12, 13, 32}"

definition ws2 :: "char \<Rightarrow> char \<Rightarrow> bool" where
  "ws2 a b \<longleftrightarrow> byte a = 194 \<and> byte b \<in> {133, 160}"

definition ws3 :: "char \<Rightarrow> char \<Rightarrow> char \<Rightarrow> bool" where
  "ws3 a b c \<longleftrightarrow>
     byte a = 225 \<and> byte b = 154 \<and> byte c = 128
   \<or> byte a = 226 \<and> byte b = 128 \<and> (128 \<le> byte c \<and> byte c \<le> 138 \<or> byte c \<in> {168, 169, 175})
   \<or> byte a = 226 \<and> byte b = 129 \<and> byte c = 159
   \<or> byte a = 227 \<and> byte b = 128 \<and> byte c = 128"

text \<open>Strip white space off the front, given the two- and three-byte forms.\<close>

fun strip :: "(char \<Rightarrow> char \<Rightarrow> bool) \<Rightarrow> (char \<Rightarrow> char \<Rightarrow> char \<Rightarrow> bool) \<Rightarrow> string \<Rightarrow> string" where
  "strip w2 w3 [] = []"
| "strip w2 w3 [a] = (if ws1 a then [] else [a])"
| "strip w2 w3 [a, b] =
     (if ws1 a then strip w2 w3 [b] else if w2 a b then [] else [a, b])"
| "strip w2 w3 (a # b # c # s) =
     (if ws1 a then strip w2 w3 (b # c # s)
      else if w2 a b then strip w2 w3 (c # s)
      else if w3 a b c then strip w2 w3 s
      else a # b # c # s)"

definition trim_start :: "string \<Rightarrow> string" where
  "trim_start s = strip ws2 ws3 s"

definition trim_end :: "string \<Rightarrow> string" where
  "trim_end s = rev (strip (\<lambda>b a. ws2 a b) (\<lambda>c b a. ws3 a b c) (rev s))"

definition trim :: "string \<Rightarrow> string" where
  "trim s = trim_end (trim_start s)"

definition blank :: "string \<Rightarrow> bool" where
  "blank s \<longleftrightarrow> trim s = []"

lemma strip_suffix: "\<exists>p. s = p @ strip w2 w3 s"
proof (induction w2 w3 s rule: strip.induct)
  case (4 w2 w3 a b c s)
  show ?case
  proof (cases "ws1 a \<or> w2 a b \<or> w3 a b c")
    case False
    then show ?thesis by auto
  next
    case True
    with 4 show ?thesis
      by (cases "ws1 a"; cases "w2 a b"; auto) (metis append_Cons)+
  qed
qed auto

lemma strip_idem [simp]: "strip w2 w3 (strip w2 w3 s) = strip w2 w3 s"
  by (induction w2 w3 s rule: strip.induct) auto

lemma strip_Nil [simp]: "strip w2 w3 [] = []"
  by simp

lemma trim_end_prefix: "\<exists>q. s = trim_end s @ q"
  using strip_suffix [of "rev s"] unfolding trim_end_def
  by (metis rev_append rev_rev_ident)

text \<open>A string that starts with no white space keeps that when its end is cut off.\<close>

lemma strip_fixed_prefix:
  assumes "strip w2 w3 (s @ q) = s @ q"
  shows "strip w2 w3 s = s"
proof -
  have len: "length (strip w2 w3 t) \<le> length t" for t
    using strip_suffix [of t w2 w3] by (metis le_add2 length_append)
  show ?thesis
    using assms
  proof (cases "(w2, w3, s)" rule: strip.cases)
    case (2 _ _ a)
    then show ?thesis using assms len by (cases q; cases "tl q") (auto split: if_splits, (metis impossible_Cons length_Cons le_SucI)+)
  next
    case (3 _ _ a b)
    then show ?thesis using assms len by (cases q) (auto split: if_splits, (metis impossible_Cons length_Cons le_SucI)+)
  next
    case (4 _ _ a b c s')
    then show ?thesis using assms len
      by (auto split: if_splits) (metis impossible_Cons length_Cons le_SucI)+
  qed simp
qed

lemma trim_Nil [simp]: "trim [] = []"
  by (simp add: trim_def trim_start_def trim_end_def)

lemma trim_idem [simp]: "trim (trim s) = trim s"
proof -
  obtain q where q: "trim_start s = trim s @ q"
    using trim_end_prefix unfolding trim_def by blast
  have "strip ws2 ws3 (trim s @ q) = trim s @ q"
    unfolding q [symmetric] by (simp add: trim_start_def)
  then have "trim_start (trim s) = trim s"
    unfolding trim_start_def by (rule strip_fixed_prefix)
  moreover have "trim_end (trim s) = trim s"
    by (simp add: trim_def trim_end_def)
  ultimately show ?thesis by (simp add: trim_def [of "trim s"])
qed

lemma blank_Nil [simp]: "blank []"
  by (simp add: blank_def)

lemma blank_trim [simp]: "blank (trim s) = blank s"
  by (simp add: blank_def)

lemma not_blank_nonempty: "\<not> blank s \<Longrightarrow> s \<noteq> []"
  by auto

lemma strip_keeps_last:
  assumes "\<not> ws1 c" and "\<And>b. \<not> w2 b c" and "\<And>a b. \<not> w3 a b c"
  shows "t \<noteq> [] \<Longrightarrow> last t = c \<Longrightarrow> strip w2 w3 t \<noteq> []"
  using assms by (induction w2 w3 t rule: strip.induct) (auto split: if_splits)

lemma not_blank_Cons:
  assumes "byte c < 128" and "\<not> ws1 c"
  shows "\<not> blank (c # s)"
proof -
  have "trim_start (c # s) = c # s"
    using assms by (cases s; cases "tl s") (auto simp: trim_start_def ws2_def ws3_def)
  moreover have "strip (\<lambda>b a. ws2 a b) (\<lambda>c b a. ws3 a b c) (rev s @ [c]) \<noteq> []"
    by (rule strip_keeps_last [of c]) (use assms in \<open>auto simp: ws2_def ws3_def\<close>)
  ultimately show ?thesis by (simp add: blank_def trim_def trim_end_def)
qed

text \<open>White space does not reach past an ASCII character that is none.\<close>

definition solid :: "char \<Rightarrow> bool" where
  "solid c \<longleftrightarrow> byte c < 128 \<and> \<not> ws1 c"

lemma trim_start_solid [simp]: "solid c \<Longrightarrow> trim_start (c # s) = c # s"
  by (cases s; cases "tl s") (auto simp: solid_def trim_start_def ws2_def ws3_def)

lemma strip_before_solid:
  assumes "strip w2 w3 t = t" and "t \<noteq> []" and "\<And>a. \<not> w2 a c" and "\<And>a b. \<not> w3 a b c" and "\<And>a b. \<not> w3 a c b"
  shows "strip w2 w3 (t @ c # q) = t @ c # q"
proof -
  have len: "length (strip w2 w3 u) \<le> length u" for u
    using strip_suffix [of u w2 w3] by (metis le_add2 length_append)
  from assms(1,2) show ?thesis
  proof (cases "(w2, w3, t)" rule: strip.cases)
    case (2 _ _ a)
    then show ?thesis using assms by (cases q) (auto split: if_splits)
  next
    case (3 _ _ a b)
    then show ?thesis using assms len [of "[b]"] by (auto split: if_splits)
  next
    case (4 _ _ a b d s')
    then show ?thesis using assms len by (auto split: if_splits) (metis impossible_Cons length_Cons le_SucI)+
  qed simp
qed

lemma trim_end_after_solid:
  assumes "trim_end s = s" and "s \<noteq> []" and "solid c"
  shows "trim_end (p @ c # s) = p @ c # s"
proof -
  have "rev (strip (\<lambda>b a. ws2 a b) (\<lambda>c b a. ws3 a b c) (rev s)) = s" using assms(1) by (simp add: trim_end_def)
  then have "strip (\<lambda>b a. ws2 a b) (\<lambda>c b a. ws3 a b c) (rev s) = rev s" by (metis rev_rev_ident)
  then have "strip (\<lambda>b a. ws2 a b) (\<lambda>c b a. ws3 a b c) (rev s @ c # rev p) = rev s @ c # rev p"
    by (rule strip_before_solid) (use assms in \<open>auto simp: solid_def ws2_def ws3_def\<close>)
  then show ?thesis by (simp add: trim_end_def)
qed

lemma trim_qualified:
  assumes "solid a" and "solid c" and "trim s = s" and "s \<noteq> []"
  shows "trim ((a # p) @ c # s) = (a # p) @ c # s"
proof -
  have "trim_end s = s" using assms(3) by (metis strip_idem trim_def trim_end_def rev_rev_ident)
  then show ?thesis using assms trim_end_after_solid [of s c "a # p"] by (simp add: trim_def)
qed

lemma trim_solid: "list_all solid s \<Longrightarrow> trim s = s"
proof (cases s rule: rev_cases)
  case (snoc t c)
  assume solid: "list_all solid s"
  have "trim_start s = s" using solid by (cases s) (auto simp: trim_start_def [of "[]"])
  moreover have "trim_end s = s"
  proof -
    have "strip (\<lambda>b a. ws2 a b) (\<lambda>c b a. ws3 a b c) (c # rev t) = c # rev t"
      using solid snoc by (cases "rev t"; cases "tl (rev t)") (auto simp: solid_def ws2_def ws3_def list_all_iff)
    then show ?thesis by (simp add: snoc trim_end_def)
  qed
  ultimately show ?thesis by (simp add: trim_def)
qed simp

section \<open>ASCII case\<close>

definition upper_char :: "char \<Rightarrow> char" where
  "upper_char c = (if 97 \<le> byte c \<and> byte c \<le> 122 then char_of (byte c - 32) else c)"

definition lower_char :: "char \<Rightarrow> char" where
  "lower_char c = (if 65 \<le> byte c \<and> byte c \<le> 90 then char_of (byte c + 32) else c)"

definition upper :: "string \<Rightarrow> string" where
  "upper s = map upper_char s"

definition lower :: "string \<Rightarrow> string" where
  "lower s = map lower_char s"

definition eq_ignore_case :: "string \<Rightarrow> string \<Rightarrow> bool" where
  "eq_ignore_case a b \<longleftrightarrow> lower a = lower b"

lemma byte_char_of [simp]: "n < 256 \<Longrightarrow> byte (char_of n) = n"
  by (simp add: byte_def)

lemma byte_less [simp]: "byte c < 256"
  by (simp add: byte_def)

lemma byte_inject [simp]: "byte a = byte b \<longleftrightarrow> a = b"
  by (simp add: byte_def)

lemma byte_upper_char: "byte (upper_char c) = (if 97 \<le> byte c \<and> byte c \<le> 122 then byte c - 32 else byte c)"
  by (simp add: upper_char_def less_imp_diff_less)

lemma byte_lower_char: "byte (lower_char c) = (if 65 \<le> byte c \<and> byte c \<le> 90 then byte c + 32 else byte c)"
  by (simp add: lower_char_def)

lemma upper_char_idem [simp]: "upper_char (upper_char c) = upper_char c"
  by (subst byte_inject [symmetric], simp only: byte_upper_char) auto

lemma lower_char_idem [simp]: "lower_char (lower_char c) = lower_char c"
  by (subst byte_inject [symmetric], simp only: byte_lower_char) auto

lemma upper_char_lower [simp]: "upper_char (lower_char c) = upper_char c"
  by (subst byte_inject [symmetric], simp only: byte_upper_char byte_lower_char) auto

lemma lower_char_upper [simp]: "lower_char (upper_char c) = lower_char c"
  by (subst byte_inject [symmetric], simp only: byte_upper_char byte_lower_char) auto

lemma upper_idem [simp]: "upper (upper s) = upper s"
  by (simp add: upper_def)

lemma lower_idem [simp]: "lower (lower s) = lower s"
  by (simp add: lower_def)

lemma upper_lower [simp]: "upper (lower s) = upper s"
  by (simp add: upper_def lower_def)

lemma lower_upper [simp]: "lower (upper s) = lower s"
  by (simp add: upper_def lower_def)

lemma upper_Nil_iff [simp]: "upper s = [] \<longleftrightarrow> s = []"
  by (simp add: upper_def)

lemma eq_ignore_case_refl [simp]: "eq_ignore_case s s"
  by (simp add: eq_ignore_case_def)

lemma eq_ignore_case_upper: "eq_ignore_case a b \<longleftrightarrow> upper a = upper b"
  unfolding eq_ignore_case_def by (metis lower_upper upper_lower)

text \<open>Evaluation of string functions on literals.\<close>

lemma ws_upper_char:
  "ws1 (upper_char a) = ws1 a" "ws2 (upper_char a) (upper_char b) = ws2 a b"
  "ws3 (upper_char a) (upper_char b) (upper_char c) = ws3 a b c"
  by (auto simp: ws1_def ws2_def ws3_def byte_upper_char)

lemma strip_upper:
  assumes "\<And>a b. w2 (upper_char a) (upper_char b) = w2 a b" and "\<And>a b c. w3 (upper_char a) (upper_char b) (upper_char c) = w3 a b c"
  shows "strip w2 w3 (upper s) = upper (strip w2 w3 s)"
  using assms by (induction w2 w3 s rule: strip.induct) (simp_all add: upper_def ws_upper_char)

lemma trim_upper [simp]: "trim (upper s) = upper (trim s)"
proof -
  have "trim_start (upper s) = upper (trim_start s)" for s
    unfolding trim_start_def by (rule strip_upper) (simp_all add: ws_upper_char)
  moreover have "trim_end (upper s) = upper (trim_end s)" for s
  proof -
    have "rev (upper s) = upper (rev s)" for s by (simp add: upper_def rev_map)
    then show ?thesis unfolding trim_end_def by (simp add: strip_upper ws_upper_char)
  qed
  ultimately show ?thesis by (simp add: trim_def)
qed

lemma eq_char_of_iff: "c = char_of (n :: nat) \<longleftrightarrow> take_bit 8 n = of_char c"
  by (metis char_of_eq_iff)

lemmas string_eval = upper_def lower_def upper_char_def lower_char_def trim_def trim_start_def trim_end_def
  ws1_def ws2_def ws3_def byte_def eq_char_of_iff char_of_eq_iff blank_def eq_ignore_case_def

section \<open>Searching and splitting\<close>

text \<open>\<open>str::strip_prefix\<close>, \<open>strip_suffix\<close>, \<open>starts_with\<close>.\<close>

fun strip_prefix :: "string \<Rightarrow> string \<Rightarrow> string option" where
  "strip_prefix [] s = Some s"
| "strip_prefix (p # ps) [] = None"
| "strip_prefix (p # ps) (c # s) = (if p = c then strip_prefix ps s else None)"

definition starts_with :: "string \<Rightarrow> string \<Rightarrow> bool" where
  "starts_with s p \<longleftrightarrow> strip_prefix p s \<noteq> None"

definition strip_suffix_char :: "char \<Rightarrow> string \<Rightarrow> string option" where
  "strip_suffix_char c s = (if s \<noteq> [] \<and> last s = c then Some (butlast s) else None)"

text \<open>\<open>str::split_once\<close> at a character.\<close>

fun split_once :: "char \<Rightarrow> string \<Rightarrow> (string \<times> string) option" where
  "split_once c [] = None"
| "split_once c (x # s) =
     (if x = c then Some ([], s)
      else case split_once c s of None \<Rightarrow> None | Some (a, b) \<Rightarrow> Some (x # a, b))"

text \<open>\<open>str::split\<close>: the pieces between the characters that satisfy a predicate; at least one.\<close>

fun split_on :: "(char \<Rightarrow> bool) \<Rightarrow> string \<Rightarrow> string list" where
  "split_on p [] = [[]]"
| "split_on p (c # s) =
     (if p c then [] # split_on p s
      else case split_on p s of [] \<Rightarrow> [[c]] | w # ws \<Rightarrow> (c # w) # ws)"

definition trim_start_char :: "char \<Rightarrow> string \<Rightarrow> string" where
  "trim_start_char c s = dropWhile (\<lambda>x. x = c) s"

definition trim_end_char :: "char \<Rightarrow> string \<Rightarrow> string" where
  "trim_end_char c s = rev (dropWhile (\<lambda>x. x = c) (rev s))"

definition replace_chars :: "(char \<Rightarrow> bool) \<Rightarrow> char \<Rightarrow> string \<Rightarrow> string" where
  "replace_chars p r s = map (\<lambda>c. if p c then r else c) s"

fun join :: "string \<Rightarrow> string list \<Rightarrow> string" where
  "join sep [] = []"
| "join sep [w] = w"
| "join sep (w # ws) = w @ sep @ join sep ws"

lemma split_on_not_Nil [simp]: "split_on p s \<noteq> []"
  by (induction s) (auto split: list.splits)

lemma split_on_none: "(\<forall>c\<in>set s. \<not> p c) \<Longrightarrow> split_on p s = [s]"
  by (induction s) auto

lemma split_on_one:
  "(\<forall>c\<in>set a. \<not> p c) \<Longrightarrow> p x \<Longrightarrow> split_on p (a @ x # b) = a # split_on p b"
  by (induction a) auto

lemma split_on_join:
  assumes "ws \<noteq> []" and "\<forall>w\<in>set ws. x \<notin> set w"
  shows "split_on (\<lambda>c. c = x) (join [x] ws) = ws"
  using assms
proof (induction "[x]" ws rule: join.induct)
  case (2 w)
  then show ?case by (auto intro!: split_on_none)
next
  case (3 w v ws)
  have "split_on (\<lambda>c. c = x) (w @ x # join [x] (v # ws)) = w # split_on (\<lambda>c. c = x) (join [x] (v # ws))"
    using 3 by (intro split_on_one) auto
  with 3 show ?case by simp
qed simp

lemma join_inject:
  assumes "join [x] ws = join [x] vs" and "ws \<noteq> []" "vs \<noteq> []"
    and "\<forall>w\<in>set ws. x \<notin> set w" "\<forall>v\<in>set vs. x \<notin> set v"
  shows "ws = vs"
proof -
  have "ws = split_on (\<lambda>c. c = x) (join [x] ws)"
    by (rule split_on_join [OF assms(2,4), symmetric])
  also have "\<dots> = vs"
    unfolding assms(1) by (rule split_on_join [OF assms(3,5)])
  finally show ?thesis .
qed

lemma split_once_Some_iff:
  "split_once c s = Some (a, b) \<longleftrightarrow> s = a @ c # b \<and> c \<notin> set a"
proof (induction s arbitrary: a)
  case Nil
  then show ?case by simp
next
  case (Cons x s)
  show ?case
  proof (cases "x = c")
    case True
    then show ?thesis by (cases a) auto
  next
    case False
    then have "split_once c (x # s) = Some (a, b) \<longleftrightarrow> (\<exists>a'. a = x # a' \<and> split_once c s = Some (a', b))"
      by (auto split: option.splits)
    then show ?thesis unfolding Cons.IH using False by (cases a) auto
  qed
qed

lemma split_once_None_iff: "split_once c s = None \<longleftrightarrow> c \<notin> set s"
  by (induction s) (auto split: option.splits)

lemma trim_end_char_snoc [simp]: "trim_end_char c (s @ [x]) = (if x = c then trim_end_char c s else s @ [x])"
  by (simp add: trim_end_char_def)

lemma trim_end_char_Nil [simp]: "trim_end_char c [] = []"
  by (simp add: trim_end_char_def)

lemma trim_end_char_decomp: "\<exists>n. s = trim_end_char c s @ replicate n c"
proof (induction s rule: rev_induct)
  case Nil
  then show ?case by simp
next
  case (snoc x s)
  then obtain n where "s = trim_end_char c s @ replicate n c" by blast
  then have eq: "s @ [c] = trim_end_char c (s @ [c]) @ replicate (Suc n) c"
    by (metis append_assoc replicate_append_same replicate_Suc trim_end_char_snoc)
  show ?case
  proof (cases "x = c")
    case True
    with eq show ?thesis by blast
  next
    case False
    then show ?thesis by (auto intro: exI [of _ "0::nat"])
  qed
qed

section \<open>Numbers as text\<close>

definition digit_char :: "nat \<Rightarrow> char" where
  "digit_char d = char_of (48 + d)"

definition is_digit :: "char \<Rightarrow> bool" where
  "is_digit c \<longleftrightarrow> 48 \<le> byte c \<and> byte c \<le> 57"

definition digit_val :: "char \<Rightarrow> nat" where
  "digit_val c = byte c - 48"

text \<open>\<open>u64::to_string\<close>, and the digits of a number padded with zeros to a width (\<open>{:08}\<close>).\<close>

fun nat_text :: "nat \<Rightarrow> string" where
  "nat_text n = (if n < 10 then [digit_char n] else nat_text (n div 10) @ [digit_char (n mod 10)])"

declare nat_text.simps [simp del]

definition pad_zero :: "nat \<Rightarrow> string \<Rightarrow> string" where
  "pad_zero w s = replicate (w - length s) (CHR ''0'') @ s"

definition int_text :: "int \<Rightarrow> string" where
  "int_text n = (if n < 0 then CHR ''-'' # nat_text (nat (- n)) else nat_text (nat n))"

definition digits_val :: "string \<Rightarrow> nat" where
  "digits_val s = foldl (\<lambda>acc c. 10 * acc + digit_val c) 0 s"

definition all_digits :: "string \<Rightarrow> bool" where
  "all_digits s \<longleftrightarrow> list_all is_digit s"

text \<open>\<open>parse::<u64>\<close> and \<open>parse::<i64>\<close>: an optional sign, at least one digit, in range.\<close>

definition parse_u64 :: "string \<Rightarrow> nat option" where
  "parse_u64 s =
     (let ds = (case s of c # r \<Rightarrow> if c = CHR ''+'' then r else s | [] \<Rightarrow> [])
      in if ds \<noteq> [] \<and> all_digits ds \<and> digits_val ds < 2 ^ 64 then Some (digits_val ds) else None)"

definition parse_i64 :: "string \<Rightarrow> int option" where
  "parse_i64 s =
     (let (neg, ds) = (case s of
            c # r \<Rightarrow> if c = CHR ''-'' then (True, r) else if c = CHR ''+'' then (False, r) else (False, s)
          | [] \<Rightarrow> (False, []))
      in if ds \<noteq> [] \<and> all_digits ds
         then try_i64 (if neg then - int (digits_val ds) else int (digits_val ds)) else None)"

lemma byte_digit_char [simp]: "d < 10 \<Longrightarrow> byte (digit_char d) = 48 + d"
  by (simp add: digit_char_def)

lemma is_digit_digit_char [simp]: "d < 10 \<Longrightarrow> is_digit (digit_char d)"
  by (simp add: is_digit_def)

lemma digit_val_digit_char [simp]: "d < 10 \<Longrightarrow> digit_val (digit_char d) = d"
  by (simp add: digit_val_def)

lemma digits_val_Nil [simp]: "digits_val [] = 0"
  by (simp add: digits_val_def)

lemma digits_val_snoc [simp]: "digits_val (s @ [c]) = 10 * digits_val s + digit_val c"
  by (simp add: digits_val_def)

lemma digits_val_append: "digits_val (s @ t) = digits_val s * 10 ^ length t + digits_val t"
proof (induction t rule: rev_induct)
  case (snoc c t)
  then show ?case by (simp flip: append_assoc add: algebra_simps)
qed simp

lemma digits_val_zeros [simp]: "digits_val (replicate n (CHR ''0'')) = 0"
proof (induction n)
  case (Suc n)
  then have "digits_val (replicate n (CHR ''0'') @ [CHR ''0'']) = 0"
    by (simp add: digit_val_def byte_def)
  then show ?case by (simp add: replicate_append_same)
qed simp

lemma digits_val_less: "all_digits s \<Longrightarrow> digits_val s < 10 ^ length s"
proof (induction s rule: rev_induct)
  case (snoc c s)
  then have "digits_val s < 10 ^ length s" and "digit_val c < 10"
    by (auto simp: all_digits_def is_digit_def digit_val_def)
  then show ?case by simp
qed simp

lemma all_digits_simps [simp]:
  "all_digits []"
  "all_digits (c # s) \<longleftrightarrow> is_digit c \<and> all_digits s"
  "all_digits (s @ t) \<longleftrightarrow> all_digits s \<and> all_digits t"
  "all_digits (replicate n (CHR ''0''))"
  by (auto simp: all_digits_def is_digit_def byte_def list_all_iff)

lemma digits_val_nat_text [simp]: "digits_val (nat_text n) = n"
  by (induction n rule: nat_text.induct) (subst nat_text.simps, auto simp: digits_val_def [of "[_]"])

lemma all_digits_nat_text [simp]: "all_digits (nat_text n)"
  by (induction n rule: nat_text.induct) (subst nat_text.simps, auto)

lemma nat_text_not_Nil [simp]: "nat_text n \<noteq> []"
  by (subst nat_text.simps) simp

lemma length_nat_text_le: "n < 10 ^ k \<Longrightarrow> 0 < k \<Longrightarrow> length (nat_text n) \<le> k"
proof (induction k arbitrary: n)
  case (Suc k)
  show ?case
  proof (cases "n < 10")
    case True
    then show ?thesis by (subst nat_text.simps) simp
  next
    case False
    with Suc.prems have "n div 10 < 10 ^ k" and "0 < k"
      by (auto intro!: Nat.gr0I)
    then have "length (nat_text (n div 10)) \<le> k" by (rule Suc.IH)
    with False show ?thesis by (subst nat_text.simps) simp
  qed
qed simp

end
