(* ===== verification/Rust_Maps.thy ===== *)
theory Rust_Maps
  imports Rust_Strings
begin

text \<open>
  The ordered containers of the standard library the program keeps its state in. A
  \<open>BTreeMap\<close> is the list of its entries in key order, a \<open>BTreeSet\<close> the list of its
  elements in order, so that iteration (\<open>values\<close>, \<open>iter\<close>) has the order the program
  observes. The two interfaces that the components rely on are locales: a keyed map, and
  the deduplication contract of \<open>BTreeSet::insert\<close>, which reports whether the element is new.
\<close>

section \<open>Ordered maps\<close>

type_synonym ('k, 'v) bmap = "('k \<times> 'v) list"

definition bm_ok :: "('k::linorder, 'v) bmap \<Rightarrow> bool" where
  "bm_ok m \<longleftrightarrow> sorted_wrt (<) (map fst m)"

definition bm_get :: "('k, 'v) bmap \<Rightarrow> 'k \<Rightarrow> 'v option" where
  "bm_get m k = map_of m k"

fun bm_insert :: "'k::linorder \<Rightarrow> 'v \<Rightarrow> ('k, 'v) bmap \<Rightarrow> ('k, 'v) bmap" where
  "bm_insert k v [] = [(k, v)]"
| "bm_insert k v ((a, b) # m) =
     (if k < a then (k, v) # (a, b) # m
      else if k = a then (k, v) # m
      else (a, b) # bm_insert k v m)"

fun bm_remove :: "'k \<Rightarrow> ('k, 'v) bmap \<Rightarrow> ('k, 'v) bmap" where
  "bm_remove k [] = []"
| "bm_remove k ((a, b) # m) = (if k = a then m else (a, b) # bm_remove k m)"

definition bm_values :: "('k, 'v) bmap \<Rightarrow> 'v list" where
  "bm_values m = map snd m"

lemma bm_get_Nil [simp]: "bm_get [] k = None"
  by (simp add: bm_get_def)

lemma bm_get_insert [simp]: "bm_get (bm_insert k v m) k' = (if k' = k then Some v else bm_get m k')"
  by (induction k v m rule: bm_insert.induct) (auto simp: bm_get_def)

lemma bm_keys_insert: "set (map fst (bm_insert k v m)) = insert k (set (map fst m))"
  by (induction k v m rule: bm_insert.induct) auto

lemma bm_ok_Nil [simp]: "bm_ok []"
  by (simp add: bm_ok_def)

lemma bm_ok_insert [simp, invar_intros]: "bm_ok m \<Longrightarrow> bm_ok (bm_insert k v m)"
proof (induction k v m rule: bm_insert.induct)
  case (2 k v a b m)
  then show ?case using bm_keys_insert [of k v m] by (auto simp: bm_ok_def)
qed (simp add: bm_ok_def)

lemma bm_remove_subset: "set (bm_remove k m) \<subseteq> set m"
  by (induction k m rule: bm_remove.induct) auto

lemma bm_ok_remove [simp, invar_intros]: "bm_ok m \<Longrightarrow> bm_ok (bm_remove k m)"
proof (induction m)
  case (Cons p m)
  have "fst ` set (bm_remove k m) \<subseteq> fst ` set m"
    using bm_remove_subset [of k m] by auto
  with Cons show ?case by (cases p) (fastforce simp: bm_ok_def)
qed simp

lemma bm_get_remove: "bm_ok m \<Longrightarrow> bm_get (bm_remove k m) k' = (if k' = k then None else bm_get m k')"
proof (induction m)
  case (Cons p m)
  then have "fst p \<notin> fst ` set m" and "bm_ok m"
    by (cases p; force simp: bm_ok_def)+
  with Cons.IH show ?case
    by (cases p) (auto simp: bm_get_def map_of_eq_None_iff [symmetric])
qed simp

lemma bm_get_in_set: "bm_get m k = Some v \<Longrightarrow> (k, v) \<in> set m"
  by (simp add: bm_get_def map_of_SomeD)

lemma bm_distinct: "bm_ok m \<Longrightarrow> distinct (map fst m)"
  by (simp add: bm_ok_def strict_sorted_iff)

lemma bm_in_set_get: "bm_ok m \<Longrightarrow> (k, v) \<in> set m \<longleftrightarrow> bm_get m k = Some v"
  unfolding bm_get_def by (rule map_of_eq_Some_iff [symmetric]) (rule bm_distinct)

lemma bm_entries_insert: "set (bm_insert k v m) \<subseteq> insert (k, v) (set m)"
  by (induction k v m rule: bm_insert.induct) auto

lemma bm_insert_all:
  "(\<forall>(k, v)\<in>set m. P k v) \<Longrightarrow> P k v \<Longrightarrow> (\<forall>(k, v)\<in>set (bm_insert k v m). P k v)"
  using bm_entries_insert [of k v m] by auto

lemma bm_keys_get: "k \<in> fst ` set m \<longleftrightarrow> bm_get m k \<noteq> None"
  by (auto simp: bm_get_def map_of_eq_None_iff)

lemma bm_ok_filter [simp, invar_intros]: "bm_ok m \<Longrightarrow> bm_ok (filter P m)"
  by (induction m) (auto simp: bm_ok_def)

lemma bm_get_filter:
  assumes "bm_ok m"
  shows "bm_get (filter P m) k = (case bm_get m k of None \<Rightarrow> None | Some v \<Rightarrow> if P (k, v) then Some v else None)"
proof (cases "bm_get m k")
  case None
  then have "k \<notin> fst ` set (filter P m)" using bm_keys_get [of k m] by auto
  with None show ?thesis using bm_keys_get [of k "filter P m"] by simp
next
  case (Some v)
  then have v: "(k, v) \<in> set m" by (rule bm_get_in_set)
  show ?thesis
  proof (cases "P (k, v)")
    case True
    with v have "bm_get (filter P m) k = Some v" by (subst bm_in_set_get [symmetric]) (use assms in auto)
    with True Some show ?thesis by simp
  next
    case False
    have "k \<notin> fst ` set (filter P m)" using False Some bm_in_set_get [OF assms] by auto
    with False Some show ?thesis using bm_keys_get [of k "filter P m"] by simp
  qed
qed

locale keyed_map =
  fixes emp :: "'m"
    and get :: "'m \<Rightarrow> 'k \<Rightarrow> 'v option"
    and ins :: "'k \<Rightarrow> 'v \<Rightarrow> 'm \<Rightarrow> 'm"
    and ok :: "'m \<Rightarrow> bool"
  assumes get_emp: "get emp k = None"
    and get_ins: "get (ins k v m) k' = (if k' = k then Some v else get m k')"
    and ok_emp: "ok emp"
    and ok_ins: "ok m \<Longrightarrow> ok (ins k v m)"
begin

text \<open>
  A map that is only ever extended at absent keys: whatever was stored stays stored.
\<close>

definition extends :: "'m \<Rightarrow> 'm \<Rightarrow> bool" where
  "extends m m' \<longleftrightarrow> (\<forall>k v. get m k = Some v \<longrightarrow> get m' k = Some v)"

lemma extends_refl [simp]: "extends m m"
  by (simp add: extends_def)

lemma extends_trans: "extends m m' \<Longrightarrow> extends m' m'' \<Longrightarrow> extends m m''"
  by (simp add: extends_def)

lemma extends_fresh: "get m k = None \<Longrightarrow> extends m (ins k v m)"
  by (auto simp: extends_def get_ins)

lemma extends_keys: "extends m m' \<Longrightarrow> {k. get m k \<noteq> None} \<subseteq> {k. get m' k \<noteq> None}"
  by (auto simp: extends_def)

end

interpretation bmap: keyed_map "[]" bm_get bm_insert bm_ok
  by unfold_locales auto

section \<open>Ordered sets\<close>

fun bs_put :: "'k::linorder \<Rightarrow> 'k list \<Rightarrow> 'k list" where
  "bs_put k [] = [k]"
| "bs_put k (a # s) = (if k < a then k # a # s else if k = a then a # s else a # bs_put k s)"

text \<open>\<open>BTreeSet::insert\<close>: the flag says whether the element was absent.\<close>

definition bs_insert :: "'k::linorder \<Rightarrow> 'k list \<Rightarrow> bool \<times> 'k list" where
  "bs_insert k s = (k \<notin> set s, bs_put k s)"

lemma set_bs_put [simp]: "set (bs_put k s) = insert k (set s)"
  by (induction k s rule: bs_put.induct) auto

lemma sorted_bs_put: "sorted_wrt (<) s \<Longrightarrow> sorted_wrt (<) (bs_put k s)"
  by (induction k s rule: bs_put.induct) auto

lemma bs_insert_simps [simp]:
  "fst (bs_insert k s) \<longleftrightarrow> k \<notin> set s"
  "set (snd (bs_insert k s)) = insert k (set s)"
  by (simp_all add: bs_insert_def)

definition bs_of_list :: "'k::linorder list \<Rightarrow> 'k list" where
  "bs_of_list xs = fold bs_put xs []"

lemma set_fold_bs_put: "set (fold bs_put xs s) = set xs \<union> set s"
  by (induction xs arbitrary: s) auto

lemma set_bs_of_list [simp]: "set (bs_of_list xs) = set xs"
  by (simp add: bs_of_list_def set_fold_bs_put)

locale dedup =
  fixes seen :: "'s \<Rightarrow> 'k set"
    and mark :: "'k \<Rightarrow> 's \<Rightarrow> bool \<times> 's"
  assumes mark_new: "fst (mark k s) \<longleftrightarrow> k \<notin> seen s"
    and mark_seen: "seen (snd (mark k s)) = insert k (seen s)"
begin

lemma mark_twice: "\<not> fst (mark k (snd (mark k s)))"
  by (simp add: mark_new mark_seen)

lemma mark_other: "k \<noteq> k' \<Longrightarrow> fst (mark k (snd (mark k' s))) = fst (mark k s)"
  by (simp add: mark_new mark_seen)

definition mark_all :: "'k list \<Rightarrow> 's \<Rightarrow> 's" where
  "mark_all ks s = fold (\<lambda>k s. snd (mark k s)) ks s"

lemma seen_mark_all: "seen (mark_all ks s) = set ks \<union> seen s"
  unfolding mark_all_def by (induction ks arbitrary: s) (auto simp: mark_seen)

lemma never_new_again: "k \<in> set ks \<Longrightarrow> \<not> fst (mark k (mark_all ks s))"
  by (simp add: mark_new seen_mark_all)

end

interpretation bset: dedup set bs_insert
  by unfold_locales simp_all

end
