(* ===== verification/Decimal_Lib.thy ===== *)
theory Decimal_Lib
  imports Complex_Main Rust_Maps
begin

text \<open>
  The third-party type \<open>rust_decimal::Decimal\<close>, which is not under \<open>src/\<close>, as a parameter: a
  record \<open>D\<close> of the operations the program calls, over an arbitrary type \<open>'d\<close> of decimals.
  \<open>d_val\<close> is the number a decimal denotes; \<open>Decimal\<close> compares numerically, so the
  comparisons of the program are comparisons of \<open>d_val\<close>. What the program relies on is
  stated in two locales: \<open>decimal_order\<close> (signs and monotonicity, which hold under rounding
  too) and \<open>decimal_exact\<close> (no result was rounded), and a third for the text form. All
  are interpreted on exact decimals of at most 28 places, \<open>dec28\<close>.
\<close>

section \<open>The operations\<close>

record 'd decimal_lib =
  d_val :: "'d \<Rightarrow> rat"
  d_new :: "int \<Rightarrow> nat \<Rightarrow> 'd" \<comment> \<open>\<open>Decimal::new(num, scale)\<close>, \<open>from\<close>, \<open>from_i128_with_scale\<close>\<close>
  d_max :: 'd \<comment> \<open>\<open>Decimal::MAX\<close>\<close>
  d_min :: 'd \<comment> \<open>\<open>Decimal::MIN\<close>\<close>
  d_add :: "'d \<Rightarrow> 'd \<Rightarrow> 'd option" \<comment> \<open>\<open>checked_add\<close>\<close>
  d_sub :: "'d \<Rightarrow> 'd \<Rightarrow> 'd option" \<comment> \<open>\<open>checked_sub\<close>\<close>
  d_mul :: "'d \<Rightarrow> 'd \<Rightarrow> 'd option" \<comment> \<open>\<open>checked_mul\<close>\<close>
  d_div :: "'d \<Rightarrow> 'd \<Rightarrow> 'd option" \<comment> \<open>\<open>checked_div\<close>\<close>
  d_neg :: "'d \<Rightarrow> 'd"
  d_abs :: "'d \<Rightarrow> 'd"
  d_trunc :: "'d \<Rightarrow> 'd"
  d_ceil :: "'d \<Rightarrow> 'd"
  d_round :: "'d \<Rightarrow> 'd"
  d_round_dp :: "nat \<Rightarrow> 'd \<Rightarrow> 'd"
  d_trunc_scale :: "nat \<Rightarrow> 'd \<Rightarrow> 'd" \<comment> \<open>\<open>trunc_with_scale\<close>\<close>
  d_to_i128 :: "'d \<Rightarrow> int option" \<comment> \<open>\<open>to_i128\<close>\<close>
  d_mantissa :: "'d \<Rightarrow> int"
  d_is_neg :: "'d \<Rightarrow> bool" \<comment> \<open>\<open>is_sign_negative\<close>\<close>
  d_text :: "'d \<Rightarrow> string" \<comment> \<open>\<open>to_string\<close>\<close>
  d_norm_text :: "'d \<Rightarrow> string" \<comment> \<open>\<open>normalize().to_string()\<close>\<close>
  d_fmt :: "nat \<Rightarrow> 'd \<Rightarrow> string" \<comment> \<open>\<open>{:.n}\<close>\<close>
  d_parse :: "string \<Rightarrow> 'd option" \<comment> \<open>\<open>str::parse\<close>\<close>

definition d_zero :: "'d decimal_lib \<Rightarrow> 'd" where
  "d_zero D = d_new D 0 0"

definition d_one :: "'d decimal_lib \<Rightarrow> 'd" where
  "d_one D = d_new D 1 0"

abbreviation d_le :: "'d decimal_lib \<Rightarrow> 'd \<Rightarrow> 'd \<Rightarrow> bool" where
  "d_le D a b \<equiv> d_val D a \<le> d_val D b"

abbreviation d_lt :: "'d decimal_lib \<Rightarrow> 'd \<Rightarrow> 'd \<Rightarrow> bool" where
  "d_lt D a b \<equiv> d_val D a < d_val D b"

abbreviation d_eq :: "'d decimal_lib \<Rightarrow> 'd \<Rightarrow> 'd \<Rightarrow> bool" where
  "d_eq D a b \<equiv> d_val D a = d_val D b"

text \<open>\<open>Ord::min\<close> and \<open>Ord::max\<close>: equal arguments give the first, respectively the second.\<close>

definition dmin :: "'d decimal_lib \<Rightarrow> 'd \<Rightarrow> 'd \<Rightarrow> 'd" where
  "dmin D a b = (if d_le D a b then a else b)"

definition dmax :: "'d decimal_lib \<Rightarrow> 'd \<Rightarrow> 'd \<Rightarrow> 'd" where
  "dmax D a b = (if d_le D a b then b else a)"

lemma val_dmin [simp]: "d_val D (dmin D a b) = min (d_val D a) (d_val D b)"
  by (simp add: dmin_def)

lemma val_dmax [simp]: "d_val D (dmax D a b) = max (d_val D a) (d_val D b)"
  by (simp add: dmax_def)

section \<open>What the program relies on\<close>

definition rat_trunc :: "rat \<Rightarrow> rat" where
  "rat_trunc r = (if r < 0 then of_int \<lceil>r\<rceil> else of_int \<lfloor>r\<rfloor>)"

locale decimal_order =
  fixes D :: "'d decimal_lib"
  assumes val_new: "s \<le> 28 \<Longrightarrow> d_val D (d_new D m s) = of_int m / 10 ^ s"
    and add_ge: "d_add D a b = Some c \<Longrightarrow> 0 \<le> d_val D b \<Longrightarrow> d_val D a \<le> d_val D c"
    and add_ge': "d_add D a b = Some c \<Longrightarrow> 0 \<le> d_val D a \<Longrightarrow> d_val D b \<le> d_val D c"
    and sub_le: "d_sub D a b = Some c \<Longrightarrow> 0 \<le> d_val D b \<Longrightarrow> d_val D c \<le> d_val D a"
    and sub_nonneg: "d_sub D a b = Some c \<Longrightarrow> d_val D b \<le> d_val D a \<Longrightarrow> 0 \<le> d_val D c"
    and sub_pos_iff: "d_sub D a b = Some c \<Longrightarrow> 0 < d_val D c \<longleftrightarrow> d_val D b < d_val D a"
    and mul_nonneg: "d_mul D a b = Some c \<Longrightarrow> 0 \<le> d_val D a \<Longrightarrow> 0 \<le> d_val D b \<Longrightarrow> 0 \<le> d_val D c"
    and mul_one: "d_mul D a b = Some c \<Longrightarrow> \<exists>e. d_mul D c (d_new D 1 0) = Some e \<and> d_val D e = d_val D c"
    and val_neg: "d_val D (d_neg D a) = - d_val D a"
    and val_abs: "d_val D (d_abs D a) = \<bar>d_val D a\<bar>"
    and val_trunc: "d_val D (d_trunc D a) = rat_trunc (d_val D a)"
    and val_ceil: "d_val D (d_ceil D a) = of_int \<lceil>d_val D a\<rceil>"
    and trunc_div_mul_le: "d_div D a b = Some q \<Longrightarrow> d_mul D (d_trunc D q) b = Some c \<Longrightarrow>
       0 \<le> d_val D a \<Longrightarrow> 0 < d_val D b \<Longrightarrow> 0 \<le> d_val D c \<and> d_val D c \<le> d_val D a"
begin

lemma val_zero [simp]: "d_val D (d_zero D) = 0"
  by (simp add: d_zero_def val_new)

lemma val_one [simp]: "d_val D (d_one D) = 1"
  by (simp add: d_one_def val_new)

lemma add_nonneg: "d_add D a b = Some c \<Longrightarrow> 0 \<le> d_val D a \<Longrightarrow> 0 \<le> d_val D b \<Longrightarrow> 0 \<le> d_val D c"
  using add_ge order_trans by blast

end

locale decimal_exact = decimal_order +
  assumes add_exact: "d_add D a b = Some c \<Longrightarrow> d_val D c = d_val D a + d_val D b"
    and sub_exact: "d_sub D a b = Some c \<Longrightarrow> d_val D c = d_val D a - d_val D b"
    and mul_exact: "d_mul D a b = Some c \<Longrightarrow> d_val D c = d_val D a * d_val D b"

text \<open>The normalised text of a decimal determines its value, is read back, and holds no separator.\<close>

locale decimal_text =
  fixes D :: "'d decimal_lib"
  assumes norm_text_inj: "d_norm_text D a = d_norm_text D b \<Longrightarrow> d_val D a = d_val D b"
    and norm_text_val: "d_val D a = d_val D b \<Longrightarrow> d_norm_text D a = d_norm_text D b"
    and parse_norm_text: "d_add D a b = Some c \<Longrightarrow> \<exists>e. d_parse D (d_norm_text D c) = Some e \<and> d_val D e = d_val D c"
    and norm_text_chars: "set (d_norm_text D a) \<subseteq> set ''-.0123456789''"

section \<open>Exact decimals\<close>

text \<open>
  The integers as counts of \<open>10\<^sup>-\<^sup>2\<^sup>8\<close>: every operation is exact and answers \<open>None\<close> where the
  result is not representable; a quotient is cut off after 28 places.
\<close>

definition dec_unit :: int where
  "dec_unit = 10000000000000000000000000000"

definition dec_fit :: "int \<Rightarrow> int option" where
  "dec_fit n = (if \<bar>n\<bar> < 2 ^ 96 * dec_unit then Some n else None)"

definition dec_mul :: "int \<Rightarrow> int \<Rightarrow> int option" where
  "dec_mul a b = (if a * b mod dec_unit = 0 then dec_fit (a * b div dec_unit) else None)"

definition dec_quot :: "int \<Rightarrow> int \<Rightarrow> int" where
  "dec_quot a b = sgn a * sgn b * (\<bar>a\<bar> div \<bar>b\<bar>)"

definition dec_div :: "int \<Rightarrow> int \<Rightarrow> int option" where
  "dec_div a b = (if b = 0 then None else dec_fit (dec_quot (a * dec_unit) b))"

definition dec_trunc :: "int \<Rightarrow> int" where
  "dec_trunc n = dec_quot n dec_unit * dec_unit"

definition dec_trunc_scale :: "nat \<Rightarrow> int \<Rightarrow> int" where
  "dec_trunc_scale k n = (let u = dec_unit div 10 ^ k in dec_quot n u * u)"

definition dec_ceil :: "int \<Rightarrow> int" where
  "dec_ceil n = - (- n div dec_unit) * dec_unit"

definition dec_round_dp :: "nat \<Rightarrow> int \<Rightarrow> int" where
  "dec_round_dp k n =
     (let u = dec_unit div 10 ^ k in dec_quot (2 * n + sgn n * u) (2 * u) * u)"

definition dec_text :: "int \<Rightarrow> string" where
  "dec_text n =
     (let m = nat \<bar>n\<bar>; u = nat dec_unit;
          fp = trim_end_char (CHR ''0'') (pad_zero 28 (nat_text (m mod u)))
      in (if n < 0 then ''-'' else []) @ nat_text (m div u) @ (if fp = [] then [] else CHR ''.'' # fp))"

definition dec_digits :: "string \<Rightarrow> string \<Rightarrow> int option" where
  "dec_digits a b =
     (if a \<noteq> [] \<and> all_digits a \<and> all_digits b \<and> length b \<le> 28
      then dec_fit (int (digits_val a) * dec_unit + int (digits_val b * 10 ^ (28 - length b))) else None)"

definition dec_parse :: "string \<Rightarrow> int option" where
  "dec_parse s =
     (let unsigned = (\<lambda>t. case split_once (CHR ''.'') t of None \<Rightarrow> dec_digits t [] | Some (a, b) \<Rightarrow> dec_digits a b)
      in case s of c # t \<Rightarrow> if c = CHR ''-'' then map_option uminus (unsigned t) else unsigned s | [] \<Rightarrow> None)"

definition dec28 :: "int decimal_lib" where
  "dec28 =
     \<lparr> d_val = (\<lambda>n. of_int n / of_int dec_unit),
       d_new = (\<lambda>m s. m * dec_unit div 10 ^ s),
       d_max = (2 ^ 96 - 1) * dec_unit, d_min = - ((2 ^ 96 - 1) * dec_unit),
       d_add = (\<lambda>a b. dec_fit (a + b)),
       d_sub = (\<lambda>a b. dec_fit (a - b)),
       d_mul = dec_mul, d_div = dec_div,
       d_neg = uminus, d_abs = abs, d_trunc = dec_trunc, d_ceil = dec_ceil,
       d_round = dec_round_dp 0, d_round_dp = dec_round_dp,
       d_trunc_scale = dec_trunc_scale, d_to_i128 = (\<lambda>n. Some (dec_quot n dec_unit)),
       d_mantissa = (\<lambda>n. dec_quot n dec_unit), d_is_neg = (\<lambda>n. n < 0),
       d_text = dec_text, d_norm_text = dec_text, d_fmt = (\<lambda>k n. dec_text (dec_round_dp k n)),
       d_parse = dec_parse \<rparr>"

lemma dec28_simps [simp]:
  "d_val dec28 n = of_int n / of_int dec_unit"
  "d_new dec28 m s = m * dec_unit div 10 ^ s"
  "d_add dec28 a b = dec_fit (a + b)"
  "d_sub dec28 a b = dec_fit (a - b)"
  "d_mul dec28 a b = dec_mul a b"
  "d_div dec28 a b = dec_div a b"
  "d_neg dec28 a = - a"
  "d_abs dec28 a = \<bar>a\<bar>"
  "d_trunc dec28 a = dec_trunc a"
  "d_ceil dec28 a = dec_ceil a"
  "d_trunc_scale dec28 k a = dec_trunc_scale k a"
  "d_to_i128 dec28 a = Some (dec_quot a dec_unit)"
  "d_text dec28 a = dec_text a"
  "d_parse dec28 t = dec_parse t"
  "d_norm_text dec28 a = dec_text a"
  by (simp_all add: dec28_def)

lemma dec_unit_pos [simp]: "0 < dec_unit" "dec_unit \<noteq> 0" "0 \<le> dec_unit" "\<not> dec_unit < 0" "\<not> dec_unit \<le> 0" "\<bar>dec_unit\<bar> = dec_unit" "sgn dec_unit = 1"
  by (simp_all add: dec_unit_def)

lemma dec_unit_power: "dec_unit = 10 ^ 28"
  by (simp add: dec_unit_def)

lemma rat_unit_pos [simp]: "0 < (of_int dec_unit :: rat)" "(of_int dec_unit :: rat) \<noteq> 0"
  by simp_all

lemma dec_val_le [simp]: "(of_int a / of_int dec_unit :: rat) \<le> of_int b / of_int dec_unit \<longleftrightarrow> a \<le> b"
  by (subst divide_le_cancel) simp

lemma dec_val_less [simp]: "(of_int a / of_int dec_unit :: rat) < of_int b / of_int dec_unit \<longleftrightarrow> a < b"
  by (subst divide_less_cancel) simp

lemma dec_val_nonneg [simp]: "0 \<le> (of_int a / of_int dec_unit :: rat) \<longleftrightarrow> 0 \<le> a"
  by (simp add: zero_le_divide_iff)

lemma dec_val_pos [simp]: "0 < (of_int a / of_int dec_unit :: rat) \<longleftrightarrow> 0 < a"
  by (simp add: zero_less_divide_iff)

lemma dec_val_neg [simp]: "(of_int a / of_int dec_unit :: rat) < 0 \<longleftrightarrow> a < 0"
  by (simp add: divide_less_0_iff)

lemma dec_fit_Some_iff [simp]: "dec_fit n = Some m \<longleftrightarrow> m = n \<and> \<bar>n\<bar> < 2 ^ 96 * dec_unit"
  by (auto simp: dec_fit_def)

lemma dec_mul_Some: "dec_mul a b = Some c \<Longrightarrow> c * dec_unit = a * b"
  by (auto simp: dec_mul_def split: if_splits)

lemma dec_mul_exact: "dec_mul a b = Some c \<Longrightarrow>
  (of_int c / of_int dec_unit :: rat) = of_int a / of_int dec_unit * (of_int b / of_int dec_unit)"
proof -
  assume "dec_mul a b = Some c"
  then have "(of_int (c * dec_unit) :: rat) = of_int (a * b)"
    by (simp only: dec_mul_Some)
  then show ?thesis by (simp add: field_simps)
qed

lemma dec_mul_nonneg: "dec_mul a b = Some c \<Longrightarrow> 0 \<le> a \<Longrightarrow> 0 \<le> b \<Longrightarrow> 0 \<le> c"
  using dec_mul_Some [of a b c] by (metis dec_unit_pos(1) mult_nonneg_nonneg zero_le_mult_iff not_less)

lemma dec_new_exact: "s \<le> 28 \<Longrightarrow>
  (of_int (m * dec_unit div 10 ^ s) / of_int dec_unit :: rat) = of_int m / 10 ^ s"
proof -
  assume "s \<le> 28"
  then have u: "dec_unit = 10 ^ (28 - s) * 10 ^ s"
    by (simp add: dec_unit_power flip: power_add)
  have "m * dec_unit div 10 ^ s = m * 10 ^ (28 - s)"
    unfolding u by (simp flip: mult.assoc)
  moreover have "(of_int dec_unit :: rat) = 10 ^ (28 - s) * 10 ^ s"
    unfolding u by simp
  ultimately show ?thesis by simp
qed

lemma dec_trunc_val: "(of_int (dec_trunc n) / of_int dec_unit :: rat) = rat_trunc (of_int n / of_int dec_unit)"
proof -
  have "\<lfloor>(of_int n / of_int dec_unit :: rat)\<rfloor> = n div dec_unit"
    by (rule floor_divide_of_int_eq)
  moreover have "\<lceil>(of_int n / of_int dec_unit :: rat)\<rceil> = - (- n div dec_unit)"
    by (rule ceiling_divide_eq_div)
  ultimately show ?thesis
    by (simp add: rat_trunc_def dec_trunc_def dec_quot_def sgn_if)
qed

lemma dec_ceil_val: "(of_int (dec_ceil n) / of_int dec_unit :: rat) = of_int \<lceil>of_int n / of_int dec_unit :: rat\<rceil>"
  by (simp add: dec_ceil_def ceiling_divide_eq_div)

lemma div_mult_le: "0 < b \<Longrightarrow> (a :: int) div b * b \<le> a"
  using div_mult_mod_eq [of a b] pos_mod_sign [of b a] by linarith

lemma dec_trunc_nonneg: "0 \<le> n \<Longrightarrow> 0 \<le> dec_trunc n \<and> dec_trunc n \<le> n"
  by (simp add: dec_trunc_def dec_quot_def sgn_if pos_imp_zdiv_nonneg_iff div_mult_le)

lemma dec_trunc_div_mul:
  assumes "dec_div a b = Some q" and "dec_mul (dec_trunc q) b = Some c" and "0 \<le> a" and "0 < b"
  shows "0 \<le> c \<and> c \<le> a"
proof -
  have q: "q = a * dec_unit div b"
    using assms(1,3,4) by (cases "a = 0") (auto simp: dec_div_def dec_quot_def sgn_mult abs_mult)
  have "0 \<le> q" and "q * b \<le> a * dec_unit"
    unfolding q using assms(3,4) by (simp_all add: pos_imp_zdiv_nonneg_iff div_mult_le)
  moreover have "dec_trunc q * b \<le> q * b"
    using dec_trunc_nonneg [OF \<open>0 \<le> q\<close>] assms(4) by (intro mult_right_mono) auto
  moreover have "0 \<le> dec_trunc q * b"
    using dec_trunc_nonneg [OF \<open>0 \<le> q\<close>] assms(4) by simp
  ultimately have "0 \<le> c * dec_unit" and "c * dec_unit \<le> a * dec_unit"
    unfolding dec_mul_Some [OF assms(2)] by linarith+
  then show ?thesis by (simp add: zero_le_mult_iff)
qed

interpretation exact28: decimal_exact dec28
proof unfold_locales
  show "d_val dec28 (d_trunc dec28 a) = rat_trunc (d_val dec28 a)" for a
    by (simp add: dec_trunc_val)
  show "d_div dec28 a b = Some q \<Longrightarrow> d_mul dec28 (d_trunc dec28 q) b = Some c \<Longrightarrow>
    0 \<le> d_val dec28 a \<Longrightarrow> 0 < d_val dec28 b \<Longrightarrow> 0 \<le> d_val dec28 c \<and> d_val dec28 c \<le> d_val dec28 a" for a b q c
    using dec_trunc_div_mul by simp
  show "d_mul dec28 a b = Some c \<Longrightarrow> 0 \<le> d_val dec28 a \<Longrightarrow> 0 \<le> d_val dec28 b \<Longrightarrow> 0 \<le> d_val dec28 c" for a b c
    using dec_mul_nonneg by simp
  show "d_mul dec28 a b = Some c \<Longrightarrow> \<exists>e. d_mul dec28 c (d_new dec28 1 0) = Some e \<and> d_val dec28 e = d_val dec28 c" for a b c
    by (auto simp: dec_mul_def split: if_splits)
  show "d_mul dec28 a b = Some c \<Longrightarrow> d_val dec28 c = d_val dec28 a * d_val dec28 b" for a b c
    unfolding dec28_simps by (rule dec_mul_exact)
  show "s \<le> 28 \<Longrightarrow> d_val dec28 (d_new dec28 m s) = of_int m / 10 ^ s" for m s
    unfolding dec28_simps by (rule dec_new_exact)
  show "d_val dec28 (d_ceil dec28 a) = of_int \<lceil>d_val dec28 a\<rceil>" for a
    unfolding dec28_simps by (rule dec_ceil_val)
qed (auto simp: add_divide_distrib diff_divide_distrib)

text \<open>The text of an exact decimal determines it.\<close>

definition frac_text :: "int \<Rightarrow> string" where
  "frac_text n = trim_end_char (CHR ''0'') (pad_zero 28 (nat_text (nat \<bar>n\<bar> mod nat dec_unit)))"

lemma dec_text_frac: "dec_text n =
  (if n < 0 then ''-'' else []) @ nat_text (nat \<bar>n\<bar> div nat dec_unit) @
  (if frac_text n = [] then [] else CHR ''.'' # frac_text n)"
  by (simp add: dec_text_def frac_text_def Let_def)

lemma nat_dec_unit: "nat dec_unit = 10 ^ 28"
  by (simp add: dec_unit_def)

lemma frac_text_pad: "\<exists>k. pad_zero 28 (nat_text (nat \<bar>n\<bar> mod nat dec_unit)) = frac_text n @ replicate k (CHR ''0'')"
  unfolding frac_text_def by (rule trim_end_char_decomp)

lemma length_pad_zero: "length s \<le> w \<Longrightarrow> length (pad_zero w s) = w"
  by (simp add: pad_zero_def)

lemma digits_val_pad_zero [simp]: "digits_val (pad_zero w s) = digits_val s"
  by (simp add: pad_zero_def digits_val_append)

lemma all_digits_pad_zero [simp]: "all_digits (pad_zero w s) \<longleftrightarrow> all_digits s"
  by (simp add: pad_zero_def)

lemma frac_text_digits: "all_digits (frac_text n)"
  using frac_text_pad [of n] by (metis all_digits_nat_text all_digits_pad_zero all_digits_simps(3))

lemma frac_text_val: "digits_val (frac_text n) * 10 ^ (28 - length (frac_text n)) = nat \<bar>n\<bar> mod nat dec_unit"
proof -
  obtain k where k: "pad_zero 28 (nat_text (nat \<bar>n\<bar> mod nat dec_unit)) = frac_text n @ replicate k (CHR ''0'')"
    using frac_text_pad by blast
  have "length (nat_text (nat \<bar>n\<bar> mod nat dec_unit)) \<le> 28"
    by (rule length_nat_text_le) (simp_all add: nat_dec_unit)
  then have "length (frac_text n) + k = 28"
    using arg_cong [OF k, of length] length_pad_zero by simp
  moreover have "digits_val (frac_text n) * 10 ^ k = nat \<bar>n\<bar> mod nat dec_unit"
    using arg_cong [OF k, of digits_val] by (simp add: digits_val_append)
  ultimately show ?thesis by (metis add_diff_cancel_left')
qed

lemma dot_not_digit [simp]: "all_digits s \<Longrightarrow> CHR ''.'' \<notin> set s" "all_digits s \<Longrightarrow> CHR ''-'' \<notin> set s"
  by (auto simp: all_digits_def list_all_iff is_digit_def byte_def)

lemma split_dot:
  assumes "all_digits a"
  shows "split_once (CHR ''.'') (a @ (if c = [] then [] else CHR ''.'' # c)) = (if c = [] then None else Some (a, c))"
proof (cases "c = []")
  case True
  with assms show ?thesis by (simp add: split_once_None_iff)
next
  case False
  with assms show ?thesis by (simp add: split_once_Some_iff)
qed

lemma digits_dot_inject:
  assumes "all_digits a" "all_digits b"
    and "a @ (if c = [] then [] else CHR ''.'' # c) = b @ (if d = [] then [] else CHR ''.'' # d)"
  shows "a = b \<and> c = d"
proof -
  have "(if c = [] then None else Some (a, c)) = (if d = [] then None else Some (b, d))"
    using arg_cong [OF assms(3), of "split_once (CHR ''.'')"]
    unfolding split_dot [OF assms(1)] split_dot [OF assms(2)] .
  then consider "c = []" "d = []" | "a = b" "c = d"
    by (auto split: if_splits)
  then show ?thesis using assms(3) by cases simp_all
qed

lemma sign_inject:
  assumes "(if p then [x] else []) @ s = (if q then [x] else []) @ t"
    and "s \<noteq> []" "t \<noteq> []" "hd s \<noteq> x" "hd t \<noteq> x"
  shows "p = q \<and> s = t"
  using assms by (cases p; cases q; cases s; cases t) simp_all

lemma dec_text_inject:
  assumes "dec_text n = dec_text m"
  shows "n = m"
proof -
  define t where "t n = nat_text (nat \<bar>n\<bar> div nat dec_unit) @ (if frac_text n = [] then [] else CHR ''.'' # frac_text n)" for n
  have hd: "hd (t n) \<noteq> CHR ''-''" "t n \<noteq> []" for n
    using dot_not_digit(2) [OF all_digits_nat_text [of "nat \<bar>n\<bar> div nat dec_unit"]]
    unfolding t_def by (metis hd_append2 hd_in_set nat_text_not_Nil, simp)
  have "dec_text n = (if n < 0 then [CHR ''-''] else []) @ t n" for n
    by (simp add: dec_text_frac t_def)
  with assms have "(n < 0) = (m < 0) \<and> t n = t m"
    using sign_inject hd by (metis (no_types, lifting))
  then have "(n < 0) = (m < 0)" and same: "t n = t m"
    by simp_all
  have parts: "nat_text (nat \<bar>n\<bar> div nat dec_unit) = nat_text (nat \<bar>m\<bar> div nat dec_unit)" "frac_text n = frac_text m"
    using digits_dot_inject [OF all_digits_nat_text all_digits_nat_text same [unfolded t_def]] by simp_all
  have "nat \<bar>n\<bar> div nat dec_unit = nat \<bar>m\<bar> div nat dec_unit"
    using arg_cong [OF parts(1), of digits_val] by simp
  moreover have "nat \<bar>n\<bar> mod nat dec_unit = nat \<bar>m\<bar> mod nat dec_unit"
    using frac_text_val [of n] frac_text_val [of m] parts(2) by simp
  ultimately have "nat \<bar>n\<bar> = nat \<bar>m\<bar>"
    by (metis mult_div_mod_eq)
  with \<open>(n < 0) = (m < 0)\<close> show ?thesis by linarith
qed

lemma dec_digits_text:
  assumes "\<bar>n\<bar> < 2 ^ 96 * dec_unit"
  shows "dec_digits (nat_text (nat \<bar>n\<bar> div nat dec_unit)) (frac_text n) = Some \<bar>n\<bar>"
proof -
  obtain k where k: "pad_zero 28 (nat_text (nat \<bar>n\<bar> mod nat dec_unit)) = frac_text n @ replicate k (CHR ''0'')"
    using frac_text_pad by blast
  have "length (nat_text (nat \<bar>n\<bar> mod nat dec_unit)) \<le> 28"
    by (rule length_nat_text_le) (simp_all add: nat_dec_unit)
  then have "length (frac_text n) \<le> 28"
    using arg_cong [OF k, of length] length_pad_zero by simp
  moreover have "int (nat \<bar>n\<bar> div nat dec_unit) * dec_unit + int (nat \<bar>n\<bar> mod nat dec_unit) = int (nat \<bar>n\<bar>)"
    using div_mult_mod_eq [of "nat \<bar>n\<bar>" "nat dec_unit"]
    by (metis int_nat_eq of_nat_add of_nat_mult dec_unit_pos(3))
  ultimately show ?thesis
    using assms by (simp add: dec_digits_def frac_text_digits frac_text_val)
qed

lemma dec_parse_text:
  assumes "\<bar>n\<bar> < 2 ^ 96 * dec_unit"
  shows "dec_parse (dec_text n) = Some n"
proof -
  let ?a = "nat_text (nat \<bar>n\<bar> div nat dec_unit)" and ?b = "frac_text n"
  define t where "t = ?a @ (if ?b = [] then [] else CHR ''.'' # ?b)"
  have unsigned: "(case split_once (CHR ''.'') t of None \<Rightarrow> dec_digits t [] | Some (a, b) \<Rightarrow> dec_digits a b) = Some \<bar>n\<bar>"
    using dec_digits_text [OF assms] unfolding t_def split_dot [OF all_digits_nat_text] by auto
  have "hd t \<noteq> CHR ''-''" "t \<noteq> []"
    using dot_not_digit(2) [OF all_digits_nat_text [of "nat \<bar>n\<bar> div nat dec_unit"]]
    unfolding t_def by (metis hd_append2 hd_in_set nat_text_not_Nil, simp)
  then obtain c r where t: "t = c # r" "c \<noteq> CHR ''-''" by (cases t) auto
  have "dec_text n = (if n < 0 then [CHR ''-''] else []) @ t"
    by (simp add: dec_text_frac t_def)
  then show ?thesis
    using unsigned [unfolded t(1)] t by (cases "n < 0") (simp_all add: dec_parse_def del: split_once.simps)
qed

lemma digit_in_chars:
  assumes "is_digit c"
  shows "c \<in> set ''0123456789''"
proof -
  have "c = char_of (byte c)" by (simp add: byte_def)
  moreover have "byte c \<in> set [48..<58]" unfolding set_upt using assms by (simp add: is_digit_def)
  ultimately have "c \<in> char_of ` set [48..<58 :: nat]" by blast
  also have "char_of ` set [48..<58 :: nat] = set ''0123456789''"
    by (simp only: set_map [symmetric]) code_simp
  finally show ?thesis .
qed

lemma all_digits_chars: "all_digits s \<Longrightarrow> set s \<subseteq> set ''0123456789''"
  using digit_in_chars unfolding all_digits_def list_all_iff by blast

interpretation text28: decimal_text dec28
proof unfold_locales
  fix a
  define S where "S = set ''-.0123456789''"
  have S: "CHR ''-'' \<in> S" "CHR ''.'' \<in> S" "set ''0123456789'' \<subseteq> S"
    unfolding S_def by simp_all
  have "set (dec_text a) \<subseteq> S"
    using S all_digits_chars [OF frac_text_digits [of a]]
      all_digits_chars [OF all_digits_nat_text [of "nat \<bar>a\<bar> div nat dec_unit"]]
    unfolding dec_text_frac set_append by (cases "a < 0"; cases "frac_text a = []") (simp_all, blast+)
  then show "set (d_norm_text dec28 a) \<subseteq> set ''-.0123456789''"
    unfolding dec28_simps S_def .
next
  fix a b
  show "d_norm_text dec28 a = d_norm_text dec28 b \<Longrightarrow> d_val dec28 a = d_val dec28 b"
    using dec_text_inject by fastforce
  show "d_val dec28 a = d_val dec28 b \<Longrightarrow> d_norm_text dec28 a = d_norm_text dec28 b"
    by simp
  show "d_add dec28 a b = Some c \<Longrightarrow> \<exists>e. d_parse dec28 (d_norm_text dec28 c) = Some e \<and> d_val dec28 e = d_val dec28 c" for c
    using dec_parse_text [of c] by auto
qed

end
