(* ===== verification/Trading_Model.thy ===== *)
theory Trading_Model
  imports Decimal_Lib
begin

text \<open>
  \<open>crates/jftrade-trading/src/model.rs\<close>: the order life cycle (\<open>OrderStatus\<close>, the
  canonical form of a broker's status text, \<open>reconcile_status\<close>), order commands with
  their validation and request fingerprint, and the value types the ledger exchanges.
  Timestamps are carried, never computed with: they are of an arbitrary type \<open>'t\<close>.
\<close>

section \<open>Enumerations\<close>

datatype trading_environment = Simulate | Real_Env

fun environment_str :: "trading_environment \<Rightarrow> string" where
  "environment_str Simulate = ''SIMULATE''"
| "environment_str Real_Env = ''REAL''"

datatype order_side = Buy | Sell

fun side_str :: "order_side \<Rightarrow> string" where
  "side_str Buy = ''BUY''"
| "side_str Sell = ''SELL''"

datatype order_status =
    Created | PrecheckRejected | Submitting | SubmissionUnknown | Submitted | BrokerAccepted
  | PartiallyFilled | Filled | CancelRequested | Cancelled | Rejected | Expired | Unknown

definition is_terminal :: "order_status \<Rightarrow> bool" where
  "is_terminal s \<longleftrightarrow> s \<in> {PrecheckRejected, Filled, Cancelled, Rejected, Expired}"

section \<open>Status texts\<close>

definition normalize_status :: "string \<Rightarrow> string" where
  "normalize_status raw = replace_chars (\<lambda>c. c = CHR ''-'' \<or> c = CHR '' '') (CHR ''_'') (upper (trim raw))"

definition canonical_broker_status :: "string \<Rightarrow> order_status" where
  "canonical_broker_status raw =
     (let n0 = normalize_status raw;
          n = (case strip_prefix ''ORDER_STATUS_'' n0 of None \<Rightarrow> n0 | Some r \<Rightarrow> r)
      in if n = ''CREATED'' then Created
         else if n = ''PRECHECK_REJECTED'' then PrecheckRejected
         else if n \<in> {''UNSUBMITTED'', ''WAITING_SUBMIT'', ''SUBMITTING''} then Submitting
         else if n \<in> {''SUBMITTED'', ''NEW'', ''ACCEPTED'', ''BROKER_ACCEPTED''} then BrokerAccepted
         else if n \<in> {''FILLED_PART'', ''PARTIAL_FILLED'', ''PARTIALLY_FILLED''} then PartiallyFilled
         else if n \<in> {''FILLED_ALL'', ''FILLED''} then Filled
         else if n \<in> {''CANCELLING_PART'', ''CANCELLING_ALL'', ''CANCELING'', ''CANCEL_REQUESTED'',
                      ''PENDING_CANCEL''} then CancelRequested
         else if n \<in> {''CANCELLED_PART'', ''CANCELLED_ALL'', ''CANCELLED'', ''CANCELED_PART'',
                      ''CANCELED_ALL'', ''CANCELED'', ''DELETED''} then Cancelled
         else if n \<in> {''SUBMIT_FAILED'', ''SUBMITFAILED'', ''FAILED'', ''REJECTED'', ''DISABLED'',
                      ''FILL_CANCELLED'', ''FILLCANCELLED''} then Rejected
         else if n = ''EXPIRED'' then Expired
         else Unknown)"

definition canonical_stored_status :: "string \<Rightarrow> order_status" where
  "canonical_stored_status raw =
     (let n = normalize_status raw
      in if n = ''CREATED'' then Created
         else if n = ''PRECHECK_REJECTED'' then PrecheckRejected
         else if n = ''SUBMITTING'' then Submitting
         else if n = ''SUBMISSION_UNKNOWN'' then SubmissionUnknown
         else if n = ''SUBMITTED'' then Submitted
         else if n = ''BROKER_ACCEPTED'' then BrokerAccepted
         else if n = ''PARTIALLY_FILLED'' then PartiallyFilled
         else if n = ''FILLED'' then Filled
         else if n = ''CANCEL_REQUESTED'' then CancelRequested
         else if n = ''CANCELLED'' then Cancelled
         else if n = ''REJECTED'' then Rejected
         else if n = ''EXPIRED'' then Expired
         else if n = ''UNKNOWN'' then Unknown
         else canonical_broker_status raw)"

text \<open>The wire form of a status: serde's \<open>SCREAMING_SNAKE_CASE\<close> rename of the variants.\<close>

fun status_wire :: "order_status \<Rightarrow> string" where
  "status_wire Created = ''CREATED''"
| "status_wire PrecheckRejected = ''PRECHECK_REJECTED''"
| "status_wire Submitting = ''SUBMITTING''"
| "status_wire SubmissionUnknown = ''SUBMISSION_UNKNOWN''"
| "status_wire Submitted = ''SUBMITTED''"
| "status_wire BrokerAccepted = ''BROKER_ACCEPTED''"
| "status_wire PartiallyFilled = ''PARTIALLY_FILLED''"
| "status_wire Filled = ''FILLED''"
| "status_wire CancelRequested = ''CANCEL_REQUESTED''"
| "status_wire Cancelled = ''CANCELLED''"
| "status_wire Rejected = ''REJECTED''"
| "status_wire Expired = ''EXPIRED''"
| "status_wire Unknown = ''UNKNOWN''"

section \<open>Reconciliation\<close>

definition reconcile_status :: "order_status \<Rightarrow> order_status \<Rightarrow> order_status \<times> bool" where
  "reconcile_status current incoming =
     (if current = incoming then (current, True)
      else if incoming = Unknown then (current, False)
      else if current = Unknown then (incoming, True)
      else if is_terminal current then (current, False)
      else
        let accepted = (case current of
            Created \<Rightarrow> incoming \<in> {Submitting, Submitted, BrokerAccepted, PartiallyFilled, Filled,
                                  CancelRequested, Cancelled, Rejected, Expired}
          | Submitting \<Rightarrow> incoming \<in> {Submitted, BrokerAccepted, PartiallyFilled, Filled,
                                     CancelRequested, Cancelled, Rejected, Expired}
          | SubmissionUnknown \<Rightarrow> incoming \<in> {Submitted, BrokerAccepted, PartiallyFilled, Filled,
                                            CancelRequested, Cancelled, Rejected, Expired}
          | Submitted \<Rightarrow> incoming \<in> {BrokerAccepted, PartiallyFilled, Filled, CancelRequested,
                                    Cancelled, Rejected, Expired}
          | BrokerAccepted \<Rightarrow> incoming \<in> {PartiallyFilled, Filled, CancelRequested, Cancelled,
                                         Rejected, Expired}
          | PartiallyFilled \<Rightarrow> incoming \<in> {Filled, CancelRequested, Cancelled, Rejected, Expired}
          | CancelRequested \<Rightarrow> incoming \<in> {Filled, Cancelled, Rejected, Expired}
          | PrecheckRejected \<Rightarrow> False
          | Filled \<Rightarrow> False
          | Cancelled \<Rightarrow> False
          | Rejected \<Rightarrow> False
          | Expired \<Rightarrow> False
          | Unknown \<Rightarrow> False)
        in if accepted then (incoming, True) else (current, False))"

text \<open>
  The abstract life cycle: a rank per status. An order moves only to a higher rank, and the
  statuses a broker cannot report (a local pre-check rejection, an unknown submission) are
  never moved to.
\<close>

fun status_rank :: "order_status \<Rightarrow> nat" where
  "status_rank Unknown = 0"
| "status_rank Created = 1"
| "status_rank Submitting = 2"
| "status_rank SubmissionUnknown = 2"
| "status_rank Submitted = 3"
| "status_rank BrokerAccepted = 4"
| "status_rank PartiallyFilled = 5"
| "status_rank CancelRequested = 6"
| "status_rank Filled = 7"
| "status_rank Cancelled = 7"
| "status_rank Rejected = 7"
| "status_rank Expired = 7"
| "status_rank PrecheckRejected = 7"

inductive status_step :: "order_status \<Rightarrow> order_status \<Rightarrow> bool" where
  learn: "incoming \<noteq> Unknown \<Longrightarrow> status_step Unknown incoming"
| advance: "status_rank current < status_rank incoming \<Longrightarrow> current \<noteq> Unknown \<Longrightarrow>
    incoming \<notin> {PrecheckRejected, SubmissionUnknown} \<Longrightarrow> status_step current incoming"

code_pred status_step .

inductive_cases status_step_from: "status_step current incoming"
inductive_simps status_step_iff: "status_step current incoming"

lemma is_terminal_rank: "is_terminal s \<longleftrightarrow> status_rank s = 7"
  by (cases s) (simp_all add: is_terminal_def)

lemma status_rank_le: "status_rank s \<le> 7"
  by (cases s) simp_all

lemma status_step_increases: "status_step s t \<Longrightarrow> status_rank s < status_rank t"
  by (auto elim!: status_step_from) (cases t; simp)

lemma status_step_not_terminal: "status_step s t \<Longrightarrow> \<not> is_terminal s"
  using status_step_increases [of s t] status_rank_le [of t] by (simp add: is_terminal_rank)

lemma reconcile_cases:
  "reconcile_status current incoming =
     (if status_step current incoming then (incoming, True) else (current, current = incoming))"
  by (cases current; cases incoming)
    (simp_all add: reconcile_status_def is_terminal_def status_step_iff)

lemma reconcile_rank_le: "status_rank current \<le> status_rank (fst (reconcile_status current incoming))"
  by (auto simp: reconcile_cases dest: status_step_increases)

lemma reconcile_terminal: "is_terminal current \<Longrightarrow> fst (reconcile_status current incoming) = current"
  by (auto simp: reconcile_cases dest: status_step_not_terminal)

lemma reconcile_accepted: "snd (reconcile_status current incoming) \<Longrightarrow> fst (reconcile_status current incoming) = incoming"
  by (auto simp: reconcile_cases split: if_splits)

interpretation status_machine: growing_machine
  "\<lambda>s i. fst (reconcile_status s i)" "\<lambda>_. True" "\<lambda>s t. status_rank s \<le> status_rank t"
  by unfold_locales (auto simp: reconcile_rank_le)

section \<open>Order commands\<close>

datatype trading_error =
    MissingField string
  | InvalidQuantity
  | InvalidPrice
  | IdempotencyConflict
  | InvalidEvent string
  | ArithmeticError
  | InvalidCheckpoint string
  | InvalidPortfolio string

record 'd order_command =
  idempotency_key :: string
  oc_trace_id :: string
  oc_broker_id :: string
  oc_account_id :: string
  oc_environment :: trading_environment
  oc_market :: string
  oc_symbol :: string
  oc_side :: order_side
  oc_quantity :: 'd
  oc_price :: "'d option"
  client_order_id :: string

definition command_fields :: "'d order_command \<Rightarrow> (string \<times> string) list" where
  "command_fields c =
     [(''idempotencyKey'', idempotency_key c), (''traceId'', oc_trace_id c), (''brokerId'', oc_broker_id c),
      (''accountId'', oc_account_id c), (''market'', oc_market c), (''symbol'', oc_symbol c),
      (''clientOrderId'', client_order_id c)]"

definition check_field :: "string \<times> string \<Rightarrow> trading_error + unit" where
  "check_field fv = (if blank (snd fv) then Inl (MissingField (fst fv)) else Inr ())"

definition command_validate :: "'d decimal_lib \<Rightarrow> 'd order_command \<Rightarrow> trading_error + unit" where
  "command_validate D c =
     rbind (try_fold (\<lambda>_ fv. check_field fv) () (command_fields c)) (\<lambda>_.
     if d_le D (oc_quantity c) (d_zero D) then Inl InvalidQuantity
     else if is_some_and (oc_price c) (\<lambda>p. d_le D p (d_zero D)) then Inl InvalidPrice
     else Inr ())"

definition price_text :: "'d decimal_lib \<Rightarrow> 'd option \<Rightarrow> string" where
  "price_text D p = (case p of None \<Rightarrow> ''market'' | Some v \<Rightarrow> d_norm_text D v)"

definition fingerprint_fields :: "'d decimal_lib \<Rightarrow> 'd order_command \<Rightarrow> string list" where
  "fingerprint_fields D c =
     [lower (trim (oc_broker_id c)), trim (oc_account_id c), environment_str (oc_environment c),
      upper (trim (oc_market c)), upper (trim (oc_symbol c)), side_str (oc_side c),
      d_norm_text D (oc_quantity c), price_text D (oc_price c), trim (client_order_id c)]"

definition request_fingerprint :: "'d decimal_lib \<Rightarrow> 'd order_command \<Rightarrow> string" where
  "request_fingerprint D c = join ''|'' (fingerprint_fields D c)"

record ('d, 't) broker_order_event =
  event_id :: string
  ev_trace_id :: string
  ev_broker_order_id :: string
  ev_sequence :: u64
  raw_status :: string
  fill_id :: "string option"
  fill_quantity :: "'d option"
  occurred_at :: 't

record 't audit_entry =
  au_sequence :: u64
  au_trace_id :: string
  au_action :: string
  au_outcome :: string
  au_detail :: string
  au_at :: 't

record command_plan =
  pl_accepted :: bool
  pl_replayed :: bool
  pl_dispatch :: bool
  pl_idempotency_key :: string
  pl_trace_id :: string
  pl_normalized_request :: string
  pl_reason_code :: "string option"

record 'd order_projection =
  op_broker_order_id :: string
  op_status :: order_status
  op_filled_quantity :: 'd
  op_last_sequence :: u64
  op_accepted_events :: u64
  op_duplicate_events :: u64
  op_stale_events :: u64

datatype event_outcome = Applied | Duplicate | Stale

subsection \<open>Facts about commands\<close>

lemma check_field_Inr [simp]: "check_field fv = Inr u \<longleftrightarrow> \<not> blank (snd fv)"
  by (simp add: check_field_def)

lemma check_fields_Inr:
  "try_fold (\<lambda>_ fv. check_field fv) u fvs = Inr v \<longleftrightarrow> (\<forall>fv\<in>set fvs. \<not> blank (snd fv))"
  by (induction fvs) (auto simp: result_simps)

lemma command_validate_Inr:
  "command_validate D c = Inr u \<longleftrightarrow>
     (\<forall>fv\<in>set (command_fields c). \<not> blank (snd fv)) \<and> d_val D (d_zero D) < d_val D (oc_quantity c) \<and>
     (\<forall>p. oc_price c = Some p \<longrightarrow> d_val D (d_zero D) < d_val D p)"
  by (cases "oc_price c") (auto simp: command_validate_def result_simps check_fields_Inr not_le)

lemma environment_str_inject [simp]: "environment_str a = environment_str b \<longleftrightarrow> a = b"
  by (cases a; cases b) simp_all

lemma side_str_inject [simp]: "side_str a = side_str b \<longleftrightarrow> a = b"
  by (cases a; cases b) simp_all

text \<open>What a request is about once the spelling of its fields is normalised.\<close>

definition command_essence :: "'d decimal_lib \<Rightarrow> 'd order_command \<Rightarrow>
    string \<times> string \<times> trading_environment \<times> string \<times> string \<times> order_side \<times> rat \<times> rat option \<times> string" where
  "command_essence D c =
     (lower (trim (oc_broker_id c)), trim (oc_account_id c), oc_environment c,
      upper (trim (oc_market c)), upper (trim (oc_symbol c)), oc_side c,
      d_val D (oc_quantity c), map_option (d_val D) (oc_price c), trim (client_order_id c))"

definition no_bar :: "string \<Rightarrow> bool" where
  "no_bar s \<longleftrightarrow> CHR ''|'' \<notin> set s"

definition bar_free :: "'d order_command \<Rightarrow> bool" where
  "bar_free c \<longleftrightarrow> list_all no_bar
     [lower (trim (oc_broker_id c)), trim (oc_account_id c), upper (trim (oc_market c)),
      upper (trim (oc_symbol c)), trim (client_order_id c)]"

context decimal_text
begin

lemma norm_text_eq_iff: "d_norm_text D a = d_norm_text D b \<longleftrightarrow> d_val D a = d_val D b"
  using norm_text_inj norm_text_val by blast

lemma norm_text_no_bar: "no_bar (d_norm_text D a)"
proof -
  have "CHR ''|'' \<notin> set ''-.0123456789''" by simp
  then show ?thesis unfolding no_bar_def using norm_text_chars by blast
qed

lemma norm_text_not_market: "d_norm_text D a \<noteq> ''market''"
proof
  assume "d_norm_text D a = ''market''"
  then have "CHR ''m'' \<in> set (d_norm_text D a)" by simp
  moreover have "CHR ''m'' \<notin> set ''-.0123456789''" by simp
  ultimately show False using norm_text_chars by blast
qed

lemma price_text_inject: "price_text D p = price_text D q \<longleftrightarrow> map_option (d_val D) p = map_option (d_val D) q"
  using norm_text_not_market norm_text_not_market [symmetric]
  by (cases p; cases q) (simp_all add: price_text_def norm_text_eq_iff)

lemma price_text_no_bar: "no_bar (price_text D p)"
  using norm_text_no_bar by (cases p) (simp_all add: price_text_def no_bar_def)

lemma fingerprint_fields_no_bar:
  assumes "bar_free c"
  shows "\<forall>w\<in>set (fingerprint_fields D c). CHR ''|'' \<notin> set w"
  using assms norm_text_no_bar price_text_no_bar
  by (cases "oc_environment c"; cases "oc_side c") (simp_all add: fingerprint_fields_def bar_free_def no_bar_def)

lemma fingerprint_fields_inject:
  "fingerprint_fields D c = fingerprint_fields D c' \<longleftrightarrow> command_essence D c = command_essence D c'"
  by (auto simp: fingerprint_fields_def command_essence_def price_text_inject norm_text_eq_iff)

lemma fingerprint_inject:
  assumes "bar_free c" and "bar_free c'"
  shows "request_fingerprint D c = request_fingerprint D c' \<longleftrightarrow> command_essence D c = command_essence D c'"
proof -
  have "request_fingerprint D c = request_fingerprint D c' \<longleftrightarrow> fingerprint_fields D c = fingerprint_fields D c'"
    unfolding request_fingerprint_def
    using join_inject [OF _ _ _ fingerprint_fields_no_bar [OF assms(1)] fingerprint_fields_no_bar [OF assms(2)]]
    by (auto simp: fingerprint_fields_def)
  then show ?thesis by (simp add: fingerprint_fields_inject)
qed

end

lemma check_fields_find:
  "try_fold (\<lambda>_ fv. check_field fv) u fvs =
     (case List.find (\<lambda>fv. blank (snd fv)) fvs of
        Some fv \<Rightarrow> Inl (MissingField (fst fv)) | None \<Rightarrow> Inr ())"
  by (induction fvs arbitrary: u) (simp_all add: check_field_def)

lemma reconcile_run_terminal:
  "is_terminal s \<Longrightarrow> run (\<lambda>s i. fst (reconcile_status s i)) s is = s"
  by (induction "is") (simp_all add: reconcile_terminal)

lemma broker_status_not_local:
  "canonical_broker_status raw \<noteq> Submitted \<and> canonical_broker_status raw \<noteq> SubmissionUnknown"
  by (simp add: canonical_broker_status_def Let_def)

definition sample_command :: "int order_command" where
  "sample_command =
     \<lparr> idempotency_key = ''order-key'', oc_trace_id = ''trace-1'', oc_broker_id = ''futu'',
       oc_account_id = ''acc-1'', oc_environment = Simulate, oc_market = ''US'', oc_symbol = ''AAPL'',
       oc_side = Buy, oc_quantity = d_new dec28 2 0, oc_price = Some (d_new dec28 100 0),
       client_order_id = ''client-1'' \<rparr>"

section \<open>Properties\<close>

text \<open>C31: \<open>reconcile_status\<close> is the order life cycle: it accepts a report exactly when the life
  cycle has that step, or when the report repeats the current status; a refused report leaves
  the status as it was.\<close>

theorem reconcile_is_life_cycle:
  "reconcile_status current incoming =
     (if status_step current incoming then (incoming, True) else (current, current = incoming))"
  by (rule reconcile_cases)

text \<open>Once a sequence of reports has brought an order to a terminal status, no later report
  changes it.\<close>

theorem terminal_status_is_final:
  assumes "is_terminal (run (\<lambda>s i. fst (reconcile_status s i)) s reports)"
  shows "run (\<lambda>s i. fst (reconcile_status s i)) s (reports @ later) =
         run (\<lambda>s i. fst (reconcile_status s i)) s reports"
  using reconcile_run_terminal [OF assms] by simp

theorem terminal_status_is_final_witness:
  "run (\<lambda>s i. fst (reconcile_status s i)) Unknown ([BrokerAccepted, CancelRequested, Filled] @ [Cancelled, PartiallyFilled]) = Filled"
proof -
  have h: "run (\<lambda>s i. fst (reconcile_status s i)) Unknown [BrokerAccepted, CancelRequested, Filled] = Filled"
    by (simp add: reconcile_status_def is_terminal_def)
  then have t: "is_terminal (run (\<lambda>s i. fst (reconcile_status s i)) Unknown [BrokerAccepted, CancelRequested, Filled])"
    unfolding h by (simp add: is_terminal_def)
  show ?thesis using terminal_status_is_final [OF t, of "[Cancelled, PartiallyFilled]"] h by simp
qed

text \<open>A status survives storage: the canonical reading of the stored text of a status is
  that status, for all thirteen.\<close>

theorem stored_status_roundtrip: "canonical_stored_status (status_wire s) = s"
  by (cases s)
    (simp_all add: canonical_stored_status_def normalize_status_def replace_chars_def string_eval Let_def)

text \<open>A command is accepted by validation exactly when all seven text fields are non-blank,
  the quantity is positive and the price, if there is one, is positive; otherwise the error is
  that of the first blank field in declaration order, then of the quantity, then of the price.\<close>

theorem command_validate_spec:
  "command_validate D c =
     (case List.find (\<lambda>fv. blank (snd fv)) (command_fields c) of
        Some fv \<Rightarrow> Inl (MissingField (fst fv))
      | None \<Rightarrow> if d_val D (oc_quantity c) \<le> d_val D (d_zero D) then Inl InvalidQuantity
                else if \<exists>p. oc_price c = Some p \<and> d_val D p \<le> d_val D (d_zero D) then Inl InvalidPrice
                else Inr ())"
  by (simp add: command_validate_def check_fields_find is_some_and_iff split: option.split)

text \<open>The request fingerprint identifies a request: when no field holds the separator
  character, two commands have the same fingerprint exactly when they ask for the same thing,
  whatever the case and the surrounding white space of their fields and the number of trailing
  zeros of their decimals.\<close>

theorem fingerprint_identifies_request:
  assumes "decimal_text D" and "bar_free c" and "bar_free c'"
  shows "request_fingerprint D c = request_fingerprint D c' \<longleftrightarrow> command_essence D c = command_essence D c'"
  using assms by (rule decimal_text.fingerprint_inject)

theorem fingerprint_identifies_request_witness:
  "request_fingerprint dec28 sample_command =
   request_fingerprint dec28 (sample_command\<lparr>oc_broker_id := '' FUTU'', oc_symbol := ''aapl'', oc_trace_id := ''t2''\<rparr>)"
proof -
  let ?c = "sample_command\<lparr>oc_broker_id := '' FUTU'', oc_symbol := ''aapl'', oc_trace_id := ''t2''\<rparr>"
  have "bar_free sample_command" and "bar_free ?c"
    by (simp_all add: bar_free_def no_bar_def sample_command_def string_eval)
  moreover have "command_essence dec28 sample_command = command_essence dec28 ?c"
    by (simp add: command_essence_def sample_command_def string_eval)
  ultimately show ?thesis
    using fingerprint_identifies_request [OF text28.decimal_text_axioms, of sample_command ?c] by blast
qed

text \<open>Without that restriction two different requests can share a fingerprint: a separator inside
  a field moves the field boundary.\<close>

theorem fingerprint_separator_collision:
  "\<exists>c c' :: int order_command. request_fingerprint dec28 c = request_fingerprint dec28 c' \<and>
     command_essence dec28 c \<noteq> command_essence dec28 c'"
proof (intro exI conjI)
  let ?c = "sample_command\<lparr>oc_broker_id := ''futu|x'', oc_account_id := ''acc''\<rparr>"
  let ?c' = "sample_command\<lparr>oc_broker_id := ''futu'', oc_account_id := ''x|acc''\<rparr>"
  show "request_fingerprint dec28 ?c = request_fingerprint dec28 ?c'"
    by (simp add: request_fingerprint_def fingerprint_fields_def sample_command_def string_eval)
  show "command_essence dec28 ?c \<noteq> command_essence dec28 ?c'"
    by (simp add: command_essence_def sample_command_def string_eval)
qed

end
