(* ===== verification/Trading_Risk.thy ===== *)
theory Trading_Risk
  imports Trading_Model
begin

text \<open>
  \<open>crates/jftrade-trading/src/risk.rs\<close>: hard stops, the risk engine of shadow trading, the
  runtime risk limits of a strategy, and the pre-trade gateway in front of real orders with
  its notional computation for combination orders. Each evaluator is proved to decide a
  declarative admissibility condition.
\<close>

section \<open>Hard stops\<close>

record hard_stop =
  hs_id :: "string option"
  hs_broker_id :: "string option"
  hs_trading_environment :: "string option"
  hs_account_id :: "string option"
  hs_market :: "string option"
  hs_symbol :: "string option"

definition owner_matches :: "string option \<Rightarrow> string \<Rightarrow> bool" where
  "owner_matches expected actual =
     (case expected of
        None \<Rightarrow> True
      | Some value \<Rightarrow> let v = trim value in v = [] \<or> v = ''*'' \<or> eq_ignore_case v (trim actual))"

definition exact_matches :: "string option \<Rightarrow> string \<Rightarrow> bool" where
  "exact_matches expected actual =
     (case expected of
        None \<Rightarrow> True
      | Some value \<Rightarrow> trim value = [] \<or> eq_ignore_case (trim value) actual)"

definition symbol_matches :: "string option \<Rightarrow> string \<Rightarrow> string \<Rightarrow> bool" where
  "symbol_matches expected market symbol =
     (case opt_filter (\<lambda>v. v \<noteq> []) (map_option trim expected) of
        None \<Rightarrow> True
      | Some e0 \<Rightarrow>
          let e = upper e0; m = upper (trim market); s = upper (trim symbol)
          in e = s \<or> m \<noteq> [] \<and> e = m @ ''.'' @ s \<or> m \<noteq> [] \<and> s = m @ ''.'' @ e)"

definition hard_stop_matches :: "hard_stop \<Rightarrow> 'd order_command \<Rightarrow> bool" where
  "hard_stop_matches h c \<longleftrightarrow>
     owner_matches (hs_broker_id h) (oc_broker_id c) \<and>
     owner_matches (hs_trading_environment h) (environment_str (oc_environment c)) \<and>
     owner_matches (hs_account_id h) (oc_account_id c) \<and>
     exact_matches (hs_market h) (oc_market c) \<and>
     symbol_matches (hs_symbol h) (oc_market c) (oc_symbol c)"

section \<open>The shadow risk engine\<close>

record 'd risk_config =
  rc_real_trading_enabled :: bool
  rc_kill_switch_active :: bool
  rc_max_order_quantity :: "'d option"
  rc_max_order_notional :: "'d option"
  rc_hard_stops :: "hard_stop list"

record risk_decision =
  rd_allowed :: bool
  rd_reason_code :: "string option"

definition risk_allow :: risk_decision where
  "risk_allow = \<lparr>rd_allowed = True, rd_reason_code = None\<rparr>"

definition risk_reject :: "string \<Rightarrow> risk_decision" where
  "risk_reject reason = \<lparr>rd_allowed = False, rd_reason_code = Some reason\<rparr>"

definition risk_evaluate :: "'d decimal_lib \<Rightarrow> 'd risk_config \<Rightarrow> 'd order_command \<Rightarrow> risk_decision" where
  "risk_evaluate D cfg c =
     (if d_le D (oc_quantity c) (d_zero D) then risk_reject ''INVALID_ORDER_RISK_SHAPE''
      else if is_some_and (oc_price c) (\<lambda>p. d_le D p (d_zero D)) then risk_reject ''INVALID_ORDER_RISK_SHAPE''
      else if oc_environment c = Simulate then risk_allow
      else if \<not> rc_real_trading_enabled cfg then risk_reject ''REAL_TRADING_DISABLED''
      else if rc_kill_switch_active cfg then risk_reject ''REAL_TRADE_KILL_SWITCH_ACTIVE''
      else if list_ex (\<lambda>h. hard_stop_matches h c) (rc_hard_stops cfg) then risk_reject ''REAL_TRADE_HARD_STOP_ACTIVE''
      else if is_some_and (rc_max_order_quantity cfg) (\<lambda>m. d_lt D m (oc_quantity c))
        then risk_reject ''MAX_ORDER_QUANTITY_EXCEEDED''
      else case rc_max_order_notional cfg of
             None \<Rightarrow> risk_allow
           | Some maximum \<Rightarrow>
               (case oc_price c of
                  None \<Rightarrow> risk_reject ''RISK_PRICE_UNAVAILABLE''
                | Some price \<Rightarrow>
                    if d_le D price (d_zero D) then risk_reject ''INVALID_ORDER_RISK_SHAPE''
                    else case d_mul D (oc_quantity c) price of
                           None \<Rightarrow> risk_reject ''INVALID_ORDER_RISK_SHAPE''
                         | Some notional \<Rightarrow>
                             if d_lt D maximum notional then risk_reject ''MAX_ORDER_NOTIONAL_EXCEEDED''
                             else risk_allow))"

lemma risk_decision_simps [simp]:
  "rd_allowed risk_allow" "rd_reason_code risk_allow = None"
  "\<not> rd_allowed (risk_reject r)" "rd_reason_code (risk_reject r) = Some r"
  by (simp_all add: risk_allow_def risk_reject_def)

section \<open>Runtime limits of a strategy\<close>

record 'd runtime_settings =
  rs_mode :: string
  rs_close_only :: bool
  rs_max_order_quantity :: "'d option"
  rs_max_order_notional :: "'d option"
  rs_daily_max_orders :: "i64 option"
  rs_pause_on_reject :: bool

record 'd runtime_order =
  ro_symbol :: string
  ro_side :: string
  ro_quantity :: 'd
  ro_price :: "'d option"

record 'd runtime_context =
  rx_current_price :: "'d option"
  rx_sellable_quantity :: 'd
  rx_today_submitted_order_count :: i64

record runtime_decision =
  rt_matched :: bool
  rt_rejected :: bool
  rt_pause_on_reject :: bool
  rt_reason :: "string option"
  rt_detail :: "string option"

definition runtime_default :: runtime_decision where
  "runtime_default = \<lparr>rt_matched = False, rt_rejected = False, rt_pause_on_reject = False, rt_reason = None, rt_detail = None\<rparr>"

definition runtime_order_from_command :: "'d order_command \<Rightarrow> 'd runtime_order" where
  "runtime_order_from_command c =
     \<lparr>ro_symbol = oc_symbol c, ro_side = side_str (oc_side c), ro_quantity = oc_quantity c, ro_price = oc_price c\<rparr>"

definition normalize_positive_decimal :: "'d decimal_lib \<Rightarrow> 'd option \<Rightarrow> 'd option" where
  "normalize_positive_decimal D x =
     opt_filter (\<lambda>v. d_lt D (d_zero D) v \<and> \<not> d_eq D v (d_max D) \<and> \<not> d_eq D v (d_min D)) x"

definition normalize_mode :: "string \<Rightarrow> string" where
  "normalize_mode m =
     (let n = lower (trim m)
      in if n = ''monitor'' then ''monitor'' else if n = ''enforce'' then ''enforce'' else ''off'')"

definition runtime_normalize :: "'d decimal_lib \<Rightarrow> 'd runtime_settings \<Rightarrow> 'd runtime_settings" where
  "runtime_normalize D s =
     (let s1 = s\<lparr>rs_mode := normalize_mode (rs_mode s),
                  rs_max_order_quantity := normalize_positive_decimal D (rs_max_order_quantity s),
                  rs_max_order_notional := normalize_positive_decimal D (rs_max_order_notional s),
                  rs_daily_max_orders := opt_filter (\<lambda>n. 0 < n) (rs_daily_max_orders s)\<rparr>
      in if rs_mode s1 = ''off''
         then s1\<lparr>rs_close_only := False, rs_max_order_quantity := None, rs_max_order_notional := None,
                  rs_daily_max_orders := None, rs_pause_on_reject := False\<rparr>
         else s1)"

definition positive_price :: "'d decimal_lib \<Rightarrow> 'd option \<Rightarrow> 'd option" where
  "positive_price D p = opt_filter (\<lambda>v. d_lt D (d_zero D) v) p"

definition or_else :: "'a option \<Rightarrow> 'a option \<Rightarrow> 'a option" where
  "or_else a b = (case a of None \<Rightarrow> b | Some v \<Rightarrow> Some v)"

definition close_only_reason :: "'d decimal_lib \<Rightarrow> 'd runtime_order \<Rightarrow> 'd runtime_context \<Rightarrow> string option" where
  "close_only_reason D ord ctx =
     (if upper (trim (ro_side ord)) \<noteq> ''SELL'' then Some ''close_only''
      else let sellable = (case d_add D (rx_sellable_quantity ctx) (d_new D 10 8) of
                             None \<Rightarrow> d_max D | Some v \<Rightarrow> v)
           in if d_lt D sellable (ro_quantity ord) then Some ''close_only_insufficient_position'' else None)"

definition notional_reason :: "'d decimal_lib \<Rightarrow> 'd \<Rightarrow> 'd runtime_order \<Rightarrow> 'd runtime_context \<Rightarrow> string option" where
  "notional_reason D maximum ord ctx =
     (case or_else (positive_price D (ro_price ord)) (positive_price D (rx_current_price ctx)) of
        None \<Rightarrow> Some ''max_order_notional_missing_price''
      | Some price \<Rightarrow>
          (case d_mul D (ro_quantity ord) price of
             None \<Rightarrow> Some ''max_order_notional''
           | Some notional \<Rightarrow> if d_lt D maximum notional then Some ''max_order_notional'' else None))"

definition runtime_reject_reason ::
    "'d decimal_lib \<Rightarrow> 'd runtime_settings \<Rightarrow> 'd runtime_order \<Rightarrow> 'd runtime_context \<Rightarrow> string option" where
  "runtime_reject_reason D s ord ctx =
     or_else (if rs_close_only s then close_only_reason D ord ctx else None)
    (or_else (if is_some_and (rs_max_order_quantity s) (\<lambda>m. d_lt D m (ro_quantity ord))
              then Some ''max_order_quantity'' else None)
    (or_else (case rs_max_order_notional s of None \<Rightarrow> None | Some m \<Rightarrow> notional_reason D m ord ctx)
             (if is_some_and (rs_daily_max_orders s) (\<lambda>m. m \<le> rx_today_submitted_order_count ctx)
              then Some ''daily_max_orders'' else None)))"

definition format_decimal :: "'d decimal_lib \<Rightarrow> 'd \<Rightarrow> string" where
  "format_decimal D v =
     (if d_val D v = 0 then ''0''
      else let text = d_text D (d_round_dp D 4 v)
           in if CHR ''.'' \<in> set text then trim_end_char (CHR ''.'') (trim_end_char (CHR ''0'') text) else text)"

definition optional_decimal_label :: "'d decimal_lib \<Rightarrow> 'd option \<Rightarrow> string" where
  "optional_decimal_label D v = (case v of None \<Rightarrow> ''none'' | Some x \<Rightarrow> format_decimal D x)"

definition bool_text :: "bool \<Rightarrow> string" where
  "bool_text b = (if b then ''true'' else ''false'')"

definition runtime_risk_detail :: "'d decimal_lib \<Rightarrow> 'd runtime_settings \<Rightarrow> 'd runtime_order \<Rightarrow> string \<Rightarrow> string" where
  "runtime_risk_detail D s ord reason =
     ''rule='' @ reason @ '' symbol='' @ ro_symbol ord @ '' side='' @ ro_side ord @
     '' qty='' @ format_decimal D (ro_quantity ord) @ '' mode='' @ rs_mode s @
     '' closeOnly='' @ bool_text (rs_close_only s) @
     '' maxQty='' @ optional_decimal_label D (rs_max_order_quantity s) @
     '' maxNotional='' @ optional_decimal_label D (rs_max_order_notional s) @
     '' dailyMaxOrders='' @ (case rs_daily_max_orders s of None \<Rightarrow> ''none'' | Some n \<Rightarrow> int_text n)"

definition evaluate_runtime_risk ::
    "'d decimal_lib \<Rightarrow> 'd runtime_settings \<Rightarrow> 'd runtime_order \<Rightarrow> 'd runtime_context \<Rightarrow> runtime_decision" where
  "evaluate_runtime_risk D s0 ord ctx =
     (let s = runtime_normalize D s0
      in if rs_mode s = ''off'' then runtime_default
         else case runtime_reject_reason D s ord ctx of
                None \<Rightarrow> runtime_default
              | Some reason \<Rightarrow>
                  \<lparr>rt_matched = True, rt_rejected = (rs_mode s = ''enforce''),
                   rt_pause_on_reject = rs_pause_on_reject s, rt_reason = Some reason,
                   rt_detail = Some (runtime_risk_detail D s ord reason)\<rparr>)"

section \<open>The pre-trade gateway\<close>

record 'd combo_leg =
  lg_symbol :: string
  lg_market :: string
  lg_side :: string
  lg_quantity :: 'd
  lg_multiplier :: 'd
  lg_price :: "'d option"
  lg_product_class :: string

record 'd pre_trade_order =
  pt_broker_id :: string
  pt_trading_environment :: trading_environment
  pt_account_id :: string
  pt_market :: string
  pt_symbol :: string
  pt_side :: string
  pt_order_type :: string
  pt_order_kind :: string
  pt_product_class :: string
  pt_quantity_mode :: string
  pt_quantity :: 'd
  pt_price :: "'d option"
  pt_amount :: "'d option"
  pt_legs :: "'d combo_leg list"

record 'd pre_trade_policy =
  pp_control_plane_available :: bool
  pp_real_trading_enabled :: bool
  pp_kill_switch_active :: bool
  pp_max_order_quantity :: "'d option"
  pp_max_order_notional :: "'d option"
  pp_hard_stops :: "hard_stop list"

record pre_trade_decision =
  pd_allowed :: bool
  pd_reason_code :: "string option"
  pd_reason_message :: "string option"
  pd_matched_hard_stop_id :: "string option"

definition pre_allow :: pre_trade_decision where
  "pre_allow = \<lparr>pd_allowed = True, pd_reason_code = None, pd_reason_message = None, pd_matched_hard_stop_id = None\<rparr>"

definition pre_reject :: "string \<Rightarrow> string \<Rightarrow> pre_trade_decision" where
  "pre_reject code msg =
     \<lparr>pd_allowed = False, pd_reason_code = Some code, pd_reason_message = Some msg, pd_matched_hard_stop_id = None\<rparr>"

definition hard_stop_matches_pre :: "hard_stop \<Rightarrow> 'd pre_trade_order \<Rightarrow> bool" where
  "hard_stop_matches_pre h ord \<longleftrightarrow>
     owner_matches (hs_broker_id h) (pt_broker_id ord) \<and>
     owner_matches (hs_trading_environment h) (environment_str (pt_trading_environment ord)) \<and>
     owner_matches (hs_account_id h) (pt_account_id ord) \<and>
     exact_matches (hs_market h) (pt_market ord) \<and>
     symbol_matches (hs_symbol h) (pt_market ord) (pt_symbol ord)"

definition amount_mode :: "'d pre_trade_order \<Rightarrow> bool" where
  "amount_mode ord \<longleftrightarrow> eq_ignore_case (pt_quantity_mode ord) ''amount''"

definition is_option_class :: "string \<Rightarrow> bool" where
  "is_option_class pc \<longleftrightarrow> eq_ignore_case pc ''option''"

text \<open>Shape validation, of every environment: the quantities, then the prices and multipliers.\<close>

definition quantity_shape :: "'d decimal_lib \<Rightarrow> 'd pre_trade_order \<Rightarrow> pre_trade_decision + unit" where
  "quantity_shape D ord =
     (if amount_mode ord then
        (case pt_amount ord of
           None \<Rightarrow> Inl (pre_reject ''INVALID_ORDER_RISK_SHAPE'' ''order amount is required in amount mode'')
         | Some amount \<Rightarrow>
             if d_le D amount (d_zero D)
             then Inl (pre_reject ''INVALID_ORDER_RISK_SHAPE'' ''order amount must be positive in amount mode'')
             else Inr ())
      else if d_le D (pt_quantity ord) (d_zero D)
      then Inl (pre_reject ''INVALID_ORDER_RISK_SHAPE'' ''order quantity must be positive'')
      else try_fold (\<lambda>_ leg.
             if d_le D (lg_quantity leg) (d_zero D)
             then Inl (pre_reject ''INVALID_ORDER_RISK_SHAPE'' ''combo leg quantity must be positive'')
             else Inr ()) () (pt_legs ord))"

definition leg_price_shape :: "'d decimal_lib \<Rightarrow> 'd combo_leg \<Rightarrow> pre_trade_decision + unit" where
  "leg_price_shape D leg =
     (if is_some_and (lg_price leg) (\<lambda>p. d_le D p (d_zero D))
      then Inl (pre_reject ''INVALID_ORDER_RISK_SHAPE'' ''combo leg price must be positive'')
      else if d_lt D (lg_multiplier leg) (d_zero D)
      then Inl (pre_reject ''INVALID_ORDER_RISK_SHAPE'' ''combo leg multiplier cannot be negative'')
      else Inr ())"

definition price_shape :: "'d decimal_lib \<Rightarrow> 'd pre_trade_order \<Rightarrow> pre_trade_decision + unit" where
  "price_shape D ord =
     (if is_some_and (pt_price ord) (\<lambda>p. d_le D p (d_zero D))
      then Inl (pre_reject ''INVALID_ORDER_RISK_SHAPE'' ''order price must be positive'')
      else try_fold (\<lambda>_. leg_price_shape D) () (pt_legs ord))"

text \<open>The control plane's gates, for real orders.\<close>

definition leg_order :: "'d pre_trade_order \<Rightarrow> 'd combo_leg \<Rightarrow> 'd pre_trade_order" where
  "leg_order ord leg =
     ord\<lparr>pt_market := lg_market leg, pt_symbol := lg_symbol leg, pt_side := lg_side leg,
         pt_product_class := lg_product_class leg, pt_quantity := lg_quantity leg,
         pt_price := lg_price leg, pt_amount := None, pt_legs := []\<rparr>"

definition hard_stop_gate :: "hard_stop list \<Rightarrow> 'd pre_trade_order \<Rightarrow> string \<Rightarrow> pre_trade_decision + unit" where
  "hard_stop_gate hss ord msg =
     (case List.find (\<lambda>h. hard_stop_matches_pre h ord) hss of
        None \<Rightarrow> Inr ()
      | Some h \<Rightarrow> Inl ((pre_reject ''REAL_TRADE_HARD_STOP_ACTIVE'' msg)\<lparr>pd_matched_hard_stop_id := hs_id h\<rparr>))"

definition control_gate :: "'d pre_trade_policy \<Rightarrow> 'd pre_trade_order \<Rightarrow> pre_trade_decision + unit" where
  "control_gate pol ord =
     (if \<not> pp_control_plane_available pol then
        Inl (pre_reject ''PRE_TRADE_RISK_UNAVAILABLE''
          ''pre-trade risk gateway is unavailable; REAL orders are blocked'')
      else if \<not> pp_real_trading_enabled pol then
        Inl (pre_reject ''REAL_TRADING_DISABLED''
          ''real trading is disabled; enable runtime real-trade risk config before placing REAL orders'')
      else if pp_kill_switch_active pol then
        Inl (pre_reject ''REAL_TRADE_KILL_SWITCH_ACTIVE''
          ''real-trade kill switch is active; PLACE orders are blocked'')
      else rbind (hard_stop_gate (pp_hard_stops pol) ord
                    ''real-trade hard stop is active for this order scope; PLACE orders are blocked'') (\<lambda>_.
           try_fold (\<lambda>_ leg. hard_stop_gate (pp_hard_stops pol) (leg_order ord leg)
                    ''real-trade hard stop is active for combo leg scope; PLACE orders are blocked'')
             () (pt_legs ord)))"

definition quantity_gate :: "'d decimal_lib \<Rightarrow> 'd pre_trade_policy \<Rightarrow> 'd pre_trade_order \<Rightarrow> pre_trade_decision + unit" where
  "quantity_gate D pol ord =
     (if amount_mode ord then Inr ()
      else case pp_max_order_quantity pol of
             None \<Rightarrow> Inr ()
           | Some maximum \<Rightarrow>
               if d_lt D maximum (pt_quantity ord)
               then Inl (pre_reject ''MAX_ORDER_QUANTITY_EXCEEDED''
                      ''order quantity exceeds the configured real-trade limit'')
               else try_fold (\<lambda>_ leg.
                      if d_lt D maximum (lg_quantity leg)
                      then Inl (pre_reject ''MAX_ORDER_QUANTITY_EXCEEDED''
                             ''combo leg quantity exceeds the configured real-trade limit'')
                      else Inr ()) () (pt_legs ord))"

text \<open>The notional of an order: its amount, the net of its priced legs, or quantity times price.\<close>

definition shape_error :: pre_trade_decision where
  "shape_error = pre_reject ''INVALID_ORDER_RISK_SHAPE'' ''invalid order risk shape for notional calculation''"

definition mul2 :: "'d decimal_lib \<Rightarrow> 'd \<Rightarrow> 'd \<Rightarrow> 'd \<Rightarrow> 'd option" where
  "mul2 D a b c = Option.bind (d_mul D a b) (\<lambda>v. d_mul D v c)"

definition leg_multiplier :: "'d decimal_lib \<Rightarrow> 'd combo_leg \<Rightarrow> 'd" where
  "leg_multiplier D leg =
     (if d_lt D (d_zero D) (lg_multiplier leg) then lg_multiplier leg
      else if is_option_class (lg_product_class leg) then d_new D 100 0
      else d_one D)"

definition add_leg_notional :: "'d decimal_lib \<Rightarrow> 'd \<Rightarrow> 'd combo_leg \<times> 'd \<Rightarrow> pre_trade_decision + 'd" where
  "add_leg_notional D net lp =
     (let leg = fst lp; price = snd lp
      in if d_le D price (d_zero D)
         then Inl (pre_reject ''INVALID_ORDER_RISK_SHAPE'' ''combo leg price must be positive'')
         else rbind (ok_or (mul2 D (lg_quantity leg) price (leg_multiplier D leg)) shape_error) (\<lambda>notional.
              ok_or (if eq_ignore_case (lg_side leg) ''sell'' then d_sub D net notional else d_add D net notional)
                    shape_error))"

fun priced_legs :: "'d combo_leg list \<Rightarrow> ('d combo_leg \<times> 'd) list option" where
  "priced_legs [] = Some []"
| "priced_legs (leg # legs) =
     (case lg_price leg of
        None \<Rightarrow> None
      | Some p \<Rightarrow> map_option (\<lambda>r. (leg, p) # r) (priced_legs legs))"

definition calculate_combo_notional :: "'d decimal_lib \<Rightarrow> 'd pre_trade_order \<Rightarrow> pre_trade_decision + 'd" where
  "calculate_combo_notional D ord =
     (case priced_legs (pt_legs ord) of
        Some legs \<Rightarrow> rbind (try_fold (add_leg_notional D) (d_zero D) legs) (\<lambda>net. Inr (d_abs D net))
      | None \<Rightarrow>
          (case pt_price ord of
             Some combo_price \<Rightarrow>
               if d_le D combo_price (d_zero D)
               then Inl (pre_reject ''INVALID_ORDER_RISK_SHAPE'' ''order price must be positive'')
               else ok_or (mul2 D (pt_quantity ord) (d_abs D combo_price)
                      (if list_ex (\<lambda>l. is_option_class (lg_product_class l)) (pt_legs ord) \<or>
                          is_option_class (pt_product_class ord)
                       then d_new D 100 0 else d_one D)) shape_error
           | None \<Rightarrow> Inl (pre_reject ''RISK_PRICE_UNAVAILABLE''
               ''order price or leg prices are required to enforce the configured real-trade notional limit'')))"

definition order_notional :: "'d decimal_lib \<Rightarrow> 'd pre_trade_order \<Rightarrow> pre_trade_decision + 'd" where
  "order_notional D ord =
     (if amount_mode ord then
        ok_or (pt_amount ord) (pre_reject ''RISK_AMOUNT_UNAVAILABLE''
          ''order amount is required to enforce the configured real-trade limit'')
      else if pt_legs ord \<noteq> [] then calculate_combo_notional D ord
      else case pt_price ord of
             None \<Rightarrow> Inl (pre_reject ''RISK_PRICE_UNAVAILABLE''
               ''order price is required to enforce the configured real-trade notional limit'')
           | Some price \<Rightarrow>
               if d_le D price (d_zero D)
               then Inl (pre_reject ''INVALID_ORDER_RISK_SHAPE'' ''order price must be positive'')
               else ok_or (mul2 D (pt_quantity ord) price
                      (if is_option_class (pt_product_class ord) then d_new D 100 0 else d_one D)) shape_error)"

definition notional_gate :: "'d decimal_lib \<Rightarrow> 'd pre_trade_policy \<Rightarrow> 'd pre_trade_order \<Rightarrow> pre_trade_decision + unit" where
  "notional_gate D pol ord =
     (case pp_max_order_notional pol of
        None \<Rightarrow> Inr ()
      | Some maximum \<Rightarrow>
          rbind (order_notional D ord) (\<lambda>v.
          if d_lt D maximum v
          then Inl (pre_reject ''MAX_ORDER_NOTIONAL_EXCEEDED'' ''order notional exceeds the configured real-trade limit'')
          else Inr ()))"

definition settle :: "pre_trade_decision + unit \<Rightarrow> pre_trade_decision" where
  "settle m = (case m of Inl d \<Rightarrow> d | Inr _ \<Rightarrow> pre_allow)"

definition evaluate_pre_trade_risk ::
    "'d decimal_lib \<Rightarrow> 'd pre_trade_policy \<Rightarrow> 'd pre_trade_order \<Rightarrow> pre_trade_decision" where
  "evaluate_pre_trade_risk D pol ord =
     settle (rbind (quantity_shape D ord) (\<lambda>_.
             rbind (price_shape D ord) (\<lambda>_.
             if pt_trading_environment ord = Simulate then Inr ()
             else rbind (control_gate pol ord) (\<lambda>_.
                  rbind (quantity_gate D pol ord) (\<lambda>_.
                  notional_gate D pol ord)))))"

section \<open>What the evaluators decide\<close>

subsection \<open>The pre-trade gateway\<close>

definition order_shape_ok :: "'d decimal_lib \<Rightarrow> 'd pre_trade_order \<Rightarrow> bool" where
  "order_shape_ok D ord \<longleftrightarrow>
     (if amount_mode ord then \<exists>a. pt_amount ord = Some a \<and> d_lt D (d_zero D) a
      else d_lt D (d_zero D) (pt_quantity ord) \<and> (\<forall>leg\<in>set (pt_legs ord). d_lt D (d_zero D) (lg_quantity leg))) \<and>
     (\<forall>p. pt_price ord = Some p \<longrightarrow> d_lt D (d_zero D) p) \<and>
     (\<forall>leg\<in>set (pt_legs ord). (\<forall>p. lg_price leg = Some p \<longrightarrow> d_lt D (d_zero D) p) \<and>
        d_le D (d_zero D) (lg_multiplier leg))"

definition hard_stopped :: "hard_stop list \<Rightarrow> 'd pre_trade_order \<Rightarrow> bool" where
  "hard_stopped hss ord \<longleftrightarrow>
     (\<exists>h\<in>set hss. hard_stop_matches_pre h ord \<or>
        (\<exists>leg\<in>set (pt_legs ord). hard_stop_matches_pre h (leg_order ord leg)))"

definition within_limits :: "'d decimal_lib \<Rightarrow> 'd pre_trade_policy \<Rightarrow> 'd pre_trade_order \<Rightarrow> bool" where
  "within_limits D pol ord \<longleftrightarrow>
     (\<forall>m. pp_max_order_quantity pol = Some m \<longrightarrow> \<not> amount_mode ord \<longrightarrow>
        d_le D (pt_quantity ord) m \<and> (\<forall>leg\<in>set (pt_legs ord). d_le D (lg_quantity leg) m)) \<and>
     (\<forall>m. pp_max_order_notional pol = Some m \<longrightarrow> (\<exists>v. order_notional D ord = Inr v \<and> d_le D v m))"

definition pre_trade_admissible :: "'d decimal_lib \<Rightarrow> 'd pre_trade_policy \<Rightarrow> 'd pre_trade_order \<Rightarrow> bool" where
  "pre_trade_admissible D pol ord \<longleftrightarrow> order_shape_ok D ord \<and>
     (pt_trading_environment ord = Simulate \<or>
      pp_control_plane_available pol \<and> pp_real_trading_enabled pol \<and> \<not> pp_kill_switch_active pol \<and>
      \<not> hard_stopped (pp_hard_stops pol) ord \<and> within_limits D pol ord)"

lemma try_fold_unit_Inr:
  "try_fold (\<lambda>_ x. f x) u xs = Inr v \<longleftrightarrow> (\<forall>x\<in>set xs. f x = Inr ())" for f :: "'a \<Rightarrow> 'e + unit"
  by (induction xs arbitrary: u) (auto simp: result_simps)

lemma pre_allow_simps [simp]: "pd_allowed pre_allow" "\<not> pd_allowed (pre_reject c m)"
  "pd_reason_code (pre_reject c m) = Some c" "pd_reason_code pre_allow = None"
  by (simp_all add: pre_allow_def pre_reject_def)

lemma quantity_shape_Inr: "quantity_shape D ord = Inr u \<longleftrightarrow>
  (if amount_mode ord then \<exists>a. pt_amount ord = Some a \<and> d_lt D (d_zero D) a
   else d_lt D (d_zero D) (pt_quantity ord) \<and> (\<forall>leg\<in>set (pt_legs ord). d_lt D (d_zero D) (lg_quantity leg)))"
  by (auto simp: quantity_shape_def try_fold_unit_Inr not_le split: option.splits)

lemma leg_price_shape_Inr: "leg_price_shape D leg = Inr u \<longleftrightarrow>
  (\<forall>p. lg_price leg = Some p \<longrightarrow> d_lt D (d_zero D) p) \<and> d_le D (d_zero D) (lg_multiplier leg)"
  by (cases "lg_price leg") (auto simp: leg_price_shape_def not_le not_less)

lemma price_shape_Inr: "price_shape D ord = Inr u \<longleftrightarrow>
  (\<forall>p. pt_price ord = Some p \<longrightarrow> d_lt D (d_zero D) p) \<and>
  (\<forall>leg\<in>set (pt_legs ord). (\<forall>p. lg_price leg = Some p \<longrightarrow> d_lt D (d_zero D) p) \<and> d_le D (d_zero D) (lg_multiplier leg))"
  by (cases "pt_price ord") (auto simp: price_shape_def try_fold_unit_Inr leg_price_shape_Inr not_le)

lemma hard_stop_gate_Inr: "hard_stop_gate hss ord msg = Inr u \<longleftrightarrow> (\<forall>h\<in>set hss. \<not> hard_stop_matches_pre h ord)"
  by (auto simp: hard_stop_gate_def find_None_iff find_Some_iff split: option.splits)

lemma control_gate_Inr: "control_gate pol ord = Inr u \<longleftrightarrow>
  pp_control_plane_available pol \<and> pp_real_trading_enabled pol \<and> \<not> pp_kill_switch_active pol \<and>
  \<not> hard_stopped (pp_hard_stops pol) ord"
  by (auto simp: control_gate_def result_simps hard_stop_gate_Inr try_fold_unit_Inr hard_stopped_def)

lemma limit_gates_Inr: "rbind (quantity_gate D pol ord) (\<lambda>_. notional_gate D pol ord) = Inr u \<longleftrightarrow> within_limits D pol ord"
  by (auto simp: quantity_gate_def notional_gate_def result_simps try_fold_unit_Inr within_limits_def not_less
      split: option.splits)

lemma evaluate_pre_trade_stages: "evaluate_pre_trade_risk D pol ord =
  settle (rbind (rbind (quantity_shape D ord) (\<lambda>_. price_shape D ord)) (\<lambda>_.
    if pt_trading_environment ord = Simulate then Inr ()
    else rbind (control_gate pol ord) (\<lambda>_. rbind (quantity_gate D pol ord) (\<lambda>_. notional_gate D pol ord))))"
  by (cases "quantity_shape D ord") (simp_all add: evaluate_pre_trade_risk_def)

text \<open>Every rejection is a decision that does not allow.\<close>

definition rejects :: "pre_trade_decision + 'a \<Rightarrow> bool" where
  "rejects m \<longleftrightarrow> (\<forall>d. m = Inl d \<longrightarrow> \<not> pd_allowed d)"

lemma rejects_rbind: "rejects m \<Longrightarrow> (\<And>v. rejects (f v)) \<Longrightarrow> rejects (rbind m f)"
  by (cases m) (auto simp: rejects_def)

lemma rejects_try_fold: "(\<And>s x. rejects (f s x)) \<Longrightarrow> rejects (try_fold f s xs)"
  by (induction xs arbitrary: s) (auto simp: rejects_def result_simps)

lemma rejects_simps [simp]:
  "rejects (Inr v)" "rejects (Inl (pre_reject c m))" "rejects (ok_or x (pre_reject c m))"
  by (auto simp: rejects_def)

lemma rejects_shape: "rejects (quantity_shape D ord)" "rejects (price_shape D ord)"
  by (auto simp: quantity_shape_def price_shape_def leg_price_shape_def intro!: rejects_try_fold split: option.splits)

lemma rejects_hard_stop_gate: "rejects (hard_stop_gate hss ord msg)"
  by (auto simp: hard_stop_gate_def rejects_def pre_reject_def split: option.splits)

lemma rejects_control: "rejects (control_gate pol ord)"
  by (auto simp: control_gate_def intro!: rejects_rbind rejects_try_fold rejects_hard_stop_gate)

lemma rejects_notional: "rejects (order_notional D ord)"
  by (auto simp: order_notional_def calculate_combo_notional_def add_leg_notional_def shape_error_def Let_def
      intro!: rejects_rbind rejects_try_fold split: option.splits)

lemma rejects_limits: "rejects (rbind (quantity_gate D pol ord) (\<lambda>_. notional_gate D pol ord))"
  by (auto simp: quantity_gate_def notional_gate_def
      intro!: rejects_rbind rejects_try_fold rejects_notional split: option.splits)

lemma settle_allowed: "rejects m \<Longrightarrow> pd_allowed (settle m) \<longleftrightarrow> m = Inr ()"
  by (cases m) (auto simp: settle_def rejects_def)

lemma evaluate_pre_trade_allowed:
  "pd_allowed (evaluate_pre_trade_risk D pol ord) \<longleftrightarrow> pre_trade_admissible D pol ord"
proof -
  let ?shape = "rbind (quantity_shape D ord) (\<lambda>_. price_shape D ord)"
  let ?real = "rbind (control_gate pol ord) (\<lambda>_. rbind (quantity_gate D pol ord) (\<lambda>_. notional_gate D pol ord))"
  have "rejects (rbind ?shape (\<lambda>_. if pt_trading_environment ord = Simulate then Inr () else ?real))"
    by (auto intro!: rejects_rbind [of ?shape] rejects_rbind [of "quantity_shape D ord"]
        rejects_rbind [of "control_gate pol ord"] simp: rejects_shape rejects_control rejects_limits)
  moreover have "?shape = Inr () \<longleftrightarrow> order_shape_ok D ord"
    by (auto simp: result_simps quantity_shape_Inr price_shape_Inr order_shape_ok_def)
  moreover have "?real = Inr () \<longleftrightarrow> pp_control_plane_available pol \<and> pp_real_trading_enabled pol \<and>
      \<not> pp_kill_switch_active pol \<and> \<not> hard_stopped (pp_hard_stops pol) ord \<and> within_limits D pol ord"
    by (auto simp: rbind_Inr_iff [of "control_gate pol ord"] control_gate_Inr limit_gates_Inr)
  ultimately show ?thesis
    unfolding evaluate_pre_trade_stages pre_trade_admissible_def
    by (cases "?shape") (auto simp: settle_allowed)
qed

subsection \<open>The notional of a combination\<close>

definition signed_notional :: "'d decimal_lib \<Rightarrow> 'd combo_leg \<Rightarrow> 'd \<Rightarrow> rat" where
  "signed_notional D leg p =
     (if eq_ignore_case (lg_side leg) ''sell'' then - 1 else 1) *
     (d_val D (lg_quantity leg) * d_val D p * d_val D (leg_multiplier D leg))"

lemma priced_legs_Some: "priced_legs legs = Some ps \<longleftrightarrow>
  map fst ps = legs \<and> (\<forall>(leg, p)\<in>set ps. lg_price leg = Some p)"
proof (induction legs arbitrary: ps)
  case Nil
  then show ?case by auto
next
  case (Cons leg legs)
  show ?case
  proof (cases ps)
    case Nil
    then show ?thesis by (auto split: option.splits)
  next
    case (Cons q qs)
    then show ?thesis using Cons.IH [of qs] by (cases q) (auto split: option.splits)
  qed
qed

context decimal_exact
begin

lemma mul2_exact: "mul2 D a b c = Some v \<Longrightarrow> d_val D v = d_val D a * d_val D b * d_val D c"
  by (auto simp: mul2_def bind_eq_Some_conv mul_exact)

lemma add_leg_notional_exact:
  "add_leg_notional D net (leg, p) = Inr net' \<Longrightarrow> d_val D net' = d_val D net + signed_notional D leg p"
  by (cases "eq_ignore_case (lg_side leg) ''sell''")
    (auto simp: add_leg_notional_def signed_notional_def Let_def result_simps mul2_exact add_exact sub_exact
      split: if_splits)

lemma fold_leg_notional_exact:
  "try_fold (add_leg_notional D) net ps = Inr net' \<Longrightarrow>
   d_val D net' = d_val D net + (\<Sum>(leg, p)\<leftarrow>ps. signed_notional D leg p)"
proof (induction ps arbitrary: net)
  case (Cons q ps)
  then show ?case
    by (cases q) (auto simp: result_simps dest: add_leg_notional_exact)
qed simp

lemma combo_notional_exact:
  assumes "calculate_combo_notional D ord = Inr v" and "priced_legs (pt_legs ord) = Some ps"
  shows "d_val D v = \<bar>\<Sum>(leg, p)\<leftarrow>ps. signed_notional D leg p\<bar>"
  using assms fold_leg_notional_exact [of "d_zero D" ps]
  by (auto simp: calculate_combo_notional_def result_simps val_abs)

end

subsection \<open>The shadow engine and the gateway agree\<close>

definition policy_of_config :: "'d risk_config \<Rightarrow> 'd pre_trade_policy" where
  "policy_of_config cfg =
     \<lparr>pp_control_plane_available = True, pp_real_trading_enabled = rc_real_trading_enabled cfg,
      pp_kill_switch_active = rc_kill_switch_active cfg, pp_max_order_quantity = rc_max_order_quantity cfg,
      pp_max_order_notional = rc_max_order_notional cfg, pp_hard_stops = rc_hard_stops cfg\<rparr>"

definition order_of_command :: "'d order_command \<Rightarrow> 'd pre_trade_order" where
  "order_of_command c =
     \<lparr>pt_broker_id = oc_broker_id c, pt_trading_environment = oc_environment c, pt_account_id = oc_account_id c,
      pt_market = oc_market c, pt_symbol = oc_symbol c, pt_side = side_str (oc_side c), pt_order_type = [],
      pt_order_kind = [], pt_product_class = [], pt_quantity_mode = [], pt_quantity = oc_quantity c,
      pt_price = oc_price c, pt_amount = None, pt_legs = []\<rparr>"

lemma order_of_command_simps [simp]:
  "\<not> amount_mode (order_of_command c)"
  "\<not> is_option_class (pt_product_class (order_of_command c))"
  "pt_legs (order_of_command c) = []"
  "pt_quantity (order_of_command c) = oc_quantity c"
  "pt_price (order_of_command c) = oc_price c"
  "pt_trading_environment (order_of_command c) = oc_environment c"
  "hard_stop_matches_pre h (order_of_command c) = hard_stop_matches h c"
  by (simp_all add: order_of_command_def amount_mode_def is_option_class_def eq_ignore_case_def lower_def
      hard_stop_matches_pre_def hard_stop_matches_def)

lemma find_none_list_ex: "List.find p xs = None \<longleftrightarrow> \<not> list_ex p xs"
  by (auto simp: find_None_iff list_ex_iff)

lemma settle_simps [simp]: "settle (Inl d) = d" "settle (Inr u) = pre_allow"
  by (simp_all add: settle_def)

lemma hard_stop_gate_cases:
  obtains "hard_stop_gate hss (order_of_command c) msg = Inr ()" "\<not> list_ex (\<lambda>h. hard_stop_matches h c) hss"
  | d where "hard_stop_gate hss (order_of_command c) msg = Inl d" "list_ex (\<lambda>h. hard_stop_matches h c) hss"
    "\<not> pd_allowed d" "pd_reason_code d = Some ''REAL_TRADE_HARD_STOP_ACTIVE''"
  by (cases "List.find (\<lambda>h. hard_stop_matches h c) hss")
    (auto simp: hard_stop_gate_def pre_reject_def find_none_list_ex, (metis find_none_list_ex option.distinct(1)))

context decimal_order
begin

lemma mul2_one: "d_mul D a b = None \<Longrightarrow> mul2 D a b (d_one D) = None"
  "d_mul D a b = Some v \<Longrightarrow> \<exists>w. mul2 D a b (d_one D) = Some w \<and> d_val D w = d_val D v"
  using mul_one by (auto simp: mul2_def d_one_def)

lemma mul2_one_limit:
  "rbind (ok_or (mul2 D a b (d_one D)) e) (\<lambda>v. if d_lt D m v then Inl x else Inr ()) =
   (case d_mul D a b of None \<Rightarrow> Inl e | Some n \<Rightarrow> if d_lt D m n then Inl x else Inr ())"
  using mul2_one [of a b] by (cases "d_mul D a b") auto

lemma risk_engine_agrees:
  fixes cfg c
  defines "d \<equiv> evaluate_pre_trade_risk D (policy_of_config cfg) (order_of_command c)"
    and "r \<equiv> risk_evaluate D cfg c"
  shows "pd_allowed d = rd_allowed r \<and> pd_reason_code d = rd_reason_code r"
proof (cases "d_le D (oc_quantity c) (d_zero D) \<or> is_some_and (oc_price c) (\<lambda>p. d_le D p (d_zero D)) \<or>
    oc_environment c = Simulate")
  case True
  then show ?thesis
    by (auto simp: d_def r_def evaluate_pre_trade_risk_def risk_evaluate_def quantity_shape_def price_shape_def)
next
  case False
  then have shape: "d = settle (rbind (control_gate (policy_of_config cfg) (order_of_command c)) (\<lambda>_.
      rbind (quantity_gate D (policy_of_config cfg) (order_of_command c)) (\<lambda>_.
      notional_gate D (policy_of_config cfg) (order_of_command c))))"
    by (simp add: d_def evaluate_pre_trade_risk_def quantity_shape_def price_shape_def)
  show ?thesis
    by (rule hard_stop_gate_cases [of "rc_hard_stops cfg" c
          "''real-trade hard stop is active for this order scope; PLACE orders are blocked''"];
        cases "rc_max_order_quantity cfg"; cases "rc_max_order_notional cfg"; cases "oc_price c")
      (use False in \<open>auto simp: mul2_one_limit shape r_def risk_evaluate_def control_gate_def policy_of_config_def
        quantity_gate_def notional_gate_def order_notional_def shape_error_def split: option.splits\<close>)
qed

end

subsection \<open>Runtime limits\<close>

definition runtime_admissible ::
    "'d decimal_lib \<Rightarrow> 'd runtime_settings \<Rightarrow> 'd runtime_order \<Rightarrow> 'd runtime_context \<Rightarrow> bool" where
  "runtime_admissible D s ord ctx \<longleftrightarrow>
     (rs_close_only s \<longrightarrow> upper (trim (ro_side ord)) = ''SELL'' \<and>
        (case d_add D (rx_sellable_quantity ctx) (d_new D 10 8) of
           None \<Rightarrow> d_le D (ro_quantity ord) (d_max D)
         | Some sellable \<Rightarrow> d_le D (ro_quantity ord) sellable)) \<and>
     (\<forall>m. rs_max_order_quantity s = Some m \<longrightarrow> d_le D (ro_quantity ord) m) \<and>
     (\<forall>m. rs_max_order_notional s = Some m \<longrightarrow>
        (\<exists>p n. or_else (positive_price D (ro_price ord)) (positive_price D (rx_current_price ctx)) = Some p \<and>
               d_mul D (ro_quantity ord) p = Some n \<and> d_le D n m)) \<and>
     (\<forall>m. rs_daily_max_orders s = Some m \<longrightarrow> rx_today_submitted_order_count ctx < m)"

lemma or_else_simps [simp]: "or_else None b = b" "or_else (Some v) b = Some v"
  by (simp_all add: or_else_def)

lemma or_else_None [simp]: "or_else a b = None \<longleftrightarrow> a = None \<and> b = None"
  by (cases a) (simp_all add: or_else_def)

lemma close_only_reason_None: "close_only_reason D ord ctx = None \<longleftrightarrow>
  upper (trim (ro_side ord)) = ''SELL'' \<and>
  (case d_add D (rx_sellable_quantity ctx) (d_new D 10 8) of
     None \<Rightarrow> d_le D (ro_quantity ord) (d_max D) | Some sellable \<Rightarrow> d_le D (ro_quantity ord) sellable)"
  by (auto simp: close_only_reason_def Let_def not_less split: option.splits)

lemma notional_reason_None: "notional_reason D m ord ctx = None \<longleftrightarrow>
  (\<exists>p n. or_else (positive_price D (ro_price ord)) (positive_price D (rx_current_price ctx)) = Some p \<and>
         d_mul D (ro_quantity ord) p = Some n \<and> d_le D n m)"
  by (auto simp: notional_reason_def not_less split: option.splits)

lemma runtime_reject_reason_None:
  "runtime_reject_reason D s ord ctx = None \<longleftrightarrow> runtime_admissible D s ord ctx"
  by (auto simp: runtime_reject_reason_def runtime_admissible_def close_only_reason_None notional_reason_None
      not_less is_some_and_def split: option.splits)

lemma normalize_mode_cases: "normalize_mode m \<in> {''monitor'', ''enforce'', ''off''}"
  by (simp add: normalize_mode_def Let_def)

lemma normalize_mode_idem [simp]: "normalize_mode (normalize_mode m) = normalize_mode m"
proof -
  have "normalize_mode ''monitor'' = ''monitor''" "normalize_mode ''enforce'' = ''enforce''"
    "normalize_mode ''off'' = ''off''"
    by (simp_all add: normalize_mode_def string_eval)
  then show ?thesis using normalize_mode_cases [of m] by fastforce
qed

lemma normalize_mode_off [simp]: "normalize_mode ''off'' = ''off''"
  by (simp add: normalize_mode_def string_eval)

lemma opt_filter_idem [simp]: "opt_filter p (opt_filter p x) = opt_filter p x"
  by (cases x) auto

lemma normalize_positive_idem [simp]:
  "normalize_positive_decimal D (normalize_positive_decimal D x) = normalize_positive_decimal D x"
  "normalize_positive_decimal D None = None"
  by (simp_all add: normalize_positive_decimal_def)

lemma runtime_normalize_mode [simp]: "rs_mode (runtime_normalize D s) = normalize_mode (rs_mode s)"
  by (simp add: runtime_normalize_def Let_def)

section \<open>Properties\<close>

text \<open>C1: The pre-trade gateway is sound and complete for its policy: an order passes exactly when
  its shape is valid and, if it is a real order, the control plane is available, real trading is
  enabled, the kill switch is off, no hard stop covers the order or one of its legs, and the
  quantities and the notional are within the configured limits. In particular it fails closed.\<close>

theorem pre_trade_gateway_decides:
  "pd_allowed (evaluate_pre_trade_risk D pol ord) \<longleftrightarrow> pre_trade_admissible D pol ord"
  by (rule evaluate_pre_trade_allowed)

text \<open>The notional the gateway limits for a combination order whose legs are all priced is the
  absolute value of the net of its legs, bought legs positive and sold legs negative, each
  quantity times price times multiplier (100 for an option leg without one), when no decimal
  operation rounds.\<close>

theorem combo_notional_is_net:
  assumes "decimal_exact D" and "calculate_combo_notional D ord = Inr v"
    and "priced_legs (pt_legs ord) = Some ps"
  shows "d_val D v = \<bar>\<Sum>(leg, p)\<leftarrow>ps. signed_notional D leg p\<bar>"
  using assms by (rule decimal_exact.combo_notional_exact)

definition sample_leg :: "string \<Rightarrow> int \<Rightarrow> int combo_leg" where
  "sample_leg side price =
     \<lparr>lg_symbol = ''AAPL'', lg_market = ''US'', lg_side = side, lg_quantity = d_new dec28 2 0,
      lg_multiplier = 0, lg_price = Some (d_new dec28 price 0), lg_product_class = ''Option''\<rparr>"

definition sample_combo :: "int pre_trade_order" where
  "sample_combo = (order_of_command sample_command)\<lparr>pt_legs := [sample_leg ''buy'' 3, sample_leg ''SELL'' 5]\<rparr>"

theorem combo_notional_is_net_witness:
  "calculate_combo_notional dec28 sample_combo = Inr (400 * dec_unit) \<and>
   d_val dec28 (400 * dec_unit) =
     \<bar>\<Sum>(leg, p)\<leftarrow>[(sample_leg ''buy'' 3, 3 * dec_unit), (sample_leg ''SELL'' 5, 5 * dec_unit)]. signed_notional dec28 leg p\<bar>"
proof -
  have legs: "priced_legs (pt_legs sample_combo) =
      Some [(sample_leg ''buy'' 3, 3 * dec_unit), (sample_leg ''SELL'' 5, 5 * dec_unit)]"
    by (simp add: sample_combo_def sample_leg_def)
  moreover have calc: "calculate_combo_notional dec28 sample_combo = Inr (400 * dec_unit)"
    unfolding calculate_combo_notional_def legs
    by (simp add: add_leg_notional_def sample_leg_def mul2_def leg_multiplier_def is_option_class_def
        string_eval d_zero_def dec_mul_def dec_fit_def dec_unit_def Let_def)
  ultimately show ?thesis
    using combo_notional_is_net [OF exact28.decimal_exact_axioms calc legs] by blast
qed

text \<open>The risk engine of shadow trading and the pre-trade gateway agree: on an order command the
  engine gives the same verdict with the same reason code as the gateway with the same
  configuration does on the corresponding single-leg order.\<close>

theorem shadow_engine_matches_gateway:
  assumes "decimal_order D"
  shows "pd_allowed (evaluate_pre_trade_risk D (policy_of_config cfg) (order_of_command c)) =
           rd_allowed (risk_evaluate D cfg c) \<and>
         pd_reason_code (evaluate_pre_trade_risk D (policy_of_config cfg) (order_of_command c)) =
           rd_reason_code (risk_evaluate D cfg c)"
  using assms by (rule decimal_order.risk_engine_agrees)

definition sample_config :: "int risk_config" where
  "sample_config =
     \<lparr>rc_real_trading_enabled = True, rc_kill_switch_active = False, rc_max_order_quantity = None,
      rc_max_order_notional = Some (d_new dec28 150 0), rc_hard_stops = []\<rparr>"

theorem shadow_engine_matches_gateway_witness:
  "pd_reason_code (evaluate_pre_trade_risk dec28 (policy_of_config sample_config)
     (order_of_command (sample_command\<lparr>oc_environment := Real_Env\<rparr>))) = Some ''MAX_ORDER_NOTIONAL_EXCEEDED''"
proof -
  have "rd_reason_code (risk_evaluate dec28 sample_config (sample_command\<lparr>oc_environment := Real_Env\<rparr>)) =
      Some ''MAX_ORDER_NOTIONAL_EXCEEDED''"
    by (simp add: risk_evaluate_def sample_config_def sample_command_def d_zero_def dec_mul_def dec_fit_def
        dec_unit_def)
  then show ?thesis
    using shadow_engine_matches_gateway [OF exact28.decimal_order_axioms, of sample_config
        "sample_command\<lparr>oc_environment := Real_Env\<rparr>"] by simp
qed

text \<open>A strategy's runtime limits reject an order exactly in enforce mode and when the order
  violates the normalised limits; monitor mode matches on the same orders without rejecting; off
  (and every unknown mode) never matches.\<close>

theorem runtime_risk_modes:
  "(rt_rejected (evaluate_runtime_risk D s ord ctx) \<longleftrightarrow>
      normalize_mode (rs_mode s) = ''enforce'' \<and> \<not> runtime_admissible D (runtime_normalize D s) ord ctx) \<and>
   (rt_matched (evaluate_runtime_risk D s ord ctx) \<longleftrightarrow>
      normalize_mode (rs_mode s) \<noteq> ''off'' \<and> \<not> runtime_admissible D (runtime_normalize D s) ord ctx)"
  using normalize_mode_cases [of "rs_mode s"]
  by (auto simp: evaluate_runtime_risk_def runtime_default_def Let_def runtime_reject_reason_None [symmetric]
      split: option.splits)

text \<open>Normalising runtime settings is idempotent.\<close>

theorem runtime_normalize_idempotent:
  "runtime_normalize D (runtime_normalize D s) = runtime_normalize D s"
  by (cases "normalize_mode (rs_mode s) = ''off''") (simp_all add: runtime_normalize_def Let_def)

text \<open>A hard stop on a market is compared with the command's market as it was sent: a trailing
  blank escapes it, although the command is valid and has the fingerprint of the stopped one.\<close>

theorem hard_stop_market_blank:
  defines "stop \<equiv> \<lparr>hs_id = None, hs_broker_id = None, hs_trading_environment = None, hs_account_id = None,
                   hs_market = Some ''US'', hs_symbol = None\<rparr>"
    and "spaced \<equiv> sample_command\<lparr>oc_market := ''US ''\<rparr>"
  shows "hard_stop_matches stop sample_command \<and> \<not> hard_stop_matches stop spaced \<and>
    command_validate dec28 spaced = Inr () \<and>
    request_fingerprint dec28 spaced = request_fingerprint dec28 sample_command"
  by (simp add: stop_def spaced_def hard_stop_matches_def owner_matches_def exact_matches_def symbol_matches_def
      sample_command_def string_eval command_validate_def command_fields_def check_field_def d_zero_def
      request_fingerprint_def fingerprint_fields_def dec_unit_def)

end
