(* ===== verification/Trading_Ledger.thy ===== *)
theory Trading_Ledger
  imports Trading_Risk
begin

text \<open>
  \<open>crates/jftrade-trading/src/ledger.rs\<close>: shadow trading. The ledger plans order commands
  idempotently, folds broker events into one projection per order (deduplicated by event and
  by fill), and keeps an audit trail. The methods take \<open>&mut self\<close> and stay usable after an
  error, so each operation returns its result together with the state it leaves behind.
\<close>

section \<open>State\<close>

record command_state =
  cs_fingerprint :: string
  cs_accepted :: bool
  cs_reason_code :: "string option"

record 'd order_state =
  os_projection :: "'d order_projection"
  os_event_ids :: "string list"
  os_fill_ids :: "string list"

record ('d, 't) shadow_trading =
  st_risk :: "'d risk_config"
  st_commands :: "(string, command_state) bmap"
  st_orders :: "(string, 'd order_state) bmap"
  st_audit :: "'t audit_entry list"
  st_next_audit_sequence :: u64

record ('d, 't) shadow_checkpoint =
  cp_commands :: "(string, command_state) bmap"
  cp_orders :: "(string, 'd order_state) bmap"
  cp_audit :: "'t audit_entry list"
  cp_next_audit_sequence :: u64

definition shadow_new :: "'d risk_config \<Rightarrow> ('d, 't) shadow_trading" where
  "shadow_new risk =
     \<lparr>st_risk = risk, st_commands = [], st_orders = [], st_audit = [], st_next_audit_sequence = 1\<rparr>"

fun audit_disordered :: "'t audit_entry list \<Rightarrow> bool" where
  "audit_disordered (a # b # rest) \<longleftrightarrow> au_sequence b \<le> au_sequence a \<or> audit_disordered (b # rest)"
| "audit_disordered _ \<longleftrightarrow> False"

definition shadow_restore :: "'d risk_config \<Rightarrow> ('d, 't) shadow_checkpoint \<Rightarrow> trading_error + ('d, 't) shadow_trading" where
  "shadow_restore risk cp =
     (if cp_next_audit_sequence cp = 0 then Inl (InvalidCheckpoint ''audit sequence must be positive'')
      else if audit_disordered (cp_audit cp) then Inl (InvalidCheckpoint ''audit sequence must be monotonic'')
      else Inr \<lparr>st_risk = risk, st_commands = cp_commands cp, st_orders = cp_orders cp,
                st_audit = cp_audit cp, st_next_audit_sequence = cp_next_audit_sequence cp\<rparr>)"

definition shadow_checkpoint_of :: "('d, 't) shadow_trading \<Rightarrow> ('d, 't) shadow_checkpoint" where
  "shadow_checkpoint_of st =
     \<lparr>cp_commands = st_commands st, cp_orders = st_orders st, cp_audit = st_audit st,
      cp_next_audit_sequence = st_next_audit_sequence st\<rparr>"

definition append_audit ::
    "string \<Rightarrow> string \<Rightarrow> string \<Rightarrow> string \<Rightarrow> 't \<Rightarrow> ('d, 't) shadow_trading \<Rightarrow> ('d, 't) shadow_trading" where
  "append_audit trace action outcome detail tm st =
     st\<lparr>st_audit := st_audit st @
          [\<lparr>au_sequence = st_next_audit_sequence st, au_trace_id = trace, au_action = action,
            au_outcome = outcome, au_detail = detail, au_at = tm\<rparr>],
        st_next_audit_sequence := st_next_audit_sequence st + 1\<rparr>"

section \<open>Planning\<close>

definition plan_order ::
    "'d decimal_lib \<Rightarrow> ('d, 't) shadow_trading \<Rightarrow> 'd order_command \<Rightarrow> 't \<Rightarrow>
     (trading_error + command_plan) \<times> ('d, 't) shadow_trading" where
  "plan_order D st c now =
     (case command_validate D c of
        Inl e \<Rightarrow> (Inl e, st)
      | Inr _ \<Rightarrow>
          let fingerprint = request_fingerprint D c
          in (case bm_get (st_commands st) (idempotency_key c) of
                Some existing \<Rightarrow>
                  if cs_fingerprint existing \<noteq> fingerprint
                  then (Inl IdempotencyConflict,
                        append_audit (oc_trace_id c) ''ORDER_PLAN'' ''IDEMPOTENCY_CONFLICT'' (idempotency_key c) now st)
                  else (Inr \<lparr>pl_accepted = cs_accepted existing, pl_replayed = True, pl_dispatch = False,
                             pl_idempotency_key = idempotency_key c, pl_trace_id = oc_trace_id c,
                             pl_normalized_request = cs_fingerprint existing,
                             pl_reason_code = cs_reason_code existing\<rparr>,
                        append_audit (oc_trace_id c) ''ORDER_PLAN'' ''IDEMPOTENT_REPLAY'' (idempotency_key c) now st)
              | None \<Rightarrow>
                  let decision = risk_evaluate D (st_risk st) c;
                      outcome = (if rd_allowed decision then ''SHADOW_ACCEPTED'' else ''RISK_REJECTED'');
                      st1 = append_audit (oc_trace_id c) ''ORDER_PLAN'' outcome
                              (case rd_reason_code decision of None \<Rightarrow> ''no-dispatch'' | Some r \<Rightarrow> r) now st
                  in (Inr \<lparr>pl_accepted = rd_allowed decision, pl_replayed = False, pl_dispatch = False,
                           pl_idempotency_key = idempotency_key c, pl_trace_id = oc_trace_id c,
                           pl_normalized_request = fingerprint, pl_reason_code = rd_reason_code decision\<rparr>,
                      st1\<lparr>st_commands := bm_insert (idempotency_key c)
                            \<lparr>cs_fingerprint = fingerprint, cs_accepted = rd_allowed decision,
                             cs_reason_code = rd_reason_code decision\<rparr> (st_commands st1)\<rparr>)))"

section \<open>Broker events\<close>

definition fresh_order :: "'d decimal_lib \<Rightarrow> string \<Rightarrow> 'd order_state" where
  "fresh_order D oid =
     \<lparr>os_projection = \<lparr>op_broker_order_id = oid, op_status = Unknown, op_filled_quantity = d_zero D,
        op_last_sequence = 0, op_accepted_events = 0, op_duplicate_events = 0, op_stale_events = 0\<rparr>,
      os_event_ids = [], os_fill_ids = []\<rparr>"

text \<open>
  The fill of an accepted event: nothing without a fill id and a quantity or when the fill
  is known; otherwise the fill is marked and its quantity added, which may overflow.
\<close>

definition apply_event_fill :: "'d decimal_lib \<Rightarrow> 'd order_state \<Rightarrow> ('d, 't) broker_order_event \<Rightarrow>
    (trading_error + unit) \<times> 'd order_state" where
  "apply_event_fill D os ev =
     (case (fill_id ev, fill_quantity ev) of
        (Some fid, Some quantity) \<Rightarrow>
          let (new, fills) = bs_insert fid (os_fill_ids os); os1 = os\<lparr>os_fill_ids := fills\<rparr>
          in if new then
               (case d_add D (op_filled_quantity (os_projection os)) quantity of
                  None \<Rightarrow> (Inl ArithmeticError, os1)
                | Some filled \<Rightarrow> (Inr (), os1\<lparr>os_projection := (os_projection os)\<lparr>op_filled_quantity := filled\<rparr>\<rparr>))
             else (Inr (), os1)
      | _ \<Rightarrow> (Inr (), os))"

definition apply_to_order :: "'d decimal_lib \<Rightarrow> 'd order_state \<Rightarrow> ('d, 't) broker_order_event \<Rightarrow>
    (trading_error + event_outcome) \<times> 'd order_state" where
  "apply_to_order D os ev =
     (let (new, ids) = bs_insert (event_id ev) (os_event_ids os); p = os_projection os; os1 = os\<lparr>os_event_ids := ids\<rparr>
      in if \<not> new
         then (Inr Duplicate, os1\<lparr>os_projection := p\<lparr>op_duplicate_events := op_duplicate_events p + 1\<rparr>\<rparr>)
         else
           let incoming = canonical_broker_status (raw_status ev);
               (status, accepted) = reconcile_status (op_status p) incoming;
               stale_sequence = (ev_sequence ev < op_last_sequence p)
           in if \<not> accepted \<and> incoming \<noteq> op_status p \<or> stale_sequence \<and> \<not> accepted
              then (Inr Stale, os1\<lparr>os_projection := p\<lparr>op_stale_events := op_stale_events p + 1\<rparr>\<rparr>)
              else
                let os2 = os1\<lparr>os_projection := p\<lparr>op_status := status,
                                                  op_last_sequence := max (op_last_sequence p) (ev_sequence ev)\<rparr>\<rparr>
                in (case apply_event_fill D os2 ev of
                      (Inl e, os3) \<Rightarrow> (Inl e, os3)
                    | (Inr _, os3) \<Rightarrow>
                        (Inr Applied, os3\<lparr>os_projection := (os_projection os3)\<lparr>op_accepted_events :=
                           op_accepted_events (os_projection os3) + 1\<rparr>\<rparr>)))"

fun outcome_text :: "event_outcome \<Rightarrow> string" where
  "outcome_text Applied = ''APPLIED''"
| "outcome_text Duplicate = ''DUPLICATE''"
| "outcome_text Stale = ''STALE''"

definition order_entry :: "'d decimal_lib \<Rightarrow> ('d, 't) shadow_trading \<Rightarrow> string \<Rightarrow> 'd order_state" where
  "order_entry D st oid = (case bm_get (st_orders st) oid of None \<Rightarrow> fresh_order D oid | Some os \<Rightarrow> os)"

definition apply_event :: "'d decimal_lib \<Rightarrow> ('d, 't) shadow_trading \<Rightarrow> ('d, 't) broker_order_event \<Rightarrow>
    (trading_error + event_outcome) \<times> ('d, 't) shadow_trading" where
  "apply_event D st ev =
     (if blank (event_id ev) then (Inl (InvalidEvent ''eventId is required''), st)
      else if blank (ev_broker_order_id ev) then (Inl (InvalidEvent ''brokerOrderId is required''), st)
      else
        let (result, os) = apply_to_order D (order_entry D st (ev_broker_order_id ev)) ev;
            st1 = st\<lparr>st_orders := bm_insert (ev_broker_order_id ev) os (st_orders st)\<rparr>
        in (case result of
              Inl e \<Rightarrow> (Inl e, st1)
            | Inr outcome \<Rightarrow>
                (Inr outcome, append_audit (ev_trace_id ev) ''ORDER_EVENT'' (outcome_text outcome) (event_id ev)
                   (occurred_at ev) st1)))"

definition shadow_order :: "('d, 't) shadow_trading \<Rightarrow> string \<Rightarrow> 'd order_projection option" where
  "shadow_order st oid = map_option os_projection (bm_get (st_orders st) oid)"

definition shadow_orders :: "('d, 't) shadow_trading \<Rightarrow> 'd order_projection list" where
  "shadow_orders st = map os_projection (bm_values (st_orders st))"

text \<open>The ledger as a machine: its two mutating operations.\<close>

datatype ('d, 't) ledger_op = Plan "'d order_command" 't | Event "('d, 't) broker_order_event"

fun ledger_step :: "'d decimal_lib \<Rightarrow> ('d, 't) shadow_trading \<Rightarrow> ('d, 't) ledger_op \<Rightarrow> ('d, 't) shadow_trading" where
  "ledger_step D st (Plan c now) = snd (plan_order D st c now)"
| "ledger_step D st (Event ev) = snd (apply_event D st ev)"

section \<open>Nothing the ledger knows is lost\<close>

lemma append_audit_simps [simp]:
  "st_commands (append_audit a b c d t st) = st_commands st"
  "st_orders (append_audit a b c d t st) = st_orders st"
  "st_risk (append_audit a b c d t st) = st_risk st"
  "length (st_audit (append_audit a b c d t st)) = Suc (length (st_audit st))"
  by (simp_all add: append_audit_def)

text \<open>One order only ever learns: more event ids, more fill ids, a later status, a later sequence.\<close>

definition order_le :: "'d order_state \<Rightarrow> 'd order_state \<Rightarrow> bool" where
  "order_le os os' \<longleftrightarrow>
     set (os_event_ids os) \<subseteq> set (os_event_ids os') \<and> set (os_fill_ids os) \<subseteq> set (os_fill_ids os') \<and>
     status_rank (op_status (os_projection os)) \<le> status_rank (op_status (os_projection os')) \<and>
     (is_terminal (op_status (os_projection os)) \<longrightarrow> op_status (os_projection os') = op_status (os_projection os)) \<and>
     op_last_sequence (os_projection os) \<le> op_last_sequence (os_projection os')"

lemma order_le_refl [simp]: "order_le os os"
  by (simp add: order_le_def)

lemma order_le_trans: "order_le os os' \<Longrightarrow> order_le os' os'' \<Longrightarrow> order_le os os''"
  by (auto simp: order_le_def)

lemma apply_event_fill_frame:
  assumes "apply_event_fill D os ev = (r, os')"
  shows "os_event_ids os' = os_event_ids os" and "set (os_fill_ids os) \<subseteq> set (os_fill_ids os')"
    and "op_status (os_projection os') = op_status (os_projection os)"
    and "op_last_sequence (os_projection os') = op_last_sequence (os_projection os)"
    and "op_accepted_events (os_projection os') = op_accepted_events (os_projection os)"
    and "op_duplicate_events (os_projection os') = op_duplicate_events (os_projection os)"
    and "op_stale_events (os_projection os') = op_stale_events (os_projection os)"
  using assms by (auto simp: apply_event_fill_def bs_insert_def Let_def split: option.splits if_splits)

lemma apply_to_order_event_ids [simp]:
  "set (os_event_ids (snd (apply_to_order D os ev))) = insert (event_id ev) (set (os_event_ids os))"
  by (auto simp: apply_to_order_def bs_insert_def Let_def dest: apply_event_fill_frame(1)
      split: prod.splits sum.splits)

lemma apply_to_order_le: "order_le os (snd (apply_to_order D os ev))"
proof (cases "event_id ev \<in> set (os_event_ids os)")
  case True
  then show ?thesis by (auto simp: apply_to_order_def bs_insert_def order_le_def Let_def)
next
  case False
  let ?p = "os_projection os"
  obtain status accepted where rec: "reconcile_status (op_status ?p) (canonical_broker_status (raw_status ev)) = (status, accepted)"
    by fastforce
  have rank: "status_rank (op_status ?p) \<le> status_rank status"
    using reconcile_rank_le [of "op_status ?p" "canonical_broker_status (raw_status ev)"] rec by simp
  let ?os2 = "os\<lparr>os_event_ids := bs_put (event_id ev) (os_event_ids os),
    os_projection := ?p\<lparr>op_status := status, op_last_sequence := max (op_last_sequence ?p) (ev_sequence ev)\<rparr>\<rparr>"
  obtain r os3 where fill: "apply_event_fill D ?os2 ev = (r, os3)"
    by fastforce
  have "order_le os os3"
    using apply_event_fill_frame [OF fill] rank reconcile_terminal [of "op_status ?p" "canonical_broker_status (raw_status ev)"] rec
    by (auto simp: order_le_def)
  then show ?thesis
    using False rec fill
    by (auto simp: apply_to_order_def bs_insert_def Let_def order_le_def split: sum.splits)
qed

definition ledger_le :: "('d, 't) shadow_trading \<Rightarrow> ('d, 't) shadow_trading \<Rightarrow> bool" where
  "ledger_le st st' \<longleftrightarrow> bmap.extends (st_commands st) (st_commands st') \<and>
     (\<forall>oid os. bm_get (st_orders st) oid = Some os \<longrightarrow>
        (\<exists>os'. bm_get (st_orders st') oid = Some os' \<and> order_le os os'))"

lemma ledger_le_refl [simp]: "ledger_le st st"
  by (force simp: ledger_le_def)

lemma plan_order_orders [simp]: "st_orders (snd (plan_order D st c now)) = st_orders st"
  by (auto simp: plan_order_def Let_def split: sum.splits option.splits)

lemma plan_order_extends: "bmap.extends (st_commands st) (st_commands (snd (plan_order D st c now)))"
  by (auto simp: plan_order_def Let_def intro: bmap.extends_fresh split: sum.splits option.splits)

lemma apply_event_commands [simp]: "st_commands (snd (apply_event D st ev)) = st_commands st"
  by (auto simp: apply_event_def Let_def split: prod.splits sum.splits)

lemma apply_event_orders:
  assumes "\<not> blank (event_id ev)" and "\<not> blank (ev_broker_order_id ev)"
  shows "st_orders (snd (apply_event D st ev)) =
     bm_insert (ev_broker_order_id ev) (snd (apply_to_order D (order_entry D st (ev_broker_order_id ev)) ev)) (st_orders st)"
  using assms by (auto simp: apply_event_def Let_def split: prod.splits sum.splits)

lemma apply_event_result:
  assumes "\<not> blank (event_id ev)" and "\<not> blank (ev_broker_order_id ev)"
  shows "fst (apply_event D st ev) = fst (apply_to_order D (order_entry D st (ev_broker_order_id ev)) ev)"
  using assms by (auto simp: apply_event_def Let_def split: prod.splits sum.splits)

lemma apply_event_blank:
  "blank (event_id ev) \<or> blank (ev_broker_order_id ev) \<Longrightarrow> snd (apply_event D st ev) = st"
  by (auto simp: apply_event_def)

lemma apply_event_le: "ledger_le st (snd (apply_event D st ev))"
proof (cases "blank (event_id ev) \<or> blank (ev_broker_order_id ev)")
  case True
  then show ?thesis by (simp only: apply_event_blank ledger_le_refl)
next
  case False
  then show ?thesis
    using apply_to_order_le
    by (auto simp: ledger_le_def apply_event_orders order_entry_def split: option.splits)
qed

lemma ledger_step_le: "ledger_le st (ledger_step D st a)"
proof (cases a)
  case (Plan c now)
  then show ?thesis using plan_order_extends by (fastforce simp: ledger_le_def)
next
  case (Event ev)
  then show ?thesis by (simp add: apply_event_le)
qed

lemma ledger_le_trans:
  assumes "ledger_le st st'" and "ledger_le st' st''"
  shows "ledger_le st st''"
proof -
  have "bmap.extends (st_commands st) (st_commands st'')"
    using assms bmap.extends_trans unfolding ledger_le_def by blast
  moreover have "\<exists>os''. bm_get (st_orders st'') oid = Some os'' \<and> order_le os os''"
    if "bm_get (st_orders st) oid = Some os" for oid os
    using assms that order_le_trans unfolding ledger_le_def by metis
  ultimately show ?thesis unfolding ledger_le_def by blast
qed

interpretation ledger: growing_machine "ledger_step D" "\<lambda>_. True" ledger_le
proof unfold_locales
  show "ledger_le st st" for st :: "('d, 't) shadow_trading"
    by simp
qed (blast intro: ledger_le_trans ledger_step_le)+

subsection \<open>Idempotent planning\<close>

lemma plan_order_recorded:
  assumes "fst (plan_order D st c now) = Inr p"
  shows "bm_get (st_commands (snd (plan_order D st c now))) (idempotency_key c) =
           Some \<lparr>cs_fingerprint = request_fingerprint D c, cs_accepted = pl_accepted p, cs_reason_code = pl_reason_code p\<rparr>"
    and "pl_normalized_request p = request_fingerprint D c" and "pl_idempotency_key p = idempotency_key c"
    and "\<not> pl_dispatch p"
  using assms by (auto simp: plan_order_def Let_def split: sum.splits option.splits if_splits)

lemma plan_order_known:
  assumes "command_validate D c = Inr ()" and "bm_get (st_commands st) (idempotency_key c) = Some cs"
  shows "fst (plan_order D st c now) =
    (if cs_fingerprint cs = request_fingerprint D c
     then Inr \<lparr>pl_accepted = cs_accepted cs, pl_replayed = True, pl_dispatch = False,
               pl_idempotency_key = idempotency_key c, pl_trace_id = oc_trace_id c,
               pl_normalized_request = cs_fingerprint cs, pl_reason_code = cs_reason_code cs\<rparr>
     else Inl IdempotencyConflict)"
  using assms by (simp add: plan_order_def Let_def)

subsection \<open>Deduplication\<close>

lemma apply_to_order_known:
  "event_id ev \<in> set (os_event_ids os) \<Longrightarrow>
   fst (apply_to_order D os ev) = Inr Duplicate \<and>
   os_projection (snd (apply_to_order D os ev)) =
     (os_projection os)\<lparr>op_duplicate_events := op_duplicate_events (os_projection os) + 1\<rparr>"
  by (simp add: apply_to_order_def bs_insert_def Let_def)

lemma event_recorded:
  assumes "\<not> blank (event_id ev)" and "\<not> blank (ev_broker_order_id ev)"
  shows "\<exists>os. bm_get (st_orders (run (ledger_step D) (snd (apply_event D st ev)) ops)) (ev_broker_order_id ev) = Some os \<and>
    event_id ev \<in> set (os_event_ids os)"
proof -
  let ?os = "snd (apply_to_order D (order_entry D st (ev_broker_order_id ev)) ev)"
  have "bm_get (st_orders (snd (apply_event D st ev))) (ev_broker_order_id ev) = Some ?os"
    using assms by (simp add: apply_event_orders)
  then obtain os where "bm_get (st_orders (run (ledger_step D) (snd (apply_event D st ev)) ops)) (ev_broker_order_id ev) = Some os"
    and "order_le ?os os"
    using ledger.run_le [of "snd (apply_event D st ev)" D ops] unfolding ledger_le_def by blast
  then show ?thesis by (auto simp: order_le_def)
qed

lemma apply_event_known:
  assumes "bm_get (st_orders st) (ev_broker_order_id ev) = Some os" and "event_id ev \<in> set (os_event_ids os)"
    and "\<not> blank (event_id ev)" and "\<not> blank (ev_broker_order_id ev)"
  shows "fst (apply_event D st ev) = Inr Duplicate \<and>
    shadow_order (snd (apply_event D st ev)) (ev_broker_order_id ev) =
      Some ((os_projection os)\<lparr>op_duplicate_events := op_duplicate_events (os_projection os) + 1\<rparr>)"
  using assms apply_to_order_known [OF assms(2), of D]
  by (simp add: apply_event_result apply_event_orders order_entry_def shadow_order_def)

subsection \<open>Fills\<close>

text \<open>The fills behind a projection: one quantity per fill id, each reported by some event.\<close>

definition fills_behind :: "'d decimal_lib \<Rightarrow> ('d, 't) broker_order_event set \<Rightarrow> 'd order_state \<Rightarrow> (string \<times> 'd) list \<Rightarrow> bool" where
  "fills_behind D evs os fills \<longleftrightarrow>
     distinct (map fst fills) \<and> fst ` set fills \<subseteq> set (os_fill_ids os) \<and>
     (\<forall>(f, q)\<in>set fills. \<exists>ev\<in>evs. fill_id ev = Some f \<and> fill_quantity ev = Some q) \<and>
     d_val D (op_filled_quantity (os_projection os)) = (\<Sum>(f, q)\<leftarrow>fills. d_val D q)"

definition order_step :: "'d decimal_lib \<Rightarrow> 'd order_state \<Rightarrow> ('d, 't) broker_order_event \<Rightarrow> 'd order_state" where
  "order_step D os ev = snd (apply_to_order D os ev)"

text \<open>An event either leaves the fills of its order alone or passes through \<open>apply_event_fill\<close>.\<close>

lemma order_step_cases:
  obtains
    (same) "os_fill_ids (order_step D os ev) = os_fill_ids os"
      "op_filled_quantity (os_projection (order_step D os ev)) = op_filled_quantity (os_projection os)"
  | (filled) os2 r os3 where "os_fill_ids os2 = os_fill_ids os"
      "op_filled_quantity (os_projection os2) = op_filled_quantity (os_projection os)"
      "apply_event_fill D os2 ev = (r, os3)" "os_fill_ids (order_step D os ev) = os_fill_ids os3"
      "op_filled_quantity (os_projection (order_step D os ev)) = op_filled_quantity (os_projection os3)"
proof -
  obtain status accepted where rec: "reconcile_status (op_status (os_projection os)) (canonical_broker_status (raw_status ev)) = (status, accepted)"
    by fastforce
  let ?os2 = "os\<lparr>os_event_ids := bs_put (event_id ev) (os_event_ids os), os_projection := (os_projection os)\<lparr>op_status := status,
    op_last_sequence := max (op_last_sequence (os_projection os)) (ev_sequence ev)\<rparr>\<rparr>"
  obtain r os3 where fill: "apply_event_fill D ?os2 ev = (r, os3)"
    by fastforce
  have "os_fill_ids (order_step D os ev) = os_fill_ids os \<and>
      op_filled_quantity (os_projection (order_step D os ev)) = op_filled_quantity (os_projection os) \<or>
    os_fill_ids (order_step D os ev) = os_fill_ids os3 \<and>
      op_filled_quantity (os_projection (order_step D os ev)) = op_filled_quantity (os_projection os3)"
    using rec fill by (cases r) (simp_all add: order_step_def apply_to_order_def bs_insert_def Let_def)
  then show thesis
    using that(1) that(2) [OF _ _ fill] by fastforce
qed

context decimal_exact
begin

lemma fills_behind_fill:
  assumes "fills_behind D evs os fills" and "apply_event_fill D os ev = (r, os')"
  shows "\<exists>fills'. fills_behind D (insert ev evs) os' fills'"
proof (cases "\<exists>fid q filled. fill_id ev = Some fid \<and> fill_quantity ev = Some q \<and> fid \<notin> set (os_fill_ids os) \<and>
    d_add D (op_filled_quantity (os_projection os)) q = Some filled")
  case True
  then obtain fid q filled where new: "fill_id ev = Some fid" "fill_quantity ev = Some q" "fid \<notin> set (os_fill_ids os)"
    "d_add D (op_filled_quantity (os_projection os)) q = Some filled" by blast
  then have "os' = os\<lparr>os_fill_ids := bs_put fid (os_fill_ids os),
      os_projection := (os_projection os)\<lparr>op_filled_quantity := filled\<rparr>\<rparr>"
    using assms(2) by (simp add: apply_event_fill_def bs_insert_def Let_def)
  with assms(1) new have "fills_behind D (insert ev evs) os' ((fid, q) # fills)"
    by (auto simp: fills_behind_def add_exact)
  then show ?thesis by blast
next
  case False
  then have "op_filled_quantity (os_projection os') = op_filled_quantity (os_projection os)"
    and "set (os_fill_ids os) \<subseteq> set (os_fill_ids os')"
    using assms(2) by (auto simp: apply_event_fill_def bs_insert_def Let_def split: option.splits if_splits)
  with assms(1) have "fills_behind D (insert ev evs) os' fills"
    by (fastforce simp: fills_behind_def)
  then show ?thesis by blast
qed

lemma fills_behind_step:
  assumes "fills_behind D evs os fills"
  shows "\<exists>fills'. fills_behind D (insert ev evs) (order_step D os ev) fills'"
proof (cases rule: order_step_cases [of D os ev])
  case same
  with assms have "fills_behind D (insert ev evs) (order_step D os ev) fills"
    by (fastforce simp: fills_behind_def)
  then show ?thesis by blast
next
  case (filled os2 r os3)
  then have "fills_behind D evs os2 fills"
    using assms by (simp add: fills_behind_def)
  from fills_behind_fill [OF this filled(3)] filled(4,5) show ?thesis
    by (simp add: fills_behind_def)
qed

lemma fills_behind_run: "\<exists>fills. fills_behind D (set evs) (run (order_step D) (fresh_order D oid) evs) fills"
proof (induction evs rule: rev_induct)
  case Nil
  have "fills_behind D {} (fresh_order D oid) []"
    by (simp add: fills_behind_def fresh_order_def)
  then show ?case by auto
next
  case (snoc ev evs)
  then obtain fills where "fills_behind D (set evs) (run (order_step D) (fresh_order D oid) evs) fills" by blast
  from fills_behind_step [OF this, of ev] show ?case by simp
qed

end

subsection \<open>An order is the fold of its own events\<close>

definition order_events :: "string \<Rightarrow> ('d, 't) ledger_op list \<Rightarrow> ('d, 't) broker_order_event list" where
  "order_events oid ops = List.map_filter
     (\<lambda>a. case a of
         Event ev \<Rightarrow> if ev_broker_order_id ev = oid \<and> \<not> blank (event_id ev) \<and> \<not> blank oid then Some ev else None
       | Plan _ _ \<Rightarrow> None) ops"

lemma order_events_simps [simp]:
  "order_events oid [] = []"
  "order_events oid (Plan c now # ops) = order_events oid ops"
  "order_events oid (Event ev # ops) =
     (if ev_broker_order_id ev = oid \<and> \<not> blank (event_id ev) \<and> \<not> blank oid then [ev] else []) @ order_events oid ops"
  by (simp_all add: order_events_def map_filter_def)

lemma in_order_events: "ev \<in> set (order_events oid ops) \<Longrightarrow> Event ev \<in> set ops \<and> ev_broker_order_id ev = oid"
proof (induction ops)
  case (Cons a ops)
  then show ?case by (cases a) (auto split: if_splits)
qed simp

lemma order_entry_step:
  "order_entry D (snd (apply_event D st ev)) oid =
     run (order_step D) (order_entry D st oid) (order_events oid [Event ev])"
  by (cases "blank (event_id ev) \<or> blank (ev_broker_order_id ev)")
    (auto simp: apply_event_blank apply_event_orders order_entry_def order_step_def)

lemma order_entry_run:
  "order_entry D (run (ledger_step D) st ops) oid = run (order_step D) (order_entry D st oid) (order_events oid ops)"
proof (induction ops arbitrary: st)
  case (Cons a ops)
  show ?case
  proof (cases a)
    case (Plan c now)
    then show ?thesis by (simp add: Cons.IH) (simp add: order_entry_def)
  next
    case (Event ev)
    then show ?thesis
      using order_entry_step [of D st ev oid] by (simp add: Cons.IH)
  qed
qed simp

lemma order_entry_new [simp]: "order_entry D (shadow_new risk) oid = fresh_order D oid"
  by (simp add: order_entry_def shadow_new_def)

lemma order_entry_known: "shadow_order st oid = Some p \<Longrightarrow> os_projection (order_entry D st oid) = p"
  by (auto simp: shadow_order_def order_entry_def)

subsection \<open>Counting\<close>

fun failed_events :: "'d decimal_lib \<Rightarrow> 'd order_state \<Rightarrow> ('d, 't) broker_order_event list \<Rightarrow> nat" where
  "failed_events D os [] = 0"
| "failed_events D os (ev # evs) =
     (case fst (apply_to_order D os ev) of Inl _ \<Rightarrow> 1 | Inr _ \<Rightarrow> 0) + failed_events D (order_step D os ev) evs"

definition settled :: "'d order_state \<Rightarrow> u64" where
  "settled os = op_accepted_events (os_projection os) + op_stale_events (os_projection os)"

lemma order_step_counters:
  "op_duplicate_events (os_projection (order_step D os ev)) = op_duplicate_events (os_projection os) +
     (if event_id ev \<in> set (os_event_ids os) then 1 else 0)"
  "settled (order_step D os ev) + of_nat (case fst (apply_to_order D os ev) of Inl _ \<Rightarrow> 1 | Inr _ \<Rightarrow> 0) =
     settled os + (if event_id ev \<in> set (os_event_ids os) then 0 else 1)"
proof -
  obtain status accepted where rec: "reconcile_status (op_status (os_projection os)) (canonical_broker_status (raw_status ev)) = (status, accepted)"
    by fastforce
  let ?os2 = "os\<lparr>os_event_ids := bs_put (event_id ev) (os_event_ids os), os_projection := (os_projection os)\<lparr>op_status := status,
    op_last_sequence := max (op_last_sequence (os_projection os)) (ev_sequence ev)\<rparr>\<rparr>"
  obtain r os3 where fill: "apply_event_fill D ?os2 ev = (r, os3)"
    by fastforce
  note frame = apply_event_fill_frame [OF fill, simplified]
  show "op_duplicate_events (os_projection (order_step D os ev)) = op_duplicate_events (os_projection os) +
     (if event_id ev \<in> set (os_event_ids os) then 1 else 0)"
    using rec fill frame by (cases r) (simp_all add: order_step_def apply_to_order_def bs_insert_def Let_def)
  show "settled (order_step D os ev) + of_nat (case fst (apply_to_order D os ev) of Inl _ \<Rightarrow> 1 | Inr _ \<Rightarrow> 0) =
     settled os + (if event_id ev \<in> set (os_event_ids os) then 0 else 1)"
    using rec fill frame by (cases r) (simp_all add: settled_def order_step_def apply_to_order_def bs_insert_def Let_def)
qed

lemma order_step_event_ids [simp]: "set (os_event_ids (order_step D os ev)) = insert (event_id ev) (set (os_event_ids os))"
  by (simp add: order_step_def)

definition new_ids :: "'d order_state \<Rightarrow> ('d, 't) broker_order_event list \<Rightarrow> nat" where
  "new_ids os evs = card (event_id ` set evs - set (os_event_ids os))"

lemma new_ids_Cons:
  "new_ids os (ev # evs) = (if event_id ev \<in> set (os_event_ids os) then 0 else 1) + new_ids (order_step D os ev) evs"
proof -
  let ?I = "set (os_event_ids os)"
  have "card (insert (event_id ev) (event_id ` set evs) - ?I) =
      Suc (card (event_id ` set evs - insert (event_id ev) ?I))" if "event_id ev \<notin> ?I"
  proof -
    have "insert (event_id ev) (event_id ` set evs) - ?I = insert (event_id ev) (event_id ` set evs - insert (event_id ev) ?I)"
      using that by blast
    then show ?thesis by simp
  qed
  then show ?thesis by (simp add: new_ids_def insert_absorb)
qed

lemma run_counters:
  "op_duplicate_events (os_projection (run (order_step D) os evs)) + of_nat (new_ids os evs) =
     op_duplicate_events (os_projection os) + of_nat (length evs)"
  "settled (run (order_step D) os evs) + of_nat (failed_events D os evs) = settled os + of_nat (new_ids os evs)"
proof (induction evs arbitrary: os)
  case Nil
  { case 1 show ?case by (simp add: new_ids_def) }
  { case 2 show ?case by (simp add: new_ids_def) }
next
  case (Cons ev evs)
  { case 1 show ?case
      using Cons.IH(1) [of "order_step D os ev"] order_step_counters(1) [of D os ev]
      by (simp add: new_ids_Cons [of os ev evs D] algebra_simps split: if_splits) }
  { case 2 show ?case
      using Cons.IH(2) [of "order_step D os ev"] order_step_counters(2) [of D os ev]
      by (simp add: new_ids_Cons [of os ev evs D] algebra_simps split: if_splits sum.splits) }
qed

subsection \<open>The audit trail\<close>

lemma audit_disordered_iff: "audit_disordered au \<longleftrightarrow> \<not> sorted_wrt (<) (map au_sequence au)"
proof (induction au rule: audit_disordered.induct)
  case (1 a b rest)
  have "sorted_wrt (<) (map au_sequence (a # b # rest)) \<longleftrightarrow>
      au_sequence a < au_sequence b \<and> sorted_wrt (<) (map au_sequence (b # rest))"
    by (simp only: list.map) (rule sorted_wrt2 [OF transp_on_less])
  with 1 show ?case by (auto simp: not_le)
qed simp_all

definition audit_numbered :: "('d, 't) shadow_trading \<Rightarrow> bool" where
  "audit_numbered st \<longleftrightarrow> map au_sequence (st_audit st) = map of_nat [1..<Suc (length (st_audit st))] \<and>
     st_next_audit_sequence st = of_nat (Suc (length (st_audit st)))"

lemma append_audit_numbered: "audit_numbered st \<Longrightarrow> audit_numbered (append_audit a b c d t st)"
  by (simp add: audit_numbered_def append_audit_def)

lemma audit_numbered_cong:
  "st_audit st' = st_audit st \<Longrightarrow> st_next_audit_sequence st' = st_next_audit_sequence st \<Longrightarrow>
   audit_numbered st' = audit_numbered st"
  by (simp add: audit_numbered_def)

lemma ledger_step_audit:
  "\<exists>e. st_audit (ledger_step D st a) = st_audit st @ e \<and> length e \<le> 1"
  by (cases a) (auto simp: plan_order_def apply_event_def append_audit_def Let_def
      split: sum.splits option.splits prod.splits)

lemma ledger_step_numbered: "audit_numbered st \<Longrightarrow> audit_numbered (ledger_step D st a)"
  by (cases a) (auto simp: plan_order_def apply_event_def audit_numbered_def append_audit_def Let_def
      split: sum.splits option.splits prod.splits)

interpretation audit: machine "ledger_step D" audit_numbered
  by unfold_locales (rule ledger_step_numbered)

lemma run_audit_length: "length (st_audit (run (ledger_step D) st ops)) \<le> length (st_audit st) + length ops"
proof (induction ops arbitrary: st)
  case (Cons a ops)
  show ?case
    using Cons.IH [of "ledger_step D st a"] ledger_step_audit [of D st a] by auto
qed simp

lemma of_nat_upt_sorted: "n < 2 ^ 64 \<Longrightarrow> sorted_wrt (<) (map (of_nat :: nat \<Rightarrow> u64) [1..<n])"
  by (auto simp: sorted_wrt_iff_nth_less word_less_nat_alt unat_of_nat take_bit_nat_eq_self simp del: of_nat_Suc)

lemma numbered_restorable:
  assumes "audit_numbered st" and "length (st_audit st) < 2 ^ 64 - 1"
  shows "shadow_restore (st_risk st) (shadow_checkpoint_of st) = Inr st"
proof -
  have "unat (st_next_audit_sequence st) \<noteq> 0"
    using assms by (simp add: audit_numbered_def unat_of_nat take_bit_nat_eq_self del: of_nat_Suc)
  moreover have "\<not> audit_disordered (st_audit st)"
    using assms of_nat_upt_sorted [of "Suc (length (st_audit st))"]
    by (simp add: audit_disordered_iff audit_numbered_def del: of_nat_Suc upt_Suc)
  ultimately show ?thesis
    by (auto simp: shadow_restore_def shadow_checkpoint_of_def)
qed

lemma ledger_step_risk [simp]: "st_risk (ledger_step D st a) = st_risk st"
  by (cases a) (auto simp: plan_order_def apply_event_def Let_def split: sum.splits option.splits prod.splits)

lemma run_risk [simp]: "st_risk (run (ledger_step D) st ops) = st_risk st"
  by (induction ops arbitrary: st) simp_all

lemma shadow_new_numbered: "audit_numbered (shadow_new risk)"
  by (simp add: audit_numbered_def shadow_new_def)

section \<open>Properties\<close>

definition sample_event :: "string \<Rightarrow> string \<Rightarrow> string \<Rightarrow> int \<Rightarrow> (int, nat) broker_order_event" where
  "sample_event eid raw fid q =
     \<lparr>event_id = eid, ev_trace_id = ''trace-event'', ev_broker_order_id = ''broker-1'', ev_sequence = 1,
      raw_status = raw, fill_id = Some fid, fill_quantity = Some (q * dec_unit), occurred_at = 0\<rparr>"

lemma sample_event_fields [simp]:
  "event_id (sample_event eid raw fid q) = eid" "ev_broker_order_id (sample_event eid raw fid q) = ''broker-1''"
  "ev_sequence (sample_event eid raw fid q) = 1" "raw_status (sample_event eid raw fid q) = raw"
  "fill_id (sample_event eid raw fid q) = Some fid" "fill_quantity (sample_event eid raw fid q) = Some (q * dec_unit)"
  by (simp_all add: sample_event_def)

lemma sample_statuses:
  "canonical_broker_status ''NEW'' = BrokerAccepted" "canonical_broker_status ''CANCELLED'' = Cancelled"
  "canonical_broker_status ''FILLED_PART'' = PartiallyFilled"
  by (simp_all add: canonical_broker_status_def normalize_status_def replace_chars_def string_eval Let_def)

lemma sample_ids: "\<not> blank ''e1''" "\<not> blank ''e2''" "\<not> blank ''broker-1''"
  by (simp_all add: string_eval)

text \<open>Evaluates the ledger on the sample events.\<close>

lemmas sample_eval = sample_statuses sample_ids apply_event_def order_entry_def shadow_new_def fresh_order_def
  apply_to_order_def bs_insert_def Let_def reconcile_status_def is_terminal_def apply_event_fill_def d_zero_def
  dec_fit_def dec_unit_def append_audit_def shadow_order_def bm_get_def



text \<open>A broker event that reached an order is never processed twice: reporting the same event id for
  the same order again, after anything else has happened, is a duplicate and changes nothing of
  the order but the duplicate counter.\<close>

theorem event_replay_is_duplicate:
  assumes "\<not> blank (event_id ev)" and "\<not> blank (ev_broker_order_id ev)"
    and "event_id ev' = event_id ev" and "ev_broker_order_id ev' = ev_broker_order_id ev"
    and "st' = run (ledger_step D) (snd (apply_event D st ev)) ops"
  shows "fst (apply_event D st' ev') = Inr Duplicate \<and>
    shadow_order (snd (apply_event D st' ev')) (ev_broker_order_id ev) =
      map_option (\<lambda>p. p\<lparr>op_duplicate_events := op_duplicate_events p + 1\<rparr>) (shadow_order st' (ev_broker_order_id ev))"
proof -
  obtain os where "bm_get (st_orders st') (ev_broker_order_id ev) = Some os" and "event_id ev \<in> set (os_event_ids os)"
    using event_recorded [OF assms(1,2)] assms(5) by blast
  with apply_event_known [of st' ev' os D] assms show ?thesis
    by (simp add: shadow_order_def)
qed

theorem event_replay_is_duplicate_witness:
  "fst (apply_event dec28 (run (ledger_step dec28)
       (snd (apply_event dec28 (shadow_new sample_config) (sample_event ''e1'' ''NEW'' ''f1'' 1))) [Plan sample_command 5])
     (sample_event ''e1'' ''FILLED_ALL'' ''f9'' 7)) = Inr Duplicate"
  using event_replay_is_duplicate [of "sample_event ''e1'' ''NEW'' ''f1'' 1" "sample_event ''e1'' ''FILLED_ALL'' ''f9'' 7",
      OF _ _ _ _ refl, of dec28 "shadow_new sample_config" "[Plan sample_command 5]"]
  by (simp add: sample_ids del: run_simps)



text \<open>The event counters of an order account for every event: the duplicate counter is the number of
  its events beyond the distinct event ids, and accepted, stale and failed events together are
  the distinct ids. (The counters are 64-bit; the equations hold modulo \<open>2 ^ 64\<close>.)\<close>

theorem event_counters_add_up:
  fixes ops :: "('d, 't) ledger_op list" and oid :: string and D :: "'d decimal_lib" and risk :: "'d risk_config"
  defines "evs \<equiv> order_events oid ops"
    and "p \<equiv> os_projection (order_entry D (run (ledger_step D) (shadow_new risk) ops) oid)"
  shows "op_duplicate_events p + of_nat (card (event_id ` set evs)) = of_nat (length evs) \<and>
    op_accepted_events p + op_stale_events p + of_nat (failed_events D (fresh_order D oid) evs) =
      of_nat (card (event_id ` set evs))"
  using run_counters [of D "fresh_order D oid" evs]
  by (simp add: evs_def p_def order_entry_run settled_def new_ids_def fresh_order_def)

text \<open>An order never moves backwards: however the reports of the broker are ordered, its status only
  ever moves on in the life cycle, a terminal status stays and the last sequence number never
  decreases.\<close>

theorem order_never_regresses:
  assumes "shadow_order (run (ledger_step D) st ops) oid = Some p"
  shows "\<exists>p'. shadow_order (run (ledger_step D) st (ops @ later)) oid = Some p' \<and>
    status_rank (op_status p) \<le> status_rank (op_status p') \<and>
    (if is_terminal (op_status p) then op_status p' = op_status p else True) \<and>
    op_last_sequence p \<le> op_last_sequence p'"
  using assms ledger.prefix_le [where s = st and os = ops and os' = later and D = D]
  by (fastforce simp: ledger_le_def shadow_order_def order_le_def)

theorem order_never_regresses_witness:
  "\<exists>p'. shadow_order (run (ledger_step dec28) (shadow_new sample_config)
      ([Event (sample_event ''e1'' ''CANCELLED'' ''f1'' 3)] @ [Event (sample_event ''e2'' ''NEW'' ''f2'' 1)])) ''broker-1'' = Some p' \<and>
    op_status p' = Cancelled"
proof -
  obtain p where p: "shadow_order (run (ledger_step dec28) (shadow_new sample_config)
      [Event (sample_event ''e1'' ''CANCELLED'' ''f1'' 3)]) ''broker-1'' = Some p" and "op_status p = Cancelled"
    by (simp add: sample_eval)
  then show ?thesis
    using order_never_regresses [OF p, of "[Event (sample_event ''e2'' ''NEW'' ''f2'' 1)]"]
    by (auto simp: is_terminal_def)
qed

text \<open>C32: The audit trail is gapless: after any operations its entries are numbered 1, 2, 3, ..., and a
  ledger restored from its own checkpoint is the ledger itself (as long as the 64-bit number
  has not run out).\<close>

theorem checkpoint_roundtrip:
  assumes "length ops < 2 ^ 64 - 1" and "st = run (ledger_step D) (shadow_new risk) ops"
  shows "map au_sequence (st_audit st) = map of_nat [1..<Suc (length (st_audit st))] \<and>
    shadow_restore risk (shadow_checkpoint_of st) = Inr st"
proof -
  have "audit_numbered st"
    using audit.run_inv [OF shadow_new_numbered] assms(2) by simp
  moreover have "length (st_audit st) < 2 ^ 64 - 1"
    using run_audit_length [of D "shadow_new risk" ops] assms by (simp add: shadow_new_def)
  moreover have "st_risk st = risk"
    using assms(2) by (simp add: shadow_new_def)
  ultimately show ?thesis
    using numbered_restorable [of st] unfolding audit_numbered_def by simp
qed

theorem checkpoint_roundtrip_witness:
  "shadow_restore sample_config (shadow_checkpoint_of (run (ledger_step dec28) (shadow_new sample_config)
     [Plan sample_command (0 :: nat), Event (sample_event ''e1'' ''NEW'' ''f1'' 1)])) =
   Inr (run (ledger_step dec28) (shadow_new sample_config) [Plan sample_command 0, Event (sample_event ''e1'' ''NEW'' ''f1'' 1)])"
  using checkpoint_roundtrip [OF _ refl, of "[Plan sample_command (0 :: nat), Event (sample_event ''e1'' ''NEW'' ''f1'' 1)]"
      dec28 sample_config]
  by (simp del: run_simps)

text \<open>When the addition of a fill overflows, the call fails but its event and fill ids stay recorded:
  sending the event again is a duplicate, and the fill is lost.\<close>

theorem overflowing_fill_is_lost:
  defines "big \<equiv> sample_event ''e1'' ''FILLED_PART'' ''f1'' (2 ^ 96 - 1)"
    and "extra \<equiv> sample_event ''e2'' ''FILLED_PART'' ''f2'' 1"
  defines "st1 \<equiv> snd (apply_event dec28 (shadow_new sample_config) big)"
  shows "fst (apply_event dec28 st1 extra) = Inl ArithmeticError \<and>
    fst (apply_event dec28 (snd (apply_event dec28 st1 extra)) extra) = Inr Duplicate"
  by (simp add: st1_def big_def extra_def sample_eval)

text \<open>A checkpoint whose next audit number is not beyond its last entry is restored; the checkpoint
  taken after one more operation is then refused.\<close>

theorem restore_accepts_spent_number:
  defines "cp \<equiv> \<lparr>cp_commands = [], cp_orders = [],
      cp_audit = [\<lparr>au_sequence = 5, au_trace_id = ''t'', au_action = ''A'', au_outcome = ''O'', au_detail = ''D'', au_at = 0 :: nat\<rparr>],
      cp_next_audit_sequence = 1\<rparr>"
  shows "\<exists>st. shadow_restore sample_config cp = Inr st \<and>
    shadow_restore sample_config (shadow_checkpoint_of (snd (apply_event dec28 st (sample_event ''e1'' ''NEW'' ''f1'' 1)))) =
      Inl (InvalidCheckpoint ''audit sequence must be monotonic'')"
  by (simp add: cp_def shadow_restore_def shadow_checkpoint_of_def sample_eval)

end
