(* ===== verification/Trading_Portfolio.thy ===== *)
theory Trading_Portfolio
  imports Trading_Ledger "HOL-Library.Multiset"
begin

text \<open>
  \<open>crates/jftrade-trading/src/portfolio.rs\<close>: the positions of one account, replaced as a whole
  by snapshots (refreshes) of the broker, and the matching of positions with the symbols of a
  strategy.
\<close>

section \<open>Positions\<close>

record 'd position =
  po_account_id :: string
  po_market :: string
  po_symbol :: string
  po_quantity :: 'd
  po_sellable_quantity :: 'd
  po_last_price :: 'd

text \<open>\<open>symbol.split_once(c)\<close> with the given suffix.\<close>

definition suffix_after :: "char \<Rightarrow> string \<Rightarrow> string \<Rightarrow> bool" where
  "suffix_after c s suffix = is_some_and (split_once c s) (\<lambda>p. snd p = suffix)"

definition position_matches_symbol :: "'d position \<Rightarrow> string \<Rightarrow> bool" where
  "position_matches_symbol pos symbol =
     (let strategy_symbol = upper (trim symbol); position_symbol = upper (trim (po_symbol pos));
          market = upper (trim (po_market pos))
      in if strategy_symbol = [] then False
         else if position_symbol = [] then False
         else if position_symbol = strategy_symbol then True
         else if market \<noteq> [] \<and> CHR ''.'' \<notin> set position_symbol \<and> CHR '':'' \<notin> set position_symbol \<and>
                 (strategy_symbol = market @ ''.'' @ position_symbol \<or> strategy_symbol = market @ '':'' @ position_symbol)
         then True
         else market = [] \<and>
                (suffix_after (CHR ''.'') strategy_symbol position_symbol \<or>
                 suffix_after (CHR '':'') strategy_symbol position_symbol))"

definition add_sellable :: "'d decimal_lib \<Rightarrow> string \<Rightarrow> 'd \<Rightarrow> 'd position \<Rightarrow> trading_error + 'd" where
  "add_sellable D symbol acc pos =
     (if position_matches_symbol pos symbol then ok_or (d_add D acc (po_sellable_quantity pos)) ArithmeticError else Inr acc)"

definition sellable_quantity :: "'d decimal_lib \<Rightarrow> 'd position list \<Rightarrow> string \<Rightarrow> trading_error + 'd" where
  "sellable_quantity D positions symbol = try_fold (add_sellable D symbol) (d_zero D) positions"

section \<open>Refreshes\<close>

record ('d, 't) account_refresh =
  rf_refresh_id :: string
  rf_trace_id :: string
  rf_account_id :: string
  rf_generation :: u64
  rf_sequence :: u64
  rf_observed_at :: 't
  rf_positions :: "'d position list"

datatype portfolio_outcome = Refresh_Applied | Refresh_Duplicate | Refresh_Stale

record 'd portfolio =
  pf_account_id :: "string option"
  pf_generation :: u64
  pf_sequence :: u64
  pf_positions :: "(string, 'd position) bmap"
  pf_refreshes :: "(string, string) bmap"

definition portfolio_default :: "'d portfolio" where
  "portfolio_default =
     \<lparr>pf_account_id = None, pf_generation = 0, pf_sequence = 0, pf_positions = [], pf_refreshes = []\<rparr>"

definition position_text :: "'d decimal_lib \<Rightarrow> 'd position \<Rightarrow> string" where
  "position_text D pos =
     join ''|'' [trim (po_account_id pos), upper (trim (po_market pos)), upper (trim (po_symbol pos)),
                 d_norm_text D (po_quantity pos), d_norm_text D (po_sellable_quantity pos),
                 d_norm_text D (po_last_price pos)]"

definition refresh_fingerprint :: "'d decimal_lib \<Rightarrow> ('d, 't) account_refresh \<Rightarrow> string" where
  "refresh_fingerprint D rf =
     join '';'' ([trim (rf_account_id rf), nat_text (unat (rf_generation rf)), nat_text (unat (rf_sequence rf))] @
                 map (position_text D) (rf_positions rf))"

definition validate_position :: "'d decimal_lib \<Rightarrow> ('d, 't) account_refresh \<Rightarrow> 'd position \<Rightarrow> trading_error + unit" where
  "validate_position D rf pos =
     (if po_account_id pos \<noteq> rf_account_id rf
      then Inl (InvalidPortfolio ''position account does not match refresh account'')
      else if blank (po_market pos) \<or> blank (po_symbol pos)
      then Inl (InvalidPortfolio ''position market and symbol are required'')
      else if d_lt D (po_sellable_quantity pos) (d_zero D) \<or> d_lt D (po_last_price pos) (d_zero D)
      then Inl (InvalidPortfolio ''sellable quantity and last price cannot be negative'')
      else Inr ())"

definition position_key :: "'d position \<Rightarrow> string" where
  "position_key pos = upper (trim (po_market pos)) @ ''.'' @ upper (trim (po_symbol pos))"

definition add_position :: "'d decimal_lib \<Rightarrow> ('d, 't) account_refresh \<Rightarrow> (string, 'd position) bmap \<Rightarrow> 'd position \<Rightarrow>
    trading_error + (string, 'd position) bmap" where
  "add_position D rf m pos =
     rbind (validate_position D rf pos) (\<lambda>_.
       if bm_get m (position_key pos) \<noteq> None
       then Inl (InvalidPortfolio ''refresh contains a duplicate position'')
       else Inr (bm_insert (position_key pos) pos m))"

definition apply_refresh :: "'d decimal_lib \<Rightarrow> 'd portfolio \<Rightarrow> ('d, 't) account_refresh \<Rightarrow>
    (trading_error + portfolio_outcome) \<times> 'd portfolio" where
  "apply_refresh D st rf =
     (if blank (rf_refresh_id rf) then (Inl (InvalidPortfolio ''refreshId is required''), st)
      else if blank (rf_trace_id rf) then (Inl (InvalidPortfolio ''traceId is required''), st)
      else if blank (rf_account_id rf) then (Inl (InvalidPortfolio ''accountId is required''), st)
      else
        let fingerprint = refresh_fingerprint D rf
        in case bm_get (pf_refreshes st) (rf_refresh_id rf) of
             Some existing \<Rightarrow>
               if existing = fingerprint then (Inr Refresh_Duplicate, st)
               else (Inl (InvalidPortfolio ''refreshId was reused with different content''), st)
           | None \<Rightarrow>
               if rf_generation rf < pf_generation st \<or>
                  rf_generation rf = pf_generation st \<and> rf_sequence rf \<le> pf_sequence st
               then (Inr Refresh_Stale, st)
               else
                 (case try_fold (add_position D rf) [] (rf_positions rf) of
                    Inl e \<Rightarrow> (Inl e, st)
                  | Inr positions \<Rightarrow>
                      (Inr Refresh_Applied,
                       \<lparr>pf_account_id = Some (rf_account_id rf), pf_generation = rf_generation rf,
                        pf_sequence = rf_sequence rf, pf_positions = positions,
                        pf_refreshes = bm_insert (rf_refresh_id rf) fingerprint (pf_refreshes st)\<rparr>)))"

definition portfolio_positions :: "'d portfolio \<Rightarrow> 'd position list" where
  "portfolio_positions st = bm_values (pf_positions st)"

definition portfolio_sellable :: "'d decimal_lib \<Rightarrow> 'd portfolio \<Rightarrow> string \<Rightarrow> trading_error + 'd" where
  "portfolio_sellable D st symbol = try_fold (add_sellable D symbol) (d_zero D) (portfolio_positions st)"

definition portfolio_step :: "'d decimal_lib \<Rightarrow> 'd portfolio \<Rightarrow> ('d, 't) account_refresh \<Rightarrow> 'd portfolio" where
  "portfolio_step D st rf = snd (apply_refresh D st rf)"

section \<open>What a refresh installs\<close>

definition fresher :: "'d portfolio \<Rightarrow> ('d, 't) account_refresh \<Rightarrow> bool" where
  "fresher st rf \<longleftrightarrow> pf_generation st < rf_generation rf \<or>
     pf_generation st = rf_generation rf \<and> pf_sequence st < rf_sequence rf"

lemma mset_bm_insert: "bm_get m k = None \<Longrightarrow> mset (bm_values (bm_insert k v m)) = add_mset v (mset (bm_values m))"
  by (induction k v m rule: bm_insert.induct) (auto simp: bm_values_def bm_get_def split: if_splits)

lemma bm_get_None_iff: "bm_get m k = None \<longleftrightarrow> k \<notin> set (map fst m)"
  by (simp add: bm_get_def map_of_eq_None_iff)

lemma add_position_fold:
  assumes "try_fold (add_position D rf) m ps = Inr m'"
  shows "mset (bm_values m') = mset (bm_values m) + mset ps" and "list_all (\<lambda>p. validate_position D rf p = Inr ()) ps"
    and "distinct (map position_key ps)" and "set (map position_key ps) \<inter> set (map fst m) = {}"
    and "bm_ok m \<Longrightarrow> bm_ok m'" and "list_all (\<lambda>(k, p). k = position_key p) m \<Longrightarrow> list_all (\<lambda>(k, p). k = position_key p) m'"
proof -
  have "mset (bm_values m') = mset (bm_values m) + mset ps \<and> list_all (\<lambda>p. validate_position D rf p = Inr ()) ps \<and>
    distinct (map position_key ps) \<and> set (map position_key ps) \<inter> set (map fst m) = {} \<and> (bm_ok m \<longrightarrow> bm_ok m') \<and>
    (list_all (\<lambda>(k, p). k = position_key p) m \<longrightarrow> list_all (\<lambda>(k, p). k = position_key p) m')"
    using assms
  proof (induction ps arbitrary: m)
    case (Cons p ps)
    let ?m = "bm_insert (position_key p) p m"
    from Cons.prems obtain m1 where m1: "add_position D rf m p = Inr m1" and fold: "try_fold (add_position D rf) m1 ps = Inr m'"
      by (auto simp: result_simps)
    from m1 have ok: "validate_position D rf p = Inr ()" "bm_get m (position_key p) = None" and "m1 = ?m"
      by (auto simp: add_position_def result_simps split: if_splits)
    with fold have rest: "try_fold (add_position D rf) ?m ps = Inr m'"
      by simp
    have "list_all (\<lambda>(k, p). k = position_key p) m \<longrightarrow> list_all (\<lambda>(k, p). k = position_key p) ?m"
      using bm_insert_all [of m "\<lambda>k p. k = position_key p" "position_key p" p] by (auto simp: list_all_iff)
    moreover have "position_key p \<notin> set (map fst m)" "set (map fst ?m) = insert (position_key p) (set (map fst m))"
      using ok(2) bm_keys_insert [of "position_key p" p m] by (simp_all add: bm_get_None_iff)
    ultimately show ?case
      using Cons.IH [OF rest] ok mset_bm_insert [OF ok(2), of p] by auto
  qed simp
  then show "mset (bm_values m') = mset (bm_values m) + mset ps" and "list_all (\<lambda>p. validate_position D rf p = Inr ()) ps"
    and "distinct (map position_key ps)" and "set (map position_key ps) \<inter> set (map fst m) = {}"
    and "bm_ok m \<Longrightarrow> bm_ok m'" and "list_all (\<lambda>(k, p). k = position_key p) m \<Longrightarrow> list_all (\<lambda>(k, p). k = position_key p) m'"
    by simp_all
qed

lemma apply_refresh_applied:
  assumes "fst (apply_refresh D st rf) = Inr Refresh_Applied"
  shows "fresher st rf" and "\<exists>positions. try_fold (add_position D rf) [] (rf_positions rf) = Inr positions \<and>
    snd (apply_refresh D st rf) =
      \<lparr>pf_account_id = Some (rf_account_id rf), pf_generation = rf_generation rf, pf_sequence = rf_sequence rf,
       pf_positions = positions,
       pf_refreshes = bm_insert (rf_refresh_id rf) (refresh_fingerprint D rf) (pf_refreshes st)\<rparr>"
    and "bm_get (pf_refreshes st) (rf_refresh_id rf) = None"
    and "\<not> blank (rf_refresh_id rf) \<and> \<not> blank (rf_trace_id rf) \<and> \<not> blank (rf_account_id rf)"
  using assms by (auto simp: apply_refresh_def fresher_def Let_def not_less not_le split: if_splits option.splits sum.splits)

lemma apply_refresh_other:
  "fst (apply_refresh D st rf) \<noteq> Inr Refresh_Applied \<Longrightarrow> snd (apply_refresh D st rf) = st"
  by (auto simp: apply_refresh_def Let_def split: if_splits option.splits sum.splits)

text \<open>The invariant of a portfolio: entries in key order under their own keys, no negative sellable quantity.\<close>

definition portfolio_ok :: "'d decimal_lib \<Rightarrow> 'd portfolio \<Rightarrow> bool" where
  "portfolio_ok D st \<longleftrightarrow> bm_ok (pf_positions st) \<and> list_all (\<lambda>(k, p). k = position_key p) (pf_positions st) \<and>
     list_all (\<lambda>p. d_le D (d_zero D) (po_sellable_quantity p) \<and> d_le D (d_zero D) (po_last_price p) \<and>
        pf_account_id st = Some (po_account_id p)) (portfolio_positions st)"

lemma validate_position_Inr: "validate_position D rf p = Inr u \<longleftrightarrow>
    po_account_id p = rf_account_id rf \<and> \<not> blank (po_market p) \<and> \<not> blank (po_symbol p) \<and>
    d_le D (d_zero D) (po_sellable_quantity p) \<and> d_le D (d_zero D) (po_last_price p)"
  by (auto simp: validate_position_def not_less)

lemma portfolio_step_ok: "portfolio_ok D st \<Longrightarrow> portfolio_ok D (portfolio_step D st rf)"
proof (cases "fst (apply_refresh D st rf) = Inr Refresh_Applied")
  case True
  then obtain m where fold: "try_fold (add_position D rf) [] (rf_positions rf) = Inr m"
    and st': "portfolio_step D st rf = \<lparr>pf_account_id = Some (rf_account_id rf), pf_generation = rf_generation rf,
      pf_sequence = rf_sequence rf, pf_positions = m,
      pf_refreshes = bm_insert (rf_refresh_id rf) (refresh_fingerprint D rf) (pf_refreshes st)\<rparr>"
    using apply_refresh_applied(2) unfolding portfolio_step_def by blast
  note facts = add_position_fold [OF fold]
  have "set (bm_values m) = set (rf_positions rf)"
    using facts(1) by (intro mset_eq_setD) (simp add: bm_values_def [of "[]"])
  with facts(2,5,6) show ?thesis
    by (auto simp: st' portfolio_ok_def portfolio_positions_def list_all_iff validate_position_Inr)
next
  case False
  then show "portfolio_ok D st \<Longrightarrow> ?thesis" by (simp add: portfolio_step_def apply_refresh_other)
qed

definition portfolio_le :: "'d portfolio \<Rightarrow> 'd portfolio \<Rightarrow> bool" where
  "portfolio_le st st' \<longleftrightarrow> bmap.extends (pf_refreshes st) (pf_refreshes st') \<and>
     (pf_generation st < pf_generation st' \<or> pf_generation st = pf_generation st' \<and> pf_sequence st \<le> pf_sequence st')"

lemma portfolio_le_refl: "portfolio_le st st"
  by (simp add: portfolio_le_def)

lemma portfolio_step_le: "portfolio_le st (portfolio_step D st rf)"
proof (cases "fst (apply_refresh D st rf) = Inr Refresh_Applied")
  case True
  note facts = apply_refresh_applied [OF True]
  then show ?thesis
    using bmap.extends_fresh [OF facts(3)] by (auto simp: portfolio_step_def portfolio_le_def fresher_def)
next
  case False
  then show ?thesis by (simp add: portfolio_step_def apply_refresh_other portfolio_le_def)
qed

lemma lex_trans:
  fixes a c e :: "'a::linorder" and b d f :: "'b::linorder"
  shows "a < c \<or> a = c \<and> b \<le> d \<Longrightarrow> c < e \<or> c = e \<and> d \<le> f \<Longrightarrow> a < e \<or> a = e \<and> b \<le> f"
  by (metis order_less_trans order_trans)

lemma portfolio_le_trans:
  assumes "portfolio_le s t" and "portfolio_le t u"
  shows "portfolio_le s u"
proof -
  have "bmap.extends (pf_refreshes s) (pf_refreshes u)"
    using assms bmap.extends_trans unfolding portfolio_le_def by blast
  moreover have "pf_generation s < pf_generation u \<or> pf_generation s = pf_generation u \<and> pf_sequence s \<le> pf_sequence u"
    using assms lex_trans unfolding portfolio_le_def by blast
  ultimately show ?thesis by (simp add: portfolio_le_def)
qed

interpretation portfolio: growing_machine "portfolio_step D" "portfolio_ok D" portfolio_le
proof unfold_locales
  show "portfolio_le s u" if "portfolio_le s t" "portfolio_le t u" for s t u :: "'d portfolio"
    by (rule portfolio_le_trans [OF that])
qed (simp_all add: portfolio_step_ok portfolio_step_le portfolio_le_refl)

lemma portfolio_default_ok: "portfolio_ok D portfolio_default"
  by (simp add: portfolio_ok_def portfolio_default_def portfolio_positions_def bm_values_def)

lemma portfolio_extends: "bmap.extends (pf_refreshes st) (pf_refreshes (run (portfolio_step D) st rfs))"
proof (induction rfs arbitrary: st)
  case (Cons rf rfs)
  have "bmap.extends (pf_refreshes st) (pf_refreshes (portfolio_step D st rf))"
    using portfolio_step_le unfolding portfolio_le_def by blast
  then show ?case using Cons bmap.extends_trans by auto
qed simp

context decimal_exact
begin

lemma sellable_fold_exact:
  "try_fold (add_sellable D symbol) s ps = Inr q \<Longrightarrow>
   d_val D q = d_val D s + (\<Sum>p\<leftarrow>filter (\<lambda>p. position_matches_symbol p symbol) ps. d_val D (po_sellable_quantity p))"
  by (induction ps arbitrary: s) (auto simp: add_sellable_def result_simps add_exact)

lemma portfolio_nonneg: "portfolio_ok D st \<Longrightarrow> p \<in> set (portfolio_positions st) \<Longrightarrow> 0 \<le> d_val D (po_sellable_quantity p)"
  by (simp add: portfolio_ok_def list_all_iff)

lemma sellable_exact:
  "sellable_quantity D ps symbol = Inr q \<Longrightarrow>
   d_val D q = (\<Sum>p\<leftarrow>filter (\<lambda>p. position_matches_symbol p symbol) ps. d_val D (po_sellable_quantity p))"
  using sellable_fold_exact [of symbol "d_zero D" ps q] by (simp add: sellable_quantity_def)

end

section \<open>Symbols\<close>

lemma upper_Nil [simp]: "upper [] = []"
  by (simp add: upper_def)

lemma suffix_after_iff: "suffix_after c s t \<longleftrightarrow> (\<exists>a. c \<notin> set a \<and> s = a @ c # t)"
  by (auto simp: suffix_after_def is_some_and_iff split_once_Some_iff)

section \<open>Properties\<close>

definition sample_position :: "string \<Rightarrow> int \<Rightarrow> int position" where
  "sample_position s q =
     \<lparr>po_account_id = ''acc-1'', po_market = ''US'', po_symbol = s, po_quantity = q * dec_unit,
      po_sellable_quantity = q * dec_unit, po_last_price = 100 * dec_unit\<rparr>"

definition sample_refresh :: "string \<Rightarrow> u64 \<Rightarrow> int position list \<Rightarrow> (int, nat) account_refresh" where
  "sample_refresh rid n ps =
     \<lparr>rf_refresh_id = rid, rf_trace_id = ''trace'', rf_account_id = ''acc-1'', rf_generation = 1, rf_sequence = n,
      rf_observed_at = 0, rf_positions = ps\<rparr>"

text \<open>A refresh is applied as a whole or not at all: when it is applied it is fresher than the state
  (a later generation, or a later sequence number of the same one), all its positions are valid
  with distinct market and symbol, and the portfolio holds exactly these positions; in every
  other case the portfolio is unchanged.\<close>

theorem refresh_is_atomic:
  "case apply_refresh D st rf of
     (Inr Refresh_Applied, st') \<Rightarrow>
       fresher st rf \<and> list_all (\<lambda>p. validate_position D rf p = Inr ()) (rf_positions rf) \<and>
       distinct (map position_key (rf_positions rf)) \<and>
       mset (portfolio_positions st') = mset (rf_positions rf) \<and>
       pf_account_id st' = Some (rf_account_id rf) \<and> pf_generation st' = rf_generation rf \<and>
       pf_sequence st' = rf_sequence rf \<and>
       bm_get (pf_refreshes st') (rf_refresh_id rf) = Some (refresh_fingerprint D rf)
   | (_, st') \<Rightarrow> st' = st"
proof (cases "fst (apply_refresh D st rf) = Inr Refresh_Applied")
  case True
  then obtain m where fold: "try_fold (add_position D rf) [] (rf_positions rf) = Inr m"
    and st': "snd (apply_refresh D st rf) = \<lparr>pf_account_id = Some (rf_account_id rf), pf_generation = rf_generation rf,
      pf_sequence = rf_sequence rf, pf_positions = m,
      pf_refreshes = bm_insert (rf_refresh_id rf) (refresh_fingerprint D rf) (pf_refreshes st)\<rparr>"
    using apply_refresh_applied(2) by blast
  have "apply_refresh D st rf = (Inr Refresh_Applied, snd (apply_refresh D st rf))"
    by (simp add: True [symmetric])
  then show ?thesis
    using apply_refresh_applied(1) [OF True] add_position_fold(1-3) [OF fold] unfolding st'
    by (simp add: portfolio_positions_def bm_values_def [of "[]"])
next
  case False
  then have "snd (apply_refresh D st rf) = st" by (rule apply_refresh_other)
  with False show ?thesis
    by (cases "apply_refresh D st rf") (auto split: sum.splits portfolio_outcome.splits)
qed

text \<open>A refresh takes effect at most once: after it was applied, and whatever other refreshes follow,
  sending it again is a duplicate without effect, and reusing its id for other content is refused
  without effect.\<close>

theorem refresh_applies_once:
  assumes "fst (apply_refresh D st rf) = Inr Refresh_Applied"
    and "st' = run (portfolio_step D) (snd (apply_refresh D st rf)) rfs"
    and "rf_refresh_id rf' = rf_refresh_id rf" and "\<not> blank (rf_trace_id rf') \<and> \<not> blank (rf_account_id rf')"
  shows "apply_refresh D st' rf' =
    (if refresh_fingerprint D rf' = refresh_fingerprint D rf then (Inr Refresh_Duplicate, st')
     else (Inl (InvalidPortfolio ''refreshId was reused with different content''), st'))"
proof -
  have "bm_get (pf_refreshes (snd (apply_refresh D st rf))) (rf_refresh_id rf) = Some (refresh_fingerprint D rf)"
    using apply_refresh_applied(2) [OF assms(1)] by auto
  then have "bm_get (pf_refreshes st') (rf_refresh_id rf') = Some (refresh_fingerprint D rf)"
    using portfolio_extends [of "snd (apply_refresh D st rf)" D rfs] assms(2,3)
    by (simp add: bmap.extends_def)
  then show ?thesis
    using assms(3,4) apply_refresh_applied(4) [OF assms(1)]
    by (cases "refresh_fingerprint D rf' = refresh_fingerprint D rf") (simp_all add: apply_refresh_def Let_def)
qed

lemma sample_refresh_applied:
  "fst (apply_refresh dec28 portfolio_default (sample_refresh ''r1'' 1 [sample_position ''AAPL'' 5])) = Inr Refresh_Applied"
  "portfolio_positions (snd (apply_refresh dec28 portfolio_default (sample_refresh ''r1'' 1 [sample_position ''AAPL'' 5]))) =
     [sample_position ''AAPL'' 5]"
proof -
  have "\<not> blank ''r1'' \<and> \<not> blank ''trace'' \<and> \<not> blank ''acc-1'' \<and> \<not> blank ''US'' \<and> \<not> blank ''AAPL''"
    by (simp add: string_eval)
  then show "fst (apply_refresh dec28 portfolio_default (sample_refresh ''r1'' 1 [sample_position ''AAPL'' 5])) = Inr Refresh_Applied"
    "portfolio_positions (snd (apply_refresh dec28 portfolio_default (sample_refresh ''r1'' 1 [sample_position ''AAPL'' 5]))) =
     [sample_position ''AAPL'' 5]"
    by (simp_all add: apply_refresh_def sample_refresh_def sample_position_def portfolio_default_def add_position_def
        validate_position_def d_zero_def dec_unit_def Let_def portfolio_positions_def bm_values_def)
qed

theorem refresh_applies_once_witness:
  "fst (apply_refresh dec28 (run (portfolio_step dec28)
      (snd (apply_refresh dec28 portfolio_default (sample_refresh ''r1'' 1 [sample_position ''AAPL'' 5]))) [sample_refresh ''r2'' 2 []])
     (sample_refresh ''r1'' 1 [sample_position ''AAPL'' 5])) = Inr Refresh_Duplicate"
proof -
  have "\<not> blank ''trace'' \<and> \<not> blank ''acc-1''"
    by (simp add: string_eval)
  then have "\<not> blank (rf_trace_id (sample_refresh ''r1'' 1 [sample_position ''AAPL'' 5])) \<and>
      \<not> blank (rf_account_id (sample_refresh ''r1'' 1 [sample_position ''AAPL'' 5]))"
    by (simp add: sample_refresh_def)
  from refresh_applies_once [OF sample_refresh_applied(1) refl refl this, of "[sample_refresh ''r2'' 2 []]"]
  show ?thesis by simp
qed

text \<open>The sellable quantity of a portfolio for a symbol is the sum over exactly the positions that match
  the symbol, and it is never negative.\<close>

theorem portfolio_sellable_is_sum:
  assumes "decimal_exact D" and "st = run (portfolio_step D) portfolio_default rfs"
    and "portfolio_sellable D st symbol = Inr q"
  shows "d_val D q = (\<Sum>p\<leftarrow>filter (\<lambda>p. position_matches_symbol p symbol) (portfolio_positions st). d_val D (po_sellable_quantity p)) \<and>
    0 \<le> d_val D q"
proof -
  have sum_eq: "d_val D q = (\<Sum>p\<leftarrow>filter (\<lambda>p. position_matches_symbol p symbol) (portfolio_positions st). d_val D (po_sellable_quantity p))"
    using decimal_exact.sellable_exact [OF assms(1), of "portfolio_positions st"] assms(3) by (simp add: portfolio_sellable_def sellable_quantity_def)
  have "portfolio_ok D st"
    using portfolio.run_inv [OF portfolio_default_ok] assms(2) by simp
  from decimal_exact.portfolio_nonneg [OF assms(1) this] show ?thesis
    unfolding sum_eq by (intro conjI refl sum_list_nonneg) auto
qed

theorem portfolio_sellable_is_sum_witness:
  "portfolio_sellable dec28 (run (portfolio_step dec28) portfolio_default [sample_refresh ''r1'' 1 [sample_position ''AAPL'' 5]])
     ''US.AAPL'' = Inr (5 * dec_unit) \<and> 0 \<le> d_val dec28 (5 * dec_unit)"
proof -
  let ?st = "run (portfolio_step dec28) portfolio_default [sample_refresh ''r1'' 1 [sample_position ''AAPL'' 5]]"
  have "portfolio_positions ?st = [sample_position ''AAPL'' 5]"
    using sample_refresh_applied(2) by (simp add: portfolio_step_def)
  moreover have "position_matches_symbol (sample_position ''AAPL'' 5) ''US.AAPL''"
    by (simp add: position_matches_symbol_def sample_position_def string_eval Let_def)
  ultimately have "portfolio_sellable dec28 ?st ''US.AAPL'' = Inr (5 * dec_unit)"
    by (simp add: portfolio_sellable_def add_sellable_def sample_position_def d_zero_def dec_unit_def dec_fit_def del: run_simps)
  from portfolio_sellable_is_sum [OF exact28.decimal_exact_axioms refl this] this show ?thesis
    by blast
qed

text \<open>A position of a named market, whose own symbol holds no separator, belongs to a strategy symbol
  exactly when this is the bare symbol or the symbol qualified by that market with a dot or a
  colon, up to case and surrounding white space; another market's qualified symbol never matches.\<close>

theorem qualified_position_matching:
  assumes "\<not> blank (po_market pos)" and "\<not> blank (po_symbol pos)"
    and "CHR ''.'' \<notin> set (upper (trim (po_symbol pos)))" and "CHR '':'' \<notin> set (upper (trim (po_symbol pos)))"
  shows "position_matches_symbol pos symbol \<longleftrightarrow>
    (let m = upper (trim (po_market pos)); s = upper (trim (po_symbol pos))
     in upper (trim symbol) \<in> {s, m @ ''.'' @ s, m @ '':'' @ s})"
  using assms by (auto simp: position_matches_symbol_def blank_def Let_def)

theorem qualified_position_matching_witness:
  "position_matches_symbol (sample_position ''AAPL'' 5) '' us:aapl'' \<and>
   \<not> position_matches_symbol (sample_position ''AAPL'' 5) ''HK.AAPL''"
proof -
  have side: "\<not> blank (po_market (sample_position ''AAPL'' 5))" "\<not> blank (po_symbol (sample_position ''AAPL'' 5))"
    "CHR ''.'' \<notin> set (upper (trim (po_symbol (sample_position ''AAPL'' 5))))"
    "CHR '':'' \<notin> set (upper (trim (po_symbol (sample_position ''AAPL'' 5))))"
    by (simp_all add: sample_position_def string_eval)
  show ?thesis
    unfolding qualified_position_matching [OF side]
    by (simp add: sample_position_def string_eval Let_def)
qed

end
