(* ===== verification/Trading_Session.thy ===== *)
theory Trading_Session
  imports Trading_Ledger
begin

text \<open>
  \<open>crates/jftrade-trading/src/session.rs\<close>, the connection of a broker account as a state machine,
  and \<open>notification.rs\<close>, the planner of shadow notifications.
\<close>

section \<open>The broker session\<close>

datatype session_state =
  Disconnected | Connecting | ReadOnlyReady | TradeReady | Reconnecting | Closing | Closed

record 't account_snapshot =
  sn_account_ids :: "string list"
  sn_generation :: u64
  sn_refreshed_at :: 't

record 't broker_session =
  bs_state :: session_state
  bs_generation :: u64
  bs_quote_login :: bool
  bs_trade_login :: bool
  bs_unlocked :: bool
  bs_account_snapshot :: "'t account_snapshot option"

definition session_default :: "'t broker_session" where
  "session_default =
     \<lparr>bs_state = Disconnected, bs_generation = 0, bs_quote_login = False, bs_trade_login = False,
      bs_unlocked = False, bs_account_snapshot = None\<rparr>"

definition connect :: "'t broker_session \<Rightarrow> bool \<times> 't broker_session" where
  "connect s =
     (if bs_state s \<in> {Closing, Closed} then (False, s) else (True, s\<lparr>bs_state := Connecting\<rparr>))"

definition authenticated :: "bool \<Rightarrow> bool \<Rightarrow> bool \<Rightarrow> 't broker_session \<Rightarrow> bool \<times> 't broker_session" where
  "authenticated quote_login trade_login unlocked s =
     (if bs_state s \<noteq> Connecting \<and> bs_state s \<noteq> Reconnecting then (False, s)
      else (True, s\<lparr>bs_quote_login := quote_login, bs_trade_login := trade_login, bs_unlocked := unlocked,
                    bs_state := (if quote_login \<and> trade_login \<and> unlocked then TradeReady
                                 else if quote_login then ReadOnlyReady else Disconnected)\<rparr>))"

definition disconnected :: "'t broker_session \<Rightarrow> bool \<times> 't broker_session" where
  "disconnected s =
     (if bs_state s \<in> {Closing, Closed} then (False, s)
      else (True, s\<lparr>bs_generation := bs_generation s + 1, bs_quote_login := False, bs_trade_login := False,
                    bs_unlocked := False, bs_account_snapshot := None, bs_state := Reconnecting\<rparr>))"

definition refresh_accounts :: "'t account_snapshot \<Rightarrow> 't broker_session \<Rightarrow> bool \<times> 't broker_session" where
  "refresh_accounts sn s =
     (if sn_generation sn \<noteq> bs_generation s \<or> bs_state s \<notin> {ReadOnlyReady, TradeReady} then (False, s)
      else (True, s\<lparr>bs_account_snapshot := Some sn\<rparr>))"

definition begin_close :: "'t broker_session \<Rightarrow> bool \<times> 't broker_session" where
  "begin_close s =
     (if bs_state s \<in> {Closing, Closed} then (False, s) else (True, s\<lparr>bs_state := Closing\<rparr>))"

definition finish_close :: "'t broker_session \<Rightarrow> bool \<times> 't broker_session" where
  "finish_close s =
     (if bs_state s = Closed then (False, s)
      else (True, s\<lparr>bs_state := Closed, bs_account_snapshot := None\<rparr>))"

definition can_read :: "'t broker_session \<Rightarrow> bool" where
  "can_read s \<longleftrightarrow> bs_state s \<in> {ReadOnlyReady, TradeReady}"

definition can_trade :: "'t broker_session \<Rightarrow> bool" where
  "can_trade s \<longleftrightarrow> bs_state s = TradeReady"

datatype 't session_op =
  Connect | Authenticated bool bool bool | Disconnect | Refresh_Accounts "'t account_snapshot" | Begin_Close | Finish_Close

fun session_step :: "'t broker_session \<Rightarrow> 't session_op \<Rightarrow> 't broker_session" where
  "session_step s Connect = snd (connect s)"
| "session_step s (Authenticated q t u) = snd (authenticated q t u s)"
| "session_step s Disconnect = snd (disconnected s)"
| "session_step s (Refresh_Accounts sn) = snd (refresh_accounts sn s)"
| "session_step s Begin_Close = snd (begin_close s)"
| "session_step s Finish_Close = snd (finish_close s)"

lemmas session_defs = connect_def authenticated_def disconnected_def refresh_accounts_def begin_close_def
  finish_close_def can_read_def can_trade_def

text \<open>What each state means: logins behind the ready states, a snapshot only of the current generation.\<close>

definition session_ok :: "'t broker_session \<Rightarrow> bool" where
  "session_ok s \<longleftrightarrow>
     (case bs_state s of
        TradeReady \<Rightarrow> bs_quote_login s \<and> bs_trade_login s \<and> bs_unlocked s
      | ReadOnlyReady \<Rightarrow> bs_quote_login s \<and> \<not> (bs_trade_login s \<and> bs_unlocked s)
      | Reconnecting \<Rightarrow> \<not> bs_quote_login s \<and> \<not> bs_trade_login s \<and> \<not> bs_unlocked s \<and> bs_account_snapshot s = None
      | Closed \<Rightarrow> bs_account_snapshot s = None
      | _ \<Rightarrow> True) \<and>
     (case bs_account_snapshot s of None \<Rightarrow> True | Some sn \<Rightarrow> sn_generation sn = bs_generation s)"

interpretation session: machine session_step session_ok
proof unfold_locales
  show "session_ok (session_step s a)" if "session_ok s" for s :: "'t broker_session" and a
    using that by (cases a) (auto simp: session_ok_def session_defs split: session_state.splits option.splits)
qed

lemma session_default_ok: "session_ok session_default"
  by (simp add: session_ok_def session_default_def)

fun is_authentication :: "'t session_op \<Rightarrow> bool" where
  "is_authentication (Authenticated _ _ _) = True"
| "is_authentication _ = False"

lemma unready_step: "\<not> can_read s \<Longrightarrow> \<not> is_authentication a \<Longrightarrow> \<not> can_read (session_step s a)"
  by (cases a) (auto simp: session_defs)

lemma unready_run: "\<not> can_read s \<Longrightarrow> list_all (\<lambda>a. \<not> is_authentication a) ops \<Longrightarrow> \<not> can_read (run session_step s ops)"
  by (induction ops arbitrary: s) (simp_all add: unready_step)

lemma disconnected_unready: "\<not> can_read (snd (disconnected s))"
  by (simp add: session_defs)

lemma trade_read: "\<not> can_read s \<Longrightarrow> \<not> can_trade s"
  by (simp add: session_defs)

lemma closing_step: "bs_state s \<in> {Closing, Closed} \<Longrightarrow> bs_state (session_step s a) \<in> {Closing, Closed} \<and>
    (bs_state s = Closed \<longrightarrow> session_step s a = s)"
  by (cases a) (auto simp: session_defs)

lemma closed_run: "bs_state s = Closed \<Longrightarrow> run session_step s ops = s"
proof (induction ops arbitrary: s)
  case (Cons a ops)
  have "session_step s a = s"
    using closing_step [of s a] Cons.prems by simp
  with Cons show ?case by simp
qed simp

lemma closing_run: "bs_state s \<in> {Closing, Closed} \<Longrightarrow> bs_state (run session_step s ops) \<in> {Closing, Closed}"
proof (induction ops arbitrary: s)
  case (Cons a ops)
  have "bs_state (session_step s a) \<in> {Closing, Closed}"
    using closing_step [OF Cons.prems] by blast
  from Cons.IH [OF this] show ?case by simp
qed simp

subsection \<open>Generations\<close>

text \<open>How often the connection was lost in a run.\<close>

fun losses :: "'t broker_session \<Rightarrow> 't session_op list \<Rightarrow> nat" where
  "losses s [] = 0"
| "losses s (a # ops) =
     (if a = Disconnect \<and> bs_state s \<notin> {Closing, Closed} then 1 else 0) + losses (session_step s a) ops"

lemma losses_le: "losses s ops \<le> length ops"
proof (induction ops arbitrary: s)
  case (Cons a ops)
  from Cons.IH [of "session_step s a"] show ?case by auto
qed simp

lemma generation_step:
  "bs_generation (session_step s a) = bs_generation s + (if a = Disconnect \<and> bs_state s \<notin> {Closing, Closed} then 1 else 0)"
  by (cases a) (auto simp: session_defs)

lemma generation_run: "bs_generation (run session_step s ops) = bs_generation s + of_nat (losses s ops)"
  by (induction ops arbitrary: s) (simp_all add: generation_step)

lemma generation_moves_on:
  assumes "length ops < 2 ^ 64 - 1" and "(True, s') = disconnected s"
  shows "bs_generation (run session_step s' ops) \<noteq> bs_generation s"
proof -
  let ?n = "Suc (losses s' ops)"
  have "bs_generation s' = bs_generation s + 1"
    using assms(2) by (auto simp: disconnected_def split: if_splits)
  then have "bs_generation (run session_step s' ops) = bs_generation s + of_nat ?n"
    by (simp add: generation_run)
  moreover have "?n < 2 ^ 64"
    using assms(1) losses_le [of s' ops] by simp
  then have "unat (of_nat ?n :: u64) = ?n"
    by (simp add: unat_of_nat take_bit_nat_eq_self del: of_nat_Suc)
  then have "(of_nat ?n :: u64) \<noteq> 0"
    by (metis nat.simps(3) unsigned_0)
  ultimately show ?thesis by (simp del: of_nat_Suc)
qed

section \<open>Notifications\<close>

record notification_envelope =
  ne_source_event_id :: string
  ne_trace_id :: string
  ne_category :: string
  ne_title :: string
  ne_message :: string
  ne_dispatch :: bool
  ne_duplicate :: bool

record notification_planner =
  np_seen :: "string list"

definition plan_notification :: "notification_planner \<Rightarrow> string \<Rightarrow> string \<Rightarrow> string \<Rightarrow> string \<Rightarrow> string \<Rightarrow>
    notification_envelope option \<times> notification_planner" where
  "plan_notification st source_event_id trace_id category title message =
     (if blank source_event_id \<or> blank trace_id \<or> blank category then (None, st)
      else let (new, seen) = bs_insert source_event_id (np_seen st)
           in (Some \<lparr>ne_source_event_id = source_event_id, ne_trace_id = trace_id, ne_category = category,
                     ne_title = title, ne_message = message, ne_dispatch = False, ne_duplicate = (\<not> new)\<rparr>,
               st\<lparr>np_seen := seen\<rparr>))"

type_synonym notification_request = "string \<times> string \<times> string \<times> string \<times> string"

fun planner_step :: "notification_planner \<Rightarrow> notification_request \<Rightarrow> notification_planner" where
  "planner_step st (i, t, c, ti, m) = snd (plan_notification st i t c ti m)"

fun planned :: "notification_request \<Rightarrow> bool" where
  "planned (i, t, c, ti, m) \<longleftrightarrow> \<not> (blank i \<or> blank t \<or> blank c)"

lemma planner_seen: "set (np_seen (run planner_step st reqs)) = set (np_seen st) \<union> fst ` set (filter planned reqs)"
  by (induction reqs arbitrary: st) (auto simp: plan_notification_def Let_def split: prod.splits simp: bs_insert_def)

section \<open>Properties\<close>

text \<open>In every reachable session, trading is possible only with all three logins of the current
  connection, reading only with the quote login, and the account snapshot, when there is one, is of
  the current generation.\<close>

theorem session_state_is_honest:
  "let s = run session_step session_default ops
   in (if can_trade s then bs_quote_login s \<and> bs_trade_login s \<and> bs_unlocked s else True) \<and>
      (if can_read s then bs_quote_login s else True) \<and>
      (case bs_account_snapshot s of None \<Rightarrow> True | Some sn \<Rightarrow> sn_generation sn = bs_generation s)"
  using session.run_inv [OF session_default_ok, of ops]
  by (auto simp: session_ok_def can_trade_def can_read_def Let_def split: session_state.splits option.splits)

text \<open>Losing the connection takes the session out of use: until the next authentication, whatever else
  happens, neither reading nor trading is possible.\<close>

theorem disconnect_revokes:
  assumes "list_all (\<lambda>a. \<not> is_authentication a) ops"
  shows "\<not> can_read (run session_step (snd (disconnected s)) ops) \<and> \<not> can_trade (run session_step (snd (disconnected s)) ops)"
  using unready_run [OF disconnected_unready assms] trade_read by blast

definition ready_session :: "nat broker_session" where
  "ready_session =
     \<lparr>bs_state = TradeReady, bs_generation = 0, bs_quote_login = True, bs_trade_login = True, bs_unlocked = True,
      bs_account_snapshot = None\<rparr>"

theorem disconnect_revokes_witness:
  "can_trade ready_session \<and> \<not> can_trade (run session_step (snd (disconnected ready_session)) [Connect, Disconnect])"
  using disconnect_revokes [of "[Connect, Disconnect]" ready_session]
  by (simp add: ready_session_def can_trade_def del: run_simps)

text \<open>An account snapshot taken before the connection was lost is never installed afterwards, however
  the session goes on (for runs shorter than the 64-bit generation counter).\<close>

theorem stale_snapshot_refused:
  assumes "length ops < 2 ^ 64 - 1" and "sn_generation sn = bs_generation s"
    and "s' = run session_step (snd (disconnected s)) ops"
  shows "refresh_accounts sn s' = (False, s')"
proof (cases "bs_state s \<in> {Closing, Closed}")
  case True
  then have "bs_state s' \<in> {Closing, Closed}"
    using closing_run [of s ops] assms(3) by (simp add: disconnected_def)
  then show ?thesis by (auto simp: refresh_accounts_def)
next
  case False
  then have "(True, snd (disconnected s)) = disconnected s"
    by (simp add: disconnected_def)
  from generation_moves_on [OF assms(1) this] have "bs_generation s' \<noteq> bs_generation s"
    using assms(3) by simp
  then show ?thesis using assms(2) by (simp add: refresh_accounts_def)
qed

theorem stale_snapshot_refused_witness:
  "let s' = run session_step (snd (disconnected ready_session)) [Authenticated True True True]
   in refresh_accounts \<lparr>sn_account_ids = [''a''], sn_generation = 0, sn_refreshed_at = 0\<rparr> s' = (False, s') \<and> can_trade s'"
  using stale_snapshot_refused [of "[Authenticated True True True]"
      "\<lparr>sn_account_ids = [''a''], sn_generation = 0, sn_refreshed_at = 0\<rparr>" ready_session, OF _ _ refl]
  by (simp add: ready_session_def session_defs Let_def)

text \<open>Closing is final: once closing has begun the session never becomes usable again, and a closed
  session no longer changes at all.\<close>

theorem closing_is_final:
  "bs_state (run session_step (snd (begin_close s)) ops) \<in> {Closing, Closed} \<and>
   run session_step (snd (finish_close s)) ops = snd (finish_close s)"
  by (intro conjI closing_run closed_run) (auto simp: begin_close_def finish_close_def)

text \<open>A notification is planned as new at most once per source event: the envelope of a planned event
  is marked duplicate exactly when the event was planned before, and no envelope is dispatched.\<close>

theorem notification_once:
  assumes "planned (i, t, c, ti, m)"
  shows "\<exists>e. fst (plan_notification (run planner_step \<lparr>np_seen = []\<rparr> reqs) i t c ti m) = Some e \<and>
    ne_source_event_id e = i \<and> (ne_duplicate e \<longleftrightarrow> i \<in> fst ` set (filter planned reqs)) \<and> \<not> ne_dispatch e"
  using assms planner_seen [of "\<lparr>np_seen = []\<rparr>" reqs]
  by (auto simp: plan_notification_def bs_insert_def)

theorem notification_once_witness:
  "\<exists>e. fst (plan_notification (run planner_step \<lparr>np_seen = []\<rparr> [(''e1'', ''t'', ''c'', ''x'', ''y'')]) ''e1'' ''t'' ''c'' ''x'' ''y'') = Some e \<and>
    ne_duplicate e"
proof -
  have p: "planned (''e1'', ''t'', ''c'', ''x'', ''y'')"
    by (simp add: string_eval)
  show ?thesis
    using notification_once [OF p, of "[(''e1'', ''t'', ''c'', ''x'', ''y'')]"] p by (auto simp del: run_simps planned.simps)
qed

end
