(* ===== verification/Trading_Control.thy ===== *)
theory Trading_Control
  imports Trading_Risk
begin

text \<open>
  \<open>crates/jftrade-trading/src/real_trade.rs\<close>: the state of the real-trade control plane (runtime
  limits, kill switch, hard stops, audit events), the snapshot that the gateway and the console
  read, and the response projections of the snapshot.
\<close>

section \<open>Control state\<close>

definition blocked_operations :: "string list" where
  "blocked_operations = [''PLACE'', ''MODIFY'']"

record 'd runtime_risk_entry =
  rr_id :: string
  rr_trading_environment :: string
  rr_real_trading_enabled :: bool
  rr_max_order_quantity :: "'d option"
  rr_max_order_notional :: "'d option"
  rr_operator_id :: string
  rr_reason :: string
  rr_activated_at :: string
  rr_updated_at :: string

record kill_switch_entry =
  ks_id :: string
  ks_trading_environment :: string
  ks_operator_id :: string
  ks_reason :: string
  ks_activated_at :: string
  ks_updated_at :: string

record hard_stop_entry =
  he_id :: string
  he_broker_id :: string
  he_trading_environment :: string
  he_account_id :: string
  he_market :: "string option"
  he_symbol :: "string option"
  he_scope :: string
  he_operator_id :: string
  he_reason :: string
  he_activated_at :: string
  he_updated_at :: string

record 'd control_event =
  ce_id :: string
  ce_event_type :: string
  ce_action :: string
  ce_broker_id :: string
  ce_operation :: "string option"
  ce_trading_environment :: "string option"
  ce_account_id :: "string option"
  ce_market :: "string option"
  ce_symbol :: "string option"
  ce_order_id :: "string option"
  ce_quantity :: "'d option"
  ce_price :: "'d option"
  ce_kill_switch_source :: "string option"
  ce_hard_stop_scope :: "string option"
  ce_operator_id :: "string option"
  ce_reason :: "string option"
  ce_error_code :: "string option"
  ce_hard_stop_id :: "string option"
  ce_real_trading_enabled :: "bool option"
  ce_max_order_quantity :: "'d option"
  ce_max_order_notional :: "'d option"
  ce_activated_at :: "string option"
  ce_created_at :: string

definition event_default :: "'d control_event" where
  "event_default =
     \<lparr>ce_id = [], ce_event_type = [], ce_action = [], ce_broker_id = [], ce_operation = None,
      ce_trading_environment = None, ce_account_id = None, ce_market = None, ce_symbol = None,
      ce_order_id = None, ce_quantity = None, ce_price = None, ce_kill_switch_source = None,
      ce_hard_stop_scope = None, ce_operator_id = None, ce_reason = None, ce_error_code = None,
      ce_hard_stop_id = None, ce_real_trading_enabled = None, ce_max_order_quantity = None,
      ce_max_order_notional = None, ce_activated_at = None, ce_created_at = []\<rparr>"

record 'd control_state =
  ct_risk_config :: "'d runtime_risk_entry option"
  ct_kill_switch :: "kill_switch_entry option"
  ct_hard_stops :: "hard_stop_entry list"
  ct_events :: "'d control_event list"

definition control_default :: "'d control_state" where
  "control_default = \<lparr>ct_risk_config = None, ct_kill_switch = None, ct_hard_stops = [], ct_events = []\<rparr>"

section \<open>The snapshot\<close>

record 'd risk_snapshot =
  ss_real_trading_enabled :: bool
  ss_kill_switch_active :: bool
  ss_kill_switch_source :: "string option"
  ss_runtime_kill_switch_active :: bool
  ss_control_plane_available :: bool
  ss_control_plane_error :: "string option"
  ss_kill_switch_entry :: "kill_switch_entry option"
  ss_kill_switch_events :: "'d control_event list"
  ss_blocked_operations :: "string list"
  ss_allows_cancel :: bool
  ss_hard_stops_active :: bool
  ss_hard_stop_entries :: "hard_stop_entry list"
  ss_hard_stop_events :: "'d control_event list"
  ss_risk_enabled :: bool
  ss_runtime_risk_configured :: bool
  ss_runtime_max_order_quantity :: "'d option"
  ss_runtime_max_order_notional :: "'d option"
  ss_max_order_quantity :: "'d option"
  ss_max_order_notional :: "'d option"
  ss_risk_entry :: "'d runtime_risk_entry option"
  ss_risk_events :: "'d control_event list"

definition positive_finite :: "'d decimal_lib \<Rightarrow> 'd option \<Rightarrow> 'd option" where
  "positive_finite D v = opt_filter (\<lambda>x. d_lt D (d_zero D) x) v"

definition events_with_prefix :: "'d control_event list \<Rightarrow> string \<Rightarrow> 'd control_event list" where
  "events_with_prefix events prefix = filter (\<lambda>e. starts_with (upper (ce_action e)) prefix) events"

definition risk_events :: "'d control_event list \<Rightarrow> 'd control_event list" where
  "risk_events events =
     filter (\<lambda>e. let action = upper (ce_action e)
                 in starts_with action ''RISK_CONFIG_'' \<or> starts_with action ''RISK_LIMIT_'') events"

definition from_control_state :: "'d decimal_lib \<Rightarrow> 'd control_state \<Rightarrow> string option \<Rightarrow> 'd risk_snapshot" where
  "from_control_state D state unavailable_error =
     (let max_quantity = Option.bind (ct_risk_config state) (\<lambda>e. positive_finite D (rr_max_order_quantity e));
          max_notional = Option.bind (ct_risk_config state) (\<lambda>e. positive_finite D (rr_max_order_notional e));
          unavailable = (unavailable_error \<noteq> None);
          kill_switch = (ct_kill_switch state \<noteq> None \<or> unavailable)
      in \<lparr>ss_real_trading_enabled =
             (if unavailable then True else is_some_and (ct_risk_config state) rr_real_trading_enabled),
          ss_kill_switch_active = kill_switch,
          ss_kill_switch_source = (if kill_switch then Some ''RUNTIME'' else None),
          ss_runtime_kill_switch_active = kill_switch,
          ss_control_plane_available = (\<not> unavailable),
          ss_control_plane_error = unavailable_error,
          ss_kill_switch_entry = ct_kill_switch state,
          ss_kill_switch_events = events_with_prefix (ct_events state) ''KILL_SWITCH_'',
          ss_blocked_operations = blocked_operations,
          ss_allows_cancel = True,
          ss_hard_stops_active = (ct_hard_stops state \<noteq> []),
          ss_hard_stop_entries = ct_hard_stops state,
          ss_hard_stop_events = events_with_prefix (ct_events state) ''HARD_STOP_'',
          ss_risk_enabled = (max_quantity \<noteq> None \<or> max_notional \<noteq> None),
          ss_runtime_risk_configured = (ct_risk_config state \<noteq> None),
          ss_runtime_max_order_quantity = max_quantity,
          ss_runtime_max_order_notional = max_notional,
          ss_max_order_quantity = max_quantity,
          ss_max_order_notional = max_notional,
          ss_risk_entry = ct_risk_config state,
          ss_risk_events = risk_events (ct_events state)\<rparr>)"

section \<open>Responses\<close>

record 'd approval_policy =
  ap_approver_allowlist_enabled :: bool
  ap_approver_count :: nat
  ap_large_order_notional :: "'d option"
  ap_approval_workflow_available :: bool
  ap_approval_mode :: string

definition approval_policy_default :: "'d approval_policy" where
  "approval_policy_default =
     \<lparr>ap_approver_allowlist_enabled = False, ap_approver_count = 0, ap_large_order_notional = None,
      ap_approval_workflow_available = False, ap_approval_mode = ''none''\<rparr>"

record 'd approvals_response =
  ar_real_trading_enabled :: bool
  ar_required_confirmation_text :: string
  ar_max_approval_age_ms :: i64
  ar_approval_workflow_available :: bool
  ar_approval_workflow_status :: string
  ar_approval_workflow_message :: string
  ar_approval_policy :: "'d approval_policy"
  ar_entries :: "unit list"

record hard_stops_response =
  hr_blocked_operations :: "string list"
  hr_allows_cancel :: bool
  hr_entries :: "hard_stop_entry list"

record 'd hard_stop_events_response =
  hv_real_trading_enabled :: bool
  hv_blocked_operations :: "string list"
  hv_allows_cancel :: bool
  hv_entries :: "'d control_event list"

record kill_switch_response =
  kr_real_trading_enabled :: bool
  kr_kill_switch_active :: bool
  kr_kill_switch_source :: "string option"
  kr_runtime_active :: bool
  kr_blocked_operations :: "string list"
  kr_allows_cancel :: bool
  kr_entry :: "kill_switch_entry option"

record 'd kill_switch_events_response =
  kv_real_trading_enabled :: bool
  kv_kill_switch_active :: bool
  kv_runtime_active :: bool
  kv_blocked_operations :: "string list"
  kv_allows_cancel :: bool
  kv_entries :: "'d control_event list"

record 'd risk_limits_response =
  lr_real_trading_enabled :: bool
  lr_risk_enabled :: bool
  lr_runtime_risk_configured :: bool
  lr_runtime_max_order_quantity :: "'d option"
  lr_runtime_max_order_notional :: "'d option"
  lr_effective_max_order_quantity :: "'d option"
  lr_effective_max_order_notional :: "'d option"

record 'd risk_limits_state_response = "'d risk_limits_response" +
  lr_entry :: "'d runtime_risk_entry option"

record 'd risk_events_response = "'d risk_limits_response" +
  lr_max_order_quantity :: "'d option"
  lr_max_order_notional :: "'d option"
  lr_entries :: "'d control_event list"

definition approvals :: "'d risk_snapshot \<Rightarrow> 'd approvals_response" where
  "approvals s =
     \<lparr>ar_real_trading_enabled = ss_real_trading_enabled s,
      ar_required_confirmation_text = ''ENABLE_REAL_TRADING'',
      ar_max_approval_age_ms = 5 * 60 * 1000,
      ar_approval_workflow_available = False,
      ar_approval_workflow_status = ''not_configured'',
      ar_approval_workflow_message = ''real-trade approval workflow is not configured; runtime risk limits are enforced before broker submission.'',
      ar_approval_policy = approval_policy_default,
      ar_entries = []\<rparr>"

definition hard_stops_of :: "'d risk_snapshot \<Rightarrow> hard_stops_response" where
  "hard_stops_of s =
     \<lparr>hr_blocked_operations = blocked_operations, hr_allows_cancel = True, hr_entries = ss_hard_stop_entries s\<rparr>"

definition hard_stop_events_of :: "'d risk_snapshot \<Rightarrow> 'd hard_stop_events_response" where
  "hard_stop_events_of s =
     \<lparr>hv_real_trading_enabled = ss_real_trading_enabled s, hv_blocked_operations = blocked_operations,
      hv_allows_cancel = True, hv_entries = ss_hard_stop_events s\<rparr>"

definition kill_switch_of :: "'d risk_snapshot \<Rightarrow> kill_switch_response" where
  "kill_switch_of s =
     \<lparr>kr_real_trading_enabled = ss_real_trading_enabled s, kr_kill_switch_active = ss_kill_switch_active s,
      kr_kill_switch_source = ss_kill_switch_source s, kr_runtime_active = ss_runtime_kill_switch_active s,
      kr_blocked_operations = blocked_operations, kr_allows_cancel = True, kr_entry = ss_kill_switch_entry s\<rparr>"

definition kill_switch_events_of :: "'d risk_snapshot \<Rightarrow> 'd kill_switch_events_response" where
  "kill_switch_events_of s =
     \<lparr>kv_real_trading_enabled = ss_real_trading_enabled s, kv_kill_switch_active = ss_kill_switch_active s,
      kv_runtime_active = ss_runtime_kill_switch_active s, kv_blocked_operations = blocked_operations,
      kv_allows_cancel = True, kv_entries = ss_kill_switch_events s\<rparr>"

definition risk_limits_of :: "'d risk_snapshot \<Rightarrow> 'd risk_limits_state_response" where
  "risk_limits_of s =
     \<lparr>lr_real_trading_enabled = ss_real_trading_enabled s, lr_risk_enabled = ss_risk_enabled s,
      lr_runtime_risk_configured = ss_runtime_risk_configured s,
      lr_runtime_max_order_quantity = ss_runtime_max_order_quantity s,
      lr_runtime_max_order_notional = ss_runtime_max_order_notional s,
      lr_effective_max_order_quantity = ss_max_order_quantity s,
      lr_effective_max_order_notional = ss_max_order_notional s, lr_entry = ss_risk_entry s\<rparr>"

definition risk_events_of :: "'d risk_snapshot \<Rightarrow> 'd risk_events_response" where
  "risk_events_of s =
     \<lparr>lr_real_trading_enabled = ss_real_trading_enabled s, lr_risk_enabled = ss_risk_enabled s,
      lr_runtime_risk_configured = ss_runtime_risk_configured s,
      lr_runtime_max_order_quantity = ss_runtime_max_order_quantity s,
      lr_runtime_max_order_notional = ss_runtime_max_order_notional s,
      lr_effective_max_order_quantity = ss_max_order_quantity s,
      lr_effective_max_order_notional = ss_max_order_notional s,
      lr_max_order_quantity = ss_max_order_quantity s, lr_max_order_notional = ss_max_order_notional s,
      lr_entries = ss_risk_events s\<rparr>"

section \<open>The policy of a snapshot\<close>

text \<open>\<open>product_execution_risk_coordinator.rs\<close>: what the gateway is given.\<close>

definition hard_stop_of_entry :: "hard_stop_entry \<Rightarrow> hard_stop" where
  "hard_stop_of_entry e =
     \<lparr>hs_id = Some (he_id e), hs_broker_id = Some (he_broker_id e),
      hs_trading_environment = Some (he_trading_environment e), hs_account_id = Some (he_account_id e),
      hs_market = he_market e, hs_symbol = he_symbol e\<rparr>"

definition policy_from_snapshot :: "'d risk_snapshot \<Rightarrow> 'd pre_trade_policy" where
  "policy_from_snapshot s =
     \<lparr>pp_control_plane_available = ss_control_plane_available s,
      pp_real_trading_enabled = ss_real_trading_enabled s,
      pp_kill_switch_active = ss_kill_switch_active s,
      pp_max_order_quantity = ss_max_order_quantity s,
      pp_max_order_notional = ss_max_order_notional s,
      pp_hard_stops = map hard_stop_of_entry (ss_hard_stop_entries s)\<rparr>"

lemma policy_from_state [simp]:
  "pp_control_plane_available (policy_from_snapshot (from_control_state D s err)) \<longleftrightarrow> err = None"
  "pp_kill_switch_active (policy_from_snapshot (from_control_state D s err)) \<longleftrightarrow> ct_kill_switch s \<noteq> None \<or> err \<noteq> None"
  "pp_hard_stops (policy_from_snapshot (from_control_state D s err)) = map hard_stop_of_entry (ct_hard_stops s)"
  by (simp_all add: policy_from_snapshot_def from_control_state_def Let_def)

lemma available_not_killed:
  "pre_trade_admissible D (policy_from_snapshot (from_control_state D s err)) ord \<Longrightarrow> pt_trading_environment ord = Real_Env \<Longrightarrow>
   err = None \<and> ct_kill_switch s = None \<and> \<not> hard_stopped (map hard_stop_of_entry (ct_hard_stops s)) ord"
  by (simp add: pre_trade_admissible_def)

end
