(* ===== verification/Control_Plane.thy ===== *)
theory Control_Plane
  imports Trading_Control
begin

text \<open>
  The real-trade control plane of the engine: \<open>crates/jftrade-engine/src/real_trade_control.rs\<close>
  (the control file), \<open>product_execution_risk_coordinator.rs\<close> (the coordinator that guards every
  real order) and the control operations of \<open>product_production_ports_system.rs\<close>. The file on
  disk is part of the state; what the operating system answers to a call, the clock and the ids
  are inputs of the call; JSON coding and floats are parameters. Operations under the submission
  gate are atomic, so a history is a sequence of them.
\<close>

section \<open>Parameters\<close>

text \<open>\<open>serde_json\<close> on the control state and on the snapshot; errors are their texts.\<close>

record 'd control_codec =
  js_encode :: "'d control_state \<Rightarrow> string + string"
  js_decode :: "string \<Rightarrow> string + 'd control_state"
  js_snapshot :: "'d risk_snapshot \<Rightarrow> string + string"

text \<open>\<open>f64\<close>, as far as the control operations look at it.\<close>

record 'f float_lib =
  fl_finite :: "'f \<Rightarrow> bool"
  fl_le_zero :: "'f \<Rightarrow> bool"
  fl_text :: "'f \<Rightarrow> string"

text \<open>The world's answers during one call: I/O errors, the clock, and the nanoseconds behind new ids.\<close>

datatype persist_stage = Create_Dir | Create_Temp | Write_State | Write_Newline | Flush | Rename

record io_env =
  io_read_fault :: "string option"
  io_not_found :: string
  io_write_fault :: "(persist_stage \<times> string) option"
  io_now :: string
  io_nanos :: nat
  io_event_nanos :: nat

datatype port_error = Port_Unavailable string | Port_Failed nat string string

section \<open>The control file\<close>

definition ascii_whitespace :: "char \<Rightarrow> bool" where
  "ascii_whitespace c \<longleftrightarrow> byte c \<in> {9, 10, 12, 13, 32}"

datatype io_error = Not_Found string | Io_Other string

definition fs_read :: "io_env \<Rightarrow> string option \<Rightarrow> io_error + string" where
  "fs_read env file =
     (case file of
        None \<Rightarrow> Inl (Not_Found (io_not_found env))
      | Some bytes \<Rightarrow> (case io_read_fault env of Some e \<Rightarrow> Inl (Io_Other e) | None \<Rightarrow> Inr bytes))"

definition decode_state :: "'d control_codec \<Rightarrow> string \<Rightarrow> string + 'd control_state" where
  "decode_state J bytes =
     (case js_decode J bytes of Inl e \<Rightarrow> Inl (''decode real-trade control state: '' @ e) | Inr s \<Rightarrow> Inr s)"

fun io_text :: "io_error \<Rightarrow> string" where
  "io_text (Not_Found e) = ''read real-trade control state: '' @ e"
| "io_text (Io_Other e) = ''read real-trade control state: '' @ e"

text \<open>The lenient reader: a missing or blank file is the default state.\<close>

definition load_state :: "'d control_codec \<Rightarrow> io_env \<Rightarrow> string option \<Rightarrow> string + 'd control_state" where
  "load_state J env file =
     (case fs_read env file of
        Inl (Not_Found _) \<Rightarrow> Inr control_default
      | Inl e \<Rightarrow> Inl (io_text e)
      | Inr bytes \<Rightarrow> if list_all ascii_whitespace bytes then Inr control_default else decode_state J bytes)"

definition load_state_strict :: "'d control_codec \<Rightarrow> io_env \<Rightarrow> string option \<Rightarrow> string + 'd control_state" where
  "load_state_strict J env file =
     (case fs_read env file of
        Inl e \<Rightarrow> Inl (io_text e)
      | Inr bytes \<Rightarrow>
          if list_all ascii_whitespace bytes then Inl ''real-trade control state file is empty''
          else decode_state J bytes)"

definition reader_snapshot :: "'d decimal_lib \<Rightarrow> 'd control_codec \<Rightarrow> io_env \<Rightarrow> string option \<Rightarrow> 'd risk_snapshot" where
  "reader_snapshot D J env file =
     (case load_state J env file of
        Inr state \<Rightarrow> from_control_state D state None
      | Inl e \<Rightarrow> from_control_state D control_default (Some e))"

text \<open>Writing goes to a temporary file that replaces the control file last.\<close>

definition stage_ok :: "io_env \<Rightarrow> persist_stage \<Rightarrow> string \<Rightarrow> string + unit" where
  "stage_ok env stage what =
     (case io_write_fault env of
        Some (s, e) \<Rightarrow> if s = stage then Inl (what @ '': '' @ e) else Inr ()
      | None \<Rightarrow> Inr ())"

definition persist_bytes :: "'d control_codec \<Rightarrow> io_env \<Rightarrow> 'd control_state \<Rightarrow> string + string" where
  "persist_bytes J env state =
     rbind (stage_ok env Create_Dir ''create real-trade control dir'') (\<lambda>_.
     rbind (case js_encode J state of Inl e \<Rightarrow> Inl (''encode real-trade control state: '' @ e) | Inr b \<Rightarrow> Inr b) (\<lambda>bytes.
     rbind (stage_ok env Create_Temp ''create real-trade control temporary file'') (\<lambda>_.
     rbind (stage_ok env Write_State ''write real-trade control state'') (\<lambda>_.
     rbind (stage_ok env Write_Newline ''write real-trade control newline'') (\<lambda>_.
     rbind (stage_ok env Flush ''flush real-trade control file'') (\<lambda>_.
     rbind (stage_ok env Rename ''persist real-trade control state'') (\<lambda>_.
     Inr (bytes @ [char_of (10 :: nat)]))))))))"

definition persist_state :: "'d control_codec \<Rightarrow> io_env \<Rightarrow> 'd control_state \<Rightarrow> string option \<Rightarrow> (string + unit) \<times> string option" where
  "persist_state J env state file =
     (case persist_bytes J env state of Inl e \<Rightarrow> (Inl e, file) | Inr contents \<Rightarrow> (Inr (), Some contents))"

definition ensure_default_state_file :: "'d control_codec \<Rightarrow> io_env \<Rightarrow> string option \<Rightarrow> (string + unit) \<times> string option" where
  "ensure_default_state_file J env file =
     (if file = None then persist_state J env control_default file else (Inr (), file))"

section \<open>The coordinator\<close>

definition event_limit :: nat where
  "event_limit = 200"

text \<open>The coordinator's memory, and the control file it works on.\<close>

record 'd coordinator =
  co_generation :: u64
  co_state :: "'d control_state"
  co_error :: "string option"
  co_file :: "string option"

definition coordinator_open :: "'d control_codec \<Rightarrow> io_env \<Rightarrow> string option \<Rightarrow> (string + 'd coordinator) \<times> string option" where
  "coordinator_open J env file =
     (case ensure_default_state_file J env file of
        (Inl e, file1) \<Rightarrow> (Inl e, file1)
      | (Inr _, file1) \<Rightarrow>
          (rbind (load_state_strict J env file1) (\<lambda>state.
             Inr \<lparr>co_generation = 1, co_state = state, co_error = None, co_file = file1\<rparr>), file1))"

definition coordinator_new :: "'d control_codec \<Rightarrow> io_env \<Rightarrow> string option \<Rightarrow> 'd coordinator" where
  "coordinator_new J env file =
     (let file1 = snd (ensure_default_state_file J env file)
      in case load_state_strict J env file1 of
           Inr state \<Rightarrow> \<lparr>co_generation = 1, co_state = state, co_error = None, co_file = file1\<rparr>
         | Inl e \<Rightarrow> \<lparr>co_generation = 1, co_state = control_default, co_error = Some e, co_file = file1\<rparr>)"

definition mark_error :: "string \<Rightarrow> 'd coordinator \<Rightarrow> 'd coordinator" where
  "mark_error e st = st\<lparr>co_error := Some e, co_generation := co_generation st + 1\<rparr>"

definition coordinator_snapshot :: "'d decimal_lib \<Rightarrow> 'd control_codec \<Rightarrow> io_env \<Rightarrow> 'd coordinator \<Rightarrow> 'd risk_snapshot \<times> 'd coordinator" where
  "coordinator_snapshot D J env st =
     (let st1 = (case load_state_strict J env (co_file st) of
                   Inr fresh \<Rightarrow> st\<lparr>co_state := fresh, co_error := None\<rparr>
                 | Inl e \<Rightarrow> mark_error e st)
      in (from_control_state D (co_state st1) (co_error st1), st1))"

definition mutate_with :: "'d control_codec \<Rightarrow> io_env \<Rightarrow> ('d control_state \<Rightarrow> port_error + 'r \<times> 'd control_state) \<Rightarrow>
    'd coordinator \<Rightarrow> (port_error + 'r) \<times> 'd coordinator" where
  "mutate_with J env mutator st =
     (case load_state_strict J env (co_file st) of
        Inl e \<Rightarrow> (Inl (Port_Failed 500 ''CONTROL_PLANE_READ_FAILED'' e), mark_error e st)
      | Inr fresh \<Rightarrow>
          (case mutator fresh of
             Inl e \<Rightarrow> (Inl e, st)
           | Inr (result, candidate) \<Rightarrow>
               (case persist_state J env candidate (co_file st) of
                  (Inl e, file) \<Rightarrow>
                    (Inl (Port_Failed 500 ''CONTROL_PLANE_PERSIST_FAILED'' e), mark_error e (st\<lparr>co_file := file\<rparr>))
                | (Inr _, file) \<Rightarrow>
                    (Inr result, st\<lparr>co_file := file, co_state := candidate, co_generation := co_generation st + 1,
                                    co_error := None\<rparr>))))"

definition prepend_event :: "'d control_event \<Rightarrow> 'd control_state \<Rightarrow> 'd control_state" where
  "prepend_event ev s = s\<lparr>ct_events := take event_limit (ev # ct_events s)\<rparr>"

definition reject_event :: "io_env \<Rightarrow> 'd pre_trade_order \<Rightarrow> pre_trade_decision \<Rightarrow> string \<Rightarrow> string \<Rightarrow> 'd control_event" where
  "reject_event env ord decision code message =
     event_default\<lparr>ce_id := ''rths-reject-'' @ nat_text (io_event_nanos env), ce_event_type := ''HARD_STOP_REJECT'',
       ce_action := ''REJECT'', ce_broker_id := pt_broker_id ord, ce_operation := Some (pt_order_kind ord),
       ce_trading_environment := Some ''real'', ce_account_id := Some (pt_account_id ord),
       ce_market := Some (pt_market ord), ce_symbol := Some (pt_symbol ord), ce_quantity := Some (pt_quantity ord),
       ce_price := pt_price ord, ce_operator_id := Some ''system'', ce_reason := Some message,
       ce_error_code := Some code, ce_hard_stop_id := pd_matched_hard_stop_id decision, ce_created_at := io_now env\<rparr>"

definition unwrap_or :: "'a \<Rightarrow> 'a option \<Rightarrow> 'a" where
  "unwrap_or d x = (case x of None \<Rightarrow> d | Some v \<Rightarrow> v)"

text \<open>The guard in front of \<open>submit_fn\<close>: the result is \<open>Inr ()\<close> exactly when the order is submitted.\<close>

definition risk_guard :: "'d decimal_lib \<Rightarrow> 'd control_codec \<Rightarrow> io_env \<Rightarrow> 'd pre_trade_order \<Rightarrow>
    'd coordinator \<Rightarrow> (port_error + unit) \<times> 'd coordinator" where
  "risk_guard D J env ord st =
     (if pt_trading_environment ord \<noteq> Real_Env then (Inr (), st)
      else case load_state_strict J env (co_file st) of
        Inl e \<Rightarrow>
          (Inl (Port_Failed 500 ''CONTROL_PLANE_UNAVAILABLE'' (''pre-trade risk control plane unavailable: '' @ e)),
           mark_error e st)
      | Inr fresh \<Rightarrow>
          let st1 = st\<lparr>co_state := fresh, co_error := None\<rparr>;
              decision = evaluate_pre_trade_risk D (policy_from_snapshot (from_control_state D fresh None)) ord
          in if pd_allowed decision then (Inr (), st1)
             else
               let code = unwrap_or ''PRE_TRADE_RISK_REJECTED'' (pd_reason_code decision);
                   message = unwrap_or ''pre-trade risk rejected order submission'' (pd_reason_message decision);
                   failure = Port_Failed (if code = ''INVALID_ORDER_RISK_SHAPE'' then 400 else 403) code message
               in if code = ''REAL_TRADE_HARD_STOP_ACTIVE''
                  then
                    let candidate = prepend_event (reject_event env ord decision code message) fresh
                    in (case persist_state J env candidate (co_file st1) of
                          (Inl e, file) \<Rightarrow>
                            (Inl (Port_Failed 500 ''CONTROL_PLANE_PERSIST_FAILED'' (''persist hard-stop rejection audit: '' @ e)),
                             mark_error e (st1\<lparr>co_file := file\<rparr>))
                        | (Inr _, file) \<Rightarrow>
                            (Inl failure, st1\<lparr>co_file := file, co_state := candidate, co_error := None,
                                              co_generation := co_generation st1 + 1\<rparr>))
                  else (Inl failure, st1))"

definition execute_with_risk_guard :: "'d decimal_lib \<Rightarrow> 'd control_codec \<Rightarrow> io_env \<Rightarrow> 'd pre_trade_order \<Rightarrow>
    (unit \<Rightarrow> port_error + 'r) \<Rightarrow> 'd coordinator \<Rightarrow> (port_error + 'r) \<times> 'd coordinator" where
  "execute_with_risk_guard D J env ord submit_fn st =
     (case risk_guard D J env ord st of
        (Inl e, st') \<Rightarrow> (Inl e, st')
      | (Inr _, st') \<Rightarrow> (submit_fn (), st'))"

text \<open>\<open>execute_order_under_guard\<close>: without a coordinator only simulated orders pass.\<close>

definition execute_order_under_guard :: "'d decimal_lib \<Rightarrow> 'd control_codec \<Rightarrow> io_env \<Rightarrow> 'd pre_trade_order \<Rightarrow>
    (unit \<Rightarrow> port_error + 'r) \<Rightarrow> 'd coordinator option \<Rightarrow> (port_error + 'r) \<times> 'd coordinator option" where
  "execute_order_under_guard D J env ord submit_fn co =
     (case co of
        Some st \<Rightarrow> (case execute_with_risk_guard D J env ord submit_fn st of (r, st') \<Rightarrow> (r, Some st'))
      | None \<Rightarrow>
          (if pt_trading_environment ord = Real_Env
           then (Inl (Port_Failed 403 ''PRE_TRADE_RISK_UNAVAILABLE''
                   ''pre-trade risk gateway is unavailable; REAL orders are blocked''), None)
           else (submit_fn (), None)))"

section \<open>Control operations\<close>

datatype system_operation =
  DisableRisk | ManualRetry | ActivateHardStop | ReleaseHardStop | ActivateKillSwitch | ReleaseKillSwitch | UpdateRisk

record kill_switch_command =
  kc_trading_environment :: string
  kc_operator_id :: string
  kc_reason :: string

record hard_stop_command =
  hc_broker_id :: string
  hc_trading_environment :: string
  hc_account_id :: string
  hc_market :: string
  hc_symbol :: string
  hc_scope :: string
  hc_operator_id :: string
  hc_reason :: string

record 'f risk_command =
  kk_trading_environment :: string
  kk_real_trading_enabled :: bool
  kk_max_order_quantity :: "'f option"
  kk_max_order_notional :: "'f option"
  kk_operator_id :: string
  kk_reason :: string

record 'f system_input =
  in_operation :: system_operation
  in_hard_stop_id :: "string option"
  in_kill_switch :: "kill_switch_command option"
  in_hard_stop :: "hard_stop_command option"
  in_risk :: "'f risk_command option"

record error_spec =
  es_status :: nat
  es_code :: string
  es_message :: string

definition bad_request_spec :: "string \<Rightarrow> error_spec" where
  "bad_request_spec message = \<lparr>es_status = 400, es_code = ''BAD_REQUEST'', es_message = message\<rparr>"

definition validate_risk :: "'f float_lib \<Rightarrow> 'f risk_command \<Rightarrow> error_spec + unit" where
  "validate_risk F c =
     (if is_some_and (kk_max_order_quantity c) (\<lambda>v. fl_le_zero F v \<or> \<not> fl_finite F v)
      then Inl (bad_request_spec ''maxOrderQuantity must be positive when provided'')
      else if is_some_and (kk_max_order_notional c) (\<lambda>v. fl_le_zero F v \<or> \<not> fl_finite F v)
      then Inl (bad_request_spec ''maxOrderNotional must be positive when provided'')
      else if kk_real_trading_enabled c \<and> kk_max_order_quantity c = None \<and> kk_max_order_notional c = None
      then Inl (bad_request_spec ''at least one positive runtime risk limit is required before enabling real trading'')
      else Inr ())"

definition control_failed :: "string \<Rightarrow> port_error" where
  "control_failed message = Port_Failed 409 ''REAL_TRADE_CONTROL_FAILED'' message"

definition normalized_or :: "string \<Rightarrow> string \<Rightarrow> bool \<Rightarrow> string" where
  "normalized_or value_text fallback uppercase =
     (let v = trim value_text in if v = [] then fallback else if uppercase then upper v else v)"

definition normalize_environment :: "string \<Rightarrow> string" where
  "normalize_environment v = normalized_or v ''REAL'' True"

definition normalize_broker :: "string \<Rightarrow> string" where
  "normalize_broker v0 = (let v = lower (trim v0) in if v = [] then ''*'' else v)"

definition normalize_account :: "string \<Rightarrow> string" where
  "normalize_account v = normalized_or v ''*'' False"

definition normalize_operator :: "string \<Rightarrow> string" where
  "normalize_operator v = normalized_or v ''local'' False"

definition normalize_hard_stop_scope :: "hard_stop_command \<Rightarrow> string" where
  "normalize_hard_stop_scope c =
     (let scope = upper (trim (hc_scope c))
      in if scope \<in> {''ACCOUNT'', ''MARKET'', ''SYMBOL''} then scope
         else if \<not> blank (hc_symbol c) then ''SYMBOL''
         else if \<not> blank (hc_market c) then ''MARKET''
         else ''ACCOUNT'')"

definition optional_trimmed :: "string \<Rightarrow> string option" where
  "optional_trimmed v0 = (let v = trim v0 in if v \<noteq> [] then Some v else None)"

definition optional_upper :: "string \<Rightarrow> string option" where
  "optional_upper v = map_option upper (optional_trimmed v)"

definition opt_f64_dec :: "'d decimal_lib \<Rightarrow> 'f float_lib \<Rightarrow> 'f option \<Rightarrow> 'd option" where
  "opt_f64_dec D F v = Option.bind (opt_filter (fl_finite F) v) (\<lambda>x. d_parse D (fl_text F x))"

definition next_id :: "string \<Rightarrow> nat \<Rightarrow> string" where
  "next_id prefix nanos = prefix @ ''-'' @ nat_text nanos"

definition activate_kill_switch :: "io_env \<Rightarrow> kill_switch_command \<Rightarrow> string \<Rightarrow> 'd control_state \<Rightarrow> 'd control_state" where
  "activate_kill_switch env c now s =
     (let environment = normalize_environment (kc_trading_environment c);
          activated_at = unwrap_or now (opt_filter (\<lambda>v. v \<noteq> []) (map_option ks_activated_at (ct_kill_switch s)));
          entry = \<lparr>ks_id = ''kill-switch-control-plane'', ks_trading_environment = environment,
                   ks_operator_id = normalize_operator (kc_operator_id c), ks_reason = trim (kc_reason c),
                   ks_activated_at = activated_at, ks_updated_at = now\<rparr>
      in prepend_event
           (event_default\<lparr>ce_id := next_id ''rtks-event'' (io_event_nanos env), ce_event_type := ''activated'',
              ce_action := ''KILL_SWITCH_ACTIVATE'', ce_broker_id := ''*'', ce_trading_environment := Some environment,
              ce_kill_switch_source := Some ''RUNTIME'', ce_operator_id := Some (ks_operator_id entry),
              ce_reason := optional_trimmed (ks_reason entry), ce_activated_at := Some activated_at, ce_created_at := now\<rparr>)
           (s\<lparr>ct_kill_switch := Some entry\<rparr>))"

definition release_kill_switch :: "io_env \<Rightarrow> kill_switch_command \<Rightarrow> string \<Rightarrow> 'd control_state \<Rightarrow> 'd control_state" where
  "release_kill_switch env c now s =
     (let environment = (case ct_kill_switch s of
                           None \<Rightarrow> normalize_environment (kc_trading_environment c) | Some e \<Rightarrow> ks_trading_environment e)
      in prepend_event
           (event_default\<lparr>ce_id := next_id ''rtks-event'' (io_event_nanos env), ce_event_type := ''released'',
              ce_action := ''KILL_SWITCH_RELEASE'', ce_broker_id := ''*'', ce_trading_environment := Some environment,
              ce_kill_switch_source := Some ''RUNTIME'', ce_operator_id := Some (normalize_operator (kc_operator_id c)),
              ce_reason := optional_trimmed (kc_reason c), ce_activated_at := map_option ks_activated_at (ct_kill_switch s),
              ce_created_at := now\<rparr>)
           (s\<lparr>ct_kill_switch := None\<rparr>))"

definition update_risk :: "'d decimal_lib \<Rightarrow> 'f float_lib \<Rightarrow> io_env \<Rightarrow> 'f risk_command \<Rightarrow> string \<Rightarrow> 'd control_state \<Rightarrow> 'd control_state" where
  "update_risk D F env c now s =
     (let environment = normalize_environment (kk_trading_environment c);
          activated_at = unwrap_or now (opt_filter (\<lambda>v. v \<noteq> []) (map_option rr_activated_at (ct_risk_config s)));
          entry = \<lparr>rr_id = ''runtime-risk-config'', rr_trading_environment = environment,
                   rr_real_trading_enabled = kk_real_trading_enabled c,
                   rr_max_order_quantity = opt_f64_dec D F (kk_max_order_quantity c),
                   rr_max_order_notional = opt_f64_dec D F (kk_max_order_notional c),
                   rr_operator_id = normalize_operator (kk_operator_id c), rr_reason = trim (kk_reason c),
                   rr_activated_at = activated_at, rr_updated_at = now\<rparr>
      in prepend_event
           (event_default\<lparr>ce_id := next_id ''rtrc-event'' (io_event_nanos env), ce_event_type := ''updated'',
              ce_action := ''RISK_CONFIG_UPDATED'', ce_broker_id := ''*'', ce_trading_environment := Some environment,
              ce_operator_id := Some (rr_operator_id entry), ce_reason := optional_trimmed (rr_reason entry),
              ce_real_trading_enabled := Some (rr_real_trading_enabled entry),
              ce_max_order_quantity := rr_max_order_quantity entry, ce_max_order_notional := rr_max_order_notional entry,
              ce_activated_at := Some activated_at, ce_created_at := now\<rparr>)
           (s\<lparr>ct_risk_config := Some entry\<rparr>))"

definition disable_risk :: "io_env \<Rightarrow> 'f risk_command \<Rightarrow> string \<Rightarrow> 'd control_state \<Rightarrow> 'd control_state" where
  "disable_risk env c now s =
     (let environment = (case ct_risk_config s of
                           None \<Rightarrow> normalize_environment (kk_trading_environment c) | Some e \<Rightarrow> rr_trading_environment e)
      in prepend_event
           (event_default\<lparr>ce_id := next_id ''rtrc-event'' (io_event_nanos env), ce_event_type := ''disabled'',
              ce_action := ''RISK_CONFIG_DISABLED'', ce_broker_id := ''*'', ce_trading_environment := Some environment,
              ce_operator_id := Some (normalize_operator (kk_operator_id c)), ce_reason := optional_trimmed (kk_reason c),
              ce_real_trading_enabled := Some False, ce_activated_at := map_option rr_activated_at (ct_risk_config s),
              ce_created_at := now\<rparr>)
           (s\<lparr>ct_risk_config := None\<rparr>))"

definition entry_of_command :: "io_env \<Rightarrow> hard_stop_command \<Rightarrow> string \<Rightarrow> hard_stop_entry" where
  "entry_of_command env c now =
     \<lparr>he_id = next_id ''rths'' (io_nanos env), he_broker_id = normalize_broker (hc_broker_id c),
      he_trading_environment = normalize_environment (hc_trading_environment c),
      he_account_id = normalize_account (hc_account_id c), he_market = optional_upper (hc_market c),
      he_symbol = optional_upper (hc_symbol c), he_scope = normalize_hard_stop_scope c,
      he_operator_id = normalize_operator (hc_operator_id c), he_reason = trim (hc_reason c),
      he_activated_at = now, he_updated_at = now\<rparr>"

definition activate_hard_stop :: "io_env \<Rightarrow> hard_stop_command \<Rightarrow> string \<Rightarrow> 'd control_state \<Rightarrow> 'd control_state" where
  "activate_hard_stop env c now s =
     (let entry = entry_of_command env c now
      in prepend_event
           (event_default\<lparr>ce_id := next_id ''rths-event'' (io_event_nanos env), ce_event_type := ''activated'',
              ce_action := ''HARD_STOP_ACTIVATE'', ce_broker_id := he_broker_id entry,
              ce_trading_environment := Some (he_trading_environment entry), ce_account_id := Some (he_account_id entry),
              ce_market := he_market entry, ce_symbol := he_symbol entry, ce_hard_stop_scope := Some (he_scope entry),
              ce_operator_id := Some (he_operator_id entry), ce_reason := optional_trimmed (he_reason entry),
              ce_hard_stop_id := Some (he_id entry), ce_activated_at := Some (he_activated_at entry), ce_created_at := now\<rparr>)
           (s\<lparr>ct_hard_stops := ct_hard_stops s @ [entry]\<rparr>))"

text \<open>The first entry with the given id is removed.\<close>

fun take_entry :: "string \<Rightarrow> hard_stop_entry list \<Rightarrow> (hard_stop_entry \<times> hard_stop_entry list) option" where
  "take_entry hid [] = None"
| "take_entry hid (e # es) =
     (if he_id e = hid then Some (e, es)
      else map_option (\<lambda>(x, rest). (x, e # rest)) (take_entry hid es))"

definition release_hard_stop :: "io_env \<Rightarrow> string \<Rightarrow> hard_stop_command \<Rightarrow> string \<Rightarrow> 'd control_state \<Rightarrow> port_error + 'd control_state" where
  "release_hard_stop env hid c now s =
     (case take_entry hid (ct_hard_stops s) of
        None \<Rightarrow> Inl (control_failed ''real-trade hard stop not found'')
      | Some (entry, rest) \<Rightarrow>
          Inr (prepend_event
            (event_default\<lparr>ce_id := next_id ''rths-event'' (io_event_nanos env), ce_event_type := ''released'',
               ce_action := ''HARD_STOP_RELEASE'', ce_broker_id := he_broker_id entry,
               ce_trading_environment := Some (he_trading_environment entry), ce_account_id := Some (he_account_id entry),
               ce_market := he_market entry, ce_symbol := he_symbol entry, ce_hard_stop_scope := Some (he_scope entry),
               ce_operator_id := Some (normalize_operator (hc_operator_id c)), ce_reason := optional_trimmed (hc_reason c),
               ce_hard_stop_id := Some (he_id entry), ce_activated_at := Some (he_activated_at entry), ce_created_at := now\<rparr>)
            (s\<lparr>ct_hard_stops := rest\<rparr>)))"

datatype write_result = Retry_Accepted | Snapshot_Value string

definition required_kill_switch :: "'f system_input \<Rightarrow> port_error + kill_switch_command" where
  "required_kill_switch i = ok_or (in_kill_switch i) (control_failed ''real-trade kill switch command is missing'')"

definition required_hard_stop :: "'f system_input \<Rightarrow> port_error + hard_stop_command" where
  "required_hard_stop i = ok_or (in_hard_stop i) (control_failed ''real-trade hard stop command is missing'')"

definition required_risk :: "'f system_input \<Rightarrow> port_error + 'f risk_command" where
  "required_risk i = ok_or (in_risk i) (control_failed ''real-trade risk command is missing'')"

text \<open>The mutation an input asks for; \<open>ManualRetry\<close> leaves the control state alone.\<close>

definition control_mutation :: "'d decimal_lib \<Rightarrow> 'f float_lib \<Rightarrow> io_env \<Rightarrow> 'f system_input \<Rightarrow> 'd control_state \<Rightarrow> port_error + 'd control_state" where
  "control_mutation D F env i s =
     (let now = io_now env
      in case in_operation i of
           ManualRetry \<Rightarrow> Inr s
         | ActivateKillSwitch \<Rightarrow> rbind (required_kill_switch i) (\<lambda>c. Inr (activate_kill_switch env c now s))
         | ReleaseKillSwitch \<Rightarrow> rbind (required_kill_switch i) (\<lambda>c. Inr (release_kill_switch env c now s))
         | UpdateRisk \<Rightarrow> rbind (required_risk i) (\<lambda>c. Inr (update_risk D F env c now s))
         | DisableRisk \<Rightarrow> rbind (required_risk i) (\<lambda>c. Inr (disable_risk env c now s))
         | ActivateHardStop \<Rightarrow> rbind (required_hard_stop i) (\<lambda>c. Inr (activate_hard_stop env c now s))
         | ReleaseHardStop \<Rightarrow>
             rbind (ok_or (in_hard_stop_id i) (control_failed ''real-trade hard stop id is missing'')) (\<lambda>hid.
             rbind (required_hard_stop i) (\<lambda>c. release_hard_stop env hid c now s)))"

definition snapshot_value :: "'d decimal_lib \<Rightarrow> 'd control_codec \<Rightarrow> 'd control_state \<Rightarrow> port_error + write_result" where
  "snapshot_value D J s =
     (case js_snapshot J (from_control_state D s None) of
        Inl e \<Rightarrow> Inl (control_failed (''encode real-trade control response: '' @ e))
      | Inr v \<Rightarrow> Inr (Snapshot_Value v))"

definition mutate_state :: "'d decimal_lib \<Rightarrow> 'f float_lib \<Rightarrow> 'd control_codec \<Rightarrow> io_env \<Rightarrow> bool \<Rightarrow> 'f system_input \<Rightarrow>
    'd coordinator \<Rightarrow> (port_error + write_result) \<times> 'd coordinator" where
  "mutate_state D F J env trade_runtime i st =
     mutate_with J env (\<lambda>s.
       if in_operation i = ManualRetry \<and> \<not> trade_runtime
       then Inl (Port_Unavailable ''OpenD runtime is not configured'')
       else rbind (control_mutation D F env i s) (\<lambda>s'.
            rbind (if in_operation i = ManualRetry then Inr Retry_Accepted else snapshot_value D J s') (\<lambda>v.
            Inr (v, s')))) st"

text \<open>The control plane as a machine.\<close>

datatype ('d, 'f) plane_op =
  Op_Mutate io_env bool "'f system_input" | Op_Guard io_env "'d pre_trade_order" | Op_Snapshot io_env

fun plane_step :: "'d decimal_lib \<Rightarrow> 'f float_lib \<Rightarrow> 'd control_codec \<Rightarrow> 'd coordinator \<Rightarrow> ('d, 'f) plane_op \<Rightarrow> 'd coordinator" where
  "plane_step D F J st (Op_Mutate env rt i) = snd (mutate_state D F J env rt i st)"
| "plane_step D F J st (Op_Guard env ord) = snd (risk_guard D J env ord st)"
| "plane_step D F J st (Op_Snapshot env) = snd (coordinator_snapshot D J env st)"

section \<open>What the control file holds\<close>

locale control_codec =
  fixes J :: "'d control_codec"
  assumes decode_encode: "js_encode J s = Inr b \<Longrightarrow> js_decode J (b @ [char_of (10 :: nat)]) = Inr s"
    and encode_not_blank: "js_encode J s = Inr b \<Longrightarrow> \<not> list_all ascii_whitespace (b @ [char_of (10 :: nat)])"

text \<open>The state the control file holds, if it holds one.\<close>

definition stored :: "'d control_codec \<Rightarrow> 'd coordinator \<Rightarrow> 'd control_state option" where
  "stored J st =
     (case co_file st of
        None \<Rightarrow> None
      | Some b \<Rightarrow> if list_all ascii_whitespace b then None
                  else (case js_decode J b of Inl _ \<Rightarrow> None | Inr s \<Rightarrow> Some s))"

lemma load_strict_Inr: "load_state_strict J env (co_file st) = Inr s \<Longrightarrow> stored J st = Some s"
  by (auto simp: load_state_strict_def fs_read_def decode_state_def stored_def split: option.splits if_splits sum.splits)

lemma stored_cong: "co_file st' = co_file st \<Longrightarrow> stored J st' = stored J st"
  by (simp add: stored_def)

lemma stage_ok_Inr [simp]: "stage_ok env stage w = Inr u \<longleftrightarrow> (\<forall>e. io_write_fault env \<noteq> Some (stage, e))"
  by (auto simp: stage_ok_def split: option.splits)

lemma mark_error_simps [simp]:
  "co_file (mark_error e st) = co_file st" "co_state (mark_error e st) = co_state st" "co_error (mark_error e st) = Some e"
  by (simp_all add: mark_error_def)

context control_codec
begin

lemma persist_stored:
  assumes "persist_state J env s file = (Inr u, file')" and "co_file st = file'"
  shows "stored J st = Some s"
proof -
  obtain b where "js_encode J s = Inr b" and "file' = Some (b @ [char_of (10 :: nat)])"
    using assms(1) by (auto simp: persist_state_def persist_bytes_def result_simps split: sum.splits)
  then show ?thesis
    using assms(2) decode_encode encode_not_blank by (simp add: stored_def)
qed

end

lemma persist_failed: "persist_state J env s file = (Inl e, file') \<Longrightarrow> file' = file"
  by (auto simp: persist_state_def split: sum.splits)

text \<open>
  A codec for finitely many states, to run the control plane: a state is written as its position
  in a table.
\<close>

definition table_codec :: "'d control_state list \<Rightarrow> 'd control_codec" where
  "table_codec tab =
     \<lparr>js_encode = (\<lambda>s. if s \<in> set tab then Inr (nat_text (length (takeWhile (\<lambda>x. x \<noteq> s) tab))) else Inl ''not in the table''),
      js_decode = (\<lambda>b. if digits_val (butlast b) < length tab then Inr (tab ! digits_val (butlast b)) else Inl ''no entry''),
      js_snapshot = (\<lambda>_. Inr ''{}'')\<rparr>"

lemma digit_not_whitespace: "is_digit c \<Longrightarrow> \<not> ascii_whitespace c"
  by (auto simp: is_digit_def ascii_whitespace_def)

interpretation table_codec: control_codec "table_codec tab" for tab :: "'d control_state list"
proof
  fix s :: "'d control_state" and b
  assume "js_encode (table_codec tab) s = Inr b"
  then have s: "s \<in> set tab" and b: "b = nat_text (length (takeWhile (\<lambda>x. x \<noteq> s) tab))"
    by (simp_all add: table_codec_def split: if_splits)
  have "length (takeWhile (\<lambda>x. x \<noteq> s) tab) < length tab"
    using s by (induction tab) auto
  then show "js_decode (table_codec tab) (b @ [char_of (10 :: nat)]) = Inr s"
    using nth_length_takeWhile [of "\<lambda>x. x \<noteq> s" tab] by (simp add: b table_codec_def)
  show "\<not> list_all ascii_whitespace (b @ [char_of (10 :: nat)])"
    unfolding b using all_digits_nat_text [of "length (takeWhile (\<lambda>x. x \<noteq> s) tab)"]
      nat_text_not_Nil [of "length (takeWhile (\<lambda>x. x \<noteq> s) tab)"] digit_not_whitespace
    by (cases "nat_text (length (takeWhile (\<lambda>x. x \<noteq> s) tab))") auto
qed

section \<open>Operations on the stored state\<close>

lemma risk_guard_Inr:
  "fst (risk_guard D J env ord st) = Inr u \<longleftrightarrow>
     pt_trading_environment ord = Simulate \<or>
     (\<exists>s. load_state_strict J env (co_file st) = Inr s \<and>
        pre_trade_admissible D (policy_from_snapshot (from_control_state D s None)) ord)"
proof (cases "pt_trading_environment ord")
  case Simulate
  then show ?thesis by (simp add: risk_guard_def)
next
  case Real_Env
  show ?thesis
  proof (cases "load_state_strict J env (co_file st)")
    case (Inl e)
    then show ?thesis using Real_Env by (simp add: risk_guard_def)
  next
    case (Inr s)
    then show ?thesis
      using Real_Env evaluate_pre_trade_allowed [of D "policy_from_snapshot (from_control_state D s None)" ord]
      by (auto simp: risk_guard_def Let_def split: prod.splits sum.splits)
  qed
qed

lemma risk_guard_file:
  "co_file (snd (risk_guard D J env ord st)) = co_file st \<or>
   (\<exists>s ev. load_state_strict J env (co_file st) = Inr s \<and>
      persist_state J env (prepend_event ev s) (co_file st) = (Inr (), co_file (snd (risk_guard D J env ord st))))"
  by (auto simp: risk_guard_def Let_def split: sum.splits prod.splits dest: persist_failed)

context control_codec
begin

lemma mutate_with_stored:
  assumes "stored J st = Some s" and "P s" and "\<And>r s'. mutator s = Inr (r, s') \<Longrightarrow> P s'"
  shows "\<exists>s'. stored J (snd (mutate_with J env mutator st)) = Some s' \<and> P s'"
proof (cases "load_state_strict J env (co_file st)")
  case (Inl e)
  then have "co_file (snd (mutate_with J env mutator st)) = co_file st"
    by (simp add: mutate_with_def)
  from stored_cong [OF this, of J] show ?thesis using assms(1,2) by simp
next
  case (Inr fresh)
  then have [simp]: "fresh = s"
    using load_strict_Inr [of J env st fresh] assms(1) by simp
  show ?thesis
  proof (cases "mutator s")
    case (Inl e)
    with Inr assms(1,2) show ?thesis by (simp add: mutate_with_def)
  next
    case [simp]: (Inr rc)
    obtain r cand where rc: "rc = (r, cand)" by fastforce
    obtain res fl where pers: "persist_state J env cand (co_file st) = (res, fl)" by fastforce
    show ?thesis
    proof (cases res)
      case (Inl e)
      with pers persist_failed [of J env cand "co_file st" e fl] have "fl = co_file st" by simp
      then have "co_file (snd (mutate_with J env mutator st)) = co_file st"
        using Inl \<open>load_state_strict J env (co_file st) = Inr fresh\<close> rc pers by (simp add: mutate_with_def)
      from stored_cong [OF this, of J] show ?thesis using assms(1,2) by simp
    next
      case (Inr u)
      have "stored J (snd (mutate_with J env mutator st)) = Some cand"
        using Inr \<open>load_state_strict J env (co_file st) = Inr fresh\<close> rc pers
        by (intro persist_stored [of env cand "co_file st" u fl]) (simp_all add: mutate_with_def)
      then show ?thesis using assms(3) [of r cand] rc by simp
    qed
  qed
qed

lemma risk_guard_stored:
  assumes "stored J st = Some s" and "P s" and "\<And>ev. P (prepend_event ev s)"
  shows "\<exists>s'. stored J (snd (risk_guard D J env ord st)) = Some s' \<and> P s'"
  using risk_guard_file [of D J env ord st]
proof (elim disjE exE conjE)
  assume "co_file (snd (risk_guard D J env ord st)) = co_file st"
  from stored_cong [OF this, of J] assms(1,2) show ?thesis by simp
next
  fix s' ev
  assume load: "load_state_strict J env (co_file st) = Inr s'"
    and pers: "persist_state J env (prepend_event ev s') (co_file st) = (Inr (), co_file (snd (risk_guard D J env ord st)))"
  have "s' = s"
    using load_strict_Inr [OF load] assms(1) by simp
  then show ?thesis using persist_stored [OF pers refl] assms(3) [of ev] by blast
qed

lemma plane_run_stored:
  assumes "stored J st = Some s" and "P s" and event: "\<And>ev s. P s \<Longrightarrow> P (prepend_event ev s)"
    and keeps: "\<And>env rt i s s'. Op_Mutate env rt i \<in> set ops \<Longrightarrow> P s \<Longrightarrow> control_mutation D F env i s = Inr s' \<Longrightarrow> P s'"
  shows "\<exists>s'. stored J (run (plane_step D F J) st ops) = Some s' \<and> P s'"
  using assms(1,2) keeps
proof (induction ops arbitrary: st s)
  case (Cons a ops)
  have "\<exists>s'. stored J (plane_step D F J st a) = Some s' \<and> P s'"
  proof (cases a)
    case (Op_Mutate env rt i)
    then have "P s'" if "control_mutation D F env i s = Inr s'" for s'
      using Cons.prems(3) [of env rt i s s'] Cons.prems(2) that by simp
    then show ?thesis
      unfolding Op_Mutate plane_step.simps mutate_state_def
      by (intro mutate_with_stored [where P = P, OF Cons.prems(1,2)]) (auto simp: result_simps split: if_splits)
  next
    case (Op_Guard env ord)
    then show ?thesis
      using risk_guard_stored [where P = P, OF Cons.prems(1,2) event [OF Cons.prems(2)]] by simp
  next
    case (Op_Snapshot env)
    have "co_file (plane_step D F J st a) = co_file st"
      by (simp add: Op_Snapshot coordinator_snapshot_def Let_def split: sum.splits)
    from stored_cong [OF this, of J] Cons.prems(1,2) show ?thesis by simp
  qed
  then obtain s' where s': "stored J (plane_step D F J st a) = Some s'" "P s'" by blast
  have "P s''" if "Op_Mutate env rt i \<in> set ops" "P s" "control_mutation D F env i s = Inr s''" for env rt i s s''
    using Cons.prems(3) [of env rt i s s''] that by simp
  from Cons.IH [OF s' this] show ?case by simp
qed auto

lemma mutate_state_Inr:
  assumes "fst (mutate_state D F J env rt i st) = Inr r"
  shows "\<exists>s s'. load_state_strict J env (co_file st) = Inr s \<and> control_mutation D F env i s = Inr s' \<and>
    stored J (snd (mutate_state D F J env rt i st)) = Some s' \<and> co_state (snd (mutate_state D F J env rt i st)) = s' \<and>
    co_error (snd (mutate_state D F J env rt i st)) = None"
proof -
  let ?m = "\<lambda>s. if in_operation i = ManualRetry \<and> \<not> rt then Inl (Port_Unavailable ''OpenD runtime is not configured'')
    else rbind (control_mutation D F env i s) (\<lambda>s'.
         rbind (if in_operation i = ManualRetry then Inr Retry_Accepted else snapshot_value D J s') (\<lambda>v. Inr (v, s')))"
  from assms obtain s r' cand fl where load: "load_state_strict J env (co_file st) = Inr s"
    and mut: "?m s = Inr (r', cand)" and pers: "persist_state J env cand (co_file st) = (Inr (), fl)"
    unfolding mutate_state_def mutate_with_def
    by (simp split: sum.splits prod.splits)
  have res: "snd (mutate_state D F J env rt i st) =
      st\<lparr>co_file := fl, co_state := cand, co_generation := co_generation st + 1, co_error := None\<rparr>"
    using load mut pers unfolding mutate_state_def mutate_with_def by simp
  have "control_mutation D F env i s = Inr cand"
    using mut by (auto simp: result_simps split: if_splits)
  moreover have "stored J (snd (mutate_state D F J env rt i st)) = Some cand"
    by (rule persist_stored [OF pers]) (simp add: res)
  ultimately show ?thesis using load res by auto
qed

end

lemma mutate_state_Inl:
  assumes "fst (mutate_state D F J env rt i st) = Inl e"
  shows "co_file (snd (mutate_state D F J env rt i st)) = co_file st \<and>
    co_state (snd (mutate_state D F J env rt i st)) = co_state st"
  using assms unfolding mutate_state_def mutate_with_def
  by (auto split: sum.splits prod.splits dest: persist_failed)

subsection \<open>Hard stops and the kill switch\<close>

lemma prepend_event_simps [simp]:
  "ct_hard_stops (prepend_event ev s) = ct_hard_stops s"
  "ct_kill_switch (prepend_event ev s) = ct_kill_switch s"
  "ct_risk_config (prepend_event ev s) = ct_risk_config s"
  "ct_events (prepend_event ev s) = take event_limit (ev # ct_events s)"
  by (simp_all add: prepend_event_def)

lemma take_entry_keeps: "take_entry hid es = Some (e, rest) \<Longrightarrow> x \<in> set es \<Longrightarrow> he_id x \<noteq> hid \<Longrightarrow> x \<in> set rest"
proof (induction es arbitrary: rest)
  case (Cons a es)
  show ?case
  proof (cases "he_id a = hid")
    case True
    with Cons.prems show ?thesis by auto
  next
    case False
    with Cons.prems(1) obtain r where "take_entry hid es = Some (e, r)" and "rest = a # r"
      by auto
    with Cons show ?thesis by auto
  qed
qed simp

lemma mutation_keeps_stop:
  assumes "x \<in> set (ct_hard_stops s)" and "control_mutation D F env i s = Inr s'"
    and "\<not> (in_operation i = ReleaseHardStop \<and> in_hard_stop_id i = Some (he_id x))"
  shows "x \<in> set (ct_hard_stops s')"
proof (cases "in_operation i = ReleaseHardStop")
  case True
  then show ?thesis
    using assms take_entry_keeps [of _ "ct_hard_stops s" _ _ x]
    by (auto simp: control_mutation_def release_hard_stop_def Let_def result_simps split: option.splits)
next
  case False
  then show ?thesis
    using assms
    by (auto simp: control_mutation_def activate_kill_switch_def release_kill_switch_def update_risk_def disable_risk_def
        activate_hard_stop_def Let_def result_simps split: system_operation.splits)
qed

lemma mutation_keeps_kill_switch:
  assumes "ct_kill_switch s \<noteq> None" and "control_mutation D F env i s = Inr s'" and "in_operation i \<noteq> ReleaseKillSwitch"
  shows "ct_kill_switch s' \<noteq> None"
  using assms
  by (auto simp: control_mutation_def activate_kill_switch_def update_risk_def disable_risk_def
      activate_hard_stop_def release_hard_stop_def Let_def result_simps split: system_operation.splits option.splits)

fun releases_stop :: "string \<Rightarrow> ('d, 'f) plane_op \<Rightarrow> bool" where
  "releases_stop hid (Op_Mutate _ _ i) \<longleftrightarrow> in_operation i = ReleaseHardStop \<and> in_hard_stop_id i = Some hid"
| "releases_stop _ _ \<longleftrightarrow> False"

fun releases_kill_switch :: "('d, 'f) plane_op \<Rightarrow> bool" where
  "releases_kill_switch (Op_Mutate _ _ i) \<longleftrightarrow> in_operation i = ReleaseKillSwitch"
| "releases_kill_switch _ \<longleftrightarrow> False"

context control_codec
begin

lemma stop_stays:
  assumes "stored J st = Some s" and "x \<in> set (ct_hard_stops s)" and "list_all (\<lambda>a. \<not> releases_stop (he_id x) a) ops"
  shows "\<exists>s'. stored J (run (plane_step D F J) st ops) = Some s' \<and> x \<in> set (ct_hard_stops s')"
proof (rule plane_run_stored [where P = "\<lambda>s. x \<in> set (ct_hard_stops s)", OF assms(1,2)])
  show "x \<in> set (ct_hard_stops s')"
    if "Op_Mutate env rt i \<in> set ops" "x \<in> set (ct_hard_stops s)" "control_mutation D F env i s = Inr s'" for env rt i s s'
    using mutation_keeps_stop [OF that(2,3)] assms(3) that(1) by (fastforce simp: list_all_iff)
qed simp

lemma kill_switch_stays:
  assumes "stored J st = Some s" and "ct_kill_switch s \<noteq> None" and "list_all (\<lambda>a. \<not> releases_kill_switch a) ops"
  shows "\<exists>s'. stored J (run (plane_step D F J) st ops) = Some s' \<and> ct_kill_switch s' \<noteq> None"
proof (rule plane_run_stored [where P = "\<lambda>s. ct_kill_switch s \<noteq> None", OF assms(1,2)])
  show "ct_kill_switch s' \<noteq> None"
    if "Op_Mutate env rt i \<in> set ops" "ct_kill_switch s \<noteq> None" "control_mutation D F env i s = Inr s'" for env rt i s s'
    using mutation_keeps_kill_switch [OF that(2,3)] assms(3) that(1) by (fastforce simp: list_all_iff)
qed simp

end

lemma guard_blocked:
  assumes "stored J st = Some s" and "pt_trading_environment ord = Real_Env"
    and "ct_kill_switch s \<noteq> None \<or> (\<exists>x\<in>set (ct_hard_stops s). hard_stop_matches_pre (hard_stop_of_entry x) ord)"
  shows "\<exists>e. fst (risk_guard D J env ord st) = Inl e"
proof (cases "fst (risk_guard D J env ord st)")
  case (Inr u)
  then obtain s' where load: "load_state_strict J env (co_file st) = Inr s'"
    and ok: "pre_trade_admissible D (policy_from_snapshot (from_control_state D s' None)) ord"
    using assms(2) by (auto simp: risk_guard_Inr)
  have "s' = s"
    using load_strict_Inr [OF load] assms(1) by simp
  then show ?thesis
    using available_not_killed [OF ok assms(2)] assms(3) by (auto simp: hard_stopped_def)
qed auto

section \<open>Auditing\<close>

text \<open>The console view in which the operations of a kind are listed.\<close>

fun operation_view :: "system_operation \<Rightarrow> 'd control_event list \<Rightarrow> 'd control_event list" where
  "operation_view ActivateKillSwitch evs = events_with_prefix evs ''KILL_SWITCH_''"
| "operation_view ReleaseKillSwitch evs = events_with_prefix evs ''KILL_SWITCH_''"
| "operation_view ActivateHardStop evs = events_with_prefix evs ''HARD_STOP_''"
| "operation_view ReleaseHardStop evs = events_with_prefix evs ''HARD_STOP_''"
| "operation_view UpdateRisk evs = risk_events evs"
| "operation_view DisableRisk evs = risk_events evs"
| "operation_view ManualRetry evs = []"

lemma action_views:
  "starts_with (upper ''KILL_SWITCH_ACTIVATE'') ''KILL_SWITCH_''" "starts_with (upper ''KILL_SWITCH_RELEASE'') ''KILL_SWITCH_''"
  "starts_with (upper ''HARD_STOP_ACTIVATE'') ''HARD_STOP_''" "starts_with (upper ''HARD_STOP_RELEASE'') ''HARD_STOP_''"
  "starts_with (upper ''RISK_CONFIG_UPDATED'') ''RISK_CONFIG_''" "starts_with (upper ''RISK_CONFIG_DISABLED'') ''RISK_CONFIG_''"
  by (simp_all add: starts_with_def string_eval)

definition audited :: "('d control_event list \<Rightarrow> 'd control_event list) \<Rightarrow> string \<Rightarrow> 'd control_state \<Rightarrow> 'd control_state \<Rightarrow> bool" where
  "audited view now s s' \<longleftrightarrow>
     (\<exists>ev. ct_events s' = take event_limit (ev # ct_events s) \<and> ce_created_at ev = now \<and> view [ev] = [ev])"

lemma audited_prepend:
  "ct_events t = ct_events s \<Longrightarrow> ce_created_at ev = now \<Longrightarrow> view [ev] = [ev] \<Longrightarrow> audited view now s (prepend_event ev t)"
  by (auto simp: audited_def)

lemma mutation_audited:
  assumes "control_mutation D F env i s = Inr s'" and "in_operation i \<noteq> ManualRetry"
  shows "\<exists>ev. ct_events s' = take event_limit (ev # ct_events s) \<and> ce_created_at ev = io_now env \<and>
    operation_view (in_operation i) [ev] = [ev]"
proof -
  have "audited (operation_view (in_operation i)) (io_now env) s s'"
    using assms
    by (cases "in_operation i")
      (auto simp: control_mutation_def activate_kill_switch_def release_kill_switch_def update_risk_def disable_risk_def
        activate_hard_stop_def release_hard_stop_def Let_def result_simps events_with_prefix_def risk_events_def action_views
        split: option.splits intro!: audited_prepend)
  then show ?thesis by (simp add: audited_def)
qed

section \<open>Properties\<close>

definition sample_env :: io_env where
  "sample_env =
     \<lparr>io_read_fault = None, io_not_found = ''no such file'', io_write_fault = None, io_now = ''2026-01-01T00:00:00Z'',
      io_nanos = 7, io_event_nanos = 8\<rparr>"

definition sample_floats :: "int float_lib" where
  "sample_floats = \<lparr>fl_finite = (\<lambda>_. True), fl_le_zero = (\<lambda>v. v \<le> 0), fl_text = int_text\<rparr>"

definition sample_stop :: hard_stop_command where
  "sample_stop =
     \<lparr>hc_broker_id = [], hc_trading_environment = [], hc_account_id = [], hc_market = [], hc_symbol = ''aapl'',
      hc_scope = [], hc_operator_id = [], hc_reason = ''volatility''\<rparr>"

definition sample_kill :: kill_switch_command where
  "sample_kill = \<lparr>kc_trading_environment = [], kc_operator_id = [], kc_reason = ''halt''\<rparr>"

definition stop_input :: "int system_input" where
  "stop_input =
     \<lparr>in_operation = ActivateHardStop, in_hard_stop_id = None, in_kill_switch = None, in_hard_stop = Some sample_stop, in_risk = None\<rparr>"

definition kill_input :: "int system_input" where
  "kill_input =
     \<lparr>in_operation = ActivateKillSwitch, in_hard_stop_id = None, in_kill_switch = Some sample_kill, in_hard_stop = None, in_risk = None\<rparr>"

definition sample_codec :: "int control_codec" where
  "sample_codec = table_codec
     [control_default, activate_hard_stop sample_env sample_stop (io_now sample_env) control_default,
      activate_kill_switch sample_env sample_kill (io_now sample_env) control_default]"

definition sample_plane :: "int coordinator" where
  "sample_plane =
     \<lparr>co_generation = 1, co_state = control_default, co_error = None, co_file = Some (nat_text 0 @ [char_of (10 :: nat)])\<rparr>"

definition real_order :: "int pre_trade_order" where
  "real_order = (order_of_command sample_command)\<lparr>pt_trading_environment := Real_Env\<rparr>"

lemma sample_load: "load_state_strict sample_codec sample_env (co_file sample_plane) = Inr control_default"
  using digit_not_whitespace [of "digit_char 0"]
  by (simp add: load_state_strict_def fs_read_def sample_env_def sample_plane_def decode_state_def sample_codec_def table_codec_def
      nat_text.simps [of 0] digits_val_def digit_val_def)

lemma sample_encode:
  "s \<in> {control_default, activate_hard_stop sample_env sample_stop (io_now sample_env) control_default,
     activate_kill_switch sample_env sample_kill (io_now sample_env) control_default} \<Longrightarrow> \<exists>b. js_encode sample_codec s = Inr b"
  by (auto simp: sample_codec_def table_codec_def)

lemma sample_persist: "js_encode J s = Inr b \<Longrightarrow> persist_state J sample_env s fl = (Inr (), Some (b @ [char_of (10 :: nat)]))"
  by (simp add: persist_state_def persist_bytes_def stage_ok_def sample_env_def)

lemma sample_mutation:
  assumes "control_mutation dec28 sample_floats sample_env i control_default = Inr s'" and "\<exists>b. js_encode sample_codec s' = Inr b"
    and "in_operation i \<noteq> ManualRetry"
  shows "fst (mutate_state dec28 sample_floats sample_codec sample_env True i sample_plane) = Inr (Snapshot_Value ''{}'')"
proof -
  obtain b where "js_encode sample_codec s' = Inr b" using assms(2) by blast
  from sample_persist [OF this] have "fst (persist_state sample_codec sample_env s' (co_file sample_plane)) = Inr ()"
    by simp
  moreover have "snapshot_value dec28 sample_codec s' = Inr (Snapshot_Value ''{}'')"
    by (simp add: snapshot_value_def sample_codec_def table_codec_def)
  ultimately show ?thesis
    using assms(1,3) sample_load by (auto simp: mutate_state_def mutate_with_def split: prod.splits sum.splits)
qed

text \<open>C2: The guard submits a real order only on a clearance of the control file as it is at that moment:
  the call ends with the result of the submission exactly when the order is simulated, or the
  file can be read and decoded and the state it holds admits the order; otherwise the submission
  is not run at all (the result is one error, whatever the submission would do).\<close>

theorem guard_clears_orders:
  "if pt_trading_environment ord = Simulate \<or>
      (\<exists>s. load_state_strict J env (co_file st) = Inr s \<and>
         pre_trade_admissible D (policy_from_snapshot (from_control_state D s None)) ord)
   then fst (execute_with_risk_guard D J env ord submit_fn st) = submit_fn ()
   else (\<exists>e. fst (risk_guard D J env ord st) = Inl e \<and>
          fst (execute_with_risk_guard D J env ord submit_fn st) = Inl e)"
  using risk_guard_Inr [of D J env ord st "()"]
  by (cases "risk_guard D J env ord st"; cases "fst (risk_guard D J env ord st)") (auto simp: execute_with_risk_guard_def)

text \<open>C3: A hard stop holds until it is released: once its activation has been confirmed, no real order in
  its scope is submitted, whatever control operations, order submissions, reads and I/O failures
  happen in between, as long as none of them releases this stop.\<close>

theorem hard_stop_holds:
  assumes "control_codec J"
    and "fst (mutate_state D F J env rt i st) = Inr r" and "in_operation i = ActivateHardStop" and "in_hard_stop i = Some c"
    and "x = entry_of_command env c (io_now env)" and "list_all (\<lambda>a. \<not> releases_stop (he_id x) a) ops"
    and "pt_trading_environment ord = Real_Env" and "hard_stop_matches_pre (hard_stop_of_entry x) ord"
  shows "\<exists>e. fst (risk_guard D J env' ord (run (plane_step D F J) (snd (mutate_state D F J env rt i st)) ops)) = Inl e"
proof -
  obtain s s' where "control_mutation D F env i s = Inr s'" and st: "stored J (snd (mutate_state D F J env rt i st)) = Some s'"
    using control_codec.mutate_state_Inr [OF assms(1,2)] by blast
  then have "x \<in> set (ct_hard_stops s')"
    using assms(3-5) by (auto simp: control_mutation_def required_hard_stop_def activate_hard_stop_def Let_def)
  then obtain s'' where "stored J (run (plane_step D F J) (snd (mutate_state D F J env rt i st)) ops) = Some s''"
    and "x \<in> set (ct_hard_stops s'')"
    using control_codec.stop_stays [OF assms(1) st _ assms(6)] by blast
  then show ?thesis
    using guard_blocked [OF _ assms(7)] assms(8) by blast
qed

theorem hard_stop_holds_witness:
  "\<exists>e. fst (risk_guard dec28 sample_codec sample_env real_order (run (plane_step dec28 sample_floats sample_codec)
      (snd (mutate_state dec28 sample_floats sample_codec sample_env True stop_input sample_plane)) [Op_Snapshot sample_env])) = Inl e"
proof (rule hard_stop_holds)
  show "control_codec sample_codec"
    unfolding sample_codec_def by (rule table_codec.control_codec_axioms)
  have "control_mutation dec28 sample_floats sample_env stop_input control_default =
      Inr (activate_hard_stop sample_env sample_stop (io_now sample_env) control_default)"
    by (simp add: control_mutation_def stop_input_def required_hard_stop_def)
  then show "fst (mutate_state dec28 sample_floats sample_codec sample_env True stop_input sample_plane) = Inr (Snapshot_Value ''{}'')"
    by (rule sample_mutation) (simp_all add: sample_encode stop_input_def)
  show "hard_stop_matches_pre (hard_stop_of_entry (entry_of_command sample_env sample_stop (io_now sample_env))) real_order"
    by (simp add: hard_stop_matches_pre_def hard_stop_of_entry_def entry_of_command_def sample_stop_def real_order_def
        order_of_command_def sample_command_def normalize_broker_def normalize_environment_def normalize_account_def
        normalized_or_def optional_upper_def optional_trimmed_def owner_matches_def exact_matches_def symbol_matches_def
        string_eval Let_def)
qed (simp_all add: stop_input_def real_order_def)

text \<open>C4: The kill switch holds until it is released: once its activation has been confirmed no real order
  is submitted at all, whatever else happens in between.\<close>

theorem kill_switch_holds:
  assumes "control_codec J"
    and "fst (mutate_state D F J env rt i st) = Inr r" and "in_operation i = ActivateKillSwitch"
    and "list_all (\<lambda>a. \<not> releases_kill_switch a) ops" and "pt_trading_environment ord = Real_Env"
  shows "\<exists>e. fst (risk_guard D J env' ord (run (plane_step D F J) (snd (mutate_state D F J env rt i st)) ops)) = Inl e"
proof -
  obtain s s' where "control_mutation D F env i s = Inr s'" and st: "stored J (snd (mutate_state D F J env rt i st)) = Some s'"
    using control_codec.mutate_state_Inr [OF assms(1,2)] by blast
  then have "ct_kill_switch s' \<noteq> None"
    using assms(3) by (auto simp: control_mutation_def activate_kill_switch_def Let_def result_simps)
  then obtain s'' where "stored J (run (plane_step D F J) (snd (mutate_state D F J env rt i st)) ops) = Some s''"
    and "ct_kill_switch s'' \<noteq> None"
    using control_codec.kill_switch_stays [OF assms(1) st _ assms(4)] by blast
  then show ?thesis
    using guard_blocked [OF _ assms(5)] by blast
qed

theorem kill_switch_holds_witness:
  "\<exists>e. fst (risk_guard dec28 sample_codec sample_env real_order (run (plane_step dec28 sample_floats sample_codec)
      (snd (mutate_state dec28 sample_floats sample_codec sample_env True kill_input sample_plane))
      [Op_Guard sample_env real_order])) = Inl e"
proof (rule kill_switch_holds)
  show "control_codec sample_codec"
    unfolding sample_codec_def by (rule table_codec.control_codec_axioms)
  have "control_mutation dec28 sample_floats sample_env kill_input control_default =
      Inr (activate_kill_switch sample_env sample_kill (io_now sample_env) control_default)"
    by (simp add: control_mutation_def kill_input_def required_kill_switch_def)
  then show "fst (mutate_state dec28 sample_floats sample_codec sample_env True kill_input sample_plane) = Inr (Snapshot_Value ''{}'')"
    by (rule sample_mutation) (simp_all add: sample_encode kill_input_def)
qed (simp_all add: kill_input_def real_order_def)

text \<open>C33: A control operation is durable or without effect: when it is confirmed, the control file holds the
  new control state, which is also the one in memory; when it fails, file and memory keep the
  old state.\<close>

theorem control_operation_atomic:
  assumes "control_codec J"
  shows "case mutate_state D F J env rt i st of
      (Inr _, st') \<Rightarrow> \<exists>s. load_state_strict J env (co_file st) = Inr s \<and>
         control_mutation D F env i s = Inr (co_state st') \<and> stored J st' = Some (co_state st') \<and> co_error st' = None
    | (Inl _, st') \<Rightarrow> co_file st' = co_file st \<and> co_state st' = co_state st"
proof (cases "fst (mutate_state D F J env rt i st)")
  case (Inl e)
  then show ?thesis
    using mutate_state_Inl [OF Inl] by (cases "mutate_state D F J env rt i st") simp
next
  case (Inr r)
  then show ?thesis
    using control_codec.mutate_state_Inr [OF assms Inr] by (cases "mutate_state D F J env rt i st") auto
qed

theorem control_operation_atomic_witness:
  "case mutate_state dec28 sample_floats sample_codec sample_env True kill_input sample_plane of
      (Inr _, st') \<Rightarrow> \<exists>s. load_state_strict sample_codec sample_env (co_file sample_plane) = Inr s \<and>
         control_mutation dec28 sample_floats sample_env kill_input s = Inr (co_state st') \<and>
         stored sample_codec st' = Some (co_state st') \<and> co_error st' = None
    | (Inl _, st') \<Rightarrow> co_file st' = co_file sample_plane \<and> co_state st' = co_state sample_plane"
  by (rule control_operation_atomic) (simp add: sample_codec_def table_codec.control_codec_axioms)

text \<open>Every control operation leaves one audit event, newest first in a trail of at most 200, which the
  console lists in the view of its kind.\<close>

theorem operations_are_audited:
  assumes "control_mutation D F env i s = Inr s'" and "in_operation i \<noteq> ManualRetry"
  shows "\<exists>ev. ct_events s' = take 200 (ev # ct_events s) \<and> ce_created_at ev = io_now env \<and>
    operation_view (in_operation i) [ev] = [ev]"
  using mutation_audited [OF assms] by (simp add: event_limit_def)

theorem operations_are_audited_witness:
  "\<exists>ev. ct_events (activate_kill_switch sample_env sample_kill (io_now sample_env) (control_default :: int control_state)) = take 200 [ev] \<and>
    events_with_prefix [ev] ''KILL_SWITCH_'' = [ev]"
proof -
  have m: "control_mutation dec28 sample_floats sample_env kill_input control_default =
      Inr (activate_kill_switch sample_env sample_kill (io_now sample_env) control_default)"
    by (simp add: control_mutation_def kill_input_def required_kill_switch_def)
  have "in_operation kill_input = ActivateKillSwitch" by (simp add: kill_input_def)
  with operations_are_audited [OF m] show ?thesis
    by (auto simp: control_default_def)
qed

text \<open>An unavailable control plane fails closed: the policy of its snapshot admits only simulated orders.\<close>

theorem unavailable_fails_closed:
  "pd_allowed (evaluate_pre_trade_risk D (policy_from_snapshot (from_control_state D s (Some e))) ord) \<longleftrightarrow>
     order_shape_ok D ord \<and> pt_trading_environment ord = Simulate"
  by (simp add: evaluate_pre_trade_allowed pre_trade_admissible_def)

text \<open>The event of an order refused by a hard stop is in none of the console's views: they select by
  action, and its action is \<open>REJECT\<close>.\<close>

theorem reject_event_unlisted:
  "events_with_prefix [reject_event env ord d code msg] ''HARD_STOP_'' = [] \<and>
   events_with_prefix [reject_event env ord d code msg] ''KILL_SWITCH_'' = [] \<and>
   risk_events [reject_event env ord d code msg] = []"
  by (simp add: events_with_prefix_def risk_events_def reject_event_def starts_with_def string_eval)

text \<open>A limit that is a finite positive float but too large for a decimal passes validation and is
  dropped: real trading is enabled without any limit.\<close>

theorem unrepresentable_limit_dropped:
  assumes "fl_finite F v" and "\<not> fl_le_zero F v" and "d_parse D (fl_text F v) = None"
    and "c = \<lparr>kk_trading_environment = [], kk_real_trading_enabled = True, kk_max_order_quantity = Some v,
              kk_max_order_notional = None, kk_operator_id = [], kk_reason = []\<rparr>"
  shows "validate_risk F c = Inr () \<and>
    (let p = policy_from_snapshot (from_control_state D (update_risk D F env c now s) None)
     in pp_real_trading_enabled p \<and> pp_max_order_quantity p = None \<and> pp_max_order_notional p = None)"
  using assms by (simp add: validate_risk_def update_risk_def opt_f64_dec_def policy_from_snapshot_def from_control_state_def
      positive_finite_def Let_def)

end
