(* ===== verification/Kernel_Increments.thy ===== *)
theory Kernel_Increments
  imports Decimal_Lib
begin

text \<open>
  \<open>crates/jftrade-kernel/src/lib.rs\<close> and the trading helpers of \<open>fixed8.rs\<close>: the codec errors,
  and the alignment of prices and quantities to increments.
\<close>

datatype codec_error =
  InvalidDecimal string
| DecimalExpansionLimit
| Fixed8OutOfRange
| Fixed8ArithmeticOverflow
| Fixed8DivisionByZero
| Fixed8NonFiniteArithmetic
| InvalidFixed8Increment
| InvalidTimestamp string
| TimestampOutOfRange

definition map_err :: "('e \<Rightarrow> 'f) \<Rightarrow> 'e + 'a \<Rightarrow> 'f + 'a" where
  "map_err f m = (case m of Inl e \<Rightarrow> Inl (f e) | Inr a \<Rightarrow> Inr a)"

lemma map_err_Inr_iff [simp, result_simps]: "map_err f m = Inr a \<longleftrightarrow> m = Inr a"
  by (cases m) (simp_all add: map_err_def)

definition truncate_decimal_to_increment :: "'d decimal_lib \<Rightarrow> 'd \<Rightarrow> 'd \<Rightarrow> codec_error + 'd" where
  "truncate_decimal_to_increment D v increment =
     (if d_le D increment (d_zero D) then Inl InvalidFixed8Increment
      else rbind (ok_or (d_div D v increment) Fixed8ArithmeticOverflow) (\<lambda>ratio.
           ok_or (d_mul D (d_trunc D ratio) increment) Fixed8ArithmeticOverflow))"

definition ceil_decimal_to_increment :: "'d decimal_lib \<Rightarrow> 'd \<Rightarrow> 'd \<Rightarrow> codec_error + 'd" where
  "ceil_decimal_to_increment D v increment =
     (if d_le D increment (d_zero D) then Inl InvalidFixed8Increment
      else rbind (ok_or (d_div D v increment) Fixed8ArithmeticOverflow) (\<lambda>ratio.
           ok_or (d_mul D (d_ceil D ratio) increment) Fixed8ArithmeticOverflow))"

definition align_decimal_to_step :: "'d decimal_lib \<Rightarrow> 'd \<Rightarrow> 'd \<Rightarrow> 'd" where
  "align_decimal_to_step D v step =
     (if d_val D step = 0 then v
      else case d_div D v step of
             None \<Rightarrow> v
           | Some ratio \<Rightarrow> (case d_mul D (d_round D ratio) step of None \<Rightarrow> v | Some r \<Rightarrow> r))"

definition to_storage_text :: "'d decimal_lib \<Rightarrow> 'd \<Rightarrow> string" where
  "to_storage_text D v = d_norm_text D v"

definition parse_trading_str :: "'d decimal_lib \<Rightarrow> string \<Rightarrow> codec_error + 'd" where
  "parse_trading_str D input =
     (let trimmed = trim input
      in if trimmed = [] then Inr (d_zero D)
         else case strip_suffix_char (CHR ''%'') trimmed of
           Some pct \<Rightarrow>
             rbind (ok_or (d_parse D pct) (InvalidDecimal input)) (\<lambda>v.
             ok_or (d_div D v (d_new D 100 0)) Fixed8ArithmeticOverflow)
         | None \<Rightarrow> ok_or (d_parse D trimmed) (InvalidDecimal input))"

context decimal_order
begin

lemma truncate_bounds:
  assumes "truncate_decimal_to_increment D v inc = Inr r" and "0 \<le> d_val D v"
  shows "0 \<le> d_val D r" and "d_val D r \<le> d_val D v"
  using assms trunc_div_mul_le [of v inc _ r]
  by (auto simp: truncate_decimal_to_increment_def result_simps split: if_splits)

lemma truncate_positive_increment: "truncate_decimal_to_increment D v inc = Inr r \<Longrightarrow> 0 < d_val D inc"
  by (auto simp: truncate_decimal_to_increment_def split: if_splits)

end

lemma rat_trunc_int: "\<exists>k :: int. rat_trunc r = of_int k"
  by (auto simp: rat_trunc_def)

context decimal_exact
begin

lemma truncate_multiple:
  assumes "truncate_decimal_to_increment D v inc = Inr r"
  shows "\<exists>k :: int. d_val D r = of_int k * d_val D inc"
proof -
  obtain q where "d_mul D (d_trunc D q) inc = Some r"
    using assms by (auto simp: truncate_decimal_to_increment_def result_simps split: if_splits)
  then show ?thesis using mul_exact val_trunc rat_trunc_int [of "d_val D q"] by metis
qed

lemma ceil_multiple:
  assumes "ceil_decimal_to_increment D v inc = Inr r"
  shows "\<exists>k :: int. d_val D r = of_int k * d_val D inc"
proof -
  obtain q where "d_mul D (d_ceil D q) inc = Some r"
    using assms by (auto simp: ceil_decimal_to_increment_def result_simps split: if_splits)
  then show ?thesis using mul_exact val_ceil by metis
qed

end

end
