(* ===== verification/Backtest_Model.thy ===== *)
theory Backtest_Model
  imports Kernel_Increments
begin

text \<open>
  The data of the backtest (\<open>crates/jftrade-backtest/src/model.rs\<close>), the price rules of the
  \<open>conservative-bar-v1\<close> execution model (\<open>matching.rs\<close>) and the validation of its input
  (\<open>validation.rs\<close>). Timestamps are an ordered type with a text form \<open>tx\<close>.
\<close>

section \<open>Input\<close>

record 'd market_rules =
  mk_tick_size :: 'd
  mk_quantity_step :: 'd
  mk_min_quantity :: 'd

record ('d, 't) candle =
  cd_start :: 't
  cd_end :: 't
  cd_open :: 'd
  cd_high :: 'd
  cd_low :: 'd
  cd_close :: 'd
  cd_volume :: 'd

record 'd order_intent =
  it_bar_index :: nat
  it_action :: string
  it_id :: string
  it_target_id :: string
  it_side :: string
  it_order_type :: string
  it_quantity :: 'd
  it_limit_price :: 'd
  it_stop_price :: 'd
  it_reduce_only :: bool
  it_parent_id :: string
  it_oco_group_id :: string
  it_atomic_group_id :: string

record 'd fee_rule =
  fr_id :: string
  fr_label :: string
  fr_group :: string
  fr_side :: string
  fr_basis :: string
  fr_rate :: 'd
  fr_fixed_amount :: 'd
  fr_min_amount :: 'd
  fr_max_amount :: 'd
  fr_max_rate :: 'd
  fr_rounding :: string

record ('d, 't) backtest_case =
  bc_id :: string
  bc_symbol :: string
  bc_base_currency :: string
  bc_quote_currency :: string
  bc_initial_balance :: 'd
  bc_process_orders_on_close :: bool
  bc_slippage_ticks :: nat
  bc_market :: "'d market_rules"
  bc_fee_rules :: "'d fee_rule list"
  bc_indicator_periods :: "nat list"
  bc_cancel_before_bar :: "nat option"
  bc_candles :: "('d, 't) candle list"
  bc_intents :: "'d order_intent list"

section \<open>Output\<close>

datatype run_status = Completed | Run_Cancelled

record order_output =
  oo_order_id :: string
  oo_client_order_id :: string
  oo_side :: string
  oo_order_type :: string
  oo_quantity :: string
  oo_status :: string
  oo_filled_quantity :: string
  oo_filled_price :: string
  oo_submitted_at :: string
  oo_filled_at :: string
  oo_reduce_only :: bool

record fill_output =
  fo_trade_id :: string
  fo_order_id :: string
  fo_client_order_id :: string
  fo_side :: string
  fo_price :: string
  fo_quantity :: string
  fo_quote_quantity :: string
  fo_time :: string
  fo_maker :: bool
  fo_broker_fee :: string
  fo_market_fee :: string
  fo_total_fee :: string
  fo_realized_pnl :: string

record equity_point =
  eq_time :: string
  eq_equity :: string

record drawdown_point =
  dd_time :: string
  dd_drawdown :: string

record fee_breakdown =
  fb_rule_id :: string
  fb_label :: string
  fb_group :: string
  fb_amount :: string
  fb_count :: nat

record indicator_output =
  io_kind :: string
  io_period :: nat
  io_values :: "string option list"

record backtest_output =
  bo_id :: string
  bo_status :: run_status
  bo_processed_bars :: nat
  bo_cash :: string
  bo_base_position :: string
  bo_final_equity :: string
  bo_realized_pnl :: string
  bo_total_broker_fees :: string
  bo_total_market_fees :: string
  bo_total_fees :: string
  bo_total_fills :: nat
  bo_total_trades :: nat
  bo_winning_trades :: nat
  bo_win_rate :: string
  bo_max_drawdown :: string
  bo_current_drawdown :: string
  bo_orders :: "order_output list"
  bo_fills :: "fill_output list"
  bo_equity_curve :: "equity_point list"
  bo_drawdown_curve :: "drawdown_point list"
  bo_fee_breakdown :: "fee_breakdown list"
  bo_indicators :: "indicator_output list"
  bo_warnings :: "string list"
  bo_result_hash :: string

datatype backtest_error =
  Invalid_Input string
| Arithmetic string
| Codec codec_error
| Decimal_Error string
| Json_Error string
| Panic string \<comment> \<open>not a variant: an unchecked operation of \<open>report.rs\<close> that panics\<close>

section \<open>Matching\<close>

datatype match_mode = FullBar | ClosePoint

definition limit_price :: "'d decimal_lib \<Rightarrow> string \<Rightarrow> 'd \<Rightarrow> ('d, 't) candle \<Rightarrow> match_mode \<Rightarrow> 'd option" where
  "limit_price D side limit c mode =
     (let pos = (\<lambda>x. d_lt D (d_zero D) x)
      in if d_le D limit (d_zero D) then None
         else if mode = ClosePoint \<and> side = ''buy'' \<and> pos (cd_close c) \<and> d_le D (cd_close c) limit then Some (cd_close c)
         else if mode = ClosePoint \<and> side = ''sell'' \<and> pos (cd_close c) \<and> d_le D limit (cd_close c) then Some (cd_close c)
         else if mode = FullBar \<and> side = ''buy'' \<and> pos (cd_open c) \<and> d_le D (cd_open c) limit then Some (cd_open c)
         else if mode = FullBar \<and> side = ''buy'' \<and> pos (cd_low c) \<and> d_le D (cd_low c) limit then Some limit
         else if mode = FullBar \<and> side = ''sell'' \<and> pos (cd_open c) \<and> d_le D limit (cd_open c) then Some (cd_open c)
         else if mode = FullBar \<and> side = ''sell'' \<and> pos (cd_high c) \<and> d_le D limit (cd_high c) then Some limit
         else None)"

definition stop_market_price :: "'d decimal_lib \<Rightarrow> string \<Rightarrow> 'd \<Rightarrow> ('d, 't) candle \<Rightarrow> match_mode \<Rightarrow> 'd option" where
  "stop_market_price D side stop c mode =
     (let pos = (\<lambda>x. d_lt D (d_zero D) x)
      in if d_le D stop (d_zero D) then None
         else if mode = ClosePoint \<and> side = ''buy'' \<and> pos (cd_close c) \<and> d_le D stop (cd_close c) then Some (cd_close c)
         else if mode = ClosePoint \<and> side = ''sell'' \<and> pos (cd_close c) \<and> d_le D (cd_close c) stop then Some (cd_close c)
         else if mode = FullBar \<and> side = ''buy'' \<and> pos (cd_open c) \<and> d_le D stop (cd_open c) then Some (cd_open c)
         else if mode = FullBar \<and> side = ''buy'' \<and> pos (cd_high c) \<and> d_le D stop (cd_high c) then Some stop
         else if mode = FullBar \<and> side = ''sell'' \<and> pos (cd_open c) \<and> d_le D (cd_open c) stop then Some (cd_open c)
         else if mode = FullBar \<and> side = ''sell'' \<and> pos (cd_low c) \<and> d_le D (cd_low c) stop then Some stop
         else None)"

definition event_time :: "('t \<Rightarrow> string) \<Rightarrow> ('d, 't) candle \<Rightarrow> match_mode \<Rightarrow> string" where
  "event_time tx c mode = (case mode of FullBar \<Rightarrow> tx (cd_start c) | ClosePoint \<Rightarrow> tx (cd_end c))"

section \<open>Validation\<close>

fun windows_ordered :: "('d, 't::linorder) candle list \<Rightarrow> bool" where
  "windows_ordered (a # b # rest) \<longleftrightarrow>
     cd_start a < cd_start b \<and> cd_end a < cd_end b \<and> windows_ordered (b # rest)"
| "windows_ordered _ \<longleftrightarrow> True"

definition validate_case :: "'d decimal_lib \<Rightarrow> ('d, 't::linorder) backtest_case \<Rightarrow> backtest_error + unit" where
  "validate_case D bc =
     (if blank (bc_id bc) \<or> blank (bc_symbol bc) then Inl (Invalid_Input ''case id and symbol are required'')
      else if d_lt D (bc_initial_balance bc) (d_zero D) then Inl (Invalid_Input ''initial balance cannot be negative'')
      else if d_le D (mk_quantity_step (bc_market bc)) (d_zero D) \<or> d_le D (mk_tick_size (bc_market bc)) (d_zero D) \<or>
              d_lt D (mk_min_quantity (bc_market bc)) (d_zero D)
      then Inl (Invalid_Input ''market increments must be positive'')
      else if bc_candles bc = [] then Inl (Invalid_Input ''at least one candle is required'')
      else if \<not> windows_ordered (bc_candles bc) then Inl (Invalid_Input ''candles must be strictly ordered'')
      else case List.find (\<lambda>i. length (bc_candles bc) \<le> it_bar_index i) (bc_intents bc) of
             Some i \<Rightarrow> Inl (Invalid_Input (''intent '' @ it_id i @ '' targets an unavailable bar''))
           | None \<Rightarrow> Inr ())"

definition normalized_order_type :: "string \<Rightarrow> string" where
  "normalized_order_type v = (if blank v then ''market'' else v)"

definition validate_submit_intent :: "'d decimal_lib \<Rightarrow> 'd order_intent \<Rightarrow> backtest_error + unit" where
  "validate_submit_intent D i =
     (let kind = normalized_order_type (it_order_type i);
          no_limit = d_le D (it_limit_price i) (d_zero D); no_stop = d_le D (it_stop_price i) (d_zero D)
      in if it_action i \<noteq> ''submit'' then Inl (Invalid_Input (''unsupported intent action '' @ it_action i))
         else if blank (it_id i) \<or> d_le D (it_quantity i) (d_zero D)
         then Inl (Invalid_Input ''submit intent requires id and positive quantity'')
         else if it_side i \<notin> {''buy'', ''sell''}
         then Inl (Invalid_Input (''intent '' @ it_id i @ '' has unsupported side '' @ it_side i))
         else if kind \<in> {''limit'', ''limit_maker''} \<and> no_limit
         then Inl (Invalid_Input (''intent '' @ it_id i @ '' requires a limit price''))
         else if kind = ''stop_market'' \<and> no_stop
         then Inl (Invalid_Input (''intent '' @ it_id i @ '' requires a stop price''))
         else if kind = ''stop_limit'' \<and> (no_stop \<or> no_limit)
         then Inl (Invalid_Input (''intent '' @ it_id i @ '' requires stop and limit prices''))
         else Inr ())"

lemma validate_submit_Inr:
  "validate_submit_intent D i = Inr u \<Longrightarrow>
     \<not> blank (it_id i) \<and> d_lt D (d_zero D) (it_quantity i) \<and> it_side i \<in> {''buy'', ''sell''}"
  by (auto simp: validate_submit_intent_def Let_def not_le split: if_splits)

section \<open>Properties\<close>

text \<open>A limit order is never filled at a price worse than its limit, and only at a price the bar
  offered: a buy at most and a sell at least at the limit, always at a positive price that lies
  within the range of the bar (at the close of the bar when orders are processed on close).\<close>

theorem limit_price_never_worse:
  assumes "limit_price D side limit c mode = Some p"
    and "d_le D (cd_low c) (cd_open c) \<and> d_le D (cd_open c) (cd_high c) \<and>
         d_le D (cd_low c) (cd_close c) \<and> d_le D (cd_close c) (cd_high c)"
  shows "(side = ''buy'' \<and> d_le D p limit \<or> side = ''sell'' \<and> d_le D limit p) \<and>
    d_lt D (d_zero D) p \<and> d_le D (cd_low c) p \<and> d_le D p (cd_high c) \<and> (mode = FullBar \<or> p = cd_close c)"
  using assms by (auto simp: limit_price_def Let_def split: if_splits)

definition sample_candle :: "(int, nat) candle" where
  "sample_candle =
     \<lparr>cd_start = 0, cd_end = 1, cd_open = 100 * dec_unit, cd_high = 110 * dec_unit, cd_low = 90 * dec_unit,
      cd_close = 105 * dec_unit, cd_volume = 1000 * dec_unit\<rparr>"

theorem limit_price_never_worse_witness:
  "limit_price dec28 ''buy'' (95 * dec_unit) sample_candle FullBar = Some (95 * dec_unit) \<and>
   d_le dec28 (cd_low sample_candle) (95 * dec_unit)"
proof -
  have p: "limit_price dec28 ''buy'' (95 * dec_unit) sample_candle FullBar = Some (95 * dec_unit)"
    by (simp add: limit_price_def sample_candle_def d_zero_def dec_unit_def Let_def)
  show ?thesis
    using limit_price_never_worse [OF p] p by (simp add: sample_candle_def)
qed

text \<open>A triggered stop never executes on the favourable side of its stop price: a buy stop at least at
  and a sell stop at most at the stop price, within the range of the bar.\<close>

theorem stop_price_never_better:
  assumes "stop_market_price D side stop c mode = Some p"
    and "d_le D (cd_low c) (cd_open c) \<and> d_le D (cd_open c) (cd_high c) \<and>
         d_le D (cd_low c) (cd_close c) \<and> d_le D (cd_close c) (cd_high c)"
  shows "(side = ''buy'' \<and> d_le D stop p \<or> side = ''sell'' \<and> d_le D p stop) \<and>
    d_lt D (d_zero D) p \<and> d_le D (cd_low c) p \<and> d_le D p (cd_high c) \<and> (mode = FullBar \<or> p = cd_close c)"
  using assms by (auto simp: stop_market_price_def Let_def split: if_splits)

theorem stop_price_never_better_witness:
  "stop_market_price dec28 ''sell'' (95 * dec_unit) sample_candle FullBar = Some (95 * dec_unit) \<and>
   d_le dec28 (95 * dec_unit) (cd_high sample_candle)"
proof -
  have p: "stop_market_price dec28 ''sell'' (95 * dec_unit) sample_candle FullBar = Some (95 * dec_unit)"
    by (simp add: stop_market_price_def sample_candle_def d_zero_def dec_unit_def Let_def)
  show ?thesis
    using stop_price_never_better [OF p] p by (simp add: sample_candle_def)
qed

end
