(* ===== verification/Backtest_Fees.thy ===== *)
theory Backtest_Fees
  imports Backtest_Model
begin

text \<open>
  \<open>crates/jftrade-backtest/src/fees.rs\<close>: broker and market fees, charged incrementally per
  order and rule. An error ends the whole run, so operations return an error or the new state.
\<close>

section \<open>State\<close>

record 'd applied_fees =
  af_broker :: 'd
  af_market :: 'd
  af_total :: 'd

record 'd rule_accumulator =
  ra_raw :: 'd
  ra_notional :: 'd
  ra_charged :: 'd
  ra_order_used :: bool

record 'd breakdown_accumulator =
  ba_label :: string
  ba_group :: string
  ba_amount :: 'd
  ba_count :: nat

record 'd fee_engine =
  fe_rules :: "'d fee_rule list"
  fe_orders :: "(string, 'd rule_accumulator) bmap"
  fe_breakdown :: "(string, 'd breakdown_accumulator) bmap"
  fe_broker_total :: 'd
  fe_market_total :: 'd

definition applied_default :: "'d decimal_lib \<Rightarrow> 'd applied_fees" where
  "applied_default D = \<lparr>af_broker = d_zero D, af_market = d_zero D, af_total = d_zero D\<rparr>"

definition accumulator_default :: "'d decimal_lib \<Rightarrow> 'd rule_accumulator" where
  "accumulator_default D =
     \<lparr>ra_raw = d_zero D, ra_notional = d_zero D, ra_charged = d_zero D, ra_order_used = False\<rparr>"

definition fee_engine_new :: "'d decimal_lib \<Rightarrow> 'd fee_rule list \<Rightarrow> 'd fee_engine" where
  "fee_engine_new D rules =
     \<lparr>fe_rules = rules, fe_orders = [], fe_breakdown = [], fe_broker_total = d_zero D, fe_market_total = d_zero D\<rparr>"

section \<open>One rule\<close>

definition arith :: "'a option \<Rightarrow> string \<Rightarrow> backtest_error + 'a" where
  "arith x what = ok_or x (Arithmetic what)"

lemma arith_Some [simp]: "arith (Some v) what = Inr v"
  by (simp add: arith_def)

lemma arith_Inr [simp, result_simps]: "arith x what = Inr v \<longleftrightarrow> x = Some v"
  by (simp add: arith_def)

definition side_matches :: "string \<Rightarrow> string \<Rightarrow> bool" where
  "side_matches rule_side trade_side =
     (let n = lower (trim rule_side) in n = [] \<or> n = ''both'' \<or> n = trade_side)"

definition raw_fee :: "'d decimal_lib \<Rightarrow> 'd fee_rule \<Rightarrow> 'd rule_accumulator \<Rightarrow> 'd \<Rightarrow> 'd \<Rightarrow>
    backtest_error + 'd \<times> 'd rule_accumulator" where
  "raw_fee D rule acc notional quantity =
     (let basis = lower (trim (fr_basis rule))
      in if basis \<in> {''share'', ''contract'', ''quantity''} then
           rbind (arith (d_mul D quantity (fr_fixed_amount rule)) ''fee share fixed overflow'') (\<lambda>fixed_part.
           rbind (arith (d_mul D quantity (fr_rate rule)) ''fee share rate overflow'') (\<lambda>rate_part.
           rbind (arith (d_add D fixed_part rate_part) ''fee share total overflow'') (\<lambda>raw. Inr (raw, acc))))
         else if basis = ''order'' then
           (if ra_order_used acc then Inr (d_zero D, acc)
            else Inr (fr_fixed_amount rule, acc\<lparr>ra_order_used := True\<rparr>))
         else if basis \<in> {''notional'', []} then
           rbind (arith (d_mul D notional (fr_rate rule)) ''fee notional rate overflow'') (\<lambda>rate_part.
           rbind (arith (d_add D rate_part (fr_fixed_amount rule)) ''fee notional total overflow'') (\<lambda>raw. Inr (raw, acc)))
         else Inl (Invalid_Input (''fee rule '' @ fr_id rule @ '' has unsupported basis '' @ basis)))"

definition cap_amount :: "'d decimal_lib \<Rightarrow> 'd fee_rule \<Rightarrow> 'd \<Rightarrow> backtest_error + 'd" where
  "cap_amount D rule notional =
     (if d_lt D (d_zero D) (fr_max_rate rule) then
        rbind (arith (d_mul D notional (fr_max_rate rule)) ''fee max_rate overflow'') (\<lambda>rate_cap.
        Inr (if d_val D (fr_max_amount rule) = 0 \<or> d_lt D rate_cap (fr_max_amount rule)
             then rate_cap else fr_max_amount rule))
      else Inr (fr_max_amount rule))"

definition round_fee :: "'d decimal_lib \<Rightarrow> 'd \<Rightarrow> string \<Rightarrow> backtest_error + 'd" where
  "round_fee D amount rounding =
     (let mode = lower (trim rounding)
      in if mode \<in> {''ceil_currency_unit'', ''ceil_hkd''} then map_err Codec (ceil_decimal_to_increment D amount (d_one D))
         else if mode = ''ceil_cent'' then map_err Codec (ceil_decimal_to_increment D amount (d_new D 1 2))
         else if mode = [] then Inr amount
         else Inl (Invalid_Input (''unsupported fee rounding '' @ mode)))"

text \<open>What an accumulator owes in total after one more trade: the raw fee at least the minimum, at most the cap, rounded.\<close>

definition fee_target :: "'d decimal_lib \<Rightarrow> 'd fee_rule \<Rightarrow> 'd \<Rightarrow> 'd \<Rightarrow> backtest_error + 'd" where
  "fee_target D rule raw notional =
     (let t1 = (if d_lt D (d_zero D) (fr_min_amount rule) \<and> d_lt D raw (fr_min_amount rule) then fr_min_amount rule else raw)
      in rbind (cap_amount D rule notional) (\<lambda>cap.
         round_fee D (if d_lt D (d_zero D) cap \<and> d_lt D cap t1 then cap else t1) (fr_rounding rule)))"

text \<open>One rule on one trade: the accumulator, and the amount to charge now, if any.\<close>

definition charge_rule :: "'d decimal_lib \<Rightarrow> 'd fee_rule \<Rightarrow> 'd rule_accumulator \<Rightarrow> 'd \<Rightarrow> 'd \<Rightarrow>
    backtest_error + 'd rule_accumulator \<times> 'd option" where
  "charge_rule D rule acc notional quantity =
     rbind (raw_fee D rule acc notional quantity) (\<lambda>(raw, acc1).
     if d_le D raw (d_zero D) then Inr (acc1, None)
     else
       rbind (arith (d_add D (ra_raw acc1) raw) ''fee raw accumulator overflow'') (\<lambda>raw'.
       rbind (arith (d_add D (ra_notional acc1) notional) ''fee notional accumulator overflow'') (\<lambda>notional'.
       let acc2 = acc1\<lparr>ra_raw := raw', ra_notional := notional'\<rparr>
       in rbind (fee_target D rule raw' notional') (\<lambda>target.
          rbind (arith (d_sub D target (ra_charged acc2)) ''fee incremental underflow'') (\<lambda>incremental.
          if d_le D incremental (d_zero D) then Inr (acc2, None)
          else Inr (acc2\<lparr>ra_charged := target\<rparr>, Some incremental))))))"

definition add_applied :: "'d decimal_lib \<Rightarrow> 'd fee_rule \<Rightarrow> 'd \<Rightarrow> 'd applied_fees \<Rightarrow> backtest_error + 'd applied_fees" where
  "add_applied D rule incremental applied =
     (let group = lower (trim (fr_group rule))
      in if group = ''broker'' then
           rbind (arith (d_add D (af_broker applied) incremental) ''applied broker fee overflow'') (\<lambda>b.
           Inr (applied\<lparr>af_broker := b\<rparr>))
         else if group = ''market'' then
           rbind (arith (d_add D (af_market applied) incremental) ''applied market fee overflow'') (\<lambda>m.
           Inr (applied\<lparr>af_market := m\<rparr>))
         else Inl (Invalid_Input (''fee rule '' @ fr_id rule @ '' has unsupported group '' @ fr_group rule)))"

definition add_breakdown :: "'d decimal_lib \<Rightarrow> 'd fee_rule \<Rightarrow> 'd \<Rightarrow> (string, 'd breakdown_accumulator) bmap \<Rightarrow>
    backtest_error + (string, 'd breakdown_accumulator) bmap" where
  "add_breakdown D rule incremental m =
     (let key = fr_group rule @ ''|'' @ fr_id rule;
          entry = (case bm_get m key of
                     Some e \<Rightarrow> e
                   | None \<Rightarrow> \<lparr>ba_label = fr_label rule, ba_group = fr_group rule, ba_amount = d_zero D, ba_count = 0\<rparr>)
      in rbind (arith (d_add D (ba_amount entry) incremental) ''fee breakdown overflow'') (\<lambda>amount.
         Inr (bm_insert key (entry\<lparr>ba_amount := amount, ba_count := ba_count entry + 1\<rparr>) m)))"

definition accumulator_key :: "'d fee_rule \<Rightarrow> u64 \<Rightarrow> string" where
  "accumulator_key rule order_id = fr_group rule @ ''|'' @ fr_id rule @ ''|'' @ nat_text (unat order_id)"

definition apply_rule :: "'d decimal_lib \<Rightarrow> u64 \<Rightarrow> string \<Rightarrow> 'd \<Rightarrow> 'd \<Rightarrow> 'd fee_engine \<times> 'd applied_fees \<Rightarrow> 'd fee_rule \<Rightarrow>
    backtest_error + 'd fee_engine \<times> 'd applied_fees" where
  "apply_rule D order_id side notional quantity fa rule =
     (let fe = fst fa; applied = snd fa
      in if \<not> side_matches (fr_side rule) side then Inr fa
         else
           let key = accumulator_key rule order_id;
               acc = (case bm_get (fe_orders fe) key of Some a \<Rightarrow> a | None \<Rightarrow> accumulator_default D)
           in rbind (charge_rule D rule acc notional quantity) (\<lambda>(acc', charge).
              let fe1 = fe\<lparr>fe_orders := bm_insert key acc' (fe_orders fe)\<rparr>
              in case charge of
                   None \<Rightarrow> Inr (fe1, applied)
                 | Some incremental \<Rightarrow>
                     rbind (add_applied D rule incremental applied) (\<lambda>applied'.
                     rbind (add_breakdown D rule incremental (fe_breakdown fe1)) (\<lambda>breakdown.
                     Inr (fe1\<lparr>fe_breakdown := breakdown\<rparr>, applied')))))"

section \<open>One trade\<close>

definition fee_apply :: "'d decimal_lib \<Rightarrow> u64 \<Rightarrow> string \<Rightarrow> 'd \<Rightarrow> 'd \<Rightarrow> 'd fee_engine \<Rightarrow>
    backtest_error + 'd applied_fees \<times> 'd fee_engine" where
  "fee_apply D order_id side price quantity fe =
     rbind (arith (d_mul D price quantity) ''fee notional overflow'') (\<lambda>notional.
     if d_le D notional (d_zero D) \<or> d_le D quantity (d_zero D) then Inr (applied_default D, fe)
     else
       rbind (try_fold (apply_rule D order_id side notional quantity) (fe, applied_default D) (fe_rules fe)) (\<lambda>(fe1, applied).
       rbind (arith (d_add D (af_broker applied) (af_market applied)) ''applied total fee overflow'') (\<lambda>fee_sum.
       rbind (arith (d_add D (fe_broker_total fe1) (af_broker applied)) ''broker total overflow'') (\<lambda>broker.
       rbind (arith (d_add D (fe_market_total fe1) (af_market applied)) ''market total overflow'') (\<lambda>market.
       Inr (applied\<lparr>af_total := fee_sum\<rparr>, fe1\<lparr>fe_broker_total := broker, fe_market_total := market\<rparr>))))))"

definition fee_breakdown_of :: "'d decimal_lib \<Rightarrow> 'd fee_engine \<Rightarrow> fee_breakdown list" where
  "fee_breakdown_of D fe =
     map (\<lambda>(key, v). \<lparr>fb_rule_id = (case split_once (CHR ''|'') key of None \<Rightarrow> key | Some (_, i) \<Rightarrow> i),
                       fb_label = ba_label v, fb_group = ba_group v,
                       fb_amount = to_storage_text D (ba_amount v), fb_count = ba_count v\<rparr>) (fe_breakdown fe)"

section \<open>Sums over ordered maps\<close>

definition bm_sum :: "('v \<Rightarrow> rat) \<Rightarrow> ('k, 'v) bmap \<Rightarrow> rat" where
  "bm_sum f m = (\<Sum>(k, v)\<leftarrow>m. f v)"

lemma bm_sum_Nil [simp]: "bm_sum f [] = 0"
  by (simp add: bm_sum_def)

lemma bm_sum_insert:
  "bm_ok m \<Longrightarrow> bm_sum f (bm_insert k v m) = bm_sum f m + f v - (case bm_get m k of None \<Rightarrow> 0 | Some w \<Rightarrow> f w)"
proof (induction m)
  case (Cons p m)
  obtain a b where p: "p = (a, b)" by fastforce
  have ok: "bm_ok m" and above: "\<forall>x\<in>fst ` set m. a < x"
    using Cons.prems by (auto simp: p bm_ok_def)
  have "bm_get m k = None" if "\<not> a < k"
    using above that by (force simp: bm_get_def map_of_eq_None_iff)
  then show ?case
    using Cons.IH [OF ok] by (auto simp: p bm_sum_def bm_get_def not_less split: option.splits)
qed (simp add: bm_sum_def)

section \<open>Fees add up\<close>

text \<open>
  What has been charged per order and rule, what the breakdown lists and what the totals say is
  the same amount.
\<close>

definition fees_ok :: "'d decimal_lib \<Rightarrow> 'd fee_engine \<Rightarrow> bool" where
  "fees_ok D fe \<longleftrightarrow> bm_ok (fe_orders fe) \<and> bm_ok (fe_breakdown fe) \<and>
     bm_sum (\<lambda>a. d_val D (ra_charged a)) (fe_orders fe) = d_val D (fe_broker_total fe) + d_val D (fe_market_total fe) \<and>
     bm_sum (\<lambda>b. d_val D (ba_amount b)) (fe_breakdown fe) = d_val D (fe_broker_total fe) + d_val D (fe_market_total fe) \<and>
     0 \<le> d_val D (fe_broker_total fe) \<and> 0 \<le> d_val D (fe_market_total fe)"

text \<open>The same in the middle of a trade, with the fees applied so far.\<close>

definition fees_pending :: "'d decimal_lib \<Rightarrow> 'd fee_engine \<times> 'd applied_fees \<Rightarrow> bool" where
  "fees_pending D fa \<longleftrightarrow> (let fe = fst fa; af = snd fa;
       owed = d_val D (fe_broker_total fe) + d_val D (fe_market_total fe) + d_val D (af_broker af) + d_val D (af_market af)
     in bm_ok (fe_orders fe) \<and> bm_ok (fe_breakdown fe) \<and>
        bm_sum (\<lambda>a. d_val D (ra_charged a)) (fe_orders fe) = owed \<and>
        bm_sum (\<lambda>b. d_val D (ba_amount b)) (fe_breakdown fe) = owed \<and>
        0 \<le> d_val D (fe_broker_total fe) \<and> 0 \<le> d_val D (fe_market_total fe) \<and>
        0 \<le> d_val D (af_broker af) \<and> 0 \<le> d_val D (af_market af))"

lemma raw_fee_charged: "raw_fee D rule acc n q = Inr (raw, acc') \<Longrightarrow>
    ra_charged acc' = ra_charged acc \<and> ra_raw acc' = ra_raw acc \<and> ra_notional acc' = ra_notional acc"
  by (auto simp: raw_fee_def Let_def result_simps split: if_splits)

context decimal_exact
begin

lemma charge_rule_exact:
  assumes "charge_rule D rule acc n q = Inr (acc', charge)"
  shows "d_val D (ra_charged acc') = d_val D (ra_charged acc) + (case charge of None \<Rightarrow> 0 | Some i \<Rightarrow> d_val D i)"
    and "charge = Some i \<Longrightarrow> 0 < d_val D i"
  using assms
  by (auto simp: charge_rule_def Let_def result_simps dest!: raw_fee_charged sub_exact split: if_splits)

lemma apply_rule_pending:
  assumes "fees_pending D fa" and "apply_rule D oid side n q fa rule = Inr fa'"
  shows "fees_pending D fa'"
proof (cases "side_matches (fr_side rule) side")
  case False
  with assms show ?thesis by (simp add: apply_rule_def Let_def)
next
  case True
  let ?key = "accumulator_key rule oid" and ?fe = "fst fa"
  let ?acc = "case bm_get (fe_orders ?fe) ?key of Some a \<Rightarrow> a | None \<Rightarrow> accumulator_default D"
  obtain acc' charge where ch: "charge_rule D rule ?acc n q = Inr (acc', charge)"
    using assms(2) True by (auto simp: apply_rule_def Let_def result_simps)
  have zero: "d_val D (ra_charged ?acc) = (case bm_get (fe_orders ?fe) ?key of None \<Rightarrow> 0 | Some w \<Rightarrow> d_val D (ra_charged w))"
    by (simp add: accumulator_default_def split: option.splits)
  note exact = charge_rule_exact [OF ch]
  have orders: "bm_ok (bm_insert ?key acc' (fe_orders ?fe))"
    "bm_sum (\<lambda>a. d_val D (ra_charged a)) (bm_insert ?key acc' (fe_orders ?fe)) =
       bm_sum (\<lambda>a. d_val D (ra_charged a)) (fe_orders ?fe) + (case charge of None \<Rightarrow> 0 | Some i \<Rightarrow> d_val D i)"
    using assms(1) exact(1) zero
    by (simp_all add: fees_pending_def Let_def bm_sum_insert)
  show ?thesis
  proof (cases charge)
    case None
    then show ?thesis
      using assms True ch orders by (auto simp: apply_rule_def fees_pending_def Let_def result_simps)
  next
    case (Some i)
    with exact(2) have pos: "0 < d_val D i" by simp
    obtain af br where af: "add_applied D rule i (snd fa) = Inr af" and br: "add_breakdown D rule i (fe_breakdown ?fe) = Inr br"
      and fa': "fa' = (?fe\<lparr>fe_orders := bm_insert ?key acc' (fe_orders ?fe), fe_breakdown := br\<rparr>, af)"
      using assms(2) True ch Some by (auto simp: apply_rule_def Let_def result_simps)
    have "d_val D (af_broker af) + d_val D (af_market af) = d_val D (af_broker (snd fa)) + d_val D (af_market (snd fa)) + d_val D i \<and>
        d_val D (af_broker (snd fa)) \<le> d_val D (af_broker af) \<and> d_val D (af_market (snd fa)) \<le> d_val D (af_market af)"
      using af pos by (auto simp: add_applied_def Let_def result_simps dest!: add_exact split: if_splits)
    moreover have "bm_ok br \<and> bm_sum (\<lambda>b. d_val D (ba_amount b)) br =
        bm_sum (\<lambda>b. d_val D (ba_amount b)) (fe_breakdown ?fe) + d_val D i"
      using br assms(1)
      by (auto simp: add_breakdown_def fees_pending_def Let_def result_simps bm_sum_insert dest!: add_exact split: option.splits)
    ultimately show ?thesis
      using assms(1) orders Some by (auto simp: fa' fees_pending_def Let_def)
  qed
qed

lemma apply_rule_totals:
  "apply_rule D oid side n q fa r = Inr fa' \<Longrightarrow>
   fe_broker_total (fst fa') = fe_broker_total (fst fa) \<and> fe_market_total (fst fa') = fe_market_total (fst fa) \<and>
   fe_rules (fst fa') = fe_rules (fst fa)"
  by (auto simp: apply_rule_def Let_def result_simps split: if_splits option.splits)

lemma apply_rules_totals:
  "try_fold (apply_rule D oid side n q) fa rules = Inr fa' \<Longrightarrow>
   fe_broker_total (fst fa') = fe_broker_total (fst fa) \<and> fe_market_total (fst fa') = fe_market_total (fst fa) \<and>
   fe_rules (fst fa') = fe_rules (fst fa)"
proof (induction rules arbitrary: fa)
  case (Cons r rules)
  then obtain fa1 where "apply_rule D oid side n q fa r = Inr fa1" and "try_fold (apply_rule D oid side n q) fa1 rules = Inr fa'"
    by (auto simp: result_simps)
  with Cons.IH [of fa1] apply_rule_totals [of oid side n q fa r fa1] show ?case by simp
qed simp

lemma fee_apply_ok:
  assumes "fees_ok D fe" and "fee_apply D oid side price q fe = Inr (applied, fe')"
  shows "fees_ok D fe'" and "0 \<le> d_val D (af_total applied)"
    and "d_val D (af_total applied) = d_val D (af_broker applied) + d_val D (af_market applied)"
    and "d_val D (fe_broker_total fe') + d_val D (fe_market_total fe') =
         d_val D (fe_broker_total fe) + d_val D (fe_market_total fe) + d_val D (af_total applied)"
    and "fe_rules fe' = fe_rules fe"
proof -
  have "fees_ok D fe' \<and> 0 \<le> d_val D (af_total applied) \<and>
      d_val D (af_total applied) = d_val D (af_broker applied) + d_val D (af_market applied) \<and>
      d_val D (fe_broker_total fe') + d_val D (fe_market_total fe') =
         d_val D (fe_broker_total fe) + d_val D (fe_market_total fe) + d_val D (af_total applied) \<and> fe_rules fe' = fe_rules fe"
  proof (cases "applied = applied_default D \<and> fe' = fe")
    case True
    then show ?thesis using assms(1) by (simp add: applied_default_def)
  next
    case False
    then obtain n fe1 af t b m where fold: "try_fold (apply_rule D oid side n q) (fe, applied_default D) (fe_rules fe) = Inr (fe1, af)"
      and adds: "d_add D (af_broker af) (af_market af) = Some t" "d_add D (fe_broker_total fe1) (af_broker af) = Some b"
        "d_add D (fe_market_total fe1) (af_market af) = Some m"
      and res: "applied = af\<lparr>af_total := t\<rparr>" "fe' = fe1\<lparr>fe_broker_total := b, fe_market_total := m\<rparr>"
      using assms(2) by (auto simp: fee_apply_def result_simps split: if_splits)
    have "fees_pending D (fe, applied_default D)"
      using assms(1) by (simp add: fees_ok_def fees_pending_def applied_default_def Let_def)
    then have "fees_pending D (fe1, af)"
      by (rule try_fold_invariant [OF fold]) (rule apply_rule_pending)
    then show ?thesis
      using apply_rules_totals [OF fold] adds [THEN add_exact]
      by (auto simp: res fees_ok_def fees_pending_def Let_def)
  qed
  then show "fees_ok D fe'" and "0 \<le> d_val D (af_total applied)"
    and "d_val D (af_total applied) = d_val D (af_broker applied) + d_val D (af_market applied)"
    and "d_val D (fe_broker_total fe') + d_val D (fe_market_total fe') =
         d_val D (fe_broker_total fe) + d_val D (fe_market_total fe) + d_val D (af_total applied)"
    and "fe_rules fe' = fe_rules fe" by simp_all
qed

lemma fee_engine_new_ok: "fees_ok D (fee_engine_new D rules)"
  by (simp add: fees_ok_def fee_engine_new_def)

end

section \<open>Caps\<close>

definition charge_trade :: "'d decimal_lib \<Rightarrow> 'd fee_rule \<Rightarrow> 'd rule_accumulator \<Rightarrow> 'd \<times> 'd \<Rightarrow> backtest_error + 'd rule_accumulator" where
  "charge_trade D rule acc nq = rbind (charge_rule D rule acc (fst nq) (snd nq)) (\<lambda>r. Inr (fst r))"

definition capped :: "'d decimal_lib \<Rightarrow> 'd fee_rule \<Rightarrow> 'd rule_accumulator \<Rightarrow> bool" where
  "capped D rule acc \<longleftrightarrow> 0 \<le> d_val D (ra_notional acc) \<and>
     (d_val D (ra_charged acc) = 0 \<or>
      0 < d_val D (ra_notional acc) \<and>
      (\<exists>c. cap_amount D rule (ra_notional acc) = Inr c \<and> (0 < d_val D c \<longrightarrow> d_val D (ra_charged acc) \<le> d_val D c)))"

context decimal_exact
begin

lemma cap_mono:
  assumes "cap_amount D rule n = Inr c" and "cap_amount D rule n' = Inr c'" and "0 < d_val D n" and "d_val D n \<le> d_val D n'"
  shows "d_val D c \<le> d_val D c' \<and> (0 < d_val D c' \<longrightarrow> 0 < d_val D c)"
proof (cases "0 < d_val D (fr_max_rate rule)")
  case False
  with assms show ?thesis by (simp add: cap_amount_def)
next
  case True
  then obtain rc rc' where rc: "d_mul D n (fr_max_rate rule) = Some rc" "d_mul D n' (fr_max_rate rule) = Some rc'"
    using assms(1,2) by (auto simp: cap_amount_def result_simps)
  have "d_val D rc \<le> d_val D rc'" and "0 < d_val D rc"
    using rc [THEN mul_exact] True assms(3,4) by (simp_all add: mult_right_mono)
  then show ?thesis
    using assms(1,2) True rc by (auto simp: cap_amount_def)
qed

lemma round_fee_none: "round_fee D a [] = Inr t \<Longrightarrow> t = a"
  by (simp add: round_fee_def lower_def)

lemma charge_rule_capped:
  assumes "capped D rule acc" and "charge_rule D rule acc n q = Inr (acc', charge)" and "0 < d_val D n"
    and "fr_rounding rule = []"
  shows "capped D rule acc'"
proof -
  obtain raw acc1 where raw: "raw_fee D rule acc n q = Inr (raw, acc1)"
    using assms(2) by (auto simp: charge_rule_def result_simps)
  note keep = raw_fee_charged [OF raw]
  show ?thesis
  proof (cases "d_val D raw \<le> 0")
    case True
    then show ?thesis using assms(1,2) raw keep by (simp add: charge_rule_def capped_def)
  next
    case False
    then obtain raw' n' target inc where n': "d_add D (ra_notional acc1) n = Some n'"
      and target: "fee_target D rule raw' n' = Inr target"
      and inc: "d_sub D target (ra_charged acc1) = Some inc"
      and acc': "ra_notional acc' = n'" "ra_charged acc' = (if d_val D inc \<le> 0 then ra_charged acc1 else target)"
      using assms(2) raw by (auto simp: charge_rule_def Let_def result_simps split: if_splits)
    obtain c where c: "cap_amount D rule n' = Inr c" and "0 < d_val D c \<longrightarrow> d_val D target \<le> d_val D c"
      using target assms(4) by (auto simp: fee_target_def Let_def result_simps dest!: round_fee_none)
    moreover have "0 < d_val D n'" and le: "d_val D (ra_notional acc) \<le> d_val D n'"
      using n' [THEN add_exact] keep assms(1,3) by (simp_all add: capped_def)
    moreover have "d_val D (ra_charged acc) \<le> d_val D c"
      if "d_val D (ra_charged acc) \<noteq> 0" "0 < d_val D c"
      using that assms(1) cap_mono [OF _ c _ le] by (auto simp: capped_def)
    ultimately show ?thesis
      using acc' keep by (auto simp: capped_def)
  qed
qed

lemma charge_trades_capped:
  assumes "try_fold (charge_trade D rule) (accumulator_default D) trades = Inr acc"
    and "list_all (\<lambda>(n, q). 0 < d_val D n) trades" and "fr_rounding rule = []"
  shows "capped D rule acc"
  using assms(1)
proof (rule try_fold_invariant)
  show "capped D rule (accumulator_default D)"
    by (simp add: capped_def accumulator_default_def)
  show "capped D rule acc'" if "x \<in> set trades" "capped D rule acc" "charge_trade D rule acc x = Inr acc'" for acc x acc'
    using that assms(2,3) charge_rule_capped [of rule acc "fst x" "snd x" acc']
    by (auto simp: charge_trade_def result_simps list_all_iff)
qed

end

section \<open>Properties\<close>

type_synonym 'd fee_trade = "u64 \<times> string \<times> 'd \<times> 'd"

definition fee_step :: "'d decimal_lib \<Rightarrow> 'd fee_engine \<Rightarrow> 'd fee_trade \<Rightarrow> backtest_error + 'd fee_engine" where
  "fee_step D fe t = (case t of (oid, side, price, q) \<Rightarrow> rbind (fee_apply D oid side price q fe) (\<lambda>r. Inr (snd r)))"

text \<open>Fees add up and are never negative: after any trades the totals of broker and market fees are
  together what was charged over all orders and rules, and what the breakdown lists.\<close>

theorem fees_balance:
  assumes "decimal_exact D" and "try_fold (fee_step D) (fee_engine_new D rules) trades = Inr fe"
  shows "bm_sum (\<lambda>b. d_val D (ba_amount b)) (fe_breakdown fe) = d_val D (fe_broker_total fe) + d_val D (fe_market_total fe) \<and>
    bm_sum (\<lambda>a. d_val D (ra_charged a)) (fe_orders fe) = d_val D (fe_broker_total fe) + d_val D (fe_market_total fe) \<and>
    0 \<le> d_val D (fe_broker_total fe) \<and> 0 \<le> d_val D (fe_market_total fe)"
proof -
  have "fees_ok D fe"
    using assms(2)
  proof (rule try_fold_invariant)
    show "fees_ok D (fee_engine_new D rules)"
      by (rule decimal_exact.fee_engine_new_ok [OF assms(1)])
    show "fees_ok D fe'" if "fees_ok D fe" "fee_step D fe t = Inr fe'" for fe t fe'
      using that decimal_exact.fee_apply_ok(1) [OF assms(1)] by (auto simp: fee_step_def result_simps split: prod.splits)
  qed
  then show ?thesis by (simp add: fees_ok_def)
qed

definition sample_rule :: "int fee_rule" where
  "sample_rule =
     \<lparr>fr_id = ''commission'', fr_label = ''Commission'', fr_group = ''broker'', fr_side = [], fr_basis = ''order'',
      fr_rate = 0, fr_fixed_amount = 3 * dec_unit, fr_min_amount = 0, fr_max_amount = 2 * dec_unit, fr_max_rate = 0,
      fr_rounding = []\<rparr>"

lemma sample_charge: "charge_rule dec28 sample_rule (accumulator_default dec28) (50 * dec_unit) (5 * dec_unit) =
   Inr (\<lparr>ra_raw = 3 * dec_unit, ra_notional = 50 * dec_unit, ra_charged = 2 * dec_unit, ra_order_used = True\<rparr>, Some (2 * dec_unit))"
proof -
  have basis: "lower (trim ''order'') = ''order''" and [simp]: "lower [] = []"
    by (simp_all add: string_eval)
  show ?thesis
    by (simp add: charge_rule_def raw_fee_def sample_rule_def basis accumulator_default_def d_zero_def dec_fit_def dec_unit_def
        fee_target_def cap_amount_def round_fee_def Let_def arith_def)
qed

theorem fees_balance_witness:
  "\<exists>fe. try_fold (fee_step dec28) (fee_engine_new dec28 [sample_rule]) [(7, ''buy'', 10 * dec_unit, 5 * dec_unit)] = Inr fe \<and>
    fe_broker_total fe = 2 * dec_unit \<and> 0 \<le> d_val dec28 (fe_market_total fe)"
proof -
  have sides: "side_matches [] ''buy''" "lower (trim ''broker'') = ''broker''"
    by (simp_all add: side_matches_def string_eval)
  have mul: "dec_mul (10 * dec_unit) (5 * dec_unit) = Some (50 * dec_unit)"
    by (simp add: dec_mul_def dec_fit_def dec_unit_def)
  have pos: "\<not> 50 * dec_unit \<le> 0" "\<not> 5 * dec_unit \<le> 0" "dec_fit (2 * dec_unit) = Some (2 * dec_unit)" "dec_fit 0 = Some 0"
    by (simp_all add: dec_unit_def dec_fit_def)
  have rule: "fr_side sample_rule = []" "fr_group sample_rule = ''broker''"
    by (simp_all add: sample_rule_def)
  obtain fe where fe: "try_fold (fee_step dec28) (fee_engine_new dec28 [sample_rule]) [(7, ''buy'', 10 * dec_unit, 5 * dec_unit)] = Inr fe"
    and total: "fe_broker_total fe = 2 * dec_unit"
    by (simp add: fee_step_def fee_apply_def fee_engine_new_def apply_rule_def rule sides sample_charge add_applied_def
        add_breakdown_def applied_default_def d_zero_def Let_def mul pos)
  from fees_balance [OF exact28.decimal_exact_axioms fe] show ?thesis
    using fe total by blast
qed

text \<open>A capped fee stays capped: however an order is split into trades, what a rule without rounding
  has charged for it in total is at most the rule's cap on the order's cumulative notional.\<close>

theorem fee_cap_respected:
  assumes "decimal_exact D" and "fr_rounding rule = []"
    and "try_fold (charge_trade D rule) (accumulator_default D) trades = Inr acc"
    and "list_all (\<lambda>(n, q). 0 < d_val D n) trades"
    and "cap_amount D rule (ra_notional acc) = Inr cap" and "0 < d_val D cap"
  shows "d_val D (ra_charged acc) \<le> d_val D cap"
  using decimal_exact.charge_trades_capped [OF assms(1,3,4,2)] assms(5,6) by (auto simp: capped_def)

theorem fee_cap_respected_witness:
  "try_fold (charge_trade dec28 sample_rule) (accumulator_default dec28) [(50 * dec_unit, 5 * dec_unit)] =
     Inr \<lparr>ra_raw = 3 * dec_unit, ra_notional = 50 * dec_unit, ra_charged = 2 * dec_unit, ra_order_used = True\<rparr> \<and>
   d_val dec28 (2 * dec_unit) \<le> d_val dec28 (fr_max_amount sample_rule)"
proof -
  let ?acc = "\<lparr>ra_raw = 3 * dec_unit, ra_notional = 50 * dec_unit, ra_charged = 2 * dec_unit, ra_order_used = True\<rparr>"
  have run: "try_fold (charge_trade dec28 sample_rule) (accumulator_default dec28) [(50 * dec_unit, 5 * dec_unit)] = Inr ?acc"
    by (simp add: charge_trade_def sample_charge)
  have "cap_amount dec28 sample_rule (ra_notional ?acc) = Inr (fr_max_amount sample_rule)"
    by (simp add: cap_amount_def sample_rule_def d_zero_def)
  from fee_cap_respected [OF exact28.decimal_exact_axioms _ run _ this] run show ?thesis
    by (simp add: sample_rule_def)
qed

end
