(* ===== verification/Backtest_Engine.thy ===== *)
theory Backtest_Engine
  imports Backtest_Fees
begin

text \<open>
  \<open>crates/jftrade-backtest/src/engine.rs\<close>: the replay of one case. The engine holds the account,
  the orders in the order of their submission and what it has reported so far; orders are
  referred to by their index. Every operation that can fail ends the run when it does, so it
  returns an error or the next state. \<open>bc\<close> is the case, \<open>tx\<close> the text of a timestamp.
\<close>

section \<open>State\<close>

datatype fill_status = New | Partially_Filled | Fully_Filled | Order_Cancelled

fun status_text :: "fill_status \<Rightarrow> string" where
  "status_text New = ''NEW''"
| "status_text Partially_Filled = ''PARTIALLY_FILLED''"
| "status_text Fully_Filled = ''FILLED''"
| "status_text Order_Cancelled = ''CANCELED''"

definition status_closed :: "fill_status \<Rightarrow> bool" where
  "status_closed s \<longleftrightarrow> s \<in> {Fully_Filled, Order_Cancelled}"

record 'd order_record =
  or_order_id :: u64
  or_client_order_id :: string
  or_side :: string
  or_order_type :: string
  or_quantity :: 'd
  or_limit_price :: 'd
  or_stop_price :: 'd
  or_reduce_only :: bool
  or_parent_order_id :: u64
  or_oco_group_id :: string
  or_has_children :: bool
  or_stop_triggered :: bool
  or_remaining :: 'd
  or_filled :: 'd
  or_filled_notional :: 'd
  or_average_price :: 'd
  or_status :: fill_status
  or_submitted_at :: string
  or_filled_at :: string
  or_closing_quantity :: 'd
  or_closing_pnl :: 'd
  or_closing_finalized :: bool

record 'd fill_event =
  fv_trade_id :: u64
  fv_price :: 'd
  fv_quantity :: 'd
  fv_quote_quantity :: 'd
  fv_time :: string
  fv_fees :: "'d applied_fees"
  fv_realized_pnl :: 'd

record ('d, 't) engine =
  en_cash :: 'd
  en_base_position :: 'd
  en_accounting_position :: 'd
  en_average_entry_price :: 'd
  en_position_cost_known :: bool
  en_realized_pnl :: 'd
  en_orders :: "'d order_record list"
  en_matching_order :: "nat list"
  en_order_index :: "(string, nat) bmap"
  en_atomic_groups :: "string list"
  en_fills :: "fill_output list"
  en_equity_curve :: "equity_point list"
  en_warnings :: "string list"
  en_warning_keys :: "string list"
  en_fee_engine :: "'d fee_engine"
  en_next_order_id :: u64
  en_next_trade_id :: u64
  en_current_bar :: "('d, 't) candle option"
  en_bar_budget :: 'd
  en_total_trades :: nat
  en_winning_trades :: nat

definition initial_order_id :: u64 where "initial_order_id = 1100000000"

definition initial_trade_id :: u64 where "initial_trade_id = 1200000000"

definition engine_new :: "'d decimal_lib \<Rightarrow> ('d, 't) backtest_case \<Rightarrow> ('d, 't) engine" where
  "engine_new D bc =
     \<lparr>en_cash = bc_initial_balance bc, en_base_position = d_zero D, en_accounting_position = d_zero D,
      en_average_entry_price = d_zero D, en_position_cost_known = False, en_realized_pnl = d_zero D,
      en_orders = [], en_matching_order = [], en_order_index = [], en_atomic_groups = [], en_fills = [],
      en_equity_curve = [], en_warnings = [], en_warning_keys = [],
      en_fee_engine = fee_engine_new D (bc_fee_rules bc),
      en_next_order_id = initial_order_id, en_next_trade_id = initial_trade_id, en_current_bar = None,
      en_bar_budget = d_zero D, en_total_trades = 0, en_winning_trades = 0\<rparr>"

definition update_order :: "nat \<Rightarrow> ('d order_record \<Rightarrow> 'd order_record) \<Rightarrow> ('d, 't) engine \<Rightarrow> ('d, 't) engine" where
  "update_order i f e = e\<lparr>en_orders := (en_orders e)[i := f (en_orders e ! i)]\<rparr>"

definition warn_once :: "string \<Rightarrow> string \<Rightarrow> ('d, 't) engine \<Rightarrow> ('d, 't) engine" where
  "warn_once key message e =
     (let (new, keys) = bs_insert key (en_warning_keys e); e1 = e\<lparr>en_warning_keys := keys\<rparr>
      in if new then e1\<lparr>en_warnings := en_warnings e1 @ [message]\<rparr> else e1)"

definition open_order :: "'d decimal_lib \<Rightarrow> 'd order_record \<Rightarrow> bool" where
  "open_order D ord \<longleftrightarrow> d_lt D (d_zero D) (or_remaining ord)"

definition has_pending_orders :: "'d decimal_lib \<Rightarrow> ('d, 't) engine \<Rightarrow> bool" where
  "has_pending_orders D e \<longleftrightarrow> list_ex (open_order D) (en_orders e)"

section \<open>Closing and cancelling\<close>

definition finalize_closing_order :: "'d decimal_lib \<Rightarrow> nat \<Rightarrow> ('d, 't) engine \<Rightarrow> ('d, 't) engine" where
  "finalize_closing_order D i e =
     (let ord = en_orders e ! i
      in if or_closing_finalized ord \<or> d_le D (or_closing_quantity ord) (d_zero D) then e
         else let e1 = update_order i (\<lambda>r. r\<lparr>or_closing_finalized := True\<rparr>) e
              in e1\<lparr>en_total_trades := en_total_trades e1 + 1,
                    en_winning_trades := en_winning_trades e1 +
                      (if d_lt D (d_zero D) (or_closing_pnl ord) then 1 else 0)\<rparr>)"

lemma update_order_simps [simp]:
  "length (en_orders (update_order i f e)) = length (en_orders e)"
  "i < length (en_orders e) \<Longrightarrow> en_orders (update_order i f e) ! i = f (en_orders e ! i)"
  "i \<noteq> j \<Longrightarrow> en_orders (update_order i f e) ! j = en_orders e ! j"
  by (simp_all add: update_order_def)

lemma finalize_length [simp]: "length (en_orders (finalize_closing_order D i e)) = length (en_orders e)"
  by (simp add: finalize_closing_order_def Let_def)

definition mark_cancelled :: "'d decimal_lib \<Rightarrow> string \<Rightarrow> nat \<Rightarrow> ('d, 't) engine \<Rightarrow> ('d, 't) engine" where
  "mark_cancelled D tm i e =
     finalize_closing_order D i
       (update_order i (\<lambda>r. r\<lparr>or_remaining := d_zero D, or_status := Order_Cancelled, or_filled_at := tm\<rparr>) e)"

text \<open>The open orders that wait for order \<open>i\<close>.\<close>

definition dependents_of :: "'d decimal_lib \<Rightarrow> nat \<Rightarrow> ('d, 't) engine \<Rightarrow> nat list" where
  "dependents_of D i e =
     filter (\<lambda>j. or_parent_order_id (en_orders e ! j) = or_order_id (en_orders e ! i) \<and> open_order D (en_orders e ! j))
       [0..<length (en_orders e)]"

definition open_count :: "'d decimal_lib \<Rightarrow> ('d, 't) engine \<Rightarrow> nat" where
  "open_count D e = length (filter (open_order D) (en_orders e))"

lemma map_update_same: "f y = f (xs ! i) \<Longrightarrow> map f (xs[i := y]) = map f xs"
  by (cases "i < length xs") (simp_all add: map_update list_update_same_conv list_update_beyond)

lemma open_order_finalize:
  "map (open_order D) (en_orders (finalize_closing_order D i e)) = map (open_order D) (en_orders e)"
  by (simp add: finalize_closing_order_def Let_def update_order_def map_update_same open_order_def)

lemma length_filter_map: "length (filter p xs) = length (filter id (map p xs))"
  by (induction xs) auto

lemma open_count_map: "open_count D e = length (filter id (map (open_order D) (en_orders e)))"
  unfolding open_count_def by (rule length_filter_map)

lemma filter_update_less: "i < length bs \<Longrightarrow> bs ! i \<Longrightarrow> length (filter id (bs[i := False])) < length (filter id bs)"
proof (induction bs arbitrary: i)
  case (Cons b bs)
  then show ?case by (cases i) auto
qed simp

lemma mark_cancelled_open:
  "map (open_order D) (en_orders (mark_cancelled D tm i e)) = (map (open_order D) (en_orders e))[i := False]"
  by (simp add: mark_cancelled_def open_order_finalize update_order_def map_update open_order_def)

lemma mark_cancelled_length [simp]: "length (en_orders (mark_cancelled D tm i e)) = length (en_orders e)"
  by (simp add: mark_cancelled_def)

lemma mark_cancelled_less:
  "i < length (en_orders e) \<Longrightarrow> open_order D (en_orders e ! i) \<Longrightarrow> open_count D (mark_cancelled D tm i e) < open_count D e"
  unfolding open_count_map mark_cancelled_open by (rule filter_update_less) simp_all

text \<open>
  \<open>cancel_order\<close> cancels an open order and then, recursively, the orders that wait for it. The
  list holds the calls still to be made; each cancellation closes one order, so it ends, also
  when orders wait for each other. \<open>cancel_orders_append\<close> below gives back the recursive form.
\<close>

function cancel_orders :: "'d decimal_lib \<Rightarrow> string \<Rightarrow> nat list \<Rightarrow> ('d, 't) engine \<Rightarrow> ('d, 't) engine" where
  "cancel_orders D tm [] e = e"
| "cancel_orders D tm (i # todo) e =
     (if i < length (en_orders e) \<and> open_order D (en_orders e ! i)
      then let e1 = mark_cancelled D tm i e in cancel_orders D tm (dependents_of D i e1 @ todo) e1
      else cancel_orders D tm todo e)"
  by pat_completeness auto
termination
  by (relation "measures [\<lambda>(D, tm, todo, e). open_count D e, \<lambda>(D, tm, todo, e). length todo]")
    (auto simp: mark_cancelled_less)

definition cancel_order :: "'d decimal_lib \<Rightarrow> nat \<Rightarrow> string \<Rightarrow> ('d, 't) engine \<Rightarrow> ('d, 't) engine" where
  "cancel_order D i tm e = cancel_orders D tm [i] e"

lemma cancel_orders_append: "cancel_orders D tm (is @ js) e = cancel_orders D tm js (cancel_orders D tm is e)"
  by (induction D tm "is" e rule: cancel_orders.induct) (simp_all add: Let_def)

lemma cancel_order_rec:
  "cancel_order D i tm e =
     (if i < length (en_orders e) \<and> open_order D (en_orders e ! i)
      then let e1 = mark_cancelled D tm i e in fold (\<lambda>j e. cancel_order D j tm e) (dependents_of D i e1) e1
      else e)"
proof -
  have "cancel_orders D tm js e1 = fold (\<lambda>j e. cancel_order D j tm e) js e1" for js and e1 :: "('a, 'b) engine"
  proof (induction js arbitrary: e1)
    case (Cons j js)
    have "cancel_orders D tm (j # js) e1 = cancel_orders D tm js (cancel_order D j tm e1)"
      using cancel_orders_append [of D tm "[j]" js e1] unfolding cancel_order_def by simp
    then show ?case by (simp add: Cons.IH)
  qed simp
  then show ?thesis unfolding cancel_order_def by (simp add: Let_def)
qed

definition cancel_by_target_id :: "'d decimal_lib \<Rightarrow> ('t \<Rightarrow> string) \<Rightarrow> string \<Rightarrow> ('d, 't) engine \<Rightarrow> ('d, 't) engine" where
  "cancel_by_target_id D tx target e =
     (let by_id = (if target \<noteq> [] \<and> all_digits target
                   then Option.bind (parse_u64 target) (\<lambda>n.
                        List.find (\<lambda>j. unat (or_order_id (en_orders e ! j)) = n) [0..<length (en_orders e)])
                   else None);
          i = (case bm_get (en_order_index e) target of Some j \<Rightarrow> Some j | None \<Rightarrow> by_id);
          tm = (case en_current_bar e of None \<Rightarrow> [] | Some c \<Rightarrow> tx (cd_end c))
      in case i of None \<Rightarrow> e | Some j \<Rightarrow> cancel_order D j tm e)"

definition oco_siblings :: "'d decimal_lib \<Rightarrow> nat \<Rightarrow> ('d, 't) engine \<Rightarrow> nat list" where
  "oco_siblings D i e =
     filter (\<lambda>j. j \<noteq> i \<and> or_oco_group_id (en_orders e ! j) = or_oco_group_id (en_orders e ! i) \<and>
                 open_order D (en_orders e ! j)) [0..<length (en_orders e)]"

definition cancel_oco_siblings :: "'d decimal_lib \<Rightarrow> nat \<Rightarrow> ('d, 't) engine \<Rightarrow> ('d, 't) engine" where
  "cancel_oco_siblings D i e =
     (let tm = or_filled_at (en_orders e ! i) in fold (\<lambda>j e. cancel_order D j tm e) (oco_siblings D i e) e)"

section \<open>Prices\<close>

definition apply_slippage :: "'d decimal_lib \<Rightarrow> ('d, 't) backtest_case \<Rightarrow> string \<Rightarrow> 'd \<Rightarrow> backtest_error + 'd" where
  "apply_slippage D bc side price =
     (let tick = mk_tick_size (bc_market bc)
      in if bc_slippage_ticks bc = 0 \<or> d_le D price (d_zero D) \<or> d_le D tick (d_zero D) then Inr price
         else
           rbind (arith (d_mul D tick (d_new D (int (bc_slippage_ticks bc)) 0)) ''slippage offset overflow'') (\<lambda>offset.
           rbind (if side = ''buy'' then arith (d_add D price offset) ''slippage add overflow''
                  else arith (d_sub D price offset) ''slippage sub underflow'') (\<lambda>slipped.
           if d_le D slipped (d_zero D) then Inr (d_zero D)
           else map_err Codec (truncate_decimal_to_increment D slipped tick))))"

definition reduce_only_quantity :: "'d decimal_lib \<Rightarrow> string \<Rightarrow> ('d, 't) engine \<Rightarrow> backtest_error + 'd" where
  "reduce_only_quantity D side e =
     (let base = en_base_position e
      in if side = ''sell'' \<and> d_lt D (d_zero D) base then Inr (d_abs D base)
         else if side = ''buy'' \<and> d_lt D base (d_zero D) then Inr (d_abs D base)
         else if side = ''buy'' \<or> side = ''sell'' then Inr (d_zero D)
         else Inl (Invalid_Input (''unsupported side '' @ side)))"

text \<open>The price an order matches at, and the engine: a stop that triggers and a warning are remembered.\<close>

definition match_price :: "'d decimal_lib \<Rightarrow> ('d, 't) backtest_case \<Rightarrow> nat \<Rightarrow> ('d, 't) candle \<Rightarrow> match_mode \<Rightarrow>
    ('d, 't) engine \<Rightarrow> backtest_error + 'd option \<times> ('d, 't) engine" where
  "match_price D bc i c mode e =
     (let ord = en_orders e ! i; kind = or_order_type ord; side = or_side ord
      in if kind = ''market'' then
           rbind (apply_slippage D bc side (if mode = ClosePoint then cd_close c else cd_open c)) (\<lambda>p. Inr (Some p, e))
         else if kind = ''limit'' \<or> kind = ''limit_maker'' then
           Inr (limit_price D side (or_limit_price ord) c mode, e)
         else if kind = ''stop_market'' then
           (case stop_market_price D side (or_stop_price ord) c mode of
              None \<Rightarrow> Inr (None, e)
            | Some p \<Rightarrow> rbind (apply_slippage D bc side p) (\<lambda>p'. Inr (Some p', e)))
         else if kind = ''stop_limit'' then
           (if \<not> or_stop_triggered ord then
              (if stop_market_price D side (or_stop_price ord) c mode = None then Inr (None, e)
               else Inr (None, update_order i (\<lambda>r. r\<lparr>or_stop_triggered := True\<rparr>) e))
            else Inr (limit_price D side (or_limit_price ord) c mode, e))
         else Inr (None, warn_once (''unsupported-order-type|'' @ kind)
                (''conservative-bar-v1: unsupported order type '' @ kind @ '' remains pending'') e))"

section \<open>Fills\<close>

text \<open>
  \<open>apply_position_fill\<close>: the accounting position, the quantity a fill closes and the profit it
  realizes. A fill in the direction of the position extends it, any other reduces or turns it.
\<close>

definition extend_position :: "'d decimal_lib \<Rightarrow> 'd \<Rightarrow> 'd \<Rightarrow> 'd \<Rightarrow> ('d, 't) engine \<Rightarrow> backtest_error + ('d, 't) engine" where
  "extend_position D delta quantity price e =
     (let z = d_zero D; current = en_accounting_position e
      in rbind (arith (d_add D current delta) ''position delta overflow'') (\<lambda>next'.
         rbind (if d_val D current = 0 then Inr (price, d_lt D z price)
                else if en_position_cost_known e \<and> d_lt D z price then
                  rbind (arith (d_mul D (en_average_entry_price e) (d_abs D current)) ''current_cost overflow'') (\<lambda>current_cost.
                  rbind (arith (d_mul D price quantity) ''fill_cost overflow'') (\<lambda>fill_cost.
                  rbind (arith (Option.bind (d_add D current_cost fill_cost) (\<lambda>tot. d_div D tot (d_abs D next')))
                           ''average_entry_price overflow'') (\<lambda>avg.
                  Inr (avg, en_position_cost_known e))))
                else Inr (z, False)) (\<lambda>(avg, known).
         Inr (e\<lparr>en_average_entry_price := avg, en_position_cost_known := known, en_accounting_position := next'\<rparr>))))"

definition realized_profit :: "'d decimal_lib \<Rightarrow> 'd \<Rightarrow> 'd \<Rightarrow> ('d, 't) engine \<Rightarrow> backtest_error + 'd" where
  "realized_profit D cq price e =
     (let z = d_zero D; entry = en_average_entry_price e
      in if \<not> en_position_cost_known e \<or> d_le D price z then Inr z
         else if d_lt D z (en_accounting_position e) then
           arith (Option.bind (d_sub D price entry) (\<lambda>p. d_mul D p cq)) ''realized pnl overflow''
         else arith (Option.bind (d_sub D entry price) (\<lambda>p. d_mul D p cq)) ''realized pnl overflow'')"

definition reduce_position :: "'d decimal_lib \<Rightarrow> 'd \<Rightarrow> 'd \<Rightarrow> ('d, 't) engine \<Rightarrow> backtest_error + ('d, 't) engine" where
  "reduce_position D delta price e =
     (let z = d_zero D; current = en_accounting_position e
      in rbind (arith (d_add D current delta) ''position delta overflow'') (\<lambda>next'.
         let (avg, known) =
           (if d_val D next' = 0 then (z, False)
            else if d_lt D z next' \<and> d_lt D current z \<or> d_lt D next' z \<and> d_lt D z current then (price, d_lt D z price)
            else (en_average_entry_price e, en_position_cost_known e))
         in Inr (e\<lparr>en_average_entry_price := avg, en_position_cost_known := known, en_accounting_position := next'\<rparr>)))"

definition apply_position_fill :: "'d decimal_lib \<Rightarrow> string \<Rightarrow> 'd \<Rightarrow> 'd \<Rightarrow> ('d, 't) engine \<Rightarrow>
    backtest_error + ('d \<times> 'd) \<times> ('d, 't) engine" where
  "apply_position_fill D side quantity price e =
     (let z = d_zero D; delta = (if side = ''sell'' then d_neg D quantity else quantity); current = en_accounting_position e
      in if d_val D current = 0 \<or> d_lt D z current \<and> d_lt D z delta \<or> d_lt D current z \<and> d_lt D delta z then
           rbind (extend_position D delta quantity price e) (\<lambda>e1. Inr ((z, z), e1))
         else
           let cq = dmin D quantity (d_abs D current)
           in rbind (realized_profit D cq price e) (\<lambda>realized.
              rbind (reduce_position D delta price e) (\<lambda>e1. Inr ((cq, realized), e1))))"

lemma extend_position_result:
  "extend_position D delta q p e = Inr e' \<Longrightarrow> \<exists>a k n. d_add D (en_accounting_position e) delta = Some n \<and>
     e' = e\<lparr>en_average_entry_price := a, en_position_cost_known := k, en_accounting_position := n\<rparr>"
  unfolding extend_position_def Let_def rbind_Inr_iff arith_Inr split_paired_Ex prod.case sum.inject by metis

lemma reduce_position_result:
  "reduce_position D delta p e = Inr e' \<Longrightarrow> \<exists>a k n. d_add D (en_accounting_position e) delta = Some n \<and>
     e' = e\<lparr>en_average_entry_price := a, en_position_cost_known := k, en_accounting_position := n\<rparr>"
  unfolding reduce_position_def Let_def rbind_Inr_iff arith_Inr case_prod_beta sum.inject by metis

lemma apply_position_fill_result:
  assumes "apply_position_fill D side q p e = Inr ((cq, realized), e')"
  shows "\<exists>a k n. d_add D (en_accounting_position e) (if side = ''sell'' then d_neg D q else q) = Some n \<and>
     e' = e\<lparr>en_average_entry_price := a, en_position_cost_known := k, en_accounting_position := n\<rparr>"
    and "cq = d_zero D \<and> realized = d_zero D \<or>
      d_val D (en_accounting_position e) \<noteq> 0 \<and> cq = dmin D q (d_abs D (en_accounting_position e)) \<and>
      realized_profit D cq p e = Inr realized"
proof -
  let ?delta = "if side = ''sell'' then d_neg D q else q"
  have "extend_position D ?delta q p e = Inr e' \<and> cq = d_zero D \<and> realized = d_zero D \<or>
      reduce_position D ?delta p e = Inr e' \<and> d_val D (en_accounting_position e) \<noteq> 0 \<and>
      cq = dmin D q (d_abs D (en_accounting_position e)) \<and> realized_profit D cq p e = Inr realized"
    using assms unfolding apply_position_fill_def Let_def by (auto simp only: result_simps prod.inject sum.inject split: if_splits)
  then show "\<exists>a k n. d_add D (en_accounting_position e) ?delta = Some n \<and>
     e' = e\<lparr>en_average_entry_price := a, en_position_cost_known := k, en_accounting_position := n\<rparr>"
    and "cq = d_zero D \<and> realized = d_zero D \<or>
      d_val D (en_accounting_position e) \<noteq> 0 \<and> cq = dmin D q (d_abs D (en_accounting_position e)) \<and>
      realized_profit D cq p e = Inr realized"
    using extend_position_result [of D ?delta q p e e'] reduce_position_result [of D ?delta p e e'] by blast+
qed

definition update_filled_order :: "'d decimal_lib \<Rightarrow> 'd \<Rightarrow> 'd \<Rightarrow> string \<Rightarrow> 'd order_record \<Rightarrow> backtest_error + 'd order_record" where
  "update_filled_order D quantity quote_quantity tm ord =
     rbind (arith (d_add D (or_filled ord) quantity) ''order filled overflow'') (\<lambda>filled.
     rbind (arith (d_sub D (or_remaining ord) quantity) ''order remaining underflow'') (\<lambda>remaining.
     rbind (arith (d_add D (or_filled_notional ord) quote_quantity) ''order filled_notional overflow'') (\<lambda>notional.
     rbind (arith (d_div D notional filled) ''order average_price division error'') (\<lambda>average.
     Inr (ord\<lparr>or_filled := filled, or_remaining := remaining, or_filled_notional := notional,
              or_average_price := average, or_filled_at := tm,
              or_status := (if d_lt D (d_zero D) remaining then Partially_Filled else Fully_Filled)\<rparr>)))))"

definition add_closing :: "'d decimal_lib \<Rightarrow> 'd \<Rightarrow> 'd \<Rightarrow> 'd order_record \<Rightarrow> backtest_error + 'd order_record" where
  "add_closing D cq realized ord =
     (if d_lt D (d_zero D) cq then
        rbind (arith (d_add D (or_closing_quantity ord) cq) ''closing_quantity overflow'') (\<lambda>quantity.
        rbind (arith (d_add D (or_closing_pnl ord) realized) ''closing_pnl overflow'') (\<lambda>pnl.
        Inr (ord\<lparr>or_closing_quantity := quantity, or_closing_pnl := pnl\<rparr>)))
      else Inr ord)"

definition fill_output_of :: "'d decimal_lib \<Rightarrow> 'd order_record \<Rightarrow> 'd fill_event \<Rightarrow> fill_output" where
  "fill_output_of D ord event =
     \<lparr>fo_trade_id = nat_text (unat (fv_trade_id event)), fo_order_id = nat_text (unat (or_order_id ord)),
      fo_client_order_id = or_client_order_id ord, fo_side = or_side ord,
      fo_price = to_storage_text D (fv_price event), fo_quantity = to_storage_text D (fv_quantity event),
      fo_quote_quantity = to_storage_text D (fv_quote_quantity event), fo_time = fv_time event,
      fo_maker = (or_order_type ord \<in> {''limit'', ''limit_maker'', ''stop_limit''}),
      fo_broker_fee = to_storage_text D (af_broker (fv_fees event)),
      fo_market_fee = to_storage_text D (af_market (fv_fees event)),
      fo_total_fee = to_storage_text D (af_total (fv_fees event)),
      fo_realized_pnl = to_storage_text D (fv_realized_pnl event)\<rparr>"

text \<open>The first statements of \<open>apply_fill\<close>: cash and base position of a trade.\<close>

definition trade_balances :: "'d decimal_lib \<Rightarrow> string \<Rightarrow> 'd \<Rightarrow> 'd \<Rightarrow> ('d, 't) engine \<Rightarrow> backtest_error + ('d, 't) engine" where
  "trade_balances D side quantity quote_quantity e =
     (if side = ''buy'' then
        rbind (arith (d_sub D (en_cash e) quote_quantity) ''cash underflow'') (\<lambda>cash.
        rbind (arith (d_add D (en_base_position e) quantity) ''base_position overflow'') (\<lambda>base.
        Inr (e\<lparr>en_cash := cash, en_base_position := base\<rparr>)))
      else if side = ''sell'' then
        rbind (arith (d_add D (en_cash e) quote_quantity) ''cash overflow'') (\<lambda>cash.
        rbind (arith (d_sub D (en_base_position e) quantity) ''base_position underflow'') (\<lambda>base.
        Inr (e\<lparr>en_cash := cash, en_base_position := base\<rparr>)))
      else Inl (Invalid_Input (''unsupported side '' @ side)))"

text \<open>\<open>apply_fill\<close> up to the entry in the list of fills: the state with the fill booked.\<close>

definition book_fill :: "'d decimal_lib \<Rightarrow> nat \<Rightarrow> 'd \<Rightarrow> 'd \<Rightarrow> string \<Rightarrow> ('d, 't) engine \<Rightarrow> backtest_error + ('d, 't) engine" where
  "book_fill D i quantity price tm e =
     (let ord = en_orders e ! i; side = or_side ord
      in rbind (arith (d_mul D quantity price) ''quote_quantity overflow'') (\<lambda>quote_quantity.
         rbind (trade_balances D side quantity quote_quantity e) (\<lambda>e1.
         rbind (apply_position_fill D side quantity price e1) (\<lambda>((cq, realized), e2).
         rbind (arith (d_add D (en_realized_pnl e2) realized) ''realized_pnl overflow'') (\<lambda>pnl.
         rbind (fee_apply D (or_order_id ord) side price quantity (en_fee_engine e2)) (\<lambda>(fees, fe).
         rbind (arith (d_sub D (en_cash e2) (af_total fees)) ''cash fee deduction underflow'') (\<lambda>cash.
         rbind (update_filled_order D quantity quote_quantity tm ord) (\<lambda>ord1.
         rbind (add_closing D cq realized ord1) (\<lambda>ord2.
         rbind (arith (checked_add_u64 (en_next_trade_id e2) 1) ''trade id overflow'') (\<lambda>trade_id.
         Inr ((update_order i (\<lambda>_. ord2) e2)
           \<lparr>en_realized_pnl := pnl, en_fee_engine := fe, en_cash := cash, en_next_trade_id := trade_id,
            en_fills := en_fills e2 @ [fill_output_of D ord2
              \<lparr>fv_trade_id = trade_id, fv_price = price, fv_quantity = quantity, fv_quote_quantity = quote_quantity,
               fv_time = tm, fv_fees = fees, fv_realized_pnl = realized\<rparr>]\<rparr>)))))))))))"

definition apply_fill :: "'d decimal_lib \<Rightarrow> nat \<Rightarrow> 'd \<Rightarrow> 'd \<Rightarrow> string \<Rightarrow> ('d, 't) engine \<Rightarrow> backtest_error + ('d, 't) engine" where
  "apply_fill D i quantity price tm e =
     rbind (book_fill D i quantity price tm e) (\<lambda>e1.
     let ord = en_orders e1 ! i;
         e2 = (if status_closed (or_status ord) then finalize_closing_order D i e1 else e1)
     in Inr (if or_oco_group_id ord \<noteq> [] \<and> d_lt D (d_zero D) (or_filled ord) then cancel_oco_siblings D i e2 else e2))"

text \<open>How much of order \<open>i\<close> can be filled now; \<open>None\<close> when a reduce-only order has nothing left to reduce.\<close>

definition fill_quantity :: "'d decimal_lib \<Rightarrow> ('d, 't) backtest_case \<Rightarrow> nat \<Rightarrow> ('d, 't) engine \<Rightarrow> backtest_error + 'd option" where
  "fill_quantity D bc i e =
     (let ord = en_orders e ! i; quantity = dmin D (or_remaining ord) (en_bar_budget e);
          step = (\<lambda>q. rbind (map_err Codec (truncate_decimal_to_increment D q (mk_quantity_step (bc_market bc)))) (\<lambda>q. Inr (Some q)))
      in if or_reduce_only ord then
           rbind (reduce_only_quantity D (or_side ord) e) (\<lambda>reducible.
           if d_le D reducible (d_zero D) then Inr None else step (dmin D quantity reducible))
         else step quantity)"

text \<open>The second half of \<open>try_fill\<close>: the order is matched at price \<open>p\<close>.\<close>

definition place_fill :: "'d decimal_lib \<Rightarrow> ('t \<Rightarrow> string) \<Rightarrow> ('d, 't) backtest_case \<Rightarrow> ('d, 't) candle \<Rightarrow> match_mode \<Rightarrow> nat \<Rightarrow>
    'd \<Rightarrow> ('d, 't) engine \<Rightarrow> backtest_error + ('d, 't) engine" where
  "place_fill D tx bc c mode i p e =
     rbind (fill_quantity D bc i e) (\<lambda>quantity.
     case quantity of
       None \<Rightarrow> Inr (cancel_order D i (event_time tx c mode) e)
     | Some q \<Rightarrow>
         if d_le D q (d_zero D) then
           Inr (warn_once (''liquidity-step|'' @ bc_symbol bc)
             (''conservative-bar-v1: liquidity budget for '' @ bc_symbol bc @
              '' is below tradable quantity step; order '' @ or_client_order_id (en_orders e ! i) @ '' remains pending'') e)
         else if d_lt D (d_zero D) (mk_min_quantity (bc_market bc)) \<and> d_lt D q (mk_min_quantity (bc_market bc)) then
           Inr (warn_once (''liquidity-min|'' @ bc_symbol bc)
             (''conservative-bar-v1: liquidity budget for '' @ bc_symbol bc @ '' is below min quantity '' @
              d_text D (mk_min_quantity (bc_market bc)) @ ''; order '' @ or_client_order_id (en_orders e ! i) @
              '' remains pending'') e)
         else
           rbind (apply_fill D i q p (event_time tx c mode) e) (\<lambda>e2.
           rbind (arith (d_sub D (en_bar_budget e2) q) ''current_bar_budget underflow'') (\<lambda>budget.
           Inr (e2\<lparr>en_bar_budget := budget\<rparr>))))"

definition try_fill :: "'d decimal_lib \<Rightarrow> ('t \<Rightarrow> string) \<Rightarrow> ('d, 't) backtest_case \<Rightarrow> ('d, 't) candle \<Rightarrow> match_mode \<Rightarrow> nat \<Rightarrow>
    ('d, 't) engine \<Rightarrow> backtest_error + ('d, 't) engine" where
  "try_fill D tx bc c mode i e =
     (let ord = en_orders e ! i; parent = or_parent_order_id ord
      in if \<not> open_order D ord then Inr e
         else if parent \<noteq> 0 \<and> \<not> list_ex (\<lambda>r. or_order_id r = parent \<and> or_status r = Fully_Filled) (en_orders e) then Inr e
         else if d_le D (en_bar_budget e) (d_zero D) then Inr e
         else
           rbind (match_price D bc i c mode e) (\<lambda>(price, e1).
           case price of
             None \<Rightarrow> Inr e1
           | Some p \<Rightarrow> if d_le D p (d_zero D) then Inr e1 else place_fill D tx bc c mode i p e1))"

section \<open>Submitting\<close>

definition new_order :: "'d decimal_lib \<Rightarrow> u64 \<Rightarrow> u64 \<Rightarrow> string \<Rightarrow> 'd order_intent \<Rightarrow> 'd order_record" where
  "new_order D order_id parent tm it =
     \<lparr>or_order_id = order_id, or_client_order_id = it_id it, or_side = it_side it,
      or_order_type = normalized_order_type (it_order_type it), or_quantity = it_quantity it,
      or_limit_price = it_limit_price it, or_stop_price = it_stop_price it, or_reduce_only = it_reduce_only it,
      or_parent_order_id = parent, or_oco_group_id = it_oco_group_id it, or_has_children = False,
      or_stop_triggered = False, or_remaining = it_quantity it, or_filled = d_zero D, or_filled_notional = d_zero D,
      or_average_price = d_zero D, or_status = New, or_submitted_at = tm, or_filled_at = [],
      or_closing_quantity = d_zero D, or_closing_pnl = d_zero D, or_closing_finalized = False\<rparr>"

text \<open>The new order enters the list of orders, the index of client ids and, unless deferred, the order of matching.\<close>

definition push_order :: "'d order_record \<Rightarrow> bool \<Rightarrow> ('d, 't) engine \<Rightarrow> ('d, 't) engine" where
  "push_order ord defer_matching e =
     (let i = length (en_orders e)
      in e\<lparr>en_next_order_id := or_order_id ord, en_orders := en_orders e @ [ord],
           en_order_index := bm_insert (or_client_order_id ord) i (en_order_index e),
           en_matching_order := en_matching_order e @ (if defer_matching then [] else [i])\<rparr>)"

definition bar_of :: "('d, 't) engine \<Rightarrow> backtest_error + ('d, 't) candle" where
  "bar_of e = ok_or (en_current_bar e) (Invalid_Input ''close execution requires a current bar'')"

definition submit_one :: "'d decimal_lib \<Rightarrow> ('t \<Rightarrow> string) \<Rightarrow> ('d, 't) backtest_case \<Rightarrow> 'd order_intent \<Rightarrow> u64 \<Rightarrow> bool \<Rightarrow>
    ('d, 't) engine \<Rightarrow> backtest_error + nat \<times> ('d, 't) engine" where
  "submit_one D tx bc it parent defer_matching e =
     rbind (validate_submit_intent D it) (\<lambda>_.
     if bm_get (en_order_index e) (it_id it) \<noteq> None
     then Inl (Invalid_Input (''duplicate order intent id '' @ it_id it))
     else
       rbind (arith (checked_add_u64 (en_next_order_id e) 1) ''order id overflow'') (\<lambda>order_id.
       let i = length (en_orders e);
           tm = (case en_current_bar e of None \<Rightarrow> [] | Some c \<Rightarrow> tx (cd_end c));
           e1 = push_order (new_order D order_id parent tm it) defer_matching e
       in if bc_process_orders_on_close bc \<and> \<not> defer_matching then
            rbind (bar_of e1) (\<lambda>c. rbind (try_fill D tx bc c ClosePoint i e1) (\<lambda>e2. Inr (i, e2)))
          else Inr (i, e1)))"

definition atomic_priority :: "('d, 't) engine \<Rightarrow> nat \<Rightarrow> nat" where
  "atomic_priority e i =
     (let ord = en_orders e ! i
      in if or_parent_order_id ord = 0 then 0 else if or_order_type ord = ''stop_market'' then 1 else 2)"

text \<open>The two loops of \<open>submit_atomic\<close>: the orders of the group, and the links to their parents.\<close>

definition submit_group :: "'d decimal_lib \<Rightarrow> ('t \<Rightarrow> string) \<Rightarrow> ('d, 't) backtest_case \<Rightarrow> 'd order_intent list \<Rightarrow>
    ('d, 't) engine \<Rightarrow> backtest_error + nat list \<times> ('d, 't) engine" where
  "submit_group D tx bc intents e =
     try_fold (\<lambda>(created, e) it. rbind (submit_one D tx bc it 0 True e) (\<lambda>(i, e1). Inr (created @ [i], e1))) ([], e) intents"

definition link_parent :: "('d, 't) engine \<Rightarrow> 'd order_intent \<times> nat \<Rightarrow> backtest_error + ('d, 't) engine" where
  "link_parent e p =
     (let (it, i) = p
      in if it_parent_id it = [] then Inr e
         else rbind (ok_or (bm_get (en_order_index e) (it_parent_id it)) (Invalid_Input ''atomic parent disappeared'')) (\<lambda>j.
              let e1 = update_order i (\<lambda>r. r\<lparr>or_parent_order_id := or_order_id (en_orders e ! j)\<rparr>) e
              in Inr (update_order j (\<lambda>r. r\<lparr>or_has_children := True\<rparr>) e1)))"

definition submit_atomic :: "'d decimal_lib \<Rightarrow> ('t \<Rightarrow> string) \<Rightarrow> ('d, 't) backtest_case \<Rightarrow> string \<Rightarrow> 'd order_intent list \<Rightarrow>
    ('d, 't) engine \<Rightarrow> backtest_error + ('d, 't) engine" where
  "submit_atomic D tx bc group_id intents e =
     (if group_id = [] \<or> length intents < 2
      then Inl (Invalid_Input ''atomic group requires an id and at least two orders'')
      else case List.find (\<lambda>it. it_parent_id it \<noteq> [] \<and> it_parent_id it \<notin> set (map it_id intents)) intents of
        Some it \<Rightarrow> Inl (Invalid_Input (''atomic group '' @ group_id @ '' child '' @ it_id it @ '' has no parent '' @ it_parent_id it))
      | None \<Rightarrow>
          rbind (submit_group D tx bc intents e) (\<lambda>(created, e1).
          rbind (try_fold link_parent e1 (zip intents created)) (\<lambda>e2.
          let sorted_ids = sort_key (atomic_priority e2) created;
              e3 = e2\<lparr>en_matching_order := en_matching_order e2 @ sorted_ids\<rparr>
          in if bc_process_orders_on_close bc then
               rbind (bar_of e3) (\<lambda>c. try_fold (\<lambda>e i. try_fill D tx bc c ClosePoint i e) e3 sorted_ids)
             else Inr e3)))"

section \<open>Bars\<close>

definition apply_intent :: "'d decimal_lib \<Rightarrow> ('t \<Rightarrow> string) \<Rightarrow> ('d, 't) backtest_case \<Rightarrow> 'd order_intent list \<Rightarrow>
    ('d, 't) engine \<Rightarrow> 'd order_intent \<Rightarrow> backtest_error + ('d, 't) engine" where
  "apply_intent D tx bc intents e it =
     (if it_action it = ''cancel'' then Inr (cancel_by_target_id D tx (it_target_id it) e)
      else if it_atomic_group_id it = [] then rbind (submit_one D tx bc it 0 False e) (\<lambda>r. Inr (snd r))
      else let (new, groups) = bs_insert (it_atomic_group_id it) (en_atomic_groups e); e1 = e\<lparr>en_atomic_groups := groups\<rparr>
           in if new then submit_atomic D tx bc (it_atomic_group_id it)
                (filter (\<lambda>other. it_atomic_group_id other = it_atomic_group_id it) intents) e1
              else Inr e1)"

definition apply_bar_intents :: "'d decimal_lib \<Rightarrow> ('t \<Rightarrow> string) \<Rightarrow> ('d, 't) backtest_case \<Rightarrow> nat \<Rightarrow>
    ('d, 't) engine \<Rightarrow> backtest_error + ('d, 't) engine" where
  "apply_bar_intents D tx bc n e =
     (let intents = filter (\<lambda>it. it_bar_index it = n) (bc_intents bc)
      in try_fold (apply_intent D tx bc intents) e intents)"

definition record_equity :: "'d decimal_lib \<Rightarrow> ('t \<Rightarrow> string) \<Rightarrow> ('d, 't) candle \<Rightarrow> ('d, 't) engine \<Rightarrow>
    backtest_error + ('d, 't) engine" where
  "record_equity D tx c e =
     rbind (arith (d_mul D (en_base_position e) (cd_close c)) ''position notional overflow'') (\<lambda>position_val.
     rbind (arith (d_add D (en_cash e) position_val) ''equity overflow'') (\<lambda>equity.
     Inr (e\<lparr>en_equity_curve := en_equity_curve e @ [\<lparr>eq_time = tx (cd_end c), eq_equity = to_storage_text D equity\<rparr>]\<rparr>)))"

text \<open>The loop over the resting orders ends when the volume of the bar is used up.\<close>

fun match_orders :: "'d decimal_lib \<Rightarrow> ('t \<Rightarrow> string) \<Rightarrow> ('d, 't) backtest_case \<Rightarrow> ('d, 't) candle \<Rightarrow> nat list \<Rightarrow>
    ('d, 't) engine \<Rightarrow> backtest_error + ('d, 't) engine" where
  "match_orders D tx bc c [] e = Inr e"
| "match_orders D tx bc c (i # is) e =
     rbind (try_fill D tx bc c FullBar i e) (\<lambda>e1.
     if d_le D (en_bar_budget e1) (d_zero D) then Inr e1 else match_orders D tx bc c is e1)"

definition match_bar :: "'d decimal_lib \<Rightarrow> ('t \<Rightarrow> string) \<Rightarrow> ('d, 't) backtest_case \<Rightarrow> ('d, 't) candle \<Rightarrow>
    ('d, 't) engine \<Rightarrow> backtest_error + ('d, 't) engine" where
  "match_bar D tx bc c e =
     (if d_le D (cd_volume c) (d_zero D) \<and> has_pending_orders D e then
        Inr (warn_once (''zero-volume|'' @ bc_symbol bc)
          (''conservative-bar-v1: '' @ bc_symbol bc @ '' bar ending '' @ tx (cd_end c) @
           '' has no positive volume; pending orders cannot fill on this bar'') e)
      else match_orders D tx bc c (en_matching_order e) e)"

definition consume_bar :: "'d decimal_lib \<Rightarrow> ('t \<Rightarrow> string) \<Rightarrow> ('d, 't) backtest_case \<Rightarrow> ('d, 't) candle \<Rightarrow>
    ('d, 't) engine \<Rightarrow> backtest_error + ('d, 't) engine" where
  "consume_bar D tx bc c e =
     rbind (arith (d_mul D (cd_volume c) (d_new D 1 1)) ''current_bar_budget overflow'') (\<lambda>budget.
     rbind (match_bar D tx bc c (e\<lparr>en_current_bar := Some c, en_bar_budget := budget\<rparr>)) (\<lambda>e1.
     record_equity D tx c e1))"

text \<open>The loop of \<open>run_case\<close>: how it ended, the number of bars processed, and the engine.\<close>

fun run_bars :: "'d decimal_lib \<Rightarrow> ('t \<Rightarrow> string) \<Rightarrow> ('d, 't) backtest_case \<Rightarrow> nat \<Rightarrow> ('d, 't) candle list \<Rightarrow>
    ('d, 't) engine \<Rightarrow> backtest_error + run_status \<times> nat \<times> ('d, 't) engine" where
  "run_bars D tx bc n [] e = Inr (Completed, n, e)"
| "run_bars D tx bc n (c # cs) e =
     (if bc_cancel_before_bar bc = Some n then Inr (Run_Cancelled, n, e)
      else rbind (consume_bar D tx bc c e) (\<lambda>e1.
           rbind (apply_bar_intents D tx bc n e1) (\<lambda>e2. run_bars D tx bc (Suc n) cs e2)))"

end
