(* ===== verification/Backtest_Invariants.thy ===== *)
theory Backtest_Invariants
  imports Backtest_Engine
begin

text \<open>
  How a law of the engine is proved once and for all: the locales \<open>match_invariant\<close> and
  \<open>engine_invariant\<close> ask that a predicate survives the elementary changes of the state
  (a warning, a triggered stop, one cancelled order, one booked fill, a submitted order, a link
  to a parent), and show that it then survives the whole replay.
\<close>

section \<open>What the operations leave alone\<close>

text \<open>The part of the state that matching and cancelling do not touch.\<close>

definition shape :: "('d, 't) engine \<Rightarrow>
    nat \<times> nat list \<times> (string, nat) bmap \<times> u64 \<times> string list \<times> ('d, 't) candle option \<times> equity_point list" where
  "shape e = (length (en_orders e), en_matching_order e, en_order_index e, en_next_order_id e, en_atomic_groups e,
              en_current_bar e, en_equity_curve e)"

lemma shape_update_order [simp]: "shape (update_order i f e) = shape e"
  by (simp add: shape_def update_order_def)

lemma shape_warn [simp]: "shape (warn_once k m e) = shape e"
  by (simp add: shape_def warn_once_def Let_def split: prod.splits)

lemma shape_finalize [simp]: "shape (finalize_closing_order D i e) = shape e"
  by (simp add: finalize_closing_order_def Let_def) (simp add: shape_def update_order_def)

lemma shape_cancelled [simp]: "shape (mark_cancelled D tm i e) = shape e"
  by (simp add: mark_cancelled_def)

lemma shape_position:
  assumes "apply_position_fill D side q p e = Inr (r, e')"
  shows "shape e' = shape e" and "en_orders e' = en_orders e"
  using apply_position_fill_result(1) [of D side q p e "fst r" "snd r" e'] assms by (auto simp: shape_def)

lemma shape_balances: "trade_balances D side q n e = Inr e' \<Longrightarrow> shape e' = shape e \<and> en_orders e' = en_orders e"
  by (auto simp: trade_balances_def result_simps shape_def split: if_splits)

lemma book_fill_steps:
  assumes "book_fill D i q p tm e = Inr e'"
  obtains quote_quantity e1 cq realized e2 pnl fees fe cash ord1 ord2 trade_id where
    "d_mul D q p = Some quote_quantity"
    "trade_balances D (or_side (en_orders e ! i)) q quote_quantity e = Inr e1"
    "apply_position_fill D (or_side (en_orders e ! i)) q p e1 = Inr ((cq, realized), e2)"
    "d_add D (en_realized_pnl e2) realized = Some pnl"
    "fee_apply D (or_order_id (en_orders e ! i)) (or_side (en_orders e ! i)) p q (en_fee_engine e2) = Inr (fees, fe)"
    "d_sub D (en_cash e2) (af_total fees) = Some cash"
    "update_filled_order D q quote_quantity tm (en_orders e ! i) = Inr ord1"
    "add_closing D cq realized ord1 = Inr ord2"
    "checked_add_u64 (en_next_trade_id e2) 1 = Some trade_id"
    "e' = (update_order i (\<lambda>_. ord2) e2)
       \<lparr>en_realized_pnl := pnl, en_fee_engine := fe, en_cash := cash, en_next_trade_id := trade_id,
        en_fills := en_fills e2 @ [fill_output_of D ord2
          \<lparr>fv_trade_id = trade_id, fv_price = p, fv_quantity = q, fv_quote_quantity = quote_quantity,
           fv_time = tm, fv_fees = fees, fv_realized_pnl = realized\<rparr>]\<rparr>"
proof -
  show ?thesis
    using assms unfolding book_fill_def Let_def rbind_Inr_iff arith_Inr split_paired_Ex prod.case
    by (elim exE conjE) (rule that, assumption+, rule sym, simp only: sum.inject)
qed

lemma shape_book:
  assumes "book_fill D i q p tm e = Inr e'"
  shows "shape e' = shape e"
proof -
  have keep: "shape (x\<lparr>en_realized_pnl := a, en_fee_engine := f, en_cash := c, en_next_trade_id := t, en_fills := l\<rparr>) = shape x"
    for x :: "('a, 'b) engine" and a f c t l
    by (simp add: shape_def)
  show ?thesis
    using assms
  proof (rule book_fill_steps)
    fix quote_quantity e1 cq realized e2 pnl fees fe cash ord1 ord2 trade_id
    assume "trade_balances D (or_side (en_orders e ! i)) q quote_quantity e = Inr e1"
      and "apply_position_fill D (or_side (en_orders e ! i)) q p e1 = Inr ((cq, realized), e2)"
      and e': "e' = (update_order i (\<lambda>_. ord2) e2)
       \<lparr>en_realized_pnl := pnl, en_fee_engine := fe, en_cash := cash, en_next_trade_id := trade_id,
        en_fills := en_fills e2 @ [fill_output_of D ord2
          \<lparr>fv_trade_id = trade_id, fv_price = p, fv_quantity = q, fv_quote_quantity = quote_quantity,
           fv_time = tm, fv_fees = fees, fv_realized_pnl = realized\<rparr>]\<rparr>"
    then show "shape e' = shape e"
      unfolding e' keep using shape_balances shape_position(1) by fastforce
  qed
qed

text \<open>What \<open>try_fill\<close> has established when it books a fill.\<close>

definition fill_ready :: "'d decimal_lib \<Rightarrow> nat \<Rightarrow> 'd \<Rightarrow> 'd \<Rightarrow> ('d, 't) engine \<Rightarrow> bool" where
  "fill_ready D i q p e \<longleftrightarrow> i < length (en_orders e) \<and>
     (let ord = en_orders e ! i; parent = or_parent_order_id ord
      in 0 < d_val D q \<and> 0 < d_val D p \<and> d_le D q (or_remaining ord) \<and> d_le D q (en_bar_budget e) \<and>
         (parent = 0 \<or> (\<exists>r\<in>set (en_orders e). or_order_id r = parent \<and> or_status r = Fully_Filled)) \<and>
         (or_reduce_only ord \<longrightarrow> (\<exists>r. reduce_only_quantity D (or_side ord) e = Inr r \<and> d_le D q r)))"

text \<open>A booked fill with what follows it for the order itself: the budget, and the statistics when it is complete.\<close>

definition settle_fill :: "'d decimal_lib \<Rightarrow> nat \<Rightarrow> 'd \<Rightarrow> ('d, 't) engine \<Rightarrow> ('d, 't) engine" where
  "settle_fill D i budget e =
     (if status_closed (or_status (en_orders e ! i)) then finalize_closing_order D i e else e)\<lparr>en_bar_budget := budget\<rparr>"

text \<open>The budget of the bar takes no part in closing and cancelling.\<close>

lemma finalize_budget: "finalize_closing_order D i (e\<lparr>en_bar_budget := b\<rparr>) = (finalize_closing_order D i e)\<lparr>en_bar_budget := b\<rparr>"
  by (simp add: finalize_closing_order_def update_order_def Let_def)

lemma mark_cancelled_budget: "mark_cancelled D tm i (e\<lparr>en_bar_budget := b\<rparr>) = (mark_cancelled D tm i e)\<lparr>en_bar_budget := b\<rparr>"
proof -
  have "update_order i f (e\<lparr>en_bar_budget := b\<rparr>) = (update_order i f e)\<lparr>en_bar_budget := b\<rparr>" for f
    by (simp add: update_order_def)
  then show ?thesis by (simp add: mark_cancelled_def finalize_budget)
qed

lemma cancel_orders_budget: "cancel_orders D tm js (e\<lparr>en_bar_budget := b\<rparr>) = (cancel_orders D tm js e)\<lparr>en_bar_budget := b\<rparr>"
proof (induction D tm js e rule: cancel_orders.induct)
  case (2 D tm i todo e)
  have "dependents_of D i (e'\<lparr>en_bar_budget := b\<rparr>) = dependents_of D i e'" for e' :: "('a, 'b) engine"
    by (simp add: dependents_of_def)
  with 2 show ?case by (simp add: mark_cancelled_budget Let_def)
qed simp

lemma cancel_target_cases:
  "cancel_by_target_id D tx target e = e \<or> (\<exists>tm i. cancel_by_target_id D tx target e = cancel_orders D tm [i] e)"
  unfolding cancel_by_target_id_def Let_def cancel_order_def by (auto simp del: cancel_orders.simps split: option.split)

lemma fold_cancel: "fold (\<lambda>j e. cancel_order D j tm e) js e = cancel_orders D tm js e"
proof (induction js arbitrary: e)
  case (Cons j js)
  then show ?case using cancel_orders_append [of D tm "[j]" js e] by (simp add: cancel_order_def)
qed simp

lemma cancel_oco_orders: "cancel_oco_siblings D i e = cancel_orders D (or_filled_at (en_orders e ! i)) (oco_siblings D i e) e"
  by (simp add: cancel_oco_siblings_def fold_cancel)

lemma cancel_oco_budget: "cancel_oco_siblings D i (e\<lparr>en_bar_budget := b\<rparr>) = (cancel_oco_siblings D i e)\<lparr>en_bar_budget := b\<rparr>"
  by (simp add: cancel_oco_orders cancel_orders_budget oco_siblings_def)

lemma cancel_orders_keeps_budget: "en_bar_budget (cancel_orders D tm js e) = en_bar_budget e"
  using arg_cong [OF cancel_orders_budget [where b = "en_bar_budget e" and e = e], of en_bar_budget] by simp

lemma book_fill_budget: "book_fill D i q p tm e = Inr e' \<Longrightarrow> en_bar_budget e' = en_bar_budget e"
  by (erule book_fill_steps, drule apply_position_fill_result(1))
    (auto simp: trade_balances_def update_order_def result_simps split: if_splits)

text \<open>A fill and the budget it uses, as one settled fill and the cancellation of its siblings.\<close>

definition with_oco :: "'d decimal_lib \<Rightarrow> nat \<Rightarrow> 'd order_record \<Rightarrow> ('d, 't) engine \<Rightarrow> ('d, 't) engine" where
  "with_oco D i ord e = (if or_oco_group_id ord \<noteq> [] \<and> d_lt D (d_zero D) (or_filled ord) then cancel_oco_siblings D i e else e)"

lemma apply_fill_settled:
  fixes e :: "('d, 't) engine"
  assumes "apply_fill D i q p tm e = Inr e2"
  shows "\<exists>e1. book_fill D i q p tm e = Inr e1 \<and> en_bar_budget e2 = en_bar_budget e \<and>
    (\<forall>b. e2\<lparr>en_bar_budget := b\<rparr> = with_oco D i (en_orders e1 ! i) (settle_fill D i b e1))"
proof -
  obtain e1 where e1: "book_fill D i q p tm e = Inr e1"
    and e2: "e2 = with_oco D i (en_orders e1 ! i)
      (if status_closed (or_status (en_orders e1 ! i)) then finalize_closing_order D i e1 else e1)"
    using assms unfolding apply_fill_def Let_def with_oco_def rbind_Inr_iff sum.inject by metis
  have "(with_oco D i r x)\<lparr>en_bar_budget := b\<rparr> = with_oco D i r (x\<lparr>en_bar_budget := b\<rparr>)" for r b and x :: "('d, 't) engine"
    by (simp add: with_oco_def cancel_oco_budget)
  moreover have "en_bar_budget e2 = en_bar_budget e"
    using book_fill_budget [OF e1] unfolding e2 with_oco_def cancel_oco_orders
    by (simp add: cancel_orders_keeps_budget) (simp add: finalize_closing_order_def Let_def update_order_def)
  ultimately show ?thesis
    using e1 e2 unfolding settle_fill_def by blast
qed

section \<open>Invariants of matching\<close>

text \<open>The first three tests of \<open>try_fill\<close>.\<close>

definition fillable :: "'d decimal_lib \<Rightarrow> nat \<Rightarrow> ('d, 't) engine \<Rightarrow> bool" where
  "fillable D i e \<longleftrightarrow>
     (let ord = en_orders e ! i; parent = or_parent_order_id ord
      in open_order D ord \<and> (parent = 0 \<or> list_ex (\<lambda>r. or_order_id r = parent \<and> or_status r = Fully_Filled) (en_orders e)) \<and>
         d_lt D (d_zero D) (en_bar_budget e))"

lemma try_fill_unfold:
  "try_fill D tx bc c mode i e =
     (if fillable D i e then
        rbind (match_price D bc i c mode e) (\<lambda>(price, e1).
        case price of None \<Rightarrow> Inr e1 | Some p \<Rightarrow> if d_le D p (d_zero D) then Inr e1 else place_fill D tx bc c mode i p e1)
      else Inr e)"
  by (auto simp: try_fill_def fillable_def Let_def not_le)

locale match_invariant =
  fixes D :: "'d decimal_lib" and inv :: "('d, 't) engine \<Rightarrow> bool"
  assumes decimals: "decimal_order D"
    and inv_warn: "inv e \<Longrightarrow> inv (warn_once key message e)"
    and inv_trigger: "inv e \<Longrightarrow> i < length (en_orders e) \<Longrightarrow> inv (update_order i (\<lambda>r. r\<lparr>or_stop_triggered := True\<rparr>) e)"
    and inv_cancel: "inv e \<Longrightarrow> i < length (en_orders e) \<Longrightarrow> open_order D (en_orders e ! i) \<Longrightarrow> inv (mark_cancelled D tm i e)"
    and inv_fill: "inv e \<Longrightarrow> fill_ready D i q p e \<Longrightarrow> book_fill D i q p tm e = Inr e1 \<Longrightarrow>
      d_sub D (en_bar_budget e) q = Some b \<Longrightarrow> inv (settle_fill D i b e1)"
begin

lemma inv_cancels: "inv e \<Longrightarrow> inv (cancel_orders D tm js e)"
proof (induction D' \<equiv> D tm js e rule: cancel_orders.induct)
  case (2 tm i todo e)
  show ?case
  proof (cases "i < length (en_orders e) \<and> open_order D (en_orders e ! i)")
    case True
    with 2 show ?thesis by (simp add: Let_def inv_cancel)
  next
    case False
    with 2 show ?thesis by auto
  qed
qed simp

lemma inv_oco: "inv e \<Longrightarrow> inv (with_oco D i r e)"
  by (simp add: with_oco_def cancel_oco_orders inv_cancels)

lemma match_price_inv:
  assumes "match_price D bc i c mode e = Inr (price, e')" and "inv e" and "i < length (en_orders e)"
  shows "inv e'" and "price \<noteq> None \<Longrightarrow> e' = e"
  using assms inv_trigger [OF assms(2,3)] inv_warn [OF assms(2)]
  by (auto simp: match_price_def Let_def result_simps split: if_splits option.splits)

lemma fill_quantity_ready:
  assumes "fill_quantity D bc i e = Inr (Some q)" and "open_order D (en_orders e ! i)"
    and "d_lt D (d_zero D) (en_bar_budget e)"
  shows "d_le D q (or_remaining (en_orders e ! i)) \<and> d_le D q (en_bar_budget e) \<and>
    (or_reduce_only (en_orders e ! i) \<longrightarrow>
       (\<exists>r. reduce_only_quantity D (or_side (en_orders e ! i)) e = Inr r \<and> d_le D q r))"
proof -
  let ?ord = "en_orders e ! i" and ?step = "mk_quantity_step (bc_market bc)"
  have nonneg: "0 \<le> d_val D (dmin D (or_remaining ?ord) (en_bar_budget e))"
    using assms(2,3) by (simp add: open_order_def decimal_order.val_zero [OF decimals])
  have bounds: "d_le D q q'" if "truncate_decimal_to_increment D q' ?step = Inr q" "0 \<le> d_val D q'" for q'
    using decimal_order.truncate_bounds(2) [OF decimals that] .
  consider "\<not> or_reduce_only ?ord" "truncate_decimal_to_increment D (dmin D (or_remaining ?ord) (en_bar_budget e)) ?step = Inr q"
    | r where "or_reduce_only ?ord" "reduce_only_quantity D (or_side ?ord) e = Inr r" "d_lt D (d_zero D) r"
      "truncate_decimal_to_increment D (dmin D (dmin D (or_remaining ?ord) (en_bar_budget e)) r) ?step = Inr q"
    using assms(1) by (auto simp: fill_quantity_def Let_def result_simps not_le split: if_splits)
  then show ?thesis
  proof cases
    case 1
    then show ?thesis using bounds nonneg by fastforce
  next
    case 2
    have "0 \<le> d_val D r" using 2(3) by (simp add: decimal_order.val_zero [OF decimals])
    then have "d_le D q (dmin D (dmin D (or_remaining ?ord) (en_bar_budget e)) r)"
      using nonneg by (intro bounds [OF 2(4)]) simp
    then show ?thesis using 2(2) by simp
  qed
qed

lemma place_fill_inv:
  assumes "place_fill D tx bc c mode i p e = Inr e'" and "inv e" and "i < length (en_orders e)"
    and "\<And>q. fill_quantity D bc i e = Inr (Some q) \<Longrightarrow> d_lt D (d_zero D) q \<Longrightarrow> fill_ready D i q p e"
  shows "inv e'"
proof -
  obtain quantity where fq: "fill_quantity D bc i e = Inr quantity"
    using assms(1) by (auto simp: place_fill_def result_simps)
  show ?thesis
  proof (cases quantity)
    case None
    then show ?thesis using assms(1) fq inv_cancels [OF assms(2), of "event_time tx c mode" "[i]"]
      by (simp add: place_fill_def cancel_order_def del: cancel_orders.simps)
  next
    case (Some q)
    show ?thesis
    proof (cases "d_le D q (d_zero D) \<or>
        d_lt D (d_zero D) (mk_min_quantity (bc_market bc)) \<and> d_lt D q (mk_min_quantity (bc_market bc))")
      case True
      then show ?thesis
        using assms(1) fq Some inv_warn [OF assms(2)] unfolding place_fill_def by (auto split: if_splits)
    next
      case False
      then obtain e2 b where fill: "apply_fill D i q p (event_time tx c mode) e = Inr e2"
        and b: "d_sub D (en_bar_budget e2) q = Some b" and e': "e' = e2\<lparr>en_bar_budget := b\<rparr>"
        using assms(1) fq Some unfolding place_fill_def by (auto simp: result_simps)
      obtain e1 where e1: "book_fill D i q p (event_time tx c mode) e = Inr e1" and "en_bar_budget e2 = en_bar_budget e"
        and "e' = with_oco D i (en_orders e1 ! i) (settle_fill D i b e1)"
        using apply_fill_settled [OF fill] e' by blast
      moreover have "fill_ready D i q p e" using assms(4) fq Some False by (auto simp: not_le)
      ultimately show ?thesis using inv_fill [OF assms(2) _ e1] b inv_oco by simp
    qed
  qed
qed

lemma try_fill_inv:
  assumes "try_fill D tx bc c mode i e = Inr e'" and "inv e" and i: "i < length (en_orders e)"
  shows "inv e'"
proof -
  have zero: "d_val D (d_zero D) = 0" by (rule decimal_order.val_zero [OF decimals])
  show ?thesis
  proof (cases "fillable D i e")
    case False
    then show ?thesis using assms(1,2) by (simp add: try_fill_unfold)
  next
    case True
    then obtain price e1 where mp: "match_price D bc i c mode e = Inr (price, e1)"
      using assms(1) by (auto simp: try_fill_unfold result_simps)
    note e1 = match_price_inv [OF mp assms(2) i]
    have rest: "(case price of None \<Rightarrow> Inr e1 | Some p \<Rightarrow> if d_le D p (d_zero D) then Inr e1 else place_fill D tx bc c mode i p e1) = Inr e'"
      using assms(1) mp True by (simp add: try_fill_unfold)
    show ?thesis
    proof (cases "price = None \<or> d_le D (the price) (d_zero D)")
      case True
      then show ?thesis using rest e1(1) by (cases price) auto
    next
      case False
      then obtain p where p: "price = Some p" "d_lt D (d_zero D) p" "e1 = e" using e1(2) by auto
      then have place: "place_fill D tx bc c mode i p e = Inr e'" using rest by simp
      show ?thesis
      proof (rule place_fill_inv [OF place assms(2) i])
        show "fill_ready D i q p e" if "fill_quantity D bc i e = Inr (Some q)" "d_lt D (d_zero D) q" for q
          using fill_quantity_ready [OF that(1)] True that(2) p(2) i zero
          unfolding fillable_def fill_ready_def Let_def list_ex_iff by simp
      qed
    qed
  qed
qed

end

text \<open>Matching and cancelling keep the shape of the state, for any decimals.\<close>

lemma shape_budget [simp]: "shape (e\<lparr>en_bar_budget := b\<rparr>) = shape e"
  by (simp add: shape_def)

lemma shape_settled: "shape (settle_fill D i b e) = shape e"
  by (simp add: settle_fill_def)

lemma shape_match: "decimal_order D \<Longrightarrow> match_invariant D (\<lambda>e. shape e = s)"
  unfolding match_invariant_def by (simp add: shape_book shape_settled)

lemma consume_bar_steps:
  assumes "consume_bar D tx bc c e = Inr e'"
  obtains budget e1 e2 where "d_mul D (cd_volume c) (d_new D 1 1) = Some budget"
    and "e1 = e\<lparr>en_current_bar := Some c, en_bar_budget := budget\<rparr>"
    and "(\<exists>k m. e2 = warn_once k m e1) \<or> match_orders D tx bc c (en_matching_order e1) e1 = Inr e2"
    and "record_equity D tx c e2 = Inr e'"
proof -
  have bar: "(\<exists>k m. e2 = warn_once k m e1) \<or> match_orders D tx bc c (en_matching_order e1) e1 = Inr e2"
    if "match_bar D tx bc c e1 = Inr e2" for e1 e2
    using that unfolding match_bar_def by (cases "d_le D (cd_volume c) (d_zero D) \<and> has_pending_orders D e1") auto
  from assms show ?thesis
    unfolding consume_bar_def rbind_Inr_iff arith_Inr by (elim exE conjE) (rule that [OF _ refl bar])
qed

context match_invariant
begin

lemma shape_try_fill: "try_fill D tx bc c mode i e = Inr e' \<Longrightarrow> i < length (en_orders e) \<Longrightarrow> shape e' = shape e"
  by (erule match_invariant.try_fill_inv [OF shape_match [OF decimals] _ refl])

lemma match_orders_keep:
  "match_orders D tx bc c is e = Inr e' \<Longrightarrow> inv e \<Longrightarrow> \<forall>i\<in>set is. i < length (en_orders e) \<Longrightarrow> inv e' \<and> shape e' = shape e"
proof (induction "is" arbitrary: e)
  case (Cons i "is")
  then obtain e1 where e1: "try_fill D tx bc c FullBar i e = Inr e1"
    and rest: "e' = e1 \<or> match_orders D tx bc c is e1 = Inr e'"
    by (auto simp: result_simps split: if_splits)
  have "inv e1" and shape: "shape e1 = shape e"
    using try_fill_inv [OF e1] shape_try_fill [OF e1] Cons.prems by simp_all
  then show ?case using rest Cons.IH [of e1] Cons.prems(3) by (auto simp: shape_def)
qed simp

end

text \<open>Indices of orders are within the list of orders.\<close>

definition engine_wf :: "('d, 't) engine \<Rightarrow> bool" where
  "engine_wf e \<longleftrightarrow> (\<forall>i\<in>set (en_matching_order e). i < length (en_orders e)) \<and>
     (\<forall>k i. bm_get (en_order_index e) k = Some i \<longrightarrow> i < length (en_orders e))"

lemma engine_wf_shape: "shape e' = shape e \<Longrightarrow> engine_wf e' = engine_wf e"
  by (simp add: engine_wf_def shape_def)

lemma engine_wf_push: "engine_wf e \<Longrightarrow> engine_wf (push_order r defer e)"
  by (auto simp: engine_wf_def push_order_def Let_def less_Suc_eq)

lemma push_order_simps [simp]:
  "length (en_orders (push_order r d e)) = Suc (length (en_orders e))"
  "en_orders (push_order r d e) = en_orders e @ [r]"
  by (simp_all add: push_order_def Let_def)

section \<open>Invariants of a replay\<close>

locale engine_invariant = match_invariant D inv for D :: "'d decimal_lib" and inv :: "('d, 't) engine \<Rightarrow> bool" +
  assumes inv_push: "inv e \<Longrightarrow> validate_submit_intent D it = Inr () \<Longrightarrow> bm_get (en_order_index e) (it_id it) = None \<Longrightarrow>
      checked_add_u64 (en_next_order_id e) 1 = Some n \<Longrightarrow> inv (push_order (new_order D n 0 tm it) d e)"
    and inv_link: "inv e \<Longrightarrow> i < length (en_orders e) \<Longrightarrow> j < length (en_orders e) \<Longrightarrow> or_status (en_orders e ! i) = New \<Longrightarrow>
      inv (update_order i (\<lambda>r. r\<lparr>or_parent_order_id := or_order_id (en_orders e ! j)\<rparr>) e)"
    and inv_children: "inv e \<Longrightarrow> j < length (en_orders e) \<Longrightarrow> inv (update_order j (\<lambda>r. r\<lparr>or_has_children := True\<rparr>) e)"
    and inv_frame: "inv e \<Longrightarrow> inv (e\<lparr>en_matching_order := m, en_atomic_groups := g, en_current_bar := c,
      en_bar_budget := b, en_equity_curve := q\<rparr>)"
begin

definition good :: "('d, 't) engine \<Rightarrow> bool" where
  "good e \<longleftrightarrow> engine_wf e \<and> inv e"

lemma good_try_fill: "try_fill D tx bc c mode i e = Inr e' \<Longrightarrow> good e \<Longrightarrow> i < length (en_orders e) \<Longrightarrow> good e'"
  using shape_try_fill engine_wf_shape try_fill_inv unfolding good_def by metis

lemma good_frame: "good e \<Longrightarrow> \<forall>i\<in>set m. i < length (en_orders e) \<Longrightarrow>
    good (e\<lparr>en_matching_order := m, en_atomic_groups := g, en_current_bar := c, en_bar_budget := b, en_equity_curve := q\<rparr>)"
  by (simp add: good_def inv_frame engine_wf_def)

lemma good_cancels: "good e \<Longrightarrow> good (cancel_orders D tm js e)"
  using inv_cancels match_invariant.inv_cancels [OF shape_match [OF decimals]] engine_wf_shape unfolding good_def by metis

lemma push_inv:
  assumes "good e" and "validate_submit_intent D it = Inr ()" and "bm_get (en_order_index e) (it_id it) = None"
    and "checked_add_u64 (en_next_order_id e) 1 = Some n"
  shows "good (push_order (new_order D n 0 tm it) d e)"
  using assms inv_push engine_wf_push unfolding good_def by blast

text \<open>A submitted order is pushed and, when orders are processed on close, matched.\<close>

lemma submit_one_inv:
  assumes "submit_one D tx bc it 0 d e = Inr (i, e')" and "good e"
  shows "good e' \<and> i < length (en_orders e') \<and>
    (d \<longrightarrow> (\<exists>n tm. e' = push_order (new_order D n 0 tm it) d e \<and> i = length (en_orders e)))"
proof -
  obtain n tm e1 where valid: "validate_submit_intent D it = Inr ()" "bm_get (en_order_index e) (it_id it) = None"
      "checked_add_u64 (en_next_order_id e) 1 = Some n" and e1: "e1 = push_order (new_order D n 0 tm it) d e"
    and i: "i = length (en_orders e)"
    and cases: "e' = e1 \<or> \<not> d \<and> (\<exists>c. try_fill D tx bc c ClosePoint i e1 = Inr e')"
    using assms(1) by (auto simp: submit_one_def Let_def result_simps split: if_splits)
  have "good e1" using push_inv [OF assms(2) valid] e1 by simp
  moreover have len: "i < length (en_orders e1)" by (simp add: e1 i)
  moreover have "good e'" "length (en_orders e') = length (en_orders e1)"
    if "try_fill D tx bc c ClosePoint i e1 = Inr e'" for c
    using good_try_fill [OF that \<open>good e1\<close> len] shape_try_fill [OF that len] by (simp_all add: shape_def)
  ultimately show ?thesis using cases e1 i by metis
qed

text \<open>The orders of an atomic group exist and are untouched until the whole group is matched.\<close>

definition fresh :: "nat list \<Rightarrow> ('d, 't) engine \<Rightarrow> bool" where
  "fresh created e \<longleftrightarrow> (\<forall>i\<in>set created. i < length (en_orders e) \<and> or_status (en_orders e ! i) = New)"

lemma submit_group_inv:
  assumes "submit_group D tx bc intents e = Inr (created, e')" and "good e"
  shows "good e' \<and> fresh created e'"
proof -
  have "case (created, e') of (created, e') \<Rightarrow> good e' \<and> fresh created e'"
    using assms(1) unfolding submit_group_def
  proof (rule try_fold_invariant)
    fix s it s'
    assume P: "case s of (created, e) \<Rightarrow> good e \<and> fresh created e"
      and step: "(case s of (created, e) \<Rightarrow> \<lambda>it. rbind (submit_one D tx bc it 0 True e) (\<lambda>(i, e1). Inr (created @ [i], e1))) it = Inr s'"
    obtain prev e0 where s: "s = (prev, e0)" by fastforce
    obtain i e1 where one: "submit_one D tx bc it 0 True e0 = Inr (i, e1)" and s': "s' = (prev @ [i], e1)"
      using step by (auto simp: s result_simps)
    from submit_one_inv [OF one] P obtain n tm where "good e1"
      and e1: "e1 = push_order (new_order D n 0 tm it) True e0" and i: "i = length (en_orders e0)"
      by (auto simp: s)
    moreover have "fresh (prev @ [i]) e1"
      using P by (auto simp: s fresh_def e1 i nth_append new_order_def)
    ultimately show "case s' of (created, e) \<Rightarrow> good e \<and> fresh created e" by (simp add: s')
  qed (use assms(2) in \<open>simp_all add: fresh_def\<close>)
  then show ?thesis by simp
qed

lemma good_update: "inv (update_order i f e) \<Longrightarrow> good e \<Longrightarrow> good (update_order i f e)"
  using engine_wf_shape [OF shape_update_order] by (auto simp: good_def)

lemma fresh_update: "fresh created e \<Longrightarrow> (\<And>r. or_status (f r) = or_status r) \<Longrightarrow> fresh created (update_order i f e)"
  unfolding fresh_def update_order_def by (simp, metis nth_list_update_eq nth_list_update_neq)

lemma link_parent_inv:
  assumes "link_parent e (it, i) = Inr e'" and "good e" and "fresh created e" and "i \<in> set created"
  shows "good e' \<and> fresh created e'"
proof (cases "it_parent_id it = []")
  case True
  then show ?thesis using assms by (simp add: link_parent_def)
next
  case False
  then obtain j where j: "bm_get (en_order_index e) (it_parent_id it) = Some j"
    and e': "e' = update_order j (\<lambda>r. r\<lparr>or_has_children := True\<rparr>)
      (update_order i (\<lambda>r. r\<lparr>or_parent_order_id := or_order_id (en_orders e ! j)\<rparr>) e)" (is "_ = update_order j _ ?e1")
    using assms(1) by (auto simp: link_parent_def Let_def result_simps)
  have bounds: "i < length (en_orders e)" "j < length (en_orders e)" "or_status (en_orders e ! i) = New"
    using assms(2,3,4) j by (auto simp: good_def engine_wf_def fresh_def)
  have good1: "good ?e1"
    by (rule good_update [OF inv_link [OF _ bounds] assms(2)]) (use assms(2) in \<open>simp add: good_def\<close>)
  have "good e'"
    unfolding e' by (rule good_update [OF inv_children good1]) (use good1 bounds in \<open>simp_all add: good_def\<close>)
  then show ?thesis unfolding e' using assms(3) by (simp add: fresh_update)
qed

lemma submit_atomic_inv:
  assumes "submit_atomic D tx bc g intents e = Inr e'" and "good e"
  shows "good e'"
proof -
  obtain created e1 e2 where group: "submit_group D tx bc intents e = Inr (created, e1)"
    and links: "try_fold link_parent e1 (zip intents created) = Inr e2"
    and rest: "(let ids = sort_key (atomic_priority e2) created;
          e3 = e2\<lparr>en_matching_order := en_matching_order e2 @ ids\<rparr>
          in if bc_process_orders_on_close bc then
               rbind (bar_of e3) (\<lambda>c. try_fold (\<lambda>e i. try_fill D tx bc c ClosePoint i e) e3 ids)
             else Inr e3) = Inr e'"
    using assms(1) unfolding submit_atomic_def by (auto simp: result_simps split: if_splits option.splits)
  have "good e2 \<and> fresh created e2"
    using links submit_group_inv [OF group assms(2)]
    by (rule try_fold_invariant) (auto dest!: link_parent_inv set_zip_rightD)
  moreover define ids where "ids = sort_key (atomic_priority e2) created"
  moreover define e3 where "e3 = e2\<lparr>en_matching_order := en_matching_order e2 @ ids\<rparr>"
  ultimately have "good e3" and ids: "\<forall>i\<in>set ids. i < length (en_orders e3)"
    using good_frame [where e = e2 and m = "en_matching_order e2 @ ids" and g = "en_atomic_groups e2" and c = "en_current_bar e2"
        and b = "en_bar_budget e2" and q = "en_equity_curve e2"]
    by (auto simp: fresh_def good_def engine_wf_def)
  have "good e'" if "try_fold (\<lambda>e i. try_fill D tx bc c ClosePoint i e) e3 ids = Inr e'" for c
  proof -
    have "good e' \<and> length (en_orders e') = length (en_orders e3)"
      using that
    proof (rule try_fold_invariant)
      fix s i s'
      assume "i \<in> set ids" and "good s \<and> length (en_orders s) = length (en_orders e3)" and "try_fill D tx bc c ClosePoint i s = Inr s'"
      then show "good s' \<and> length (en_orders s') = length (en_orders e3)"
        using ids good_try_fill [of tx bc c ClosePoint i s s'] shape_try_fill [of tx bc c ClosePoint i s s'] by (simp add: shape_def)
    qed (simp add: \<open>good e3\<close>)
    then show ?thesis by simp
  qed
  with rest \<open>good e3\<close> show ?thesis
    by (auto simp: ids_def [symmetric] e3_def [symmetric] Let_def result_simps split: if_splits)
qed

lemma apply_intent_inv:
  assumes "apply_intent D tx bc intents e it = Inr e'" and "good e"
  shows "good e'"
proof -
  have frame: "good (e\<lparr>en_atomic_groups := g\<rparr>)" for g
    using good_frame [where e = e and m = "en_matching_order e" and g = g and c = "en_current_bar e" and b = "en_bar_budget e"
        and q = "en_equity_curve e"] assms(2) by (simp add: good_def engine_wf_def)
  show ?thesis
  proof (cases "it_action it = ''cancel''")
    case True
    then have "e' = cancel_by_target_id D tx (it_target_id it) e" using assms(1) by (simp add: apply_intent_def)
    then show ?thesis using assms(2) good_cancels cancel_target_cases [of D tx "it_target_id it" e] by metis
  next
    case submit: False
    show ?thesis
    proof (cases "it_atomic_group_id it = []")
      case True
      then obtain i where "submit_one D tx bc it 0 False e = Inr (i, e')"
        using assms(1) submit by (auto simp: apply_intent_def rbind_Inr_iff)
      then show ?thesis using submit_one_inv assms(2) by blast
    next
      case False
      obtain new groups where "bs_insert (it_atomic_group_id it) (en_atomic_groups e) = (new, groups)" by fastforce
      then show ?thesis
        using assms(1) submit False frame [of groups] submit_atomic_inv [of tx bc _ _ "e\<lparr>en_atomic_groups := groups\<rparr>" e']
        by (simp add: apply_intent_def Let_def split: if_splits)
    qed
  qed
qed

lemma apply_bar_intents_inv: "apply_bar_intents D tx bc n e = Inr e' \<Longrightarrow> good e \<Longrightarrow> good e'"
  unfolding apply_bar_intents_def Let_def by (erule try_fold_invariant) (auto intro: apply_intent_inv)

lemma match_orders_inv:
  "match_orders D tx bc c is e = Inr e' \<Longrightarrow> good e \<Longrightarrow> \<forall>i\<in>set is. i < length (en_orders e) \<Longrightarrow> good e'"
  using match_orders_keep [of tx bc c "is" e e'] engine_wf_shape [of e' e] unfolding good_def by blast

lemma consume_bar_inv:
  assumes "consume_bar D tx bc c e = Inr e'" and "good e"
  shows "good e'"
proof -
  obtain budget e1 e2 where e1: "e1 = e\<lparr>en_current_bar := Some c, en_bar_budget := budget\<rparr>"
    and e2: "(\<exists>k m. e2 = warn_once k m e1) \<or> match_orders D tx bc c (en_matching_order e1) e1 = Inr e2"
    and rest: "record_equity D tx c e2 = Inr e'"
    using assms(1) by (rule consume_bar_steps)
  have "good e1"
    using good_frame [where e = e and m = "en_matching_order e" and g = "en_atomic_groups e" and c = "Some c" and b = budget
        and q = "en_equity_curve e"] assms(2) by (simp add: e1 good_def engine_wf_def)
  moreover have "good (warn_once k m e1)" for k m
    using \<open>good e1\<close> inv_warn [of e1 k m] engine_wf_shape [OF shape_warn] unfolding good_def by blast
  ultimately have "good e2"
    using e2 match_orders_inv [of tx bc c "en_matching_order e1" e1 e2] by (auto simp: good_def engine_wf_def split: if_splits)
  then show ?thesis
    using rest good_frame [where e = e2 and m = "en_matching_order e2" and g = "en_atomic_groups e2" and c = "en_current_bar e2"
        and b = "en_bar_budget e2"]
    by (auto simp: record_equity_def result_simps good_def engine_wf_def)
qed

lemma run_bars_inv: "run_bars D tx bc n cs e = Inr (status, m, e') \<Longrightarrow> good e \<Longrightarrow> good e'"
proof (induction cs arbitrary: n e)
  case (Cons c cs)
  show ?case
  proof (cases "bc_cancel_before_bar bc = Some n")
    case False
    with Cons.prems(1) obtain e1 e2 where "consume_bar D tx bc c e = Inr e1" "apply_bar_intents D tx bc n e1 = Inr e2"
      "run_bars D tx bc (Suc n) cs e2 = Inr (status, m, e')"
      by (auto simp: result_simps)
    then show ?thesis using Cons.IH consume_bar_inv apply_bar_intents_inv Cons.prems(2) by blast
  qed (use Cons.prems in simp)
qed simp

lemma replay_inv:
  assumes "run_bars D tx bc 0 cs (engine_new D bc) = Inr (status, m, e')" and "inv (engine_new D bc)"
  shows "inv e'"
  using run_bars_inv [OF assms(1)] assms(2) by (simp add: good_def engine_wf_def engine_new_def)

end

end
