(* ===== verification/Backtest_Books.thy ===== *)
theory Backtest_Books
  imports Backtest_Invariants
begin

text \<open>
  The accounts of a replay. \<open>books\<close> says what cash, positions, realized profit and the trade
  statistics must be, given the orders and the fees; it is an instance of \<open>engine_invariant\<close>, so
  it holds after every replay. It is stated for exact decimals (no result was rounded).
\<close>

section \<open>The invariant\<close>

text \<open>What an order's status says of its quantity, the filled and the remaining part.\<close>

fun status_ok :: "fill_status \<Rightarrow> rat \<Rightarrow> rat \<Rightarrow> rat \<Rightarrow> bool" where
  "status_ok New quantity filled remaining \<longleftrightarrow> filled = 0 \<and> remaining = quantity"
| "status_ok Partially_Filled quantity filled remaining \<longleftrightarrow> 0 < filled \<and> 0 < remaining \<and> filled + remaining = quantity"
| "status_ok Fully_Filled quantity filled remaining \<longleftrightarrow> remaining = 0 \<and> filled = quantity"
| "status_ok Order_Cancelled quantity filled remaining \<longleftrightarrow> remaining = 0 \<and> filled < quantity"

definition order_ok :: "'d decimal_lib \<Rightarrow> 'd order_record \<Rightarrow> bool" where
  "order_ok D r \<longleftrightarrow>
     (let quantity = d_val D (or_quantity r); filled = d_val D (or_filled r); remaining = d_val D (or_remaining r)
      in or_side r \<in> {''buy'', ''sell''} \<and> 0 < quantity \<and> 0 \<le> filled \<and> 0 \<le> d_val D (or_filled_notional r) \<and>
         0 \<le> d_val D (or_closing_quantity r) \<and> d_val D (or_closing_quantity r) \<le> filled \<and>
         status_ok (or_status r) quantity filled remaining \<and>
         (filled = 0 \<longrightarrow> d_val D (or_filled_notional r) = 0 \<and> d_val D (or_closing_pnl r) = 0) \<and>
         (or_closing_finalized r \<longrightarrow> status_closed (or_status r) \<and> 0 < d_val D (or_closing_quantity r)))"

text \<open>A closed order that closed a part of the position is counted.\<close>

definition order_counted :: "'d decimal_lib \<Rightarrow> 'd order_record \<Rightarrow> bool" where
  "order_counted D r \<longleftrightarrow> (status_closed (or_status r) \<and> 0 < d_val D (or_closing_quantity r) \<longrightarrow> or_closing_finalized r)"

definition signed_notional :: "'d decimal_lib \<Rightarrow> 'd order_record \<Rightarrow> rat" where
  "signed_notional D r = (if or_side r = ''sell'' then d_val D (or_filled_notional r) else - d_val D (or_filled_notional r))"

definition signed_filled :: "'d decimal_lib \<Rightarrow> 'd order_record \<Rightarrow> rat" where
  "signed_filled D r = (if or_side r = ''sell'' then - d_val D (or_filled r) else d_val D (or_filled r))"

definition trade_count :: "'d order_record \<Rightarrow> rat" where
  "trade_count r = (if or_closing_finalized r then 1 else 0)"

definition win_count :: "'d decimal_lib \<Rightarrow> 'd order_record \<Rightarrow> rat" where
  "win_count D r = (if or_closing_finalized r \<and> 0 < d_val D (or_closing_pnl r) then 1 else 0)"

definition orders_sum :: "('d order_record \<Rightarrow> rat) \<Rightarrow> 'd order_record list \<Rightarrow> rat" where
  "orders_sum g rs = (\<Sum>r\<leftarrow>rs. g r)"

definition books :: "'d decimal_lib \<Rightarrow> ('d, 't) backtest_case \<Rightarrow> ('d, 't) engine \<Rightarrow> bool" where
  "books D bc e \<longleftrightarrow>
     (\<forall>r\<in>set (en_orders e). order_ok D r \<and> order_counted D r) \<and> fees_ok D (en_fee_engine e) \<and>
     d_val D (en_cash e) = d_val D (bc_initial_balance bc) + orders_sum (signed_notional D) (en_orders e) -
       (d_val D (fe_broker_total (en_fee_engine e)) + d_val D (fe_market_total (en_fee_engine e))) \<and>
     d_val D (en_base_position e) = orders_sum (signed_filled D) (en_orders e) \<and>
     d_val D (en_accounting_position e) = d_val D (en_base_position e) \<and>
     d_val D (en_realized_pnl e) = orders_sum (\<lambda>r. d_val D (or_closing_pnl r)) (en_orders e) \<and>
     of_nat (en_total_trades e) = orders_sum trade_count (en_orders e) \<and>
     of_nat (en_winning_trades e) = orders_sum (win_count D) (en_orders e)"

section \<open>Replacing one order\<close>

lemma orders_sum_update:
  "i < length rs \<Longrightarrow> orders_sum g (rs[i := r]) = orders_sum g rs + g r - g (rs ! i)"
  unfolding orders_sum_def
proof (induction rs arbitrary: i)
  case (Cons x rs)
  then show ?case by (cases i) simp_all
qed simp

lemma orders_sum_append [simp]: "orders_sum g (rs @ [r]) = orders_sum g rs + g r"
  by (simp add: orders_sum_def)

text \<open>An order takes the place of its predecessor, and is counted if it is complete.\<close>

definition close_now :: "'d decimal_lib \<Rightarrow> 'd order_record \<Rightarrow> bool" where
  "close_now D r \<longleftrightarrow> status_closed (or_status r) \<and> \<not> or_closing_finalized r \<and> d_lt D (d_zero D) (or_closing_quantity r)"

definition finalized :: "'d decimal_lib \<Rightarrow> 'd order_record \<Rightarrow> 'd order_record" where
  "finalized D r = (if close_now D r then r\<lparr>or_closing_finalized := True\<rparr> else r)"

definition put_order :: "'d decimal_lib \<Rightarrow> nat \<Rightarrow> 'd order_record \<Rightarrow> ('d, 't) engine \<Rightarrow> ('d, 't) engine" where
  "put_order D i r e =
     e\<lparr>en_orders := (en_orders e)[i := finalized D r],
       en_total_trades := en_total_trades e + (if close_now D r then 1 else 0),
       en_winning_trades := en_winning_trades e + (if close_now D r \<and> d_lt D (d_zero D) (or_closing_pnl r) then 1 else 0)\<rparr>"

lemma mark_cancelled_put:
  "i < length (en_orders e) \<Longrightarrow> mark_cancelled D tm i e =
     put_order D i ((en_orders e ! i)\<lparr>or_remaining := d_zero D, or_status := Order_Cancelled, or_filled_at := tm\<rparr>) e"
  by (simp add: mark_cancelled_def finalize_closing_order_def update_order_def put_order_def finalized_def close_now_def
      status_closed_def Let_def not_le)

lemma settle_put:
  assumes "i < length (en_orders e)" and "en_orders x = (en_orders e)[i := r]"
  shows "settle_fill D i b x =
    (put_order D i r (x\<lparr>en_orders := en_orders e\<rparr>))\<lparr>en_bar_budget := b\<rparr>"
  using assms by (auto simp: settle_fill_def finalize_closing_order_def update_order_def put_order_def finalized_def
      close_now_def Let_def not_le)

context decimal_exact
begin

lemma books_put:
  assumes "books D bc e" and i: "i < length (en_orders e)" and "order_ok D r"
    and "\<not> or_closing_finalized r" and "\<not> status_closed (or_status (en_orders e ! i))"
  shows "\<forall>r\<in>set (en_orders (put_order D i r e)). order_ok D r \<and> order_counted D r"
    and "of_nat (en_total_trades (put_order D i r e)) = orders_sum trade_count (en_orders (put_order D i r e))"
    and "of_nat (en_winning_trades (put_order D i r e)) = orders_sum (win_count D) (en_orders (put_order D i r e))"
    and "(\<And>r b. g (r\<lparr>or_closing_finalized := b\<rparr>) = g r) \<Longrightarrow>
      orders_sum g (en_orders (put_order D i r e)) = orders_sum g (en_orders e) + g r - g (en_orders e ! i)"
proof -
  have old: "order_ok D (en_orders e ! i)" using assms(1) i by (simp add: books_def)
  then have notfin: "\<not> or_closing_finalized (en_orders e ! i)"
    using assms(5) by (simp add: order_ok_def Let_def)
  have "order_ok D (finalized D r)" and "order_counted D (finalized D r)"
    using assms(3,4) by (auto simp: finalized_def close_now_def order_ok_def order_counted_def Let_def)
  then show "\<forall>r\<in>set (en_orders (put_order D i r e)). order_ok D r \<and> order_counted D r"
    using assms(1) set_update_subset_insert [of "en_orders e" i "finalized D r"] by (auto simp: books_def put_order_def)
  show "of_nat (en_total_trades (put_order D i r e)) = orders_sum trade_count (en_orders (put_order D i r e))"
    and "of_nat (en_winning_trades (put_order D i r e)) = orders_sum (win_count D) (en_orders (put_order D i r e))"
    using assms(1,4) notfin i
    by (auto simp: put_order_def books_def orders_sum_update finalized_def trade_count_def win_count_def)
  show "orders_sum g (en_orders (put_order D i r e)) = orders_sum g (en_orders e) + g r - g (en_orders e ! i)"
    if "\<And>r b. g (r\<lparr>or_closing_finalized := b\<rparr>) = g r"
    using i that by (simp add: put_order_def orders_sum_update finalized_def)
qed

end

section \<open>The elementary changes\<close>

lemma books_update:
  assumes "books D bc e" and i: "i < length (en_orders e)"
    and "\<And>r. order_ok D (f r) = order_ok D r" "\<And>r. order_counted D (f r) = order_counted D r"
    and "\<And>r. signed_notional D (f r) = signed_notional D r" "\<And>r. signed_filled D (f r) = signed_filled D r"
    and "\<And>r. or_closing_pnl (f r) = or_closing_pnl r" "\<And>r. or_closing_finalized (f r) = or_closing_finalized r"
  shows "books D bc (update_order i f e)"
proof -
  have "r \<in> set (en_orders (update_order i f e)) \<Longrightarrow> r \<in> set (en_orders e) \<or> r = f (en_orders e ! i)" for r
    using set_update_subset_insert [of "en_orders e" i "f (en_orders e ! i)"] by (auto simp: update_order_def)
  then have "\<forall>r\<in>set (en_orders (update_order i f e)). order_ok D r \<and> order_counted D r"
    using assms(1,3,4) i nth_mem by (metis books_def)
  then show ?thesis
    using assms i unfolding books_def update_order_def
    by (simp add: orders_sum_update trade_count_def win_count_def)
qed

context decimal_exact
begin

lemma add_closing_steps:
  assumes "add_closing D cq realized ord = Inr ord'" and "0 < d_val D cq"
  shows "\<exists>cq' pnl'. d_add D (or_closing_quantity ord) cq = Some cq' \<and> d_add D (or_closing_pnl ord) realized = Some pnl' \<and>
    ord' = ord\<lparr>or_closing_quantity := cq', or_closing_pnl := pnl'\<rparr>"
  using assms unfolding add_closing_def rbind_Inr_iff arith_Inr sum.inject by (simp add: rbind_Inr_iff) metis

lemma books_cancel:
  assumes "books D bc e" and i: "i < length (en_orders e)" and "open_order D (en_orders e ! i)"
  shows "books D bc (mark_cancelled D tm i e)"
proof -
  let ?old = "en_orders e ! i"
  let ?r = "?old\<lparr>or_remaining := d_zero D, or_status := Order_Cancelled, or_filled_at := tm\<rparr>"
  have old: "order_ok D ?old" using assms(1) i by (simp add: books_def)
  then have open': "\<not> status_closed (or_status ?old)" "d_val D (or_filled ?old) < d_val D (or_quantity ?old)" "\<not> or_closing_finalized ?old"
    using assms(3) by (cases "or_status ?old"; auto simp: order_ok_def open_order_def status_closed_def Let_def)+
  have "order_ok D ?r" and "\<not> or_closing_finalized ?r"
    using old open' by (auto simp: order_ok_def Let_def)
  note put = books_put [OF assms(1) i this open'(1)]
  have sums: "orders_sum g (en_orders (put_order D i ?r e)) = orders_sum g (en_orders e)"
    if "\<And>r b. g (r\<lparr>or_closing_finalized := b\<rparr>) = g r" "g ?r = g ?old" for g
    using put(4) [of g] that by simp
  have fields: "en_fee_engine (put_order D i r x) = en_fee_engine x" "en_cash (put_order D i r x) = en_cash x"
    "en_base_position (put_order D i r x) = en_base_position x" "en_accounting_position (put_order D i r x) = en_accounting_position x"
    "en_realized_pnl (put_order D i r x) = en_realized_pnl x" for r and x :: "('a, 'c) engine"
    by (simp_all add: put_order_def)
  show ?thesis
    unfolding mark_cancelled_put [OF i] books_def fields
    using assms(1) put(1,2,3) sums [of "signed_notional D"] sums [of "signed_filled D"] sums [of "\<lambda>r. d_val D (or_closing_pnl r)"]
    by (simp add: books_def signed_notional_def signed_filled_def)
qed

lemma filled_order:
  assumes "order_ok D ord" and "open_order D ord"
    and "update_filled_order D q n tm ord = Inr ord1" and "add_closing D cq realized ord1 = Inr ord2"
    and "0 < d_val D q" and "d_le D q (or_remaining ord)" and "0 \<le> d_val D n"
    and "0 \<le> d_val D cq" and "d_le D cq q" and "d_val D cq = 0 \<Longrightarrow> d_val D realized = 0"
  shows "order_ok D ord2" and "\<not> or_closing_finalized ord2" and "or_side ord2 = or_side ord"
    and "d_val D (or_filled ord2) = d_val D (or_filled ord) + d_val D q"
    and "d_val D (or_filled_notional ord2) = d_val D (or_filled_notional ord) + d_val D n"
    and "d_val D (or_closing_pnl ord2) = d_val D (or_closing_pnl ord) + d_val D realized"
proof -
  obtain filled remaining notional average where steps: "d_add D (or_filled ord) q = Some filled"
      "d_sub D (or_remaining ord) q = Some remaining" "d_add D (or_filled_notional ord) n = Some notional"
    and ord1: "ord1 = ord\<lparr>or_filled := filled, or_remaining := remaining, or_filled_notional := notional,
              or_average_price := average, or_filled_at := tm,
              or_status := (if d_lt D (d_zero D) remaining then Partially_Filled else Fully_Filled)\<rparr>"
    using assms(3) by (auto simp: update_filled_order_def result_simps)
  note vals = steps(1,3) [THEN add_exact] steps(2) [THEN sub_exact]
  obtain cq' pnl' where ord2: "ord2 = ord1\<lparr>or_closing_quantity := cq', or_closing_pnl := pnl'\<rparr>"
    and closing: "d_val D cq' = d_val D (or_closing_quantity ord) + d_val D cq"
      "d_val D pnl' = d_val D (or_closing_pnl ord) + d_val D realized"
  proof (cases "0 < d_val D cq")
    case True
    then obtain cq' pnl' where adds: "d_add D (or_closing_quantity ord1) cq = Some cq'" "d_add D (or_closing_pnl ord1) realized = Some pnl'"
      and o2: "ord2 = ord1\<lparr>or_closing_quantity := cq', or_closing_pnl := pnl'\<rparr>"
      using add_closing_steps [OF assms(4) True] by blast
    have "or_closing_quantity ord1 = or_closing_quantity ord" "or_closing_pnl ord1 = or_closing_pnl ord"
      by (simp_all add: ord1)
    then show ?thesis by (intro that [OF o2]) (simp_all only: adds [THEN add_exact])
  next
    case False
    then have "d_val D cq = 0" and "d_val D realized = 0" and "ord2 = ord1"
      using assms(4,8,10) by (simp_all add: add_closing_def)
    then show ?thesis by (intro that [of "or_closing_pnl ord" "or_closing_quantity ord"]) (simp_all add: ord1)
  qed
  have status: "status_ok (or_status ord) (d_val D (or_quantity ord)) (d_val D (or_filled ord)) (d_val D (or_remaining ord))"
    and open': "0 < d_val D (or_remaining ord)"
    using assms(1,2) by (simp_all add: order_ok_def open_order_def Let_def)
  then have whole: "d_val D (or_filled ord) + d_val D (or_remaining ord) = d_val D (or_quantity ord)"
    and notfin: "\<not> or_closing_finalized ord"
    using assms(1) by (cases "or_status ord"; auto simp: order_ok_def status_closed_def Let_def)+
  show "or_side ord2 = or_side ord" and "\<not> or_closing_finalized ord2"
    and "d_val D (or_filled ord2) = d_val D (or_filled ord) + d_val D q"
    and "d_val D (or_filled_notional ord2) = d_val D (or_filled_notional ord) + d_val D n"
    and "d_val D (or_closing_pnl ord2) = d_val D (or_closing_pnl ord) + d_val D realized"
    using vals closing notfin by (simp_all add: ord2 ord1)
  have "0 \<le> d_val D remaining" and pos: "0 < d_val D filled"
    using assms(1,5,6) vals by (simp_all add: order_ok_def Let_def)
  then have "status_ok (or_status ord2) (d_val D (or_quantity ord2)) (d_val D filled) (d_val D remaining)"
    using vals whole by (auto simp: ord2 ord1)
  moreover have "0 \<le> d_val D notional" and "0 \<le> d_val D cq'" and "d_val D cq' \<le> d_val D filled"
    using assms(1,7,8,9) vals closing by (simp_all add: order_ok_def Let_def)
  ultimately show "order_ok D ord2"
    using assms(1) pos notfin by (simp add: ord2 ord1 order_ok_def Let_def)
qed

end

text \<open>A booked fill, in numbers.\<close>

definition fill_effect :: "'d decimal_lib \<Rightarrow> nat \<Rightarrow> 'd \<Rightarrow> 'd \<Rightarrow> 'd order_record \<Rightarrow> rat \<Rightarrow> ('d, 't) engine \<Rightarrow> ('d, 't) engine \<Rightarrow> bool" where
  "fill_effect D i q p ord realized e e1 \<longleftrightarrow>
     (let old = en_orders e ! i; sign = (if or_side old = ''sell'' then - 1 else 1); n = d_val D q * d_val D p;
          fees = (\<lambda>x. d_val D (fe_broker_total (en_fee_engine x)) + d_val D (fe_market_total (en_fee_engine x)))
      in en_orders e1 = (en_orders e)[i := ord] \<and> order_ok D ord \<and> \<not> or_closing_finalized ord \<and> or_side ord = or_side old \<and>
         d_val D (or_filled ord) = d_val D (or_filled old) + d_val D q \<and>
         d_val D (or_filled_notional ord) = d_val D (or_filled_notional old) + n \<and>
         d_val D (or_closing_pnl ord) = d_val D (or_closing_pnl old) + realized \<and>
         fees_ok D (en_fee_engine e1) \<and>
         d_val D (en_cash e1) = d_val D (en_cash e) - sign * n - (fees e1 - fees e) \<and>
         d_val D (en_base_position e1) = d_val D (en_base_position e) + sign * d_val D q \<and>
         d_val D (en_accounting_position e1) = d_val D (en_accounting_position e) + sign * d_val D q \<and>
         d_val D (en_realized_pnl e1) = d_val D (en_realized_pnl e) + realized \<and>
         en_total_trades e1 = en_total_trades e \<and> en_winning_trades e1 = en_winning_trades e)"

context decimal_exact
begin

lemma trade_balances_exact:
  assumes "trade_balances D side q n e = Inr e1"
  shows "\<exists>cash base. e1 = e\<lparr>en_cash := cash, en_base_position := base\<rparr> \<and> side \<in> {''buy'', ''sell''} \<and>
    d_val D cash = d_val D (en_cash e) - (if side = ''sell'' then - 1 else 1) * d_val D n \<and>
    d_val D base = d_val D (en_base_position e) + (if side = ''sell'' then - 1 else 1) * d_val D q"
proof (cases "side = ''buy''")
  case True
  then obtain cash base where "d_sub D (en_cash e) n = Some cash" "d_add D (en_base_position e) q = Some base"
    "e1 = e\<lparr>en_cash := cash, en_base_position := base\<rparr>"
    using assms by (auto simp: trade_balances_def result_simps)
  then show ?thesis using True add_exact sub_exact by fastforce
next
  case False
  then have side: "side = ''sell''" using assms by (auto simp: trade_balances_def split: if_splits)
  then obtain cash base where "d_add D (en_cash e) n = Some cash" "d_sub D (en_base_position e) q = Some base"
    "e1 = e\<lparr>en_cash := cash, en_base_position := base\<rparr>"
    using assms by (auto simp: trade_balances_def result_simps)
  then show ?thesis using side add_exact sub_exact by fastforce
qed

lemma book_fill_effect:
  assumes "book_fill D i q p tm e = Inr e1" and ready: "fill_ready D i q p e" and "books D bc e"
  shows "\<exists>ord realized. fill_effect D i q p ord realized e e1"
  using assms(1)
proof (rule book_fill_steps)
  fix n e2 cq realized e3 pnl fees fe cash ord1 ord2 trade_id
  let ?old = "en_orders e ! i" and ?sign = "if or_side (en_orders e ! i) = ''sell'' then - 1 else 1 :: rat"
  assume n: "d_mul D q p = Some n"
    and bal: "trade_balances D (or_side ?old) q n e = Inr e2"
    and pos: "apply_position_fill D (or_side ?old) q p e2 = Inr ((cq, realized), e3)"
    and pnl: "d_add D (en_realized_pnl e3) realized = Some pnl"
    and fees: "fee_apply D (or_order_id ?old) (or_side ?old) p q (en_fee_engine e3) = Inr (fees, fe)"
    and cash: "d_sub D (en_cash e3) (af_total fees) = Some cash"
    and ord: "update_filled_order D q n tm ?old = Inr ord1" "add_closing D cq realized ord1 = Inr ord2"
    and e1: "e1 = (update_order i (\<lambda>_. ord2) e3)
       \<lparr>en_realized_pnl := pnl, en_fee_engine := fe, en_cash := cash, en_next_trade_id := trade_id,
        en_fills := en_fills e3 @ [fill_output_of D ord2
          \<lparr>fv_trade_id = trade_id, fv_price = p, fv_quantity = q, fv_quote_quantity = n,
           fv_time = tm, fv_fees = fees, fv_realized_pnl = realized\<rparr>]\<rparr>"
  obtain cash2 base where e2: "e2 = e\<lparr>en_cash := cash2, en_base_position := base\<rparr>"
    and bal': "d_val D cash2 = d_val D (en_cash e) - ?sign * d_val D n" "d_val D base = d_val D (en_base_position e) + ?sign * d_val D q"
    using trade_balances_exact [OF bal] by blast
  obtain a k next' where acc: "d_add D (en_accounting_position e2) (if or_side ?old = ''sell'' then d_neg D q else q) = Some next'"
    and e3: "e3 = e2\<lparr>en_average_entry_price := a, en_position_cost_known := k, en_accounting_position := next'\<rparr>"
    using apply_position_fill_result(1) [OF pos] by blast
  have q: "0 < d_val D q" "0 < d_val D p" "d_le D q (or_remaining ?old)" and i: "i < length (en_orders e)"
    using ready by (simp_all add: fill_ready_def Let_def)
  have cq: "0 \<le> d_val D cq" "d_le D cq q" "d_val D cq = 0 \<Longrightarrow> d_val D realized = 0"
    using apply_position_fill_result(2) [OF pos] q by (auto simp: val_abs min_def split: if_splits)
  have nval: "d_val D n = d_val D q * d_val D p" "0 \<le> d_val D n" using mul_exact [OF n] q by simp_all
  have old: "order_ok D ?old" and open': "open_order D ?old" and feesok: "fees_ok D (en_fee_engine e)"
    using assms(3) i q by (auto simp: books_def open_order_def)
  note order = filled_order [OF old open' ord q(1) q(3) nval(2) cq]
  have fees_e: "en_fee_engine e3 = en_fee_engine e" by (simp add: e2 e3)
  note fee = fee_apply_ok [OF feesok fees [unfolded fees_e]]
  have "en_orders e1 = (en_orders e)[i := ord2]" by (simp add: e1 e2 e3 update_order_def)
  moreover have "d_val D (en_accounting_position e1) = d_val D (en_accounting_position e) + ?sign * d_val D q"
    using add_exact [OF acc] by (simp add: e1 e2 e3 update_order_def val_neg)
  moreover have "d_val D (en_cash e1) = d_val D (en_cash e) - ?sign * (d_val D q * d_val D p) - d_val D (af_total fees)"
    using sub_exact [OF cash] bal'(1) by (simp add: e1 e2 e3 update_order_def nval)
  ultimately have "fill_effect D i q p ord2 (d_val D realized) e e1"
    unfolding fill_effect_def Let_def using order fee bal'(2) add_exact [OF pnl] nval
    by (simp add: e1 e2 e3 update_order_def)
  then show ?thesis by blast
qed

end

context decimal_exact
begin

lemma books_fill:
  assumes "books D bc e" and "fill_ready D i q p e" and "book_fill D i q p tm e = Inr e1"
  shows "books D bc (settle_fill D i b e1)"
proof -
  obtain ord realized where eff: "fill_effect D i q p ord realized e e1"
    using book_fill_effect [OF assms(3,2,1)] by blast
  let ?old = "en_orders e ! i" and ?x = "e1\<lparr>en_orders := en_orders e\<rparr>"
  have i: "i < length (en_orders e)" and "0 < d_val D (or_remaining ?old)"
    using assms(2) by (auto simp: fill_ready_def Let_def)
  moreover have "order_ok D ?old" using assms(1) i by (simp add: books_def)
  ultimately have open': "\<not> status_closed (or_status ?old)"
    by (cases "or_status ?old") (auto simp: order_ok_def status_closed_def Let_def)
  have ok: "order_ok D ord" "\<not> or_closing_finalized ord" and orders: "en_orders e1 = (en_orders e)[i := ord]"
    and totals: "en_total_trades e1 = en_total_trades e" "en_winning_trades e1 = en_winning_trades e"
    using eff by (simp_all add: fill_effect_def Let_def)
  note put = books_put [OF assms(1) i ok open']
  have x: "en_orders (put_order D i ord ?x) = en_orders (put_order D i ord e)"
    "en_total_trades (put_order D i ord ?x) = en_total_trades (put_order D i ord e)"
    "en_winning_trades (put_order D i ord ?x) = en_winning_trades (put_order D i ord e)"
    "en_fee_engine (put_order D i ord ?x) = en_fee_engine e1" "en_cash (put_order D i ord ?x) = en_cash e1"
    "en_base_position (put_order D i ord ?x) = en_base_position e1"
    "en_accounting_position (put_order D i ord ?x) = en_accounting_position e1"
    "en_realized_pnl (put_order D i ord ?x) = en_realized_pnl e1"
    by (simp_all add: put_order_def totals)
  have sums: "orders_sum (signed_notional D) (en_orders (put_order D i ord e)) =
      orders_sum (signed_notional D) (en_orders e) + signed_notional D ord - signed_notional D ?old"
    "orders_sum (signed_filled D) (en_orders (put_order D i ord e)) =
      orders_sum (signed_filled D) (en_orders e) + signed_filled D ord - signed_filled D ?old"
    "orders_sum (\<lambda>r. d_val D (or_closing_pnl r)) (en_orders (put_order D i ord e)) =
      orders_sum (\<lambda>r. d_val D (or_closing_pnl r)) (en_orders e) + d_val D (or_closing_pnl ord) - d_val D (or_closing_pnl ?old)"
    by (rule put(4), simp add: signed_notional_def signed_filled_def)+
  have "books D bc (put_order D i ord ?x)"
    unfolding books_def x sums
    using assms(1) eff put(1,2,3)
    by (auto simp: fill_effect_def Let_def books_def signed_notional_def signed_filled_def)
  moreover have "books D bc (y\<lparr>en_bar_budget := b\<rparr>) = books D bc y" for y :: "('a, 'b) engine"
    by (simp add: books_def)
  ultimately show ?thesis
    unfolding settle_put [OF i orders] by simp
qed

lemma books_push:
  assumes "books D bc e" and "validate_submit_intent D it = Inr ()"
  shows "books D bc (push_order (new_order D n 0 tm it) d e)"
proof -
  have it: "0 < d_val D (it_quantity it)" "it_side it \<in> {''buy'', ''sell''}"
    using validate_submit_Inr [OF assms(2)] by simp_all
  have new: "order_ok D (new_order D n 0 tm it)" "order_counted D (new_order D n 0 tm it)"
    using it by (simp_all add: new_order_def order_ok_def order_counted_def status_closed_def Let_def)
  have zero: "signed_notional D (new_order D n 0 tm it) = 0" "signed_filled D (new_order D n 0 tm it) = 0"
    "d_val D (or_closing_pnl (new_order D n 0 tm it)) = 0" "trade_count (new_order D n 0 tm it) = 0"
    "win_count D (new_order D n 0 tm it) = 0"
    by (simp_all add: new_order_def signed_notional_def signed_filled_def trade_count_def win_count_def)
  show ?thesis
    using assms(1) new zero by (auto simp: books_def push_order_def Let_def)
qed

lemma books_invariant: "engine_invariant D (books D bc)"
proof unfold_locales
  show "books D bc (warn_once k m e)" if "books D bc e" for e k m
    using that by (simp add: books_def warn_once_def Let_def split: prod.split)
  show "books D bc (update_order i (\<lambda>r. r\<lparr>or_stop_triggered := True\<rparr>) e)" if "books D bc e" "i < length (en_orders e)" for e i
    using that by (rule books_update)
      (simp_all add: order_ok_def order_counted_def signed_notional_def signed_filled_def)
  show "books D bc (update_order i (\<lambda>r. r\<lparr>or_parent_order_id := or_order_id (en_orders e ! j)\<rparr>) e)"
    if "books D bc e" "i < length (en_orders e)" for e i j
    using that by (rule books_update)
      (simp_all add: order_ok_def order_counted_def signed_notional_def signed_filled_def)
  show "books D bc (update_order i (\<lambda>r. r\<lparr>or_has_children := True\<rparr>) e)" if "books D bc e" "i < length (en_orders e)" for e i
    using that by (rule books_update)
      (simp_all add: order_ok_def order_counted_def signed_notional_def signed_filled_def)
  show "books D bc (e\<lparr>en_matching_order := m, en_atomic_groups := g, en_current_bar := c, en_bar_budget := b, en_equity_curve := q\<rparr>)"
    if "books D bc e" for e m g c b q
    using that by (simp add: books_def)
qed (rule books_cancel books_fill books_push; assumption)+

lemma books_new: "books D bc (engine_new D bc)"
  using fee_engine_new_ok by (simp add: books_def engine_new_def orders_sum_def fee_engine_new_def)

end

interpretation books28: engine_invariant dec28 "books dec28 bc"
  by (rule exact28.books_invariant)

end
