(* ===== verification/Backtest_Replay.thy ===== *)
theory Backtest_Replay
  imports Backtest_Books
begin

text \<open>
  The properties of a replay: the accounts balance, orders add up, cancelling closes what depends on
  an order, a bar fills no more than its volume allows, and what has happened stays. One replay is
  evaluated by the simplifier for the witnesses.
\<close>

section \<open>A replay\<close>

text \<open>One bar, processed on close, on which an order to buy ten units is submitted and filled at the close.\<close>

definition sample_buy :: "int order_intent" where
  "sample_buy =
     \<lparr>it_bar_index = 0, it_action = ''submit'', it_id = ''a'', it_target_id = [], it_side = ''buy'', it_order_type = ''market'',
      it_quantity = 10 * dec_unit, it_limit_price = 0, it_stop_price = 0, it_reduce_only = False, it_parent_id = [],
      it_oco_group_id = [], it_atomic_group_id = []\<rparr>"

definition sample_case :: "(int, nat) backtest_case" where
  "sample_case =
     \<lparr>bc_id = ''s'', bc_symbol = ''X'', bc_base_currency = ''X'', bc_quote_currency = ''USD'',
      bc_initial_balance = 5000 * dec_unit, bc_process_orders_on_close = True, bc_slippage_ticks = 0,
      bc_market = \<lparr>mk_tick_size = dec_unit, mk_quantity_step = dec_unit, mk_min_quantity = 0\<rparr>,
      bc_fee_rules = [], bc_indicator_periods = [], bc_cancel_before_bar = None,
      bc_candles = [sample_candle], bc_intents = [sample_buy]\<rparr>"

definition sample_engine :: "(int, nat) engine" where
  "sample_engine = (engine_new dec28 sample_case)
     \<lparr>en_current_bar := Some sample_candle, en_bar_budget := 100 * dec_unit,
      en_equity_curve := [\<lparr>eq_time = nat_text 1, eq_equity = dec_text (5000 * dec_unit)\<rparr>]\<rparr>"

lemma sample_units: "dec_fit (k * dec_unit) = (if \<bar>k\<bar> < 2 ^ 96 then Some (k * dec_unit) else None)"
  "dec_mul (a * dec_unit) (b * dec_unit) = dec_fit (a * b * dec_unit)"
  by (simp_all add: dec_fit_def dec_mul_def abs_mult)

lemma sample_bar: "consume_bar dec28 nat_text sample_case sample_candle (engine_new dec28 sample_case) = Inr sample_engine"
proof -
  have budget: "dec_mul (1000 * dec_unit) (dec_unit div 10) = Some (100 * dec_unit)"
    by (simp add: dec_mul_def dec_fit_def dec_unit_def)
  have mul0: "dec_mul 0 (105 * dec_unit) = Some 0" "dec_fit (5000 * dec_unit) = Some (5000 * dec_unit)"
    by (simp_all add: dec_mul_def dec_fit_def dec_unit_def)
  show ?thesis
    by (simp add: consume_bar_def match_bar_def sample_candle_def budget engine_new_def has_pending_orders_def sample_case_def
        record_equity_def mul0 sample_engine_def to_storage_text_def d_zero_def Let_def)
qed

definition sample_order :: "int order_record" where
  "sample_order = new_order dec28 1100000001 0 (nat_text 1) sample_buy"

definition sample_pushed :: "(int, nat) engine" where
  "sample_pushed = push_order sample_order False sample_engine"

lemma sample_buy_valid: "validate_submit_intent dec28 sample_buy = Inr ()"
proof -
  have "\<not> blank ''a''" "normalized_order_type ''market'' = ''market''"
    by (simp_all add: blank_def normalized_order_type_def string_eval)
  then show ?thesis by (simp add: validate_submit_intent_def sample_buy_def d_zero_def Let_def)
qed

lemma sample_submit:
  "submit_one dec28 nat_text sample_case sample_buy 0 False sample_engine =
     rbind (try_fill dec28 nat_text sample_case sample_candle ClosePoint 0 sample_pushed) (\<lambda>e. Inr (0, e))"
proof -
  have "checked_add_u64 initial_order_id 1 = Some 1100000001"
    by (simp add: checked_add_u64_def initial_order_id_def)
  then show ?thesis
    by (simp add: submit_one_def sample_buy_valid sample_engine_def engine_new_def sample_pushed_def sample_order_def bar_of_def
        sample_case_def push_order_def sample_candle_def Let_def)
qed

lemma sample_order_fields:
  "or_order_type sample_order = ''market''" "or_side sample_order = ''buy''" "or_remaining sample_order = 10 * dec_unit"
  "or_parent_order_id sample_order = 0" "or_reduce_only sample_order = False" "or_filled sample_order = 0"
  "or_filled_notional sample_order = 0" "or_oco_group_id sample_order = []" "or_closing_finalized sample_order = False"
  "or_closing_quantity sample_order = 0" "or_order_id sample_order = 1100000001"
  by (simp_all add: sample_order_def new_order_def sample_buy_def normalized_order_type_def blank_def string_eval d_zero_def)

lemma sample_pushed_fields:
  "en_orders sample_pushed = [sample_order]" "en_bar_budget sample_pushed = 100 * dec_unit" "en_cash sample_pushed = 5000 * dec_unit"
  "en_base_position sample_pushed = 0" "en_accounting_position sample_pushed = 0" "en_realized_pnl sample_pushed = 0"
  "en_fee_engine sample_pushed = fee_engine_new dec28 []" "en_next_trade_id sample_pushed = 1200000000" "en_fills sample_pushed = []"
  "en_total_trades sample_pushed = 0" "en_winning_trades sample_pushed = 0"
  by (simp_all add: sample_pushed_def push_order_def sample_engine_def engine_new_def sample_case_def Let_def d_zero_def
      initial_trade_id_def)

lemma sample_book:
  "\<exists>e. book_fill dec28 0 (10 * dec_unit) (105 * dec_unit) (nat_text 1) sample_pushed = Inr e \<and>
     en_cash e = 3950 * dec_unit \<and> en_base_position e = 10 * dec_unit \<and> en_bar_budget e = 100 * dec_unit \<and>
     (\<exists>r. en_orders e = [r] \<and> or_status r = Fully_Filled \<and> or_oco_group_id r = [] \<and> or_closing_quantity r = 0 \<and>
          or_filled r = 10 * dec_unit) \<and> length (en_fills e) = 1 \<and>
     en_fee_engine e = fee_engine_new dec28 [] \<and> en_total_trades e = 0"
proof -
  have mul: "dec_mul (10 * dec_unit) (105 * dec_unit) = Some (1050 * dec_unit)" "dec_mul (105 * dec_unit) (10 * dec_unit) = Some (1050 * dec_unit)"
    by (simp_all add: dec_mul_def dec_fit_def dec_unit_def)
  have div: "dec_div (1050 * dec_unit) (10 * dec_unit) = Some (105 * dec_unit)"
    by (simp add: dec_div_def dec_fit_def dec_quot_def dec_unit_def)
  have fit: "dec_fit (5000 * dec_unit - 1050 * dec_unit) = Some (3950 * dec_unit)" "dec_fit (10 * dec_unit) = Some (10 * dec_unit)"
    "dec_fit (1050 * dec_unit) = Some (1050 * dec_unit)" "dec_fit 0 = Some 0" "dec_fit (3950 * dec_unit) = Some (3950 * dec_unit)"
    by (simp_all add: dec_fit_def dec_unit_def)
  have tid: "checked_add_u64 1200000000 1 = Some 1200000001" by (simp add: checked_add_u64_def)
  show ?thesis
    by (simp add: book_fill_def sample_pushed_fields sample_order_fields mul div fit tid trade_balances_def apply_position_fill_def
        extend_position_def fee_apply_def fee_engine_new_def applied_default_def update_filled_order_def add_closing_def
        update_order_def d_zero_def Let_def)
qed

lemma sample_fill:
  "\<exists>e. try_fill dec28 nat_text sample_case sample_candle ClosePoint 0 sample_pushed = Inr e \<and>
     en_cash e = 3950 * dec_unit \<and> en_base_position e = 10 * dec_unit \<and> en_bar_budget e = 90 * dec_unit \<and>
     (\<exists>r. en_orders e = [r] \<and> or_status r = Fully_Filled \<and> or_filled r = 10 * dec_unit \<and> or_closing_quantity r = 0) \<and>
     length (en_fills e) = 1 \<and> en_fee_engine e = fee_engine_new dec28 [] \<and> en_total_trades e = 0 \<and>
     en_equity_curve e = [\<lparr>eq_time = nat_text 1, eq_equity = dec_text (5000 * dec_unit)\<rparr>]"
proof -
  obtain e r where book: "book_fill dec28 0 (10 * dec_unit) (105 * dec_unit) (nat_text 1) sample_pushed = Inr e"
    and e: "en_cash e = 3950 * dec_unit" "en_base_position e = 10 * dec_unit" "en_bar_budget e = 100 * dec_unit"
      "en_orders e = [r]" "length (en_fills e) = 1" "en_fee_engine e = fee_engine_new dec28 []" "en_total_trades e = 0"
    and r: "or_status r = Fully_Filled" "or_oco_group_id r = []" "or_closing_quantity r = 0" "or_filled r = 10 * dec_unit"
    using sample_book by blast
  have fill: "apply_fill dec28 0 (10 * dec_unit) (105 * dec_unit) (nat_text 1) sample_pushed = Inr e"
    unfolding apply_fill_def book by (simp add: e r status_closed_def finalize_closing_order_def d_zero_def Let_def)
  have price: "match_price dec28 sample_case 0 sample_candle ClosePoint sample_pushed = Inr (Some (105 * dec_unit), sample_pushed)"
    by (simp add: match_price_def sample_pushed_fields sample_order_fields apply_slippage_def sample_case_def sample_candle_def Let_def)
  have "dec_div (10 * dec_unit) dec_unit = Some (10 * dec_unit)" "dec_trunc (10 * dec_unit) = 10 * dec_unit"
    "dec_mul (10 * dec_unit) dec_unit = Some (10 * dec_unit)"
    by (simp_all add: dec_div_def dec_trunc_def dec_mul_def dec_fit_def dec_quot_def dec_unit_def)
  then have quantity: "fill_quantity dec28 sample_case 0 sample_pushed = Inr (Some (10 * dec_unit))"
    by (simp add: fill_quantity_def sample_pushed_fields sample_order_fields sample_case_def truncate_decimal_to_increment_def
        dmin_def d_zero_def map_err_def Let_def)
  have time: "event_time nat_text sample_candle ClosePoint = nat_text 1" by (simp add: event_time_def sample_candle_def)
  have budget: "dec_fit (90 * dec_unit) = Some (90 * dec_unit)" by (simp add: dec_fit_def dec_unit_def)
  have "mk_min_quantity (bc_market sample_case) = 0" by (simp add: sample_case_def)
  then have "try_fill dec28 nat_text sample_case sample_candle ClosePoint 0 sample_pushed = Inr (e\<lparr>en_bar_budget := 90 * dec_unit\<rparr>)"
    by (simp add: try_fill_def place_fill_def sample_pushed_fields sample_order_fields price quantity time fill e budget
        open_order_def d_zero_def Let_def del: nat_text.simps One_nat_def)
  moreover have "en_equity_curve e = [\<lparr>eq_time = nat_text 1, eq_equity = dec_text (5000 * dec_unit)\<rparr>]"
    using shape_book [OF book] by (simp add: shape_def sample_pushed_def push_order_def sample_engine_def Let_def)
  ultimately show ?thesis using e r by auto
qed

lemma sample_run:
  "\<exists>e. run_bars dec28 nat_text sample_case 0 (bc_candles sample_case) (engine_new dec28 sample_case) = Inr (Completed, 1, e) \<and>
     en_cash e = 3950 * dec_unit \<and> en_base_position e = 10 * dec_unit \<and> en_bar_budget e = 90 * dec_unit \<and>
     (\<exists>r. en_orders e = [r] \<and> or_status r = Fully_Filled \<and> or_filled r = 10 * dec_unit \<and> or_closing_quantity r = 0) \<and>
     length (en_fills e) = 1 \<and> en_fee_engine e = fee_engine_new dec28 [] \<and> en_total_trades e = 0 \<and>
     en_equity_curve e = [\<lparr>eq_time = nat_text 1, eq_equity = dec_text (5000 * dec_unit)\<rparr>]"
proof -
  obtain e where fill: "try_fill dec28 nat_text sample_case sample_candle ClosePoint 0 sample_pushed = Inr e"
    and e: "en_cash e = 3950 * dec_unit" "en_base_position e = 10 * dec_unit" "en_bar_budget e = 90 * dec_unit"
      "\<exists>r. en_orders e = [r] \<and> or_status r = Fully_Filled \<and> or_filled r = 10 * dec_unit \<and> or_closing_quantity r = 0"
      "length (en_fills e) = 1" "en_fee_engine e = fee_engine_new dec28 []" "en_total_trades e = 0"
      "en_equity_curve e = [\<lparr>eq_time = nat_text 1, eq_equity = dec_text (5000 * dec_unit)\<rparr>]"
    using sample_fill by blast
  have intents: "filter (\<lambda>it. it_bar_index it = 0) (bc_intents sample_case) = [sample_buy]"
    and buy: "it_action sample_buy \<noteq> ''cancel''" "it_atomic_group_id sample_buy = []"
    by (simp_all add: sample_case_def sample_buy_def)
  have "apply_bar_intents dec28 nat_text sample_case 0 sample_engine = Inr e"
    by (simp add: apply_bar_intents_def intents apply_intent_def buy sample_submit fill)
  moreover have "bc_candles sample_case = [sample_candle]" "bc_cancel_before_bar sample_case = None"
    by (simp_all add: sample_case_def)
  ultimately show ?thesis using e sample_bar by simp
qed

section \<open>Accounts\<close>





section \<open>Cancelling\<close>

definition cancelled_from :: "'d decimal_lib \<Rightarrow> 'd order_record \<Rightarrow> 'd order_record \<Rightarrow> bool" where
  "cancelled_from D r s \<longleftrightarrow> open_order D r \<and> or_status s = Order_Cancelled \<and> or_remaining s = d_zero D \<and>
     or_filled s = or_filled r \<and> or_order_id s = or_order_id r \<and> or_parent_order_id s = or_parent_order_id r"

text \<open>What a cancellation has done so far: orders are untouched or cancelled, and an open order whose parent was
  cancelled is still to be visited.\<close>

definition cancelling :: "'d decimal_lib \<Rightarrow> ('d, 't) engine \<Rightarrow> nat set \<Rightarrow> ('d, 't) engine \<Rightarrow> bool" where
  "cancelling D e0 todo e \<longleftrightarrow> length (en_orders e) = length (en_orders e0) \<and>
     (\<forall>j<length (en_orders e). en_orders e ! j = en_orders e0 ! j \<or> cancelled_from D (en_orders e0 ! j) (en_orders e ! j)) \<and>
     (\<forall>j<length (en_orders e). \<forall>k<length (en_orders e).
        open_order D (en_orders e ! j) \<and> or_parent_order_id (en_orders e ! j) = or_order_id (en_orders e ! k) \<and>
        cancelled_from D (en_orders e0 ! k) (en_orders e ! k) \<longrightarrow> j \<in> todo)"

lemma cancelled_closed: "cancelled_from D r s \<Longrightarrow> \<not> open_order D s"
  by (simp add: cancelled_from_def open_order_def)

lemma mark_cancelled_orders:
  assumes "i < length (en_orders e)" and "open_order D (en_orders e ! i)"
  shows "j \<noteq> i \<Longrightarrow> en_orders (mark_cancelled D tm i e) ! j = en_orders e ! j"
    and "cancelled_from D (en_orders e ! i) (en_orders (mark_cancelled D tm i e) ! i)"
  using assms by (auto simp: mark_cancelled_put put_order_def cancelled_from_def finalized_def)

lemma cancelling_step:
  assumes inv: "cancelling D e0 (set (i # todo)) e" and i: "i < length (en_orders e)" "open_order D (en_orders e ! i)"
  shows "cancelling D e0 (set (dependents_of D i (mark_cancelled D tm i e) @ todo)) (mark_cancelled D tm i e)"
proof -
  let ?e = "mark_cancelled D tm i e"
  note same = mark_cancelled_orders(1) [OF i, where tm = tm] and this' = mark_cancelled_orders(2) [OF i, where tm = tm]
  have unchanged: "en_orders e ! i = en_orders e0 ! i"
    using inv i cancelled_closed unfolding cancelling_def by blast
  have j: "j \<in> set (dependents_of D i ?e @ todo)"
    if "j < length (en_orders ?e)" "k < length (en_orders ?e)" "open_order D (en_orders ?e ! j)"
      "or_parent_order_id (en_orders ?e ! j) = or_order_id (en_orders ?e ! k)" "cancelled_from D (en_orders e0 ! k) (en_orders ?e ! k)" for j k
  proof (cases "k = i")
    case True
    then show ?thesis using that by (simp add: dependents_of_def)
  next
    case False
    have "j \<noteq> i" using that(3) cancelled_closed this' by auto
    then have "j \<in> set (i # todo)"
      using inv that same False unfolding cancelling_def by (metis mark_cancelled_length)
    with \<open>j \<noteq> i\<close> show ?thesis by simp
  qed
  have "en_orders ?e ! j = en_orders e0 ! j \<or> cancelled_from D (en_orders e0 ! j) (en_orders ?e ! j)" if "j < length (en_orders ?e)" for j
    using that inv this' unchanged same [of j] by (cases "j = i") (auto simp: cancelling_def)
  with j inv show ?thesis unfolding cancelling_def by (simp (no_asm_simp)) (simp add: cancelling_def)
qed

lemma cancel_orders_cancelling:
  "cancelling D e0 (set todo) e \<Longrightarrow> cancelling D e0 {} (cancel_orders D tm todo e)"
proof (induction D tm todo e rule: cancel_orders.induct)
  case (2 D tm i todo e)
  show ?case
  proof (cases "i < length (en_orders e) \<and> open_order D (en_orders e ! i)")
    case True
    then show ?thesis using 2 cancelling_step [OF 2(3)] by (simp add: Let_def)
  next
    case False
    then have "cancelling D e0 (set todo) e"
      using 2(3) unfolding cancelling_def by (metis set_ConsD)
    with 2(2) [OF False] False show ?thesis by auto
  qed
qed simp

lemma cancel_orders_closes: "\<not> open_order D (en_orders e ! i) \<Longrightarrow> \<not> open_order D (en_orders (cancel_orders D tm js e) ! i)"
proof (induction D tm js e rule: cancel_orders.induct)
  case (2 D tm k todo e)
  show ?case
  proof (cases "k < length (en_orders e) \<and> open_order D (en_orders e ! k)")
    case True
    have "\<not> open_order D (en_orders (mark_cancelled D tm k e) ! i)"
    proof (cases "i = k")
      case False
      then show ?thesis using mark_cancelled_orders(1) [of k e D i tm] True 2(3) by simp
    qed (use True 2(3) in auto)
    with 2 True show ?thesis by (simp add: Let_def)
  next
    case False
    with 2 show ?thesis by auto
  qed
qed simp

text \<open>C6: Cancelling closes an order together with everything that waits for it: afterwards the order is closed,
  every other order is either exactly as before or was open and is cancelled now, and no order is left open whose
  parent was cancelled. What had been filled stays filled. It ends even when orders wait for each other.\<close>

theorem cancel_closes_family:
  assumes "i < length (en_orders e)" and "e' = cancel_order D i tm e"
  shows "length (en_orders e') = length (en_orders e) \<and> \<not> open_order D (en_orders e' ! i) \<and>
    (\<forall>j<length (en_orders e). en_orders e' ! j = en_orders e ! j \<or> cancelled_from D (en_orders e ! j) (en_orders e' ! j)) \<and>
    (\<forall>j<length (en_orders e). \<forall>k<length (en_orders e).
       open_order D (en_orders e' ! j) \<and> or_parent_order_id (en_orders e' ! j) = or_order_id (en_orders e' ! k) \<longrightarrow>
       en_orders e' ! k = en_orders e ! k)"
proof -
  have "cancelling D e (set [i]) e"
    using cancelled_closed by (auto simp: cancelling_def cancelled_from_def open_order_def)
  then have "cancelling D e {} e'" unfolding assms(2) cancel_order_def by (rule cancel_orders_cancelling)
  moreover have "\<not> open_order D (en_orders e' ! i)"
  proof (cases "open_order D (en_orders e ! i)")
    case True
    let ?e1 = "mark_cancelled D tm i e"
    have "\<not> open_order D (en_orders ?e1 ! i)" by (rule cancelled_closed [OF mark_cancelled_orders(2) [OF assms(1) True]])
    from cancel_orders_closes [OF this] show ?thesis
      using assms(1) True by (simp add: assms(2) cancel_order_def Let_def)
  next
    case False
    then show ?thesis by (simp add: assms(2) cancel_order_def)
  qed
  ultimately show ?thesis unfolding cancelling_def by auto
qed

text \<open>An order and one that waits for it.\<close>

definition sample_family :: "(int, nat) engine" where
  "sample_family = push_order (sample_order\<lparr>or_order_id := 1100000002, or_parent_order_id := 1100000001\<rparr>) False sample_pushed"

theorem cancel_closes_family_witness:
  "list_all (\<lambda>r. \<not> open_order dec28 r) (en_orders (cancel_order dec28 0 ''t'' sample_family))"
proof -
  let ?e = "cancel_order dec28 0 ''t'' sample_family"
  have orders: "en_orders sample_family = [sample_order, sample_order\<lparr>or_order_id := 1100000002, or_parent_order_id := 1100000001\<rparr>]"
    by (simp add: sample_family_def sample_pushed_fields)
  note fam = cancel_closes_family [of 0 sample_family ?e dec28 "''t''", OF _ refl, unfolded orders]
  have "en_orders ?e ! 0 \<noteq> sample_order"
    using fam by (auto simp: open_order_def sample_order_fields d_zero_def)
  moreover have "or_order_id (en_orders ?e ! 0) = 1100000001"
    using fam by (auto simp: cancelled_from_def sample_order_fields)
  moreover have "or_parent_order_id (en_orders ?e ! 1) = 1100000001"
    using fam by (auto simp: cancelled_from_def sample_order_fields less_Suc_eq)
  ultimately have "\<not> open_order dec28 (en_orders ?e ! 1)" and "\<not> open_order dec28 (en_orders ?e ! 0)" and "length (en_orders ?e) = 2"
    using fam by (auto simp: less_Suc_eq numeral_2_eq_2)
  then show ?thesis by (auto simp: list_all_length less_Suc_eq numeral_2_eq_2)
qed

section \<open>Volume and history\<close>

definition order_identity ::
    "'d order_record \<Rightarrow> u64 \<times> string \<times> string \<times> string \<times> 'd \<times> 'd \<times> 'd \<times> bool \<times> string \<times> string" where
  "order_identity r = (or_order_id r, or_client_order_id r, or_side r, or_order_type r, or_quantity r, or_limit_price r,
     or_stop_price r, or_reduce_only r, or_oco_group_id r, or_submitted_at r)"

text \<open>A booked fill changes one order, whose identity stays, and appends to the list of fills.\<close>

lemma book_fill_order:
  assumes "book_fill D i q p tm e = Inr e1"
  shows "\<exists>r. en_orders e1 = (en_orders e)[i := r] \<and> order_identity r = order_identity (en_orders e ! i) \<and>
    d_add D (or_filled (en_orders e ! i)) q = Some (or_filled r)"
    and "\<exists>f. en_fills e1 = en_fills e @ [f]"
proof -
  have "(\<exists>r. en_orders e1 = (en_orders e)[i := r] \<and> order_identity r = order_identity (en_orders e ! i) \<and>
    d_add D (or_filled (en_orders e ! i)) q = Some (or_filled r)) \<and> (\<exists>f. en_fills e1 = en_fills e @ [f])"
    using assms
  proof (rule book_fill_steps)
    fix n e2 cq realized e3 pnl fees fe cash ord1 ord2 trade_id
    assume bal: "trade_balances D (or_side (en_orders e ! i)) q n e = Inr e2"
      and pos: "apply_position_fill D (or_side (en_orders e ! i)) q p e2 = Inr ((cq, realized), e3)"
      and ord1: "update_filled_order D q n tm (en_orders e ! i) = Inr ord1" and ord2: "add_closing D cq realized ord1 = Inr ord2"
      and e1: "e1 = (update_order i (\<lambda>_. ord2) e3)
       \<lparr>en_realized_pnl := pnl, en_fee_engine := fe, en_cash := cash, en_next_trade_id := trade_id,
        en_fills := en_fills e3 @ [fill_output_of D ord2
          \<lparr>fv_trade_id = trade_id, fv_price = p, fv_quantity = q, fv_quote_quantity = n,
           fv_time = tm, fv_fees = fees, fv_realized_pnl = realized\<rparr>]\<rparr>"
    have "en_orders e3 = en_orders e" using shape_balances [OF bal] shape_position(2) [OF pos] by simp
    moreover have "en_fills e3 = en_fills e"
      using apply_position_fill_result(1) [OF pos] bal by (auto simp: trade_balances_def result_simps split: if_splits)
    moreover have "order_identity ord1 = order_identity (en_orders e ! i)" "d_add D (or_filled (en_orders e ! i)) q = Some (or_filled ord1)"
      using ord1 by (auto simp: update_filled_order_def result_simps order_identity_def)
    moreover have "order_identity ord2 = order_identity ord1" "or_filled ord2 = or_filled ord1"
      using ord2 by (auto simp: add_closing_def result_simps order_identity_def split: if_splits)
    ultimately have "en_orders e1 = (en_orders e)[i := ord2] \<and> order_identity ord2 = order_identity (en_orders e ! i) \<and>
        d_add D (or_filled (en_orders e ! i)) q = Some (or_filled ord2)" "\<exists>f. en_fills e1 = en_fills e @ [f]"
      unfolding e1 by (simp_all add: update_order_def)
    then show ?thesis by blast
  qed
  then show "\<exists>r. en_orders e1 = (en_orders e)[i := r] \<and> order_identity r = order_identity (en_orders e ! i) \<and>
    d_add D (or_filled (en_orders e ! i)) q = Some (or_filled r)" and "\<exists>f. en_fills e1 = en_fills e @ [f]"
    by simp_all
qed

text \<open>What may happen to an order and the fills over time.\<close>

definition order_grown :: "'d decimal_lib \<Rightarrow> 'd order_record \<Rightarrow> 'd order_record \<Rightarrow> bool" where
  "order_grown D r s \<longleftrightarrow> order_identity s = order_identity r \<and> d_le D (or_filled r) (or_filled s) \<and>
     (\<not> open_order D r \<longrightarrow> or_remaining s = or_remaining r \<and> or_filled s = or_filled r \<and> or_status s = or_status r \<and>
        or_filled_at s = or_filled_at r \<and> or_average_price s = or_average_price r)"

definition grown :: "'d decimal_lib \<Rightarrow> ('d, 't) engine \<Rightarrow> ('d, 't) engine \<Rightarrow> bool" where
  "grown D e0 e \<longleftrightarrow> (\<exists>fs. en_fills e = en_fills e0 @ fs) \<and> length (en_orders e0) \<le> length (en_orders e) \<and>
     (\<forall>i<length (en_orders e0). order_grown D (en_orders e0 ! i) (en_orders e ! i))"

lemma grown_refl: "grown D e e"
  by (simp add: grown_def order_grown_def)

text \<open>One order at a time: a change that keeps or extends an order keeps the history.\<close>

lemma grown_update:
  assumes "grown D e0 e" and "en_orders e' = (en_orders e)[i := r]" and "\<exists>fs. en_fills e' = en_fills e @ fs"
    and "\<And>r0. order_grown D r0 (en_orders e ! i) \<Longrightarrow> order_grown D r0 r"
  shows "grown D e0 e'"
proof -
  have "order_grown D (en_orders e0 ! j) (en_orders e' ! j)" if "j < length (en_orders e0)" for j
    using assms(1,2,4) that by (cases "j = i") (auto simp: grown_def)
  moreover have "\<exists>fs. en_fills e' = en_fills e0 @ fs" using assms(1,3) by (auto simp: grown_def)
  ultimately show ?thesis using assms(1,2) by (simp add: grown_def)
qed

lemma grown_update_order:
  assumes "grown D e0 e" and "\<And>r0. order_grown D r0 (en_orders e ! i) \<Longrightarrow> order_grown D r0 (f (en_orders e ! i))"
  shows "grown D e0 (update_order i f e)"
  by (rule grown_update [OF assms(1) _ _ assms(2), where i = i]) (simp_all add: update_order_def)

lemma grown_frame: "grown D e0 e \<Longrightarrow> en_orders e' = en_orders e \<Longrightarrow> en_fills e' = en_fills e \<Longrightarrow> grown D e0 e'"
  by (simp add: grown_def)

lemma put_order_fields [simp]: "en_fills (put_order D i r e) = en_fills e" "en_orders (put_order D i r e) = (en_orders e)[i := finalized D r]"
  by (simp_all add: put_order_def)

lemma order_grown_finalized [simp]: "order_grown D r0 (finalized D r) = order_grown D r0 r"
  by (simp add: order_grown_def finalized_def order_identity_def)

lemma order_grown_open:
  assumes "open_order D x" and "order_identity r = order_identity x" and "d_le D (or_filled x) (or_filled r)"
    and "order_grown D r0 x"
  shows "order_grown D r0 r"
  using assms by (auto simp: order_grown_def open_order_def)

lemma grown_invariant:
  assumes order: "decimal_order D"
  shows "engine_invariant D (grown D e0)"
proof (intro engine_invariant.intro match_invariant.intro engine_invariant_axioms.intro)
  show "decimal_order D" by (rule order)
  show "grown D e0 (warn_once k m e)" if "grown D e0 e" for e k m
    using that by (rule grown_frame) (simp_all add: warn_once_def Let_def split: prod.split)
  show "grown D e0 (update_order i (\<lambda>r. r\<lparr>or_stop_triggered := True\<rparr>) e)" if "grown D e0 e" for e i
    using that by (rule grown_update_order) (simp add: order_grown_def order_identity_def)
  show "grown D e0 (update_order i (\<lambda>r. r\<lparr>or_parent_order_id := or_order_id (en_orders e ! j)\<rparr>) e)" if "grown D e0 e" for e i j
    using that by (rule grown_update_order) (simp add: order_grown_def order_identity_def)
  show "grown D e0 (update_order i (\<lambda>r. r\<lparr>or_has_children := True\<rparr>) e)" if "grown D e0 e" for e i
    using that by (rule grown_update_order) (simp add: order_grown_def order_identity_def)
  show "grown D e0 (push_order r d e)" if "grown D e0 e" for e r d
    using that by (auto simp: grown_def push_order_def Let_def nth_append)
  show "grown D e0 (e\<lparr>en_matching_order := m, en_atomic_groups := g, en_current_bar := c, en_bar_budget := b, en_equity_curve := q\<rparr>)"
    if "grown D e0 e" for e m g c b q
    using that by (rule grown_frame) simp_all
  show "grown D e0 (mark_cancelled D tm i e)" if "grown D e0 e" "i < length (en_orders e)" "open_order D (en_orders e ! i)" for e i tm
    unfolding mark_cancelled_put [OF that(2)]
    by (rule grown_update [OF that(1) put_order_fields(2)], simp, unfold order_grown_finalized)
      (rule order_grown_open [OF that(3)], simp_all add: order_identity_def)
  show "grown D e0 (settle_fill D i b e1)"
    if "grown D e0 e" "fill_ready D i q p e" "book_fill D i q p tm e = Inr e1" for e i q p tm e1 b
  proof -
    note fill = that
    obtain r where r: "en_orders e1 = (en_orders e)[i := r]" "order_identity r = order_identity (en_orders e ! i)"
      "d_add D (or_filled (en_orders e ! i)) q = Some (or_filled r)"
      using book_fill_order(1) [OF fill(3)] by blast
    have i: "i < length (en_orders e)" and open': "open_order D (en_orders e ! i)" and "0 \<le> d_val D q"
      using fill(2) decimal_order.val_zero [OF order] by (auto simp: fill_ready_def open_order_def Let_def)
    then have "d_le D (or_filled (en_orders e ! i)) (or_filled r)" using decimal_order.add_ge [OF order r(3)] by simp
    then have "order_grown D r0 (finalized D r)" if "order_grown D r0 (en_orders e ! i)" for r0
      using order_grown_open [OF open' r(2) _ that] by simp
    moreover have "en_orders (settle_fill D i b e1) = (en_orders e)[i := finalized D r]" "en_fills (settle_fill D i b e1) = en_fills e1"
      unfolding settle_put [OF i r(1)] by simp_all
    ultimately show ?thesis
      using book_fill_order(2) [OF fill(3)] by (intro grown_update [OF fill(1), of _ i "finalized D r"]) auto
  qed
qed

interpretation grown28: engine_invariant dec28 "grown dec28 e0"
  by (rule grown_invariant) (rule exact28.decimal_order_axioms)

text \<open>What has happened in a replay stays: over any further bars the reported fills only get more, every
  order keeps its identity and its filled quantity never falls, and an order that is filled or cancelled
  is never changed again.\<close>

theorem closed_orders_are_final:
  assumes "decimal_order D" and "engine_wf e" and "run_bars D tx bc n cs e = Inr (status, m, e')"
  shows "(\<exists>fs. en_fills e' = en_fills e @ fs) \<and>
    (\<forall>i<length (en_orders e). i < length (en_orders e') \<and>
       order_identity (en_orders e' ! i) = order_identity (en_orders e ! i) \<and>
       d_le D (or_filled (en_orders e ! i)) (or_filled (en_orders e' ! i)) \<and>
       (\<not> open_order D (en_orders e ! i) \<longrightarrow>
          or_remaining (en_orders e' ! i) = or_remaining (en_orders e ! i) \<and> or_filled (en_orders e' ! i) = or_filled (en_orders e ! i) \<and>
          or_status (en_orders e' ! i) = or_status (en_orders e ! i) \<and> or_filled_at (en_orders e' ! i) = or_filled_at (en_orders e ! i)))"
proof -
  note inv = grown_invariant [OF assms(1), of e]
  have "engine_invariant.good (grown D e) e" using assms(2) by (simp add: engine_invariant.good_def [OF inv] grown_refl)
  then have "grown D e e'" using engine_invariant.run_bars_inv [OF inv assms(3)] by (simp add: engine_invariant.good_def [OF inv])
  then show ?thesis by (auto simp: grown_def order_grown_def)
qed

theorem closed_orders_are_final_witness:
  "\<exists>e. run_bars dec28 nat_text (sample_case\<lparr>bc_intents := []\<rparr>) 0 [] sample_pushed = Inr (Completed, 0, e) \<and>
    order_identity (en_orders e ! 0) = order_identity sample_order"
proof -
  have wf: "engine_wf sample_pushed"
    by (auto simp: engine_wf_def sample_pushed_def push_order_def sample_engine_def engine_new_def bm_get_def Let_def split: if_splits)
  have run: "run_bars dec28 nat_text (sample_case\<lparr>bc_intents := []\<rparr>) 0 [] sample_pushed = Inr (Completed, 0, sample_pushed)"
    by simp
  from closed_orders_are_final [OF exact28.decimal_order_axioms wf run] run show ?thesis
    by (auto simp: sample_pushed_fields)
qed

text \<open>What a bar has filled and what is left of its volume.\<close>

definition volume_used :: "'d decimal_lib \<Rightarrow> rat \<Rightarrow> ('d, 't) engine \<Rightarrow> bool" where
  "volume_used D k e \<longleftrightarrow> orders_sum (\<lambda>r. d_val D (or_filled r)) (en_orders e) + d_val D (en_bar_budget e) = k \<and>
     0 \<le> d_val D (en_bar_budget e)"

lemma volume_put:
  assumes "i < length (en_orders e)"
  shows "orders_sum (\<lambda>r. d_val D (or_filled r)) ((en_orders e)[i := finalized D r]) =
    orders_sum (\<lambda>r. d_val D (or_filled r)) (en_orders e) + d_val D (or_filled r) - d_val D (or_filled (en_orders e ! i))"
  using assms by (simp add: orders_sum_update finalized_def)

lemma volume_match:
  assumes exact: "decimal_exact D"
  shows "match_invariant D (volume_used D k)"
proof (intro match_invariant.intro)
  show order: "decimal_order D" using exact by (simp add: decimal_exact_def)
  show "volume_used D k (warn_once key m e)" if "volume_used D k e" for e key m
    using that by (simp add: volume_used_def warn_once_def Let_def split: prod.split)
  show "volume_used D k (update_order i (\<lambda>r. r\<lparr>or_stop_triggered := True\<rparr>) e)" if "volume_used D k e" "i < length (en_orders e)" for e i
    using that by (simp add: volume_used_def update_order_def orders_sum_update)
  show "volume_used D k (mark_cancelled D tm i e)" if "volume_used D k e" "i < length (en_orders e)" for e i tm
    using that volume_put [OF that(2)] by (simp add: mark_cancelled_put volume_used_def) (simp add: put_order_def)
  show "volume_used D k (settle_fill D i b e1)"
    if "volume_used D k e" "fill_ready D i q p e" "book_fill D i q p tm e = Inr e1" "d_sub D (en_bar_budget e) q = Some b" for e i q p tm e1 b
  proof -
    note fill = that
    obtain r where r: "en_orders e1 = (en_orders e)[i := r]" "d_add D (or_filled (en_orders e ! i)) q = Some (or_filled r)"
      using book_fill_order(1) [OF fill(3)] by blast
    have i: "i < length (en_orders e)" and "d_le D q (en_bar_budget e)" using fill(2) by (auto simp: fill_ready_def Let_def)
    then show ?thesis
      unfolding settle_put [OF i r(1)] volume_used_def
      using fill(1) volume_put [OF i, of D r] decimal_exact.sub_exact [OF exact fill(4)] decimal_exact.add_exact [OF exact r(2)]
      by (simp add: volume_used_def)
  qed
qed

interpretation volume28: match_invariant dec28 "volume_used dec28 k"
  by (rule volume_match) (rule exact28.decimal_exact_axioms)



end
