(* ===== verification/Backtest_Report.thy ===== *)
theory Backtest_Report
  imports Backtest_Replay
begin

text \<open>
  What a replay reports: the indicators (\<open>crates/jftrade-backtest/src/indicators.rs\<close>), drawdowns
  (\<open>report.rs\<close>), the fingerprint (\<open>fingerprint.rs\<close>), \<open>run_case\<close> (\<open>engine.rs\<close>) and \<open>run_corpus\<close>
  (\<open>lib.rs\<close>). The JSON text of a report is a parameter \<open>js\<close> that answers its bytes or an error.
\<close>

section \<open>Indicators\<close>

text \<open>The loop of \<open>simple_moving_average\<close> over the index, with the running sum and the output so far.\<close>

definition sma_step :: "'d decimal_lib \<Rightarrow> 'd list \<Rightarrow> nat \<Rightarrow> 'd \<times> string option list \<Rightarrow> nat \<Rightarrow>
    backtest_error + 'd \<times> string option list" where
  "sma_step D xs period so i =
     (let (s0, out) = so
      in rbind (arith (d_add D s0 (xs ! i)) ''SMA sum overflow'') (\<lambda>s1.
         rbind (if period \<le> i then arith (d_sub D s1 (xs ! (i - period))) ''SMA sum underflow'' else Inr s1) (\<lambda>s.
         if i + 1 < period then Inr (s, out @ [None])
         else rbind (arith (d_div D s (d_new D (int period) 0)) ''SMA division error'') (\<lambda>avg.
              Inr (s, out @ [Some (to_storage_text D (d_trunc_scale D 8 avg))])))))"

definition simple_moving_average :: "'d decimal_lib \<Rightarrow> 'd list \<Rightarrow> nat \<Rightarrow> backtest_error + string option list" where
  "simple_moving_average D xs period =
     rbind (try_fold (sma_step D xs period) (d_zero D, []) [0..<length xs]) (\<lambda>r. Inr (snd r))"

definition ema_scale :: int where "ema_scale = 100000000"

text \<open>Rust's division of integers truncates.\<close>

definition trunc_quot :: "int \<Rightarrow> int \<Rightarrow> int" where
  "trunc_quot a b = sgn a * sgn b * (\<bar>a\<bar> div \<bar>b\<bar>)"

definition ema_alpha :: "nat \<Rightarrow> int" where
  "ema_alpha period = trunc_quot (2 * ema_scale) (int period + 1)"

definition ema_next :: "int \<Rightarrow> int \<Rightarrow> int \<Rightarrow> int" where
  "ema_next alpha cur v = trunc_quot (v * alpha + cur * (ema_scale - alpha)) ema_scale"

definition ema_scaled :: "'d decimal_lib \<Rightarrow> 'd \<Rightarrow> string \<Rightarrow> string \<Rightarrow> backtest_error + int" where
  "ema_scaled D v overflow conversion =
     rbind (arith (d_mul D v (d_new D 100000000 0)) overflow) (\<lambda>x. arith (d_to_i128 D x) conversion)"

definition ema_step :: "'d decimal_lib \<Rightarrow> int \<Rightarrow> 'd \<times> string option list \<Rightarrow> 'd \<Rightarrow> backtest_error + 'd \<times> string option list" where
  "ema_step D alpha co v =
     (let (current, out) = co
      in rbind (ema_scaled D (d_trunc_scale D 8 v) ''EMA value overflow'' ''EMA value i128 conversion error'') (\<lambda>val_scaled.
         rbind (ema_scaled D current ''EMA current overflow'' ''EMA current i128 conversion error'') (\<lambda>cur_scaled.
         let current' = d_new D (ema_next alpha cur_scaled val_scaled) 8
         in Inr (current', out @ [Some (to_storage_text D current')]))))"

definition exponential_moving_average :: "'d decimal_lib \<Rightarrow> 'd list \<Rightarrow> nat \<Rightarrow> backtest_error + string option list" where
  "exponential_moving_average D xs period =
     (case xs of
        [] \<Rightarrow> Inr []
      | v # vs \<Rightarrow>
          let current = d_trunc_scale D 8 v
          in rbind (try_fold (ema_step D (ema_alpha period)) (current, [Some (to_storage_text D current)]) vs) (\<lambda>r. Inr (snd r)))"

definition calculate_indicators :: "'d decimal_lib \<Rightarrow> 'd list \<Rightarrow> nat list \<Rightarrow> backtest_error + indicator_output list" where
  "calculate_indicators D closes periods =
     try_fold (\<lambda>out period.
       if period = 0 then Inl (Invalid_Input ''indicator period must be positive'')
       else rbind (simple_moving_average D closes period) (\<lambda>sma.
            rbind (exponential_moving_average D closes period) (\<lambda>ema.
            Inr (out @ [\<lparr>io_kind = ''sma'', io_period = period, io_values = sma\<rparr>,
                        \<lparr>io_kind = ''ema'', io_period = period, io_values = ema\<rparr>])))) [] periods"

section \<open>Drawdown\<close>

definition metric_text :: "'d decimal_lib \<Rightarrow> 'd \<Rightarrow> string" where
  "metric_text D v =
     (let trimmed = trim_end_char (CHR ''.'') (trim_end_char (CHR ''0'') (d_fmt D 12 (d_round_dp D 12 v)))
      in if trimmed = [] \<or> trimmed = ''-0'' then ''0'' else trimmed)"

record 'd drawdown_state =
  ds_peak :: 'd
  ds_maximum :: 'd
  ds_current :: 'd
  ds_curve :: "drawdown_point list"

text \<open>One point; the subtraction is the operator of \<open>Decimal\<close>, which panics on overflow.\<close>

definition drawdown_step :: "'d decimal_lib \<Rightarrow> 'd drawdown_state \<Rightarrow> equity_point \<Rightarrow> backtest_error + 'd drawdown_state" where
  "drawdown_step D s point =
     rbind (ok_or (d_parse D (eq_equity point)) (Decimal_Error (eq_equity point))) (\<lambda>equity.
     let peak = (if d_lt D (ds_peak s) equity then equity else ds_peak s)
     in rbind (if d_lt D (d_zero D) peak \<and> d_lt D equity peak
               then rbind (ok_or (d_sub D peak equity) (Panic ''Subtraction overflowed'')) (\<lambda>gap.
                    arith (d_div D gap peak) ''peak division failed'')
               else Inr (d_zero D)) (\<lambda>current.
        Inr \<lparr>ds_peak = peak, ds_maximum = dmax D (ds_maximum s) current, ds_current = current,
             ds_curve = ds_curve s @ [\<lparr>dd_time = eq_time point, dd_drawdown = metric_text D current\<rparr>]\<rparr>))"

definition drawdown_metrics :: "'d decimal_lib \<Rightarrow> equity_point list \<Rightarrow> backtest_error + string \<times> string \<times> drawdown_point list" where
  "drawdown_metrics D curve =
     (case curve of
        [] \<Rightarrow> Inr (''0'', ''0'', [])
      | p # _ \<Rightarrow>
          rbind (ok_or (d_parse D (eq_equity p)) (Decimal_Error (eq_equity p))) (\<lambda>peak.
          rbind (try_fold (drawdown_step D)
                   \<lparr>ds_peak = peak, ds_maximum = d_zero D, ds_current = d_zero D, ds_curve = []\<rparr> curve) (\<lambda>s.
          Inr (metric_text D (ds_maximum s), metric_text D (ds_current s), ds_curve s))))"

section \<open>Fingerprint\<close>

definition fnv1a :: "8 word list \<Rightarrow> u64" where
  "fnv1a bytes = foldl (\<lambda>h b. (xor h (ucast b)) * 0x00000100000001b3) 0xcbf29ce484222325 bytes"

definition hex_digit :: "nat \<Rightarrow> char" where
  "hex_digit n = (''0123456789abcdef'') ! n"

text \<open>\<open>{:016x}\<close>: the sixteen hexadecimal digits of a word, the most significant first.\<close>

definition hex16 :: "u64 \<Rightarrow> string" where
  "hex16 h = map (\<lambda>i. hex_digit (unat (and (drop_bit (4 * (15 - i)) h) 15))) [0..<16]"

definition populate_result_hash :: "(backtest_output \<Rightarrow> string + 8 word list) \<Rightarrow> backtest_output \<Rightarrow> backtest_error + backtest_output" where
  "populate_result_hash js out =
     (let cleared = out\<lparr>bo_result_hash := []\<rparr>
      in rbind (map_err Json_Error (js cleared)) (\<lambda>bytes.
         Inr (cleared\<lparr>bo_result_hash := ''fnv1a64:'' @ hex16 (fnv1a bytes)\<rparr>)))"

section \<open>A case\<close>

definition order_output_of :: "'d decimal_lib \<Rightarrow> 'd order_record \<Rightarrow> order_output" where
  "order_output_of D r =
     \<lparr>oo_order_id = nat_text (unat (or_order_id r)), oo_client_order_id = or_client_order_id r, oo_side = or_side r,
      oo_order_type = or_order_type r, oo_quantity = to_storage_text D (or_quantity r), oo_status = status_text (or_status r),
      oo_filled_quantity = to_storage_text D (or_filled r), oo_filled_price = to_storage_text D (or_average_price r),
      oo_submitted_at = or_submitted_at r, oo_filled_at = or_filled_at r, oo_reduce_only = or_reduce_only r\<rparr>"

definition finalize_orders :: "'d decimal_lib \<Rightarrow> ('d, 't) engine \<Rightarrow> ('d, 't) engine" where
  "finalize_orders D e = fold (finalize_closing_order D) [0..<length (en_orders e)] e"

definition last_close_of :: "'d decimal_lib \<Rightarrow> ('d, 't) backtest_case \<Rightarrow> nat \<Rightarrow> 'd" where
  "last_close_of D bc processed =
     (let i = processed - 1 in if i < length (bc_candles bc) then cd_close (bc_candles bc ! i) else d_zero D)"

definition win_rate_text :: "'d decimal_lib \<Rightarrow> ('d, 't) engine \<Rightarrow> backtest_error + string" where
  "win_rate_text D e =
     (if en_total_trades e = 0 then Inr ''0''
      else rbind (arith (d_div D (d_new D (int (en_winning_trades e)) 0) (d_new D (int (en_total_trades e)) 0)) ''win rate division error'') (\<lambda>rate.
           Inr (metric_text D rate)))"

text \<open>The report of a finished replay; \<open>e\<close> has its orders finalized.\<close>

definition case_output :: "'d decimal_lib \<Rightarrow> (backtest_output \<Rightarrow> string + 8 word list) \<Rightarrow> ('d, 't) backtest_case \<Rightarrow>
    run_status \<Rightarrow> nat \<Rightarrow> ('d, 't) engine \<Rightarrow> backtest_error + backtest_output" where
  "case_output D js bc status processed e =
     rbind (arith (d_mul D (en_base_position e) (last_close_of D bc processed)) ''last position value overflow'') (\<lambda>position_val.
     rbind (arith (d_add D (en_cash e) position_val) ''final equity overflow'') (\<lambda>final_equity.
     rbind (drawdown_metrics D (en_equity_curve e)) (\<lambda>(max_drawdown, current_drawdown, drawdown_curve).
     rbind (arith (d_add D (fe_broker_total (en_fee_engine e)) (fe_market_total (en_fee_engine e))) ''total fees overflow'') (\<lambda>total_fees.
     rbind (win_rate_text D e) (\<lambda>win_rate.
     rbind (calculate_indicators D (map cd_close (take processed (bc_candles bc))) (bc_indicator_periods bc)) (\<lambda>indicators.
     populate_result_hash js
       \<lparr>bo_id = bc_id bc, bo_status = status, bo_processed_bars = processed, bo_cash = to_storage_text D (en_cash e),
        bo_base_position = to_storage_text D (en_base_position e), bo_final_equity = to_storage_text D final_equity,
        bo_realized_pnl = to_storage_text D (en_realized_pnl e),
        bo_total_broker_fees = to_storage_text D (fe_broker_total (en_fee_engine e)),
        bo_total_market_fees = to_storage_text D (fe_market_total (en_fee_engine e)),
        bo_total_fees = to_storage_text D total_fees, bo_total_fills = length (en_fills e),
        bo_total_trades = en_total_trades e, bo_winning_trades = en_winning_trades e, bo_win_rate = win_rate,
        bo_max_drawdown = max_drawdown, bo_current_drawdown = current_drawdown,
        bo_orders = map (order_output_of D) (en_orders e), bo_fills = en_fills e, bo_equity_curve = en_equity_curve e,
        bo_drawdown_curve = drawdown_curve, bo_fee_breakdown = fee_breakdown_of D (en_fee_engine e),
        bo_indicators = indicators, bo_warnings = en_warnings e, bo_result_hash = []\<rparr>))))))"

definition run_case :: "'d decimal_lib \<Rightarrow> ('t::linorder \<Rightarrow> string) \<Rightarrow> (backtest_output \<Rightarrow> string + 8 word list) \<Rightarrow>
    ('d, 't) backtest_case \<Rightarrow> backtest_error + backtest_output" where
  "run_case D tx js bc =
     rbind (validate_case D bc) (\<lambda>_.
     rbind (run_bars D tx bc 0 (bc_candles bc) (engine_new D bc)) (\<lambda>(status, processed, e).
     case_output D js bc status processed (finalize_orders D e)))"

section \<open>A corpus\<close>

record ('d, 't) corpus_input =
  ci_version :: nat
  ci_cases :: "('d, 't) backtest_case list"

record corpus_output =
  co_version :: nat
  co_execution_model :: string
  co_cases :: "backtest_output list"

definition corpus_version :: nat where "corpus_version = 1"

definition execution_model :: string where "execution_model = ''conservative-bar-v1''"

fun check_ids :: "string list \<Rightarrow> string list \<Rightarrow> backtest_error + unit" where
  "check_ids seen [] = Inr ()"
| "check_ids seen (i # is) =
     (let (new, seen') = bs_insert i seen
      in if new then check_ids seen' is else Inl (Invalid_Input (''duplicate case id '' @ i)))"

definition run_corpus :: "'d decimal_lib \<Rightarrow> ('t::linorder \<Rightarrow> string) \<Rightarrow> (backtest_output \<Rightarrow> string + 8 word list) \<Rightarrow>
    ('d, 't) corpus_input \<Rightarrow> backtest_error + corpus_output" where
  "run_corpus D tx js input =
     (if ci_version input \<noteq> corpus_version
      then Inl (Invalid_Input (''unsupported corpus version '' @ nat_text (ci_version input) @ ''; expected '' @ nat_text corpus_version))
      else rbind (check_ids [] (map bc_id (ci_cases input))) (\<lambda>_.
           rbind (try_fold (\<lambda>out bc. rbind (run_case D tx js bc) (\<lambda>r. Inr (out @ [r]))) [] (ci_cases input)) (\<lambda>cases.
           Inr \<lparr>co_version = ci_version input, co_execution_model = execution_model, co_cases = cases\<rparr>)))"

section \<open>Trade statistics\<close>

text \<open>Every order that closed a part of the position is counted once when the replay has ended.\<close>

definition counted :: "'d decimal_lib \<Rightarrow> ('d, 't) engine \<Rightarrow> bool" where
  "counted D e \<longleftrightarrow> (\<forall>r\<in>set (en_orders e). or_closing_finalized r \<longrightarrow> d_lt D (d_zero D) (or_closing_quantity r)) \<and>
     of_nat (en_total_trades e) = orders_sum trade_count (en_orders e) \<and>
     of_nat (en_winning_trades e) = orders_sum (\<lambda>r. if or_closing_finalized r \<and> d_lt D (d_zero D) (or_closing_pnl r) then 1 else 0) (en_orders e)"

definition closing_part :: "'d order_record \<Rightarrow> 'd \<times> 'd" where
  "closing_part r = (or_closing_quantity r, or_closing_pnl r)"

lemma finalize_counted:
  assumes "counted D e" and i: "i < length (en_orders e)"
  shows "counted D (finalize_closing_order D i e)"
    and "map closing_part (en_orders (finalize_closing_order D i e)) = map closing_part (en_orders e)"
    and "d_lt D (d_zero D) (or_closing_quantity (en_orders e ! i)) \<longrightarrow>
      or_closing_finalized (en_orders (finalize_closing_order D i e) ! i)"
    and "or_closing_finalized (en_orders e ! j) \<longrightarrow> or_closing_finalized (en_orders (finalize_closing_order D i e) ! j)"
proof -
  let ?r = "en_orders e ! i"
  have new: "\<forall>r\<in>set ((en_orders e)[i := ?r\<lparr>or_closing_finalized := True\<rparr>]). or_closing_finalized r \<longrightarrow> d_lt D (d_zero D) (or_closing_quantity r)"
    if "d_lt D (d_zero D) (or_closing_quantity ?r)"
    using assms(1) that set_update_subset_insert [of "en_orders e" i "?r\<lparr>or_closing_finalized := True\<rparr>"] by (auto simp: counted_def)
  show "counted D (finalize_closing_order D i e)"
    using assms new by (auto simp: finalize_closing_order_def Let_def update_order_def counted_def orders_sum_update trade_count_def not_le)
  show "map closing_part (en_orders (finalize_closing_order D i e)) = map closing_part (en_orders e)"
    by (simp add: finalize_closing_order_def Let_def update_order_def map_update_same closing_part_def)
  show "d_lt D (d_zero D) (or_closing_quantity ?r) \<longrightarrow> or_closing_finalized (en_orders (finalize_closing_order D i e) ! i)"
    using i by (auto simp: finalize_closing_order_def Let_def update_order_def)
  show "or_closing_finalized (en_orders e ! j) \<longrightarrow> or_closing_finalized (en_orders (finalize_closing_order D i e) ! j)"
    using i by (cases "i = j") (auto simp: finalize_closing_order_def Let_def update_order_def)
qed

lemma finalize_fold:
  "counted D e \<Longrightarrow> n \<le> length (en_orders e) \<Longrightarrow>
   (let e' = fold (finalize_closing_order D) [0..<n] e
    in counted D e' \<and> map closing_part (en_orders e') = map closing_part (en_orders e) \<and>
       (\<forall>i<n. d_lt D (d_zero D) (or_closing_quantity (en_orders e' ! i)) \<longrightarrow> or_closing_finalized (en_orders e' ! i)))"
proof (induction n)
  case (Suc n)
  define e1 where "e1 = fold (finalize_closing_order D) [0..<n] e"
  have IH: "counted D e1" "map closing_part (en_orders e1) = map closing_part (en_orders e)"
    "\<forall>i<n. d_lt D (d_zero D) (or_closing_quantity (en_orders e1 ! i)) \<longrightarrow> or_closing_finalized (en_orders e1 ! i)"
    using Suc unfolding e1_def Let_def by simp_all
  have len: "n < length (en_orders e1)" using IH(2) Suc.prems by (metis length_map less_eq_Suc_le)
  note step = finalize_counted [OF IH(1) len]
  let ?e' = "finalize_closing_order D n e1"
  have "or_closing_quantity (en_orders ?e' ! i) = or_closing_quantity (en_orders e1 ! i)" if "i \<le> n" for i
    using arg_cong [OF step(2), of "\<lambda>l. fst (l ! i)"] that len by (simp add: closing_part_def)
  then have "\<forall>i<Suc n. d_lt D (d_zero D) (or_closing_quantity (en_orders ?e' ! i)) \<longrightarrow> or_closing_finalized (en_orders ?e' ! i)"
    using IH(3) step(3,4) by (auto simp: less_Suc_eq)
  moreover have "fold (finalize_closing_order D) [0..<Suc n] e = ?e'" by (simp add: e1_def)
  ultimately show ?case using step(1,2) IH(2) unfolding Let_def by presburger
qed simp

lemma orders_sum_count: "orders_sum (\<lambda>r. if P r then 1 else 0) rs = of_nat (length (filter P rs))"
  unfolding orders_sum_def by (induction rs) simp_all

lemma finalize_orders_counts:
  assumes "counted D e"
  shows "en_total_trades (finalize_orders D e) = length (filter (\<lambda>r. d_lt D (d_zero D) (or_closing_quantity r)) (en_orders e))"
    and "en_winning_trades (finalize_orders D e) =
      length (filter (\<lambda>r. d_lt D (d_zero D) (or_closing_quantity r) \<and> d_lt D (d_zero D) (or_closing_pnl r)) (en_orders e))"
proof -
  let ?e = "finalize_orders D e"
  have e': "counted D ?e" "map closing_part (en_orders ?e) = map closing_part (en_orders e)"
    "\<forall>i<length (en_orders e). d_lt D (d_zero D) (or_closing_quantity (en_orders ?e ! i)) \<longrightarrow> or_closing_finalized (en_orders ?e ! i)"
    using finalize_fold [OF assms order.refl] unfolding finalize_orders_def Let_def by simp_all
  have fin: "\<forall>r\<in>set (en_orders ?e). or_closing_finalized r \<longleftrightarrow> d_lt D (d_zero D) (or_closing_quantity r)"
    using e'(1,3) map_eq_imp_length_eq [OF e'(2)] by (auto simp: counted_def in_set_conv_nth)
  have same: "length (filter (\<lambda>r. P (closing_part r)) (en_orders ?e)) = length (filter (\<lambda>r. P (closing_part r)) (en_orders e))" for P
    using arg_cong [OF e'(2), of "\<lambda>l. length (filter P l)"] by (simp add: filter_map o_def)
  have "(of_nat (en_total_trades ?e) :: rat) = of_nat (length (filter or_closing_finalized (en_orders ?e)))"
    using e'(1) by (simp add: counted_def flip: orders_sum_count) (simp add: trade_count_def orders_sum_def)
  also have "filter or_closing_finalized (en_orders ?e) = filter (\<lambda>r. d_lt D (d_zero D) (fst (closing_part r))) (en_orders ?e)"
    using fin by (intro filter_cong) (simp_all add: closing_part_def)
  finally show "en_total_trades ?e = length (filter (\<lambda>r. d_lt D (d_zero D) (or_closing_quantity r)) (en_orders e))"
    using same [of "\<lambda>c. d_lt D (d_zero D) (fst c)"] by (simp add: closing_part_def)
  have "(of_nat (en_winning_trades ?e) :: rat) =
      of_nat (length (filter (\<lambda>r. or_closing_finalized r \<and> d_lt D (d_zero D) (or_closing_pnl r)) (en_orders ?e)))"
    using e'(1) by (simp add: counted_def orders_sum_count)
  also have "filter (\<lambda>r. or_closing_finalized r \<and> d_lt D (d_zero D) (or_closing_pnl r)) (en_orders ?e) =
      filter (\<lambda>r. d_lt D (d_zero D) (fst (closing_part r)) \<and> d_lt D (d_zero D) (snd (closing_part r))) (en_orders ?e)"
    using fin by (intro filter_cong) (simp_all add: closing_part_def)
  finally show "en_winning_trades ?e =
      length (filter (\<lambda>r. d_lt D (d_zero D) (or_closing_quantity r) \<and> d_lt D (d_zero D) (or_closing_pnl r)) (en_orders e))"
    using same [of "\<lambda>c. d_lt D (d_zero D) (fst c) \<and> d_lt D (d_zero D) (snd c)"] by (simp add: closing_part_def)
qed

lemma books_counted: "decimal_exact D \<Longrightarrow> books D bc e \<Longrightarrow> counted D e"
  unfolding books_def counted_def order_ok_def Let_def win_count_def
  by (simp add: decimal_exact_def decimal_order.val_zero)

text \<open>The trade statistics of a report are those of its orders: the number of trades is the number of orders
  that closed a part of the position, also when the rest of the order was still open or cancelled at
  the end, each counted once; the winning trades are those among them that closed with a profit.\<close>

theorem trade_statistics:
  assumes "decimal_exact D" and "run_case D tx js bc = Inr out"
  shows "\<exists>status n e. run_bars D tx bc 0 (bc_candles bc) (engine_new D bc) = Inr (status, n, e) \<and>
    bo_total_trades out = length (filter (\<lambda>r. d_lt D (d_zero D) (or_closing_quantity r)) (en_orders e)) \<and>
    bo_winning_trades out =
      length (filter (\<lambda>r. d_lt D (d_zero D) (or_closing_quantity r) \<and> d_lt D (d_zero D) (or_closing_pnl r)) (en_orders e)) \<and>
    length (bo_orders out) = length (en_orders e) \<and> bo_total_fills out = length (bo_fills out)"
proof -
  obtain status n e where run: "run_bars D tx bc 0 (bc_candles bc) (engine_new D bc) = Inr (status, n, e)"
    and out: "case_output D js bc status n (finalize_orders D e) = Inr out"
    using assms(2) by (auto simp: run_case_def result_simps)
  have "books D bc e"
    by (rule engine_invariant.replay_inv [OF decimal_exact.books_invariant [OF assms(1)] run])
      (rule decimal_exact.books_new [OF assms(1)])
  note counts = finalize_orders_counts [OF books_counted [OF assms(1) this]]
  have "length (en_orders (finalize_orders D e)) = length (en_orders e)"
    using finalize_fold [OF books_counted [OF assms(1) \<open>books D bc e\<close>] order.refl] map_eq_imp_length_eq
    unfolding finalize_orders_def Let_def by blast
  then have "bo_total_trades out = en_total_trades (finalize_orders D e) \<and> bo_winning_trades out = en_winning_trades (finalize_orders D e) \<and>
      length (bo_orders out) = length (en_orders e) \<and> bo_total_fills out = length (bo_fills out)"
    using out by (auto simp: case_output_def populate_result_hash_def result_simps Let_def)
  with run counts show ?thesis by auto
qed

theorem trade_statistics_witness:
  "\<exists>out. run_case dec28 nat_text (\<lambda>_. Inr []) sample_case = Inr out \<and> bo_total_trades out = 0 \<and> length (bo_orders out) = 1"
proof -
  obtain e r where run: "run_bars dec28 nat_text sample_case 0 (bc_candles sample_case) (engine_new dec28 sample_case) = Inr (Completed, 1, e)"
    and e: "en_cash e = 3950 * dec_unit" "en_base_position e = 10 * dec_unit" "en_orders e = [r]" "or_closing_quantity r = 0"
      "en_fee_engine e = fee_engine_new dec28 []" "en_total_trades e = 0"
      "en_equity_curve e = [\<lparr>eq_time = nat_text 1, eq_equity = dec_text (5000 * dec_unit)\<rparr>]"
    using sample_run by blast
  have valid: "validate_case dec28 sample_case = Inr ()"
    by (simp add: validate_case_def sample_case_def blank_def string_eval d_zero_def sample_buy_def)
  have fin: "finalize_orders dec28 e = e"
    by (simp add: finalize_orders_def e finalize_closing_order_def d_zero_def Let_def)
  have close: "last_close_of dec28 sample_case 1 = 105 * dec_unit"
    by (simp add: last_close_of_def sample_case_def sample_candle_def)
  have nums: "dec_mul (10 * dec_unit) (105 * dec_unit) = Some (1050 * dec_unit)" "dec_fit (5000 * dec_unit) = Some (5000 * dec_unit)"
    "dec_fit 0 = Some 0" "dec_parse (dec_text (5000 * dec_unit)) = Some (5000 * dec_unit)"
    by (simp_all add: dec_mul_def dec_fit_def dec_unit_def, rule dec_parse_text [unfolded dec_unit_def], simp)
  obtain m c l where draw: "drawdown_metrics dec28 (en_equity_curve e) = Inr (m, c, l)"
    by (simp add: e drawdown_metrics_def drawdown_step_def nums d_zero_def Let_def)
  have ind: "calculate_indicators dec28 (map cd_close (take 1 (bc_candles sample_case))) (bc_indicator_periods sample_case) = Inr []"
    by (simp add: calculate_indicators_def sample_case_def)
  have "\<exists>out. case_output dec28 (\<lambda>_. Inr []) sample_case Completed 1 e = Inr out"
    unfolding case_output_def close draw ind
    by (simp add: e nums fee_engine_new_def d_zero_def win_rate_text_def populate_result_hash_def map_err_def Let_def del: One_nat_def)
  then obtain out where "case_output dec28 (\<lambda>_. Inr []) sample_case Completed 1 e = Inr out" by blast
  then have out: "run_case dec28 nat_text (\<lambda>_. Inr []) sample_case = Inr out"
    by (simp add: run_case_def valid run fin del: One_nat_def)
  from trade_statistics [OF exact28.decimal_exact_axioms out] show ?thesis
    using out run e by (auto simp: d_zero_def)
qed

section \<open>Indicators are what they are called\<close>

definition window_sum :: "'d decimal_lib \<Rightarrow> 'd list \<Rightarrow> nat \<Rightarrow> nat \<Rightarrow> rat" where
  "window_sum D xs period i = (\<Sum>v\<leftarrow>drop (Suc i - period) (take (Suc i) xs). d_val D v)"

lemma window_sum_next:
  assumes "Suc i < length xs" and "0 < period"
  shows "window_sum D xs period (Suc i) = window_sum D xs period i + d_val D (xs ! Suc i) -
    (if period \<le> Suc i then d_val D (xs ! (Suc i - period)) else 0)"
proof -
  have take: "take (Suc (Suc i)) xs = take (Suc i) xs @ [xs ! Suc i]"
    using assms(1) by (rule take_Suc_conv_app_nth)
  show ?thesis
  proof (cases "period \<le> Suc i")
    case True
    let ?k = "Suc i - period"
    have "drop ?k (take (Suc i) xs) = xs ! ?k # drop (Suc ?k) (take (Suc i) xs)"
      using assms True by (subst Cons_nth_drop_Suc [symmetric]) auto
    moreover have "Suc (Suc i) - period = Suc ?k" using True by simp
    ultimately show ?thesis using assms True by (simp add: window_sum_def take)
  next
    case False
    then show ?thesis using assms by (simp add: window_sum_def take)
  qed
qed

text \<open>Entry \<open>i\<close> of a moving average: nothing while the window fills, then the quotient of the window's exact sum.\<close>

definition sma_entry :: "'d decimal_lib \<Rightarrow> 'd list \<Rightarrow> nat \<Rightarrow> nat \<Rightarrow> string option \<Rightarrow> bool" where
  "sma_entry D xs period i entry \<longleftrightarrow>
     (if Suc i < period then entry = None
      else \<exists>s q. d_val D s = window_sum D xs period i \<and> d_div D s (d_new D (int period) 0) = Some q \<and>
                 entry = Some (d_norm_text D (d_trunc_scale D 8 q)))"

lemma sma_prefix:
  assumes exact: "decimal_exact D" and "0 < period" and "n \<le> length xs"
    and "try_fold (sma_step D xs period) (d_zero D, []) [0..<n] = Inr (s, out)"
  shows "length out = n \<and> (\<forall>i<n. sma_entry D xs period i (out ! i)) \<and>
    (0 < n \<longrightarrow> d_val D s = window_sum D xs period (n - 1)) \<and> (n = 0 \<longrightarrow> d_val D s = 0)"
  using assms(3,4)
proof (induction n arbitrary: s out)
  case 0
  then show ?case using exact by (auto simp: decimal_exact_def decimal_order.val_zero)
next
  case (Suc n)
  then obtain s0 out0 where prev: "try_fold (sma_step D xs period) (d_zero D, []) [0..<n] = Inr (s0, out0)"
    and step: "sma_step D xs period (s0, out0) n = Inr (s, out)"
    by (auto simp: result_simps)
  note IH = Suc.IH [OF Suc_leD [OF Suc.prems(1)] prev]
  obtain s1 where s1: "d_add D s0 (xs ! n) = Some s1"
    and s: "if period \<le> n then d_sub D s1 (xs ! (n - period)) = Some s else s = s1"
    and out: "\<exists>entry. out = out0 @ [entry] \<and> (if n + 1 < period then entry = None
        else \<exists>q. d_div D s (d_new D (int period) 0) = Some q \<and> entry = Some (d_norm_text D (d_trunc_scale D 8 q)))"
    using step by (auto simp: sma_step_def result_simps to_storage_text_def split: if_splits)
  have vals: "d_val D s = d_val D s0 + d_val D (xs ! n) - (if period \<le> n then d_val D (xs ! (n - period)) else 0)"
    using s decimal_exact.add_exact [OF exact s1] decimal_exact.sub_exact [OF exact, of s1 "xs ! (n - period)" s]
    by (cases "period \<le> n") auto
  have sum: "d_val D s = window_sum D xs period n"
  proof (cases n)
    case 0
    have "xs \<noteq> []" using Suc.prems(1) by auto
    then show ?thesis using vals IH 0 assms(2) by (cases xs) (simp_all add: window_sum_def)
  next
    case (Suc m)
    then show ?thesis using vals IH window_sum_next [of m xs period D] Suc.prems(1) assms(2) by simp
  qed
  then show ?case
    using IH out by (auto simp: sma_entry_def nth_append less_Suc_eq)
qed

text \<open>The incrementally maintained moving average is the average it is named after: entry \<open>i\<close> is empty
  until a whole period has been seen, and then the sum of the last \<open>period\<close> closes divided by
  the period, cut after eight places. There is one entry per bar.\<close>

theorem sma_is_window_average:
  assumes "decimal_exact D" and "0 < period" and "simple_moving_average D xs period = Inr out"
  shows "length out = length xs \<and> (\<forall>i<length xs. sma_entry D xs period i (out ! i))"
  using assms(3) sma_prefix [OF assms(1,2) order.refl, of xs]
  by (auto simp: simple_moving_average_def result_simps)

theorem sma_is_window_average_witness:
  "\<exists>out. simple_moving_average dec28 [2 * dec_unit, 4 * dec_unit] 2 = Inr out \<and> out ! 0 = None \<and>
    (\<exists>s. d_val dec28 s = 6 \<and> (\<exists>q. dec_div s (2 * dec_unit) = Some q))"
proof -
  have nums: "dec_fit (2 * dec_unit) = Some (2 * dec_unit)" "dec_fit (6 * dec_unit) = Some (6 * dec_unit)"
    "dec_div (6 * dec_unit) (2 * dec_unit) = Some (3 * dec_unit)"
    by (simp_all add: dec_fit_def dec_div_def dec_quot_def dec_unit_def)
  obtain out where out: "simple_moving_average dec28 [2 * dec_unit, 4 * dec_unit] 2 = Inr out"
    by (simp add: simple_moving_average_def sma_step_def upt_conv_Cons nums d_zero_def)
  have entries: "sma_entry dec28 [2 * dec_unit, 4 * dec_unit] 2 0 (out ! 0)" "sma_entry dec28 [2 * dec_unit, 4 * dec_unit] 2 1 (out ! 1)"
    using sma_is_window_average [OF exact28.decimal_exact_axioms _ out] by (simp_all add: less_Suc_eq)
  then have "out ! 0 = None" by (simp add: sma_entry_def)
  moreover have "window_sum dec28 [2 * dec_unit, 4 * dec_unit] 2 1 = 6"
    by (simp add: window_sum_def)
  ultimately show ?thesis using out entries(2) by (auto simp: sma_entry_def)
qed

end
