(* ===== verification/Strategy_Service.thy ===== *)
theory Strategy_Service
  imports Trading_Ledger
begin

text \<open>
  \<open>crates/jftrade-strategy/src\<close>: \<open>model.rs\<close>, the signals and the outcomes; \<open>service.rs\<close>, the
  coordinator that turns the signals of a running strategy into trade plans or notifications.
  \<open>crates/jftrade-engine/src/trading_strategy_compatibility.rs\<close>, the port from the coordinator
  to the shadow ledger. The port is the interface \<open>trade_planner\<close>, interpreted on the ledger.
\<close>

section \<open>Signals and outcomes\<close>

datatype execution_mode = NotifyOnly | Paper | Live

datatype runtime_state = Run_Stopped | Starting | Running | Paused | Recovering | Stopping

fun runtime_state_str :: "runtime_state \<Rightarrow> string" where
  "runtime_state_str Run_Stopped = ''stopped''"
| "runtime_state_str Starting = ''starting''"
| "runtime_state_str Running = ''running''"
| "runtime_state_str Paused = ''paused''"
| "runtime_state_str Recovering = ''recovering''"
| "runtime_state_str Stopping = ''stopping''"

record ('d, 't) signal =
  sg_signal_id :: string
  sg_trace_id :: string
  sg_instance_id :: string
  sg_broker_id :: string
  sg_account_id :: string
  sg_market :: string
  sg_symbol :: string
  sg_side :: string
  sg_quantity :: 'd
  sg_price :: "'d option"
  sg_observed_at :: 't

datatype strategy_error =
    Signal_MissingField string
  | Signal_InvalidQuantity
  | Signal_InvalidSide
  | RuntimeNotRunning
  | TradingPort string

definition signal_fields :: "('d, 't) signal \<Rightarrow> (string \<times> string) list" where
  "signal_fields s =
     [(''signalId'', sg_signal_id s), (''traceId'', sg_trace_id s), (''instanceId'', sg_instance_id s),
      (''symbol'', sg_symbol s)]"

definition signal_validate :: "'d decimal_lib \<Rightarrow> ('d, 't) signal \<Rightarrow> strategy_error + unit" where
  "signal_validate D s =
     rbind (try_fold (\<lambda>_ (field, text). if blank text then Inl (Signal_MissingField field) else Inr ()) () (signal_fields s)) (\<lambda>_.
     if d_le D (sg_quantity s) (d_zero D) then Inl Signal_InvalidQuantity
     else let side = upper (trim (sg_side s))
          in if side \<noteq> ''BUY'' \<and> side \<noteq> ''SELL'' then Inl Signal_InvalidSide else Inr ())"

record 'd trade_intent =
  ti_idempotency_key :: string
  ti_trace_id :: string
  ti_broker_id :: string
  ti_account_id :: string
  ti_live :: bool
  ti_market :: string
  ti_symbol :: string
  ti_side :: string
  ti_quantity :: 'd
  ti_price :: "'d option"

record trade_plan_receipt =
  tp_accepted :: bool
  tp_dispatch :: bool
  tp_reason_code :: "string option"

record strategy_notification =
  sn_source_event_id :: string
  sn_trace_id :: string
  sn_category :: string
  sn_message :: string
  sn_dispatch :: bool

record signal_outcome =
  so_signal_id :: string
  so_duplicate :: bool
  so_mode :: execution_mode
  so_trade_plan :: "trade_plan_receipt option"
  so_notification :: "strategy_notification option"

section \<open>The coordinator\<close>

type_synonym ('p, 'd) planner = "'p \<Rightarrow> 'd trade_intent \<Rightarrow> (string + trade_plan_receipt) \<times> 'p"

record 'p strategy_coordinator =
  sc_mode :: execution_mode
  sc_state :: runtime_state
  sc_planner :: 'p
  sc_seen_signals :: "string list"
  sc_generation :: u64

definition coordinator_new :: "execution_mode \<Rightarrow> 'p \<Rightarrow> 'p strategy_coordinator" where
  "coordinator_new mode planner =
     \<lparr>sc_mode = mode, sc_state = Run_Stopped, sc_planner = planner, sc_seen_signals = [], sc_generation = 0\<rparr>"

definition strategy_start :: "'p strategy_coordinator \<Rightarrow> bool \<times> 'p strategy_coordinator" where
  "strategy_start c = (if sc_state c \<noteq> Run_Stopped then (False, c) else (True, c\<lparr>sc_state := Starting\<rparr>))"

definition strategy_ready :: "'p strategy_coordinator \<Rightarrow> bool \<times> 'p strategy_coordinator" where
  "strategy_ready c =
     (if sc_state c \<notin> {Starting, Recovering} then (False, c) else (True, c\<lparr>sc_state := Running\<rparr>))"

definition strategy_disconnected :: "'p strategy_coordinator \<Rightarrow> bool \<times> 'p strategy_coordinator" where
  "strategy_disconnected c =
     (if sc_state c \<noteq> Running then (False, c)
      else (True, c\<lparr>sc_generation := sc_generation c + 1, sc_state := Recovering\<rparr>))"

definition strategy_pause :: "'p strategy_coordinator \<Rightarrow> bool \<times> 'p strategy_coordinator" where
  "strategy_pause c = (if sc_state c \<noteq> Running then (False, c) else (True, c\<lparr>sc_state := Paused\<rparr>))"

definition strategy_resume :: "'p strategy_coordinator \<Rightarrow> bool \<times> 'p strategy_coordinator" where
  "strategy_resume c = (if sc_state c \<noteq> Paused then (False, c) else (True, c\<lparr>sc_state := Running\<rparr>))"

definition strategy_stop :: "'p strategy_coordinator \<Rightarrow> bool \<times> 'p strategy_coordinator" where
  "strategy_stop c =
     (if sc_state c \<in> {Run_Stopped, Stopping} then (False, c) else (True, c\<lparr>sc_state := Stopping\<rparr>))"

definition strategy_stopped :: "'p strategy_coordinator \<Rightarrow> bool \<times> 'p strategy_coordinator" where
  "strategy_stopped c =
     (if sc_state c = Run_Stopped then (False, c) else (True, c\<lparr>sc_state := Run_Stopped\<rparr>))"

definition signal_key :: "('d, 't) signal \<Rightarrow> string" where
  "signal_key s = ''strategy:'' @ sg_instance_id s @ '':'' @ sg_signal_id s"

definition signal_intent :: "execution_mode \<Rightarrow> ('d, 't) signal \<Rightarrow> 'd trade_intent" where
  "signal_intent mode s =
     \<lparr>ti_idempotency_key = signal_key s, ti_trace_id = sg_trace_id s, ti_broker_id = sg_broker_id s,
      ti_account_id = sg_account_id s, ti_live = (mode = Live), ti_market = sg_market s,
      ti_symbol = sg_symbol s, ti_side = sg_side s, ti_quantity = sg_quantity s, ti_price = sg_price s\<rparr>"

definition signal_notification :: "'d decimal_lib \<Rightarrow> ('d, 't) signal \<Rightarrow> strategy_notification" where
  "signal_notification D s =
     \<lparr>sn_source_event_id = sg_signal_id s, sn_trace_id = sg_trace_id s,
      sn_category = ''strategy.order.signal'',
      sn_message = upper (trim (sg_side s)) @ '' '' @ d_text D (sg_quantity s) @ '' '' @
        upper (trim (sg_symbol s)) @ '' at '' @ (case sg_price s of None \<Rightarrow> ''MARKET'' | Some p \<Rightarrow> d_text D p),
      sn_dispatch = False\<rparr>"

definition handle_signal :: "'d decimal_lib \<Rightarrow> ('p, 'd) planner \<Rightarrow> 'p strategy_coordinator \<Rightarrow> ('d, 't) signal \<Rightarrow>
    (strategy_error + signal_outcome) \<times> 'p strategy_coordinator" where
  "handle_signal D plan c s =
     (case signal_validate D s of
        Inl e \<Rightarrow> (Inl e, c)
      | Inr _ \<Rightarrow>
          if sc_state c \<noteq> Running then (Inl RuntimeNotRunning, c)
          else
            let (new, seen) = bs_insert (sg_signal_id s) (sc_seen_signals c); c1 = c\<lparr>sc_seen_signals := seen\<rparr>
            in if \<not> new
               then (Inr \<lparr>so_signal_id = sg_signal_id s, so_duplicate = True, so_mode = sc_mode c,
                          so_trade_plan = None, so_notification = None\<rparr>, c1)
               else if sc_mode c = NotifyOnly
               then (Inr \<lparr>so_signal_id = sg_signal_id s, so_duplicate = False, so_mode = sc_mode c,
                          so_trade_plan = None, so_notification = Some (signal_notification D s)\<rparr>, c1)
               else (case plan (sc_planner c) (signal_intent (sc_mode c) s) of
                       (Inl e, p) \<Rightarrow>
                         (Inl (TradingPort e),
                          c1\<lparr>sc_planner := p, sc_seen_signals := remove1 (sg_signal_id s) seen\<rparr>)
                     | (Inr receipt, p) \<Rightarrow>
                         (Inr \<lparr>so_signal_id = sg_signal_id s, so_duplicate = False, so_mode = sc_mode c,
                               so_trade_plan = Some receipt, so_notification = None\<rparr>, c1\<lparr>sc_planner := p\<rparr>)))"

text \<open>The coordinator as a machine, with the answer of every operation.\<close>

datatype ('d, 't) strategy_op =
  Op_Start | Op_Ready | Op_Disconnected | Op_Pause | Op_Resume | Op_Stop | Op_Stopped | Op_Signal "('d, 't) signal"

datatype strategy_answer = Moved bool | Handled "strategy_error + signal_outcome"

fun strategy_step :: "'d decimal_lib \<Rightarrow> ('p, 'd) planner \<Rightarrow> 'p strategy_coordinator \<Rightarrow> ('d, 't) strategy_op \<Rightarrow>
    strategy_answer \<times> 'p strategy_coordinator" where
  "strategy_step D plan c Op_Start = map_prod Moved id (strategy_start c)"
| "strategy_step D plan c Op_Ready = map_prod Moved id (strategy_ready c)"
| "strategy_step D plan c Op_Disconnected = map_prod Moved id (strategy_disconnected c)"
| "strategy_step D plan c Op_Pause = map_prod Moved id (strategy_pause c)"
| "strategy_step D plan c Op_Resume = map_prod Moved id (strategy_resume c)"
| "strategy_step D plan c Op_Stop = map_prod Moved id (strategy_stop c)"
| "strategy_step D plan c Op_Stopped = map_prod Moved id (strategy_stopped c)"
| "strategy_step D plan c (Op_Signal s) = map_prod Handled id (handle_signal D plan c s)"

fun strategy_run :: "'d decimal_lib \<Rightarrow> ('p, 'd) planner \<Rightarrow> 'p strategy_coordinator \<Rightarrow> ('d, 't) strategy_op list \<Rightarrow>
    strategy_answer list \<times> 'p strategy_coordinator" where
  "strategy_run D plan c [] = ([], c)"
| "strategy_run D plan c (a # as) =
     (let (x, c1) = strategy_step D plan c a; (xs, c2) = strategy_run D plan c1 as in (x # xs, c2))"

section \<open>The port to the shadow ledger\<close>

fun error_text :: "trading_error \<Rightarrow> string" where
  "error_text (MissingField f) = f @ '' is required''"
| "error_text InvalidQuantity = ''order quantity must be positive''"
| "error_text InvalidPrice = ''order price must be positive when provided''"
| "error_text IdempotencyConflict = ''idempotency key was reused with a different request''"
| "error_text (InvalidEvent e) = ''order event is invalid: '' @ e"
| "error_text ArithmeticError = ''decimal arithmetic failed''"
| "error_text (InvalidCheckpoint e) = ''checkpoint is inconsistent: '' @ e"
| "error_text (InvalidPortfolio e) = ''account portfolio is invalid: '' @ e"

definition intent_side :: "string \<Rightarrow> order_side option" where
  "intent_side side =
     (if eq_ignore_case (trim side) ''SELL'' then Some Sell
      else if eq_ignore_case (trim side) ''BUY'' then Some Buy else None)"

definition intent_command :: "'d trade_intent \<Rightarrow> order_side \<Rightarrow> 'd order_command" where
  "intent_command i side =
     \<lparr>idempotency_key = ti_idempotency_key i, oc_trace_id = ti_trace_id i, oc_broker_id = ti_broker_id i,
      oc_account_id = ti_account_id i, oc_environment = (if ti_live i then Real_Env else Simulate),
      oc_market = ti_market i, oc_symbol = ti_symbol i, oc_side = side, oc_quantity = ti_quantity i,
      oc_price = ti_price i, client_order_id = ti_idempotency_key i\<rparr>"

definition compat_plan_trade :: "'d decimal_lib \<Rightarrow> 't \<Rightarrow> (('d, 't) shadow_trading, 'd) planner" where
  "compat_plan_trade D planned_at st i =
     (case intent_side (ti_side i) of
        None \<Rightarrow> (Inl ''signal side must be BUY or SELL'', st)
      | Some side \<Rightarrow>
          (case plan_order D st (intent_command i side) planned_at of
             (Inl e, st1) \<Rightarrow> (Inl (error_text e), st1)
           | (Inr plan, st1) \<Rightarrow>
               (Inr \<lparr>tp_accepted = pl_accepted plan, tp_dispatch = pl_dispatch plan,
                     tp_reason_code = pl_reason_code plan\<rparr>, st1)))"

definition replay_strategy :: "'d risk_config \<Rightarrow> execution_mode \<Rightarrow> ('d, 't) shadow_trading strategy_coordinator" where
  "replay_strategy cfg mode = coordinator_new mode (shadow_new cfg)"

lemma coordinator_new_simps [simp]:
  "sc_mode (coordinator_new mode p) = mode" "sc_state (coordinator_new mode p) = Run_Stopped"
  "sc_planner (coordinator_new mode p) = p" "sc_seen_signals (coordinator_new mode p) = []"
  by (simp_all add: coordinator_new_def)

lemma replay_strategy_simps [simp]:
  "sc_mode (replay_strategy cfg mode) = mode" "sc_state (replay_strategy cfg mode) = Run_Stopped"
  "sc_seen_signals (replay_strategy cfg mode) = []"
  "st_risk (sc_planner (replay_strategy cfg mode)) = cfg" "st_commands (sc_planner (replay_strategy cfg mode)) = []"
  "st_orders (sc_planner (replay_strategy cfg mode)) = []"
  by (simp_all add: replay_strategy_def shadow_new_def)

section \<open>What a coordinator answers\<close>

fun outcome_of :: "strategy_answer \<Rightarrow> signal_outcome option" where
  "outcome_of (Handled (Inr r)) = Some r"
| "outcome_of _ = None"

text \<open>The signals acted upon, the receipts handed out, and the keys of the signals planned.\<close>

fun acted_ids :: "strategy_answer list \<Rightarrow> string list" where
  "acted_ids [] = []"
| "acted_ids (x # xs) =
     (case outcome_of x of
        None \<Rightarrow> acted_ids xs
      | Some r \<Rightarrow> if so_duplicate r then acted_ids xs else so_signal_id r # acted_ids xs)"

fun receipts :: "strategy_answer list \<Rightarrow> trade_plan_receipt list" where
  "receipts [] = []"
| "receipts (x # xs) = (case Option.bind (outcome_of x) so_trade_plan of None \<Rightarrow> receipts xs | Some r \<Rightarrow> r # receipts xs)"

fun planned_keys :: "('d, 't) strategy_op list \<Rightarrow> strategy_answer list \<Rightarrow> string list" where
  "planned_keys (Op_Signal s # as) (x # xs) =
     (if Option.bind (outcome_of x) so_trade_plan = None then planned_keys as xs
      else signal_key s # planned_keys as xs)"
| "planned_keys (a # as) (x # xs) = planned_keys as xs"
| "planned_keys _ _ = []"

lemma strategy_run_Cons:
  "strategy_run D plan c (a # as) = (ys, c') \<longleftrightarrow>
     (\<exists>x c1 xs. strategy_step D plan c a = (x, c1) \<and> strategy_run D plan c1 as = (xs, c') \<and> ys = x # xs)"
  by (auto simp: Let_def split: prod.splits)

declare strategy_run.simps(2) [simp del]

lemmas coordinator_moves = strategy_start_def strategy_ready_def strategy_disconnected_def strategy_pause_def
  strategy_resume_def strategy_stop_def strategy_stopped_def

lemma remove1_bs_put: "k \<notin> set s \<Longrightarrow> remove1 k (bs_put k s) = s"
  by (induction k s rule: bs_put.induct) auto

lemma signal_validate_error: "signal_validate D s \<noteq> Inl (TradingPort t)"
  by (auto simp: signal_validate_def signal_fields_def result_simps Let_def split: if_splits)

text \<open>The ways a signal is handled.\<close>

lemma handle_signal_cases:
  obtains (refused) e where "signal_validate D s \<noteq> Inr () \<or> sc_state c \<noteq> Running" "\<And>t. e \<noteq> TradingPort t"
      "handle_signal D plan c s = (Inl e, c)"
  | (seen) "sg_signal_id s \<in> set (sc_seen_signals c)" "sc_state c = Running" "signal_validate D s = Inr ()"
      "handle_signal D plan c s =
         (Inr \<lparr>so_signal_id = sg_signal_id s, so_duplicate = True, so_mode = sc_mode c,
               so_trade_plan = None, so_notification = None\<rparr>,
          c\<lparr>sc_seen_signals := bs_put (sg_signal_id s) (sc_seen_signals c)\<rparr>)"
  | (notified) "sg_signal_id s \<notin> set (sc_seen_signals c)" "sc_state c = Running" "signal_validate D s = Inr ()"
      "sc_mode c = NotifyOnly"
      "handle_signal D plan c s =
         (Inr \<lparr>so_signal_id = sg_signal_id s, so_duplicate = False, so_mode = sc_mode c,
               so_trade_plan = None, so_notification = Some (signal_notification D s)\<rparr>,
          c\<lparr>sc_seen_signals := bs_put (sg_signal_id s) (sc_seen_signals c)\<rparr>)"
  | (failed) e p where "sg_signal_id s \<notin> set (sc_seen_signals c)" "sc_state c = Running" "signal_validate D s = Inr ()"
      "sc_mode c \<noteq> NotifyOnly"
      "plan (sc_planner c) (signal_intent (sc_mode c) s) = (Inl e, p)"
      "handle_signal D plan c s = (Inl (TradingPort e), c\<lparr>sc_planner := p\<rparr>)"
  | (planned) r p where "sg_signal_id s \<notin> set (sc_seen_signals c)" "sc_state c = Running" "signal_validate D s = Inr ()"
      "sc_mode c \<noteq> NotifyOnly"
      "plan (sc_planner c) (signal_intent (sc_mode c) s) = (Inr r, p)"
      "handle_signal D plan c s =
         (Inr \<lparr>so_signal_id = sg_signal_id s, so_duplicate = False, so_mode = sc_mode c,
               so_trade_plan = Some r, so_notification = None\<rparr>,
          c\<lparr>sc_seen_signals := bs_put (sg_signal_id s) (sc_seen_signals c), sc_planner := p\<rparr>)"
proof -
  consider (stop) "signal_validate D s \<noteq> Inr () \<or> sc_state c \<noteq> Running"
    | (go) "signal_validate D s = Inr ()" "sc_state c = Running" by blast
  then show thesis
  proof cases
    case stop
    show thesis
    proof (cases "signal_validate D s")
      case (Inl e)
      then show thesis using signal_validate_error by (intro refused [of e]) (auto simp: handle_signal_def)
    next
      case (Inr u)
      with stop show thesis by (intro refused [of RuntimeNotRunning]) (auto simp: handle_signal_def)
    qed
  next
    case go
    show thesis
    proof (cases "sg_signal_id s \<in> set (sc_seen_signals c)")
      case True
      with go show thesis by (intro seen) (auto simp: handle_signal_def bs_insert_def)
    next
      case new: False
      show thesis
      proof (cases "sc_mode c = NotifyOnly")
        case True
        with go new show thesis by (intro notified) (auto simp: handle_signal_def bs_insert_def)
      next
        case False
        obtain r p where "plan (sc_planner c) (signal_intent (sc_mode c) s) = (r, p)" by fastforce
        show thesis
        proof (cases r)
          case (Inl e)
          with go new False \<open>plan _ _ = _\<close> show thesis
            by (intro failed) (auto simp: handle_signal_def bs_insert_def remove1_bs_put)
        next
          case (Inr v)
          with go new False \<open>plan _ _ = _\<close> show thesis
            by (intro planned) (auto simp: handle_signal_def bs_insert_def)
        qed
      qed
    qed
  qed
qed

text \<open>One step, seen from the deduplication of the signals.\<close>

lemma step_acts:
  assumes "strategy_step D plan c a = (x, c1)"
  shows "set (sc_seen_signals c1) = set (sc_seen_signals c) \<union> set (acted_ids [x])"
    and "set (acted_ids [x]) \<inter> set (sc_seen_signals c) = {}" and "distinct (acted_ids [x])" and "sc_mode c1 = sc_mode c"
proof -
  have "set (sc_seen_signals c1) = set (sc_seen_signals c) \<union> set (acted_ids [x]) \<and>
    set (acted_ids [x]) \<inter> set (sc_seen_signals c) = {} \<and> distinct (acted_ids [x]) \<and> sc_mode c1 = sc_mode c"
  proof (cases a)
    case (Op_Signal s)
    show ?thesis
      by (rule handle_signal_cases [where D = D and plan = plan and c = c and s = s]) (use assms Op_Signal in \<open>auto simp: insert_absorb\<close>)
  qed (use assms in \<open>auto simp: coordinator_moves split: if_splits\<close>)
  then show "set (sc_seen_signals c1) = set (sc_seen_signals c) \<union> set (acted_ids [x])"
    and "set (acted_ids [x]) \<inter> set (sc_seen_signals c) = {}" and "distinct (acted_ids [x])"
    and "sc_mode c1 = sc_mode c" by simp_all
qed

lemma acted_ids_Cons: "acted_ids (x # xs) = acted_ids [x] @ acted_ids xs"
  by (simp split: option.splits)

lemma receipts_Cons: "receipts (x # xs) = receipts [x] @ receipts xs"
  by (simp split: option.splits)

declare acted_ids.simps(2) [simp del] receipts.simps(2) [simp del]

lemma run_acts:
  assumes "strategy_run D plan c as = (xs, c')"
  shows "set (sc_seen_signals c') = set (sc_seen_signals c) \<union> set (acted_ids xs) \<and>
    set (acted_ids xs) \<inter> set (sc_seen_signals c) = {} \<and> distinct (acted_ids xs) \<and> sc_mode c' = sc_mode c"
  using assms
proof (induction as arbitrary: c xs)
  case Nil
  then show ?case by simp
next
  case (Cons a as)
  then obtain x c1 ys where step: "strategy_step D plan c a = (x, c1)"
    and run: "strategy_run D plan c1 as = (ys, c')" and xs: "xs = x # ys"
    by (auto simp: strategy_run_Cons)
  note Cons.IH [OF run] step_acts [OF step]
  then show ?case
    unfolding xs by (subst (1 2 3) acted_ids_Cons) auto
qed

section \<open>The interface of the trading port\<close>

text \<open>
  A contract of a port: an invariant of its state and what it promises of its receipts, for the
  intents it is sent. What every answer of the port satisfies, every receipt of a run satisfies.
\<close>

locale planner_contract =
  fixes plan :: "'p \<Rightarrow> 'd trade_intent \<Rightarrow> (string + trade_plan_receipt) \<times> 'p"
    and intent_ok :: "'d trade_intent \<Rightarrow> bool" and I :: "'p \<Rightarrow> bool" and Q :: "trade_plan_receipt \<Rightarrow> bool"
  assumes plan_keeps: "I p \<Longrightarrow> intent_ok i \<Longrightarrow> I (snd (plan p i))"
    and plan_answers: "I p \<Longrightarrow> intent_ok i \<Longrightarrow> fst (plan p i) = Inr r \<Longrightarrow> Q r"
begin

lemma step_contract:
  fixes a :: "('d, 't) strategy_op"
  assumes "strategy_step D plan c a = (x, c1)" and "I (sc_planner c)"
    and "\<And>s :: ('d, 't) signal. intent_ok (signal_intent (sc_mode c) s)"
  shows "I (sc_planner c1) \<and> list_all Q (receipts [x])"
proof (cases a)
  case (Op_Signal s)
  note ok = assms(2) assms(3) [of s]
  show ?thesis
  proof (rule handle_signal_cases [where D = D and plan = plan and c = c and s = s])
    fix e p
    assume "plan (sc_planner c) (signal_intent (sc_mode c) s) = (Inl e, p)"
      and "handle_signal D plan c s = (Inl (TradingPort e), c\<lparr>sc_planner := p\<rparr>)"
    then show ?thesis using assms(1) Op_Signal plan_keeps [OF ok] by (auto simp: receipts.simps)
  next
    fix r p
    assume "plan (sc_planner c) (signal_intent (sc_mode c) s) = (Inr r, p)"
      and "handle_signal D plan c s =
         (Inr \<lparr>so_signal_id = sg_signal_id s, so_duplicate = False, so_mode = sc_mode c,
               so_trade_plan = Some r, so_notification = None\<rparr>,
          c\<lparr>sc_seen_signals := bs_put (sg_signal_id s) (sc_seen_signals c), sc_planner := p\<rparr>)"
    then show ?thesis using assms(1) Op_Signal plan_keeps [OF ok] plan_answers [OF ok] by (auto simp: receipts.simps)
  qed (use assms(1,2) Op_Signal in \<open>auto simp: receipts.simps\<close>)
qed (use assms(1,2) in \<open>auto simp: coordinator_moves receipts.simps split: if_splits\<close>)

lemma run_contract:
  fixes as :: "('d, 't) strategy_op list"
  assumes "strategy_run D plan c as = (xs, c')" and "I (sc_planner c)"
    and "\<And>s :: ('d, 't) signal. intent_ok (signal_intent (sc_mode c) s)"
  shows "I (sc_planner c') \<and> list_all Q (receipts xs)"
  using assms
proof (induction as arbitrary: c xs)
  case Nil
  then show ?case by (auto simp: receipts.simps)
next
  case (Cons a as)
  then obtain x c1 ys where step: "strategy_step D plan c a = (x, c1)"
    and run: "strategy_run D plan c1 as = (ys, c')" and xs: "xs = x # ys"
    by (auto simp: strategy_run_Cons)
  note first = step_contract [OF step Cons.prems(2,3)]
  have "intent_ok (signal_intent (sc_mode c1) s)" for s :: "('d, 't) signal"
    using Cons.prems(3) step_acts(4) [OF step] by simp
  from Cons.IH [OF run conjunct1 [OF first] this] first show ?case
    unfolding xs by (subst receipts_Cons) simp
qed

end

text \<open>A port that records what it plans under the key of the intent, and only that.\<close>

locale keyed_planner =
  fixes plan :: "'p \<Rightarrow> 'd trade_intent \<Rightarrow> (string + trade_plan_receipt) \<times> 'p" and keys :: "'p \<Rightarrow> string set"
  assumes plan_refused: "plan p i = (Inl e, p') \<Longrightarrow> keys p' = keys p"
    and plan_recorded: "plan p i = (Inr r, p') \<Longrightarrow> keys p' = insert (ti_idempotency_key i) (keys p)"
begin

lemma step_keys:
  assumes "strategy_step D plan c a = (x, c1)"
  shows "keys (sc_planner c1) = keys (sc_planner c) \<union> set (planned_keys [a] [x])"
proof (cases a)
  case (Op_Signal s)
  show ?thesis
    by (rule handle_signal_cases [where D = D and plan = plan and c = c and s = s])
      (use assms Op_Signal in \<open>auto dest: plan_refused plan_recorded simp: signal_intent_def\<close>)
qed (use assms in \<open>auto simp: coordinator_moves split: if_splits\<close>)

lemma run_keys:
  assumes "strategy_run D plan c as = (xs, c')"
  shows "keys (sc_planner c') = keys (sc_planner c) \<union> set (planned_keys as xs)"
  using assms
proof (induction as arbitrary: c xs)
  case Nil
  then show ?case by simp
next
  case (Cons a as)
  then obtain x c1 ys where step: "strategy_step D plan c a = (x, c1)"
    and run: "strategy_run D plan c1 as = (ys, c')" and xs: "xs = x # ys"
    by (auto simp: strategy_run_Cons)
  have "planned_keys (a # as) (x # ys) = planned_keys [a] [x] @ planned_keys as ys"
    by (cases a) auto
  with Cons.IH [OF run] step_keys [OF step] show ?case by (auto simp: xs)
qed

end

section \<open>The ledger as a trading port\<close>

lemma compat_cases:
  assumes "compat_plan_trade D now st i = (r, st')"
  obtains (side) "intent_side (ti_side i) = None" "r = Inl ''signal side must be BUY or SELL''" "st' = st"
  | (error) side e where "intent_side (ti_side i) = Some side"
      "plan_order D st (intent_command i side) now = (Inl e, st')" "r = Inl (error_text e)"
  | (plan) side plan where "intent_side (ti_side i) = Some side"
      "plan_order D st (intent_command i side) now = (Inr plan, st')"
      "r = Inr \<lparr>tp_accepted = pl_accepted plan, tp_dispatch = pl_dispatch plan, tp_reason_code = pl_reason_code plan\<rparr>"
  using assms by (auto simp: compat_plan_trade_def split: option.splits prod.splits sum.splits)

lemma plan_order_refused: "plan_order D st c now = (Inl e, st') \<Longrightarrow> st_commands st' = st_commands st"
  by (auto simp: plan_order_def Let_def split: sum.splits option.splits if_splits)

lemma plan_order_commands:
  "plan_order D st c now = (Inr plan, st') \<Longrightarrow>
     bm_get (st_commands st) (idempotency_key c) = None \<and>
     pl_accepted plan = rd_allowed (risk_evaluate D (st_risk st) c) \<and>
     st_commands st' = bm_insert (idempotency_key c)
       \<lparr>cs_fingerprint = request_fingerprint D c, cs_accepted = pl_accepted plan, cs_reason_code = pl_reason_code plan\<rparr>
       (st_commands st) \<or>
     (\<exists>cs. bm_get (st_commands st) (idempotency_key c) = Some cs \<and> pl_accepted plan = cs_accepted cs \<and>
        st_commands st' = st_commands st)"
  "plan_order D st c now = (r, st') \<Longrightarrow> st_risk st' = st_risk st \<and> st_orders st' = st_orders st"
  by (auto simp: plan_order_def Let_def split: sum.splits option.splits if_splits)

lemma plan_order_keys:
  assumes "plan_order D st c now = (Inr plan, st')"
  shows "fst ` set (st_commands st') = insert (idempotency_key c) (fst ` set (st_commands st))"
  using plan_order_commands(1) [OF assms]
proof (elim disjE conjE exE)
  fix cs
  assume "bm_get (st_commands st) (idempotency_key c) = Some cs" and "st_commands st' = st_commands st"
  then show ?thesis using bm_keys_get [of "idempotency_key c" "st_commands st"] by (simp add: insert_absorb)
next
  assume "st_commands st' = bm_insert (idempotency_key c)
    \<lparr>cs_fingerprint = request_fingerprint D c, cs_accepted = pl_accepted plan, cs_reason_code = pl_reason_code plan\<rparr>
    (st_commands st)"
  then show ?thesis using bm_keys_insert by (metis list.set_map)
qed

interpretation ledger_port: keyed_planner "compat_plan_trade D now" "\<lambda>st. fst ` set (st_commands st)"
proof
  fix st st' :: "('a, 'b) shadow_trading" and i e
  assume "compat_plan_trade D now st i = (Inl e, st')"
  then show "fst ` set (st_commands st') = fst ` set (st_commands st)"
    by (rule compat_cases) (simp_all add: plan_order_refused)
next
  fix st st' :: "('a, 'b) shadow_trading" and i r
  assume "compat_plan_trade D now st i = (Inr r, st')"
  then show "fst ` set (st_commands st') = insert (ti_idempotency_key i) (fst ` set (st_commands st))"
  proof (rule compat_cases)
    fix side plan
    assume "plan_order D st (intent_command i side) now = (Inr plan, st')"
    from plan_order_keys [OF this] show ?thesis by (simp add: intent_command_def)
  qed simp_all
qed

text \<open>No receipt dispatches, and the orders of the ledger stay as they are.\<close>

interpretation shadow_port: planner_contract "compat_plan_trade D now" "\<lambda>_. True" "\<lambda>st. st_orders st = []"
  "\<lambda>r. \<not> tp_dispatch r"
proof
  fix st :: "('a, 'b) shadow_trading" and i
  assume "st_orders st = []"
  then show "st_orders (snd (compat_plan_trade D now st i)) = []"
    by (cases "compat_plan_trade D now st i") (auto elim!: compat_cases dest: plan_order_commands(2))
next
  fix st :: "('a, 'b) shadow_trading" and i r
  assume "fst (compat_plan_trade D now st i) = Inr r"
  then show "\<not> tp_dispatch r"
    by (cases "compat_plan_trade D now st i")
      (auto elim!: compat_cases simp: plan_order_def Let_def split: sum.splits option.splits if_splits)
qed

text \<open>
  A ledger whose real-trade controls are off never accepts a live intent; a paper intent is
  never refused by the controls.
\<close>

definition controls_block :: "'d risk_config \<Rightarrow> bool" where
  "controls_block cfg \<longleftrightarrow> \<not> rc_real_trading_enabled cfg \<or> rc_kill_switch_active cfg"

definition all_verdicts :: "bool \<Rightarrow> ('d, 't) shadow_trading \<Rightarrow> bool" where
  "all_verdicts b st \<longleftrightarrow> (\<forall>key cs. bm_get (st_commands st) key = Some cs \<longrightarrow> cs_accepted cs = b)"

lemma plan_order_verdict:
  assumes "all_verdicts b st" and "plan_order D st c now = (r, st')"
    and "rd_allowed (risk_evaluate D (st_risk st) c) = b \<or> command_validate D c \<noteq> Inr ()"
  shows "all_verdicts b st' \<and> (\<forall>plan. r = Inr plan \<longrightarrow> pl_accepted plan = b)"
proof (cases "command_validate D c = Inr ()")
  case False
  then have "r \<noteq> Inr plan \<and> st' = st" for plan
    using assms(2) by (cases "command_validate D c") (auto simp: plan_order_def)
  with assms(1) show ?thesis by auto
next
  case True
  with assms(3) have b: "rd_allowed (risk_evaluate D (st_risk st) c) = b" by simp
  show ?thesis
  proof (cases r)
    case (Inl e)
    with assms plan_order_refused [of D st c now e st'] show ?thesis by (simp add: all_verdicts_def)
  next
    case (Inr plan)
    with assms(2) have "plan_order D st c now = (Inr plan, st')" by simp
    from plan_order_commands(1) [OF this] assms(1) b Inr show ?thesis by (auto simp: all_verdicts_def split: if_splits)
  qed
qed

lemma live_blocked: "oc_environment c = Real_Env \<Longrightarrow> controls_block cfg \<Longrightarrow> \<not> rd_allowed (risk_evaluate D cfg c)"
  by (auto simp: risk_evaluate_def controls_block_def)

lemma paper_allowed:
  "oc_environment c = Simulate \<Longrightarrow> command_validate D c = Inr () \<Longrightarrow> rd_allowed (risk_evaluate D cfg c)"
  by (auto simp: risk_evaluate_def command_validate_def result_simps split: if_splits)

lemma compat_verdict:
  assumes "all_verdicts b st" and "compat_plan_trade D now st i = (r, st')"
    and "\<And>side. rd_allowed (risk_evaluate D (st_risk st) (intent_command i side)) = b \<or>
           command_validate D (intent_command i side) \<noteq> Inr ()"
  shows "all_verdicts b st' \<and> st_risk st' = st_risk st \<and> (\<forall>receipt. r = Inr receipt \<longrightarrow> tp_accepted receipt = b)"
  using assms(2)
proof (rule compat_cases)
  assume "r = Inl ''signal side must be BUY or SELL''" and "st' = st"
  with assms(1) show ?thesis by simp
next
  fix side e
  assume p: "plan_order D st (intent_command i side) now = (Inl e, st')" and "r = Inl (error_text e)"
  with plan_order_verdict [OF assms(1) p assms(3)] plan_order_commands(2) [OF p] show ?thesis by simp
next
  fix side plan
  assume p: "plan_order D st (intent_command i side) now = (Inr plan, st')"
    and "r = Inr \<lparr>tp_accepted = pl_accepted plan, tp_dispatch = pl_dispatch plan, tp_reason_code = pl_reason_code plan\<rparr>"
  with plan_order_verdict [OF assms(1) p assms(3)] plan_order_commands(2) [OF p] show ?thesis by simp
qed

interpretation blocked_port: planner_contract "compat_plan_trade D now" "ti_live"
  "\<lambda>st. all_verdicts False st \<and> controls_block (st_risk st)" "\<lambda>r. \<not> tp_accepted r"
proof
  fix st :: "('a, 'b) shadow_trading" and i :: "'a trade_intent"
  assume *: "all_verdicts False st \<and> controls_block (st_risk st)" and live: "ti_live i"
  have "\<not> rd_allowed (risk_evaluate D (st_risk st) (intent_command i side))" for side
    by (rule live_blocked) (use * live in \<open>simp_all add: intent_command_def\<close>)
  then have v: "all_verdicts False st' \<and> st_risk st' = st_risk st \<and> (\<forall>receipt. r = Inr receipt \<longrightarrow> tp_accepted receipt = False)"
    if "compat_plan_trade D now st i = (r, st')" for r st'
    using compat_verdict [OF conjunct1 [OF *] that] by simp
  show "all_verdicts False (snd (compat_plan_trade D now st i)) \<and> controls_block (st_risk (snd (compat_plan_trade D now st i)))"
    using * by (cases "compat_plan_trade D now st i") (auto dest: v)
  show "\<not> tp_accepted r" if "fst (compat_plan_trade D now st i) = Inr r" for r
    using that by (cases "compat_plan_trade D now st i") (auto dest: v)
qed

interpretation paper_port: planner_contract "compat_plan_trade D now" "\<lambda>i. \<not> ti_live i" "all_verdicts True" "\<lambda>r. tp_accepted r"
proof
  fix st :: "('a, 'b) shadow_trading" and i :: "'a trade_intent"
  assume *: "all_verdicts True st" and live: "\<not> ti_live i"
  have "rd_allowed (risk_evaluate D (st_risk st) (intent_command i side)) \<or> command_validate D (intent_command i side) \<noteq> Inr ()" for side
    using paper_allowed [of "intent_command i side" D] live by (auto simp: intent_command_def)
  then have v: "all_verdicts True st' \<and> st_risk st' = st_risk st \<and> (\<forall>receipt. r = Inr receipt \<longrightarrow> tp_accepted receipt = True)"
    if "compat_plan_trade D now st i = (r, st')" for r st'
    using compat_verdict [OF * that] by simp
  show "all_verdicts True (snd (compat_plan_trade D now st i))"
    by (cases "compat_plan_trade D now st i") (auto dest: v)
  show "tp_accepted r" if "fst (compat_plan_trade D now st i) = Inr r" for r
    using that by (cases "compat_plan_trade D now st i") (auto dest: v)
qed

section \<open>From any state to an acted-upon signal\<close>

fun route_to_running :: "runtime_state \<Rightarrow> ('d, 't) strategy_op list" where
  "route_to_running Running = []"
| "route_to_running Run_Stopped = [Op_Start, Op_Ready]"
| "route_to_running Starting = [Op_Ready]"
| "route_to_running Paused = [Op_Resume]"
| "route_to_running Recovering = [Op_Ready]"
| "route_to_running Stopping = [Op_Stopped, Op_Start, Op_Ready]"

lemma strategy_run_snoc:
  "strategy_run D plan c (as @ [a]) =
     (let (xs, c1) = strategy_run D plan c as; (x, c2) = strategy_step D plan c1 a in (xs @ [x], c2))"
  by (induction as arbitrary: c) (auto simp: strategy_run.simps(2) split: prod.splits)

lemma route_runs:
  "snd (strategy_run D plan c (route_to_running (sc_state c))) = c\<lparr>sc_state := Running\<rparr>"
  by (cases "sc_state c") (simp_all add: strategy_run.simps(2) coordinator_moves)

lemma length_route: "length (route_to_running s) \<le> 3"
  by (cases s) simp_all

lemma acted_ids_append [simp]: "acted_ids (xs @ ys) = acted_ids xs @ acted_ids ys"
  by (induction xs) (simp_all, metis acted_ids_Cons append.assoc)

lemma accepted_signal_acted:
  assumes "signal_validate D s = Inr ()" and "sg_signal_id s \<notin> set (sc_seen_signals c)" and "sc_state c = Running"
    and "sc_mode c = NotifyOnly \<or> (\<exists>r. fst (plan (sc_planner c) (signal_intent (sc_mode c) s)) = Inr r)"
  shows "acted_ids [fst (strategy_step D plan c (Op_Signal s))] = [sg_signal_id s]"
  by (rule handle_signal_cases [where D = D and plan = plan and c = c and s = s]) (use assms in \<open>auto simp: acted_ids.simps\<close>)

lemma validated_side:
  assumes "signal_validate D s = Inr ()"
  shows "intent_side (sg_side s) \<noteq> None"
proof -
  have "upper (trim (sg_side s)) = ''BUY'' \<or> upper (trim (sg_side s)) = ''SELL''"
    using assms by (auto simp: signal_validate_def result_simps Let_def split: if_splits)
  moreover have "upper ''BUY'' = ''BUY''" and "upper ''SELL'' = ''SELL''" by code_simp+
  ultimately show ?thesis by (auto simp: intent_side_def eq_ignore_case_upper)
qed

lemma notify_step:
  assumes "strategy_step D plan c a = (x, c1)" and "sc_mode c = NotifyOnly"
  shows "receipts [x] = [] \<and> sc_planner c1 = sc_planner c"
proof (cases a)
  case (Op_Signal s)
  show ?thesis
    by (rule handle_signal_cases [where D = D and plan = plan and c = c and s = s])
      (use assms Op_Signal in \<open>auto simp: receipts.simps\<close>)
qed (use assms in \<open>auto simp: coordinator_moves receipts.simps split: if_splits\<close>)

lemma notify_run:
  assumes "strategy_run D plan c as = (xs, c')" and "sc_mode c = NotifyOnly"
  shows "receipts xs = [] \<and> sc_planner c' = sc_planner c"
  using assms
proof (induction as arbitrary: c xs)
  case Nil
  then show ?case by simp
next
  case (Cons a as)
  then obtain x c1 ys where step: "strategy_step D plan c a = (x, c1)"
    and run: "strategy_run D plan c1 as = (ys, c')" and xs: "xs = x # ys"
    by (auto simp: strategy_run_Cons)
  have "sc_mode c1 = NotifyOnly" using step_acts(4) [OF step] Cons.prems(2) by simp
  from Cons.IH [OF run this] notify_step [OF step Cons.prems(2)] show ?case
    by (simp add: xs receipts_Cons [of x ys])
qed

lemma signal_validate_Inr:
  "signal_validate D s = Inr () \<longleftrightarrow>
     (\<forall>fv\<in>set (signal_fields s). \<not> blank (snd fv)) \<and> d_lt D (d_zero D) (sg_quantity s) \<and>
     upper (trim (sg_side s)) \<in> {''BUY'', ''SELL''}"
proof -
  have "try_fold (\<lambda>_ (field, text). if blank text then Inl (Signal_MissingField field) else Inr ()) u fvs = Inr () \<longleftrightarrow>
      (\<forall>fv\<in>set fvs. \<not> blank (snd fv))" for u :: unit and fvs :: "(string \<times> string) list"
    by (induction fvs arbitrary: u) (auto simp: result_simps split: if_splits)
  then show ?thesis
    by (auto simp: signal_validate_def result_simps Let_def not_le)
qed

lemma signal_key_not_blank: "\<not> blank (signal_key s)"
  unfolding signal_key_def by (simp add: not_blank_Cons byte_def ws1_def)

lemma port_errors:
  assumes "signal_validate D s = Inr ()" and "plan_order D st (intent_command (signal_intent mode s) side) now = (Inl err, st')"
  shows "err \<in> {MissingField ''brokerId'', MissingField ''accountId'', MissingField ''market'', InvalidPrice, IdempotencyConflict}"
proof (cases "command_validate D (intent_command (signal_intent mode s) side)")
  case (Inl e)
  moreover have "err = e" using assms(2) Inl by (simp add: plan_order_def)
  moreover have "\<not> blank (sg_trace_id s)" "\<not> blank (sg_symbol s)" "d_lt D (d_zero D) (sg_quantity s)"
    using assms(1) by (simp_all add: signal_validate_Inr signal_fields_def)
  ultimately show ?thesis
    using signal_key_not_blank [of s]
    by (auto simp: command_validate_def command_fields_def check_field_def intent_command_def signal_intent_def
        result_simps split: if_splits)
next
  case (Inr u)
  with assms(2) show ?thesis by (auto simp: plan_order_def Let_def split: option.splits if_splits)
qed

section \<open>Properties\<close>

definition sample_signal :: "string \<Rightarrow> (int, nat) signal" where
  "sample_signal sid =
     \<lparr>sg_signal_id = sid, sg_trace_id = ''trace'', sg_instance_id = ''instance-1'', sg_broker_id = ''futu'',
      sg_account_id = ''acc-1'', sg_market = ''US'', sg_symbol = ''AAPL'', sg_side = ''BUY'',
      sg_quantity = dec_unit, sg_price = Some (100 * dec_unit), sg_observed_at = 0\<rparr>"

definition open_config :: "int risk_config" where
  "open_config = \<lparr>rc_real_trading_enabled = False, rc_kill_switch_active = False, rc_max_order_quantity = None,
     rc_max_order_notional = None, rc_hard_stops = []\<rparr>"

lemma sample_signal_valid: "signal_validate dec28 (sample_signal ''s1'') = Inr ()"
proof -
  have "\<not> blank ''s1''" "\<not> blank ''trace''" "\<not> blank ''instance-1''" "\<not> blank ''AAPL''" "upper (trim ''BUY'') = ''BUY''"
    by code_simp+
  then show ?thesis by (simp add: signal_validate_def signal_fields_def sample_signal_def d_zero_def)
qed

lemma sample_signal_id [simp]: "sg_signal_id (sample_signal sid) = sid"
  by (simp add: sample_signal_def)

text \<open>C15: A signal is acted upon at most once. Whatever operations a new coordinator is put through
  and whatever its planner answers, the answers that are not marked as duplicates carry distinct
  signal ids, and the ids the coordinator remembers are exactly the ids it has acted upon: a
  signal that was refused, or whose planning failed, can be sent again.
\<close>

theorem signal_acted_once:
  "let (xs, c) = strategy_run D plan (coordinator_new mode p) ops
   in distinct (acted_ids xs) \<and> set (sc_seen_signals c) = set (acted_ids xs)"
proof -
  obtain xs c where run: "strategy_run D plan (coordinator_new mode p) ops = (xs, c)" by fastforce
  from run_acts [OF run] show ?thesis by (simp add: run)
qed

text \<open>C17: A strategy that is replayed over the shadow ledger only ever plans. After any operations of
  the coordinator no receipt asks for a dispatch, no order has appeared in the ledger, and the
  commands of the ledger are exactly those of the signals that were answered with a trade plan,
  under the idempotency key of the signal.
\<close>

theorem strategy_only_plans:
  "let (xs, c) = strategy_run D (compat_plan_trade D now) (replay_strategy cfg mode) ops
   in list_all (\<lambda>r. \<not> tp_dispatch r) (receipts xs) \<and> st_orders (sc_planner c) = [] \<and>
      fst ` set (st_commands (sc_planner c)) = set (planned_keys ops xs)"
proof -
  obtain xs c where run: "strategy_run D (compat_plan_trade D now) (replay_strategy cfg mode) ops = (xs, c)"
    by fastforce
  from shadow_port.run_contract [OF run] ledger_port.run_keys [OF run] show ?thesis
    by (simp add: run)
qed

text \<open>C16: The real-trade controls reach through the strategy. When real trading is not enabled or the
  kill switch is active, no receipt that a live strategy obtains over a new ledger is accepted,
  replays of earlier signals included.
\<close>

theorem controls_stop_live_strategy:
  assumes "controls_block cfg"
  shows "list_all (\<lambda>r. \<not> tp_accepted r)
     (receipts (fst (strategy_run D (compat_plan_trade D now) (replay_strategy cfg Live) ops)))"
proof -
  obtain xs c where run: "strategy_run D (compat_plan_trade D now) (replay_strategy cfg Live) ops = (xs, c)"
    by fastforce
  from blocked_port.run_contract [OF run] assms show ?thesis
    by (simp add: run all_verdicts_def signal_intent_def)
qed

theorem controls_stop_live_strategy_witness:
  "list_all (\<lambda>r. \<not> tp_accepted r)
     (receipts (fst (strategy_run dec28 (compat_plan_trade dec28 (0 :: nat)) (replay_strategy open_config Live)
        [Op_Start, Op_Ready, Op_Signal (sample_signal ''s1'')])))"
  by (rule controls_stop_live_strategy) (simp add: controls_block_def open_config_def)

text \<open>A paper strategy is not touched by the real-trade controls: every receipt it obtains over a
  new ledger is accepted, whatever the risk configuration. A strategy that only notifies never
  calls the planner at all.
\<close>

theorem paper_and_notify_modes:
  "list_all tp_accepted (receipts (fst (strategy_run D (compat_plan_trade D now) (replay_strategy cfg Paper) ops))) \<and>
   (let (xs, c) = strategy_run D plan (coordinator_new NotifyOnly p) ops in receipts xs = [] \<and> sc_planner c = p)"
proof -
  obtain xs c where run: "strategy_run D (compat_plan_trade D now) (replay_strategy cfg Paper) ops = (xs, c)"
    by fastforce
  have paper: "list_all tp_accepted (receipts xs)"
    using paper_port.run_contract [OF run] by (simp add: all_verdicts_def signal_intent_def)
  obtain ys c' where run': "strategy_run D plan (coordinator_new NotifyOnly p) ops = (ys, c')"
    by fastforce
  from notify_run [OF run'] paper show ?thesis by (simp add: run run')
qed

text \<open>C34: No state of the coordinator is a dead end. From any state at most three operations lead to
  \<open>Running\<close> without touching the remembered signals or the planner; a valid signal not acted upon
  before, which the planner accepts (or which is only notified), is then acted upon.
\<close>

theorem signal_eventually_acted:
  fixes s :: "('d, 't) signal"
  assumes "signal_validate D s = Inr ()" and "sg_signal_id s \<notin> set (sc_seen_signals c)"
    and "sc_mode c = NotifyOnly \<or> fst (plan (sc_planner c) (signal_intent (sc_mode c) s)) = Inr r"
  shows "\<exists>ops. length ops \<le> 3 \<and> snd (strategy_run D plan c ops) = c\<lparr>sc_state := Running\<rparr> \<and>
    sg_signal_id s \<in> set (acted_ids (fst (strategy_run D plan c (ops @ [Op_Signal s]))))"
proof -
  let ?ops = "route_to_running (sc_state c) :: ('d, 't) strategy_op list"
  have "acted_ids [fst (strategy_step D plan (c\<lparr>sc_state := Running\<rparr>) (Op_Signal s))] = [sg_signal_id s]"
    by (rule accepted_signal_acted) (use assms in auto)
  moreover have "fst (strategy_run D plan c (?ops @ [Op_Signal s])) =
      fst (strategy_run D plan c ?ops) @ [fst (strategy_step D plan (c\<lparr>sc_state := Running\<rparr>) (Op_Signal s))]"
    by (subst strategy_run_snoc) (simp add: split_def Let_def route_runs del: strategy_step.simps)
  ultimately have "sg_signal_id s \<in> set (acted_ids (fst (strategy_run D plan c (?ops @ [Op_Signal s]))))"
    by (metis acted_ids_append in_set_conv_decomp)
  with route_runs length_route show ?thesis by blast
qed

theorem signal_eventually_acted_witness:
  "\<exists>ops. length ops \<le> 3 \<and>
     snd (strategy_run dec28 (compat_plan_trade dec28 (0 :: nat)) (replay_strategy open_config NotifyOnly) ops) =
       replay_strategy open_config NotifyOnly\<lparr>sc_state := Running\<rparr> \<and>
     ''s1'' \<in> set (acted_ids (fst (strategy_run dec28 (compat_plan_trade dec28 (0 :: nat))
       (replay_strategy open_config NotifyOnly) (ops @ [Op_Signal (sample_signal ''s1'')]))))"
  using signal_eventually_acted [OF sample_signal_valid, where c = "replay_strategy open_config NotifyOnly"
      and plan = "compat_plan_trade dec28 (0 :: nat)"]
  unfolding sample_signal_id replay_strategy_simps by simp

text \<open>A failed planning is undone. When the ledger refuses a signal, the coordinator answers with
  the text of the ledger's error and is otherwise as before, so that the same signal can be sent
  again; the ledger holds the same commands. The checks of the signal and of the port leave the
  ledger only three missing fields, a price that is not positive and a reused key to complain of.
\<close>

theorem failed_planning_is_undone:
  assumes "handle_signal D (compat_plan_trade D now) c s = (Inl (TradingPort e), c')"
  shows "c' = c\<lparr>sc_planner := sc_planner c'\<rparr> \<and> st_commands (sc_planner c') = st_commands (sc_planner c) \<and>
    e \<in> error_text ` {MissingField ''brokerId'', MissingField ''accountId'', MissingField ''market'',
                      InvalidPrice, IdempotencyConflict}"
proof (rule handle_signal_cases [where D = D and plan = "compat_plan_trade D now" and c = c and s = s])
  fix e' p
  let ?i = "signal_intent (sc_mode c) s"
  assume valid: "signal_validate D s = Inr ()"
    and plan: "compat_plan_trade D now (sc_planner c) ?i = (Inl e', p)"
    and "handle_signal D (compat_plan_trade D now) c s = (Inl (TradingPort e'), c\<lparr>sc_planner := p\<rparr>)"
  with assms have e: "e' = e" and c': "c' = c\<lparr>sc_planner := p\<rparr>" by auto
  from plan obtain side err where
    order: "plan_order D (sc_planner c) (intent_command ?i side) now = (Inl err, p)" and err: "e = error_text err"
    by (rule compat_cases) (use validated_side [OF valid] e in \<open>auto simp: signal_intent_def\<close>)
  show ?thesis
    using plan_order_refused [OF order] imageI [OF port_errors [OF valid order], of error_text] by (simp only: c' err) simp
qed (use assms in auto)

theorem failed_planning_is_undone_witness:
  "let s = sample_signal ''s1''\<lparr>sg_broker_id := []\<rparr>; c = (replay_strategy open_config Paper)\<lparr>sc_state := Running\<rparr>;
       c' = snd (handle_signal dec28 (compat_plan_trade dec28 (0 :: nat)) c s)
   in c' = c\<lparr>sc_planner := sc_planner c'\<rparr> \<and> st_commands (sc_planner c') = [] \<and>
      ''brokerId is required'' \<in> error_text ` {MissingField ''brokerId'', MissingField ''accountId'',
        MissingField ''market'', InvalidPrice, IdempotencyConflict}"
proof -
  let ?s = "sample_signal ''s1''\<lparr>sg_broker_id := []\<rparr>" and ?c = "(replay_strategy open_config Paper)\<lparr>sc_state := Running\<rparr>"
  have "signal_validate dec28 ?s = signal_validate dec28 (sample_signal ''s1'')"
    by (simp add: signal_validate_def signal_fields_def)
  then have valid: "signal_validate dec28 ?s = Inr ()" by (simp add: sample_signal_valid)
  have "intent_side ''BUY'' = Some Buy" by code_simp
  moreover have "command_validate dec28 (intent_command (signal_intent Paper ?s) Buy) = Inl (MissingField ''brokerId'')"
    using valid signal_key_not_blank [of ?s]
    by (simp add: signal_validate_Inr signal_fields_def command_validate_def command_fields_def check_field_def
        intent_command_def signal_intent_def)
  moreover have "plan_order dec28 (sc_planner ?c) (intent_command (signal_intent Paper ?s) Buy) (0 :: nat) =
      (Inl (MissingField ''brokerId''), sc_planner ?c)"
    unfolding plan_order_def calculation(2) by simp
  moreover have "ti_side (signal_intent Paper ?s) = ''BUY''" by (simp add: signal_intent_def sample_signal_def)
  ultimately have "compat_plan_trade dec28 (0 :: nat) (sc_planner ?c) (signal_intent Paper ?s) =
      (Inl ''brokerId is required'', sc_planner ?c)"
    by (simp only: compat_plan_trade_def) simp
  then have h: "handle_signal dec28 (compat_plan_trade dec28 (0 :: nat)) ?c ?s =
      (Inl (TradingPort ''brokerId is required''), snd (handle_signal dec28 (compat_plan_trade dec28 (0 :: nat)) ?c ?s))"
    using valid by (simp add: handle_signal_def bs_insert_def)
  from failed_planning_is_undone [OF h] show ?thesis by (simp add: Let_def)
qed

text \<open>
  The idempotency key joins the instance and the signal with a colon, which both may contain: two
  signals of two instances share a key, and the ledger answers the second with the plan of the first.
\<close>

theorem signal_key_collision:
  "\<exists>(s :: (int, nat) signal) (t :: (int, nat) signal). sg_instance_id s \<noteq> sg_instance_id t \<and> sg_signal_id s \<noteq> sg_signal_id t \<and>
     (\<forall>mode. signal_intent mode s = signal_intent mode t)"
  by (rule exI [of _ "sample_signal ''b:c''\<lparr>sg_instance_id := ''a''\<rparr>"],
      rule exI [of _ "sample_signal ''c''\<lparr>sg_instance_id := ''a:b''\<rparr>"])
    (simp add: sample_signal_def signal_intent_def signal_key_def)

end
