(* ===== verification/Strategy_Registry.thy ===== *)
theory Strategy_Registry
  imports Strategy_Service
begin

text \<open>
  \<open>crates/jftrade-strategy/src/runtime_registry.rs\<close>: the registry of the running strategy
  instances, a map from the trimmed instance id to a normalised summary. \<open>utc\<close> is the conversion
  of a time stamp to UTC (the crate \<open>time\<close>); time stamps are compared as instants.
\<close>

section \<open>The registry\<close>

record 't runtime_summary =
  ri_instance_id :: string
  ri_definition_name :: string
  ri_actual_state :: runtime_state
  ri_active_symbols :: "string list"
  ri_last_closed_kline_at :: "'t option"
  ri_last_signal_at :: "'t option"
  ri_last_order_at :: "'t option"
  ri_last_error_at :: "'t option"
  ri_last_error :: "string option"
  ri_updated_at :: "'t option"

datatype registry_error = MissingInstanceId

type_synonym 't strategy_registry = "(string, 't runtime_summary) bmap"

definition registry_status :: "'t runtime_summary list \<Rightarrow> string" where
  "registry_status active_instances = (if active_instances = [] then ''idle'' else ''active'')"

definition active_strategies :: "'t runtime_summary list \<Rightarrow> nat" where
  "active_strategies active_instances = length active_instances"

definition normalize_timestamp :: "('t \<Rightarrow> 't) \<Rightarrow> 't option \<Rightarrow> 't option" where
  "normalize_timestamp utc t = map_option utc t"

definition format_timestamp :: "('t \<Rightarrow> 't) \<Rightarrow> ('t \<Rightarrow> string) \<Rightarrow> 't option \<Rightarrow> string option" where
  "format_timestamp utc show_t t = map_option show_t (normalize_timestamp utc t)"

fun max_timestamp :: "'t::linorder option \<Rightarrow> 't option \<Rightarrow> 't option" where
  "max_timestamp None t = t"
| "max_timestamp t None = t"
| "max_timestamp (Some l) (Some r) = Some (if l < r then r else l)"

definition optional_string :: "string option \<Rightarrow> string option" where
  "optional_string s = opt_filter (\<lambda>t. t \<noteq> []) (map_option trim s)"

definition normalize_symbols :: "string list \<Rightarrow> string list" where
  "normalize_symbols symbols = remdups_adj (sort (filter (\<lambda>s. s \<noteq> []) (map trim symbols)))"

definition normalized_summary :: "('t \<Rightarrow> 't) \<Rightarrow> 't runtime_summary \<Rightarrow> 't runtime_summary" where
  "normalized_summary utc i =
     \<lparr>ri_instance_id = trim (ri_instance_id i), ri_definition_name = trim (ri_definition_name i),
      ri_actual_state = ri_actual_state i, ri_active_symbols = normalize_symbols (ri_active_symbols i),
      ri_last_closed_kline_at = normalize_timestamp utc (ri_last_closed_kline_at i),
      ri_last_signal_at = normalize_timestamp utc (ri_last_signal_at i),
      ri_last_order_at = normalize_timestamp utc (ri_last_order_at i),
      ri_last_error_at = normalize_timestamp utc (ri_last_error_at i),
      ri_last_error = opt_filter (\<lambda>t. t \<noteq> []) (map_option trim (ri_last_error i)),
      ri_updated_at = normalize_timestamp utc (ri_updated_at i)\<rparr>"

definition registry_upsert :: "('t \<Rightarrow> 't) \<Rightarrow> 't strategy_registry \<Rightarrow> 't runtime_summary \<Rightarrow>
    registry_error + 't strategy_registry" where
  "registry_upsert utc reg i =
     (if trim (ri_instance_id i) = [] then Inl MissingInstanceId
      else Inr (bm_insert (trim (ri_instance_id i)) (normalized_summary utc i) reg))"

definition registry_remove :: "'t strategy_registry \<Rightarrow> string \<Rightarrow> bool \<times> 't strategy_registry" where
  "registry_remove reg iid = (bm_get reg (trim iid) \<noteq> None, bm_remove (trim iid) reg)"

definition registry_snapshot :: "'t strategy_registry \<Rightarrow> 't runtime_summary list" where
  "registry_snapshot reg = bm_values reg"

datatype 't registry_op = Reg_Upsert "'t runtime_summary" | Reg_Remove string

fun registry_step :: "('t \<Rightarrow> 't) \<Rightarrow> 't strategy_registry \<Rightarrow> 't registry_op \<Rightarrow> 't strategy_registry" where
  "registry_step utc reg (Reg_Upsert i) = (case registry_upsert utc reg i of Inl _ \<Rightarrow> reg | Inr reg' \<Rightarrow> reg')"
| "registry_step utc reg (Reg_Remove iid) = snd (registry_remove reg iid)"

section \<open>Well-formed summaries\<close>

definition trimmed :: "string \<Rightarrow> bool" where
  "trimmed s \<longleftrightarrow> trim s = s"

definition summary_ok :: "'t runtime_summary \<Rightarrow> bool" where
  "summary_ok i \<longleftrightarrow> trimmed (ri_instance_id i) \<and> ri_instance_id i \<noteq> [] \<and> trimmed (ri_definition_name i) \<and>
     sorted_wrt (<) (ri_active_symbols i) \<and> list_all (\<lambda>s. trimmed s \<and> s \<noteq> []) (ri_active_symbols i) \<and>
     pred_option (\<lambda>e. trimmed e \<and> e \<noteq> []) (ri_last_error i)"

lemma strictly_sorted_remdups_adj: "sorted xs \<Longrightarrow> sorted_wrt (<) (remdups_adj (xs :: 'a::linorder list))"
  by (induction xs rule: remdups_adj.induct) (auto simp: less_le)

lemma normalize_symbols_ok:
  "sorted_wrt (<) (normalize_symbols xs)" "list_all (\<lambda>s. trimmed s \<and> s \<noteq> []) (normalize_symbols xs)"
  by (simp_all add: normalize_symbols_def strictly_sorted_remdups_adj list_all_iff) (auto simp: trimmed_def)

lemma set_normalize_symbols: "set (normalize_symbols xs) = {trim x |x. x \<in> set xs \<and> trim x \<noteq> []}"
  by (auto simp: normalize_symbols_def)

lemma pred_error: "pred_option (\<lambda>e. trimmed e \<and> e \<noteq> []) (opt_filter (\<lambda>t. t \<noteq> []) (map_option trim s))"
  by (cases s) (simp_all add: trimmed_def)

definition registry_ok :: "'t strategy_registry \<Rightarrow> bool" where
  "registry_ok reg \<longleftrightarrow> bm_ok reg \<and> list_all (\<lambda>(iid, i). ri_instance_id i = iid \<and> summary_ok i) reg"

lemma registry_upsert_ok:
  assumes "registry_ok reg" and "registry_upsert utc reg i = Inr reg'"
  shows "registry_ok reg'"
proof -
  let ?s = "normalized_summary utc i"
  have "ri_instance_id ?s = trim (ri_instance_id i)" by (simp add: normalized_summary_def)
  moreover have "trim (ri_instance_id i) \<noteq> []" and reg': "reg' = bm_insert (trim (ri_instance_id i)) ?s reg"
    using assms(2) by (auto simp: registry_upsert_def split: if_splits)
  moreover have "summary_ok ?s" if "trim (ri_instance_id i) \<noteq> []"
    using that normalize_symbols_ok pred_error by (simp add: summary_ok_def normalized_summary_def trimmed_def)
  ultimately show ?thesis
    using assms(1) bm_entries_insert [of "trim (ri_instance_id i)" ?s reg]
    by (auto simp: registry_ok_def list_all_iff)
qed

lemma registry_remove_ok: "registry_ok reg \<Longrightarrow> registry_ok (snd (registry_remove reg iid))"
  using bm_remove_subset [of "trim iid" reg] by (auto simp: registry_ok_def registry_remove_def list_all_iff)

interpretation registry: machine "registry_step utc" registry_ok
proof
  fix reg :: "'a strategy_registry" and a
  assume "registry_ok reg"
  then show "registry_ok (registry_step utc reg a)"
    by (cases a) (auto simp: registry_remove_ok split: sum.split dest: registry_upsert_ok)
qed

section \<open>Properties\<close>

text \<open>C36: Every registry reachable from the empty one is well formed: the snapshot lists the instances
  in strictly increasing order of their ids, which are trimmed and not empty; the symbols of an
  instance are trimmed, not empty, sorted and free of duplicates; a recorded error is not blank.
\<close>

theorem registry_well_formed:
  "let snap = registry_snapshot (run (registry_step utc) [] ops)
   in list_all summary_ok snap \<and> sorted_wrt (<) (map ri_instance_id snap) \<and>
      registry_status snap = (if active_strategies snap = 0 then ''idle'' else ''active'')"
proof -
  have ok: "registry_ok (run (registry_step utc) [] ops)"
    by (rule registry.run_inv) (simp add: registry_ok_def)
  let ?reg = "run (registry_step utc) [] ops"
  have "map ri_instance_id (registry_snapshot ?reg) = map fst ?reg"
    using ok by (auto simp: registry_ok_def list_all_iff registry_snapshot_def bm_values_def)
  moreover have "list_all summary_ok (registry_snapshot ?reg)"
    using ok by (auto simp: registry_ok_def list_all_iff registry_snapshot_def bm_values_def)
  ultimately show ?thesis
    using ok by (simp add: registry_ok_def bm_ok_def Let_def registry_status_def active_strategies_def)
qed

end
