(* ===== verification/Market_Model.thy ===== *)
theory Market_Model
  imports Decimal_Lib
begin

text \<open>
  \<open>crates/jftrade-marketdata/src\<close>: \<open>model.rs\<close>, the data of the market-data runtime and the
  normalisation of instrument references; \<open>cache.rs\<close>, the bounded cache of ticks per instrument.
  An instrument reference is ordered field by field, as \<open>derive(Ord)\<close> does; the cache is refined
  by an unbounded history of the accepted ticks.
\<close>

section \<open>Providers\<close>

datatype provider_readiness = Warming | Ready | Failed | Readiness_Unknown

fun readiness_debug :: "provider_readiness \<Rightarrow> string" where
  "readiness_debug Warming = ''Warming''"
| "readiness_debug Ready = ''Ready''"
| "readiness_debug Failed = ''Failed''"
| "readiness_debug Readiness_Unknown = ''Unknown''"

record health_status =
  hs_connected :: bool
  hs_stream_mode :: string
  hs_active_count :: nat
  hs_readiness :: provider_readiness
  hs_last_error :: "string option"

definition health_default :: health_status where
  "health_default = \<lparr>hs_connected = False, hs_stream_mode = [], hs_active_count = 0,
     hs_readiness = Readiness_Unknown, hs_last_error = None\<rparr>"

definition is_ready :: "health_status \<Rightarrow> bool" where
  "is_ready h \<longleftrightarrow> hs_connected h \<and> hs_readiness h = Ready \<and> hs_last_error h = None"

record provider_capabilities =
  pc_snapshots :: bool
  pc_streaming_quotes :: bool
  pc_streaming_candles :: bool
  pc_streaming_depth :: bool
  pc_historical_candles :: bool
  pc_tick_candles :: bool
  pc_order_book_depth :: bool
  pc_instrument_search :: bool
  pc_extended_hours :: bool
  pc_candle_intervals :: "string list"
  pc_order_book_levels :: "16 word list"
  pc_sessions :: "string list"
  pc_price_adjustments :: "string list"
  pc_historical_lookback_days :: "(string, 32 word) bmap"

record provider_constraints =
  pk_requires_open_d :: bool
  pk_requires_market_data_right :: bool
  pk_uses_subscription_quota :: bool

record provider_descriptor =
  pd_selection_id :: string
  pd_provider_id :: string
  pd_display_name :: string
  pd_broker_id :: "string option"
  pd_source :: string
  pd_default_market :: string
  pd_supported_markets :: "string list"
  pd_transports :: "string list"
  pd_capabilities :: provider_capabilities
  pd_constraints :: provider_constraints
  pd_notes :: "string list"

datatype market_data_error =
    InvalidDescriptor string
  | InvalidSubscription string
  | MissingConsumer
  | ProviderNotFound string
  | ProviderUnavailable string string
  | ManagedSubscriptionsActive
  | StreamingUnavailable string
  | CacheMiss string
  | CacheStale string
  | ProviderChanged

fun market_error_text :: "market_data_error \<Rightarrow> string" where
  "market_error_text (InvalidDescriptor f) = ''invalid provider descriptor field '' @ f"
| "market_error_text (InvalidSubscription m) = ''invalid subscription: '' @ m"
| "market_error_text MissingConsumer = ''consumer id is required''"
| "market_error_text (ProviderNotFound p) = ''provider '' @ p @ '' is not registered''"
| "market_error_text (ProviderUnavailable p reason) = ''provider '' @ p @ '' is not ready: '' @ reason"
| "market_error_text ManagedSubscriptionsActive = ''managed market-data subscriptions are active''"
| "market_error_text (StreamingUnavailable p) = ''provider '' @ p @ '' does not support streaming subscriptions''"
| "market_error_text (CacheMiss i) = ''market-data cache miss for '' @ i"
| "market_error_text (CacheStale i) = ''market-data cache entry for '' @ i @ '' is stale''"
| "market_error_text ProviderChanged = ''market-data value belongs to a stale provider generation''"

definition descriptor_fields :: "provider_descriptor \<Rightarrow> (string \<times> string) list" where
  "descriptor_fields d =
     [(''selectionId'', pd_selection_id d), (''providerId'', pd_provider_id d),
      (''displayName'', pd_display_name d), (''source'', pd_source d), (''defaultMarket'', pd_default_market d)]"

definition descriptor_validate :: "provider_descriptor \<Rightarrow> market_data_error + unit" where
  "descriptor_validate d =
     rbind (try_fold (\<lambda>_ (field, text). if blank text then Inl (InvalidDescriptor field) else Inr ()) () (descriptor_fields d)) (\<lambda>_.
     if pd_supported_markets d = [] \<or> pd_transports d = []
     then Inl (InvalidDescriptor ''supportedMarkets/transports'') else Inr ())"

section \<open>Instrument references\<close>

datatype instrument_ref =
  Instrument_Ref (ir_channel: string) (ir_market: string) (ir_symbol: string) (ir_interval: "string option")

definition ref_fields :: "instrument_ref \<Rightarrow> string list" where
  "ref_fields r = [ir_channel r, ir_market r, ir_symbol r] @ (case ir_interval r of None \<Rightarrow> [] | Some i \<Rightarrow> [i])"

lemma ref_fields_inject [simp]: "ref_fields r = ref_fields s \<longleftrightarrow> r = s"
  by (cases r; cases s) (auto simp: ref_fields_def split: option.splits)

instantiation instrument_ref :: linorder
begin

definition less_eq_instrument_ref :: "instrument_ref \<Rightarrow> instrument_ref \<Rightarrow> bool" where
  "less_eq_instrument_ref r s \<longleftrightarrow> ref_fields r \<le> ref_fields s"

definition less_instrument_ref :: "instrument_ref \<Rightarrow> instrument_ref \<Rightarrow> bool" where
  "less_instrument_ref r s \<longleftrightarrow> ref_fields r < ref_fields s"

instance
proof
  fix r s t :: instrument_ref
  show "(r < s) = (r \<le> s \<and> \<not> s \<le> r)"
    unfolding less_eq_instrument_ref_def less_instrument_ref_def by (rule less_le_not_le)
  show "r \<le> r" by (simp add: less_eq_instrument_ref_def)
  show "r \<le> s \<Longrightarrow> s \<le> t \<Longrightarrow> r \<le> t" by (auto simp: less_eq_instrument_ref_def)
  show "r \<le> s \<Longrightarrow> s \<le> r \<Longrightarrow> r = s" by (auto simp: less_eq_instrument_ref_def)
  show "r \<le> s \<or> s \<le> r" unfolding less_eq_instrument_ref_def by (rule linear)
qed

end

definition valid_channels :: "string list" where
  "valid_channels = [''SNAPSHOT'', ''TICK'', ''KLINE'', ''ORDER_BOOK'']"

definition valid_intervals :: "string list" where
  "valid_intervals = [''1m'', ''3m'', ''5m'', ''15m'', ''30m'', ''1h'', ''1d'', ''1w'', ''1mo'']"

definition normal_channel :: "string \<Rightarrow> string" where
  "normal_channel c = (let c' = upper (trim c) in if c' = [] then ''SNAPSHOT'' else c')"

definition normal_instrument :: "string \<Rightarrow> string \<Rightarrow> string \<times> string" where
  "normal_instrument m s =
     (let m' = upper (trim m); s' = upper (trim s)
      in case split_once (CHR ''.'') s' of
           None \<Rightarrow> (m', s')
         | Some (prefix, symbol) \<Rightarrow> ((if m' = [] then prefix else m'), symbol))"

definition normal_interval :: "string \<Rightarrow> string option \<Rightarrow> market_data_error + string option" where
  "normal_interval channel i =
     (let interval = opt_filter (\<lambda>v. v \<noteq> []) (map_option (\<lambda>v. lower (trim v)) i)
      in if channel = ''KLINE'' then
           (case interval of
              None \<Rightarrow> Inl (InvalidSubscription ''KLINE requires interval'')
            | Some v \<Rightarrow>
                if v \<notin> set valid_intervals then Inl (InvalidSubscription (''unsupported KLINE interval: '' @ v))
                else Inr (Some v))
         else if interval \<noteq> None
         then Inl (InvalidSubscription (''subscription interval is only valid for KLINE, got channel '' @ channel))
         else Inr None)"

definition ref_normalize :: "instrument_ref \<Rightarrow> market_data_error + instrument_ref" where
  "ref_normalize r =
     (let channel = normal_channel (ir_channel r); (market, symbol) = normal_instrument (ir_market r) (ir_symbol r)
      in if channel \<notin> set valid_channels then Inl (InvalidSubscription (''unsupported channel '' @ channel))
         else if market = [] \<or> symbol = [] then Inl (InvalidSubscription ''market and symbol are required'')
         else map_sum id (Instrument_Ref channel market symbol) (normal_interval channel (ir_interval r)))"

definition instrument_id :: "instrument_ref \<Rightarrow> string" where
  "instrument_id r = ir_market r @ ''.'' @ ir_symbol r"

definition ref_key :: "instrument_ref \<Rightarrow> string" where
  "ref_key r =
     (case ir_interval r of
        Some i \<Rightarrow> ir_channel r @ '':'' @ ir_market r @ '':'' @ ir_symbol r @ '':'' @ i
      | None \<Rightarrow> ir_channel r @ '':'' @ ir_market r @ '':'' @ ir_symbol r)"

section \<open>Ticks\<close>

type_synonym dec_string = string \<comment> \<open>\<open>DecimalText\<close>, a validated decimal text of any precision\<close>

record 'd extended_quote =
  eq_price :: "'d option"
  eq_high_price :: "'d option"
  eq_low_price :: "'d option"
  eq_volume :: "dec_string option"
  eq_turnover :: "dec_string option"
  eq_change :: "dec_string option"
  eq_change_rate :: "dec_string option"
  eq_amplitude :: "dec_string option"

record 'd quote_snapshot =
  qs_symbol :: "string option"
  qs_name :: "string option"
  qs_is_suspended :: "bool option"
  qs_bid_price :: "'d option"
  qs_ask_price :: "'d option"
  qs_last_price :: "'d option"
  qs_volume :: "dec_string option"
  qs_lot_size :: "int option"
  qs_security_type :: "string option"
  qs_market :: "string option"
  qs_open_price :: "'d option"
  qs_high_price :: "'d option"
  qs_low_price :: "'d option"
  qs_previous_close :: "'d option"
  qs_turnover :: "dec_string option"
  qs_update_time :: "string option"
  qs_status :: "int option"
  qs_pe_rate :: "dec_string option"
  qs_pb_rate :: "dec_string option"
  qs_pre_market :: "'d extended_quote option"
  qs_after_market :: "'d extended_quote option"
  qs_overnight :: "'d extended_quote option"

record 'd tick =
  tk_instrument_id :: string
  tk_price :: 'd
  tk_volume :: dec_string
  tk_snapshot :: "'d quote_snapshot option"
  tk_observed_at_ms :: i64
  tk_provider_generation :: u64

section \<open>The cache of ticks\<close>

datatype 'd cache_lookup = Fresh "'d tick" | Stale_Tick "'d tick" | Missing

record 'd tick_cache =
  tc_capacity :: nat
  tc_ticks :: "(string, 'd tick list) bmap" \<comment> \<open>oldest first\<close>

text \<open>\<open>i64::saturating_sub\<close>.\<close>

definition sat_sub_i64 :: "i64 \<Rightarrow> i64 \<Rightarrow> i64" where
  "sat_sub_i64 a b = max (- (2 ^ 63)) (min (2 ^ 63 - 1) (a - b))"

definition cache_new :: "nat \<Rightarrow> 'd tick_cache" where
  "cache_new capacity = \<lparr>tc_capacity = max capacity 1, tc_ticks = []\<rparr>"

definition cache_entries :: "'d tick_cache \<Rightarrow> string \<Rightarrow> 'd tick list" where
  "cache_entries c k = (case bm_get (tc_ticks c) k of None \<Rightarrow> [] | Some ts \<Rightarrow> ts)"

definition cache_insert :: "'d tick_cache \<Rightarrow> 'd tick \<Rightarrow> u64 \<Rightarrow> market_data_error + 'd tick_cache" where
  "cache_insert c t active_generation =
     (if tk_provider_generation t \<noteq> active_generation then Inl ProviderChanged
      else let k = upper (trim (tk_instrument_id t))
           in if k = [] then Inl (InvalidSubscription ''tick instrumentId is required'')
              else let entries = cache_entries c k
                   in if entries \<noteq> [] \<and> tk_observed_at_ms t < tk_observed_at_ms (last entries)
                      then Inl (InvalidSubscription ''tick timestamp moved backwards'')
                      else let entries' = entries @ [t]
                           in Inr (c\<lparr>tc_ticks := bm_insert k (drop (length entries' - tc_capacity c) entries') (tc_ticks c)\<rparr>))"

definition cache_lookup :: "'d tick_cache \<Rightarrow> string \<Rightarrow> i64 \<Rightarrow> i64 \<Rightarrow> 'd cache_lookup" where
  "cache_lookup c iid now_ms max_age_ms =
     (case cache_entries c (upper (trim iid)) of
        [] \<Rightarrow> Missing
      | ts \<Rightarrow>
          if 0 \<le> max_age_ms \<and> sat_sub_i64 now_ms (tk_observed_at_ms (last ts)) \<le> max_age_ms
          then Fresh (last ts) else Stale_Tick (last ts))"

definition cache_lookup_for_generation :: "'d tick_cache \<Rightarrow> string \<Rightarrow> i64 \<Rightarrow> i64 \<Rightarrow> u64 \<Rightarrow> 'd cache_lookup" where
  "cache_lookup_for_generation c iid now_ms max_age_ms active_generation =
     (case cache_lookup c iid now_ms max_age_ms of
        Fresh t \<Rightarrow> if tk_provider_generation t = active_generation then Fresh t else Missing
      | Stale_Tick t \<Rightarrow> if tk_provider_generation t = active_generation then Stale_Tick t else Missing
      | Missing \<Rightarrow> Missing)"

fun fresh_or_error :: "string \<Rightarrow> 'd cache_lookup \<Rightarrow> market_data_error + 'd tick" where
  "fresh_or_error iid (Fresh t) = Inr t"
| "fresh_or_error iid (Stale_Tick t) = Inl (CacheStale iid)"
| "fresh_or_error iid Missing = Inl (CacheMiss iid)"

definition require_fresh :: "'d tick_cache \<Rightarrow> string \<Rightarrow> i64 \<Rightarrow> i64 \<Rightarrow> market_data_error + 'd tick" where
  "require_fresh c iid now_ms max_age_ms = fresh_or_error iid (cache_lookup c iid now_ms max_age_ms)"

definition require_fresh_for_generation ::
    "'d tick_cache \<Rightarrow> string \<Rightarrow> i64 \<Rightarrow> i64 \<Rightarrow> u64 \<Rightarrow> market_data_error + 'd tick" where
  "require_fresh_for_generation c iid now_ms max_age_ms active_generation =
     fresh_or_error iid (cache_lookup_for_generation c iid now_ms max_age_ms active_generation)"

definition cache_clear :: "'d tick_cache \<Rightarrow> 'd tick_cache" where
  "cache_clear c = c\<lparr>tc_ticks := []\<rparr>"

definition instrument_count :: "'d tick_cache \<Rightarrow> nat" where
  "instrument_count c = length (tc_ticks c)"

section \<open>The cache is the end of a history\<close>

text \<open>
  The abstract cache keeps every accepted tick of an instrument. \<open>last_n\<close> is what a queue of
  bounded length keeps of it.
\<close>

definition last_n :: "nat \<Rightarrow> 'a list \<Rightarrow> 'a list" where
  "last_n n xs = drop (length xs - n) xs"

lemma last_n_simps [simp]:
  "last_n n [] = []"
  "0 < n \<Longrightarrow> last_n n xs = [] \<longleftrightarrow> xs = []"
  "0 < n \<Longrightarrow> xs \<noteq> [] \<Longrightarrow> last (last_n n xs) = last xs"
  "length (last_n n xs) = min n (length xs)"
  by (cases xs rule: rev_cases; auto simp: last_n_def)+

lemma last_n_snoc: "0 < n \<Longrightarrow> last_n n (last_n n xs @ [x]) = last_n n (xs @ [x])"
  by (cases "length xs \<le> n") (auto simp: last_n_def Suc_diff_le not_le less_imp_le)

type_synonym 'd history = "string \<Rightarrow> 'd tick list"

definition accepts :: "'d tick list \<Rightarrow> 'd tick \<Rightarrow> u64 \<Rightarrow> bool" where
  "accepts ts t g \<longleftrightarrow> tk_provider_generation t = g \<and> upper (trim (tk_instrument_id t)) \<noteq> [] \<and>
     (ts = [] \<or> tk_observed_at_ms (last ts) \<le> tk_observed_at_ms t)"

datatype 'd cache_op = Cache_Insert "'d tick" u64 | Cache_Clear

fun cache_step :: "'d tick_cache \<Rightarrow> 'd cache_op \<Rightarrow> 'd tick_cache" where
  "cache_step c (Cache_Insert t g) = (case cache_insert c t g of Inl _ \<Rightarrow> c | Inr c' \<Rightarrow> c')"
| "cache_step c Cache_Clear = cache_clear c"

fun history_step :: "'d history \<Rightarrow> 'd cache_op \<Rightarrow> 'd history" where
  "history_step h (Cache_Insert t g) =
     (let k = upper (trim (tk_instrument_id t)) in if accepts (h k) t g then h(k := h k @ [t]) else h)"
| "history_step h Cache_Clear = (\<lambda>_. [])"

definition represents :: "'d tick_cache \<Rightarrow> 'd history \<Rightarrow> bool" where
  "represents c h \<longleftrightarrow> 0 < tc_capacity c \<and> (\<forall>k. cache_entries c k = last_n (tc_capacity c) (h k)) \<and>
     (\<forall>k. sorted (map tk_observed_at_ms (h k)))"

lemma cache_insert_result:
  "cache_insert c t g = Inr c' \<longleftrightarrow>
     (let k = upper (trim (tk_instrument_id t))
      in accepts (cache_entries c k) t g \<and>
         c' = c\<lparr>tc_ticks := bm_insert k (last_n (tc_capacity c) (cache_entries c k @ [t])) (tc_ticks c)\<rparr>)"
  by (auto simp: cache_insert_def accepts_def last_n_def Let_def)

lemma cache_entries_insert [simp]:
  "cache_entries (c\<lparr>tc_ticks := bm_insert k ts (tc_ticks c)\<rparr>) k' = (if k' = k then ts else cache_entries c k')"
  by (simp add: cache_entries_def)

lemma cache_step_insert:
  "cache_step c (Cache_Insert t g) =
     (let k = upper (trim (tk_instrument_id t))
      in if accepts (cache_entries c k) t g
         then c\<lparr>tc_ticks := bm_insert k (last_n (tc_capacity c) (cache_entries c k @ [t])) (tc_ticks c)\<rparr> else c)"
  using cache_insert_result [of c t g] by (cases "cache_insert c t g") (auto simp: Let_def)

lemma represents_step:
  assumes "represents c h"
  shows "represents (cache_step c a) (history_step h a)"
proof (cases a)
  case Cache_Clear
  with assms show ?thesis by (simp add: represents_def cache_clear_def cache_entries_def)
next
  case (Cache_Insert t g)
  let ?k = "upper (trim (tk_instrument_id t))"
  have cap: "0 < tc_capacity c" and entries: "\<And>k. cache_entries c k = last_n (tc_capacity c) (h k)"
    and sorted: "\<And>k. sorted (map tk_observed_at_ms (h k))"
    using assms by (auto simp: represents_def)
  have acc: "accepts (cache_entries c ?k) t g = accepts (h ?k) t g"
    unfolding accepts_def entries using cap by (cases "h ?k = []") simp_all
  show ?thesis
  proof (cases "accepts (h ?k) t g")
    case False
    with assms acc Cache_Insert show ?thesis
      by (simp only: cache_step_insert history_step.simps Let_def if_False)
  next
    case True
    have "sorted (map tk_observed_at_ms (h ?k @ [t]))"
      using sorted [of ?k] True
      by (cases "h ?k" rule: rev_cases) (auto simp: accepts_def sorted_append intro: order_trans)
    moreover have "last_n (tc_capacity c) (cache_entries c ?k @ [t]) = last_n (tc_capacity c) (h ?k @ [t])"
      using cap by (simp add: entries last_n_snoc)
    ultimately show ?thesis
      using Cache_Insert True acc cap sorted entries
      unfolding represents_def by (simp add: cache_step_insert Let_def del: cache_step.simps)
  qed
qed

lemma represents_run: "represents c h \<Longrightarrow> represents (run cache_step c ops) (run history_step h ops)"
  by (induction ops arbitrary: c h) (simp_all add: represents_step)

lemma capacity_run [simp]: "tc_capacity (run cache_step c ops) = tc_capacity c"
proof (induction ops arbitrary: c)
  case (Cons a ops)
  have "tc_capacity (cache_step c a) = tc_capacity c"
    by (cases a) (simp_all add: cache_step_insert cache_clear_def Let_def del: cache_step.simps(1))
  with Cons show ?case by simp
qed simp

text \<open>The cache is its specification cut to size. After any inserts and clears of a new cache the
  queue of an instrument holds the last \<open>capacity\<close> ticks (at least one) of the history of the
  ticks accepted since the last clear, in the order of their time stamps.
\<close>

theorem cache_refines_history:
  "cache_entries (run cache_step (cache_new n) ops) k = last_n (max n 1) (run history_step (\<lambda>_. []) ops k) \<and>
   sorted (map tk_observed_at_ms (run history_step (\<lambda>_. []) ops k)) \<and>
   length (cache_entries (run cache_step (cache_new n) ops) k) \<le> max n 1"
proof -
  have "represents (cache_new n) (\<lambda>_. [])"
    by (simp add: represents_def cache_new_def cache_entries_def)
  from represents_run [OF this, of ops] show ?thesis
    by (simp add: represents_def) (simp add: cache_new_def)
qed

text \<open>The cache serves the tick it has just taken, and only to its own generation. After an insert
  that succeeded, a lookup of the instrument under any spelling of its id is that tick, fresh
  exactly when its age is within the limit; for another generation the instrument is missing;
  the other instruments are as before.
\<close>

theorem cache_serves_latest:
  assumes "cache_insert c t g = Inr c'" and "0 < tc_capacity c"
    and "upper (trim iid) = upper (trim (tk_instrument_id t))"
  shows "cache_lookup_for_generation c' iid now age g' =
      (if g' \<noteq> g then Missing
       else if 0 \<le> age \<and> sat_sub_i64 now (tk_observed_at_ms t) \<le> age then Fresh t else Stale_Tick t) \<and>
    (\<forall>other. upper (trim other) \<noteq> upper (trim iid) \<longrightarrow>
       cache_lookup c' other now age = cache_lookup c other now age)"
proof -
  let ?k = "upper (trim (tk_instrument_id t))"
  have gen: "tk_provider_generation t = g"
    and c': "c' = c\<lparr>tc_ticks := bm_insert ?k (last_n (tc_capacity c) (cache_entries c ?k @ [t])) (tc_ticks c)\<rparr>"
    using assms(1) by (simp_all add: cache_insert_result Let_def accepts_def)
  then have "cache_entries c' ?k \<noteq> []" and "last (cache_entries c' ?k) = t"
    using assms(2) by simp_all
  then have "cache_lookup c' iid now age =
      (if 0 \<le> age \<and> sat_sub_i64 now (tk_observed_at_ms t) \<le> age then Fresh t else Stale_Tick t)"
    by (auto simp: cache_lookup_def assms(3) split: list.split)
  with gen show ?thesis
    unfolding cache_lookup_for_generation_def by (simp add: assms(3)) (simp add: cache_lookup_def c')
qed

definition sample_tick :: "string \<Rightarrow> i64 \<Rightarrow> u64 \<Rightarrow> int tick" where
  "sample_tick iid t g = \<lparr>tk_instrument_id = iid, tk_price = dec_unit, tk_volume = ''10'', tk_snapshot = None,
     tk_observed_at_ms = t, tk_provider_generation = g\<rparr>"

lemma sample_tick_fields [simp]:
  "tk_instrument_id (sample_tick iid t g) = iid" "tk_observed_at_ms (sample_tick iid t g) = t"
  "tk_provider_generation (sample_tick iid t g) = g"
  by (simp_all add: sample_tick_def)

theorem cache_serves_latest_witness:
  "\<exists>c'. cache_insert (cache_new 2) (sample_tick ''us.aapl'' 100 2) 2 = Inr c' \<and>
     cache_lookup_for_generation c' '' US.AAPL'' 111 10 2 = Stale_Tick (sample_tick ''us.aapl'' 100 2)"
proof -
  have key: "upper (trim '' US.AAPL'') = upper (trim (tk_instrument_id (sample_tick ''us.aapl'' 100 2)))"
    unfolding sample_tick_fields by code_simp
  have "upper (trim ''us.aapl'') \<noteq> []" by code_simp
  then obtain c' where c': "cache_insert (cache_new 2) (sample_tick ''us.aapl'' 100 2) 2 = Inr c'"
    by (simp add: cache_insert_def cache_new_def cache_entries_def)
  have cap: "0 < tc_capacity (cache_new 2)" by (simp add: cache_new_def)
  from cache_serves_latest [OF c' cap key, of 111 10 2] have
    "cache_lookup_for_generation c' '' US.AAPL'' 111 10 2 = Stale_Tick (sample_tick ''us.aapl'' 100 2)"
    by (simp add: sat_sub_i64_def)
  with c' show ?thesis by blast
qed

section \<open>Normalised references\<close>

definition ref_ok :: "instrument_ref \<Rightarrow> bool" where
  "ref_ok r \<longleftrightarrow> ir_channel r \<in> set valid_channels \<and> ir_market r \<noteq> [] \<and> ir_symbol r \<noteq> [] \<and>
     upper (ir_market r) = ir_market r \<and> upper (ir_symbol r) = ir_symbol r \<and>
     (case ir_interval r of None \<Rightarrow> ir_channel r \<noteq> ''KLINE''
      | Some i \<Rightarrow> ir_channel r = ''KLINE'' \<and> i \<in> set valid_intervals)"

lemma upper_append_iff [simp]: "upper (s @ t) = s @ t \<longleftrightarrow> upper s = s \<and> upper t = t"
  by (auto simp: upper_def)

lemma upper_Cons: "upper (c # s) = upper_char c # upper s"
  by (simp add: upper_def)

lemma normal_instrument_upper:
  assumes "normal_instrument m s = (m', s')"
  shows "upper m' = m' \<and> upper s' = s'"
proof (cases "split_once (CHR ''.'') (upper (trim s))")
  case None
  with assms show ?thesis by (auto simp: normal_instrument_def Let_def)
next
  case (Some pq)
  obtain p q where pq: "pq = (p, q)" by fastforce
  with Some have "upper (trim s) = p @ CHR ''.'' # q" by (simp add: split_once_Some_iff)
  then have "upper (p @ CHR ''.'' # q) = p @ CHR ''.'' # q" by (metis upper_idem)
  then have "upper p = p \<and> upper q = q" by (simp add: upper_Cons)
  with assms Some pq show ?thesis by (auto simp: normal_instrument_def Let_def)
qed

lemma normal_interval_ok:
  assumes "normal_interval c i = Inr i'"
  shows "case i' of None \<Rightarrow> c \<noteq> ''KLINE'' | Some v \<Rightarrow> c = ''KLINE'' \<and> v \<in> set valid_intervals"
proof -
  obtain w where w: "opt_filter (\<lambda>v. v \<noteq> []) (map_option (\<lambda>v. lower (trim v)) i) = w" by simp
  from assms show ?thesis
    unfolding normal_interval_def w Let_def by (cases w) (auto split: if_splits)
qed

lemma ref_normalize_Inr:
  "ref_normalize r = Inr n \<longleftrightarrow> (\<exists>m s i. normal_instrument (ir_market r) (ir_symbol r) = (m, s) \<and>
     normal_channel (ir_channel r) \<in> set valid_channels \<and> m \<noteq> [] \<and> s \<noteq> [] \<and>
     normal_interval (normal_channel (ir_channel r)) (ir_interval r) = Inr i \<and>
     n = Instrument_Ref (normal_channel (ir_channel r)) m s i)"
  by (cases "normal_interval (normal_channel (ir_channel r)) (ir_interval r)")
    (auto simp: ref_normalize_def Let_def split: prod.splits if_splits)

lemma ref_normalize_ok: "ref_normalize r = Inr n \<Longrightarrow> ref_ok n"
  unfolding ref_normalize_Inr ref_ok_def
  by (elim exE conjE) (use normal_instrument_upper normal_interval_ok in \<open>auto split: option.splits\<close>)

text \<open>
  The symbol keeps only what follows its first dot. A class share such as \<open>BRK.B\<close> given with its
  market loses its name, and what normalisation returns for \<open>US.BRK.B\<close> is normalised once more to
  another instrument.
\<close>

theorem dotted_symbol_is_cut:
  "ref_normalize (Instrument_Ref ''SNAPSHOT'' ''US'' ''BRK.B'' None) = Inr (Instrument_Ref ''SNAPSHOT'' ''US'' ''B'' None) \<and>
   ref_normalize (Instrument_Ref ''SNAPSHOT'' [] ''US.BRK.B'' None) = Inr (Instrument_Ref ''SNAPSHOT'' ''US'' ''BRK.B'' None)"
  by (intro conjI; code_simp)

end
