(* ===== verification/Market_Demand.thy ===== *)
theory Market_Demand
  imports Market_Model
begin

text \<open>
  \<open>crates/jftrade-marketdata/src/demand.rs\<close>: the book of the demand for market data. Consumers hold
  leases on instrument references; the book keeps one entry per reference with its time stamps.
  Operations that can fail return their result with the book they leave behind. The abstract
  specification is the map from a consumer to what it holds; the entries are derived from it.
\<close>

section \<open>State\<close>

record entry_snapshot =
  es_key :: string
  es_channel :: string
  es_market :: string
  es_symbol :: string
  es_instrument_id :: string
  es_interval :: "string option"
  es_depth_level :: "int option"
  es_consumers :: "string list"
  es_ref_count :: nat
  es_created_at_ms :: i64
  es_updated_at_ms :: i64

record demand_snapshot =
  ds_consumer_count :: nat
  ds_managed_consumer_count :: nat
  ds_logical_count :: nat
  ds_active :: "instrument_ref list"
  ds_entries :: "entry_snapshot list"

record entry_record =
  en_reference :: instrument_ref
  en_created_at_ms :: i64
  en_updated_at_ms :: i64
  en_depth_level :: "int option"

record consumer_demand =
  cd_managed :: bool
  cd_heartbeat_ms :: i64
  cd_created_at_ms :: i64
  cd_updated_at_ms :: i64
  cd_refs :: "instrument_ref list"

record demand_book =
  db_consumers :: "(string, consumer_demand) bmap"
  db_entries :: "(instrument_ref, entry_record) bmap"

definition demand_default :: demand_book where
  "demand_default = \<lparr>db_consumers = [], db_entries = []\<rparr>"

section \<open>Entries\<close>

definition touch_entry :: "i64 \<Rightarrow> instrument_ref \<Rightarrow> (instrument_ref, entry_record) bmap \<Rightarrow> (instrument_ref, entry_record) bmap" where
  "touch_entry now r entries =
     (case bm_get entries r of None \<Rightarrow> entries | Some e \<Rightarrow> bm_insert r (e\<lparr>en_updated_at_ms := now\<rparr>) entries)"

definition open_entry :: "i64 \<Rightarrow> instrument_ref \<Rightarrow> (instrument_ref, entry_record) bmap \<Rightarrow> (instrument_ref, entry_record) bmap" where
  "open_entry now r entries =
     (case bm_get entries r of
        Some e \<Rightarrow> bm_insert r (e\<lparr>en_updated_at_ms := now\<rparr>) entries
      | None \<Rightarrow> bm_insert r \<lparr>en_reference = r, en_created_at_ms = now, en_updated_at_ms = now, en_depth_level = None\<rparr> entries)"

definition active_refs :: "(string, consumer_demand) bmap \<Rightarrow> instrument_ref list" where
  "active_refs consumers = bs_of_list (concat (map cd_refs (bm_values consumers)))"

definition cleanup_orphan_entries :: "demand_book \<Rightarrow> demand_book" where
  "cleanup_orphan_entries b =
     b\<lparr>db_entries := filter (\<lambda>(r, _). r \<in> set (active_refs (db_consumers b))) (db_entries b)\<rparr>"

definition entry_snapshot_of :: "(string, consumer_demand) bmap \<Rightarrow> instrument_ref \<times> entry_record \<Rightarrow> entry_snapshot" where
  "entry_snapshot_of consumers re =
     (let (r, e) = re; holders = sort (map fst (filter (\<lambda>(_, c). r \<in> set (cd_refs c)) consumers))
      in \<lparr>es_key = ref_key r, es_channel = ir_channel r, es_market = ir_market r, es_symbol = ir_symbol r,
          es_instrument_id = instrument_id r, es_interval = ir_interval r, es_depth_level = en_depth_level e,
          es_consumers = holders, es_ref_count = length holders,
          es_created_at_ms = en_created_at_ms e, es_updated_at_ms = en_updated_at_ms e\<rparr>)"

definition demand_snapshot_of :: "demand_book \<Rightarrow> demand_snapshot" where
  "demand_snapshot_of b =
     (let entries = sort_key es_key (map (entry_snapshot_of (db_consumers b)) (db_entries b))
      in \<lparr>ds_consumer_count = length (db_consumers b),
          ds_managed_consumer_count = length (filter cd_managed (bm_values (db_consumers b))),
          ds_logical_count = length entries, ds_active = active_refs (db_consumers b), ds_entries = entries\<rparr>)"

section \<open>Operations\<close>

text \<open>The loop of \<open>acquire\<close>: the entries opened before a bad reference stay open.\<close>

fun acquire_refs :: "i64 \<Rightarrow> instrument_ref list \<Rightarrow> instrument_ref list \<Rightarrow> (instrument_ref, entry_record) bmap \<Rightarrow>
    (market_data_error + instrument_ref list) \<times> (instrument_ref, entry_record) bmap" where
  "acquire_refs now [] normalized entries = (Inr normalized, entries)"
| "acquire_refs now (r # rs) normalized entries =
     (case ref_normalize r of
        Inl e \<Rightarrow> (Inl e, entries)
      | Inr n \<Rightarrow> acquire_refs now rs (bs_put n normalized) (open_entry now n entries))"

definition normalize_refs :: "instrument_ref list \<Rightarrow> market_data_error + instrument_ref list" where
  "normalize_refs refs = try_fold (\<lambda>ns r. map_sum id (\<lambda>n. bs_put n ns) (ref_normalize r)) [] refs"

definition put_consumer :: "string \<Rightarrow> instrument_ref list \<Rightarrow> bool \<Rightarrow> i64 \<Rightarrow> bool \<Rightarrow>
    (string, consumer_demand) bmap \<Rightarrow> (string, consumer_demand) bmap" where
  "put_consumer cid refs managed now extending consumers =
     (case bm_get consumers cid of
        Some c \<Rightarrow> bm_insert cid (c\<lparr>cd_managed := managed, cd_heartbeat_ms := now, cd_updated_at_ms := now,
                    cd_refs := (if extending then fold bs_put refs (cd_refs c) else refs)\<rparr>) consumers
      | None \<Rightarrow> bm_insert cid \<lparr>cd_managed = managed, cd_heartbeat_ms = now, cd_created_at_ms = now,
                    cd_updated_at_ms = now, cd_refs = refs\<rparr> consumers)"

definition demand_acquire :: "demand_book \<Rightarrow> string \<Rightarrow> instrument_ref list \<Rightarrow> bool \<Rightarrow> i64 \<Rightarrow>
    (market_data_error + demand_snapshot) \<times> demand_book" where
  "demand_acquire b consumer_id refs managed now =
     (let cid = trim consumer_id
      in if cid = [] then (Inl MissingConsumer, b)
         else case acquire_refs now refs [] (db_entries b) of
                (Inl e, entries) \<Rightarrow> (Inl e, b\<lparr>db_entries := entries\<rparr>)
              | (Inr normalized, entries) \<Rightarrow>
                  if normalized = []
                  then (Inl (InvalidSubscription ''at least one instrument is required''), b\<lparr>db_entries := entries\<rparr>)
                  else let b' = cleanup_orphan_entries
                             \<lparr>db_consumers = put_consumer cid normalized managed now True (db_consumers b), db_entries = entries\<rparr>
                       in (Inr (demand_snapshot_of b'), b'))"

definition demand_release_consumer_with_time :: "demand_book \<Rightarrow> string \<Rightarrow> i64 \<Rightarrow> (bool \<times> demand_snapshot) \<times> demand_book" where
  "demand_release_consumer_with_time b consumer_id now =
     (let cid = trim consumer_id
      in case bm_get (db_consumers b) cid of
           None \<Rightarrow> ((False, demand_snapshot_of b), b)
         | Some c \<Rightarrow>
             let b' = cleanup_orphan_entries
                   \<lparr>db_consumers = bm_remove cid (db_consumers b), db_entries = fold (touch_entry now) (cd_refs c) (db_entries b)\<rparr>
             in ((True, demand_snapshot_of b'), b'))"

definition demand_release_consumer :: "demand_book \<Rightarrow> string \<Rightarrow> (bool \<times> demand_snapshot) \<times> demand_book" where
  "demand_release_consumer b consumer_id =
     (let now = (case bm_get (db_consumers b) (trim consumer_id) of None \<Rightarrow> 0 | Some c \<Rightarrow> cd_updated_at_ms c)
      in demand_release_consumer_with_time b consumer_id now)"

definition demand_release :: "demand_book \<Rightarrow> string \<Rightarrow> bool \<times> demand_book" where
  "demand_release b consumer_id = map_prod fst id (demand_release_consumer b consumer_id)"

definition demand_replace :: "demand_book \<Rightarrow> string \<Rightarrow> instrument_ref list \<Rightarrow> bool \<Rightarrow> i64 \<Rightarrow>
    (market_data_error + demand_snapshot) \<times> demand_book" where
  "demand_replace b consumer_id refs managed now =
     (let cid = trim consumer_id
      in if cid = [] then (Inl MissingConsumer, b)
         else case normalize_refs refs of
                Inl e \<Rightarrow> (Inl e, b)
              | Inr normalized \<Rightarrow>
                  if normalized = [] then map_prod (\<lambda>(_, snap). Inr snap) id (demand_release_consumer b cid)
                  else let b' = cleanup_orphan_entries
                             \<lparr>db_consumers = put_consumer cid normalized managed now False (db_consumers b),
                              db_entries = fold (open_entry now) normalized (db_entries b)\<rparr>
                       in (Inr (demand_snapshot_of b'), b'))"

definition demand_heartbeat :: "demand_book \<Rightarrow> string \<Rightarrow> i64 \<Rightarrow> (bool \<times> demand_snapshot) \<times> demand_book" where
  "demand_heartbeat b consumer_id now =
     (let cid = trim consumer_id
      in case bm_get (db_consumers b) cid of
           None \<Rightarrow> ((False, demand_snapshot_of b), b)
         | Some c \<Rightarrow>
             let b' = \<lparr>db_consumers = bm_insert cid (c\<lparr>cd_heartbeat_ms := now, cd_updated_at_ms := now\<rparr>) (db_consumers b),
                       db_entries = fold (touch_entry now) (cd_refs c) (db_entries b)\<rparr>
             in ((True, demand_snapshot_of b'), b'))"

definition drop_ref :: "string \<Rightarrow> instrument_ref \<Rightarrow> i64 \<Rightarrow> consumer_demand \<Rightarrow> (string, consumer_demand) bmap \<Rightarrow> (string, consumer_demand) bmap" where
  "drop_ref cid n now c consumers =
     (let refs = remove1 n (cd_refs c)
      in if refs = [] then bm_remove cid consumers
         else if n \<in> set (cd_refs c) then bm_insert cid (c\<lparr>cd_refs := refs, cd_updated_at_ms := now\<rparr>) consumers
         else consumers)"

definition demand_release_instrument :: "demand_book \<Rightarrow> string \<Rightarrow> instrument_ref \<Rightarrow> i64 \<Rightarrow> (bool \<times> demand_snapshot) \<times> demand_book" where
  "demand_release_instrument b consumer_id target now =
     (let cid = trim consumer_id
      in case ref_normalize target of
           Inl _ \<Rightarrow> ((False, demand_snapshot_of b), b)
         | Inr n \<Rightarrow>
             (case bm_get (db_consumers b) cid of
                None \<Rightarrow> ((False, demand_snapshot_of b), b)
              | Some c \<Rightarrow>
                  let b1 = b\<lparr>db_consumers := drop_ref cid n now c (db_consumers b)\<rparr>;
                      removed = (n \<in> set (cd_refs c));
                      b2 = (if removed then cleanup_orphan_entries (b1\<lparr>db_entries := touch_entry now n (db_entries b1)\<rparr>) else b1)
                  in ((removed, demand_snapshot_of b2), b2)))"

definition demand_clear :: "demand_book \<Rightarrow> string option \<Rightarrow> i64 \<Rightarrow> demand_snapshot \<times> demand_book" where
  "demand_clear b consumer_id now =
     (let b1 = (case opt_filter (\<lambda>s. s \<noteq> []) (map_option trim consumer_id) of
                  Some cid \<Rightarrow>
                    (case bm_get (db_consumers b) cid of
                       None \<Rightarrow> b
                     | Some c \<Rightarrow> \<lparr>db_consumers = bm_remove cid (db_consumers b),
                                  db_entries = fold (touch_entry now) (cd_refs c) (db_entries b)\<rparr>)
                | None \<Rightarrow>
                    \<lparr>db_consumers = filter (\<lambda>(_, c). cd_managed c) (db_consumers b),
                     db_entries = fold (touch_entry now)
                       (concat (map (cd_refs \<circ> snd) (filter (\<lambda>(_, c). \<not> cd_managed c) (db_consumers b)))) (db_entries b)\<rparr>);
          b2 = cleanup_orphan_entries b1
      in (demand_snapshot_of b2, b2))"

definition lease_kept :: "i64 \<Rightarrow> i64 \<Rightarrow> consumer_demand \<Rightarrow> bool" where
  "lease_kept now ttl c \<longleftrightarrow> cd_managed c \<or> sat_sub_i64 now (cd_heartbeat_ms c) \<le> ttl"

definition demand_expire :: "demand_book \<Rightarrow> i64 \<Rightarrow> i64 \<Rightarrow> string list \<times> demand_book" where
  "demand_expire b now ttl =
     (if ttl < 0 then ([], b)
      else let gone = filter (\<lambda>(_, c). \<not> lease_kept now ttl c) (db_consumers b);
               b1 = \<lparr>db_consumers = filter (\<lambda>(_, c). lease_kept now ttl c) (db_consumers b),
                     db_entries = fold (touch_entry now) (concat (map (cd_refs \<circ> snd) gone)) (db_entries b)\<rparr>
           in (map fst gone, if gone = [] then b1 else cleanup_orphan_entries b1))"

definition has_managed_consumers :: "demand_book \<Rightarrow> bool" where
  "has_managed_consumers b \<longleftrightarrow> list_ex cd_managed (bm_values (db_consumers b))"

text \<open>The book as a machine.\<close>

datatype demand_op =
    D_Acquire string "instrument_ref list" bool i64
  | D_Replace string "instrument_ref list" bool i64
  | D_Heartbeat string i64
  | D_Release_Instrument string instrument_ref i64
  | D_Release_At string i64
  | D_Release string
  | D_Clear "string option" i64
  | D_Expire i64 i64

fun demand_step :: "demand_book \<Rightarrow> demand_op \<Rightarrow> demand_book" where
  "demand_step b (D_Acquire cid refs managed now) = snd (demand_acquire b cid refs managed now)"
| "demand_step b (D_Replace cid refs managed now) = snd (demand_replace b cid refs managed now)"
| "demand_step b (D_Heartbeat cid now) = snd (demand_heartbeat b cid now)"
| "demand_step b (D_Release_Instrument cid r now) = snd (demand_release_instrument b cid r now)"
| "demand_step b (D_Release_At cid now) = snd (demand_release_consumer_with_time b cid now)"
| "demand_step b (D_Release cid) = snd (demand_release b cid)"
| "demand_step b (D_Clear cid now) = snd (demand_clear b cid now)"
| "demand_step b (D_Expire now ttl) = snd (demand_expire b now ttl)"

section \<open>Well-formed books\<close>

definition entered :: "(instrument_ref, entry_record) bmap \<Rightarrow> instrument_ref set" where
  "entered es = {r. bm_get es r \<noteq> None}"

definition held :: "(string, consumer_demand) bmap \<Rightarrow> instrument_ref set" where
  "held cs = {r. \<exists>cid c. bm_get cs cid = Some c \<and> r \<in> set (cd_refs c)}"

definition refs_ok :: "instrument_ref list \<Rightarrow> bool" where
  "refs_ok rs \<longleftrightarrow> rs \<noteq> [] \<and> sorted_wrt (<) rs \<and> list_all ref_ok rs"

definition consumers_ok :: "(string, consumer_demand) bmap \<Rightarrow> bool" where
  "consumers_ok cs \<longleftrightarrow> bm_ok cs \<and>
     (\<forall>cid c. bm_get cs cid = Some c \<longrightarrow> cid \<noteq> [] \<and> trim cid = cid \<and> refs_ok (cd_refs c))"

definition entries_ok :: "(instrument_ref, entry_record) bmap \<Rightarrow> bool" where
  "entries_ok es \<longleftrightarrow> bm_ok es \<and> (\<forall>r e. bm_get es r = Some e \<longrightarrow> en_reference e = r \<and> ref_ok r)"

text \<open>Every lease has its entry; a book is \<open>tight\<close> when there are no other entries.\<close>

definition book_ok :: "demand_book \<Rightarrow> bool" where
  "book_ok b \<longleftrightarrow> consumers_ok (db_consumers b) \<and> entries_ok (db_entries b) \<and>
     held (db_consumers b) \<subseteq> entered (db_entries b)"

definition tight :: "demand_book \<Rightarrow> bool" where
  "tight b \<longleftrightarrow> entered (db_entries b) = held (db_consumers b)"

lemma consumers_ok_bm [simp]: "consumers_ok cs \<Longrightarrow> bm_ok cs"
  by (simp add: consumers_ok_def)

lemma consumers_ok_get: "consumers_ok cs \<Longrightarrow> bm_get cs cid = Some c \<Longrightarrow> cid \<noteq> [] \<and> trim cid = cid \<and> refs_ok (cd_refs c)"
  by (simp add: consumers_ok_def)

lemma set_active_refs: "bm_ok cs \<Longrightarrow> set (active_refs cs) = held cs"
  by (auto simp: active_refs_def bm_values_def held_def bm_in_set_get dest: bm_get_in_set) force+

lemma entered_touch [simp]: "entered (touch_entry now r es) = entered es"
  by (auto simp: entered_def touch_entry_def split: option.splits if_splits)

lemma entered_fold_touch [simp]: "entered (fold (touch_entry now) rs es) = entered es"
  by (induction rs arbitrary: es) simp_all

lemma entered_open [simp]: "entered (open_entry now r es) = insert r (entered es)"
  by (auto simp: entered_def open_entry_def split: option.splits if_splits)

lemma entered_fold_open [simp]: "entered (fold (open_entry now) rs es) = set rs \<union> entered es"
  by (induction rs arbitrary: es) auto

lemma entries_ok_touch: "entries_ok es \<Longrightarrow> entries_ok (touch_entry now r es)"
  by (auto simp: entries_ok_def touch_entry_def split: option.splits if_splits)

lemma entries_ok_fold_touch: "entries_ok es \<Longrightarrow> entries_ok (fold (touch_entry now) rs es)"
  by (induction rs arbitrary: es) (simp_all add: entries_ok_touch)

lemma entries_ok_open: "entries_ok es \<Longrightarrow> ref_ok r \<Longrightarrow> entries_ok (open_entry now r es)"
  by (auto simp: entries_ok_def open_entry_def split: option.splits if_splits)

lemma entries_ok_fold_open: "entries_ok es \<Longrightarrow> list_all ref_ok rs \<Longrightarrow> entries_ok (fold (open_entry now) rs es)"
  by (induction rs arbitrary: es) (simp_all add: entries_ok_open)

lemma entries_ok_filter: "entries_ok es \<Longrightarrow> entries_ok (filter P es)"
  by (auto simp: entries_ok_def bm_get_filter split: option.splits if_splits)

lemma cleanup_simps [simp]: "db_consumers (cleanup_orphan_entries b) = db_consumers b"
  by (simp add: cleanup_orphan_entries_def)

lemma cleanup_book:
  assumes "consumers_ok (db_consumers b)" and "entries_ok (db_entries b)" and "held (db_consumers b) \<subseteq> entered (db_entries b)"
  shows "book_ok (cleanup_orphan_entries b) \<and> tight (cleanup_orphan_entries b)"
proof -
  have "bm_ok (db_entries b)" using assms(2) by (simp add: entries_ok_def)
  then have "entered (db_entries (cleanup_orphan_entries b)) = entered (db_entries b) \<inter> held (db_consumers b)"
    using assms(1) by (auto simp: cleanup_orphan_entries_def entered_def bm_get_filter set_active_refs split: option.splits)
  then show ?thesis
    using assms by (auto simp: book_ok_def tight_def) (simp add: cleanup_orphan_entries_def entries_ok_filter)
qed

subsection \<open>Normalised sets of references\<close>

lemma refs_step: "sorted_wrt (<) ns \<Longrightarrow> list_all ref_ok ns \<Longrightarrow> ref_normalize r = Inr n \<Longrightarrow>
    sorted_wrt (<) (bs_put n ns) \<and> list_all ref_ok (bs_put n ns)"
  using ref_normalize_ok [of r n] by (auto simp: sorted_bs_put list_all_iff)

lemma acquire_refs_ok:
  assumes "acquire_refs now rs ns es = (res, es')" and "sorted_wrt (<) ns" and "list_all ref_ok ns" and "entries_ok es"
  shows "entries_ok es' \<and> entered es \<subseteq> entered es' \<and>
    (\<forall>ns'. res = Inr ns' \<longrightarrow> sorted_wrt (<) ns' \<and> list_all ref_ok ns' \<and>
       set ns' \<subseteq> set ns \<union> entered es' \<and> set ns \<subseteq> set ns')"
  using assms
proof (induction rs arbitrary: ns es)
  case Nil
  then show ?case by auto
next
  case (Cons r rs)
  show ?case
  proof (cases "ref_normalize r")
    case (Inl e)
    with Cons.prems show ?thesis by auto
  next
    case (Inr n)
    with Cons.prems have run: "acquire_refs now rs (bs_put n ns) (open_entry now n es) = (res, es')" by simp
    note ok = refs_step [OF Cons.prems(2,3) Inr]
    from Cons.IH [OF run] ok entries_ok_open [OF Cons.prems(4) ref_normalize_ok [OF Inr]] show ?thesis
      by auto
  qed
qed

lemma normalize_refs_acquire:
  "normalize_refs rs = fst (acquire_refs now rs [] es)"
proof -
  have "try_fold (\<lambda>ns r. map_sum id (\<lambda>n. bs_put n ns) (ref_normalize r)) ns rs = fst (acquire_refs now rs ns es)" for ns
  proof (induction rs arbitrary: ns es)
    case (Cons r rs)
    then show ?case by (cases "ref_normalize r") simp_all
  qed simp
  then show ?thesis by (simp add: normalize_refs_def)
qed

lemma normalize_refs_ok:
  assumes "normalize_refs rs = Inr ns"
  shows "sorted_wrt (<) ns \<and> list_all ref_ok ns"
  using acquire_refs_ok [of 0 rs "[]" "[]"] assms normalize_refs_acquire [of rs 0 "[]"]
  by (cases "acquire_refs 0 rs [] []") (auto simp: entries_ok_def)

lemma sorted_fold_bs_put: "sorted_wrt (<) s \<Longrightarrow> sorted_wrt (<) (fold bs_put xs s)"
  by (induction xs arbitrary: s) (simp_all add: sorted_bs_put)

section \<open>Leases\<close>

text \<open>What the book means: what each consumer holds, whether it is managed, and its last heartbeat.\<close>

type_synonym lease = "bool \<times> i64 \<times> instrument_ref set"

definition lease_of :: "consumer_demand \<Rightarrow> lease" where
  "lease_of c = (cd_managed c, cd_heartbeat_ms c, set (cd_refs c))"

definition leases :: "demand_book \<Rightarrow> string \<Rightarrow> lease option" where
  "leases b cid = map_option lease_of (bm_get (db_consumers b) cid)"

definition held_by :: "(string \<Rightarrow> lease option) \<Rightarrow> string \<Rightarrow> instrument_ref set" where
  "held_by L cid = (case L cid of None \<Rightarrow> {} | Some (_, _, R) \<Rightarrow> R)"

fun lease_step :: "(string \<Rightarrow> lease option) \<Rightarrow> demand_op \<Rightarrow> string \<Rightarrow> lease option" where
  "lease_step L (D_Acquire cid refs managed now) =
     (case normalize_refs refs of
        Inl _ \<Rightarrow> L
      | Inr ns \<Rightarrow> if trim cid = [] \<or> ns = [] then L
                  else L(trim cid \<mapsto> (managed, now, set ns \<union> held_by L (trim cid))))"
| "lease_step L (D_Replace cid refs managed now) =
     (case normalize_refs refs of
        Inl _ \<Rightarrow> L
      | Inr ns \<Rightarrow> if trim cid = [] then L
                  else if ns = [] then L(trim cid := None) else L(trim cid \<mapsto> (managed, now, set ns)))"
| "lease_step L (D_Heartbeat cid now) =
     (case L (trim cid) of None \<Rightarrow> L | Some (managed, _, R) \<Rightarrow> L(trim cid \<mapsto> (managed, now, R)))"
| "lease_step L (D_Release_Instrument cid r now) =
     (case (ref_normalize r, L (trim cid)) of
        (Inr n, Some (managed, beat, R)) \<Rightarrow>
          L(trim cid := (if R - {n} = {} then None else Some (managed, beat, R - {n})))
      | _ \<Rightarrow> L)"
| "lease_step L (D_Release_At cid now) = L(trim cid := None)"
| "lease_step L (D_Release cid) = L(trim cid := None)"
| "lease_step L (D_Clear cid now) =
     (case opt_filter (\<lambda>s. s \<noteq> []) (map_option trim cid) of
        Some c \<Rightarrow> L(c := None)
      | None \<Rightarrow> (\<lambda>c. opt_filter (\<lambda>(managed, _, _). managed) (L c)))"
| "lease_step L (D_Expire now ttl) =
     (if ttl < 0 then L
      else (\<lambda>c. opt_filter (\<lambda>(managed, beat, _). managed \<or> sat_sub_i64 now beat \<le> ttl) (L c)))"

section \<open>The operations on well-formed books\<close>

lemma fold_bs_put_refs_ok: "refs_ok rs \<Longrightarrow> refs_ok ns \<Longrightarrow> refs_ok (fold bs_put ns rs)"
proof -
  assume "refs_ok rs" and "refs_ok ns"
  then have "set (fold bs_put ns rs) \<noteq> {}" by (simp add: refs_ok_def set_fold_bs_put)
  then have "fold bs_put ns rs \<noteq> []" by force
  with \<open>refs_ok rs\<close> \<open>refs_ok ns\<close> show ?thesis
    by (auto simp: refs_ok_def sorted_fold_bs_put list_all_iff set_fold_bs_put)
qed

lemma put_consumer_ok:
  assumes "consumers_ok cs" and "cid \<noteq> []" and "trim cid = cid" and "refs_ok rs"
  shows "consumers_ok (put_consumer cid rs managed now ext cs)"
  using assms fold_bs_put_refs_ok
  by (auto simp: consumers_ok_def put_consumer_def split: option.splits if_splits)

lemma put_consumer_get:
  "bm_get (put_consumer cid rs managed now ext cs) k =
     (if k = cid
      then Some (case bm_get cs cid of
                   Some c \<Rightarrow> c\<lparr>cd_managed := managed, cd_heartbeat_ms := now, cd_updated_at_ms := now,
                              cd_refs := (if ext then fold bs_put rs (cd_refs c) else rs)\<rparr>
                 | None \<Rightarrow> \<lparr>cd_managed = managed, cd_heartbeat_ms = now, cd_created_at_ms = now,
                            cd_updated_at_ms = now, cd_refs = rs\<rparr>)
      else bm_get cs k)"
  by (simp add: put_consumer_def split: option.split)

lemma held_put_consumer: "held (put_consumer cid rs managed now ext cs) \<subseteq> set rs \<union> held cs"
  by (auto simp: held_def put_consumer_get set_fold_bs_put split: option.splits if_splits)

lemma consumers_ok_remove: "consumers_ok cs \<Longrightarrow> consumers_ok (bm_remove cid cs)"
  by (auto simp: consumers_ok_def bm_get_remove split: if_splits)

lemma consumers_ok_filter: "consumers_ok cs \<Longrightarrow> consumers_ok (filter P cs)"
  by (auto simp: consumers_ok_def bm_get_filter split: option.splits if_splits)

lemma held_remove: "bm_ok cs \<Longrightarrow> held (bm_remove cid cs) \<subseteq> held cs"
  by (auto simp: held_def bm_get_remove split: if_splits)

lemma held_filter: "bm_ok cs \<Longrightarrow> held (filter P cs) \<subseteq> held cs"
  by (auto simp: held_def bm_get_filter split: option.splits if_splits)

lemma trimmed_consumer: "consumers_ok cs \<Longrightarrow> bm_get cs k = Some c \<Longrightarrow> trim k = k"
  by (simp add: consumers_ok_def)

lemma refs_sorted_distinct: "refs_ok rs \<Longrightarrow> distinct rs"
  by (simp add: refs_ok_def strict_sorted_iff)

lemma drop_ref_ok:
  assumes "consumers_ok cs" and c: "bm_get cs cid = Some c"
  shows "consumers_ok (drop_ref cid n now c cs)" and "held (drop_ref cid n now c cs) \<subseteq> held cs"
    and "bm_get (drop_ref cid n now c cs) k =
      (if k = cid then (if remove1 n (cd_refs c) = [] then None
                        else if n \<in> set (cd_refs c) then Some (c\<lparr>cd_refs := remove1 n (cd_refs c), cd_updated_at_ms := now\<rparr>)
                        else Some c)
       else bm_get cs k)"
proof -
  have ok: "cid \<noteq> []" "trim cid = cid" "refs_ok (cd_refs c)" and bm: "bm_ok cs"
    using assms by (auto simp: consumers_ok_def)
  show get: "bm_get (drop_ref cid n now c cs) k =
      (if k = cid then (if remove1 n (cd_refs c) = [] then None
                        else if n \<in> set (cd_refs c) then Some (c\<lparr>cd_refs := remove1 n (cd_refs c), cd_updated_at_ms := now\<rparr>)
                        else Some c)
       else bm_get cs k)" for k
    using bm c by (simp add: drop_ref_def bm_get_remove Let_def)
  have sub: "set (remove1 n (cd_refs c)) \<subseteq> set (cd_refs c)" by (rule set_remove1_subset)
  have "refs_ok (remove1 n (cd_refs c))" if "remove1 n (cd_refs c) \<noteq> []"
    using ok(3) sub that by (auto simp: refs_ok_def list_all_iff strict_sorted_iff sorted_remove1)
  then show "consumers_ok (drop_ref cid n now c cs)"
    using assms(1) ok bm get by (auto simp: consumers_ok_def drop_ref_def Let_def split: if_splits)
  show "held (drop_ref cid n now c cs) \<subseteq> held cs"
    unfolding held_def get using c sub by (auto split: if_splits)
qed

lemma book_okI:
  "consumers_ok cs \<Longrightarrow> entries_ok es \<Longrightarrow> held cs \<subseteq> entered es \<Longrightarrow> book_ok \<lparr>db_consumers = cs, db_entries = es\<rparr>"
  by (simp add: book_ok_def)

lemma cleaned_ok:
  "consumers_ok cs \<Longrightarrow> entries_ok es \<Longrightarrow> held cs \<subseteq> entered es \<Longrightarrow>
     book_ok (cleanup_orphan_entries \<lparr>db_consumers = cs, db_entries = es\<rparr>) \<and>
     tight (cleanup_orphan_entries \<lparr>db_consumers = cs, db_entries = es\<rparr>)"
  using cleanup_book [of "\<lparr>db_consumers = cs, db_entries = es\<rparr>"] by simp

text \<open>A step keeps the book well formed; it keeps it tight unless it is an acquire that is refused.\<close>

fun refused :: "demand_book \<Rightarrow> demand_op \<Rightarrow> bool" where
  "refused b (D_Acquire cid refs managed now) \<longleftrightarrow> (\<exists>e. fst (demand_acquire b cid refs managed now) = Inl e)"
| "refused b _ \<longleftrightarrow> False"

lemma acquire_step:
  assumes "book_ok b"
  shows "book_ok (demand_step b (D_Acquire cid refs managed now))"
    and "\<not> refused b (D_Acquire cid refs managed now) \<Longrightarrow> tight (demand_step b (D_Acquire cid refs managed now))"
    and "leases (demand_step b (D_Acquire cid refs managed now)) = lease_step (leases b) (D_Acquire cid refs managed now)"
proof -
  let ?cs = "db_consumers b" and ?es = "db_entries b" and ?op = "D_Acquire cid refs managed now"
  have ok: "consumers_ok ?cs" "entries_ok ?es" "held ?cs \<subseteq> entered ?es" using assms by (auto simp: book_ok_def)
  obtain res es where run: "acquire_refs now refs [] ?es = (res, es)" by fastforce
  have norm: "normalize_refs refs = res" using normalize_refs_acquire [of refs now ?es] run by simp
  note acq = acquire_refs_ok [OF run _ _ ok(2)]
  have es: "entries_ok es" "held ?cs \<subseteq> entered es" using acq ok(3) by auto
  have "book_ok (demand_step b ?op) \<and> (\<not> refused b ?op \<longrightarrow> tight (demand_step b ?op)) \<and>
    leases (demand_step b ?op) = lease_step (leases b) ?op"
  proof (cases "trim cid = []")
    case True
    with assms norm show ?thesis
      by (auto simp: demand_acquire_def split: sum.split)
  next
    case False
    show ?thesis
    proof (cases res)
      case (Inl e)
      with False run norm ok(1) es show ?thesis
        by (auto simp: demand_acquire_def book_ok_def leases_def)
    next
      case (Inr ns)
      with acq have ns: "sorted_wrt (<) ns" "list_all ref_ok ns" "set ns \<subseteq> entered es" by auto
      show ?thesis
      proof (cases "ns = []")
        case True
        with False Inr run norm ok(1) es show ?thesis
          by (auto simp: demand_acquire_def book_ok_def leases_def)
      next
        case nonempty: False
        let ?cs' = "put_consumer (trim cid) ns managed now True ?cs"
        have "refs_ok ns" using ns nonempty by (simp add: refs_ok_def)
        then have "consumers_ok ?cs'" using ok(1) False by (simp add: put_consumer_ok)
        moreover have "held ?cs' \<subseteq> entered es" using held_put_consumer es(2) ns(3) by blast
        ultimately have "book_ok (cleanup_orphan_entries \<lparr>db_consumers = ?cs', db_entries = es\<rparr>) \<and>
            tight (cleanup_orphan_entries \<lparr>db_consumers = ?cs', db_entries = es\<rparr>)"
          using es(1) by (intro cleaned_ok)
        moreover have "demand_step b ?op = cleanup_orphan_entries \<lparr>db_consumers = ?cs', db_entries = es\<rparr>"
          using False nonempty Inr run by (simp add: demand_acquire_def Let_def)
        moreover have "leases (cleanup_orphan_entries \<lparr>db_consumers = ?cs', db_entries = es\<rparr>) = lease_step (leases b) ?op"
          using False nonempty Inr norm
          by (auto simp: leases_def fun_eq_iff put_consumer_get lease_of_def held_by_def set_fold_bs_put split: option.split)
        ultimately show ?thesis by simp
      qed
    qed
  qed
  then show "book_ok (demand_step b ?op)" "\<not> refused b ?op \<Longrightarrow> tight (demand_step b ?op)"
    "leases (demand_step b ?op) = lease_step (leases b) ?op" by auto
qed

text \<open>What the other steps share: the claim proved of each of them.\<close>

definition step_ok :: "demand_book \<Rightarrow> demand_op \<Rightarrow> bool" where
  "step_ok b a \<longleftrightarrow> book_ok (demand_step b a) \<and> (tight b \<longrightarrow> tight (demand_step b a)) \<and>
     leases (demand_step b a) = lease_step (leases b) a"

lemma step_ok_cleaned:
  assumes "demand_step b a = cleanup_orphan_entries \<lparr>db_consumers = cs, db_entries = es\<rparr>"
    and "consumers_ok cs" and "entries_ok es" and "held cs \<subseteq> entered es"
    and "\<And>k. map_option lease_of (bm_get cs k) = lease_step (leases b) a k"
  shows "step_ok b a"
  using cleaned_ok [OF assms(2-4)] assms(1,5) by (auto simp: step_ok_def leases_def fun_eq_iff)

lemma step_ok_same: "demand_step b a = b \<Longrightarrow> book_ok b \<Longrightarrow> lease_step (leases b) a = leases b \<Longrightarrow> step_ok b a"
  by (simp add: step_ok_def)

lemma release_at_step:
  assumes "book_ok b"
  shows "step_ok b (D_Release_At cid now)"
proof (cases "bm_get (db_consumers b) (trim cid)")
  case None
  with assms show ?thesis
    by (intro step_ok_same) (auto simp: demand_release_consumer_with_time_def Let_def leases_def)
next
  case (Some c)
  have ok: "consumers_ok (db_consumers b)" "entries_ok (db_entries b)" "held (db_consumers b) \<subseteq> entered (db_entries b)"
    using assms by (auto simp: book_ok_def)
  show ?thesis
    by (rule step_ok_cleaned [of _ _ "bm_remove (trim cid) (db_consumers b)"
            "fold (touch_entry now) (cd_refs c) (db_entries b)"])
      (use Some ok held_remove [OF consumers_ok_bm [OF ok(1)]] in
        \<open>auto simp: demand_release_consumer_with_time_def Let_def consumers_ok_remove entries_ok_fold_touch
          bm_get_remove leases_def\<close>)
qed

lemma release_step_eq:
  "\<exists>now. demand_step b (D_Release cid) = demand_step b (D_Release_At cid now) \<and>
     snd (demand_release_consumer b cid) = demand_step b (D_Release_At cid now)"
  by (auto simp: demand_release_def demand_release_consumer_def Let_def)

lemma release_step:
  assumes "book_ok b"
  shows "step_ok b (D_Release cid)"
proof -
  obtain now where "demand_step b (D_Release cid) = demand_step b (D_Release_At cid now)"
    using release_step_eq by blast
  moreover have "step_ok b (D_Release_At cid now)" using assms by (rule release_at_step)
  ultimately show ?thesis by (simp add: step_ok_def del: demand_step.simps)
qed

lemma replace_step:
  assumes "book_ok b"
  shows "step_ok b (D_Replace cid refs managed now)"
proof -
  let ?cs = "db_consumers b" and ?es = "db_entries b" and ?op = "D_Replace cid refs managed now"
  have ok: "consumers_ok ?cs" "entries_ok ?es" "held ?cs \<subseteq> entered ?es" using assms by (auto simp: book_ok_def)
  consider (stop) "trim cid = [] \<or> (\<exists>e. normalize_refs refs = Inl e)"
    | (release) "trim cid \<noteq> []" "normalize_refs refs = Inr []"
    | (go) ns where "trim cid \<noteq> []" "normalize_refs refs = Inr ns" "ns \<noteq> []"
    by (metis sumE)
  then show ?thesis
  proof cases
    case stop
    with assms show ?thesis
      by (intro step_ok_same) (auto simp: demand_replace_def Let_def split: sum.splits)
  next
    case release
    obtain t where t: "snd (demand_release_consumer b (trim cid)) = demand_step b (D_Release_At (trim cid) t)"
      using release_step_eq by blast
    have "demand_step b ?op = snd (demand_release_consumer b (trim cid))"
      using release by (simp add: demand_replace_def Let_def)
    with t release_at_step [OF assms, of "trim cid" t] release show ?thesis
      by (simp add: step_ok_def del: demand_step.simps)
  next
    case go
    from normalize_refs_ok [OF go(2)] go(3) have ns: "refs_ok ns" "list_all ref_ok ns" by (auto simp: refs_ok_def)
    let ?cs' = "put_consumer (trim cid) ns managed now False ?cs"
    show ?thesis
    proof (rule step_ok_cleaned)
      show "demand_step b ?op = cleanup_orphan_entries \<lparr>db_consumers = ?cs', db_entries = fold (open_entry now) ns ?es\<rparr>"
        using go by (simp add: demand_replace_def Let_def)
      show "consumers_ok ?cs'" by (rule put_consumer_ok) (use go ok ns in simp_all)
      show "entries_ok (fold (open_entry now) ns ?es)" using ok ns by (simp add: entries_ok_fold_open)
      show "held ?cs' \<subseteq> entered (fold (open_entry now) ns ?es)"
        using held_put_consumer [of "trim cid" ns managed now False ?cs] ok(3) by auto
      show "map_option lease_of (bm_get ?cs' k) = lease_step (leases b) ?op k" for k
        using go by (simp add: put_consumer_get lease_of_def leases_def split: option.split)
    qed
  qed
qed

lemma held_insert_same:
  assumes "bm_get cs cid = Some c" and "cd_refs c' = cd_refs c"
  shows "held (bm_insert cid c' cs) = held cs"
proof -
  have "(\<exists>d. bm_get (bm_insert cid c' cs) k = Some d \<and> r \<in> set (cd_refs d)) \<longleftrightarrow>
      (\<exists>d. bm_get cs k = Some d \<and> r \<in> set (cd_refs d))" for k r
    using assms by simp
  then show ?thesis by (simp add: held_def del: bm_get_insert)
qed

lemma heartbeat_step:
  assumes "book_ok b"
  shows "step_ok b (D_Heartbeat cid now)"
proof (cases "bm_get (db_consumers b) (trim cid)")
  case None
  with assms show ?thesis by (intro step_ok_same) (auto simp: demand_heartbeat_def Let_def leases_def)
next
  case (Some c)
  let ?cs' = "bm_insert (trim cid) (c\<lparr>cd_heartbeat_ms := now, cd_updated_at_ms := now\<rparr>) (db_consumers b)"
  have ok: "consumers_ok (db_consumers b)" "entries_ok (db_entries b)" "held (db_consumers b) \<subseteq> entered (db_entries b)"
    using assms by (auto simp: book_ok_def)
  have "consumers_ok ?cs'" using ok(1) Some by (auto simp: consumers_ok_def)
  moreover have "held ?cs' = held (db_consumers b)" using Some by (intro held_insert_same) simp_all
  ultimately show ?thesis
    using ok Some
    by (auto simp: step_ok_def demand_heartbeat_def Let_def book_ok_def tight_def entries_ok_fold_touch leases_def
        fun_eq_iff lease_of_def)
qed

lemma release_instrument_step:
  assumes "book_ok b"
  shows "step_ok b (D_Release_Instrument cid r now)"
proof -
  let ?cs = "db_consumers b" and ?es = "db_entries b" and ?op = "D_Release_Instrument cid r now"
  have ok: "consumers_ok ?cs" "entries_ok ?es" "held ?cs \<subseteq> entered ?es" using assms by (auto simp: book_ok_def)
  consider (stop) "(\<exists>e. ref_normalize r = Inl e) \<or> bm_get ?cs (trim cid) = None"
    | (go) n c where "ref_normalize r = Inr n" "bm_get ?cs (trim cid) = Some c"
    by (metis sumE option.exhaust)
  then show ?thesis
  proof cases
    case stop
    with assms show ?thesis
      by (intro step_ok_same) (auto simp: demand_release_instrument_def Let_def leases_def split: sum.splits option.splits)
  next
    case go
    let ?cs' = "drop_ref (trim cid) n now c ?cs"
    note drop = drop_ref_ok [OF ok(1) go(2), of n now]
    have refs: "refs_ok (cd_refs c)" using ok(1) go(2) by (auto simp: consumers_ok_def)
    then have dist: "distinct (cd_refs c)" by (rule refs_sorted_distinct)
    then have set_drop: "set (remove1 n (cd_refs c)) = set (cd_refs c) - {n}" by simp
    have empty: "remove1 n (cd_refs c) = [] \<longleftrightarrow> set (cd_refs c) - {n} = {}"
      by (metis set_drop set_empty)
    have lease: "map_option lease_of (bm_get ?cs' k) = lease_step (leases b) ?op k" for k
      using go set_drop empty by (auto simp: drop(3) lease_of_def leases_def)
    show ?thesis
    proof (cases "n \<in> set (cd_refs c)")
      case True
      show ?thesis
      proof (rule step_ok_cleaned)
        show "demand_step b ?op = cleanup_orphan_entries \<lparr>db_consumers = ?cs', db_entries = touch_entry now n ?es\<rparr>"
          using go True by (cases b) (simp add: demand_release_instrument_def Let_def)
      qed (use ok drop lease in \<open>auto simp: entries_ok_touch\<close>)
    next
      case False
      then have "remove1 n (cd_refs c) = cd_refs c" by (rule remove1_idem)
      moreover have "cd_refs c \<noteq> []" using refs by (simp add: refs_ok_def)
      ultimately have "?cs' = ?cs" using False by (simp add: drop_ref_def)
      then have "demand_step b ?op = b" using go False by (simp add: demand_release_instrument_def Let_def)
      moreover have "lease_step (leases b) ?op k = leases b k" for k
        using lease [of k] unfolding \<open>?cs' = ?cs\<close> leases_def by (rule sym)
      ultimately show ?thesis using assms by (intro step_ok_same) blast+
    qed
  qed
qed

lemma clear_step:
  assumes "book_ok b"
  shows "step_ok b (D_Clear cid now)"
proof -
  let ?cs = "db_consumers b" and ?es = "db_entries b" and ?op = "D_Clear cid now"
  have ok: "consumers_ok ?cs" "entries_ok ?es" "held ?cs \<subseteq> entered ?es" using assms by (auto simp: book_ok_def)
  note bm = consumers_ok_bm [OF ok(1)]
  show ?thesis
  proof (cases "opt_filter (\<lambda>s. s \<noteq> []) (map_option trim cid)")
    case None
    show ?thesis
    proof (rule step_ok_cleaned)
      show "demand_step b ?op = cleanup_orphan_entries \<lparr>db_consumers = filter (\<lambda>(_, c). cd_managed c) ?cs,
          db_entries = fold (touch_entry now) (concat (map (cd_refs \<circ> snd) (filter (\<lambda>(_, c). \<not> cd_managed c) ?cs))) ?es\<rparr>"
        using None by (simp add: demand_clear_def Let_def)
      show "map_option lease_of (bm_get (filter (\<lambda>(_, c). cd_managed c) ?cs) k) = lease_step (leases b) ?op k" for k
        using None bm by (simp add: bm_get_filter leases_def lease_of_def split: option.split)
    qed (use ok bm held_filter [OF bm] in \<open>auto simp: consumers_ok_filter entries_ok_fold_touch\<close>)
  next
    case (Some c)
    show ?thesis
    proof (cases "bm_get ?cs c")
      case None
      have eq: "\<lparr>db_consumers = ?cs, db_entries = ?es\<rparr> = b" by simp
      show ?thesis
      proof (rule step_ok_cleaned)
        show "demand_step b ?op = cleanup_orphan_entries \<lparr>db_consumers = ?cs, db_entries = ?es\<rparr>"
          unfolding eq using None Some by (simp add: demand_clear_def Let_def)
        show "map_option lease_of (bm_get ?cs k) = lease_step (leases b) ?op k" for k
          using None Some by (simp add: leases_def)
      qed (use ok in auto)
    next
      case (Some d)
      note got = this
      show ?thesis
      proof (rule step_ok_cleaned)
        show "demand_step b ?op = cleanup_orphan_entries
            \<lparr>db_consumers = bm_remove c ?cs, db_entries = fold (touch_entry now) (cd_refs d) ?es\<rparr>"
          using got \<open>opt_filter _ _ = Some c\<close> by (simp add: demand_clear_def Let_def)
        show "map_option lease_of (bm_get (bm_remove c ?cs) k) = lease_step (leases b) ?op k" for k
          using bm \<open>opt_filter _ _ = Some c\<close> by (simp add: bm_get_remove leases_def)
      qed (use ok held_remove [OF bm] in \<open>auto simp: consumers_ok_remove entries_ok_fold_touch\<close>)
    qed
  qed
qed

lemma expire_step:
  assumes "book_ok b"
  shows "step_ok b (D_Expire now ttl)"
proof -
  let ?cs = "db_consumers b" and ?es = "db_entries b" and ?op = "D_Expire now ttl"
  have ok: "consumers_ok ?cs" "entries_ok ?es" "held ?cs \<subseteq> entered ?es" using assms by (auto simp: book_ok_def)
  note bm = consumers_ok_bm [OF ok(1)]
  let ?gone = "filter (\<lambda>(_, c). \<not> lease_kept now ttl c) ?cs" and ?kept = "filter (\<lambda>(_, c). lease_kept now ttl c) ?cs"
  have lease: "map_option lease_of (bm_get ?kept k) = lease_step (leases b) ?op k" if "\<not> ttl < 0" for k
    using bm that by (simp add: bm_get_filter leases_def lease_of_def lease_kept_def split: option.split)
  consider "ttl < 0" | "\<not> ttl < 0" "?gone = []" | "\<not> ttl < 0" "?gone \<noteq> []" by blast
  then show ?thesis
  proof cases
    case 1
    with assms show ?thesis by (intro step_ok_same) (simp_all add: demand_expire_def)
  next
    case 2
    then have kept: "?kept = ?cs" by (auto simp: filter_empty_conv filter_id_conv)
    with 2 have "demand_step b ?op = b" by (simp add: demand_expire_def Let_def)
    moreover have "lease_step (leases b) ?op k = leases b k" for k
      using lease [OF 2(1), of k] unfolding kept leases_def by (rule sym)
    ultimately show ?thesis using assms by (intro step_ok_same) blast+
  next
    case 3
    show ?thesis
    proof (rule step_ok_cleaned)
      show "demand_step b ?op = cleanup_orphan_entries
          \<lparr>db_consumers = ?kept, db_entries = fold (touch_entry now) (concat (map (cd_refs \<circ> snd) ?gone)) ?es\<rparr>"
        using 3 by (simp add: demand_expire_def Let_def)
      show "map_option lease_of (bm_get ?kept k) = lease_step (leases b) ?op k" for k
        by (rule lease [OF 3(1)])
    qed (use ok held_filter [OF bm] in \<open>auto simp: consumers_ok_filter entries_ok_fold_touch\<close>)
  qed
qed

lemma demand_step_ok:
  assumes "book_ok b"
  shows "book_ok (demand_step b a)" and "tight b \<Longrightarrow> \<not> refused b a \<Longrightarrow> tight (demand_step b a)"
    and "leases (demand_step b a) = lease_step (leases b) a"
proof -
  have "book_ok (demand_step b a) \<and> (tight b \<longrightarrow> \<not> refused b a \<longrightarrow> tight (demand_step b a)) \<and>
    leases (demand_step b a) = lease_step (leases b) a"
  proof (cases a)
    case (D_Acquire cid refs managed now)
    with acquire_step [OF assms, of cid refs managed now] show ?thesis by blast
  qed (use replace_step heartbeat_step release_instrument_step release_at_step release_step clear_step expire_step assms
      in \<open>auto simp: step_ok_def simp del: demand_step.simps lease_step.simps\<close>)
  then show "book_ok (demand_step b a)" and "tight b \<Longrightarrow> \<not> refused b a \<Longrightarrow> tight (demand_step b a)"
    and "leases (demand_step b a) = lease_step (leases b) a" by auto
qed

interpretation demand: machine demand_step book_ok
  by unfold_locales (rule demand_step_ok(1))

section \<open>Properties\<close>

lemma default_ok: "book_ok demand_default" "tight demand_default" "leases demand_default = (\<lambda>_. None)"
  by (auto simp: book_ok_def tight_def demand_default_def consumers_ok_def entries_ok_def held_def entered_def leases_def)

lemma leases_run:
  assumes "book_ok b"
  shows "leases (run demand_step b ops) = run lease_step (leases b) ops"
  using assms by (induction ops arbitrary: b) (simp_all add: demand_step_ok del: demand_step.simps lease_step.simps)

lemma reachable_ok: "book_ok (run demand_step demand_default ops)"
  by (rule demand.run_inv) (rule default_ok(1))

text \<open>C18: The demand book implements its specification. After any operations, whether they succeed or
  are refused, what each consumer holds (its references, whether it is managed, its last
  heartbeat) is what the specification of leases says.
\<close>

theorem demand_refines_leases:
  "leases (run demand_step demand_default ops) = run lease_step (\<lambda>_. None) ops"
  using leases_run [OF default_ok(1)] by (simp add: default_ok(3))

lemma held_leases: "r \<in> held_by (leases b) cid \<longleftrightarrow> (\<exists>c. bm_get (db_consumers b) cid = Some c \<and> r \<in> set (cd_refs c))"
  by (auto simp: held_by_def leases_def lease_of_def split: option.split)

lemma holders_set:
  assumes "bm_ok cs"
  shows "set (es_consumers (entry_snapshot_of cs (r, e))) = {cid. \<exists>c. bm_get cs cid = Some c \<and> r \<in> set (cd_refs c)}"
  using bm_in_set_get [OF assms] by (force simp: entry_snapshot_of_def Let_def)

lemma distinct_holders:
  assumes "bm_ok cs"
  shows "distinct (es_consumers (entry_snapshot_of cs (r, e)))"
proof -
  have "distinct (map fst (filter (\<lambda>(_, c). r \<in> set (cd_refs c)) cs))"
    using assms by (intro bm_distinct bm_ok_filter)
  then show ?thesis by (simp add: entry_snapshot_of_def Let_def)
qed

lemma snapshot_active:
  assumes "book_ok b"
  shows "set (ds_active (demand_snapshot_of b)) = {r. \<exists>cid. r \<in> held_by (leases b) cid}"
    and "list_all ref_ok (ds_active (demand_snapshot_of b))"
    and "set (ds_active (demand_snapshot_of b)) \<subseteq> fst ` set (db_entries b)"
proof -
  have ok: "consumers_ok (db_consumers b)" "held (db_consumers b) \<subseteq> entered (db_entries b)"
    using assms by (auto simp: book_ok_def)
  have active: "set (ds_active (demand_snapshot_of b)) = held (db_consumers b)"
    by (simp add: demand_snapshot_of_def Let_def set_active_refs [OF consumers_ok_bm [OF ok(1)]])
  show "set (ds_active (demand_snapshot_of b)) = {r. \<exists>cid. r \<in> held_by (leases b) cid}"
    by (auto simp: active held_def held_leases)
  show "list_all ref_ok (ds_active (demand_snapshot_of b))"
    using ok(1) by (auto simp: list_all_iff active held_def consumers_ok_def refs_ok_def)
  show "set (ds_active (demand_snapshot_of b)) \<subseteq> fst ` set (db_entries b)"
    using ok(2) by (auto simp: active entered_def bm_keys_get)
qed

lemma snapshot_entry:
  assumes "book_ok b" and "(r, e) \<in> set (db_entries b)"
  shows "entry_snapshot_of (db_consumers b) (r, e) \<in> set (ds_entries (demand_snapshot_of b))"
    and "distinct (es_consumers (entry_snapshot_of (db_consumers b) (r, e)))"
    and "set (es_consumers (entry_snapshot_of (db_consumers b) (r, e))) = {cid. r \<in> held_by (leases b) cid}"
    and "es_ref_count (entry_snapshot_of (db_consumers b) (r, e)) = card {cid. r \<in> held_by (leases b) cid}"
proof -
  have bm: "bm_ok (db_consumers b)" using assms(1) by (auto simp: book_ok_def)
  show "entry_snapshot_of (db_consumers b) (r, e) \<in> set (ds_entries (demand_snapshot_of b))"
    using assms(2) by (simp add: demand_snapshot_of_def Let_def)
  show dist: "distinct (es_consumers (entry_snapshot_of (db_consumers b) (r, e)))"
    by (rule distinct_holders [OF bm])
  show holders: "set (es_consumers (entry_snapshot_of (db_consumers b) (r, e))) = {cid. r \<in> held_by (leases b) cid}"
    by (simp only: holders_set [OF bm] held_leases)
  have "es_ref_count (entry_snapshot_of (db_consumers b) (r, e)) = length (es_consumers (entry_snapshot_of (db_consumers b) (r, e)))"
    by (simp add: entry_snapshot_of_def Let_def)
  also have "\<dots> = card {cid. r \<in> held_by (leases b) cid}" using distinct_card [OF dist] by (simp only: holders)
  finally show "es_ref_count (entry_snapshot_of (db_consumers b) (r, e)) = card {cid. r \<in> held_by (leases b) cid}" .
qed

text \<open>The snapshot of any reachable book is truthful: the active references are exactly the held
  ones, all of them normalised and each with an entry; every entry appears in the snapshot, lists
  the consumers that hold its reference, once each, and its reference count is their number.
\<close>

theorem demand_snapshot_truthful:
  "let b = run demand_step demand_default ops; snap = demand_snapshot_of b
   in set (ds_active snap) = {r. \<exists>cid. r \<in> held_by (leases b) cid} \<and> list_all ref_ok (ds_active snap) \<and>
      set (ds_active snap) \<subseteq> fst ` set (db_entries b) \<and>
      list_all (\<lambda>(r, e). let s = entry_snapshot_of (db_consumers b) (r, e) in
          s \<in> set (ds_entries snap) \<and> distinct (es_consumers s) \<and>
          set (es_consumers s) = {cid. r \<in> held_by (leases b) cid} \<and>
          es_ref_count s = card {cid. r \<in> held_by (leases b) cid}) (db_entries b)"
  using snapshot_active [OF reachable_ok [of ops]] snapshot_entry [OF reachable_ok [of ops]]
  by (auto simp: Let_def list_all_iff)

fun all_accepted :: "demand_book \<Rightarrow> demand_op list \<Rightarrow> bool" where
  "all_accepted b [] \<longleftrightarrow> True"
| "all_accepted b (a # as) \<longleftrightarrow> \<not> refused b a \<and> all_accepted (demand_step b a) as"

lemma entered_keys: "entered es = fst ` set es"
  unfolding entered_def by (rule set_eqI) (simp only: bm_keys_get mem_Collect_eq)

lemma tight_run: "book_ok b \<Longrightarrow> tight b \<Longrightarrow> all_accepted b ops \<Longrightarrow> tight (run demand_step b ops)"
  by (induction ops arbitrary: b) (simp_all add: demand_step_ok del: demand_step.simps)

lemma sorted_active: "sorted_wrt (<) (active_refs cs)"
  by (simp add: active_refs_def bs_of_list_def sorted_fold_bs_put)

text \<open>Unless an acquire was refused, the entries are exactly the held references: the entries
  stand in the order of the active references and no reference count is 0.
\<close>

theorem entries_are_held:
  assumes "all_accepted demand_default ops"
  shows "let b = run demand_step demand_default ops; snap = demand_snapshot_of b
    in map fst (db_entries b) = ds_active snap \<and> ds_logical_count snap = length (ds_active snap) \<and>
       list_all (\<lambda>s. 0 < es_ref_count s) (ds_entries snap)"
proof -
  let ?b = "run demand_step demand_default ops"
  have ok: "book_ok ?b" and tight: "tight ?b"
    using reachable_ok tight_run [OF default_ok(1,2) assms] by simp_all
  have bm: "bm_ok (db_consumers ?b)" and es: "bm_ok (db_entries ?b)" using ok by (auto simp: book_ok_def entries_ok_def)
  have "set (map fst (db_entries ?b)) = set (active_refs (db_consumers ?b))"
    using tight by (simp add: tight_def entered_keys set_active_refs [OF bm])
  then have keys: "map fst (db_entries ?b) = active_refs (db_consumers ?b)"
    using es sorted_active by (intro strict_sorted_equal) (simp_all add: bm_ok_def)
  have "0 < es_ref_count (entry_snapshot_of (db_consumers ?b) (r, e))" if "(r, e) \<in> set (db_entries ?b)" for r e
  proof -
    have "r \<in> held (db_consumers ?b)"
      using that keys set_active_refs [OF bm] by (metis fst_conv image_eqI list.set_map)
    then have "es_consumers (entry_snapshot_of (db_consumers ?b) (r, e)) \<noteq> []"
      using holders_set [OF bm, of r e] by (auto simp: held_def)
    moreover have "es_ref_count (entry_snapshot_of (db_consumers ?b) (r, e)) =
        length (es_consumers (entry_snapshot_of (db_consumers ?b) (r, e)))"
      by (simp add: entry_snapshot_of_def Let_def)
    ultimately show ?thesis by (simp del: run_simps)
  qed
  moreover have "length (db_entries ?b) = length (active_refs (db_consumers ?b))"
    using keys by (metis length_map)
  ultimately show ?thesis
    using keys by (auto simp: demand_snapshot_of_def Let_def list_all_iff)
qed

definition aapl :: instrument_ref where
  "aapl = Instrument_Ref ''SNAPSHOT'' ''US'' ''AAPL'' None"

lemma aapl_normalize: "ref_normalize aapl = Inr aapl"
  unfolding aapl_def by code_simp

lemma blank_normalize: "ref_normalize (Instrument_Ref [] [] [] None) = Inl (InvalidSubscription ''market and symbol are required'')"
  by code_simp

lemma chart_trim: "trim ''chart'' = ''chart''"
  by code_simp

theorem entries_are_held_witness:
  "let b = run demand_step demand_default [D_Acquire ''chart'' [aapl] False 10]; snap = demand_snapshot_of b
    in map fst (db_entries b) = ds_active snap \<and> ds_logical_count snap = length (ds_active snap) \<and>
       list_all (\<lambda>s. 0 < es_ref_count s) (ds_entries snap)"
  by (rule entries_are_held)
    (simp add: demand_default_def demand_acquire_def aapl_normalize chart_trim Let_def)

text \<open>
  An acquire that is refused at its second reference leaves the entry of its first reference
  behind, although nobody holds it: the book counts one logical subscription and no active one.
\<close>

theorem refused_acquire_leaves_entry:
  "let b = demand_step demand_default (D_Acquire ''chart'' [aapl, Instrument_Ref [] [] [] None] False 10);
       snap = demand_snapshot_of b
   in ds_logical_count snap = 1 \<and> ds_active snap = [] \<and> ds_consumer_count snap = 0 \<and>
      map es_ref_count (ds_entries snap) = [0]"
  by (simp add: demand_default_def demand_acquire_def aapl_normalize blank_normalize chart_trim Let_def
      open_entry_def demand_snapshot_of_def active_refs_def bm_values_def bs_of_list_def entry_snapshot_of_def)

fun names :: "string \<Rightarrow> demand_op \<Rightarrow> bool" where
  "names cid (D_Acquire c _ _ _) \<longleftrightarrow> trim c = cid"
| "names cid (D_Replace c _ _ _) \<longleftrightarrow> trim c = cid"
| "names cid (D_Heartbeat _ _) \<longleftrightarrow> False"
| "names cid (D_Release_Instrument c _ _) \<longleftrightarrow> trim c = cid"
| "names cid (D_Release_At c _) \<longleftrightarrow> trim c = cid"
| "names cid (D_Release c) \<longleftrightarrow> trim c = cid"
| "names cid (D_Clear c _) \<longleftrightarrow> map_option trim c = Some cid"
| "names cid (D_Expire _ _) \<longleftrightarrow> False"

lemma unnamed_step:
  assumes "L cid = Some (True, beat, R)" and "\<not> names cid a"
  shows "\<exists>beat'. lease_step L a cid = Some (True, beat', R)"
proof (cases a)
  case (D_Clear c now)
  with assms show ?thesis by (cases c) auto
qed (use assms in \<open>auto split: sum.splits option.splits\<close>)

lemma unnamed_run:
  "L cid = Some (True, beat, R) \<Longrightarrow> list_all (\<lambda>a. \<not> names cid a) ops \<Longrightarrow>
     \<exists>beat'. run lease_step L ops cid = Some (True, beat', R)"
proof (induction ops arbitrary: L beat)
  case (Cons a ops)
  then obtain beat' where "lease_step L a cid = Some (True, beat', R)" using unnamed_step by fastforce
  with Cons show ?case by simp
qed simp

text \<open>A managed lease ends only by name. Once a consumer holds a managed lease in a reachable book,
  no operation that does not acquire, replace, release or clear that very consumer takes it
  away or changes its references: in particular heartbeats, the expiry of leases and a general
  clear leave it alone.
\<close>

theorem managed_lease_survives:
  assumes "leases (run demand_step demand_default ops) cid = Some (True, beat, R)"
    and "list_all (\<lambda>a. \<not> names cid a) ops'"
  shows "\<exists>beat'. leases (run demand_step demand_default (ops @ ops')) cid = Some (True, beat', R)"
  using unnamed_run [of "leases (run demand_step demand_default ops)", OF assms] leases_run [OF reachable_ok [of ops], of ops'] by simp

theorem managed_lease_survives_witness:
  "\<exists>beat. leases (run demand_step demand_default
     ([D_Acquire ''chart'' [aapl] True 10] @ [D_Expire 1000 20, D_Clear None 1001])) ''chart'' = Some (True, beat, {aapl})"
  by (rule managed_lease_survives [of _ _ 10])
    (simp_all add: demand_default_def demand_acquire_def aapl_normalize chart_trim Let_def leases_def
      put_consumer_def lease_of_def bm_get_def)

text \<open>Expiry takes exactly the overdue leases. The consumers returned are those that are not
  managed and whose last heartbeat lies more than the time to live in the past, each once and in
  order; afterwards none of them holds anything and every other lease is as it was. With a
  negative time to live nothing expires.
\<close>

theorem expire_takes_overdue:
  "let b = run demand_step demand_default ops; (gone, b') = demand_expire b now ttl
   in sorted_wrt (<) gone \<and>
      set gone = {cid. 0 \<le> ttl \<and> (\<exists>beat R. leases b cid = Some (False, beat, R) \<and> ttl < sat_sub_i64 now beat)} \<and>
      leases b' = (\<lambda>cid. if cid \<in> set gone then None else leases b cid)"
proof -
  let ?b = "run demand_step demand_default ops"
  obtain gone b' where e: "demand_expire ?b now ttl = (gone, b')" by fastforce
  have bm: "bm_ok (db_consumers ?b)" using reachable_ok [of ops] by (auto simp: book_ok_def)
  have gone: "gone = (if ttl < 0 then [] else map fst (filter (\<lambda>(_, c). \<not> lease_kept now ttl c) (db_consumers ?b)))"
    using e by (auto simp: demand_expire_def Let_def split: if_splits)
  have "sorted_wrt (<) gone" using bm_ok_filter [OF bm] by (simp add: gone bm_ok_def)
  moreover have set_gone: "set gone = {cid. 0 \<le> ttl \<and> (\<exists>beat R. leases ?b cid = Some (False, beat, R) \<and> ttl < sat_sub_i64 now beat)}"
    using bm_in_set_get [OF bm] by (force simp: gone leases_def lease_of_def lease_kept_def not_le)
  moreover have "leases b' = lease_step (leases ?b) (D_Expire now ttl)"
    using demand_step_ok(3) [OF reachable_ok, of ops "D_Expire now ttl"] e by simp
  then have "leases b' cid = (if cid \<in> set gone then None else leases ?b cid)" for cid
    unfolding set_gone by (cases "leases ?b cid") (auto simp: not_le)
  ultimately show ?thesis using e by (simp add: fun_eq_iff)
qed

text \<open>
  A lease on a class share cannot be released through the reference that the book reports for
  it: the release normalises the symbol once more and looks for another instrument.
\<close>

theorem dotted_lease_not_released:
  "let b = demand_step demand_default (D_Acquire ''chart'' [Instrument_Ref ''SNAPSHOT'' [] ''US.BRK.B'' None] False 10);
       reported = ds_active (demand_snapshot_of b)
   in reported = [Instrument_Ref ''SNAPSHOT'' ''US'' ''BRK.B'' None] \<and>
      fst (fst (demand_release_instrument b ''chart'' (hd reported) 20)) = False"
  using dotted_symbol_is_cut
  by (simp add: demand_default_def demand_acquire_def chart_trim Let_def cleanup_orphan_entries_def demand_snapshot_of_def
      active_refs_def bm_values_def bs_of_list_def put_consumer_def demand_release_instrument_def bm_get_def
      open_entry_def)

end
