(* ===== verification/Market_Runtime.thy ===== *)
theory Market_Runtime
  imports Market_Model
begin

text \<open>
  \<open>crates/jftrade-marketdata/src/runtime.rs\<close>: the recorder of the state of a provider's collector.
  Every change of demand or configuration starts a new generation, and an update is recorded only
  when it carries the current one. The operations of the crate \<open>time\<close> are the parameter \<open>T\<close>.
\<close>

section \<open>Time\<close>

record 't time_lib =
  tl_utc :: "'t \<Rightarrow> 't" \<comment> \<open>\<open>to_offset(UTC)\<close>\<close>
  tl_plus_seconds :: "'t \<Rightarrow> int \<Rightarrow> 't" \<comment> \<open>\<open>+ Duration::seconds\<close>\<close>
  tl_unix :: "'t \<Rightarrow> int" \<comment> \<open>\<open>unix_timestamp\<close>\<close>
  tl_nanos :: "'t \<Rightarrow> nat" \<comment> \<open>\<open>nanosecond\<close>, within the second\<close>

text \<open>Saturating addition of one on \<open>u64\<close> and on \<open>usize\<close> counters.\<close>

definition sat_inc :: "u64 \<Rightarrow> u64" where
  "sat_inc g = (if g = - 1 then g else g + 1)"

definition sat_inc_usize :: "nat \<Rightarrow> nat" where
  "sat_inc_usize n = min (2 ^ 64 - 1) (n + 1)"

lemma sat_inc_less: "g \<noteq> - 1 \<Longrightarrow> g < sat_inc g"
  using inc_less_eq_self_iff_eq [of g] by (simp add: sat_inc_def not_le [symmetric])

lemma sat_inc_le: "g \<le> sat_inc g"
  using sat_inc_less [of g] by (cases "g = - 1") (simp_all add: sat_inc_def)

section \<open>The recorder\<close>

record 't collector_state =
  co_connected :: bool
  co_closed :: bool
  co_generation :: u64
  co_active_count :: nat
  co_last_refresh_at :: "'t option"
  co_quote_retry_at :: "'t option"
  co_quote_failures :: nat
  co_quote_last_error :: "string option"
  co_stream_retry_at :: "'t option"
  co_stream_failures :: nat
  co_stream_last_error :: "string option"

definition collector_default :: "'t collector_state" where
  "collector_default =
     \<lparr>co_connected = False, co_closed = False, co_generation = 0, co_active_count = 0, co_last_refresh_at = None,
      co_quote_retry_at = None, co_quote_failures = 0, co_quote_last_error = None,
      co_stream_retry_at = None, co_stream_failures = 0, co_stream_last_error = None\<rparr>"

record 't recorder =
  rs_runtime :: "'t collector_state"
  rs_active_instruments :: "string list"

definition recorder_default :: "'t recorder" where
  "recorder_default = \<lparr>rs_runtime = collector_default, rs_active_instruments = []\<rparr>"

abbreviation generation_of :: "'t recorder \<Rightarrow> u64" where
  "generation_of r \<equiv> co_generation (rs_runtime r)"

abbreviation closed_recorder :: "'t recorder \<Rightarrow> bool" where
  "closed_recorder r \<equiv> co_closed (rs_runtime r)"

definition normalize_instruments :: "string list \<Rightarrow> string list" where
  "normalize_instruments is = remdups_adj (sort (filter (\<lambda>s. s \<noteq> []) (map (\<lambda>s. upper (trim s)) is)))"

definition reset_generation :: "nat \<Rightarrow> 't collector_state \<Rightarrow> 't collector_state" where
  "reset_generation active_count s = collector_default\<lparr>co_generation := co_generation s, co_active_count := active_count\<rparr>"

definition next_generation :: "nat \<Rightarrow> 't collector_state \<Rightarrow> 't collector_state" where
  "next_generation active_count s = reset_generation active_count (s\<lparr>co_generation := sat_inc (co_generation s)\<rparr>)"

definition recorder_reconcile :: "'t recorder \<Rightarrow> string list \<Rightarrow> 't recorder" where
  "recorder_reconcile r instruments =
     (let is = normalize_instruments instruments
      in if closed_recorder r \<or> rs_active_instruments r = is then r
         else \<lparr>rs_runtime = next_generation (length is) (rs_runtime r), rs_active_instruments = is\<rparr>)"

definition recorder_reset :: "'t recorder \<Rightarrow> 't recorder" where
  "recorder_reset r =
     (if closed_recorder r then r
      else \<lparr>rs_runtime = next_generation 0 (rs_runtime r), rs_active_instruments = []\<rparr>)"

definition recorder_reconfigure :: "'t recorder \<Rightarrow> 't recorder" where
  "recorder_reconfigure r =
     (if closed_recorder r then r
      else r\<lparr>rs_runtime := next_generation (length (rs_active_instruments r)) (rs_runtime r)\<rparr>)"

text \<open>\<open>reconcile\<close>, \<open>reset\<close>, \<open>reconfigure\<close> and \<open>close\<close> return the generation they leave, \<open>generation_of\<close>.\<close>

definition recorder_close :: "'t recorder \<Rightarrow> 't recorder" where
  "recorder_close r =
     (if closed_recorder r then r
      else r\<lparr>rs_runtime := (rs_runtime r)\<lparr>co_closed := True, co_connected := False,
                                          co_generation := sat_inc (generation_of r)\<rparr>\<rparr>)"

definition update_generation :: "u64 \<Rightarrow> ('t collector_state \<Rightarrow> 't collector_state) \<Rightarrow> 't recorder \<Rightarrow> bool \<times> 't recorder" where
  "update_generation generation update r =
     (if closed_recorder r \<or> generation_of r \<noteq> generation then (False, r)
      else (True, r\<lparr>rs_runtime := update (rs_runtime r)\<rparr>))"

definition retry_delay :: "nat \<Rightarrow> int" where
  "retry_delay failures = [5, 10, 20, 30] ! min failures 3"

definition retry_at :: "'t time_lib \<Rightarrow> 't \<Rightarrow> nat \<Rightarrow> 't" where
  "retry_at T now failures = tl_plus_seconds T (tl_utc T now) (retry_delay failures)"

text \<open>The updates of one generation.\<close>

datatype 't recorder_update =
    Stream_State bool "string option"
  | Poll_Started 't
  | Quote_Success
  | Quote_Failure 't string
  | Stream_Connected
  | Stream_Failure 't string

fun apply_update :: "'t time_lib \<Rightarrow> 't recorder_update \<Rightarrow> 't collector_state \<Rightarrow> 't collector_state" where
  "apply_update T (Stream_State up error) s =
     (if up
      then s\<lparr>co_connected := True, co_stream_failures := 0, co_stream_retry_at := None, co_stream_last_error := None\<rparr>
      else s\<lparr>co_connected := False, co_stream_last_error := error\<rparr>)"
| "apply_update T (Poll_Started now) s = s\<lparr>co_last_refresh_at := Some (tl_utc T now)\<rparr>"
| "apply_update T Quote_Success s = s\<lparr>co_quote_failures := 0, co_quote_retry_at := None, co_quote_last_error := None\<rparr>"
| "apply_update T (Quote_Failure now error) s =
     s\<lparr>co_quote_retry_at := Some (retry_at T now (co_quote_failures s)),
       co_quote_failures := sat_inc_usize (co_quote_failures s), co_quote_last_error := Some error\<rparr>"
| "apply_update T Stream_Connected s =
     s\<lparr>co_connected := True, co_stream_failures := 0, co_stream_retry_at := None, co_stream_last_error := None\<rparr>"
| "apply_update T (Stream_Failure now error) s =
     s\<lparr>co_connected := False, co_stream_retry_at := Some (retry_at T now (co_stream_failures s)),
       co_stream_failures := sat_inc_usize (co_stream_failures s), co_stream_last_error := Some error\<rparr>"

definition recorder_update :: "'t time_lib \<Rightarrow> u64 \<Rightarrow> 't recorder_update \<Rightarrow> 't recorder \<Rightarrow> bool \<times> 't recorder" where
  "recorder_update T generation u r = update_generation generation (apply_update T u) r"

datatype 't recorder_op =
    R_Reconcile "string list"
  | R_Reset
  | R_Reconfigure
  | R_Update u64 "'t recorder_update"
  | R_Close

fun recorder_step :: "'t time_lib \<Rightarrow> 't recorder \<Rightarrow> 't recorder_op \<Rightarrow> 't recorder" where
  "recorder_step T r (R_Reconcile instruments) = recorder_reconcile r instruments"
| "recorder_step T r R_Reset = recorder_reset r"
| "recorder_step T r R_Reconfigure = recorder_reconfigure r"
| "recorder_step T r (R_Update generation u) = snd (recorder_update T generation u r)"
| "recorder_step T r R_Close = recorder_close r"

section \<open>Generations only grow\<close>

lemmas recorder_defs = recorder_reconcile_def recorder_reset_def recorder_reconfigure_def recorder_close_def
  recorder_update_def update_generation_def next_generation_def reset_generation_def collector_default_def

lemma apply_update_frame [simp]:
  "co_generation (apply_update T u s) = co_generation s" "co_closed (apply_update T u s) = co_closed s"
  "co_active_count (apply_update T u s) = co_active_count s"
  by (cases u; simp)+

definition recorder_ok :: "'t recorder \<Rightarrow> bool" where
  "recorder_ok r \<longleftrightarrow> co_active_count (rs_runtime r) = length (rs_active_instruments r) \<and>
     sorted_wrt (<) (rs_active_instruments r) \<and> (closed_recorder r \<longrightarrow> \<not> co_connected (rs_runtime r))"

definition recorder_le :: "'t recorder \<Rightarrow> 't recorder \<Rightarrow> bool" where
  "recorder_le r r' \<longleftrightarrow> generation_of r \<le> generation_of r' \<and> (closed_recorder r \<longrightarrow> r' = r)"

lemma normalize_instruments_sorted: "sorted_wrt (<) (normalize_instruments is)"
proof -
  have "sorted xs \<Longrightarrow> sorted_wrt (<) (remdups_adj (xs :: string list))" for xs
    by (induction xs rule: remdups_adj.induct) (auto simp: less_le)
  then show ?thesis by (simp add: normalize_instruments_def)
qed

lemma recorder_step_le: "recorder_le r (recorder_step T r a)"
  by (cases a) (auto simp: recorder_le_def recorder_defs Let_def sat_inc_le)

lemma recorder_step_ok: "recorder_ok r \<Longrightarrow> recorder_ok (recorder_step T r a)"
  by (cases a) (auto simp: recorder_ok_def recorder_defs Let_def normalize_instruments_sorted)

interpretation recorder: growing_machine "recorder_step T" recorder_ok recorder_le
proof
  fix r s t :: "'a recorder" and a
  show "recorder_ok r \<Longrightarrow> recorder_ok (recorder_step T r a)" by (rule recorder_step_ok)
  show "recorder_le r r" by (simp add: recorder_le_def)
  show "recorder_le r (recorder_step T r a)" by (rule recorder_step_le)
  show "recorder_le r s \<Longrightarrow> recorder_le s t \<Longrightarrow> recorder_le r t" by (auto simp: recorder_le_def)
qed

section \<open>Properties\<close>

definition sample_time :: "int time_lib" where
  "sample_time = \<lparr>tl_utc = (\<lambda>t. t), tl_plus_seconds = (\<lambda>t s. t + s), tl_unix = (\<lambda>t. t), tl_nanos = (\<lambda>_. 0)\<rparr>"

lemma recorder_default_ok: "recorder_ok recorder_default"
  by (simp add: recorder_ok_def recorder_default_def collector_default_def)

lemma recorder_run_le: "recorder_le r (run (recorder_step T) r ops)"
proof (induction ops arbitrary: r)
  case (Cons a ops)
  from recorder_step_le [of r T a] Cons [of "recorder_step T r a"] show ?case
    by (auto simp: recorder_le_def)
qed (simp add: recorder_le_def)

text \<open>An outdated generation is fenced off for good. Once any operation has moved a recorder on to
  another generation, no update that carries the earlier one is recorded, whatever happens later:
  it is answered with \<open>False\<close> and changes nothing.
\<close>

theorem stale_generation_is_fenced:
  assumes "generation_of (run (recorder_step T) r ops) \<noteq> generation_of r"
  shows "recorder_update T (generation_of r) u (run (recorder_step T) r (ops @ ops')) =
    (False, run (recorder_step T) r (ops @ ops'))"
proof -
  let ?r1 = "run (recorder_step T) r ops" and ?r2 = "run (recorder_step T) r (ops @ ops')"
  have "generation_of r < generation_of ?r1"
    using recorder_run_le [of r T ops] assms by (simp add: recorder_le_def order.strict_iff_order)
  also have "\<dots> \<le> generation_of ?r2"
    using recorder_run_le [of ?r1 T ops'] by (simp add: recorder_le_def)
  finally show ?thesis by (auto simp: recorder_update_def update_generation_def)
qed

theorem stale_generation_is_fenced_witness:
  "fst (recorder_update sample_time 0 Quote_Success
     (run (recorder_step sample_time) recorder_default ([R_Reconfigure] @ [R_Reset]))) = False"
  using stale_generation_is_fenced [of sample_time recorder_default "[R_Reconfigure]" Quote_Success "[R_Reset]"]
  by (simp add: recorder_default_def recorder_defs sat_inc_def)

text \<open>Closing is final, and what a reachable recorder reports is consistent: the active count is
  the number of distinct active instruments, listed in order; a closed recorder is not connected,
  and no operation changes it.
\<close>

theorem closed_recorder_is_final:
  "let r = run (recorder_step T) recorder_default ops
   in recorder_ok r \<and> (if closed_recorder r then run (recorder_step T) r ops' = r else True)"
  using recorder.run_inv [OF recorder_default_ok, of T ops]
    recorder_run_le [of "run (recorder_step T) recorder_default ops" T ops']
  by (simp add: Let_def recorder_le_def)

lemma retry_delay_bounds: "5 \<le> retry_delay n \<and> retry_delay n \<le> 30 \<and> retry_delay n \<le> retry_delay (Suc n)"
proof (cases "n < 3")
  case True
  then have "n = 0 \<or> n = 1 \<or> n = 2" by auto
  then show ?thesis by (auto simp: retry_delay_def)
qed (simp add: retry_delay_def min_def)

lemma quote_failures_run:
  assumes "\<not> closed_recorder r" and "generation_of r = g" and "co_quote_failures (rs_runtime r) + length fs < 2 ^ 64"
  shows "let r' = run (recorder_step T) r (map (\<lambda>(now, e). R_Update g (Quote_Failure now e)) fs)
    in \<not> closed_recorder r' \<and> generation_of r' = g \<and>
       co_quote_failures (rs_runtime r') = co_quote_failures (rs_runtime r) + length fs \<and>
       (fs \<noteq> [] \<longrightarrow> co_quote_retry_at (rs_runtime r') =
          Some (retry_at T (fst (last fs)) (co_quote_failures (rs_runtime r) + length fs - 1)))"
  using assms
proof (induction fs arbitrary: r)
  case (Cons f fs)
  obtain now e where f: "f = (now, e)" by fastforce
  let ?r1 = "recorder_step T r (R_Update g (Quote_Failure now e))"
  have r1: "\<not> closed_recorder ?r1" "generation_of ?r1 = g"
    "co_quote_failures (rs_runtime ?r1) = Suc (co_quote_failures (rs_runtime r))"
    "co_quote_retry_at (rs_runtime ?r1) = Some (retry_at T now (co_quote_failures (rs_runtime r)))"
    using Cons.prems by (simp_all add: recorder_update_def update_generation_def sat_inc_usize_def)
  with Cons.IH [of ?r1] Cons.prems(3) show ?case
    by (cases fs) (simp_all add: f Let_def del: recorder_step.simps)
qed simp

text \<open>A failing quote source is retried, later each time but never more than half a minute later.
  After \<open>n\<close> failures in a row, recorded in the current generation of an open recorder, the count
  has grown by \<open>n\<close> and the next try is between 5 and 30 seconds after the last failure, the delay
  growing with the count; one success clears the failures and the retry time.
\<close>

theorem retry_backoff:
  assumes "\<not> closed_recorder r" and "fs \<noteq> []" and "co_quote_failures (rs_runtime r) + length fs < 2 ^ 64"
  shows "let g = generation_of r; n = co_quote_failures (rs_runtime r) + length fs;
             r' = run (recorder_step T) r (map (\<lambda>(now, e). R_Update g (Quote_Failure now e)) fs);
             delay = retry_delay (n - 1)
    in co_quote_failures (rs_runtime r') = n \<and>
       co_quote_retry_at (rs_runtime r') = Some (tl_plus_seconds T (tl_utc T (fst (last fs))) delay) \<and>
       5 \<le> delay \<and> delay \<le> 30 \<and> delay \<le> retry_delay n \<and>
       (let r'' = recorder_step T r' (R_Update g Quote_Success)
        in co_quote_failures (rs_runtime r'') = 0 \<and> co_quote_retry_at (rs_runtime r'') = None)"
proof -
  let ?n = "co_quote_failures (rs_runtime r) + length fs"
  have "Suc (?n - 1) = ?n" using assms(2) by (cases fs) simp_all
  then have "retry_delay (?n - 1) \<le> retry_delay ?n" using retry_delay_bounds [of "?n - 1"] by simp
  with quote_failures_run [OF assms(1) refl assms(3), of T] assms(2) retry_delay_bounds [of "?n - 1"]
  show ?thesis by (simp add: Let_def retry_at_def recorder_update_def update_generation_def)
qed

theorem retry_backoff_witness:
  "co_quote_retry_at (rs_runtime (run (recorder_step sample_time) recorder_default
     (map (\<lambda>(now, e). R_Update 0 (Quote_Failure now e)) [(100, ''down''), (106, ''down''), (120, ''down'')]))) = Some 140"
  using retry_backoff [of recorder_default "[(100, ''down''), (106, ''down''), (120, ''down'')]" sample_time]
  by (simp add: recorder_default_def collector_default_def Let_def sample_time_def retry_delay_def)

end
