(* ===== verification/Market_Router.thy ===== *)
theory Market_Router
  imports Market_Demand Market_Runtime
begin

text \<open>
  \<open>crates/jftrade-marketdata/src/router.rs\<close>: the router composes the providers, the demand book, the
  tick cache and the runtime recorder. The recorder is shared through handles, so the machine of
  the router has the updates and reconfigurations of a provider task as operations of their own.
\<close>

section \<open>State\<close>

datatype activation_mode = Explicit | StartupRestore

record provider_runtime =
  pv_active_provider :: string
  pv_generation :: u64
  pv_readiness :: provider_readiness
  pv_connected :: bool
  pv_active_demand :: nat

record provider_slot =
  sl_descriptor :: provider_descriptor
  sl_health :: health_status

record ('d, 't) provider_router =
  pr_providers :: "(string, provider_slot) bmap"
  pr_active :: string
  pr_generation :: u64
  pr_demand :: demand_book
  pr_cache :: "'d tick_cache"
  pr_recorder :: "'t recorder"

definition router_new :: "nat \<Rightarrow> ('d, 't) provider_router" where
  "router_new cache_capacity =
     \<lparr>pr_providers = [], pr_active = [], pr_generation = 0, pr_demand = demand_default,
      pr_cache = cache_new cache_capacity, pr_recorder = recorder_default\<rparr>"

section \<open>Providers\<close>

definition router_register :: "('d, 't) provider_router \<Rightarrow> provider_descriptor \<Rightarrow> health_status \<Rightarrow>
    (market_data_error + unit) \<times> ('d, 't) provider_router" where
  "router_register r d h =
     (case descriptor_validate d of
        Inl e \<Rightarrow> (Inl e, r)
      | Inr _ \<Rightarrow> (Inr (), r\<lparr>pr_providers := bm_insert (pd_selection_id d) \<lparr>sl_descriptor = d, sl_health = h\<rparr> (pr_providers r)\<rparr>))"

definition set_stream_state :: "'t time_lib \<Rightarrow> u64 \<Rightarrow> bool \<Rightarrow> string option \<Rightarrow> 't recorder \<Rightarrow> 't recorder" where
  "set_stream_state T generation up error rec = snd (recorder_update T generation (Stream_State up error) rec)"

definition router_deactivate :: "'t time_lib \<Rightarrow> ('d, 't) provider_router \<Rightarrow> string \<Rightarrow>
    (market_data_error + unit) \<times> ('d, 't) provider_router" where
  "router_deactivate T r pid =
     (if has_managed_consumers (pr_demand r) then (Inl ManagedSubscriptionsActive, r)
      else if bm_get (pr_providers r) pid = None then (Inl (ProviderNotFound pid), r)
      else if pr_active r = pid then
        (let rec = recorder_reconfigure (pr_recorder r)
         in (Inr (), r\<lparr>pr_active := [], pr_cache := cache_clear (pr_cache r),
                       pr_recorder := set_stream_state T (generation_of rec) False None rec\<rparr>))
      else (Inr (), r))"

text \<open>What the router tells the recorder of the health of the active provider.\<close>

definition report_health :: "'t time_lib \<Rightarrow> health_status \<Rightarrow> 't recorder \<Rightarrow> 't recorder" where
  "report_health T h rec =
     (let active_count = co_active_count (rs_runtime rec)
      in set_stream_state T (generation_of rec) (hs_connected h \<and> 0 < active_count)
           (if 0 < active_count then hs_last_error h else None) rec)"

definition router_update_health :: "'t time_lib \<Rightarrow> ('d, 't) provider_router \<Rightarrow> string \<Rightarrow> health_status \<Rightarrow>
    (market_data_error + unit) \<times> ('d, 't) provider_router" where
  "router_update_health T r pid h =
     (case bm_get (pr_providers r) pid of
        None \<Rightarrow> (Inl (ProviderNotFound pid), r)
      | Some slot \<Rightarrow>
          let r1 = r\<lparr>pr_providers := bm_insert pid (slot\<lparr>sl_health := h\<rparr>) (pr_providers r)\<rparr>
          in (Inr (), if pid = pr_active r then r1\<lparr>pr_recorder := report_health T h (pr_recorder r)\<rparr> else r1))"

definition router_runtime :: "('d, 't) provider_router \<Rightarrow> provider_runtime" where
  "router_runtime r =
     (let health = map_option sl_health (bm_get (pr_providers r) (pr_active r))
      in \<lparr>pv_active_provider = pr_active r, pv_generation = pr_generation r,
          pv_readiness = (case health of None \<Rightarrow> Readiness_Unknown | Some h \<Rightarrow> hs_readiness h),
          pv_connected = is_some_and health hs_connected,
          pv_active_demand = ds_logical_count (demand_snapshot_of (pr_demand r))\<rparr>)"

definition warming_restore :: "activation_mode \<Rightarrow> health_status \<Rightarrow> bool" where
  "warming_restore mode h \<longleftrightarrow> mode = StartupRestore \<and> hs_readiness h = Warming \<and> hs_last_error h = None"

definition switch_provider :: "'t time_lib \<Rightarrow> health_status \<Rightarrow> string \<Rightarrow> ('d, 't) provider_router \<Rightarrow> ('d, 't) provider_router" where
  "switch_provider T h pid r =
     r\<lparr>pr_cache := cache_clear (pr_cache r), pr_generation := sat_inc (pr_generation r), pr_active := pid,
       pr_recorder := report_health T h (recorder_reconfigure (pr_recorder r))\<rparr>"

definition router_activate :: "'t time_lib \<Rightarrow> ('d, 't) provider_router \<Rightarrow> string \<Rightarrow> activation_mode \<Rightarrow>
    (market_data_error + provider_runtime) \<times> ('d, 't) provider_router" where
  "router_activate T r pid mode =
     (if has_managed_consumers (pr_demand r) \<and> pr_active r \<noteq> pid then (Inl ManagedSubscriptionsActive, r)
      else case bm_get (pr_providers r) pid of
             None \<Rightarrow> (Inl (ProviderNotFound pid), r)
           | Some slot \<Rightarrow>
               let h = sl_health slot
               in if \<not> is_ready h \<and> \<not> warming_restore mode h
                  then (Inl (ProviderUnavailable pid
                          (case hs_last_error h of Some e \<Rightarrow> e | None \<Rightarrow> ''readiness is '' @ readiness_debug (hs_readiness h))), r)
                  else
                    let r1 = (if pr_active r \<noteq> pid then switch_provider T h pid r else r)
                    in (Inr (router_runtime r1), r1))"

definition require_streaming :: "('d, 't) provider_router \<Rightarrow> market_data_error + unit" where
  "require_streaming r =
     (case bm_get (pr_providers r) (pr_active r) of
        None \<Rightarrow> Inl (ProviderNotFound (pr_active r))
      | Some slot \<Rightarrow>
          if pc_streaming_quotes (pd_capabilities (sl_descriptor slot)) then Inr ()
          else Inl (StreamingUnavailable (pr_active r)))"

section \<open>Demand\<close>

definition sync_runtime_demand :: "demand_snapshot \<Rightarrow> ('d, 't) provider_router \<Rightarrow> ('d, 't) provider_router" where
  "sync_runtime_demand snap r =
     r\<lparr>pr_recorder := recorder_reconcile (pr_recorder r) (map instrument_id (ds_active snap))\<rparr>"

text \<open>The result of an operation of the book, which is synchronised when it succeeded.\<close>

definition demand_result :: "('d, 't) provider_router \<Rightarrow> (market_data_error + demand_snapshot) \<times> demand_book \<Rightarrow>
    (market_data_error + demand_snapshot) \<times> ('d, 't) provider_router" where
  "demand_result r res =
     (let r1 = r\<lparr>pr_demand := snd res\<rparr>
      in case fst res of Inl e \<Rightarrow> (Inl e, r1) | Inr snap \<Rightarrow> (Inr snap, sync_runtime_demand snap r1))"

definition released_result :: "('d, 't) provider_router \<Rightarrow> (bool \<times> demand_snapshot) \<times> demand_book \<Rightarrow>
    (bool \<times> demand_snapshot) \<times> ('d, 't) provider_router" where
  "released_result r res =
     (let ((released, snap), b) = res; r1 = r\<lparr>pr_demand := b\<rparr>
      in ((released, snap), if released then sync_runtime_demand snap r1 else r1))"

definition acquire_demand :: "('d, 't) provider_router \<Rightarrow> string \<Rightarrow> instrument_ref list \<Rightarrow> bool \<Rightarrow> i64 \<Rightarrow>
    (market_data_error + demand_snapshot) \<times> ('d, 't) provider_router" where
  "acquire_demand r cid refs managed now =
     (case (if managed then require_streaming r else Inr ()) of
        Inl e \<Rightarrow> (Inl e, r)
      | Inr _ \<Rightarrow> demand_result r (demand_acquire (pr_demand r) cid refs managed now))"

definition replace_demand :: "('d, 't) provider_router \<Rightarrow> string \<Rightarrow> instrument_ref list \<Rightarrow> bool \<Rightarrow> i64 \<Rightarrow>
    (market_data_error + demand_snapshot) \<times> ('d, 't) provider_router" where
  "replace_demand r cid refs managed now =
     (case (if managed then require_streaming r else Inr ()) of
        Inl e \<Rightarrow> (Inl e, r)
      | Inr _ \<Rightarrow> demand_result r (demand_replace (pr_demand r) cid refs managed now))"

definition release_demand_instrument :: "('d, 't) provider_router \<Rightarrow> string \<Rightarrow> instrument_ref \<Rightarrow> i64 \<Rightarrow>
    (bool \<times> demand_snapshot) \<times> ('d, 't) provider_router" where
  "release_demand_instrument r cid target now =
     released_result r (demand_release_instrument (pr_demand r) cid target now)"

definition release_demand_consumer_with_time :: "('d, 't) provider_router \<Rightarrow> string \<Rightarrow> i64 \<Rightarrow>
    (bool \<times> demand_snapshot) \<times> ('d, 't) provider_router" where
  "release_demand_consumer_with_time r cid now =
     released_result r (demand_release_consumer_with_time (pr_demand r) cid now)"

definition release_demand_consumer :: "('d, 't) provider_router \<Rightarrow> string \<Rightarrow> (bool \<times> demand_snapshot) \<times> ('d, 't) provider_router" where
  "release_demand_consumer r cid = released_result r (demand_release_consumer (pr_demand r) cid)"

definition release_demand :: "('d, 't) provider_router \<Rightarrow> string \<Rightarrow> bool \<times> ('d, 't) provider_router" where
  "release_demand r cid = map_prod fst id (release_demand_consumer r cid)"

definition clear_demand :: "('d, 't) provider_router \<Rightarrow> string option \<Rightarrow> i64 \<Rightarrow> demand_snapshot \<times> ('d, 't) provider_router" where
  "clear_demand r cid now =
     (let (snap, b) = demand_clear (pr_demand r) cid now in (snap, sync_runtime_demand snap (r\<lparr>pr_demand := b\<rparr>)))"

definition heartbeat_demand :: "('d, 't) provider_router \<Rightarrow> string \<Rightarrow> i64 \<Rightarrow> (bool \<times> demand_snapshot) \<times> ('d, 't) provider_router" where
  "heartbeat_demand r cid now =
     (let (res, b) = demand_heartbeat (pr_demand r) cid now in (res, r\<lparr>pr_demand := b\<rparr>))"

definition expire_demand :: "('d, 't) provider_router \<Rightarrow> i64 \<Rightarrow> i64 \<Rightarrow> string list \<times> ('d, 't) provider_router" where
  "expire_demand r now ttl =
     (let (expired, b) = demand_expire (pr_demand r) now ttl; r1 = r\<lparr>pr_demand := b\<rparr>
      in (expired, if expired \<noteq> [] then sync_runtime_demand (demand_snapshot_of b) r1 else r1))"

section \<open>The router as a machine\<close>

datatype 't task_update = Task_Update u64 "'t recorder_update" | Task_Reconfigure

fun task_op :: "'t task_update \<Rightarrow> 't recorder_op" where
  "task_op (Task_Update g u) = R_Update g u"
| "task_op Task_Reconfigure = R_Reconfigure"

datatype ('d, 't) router_op =
    Rt_Register provider_descriptor health_status
  | Rt_Deactivate string
  | Rt_Health string health_status
  | Rt_Activate string activation_mode
  | Rt_Demand demand_op
  | Rt_Task "'t task_update" \<comment> \<open>through \<open>runtime_recorder()\<close>\<close>
  | Rt_Cache "'d cache_op" \<comment> \<open>through \<open>cache_handle()\<close>\<close>

fun router_demand :: "('d, 't) provider_router \<Rightarrow> demand_op \<Rightarrow> ('d, 't) provider_router" where
  "router_demand r (D_Acquire cid refs managed now) = snd (acquire_demand r cid refs managed now)"
| "router_demand r (D_Replace cid refs managed now) = snd (replace_demand r cid refs managed now)"
| "router_demand r (D_Heartbeat cid now) = snd (heartbeat_demand r cid now)"
| "router_demand r (D_Release_Instrument cid ref now) = snd (release_demand_instrument r cid ref now)"
| "router_demand r (D_Release_At cid now) = snd (release_demand_consumer_with_time r cid now)"
| "router_demand r (D_Release cid) = snd (release_demand r cid)"
| "router_demand r (D_Clear cid now) = snd (clear_demand r cid now)"
| "router_demand r (D_Expire now ttl) = snd (expire_demand r now ttl)"

fun router_step :: "'t time_lib \<Rightarrow> ('d, 't) provider_router \<Rightarrow> ('d, 't) router_op \<Rightarrow> ('d, 't) provider_router" where
  "router_step T r (Rt_Register d h) = snd (router_register r d h)"
| "router_step T r (Rt_Deactivate pid) = snd (router_deactivate T r pid)"
| "router_step T r (Rt_Health pid h) = snd (router_update_health T r pid h)"
| "router_step T r (Rt_Activate pid mode) = snd (router_activate T r pid mode)"
| "router_step T r (Rt_Demand a) = router_demand r a"
| "router_step T r (Rt_Task u) = r\<lparr>pr_recorder := recorder_step T (pr_recorder r) (task_op u)\<rparr>"
| "router_step T r (Rt_Cache a) = r\<lparr>pr_cache := cache_step (pr_cache r) a\<rparr>"

section \<open>What a demand operation does to the router\<close>

lemma acquire_answer:
  "demand_acquire b cid refs managed now = (Inr snap, b') \<Longrightarrow> snap = demand_snapshot_of b'"
  "demand_acquire b cid refs managed now = (Inl e, b') \<Longrightarrow> db_consumers b' = db_consumers b"
  by (auto simp: demand_acquire_def Let_def split: prod.splits sum.splits if_splits)

lemma release_at_answer:
  "demand_release_consumer_with_time b cid now = ((True, snap), b') \<Longrightarrow> snap = demand_snapshot_of b'"
  "demand_release_consumer_with_time b cid now = ((False, snap), b') \<Longrightarrow> b' = b \<and> snap = demand_snapshot_of b"
  by (auto simp: demand_release_consumer_with_time_def Let_def split: option.splits)

lemma release_answer:
  "demand_release_consumer b cid = ((True, snap), b') \<Longrightarrow> snap = demand_snapshot_of b'"
  "demand_release_consumer b cid = ((False, snap), b') \<Longrightarrow> b' = b \<and> snap = demand_snapshot_of b"
  using release_at_answer by (auto simp: demand_release_consumer_def Let_def)

lemma replace_answer:
  "demand_replace b cid refs managed now = (Inr snap, b') \<Longrightarrow> snap = demand_snapshot_of b'"
  "demand_replace b cid refs managed now = (Inl e, b') \<Longrightarrow> b' = b"
  using release_answer
  by (auto simp: demand_replace_def Let_def map_prod_def split: prod.splits sum.splits if_splits)
    (metis (full_types) release_answer)+

lemma release_instrument_answer:
  assumes "book_ok b"
  shows "demand_release_instrument b cid target now = ((True, snap), b') \<Longrightarrow> snap = demand_snapshot_of b'"
    and "demand_release_instrument b cid target now = ((False, snap), b') \<Longrightarrow> b' = b"
proof -
  show "demand_release_instrument b cid target now = ((True, snap), b') \<Longrightarrow> snap = demand_snapshot_of b'"
    by (auto simp: demand_release_instrument_def Let_def split: sum.splits option.splits)
  have "drop_ref k n now c (db_consumers b) = db_consumers b"
    if "bm_get (db_consumers b) k = Some c" and "n \<notin> set (cd_refs c)" for k n c
    using assms that by (auto simp: book_ok_def consumers_ok_def refs_ok_def drop_ref_def remove1_idem Let_def)
  then show "demand_release_instrument b cid target now = ((False, snap), b') \<Longrightarrow> b' = b"
    by (auto simp: demand_release_instrument_def Let_def split: sum.splits option.splits if_splits)
qed

lemma clear_answer: "demand_clear b cid now = (snap, b') \<Longrightarrow> snap = demand_snapshot_of b'"
  by (auto simp: demand_clear_def Let_def)

lemma heartbeat_held:
  assumes "demand_heartbeat b cid now = (res, b')"
  shows "held (db_consumers b') = held (db_consumers b)"
proof (cases "bm_get (db_consumers b) (trim cid)")
  case None
  with assms show ?thesis by (simp add: demand_heartbeat_def Let_def)
next
  case (Some c)
  have "held (bm_insert (trim cid) (c\<lparr>cd_heartbeat_ms := now, cd_updated_at_ms := now\<rparr>) (db_consumers b)) = held (db_consumers b)"
    by (rule held_insert_same [OF Some]) simp
  moreover have "db_consumers b' = bm_insert (trim cid) (c\<lparr>cd_heartbeat_ms := now, cd_updated_at_ms := now\<rparr>) (db_consumers b)"
    using assms Some by (auto simp add: demand_heartbeat_def Let_def)
  ultimately show ?thesis by simp
qed

lemma expire_nothing:
  assumes "demand_expire b now ttl = ([], b')"
  shows "db_consumers b' = db_consumers b"
proof (cases "ttl < 0")
  case True
  with assms show ?thesis by (simp add: demand_expire_def)
next
  case False
  with assms have "filter (\<lambda>(_, c). \<not> lease_kept now ttl c) (db_consumers b) = []"
    by (auto simp: demand_expire_def Let_def)
  moreover from this have "filter (\<lambda>(_, c). lease_kept now ttl c) (db_consumers b) = db_consumers b"
    by (auto simp: filter_empty_conv filter_id_conv)
  ultimately show ?thesis using assms False by (auto simp: demand_expire_def Let_def)
qed

text \<open>Either the recorder is synchronised with the book as it is now, or the held references are as before.\<close>

definition synchronised :: "('d, 't) provider_router \<Rightarrow> demand_book \<Rightarrow> ('d, 't) provider_router \<Rightarrow> bool" where
  "synchronised r b r' \<longleftrightarrow>
     r' = sync_runtime_demand (demand_snapshot_of b) (r\<lparr>pr_demand := b\<rparr>) \<or>
     r' = r\<lparr>pr_demand := b\<rparr> \<and> held (db_consumers b) = held (db_consumers (pr_demand r))"

lemma demand_result_synchronised:
  assumes "\<And>snap b'. res = (Inr snap, b') \<Longrightarrow> snap = demand_snapshot_of b'"
    and "\<And>e b'. res = (Inl e, b') \<Longrightarrow> db_consumers b' = db_consumers (pr_demand r)"
  shows "synchronised r (snd res) (snd (demand_result r res))"
proof -
  obtain x b' where res: "res = (x, b')" by fastforce
  show ?thesis
  proof (cases x)
    case (Inl e)
    with assms(2) [of e b'] res show ?thesis by (simp add: demand_result_def synchronised_def)
  next
    case (Inr snap)
    with assms(1) [of snap b'] res show ?thesis by (simp add: demand_result_def synchronised_def)
  qed
qed

lemma released_result_synchronised:
  assumes "\<And>snap b'. res = ((True, snap), b') \<Longrightarrow> snap = demand_snapshot_of b'"
    and "\<And>snap b'. res = ((False, snap), b') \<Longrightarrow> b' = pr_demand r"
  shows "synchronised r (snd res) (snd (released_result r res))"
proof -
  obtain released snap b' where res: "res = ((released, snap), b')" by (cases res) fastforce
  show ?thesis
  proof (cases released)
    case True
    with assms(1) [of snap b'] res show ?thesis by (simp add: released_result_def synchronised_def)
  next
    case False
    with assms(2) [of snap b'] res show ?thesis by (simp add: released_result_def synchronised_def)
  qed
qed

lemma unchanged_synchronised [simp]: "synchronised r (pr_demand r) r"
  by (simp add: synchronised_def)

lemma router_demand_step:
  assumes "book_ok (pr_demand r)"
  shows "synchronised r (demand_step (pr_demand r) a) (router_demand r a) \<or> router_demand r a = r"
proof (cases a)
  case (D_Acquire cid refs managed now)
  have "synchronised r (demand_step (pr_demand r) a) (snd (demand_result r (demand_acquire (pr_demand r) cid refs managed now)))"
    unfolding D_Acquire demand_step.simps by (rule demand_result_synchronised) (blast dest: acquire_answer)+
  then show ?thesis by (auto simp: D_Acquire acquire_demand_def split: sum.splits)
next
  case (D_Replace cid refs managed now)
  have "synchronised r (demand_step (pr_demand r) a) (snd (demand_result r (demand_replace (pr_demand r) cid refs managed now)))"
    unfolding D_Replace demand_step.simps by (rule demand_result_synchronised) (blast dest: replace_answer)+
  then show ?thesis by (auto simp: D_Replace replace_demand_def split: sum.splits)
next
  case (D_Heartbeat cid now)
  then show ?thesis
    using heartbeat_held [of "pr_demand r" cid now]
    by (auto simp: heartbeat_demand_def synchronised_def Let_def split: prod.splits)
next
  case (D_Release_Instrument cid ref now)
  then show ?thesis
    unfolding D_Release_Instrument demand_step.simps router_demand.simps release_demand_instrument_def
    by (intro disjI1 released_result_synchronised) (blast dest: release_instrument_answer [OF assms])+
next
  case (D_Release_At cid now)
  then show ?thesis
    unfolding D_Release_At demand_step.simps router_demand.simps release_demand_consumer_with_time_def
    by (intro disjI1 released_result_synchronised) (blast dest: release_at_answer)+
next
  case (D_Release cid)
  have "synchronised r (snd (demand_release_consumer (pr_demand r) cid)) (snd (released_result r (demand_release_consumer (pr_demand r) cid)))"
    by (rule released_result_synchronised) (blast dest: release_answer)+
  then show ?thesis by (simp add: D_Release release_demand_def release_demand_consumer_def demand_release_def)
next
  case (D_Clear cid now)
  then show ?thesis
    by (auto simp: clear_demand_def synchronised_def Let_def split: prod.splits dest: clear_answer)
next
  case (D_Expire now ttl)
  then show ?thesis
    by (auto simp: expire_demand_def synchronised_def Let_def split: prod.splits dest: expire_nothing)
qed

section \<open>The invariant of the router\<close>

definition instruments_of :: "demand_book \<Rightarrow> string list" where
  "instruments_of b = normalize_instruments (map instrument_id (active_refs (db_consumers b)))"

definition router_ok :: "('d, 't) provider_router \<Rightarrow> bool" where
  "router_ok r \<longleftrightarrow> book_ok (pr_demand r) \<and> recorder_ok (pr_recorder r) \<and> \<not> closed_recorder (pr_recorder r) \<and>
     rs_active_instruments (pr_recorder r) = instruments_of (pr_demand r) \<and>
     (pr_active r = [] \<or> bm_get (pr_providers r) (pr_active r) \<noteq> None) \<and>
     (\<forall>pid slot. bm_get (pr_providers r) pid = Some slot \<longrightarrow>
        pd_selection_id (sl_descriptor slot) = pid \<and> descriptor_validate (sl_descriptor slot) = Inr ())"

lemma stream_state_step: "set_stream_state T g up e rec = recorder_step T rec (R_Update g (Stream_State up e))"
  by (simp add: set_stream_state_def)

lemma report_health_step: "\<exists>up e. report_health T h rec = recorder_step T rec (R_Update (generation_of rec) (Stream_State up e))"
  by (auto simp: report_health_def stream_state_step Let_def simp del: recorder_step.simps)

text \<open>The router touches the recorder only through its operations, and never closes it.\<close>

definition quiet :: "'t recorder_op \<Rightarrow> bool" where
  "quiet a \<longleftrightarrow> (case a of R_Update _ _ \<Rightarrow> True | R_Reconfigure \<Rightarrow> True | _ \<Rightarrow> False)"

lemma quiet_run:
  assumes "list_all quiet ops"
  shows "rs_active_instruments (run (recorder_step T) rec ops) = rs_active_instruments rec \<and>
    closed_recorder (run (recorder_step T) rec ops) = closed_recorder rec"
  using assms
proof (induction ops arbitrary: rec)
  case (Cons a ops)
  have "rs_active_instruments (recorder_step T rec a) = rs_active_instruments rec \<and>
      closed_recorder (recorder_step T rec a) = closed_recorder rec"
    using Cons.prems by (cases a) (auto simp: quiet_def recorder_defs)
  with Cons show ?case by simp
qed simp

lemma quiet_report: "\<exists>ops. list_all quiet ops \<and> report_health T h rec = run (recorder_step T) rec ops"
proof -
  obtain up e where "report_health T h rec = recorder_step T rec (R_Update (generation_of rec) (Stream_State up e))"
    using report_health_step by blast
  then show ?thesis by (intro exI [of _ "[R_Update (generation_of rec) (Stream_State up e)]"]) (simp add: quiet_def)
qed

lemma quiet_reconfigure: "recorder_reconfigure rec = run (recorder_step T) rec [R_Reconfigure]"
  by simp

lemma activate_cases:
  "snd (router_activate T r pid mode) = r \<or>
   (\<exists>slot. bm_get (pr_providers r) pid = Some slot \<and> \<not> has_managed_consumers (pr_demand r) \<and> pr_active r \<noteq> pid \<and>
      (is_ready (sl_health slot) \<or> warming_restore mode (sl_health slot)) \<and>
      router_activate T r pid mode =
        (Inr (router_runtime (switch_provider T (sl_health slot) pid r)), switch_provider T (sl_health slot) pid r))"
proof (cases "bm_get (pr_providers r) pid")
  case (Some slot)
  then show ?thesis by (auto simp: router_activate_def Let_def)
qed (simp add: router_activate_def)

lemma recorder_of_step:
  assumes "book_ok (pr_demand r)"
  shows "\<exists>ops. pr_recorder (router_step T r a) = run (recorder_step T) (pr_recorder r) ops \<and>
    (list_all quiet ops \<and> held (db_consumers (pr_demand (router_step T r a))) = held (db_consumers (pr_demand r)) \<or>
     ops = [R_Reconcile (map instrument_id (active_refs (db_consumers (pr_demand (router_step T r a)))))])"
proof (cases a)
  case (Rt_Register d h)
  then show ?thesis by (intro exI [of _ "[]"]) (auto simp: router_register_def split: sum.split)
next
  case (Rt_Deactivate pid)
  let ?rec = "recorder_reconfigure (pr_recorder r)"
  show ?thesis
  proof (cases "snd (router_deactivate T r pid) = r")
    case True
    with Rt_Deactivate show ?thesis by (intro exI [of _ "[]"]) simp
  next
    case False
    then show ?thesis
      using Rt_Deactivate
      by (intro exI [of _ "[R_Reconfigure, R_Update (generation_of ?rec) (Stream_State False None)]"])
        (auto simp: router_deactivate_def set_stream_state_def quiet_def Let_def split: if_splits)
  qed
next
  case (Rt_Health pid h)
  obtain ops where "list_all quiet ops" "report_health T h (pr_recorder r) = run (recorder_step T) (pr_recorder r) ops"
    using quiet_report by blast
  with Rt_Health show ?thesis
    by (cases "bm_get (pr_providers r) pid = None \<or> pid \<noteq> pr_active r")
      (auto simp: router_update_health_def Let_def intro: exI [of _ "[]"] split: option.splits)
next
  case (Rt_Activate pid mode)
  from activate_cases [of T r pid mode] show ?thesis
  proof (elim disjE exE)
    assume "snd (router_activate T r pid mode) = r"
    with Rt_Activate show ?thesis by (intro exI [of _ "[]"]) simp
  next
    fix slot
    assume "bm_get (pr_providers r) pid = Some slot \<and> \<not> has_managed_consumers (pr_demand r) \<and> pr_active r \<noteq> pid \<and>
      (is_ready (sl_health slot) \<or> warming_restore mode (sl_health slot)) \<and>
      router_activate T r pid mode =
        (Inr (router_runtime (switch_provider T (sl_health slot) pid r)), switch_provider T (sl_health slot) pid r)"
    then have snd: "snd (router_activate T r pid mode) = switch_provider T (sl_health slot) pid r" by simp
    obtain ops where "list_all quiet ops"
      "report_health T (sl_health slot) (recorder_reconfigure (pr_recorder r)) =
       run (recorder_step T) (recorder_reconfigure (pr_recorder r)) ops"
      using quiet_report by blast
    with snd Rt_Activate show ?thesis
      by (intro exI [of _ "R_Reconfigure # ops"]) (simp add: quiet_def switch_provider_def)
  qed
next
  case (Rt_Demand d)
  from router_demand_step [OF assms, of d] show ?thesis
  proof
    assume "synchronised r (demand_step (pr_demand r) d) (router_demand r d)"
    then show ?thesis
      unfolding synchronised_def
    proof
      assume "router_demand r d = sync_runtime_demand (demand_snapshot_of (demand_step (pr_demand r) d))
        (r\<lparr>pr_demand := demand_step (pr_demand r) d\<rparr>)"
      then show ?thesis
        using Rt_Demand
        by (intro exI [of _ "[R_Reconcile (map instrument_id (active_refs (db_consumers (demand_step (pr_demand r) d))))]"])
          (simp add: sync_runtime_demand_def demand_snapshot_of_def Let_def)
    next
      assume "router_demand r d = r\<lparr>pr_demand := demand_step (pr_demand r) d\<rparr> \<and>
        held (db_consumers (demand_step (pr_demand r) d)) = held (db_consumers (pr_demand r))"
      then show ?thesis using Rt_Demand by (intro exI [of _ "[]"]) simp
    qed
  next
    assume "router_demand r d = r"
    then show ?thesis using Rt_Demand by (intro exI [of _ "[]"]) simp
  qed
next
  case (Rt_Task u)
  then show ?thesis by (intro exI [of _ "[task_op u]"]) (cases u, simp_all add: quiet_def)
next
  case (Rt_Cache c)
  then show ?thesis by (intro exI [of _ "[]"]) simp
qed

lemma active_refs_cong:
  assumes "bm_ok cs" and "bm_ok cs'" and "held cs = held cs'"
  shows "active_refs cs = active_refs cs'"
  by (rule strict_sorted_equal) (simp_all add: sorted_active set_active_refs assms)

lemma router_demand_frame:
  assumes "book_ok (pr_demand r)"
  shows "pr_providers (router_demand r d) = pr_providers r" "pr_active (router_demand r d) = pr_active r"
    "pr_generation (router_demand r d) = pr_generation r" "pr_cache (router_demand r d) = pr_cache r"
  using router_demand_step [OF assms, of d] by (auto simp: synchronised_def sync_runtime_demand_def)

lemma switch_provider_simps [simp]:
  "pr_demand (switch_provider T h pid r) = pr_demand r" "pr_providers (switch_provider T h pid r) = pr_providers r"
  "pr_active (switch_provider T h pid r) = pid" "pr_generation (switch_provider T h pid r) = sat_inc (pr_generation r)"
  "pr_cache (switch_provider T h pid r) = cache_clear (pr_cache r)"
  "pr_recorder (switch_provider T h pid r) = report_health T h (recorder_reconfigure (pr_recorder r))"
  by (simp_all add: switch_provider_def)

lemma activate_frame:
  "pr_demand (snd (router_activate T r pid mode)) = pr_demand r"
  "pr_providers (snd (router_activate T r pid mode)) = pr_providers r"
  using activate_cases [of T r pid mode] by (elim disjE exE; simp)+

lemma demand_of_step:
  assumes "book_ok (pr_demand r)"
  shows "pr_demand (router_step T r a) = pr_demand r \<or> (\<exists>d. a = Rt_Demand d \<and> pr_demand (router_step T r a) = demand_step (pr_demand r) d)"
proof (cases a)
  case (Rt_Demand d)
  with router_demand_step [OF assms, of d] show ?thesis by (auto simp: synchronised_def sync_runtime_demand_def)
qed (auto simp: router_register_def router_deactivate_def router_update_health_def activate_frame Let_def
    split: sum.splits option.splits)

definition providers_ok :: "('d, 't) provider_router \<Rightarrow> bool" where
  "providers_ok r \<longleftrightarrow> (pr_active r = [] \<or> bm_get (pr_providers r) (pr_active r) \<noteq> None) \<and>
     (\<forall>pid slot. bm_get (pr_providers r) pid = Some slot \<longrightarrow>
        pd_selection_id (sl_descriptor slot) = pid \<and> descriptor_validate (sl_descriptor slot) = Inr ())"

lemma activate_providers_ok: "providers_ok r \<Longrightarrow> providers_ok (snd (router_activate T r pid mode))"
  using activate_cases [of T r pid mode] by (elim disjE exE) (auto simp: providers_ok_def)

lemma providers_ok_step:
  assumes "book_ok (pr_demand r)" and "providers_ok r"
  shows "providers_ok (router_step T r a)"
proof (cases a)
  case (Rt_Demand d)
  with assms show ?thesis by (simp add: providers_ok_def router_demand_frame)
next
  case (Rt_Register d h)
  show ?thesis
  proof (cases "descriptor_validate d")
    case (Inl e)
    with assms Rt_Register show ?thesis by (simp add: router_register_def)
  next
    case (Inr u)
    with assms Rt_Register show ?thesis by (auto simp: router_register_def providers_ok_def)
  qed
next
  case (Rt_Deactivate pid)
  with assms show ?thesis by (auto simp: router_deactivate_def providers_ok_def Let_def)
next
  case (Rt_Health pid h)
  with assms show ?thesis
    by (cases "bm_get (pr_providers r) pid") (auto simp: router_update_health_def providers_ok_def Let_def)
next
  case (Rt_Activate pid mode)
  with assms show ?thesis by (simp add: activate_providers_ok)
qed (use assms in \<open>simp_all add: providers_ok_def\<close>)

lemma router_ok_alt:
  "router_ok r \<longleftrightarrow> book_ok (pr_demand r) \<and> recorder_ok (pr_recorder r) \<and> \<not> closed_recorder (pr_recorder r) \<and>
     rs_active_instruments (pr_recorder r) = instruments_of (pr_demand r) \<and> providers_ok r"
  by (auto simp: router_ok_def providers_ok_def)

lemma book_of_step:
  assumes "book_ok (pr_demand r)"
  shows "book_ok (pr_demand (router_step T r a))"
  using demand_of_step [OF assms, of T a] assms demand_step_ok(1) [OF assms] by auto

lemma router_step_ok:
  assumes "router_ok r"
  shows "router_ok (router_step T r a)"
proof -
  from assms have ok: "book_ok (pr_demand r)" "recorder_ok (pr_recorder r)" "\<not> closed_recorder (pr_recorder r)"
    "rs_active_instruments (pr_recorder r) = instruments_of (pr_demand r)" "providers_ok r"
    by (auto simp: router_ok_alt)
  note book = book_of_step [OF ok(1), of T a]
  obtain ops where rec: "pr_recorder (router_step T r a) = run (recorder_step T) (pr_recorder r) ops"
    and kind: "list_all quiet ops \<and> held (db_consumers (pr_demand (router_step T r a))) = held (db_consumers (pr_demand r)) \<or>
     ops = [R_Reconcile (map instrument_id (active_refs (db_consumers (pr_demand (router_step T r a)))))]"
    using recorder_of_step [OF ok(1), of T a] by blast
  have "recorder_ok (pr_recorder (router_step T r a))" unfolding rec by (rule recorder.run_inv [OF ok(2)])
  moreover from kind have "\<not> closed_recorder (pr_recorder (router_step T r a)) \<and>
      rs_active_instruments (pr_recorder (router_step T r a)) = instruments_of (pr_demand (router_step T r a))"
  proof
    assume quiet: "list_all quiet ops \<and> held (db_consumers (pr_demand (router_step T r a))) = held (db_consumers (pr_demand r))"
    have "active_refs (db_consumers (pr_demand (router_step T r a))) = active_refs (db_consumers (pr_demand r))"
      using book ok(1) quiet by (intro active_refs_cong) (auto simp: book_ok_def)
    with quiet quiet_run [of ops T "pr_recorder r"] ok(3,4) show ?thesis
      by (simp add: rec instruments_of_def)
  next
    assume "ops = [R_Reconcile (map instrument_id (active_refs (db_consumers (pr_demand (router_step T r a)))))]"
    with ok(3) show ?thesis
      by (auto simp: rec instruments_of_def recorder_defs Let_def)
  qed
  ultimately show ?thesis
    using book providers_ok_step [OF ok(1,5)] by (simp add: router_ok_alt)
qed

interpretation router: machine "router_step T" router_ok
  by unfold_locales (rule router_step_ok)

lemma router_new_ok: "router_ok (router_new n)"
  by (simp add: router_ok_def router_new_def default_ok recorder_default_ok)
    (simp add: recorder_default_def collector_default_def instruments_of_def demand_default_def active_refs_def
      bm_values_def bs_of_list_def normalize_instruments_def)

section \<open>Properties\<close>

lemma reachable_router_ok: "router_ok (run (router_step T) (router_new n) ops)"
  by (rule router.run_inv) (rule router_new_ok)

lemma router_book: "router_ok r \<Longrightarrow> book_ok (pr_demand r)"
  by (simp add: router_ok_def)

lemma managed_lease_has: "book_ok b \<Longrightarrow> leases b cid = Some (True, beat, R) \<Longrightarrow> has_managed_consumers b"
  by (force simp: leases_def lease_of_def has_managed_consumers_def bm_values_def list_ex_iff dest: bm_get_in_set)

lemma router_recorder_generation:
  assumes "router_ok r"
  shows "generation_of (pr_recorder r) \<le> generation_of (pr_recorder (run (router_step T) r ops))"
  using assms
proof (induction ops arbitrary: r)
  case (Cons a ops)
  obtain rops where "pr_recorder (router_step T r a) = run (recorder_step T) (pr_recorder r) rops"
    using recorder_of_step [OF router_book [OF Cons.prems], of T a] by blast
  then have "generation_of (pr_recorder r) \<le> generation_of (pr_recorder (router_step T r a))"
    using recorder_run_le [of "pr_recorder r" T rops] by (simp add: recorder_le_def)
  with Cons.IH [OF router_step_ok [OF Cons.prems, of T a]] show ?case by simp
qed simp


definition leaves_lease :: "string \<Rightarrow> ('d, 't) router_op \<Rightarrow> bool" where
  "leaves_lease cid a \<longleftrightarrow> (case a of Rt_Demand d \<Rightarrow> \<not> names cid d | _ \<Rightarrow> True)"

lemma pinned_step:
  assumes "router_ok r" and lease: "leases (pr_demand r) cid = Some (True, beat, R)" and "leaves_lease cid a"
  shows "pr_active (router_step T r a) = pr_active r \<and> pr_generation (router_step T r a) = pr_generation r \<and>
    (\<exists>beat'. leases (pr_demand (router_step T r a)) cid = Some (True, beat', R))"
proof -
  note book = router_book [OF assms(1)]
  note managed = managed_lease_has [OF book lease]
  have "\<exists>beat'. leases (pr_demand (router_step T r a)) cid = Some (True, beat', R)"
    using demand_of_step [OF book, of T a]
  proof
    assume "\<exists>d. a = Rt_Demand d \<and> pr_demand (router_step T r a) = demand_step (pr_demand r) d"
    then obtain d where d: "a = Rt_Demand d" "pr_demand (router_step T r a) = demand_step (pr_demand r) d" by blast
    with assms(3) have "\<not> names cid d" by (simp add: leaves_lease_def)
    from unnamed_step [where L = "leases (pr_demand r)", OF lease this] d(2) show ?thesis
      by (simp add: demand_step_ok(3) [OF book])
  qed (use lease in simp)
  moreover have "pr_active (router_step T r a) = pr_active r \<and> pr_generation (router_step T r a) = pr_generation r"
  proof (cases a)
    case (Rt_Demand d)
    then show ?thesis by (simp add: router_demand_frame [OF book])
  next
    case (Rt_Activate pid mode)
    then show ?thesis using activate_cases [of T r pid mode] managed by auto
  next
    case (Rt_Deactivate pid)
    then show ?thesis using managed by (simp add: router_deactivate_def)
  qed (auto simp: router_register_def router_update_health_def Let_def split: sum.split option.split)
  ultimately show ?thesis by blast
qed

text \<open>Managed demand pins the provider. While a consumer holds a managed lease, no sequence of
  operations that leaves that consumer alone (activations, deactivations, health reports, expiry,
  clears, other consumers, provider tasks) changes the active provider or its generation, and the
  lease survives it.
\<close>

theorem managed_demand_pins_provider:
  assumes "leases (pr_demand (run (router_step T) (router_new n) ops)) cid = Some (True, beat, R)"
    and "list_all (leaves_lease cid) ops'"
  shows "let r = run (router_step T) (router_new n) ops; r' = run (router_step T) r ops'
    in pr_active r' = pr_active r \<and> pr_generation r' = pr_generation r \<and>
       (\<exists>beat'. leases (pr_demand r') cid = Some (True, beat', R))"
proof -
  have "pr_active (run (router_step T) r ops') = pr_active r \<and> pr_generation (run (router_step T) r ops') = pr_generation r \<and>
      (\<exists>beat'. leases (pr_demand (run (router_step T) r ops')) cid = Some (True, beat', R))"
    if "router_ok r" and "leases (pr_demand r) cid = Some (True, beat, R)" for r beat
    using that assms(2)
  proof (induction ops' arbitrary: r beat)
    case (Cons a ops')
    from pinned_step [OF Cons.prems(1,2), of a T] Cons.prems(3)
    obtain beat' where step: "leases (pr_demand (router_step T r a)) cid = Some (True, beat', R)"
      "pr_active (router_step T r a) = pr_active r" "pr_generation (router_step T r a) = pr_generation r" by auto
    from Cons.IH [OF router_step_ok [OF Cons.prems(1)] step(1)] Cons.prems(3) step(2,3) show ?case by simp
  qed simp
  from this [OF reachable_router_ok assms(1)] show ?thesis by (simp add: Let_def)
qed

text \<open>C20: Switching the provider fences the old one. A successful activation of another provider
  happens only without managed demand and only for a provider that is ready (or, when a session
  is restored, still warming up without an error); it empties the cache and moves the generation
  on; and no update that carries the recorder's generation from before the switch is ever
  recorded again.
\<close>

theorem provider_switch_fences:
  assumes "r = run (router_step T) (router_new n) ops" and "fst (router_activate T r pid mode) = Inr rt"
    and "pr_active r \<noteq> pid" and "generation_of (pr_recorder r) \<noteq> - 1"
  shows "let r' = snd (router_activate T r pid mode)
    in pr_active r' = pid \<and> tc_ticks (pr_cache r') = [] \<and> pr_generation r' = sat_inc (pr_generation r) \<and>
       rt = router_runtime r' \<and> \<not> has_managed_consumers (pr_demand r) \<and>
       (\<exists>slot. bm_get (pr_providers r) pid = Some slot \<and> (is_ready (sl_health slot) \<or> warming_restore mode (sl_health slot))) \<and>
       fst (recorder_update T (generation_of (pr_recorder r)) u (pr_recorder (run (router_step T) r' ops'))) = False"
proof -
  have ok: "router_ok r" using reachable_router_ok assms(1) by simp
  let ?r' = "snd (router_activate T r pid mode)"
  have "pr_active ?r' = pid"
    using assms(2,3) by (cases "bm_get (pr_providers r) pid") (auto simp: router_activate_def Let_def split: if_splits)
  then have "?r' \<noteq> r" using assms(3) by auto
  with activate_cases [of T r pid mode] obtain slot where slot: "bm_get (pr_providers r) pid = Some slot"
    "\<not> has_managed_consumers (pr_demand r)" "is_ready (sl_health slot) \<or> warming_restore mode (sl_health slot)"
    and act: "router_activate T r pid mode =
        (Inr (router_runtime (switch_provider T (sl_health slot) pid r)), switch_provider T (sl_health slot) pid r)"
    by metis
  have gen: "generation_of (report_health T h rec) = generation_of rec" for h and rec :: "'b recorder"
    by (simp add: report_health_def set_stream_state_def recorder_update_def update_generation_def Let_def)
  have "generation_of (pr_recorder r) < generation_of (recorder_reconfigure (pr_recorder r))"
    using ok assms(4) sat_inc_less by (auto simp: router_ok_def recorder_defs)
  also have "\<dots> = generation_of (pr_recorder ?r')" by (simp add: act gen)
  also have "\<dots> \<le> generation_of (pr_recorder (run (router_step T) ?r' ops'))"
    using router_step_ok [OF ok, of T "Rt_Activate pid mode"] by (intro router_recorder_generation) simp
  finally have "fst (recorder_update T (generation_of (pr_recorder r)) u (pr_recorder (run (router_step T) ?r' ops'))) = False"
    by (auto simp: recorder_update_def update_generation_def)
  with slot act assms(2) show ?thesis by (simp add: Let_def cache_clear_def)
qed

subsection \<open>Witnesses\<close>

definition sample_descriptor :: "string \<Rightarrow> provider_descriptor" where
  "sample_descriptor pid =
     \<lparr>pd_selection_id = pid, pd_provider_id = pid, pd_display_name = pid, pd_broker_id = None, pd_source = pid,
      pd_default_market = ''US'', pd_supported_markets = [''US''], pd_transports = [''stream''],
      pd_capabilities = \<lparr>pc_snapshots = True, pc_streaming_quotes = True, pc_streaming_candles = False,
        pc_streaming_depth = False, pc_historical_candles = False, pc_tick_candles = False, pc_order_book_depth = False,
        pc_instrument_search = False, pc_extended_hours = False, pc_candle_intervals = [], pc_order_book_levels = [],
        pc_sessions = [], pc_price_adjustments = [], pc_historical_lookback_days = []\<rparr>,
      pd_constraints = \<lparr>pk_requires_open_d = False, pk_requires_market_data_right = False, pk_uses_subscription_quota = False\<rparr>,
      pd_notes = []\<rparr>"

definition sample_health :: health_status where
  "sample_health = health_default\<lparr>hs_connected := True, hs_readiness := Ready\<rparr>"

definition sample_setup :: "(int, int) router_op list" where
  "sample_setup = [Rt_Register (sample_descriptor ''futu'') sample_health, Rt_Register (sample_descriptor ''other'') sample_health,
     Rt_Activate ''futu'' Explicit]"

lemma sample_names: "\<not> blank ''futu''" "\<not> blank ''other''" "\<not> blank ''US''" "trim ''chart'' = ''chart''" "''futu'' < ''other''"
  by code_simp+

lemma sample_valid: "descriptor_validate (sample_descriptor ''futu'') = Inr ()" "descriptor_validate (sample_descriptor ''other'') = Inr ()"
  by (simp_all add: descriptor_validate_def descriptor_fields_def sample_descriptor_def sample_names)

lemma sample_ready: "is_ready sample_health"
  by (simp add: is_ready_def sample_health_def health_default_def)

definition sample_providers :: "(string, provider_slot) bmap" where
  "sample_providers = [(''futu'', \<lparr>sl_descriptor = sample_descriptor ''futu'', sl_health = sample_health\<rparr>),
     (''other'', \<lparr>sl_descriptor = sample_descriptor ''other'', sl_health = sample_health\<rparr>)]"

lemma sample_setup_run:
  "\<exists>rec. run (router_step sample_time) (router_new 2) sample_setup =
     \<lparr>pr_providers = sample_providers, pr_active = ''futu'', pr_generation = 1, pr_demand = demand_default,
      pr_cache = cache_new 2, pr_recorder = rec\<rparr> \<and> generation_of rec = 1"
proof -
  have "pd_selection_id (sample_descriptor pid) = pid" for pid by (simp add: sample_descriptor_def)
  moreover have "\<not> ''other'' < ''futu''" using sample_names(5) by simp
  ultimately show ?thesis
    using sample_names(5)
    by (simp add: sample_setup_def router_register_def sample_valid router_activate_def router_new_def Let_def
        sample_ready bm_get_def switch_provider_def sample_providers_def cache_clear_def cache_new_def sat_inc_def
        has_managed_consumers_def demand_default_def bm_values_def report_health_def set_stream_state_def recorder_defs
        recorder_default_def)
qed

theorem managed_demand_pins_provider_witness:
  "pr_active (run (router_step sample_time) (router_new 2)
     ((sample_setup @ [Rt_Demand (D_Acquire ''chart'' [aapl] True 0)]) @
      [Rt_Activate ''other'' Explicit, Rt_Demand (D_Expire 1000 10)])) = ''futu''"
proof -
  obtain rec where r: "run (router_step sample_time) (router_new 2) sample_setup =
     \<lparr>pr_providers = sample_providers, pr_active = ''futu'', pr_generation = 1, pr_demand = demand_default,
      pr_cache = cache_new 2, pr_recorder = rec\<rparr>"
    using sample_setup_run by blast
  let ?ops = "sample_setup @ [Rt_Demand (D_Acquire ''chart'' [aapl] True 0)]"
  have "bm_get sample_providers ''futu'' = Some \<lparr>sl_descriptor = sample_descriptor ''futu'', sl_health = sample_health\<rparr>"
    by (simp add: sample_providers_def bm_get_def)
  then have "leases (pr_demand (run (router_step sample_time) (router_new 2) ?ops)) ''chart'' = Some (True, 0, {aapl}) \<and>
      pr_active (run (router_step sample_time) (router_new 2) ?ops) = ''futu''"
    by (simp add: r acquire_demand_def require_streaming_def sample_descriptor_def demand_result_def demand_acquire_def
        demand_default_def aapl_normalize sample_names leases_def put_consumer_def lease_of_def sync_runtime_demand_def
        bm_get_def Let_def)
  with managed_demand_pins_provider [of sample_time 2 ?ops "''chart''" 0 "{aapl}"
      "[Rt_Activate ''other'' Explicit, Rt_Demand (D_Expire 1000 10)]"]
  show ?thesis by (simp add: leaves_lease_def Let_def)
qed

theorem provider_switch_fences_witness:
  "\<exists>r'. snd (router_activate sample_time (run (router_step sample_time) (router_new 2) sample_setup) ''other'' Explicit) = r' \<and>
     pr_active r' = ''other'' \<and> fst (recorder_update sample_time 1 Quote_Success (pr_recorder r')) = False"
proof -
  obtain rec where r: "run (router_step sample_time) (router_new 2) sample_setup =
     \<lparr>pr_providers = sample_providers, pr_active = ''futu'', pr_generation = 1, pr_demand = demand_default,
      pr_cache = cache_new 2, pr_recorder = rec\<rparr>" and gen: "generation_of rec = 1"
    using sample_setup_run by blast
  obtain rt where rt: "fst (router_activate sample_time (run (router_step sample_time) (router_new 2) sample_setup) ''other'' Explicit) = Inr rt"
    by (simp add: r router_activate_def has_managed_consumers_def demand_default_def bm_values_def sample_providers_def
        bm_get_def sample_ready Let_def)
  from provider_switch_fences [OF refl rt, of Quote_Success "[]"] show ?thesis
    by (simp add: r gen Let_def)
qed

end
