(* ===== verification/Market_Poll.thy ===== *)
theory Market_Poll
  imports Market_Runtime
begin

text \<open>
  \<open>crates/jftrade-marketdata/src/snapshot_poll.rs\<close>: one poll of a snapshot source against the
  recorder and the cache. The query is a parameter; it has a handle of the recorder, so it maps
  the recorder it finds to its answer and the recorder it leaves, in which another generation may
  have begun. Nothing else runs between the steps of a poll.
\<close>

section \<open>Policy and outcome\<close>

record poll_policy =
  po_interval_ms :: i64
  po_freshness_ms :: i64

definition policy_default :: poll_policy where
  "policy_default = \<lparr>po_interval_ms = 1000, po_freshness_ms = 1500\<rparr>"

definition positive_or :: "i64 \<Rightarrow> i64 \<Rightarrow> i64" where
  "positive_or v fallback = (if 0 < v then v else fallback)"

definition executor_new :: "poll_policy \<Rightarrow> poll_policy" where
  "executor_new p =
     \<lparr>po_interval_ms = positive_or (po_interval_ms p) (po_interval_ms policy_default),
      po_freshness_ms = positive_or (po_freshness_ms p) (po_freshness_ms policy_default)\<rparr>"

datatype skip_reason = EmptyDemand | Fresh_Cache | Cadence | RetryWindow | InactiveGeneration | Closed_Recorder

datatype poll_outcome =
    Skipped skip_reason
  | Poll_Applied nat nat \<comment> \<open>requested, inserted\<close>
  | Poll_Failed nat string
  | StaleGeneration u64 u64 \<comment> \<open>requested, active\<close>

section \<open>The poll\<close>

definition sat_i64 :: "int \<Rightarrow> i64" where
  "sat_i64 n = max (- (2 ^ 63)) (min (2 ^ 63 - 1) n)"

definition timestamp_ms :: "'t time_lib \<Rightarrow> 't \<Rightarrow> i64" where
  "timestamp_ms T t = sat_i64 (sat_i64 (tl_unix T t * 1000) + int (tl_nanos T t div 1000000))"

definition normalized_instruments :: "instrument_ref list \<Rightarrow> string list" where
  "normalized_instruments demand =
     remdups_adj (sort (map instrument_id (concat (map (\<lambda>r. case ref_normalize r of Inl _ \<Rightarrow> [] | Inr n \<Rightarrow> [n]) demand))))"

definition stale_outcome :: "'t recorder \<Rightarrow> u64 \<Rightarrow> poll_outcome" where
  "stale_outcome rec requested = StaleGeneration requested (generation_of rec)"

definition is_fresh :: "'d cache_lookup \<Rightarrow> bool" where
  "is_fresh l \<longleftrightarrow> (case l of Fresh _ \<Rightarrow> True | _ \<Rightarrow> False)"

definition poll_skip :: "'t::linorder time_lib \<Rightarrow> poll_policy \<Rightarrow> 't recorder \<Rightarrow> 'd tick_cache \<Rightarrow> string list \<Rightarrow> u64 \<Rightarrow> 't \<Rightarrow>
    skip_reason option" where
  "poll_skip T p rec cache instruments generation now =
     (let rt = rs_runtime rec; now_ms = timestamp_ms T now
      in if instruments = [] then Some EmptyDemand
         else if co_closed rt then Some Closed_Recorder
         else if co_generation rt \<noteq> generation then Some InactiveGeneration
         else if list_all (\<lambda>i. is_fresh (cache_lookup_for_generation cache i now_ms (po_freshness_ms p) (co_generation rt))) instruments
           then Some Fresh_Cache
         else if is_some_and (co_quote_retry_at rt) (\<lambda>r. now < r) then Some RetryWindow
         else if is_some_and (co_last_refresh_at rt) (\<lambda>l. sat_sub_i64 now_ms (timestamp_ms T l) < po_interval_ms p)
           then Some Cadence
         else None)"

text \<open>The demanded ticks of an answer, the last one of each instrument, in the order of the instruments.\<close>

definition returned_ticks :: "string list \<Rightarrow> 'd tick list \<Rightarrow> (string, 'd tick) bmap" where
  "returned_ticks instruments ticks =
     fold (\<lambda>t m. let i = upper (trim (tk_instrument_id t))
                 in if i \<in> set instruments then bm_insert i (t\<lparr>tk_instrument_id := i\<rparr>) m else m) ticks []"

definition insert_ticks :: "'d tick_cache \<Rightarrow> u64 \<Rightarrow> 'd tick list \<Rightarrow> market_data_error + 'd tick_cache" where
  "insert_ticks cache generation ticks = try_fold (\<lambda>c t. cache_insert c t generation) cache ticks"

definition apply_success :: "'t time_lib \<Rightarrow> 't recorder \<Rightarrow> 'd tick_cache \<Rightarrow> string list \<Rightarrow> u64 \<Rightarrow> 't \<Rightarrow> 'd tick list \<Rightarrow>
    poll_outcome \<times> 't recorder \<times> 'd tick_cache" where
  "apply_success T rec cache instruments generation now ticks =
     (if generation_of rec \<noteq> generation then (stale_outcome rec generation, rec, cache)
      else
        let returned = bm_values (returned_ticks instruments ticks)
        in if list_ex (\<lambda>t. tk_provider_generation t \<noteq> generation) returned
           then (stale_outcome rec generation, rec, cache)
           else case insert_ticks cache generation returned of
                  Inl e \<Rightarrow>
                    (Poll_Failed (length instruments) (market_error_text e),
                     snd (recorder_update T generation (Quote_Failure now (market_error_text e)) rec), cache)
                | Inr next_cache \<Rightarrow>
                    (case recorder_update T generation Quote_Success rec of
                       (False, rec1) \<Rightarrow> (stale_outcome rec1 generation, rec1, cache)
                     | (True, rec1) \<Rightarrow> (Poll_Applied (length instruments) (length returned), rec1, next_cache)))"

type_synonym ('d, 't) poll_query = "string list \<Rightarrow> 't recorder \<Rightarrow> (string + 'd tick list) \<times> 't recorder"

definition query_failed :: "'t time_lib \<Rightarrow> 't recorder \<Rightarrow> 'd tick_cache \<Rightarrow> string list \<Rightarrow> u64 \<Rightarrow> 't \<Rightarrow> string \<Rightarrow>
    poll_outcome \<times> 't recorder \<times> 'd tick_cache" where
  "query_failed T rec cache instruments generation now error =
     (if generation_of rec \<noteq> generation then (stale_outcome rec generation, rec, cache)
      else case recorder_update T generation (Quote_Failure now error) rec of
             (False, rec1) \<Rightarrow> (stale_outcome rec1 generation, rec1, cache)
           | (True, rec1) \<Rightarrow> (Poll_Failed (length instruments) error, rec1, cache))"

definition poll_execute :: "'t::linorder time_lib \<Rightarrow> poll_policy \<Rightarrow> 't recorder \<Rightarrow> 'd tick_cache \<Rightarrow> instrument_ref list \<Rightarrow> u64 \<Rightarrow>
    't \<Rightarrow> ('d, 't) poll_query \<Rightarrow> poll_outcome \<times> 't recorder \<times> 'd tick_cache" where
  "poll_execute T p rec cache demand generation now query =
     (let instruments = normalized_instruments demand
      in case poll_skip T p rec cache instruments generation now of
           Some reason \<Rightarrow> (Skipped reason, rec, cache)
         | None \<Rightarrow>
             (case recorder_update T generation (Poll_Started now) rec of
                (False, rec1) \<Rightarrow> (stale_outcome rec1 generation, rec1, cache)
              | (True, rec1) \<Rightarrow>
                  (case query instruments rec1 of
                     (Inr ticks, rec2) \<Rightarrow> apply_success T rec2 cache instruments generation now ticks
                   | (Inl error, rec2) \<Rightarrow> query_failed T rec2 cache instruments generation now error)))"

section \<open>What a poll leaves behind\<close>

lemma update_open: "recorder_update T g u rec = (True, rec1) \<longleftrightarrow> \<not> closed_recorder rec \<and> generation_of rec = g \<and>
    rec1 = rec\<lparr>rs_runtime := apply_update T u (rs_runtime rec)\<rparr>"
  by (auto simp: recorder_update_def update_generation_def)

lemma update_refused: "recorder_update T g u rec = (False, rec1) \<longleftrightarrow> (closed_recorder rec \<or> generation_of rec \<noteq> g) \<and> rec1 = rec"
  by (auto simp: recorder_update_def update_generation_def)

lemma returned_ticks_keys:
  assumes "(i, t) \<in> set (returned_ticks instruments ticks)"
  shows "i \<in> set instruments \<and> tk_instrument_id t = i \<and> upper (trim i) = i"
proof -
  have "\<forall>(i, t) \<in> set (returned_ticks instruments ticks). i \<in> set instruments \<and> tk_instrument_id t = i \<and> upper (trim i) = i"
    unfolding returned_ticks_def
  proof (rule fold_invariant [where Q = "\<lambda>_. True"])
    fix x :: "'a tick" and m :: "(string, 'a tick) bmap"
    assume m: "\<forall>(i, t) \<in> set m. i \<in> set instruments \<and> tk_instrument_id t = i \<and> upper (trim i) = i"
    let ?k = "upper (trim (tk_instrument_id x))"
    show "\<forall>(i, t) \<in> set (let i = ?k in if i \<in> set instruments then bm_insert i (x\<lparr>tk_instrument_id := i\<rparr>) m else m).
        i \<in> set instruments \<and> tk_instrument_id t = i \<and> upper (trim i) = i"
      using m bm_entries_insert [of ?k "x\<lparr>tk_instrument_id := ?k\<rparr>" m] by (auto simp: Let_def)
  qed simp_all
  with assms show ?thesis by blast
qed

lemma insert_ticks_effect:
  assumes "insert_ticks c g ts = Inr c'"
  shows "{k. cache_entries c' k \<noteq> cache_entries c k} \<subseteq> (\<lambda>t. upper (trim (tk_instrument_id t))) ` set ts \<and>
    (\<Union>k. set (cache_entries c' k)) \<subseteq> (\<Union>k. set (cache_entries c k)) \<union> {t. tk_provider_generation t = g}"
  using assms
proof (induction ts arbitrary: c)
  case Nil
  then show ?case by (simp add: insert_ticks_def)
next
  case (Cons t ts)
  let ?k = "upper (trim (tk_instrument_id t))"
  from Cons.prems obtain c1 where c1: "cache_insert c t g = Inr c1" and rest: "insert_ticks c1 g ts = Inr c'"
    by (auto simp: insert_ticks_def result_simps)
  from c1 have gen: "tk_provider_generation t = g"
    and step: "\<And>k. cache_entries c1 k = (if k = ?k then last_n (tc_capacity c) (cache_entries c k @ [t]) else cache_entries c k)"
    by (auto simp: cache_insert_result accepts_def Let_def)
  have keys: "{k. cache_entries c' k \<noteq> cache_entries c k} \<subseteq> insert ?k {k. cache_entries c' k \<noteq> cache_entries c1 k}"
    by (auto simp: step)
  have "set (cache_entries c1 k) \<subseteq> insert t (set (cache_entries c k))" for k
  proof (cases "k = ?k")
    case True
    have "set (last_n (tc_capacity c) (cache_entries c ?k @ [t])) \<subseteq> set (cache_entries c ?k @ [t])"
      unfolding last_n_def by (rule set_drop_subset)
    with True show ?thesis by (simp add: step)
  qed (simp add: step subset_insertI)
  then have gens: "(\<Union>k. set (cache_entries c1 k)) \<subseteq> (\<Union>k. set (cache_entries c k)) \<union> {t. tk_provider_generation t = g}"
    using gen by blast
  note IH = Cons.IH [OF rest]
  show ?case
  proof
    have "insert ?k {k. cache_entries c' k \<noteq> cache_entries c1 k} \<subseteq> insert ?k ((\<lambda>t. upper (trim (tk_instrument_id t))) ` set ts)"
      using IH by (intro insert_mono) simp
    with keys show "{k. cache_entries c' k \<noteq> cache_entries c k} \<subseteq> (\<lambda>t. upper (trim (tk_instrument_id t))) ` set (t # ts)"
      unfolding list.set image_insert by (rule order_trans)
    show "(\<Union>k. set (cache_entries c' k)) \<subseteq> (\<Union>k. set (cache_entries c k)) \<union> {t. tk_provider_generation t = g}"
      by (rule order_trans [OF conjunct2 [OF IH]]) (use gens in simp)
  qed
qed

text \<open>The ends of a poll.\<close>

lemma apply_success_cases:
  assumes "apply_success T rec cache instruments g now ticks = (outcome, rec', cache')"
  obtains (kept) "cache' = cache" "\<And>n m. outcome \<noteq> Poll_Applied n m"
      "(generation_of rec \<noteq> g \<or> closed_recorder rec) \<Longrightarrow> rec' = rec"
  | (applied) "generation_of rec = g" "\<not> closed_recorder rec"
      "outcome = Poll_Applied (length instruments) (length (bm_values (returned_ticks instruments ticks)))"
      "rec' = rec\<lparr>rs_runtime := apply_update T Quote_Success (rs_runtime rec)\<rparr>"
      "insert_ticks cache g (bm_values (returned_ticks instruments ticks)) = Inr cache'"
proof (cases "generation_of rec = g \<and> \<not> list_ex (\<lambda>t. tk_provider_generation t \<noteq> g) (bm_values (returned_ticks instruments ticks))")
  case False
  with assms have "cache' = cache" "rec' = rec" "outcome = stale_outcome rec g"
    by (auto simp: apply_success_def Let_def split: if_splits)
  then show thesis by (intro kept) (auto simp: stale_outcome_def)
next
  case go: True
  show thesis
  proof (cases "insert_ticks cache g (bm_values (returned_ticks instruments ticks))")
    case (Inl e)
    with go assms have "cache' = cache" "rec' = snd (recorder_update T g (Quote_Failure now (market_error_text e)) rec)"
      "outcome = Poll_Failed (length instruments) (market_error_text e)"
      by (auto simp: apply_success_def Let_def simp del: apply_update.simps)
    then show thesis by (intro kept) (auto simp: recorder_update_def update_generation_def)
  next
    case (Inr c)
    obtain b rec1 where upd: "recorder_update T g Quote_Success rec = (b, rec1)" by fastforce
    have eq: "(outcome, rec', cache') =
        (if b then (Poll_Applied (length instruments) (length (bm_values (returned_ticks instruments ticks))), rec1, c)
         else (stale_outcome rec1 g, rec1, cache))"
      using assms go Inr upd by (cases b) (auto simp: apply_success_def Let_def)
    show thesis
    proof (cases b)
      case True
      with upd have "recorder_update T g Quote_Success rec = (True, rec1)" by simp
      note opened = update_open [THEN iffD1, OF this]
      show thesis
        by (rule applied) (use True eq opened Inr in simp_all)
    next
      case False
      with upd have "recorder_update T g Quote_Success rec = (False, rec1)" by simp
      note refused = update_refused [THEN iffD1, OF this]
      show thesis
        by (rule kept) (use False eq refused in \<open>simp_all add: stale_outcome_def\<close>)
    qed
  qed
qed

lemma poll_cases:
  assumes "poll_execute T p rec cache demand g now query = (outcome, rec', cache')"
  obtains (skipped) reason where "poll_skip T p rec cache (normalized_instruments demand) g now = Some reason"
      "outcome = Skipped reason" "rec' = rec" "cache' = cache"
  | (failed) error rec1 rec2 where "recorder_update T g (Poll_Started now) rec = (True, rec1)"
      "query (normalized_instruments demand) rec1 = (Inl error, rec2)"
      "query_failed T rec2 cache (normalized_instruments demand) g now error = (outcome, rec', cache')"
  | (answered) ticks rec1 rec2 where "recorder_update T g (Poll_Started now) rec = (True, rec1)"
      "query (normalized_instruments demand) rec1 = (Inr ticks, rec2)"
      "apply_success T rec2 cache (normalized_instruments demand) g now ticks = (outcome, rec', cache')"
proof (cases "poll_skip T p rec cache (normalized_instruments demand) g now")
  case (Some reason)
  with assms show thesis by (intro skipped) (auto simp: poll_execute_def Let_def)
next
  case None
  obtain b rec1 where upd: "recorder_update T g (Poll_Started now) rec = (b, rec1)" by fastforce
  have b: b
    using None upd by (auto simp: poll_skip_def Let_def recorder_update_def update_generation_def split: if_splits)
  obtain res rec2 where q: "query (normalized_instruments demand) rec1 = (res, rec2)" by fastforce
  show thesis
  proof (cases res)
    case (Inl error)
    with None upd b q assms show thesis by (intro failed) (auto simp: poll_execute_def Let_def)
  next
    case (Inr ticks)
    with None upd b q assms show thesis by (intro answered) (auto simp: poll_execute_def Let_def)
  qed
qed

lemma query_failed_kept:
  "query_failed T rec cache instruments g now error = (outcome, rec', cache') \<Longrightarrow>
     cache' = cache \<and> (\<forall>n m. outcome \<noteq> Poll_Applied n m) \<and> (generation_of rec \<noteq> g \<or> closed_recorder rec \<longrightarrow> rec' = rec)"
  by (auto simp: query_failed_def stale_outcome_def update_refused update_open split: if_splits prod.splits bool.splits)

section \<open>Properties\<close>

lemma failed_answer_retry:
  assumes "apply_success T rec cache instruments g now ticks = (Poll_Failed n e, rec', cache')"
  shows "closed_recorder rec' \<or> (\<exists>k. co_quote_retry_at (rs_runtime rec') = Some (retry_at T now k))"
proof (cases "insert_ticks cache g (bm_values (returned_ticks instruments ticks))")
  case (Inl err)
  have "rec' = snd (recorder_update T g (Quote_Failure now (market_error_text err)) rec) \<and> generation_of rec = g"
    using assms Inl by (auto simp: apply_success_def stale_outcome_def Let_def split: if_splits)
  then show ?thesis by (auto simp: recorder_update_def update_generation_def)
next
  case (Inr c)
  with assms have False
    by (cases "recorder_update T g Quote_Success rec"; cases "fst (recorder_update T g Quote_Success rec)")
      (auto simp: apply_success_def stale_outcome_def Let_def split: if_splits)
  then show ?thesis ..
qed

lemma applied_effect:
  assumes "insert_ticks cache g (bm_values (returned_ticks instruments ticks)) = Inr cache'"
  shows "{k. cache_entries cache' k \<noteq> cache_entries cache k} \<subseteq> set instruments"
    and "(\<Union>k. set (cache_entries cache' k)) \<subseteq> (\<Union>k. set (cache_entries cache k)) \<union> {t. tk_provider_generation t = g}"
proof -
  note effect = insert_ticks_effect [OF assms]
  have "(\<lambda>t. upper (trim (tk_instrument_id t))) ` set (bm_values (returned_ticks instruments ticks)) \<subseteq> set instruments"
    by (auto simp: bm_values_def dest: returned_ticks_keys)
  with effect show "{k. cache_entries cache' k \<noteq> cache_entries cache k} \<subseteq> set instruments" by blast
  from effect show "(\<Union>k. set (cache_entries cache' k)) \<subseteq> (\<Union>k. set (cache_entries cache k)) \<union> {t. tk_provider_generation t = g}"
    by blast
qed


text \<open>An answer that arrives too late is dropped. When the recorder that the query leaves behind
  has moved on to another generation or was closed meanwhile, the poll changes nothing after the
  query: neither the cache nor the failure state.
\<close>

theorem late_answer_is_dropped:
  assumes "poll_execute T p rec cache demand g now query = (outcome, rec', cache')"
    and "\<And>rec1. generation_of rec1 = g \<Longrightarrow> \<not> closed_recorder rec1 \<Longrightarrow>
           generation_of (snd (query (normalized_instruments demand) rec1)) \<noteq> g \<or>
           closed_recorder (snd (query (normalized_instruments demand) rec1))"
  shows "cache' = cache \<and> (rec' = rec \<or> (\<exists>rec1. rec' = snd (query (normalized_instruments demand) rec1)))"
  using assms(1)
proof (rule poll_cases)
  fix error rec1 rec2
  assume start: "recorder_update T g (Poll_Started now) rec = (True, rec1)"
    and q: "query (normalized_instruments demand) rec1 = (Inl error, rec2)"
    and "query_failed T rec2 cache (normalized_instruments demand) g now error = (outcome, rec', cache')"
  moreover have "generation_of rec1 = g" "\<not> closed_recorder rec1" using start by (auto simp: update_open)
  ultimately show ?thesis using query_failed_kept [of T rec2 cache "normalized_instruments demand" g now error outcome rec' cache']
      assms(2) [of rec1] by (metis snd_conv)
next
  fix ticks rec1 rec2
  assume start: "recorder_update T g (Poll_Started now) rec = (True, rec1)"
    and q: "query (normalized_instruments demand) rec1 = (Inr ticks, rec2)"
    and app: "apply_success T rec2 cache (normalized_instruments demand) g now ticks = (outcome, rec', cache')"
  have "generation_of rec1 = g" "\<not> closed_recorder rec1" using start by (auto simp: update_open)
  with assms(2) [of rec1] q have late: "generation_of rec2 \<noteq> g \<or> closed_recorder rec2" by simp
  from app show ?thesis
  proof (rule apply_success_cases)
    assume "cache' = cache" and "generation_of rec2 \<noteq> g \<or> closed_recorder rec2 \<Longrightarrow> rec' = rec2"
    then show ?thesis using late q by (metis snd_conv)
  qed (use late in auto)
qed auto

definition sample_demand :: "instrument_ref list" where
  "sample_demand = [Instrument_Ref ''SNAPSHOT'' ''us'' ''aapl'' None]"

lemma sample_instruments: "normalized_instruments sample_demand = [''US.AAPL'']"
proof -
  have "ref_normalize (Instrument_Ref ''SNAPSHOT'' ''us'' ''aapl'' None) = Inr (Instrument_Ref ''SNAPSHOT'' ''US'' ''AAPL'' None)"
    by code_simp
  then show ?thesis by (simp add: normalized_instruments_def sample_demand_def instrument_id_def)
qed

theorem late_answer_is_dropped_witness:
  "let query = (\<lambda>_ rec. (Inr [sample_tick ''US.AAPL'' 100 0], recorder_reconfigure rec))
   in snd (snd (poll_execute sample_time policy_default recorder_default (cache_new 2) sample_demand 0 100 query)) = cache_new 2"
proof -
  let ?query = "\<lambda>_ rec. (Inr [sample_tick ''US.AAPL'' 100 0], recorder_reconfigure rec)"
  obtain outcome rec' cache' where poll: "poll_execute sample_time policy_default recorder_default (cache_new 2) sample_demand 0 100 ?query =
      (outcome, rec', cache')" by (cases rule: prod_cases3)
  have "cache' = cache_new 2"
    by (rule conjunct1 [OF late_answer_is_dropped [OF poll]]) (simp add: recorder_defs sat_inc_def)
  then show ?thesis by (simp add: poll Let_def)
qed

text \<open>A failed poll waits. After a poll has failed, the recorder holds a retry time, the delay of the
  failures so far after the poll; until then every poll with that recorder, of whatever demand and
  cache and for whatever generation, is skipped without a query and without an effect.
\<close>

theorem failed_poll_waits:
  assumes "poll_execute T p rec cache demand g now query = (Poll_Failed n e, rec', cache')"
    and "now' < tl_plus_seconds T (tl_utc T now) 5"
    and "\<And>k. tl_plus_seconds T (tl_utc T now) 5 \<le> tl_plus_seconds T (tl_utc T now) (retry_delay k)"
  shows "\<exists>reason. poll_execute T p' rec' c' demand' g' now' query' = (Skipped reason, rec', c')"
proof -
  have retry: "closed_recorder rec' \<or> (\<exists>k. co_quote_retry_at (rs_runtime rec') = Some (retry_at T now k))"
    using assms(1)
  proof (rule poll_cases)
    fix error rec1 rec2
    assume "query_failed T rec2 cache (normalized_instruments demand) g now error = (Poll_Failed n e, rec', cache')"
    then show ?thesis
      by (cases "recorder_update T g (Quote_Failure now error) rec2"; cases "fst (recorder_update T g (Quote_Failure now error) rec2)")
        (auto simp: query_failed_def stale_outcome_def recorder_update_def update_generation_def split: if_splits)
  next
    fix ticks rec1 rec2
    assume app: "apply_success T rec2 cache (normalized_instruments demand) g now ticks = (Poll_Failed n e, rec', cache')"
    then show ?thesis by (rule failed_answer_retry)
  qed auto
  have "now' < retry_at T now k" for k using assms(2) assms(3) [of k] by (simp add: retry_at_def)
  with retry have "poll_skip T p' rec' c' (normalized_instruments demand') g' now' \<noteq> None"
    by (auto simp: poll_skip_def Let_def)
  then show ?thesis by (auto simp: poll_execute_def Let_def)
qed

theorem failed_poll_waits_witness:
  "let rec' = fst (snd (poll_execute sample_time policy_default recorder_default (cache_new 2 :: int tick_cache) sample_demand 0 100
       (\<lambda>_ rec. (Inl ''down'', rec))));
       outcome = fst (poll_execute sample_time policy_default rec' (cache_new 2 :: int tick_cache) sample_demand 0 104
       (\<lambda>_ rec. (Inr [], rec)))
   in \<exists>reason. outcome = Skipped reason"
proof -
  let ?poll = "poll_execute sample_time policy_default recorder_default (cache_new 2 :: int tick_cache) sample_demand 0 100
    (\<lambda>_ rec. (Inl ''down'', rec))"
  have "fst ?poll = Poll_Failed 1 ''down''"
    by (simp add: poll_execute_def poll_skip_def sample_instruments recorder_default_def collector_default_def is_fresh_def
        cache_lookup_for_generation_def cache_lookup_def cache_entries_def cache_new_def recorder_update_def
        update_generation_def query_failed_def Let_def)
  then obtain rec' cache' where poll: "?poll = (Poll_Failed 1 ''down'', rec', cache')" by (cases ?poll) auto
  obtain reason where "poll_execute sample_time policy_default rec' (cache_new 2 :: int tick_cache) sample_demand 0 104
      (\<lambda>_ rec. (Inr [], rec)) = (Skipped reason, rec', cache_new 2)"
    using failed_poll_waits [OF poll, of 104 policy_default "cache_new 2" sample_demand 0 "\<lambda>_ rec. (Inr [], rec)"] retry_delay_bounds
    by (auto simp: sample_time_def)
  then show ?thesis by (simp add: poll Let_def)
qed

end
