(* ===== verification/Market_Catalog.thy ===== *)
theory Market_Catalog
  imports Decimal_Lib
begin

text \<open>
  \<open>crates/jftrade-marketdata/src/catalog.rs\<close>: the catalog of markets and the normalisation of
  instrument identifiers. Strings are the bytes of their UTF-8 form.
\<close>

section \<open>Markets\<close>

record session_window =
  sw_start_minute :: nat
  sw_end_minute :: nat
  sw_label :: string

record market_precision =
  mp_price :: nat
  mp_quote :: nat

record 'd market_rule =
  mr_code :: string
  mr_market :: string
  mr_resolved_market :: string
  mr_preferred_prefix :: string
  mr_name :: string
  mr_display_name :: string
  mr_quote_currency :: string
  mr_timezone :: string
  mr_supports_extended_hours :: bool
  mr_requires_exchange_prefix :: bool
  mr_aliases :: "string list"
  mr_regular_sessions :: "session_window list"
  mr_precision :: market_precision
  mr_tick_size :: 'd
  mr_parent_market :: "string option"
  mr_child_markets :: "string list"

text \<open>
  \<open>align_price_to_step\<close>; \<open>round0\<close> is \<open>round_dp_with_strategy(0, MidpointAwayFromZero)\<close>, and \<open>None\<close> is
  the panic of an overflowing division or multiplication.
\<close>

definition align_price_to_step :: "'d decimal_lib \<Rightarrow> ('d \<Rightarrow> 'd) \<Rightarrow> 'd market_rule \<Rightarrow> 'd \<Rightarrow> 'd option" where
  "align_price_to_step D round0 rule price =
     (if d_eq D (mr_tick_size rule) (d_zero D) then Some price
      else Option.bind (d_div D price (mr_tick_size rule)) (\<lambda>q. d_mul D (round0 q) (mr_tick_size rule)))"

definition us_market_rule :: "'d decimal_lib \<Rightarrow> 'd market_rule" where
  "us_market_rule D =
     \<lparr>mr_code = ''US'', mr_market = ''US'', mr_resolved_market = ''US'', mr_preferred_prefix = ''US'',
      mr_name = ''United States'', mr_display_name = ''United States'', mr_quote_currency = ''USD'',
      mr_timezone = ''America/New_York'', mr_supports_extended_hours = True, mr_requires_exchange_prefix = False,
      mr_aliases = [''NYSE'', ''NASDAQ'', ''AMEX'', ''USA''],
      mr_regular_sessions = [\<lparr>sw_start_minute = 570, sw_end_minute = 960, sw_label = ''09:30-16:00''\<rparr>],
      mr_precision = \<lparr>mp_price = 2, mp_quote = 2\<rparr>, mr_tick_size = d_new D 1 2,
      mr_parent_market = None, mr_child_markets = []\<rparr>"

definition hk_market_rule :: "'d decimal_lib \<Rightarrow> 'd market_rule" where
  "hk_market_rule D =
     \<lparr>mr_code = ''HK'', mr_market = ''HK'', mr_resolved_market = ''HK'', mr_preferred_prefix = ''HK'',
      mr_name = ''Hong Kong'', mr_display_name = ''Hong Kong'', mr_quote_currency = ''HKD'',
      mr_timezone = ''Asia/Hong_Kong'', mr_supports_extended_hours = False, mr_requires_exchange_prefix = False,
      mr_aliases = [''HKEX'', ''HKG''],
      mr_regular_sessions = [\<lparr>sw_start_minute = 570, sw_end_minute = 720, sw_label = ''09:30-12:00''\<rparr>,
        \<lparr>sw_start_minute = 780, sw_end_minute = 960, sw_label = ''13:00-16:00''\<rparr>],
      mr_precision = \<lparr>mp_price = 3, mp_quote = 3\<rparr>, mr_tick_size = d_new D 1 3,
      mr_parent_market = None, mr_child_markets = []\<rparr>"

definition cn_sessions :: "session_window list" where
  "cn_sessions = [\<lparr>sw_start_minute = 570, sw_end_minute = 690, sw_label = ''09:30-11:30''\<rparr>,
     \<lparr>sw_start_minute = 780, sw_end_minute = 900, sw_label = ''13:00-15:00''\<rparr>]"

text \<open>The display name of the mainland market is Chinese; these are its bytes.\<close>

definition cn_name :: string where
  "cn_name = map char_of [230 :: nat, 178, 170, 230, 183, 177]"

definition cn_market_rule :: "'d decimal_lib \<Rightarrow> 'd market_rule" where
  "cn_market_rule D =
     \<lparr>mr_code = ''CN'', mr_market = ''CN'', mr_resolved_market = ''CN'', mr_preferred_prefix = [],
      mr_name = cn_name, mr_display_name = cn_name, mr_quote_currency = ''CNY'',
      mr_timezone = ''Asia/Shanghai'', mr_supports_extended_hours = False, mr_requires_exchange_prefix = True,
      mr_aliases = [''SH'', ''SZ'', ''CNSH'', ''CNSZ''], mr_regular_sessions = cn_sessions,
      mr_precision = \<lparr>mp_price = 2, mp_quote = 2\<rparr>, mr_tick_size = d_new D 1 2,
      mr_parent_market = None, mr_child_markets = [''SH'', ''SZ'']\<rparr>"

definition sh_market_rule :: "'d decimal_lib \<Rightarrow> 'd market_rule" where
  "sh_market_rule D =
     \<lparr>mr_code = ''SH'', mr_market = ''SH'', mr_resolved_market = ''CN'', mr_preferred_prefix = ''SH'',
      mr_name = ''Shanghai'', mr_display_name = ''Shanghai'', mr_quote_currency = ''CNY'',
      mr_timezone = ''Asia/Shanghai'', mr_supports_extended_hours = False, mr_requires_exchange_prefix = True,
      mr_aliases = [''CNSH'', ''SSE'', ''SHH'', ''SHSE'', ''SS''], mr_regular_sessions = cn_sessions,
      mr_precision = \<lparr>mp_price = 2, mp_quote = 2\<rparr>, mr_tick_size = d_new D 1 2,
      mr_parent_market = Some ''CN'', mr_child_markets = []\<rparr>"

definition sz_market_rule :: "'d decimal_lib \<Rightarrow> 'd market_rule" where
  "sz_market_rule D =
     \<lparr>mr_code = ''SZ'', mr_market = ''SZ'', mr_resolved_market = ''CN'', mr_preferred_prefix = ''SZ'',
      mr_name = ''Shenzhen'', mr_display_name = ''Shenzhen'', mr_quote_currency = ''CNY'',
      mr_timezone = ''Asia/Shanghai'', mr_supports_extended_hours = False, mr_requires_exchange_prefix = True,
      mr_aliases = [''CNSZ'', ''SZSE'', ''SHZ'', ''SHE''], mr_regular_sessions = cn_sessions,
      mr_precision = \<lparr>mp_price = 2, mp_quote = 2\<rparr>, mr_tick_size = d_new D 1 2,
      mr_parent_market = Some ''CN'', mr_child_markets = []\<rparr>"

definition default_markets :: "'d decimal_lib \<Rightarrow> 'd market_rule list" where
  "default_markets D = [hk_market_rule D, us_market_rule D, cn_market_rule D, sh_market_rule D, sz_market_rule D]"

definition alias_matches :: "string \<Rightarrow> 'd market_rule \<Rightarrow> bool" where
  "alias_matches n rule \<longleftrightarrow>
     eq_ignore_case (mr_preferred_prefix rule) n \<or> list_ex (\<lambda>a. eq_ignore_case a n) (mr_aliases rule)"

definition find_market_rule :: "'d decimal_lib \<Rightarrow> string \<Rightarrow> 'd market_rule option" where
  "find_market_rule D code_or_alias =
     (let n = upper (trim code_or_alias); markets = default_markets D
      in if n = [] then None
         else case List.find (\<lambda>r. eq_ignore_case (mr_code r) n \<or> eq_ignore_case (mr_market r) n) markets of
                Some r \<Rightarrow> Some r
              | None \<Rightarrow>
                  (case List.find (\<lambda>r. mr_child_markets r = [] \<and> alias_matches n r) markets of
                     Some r \<Rightarrow> Some r
                   | None \<Rightarrow> List.find (alias_matches n) markets))"

section \<open>Instruments\<close>

record normalized_instrument =
  ni_code :: string
  ni_instrument_id :: string
  ni_market :: string
  ni_prefix :: string
  ni_resolved_market :: string
  ni_symbol :: string

datatype catalog_error = MissingSymbolOrCode | UnsupportedMarket string | MarketMismatch string string

definition auxiliary_markets :: "string list" where
  "auxiliary_markets = [''SG'', ''JP'', ''AU'', ''MY'', ''CA'']"

definition is_auxiliary_market :: "string \<Rightarrow> bool" where
  "is_auxiliary_market m \<longleftrightarrow> upper (trim m) \<in> set auxiliary_markets"

definition is_supported_market :: "'d decimal_lib \<Rightarrow> string \<Rightarrow> bool" where
  "is_supported_market D m =
     (let u = upper (trim m) in u \<noteq> [] \<and> (find_market_rule D u \<noteq> None \<or> is_auxiliary_market u))"

definition check_market_compatibility :: "'d decimal_lib \<Rightarrow> string \<Rightarrow> string \<Rightarrow> bool" where
  "check_market_compatibility D explicit_market symbol_prefix =
     (let m = upper (trim explicit_market); p = upper (trim symbol_prefix)
      in m = p \<or>
         (case (find_market_rule D m, find_market_rule D p) of
            (Some mr, Some pr) \<Rightarrow>
              mr_code mr = mr_code pr \<or> mr_code pr \<in> set (mr_child_markets mr) \<or>
              mr_code mr = ''CN'' \<and> mr_resolved_market pr = ''CN''
          | _ \<Rightarrow> False))"

definition ends_with :: "string \<Rightarrow> string \<Rightarrow> bool" where
  "ends_with s suffix \<longleftrightarrow> starts_with (rev s) (rev suffix)"

definition strip_suffix :: "string \<Rightarrow> string \<Rightarrow> string option" where
  "strip_suffix suffix s = map_option rev (strip_prefix (rev suffix) (rev s))"

fun first_some :: "('a \<Rightarrow> 'b option) list \<Rightarrow> 'a \<Rightarrow> 'b option" where
  "first_some [] x = None"
| "first_some (f # fs) x = (case f x of Some y \<Rightarrow> Some y | None \<Rightarrow> first_some fs x)"

definition infer_cn_prefix :: "string \<Rightarrow> string" where
  "infer_cn_prefix symbol =
     (let clean = upper (trim symbol)
      in if list_ex (starts_with clean) [''SH.'', ''SH:'', ''SH_'', ''CNSH.'', ''CNSH:'', ''CNSH_''] \<or>
            list_ex (ends_with clean) [''.SH'', '':SH'', ''_SH'', ''.SS'', '':SS''] then ''SH''
         else if list_ex (starts_with clean) [''SZ.'', ''SZ:'', ''SZ_'', ''CNSZ.'', ''CNSZ:'', ''CNSZ_''] \<or>
            list_ex (ends_with clean) [''.SZ'', '':SZ'', ''_SZ''] then ''SZ''
         else
           let raw = (case first_some (map strip_prefix [''CN.'', ''CN:'', ''CN_'']) clean of Some r \<Rightarrow> r | None \<Rightarrow> clean);
               digits = (case first_some (map strip_suffix [''.CN'', '':CN'']) raw of Some d \<Rightarrow> d | None \<Rightarrow> raw)
           in if list_ex (starts_with digits) [''6'', ''9'', ''5'', ''11'', ''132'', ''73'', ''70'', ''71''] then ''SH'' else ''SZ'')"

text \<open>The two parts of a qualified symbol, prefix first, whichever way round it was written.\<close>

definition qualified_parts :: "'d decimal_lib \<Rightarrow> string \<Rightarrow> string \<Rightarrow> catalog_error + string \<times> string" where
  "qualified_parts D first second =
     (let f = trim first; sec = trim second
      in if f = [] \<or> sec = [] then Inl MissingSymbolOrCode
         else let (p, c) = (if \<not> is_supported_market D (upper f) \<and> is_supported_market D (upper sec) then (sec, f) else (f, sec))
              in if \<not> is_supported_market D p then Inl (UnsupportedMarket p) else Inr (p, c))"

definition instrument_parts :: "'d decimal_lib \<Rightarrow> string option \<Rightarrow> string option \<Rightarrow> catalog_error + string \<times> string" where
  "instrument_parts D market symbol =
     (let qualified = (\<lambda>s. split_once (CHR ''.'') (replace_chars (\<lambda>c. c = CHR '':'') (CHR ''.'') s))
      in case (market, symbol) of
           (Some m, Some s) \<Rightarrow>
             (case qualified s of
                Some (first, second) \<Rightarrow>
                  rbind (qualified_parts D first second) (\<lambda>(p, c).
                  if \<not> check_market_compatibility D m p then Inl (MarketMismatch m s) else Inr (p, c))
              | None \<Rightarrow> Inr (m, s))
         | (None, Some s) \<Rightarrow>
             (case qualified s of
                Some (first, second) \<Rightarrow> qualified_parts D first second
              | None \<Rightarrow> Inr (''US'', s))
         | (Some _, None) \<Rightarrow> Inl MissingSymbolOrCode
         | (None, None) \<Rightarrow> Inl MissingSymbolOrCode)"

definition instrument_in :: "string \<Rightarrow> string \<Rightarrow> string \<Rightarrow> normalized_instrument" where
  "instrument_in market prefix code =
     \<lparr>ni_code = code, ni_instrument_id = prefix @ ''.'' @ code, ni_market = market, ni_prefix = prefix,
      ni_resolved_market = market, ni_symbol = prefix @ ''.'' @ code\<rparr>"

definition hk_code :: "string \<Rightarrow> string" where
  "hk_code s = (if all_digits s \<and> length s < 5 then pad_zero 5 s else s)"

definition instrument_of :: "string \<Rightarrow> string \<Rightarrow> catalog_error + normalized_instrument" where
  "instrument_of m s =
     (if m = ''CN'' then Inr (instrument_in ''CN'' (infer_cn_prefix s) s)
      else if m \<in> set [''SH'', ''CNSH'', ''SSE'', ''SHH'', ''SHSE'', ''SS''] then Inr (instrument_in ''CN'' ''SH'' s)
      else if m \<in> set [''SZ'', ''CNSZ'', ''SZSE'', ''SHZ'', ''SHE''] then Inr (instrument_in ''CN'' ''SZ'' s)
      else if m \<in> set [''HK'', ''HKEX'', ''HKG''] then Inr (instrument_in ''HK'' ''HK'' (hk_code s))
      else if m \<in> set [''US'', ''NYSE'', ''NASDAQ'', ''AMEX'', ''USA''] then Inr (instrument_in ''US'' ''US'' s)
      else if m \<in> set auxiliary_markets then Inr (instrument_in m m s)
      else Inl (UnsupportedMarket m))"

definition normalize_instrument :: "'d decimal_lib \<Rightarrow> string option \<Rightarrow> string option \<Rightarrow> catalog_error + normalized_instrument" where
  "normalize_instrument D market symbol =
     (let raw_market = opt_filter (\<lambda>m. m \<noteq> []) (map_option trim market);
          raw_symbol = opt_filter (\<lambda>s. s \<noteq> []) (map_option trim symbol)
      in case opt_filter (\<lambda>m. \<not> is_supported_market D m) raw_market of
           Some m \<Rightarrow> Inl (UnsupportedMarket m)
         | None \<Rightarrow>
             rbind (instrument_parts D raw_market raw_symbol) (\<lambda>(m, s).
             if s = [] then Inl MissingSymbolOrCode else instrument_of (upper m) (upper s)))"

section \<open>Known markets\<close>

lemmas market_rules = hk_market_rule_def us_market_rule_def cn_market_rule_def sh_market_rule_def sz_market_rule_def

lemma find_known:
  assumes "rule \<in> set (default_markets D)" and "upper (trim n) = mr_code rule" and "mr_code rule \<noteq> []"
  shows "find_market_rule D n \<noteq> None"
proof -
  have "List.find (\<lambda>r. eq_ignore_case (mr_code r) (mr_code rule) \<or> eq_ignore_case (mr_market r) (mr_code rule)) (default_markets D) \<noteq> None"
    using assms(1) by (auto simp: find_None_iff)
  then show ?thesis using assms(2,3) by (auto simp: find_market_rule_def Let_def split: option.splits)
qed

lemma code_trims: "upper (trim ''SH'') = ''SH''" "upper (trim ''SZ'') = ''SZ''" "upper (trim ''HK'') = ''HK''"
  "upper (trim ''US'') = ''US''" "upper (trim ''CN'') = ''CN''" "upper (trim ''SG'') = ''SG''" "upper (trim ''JP'') = ''JP''"
  "upper (trim ''AU'') = ''AU''" "upper (trim ''MY'') = ''MY''" "upper (trim ''CA'') = ''CA''"
  by code_simp+

definition canonical_prefixes :: "string list" where
  "canonical_prefixes = [''SH'', ''SZ'', ''HK'', ''US''] @ auxiliary_markets"

lemma prefix_trims: "P \<in> set canonical_prefixes \<Longrightarrow> upper P = P \<and> trim P = P"
proof -
  have "list_all (\<lambda>P. upper P = P \<and> trim P = P) canonical_prefixes" by code_simp
  then show "P \<in> set canonical_prefixes \<Longrightarrow> upper P = P \<and> trim P = P" by (simp add: list_all_iff)
qed

lemma prefix_shape: "P \<in> set canonical_prefixes \<Longrightarrow> \<exists>a b. P = [a, b] \<and> solid a \<and> CHR ''.'' \<notin> set P \<and> CHR '':'' \<notin> set P"
proof -
  have "list_all (\<lambda>P. length P = 2 \<and> list_all solid P \<and> CHR ''.'' \<notin> set P \<and> CHR '':'' \<notin> set P) canonical_prefixes"
    unfolding solid_def ws1_def byte_def by code_simp
  then show "P \<in> set canonical_prefixes \<Longrightarrow> \<exists>a b. P = [a, b] \<and> solid a \<and> CHR ''.'' \<notin> set P \<and> CHR '':'' \<notin> set P"
    by (auto simp: list_all_iff length_Suc_conv numeral_2_eq_2)
qed

lemma known_codes: "is_supported_market D ''CN''" "is_supported_market D ''HK''" "is_supported_market D ''US''"
proof -
  have "find_market_rule D ''CN'' \<noteq> None" "find_market_rule D ''HK'' \<noteq> None" "find_market_rule D ''US'' \<noteq> None"
    using find_known [of "cn_market_rule D" D "''CN''"] find_known [of "hk_market_rule D" D "''HK''"] find_known [of "us_market_rule D" D "''US''"]
    by (simp_all add: default_markets_def code_trims) (simp_all add: market_rules)
  then show "is_supported_market D ''CN''" "is_supported_market D ''HK''" "is_supported_market D ''US''"
    by (simp_all add: is_supported_market_def code_trims Let_def)
qed

lemma supported_prefix:
  assumes "P \<in> set canonical_prefixes"
  shows "is_supported_market D P"
proof -
  have "find_market_rule D ''SH'' \<noteq> None" "find_market_rule D ''SZ'' \<noteq> None"
    using find_known [of "sh_market_rule D" D "''SH''"] find_known [of "sz_market_rule D" D "''SZ''"]
    by (simp_all add: default_markets_def code_trims) (simp_all add: market_rules)
  then have "is_supported_market D ''SH''" "is_supported_market D ''SZ''"
    by (simp_all add: is_supported_market_def code_trims Let_def)
  moreover have "is_supported_market D m" if "m \<in> set auxiliary_markets" for m
    using that prefix_trims [of m] unfolding is_supported_market_def Let_def is_auxiliary_market_def
    by (auto simp: canonical_prefixes_def auxiliary_markets_def)
  ultimately show ?thesis using assms known_codes by (auto simp: canonical_prefixes_def)
qed

lemma cn_compatible:
  assumes "P = ''SH'' \<or> P = ''SZ''"
  shows "check_market_compatibility D ''CN'' P"
proof -
  have ne: "\<not> eq_ignore_case ''HK'' ''CN''" "\<not> eq_ignore_case ''US'' ''CN''" "\<not> eq_ignore_case ''HK'' ''SH''" "\<not> eq_ignore_case ''US'' ''SH''"
    "\<not> eq_ignore_case ''CN'' ''SH''" "\<not> eq_ignore_case ''HK'' ''SZ''" "\<not> eq_ignore_case ''US'' ''SZ''" "\<not> eq_ignore_case ''CN'' ''SZ''"
    "\<not> eq_ignore_case ''SH'' ''SZ''"
    by code_simp+
  have codes: "mr_code (hk_market_rule D) = ''HK''" "mr_market (hk_market_rule D) = ''HK''" "mr_code (us_market_rule D) = ''US''"
    "mr_market (us_market_rule D) = ''US''" "mr_code (cn_market_rule D) = ''CN''" "mr_market (cn_market_rule D) = ''CN''"
    "mr_code (sh_market_rule D) = ''SH''" "mr_market (sh_market_rule D) = ''SH''" "mr_code (sz_market_rule D) = ''SZ''"
    "mr_child_markets (cn_market_rule D) = [''SH'', ''SZ'']"
    by (simp_all add: market_rules)
  have "find_market_rule D ''CN'' = Some (cn_market_rule D)" "find_market_rule D ''SH'' = Some (sh_market_rule D)"
    "find_market_rule D ''SZ'' = Some (sz_market_rule D)"
    by (simp_all add: find_market_rule_def default_markets_def code_trims codes ne Let_def)
  with assms show ?thesis by (auto simp: check_market_compatibility_def code_trims codes Let_def)
qed

section \<open>Identifiers are stable\<close>

definition plain_code :: "string \<Rightarrow> bool" where
  "plain_code c \<longleftrightarrow> trim c = c \<and> c \<noteq> [] \<and> CHR '':'' \<notin> set c"

lemma set_trim: "set (trim s) \<subseteq> set s"
proof -
  have "set (trim_start s) \<subseteq> set s"
    using strip_suffix [of s ws2 ws3] unfolding trim_start_def by (metis Un_upper2 set_append)
  moreover have "set (trim_end t) \<subseteq> set t" for t
    using trim_end_prefix [of t] by (metis Un_upper1 set_append)
  ultimately show ?thesis unfolding trim_def by blast
qed

lemma replace_none: "c \<notin> set s \<Longrightarrow> replace_chars (\<lambda>x. x = c) r s = s"
  by (induction s) (auto simp: replace_chars_def)

lemma replace_colon: "CHR '':'' \<notin> set (replace_chars (\<lambda>x. x = CHR '':'') (CHR ''.'') s)"
  by (auto simp: replace_chars_def)

lemma replace_dot: "CHR ''.'' \<notin> set (replace_chars (\<lambda>x. x = CHR '':'') (CHR ''.'') s) \<Longrightarrow> CHR '':'' \<notin> set s"
  by (force simp: replace_chars_def)

lemma qualified_plain:
  assumes "qualified_parts D first second = Inr (p, c)" and "CHR '':'' \<notin> set first" and "CHR '':'' \<notin> set second"
  shows "plain_code c"
proof -
  have "c = trim first \<or> c = trim second" and "c \<noteq> []"
    using assms(1) by (auto simp: qualified_parts_def Let_def split: if_splits prod.splits)
  with assms(2,3) set_trim show ?thesis unfolding plain_code_def by auto
qed

lemma split_no_colon:
  assumes "split_once (CHR ''.'') (replace_chars (\<lambda>c. c = CHR '':'') (CHR ''.'') s) = Some (first, second)"
  shows "CHR '':'' \<notin> set first \<and> CHR '':'' \<notin> set second"
  using assms replace_colon [of s] by (auto simp: split_once_Some_iff)

lemma parts_plain:
  assumes "instrument_parts D m (Some s) = Inr (p, c)" and "trim s = s" and "s \<noteq> []"
  shows "plain_code c"
proof (cases "split_once (CHR ''.'') (replace_chars (\<lambda>c. c = CHR '':'') (CHR ''.'') s)")
  case None
  then have "CHR ''.'' \<notin> set (replace_chars (\<lambda>c. c = CHR '':'') (CHR ''.'') s)" by (simp add: split_once_None_iff)
  then have "CHR '':'' \<notin> set s" by (rule replace_dot)
  moreover have "c = s" using None assms(1) by (cases m) (simp_all add: instrument_parts_def)
  ultimately show ?thesis using assms(2,3) by (simp add: plain_code_def)
next
  case (Some fs)
  obtain first second where fs: "fs = (first, second)" by fastforce
  have "qualified_parts D first second = Inr (p, c)"
    using Some fs assms(1) by (cases m) (auto simp: instrument_parts_def result_simps split: if_splits)
  then show ?thesis using split_no_colon [of s first second] Some fs by (intro qualified_plain) auto
qed

lemma upper_char_colon [simp]: "upper_char x = CHR '':'' \<longleftrightarrow> x = CHR '':''"
proof -
  have colon: "byte (CHR '':'') = 58" by (simp add: byte_def)
  have "upper_char x = CHR '':'' \<longleftrightarrow> byte (upper_char x) = 58" by (simp add: colon flip: byte_inject)
  also have "\<dots> \<longleftrightarrow> byte x = 58" by (auto simp: byte_upper_char)
  also have "\<dots> \<longleftrightarrow> x = CHR '':''" by (simp add: colon flip: byte_inject)
  finally show ?thesis .
qed

lemma colon_upper: "CHR '':'' \<in> set (upper c) \<longleftrightarrow> CHR '':'' \<in> set c"
  unfolding upper_def set_map image_iff by (metis upper_char_colon)

lemma plain_upper: "plain_code c \<Longrightarrow> plain_code (upper c)"
  by (simp add: plain_code_def colon_upper)

lemma digits_solid: "all_digits s \<Longrightarrow> list_all solid s"
  by (auto simp: all_digits_def list_all_iff is_digit_def solid_def ws1_def)

lemma digits_upper: "all_digits s \<Longrightarrow> upper s = s"
proof -
  have "upper_char c = c" if "is_digit c" for c
    using byte_inject [of "upper_char c" c] that by (simp add: byte_upper_char is_digit_def)
  then show "all_digits s \<Longrightarrow> upper s = s" by (simp add: upper_def all_digits_def list_all_iff map_idI)
qed

lemma digits_plain: "all_digits s \<Longrightarrow> s \<noteq> [] \<Longrightarrow> plain_code s"
  by (auto simp: plain_code_def trim_solid digits_solid) (auto simp: all_digits_def list_all_iff is_digit_def byte_def)

lemma hk_code_stable:
  assumes "plain_code s" and "upper s = s"
  shows "plain_code (hk_code s) \<and> upper (hk_code s) = hk_code s \<and> hk_code (hk_code s) = hk_code s"
proof (cases "all_digits s \<and> length s < 5")
  case True
  then have "hk_code s = pad_zero 5 s" and "all_digits (pad_zero 5 s)" and "length (pad_zero 5 s) = 5"
    by (simp_all add: hk_code_def pad_zero_def)
  moreover from this have "pad_zero 5 s \<noteq> []" by auto
  ultimately show ?thesis using digits_plain digits_upper by (simp add: hk_code_def)
next
  case False
  then have "hk_code s = s" by (simp only: hk_code_def if_False)
  with assms show ?thesis by simp
qed

lemma infer_cn_prefix_cases: "infer_cn_prefix s = ''SH'' \<or> infer_cn_prefix s = ''SZ''"
  by (simp add: infer_cn_prefix_def Let_def)

lemma instrument_of_cases:
  assumes "instrument_of m s = Inr n"
  obtains (cn) "m = ''CN''" "n = instrument_in ''CN'' (infer_cn_prefix s) s"
    | (sh) "n = instrument_in ''CN'' ''SH'' s"
    | (sz) "n = instrument_in ''CN'' ''SZ'' s"
    | (hk) "n = instrument_in ''HK'' ''HK'' (hk_code s)"
    | (us) "n = instrument_in ''US'' ''US'' s"
    | (aux) "m \<in> set auxiliary_markets" "n = instrument_in m m s"
proof -
  note d = instrument_of_def
  consider "m = ''CN''" | "m \<noteq> ''CN''" "m \<in> set [''SH'', ''CNSH'', ''SSE'', ''SHH'', ''SHSE'', ''SS'']"
    | "m \<noteq> ''CN''" "m \<notin> set [''SH'', ''CNSH'', ''SSE'', ''SHH'', ''SHSE'', ''SS'']" by blast
  then show thesis
  proof cases
    case 1
    with assms have "n = instrument_in ''CN'' (infer_cn_prefix s) s" unfolding d by simp
    with 1 show thesis by (rule cn)
  next
    case 2
    with assms show thesis by (intro sh) (simp only: d if_True if_False, simp)
  next
    case 3
    note A = this
    show thesis
    proof (cases "m \<in> set [''SZ'', ''CNSZ'', ''SZSE'', ''SHZ'', ''SHE'']")
      case True
      with A assms show thesis by (intro sz) (simp only: d if_True if_False, simp)
    next
      case F: False
      show thesis
      proof (cases "m \<in> set [''HK'', ''HKEX'', ''HKG'']")
        case True
        with A F assms show thesis by (intro hk) (simp only: d if_True if_False, simp)
      next
        case G: False
        show thesis
        proof (cases "m \<in> set [''US'', ''NYSE'', ''NASDAQ'', ''AMEX'', ''USA'']")
          case True
          with A F G assms show thesis by (intro us) (simp only: d if_True if_False, simp)
        next
          case H: False
          with A F G assms have "(if m \<in> set auxiliary_markets then Inr (instrument_in m m s) else Inl (UnsupportedMarket m)) = Inr n"
            unfolding d by (simp only: if_False)
          then show thesis using aux by (cases "m \<in> set auxiliary_markets") auto
        qed
      qed
    qed
  qed
qed

lemma instrument_of_prefix:
  "instrument_of ''SH'' s = Inr (instrument_in ''CN'' ''SH'' s)" "instrument_of ''SZ'' s = Inr (instrument_in ''CN'' ''SZ'' s)"
  "instrument_of ''HK'' s = Inr (instrument_in ''HK'' ''HK'' (hk_code s))" "instrument_of ''US'' s = Inr (instrument_in ''US'' ''US'' s)"
  by (simp_all add: instrument_of_def)

lemma instrument_of_auxiliary: "m \<in> set auxiliary_markets \<Longrightarrow> instrument_of m s = Inr (instrument_in m m s)"
proof -
  have "list_all (\<lambda>m. instrument_of m s = Inr (instrument_in m m s)) auxiliary_markets"
    by (simp add: auxiliary_markets_def instrument_of_def)
  then show "m \<in> set auxiliary_markets \<Longrightarrow> instrument_of m s = Inr (instrument_in m m s)" by (simp add: list_all_iff)
qed

lemma canonical_simps:
  "''SH'' \<in> set canonical_prefixes" "''SZ'' \<in> set canonical_prefixes" "''HK'' \<in> set canonical_prefixes" "''US'' \<in> set canonical_prefixes"
  "m \<in> set auxiliary_markets \<Longrightarrow> m \<in> set canonical_prefixes"
  by (simp_all add: canonical_prefixes_def)

lemma auxiliary_not_cn: "m \<in> set auxiliary_markets \<Longrightarrow> m \<noteq> ''SH'' \<and> m \<noteq> ''SZ''"
proof -
  have "list_all (\<lambda>m. m \<noteq> ''SH'' \<and> m \<noteq> ''SZ'') auxiliary_markets" by (simp add: auxiliary_markets_def)
  then show "m \<in> set auxiliary_markets \<Longrightarrow> m \<noteq> ''SH'' \<and> m \<noteq> ''SZ''" by (simp add: list_all_iff)
qed

text \<open>What a normalised instrument looks like: a canonical prefix, and a code that normalises to itself.\<close>

definition canonical :: "normalized_instrument \<Rightarrow> string \<Rightarrow> string \<Rightarrow> string \<Rightarrow> bool" where
  "canonical n mk P C \<longleftrightarrow>
     n = instrument_in mk P C \<and> P \<in> set canonical_prefixes \<and> plain_code C \<and> upper C = C \<and> instrument_of P C = Inr n \<and>
     (mk = P \<and> P \<noteq> ''SH'' \<and> P \<noteq> ''SZ'' \<or> mk = ''CN'' \<and> (P = ''SH'' \<or> P = ''SZ''))"

lemma instrument_of_shape:
  assumes "instrument_of m s = Inr n" and "plain_code s" and "upper s = s"
  shows "\<exists>mk P C. canonical n mk P C"
  using assms(1)
proof (cases rule: instrument_of_cases)
  case cn
  from infer_cn_prefix_cases [of s] have "canonical n ''CN'' (infer_cn_prefix s) s"
    by (elim disjE) (simp_all add: canonical_def cn assms canonical_simps instrument_of_prefix)
  then show ?thesis by blast
next
  case sh
  have "canonical n ''CN'' ''SH'' s" by (simp add: canonical_def sh assms canonical_simps instrument_of_prefix)
  then show ?thesis by blast
next
  case sz
  have "canonical n ''CN'' ''SZ'' s" by (simp add: canonical_def sz assms canonical_simps instrument_of_prefix)
  then show ?thesis by blast
next
  case hk
  have "canonical n ''HK'' ''HK'' (hk_code s)"
    by (simp add: canonical_def hk hk_code_stable [OF assms(2,3)] canonical_simps instrument_of_prefix)
  then show ?thesis by blast
next
  case us
  have "canonical n ''US'' ''US'' s" by (simp add: canonical_def us assms canonical_simps instrument_of_prefix)
  then show ?thesis by blast
next
  case aux
  have ne: "m \<noteq> ''SH''" "m \<noteq> ''SZ''" using aux(1) auxiliary_not_cn by blast+
  have "canonical n m m s"
    unfolding canonical_def using aux assms canonical_simps(5) instrument_of_auxiliary by (simp add: ne)
  then show ?thesis by blast
qed

lemma qualified_known:
  assumes "P \<in> set canonical_prefixes" and "plain_code C"
  shows "qualified_parts D P C = Inr (P, C)"
  using assms prefix_trims [of P] prefix_shape [of P] supported_prefix [of P D]
  by (auto simp: qualified_parts_def plain_code_def Let_def)

lemma qualified_text:
  assumes "P \<in> set canonical_prefixes" and "plain_code C"
  shows "trim (P @ ''.'' @ C) = P @ ''.'' @ C"
    and "split_once (CHR ''.'') (replace_chars (\<lambda>c. c = CHR '':'') (CHR ''.'') (P @ ''.'' @ C)) = Some (P, C)"
proof -
  obtain a b where P: "P = [a, b]" "solid a" "CHR ''.'' \<notin> set P" "CHR '':'' \<notin> set P" using prefix_shape [OF assms(1)] by blast
  have dot: "solid (CHR ''.'')" by (simp add: solid_def ws1_def byte_def)
  show "trim (P @ ''.'' @ C) = P @ ''.'' @ C"
    using trim_qualified [of a "CHR ''.''" C "[b]"] P dot assms(2) by (simp add: plain_code_def)
  have "replace_chars (\<lambda>c. c = CHR '':'') (CHR ''.'') (P @ ''.'' @ C) = P @ ''.'' @ C"
    by (rule replace_none) (use P assms(2) in \<open>auto simp: plain_code_def\<close>)
  then show "split_once (CHR ''.'') (replace_chars (\<lambda>c. c = CHR '':'') (CHR ''.'') (P @ ''.'' @ C)) = Some (P, C)"
    using P(3) by (simp add: split_once_Some_iff del: set_simps) 
qed

lemma renormalize:
  assumes "canonical n mk P C"
  shows "normalize_instrument D None (Some (P @ ''.'' @ C)) = Inr n" and "normalize_instrument D (Some mk) (Some (P @ ''.'' @ C)) = Inr n"
proof -
  have C: "P \<in> set canonical_prefixes" "plain_code C" "upper C = C" "instrument_of P C = Inr n" "C \<noteq> []"
    and mk: "mk = P \<or> mk = ''CN'' \<and> (P = ''SH'' \<or> P = ''SZ'')"
    using assms by (auto simp: canonical_def plain_code_def)
  note parts = qualified_text [OF C(1,2)] qualified_known [OF C(1,2)]
  have ne: "P @ ''.'' @ C \<noteq> []" and up: "upper P = P" using prefix_trims C(1) by auto
  have mkt: "trim mk = mk \<and> mk \<noteq> [] \<and> is_supported_market D mk \<and> check_market_compatibility D mk P"
    using mk
  proof
    assume "mk = P"
    then show ?thesis using C(1) prefix_trims [of P] prefix_shape [of P] supported_prefix by (auto simp: check_market_compatibility_def)
  next
    assume "mk = ''CN'' \<and> (P = ''SH'' \<or> P = ''SZ'')"
    moreover have "trim ''CN'' = ''CN''" by code_simp
    ultimately show ?thesis using cn_compatible [of P D] known_codes by auto
  qed
  show "normalize_instrument D None (Some (P @ ''.'' @ C)) = Inr n"
    using parts(1,2) parts(3) [of D] ne C up by (simp add: normalize_instrument_def instrument_parts_def result_simps opt_filter_def)
  show "normalize_instrument D (Some mk) (Some (P @ ''.'' @ C)) = Inr n"
    using parts(1,2) parts(3) [of D] ne C up mkt by (simp add: normalize_instrument_def instrument_parts_def result_simps opt_filter_def)
qed

lemma normalized_canonical:
  assumes "normalize_instrument D market symbol = Inr n"
  shows "\<exists>mk P C. canonical n mk P C"
proof -
  obtain m s where parts: "instrument_parts D (opt_filter (\<lambda>m. m \<noteq> []) (map_option trim market)) (opt_filter (\<lambda>s. s \<noteq> []) (map_option trim symbol)) = Inr (m, s)"
    and n: "instrument_of (upper m) (upper s) = Inr n"
    using assms by (auto simp: normalize_instrument_def Let_def rbind_Inr_iff split: option.splits if_splits)
  obtain t where t: "opt_filter (\<lambda>s. s \<noteq> []) (map_option trim symbol) = Some t"
    using parts by (cases "opt_filter (\<lambda>s. s \<noteq> []) (map_option trim symbol)") (auto simp: instrument_parts_def split: option.splits)
  then have "trim t = t" and "t \<noteq> []" by (auto simp: opt_filter_Some_iff)
  then have "plain_code s" using parts_plain parts unfolding t by blast
  then show ?thesis using instrument_of_shape [OF n plain_upper upper_idem] by blast
qed

text \<open>The identifier of a normalised instrument is stable: normalising it again, on its own or
  together with the market it was given, returns the same instrument.
\<close>

theorem normalized_instrument_stable:
  assumes "normalize_instrument D market symbol = Inr n"
  shows "normalize_instrument D None (Some (ni_instrument_id n)) = Inr n \<and>
    normalize_instrument D (Some (ni_market n)) (Some (ni_instrument_id n)) = Inr n"
proof -
  obtain mk P C where c: "canonical n mk P C" using normalized_canonical [OF assms] by blast
  then have "ni_instrument_id n = P @ ''.'' @ C" and "ni_market n = mk" by (simp_all add: canonical_def instrument_in_def)
  then show ?thesis using renormalize [OF c, of D] by simp
qed

lemma sample_normalized:
  "normalize_instrument D (Some '' cn'') (Some ''600519'') = Inr (instrument_in ''CN'' ''SH'' ''600519'')"
  by code_simp

theorem normalized_instrument_stable_witness:
  "\<exists>n. normalize_instrument dec28 (Some '' cn'') (Some ''600519'') = Inr n \<and> ni_instrument_id n = ''SH.600519'' \<and>
     normalize_instrument dec28 (Some (ni_market n)) (Some (ni_instrument_id n)) = Inr n"
  using normalized_instrument_stable [OF sample_normalized [of dec28]] sample_normalized [of dec28] by (simp add: instrument_in_def)

text \<open>
  A code written with its exchange behind the market, as in \<open>CN.SH.600519\<close>, keeps the exchange in
  the code, and the identifier carries it twice.
\<close>

theorem nested_prefix_doubles:
  "map_sum id ni_instrument_id (normalize_instrument D None (Some ''CN.SH.600519'')) = Inr ''SH.SH.600519''"
  by code_simp

end
