(* ===== verification/Pine_Lexer.thy ===== *)
theory Pine_Lexer
  imports Rust_Strings
begin

text \<open>
  \<open>crates/jftrade-strategy/src/pine/lexer.rs\<close>: the lexer of the executable Pine subset, one token
  stream for each line. A Rust \<open>char\<close> is the sequence of its UTF-8 bytes.
\<close>

section \<open>Characters\<close>

type_synonym rchar = string

definition char_len :: "char \<Rightarrow> nat" where
  "char_len c = (if byte c < 192 then 1 else if byte c < 224 then 2 else if byte c < 240 then 3 else 4)"

fun chars :: "string \<Rightarrow> rchar list" where
  "chars [] = []"
| "chars (c # s) = (c # take (char_len c - 1) s) # chars (drop (char_len c - 1) s)"

fun is_whitespace :: "rchar \<Rightarrow> bool" where
  "is_whitespace [a] = ws1 a"
| "is_whitespace [a, b] = ws2 a b"
| "is_whitespace [a, b, c] = ws3 a b c"
| "is_whitespace _ = False"

definition ascii_digit :: "rchar \<Rightarrow> bool" where
  "ascii_digit c \<longleftrightarrow> (case c of [a] \<Rightarrow> is_digit a | _ \<Rightarrow> False)"

definition ascii_letter :: "rchar \<Rightarrow> bool" where
  "ascii_letter c \<longleftrightarrow> (case c of [a] \<Rightarrow> 65 \<le> byte a \<and> byte a \<le> 90 \<or> 97 \<le> byte a \<and> byte a \<le> 122 | _ \<Rightarrow> False)"

definition word_char :: "rchar \<Rightarrow> bool" where
  "word_char c \<longleftrightarrow> ascii_letter c \<or> ascii_digit c \<or> c = ''_''"

definition quote_char :: rchar where
  "quote_char = [char_of (34 :: nat)]"

definition escape_char :: rchar where
  "escape_char = [char_of (92 :: nat)]"

definition newline_char :: rchar where
  "newline_char = [char_of (10 :: nat)]"

text \<open>\<open>str::lines\<close>: a line ends with a line feed, which may follow a carriage return.\<close>

fun split_lines :: "string \<Rightarrow> string list" where
  "split_lines pieces = split_on (\<lambda>c. byte c = 10) pieces"

definition strip_return :: "string \<Rightarrow> string" where
  "strip_return s = (if s \<noteq> [] \<and> byte (last s) = 13 then butlast s else s)"

definition lines_of :: "string \<Rightarrow> string list" where
  "lines_of s =
     (let pieces = split_lines s; last_piece = last pieces
      in map strip_return (butlast pieces) @ (if last_piece = [] then [] else [last_piece]))"

section \<open>Tokens\<close>

datatype token_kind = Identifier_Token | Number_Token | String_Token | Operator_Token | Punctuation_Token

record token =
  tn_kind :: token_kind
  tn_lexeme :: string
  tn_line :: nat
  tn_column :: nat
  tn_end_column :: nat

record lexed_line =
  ll_number :: nat
  ll_indent :: nat
  ll_text :: string
  ll_tokens :: "token list"

datatype lex_error =
    UnterminatedString nat nat
  | InvalidCharacter nat nat rchar
  | InvalidNumber nat nat

fun lex_error_line :: "lex_error \<Rightarrow> nat" where
  "lex_error_line (UnterminatedString line _) = line"
| "lex_error_line (InvalidCharacter line _ _) = line"
| "lex_error_line (InvalidNumber line _) = line"

text \<open>
  The \<open>Debug\<close> form of a character and of a string escapes what Unicode calls unprintable; it only
  occurs in messages and is a parameter.
\<close>

record debug_lib =
  dbg_char :: "rchar \<Rightarrow> string"
  dbg_str :: "string \<Rightarrow> string"

definition at_position :: "nat \<Rightarrow> nat \<Rightarrow> string" where
  "at_position line column = ''pine line '' @ nat_text line @ '', column '' @ nat_text column @ '': ''"

fun lex_error_text :: "debug_lib \<Rightarrow> lex_error \<Rightarrow> string" where
  "lex_error_text B (UnterminatedString l c) = at_position l c @ ''unterminated string literal''"
| "lex_error_text B (InvalidCharacter l c x) = at_position l c @ ''invalid character '' @ dbg_char B x"
| "lex_error_text B (InvalidNumber l c) = at_position l c @ ''invalid numeric literal''"

definition operators2 :: "string list" where
  "operators2 = [''=>'', '':='', ''=='', ''!='', ''<='', ''>='', ''&&'', ''||'']"

definition operators1 :: "string list" where
  "operators1 = [''+'', ''-'', ''*'', ''/'', ''%'', ''>'', ''<'', ''='', ''!'']"

definition punctuation :: "string list" where
  "punctuation = [''.'', '','', ''('', '')'', ''['', '']'', ''{'', ''}'', '':'', ''?'']"

text \<open>The characters of a string literal after its opening quote, up to and with the closing one.\<close>

fun scan_string :: "bool \<Rightarrow> rchar list \<Rightarrow> nat option" where
  "scan_string escaped [] = None"
| "scan_string escaped (c # cs) =
     (if escaped then map_option Suc (scan_string False cs)
      else if c = escape_char then map_option Suc (scan_string True cs)
      else if c = quote_char then Some 1
      else map_option Suc (scan_string False cs))"

text \<open>The characters of a number; \<open>None\<close> at the second dot.\<close>

fun scan_number :: "nat \<Rightarrow> rchar list \<Rightarrow> nat option" where
  "scan_number dots [] = Some 0"
| "scan_number dots (c # cs) =
     (if c = ''.'' then if 0 < dots then None else map_option Suc (scan_number (Suc dots) cs)
      else if ascii_digit c then map_option Suc (scan_number dots cs)
      else Some 0)"

text \<open>The kind and the number of characters of the token in front.\<close>

definition next_token :: "nat \<Rightarrow> nat \<Rightarrow> rchar \<Rightarrow> rchar list \<Rightarrow> lex_error + token_kind \<times> nat" where
  "next_token number column c cs =
     (if c = quote_char then
        (case scan_string False cs of
           None \<Rightarrow> Inl (UnterminatedString number column)
         | Some n \<Rightarrow> Inr (String_Token, Suc n))
      else if ascii_digit c \<or> c = ''.'' \<and> cs \<noteq> [] \<and> ascii_digit (hd cs) then
        (case scan_number 0 (c # cs) of
           None \<Rightarrow> Inl (InvalidNumber number column)
         | Some n \<Rightarrow> Inr (Number_Token, n))
      else if ascii_letter c \<or> c = ''_'' then Inr (Identifier_Token, Suc (length (takeWhile word_char cs)))
      else if cs \<noteq> [] \<and> c @ hd cs \<in> set operators2 then Inr (Operator_Token, 2)
      else if c \<in> set operators1 then Inr (Operator_Token, 1)
      else if c \<in> set punctuation then Inr (Punctuation_Token, 1)
      else Inl (InvalidCharacter number column c))"

text \<open>The loop of \<open>lex_line\<close> at a cursor; the characters before it have been read.\<close>

fun lex_tokens :: "nat \<Rightarrow> nat \<Rightarrow> rchar list \<Rightarrow> lex_error + token list" where
  "lex_tokens number cursor [] = Inr []"
| "lex_tokens number cursor (c # cs) =
     (if is_whitespace c then lex_tokens number (Suc cursor) cs
      else if c = ''/'' \<and> cs \<noteq> [] \<and> hd cs = ''/'' then Inr []
      else case next_token number (Suc cursor) c cs of
             Inl e \<Rightarrow> Inl e
           | Inr (kind, n) \<Rightarrow>
               map_sum id
                 (\<lambda>ts. \<lparr>tn_kind = kind, tn_lexeme = concat (take n (c # cs)), tn_line = number,
                       tn_column = Suc cursor, tn_end_column = cursor + n + 1\<rparr> # ts)
                 (lex_tokens number (cursor + n) (drop (n - 1) cs)))"

definition indent_char :: "rchar \<Rightarrow> bool" where
  "indent_char c \<longleftrightarrow> c = '' '' \<or> c = [char_of (9 :: nat)]"

definition indent_of :: "rchar list \<Rightarrow> nat" where
  "indent_of cs = sum_list (map (\<lambda>c. if c = '' '' then 1 else 4) (takeWhile indent_char cs))"

definition lex_line :: "nat \<Rightarrow> string \<Rightarrow> lex_error + lexed_line" where
  "lex_line number raw =
     (let cs = chars raw; offset = length (takeWhile indent_char cs); line_text = trim raw
      in map_sum id (\<lambda>ts. \<lparr>ll_number = number, ll_indent = indent_of cs, ll_text = line_text, ll_tokens = ts\<rparr>)
           (if line_text = [] \<or> starts_with line_text ''//'' then Inr []
            else lex_tokens number offset (drop offset cs)))"

fun lex_lines :: "nat \<Rightarrow> string list \<Rightarrow> lex_error + lexed_line list" where
  "lex_lines number [] = Inr []"
| "lex_lines number (raw # rest) =
     rbind (lex_line number raw) (\<lambda>l. map_sum id (\<lambda>ls. l # ls) (lex_lines (Suc number) rest))"

definition lex :: "string \<Rightarrow> lex_error + lexed_line list" where
  "lex source = lex_lines 1 (lines_of source)"

text \<open>\<open>decode_string\<close>: the value of a string literal.\<close>

definition unescape :: "char \<Rightarrow> char" where
  "unescape c =
     (if c = CHR ''n'' then char_of (10 :: nat) else if c = CHR ''r'' then char_of (13 :: nat)
      else if c = CHR ''t'' then char_of (9 :: nat) else c)"

fun decode_chars :: "bool \<Rightarrow> string \<Rightarrow> string" where
  "decode_chars escaped [] = (if escaped then escape_char else [])"
| "decode_chars escaped (c # s) =
     (if escaped then unescape c # decode_chars False s
      else if [c] = escape_char then decode_chars True s
      else c # decode_chars False s)"

definition strip_quotes :: "string \<Rightarrow> string" where
  "strip_quotes s =
     (case strip_prefix quote_char s of
        None \<Rightarrow> s
      | Some r \<Rightarrow> if r \<noteq> [] \<and> [last r] = quote_char then butlast r else s)"

definition decode_string :: "string \<Rightarrow> string" where
  "decode_string s = decode_chars False (strip_quotes s)"

section \<open>Characters and white space\<close>

lemma concat_chars [simp]: "concat (chars s) = s"
  by (induction s rule: chars.induct) simp_all

lemma chars_nonempty: "c \<in> set (chars s) \<Longrightarrow> c \<noteq> []"
  by (induction s rule: chars.induct) auto

text \<open>A character whose length is the one its first byte announces.\<close>

definition whole :: "rchar \<Rightarrow> bool" where
  "whole c \<longleftrightarrow> c \<noteq> [] \<and> length c = char_len (hd c)"

lemma char_len_pos: "0 < char_len c"
  by (simp add: char_len_def)

lemma chars_append: "whole c \<Longrightarrow> chars (c @ s) = c # chars s"
  by (cases c) (auto simp: whole_def)

lemma chars_concat: "list_all whole cs \<Longrightarrow> chars (concat cs) = cs"
  by (induction cs) (simp_all add: chars_append)

lemma whole_ascii: "byte a < 128 \<Longrightarrow> whole [a]"
  by (simp add: whole_def char_len_def)

lemma chars_ascii: "byte a < 128 \<Longrightarrow> chars (a # s) = [a] # chars s"
  using chars_append [of "[a]" s] whole_ascii by simp

lemma byte_sizes:
  "ws1 a \<Longrightarrow> char_len a = 1" "ws2 a b \<Longrightarrow> char_len a = 2" "ws3 a b c \<Longrightarrow> char_len a = 3"
  by (auto simp: ws1_def ws2_def ws3_def char_len_def)

lemma strip_units:
  "ws1 a \<Longrightarrow> strip w2 w3 (a # s) = strip w2 w3 s"
  "\<not> ws1 a \<Longrightarrow> w2 a b \<Longrightarrow> strip w2 w3 (a # b # s) = strip w2 w3 s"
  "\<not> ws1 a \<Longrightarrow> \<not> w2 a b \<Longrightarrow> w3 a b c \<Longrightarrow> strip w2 w3 (a # b # c # s) = strip w2 w3 s"
  by (cases s; cases "tl s"; simp)+

lemma not_ws1: "ws2 a b \<Longrightarrow> \<not> ws1 a" "ws3 a b c \<Longrightarrow> \<not> ws1 a \<and> \<not> ws2 a b"
  by (auto simp: ws1_def ws2_def ws3_def)

lemma is_whitespace_cases:
  assumes "is_whitespace c"
  obtains (one) a where "c = [a]" "ws1 a" | (two) a b where "c = [a, b]" "ws2 a b"
    | (three) a b d where "c = [a, b, d]" "ws3 a b d"
  using assms that by (cases c rule: is_whitespace.cases) auto

lemma trim_start_Cons: "is_whitespace c \<Longrightarrow> trim_start (c @ s) = trim_start s"
  by (elim is_whitespace_cases) (simp_all add: trim_start_def strip_units not_ws1)

lemma first_char_whitespace:
  assumes "is_whitespace (hd (chars (a # s)))"
  shows "trim_start (a # s) = trim_start (drop (char_len a - 1) s)"
proof -
  have "a # s = hd (chars (a # s)) @ drop (char_len a - 1) s" by simp
  then show ?thesis using trim_start_Cons [OF assms] by metis
qed

lemma first_char_solid:
  assumes "\<not> is_whitespace (hd (chars (a # s)))"
  shows "trim_start (a # s) = a # s"
proof -
  have no1: "\<not> ws1 a" using assms byte_sizes(1) [of a] by auto
  have no2: "\<not> ws2 a b" if "s = b # t" for b t using assms byte_sizes(2) [of a b] that by auto
  have no3: "\<not> ws3 a b c" if "s = b # c # t" for b c t
    using assms byte_sizes(3) [of a b c] that by (auto simp: numeral_2_eq_2)
  show ?thesis using no1 no2 no3 unfolding trim_start_def by (cases s; cases "tl s") auto
qed

lemma chars_trim_start: "chars (trim_start s) = dropWhile is_whitespace (chars s)"
proof (induction s rule: chars.induct)
  case 1
  then show ?case by (simp add: trim_start_def)
next
  case (2 c s)
  show ?case
  proof (cases "is_whitespace (hd (chars (c # s)))")
    case True
    then show ?thesis using 2 first_char_whitespace [OF True] by simp
  next
    case False
    then show ?thesis using first_char_solid [OF False] by simp
  qed
qed

inductive blank_units :: "string \<Rightarrow> bool" where
  none: "blank_units []"
| some: "is_whitespace c \<Longrightarrow> blank_units s \<Longrightarrow> blank_units (c @ s)"

lemma blank_units_snoc: "blank_units s \<Longrightarrow> is_whitespace c \<Longrightarrow> blank_units (s @ c)"
proof (induction rule: blank_units.induct)
  case none
  then show ?case using blank_units.some [OF none blank_units.none] by simp
next
  case (some d s)
  then show ?case using blank_units.some [of d "s @ c"] by simp
qed

lemma blank_units_trim_start: "blank_units s \<Longrightarrow> trim_start s = []"
  by (induction rule: blank_units.induct) (simp_all add: trim_start_Cons, simp add: trim_start_def)

lemma blank_units_rev:
  "strip (\<lambda>b a. ws2 a b) (\<lambda>c b a. ws3 a b c) r = [] \<Longrightarrow> blank_units (rev r)"
proof (induction "\<lambda>b a. ws2 a b" "\<lambda>c b a. ws3 a b c" r rule: strip.induct)
  case 1
  then show ?case by (simp add: blank_units.none)
next
  case (2 a)
  then show ?case using blank_units_snoc [OF blank_units.none, of "[a]"] by (simp split: if_splits)
next
  case (3 a b)
  then show ?case
    using blank_units_snoc [OF _, of "[b]" "[a]"] blank_units_snoc [OF blank_units.none, of "[b, a]"] by (auto split: if_splits)
next
  case (4 a b c s)
  then show ?case
    using blank_units_snoc [OF _, of "rev s @ [c, b]" "[a]"] blank_units_snoc [OF _, of "rev s @ [c]" "[b, a]"]
      blank_units_snoc [OF _, of "rev s" "[c, b, a]"] by (auto split: if_splits)
qed

lemma trim_end_Nil: "trim_end s = [] \<Longrightarrow> trim_start s = []"
  using blank_units_rev [of "rev s"] blank_units_trim_start [of s] by (simp add: trim_end_def)

lemma trim_Nil_chars: "trim s = [] \<Longrightarrow> dropWhile is_whitespace (chars s) = []"
  using trim_end_Nil [of "trim_start s"] by (simp add: trim_def trim_start_def flip: chars_trim_start)

lemma trim_comment_chars: "starts_with (trim s) ''//'' \<Longrightarrow> take 2 (dropWhile is_whitespace (chars s)) = [''/'', ''/'']"
proof -
  assume starts: "starts_with (trim s) ''//''"
  obtain q where q: "trim_start s = trim s @ q" using trim_end_prefix unfolding trim_def by blast
  obtain r where "trim s = CHR ''/'' # CHR ''/'' # r"
    using starts by (cases "trim s"; cases "tl (trim s)") (auto simp: starts_with_def split: if_splits)
  with q have "trim_start s = CHR ''/'' # CHR ''/'' # r @ q" by simp
  moreover have "byte (CHR ''/'') < 128" by (simp add: byte_def)
  ultimately have "chars (trim_start s) = ''/'' # ''/'' # chars (r @ q)" by (simp only: chars_ascii)
  then show ?thesis by (simp flip: chars_trim_start)
qed

section \<open>The lexer loses nothing\<close>

definition slice :: "'a list \<Rightarrow> nat \<Rightarrow> nat \<Rightarrow> 'a list" where
  "slice xs a b = take (b - a) (drop a xs)"

text \<open>
  The tokens lie one after the other on the line, each with its own characters as lexeme, with white
  space between them and white space or a comment after the last.
\<close>

fun tiled :: "rchar list \<Rightarrow> nat \<Rightarrow> token list \<Rightarrow> bool" where
  "tiled cs pos [] \<longleftrightarrow> dropWhile is_whitespace (drop pos cs) = [] \<or> take 2 (dropWhile is_whitespace (drop pos cs)) = [''/'', ''/'']"
| "tiled cs pos (t # ts) \<longleftrightarrow>
     pos < tn_column t \<and> tn_column t < tn_end_column t \<and> tn_end_column t \<le> Suc (length cs) \<and>
     list_all is_whitespace (slice cs pos (tn_column t - 1)) \<and>
     tn_lexeme t = concat (slice cs (tn_column t - 1) (tn_end_column t - 1)) \<and>
     tiled cs (tn_end_column t - 1) ts"

definition kind_ok :: "token \<Rightarrow> bool" where
  "kind_ok t \<longleftrightarrow>
     (case tn_kind t of
        Identifier_Token \<Rightarrow> tn_lexeme t \<noteq> [] \<and> list_all (\<lambda>c. word_char [c]) (tn_lexeme t) \<and> \<not> is_digit (hd (tn_lexeme t))
      | Number_Token \<Rightarrow> list_all (\<lambda>c. is_digit c \<or> c = CHR ''.'') (tn_lexeme t) \<and> list_ex is_digit (tn_lexeme t)
                         \<and> length (filter (\<lambda>c. c = CHR ''.'') (tn_lexeme t)) \<le> 1
      | String_Token \<Rightarrow> \<exists>body. tn_lexeme t = quote_char @ body @ quote_char
      | Operator_Token \<Rightarrow> tn_lexeme t \<in> set operators1 \<union> set operators2
      | Punctuation_Token \<Rightarrow> tn_lexeme t \<in> set punctuation)"

lemma drop_Cons_facts:
  assumes "drop pos cs = c # rest"
  shows "drop (Suc pos) cs = rest" "slice cs pos (Suc pos) = [c]" "pos < length cs"
proof -
  show "drop (Suc pos) cs = rest" using assms by (metis drop_Suc list.sel(3) tl_drop)
  show "slice cs pos (Suc pos) = [c]" using assms by (simp add: slice_def)
  show "pos < length cs" using assms by (metis drop_eq_Nil2 list.distinct(1) not_le)
qed

lemma slice_Cons: "drop pos cs = c # rest \<Longrightarrow> pos < b \<Longrightarrow> slice cs pos b = c # slice cs (Suc pos) b"
  using drop_Cons_facts(1) [of pos cs c rest] by (simp add: slice_def take_Cons' Suc_diff_le)

lemma slice_empty [simp]: "slice cs a a = []"
  by (simp add: slice_def)

lemma tiled_skip:
  assumes "drop pos cs = c # rest" and "is_whitespace c" and "tiled cs (Suc pos) ts"
  shows "tiled cs pos ts"
proof (cases ts)
  case Nil
  then show ?thesis using assms drop_Cons_facts(1) [OF assms(1)] by simp
next
  case (Cons t us)
  then show ?thesis using assms slice_Cons [OF assms(1), of "tn_column t - 1"] by auto
qed

lemma scan_string_bounds: "scan_string e cs = Some n \<Longrightarrow> 0 < n \<and> n \<le> length cs"
  by (induction e cs arbitrary: n rule: scan_string.induct) (auto split: if_splits)

lemma scan_number_bounds: "scan_number d cs = Some n \<Longrightarrow> n \<le> length cs"
  by (induction d cs arbitrary: n rule: scan_number.induct) (auto split: if_splits)

lemma next_token_bounds:
  assumes "next_token number column c cs = Inr (kind, n)"
  shows "0 < n \<and> n \<le> Suc (length cs)"
proof -
  have "scan_number 0 (c # cs) = Some 0 \<Longrightarrow> \<not> (ascii_digit c \<or> c = ''.'')" by (auto split: if_splits)
  then show ?thesis
    using assms scan_string_bounds [of False cs] scan_number_bounds [of 0 "c # cs"] length_takeWhile_le [of word_char cs]
    unfolding next_token_def by (auto split: if_splits option.splits simp: Suc_le_eq simp del: scan_number.simps; force)
qed

lemma lex_tokens_tiled:
  assumes "lex_tokens number cursor (drop cursor cs) = Inr ts" and "cursor \<le> length cs"
  shows "tiled cs cursor ts"
  using assms
proof (induction "length cs - cursor" arbitrary: cursor ts rule: less_induct)
  case less
  show ?case
  proof (cases "drop cursor cs")
    case Nil
    then show ?thesis using less.prems by simp
  next
    case (Cons c rest)
    note d = drop_Cons_facts [OF Cons]
    consider (blank) "is_whitespace c" | (comment) "\<not> is_whitespace c" "c = ''/'' \<and> rest \<noteq> [] \<and> hd rest = ''/''"
      | (token) "\<not> is_whitespace c" "\<not> (c = ''/'' \<and> rest \<noteq> [] \<and> hd rest = ''/'')" by blast
    then show ?thesis
    proof cases
      case blank
      then have "lex_tokens number (Suc cursor) (drop (Suc cursor) cs) = Inr ts" using less.prems Cons d by simp
      then have "tiled cs (Suc cursor) ts" by (rule less.hyps [rotated]) (use d in auto)
      then show ?thesis using tiled_skip Cons blank by blast
    next
      case comment
      then show ?thesis using less.prems Cons by (cases rest) auto
    next
      case token
      then obtain kind n us where tok: "next_token number (Suc cursor) c rest = Inr (kind, n)"
        and us: "lex_tokens number (cursor + n) (drop (n - 1) rest) = Inr us"
        and ts: "ts = \<lparr>tn_kind = kind, tn_lexeme = concat (take n (c # rest)), tn_line = number,
                     tn_column = Suc cursor, tn_end_column = cursor + n + 1\<rparr> # us"
        using less.prems(1) unfolding Cons lex_tokens.simps
        by (simp only: if_False) (auto split: sum.splits prod.splits simp: map_sum_def)
      have n: "0 < n" "n \<le> Suc (length rest)" using next_token_bounds [OF tok] by auto
      have len: "length cs - cursor = Suc (length rest)" using Cons by (metis length_Cons length_drop)
      have "drop (n - 1) rest = drop (cursor + n) cs"
        using n Cons by (metis Suc_diff_1 add.commute drop_Suc_Cons drop_drop)
      then have "lex_tokens number (cursor + n) (drop (cursor + n) cs) = Inr us" using us by simp
      then have "tiled cs (cursor + n) us" by (rule less.hyps [rotated]) (use n len in auto)
      moreover have "slice cs cursor (cursor + n) = take n (c # rest)" using Cons by (simp add: slice_def)
      ultimately show ?thesis using ts n len by simp
    qed
  qed
qed

lemma tiled_indent:
  assumes "tiled cs (length (takeWhile indent_char cs)) ts"
  shows "tiled cs 0 ts"
proof -
  have "tiled cs (length (takeWhile indent_char cs) - k) ts" if "k \<le> length (takeWhile indent_char cs)" for k
    using that
  proof (induction k)
    case 0
    then show ?case using assms by simp
  next
    case (Suc k)
    let ?p = "length (takeWhile indent_char cs) - Suc k"
    have "?p < length (takeWhile indent_char cs)" using Suc.prems by simp
    then have "indent_char (cs ! ?p)" and "?p < length cs"
      using nth_mem [of ?p "takeWhile indent_char cs"] set_takeWhileD takeWhile_nth [of ?p indent_char cs]
        length_takeWhile_le [of indent_char cs] by fastforce+
    then have "drop ?p cs = cs ! ?p # drop (Suc ?p) cs" and "is_whitespace (cs ! ?p)"
      by (auto simp: Cons_nth_drop_Suc indent_char_def ws1_def byte_def)
    moreover have "tiled cs (Suc ?p) ts" using Suc by (simp add: Suc_diff_Suc)
    ultimately show ?case by (rule tiled_skip)
  qed
  from this [of "length (takeWhile indent_char cs)"] show ?thesis by simp
qed

text \<open>Every token has the shape of its kind.\<close>

lemma scan_string_body:
  "scan_string e cs = Some n \<Longrightarrow> \<exists>body. take n cs = body @ [quote_char]"
proof (induction e cs arbitrary: n rule: scan_string.induct)
  case (2 e c cs)
  from 2(4) consider m e' where "scan_string e' cs = Some m" "n = Suc m" "\<And>k. scan_string e' cs = Some k \<Longrightarrow> \<exists>body. take k cs = body @ [quote_char]"
    | "c = quote_char" "n = 1"
    using 2(1-3) by (auto split: if_splits)
  then show ?case
  proof cases
    case 1
    then obtain body where "take m cs = body @ [quote_char]" by blast
    then have "take n (c # cs) = (c # body) @ [quote_char]" using 1 by simp
    then show ?thesis by blast
  next
    case 2
    then show ?thesis by auto
  qed
qed simp

lemma scan_number_digits:
  "scan_number d cs = Some n \<Longrightarrow> d \<le> 1 \<Longrightarrow>
     list_all (\<lambda>c. ascii_digit c \<or> c = ''.'') (take n cs) \<and> length (filter (\<lambda>c. c = ''.'') (take n cs)) \<le> 1 - d"
proof (induction d cs arbitrary: n rule: scan_number.induct)
  case (2 d c cs)
  consider (dot) "c = ''.''" "d = 0" | (digit) "c \<noteq> ''.''" "ascii_digit c" | (stop) "n = 0"
    using 2(3,4) by (auto split: if_splits)
  then show ?case
  proof cases
    case dot
    then obtain m where "scan_number 1 cs = Some m" "n = Suc m" using 2(3) by (auto split: if_splits)
    then show ?thesis using 2(1) [of m] dot by auto
  next
    case digit
    then obtain m where "scan_number d cs = Some m" "n = Suc m" using 2(3) by (auto split: if_splits)
    then show ?thesis using 2(2) [of m] digit 2(4) by auto
  next
    case stop
    then show ?thesis by simp
  qed
qed simp

lemma concat_singletons:
  assumes "list_all (\<lambda>c. \<exists>a. c = [a] \<and> P a) cs"
  shows "list_all P (concat cs)" "map (\<lambda>a. [a]) (concat cs) = cs"
  using assms by (induction cs) auto

lemma ascii_digit_iff: "ascii_digit c \<longleftrightarrow> (\<exists>a. c = [a] \<and> is_digit a)"
  by (auto simp: ascii_digit_def split: list.splits)

lemma word_char_iff: "word_char c \<longleftrightarrow> (\<exists>a. c = [a] \<and> word_char [a])"
  by (auto simp: word_char_def ascii_letter_def ascii_digit_def split: list.splits)

lemma number_lexeme:
  assumes "scan_number 0 (c # cs) = Some n" and "ascii_digit c \<or> c = ''.'' \<and> cs \<noteq> [] \<and> ascii_digit (hd cs)"
  shows "kind_ok \<lparr>tn_kind = Number_Token, tn_lexeme = concat (take n (c # cs)), tn_line = l, tn_column = p, tn_end_column = q\<rparr>"
proof -
  let ?lex = "concat (take n (c # cs))"
  have digits: "list_all (\<lambda>c. ascii_digit c \<or> c = ''.'') (take n (c # cs))"
    "length (filter (\<lambda>c. c = ''.'') (take n (c # cs))) \<le> 1"
    using scan_number_digits [OF assms(1)] by auto
  have "list_all (\<lambda>c. \<exists>a. c = [a] \<and> (is_digit a \<or> a = CHR ''.'')) (take n (c # cs))"
    using digits(1) unfolding list_all_iff ascii_digit_iff by blast
  note conc = concat_singletons [OF this]
  have "length (filter (\<lambda>c. c = CHR ''.'') ?lex) = length (filter (\<lambda>c. c = ''.'') (map (\<lambda>a. [a]) ?lex))"
    by (induction ?lex) (simp_all add: filter_map comp_def)
  then have "length (filter (\<lambda>c. c = CHR ''.'') ?lex) \<le> 1" using digits(2) conc(2) by simp
  moreover have "list_ex is_digit ?lex"
  proof (cases "ascii_digit c")
    case True
    then have "c \<noteq> ''.''" by (auto simp: ascii_digit_def is_digit_def byte_def)
    then have "0 < n" using assms(1) True by (auto split: if_splits)
    then show ?thesis using True by (cases n) (auto simp: ascii_digit_iff)
  next
    case False
    with assms(2) obtain d ds where cs: "c = ''.''" "cs = d # ds" "ascii_digit d" by (cases cs) auto
    then have "d \<noteq> ''.''" by (auto simp: ascii_digit_def is_digit_def byte_def)
    with cs assms(1) obtain m where "n = Suc (Suc m)" by (auto split: if_splits)
    then show ?thesis using cs by (auto simp: ascii_digit_iff)
  qed
  ultimately show ?thesis using conc(1) by (simp add: kind_ok_def)
qed

lemma next_token_kind:
  assumes "next_token number column c cs = Inr (kind, n)"
  shows "kind_ok \<lparr>tn_kind = kind, tn_lexeme = concat (take n (c # cs)), tn_line = l, tn_column = p, tn_end_column = q\<rparr>"
proof -
  consider (str) m where "c = quote_char" "scan_string False cs = Some m" "kind = String_Token" "n = Suc m"
    | (num) "scan_number 0 (c # cs) = Some n" "ascii_digit c \<or> c = ''.'' \<and> cs \<noteq> [] \<and> ascii_digit (hd cs)" "kind = Number_Token"
    | (word) "ascii_letter c \<or> c = ''_''" "\<not> ascii_digit c" "kind = Identifier_Token" "n = Suc (length (takeWhile word_char cs))"
    | (op2) "cs \<noteq> []" "c @ hd cs \<in> set operators2" "kind = Operator_Token" "n = 2"
    | (op1) "c \<in> set operators1" "kind = Operator_Token" "n = 1"
    | (punct) "c \<in> set punctuation" "kind = Punctuation_Token" "n = 1"
    using assms unfolding next_token_def by (simp only: split: if_splits option.splits) auto
  then show ?thesis
  proof cases
    case str
    then obtain body where "take m cs = body @ [quote_char]" using scan_string_body by blast
    then have "concat (take n (c # cs)) = quote_char @ concat body @ quote_char" using str by simp
    then show ?thesis using str by (auto simp: kind_ok_def)
  next
    case num
    then show ?thesis using number_lexeme by simp
  next
    case word
    have "take n (c # cs) = c # takeWhile word_char cs"
      using word by (simp flip: takeWhile_eq_take)
    moreover have "list_all word_char (c # takeWhile word_char cs)"
      using word by (auto simp: word_char_def list_all_iff dest: set_takeWhileD)
    then have "list_all (\<lambda>c. \<exists>a. c = [a] \<and> word_char [a]) (c # takeWhile word_char cs)"
      unfolding list_all_iff using word_char_iff by blast
    moreover obtain a where "c = [a]" "\<not> is_digit a"
      using word(1,2) by (auto simp: ascii_letter_def ascii_digit_def split: list.splits)
    ultimately show ?thesis using concat_singletons(1) word by (fastforce simp: kind_ok_def)
  next
    case op2
    then show ?thesis by (cases cs) (auto simp: kind_ok_def numeral_2_eq_2)
  qed (auto simp: kind_ok_def)
qed

lemma lex_tokens_kinds: "lex_tokens number cursor cs = Inr ts \<Longrightarrow> list_all kind_ok ts"
proof (induction number cursor cs arbitrary: ts rule: lex_tokens.induct)
  case (2 number cursor c cs)
  show ?case
  proof (cases "is_whitespace c \<or> c = ''/'' \<and> cs \<noteq> [] \<and> hd cs = ''/''")
    case True
    then show ?thesis using 2(1,3) by (auto split: if_splits)
  next
    case False
    then obtain kind n us where tok: "next_token number (Suc cursor) c cs = Inr (kind, n)"
      and us: "lex_tokens number (cursor + n) (drop (n - 1) cs) = Inr us"
      and ts: "ts = \<lparr>tn_kind = kind, tn_lexeme = concat (take n (c # cs)), tn_line = number,
                   tn_column = Suc cursor, tn_end_column = cursor + n + 1\<rparr> # us"
      using 2(3) unfolding lex_tokens.simps by (auto split: if_splits sum.splits prod.splits simp: map_sum_def)
    have "list_all kind_ok us" using 2(2) False tok us by blast
    then show ?thesis using next_token_kind [OF tok] ts by simp
  qed
qed simp

text \<open>The lexer loses nothing. The tokens of a line lie one after the other on its characters; each
  has the characters between its columns as lexeme and the shape of its kind, and between them there
  is only white space, after the last white space or a comment.\<close>

theorem lexer_is_lossless:
  "case lex_line number raw of Inl _ \<Rightarrow> True
   | Inr l \<Rightarrow> tiled (chars raw) 0 (ll_tokens l) \<and> list_all kind_ok (ll_tokens l) \<and> ll_number l = number \<and> ll_text l = trim raw"
proof (cases "lex_line number raw")
  case (Inr l)
  let ?offset = "length (takeWhile indent_char (chars raw))"
  have l: "ll_number l = number" "ll_text l = trim raw" using Inr by (auto simp: lex_line_def Let_def map_sum_def split: if_splits sum.splits)
  have "tiled (chars raw) 0 (ll_tokens l) \<and> list_all kind_ok (ll_tokens l)"
  proof (cases "trim raw = [] \<or> starts_with (trim raw) ''//''")
    case True
    then show ?thesis using Inr trim_Nil_chars [of raw] trim_comment_chars [of raw] by (auto simp: lex_line_def Let_def)
  next
    case False
    then have "lex_tokens number ?offset (drop ?offset (chars raw)) = Inr (ll_tokens l)"
      using Inr by (auto simp: lex_line_def Let_def map_sum_def split: sum.splits)
    then show ?thesis using tiled_indent lex_tokens_tiled lex_tokens_kinds length_takeWhile_le by blast
  qed
  then show ?thesis using Inr l by simp
qed simp

section \<open>String literals\<close>

definition utf8 :: "string \<Rightarrow> bool" where
  "utf8 s \<longleftrightarrow> list_all (\<lambda>c. whole c \<and> list_all (\<lambda>b. 128 \<le> byte b) (tl c)) (chars s)"

text \<open>The literal of a text, as characters: a quote, the text with what must be escaped escaped, a quote.\<close>

definition escaped :: "rchar \<Rightarrow> rchar list" where
  "escaped c =
     (if c = newline_char then [escape_char, ''n''] else if c = [char_of (13 :: nat)] then [escape_char, ''r'']
      else if c = [char_of (9 :: nat)] then [escape_char, ''t'']
      else if c = escape_char \<or> c = quote_char then [escape_char, c] else [c])"

definition literal_chars :: "string \<Rightarrow> rchar list" where
  "literal_chars s = quote_char # concat (map escaped (chars s)) @ [quote_char]"

definition literal :: "string \<Rightarrow> string" where
  "literal s = concat (literal_chars s)"

lemma special_chars [simp]:
  "quote_char \<noteq> escape_char" "escape_char \<noteq> quote_char" "escape_char \<noteq> ''n''" "quote_char \<noteq> ''n''"
  "unescape (CHR ''n'') = char_of (10 :: nat)" "unescape (CHR ''r'') = char_of (13 :: nat)" "unescape (CHR ''t'') = char_of (9 :: nat)"
  "unescape (char_of (34 :: nat)) = char_of (34 :: nat)" "unescape (char_of (92 :: nat)) = char_of (92 :: nat)"
  by (simp_all add: quote_char_def escape_char_def unescape_def string_eval)

lemma scan_escaped: "scan_string False (escaped c @ cs) = map_option (\<lambda>n. n + length (escaped c)) (scan_string False cs)"
  by (auto simp: escaped_def map_option.compositionality comp_def)

lemma scan_literal: "scan_string False (concat (map escaped cs) @ quote_char # rest) = Some (Suc (length (concat (map escaped cs))))"
  by (induction cs) (simp_all add: scan_escaped)

lemma decode_plain: "list_all (\<lambda>b. [b] \<noteq> escape_char) c \<Longrightarrow> decode_chars False (c @ s) = c @ decode_chars False s"
  by (induction c) simp_all

lemma decode_escaped:
  assumes "whole c" and "list_all (\<lambda>b. 128 \<le> byte b) (tl c)"
  shows "decode_chars False (concat (escaped c) @ s) = c @ decode_chars False s"
proof (cases "length (escaped c) = 1")
  case True
  then have c: "escaped c = [c]" "c \<noteq> escape_char" by (auto simp: escaped_def split: if_splits)
  have "byte b \<noteq> 92" if "128 \<le> byte b" for b using that by simp
  then have "[b] \<noteq> escape_char" if "128 \<le> byte b" for b using that by (auto simp: escape_char_def)
  then have "list_all (\<lambda>b. [b] \<noteq> escape_char) c"
    using assms c by (cases c) (auto simp: whole_def list_all_iff char_len_def escape_char_def split: if_splits)
  then show ?thesis using c decode_plain by simp
next
  case False
  then show ?thesis
    by (auto simp: escaped_def newline_char_def escape_char_def quote_char_def split: if_splits)
qed

lemma decode_literal:
  "list_all (\<lambda>c. whole c \<and> list_all (\<lambda>b. 128 \<le> byte b) (tl c)) cs \<Longrightarrow>
     decode_chars False (concat (concat (map escaped cs))) = concat cs"
  by (induction cs) (simp_all add: decode_escaped)

lemma whole_specials: "whole quote_char" "whole escape_char" "whole ''n''" "whole ''r''" "whole ''t''"
  by (auto intro!: whole_ascii simp: quote_char_def escape_char_def byte_def)

lemma whole_escaped: "whole c \<Longrightarrow> list_all whole (escaped c)"
  by (simp add: escaped_def whole_specials)

lemma chars_literal:
  assumes "utf8 s"
  shows "chars (literal s @ rest) = literal_chars s @ chars rest"
proof -
  have "list_all whole (concat (map escaped (chars s)))"
    using assms whole_escaped by (auto simp: utf8_def list_all_iff)
  then have lit: "list_all whole (literal_chars s)" by (simp add: literal_chars_def whole_specials)
  have "chars (concat cs @ rest) = cs @ chars rest" if "list_all whole cs" for cs
    using that by (induction cs) (simp_all add: chars_append)
  then show ?thesis using lit by (simp add: literal_def)
qed

lemma strip_quotes_quoted: "strip_quotes (quote_char @ s @ quote_char) = s"
  by (simp add: strip_quotes_def quote_char_def)

text \<open>Every text has a literal: whatever follows it on the line, the lexer reads the literal of a text
  as one string token, whose value is the text.\<close>

theorem string_literal_roundtrip:
  assumes "utf8 s"
  shows "(\<exists>cs. chars (literal s @ rest) = quote_char # cs \<and>
      next_token number column quote_char cs = Inr (String_Token, length (chars (literal s)))) \<and>
    decode_string (literal s) = s"
proof
  let ?body = "concat (map escaped (chars s))"
  have "chars (literal s @ rest) = quote_char # ?body @ quote_char # chars rest"
    using chars_literal [OF assms] by (simp add: literal_chars_def)
  moreover have "length (chars (literal s)) = Suc (Suc (length ?body))"
    using chars_literal [OF assms, of "[]"] by (simp add: literal_chars_def)
  ultimately show "\<exists>cs. chars (literal s @ rest) = quote_char # cs \<and>
      next_token number column quote_char cs = Inr (String_Token, length (chars (literal s)))"
    by (simp add: next_token_def scan_literal)
  have "literal s = quote_char @ concat ?body @ quote_char" by (simp add: literal_def literal_chars_def)
  then show "decode_string (literal s) = s"
    using assms decode_literal [of "chars s"] by (simp add: decode_string_def strip_quotes_quoted utf8_def)
qed

theorem string_literal_roundtrip_witness:
  "decode_string (literal (''a'' @ quote_char @ newline_char)) = ''a'' @ quote_char @ newline_char"
proof -
  have "utf8 (''a'' @ quote_char @ newline_char)"
    by (simp add: utf8_def quote_char_def newline_char_def whole_def char_len_def string_eval)
  from conjunct2 [OF string_literal_roundtrip [OF this, of "[]" 1 1]] show ?thesis .
qed

end
