(* ===== verification/Pine_Expressions.thy ===== *)
theory Pine_Expressions
  imports Pine_Lexer
begin

text \<open>
  The expressions of \<open>crates/jftrade-strategy/src/pine/parser.rs\<close>: their syntax, and the parser of one
  expression by precedence climbing. A cursor into the tokens is the list of the tokens from it on.
  The five functions of the parser that call each other spend one unit of fuel for each call;
  \<open>expression_fuel\<close> is enough for every input.
\<close>

section \<open>Syntax\<close>

datatype binary_op =
    Or_Op | And_Op | Equal | NotEqual | Less | LessEqual | Greater | GreaterEqual
  | Add_Op | Subtract | Multiply | Divide | Remainder

datatype unary_op = Negate | Not_Op | Positive

record source_range =
  sr_start_line :: nat
  sr_start_column :: nat
  sr_end_line :: nat
  sr_end_column :: nat

datatype expr = Expr (ex_range: source_range) (ex_kind: expr_kind)
  and expr_kind =
    Number_K string
  | String_K string
  | Boolean_K bool
  | Null_K
  | Identifier_K string
  | Unary_K unary_op expr
  | Binary_K expr binary_op expr
  | Ternary_K expr expr expr
  | Member_K expr string
  | Index_K expr expr
  | Call_K string "expr list"
  | Tuple_K "expr list"

definition line_range :: "nat \<Rightarrow> nat \<Rightarrow> nat \<Rightarrow> source_range" where
  "line_range line from to = \<lparr>sr_start_line = line, sr_start_column = from, sr_end_line = line, sr_end_column = to\<rparr>"

definition token_range :: "token \<Rightarrow> source_range" where
  "token_range t = line_range (tn_line t) (tn_column t) (tn_end_column t)"

definition merge_ranges :: "source_range \<Rightarrow> source_range \<Rightarrow> source_range" where
  "merge_ranges a b =
     \<lparr>sr_start_line = sr_start_line a, sr_start_column = sr_start_column a,
      sr_end_line = sr_end_line b, sr_end_column = sr_end_column b\<rparr>"

record parse_error =
  pe_code_name :: string
  pe_message :: string
  pe_line :: nat
  pe_column :: nat

section \<open>Display\<close>

fun binary_debug :: "binary_op \<Rightarrow> string" where
  "binary_debug Or_Op = ''Or''" | "binary_debug And_Op = ''And''" | "binary_debug Equal = ''Equal''"
| "binary_debug NotEqual = ''NotEqual''" | "binary_debug Less = ''Less''" | "binary_debug LessEqual = ''LessEqual''"
| "binary_debug Greater = ''Greater''" | "binary_debug GreaterEqual = ''GreaterEqual''" | "binary_debug Add_Op = ''Add''"
| "binary_debug Subtract = ''Subtract''" | "binary_debug Multiply = ''Multiply''" | "binary_debug Divide = ''Divide''"
| "binary_debug Remainder = ''Remainder''"

fun unary_debug :: "unary_op \<Rightarrow> string" where
  "unary_debug Negate = ''Negate''" | "unary_debug Not_Op = ''Not''" | "unary_debug Positive = ''Positive''"

fun show_expr :: "expr \<Rightarrow> string"
  and show_kind :: "expr_kind \<Rightarrow> string" where
  "show_expr (Expr r k) = show_kind k"
| "show_kind (Number_K v) = v"
| "show_kind (String_K v) = quote_char @ v @ quote_char"
| "show_kind (Boolean_K b) = (if b then ''true'' else ''false'')"
| "show_kind Null_K = ''na''"
| "show_kind (Identifier_K n) = n"
| "show_kind (Unary_K op e) = unary_debug op @ show_expr e"
| "show_kind (Binary_K l op r) = ''('' @ show_expr l @ '' '' @ binary_debug op @ '' '' @ show_expr r @ '')''"
| "show_kind (Ternary_K c t f) = ''('' @ show_expr c @ '' ? '' @ show_expr t @ '' : '' @ show_expr f @ '')''"
| "show_kind (Member_K ob m) = show_expr ob @ ''.'' @ m"
| "show_kind (Index_K ob i) = show_expr ob @ ''['' @ show_expr i @ '']''"
| "show_kind (Call_K c args) = c @ ''('' @ join '','' (map show_expr args) @ '')''"
| "show_kind (Tuple_K items) = ''['' @ join '','' (map show_expr items) @ '']''"

fun expression_name :: "expr \<Rightarrow> string option" where
  "expression_name (Expr r (Identifier_K n)) = Some n"
| "expression_name (Expr r (Member_K ob m)) = map_option (\<lambda>n. n @ ''.'' @ m) (expression_name ob)"
| "expression_name _ = None"

section \<open>The parser\<close>

text \<open>\<open>ExpressionParser::binary_operator\<close>: the operator and its precedence.\<close>

definition binary_table :: "(string \<times> binary_op \<times> nat) list" where
  "binary_table =
     [(''or'', Or_Op, 1), (''||'', Or_Op, 1), (''and'', And_Op, 2), (''&&'', And_Op, 2),
      (''=='', Equal, 3), (''='', Equal, 3), (''!='', NotEqual, 3),
      (''<'', Less, 4), (''<='', LessEqual, 4), (''>'', Greater, 4), (''>='', GreaterEqual, 4),
      (''+'', Add_Op, 5), (''-'', Subtract, 5), (''*'', Multiply, 6), (''/'', Divide, 6), (''%'', Remainder, 6)]"

definition binary_operator :: "token list \<Rightarrow> (binary_op \<times> nat) option" where
  "binary_operator ts = (case ts of [] \<Rightarrow> None | t # _ \<Rightarrow> map_of binary_table (lower (tn_lexeme t)))"

definition is_lexeme :: "string \<Rightarrow> token \<Rightarrow> bool" where
  "is_lexeme v t \<longleftrightarrow> eq_ignore_case (tn_lexeme t) v"

text \<open>\<open>consume\<close>: the tokens after the lexeme, if it is in front.\<close>

definition consume :: "string \<Rightarrow> token list \<Rightarrow> token list option" where
  "consume v ts = (case ts of [] \<Rightarrow> None | t # r \<Rightarrow> if is_lexeme v t then Some r else None)"

definition expression_error :: "nat \<Rightarrow> token list \<Rightarrow> string \<Rightarrow> string \<Rightarrow> parse_error" where
  "expression_error line ts code message =
     \<lparr>pe_code_name = code, pe_message = message, pe_line = line,
      pe_column = (case ts of [] \<Rightarrow> 1 | t # _ \<Rightarrow> tn_column t)\<rparr>"

definition expect :: "debug_lib \<Rightarrow> nat \<Rightarrow> string \<Rightarrow> token list \<Rightarrow> parse_error + token list" where
  "expect B line v ts =
     ok_or (consume v ts) (expression_error line ts ''PINE_EXPRESSION_INVALID'' (''expected '' @ dbg_str B v))"

definition unary_of :: "token \<Rightarrow> unary_op option" where
  "unary_of t =
     (if tn_lexeme t = ''-'' then Some Negate else if tn_lexeme t = ''!'' then Some Not_Op
      else if tn_lexeme t = ''+'' then Some Positive else None)"

text \<open>The expression that a token is by itself.\<close>

definition atom_of :: "token \<Rightarrow> expr option" where
  "atom_of t =
     (case tn_kind t of
        Number_Token \<Rightarrow> Some (Expr (token_range t) (Number_K (tn_lexeme t)))
      | String_Token \<Rightarrow> Some (Expr (token_range t) (String_K (decode_string (tn_lexeme t))))
      | Identifier_Token \<Rightarrow>
          (let l = lower (tn_lexeme t)
           in Some (Expr (token_range t)
                (if l = ''true'' then Boolean_K True else if l = ''false'' then Boolean_K False
                 else if l = ''na'' then Null_K else Identifier_K (tn_lexeme t))))
      | _ \<Rightarrow> None)"

definition is_open :: "string \<Rightarrow> token \<Rightarrow> bool" where
  "is_open v t \<longleftrightarrow> tn_kind t = Punctuation_Token \<and> tn_lexeme t = v"

definition tuple_of :: "token \<Rightarrow> expr list \<Rightarrow> expr" where
  "tuple_of t items = Expr (case items of [] \<Rightarrow> token_range t | i # _ \<Rightarrow> ex_range i) (Tuple_K items)"

definition call_of :: "expr \<Rightarrow> string \<Rightarrow> expr list \<Rightarrow> expr" where
  "call_of e callee args = Expr (merge_ranges (ex_range e) (if args = [] then ex_range e else ex_range (last args))) (Call_K callee args)"

definition unary_expr :: "nat \<Rightarrow> token \<Rightarrow> unary_op \<Rightarrow> expr \<Rightarrow> expr" where
  "unary_expr line t op e = Expr (merge_ranges (line_range line (tn_column t) (tn_end_column t)) (ex_range e)) (Unary_K op e)"

definition binary_expr :: "expr \<Rightarrow> binary_op \<Rightarrow> expr \<Rightarrow> expr" where
  "binary_expr l op r = Expr (merge_ranges (ex_range l) (ex_range r)) (Binary_K l op r)"

definition ternary_expr :: "expr \<Rightarrow> expr \<Rightarrow> expr \<Rightarrow> expr" where
  "ternary_expr c t f = Expr (merge_ranges (ex_range c) (ex_range f)) (Ternary_K c t f)"

definition member_expr :: "expr \<Rightarrow> token \<Rightarrow> expr" where
  "member_expr e m = Expr (merge_ranges (ex_range e) (token_range m)) (Member_K e (tn_lexeme m))"

definition index_expr :: "expr \<Rightarrow> expr \<Rightarrow> expr" where
  "index_expr e i = Expr (merge_ranges (ex_range e) (ex_range i)) (Index_K e i)"

text \<open>Results of the parser; \<open>None\<close> is fuel that ran out.\<close>

type_synonym ('t, 'a) parsing = "(parse_error + 'a \<times> 't list) option"

type_synonym 'a parsed = "(token, 'a) parsing"

definition pbind :: "('t, 'a) parsing \<Rightarrow> ('a \<Rightarrow> 't list \<Rightarrow> ('t, 'b) parsing) \<Rightarrow> ('t, 'b) parsing" where
  "pbind m f = (case m of None \<Rightarrow> None | Some (Inl e) \<Rightarrow> Some (Inl e) | Some (Inr (v, r)) \<Rightarrow> f v r)"

lemma pbind_cong [fundef_cong]:
  "m = m' \<Longrightarrow> (\<And>v r. m' = Some (Inr (v, r)) \<Longrightarrow> f v r = g v r) \<Longrightarrow> pbind m f = pbind m' g"
  by (auto simp: pbind_def split: option.splits sum.splits)

text \<open>A parser that returns and leaves at least \<open>k\<close> elements less than there were.\<close>

definition good :: "nat \<Rightarrow> 't list \<Rightarrow> ('t, 'a) parsing \<Rightarrow> bool" where
  "good k ts p \<longleftrightarrow> (\<exists>res. p = Some res \<and> (\<forall>v r. res = Inr (v, r) \<longrightarrow> length r + k \<le> length ts))"

lemma good_Inl [simp]: "good k ts (Some (Inl e))"
  by (simp add: good_def)

lemma good_Inr [simp]: "good k ts (Some (Inr (v, r))) \<longleftrightarrow> length r + k \<le> length ts"
  by (simp add: good_def)

lemma pbind_simps [simp]:
  "pbind (Some (Inl e)) f = Some (Inl e)" "pbind (Some (Inr (v, r))) f = f v r" "pbind None f = None"
  by (simp_all add: pbind_def)

lemma good_bind:
  "good k ts m \<Longrightarrow> (\<And>v r. length r + k \<le> length ts \<Longrightarrow> good k' ts' (f v r)) \<Longrightarrow> good k' ts' (pbind m f)"
  unfolding good_def [of k ts] by (auto simp: pbind_def split: sum.splits)

lemma good_mono: "good k ts p \<Longrightarrow> length ts + k' \<le> length ts' + k \<Longrightarrow> good k' ts' p"
  by (fastforce simp: good_def)

text \<open>A result with less fuel is none, or the same.\<close>

definition upto_fuel :: "('t, 'a) parsing \<Rightarrow> ('t, 'a) parsing \<Rightarrow> bool" where
  "upto_fuel p q \<longleftrightarrow> p = None \<or> p = q"

lemma upto_refl [simp]: "upto_fuel p p"
  by (simp add: upto_fuel_def)

lemma upto_bind:
  "upto_fuel m m' \<Longrightarrow> (\<And>v r. upto_fuel (f v r) (f' v r)) \<Longrightarrow> upto_fuel (pbind m f) (pbind m' f')"
  by (auto simp: upto_fuel_def pbind_def split: option.splits sum.splits)

lemma upto_cases:
  "(\<And>y. upto_fuel (f y) (f' y)) \<Longrightarrow> upto_fuel g g' \<Longrightarrow>
     upto_fuel (case x of None \<Rightarrow> g | Some y \<Rightarrow> f y) (case x of None \<Rightarrow> g' | Some y \<Rightarrow> f' y)"
  "(\<And>y. upto_fuel (h y) (h' y)) \<Longrightarrow> (\<And>z. upto_fuel (k z) (k' z)) \<Longrightarrow>
     upto_fuel (case y of Inl z \<Rightarrow> k z | Inr w \<Rightarrow> h w) (case y of Inl z \<Rightarrow> k' z | Inr w \<Rightarrow> h' w)"
  by (auto split: option.splits sum.splits)

lemma upto_list_case:
  "upto_fuel g g' \<Longrightarrow> (\<And>t ts. upto_fuel (f t ts) (f' t ts)) \<Longrightarrow>
     upto_fuel (case xs of [] \<Rightarrow> g | t # ts \<Rightarrow> f t ts) (case xs of [] \<Rightarrow> g' | t # ts \<Rightarrow> f' t ts)"
  by (auto split: list.splits)

lemma upto_prod_case:
  "(\<And>a b. upto_fuel (f a b) (f' a b)) \<Longrightarrow> upto_fuel (case x of (a, b) \<Rightarrow> f a b) (case x of (a, b) \<Rightarrow> f' a b)"
  by (auto split: prod.splits)

lemma upto_if: "upto_fuel a a' \<Longrightarrow> upto_fuel b b' \<Longrightarrow> upto_fuel (if c then a else b) (if c then a' else b')"
  by simp

lemmas upto_intros = upto_bind upto_cases upto_list_case upto_prod_case upto_if upto_refl

lemma pbind_Inr: "pbind m f = Some (Inr x) \<longleftrightarrow> (\<exists>v r. m = Some (Inr (v, r)) \<and> f v r = Some (Inr x))"
  by (auto simp: pbind_def split: option.splits sum.splits)

function (sequential) parse_expression :: "debug_lib \<Rightarrow> nat \<Rightarrow> nat \<Rightarrow> nat \<Rightarrow> token list \<Rightarrow> expr parsed"
  and parse_binary :: "debug_lib \<Rightarrow> nat \<Rightarrow> nat \<Rightarrow> nat \<Rightarrow> expr \<Rightarrow> token list \<Rightarrow> expr parsed"
  and parse_prefix :: "debug_lib \<Rightarrow> nat \<Rightarrow> nat \<Rightarrow> token list \<Rightarrow> expr parsed"
  and parse_suffixes :: "debug_lib \<Rightarrow> nat \<Rightarrow> nat \<Rightarrow> expr \<Rightarrow> token list \<Rightarrow> expr parsed"
  and parse_items :: "debug_lib \<Rightarrow> nat \<Rightarrow> nat \<Rightarrow> string \<Rightarrow> token list \<Rightarrow> expr list parsed" where
  "parse_expression B line 0 minimum ts = None"
| "parse_expression B line (Suc n) minimum ts =
     pbind (parse_prefix B line n ts) (\<lambda>first r1.
     pbind (parse_binary B line n minimum first r1) (\<lambda>left r2.
     case (if minimum = 0 then consume ''?'' r2 else None) of
       None \<Rightarrow> Some (Inr (left, r2))
     | Some r3 \<Rightarrow>
         pbind (parse_expression B line n 0 r3) (\<lambda>when_true r4.
         case expect B line '':'' r4 of
           Inl e \<Rightarrow> Some (Inl e)
         | Inr r5 \<Rightarrow> pbind (parse_expression B line n 0 r5) (\<lambda>when_false r6. Some (Inr (ternary_expr left when_true when_false, r6))))))"
| "parse_binary B line 0 minimum left ts = None"
| "parse_binary B line (Suc n) minimum left ts =
     (case binary_operator ts of
        None \<Rightarrow> Some (Inr (left, ts))
      | Some (op, precedence) \<Rightarrow>
          if precedence < minimum then Some (Inr (left, ts))
          else pbind (parse_expression B line n (precedence + 1) (tl ts)) (\<lambda>right r.
               parse_binary B line n minimum (binary_expr left op right) r))"
| "parse_prefix B line 0 ts = None"
| "parse_prefix B line (Suc n) ts =
     (case ts of [] \<Rightarrow> Some (Inl (expression_error line [] ''PINE_EXPRESSION_REQUIRED'' ''expression is required''))
      | t # ts \<Rightarrow>
      case unary_of t of
        Some op \<Rightarrow> pbind (parse_prefix B line n ts) (\<lambda>e r. Some (Inr (unary_expr line t op e, r)))
      | None \<Rightarrow>
          (case atom_of t of
             Some e \<Rightarrow> parse_suffixes B line n e ts
           | None \<Rightarrow>
               if is_open ''('' t then
                 pbind (parse_expression B line n 0 ts) (\<lambda>inner r.
                 case expect B line '')'' r of Inl e \<Rightarrow> Some (Inl e) | Inr r' \<Rightarrow> parse_suffixes B line n inner r')
               else if is_open ''['' t then
                 (case consume '']'' ts of
                    Some r \<Rightarrow> parse_suffixes B line n (tuple_of t []) r
                  | None \<Rightarrow> pbind (parse_items B line n '']'' ts) (\<lambda>items r. parse_suffixes B line n (tuple_of t items) r))
               else Some (Inl (expression_error line (t # ts) ''PINE_EXPRESSION_INVALID'' (''unexpected token '' @ dbg_str B (tn_lexeme t))))))"
| "parse_suffixes B line 0 e ts = None"
| "parse_suffixes B line (Suc n) e ts =
     (case consume ''.'' ts of
        Some r \<Rightarrow>
          (case r of
             m # r' \<Rightarrow>
               if tn_kind m = Identifier_Token then parse_suffixes B line n (member_expr e m) r'
               else Some (Inl (expression_error line r ''PINE_MEMBER_INVALID'' ''member name is required''))
           | [] \<Rightarrow> Some (Inl (expression_error line r ''PINE_MEMBER_INVALID'' ''member name is required'')))
      | None \<Rightarrow>
     case consume ''['' ts of
        Some r \<Rightarrow>
          pbind (parse_expression B line n 0 r) (\<lambda>i r1.
          case expect B line '']'' r1 of Inl e' \<Rightarrow> Some (Inl e') | Inr r2 \<Rightarrow> parse_suffixes B line n (index_expr e i) r2)
      | None \<Rightarrow>
     case consume ''('' ts of
        Some r \<Rightarrow>
          (case expression_name e of
             None \<Rightarrow> Some (Inl (expression_error line r ''PINE_CALL_INVALID'' ''call target must be a named function''))
           | Some callee \<Rightarrow>
               (case consume '')'' r of
                  Some r' \<Rightarrow> parse_suffixes B line n (call_of e callee []) r'
                | None \<Rightarrow> pbind (parse_items B line n '')'' r) (\<lambda>args r'. parse_suffixes B line n (call_of e callee args) r')))
      | None \<Rightarrow> Some (Inr (e, ts)))"
| "parse_items B line 0 close ts = None"
| "parse_items B line (Suc n) close ts =
     pbind (parse_expression B line n 0 ts) (\<lambda>item r.
     case consume close r of
       Some r' \<Rightarrow> Some (Inr ([item], r'))
     | None \<Rightarrow>
         (case expect B line '','' r of
            Inl e \<Rightarrow> Some (Inl e)
          | Inr r' \<Rightarrow> pbind (parse_items B line n close r') (\<lambda>items r''. Some (Inr (item # items, r'')))))"
  by pat_completeness auto

termination
  by (relation "measure (\<lambda>x. case x of
        Inl (Inl (B, line, n, minimum, ts)) \<Rightarrow> n | Inl (Inr (B, line, n, minimum, left, ts)) \<Rightarrow> n
      | Inr (Inl (B, line, n, ts)) \<Rightarrow> n | Inr (Inr (Inl (B, line, n, e, ts))) \<Rightarrow> n
      | Inr (Inr (Inr (B, line, n, close, ts))) \<Rightarrow> n)") simp_all

definition expression_fuel :: "token list \<Rightarrow> nat" where
  "expression_fuel ts = 4 * length ts + 5"

definition line_error :: "string \<Rightarrow> string \<Rightarrow> lexed_line \<Rightarrow> parse_error" where
  "line_error code message l = \<lparr>pe_code_name = code, pe_message = message, pe_line = ll_number l, pe_column = ll_indent l + 1\<rparr>"

definition expression_from_tokens :: "debug_lib \<Rightarrow> lexed_line \<Rightarrow> token list \<Rightarrow> parse_error + expr" where
  "expression_from_tokens B l ts =
     (if ts = [] then Inl (line_error ''PINE_EXPRESSION_REQUIRED'' ''expression is required'' l)
      else case parse_expression B (ll_number l) (expression_fuel ts) 0 ts of
             Some (Inr (e, [])) \<Rightarrow> Inr e
           | Some (Inr (e, t # _)) \<Rightarrow>
               Inl \<lparr>pe_code_name = ''PINE_EXPRESSION_INVALID'', pe_message = ''unexpected token '' @ dbg_str B (tn_lexeme t),
                    pe_line = ll_number l, pe_column = tn_column t\<rparr>
           | Some (Inl e) \<Rightarrow> Inl e
           | None \<Rightarrow> Inl (line_error ''PINE_FUEL'' '''' l))"

end
