(* ===== verification/Pine_Grammar.thy ===== *)
theory Pine_Grammar
  imports Pine_Expressions
begin

text \<open>
  The grammar of Pine expressions, and the proof that the parser of \<open>Pine_Expressions\<close> accepts exactly
  it. A level is the least precedence an operator may have outside brackets.
\<close>

section \<open>Grammar\<close>

inductive derives :: "nat \<Rightarrow> nat \<Rightarrow> token list \<Rightarrow> expr \<Rightarrow> bool"
  and derives_binary :: "nat \<Rightarrow> nat \<Rightarrow> token list \<Rightarrow> expr \<Rightarrow> bool"
  and derives_prefix :: "nat \<Rightarrow> token list \<Rightarrow> expr \<Rightarrow> bool"
  and derives_postfix :: "nat \<Rightarrow> token list \<Rightarrow> expr \<Rightarrow> bool"
  and derives_items :: "nat \<Rightarrow> token list \<Rightarrow> expr list \<Rightarrow> bool"
  for line :: nat where
  plain: "derives_binary line p us e \<Longrightarrow> derives line p us e"
| ternary: "derives_binary line 0 us c \<Longrightarrow> is_lexeme ''?'' q \<Longrightarrow> derives line 0 vs t \<Longrightarrow> is_lexeme '':'' d \<Longrightarrow>
     derives line 0 ws f \<Longrightarrow> derives line 0 (us @ q # vs @ d # ws) (ternary_expr c t f)"
| operand: "derives_prefix line us e \<Longrightarrow> derives_binary line p us e"
| operator: "derives_binary line k us l \<Longrightarrow> binary_operator [t] = Some (op, k) \<Longrightarrow> p \<le> k \<Longrightarrow>
     derives line (k + 1) vs r \<Longrightarrow> derives_binary line p (us @ t # vs) (binary_expr l op r)"
| sign: "unary_of t = Some op \<Longrightarrow> derives_prefix line us e \<Longrightarrow> derives_prefix line (t # us) (unary_expr line t op e)"
| postfix: "derives_postfix line us e \<Longrightarrow> derives_prefix line us e"
| atom: "unary_of t = None \<Longrightarrow> atom_of t = Some e \<Longrightarrow> derives_postfix line [t] e"
| paren: "is_open ''('' t \<Longrightarrow> derives line 0 us e \<Longrightarrow> is_lexeme '')'' u \<Longrightarrow> derives_postfix line (t # us @ [u]) e"
| tuple: "is_open ''['' t \<Longrightarrow> derives_items line us es \<Longrightarrow> consume '']'' us = None \<Longrightarrow> is_lexeme '']'' u \<Longrightarrow>
     derives_postfix line (t # us @ [u]) (tuple_of t es)"
| empty_tuple: "is_open ''['' t \<Longrightarrow> is_lexeme '']'' u \<Longrightarrow> derives_postfix line [t, u] (tuple_of t [])"
| selects: "derives_postfix line us e \<Longrightarrow> is_lexeme ''.'' d \<Longrightarrow> tn_kind m = Identifier_Token \<Longrightarrow>
     derives_postfix line (us @ [d, m]) (member_expr e m)"
| index: "derives_postfix line us e \<Longrightarrow> is_lexeme ''['' t \<Longrightarrow> derives line 0 vs i \<Longrightarrow> is_lexeme '']'' u \<Longrightarrow>
     derives_postfix line (us @ t # vs @ [u]) (index_expr e i)"
| call: "derives_postfix line us e \<Longrightarrow> is_lexeme ''('' t \<Longrightarrow> expression_name e = Some callee \<Longrightarrow> derives_items line vs args \<Longrightarrow>
     consume '')'' vs = None \<Longrightarrow> is_lexeme '')'' u \<Longrightarrow> derives_postfix line (us @ t # vs @ [u]) (call_of e callee args)"
| empty_call: "derives_postfix line us e \<Longrightarrow> is_lexeme ''('' t \<Longrightarrow> expression_name e = Some callee \<Longrightarrow> is_lexeme '')'' u \<Longrightarrow>
     derives_postfix line (us @ [t, u]) (call_of e callee [])"
| one: "derives line 0 us e \<Longrightarrow> derives_items line us [e]"
| more: "derives line 0 us e \<Longrightarrow> is_lexeme '','' c \<Longrightarrow> derives_items line vs es \<Longrightarrow> derives_items line (us @ c # vs) (e # es)"

section \<open>Enough fuel\<close>

lemma consume_length: "consume v ts = Some r \<Longrightarrow> length ts = Suc (length r)"
  by (auto simp: consume_def split: list.splits if_splits)

lemma expect_length: "expect B line v ts = Inr r \<Longrightarrow> length ts = Suc (length r)"
  by (simp add: expect_def consume_length)

lemma parse_returns:
  "(\<forall>p ts. 3 * length ts + 2 \<le> n \<longrightarrow> good 1 ts (parse_expression B line n p ts))
 \<and> (\<forall>p l ts. 3 * length ts + 1 \<le> n \<longrightarrow> good 0 ts (parse_binary B line n p l ts))
 \<and> (\<forall>ts. 3 * length ts + 1 \<le> n \<longrightarrow> good 1 ts (parse_prefix B line n ts))
 \<and> (\<forall>e ts. 3 * length ts + 1 \<le> n \<longrightarrow> good 0 ts (parse_suffixes B line n e ts))
 \<and> (\<forall>c ts. 3 * length ts + 3 \<le> n \<longrightarrow> good 1 ts (parse_items B line n c ts))"
proof (induction n)
  case 0
  then show ?case by simp
next
  case (Suc n)
  then have E: "\<And>p ts. 3 * length ts + 2 \<le> n \<Longrightarrow> good 1 ts (parse_expression B line n p ts)"
    and B: "\<And>p l ts. 3 * length ts + 1 \<le> n \<Longrightarrow> good 0 ts (parse_binary B line n p l ts)"
    and P: "\<And>ts. 3 * length ts + 1 \<le> n \<Longrightarrow> good 1 ts (parse_prefix B line n ts)"
    and S: "\<And>e ts. 3 * length ts + 1 \<le> n \<Longrightarrow> good 0 ts (parse_suffixes B line n e ts)"
    and I: "\<And>c ts. 3 * length ts + 3 \<le> n \<Longrightarrow> good 1 ts (parse_items B line n c ts)" by auto
  have "good 1 ts (parse_expression B line (Suc n) p ts)" if "3 * length ts + 2 \<le> Suc n" for p ts
    unfolding parse_expression.simps
  proof (rule good_bind [OF P good_bind [OF B]])
    fix e :: expr and l :: expr and r1 r2 :: "token list"
    assume r: "length r1 + 1 \<le> length ts" "length r2 + 0 \<le> length r1"
    show "good 1 ts (case if p = 0 then consume ''?'' r2 else None of None \<Rightarrow> Some (Inr (l, r2))
       | Some r3 \<Rightarrow> pbind (parse_expression B line n 0 r3) (\<lambda>t r4. case expect B line '':'' r4 of Inl e \<Rightarrow> Some (Inl e)
         | Inr r5 \<Rightarrow> pbind (parse_expression B line n 0 r5) (\<lambda>f r6. Some (Inr (ternary_expr l t f, r6)))))"
      using r that
      by (auto split: option.splits sum.splits if_splits dest!: consume_length expect_length intro!: good_bind [OF E])
  qed (use that in auto)
  moreover have "good 0 ts (parse_binary B line (Suc n) p l ts)" if "3 * length ts + 1 \<le> Suc n" for p l ts
  proof (cases "binary_operator ts")
    case (Some op)
    then obtain t r where "ts = t # r" by (auto simp: binary_operator_def split: list.splits)
    then show ?thesis using that unfolding parse_binary.simps Some
      by (auto split: prod.splits intro!: good_bind [OF E] good_mono [OF B])
  qed simp
  moreover have "good 1 ts (parse_prefix B line (Suc n) ts)" if "3 * length ts + 1 \<le> Suc n" for ts
    using that
    by (auto split: list.splits option.splits sum.splits dest!: consume_length expect_length
        intro!: good_bind [OF P] good_bind [OF E] good_bind [OF I] good_mono [OF S])
  moreover have "good 0 ts (parse_suffixes B line (Suc n) e ts)" if "3 * length ts + 1 \<le> Suc n" for e ts
    using that
    by (auto split: list.splits option.splits sum.splits dest!: consume_length expect_length
        intro!: good_bind [OF E] good_bind [OF I] good_mono [OF S])
  moreover have "good 1 ts (parse_items B line (Suc n) c ts)" if "3 * length ts + 3 \<le> Suc n" for c ts
    unfolding parse_items.simps
    by (rule good_bind [OF E]) (use that in \<open>auto split: option.splits sum.splits dest!: consume_length expect_length
        intro!: good_bind [OF I]\<close>)
  ultimately show ?case by blast
qed

section \<open>More fuel changes nothing\<close>

lemma parse_mono:
  "(\<forall>m p ts. n \<le> m \<longrightarrow> upto_fuel (parse_expression B line n p ts) (parse_expression B line m p ts))
 \<and> (\<forall>m p l ts. n \<le> m \<longrightarrow> upto_fuel (parse_binary B line n p l ts) (parse_binary B line m p l ts))
 \<and> (\<forall>m ts. n \<le> m \<longrightarrow> upto_fuel (parse_prefix B line n ts) (parse_prefix B line m ts))
 \<and> (\<forall>m e ts. n \<le> m \<longrightarrow> upto_fuel (parse_suffixes B line n e ts) (parse_suffixes B line m e ts))
 \<and> (\<forall>m c ts. n \<le> m \<longrightarrow> upto_fuel (parse_items B line n c ts) (parse_items B line m c ts))"
proof (induction n)
  case 0
  then show ?case by (simp add: upto_fuel_def)
next
  case (Suc n)
  then have IH: "\<And>m p ts. n \<le> m \<Longrightarrow> upto_fuel (parse_expression B line n p ts) (parse_expression B line m p ts)"
    "\<And>m p l ts. n \<le> m \<Longrightarrow> upto_fuel (parse_binary B line n p l ts) (parse_binary B line m p l ts)"
    "\<And>m ts. n \<le> m \<Longrightarrow> upto_fuel (parse_prefix B line n ts) (parse_prefix B line m ts)"
    "\<And>m e ts. n \<le> m \<Longrightarrow> upto_fuel (parse_suffixes B line n e ts) (parse_suffixes B line m e ts)"
    "\<And>m c ts. n \<le> m \<Longrightarrow> upto_fuel (parse_items B line n c ts) (parse_items B line m c ts)" by auto
  have step: "upto_fuel (parse_expression B line (Suc n) p ts) (parse_expression B line (Suc m) p ts)"
    "upto_fuel (parse_binary B line (Suc n) p l ts) (parse_binary B line (Suc m) p l ts)"
    "upto_fuel (parse_prefix B line (Suc n) ts) (parse_prefix B line (Suc m) ts)"
    "upto_fuel (parse_suffixes B line (Suc n) e ts) (parse_suffixes B line (Suc m) e ts)"
    "upto_fuel (parse_items B line (Suc n) c ts) (parse_items B line (Suc m) c ts)" if "n \<le> m" for m p l ts e c
    unfolding parse_expression.simps parse_binary.simps parse_prefix.simps parse_suffixes.simps parse_items.simps
    by (intro upto_intros IH [OF that])+
  have "(\<forall>p ts. upto_fuel (parse_expression B line (Suc n) p ts) (parse_expression B line m p ts))
   \<and> (\<forall>p l ts. upto_fuel (parse_binary B line (Suc n) p l ts) (parse_binary B line m p l ts))
   \<and> (\<forall>ts. upto_fuel (parse_prefix B line (Suc n) ts) (parse_prefix B line m ts))
   \<and> (\<forall>e ts. upto_fuel (parse_suffixes B line (Suc n) e ts) (parse_suffixes B line m e ts))
   \<and> (\<forall>c ts. upto_fuel (parse_items B line (Suc n) c ts) (parse_items B line m c ts))" if "Suc n \<le> m" for m
  proof -
    from that obtain k where m: "m = Suc k" and "n \<le> k" by (cases m) auto
    show ?thesis unfolding m by (intro conjI allI step [OF \<open>n \<le> k\<close>])
  qed
  then show ?case by blast
qed

section \<open>Soundness\<close>

definition suffix_lexemes :: "string list" where
  "suffix_lexemes = [''.'', ''['', ''('']"

text \<open>The parser stops: at no suffix, at no operator of the level or above, and at level 0 at no question mark.\<close>

definition no_suffix :: "token list \<Rightarrow> bool" where
  "no_suffix ts \<longleftrightarrow> (case ts of [] \<Rightarrow> True | t # _ \<Rightarrow> lower (tn_lexeme t) \<notin> set suffix_lexemes)"

definition no_operator :: "nat \<Rightarrow> token list \<Rightarrow> bool" where
  "no_operator p ts \<longleftrightarrow> (case binary_operator ts of None \<Rightarrow> True | Some (_, k) \<Rightarrow> k < p)"

definition stops :: "nat \<Rightarrow> token list \<Rightarrow> bool" where
  "stops p ts \<longleftrightarrow> no_suffix ts \<and> no_operator p ts \<and> (p = 0 \<longrightarrow> consume ''?'' ts = None)"

lemma consume_Some: "consume v ts = Some r \<Longrightarrow> \<exists>t. ts = t # r \<and> is_lexeme v t"
  by (auto simp: consume_def split: list.splits if_splits)

lemma expect_Inr: "expect B line v ts = Inr r \<Longrightarrow> \<exists>t. ts = t # r \<and> is_lexeme v t"
  by (simp add: expect_def consume_Some)

lemma no_suffix_iff: "no_suffix ts \<longleftrightarrow> consume ''.'' ts = None \<and> consume ''['' ts = None \<and> consume ''('' ts = None"
  by (auto simp: no_suffix_def consume_def is_lexeme_def eq_ignore_case_def suffix_lexemes_def string_eval split: list.splits)

lemma binary_operator_precedence: "binary_operator ts = Some (op, k) \<Longrightarrow> 1 \<le> k \<and> k \<le> 6"
  by (auto simp: binary_operator_def binary_table_def split: list.splits if_splits)

lemma derives_binary_lower: "derives_binary line p us e \<Longrightarrow> p' \<le> p \<Longrightarrow> derives_binary line p' us e"
  by (erule derives_binary.cases) (auto intro: derives_derives_binary_derives_prefix_derives_postfix_derives_items.intros)

lemmas grammar = derives_derives_binary_derives_prefix_derives_postfix_derives_items.intros
lemmas grammar_induct = derives_derives_binary_derives_prefix_derives_postfix_derives_items.inducts

lemma no_operator_bound: "7 \<le> p \<Longrightarrow> no_operator p ts"
  by (auto simp: no_operator_def split: option.splits dest!: binary_operator_precedence)

lemma no_operator_None: "binary_operator ts = None \<Longrightarrow> no_operator p ts"
  by (simp add: no_operator_def)

text \<open>What each function has read when it succeeds.\<close>

definition read_expression :: "nat \<Rightarrow> nat \<Rightarrow> token list \<Rightarrow> expr \<Rightarrow> token list \<Rightarrow> bool" where
  "read_expression line p ts e r \<longleftrightarrow> (\<exists>us. ts = us @ r \<and> derives line p us e \<and> stops p r)"

definition read_binary :: "nat \<Rightarrow> nat \<Rightarrow> expr \<Rightarrow> token list \<Rightarrow> expr \<Rightarrow> token list \<Rightarrow> bool" where
  "read_binary line p l ts e r \<longleftrightarrow>
     (\<forall>us q. derives_binary line q us l \<and> p \<le> q \<and> no_suffix ts \<and> no_operator (q + 1) ts \<longrightarrow>
        (\<exists>vs. ts = vs @ r \<and> derives_binary line p (us @ vs) e \<and> no_suffix r \<and> no_operator p r))"

definition read_prefix :: "nat \<Rightarrow> token list \<Rightarrow> expr \<Rightarrow> token list \<Rightarrow> bool" where
  "read_prefix line ts e r \<longleftrightarrow> (\<exists>us. ts = us @ r \<and> derives_prefix line us e \<and> no_suffix r)"

definition read_suffixes :: "nat \<Rightarrow> expr \<Rightarrow> token list \<Rightarrow> expr \<Rightarrow> token list \<Rightarrow> bool" where
  "read_suffixes line l ts e r \<longleftrightarrow>
     (\<forall>us. derives_postfix line us l \<longrightarrow> (\<exists>vs. ts = vs @ r \<and> derives_postfix line (us @ vs) e \<and> no_suffix r))"

definition read_items :: "nat \<Rightarrow> string \<Rightarrow> token list \<Rightarrow> expr list \<Rightarrow> token list \<Rightarrow> bool" where
  "read_items line c ts es r \<longleftrightarrow> (\<exists>us t. ts = us @ t # r \<and> derives_items line us es \<and> is_lexeme c t)"

lemma read_suffixesD:
  assumes "read_suffixes line l ts e r" and "derives_postfix line us l"
  shows "read_prefix line (us @ ts) e r"
  using assms grammar(6) unfolding read_suffixes_def read_prefix_def by fastforce

lemma parse_sound_expression:
  assumes P: "\<And>ts e r. parse_prefix B line n ts = Some (Inr (e, r)) \<Longrightarrow> read_prefix line ts e r"
    and Bi: "\<And>p l ts e r. parse_binary B line n p l ts = Some (Inr (e, r)) \<Longrightarrow> read_binary line p l ts e r"
    and E: "\<And>p ts e r. parse_expression B line n p ts = Some (Inr (e, r)) \<Longrightarrow> read_expression line p ts e r"
    and res: "parse_expression B line (Suc n) p ts = Some (Inr (e, r))"
  shows "read_expression line p ts e r"
proof -
  from res obtain f r1 l r2 where f: "parse_prefix B line n ts = Some (Inr (f, r1))"
    and l: "parse_binary B line n p f r1 = Some (Inr (l, r2))"
    and tail: "(case if p = 0 then consume ''?'' r2 else None of None \<Rightarrow> Some (Inr (l, r2))
       | Some r3 \<Rightarrow> pbind (parse_expression B line n 0 r3) (\<lambda>t r4. case expect B line '':'' r4 of Inl e \<Rightarrow> Some (Inl e)
         | Inr r5 \<Rightarrow> pbind (parse_expression B line n 0 r5) (\<lambda>f r6. Some (Inr (ternary_expr l t f, r6))))) = Some (Inr (e, r))"
    unfolding parse_expression.simps pbind_Inr by blast
  obtain us1 where us1: "ts = us1 @ r1" "derives_prefix line us1 f" "no_suffix r1" using P [OF f] by (auto simp: read_prefix_def)
  have "derives_binary line (p + 6) us1 f" and "no_operator (p + 6 + 1) r1" using us1(2) by (auto intro: grammar no_operator_bound)
  then obtain vs where vs: "r1 = vs @ r2" "derives_binary line p (us1 @ vs) l" "no_suffix r2" "no_operator p r2"
    using Bi [OF l] us1(3) unfolding read_binary_def by (metis le_add1)
  show ?thesis
  proof (cases "if p = 0 then consume ''?'' r2 else None")
    case None
    then have "stops p r2" using vs by (auto simp: stops_def split: if_splits)
    then show ?thesis using None tail us1 vs grammar(1) [OF vs(2)] by (auto simp: read_expression_def)
  next
    case (Some r3)
    then have p: "p = 0" and q: "consume ''?'' r2 = Some r3" by (auto split: if_splits)
    from tail Some obtain t r4 where t: "parse_expression B line n 0 r3 = Some (Inr (t, r4))"
      and tail4: "(case expect B line '':'' r4 of Inl e \<Rightarrow> Some (Inl e)
         | Inr r5 \<Rightarrow> pbind (parse_expression B line n 0 r5) (\<lambda>f r6. Some (Inr (ternary_expr l t f, r6)))) = Some (Inr (e, r))"
      unfolding pbind_Inr by (auto simp: pbind_Inr)
    then obtain r5 g where d: "expect B line '':'' r4 = Inr r5" and g: "parse_expression B line n 0 r5 = Some (Inr (g, r))"
      and e: "e = ternary_expr l t g"
      by (cases "expect B line '':'' r4") (auto simp: pbind_Inr)
    from consume_Some [OF q] expect_Inr [OF d] E [OF t] E [OF g] obtain a b ws1 ws2
      where "r2 = a # r3" "is_lexeme ''?'' a" "r4 = b # r5" "is_lexeme '':'' b" "r3 = ws1 @ r4" "derives line 0 ws1 t"
        "r5 = ws2 @ r" "derives line 0 ws2 g" "stops 0 r"
      by (auto simp: read_expression_def)
    then show ?thesis using grammar(2) [of line "us1 @ vs" l a ws1 t b ws2 g] vs us1 p e by (auto simp: read_expression_def)
  qed
qed

lemma parse_sound_binary:
  assumes Bi: "\<And>p l ts e r. parse_binary B line n p l ts = Some (Inr (e, r)) \<Longrightarrow> read_binary line p l ts e r"
    and E: "\<And>p ts e r. parse_expression B line n p ts = Some (Inr (e, r)) \<Longrightarrow> read_expression line p ts e r"
    and res: "parse_binary B line (Suc n) p l ts = Some (Inr (e, r))"
  shows "read_binary line p l ts e r"
  unfolding read_binary_def
proof (intro allI impI)
  fix us q assume a: "derives_binary line q us l \<and> p \<le> q \<and> no_suffix ts \<and> no_operator (q + 1) ts"
  show "\<exists>vs. ts = vs @ r \<and> derives_binary line p (us @ vs) e \<and> no_suffix r \<and> no_operator p r"
  proof (cases "binary_operator ts")
    case None
    then show ?thesis using res a by (auto simp: no_operator_None intro: derives_binary_lower)
  next
    case (Some ok)
    obtain op k where ok: "ok = (op, k)" by fastforce
    obtain t ts' where ts: "ts = t # ts'" and t: "binary_operator [t] = Some (op, k)"
      using Some ok by (cases ts) (auto simp: binary_operator_def)
    have "k \<le> q" using a Some ok by (simp add: no_operator_def)
    show ?thesis
    proof (cases "k < p")
      case True
      then show ?thesis using res a Some ok by (auto simp: no_operator_def intro: derives_binary_lower)
    next
      case False
      then obtain g r1 where g: "parse_expression B line n (k + 1) ts' = Some (Inr (g, r1))"
        and rest: "parse_binary B line n p (binary_expr l op g) r1 = Some (Inr (e, r))"
        using res Some ok ts by (auto simp: pbind_Inr)
      from E [OF g] obtain vs where vs: "ts' = vs @ r1" "derives line (k + 1) vs g" "no_suffix r1" "no_operator (k + 1) r1"
        by (auto simp: read_expression_def stops_def)
      have "derives_binary line k us l" using a \<open>k \<le> q\<close> derives_binary_lower by blast
      then have "derives_binary line k (us @ t # vs) (binary_expr l op g)" using vs(2) t by (blast intro: grammar)
      with Bi [OF rest] False vs obtain ws where "r1 = ws @ r" "derives_binary line p ((us @ t # vs) @ ws) e" "no_suffix r" "no_operator p r"
        unfolding read_binary_def by (metis not_less)
      then show ?thesis using ts vs by auto
    qed
  qed
qed

lemma bracketed:
  assumes "(case expect B line close r of Inl e \<Rightarrow> Some (Inl e) | Inr r' \<Rightarrow> k r') = Some (Inr x)"
  obtains u r' where "r = u # r'" "is_lexeme close u" "k r' = Some (Inr x)"
  using assms that by (cases "expect B line close r") (auto dest: expect_Inr)

lemma parse_sound_prefix:
  assumes P: "\<And>ts e r. parse_prefix B line n ts = Some (Inr (e, r)) \<Longrightarrow> read_prefix line ts e r"
    and E: "\<And>p ts e r. parse_expression B line n p ts = Some (Inr (e, r)) \<Longrightarrow> read_expression line p ts e r"
    and S: "\<And>l ts e r. parse_suffixes B line n l ts = Some (Inr (e, r)) \<Longrightarrow> read_suffixes line l ts e r"
    and I: "\<And>c ts es r. parse_items B line n c ts = Some (Inr (es, r)) \<Longrightarrow> read_items line c ts es r"
    and res: "parse_prefix B line (Suc n) ts = Some (Inr (e, r))"
  shows "read_prefix line ts e r"
proof (cases ts)
  case Nil
  then show ?thesis using res by simp
next
  case (Cons t ts')
  consider (sign) op where "unary_of t = Some op" | (atom) a where "unary_of t = None" "atom_of t = Some a"
    | (paren) "unary_of t = None" "atom_of t = None" "is_open ''('' t"
    | (tuple) "unary_of t = None" "atom_of t = None" "\<not> is_open ''('' t" "is_open ''['' t"
    | (other) "unary_of t = None" "atom_of t = None" "\<not> is_open ''('' t" "\<not> is_open ''['' t" by (cases "unary_of t"; cases "atom_of t") auto
  then show ?thesis
  proof cases
    case sign
    then obtain f where "parse_prefix B line n ts' = Some (Inr (f, r))" "e = unary_expr line t op f"
      using res Cons by (auto simp: pbind_Inr)
    then show ?thesis using P grammar(5) [OF sign] Cons by (fastforce simp: read_prefix_def)
  next
    case atom
    then have "read_suffixes line a ts' e r" using S res Cons by simp
    from read_suffixesD [OF this grammar(7) [OF atom]] show ?thesis using Cons by simp
  next
    case paren
    then obtain i r1 where i: "parse_expression B line n 0 ts' = Some (Inr (i, r1))"
      and k: "(case expect B line '')'' r1 of Inl e \<Rightarrow> Some (Inl e) | Inr r' \<Rightarrow> parse_suffixes B line n i r') = Some (Inr (e, r))"
      using res Cons by (auto simp: pbind_Inr)
    from k obtain u r' where u: "r1 = u # r'" "is_lexeme '')'' u" "parse_suffixes B line n i r' = Some (Inr (e, r))" by (rule bracketed)
    from E [OF i] obtain us where us: "ts' = us @ r1" "derives line 0 us i" by (auto simp: read_expression_def)
    from read_suffixesD [OF S [OF u(3)] grammar(8) [OF paren(3) us(2) u(2)]] show ?thesis using Cons us u by simp
  next
    case tuple
    show ?thesis
    proof (cases "consume '']'' ts'")
      case (Some r1)
      then obtain u where u: "ts' = u # r1" "is_lexeme '']'' u" using consume_Some by blast
      have "parse_suffixes B line n (tuple_of t []) r1 = Some (Inr (e, r))" using Some tuple res Cons by simp
      from read_suffixesD [OF S [OF this] grammar(10) [OF tuple(4) u(2)]] show ?thesis using Cons u by simp
    next
      case None
      then obtain items r1 where i: "parse_items B line n '']'' ts' = Some (Inr (items, r1))"
        and k: "parse_suffixes B line n (tuple_of t items) r1 = Some (Inr (e, r))"
        using tuple res Cons by (auto simp: pbind_Inr)
      from I [OF i] obtain us u where us: "ts' = us @ u # r1" "derives_items line us items" "is_lexeme '']'' u" by (auto simp: read_items_def)
      have "consume '']'' us = None" using None us(1,2) derives_items.cases [OF us(2)] by (cases us) (auto simp: consume_def split: if_splits)
      from read_suffixesD [OF S [OF k] grammar(9) [OF tuple(4) us(2) this us(3)]] show ?thesis using Cons us by simp
    qed
  next
    case other
    then show ?thesis using res Cons by simp
  qed
qed

lemma consume_prefix: "consume v (us @ ts) = None \<Longrightarrow> consume v us = None"
  by (cases us) (auto simp: consume_def split: if_splits)

lemma read_suffixes_step:
  assumes "\<And>us. derives_postfix line us l \<Longrightarrow> derives_postfix line (us @ vs) l'" and "read_suffixes line l' ts' e r" and "ts = vs @ ts'"
  shows "read_suffixes line l ts e r"
  using assms unfolding read_suffixes_def by (metis append_assoc)

lemma parse_sound_suffixes:
  assumes E: "\<And>p ts e r. parse_expression B line n p ts = Some (Inr (e, r)) \<Longrightarrow> read_expression line p ts e r"
    and S: "\<And>l ts e r. parse_suffixes B line n l ts = Some (Inr (e, r)) \<Longrightarrow> read_suffixes line l ts e r"
    and I: "\<And>c ts es r. parse_items B line n c ts = Some (Inr (es, r)) \<Longrightarrow> read_items line c ts es r"
    and res: "parse_suffixes B line (Suc n) l ts = Some (Inr (e, r))"
  shows "read_suffixes line l ts e r"
proof -
  consider (dot) d r1 where "ts = d # r1" "is_lexeme ''.'' d" "consume ''.'' ts = Some r1"
    | (index) t r1 where "ts = t # r1" "is_lexeme ''['' t" "consume ''.'' ts = None" "consume ''['' ts = Some r1"
    | (call) t r1 where "ts = t # r1" "is_lexeme ''('' t" "consume ''.'' ts = None" "consume ''['' ts = None" "consume ''('' ts = Some r1"
    | (none) "no_suffix ts"
    using consume_Some [of "''.''" ts] consume_Some [of "''[''" ts] consume_Some [of "''(''" ts]
    by (cases "consume ''.'' ts"; cases "consume ''['' ts"; cases "consume ''('' ts") (auto simp: no_suffix_iff)
  then show ?thesis
  proof cases
    case dot
    then obtain m r2 where m: "r1 = m # r2" "tn_kind m = Identifier_Token" "parse_suffixes B line n (member_expr l m) r2 = Some (Inr (e, r))"
      using res by (cases r1) (auto split: if_splits)
    show ?thesis by (rule read_suffixes_step [OF _ S [OF m(3)], where vs = "[d, m]"]) (use dot m grammar(11) in auto)
  next
    case index
    then obtain i r2 where i: "parse_expression B line n 0 r1 = Some (Inr (i, r2))"
      and k: "(case expect B line '']'' r2 of Inl e' \<Rightarrow> Some (Inl e') | Inr r3 \<Rightarrow> parse_suffixes B line n (index_expr l i) r3) = Some (Inr (e, r))"
      using res by (auto simp: pbind_Inr)
    from k obtain u r3 where u: "r2 = u # r3" "is_lexeme '']'' u" "parse_suffixes B line n (index_expr l i) r3 = Some (Inr (e, r))" by (rule bracketed)
    from E [OF i] obtain vs where vs: "r1 = vs @ r2" "derives line 0 vs i" by (auto simp: read_expression_def)
    show ?thesis by (rule read_suffixes_step [OF _ S [OF u(3)], where vs = "t # vs @ [u]"]) (use index vs u grammar(12) in auto)
  next
    case call
    then obtain callee where name: "expression_name l = Some callee" using res by (cases "expression_name l") auto
    show ?thesis
    proof (cases "consume '')'' r1")
      case (Some r2)
      then obtain u where u: "r1 = u # r2" "is_lexeme '')'' u" using consume_Some by blast
      have "parse_suffixes B line n (call_of l callee []) r2 = Some (Inr (e, r))" using Some call name res by simp
      from S [OF this] show ?thesis by (rule read_suffixes_step [rotated, where vs = "[t, u]"]) (use call u name grammar(14) in auto)
    next
      case None
      then obtain args r2 where i: "parse_items B line n '')'' r1 = Some (Inr (args, r2))"
        and k: "parse_suffixes B line n (call_of l callee args) r2 = Some (Inr (e, r))"
        using call name res by (auto simp: pbind_Inr)
      from I [OF i] obtain vs u where vs: "r1 = vs @ u # r2" "derives_items line vs args" "is_lexeme '')'' u" by (auto simp: read_items_def)
      have "consume '')'' vs = None" using None vs(1) consume_prefix by metis
      then have "derives_postfix line us l \<Longrightarrow> derives_postfix line (us @ t # vs @ [u]) (call_of l callee args)" for us
        using call vs name grammar(13) by blast
      then show ?thesis by (rule read_suffixes_step [OF _ S [OF k], where vs = "t # vs @ [u]"]) (use call vs in auto)
    qed
  next
    case none
    then show ?thesis using res by (auto simp: no_suffix_iff read_suffixes_def)
  qed
qed

lemma parse_sound_items:
  assumes E: "\<And>p ts e r. parse_expression B line n p ts = Some (Inr (e, r)) \<Longrightarrow> read_expression line p ts e r"
    and I: "\<And>c ts es r. parse_items B line n c ts = Some (Inr (es, r)) \<Longrightarrow> read_items line c ts es r"
    and res: "parse_items B line (Suc n) c ts = Some (Inr (es, r))"
  shows "read_items line c ts es r"
proof -
  from res obtain e r1 where e: "parse_expression B line n 0 ts = Some (Inr (e, r1))"
    and k: "(case consume c r1 of Some r' \<Rightarrow> Some (Inr ([e], r'))
       | None \<Rightarrow> (case expect B line '','' r1 of Inl e \<Rightarrow> Some (Inl e)
           | Inr r' \<Rightarrow> pbind (parse_items B line n c r') (\<lambda>items r''. Some (Inr (e # items, r''))))) = Some (Inr (es, r))"
    unfolding parse_items.simps pbind_Inr by blast
  from E [OF e] obtain us where us: "ts = us @ r1" "derives line 0 us e" by (auto simp: read_expression_def)
  show ?thesis
  proof (cases "consume c r1")
    case (Some r')
    then have "es = [e]" "r = r'" using k by auto
    then show ?thesis using consume_Some [OF Some] us grammar(15) [OF us(2)] by (auto simp: read_items_def)
  next
    case None
    with k have "(case expect B line '','' r1 of Inl e \<Rightarrow> Some (Inl e)
           | Inr r' \<Rightarrow> pbind (parse_items B line n c r') (\<lambda>items r''. Some (Inr (e # items, r'')))) = Some (Inr (es, r))" by simp
    then obtain d r2 where d: "r1 = d # r2" "is_lexeme '','' d"
      and "pbind (parse_items B line n c r2) (\<lambda>items r''. Some (Inr (e # items, r''))) = Some (Inr (es, r))" by (rule bracketed)
    then obtain fs where "parse_items B line n c r2 = Some (Inr (fs, r))" and es: "es = e # fs" by (auto simp: pbind_Inr)
    from I [OF this(1)] obtain vs u where "r2 = vs @ u # r" "derives_items line vs fs" "is_lexeme c u" by (auto simp: read_items_def)
    then show ?thesis using us d es grammar(16) [OF us(2) d(2), of vs fs] by (fastforce simp: read_items_def)
  qed
qed

lemma parse_sound:
  "(\<forall>p ts e r. parse_expression B line n p ts = Some (Inr (e, r)) \<longrightarrow> read_expression line p ts e r)
 \<and> (\<forall>p l ts e r. parse_binary B line n p l ts = Some (Inr (e, r)) \<longrightarrow> read_binary line p l ts e r)
 \<and> (\<forall>ts e r. parse_prefix B line n ts = Some (Inr (e, r)) \<longrightarrow> read_prefix line ts e r)
 \<and> (\<forall>l ts e r. parse_suffixes B line n l ts = Some (Inr (e, r)) \<longrightarrow> read_suffixes line l ts e r)
 \<and> (\<forall>c ts es r. parse_items B line n c ts = Some (Inr (es, r)) \<longrightarrow> read_items line c ts es r)"
proof (induction n)
  case 0
  then show ?case by simp
next
  case (Suc n)
  then have E: "\<And>p ts e r. parse_expression B line n p ts = Some (Inr (e, r)) \<Longrightarrow> read_expression line p ts e r"
    and Bi: "\<And>p l ts e r. parse_binary B line n p l ts = Some (Inr (e, r)) \<Longrightarrow> read_binary line p l ts e r"
    and P: "\<And>ts e r. parse_prefix B line n ts = Some (Inr (e, r)) \<Longrightarrow> read_prefix line ts e r"
    and S: "\<And>l ts e r. parse_suffixes B line n l ts = Some (Inr (e, r)) \<Longrightarrow> read_suffixes line l ts e r"
    and I: "\<And>c ts es r. parse_items B line n c ts = Some (Inr (es, r)) \<Longrightarrow> read_items line c ts es r" by blast+
  have "read_expression line p ts e r" if "parse_expression B line (Suc n) p ts = Some (Inr (e, r))" for p ts e r
    by (rule parse_sound_expression [OF _ _ _ that]) (erule P Bi E)+
  moreover have "read_binary line p l ts e r" if "parse_binary B line (Suc n) p l ts = Some (Inr (e, r))" for p l ts e r
    by (rule parse_sound_binary [OF _ _ that]) (erule Bi E)+
  moreover have "read_prefix line ts e r" if "parse_prefix B line (Suc n) ts = Some (Inr (e, r))" for ts e r
    by (rule parse_sound_prefix [OF _ _ _ _ that]) (erule P E S I)+
  moreover have "read_suffixes line l ts e r" if "parse_suffixes B line (Suc n) l ts = Some (Inr (e, r))" for l ts e r
    by (rule parse_sound_suffixes [OF _ _ _ that]) (erule E S I)+
  moreover have "read_items line c ts es r" if "parse_items B line (Suc n) c ts = Some (Inr (es, r))" for c ts es r
    by (rule parse_sound_items [OF _ _ that]) (erule E I)+
  ultimately show ?case by blast
qed

section \<open>Completeness\<close>

definition yields :: "(nat \<Rightarrow> 'a parsed) \<Rightarrow> parse_error + 'a \<times> token list \<Rightarrow> bool" where
  "yields f x \<longleftrightarrow> (\<exists>m. \<forall>n\<ge>m. f n = Some x)"

lemma yields_const [simp]: "yields (\<lambda>n. Some x) x"
  by (simp add: yields_def)

lemma yields_Suc: "(\<And>n. f (Suc n) = g n) \<Longrightarrow> yields g x \<Longrightarrow> yields f x"
  unfolding yields_def by (metis Suc_le_D Suc_le_mono)

lemma yields_bind:
  assumes "yields m (Inr (v, r))" and "yields (\<lambda>n. f n v r) x"
  shows "yields (\<lambda>n. pbind (m n) (f n)) x"
proof -
  obtain a b where "\<forall>n\<ge>a. m n = Some (Inr (v, r))" and "\<forall>n\<ge>b. f n v r = Some x" using assms unfolding yields_def by blast
  then have "\<forall>n\<ge>max a b. pbind (m n) (f n) = Some x" by simp
  then show ?thesis unfolding yields_def by blast
qed

lemma pbind_assoc: "pbind (pbind m f) g = pbind m (\<lambda>v r. pbind (f v r) g)"
  by (auto simp: pbind_def split: option.splits sum.splits)

lemma mark_lowers: "lower ''.'' = ''.''" "lower ''['' = ''[''" "lower ''('' = ''(''" "lower ''?'' = ''?''" "lower '':'' = '':''"
  "lower '')'' = '')''" "lower '']'' = '']''" "lower '','' = '',''"
  by code_simp+

lemma is_lexeme_lower: "is_lexeme v t \<longleftrightarrow> lower (tn_lexeme t) = lower v"
  by (simp add: is_lexeme_def eq_ignore_case_def)

lemma consume_Cons: "consume v (t # r) = (if lower (tn_lexeme t) = lower v then Some r else None)"
  by (simp add: consume_def is_lexeme_lower)

lemma expect_Cons: "is_lexeme v t \<Longrightarrow> expect B line v (t # r) = Inr r"
  by (simp add: expect_def consume_Cons is_lexeme_lower)

lemmas mark_simps = consume_Cons is_lexeme_lower mark_lowers

lemma stops_at_mark:
  assumes "is_lexeme v t" and "v \<in> {''?'', '':'', '')'', '']'', '',''}"
  shows "no_suffix (t # r)" "no_operator p (t # r)"
  using assms by (auto simp: no_suffix_def no_operator_def binary_operator_def binary_table_def suffix_lexemes_def is_lexeme_lower mark_lowers)

lemma stops_at_close: "is_lexeme v t \<Longrightarrow> v \<in> {'':'', '')'', '']'', '',''} \<Longrightarrow> stops p (t # r)"
  using stops_at_mark [of v t] by (auto simp: stops_def mark_simps)

lemma no_suffix_operator: "binary_operator [t] = Some x \<Longrightarrow> no_suffix (t # r)"
  by (auto simp: no_suffix_def binary_operator_def binary_table_def suffix_lexemes_def split: if_splits)

lemma binary_operator_head: "binary_operator (t # r) = binary_operator [t]"
  by (simp add: binary_operator_def)

lemma no_operator_mono: "no_operator p r \<Longrightarrow> p \<le> q \<Longrightarrow> no_operator q r"
  by (auto simp: no_operator_def split: option.splits)

lemma open_facts:
  assumes "is_open v t" and "v = ''('' \<or> v = ''[''"
  shows "unary_of t = None" "atom_of t = None"
  using assms by (auto simp: is_open_def unary_of_def atom_of_def)

lemma is_open_unique: "is_open ''['' t \<Longrightarrow> \<not> is_open ''('' t"
  by (simp add: is_open_def)

lemma finished_binary: "no_operator p r \<Longrightarrow> yields (\<lambda>n. parse_binary B line n p e r) (Inr (e, r))"
  by (rule yields_Suc [where g = "\<lambda>_. Some (Inr (e, r))"]) (auto simp: no_operator_def split: option.splits)

lemma finished_suffixes: "no_suffix r \<Longrightarrow> yields (\<lambda>n. parse_suffixes B line n e r) (Inr (e, r))"
  by (rule yields_Suc [where g = "\<lambda>_. Some (Inr (e, r))"]) (auto simp: no_suffix_iff)

text \<open>Each way to go on, once the part in front has been read.\<close>

definition ternary_tail :: "debug_lib \<Rightarrow> nat \<Rightarrow> nat \<Rightarrow> nat \<Rightarrow> expr \<Rightarrow> token list \<Rightarrow> expr parsed" where
  "ternary_tail B line n p left r2 =
     (case (if p = 0 then consume ''?'' r2 else None) of
       None \<Rightarrow> Some (Inr (left, r2))
     | Some r3 \<Rightarrow>
         pbind (parse_expression B line n 0 r3) (\<lambda>when_true r4.
         case expect B line '':'' r4 of
           Inl e \<Rightarrow> Some (Inl e)
         | Inr r5 \<Rightarrow> pbind (parse_expression B line n 0 r5) (\<lambda>when_false r6. Some (Inr (ternary_expr left when_true when_false, r6)))))"

lemma yields_expression:
  assumes "yields (\<lambda>n. pbind (parse_prefix B line n ts) (parse_binary B line n p)) (Inr (l, r))"
    and "yields (\<lambda>n. ternary_tail B line n p l r) x"
  shows "yields (\<lambda>n. parse_expression B line n p ts) x"
proof (rule yields_Suc)
  show "parse_expression B line (Suc n) p ts
      = pbind (pbind (parse_prefix B line n ts) (parse_binary B line n p)) (ternary_tail B line n p)" for n
    by (simp add: pbind_assoc ternary_tail_def [abs_def])
  show "yields (\<lambda>n. pbind (pbind (parse_prefix B line n ts) (parse_binary B line n p)) (ternary_tail B line n p)) x"
    using assms by (rule yields_bind)
qed

lemma yields_no_ternary: "stops p r \<Longrightarrow> yields (\<lambda>n. ternary_tail B line n p l r) (Inr (l, r))"
  by (simp add: ternary_tail_def stops_def)

lemma yields_ternary:
  assumes "is_lexeme ''?'' q" and "is_lexeme '':'' d"
    and "yields (\<lambda>n. parse_expression B line n 0 ts) (Inr (t, d # us))" and "yields (\<lambda>n. parse_expression B line n 0 us) (Inr (f, r))"
  shows "yields (\<lambda>n. ternary_tail B line n 0 c (q # ts)) (Inr (ternary_expr c t f, r))"
proof -
  have "consume ''?'' (q # ts) = Some ts" using assms(1) by (simp add: mark_simps)
  moreover have "yields (\<lambda>n. pbind (parse_expression B line n 0 us) (\<lambda>f r6. Some (Inr (ternary_expr c t f, r6)))) (Inr (ternary_expr c t f, r))"
    using assms(4) by (rule yields_bind) simp
  ultimately show ?thesis
    unfolding ternary_tail_def using assms(3) by (auto intro!: yields_bind simp: expect_Cons [OF assms(2)])
qed

lemma yields_operator:
  assumes "binary_operator [t] = Some (op, k)" and "p \<le> k"
    and "yields (\<lambda>n. parse_expression B line n (k + 1) ts) (Inr (g, r))" and "yields (\<lambda>n. parse_binary B line n p (binary_expr l op g) r) x"
  shows "yields (\<lambda>n. parse_binary B line n p l (t # ts)) x"
proof (rule yields_Suc)
  show "parse_binary B line (Suc n) p l (t # ts)
      = pbind (parse_expression B line n (k + 1) ts) (\<lambda>right r. parse_binary B line n p (binary_expr l op right) r)" for n
    using assms(1,2) binary_operator_head [of t ts] by simp
  show "yields (\<lambda>n. pbind (parse_expression B line n (k + 1) ts) (\<lambda>right r. parse_binary B line n p (binary_expr l op right) r)) x"
    using assms(3,4) by (rule yields_bind)
qed

lemma yields_sign:
  assumes "unary_of t = Some op" and "yields (\<lambda>n. parse_prefix B line n ts) (Inr (e, r))"
  shows "yields (\<lambda>n. parse_prefix B line n (t # ts)) (Inr (unary_expr line t op e, r))"
  by (rule yields_Suc [where g = "\<lambda>n. pbind (parse_prefix B line n ts) (\<lambda>e r. Some (Inr (unary_expr line t op e, r)))"])
     (use assms in \<open>auto intro!: yields_bind\<close>)

lemma yields_bracketed:
  assumes "is_lexeme close u" and "yields (\<lambda>n. parse_expression B line n 0 ts) (Inr (e, u # r))" and "yields (\<lambda>n. k n e r) x"
  shows "yields (\<lambda>n. pbind (parse_expression B line n 0 ts) (\<lambda>i r1. case expect B line close r1 of Inl e' \<Rightarrow> Some (Inl e') | Inr r2 \<Rightarrow> k n i r2)) x"
  using assms(2) by (rule yields_bind) (simp add: expect_Cons [OF assms(1)] assms(3))

lemma yields_items_one:
  assumes "is_lexeme c u" and "yields (\<lambda>n. parse_expression B line n 0 ts) (Inr (e, u # r))"
  shows "yields (\<lambda>n. parse_items B line n c ts) (Inr ([e], r))"
  by (rule yields_Suc, rule parse_items.simps, rule yields_bind [OF assms(2)]) (use assms(1) in \<open>simp add: mark_simps\<close>)

lemma yields_items_more:
  assumes "is_lexeme '','' d" and "c = '')'' \<or> c = '']''" and "yields (\<lambda>n. parse_expression B line n 0 ts) (Inr (e, d # us))"
    and "yields (\<lambda>n. parse_items B line n c us) (Inr (es, r))"
  shows "yields (\<lambda>n. parse_items B line n c ts) (Inr (e # es, r))"
proof -
  have c: "consume c (d # us) = None" using assms(1,2) by (auto simp: mark_simps)
  have rest: "yields (\<lambda>n. pbind (parse_items B line n c us) (\<lambda>items r''. Some (Inr (e # items, r'')))) (Inr (e # es, r))"
    using assms(4) by (rule yields_bind) simp
  show ?thesis
    by (rule yields_Suc, rule parse_items.simps, rule yields_bind [OF assms(3)]) (simp add: c expect_Cons [OF assms(1)] rest)
qed

lemma yields_member:
  assumes "is_lexeme ''.'' d" and "tn_kind m = Identifier_Token" and "yields (\<lambda>n. parse_suffixes B line n (member_expr e m) r) x"
  shows "yields (\<lambda>n. parse_suffixes B line n e (d # m # r)) x"
  by (rule yields_Suc [OF _ assms(3)]) (use assms(1,2) in \<open>simp add: mark_simps\<close>)

lemma yields_index:
  assumes "is_lexeme ''['' t" and "is_lexeme '']'' u" and "yields (\<lambda>n. parse_expression B line n 0 ts) (Inr (i, u # r))"
    and "yields (\<lambda>n. parse_suffixes B line n (index_expr e i) r) x"
  shows "yields (\<lambda>n. parse_suffixes B line n e (t # ts)) x"
  by (rule yields_Suc [OF _ yields_bracketed [OF assms(2,3), of "\<lambda>n i. parse_suffixes B line n (index_expr e i)"]])
     (use assms(1,4) in \<open>simp_all add: mark_simps\<close>)

lemma yields_call:
  assumes "is_lexeme ''('' t" and "expression_name e = Some callee" and "consume '')'' ts = None"
    and "yields (\<lambda>n. parse_items B line n '')'' ts) (Inr (args, r))" and "yields (\<lambda>n. parse_suffixes B line n (call_of e callee args) r) x"
  shows "yields (\<lambda>n. parse_suffixes B line n e (t # ts)) x"
  by (rule yields_Suc [OF _ yields_bind [OF assms(4), of "\<lambda>n args. parse_suffixes B line n (call_of e callee args)"]])
     (use assms in \<open>simp_all add: mark_simps\<close>)

lemma yields_empty_call:
  assumes "is_lexeme ''('' t" and "expression_name e = Some callee" and "is_lexeme '')'' u"
    and "yields (\<lambda>n. parse_suffixes B line n (call_of e callee []) r) x"
  shows "yields (\<lambda>n. parse_suffixes B line n e (t # u # r)) x"
  by (rule yields_Suc [OF _ assms(4)]) (use assms in \<open>simp add: mark_simps\<close>)

lemma yields_atom:
  assumes "unary_of t = None" and "atom_of t = Some e" and "yields (\<lambda>n. parse_suffixes B line n e r) x"
  shows "yields (\<lambda>n. parse_prefix B line n (t # r)) x"
  by (rule yields_Suc [OF _ assms(3)]) (use assms(1,2) in simp)

lemma yields_paren:
  assumes "is_open ''('' t" and "is_lexeme '')'' u" and "yields (\<lambda>n. parse_expression B line n 0 ts) (Inr (e, u # r))"
    and "yields (\<lambda>n. parse_suffixes B line n e r) x"
  shows "yields (\<lambda>n. parse_prefix B line n (t # ts)) x"
  by (rule yields_Suc [OF _ yields_bracketed [OF assms(2,3), of "\<lambda>n. parse_suffixes B line n"]])
     (use assms(1,4) open_facts [OF assms(1)] in \<open>simp_all add: mark_simps\<close>)

lemma yields_tuple:
  assumes "is_open ''['' t" and "consume '']'' ts = None" and "yields (\<lambda>n. parse_items B line n '']'' ts) (Inr (items, r))"
    and "yields (\<lambda>n. parse_suffixes B line n (tuple_of t items) r) x"
  shows "yields (\<lambda>n. parse_prefix B line n (t # ts)) x"
  by (rule yields_Suc [OF _ yields_bind [OF assms(3), of "\<lambda>n items. parse_suffixes B line n (tuple_of t items)"]])
     (use assms open_facts [OF assms(1)] is_open_unique [OF assms(1)] in simp_all)

lemma yields_empty_tuple:
  assumes "is_open ''['' t" and "is_lexeme '']'' u" and "yields (\<lambda>n. parse_suffixes B line n (tuple_of t []) r) x"
  shows "yields (\<lambda>n. parse_prefix B line n (t # u # r)) x"
  by (rule yields_Suc [OF _ assms(3)])
     (use assms open_facts [OF assms(1)] is_open_unique [OF assms(1)] in \<open>simp_all add: mark_simps\<close>)

lemma consume_append: "us \<noteq> [] \<Longrightarrow> consume v us = None \<Longrightarrow> consume v (us @ r) = None"
  by (cases us) (auto simp: consume_def split: if_splits)

lemma derives_nonempty:
  "derives line p us e \<Longrightarrow> us \<noteq> []" "derives_binary line p us e \<Longrightarrow> us \<noteq> []" "derives_prefix line us e \<Longrightarrow> us \<noteq> []"
  "derives_postfix line us e \<Longrightarrow> us \<noteq> []" "derives_items line us es \<Longrightarrow> us \<noteq> []"
  by (induction rule: grammar_induct) simp_all

lemma parse_complete:
  "derives line p us e \<Longrightarrow> (\<forall>r. stops p r \<longrightarrow> yields (\<lambda>n. parse_expression B line n p (us @ r)) (Inr (e, r)))"
  "derives_binary line p us e \<Longrightarrow>
     (\<forall>p' r x. p' \<le> p \<and> no_suffix r \<and> no_operator (p + 1) r \<and> yields (\<lambda>n. parse_binary B line n p' e r) x \<longrightarrow>
        yields (\<lambda>n. pbind (parse_prefix B line n (us @ r)) (parse_binary B line n p')) x)"
  "derives_prefix line us e \<Longrightarrow> (\<forall>r. no_suffix r \<longrightarrow> yields (\<lambda>n. parse_prefix B line n (us @ r)) (Inr (e, r)))"
  "derives_postfix line us e \<Longrightarrow>
     (\<forall>r x. yields (\<lambda>n. parse_suffixes B line n e r) x \<longrightarrow> yields (\<lambda>n. parse_prefix B line n (us @ r)) x)"
  "derives_items line us es \<Longrightarrow>
     (\<forall>c u r. (c = '')'' \<or> c = '']'') \<and> is_lexeme c u \<longrightarrow> yields (\<lambda>n. parse_items B line n c (us @ u # r)) (Inr (es, r)))"
proof (induction rule: grammar_induct)
  case (plain p us e)
  show ?case
  proof (intro allI impI)
    fix r assume r: "stops p r"
    then have "no_operator (p + 1) r" using no_operator_mono by (auto simp: stops_def)
    then have "yields (\<lambda>n. pbind (parse_prefix B line n (us @ r)) (parse_binary B line n p)) (Inr (e, r))"
      using plain.IH(2) r finished_binary by (simp add: stops_def)
    then show "yields (\<lambda>n. parse_expression B line n p (us @ r)) (Inr (e, r))" using yields_no_ternary [OF r] by (rule yields_expression)
  qed
next
  case (ternary us c q vs t d ws f)
  show ?case
  proof (intro allI impI)
    fix r assume r: "stops 0 r"
    let ?r1 = "q # vs @ d # ws @ r"
    have mark: "no_suffix ?r1" "\<And>k. no_operator k ?r1" using stops_at_mark [of "''?''" q] \<open>is_lexeme ''?'' q\<close> by simp_all
    have "yields (\<lambda>n. pbind (parse_prefix B line n (us @ ?r1)) (parse_binary B line n 0)) (Inr (c, ?r1))"
      by (rule ternary.IH(2) [rule_format]) (simp add: finished_binary mark)
    moreover have "yields (\<lambda>n. parse_expression B line n 0 (vs @ d # ws @ r)) (Inr (t, d # ws @ r))"
      using ternary.IH(4) stops_at_close [of "'':''" d] \<open>is_lexeme '':'' d\<close> by blast
    moreover have "yields (\<lambda>n. parse_expression B line n 0 (ws @ r)) (Inr (f, r))" using ternary.IH(6) r by blast
    ultimately have "yields (\<lambda>n. parse_expression B line n 0 (us @ ?r1)) (Inr (ternary_expr c t f, r))"
      using yields_ternary [OF \<open>is_lexeme ''?'' q\<close> \<open>is_lexeme '':'' d\<close>] yields_expression by blast
    then show "yields (\<lambda>n. parse_expression B line n 0 ((us @ q # vs @ d # ws) @ r)) (Inr (ternary_expr c t f, r))" by simp
  qed
next
  case (operand us e p)
  show ?case
  proof (intro allI impI)
    fix p' r x assume r: "p' \<le> p \<and> no_suffix r \<and> no_operator (p + 1) r \<and> yields (\<lambda>n. parse_binary B line n p' e r) x"
    show "yields (\<lambda>n. pbind (parse_prefix B line n (us @ r)) (parse_binary B line n p')) x"
      by (rule yields_bind [of _ e r]) (use operand.IH(2) r in auto)
  qed
next
  case (operator k us l t op p vs g)
  show ?case
  proof (intro allI impI)
    fix p' r x assume r: "p' \<le> p \<and> no_suffix r \<and> no_operator (p + 1) r \<and> yields (\<lambda>n. parse_binary B line n p' (binary_expr l op g) r) x"
    have "stops (k + 1) r" using r operator.hyps(2) no_operator_mono [of "p + 1" r "k + 1"] by (simp add: stops_def)
    then have "yields (\<lambda>n. parse_expression B line n (k + 1) (vs @ r)) (Inr (g, r))" using operator.IH(4) by blast
    then have "yields (\<lambda>n. parse_binary B line n p' l (t # vs @ r)) x"
      using operator.hyps(1,2) r by (intro yields_operator) auto
    moreover have "no_operator (k + 1) (t # vs @ r)" using operator.hyps(1) binary_operator_head [of t] by (simp add: no_operator_def)
    ultimately have "yields (\<lambda>n. pbind (parse_prefix B line n (us @ t # vs @ r)) (parse_binary B line n p')) x"
      using operator.IH(2) no_suffix_operator [OF operator.hyps(1)] operator.hyps(2) r order.trans by blast
    then show "yields (\<lambda>n. pbind (parse_prefix B line n ((us @ t # vs) @ r)) (parse_binary B line n p')) x" by simp
  qed
next
  case (sign t op us e)
  then show ?case using yields_sign by simp
next
  case (postfix us e)
  then show ?case using finished_suffixes by blast
next
  case (atom t e)
  then show ?case using yields_atom by simp
next
  case (paren t us e u)
  then have "yields (\<lambda>n. parse_expression B line n 0 (us @ u # r)) (Inr (e, u # r))" for r
    using stops_at_close [OF paren.hyps(2)] by blast
  from yields_paren [OF paren.hyps(1,2) this] show ?case by simp
next
  case (tuple t us es u)
  then have items: "yields (\<lambda>n. parse_items B line n '']'' (us @ u # r)) (Inr (es, r))" for r by blast
  have "consume '']'' (us @ u # r) = None" for r
    using consume_append [OF derives_nonempty(5) [OF tuple.IH(1)] tuple.hyps(2)] .
  from yields_tuple [OF tuple.hyps(1) this items] show ?case by simp
next
  case (empty_tuple t u)
  then show ?case using yields_empty_tuple by simp
next
  case (selects us e d m)
  then show ?case using yields_member by simp
next
  case (index us e t vs i u)
  then have "yields (\<lambda>n. parse_expression B line n 0 (vs @ u # r)) (Inr (i, u # r))" for r
    using stops_at_close [OF index.hyps(2)] by blast
  from yields_index [OF index.hyps(1,2) this] show ?case using index.IH(2) by simp
next
  case (call us e t callee vs args u)
  then have items: "yields (\<lambda>n. parse_items B line n '')'' (vs @ u # r)) (Inr (args, r))" for r by blast
  have "consume '')'' (vs @ u # r) = None" for r
    using consume_append [OF derives_nonempty(5) [OF call.IH(3)] call.hyps(3)] .
  from yields_call [OF call.hyps(1,2) this items] show ?case using call.IH(2) by simp
next
  case (empty_call us e t callee u)
  then show ?case using yields_empty_call by simp
next
  case (one us e)
  then show ?case using yields_items_one stops_at_close by blast
next
  case (more us e c vs es)
  then have "yields (\<lambda>n. parse_expression B line n 0 (us @ c # ts)) (Inr (e, c # ts))" for ts
    using stops_at_close [OF more.hyps(1)] by blast
  from yields_items_more [OF more.hyps(1) _ this] show ?case using more.IH(4) by simp
qed

section \<open>The parser and the grammar\<close>

lemma expression_total:
  obtains res where "parse_expression B line (expression_fuel ts) p ts = Some res"
proof -
  have "good 1 ts (parse_expression B line (expression_fuel ts) p ts)"
    using parse_returns [of "expression_fuel ts" B line] by (simp add: expression_fuel_def)
  then show thesis using that by (auto simp: good_def)
qed

lemma expression_at_fuel:
  assumes "yields (\<lambda>n. parse_expression B line n p ts) x"
  shows "parse_expression B line (expression_fuel ts) p ts = Some x"
proof -
  obtain m where m: "\<forall>n\<ge>m. parse_expression B line n p ts = Some x" using assms unfolding yields_def by blast
  obtain res where res: "parse_expression B line (expression_fuel ts) p ts = Some res" by (rule expression_total)
  have "upto_fuel (parse_expression B line (expression_fuel ts) p ts) (parse_expression B line (max m (expression_fuel ts)) p ts)"
    using parse_mono [of "expression_fuel ts" B line] by simp
  then show ?thesis using m res by (simp add: upto_fuel_def)
qed

lemma stops_Nil [simp]: "stops p []"
  by (simp add: stops_def no_suffix_def no_operator_def binary_operator_def consume_def)

lemma expression_from_tokens_derives:
  assumes "derives (ll_number l) 0 ts e"
  shows "expression_from_tokens B l ts = Inr e"
proof -
  have "ts \<noteq> []" using derives_nonempty(1) [OF assms] .
  moreover have "yields (\<lambda>n. parse_expression B (ll_number l) n 0 ts) (Inr (e, []))"
    using parse_complete(1) [OF assms] by (metis append_Nil2 stops_Nil)
  ultimately show ?thesis using expression_at_fuel by (simp add: expression_from_tokens_def)
qed

lemma expression_from_tokens_sound:
  assumes "expression_from_tokens B l ts = Inr e"
  shows "derives (ll_number l) 0 ts e"
proof -
  have "parse_expression B (ll_number l) (expression_fuel ts) 0 ts = Some (Inr (e, []))"
    using assms by (auto simp: expression_from_tokens_def split: if_splits option.splits sum.splits prod.splits list.splits)
  then have "read_expression (ll_number l) 0 ts e []" by (rule parse_sound [THEN conjunct1, rule_format])
  then show ?thesis by (auto simp: read_expression_def)
qed

text \<open>C12: The expression parser is its grammar. It returns an expression for a list of tokens exactly when
  the grammar derives the expression from all of them: operators group by precedence and to the left,
  a conditional is read outside every operator, and no input is left over or read in two ways.\<close>

theorem parser_is_grammar:
  "expression_from_tokens B l ts = Inr e \<longleftrightarrow> derives (ll_number l) 0 ts e"
  using expression_from_tokens_sound expression_from_tokens_derives by blast

text \<open>The grammar is unambiguous.\<close>

corollary derives_unique:
  assumes "derives line 0 ts e" and "derives line 0 ts e'"
  shows "e = e'"
proof -
  let ?l = "\<lparr>ll_number = line, ll_indent = 0, ll_text = [], ll_tokens = []\<rparr>" and ?B = "\<lparr>dbg_char = id, dbg_str = id\<rparr>"
  have "expression_from_tokens ?B ?l ts = Inr e" "expression_from_tokens ?B ?l ts = Inr e'"
    by (rule expression_from_tokens_derives, simp add: assms)+
  then show ?thesis by simp
qed

text \<open>The expression parser returns on every input, at every level: the fuel it is given, four calls
  for each token and five more, is never used up, and more fuel gives the same result.\<close>

theorem expression_parser_returns:
  "\<exists>res. \<forall>m. parse_expression B line (expression_fuel ts + m) p ts = Some res"
proof -
  obtain res where res: "parse_expression B line (expression_fuel ts) p ts = Some res" by (rule expression_total)
  then have "parse_expression B line (expression_fuel ts + m) p ts = Some res" for m
    using parse_mono [of "expression_fuel ts" B line] by (metis le_add1 option.distinct(1) upto_fuel_def)
  then show ?thesis by blast
qed

end
