(* ===== verification/Pine_Parser.thy ===== *)
theory Pine_Parser
  imports Pine_Expressions "HOL-Library.Sublist"
begin

text \<open>
  The statements of \<open>crates/jftrade-strategy/src/pine/parser.rs\<close>: blocks by indentation, the headers of
  statements, and the whole program. The cursor into the lines is the list of the lines from it on; the
  three functions that call each other spend fuel, of which \<open>program_fuel\<close> is enough.
\<close>

section \<open>Syntax\<close>

datatype assignment_mode = Let_Mode | Var_Mode | Reassign_Mode

record argument =
  ar_name :: "string option"
  ar_value :: expr

record strategy_declaration =
  sd_name :: string
  sd_arguments :: "argument list"
  sd_range :: source_range

datatype statement =
    Assignment source_range string expr assignment_mode
  | Tuple_Assignment source_range "string list" expr assignment_mode
  | If_Statement source_range expr "statement list" "statement list"
  | For_Statement source_range string expr expr "expr option" "statement list"
  | Call_Statement source_range expr
  | Function_Statement source_range string "string list" expr
  | Unsupported_Statement source_range string

record program =
  pg_source_format :: string
  pg_version :: nat
  pg_strategy :: "strategy_declaration option"
  pg_statements :: "statement list"

section \<open>Text of a line\<close>

text \<open>\<open>str::find\<close> of a string, \<open>str::get\<close> of the rest from a byte, \<open>str::rfind\<close> of a character.\<close>

fun find_sub :: "string \<Rightarrow> string \<Rightarrow> nat option" where
  "find_sub p [] = (if p = [] then Some 0 else None)"
| "find_sub p (c # s) = (if starts_with (c # s) p then Some 0 else map_option Suc (find_sub p s))"

definition get_from :: "nat \<Rightarrow> string \<Rightarrow> string option" where
  "get_from n s =
     (if n = length s \<or> n < length s \<and> \<not> (128 \<le> byte (s ! n) \<and> byte (s ! n) < 192) then Some (drop n s) else None)"

definition rfind_char :: "char \<Rightarrow> string \<Rightarrow> nat option" where
  "rfind_char c s = map_option (\<lambda>n. length s - 1 - n) (find_sub [c] (rev s))"

definition expression_from_text :: "debug_lib \<Rightarrow> lexed_line \<Rightarrow> string \<Rightarrow> parse_error + expr" where
  "expression_from_text B l part =
     (let token_start = (case find_sub part (ll_text l) of Some n \<Rightarrow> n | None \<Rightarrow> 0)
      in expression_from_tokens B l (filter (\<lambda>t. ll_indent l + token_start < tn_column t) (ll_tokens l)))"

definition parse_version_directive :: "string \<Rightarrow> nat option" where
  "parse_version_directive s =
     (case strip_prefix ''//@version='' s of
        None \<Rightarrow> None
      | Some v \<Rightarrow> opt_filter (\<lambda>n. n < 256) (parse_u64 (trim v)))"

definition range_for_line :: "lexed_line \<Rightarrow> source_range" where
  "range_for_line l = line_range (ll_number l) (ll_indent l + 1) (ll_indent l + length (ll_text l) + 1)"

section \<open>Headers\<close>

definition open_marks :: "string list" where
  "open_marks = [''('', ''['', ''{'']"

definition close_marks :: "string list" where
  "close_marks = ['')'', '']'', ''}'']"

fun assignment_index :: "nat \<Rightarrow> token list \<Rightarrow> nat option" where
  "assignment_index depth [] = None"
| "assignment_index depth (t # ts) =
     (if tn_lexeme t \<in> set open_marks then map_option Suc (assignment_index (Suc depth) ts)
      else if tn_lexeme t \<in> set close_marks then map_option Suc (assignment_index (depth - 1) ts)
      else if (tn_lexeme t = ''='' \<or> tn_lexeme t = '':='') \<and> depth = 0 then Some 0
      else map_option Suc (assignment_index depth ts))"

text \<open>The names on the left, how they are assigned, and the text on the right.\<close>

definition assigned_names :: "token list \<Rightarrow> string \<Rightarrow> (string list \<times> string) option" where
  "assigned_names lhs op =
     (let first = (case lhs of [] \<Rightarrow> None | t # _ \<Rightarrow> Some (tn_lexeme t));
          second = (case lhs of _ # t # _ \<Rightarrow> Some (tn_lexeme t) | _ \<Rightarrow> None)
      in if first = Some ''var'' then map_option (\<lambda>n. ([n], ''var'')) second
         else if first = Some ''const'' \<or> first = Some ''varip'' then map_option (\<lambda>n. ([n], op)) second
         else
           let names = map tn_lexeme (filter (\<lambda>t. tn_kind t = Identifier_Token) (tl (butlast lhs)))
           in if first = Some ''['' \<and> tn_lexeme (last lhs) = '']'' \<and> 1 < length names then Some (names, op)
              else case lhs of
                     [t] \<Rightarrow> if tn_kind t = Identifier_Token then Some ([tn_lexeme t], op) else None
                   | _ \<Rightarrow> None)"

definition split_assignment :: "lexed_line \<Rightarrow> (string list \<times> string \<times> string) option" where
  "split_assignment l =
     (case assignment_index 0 (ll_tokens l) of
        None \<Rightarrow> None
      | Some i \<Rightarrow>
          let t = ll_tokens l ! i
          in case get_from (tn_end_column t - 1) (ll_text l) of
               None \<Rightarrow> None
             | Some r \<Rightarrow> map_option (\<lambda>(names, op). (names, op, trim r)) (assigned_names (take i (ll_tokens l)) (tn_lexeme t)))"

fun raw_arguments :: "nat \<Rightarrow> bool \<Rightarrow> string \<Rightarrow> string \<Rightarrow> string list" where
  "raw_arguments depth quoted current [] = (if current = [] then [] else [trim current])"
| "raw_arguments depth quoted current (c # s) =
     (if [c] = quote_char then raw_arguments depth (\<not> quoted) (current @ [c]) s
      else if [c] \<in> set open_marks \<and> \<not> quoted then raw_arguments (Suc depth) quoted (current @ [c]) s
      else if [c] \<in> set close_marks \<and> \<not> quoted then raw_arguments (depth - 1) quoted (current @ [c]) s
      else if c = CHR '','' \<and> \<not> quoted \<and> depth = 0 then trim current # raw_arguments depth quoted [] s
      else raw_arguments depth quoted (current @ [c]) s)"

definition split_raw_arguments :: "string \<Rightarrow> string list" where
  "split_raw_arguments v = raw_arguments 0 False [] v"

definition is_name :: "string \<Rightarrow> bool" where
  "is_name n \<longleftrightarrow> n \<noteq> [] \<and> list_all (\<lambda>c. word_char [c]) n"

definition parse_function_header :: "lexed_line \<Rightarrow> (string \<times> string list \<times> string) option" where
  "parse_function_header l =
     (case find_sub ''=>'' (ll_text l) of
        None \<Rightarrow> None
      | Some arrow \<Rightarrow>
          let header = trim (take arrow (ll_text l))
          in case (find_sub ''('' header, rfind_char (CHR '')'') header) of
               (Some open_at, Some close_at) \<Rightarrow>
                 let name = trim (take open_at header)
                 in if \<not> is_name name then None
                    else Some (name,
                      filter (\<lambda>v. v \<noteq> []) (map trim (split_raw_arguments (take (close_at - (open_at + 1)) (drop (open_at + 1) header)))),
                      trim (drop (arrow + 2) (ll_text l)))
             | _ \<Rightarrow> None)"

definition for_error :: "lexed_line \<Rightarrow> string \<Rightarrow> parse_error" where
  "for_error l message = \<lparr>pe_code_name = ''PINE_FOR_INVALID'', pe_message = message, pe_line = ll_number l, pe_column = 1\<rparr>"

definition lexeme_position :: "string \<Rightarrow> token list \<Rightarrow> nat option" where
  "lexeme_position v ts = (let n = length (takeWhile (\<lambda>t. tn_lexeme t \<noteq> v) ts) in if n < length ts then Some n else None)"

definition parse_for_header :: "debug_lib \<Rightarrow> lexed_line \<Rightarrow> parse_error + string \<times> expr \<times> expr \<times> expr option" where
  "parse_for_header B l =
     (case ll_tokens l of
        [] \<Rightarrow> Inl (for_error l ''invalid for loop'')
      | f # ts \<Rightarrow>
     if tn_lexeme f \<noteq> ''for'' then Inl (for_error l ''invalid for loop'')
     else case ts of
        [] \<Rightarrow> Inl (for_error l ''for loop variable is required'')
      | v # ts1 \<Rightarrow>
     if tn_kind v \<noteq> Identifier_Token then Inl (for_error l ''for loop variable is required'')
     else case ts1 of
        [] \<Rightarrow> Inl (for_error l (''for loop requires '' @ [char_of (39 :: nat)] @ ''='' @ [char_of (39 :: nat)]))
      | q # ts2 \<Rightarrow>
     if tn_lexeme q \<noteq> ''='' then Inl (for_error l (''for loop requires '' @ [char_of (39 :: nat)] @ ''='' @ [char_of (39 :: nat)]))
     else case lexeme_position ''to'' ts2 of
        None \<Rightarrow> Inl (for_error l (''for loop requires '' @ [char_of (39 :: nat)] @ ''to'' @ [char_of (39 :: nat)]))
      | Some to_index \<Rightarrow>
     let after_to = drop (Suc to_index) ts2; by_index = lexeme_position ''by'' after_to
     in rbind (expression_from_tokens B l (take to_index ts2)) (\<lambda>start.
        rbind (expression_from_tokens B l (case by_index of None \<Rightarrow> after_to | Some b \<Rightarrow> take b after_to)) (\<lambda>finish.
        rbind (case by_index of None \<Rightarrow> Inr None | Some b \<Rightarrow> map_sum id Some (expression_from_tokens B l (drop (Suc b) after_to))) (\<lambda>step.
        Inr (tn_lexeme v, start, finish, step)))))"

definition strategy_error :: "lexed_line \<Rightarrow> string \<Rightarrow> string \<Rightarrow> parse_error" where
  "strategy_error l code message = \<lparr>pe_code_name = code, pe_message = message, pe_line = ll_number l, pe_column = 1\<rparr>"

fun named_argument :: "expr \<Rightarrow> argument" where
  "named_argument (Expr r (Binary_K (Expr r' (Identifier_K n)) Equal right)) = \<lparr>ar_name = Some n, ar_value = right\<rparr>"
| "named_argument e = \<lparr>ar_name = None, ar_value = e\<rparr>"

definition parse_strategy :: "debug_lib \<Rightarrow> lexed_line \<Rightarrow> parse_error + strategy_declaration" where
  "parse_strategy B l =
     rbind (expression_from_text B l (ll_text l)) (\<lambda>e.
     case ex_kind e of
       Call_K callee args \<Rightarrow>
         if callee \<noteq> ''strategy'' then Inl (strategy_error l ''PINE_STRATEGY_REQUIRED'' ''strategy declaration must call strategy(...)'')
         else (case args of
                 Expr _ (String_K name) # _ \<Rightarrow>
                   Inr \<lparr>sd_name = name, sd_arguments = map named_argument args, sd_range = range_for_line l\<rparr>
               | _ \<Rightarrow> Inl (strategy_error l ''PINE_STRATEGY_NAME_REQUIRED'' ''strategy() requires a string title''))
     | _ \<Rightarrow> Inl (strategy_error l ''PINE_STRATEGY_REQUIRED'' ''strategy declaration must be a call''))"

section \<open>Blocks\<close>

definition ignorable :: "lexed_line \<Rightarrow> bool" where
  "ignorable l \<longleftrightarrow> ll_text l = [] \<or> starts_with (ll_text l) ''//''"

definition next_code_line :: "lexed_line list \<Rightarrow> lexed_line option" where
  "next_code_line ls = List.find (\<lambda>l. \<not> ignorable l) ls"

definition is_else :: "string \<Rightarrow> bool" where
  "is_else s \<longleftrightarrow> s = ''else'' \<or> s = ''else:''"

definition block_missing :: "nat \<Rightarrow> parse_error" where
  "block_missing line =
     \<lparr>pe_code_name = ''PINE_BLOCK_MISSING'', pe_message = ''if/for requires an indented body'', pe_line = line, pe_column = 1\<rparr>"

text \<open>A statement without a body.\<close>

definition simple_statement :: "debug_lib \<Rightarrow> lexed_line \<Rightarrow> parse_error + statement" where
  "simple_statement B l =
     (let rng = range_for_line l
      in case split_assignment l of
           Some (names, op, rhs) \<Rightarrow>
             let mode = (if op = ''var'' then Var_Mode else if op = '':='' then Reassign_Mode else Let_Mode)
             in rbind (expression_from_text B l rhs) (\<lambda>e.
                Inr (if 1 < length names then Tuple_Assignment rng names e mode
                     else Assignment rng (case names of [] \<Rightarrow> [] | n # _ \<Rightarrow> n) e mode))
         | None \<Rightarrow>
             (case parse_function_header l of
                Some (name, parameters, body) \<Rightarrow>
                  rbind (expression_from_text B l body) (\<lambda>e. Inr (Function_Statement rng name parameters e))
              | None \<Rightarrow>
                  (case expression_from_text B l (trim (ll_text l)) of
                     Inr e \<Rightarrow> Inr (Call_Statement rng e)
                   | Inl _ \<Rightarrow> Inr (Unsupported_Statement rng (trim (ll_text l))))))"

function (sequential) parse_statement :: "debug_lib \<Rightarrow> nat \<Rightarrow> nat \<Rightarrow> lexed_line list \<Rightarrow> (lexed_line, statement) parsing"
  and parse_children :: "debug_lib \<Rightarrow> nat \<Rightarrow> nat \<Rightarrow> nat \<Rightarrow> lexed_line list \<Rightarrow> (lexed_line, statement list) parsing"
  and parse_block :: "debug_lib \<Rightarrow> nat \<Rightarrow> nat \<Rightarrow> lexed_line list \<Rightarrow> (lexed_line, statement list) parsing" where
  "parse_statement B 0 parent ls = None"
| "parse_statement B (Suc n) parent ls =
     (case ls of
        [] \<Rightarrow> None
      | l # rest \<Rightarrow>
     if ll_indent l < parent then Some (Inl (line_error ''PINE_BLOCK_MISSING'' ''expected an indented statement'' l))
     else if parent < ll_indent l then Some (Inl (line_error ''PINE_INDENT_UNEXPECTED'' ''unexpected indentation'' l))
     else if starts_with (trim (ll_text l)) ''if '' then
       (case expression_from_text B l (drop 3 (trim (ll_text l))) of
          Inl e \<Rightarrow> Some (Inl e)
        | Inr condition \<Rightarrow>
            pbind (parse_children B n parent (ll_number l) rest) (\<lambda>then_body r1.
            if is_some_and (next_code_line r1) (\<lambda>c. is_else (ll_text c))
            then pbind (parse_children B n parent (ll_number l) (tl r1)) (\<lambda>else_body r2.
                 Some (Inr (If_Statement (range_for_line l) condition then_body else_body, r2)))
            else Some (Inr (If_Statement (range_for_line l) condition then_body [], r1))))
     else if starts_with (trim (ll_text l)) ''for '' then
       (case parse_for_header B l of
          Inl e \<Rightarrow> Some (Inl e)
        | Inr (variable, start, finish, step) \<Rightarrow>
            pbind (parse_children B n parent (ll_number l) rest) (\<lambda>body r1.
            Some (Inr (For_Statement (range_for_line l) variable start finish step body, r1))))
     else (case simple_statement B l of Inl e \<Rightarrow> Some (Inl e) | Inr s \<Rightarrow> Some (Inr (s, rest))))"
| "parse_children B 0 parent line ls = None"
| "parse_children B (Suc n) parent line ls =
     (case next_code_line ls of
        None \<Rightarrow> Some (Inl (block_missing line))
      | Some c \<Rightarrow> if ll_indent c \<le> parent then Some (Inl (block_missing line)) else parse_block B n (ll_indent c) ls)"
| "parse_block B 0 child ls = None"
| "parse_block B (Suc n) child ls =
     (case ls of
        [] \<Rightarrow> Some (Inr ([], []))
      | l # rest \<Rightarrow>
          if ignorable l then parse_block B n child rest
          else if ll_indent l < child then Some (Inr ([], ls))
          else if child < ll_indent l
          then Some (Inl (line_error ''PINE_INDENT_UNEXPECTED'' ''indentation is deeper than the enclosing block'' l))
          else pbind (parse_statement B n child ls) (\<lambda>s r.
               pbind (parse_block B n child r) (\<lambda>ss r'. Some (Inr (s # ss, r')))))"
  by pat_completeness auto

termination
  by (relation "measure (\<lambda>x. case x of
        Inl (B, n, parent, ls) \<Rightarrow> n | Inr (Inl (B, n, parent, line, ls)) \<Rightarrow> n | Inr (Inr (B, n, child, ls)) \<Rightarrow> n)") simp_all

section \<open>Programs\<close>

definition program_fuel :: "lexed_line list \<Rightarrow> nat" where
  "program_fuel ls = 3 * length ls + 3"

text \<open>The loop of \<open>parse_program\<close>, with what it has read; one unit of fuel for each line or statement.\<close>

fun program_loop :: "debug_lib \<Rightarrow> nat \<Rightarrow> lexed_line list \<Rightarrow> nat option \<times> strategy_declaration option \<times> statement list \<Rightarrow>
    (parse_error + nat option \<times> strategy_declaration option \<times> statement list) option" where
  "program_loop B 0 ls acc = None"
| "program_loop B (Suc n) [] acc = Some (Inr acc)"
| "program_loop B (Suc n) (l # rest) (version, strategy, statements) =
     (case parse_version_directive (ll_text l) of
        Some v \<Rightarrow> program_loop B n rest (Some v, strategy, statements)
      | None \<Rightarrow>
          if ignorable l then program_loop B n rest (version, strategy, statements)
          else if ll_indent l \<noteq> 0
          then Some (Inl (line_error ''PINE_INDENT_UNEXPECTED'' ''top-level statement must not be indented'' l))
          else if starts_with (ll_text l) ''strategy('' then
            (if strategy \<noteq> None
             then Some (Inl (line_error ''PINE_STRATEGY_DUPLICATE'' ''strategy declaration may appear only once'' l))
             else case parse_strategy B l of
                    Inl e \<Rightarrow> Some (Inl e)
                  | Inr d \<Rightarrow> program_loop B n rest (version, Some d, statements))
          else (case parse_statement B (program_fuel (l # rest)) 0 (l # rest) of
                  None \<Rightarrow> None
                | Some (Inl e) \<Rightarrow> Some (Inl e)
                | Some (Inr (s, r)) \<Rightarrow> program_loop B n r (version, strategy, statements @ [s])))"

definition parse_program :: "debug_lib \<Rightarrow> lexed_line list \<Rightarrow> (parse_error + program) option" where
  "parse_program B ls =
     map_option (\<lambda>res. rbind res (\<lambda>(version, strategy, statements).
       map_sum id (\<lambda>v. \<lparr>pg_source_format = ''pine-v6'', pg_version = v, pg_strategy = strategy, pg_statements = statements\<rparr>)
         (ok_or version \<lparr>pe_code_name = ''PINE_VERSION_REQUIRED'', pe_message = ''//@version=6 is required'', pe_line = 1, pe_column = 1\<rparr>)))
       (program_loop B (length ls + 1) ls (None, None, []))"

definition parse :: "debug_lib \<Rightarrow> string \<Rightarrow> (parse_error + program) option" where
  "parse B source =
     (case lex source of
        Inl e \<Rightarrow> Some (Inl \<lparr>pe_code_name = ''PINE_LEX_ERROR'', pe_message = lex_error_text B e, pe_line = lex_error_line e, pe_column = 1\<rparr>)
      | Inr ls \<Rightarrow> parse_program B ls)"

section \<open>The parser returns\<close>

lemma next_code_line_Some: "next_code_line ls = Some c \<Longrightarrow> ls \<noteq> []"
  by (auto simp: next_code_line_def)

lemma blocks_good:
  "(ls \<noteq> [] \<longrightarrow> 3 * length ls \<le> n \<longrightarrow> good 1 ls (parse_statement B n parent ls)) \<and>
   (3 * length ls + 2 \<le> n \<longrightarrow> good 0 ls (parse_children B n parent line ls)) \<and>
   (3 * length ls + 1 \<le> n \<longrightarrow> good 0 ls (parse_block B n child ls))"
proof (induction n arbitrary: ls parent line child)
  case 0
  then show ?case by simp
next
  case (Suc n)
  have st: "ls \<noteq> [] \<Longrightarrow> 3 * length ls \<le> n \<Longrightarrow> good 1 ls (parse_statement B n p ls)" for ls p
    using Suc.IH by blast
  have ch: "3 * length ls + 2 \<le> n \<Longrightarrow> good 0 ls (parse_children B n p line ls)" for ls p line
    using Suc.IH by blast
  have bl: "3 * length ls + 1 \<le> n \<Longrightarrow> good 0 ls (parse_block B n p ls)" for ls p
    using Suc.IH by blast
  have "good 1 ls (parse_statement B (Suc n) parent ls)" if "ls \<noteq> []" "3 * length ls \<le> Suc n"
  proof (cases ls)
    case (Cons l rest)
    have c1: "good 0 rest (parse_children B n p (ll_number l) rest)" for p
      using that Cons by (intro ch) simp
    have c2: "good 0 r (parse_children B n p (ll_number l) r)" if "length r \<le> length rest" for r p
      using that \<open>3 * length ls \<le> Suc n\<close> Cons by (intro ch) simp
    have c3: "good 1 (l # rest) (pbind (parse_children B n p (ll_number l) r) (\<lambda>v r. Some (Inr (F v, r))))"
      if "length r \<le> length rest" for r p and F :: "statement list \<Rightarrow> statement"
      using that by (intro good_bind [OF c2 [OF that]]) simp_all
    have c4: "good 1 (l # rest) (pbind (parse_children B n p (ll_number l) rest) (\<lambda>v r.
        if Q r then pbind (parse_children B n p (ll_number l) (tl r)) (\<lambda>v' r. Some (Inr (F v v', r))) else Some (Inr (G v, r))))"
      for p Q and F :: "statement list \<Rightarrow> statement list \<Rightarrow> statement" and G
      by (rule good_bind [OF c1]) (auto intro!: c3 [simplified])
    show ?thesis unfolding Cons
      by (auto simp: c3 [simplified] c4 [simplified] split: sum.split)
  qed (use that in simp)
  moreover have "good 0 ls (parse_children B (Suc n) parent line ls)" if "3 * length ls + 2 \<le> Suc n"
    using that by (auto split: option.split intro!: bl)
  moreover have "good 0 ls (parse_block B (Suc n) child ls)" if "3 * length ls + 1 \<le> Suc n"
  proof (cases ls)
    case (Cons l rest)
    have skip: "good 0 ls (parse_block B n child rest)"
      using that Cons by (intro good_mono [OF bl [where ls = rest]]) simp_all
    have first: "good 1 ls (parse_statement B n child ls)" using that Cons by (intro st) simp_all
    have more: "good 0 r (parse_block B n child r)" if "length r + 1 \<le> length ls" for r
      using that \<open>3 * length ls + 1 \<le> Suc n\<close> by (intro bl) simp
    have "good 0 ls (pbind (parse_statement B n child ls) (\<lambda>s r.
        pbind (parse_block B n child r) (\<lambda>ss r'. Some (Inr (s # ss, r')))))"
    proof (rule good_bind [OF first])
      fix s :: statement and r :: "lexed_line list"
      assume r: "length r + 1 \<le> length ls"
      show "good 0 ls (pbind (parse_block B n child r) (\<lambda>ss r'. Some (Inr (s # ss, r'))))"
        by (rule good_bind [OF more [OF r]]) (use r in simp)
    qed
    then show ?thesis using Cons skip by auto
  qed simp
  ultimately show ?case by blast
qed

lemma statement_good: "ls \<noteq> [] \<Longrightarrow> good 1 ls (parse_statement B (program_fuel ls) p ls)"
  using blocks_good [of ls "program_fuel ls" B p] by (simp add: program_fuel_def)

lemma program_loop_returns: "length ls < n \<Longrightarrow> \<exists>res. program_loop B n ls acc = Some res"
proof (induction B n ls acc rule: program_loop.induct)
  case (3 B n l rest version strategy statements)
  have "good 1 (l # rest) (parse_statement B (program_fuel (l # rest)) 0 (l # rest))"
    by (rule statement_good) simp
  then show ?case
    using "3.IH" "3.prems" by (auto simp: good_def split: option.split sum.split)
qed simp_all

lemma parse_program_returns: "\<exists>res. parse_program B ls = Some res"
  using program_loop_returns [of ls "length ls + 1" B "(None, None, [])"] by (auto simp: parse_program_def)

section \<open>Every line of code is parsed once\<close>

text \<open>The lines on which the statements of a list start, bodies after their headers.\<close>

fun statement_range :: "statement \<Rightarrow> source_range" where
  "statement_range (Assignment r n e m) = r"
| "statement_range (Tuple_Assignment r ns e m) = r"
| "statement_range (If_Statement r c a b) = r"
| "statement_range (For_Statement r v s e st b) = r"
| "statement_range (Call_Statement r e) = r"
| "statement_range (Function_Statement r n ps b) = r"
| "statement_range (Unsupported_Statement r t) = r"

fun statement_lines :: "statement \<Rightarrow> nat list" where
  "statement_lines (If_Statement r c a b) = sr_start_line r # concat (map statement_lines a) @ concat (map statement_lines b)"
| "statement_lines (For_Statement r v s e st b) = sr_start_line r # concat (map statement_lines b)"
| "statement_lines s = [sr_start_line (statement_range s)]"

definition program_lines :: "program \<Rightarrow> nat list" where
  "program_lines p = concat (map statement_lines (pg_statements p))"

definition covers :: "(lexed_line \<Rightarrow> bool) \<Rightarrow> lexed_line list \<Rightarrow> nat list \<Rightarrow> bool" where
  "covers P used ns \<longleftrightarrow>
     subseq ns (map ll_number used) \<and>
     list_all (\<lambda>l. ll_number l \<in> set ns \<or> ignorable l \<or> is_else (ll_text l) \<or> P l) used"

definition takes :: "lexed_line list \<Rightarrow> lexed_line list \<Rightarrow> nat list \<Rightarrow> bool" where
  "takes ls r ns \<longleftrightarrow> (\<exists>used. ls = used @ r \<and> covers (\<lambda>l. False) used ns)"

lemma covers_Nil [simp]: "covers P [] []"
  by (simp add: covers_def)

lemma covers_append: "covers P u a \<Longrightarrow> covers P v b \<Longrightarrow> covers P (u @ v) (a @ b)"
  by (auto simp: covers_def list_emb_append_mono list_all_iff)

lemma covers_line [simp]: "covers P [l] [ll_number l]"
  by (simp add: covers_def)

lemma covers_other: "ignorable l \<or> is_else (ll_text l) \<or> P l \<Longrightarrow> covers P [l] []"
  by (auto simp: covers_def)

lemma covers_mono: "covers P u a \<Longrightarrow> (\<And>l. P l \<Longrightarrow> Q l) \<Longrightarrow> covers Q u a"
  by (auto simp: covers_def list_all_iff)

lemma takes_refl [simp]: "takes ls ls []"
  by (simp add: takes_def)

lemma takes_append: "takes ls r a \<Longrightarrow> takes r r' b \<Longrightarrow> takes ls r' (a @ b)"
  by (force simp: takes_def intro: covers_append)

lemma takes_line: "takes rest r ns \<Longrightarrow> takes (l # rest) r (ll_number l # ns)"
  unfolding takes_def using covers_append [OF covers_line] by fastforce

lemma takes_other: "ignorable l \<or> is_else (ll_text l) \<Longrightarrow> takes rest r ns \<Longrightarrow> takes (l # rest) r ns"
  unfolding takes_def using covers_append [OF covers_other [of l]] by fastforce

lemma range_for_line_start [simp]:
  "sr_start_line (range_for_line l) = ll_number l" "sr_start_column (range_for_line l) = ll_indent l + 1"
  by (simp_all add: range_for_line_def line_range_def)

text \<open>Statements of a body stand in one column, right of the header's.\<close>

definition statement_column :: "statement \<Rightarrow> nat" where
  "statement_column s = sr_start_column (statement_range s)"

definition body_ok :: "source_range \<Rightarrow> statement list \<Rightarrow> bool" where
  "body_ok r ss \<longleftrightarrow>
     (case ss of [] \<Rightarrow> True
      | s # _ \<Rightarrow> sr_start_column r < statement_column s \<and> list_all (\<lambda>t. statement_column t = statement_column s) ss)"

fun well_nested :: "statement \<Rightarrow> bool" where
  "well_nested (If_Statement r c a b) \<longleftrightarrow>
     a \<noteq> [] \<and> body_ok r a \<and> body_ok r b \<and> list_all well_nested a \<and> list_all well_nested b"
| "well_nested (For_Statement r v s e st b) \<longleftrightarrow> b \<noteq> [] \<and> body_ok r b \<and> list_all well_nested b"
| "well_nested s = True"

definition block_result :: "nat \<Rightarrow> lexed_line list \<Rightarrow> statement list \<Rightarrow> lexed_line list \<Rightarrow> bool" where
  "block_result d ls ss r \<longleftrightarrow>
     takes ls r (concat (map statement_lines ss)) \<and> list_all (\<lambda>s. well_nested s \<and> statement_column s = d + 1) ss \<and>
     (r \<noteq> [] \<longrightarrow> \<not> ignorable (hd r)) \<and> (\<forall>c. next_code_line ls = Some c \<longrightarrow> d \<le> ll_indent c \<longrightarrow> ss \<noteq> [])"

lemma simple_statement_shape:
  assumes "simple_statement B l = Inr s"
  shows "statement_lines s = [ll_number l]" "well_nested s" "statement_range s = range_for_line l"
proof -
  have "statement_range s = range_for_line l \<and> (\<forall>r c a b. s \<noteq> If_Statement r c a b) \<and> (\<forall>r v x y z b. s \<noteq> For_Statement r v x y z b)"
    using assms by (auto simp: simple_statement_def Let_def rbind_def split: option.splits sum.splits if_splits)
  then show "statement_lines s = [ll_number l]" "well_nested s" "statement_range s = range_for_line l"
    by (cases s; force)+
qed

lemma block_bodyI:
  "block_result d ls ss r \<Longrightarrow> ll_indent l < d \<Longrightarrow> body_ok (range_for_line l) ss \<and> list_all well_nested ss"
  by (cases ss) (auto simp: block_result_def body_ok_def list_all_iff)

lemma block_takes: "block_result d ls ss r \<Longrightarrow> takes ls r (concat (map statement_lines ss))"
  by (simp add: block_result_def)

lemma next_code_line_hd:
  "r \<noteq> [] \<longrightarrow> \<not> ignorable (hd r) \<Longrightarrow> next_code_line r = Some c \<Longrightarrow> r = c # tl r"
  by (cases r) (auto simp: next_code_line_def)

lemma blocks_result:
  "(\<forall>s r. parse_statement B n parent ls = Some (Inr (s, r)) \<longrightarrow>
      takes ls r (statement_lines s) \<and> well_nested s \<and> statement_column s = parent + 1) \<and>
   (\<forall>ss r. parse_children B n parent line ls = Some (Inr (ss, r)) \<longrightarrow> (\<exists>d>parent. ss \<noteq> [] \<and> block_result d ls ss r)) \<and>
   (\<forall>ss r. parse_block B n child ls = Some (Inr (ss, r)) \<longrightarrow> block_result child ls ss r)"
proof (induction n arbitrary: ls parent line child)
  case 0
  then show ?case by simp
next
  case (Suc n)
  have st: "takes ls r (statement_lines s) \<and> well_nested s \<and> statement_column s = p + 1"
    if "parse_statement B n p ls = Some (Inr (s, r))" for ls r s p using that Suc.IH by blast
  have ch: "\<exists>d>p. ss \<noteq> [] \<and> block_result d ls ss r"
    if "parse_children B n p k ls = Some (Inr (ss, r))" for ls r ss p k using that Suc.IH by blast
  have bl: "block_result d ls ss r" if "parse_block B n d ls = Some (Inr (ss, r))" for ls r ss d
    using that Suc.IH by blast
  have "takes ls r (statement_lines s) \<and> well_nested s \<and> statement_column s = parent + 1"
    if ok: "parse_statement B (Suc n) parent ls = Some (Inr (s, r))" for s r
  proof -
    obtain l rest where ls: "ls = l # rest" and ind: "ll_indent l = parent"
      using ok by (auto split: list.splits if_splits)
    consider (ifs) c a r1 where "parse_children B n parent (ll_number l) rest = Some (Inr (a, r1))"
          "if is_some_and (next_code_line r1) (\<lambda>c. is_else (ll_text c))
            then \<exists>b. parse_children B n parent (ll_number l) (tl r1) = Some (Inr (b, r)) \<and> s = If_Statement (range_for_line l) c a b
            else r = r1 \<and> s = If_Statement (range_for_line l) c a []"
      | (fors) v x y z b where "parse_children B n parent (ll_number l) rest = Some (Inr (b, r))"
          "s = For_Statement (range_for_line l) v x y z b"
      | (simple) "simple_statement B l = Inr s" "r = rest"
      using ok ind unfolding ls
      by (auto simp: pbind_Inr split: if_splits sum.splits prod.splits)
    then show ?thesis
    proof cases
      case ifs
      obtain d where d: "parent < d" "a \<noteq> []" "block_result d rest a r1" using ch [OF ifs(1)] by blast
      show ?thesis
      proof (cases "is_some_and (next_code_line r1) (\<lambda>c. is_else (ll_text c))")
        case True
        then obtain c' where c': "next_code_line r1 = Some c'" "is_else (ll_text c')" by (cases "next_code_line r1") auto
        have r1: "r1 = c' # tl r1" using d(3) c'(1) by (intro next_code_line_hd) (auto simp: block_result_def)
        obtain b where b: "parse_children B n parent (ll_number l) (tl r1) = Some (Inr (b, r))"
          and s: "s = If_Statement (range_for_line l) c a b" using ifs(2) True by auto
        obtain d' where d': "parent < d'" "b \<noteq> []" "block_result d' (tl r1) b r" using ch [OF b] by blast
        have "takes r1 r (concat (map statement_lines b))"
          by (subst r1) (use d' c' in \<open>auto intro: takes_other block_takes\<close>)
        then have "takes rest r (concat (map statement_lines a) @ concat (map statement_lines b))"
          using d(3) by (blast intro: takes_append block_takes)
        then show ?thesis using s d d' block_bodyI [of d rest a r1 l] block_bodyI [of d' "tl r1" b r l] ind ls
          by (simp add: takes_line statement_column_def)
      next
        case False
        then show ?thesis using ifs(2) d block_bodyI [of d rest a r1 l] ind ls
          by (simp add: takes_line block_takes statement_column_def body_ok_def)
      qed
    next
      case fors
      obtain d where d: "parent < d" "b \<noteq> []" "block_result d rest b r" using ch [OF fors(1)] by blast
      then show ?thesis using fors(2) block_bodyI [of d rest b r l] ind ls
        by (simp add: takes_line block_takes statement_column_def)
    next
      case simple
      then show ?thesis using simple_statement_shape [OF simple(1)] ls ind
        by (simp add: takes_line statement_column_def)
    qed
  qed
  moreover have "\<exists>d>parent. ss \<noteq> [] \<and> block_result d ls ss r"
    if "parse_children B (Suc n) parent line ls = Some (Inr (ss, r))" for ss r
  proof -
    from that obtain c where c: "next_code_line ls = Some c" "parent < ll_indent c"
      and b: "parse_block B n (ll_indent c) ls = Some (Inr (ss, r))"
      by (auto split: option.splits if_splits)
    then show ?thesis using bl [OF b] unfolding block_result_def by blast
  qed
  moreover have "block_result child ls ss r" if ok: "parse_block B (Suc n) child ls = Some (Inr (ss, r))" for ss r
  proof (cases ls)
    case Nil
    then show ?thesis using ok by (simp add: block_result_def next_code_line_def)
  next
    case (Cons l rest)
    consider (skip) "ignorable l" "parse_block B n child rest = Some (Inr (ss, r))"
      | (stop) "\<not> ignorable l" "ll_indent l < child" "ss = []" "r = ls"
      | (go) s r1 ss' where "\<not> ignorable l" "ll_indent l = child" "parse_statement B n child ls = Some (Inr (s, r1))"
          "parse_block B n child r1 = Some (Inr (ss', r))" "ss = s # ss'"
      using ok Cons by (auto simp: pbind_Inr split: if_splits)
    then show ?thesis
    proof cases
      case skip
      then show ?thesis using bl [OF skip(2)] Cons by (auto simp: block_result_def next_code_line_def takes_other)
    next
      case stop
      then show ?thesis using Cons by (simp add: block_result_def next_code_line_def)
    next
      case go
      then show ?thesis using bl [OF go(4)] st [OF go(3)] by (auto simp: block_result_def intro: takes_append)
    qed
  qed
  ultimately show ?case by blast
qed

section \<open>Whole programs\<close>

text \<open>A line of the strategy's declaration, which is no statement.\<close>

definition declares :: "lexed_line \<Rightarrow> bool" where
  "declares l \<longleftrightarrow> ll_indent l = 0 \<and> starts_with (ll_text l) ''strategy(''"

lemma strip_prefix_append: "strip_prefix (p @ q) s = Some v \<Longrightarrow> strip_prefix p s \<noteq> None"
  by (induction p s rule: strip_prefix.induct) (auto split: if_splits)

lemma directive_ignorable: "parse_version_directive (ll_text l) = Some v \<Longrightarrow> ignorable l"
  using strip_prefix_append [of "''//''" "''@version=''" "ll_text l"]
  by (auto simp: parse_version_directive_def ignorable_def starts_with_def split: option.splits)

definition read_ok :: "lexed_line list \<Rightarrow> statement list \<Rightarrow> bool" where
  "read_ok ls ss \<longleftrightarrow>
     covers declares ls (concat (map statement_lines ss)) \<and> list_all (\<lambda>s. well_nested s \<and> statement_column s = 1) ss"

lemma read_ok_other: "ignorable l \<or> declares l \<Longrightarrow> read_ok rest ss \<Longrightarrow> read_ok (l # rest) ss"
  using covers_append [OF covers_other [of l declares]] by (fastforce simp: read_ok_def)

lemma read_ok_statement:
  assumes "parse_statement B n 0 ls = Some (Inr (s, r))" and "read_ok r ss"
  shows "read_ok ls (s # ss)"
proof -
  have s: "takes ls r (statement_lines s)" "well_nested s" "statement_column s = 1"
    using blocks_result [of B n 0 ls] assms(1) by auto
  obtain used where "ls = used @ r" "covers (\<lambda>l. False) used (statement_lines s)"
    using s(1) unfolding takes_def by blast
  then show ?thesis using assms(2) s covers_append [OF covers_mono [where Q = declares]] by (fastforce simp: read_ok_def)
qed

lemma program_loop_result:
  "program_loop B n ls (v, st, ss) = Some (Inr (v', st', ss')) \<Longrightarrow> \<exists>new. ss' = ss @ new \<and> read_ok ls new"
proof (induction n arbitrary: ls v st ss)
  case (Suc n)
  show ?case
  proof (cases ls)
    case Nil
    then show ?thesis using Suc.prems by (simp add: read_ok_def)
  next
    case (Cons l rest)
    consider (other) x y where "ignorable l \<or> declares l" "program_loop B n rest (x, y, ss) = Some (Inr (v', st', ss'))"
      | (statement) s r where "parse_statement B (program_fuel ls) 0 ls = Some (Inr (s, r))"
          "program_loop B n r (v, st, ss @ [s]) = Some (Inr (v', st', ss'))"
      using Suc.prems directive_ignorable unfolding Cons
      by (auto simp: declares_def split: if_splits option.splits sum.splits)
    then show ?thesis
    proof cases
      case other
      then show ?thesis using Suc.IH [OF other(2)] read_ok_other Cons by blast
    next
      case statement
      then show ?thesis using Suc.IH [OF statement(2)] read_ok_statement [OF statement(1)] by auto
    qed
  qed
qed simp

lemma parse_program_result: "parse_program B ls = Some (Inr p) \<Longrightarrow> read_ok ls (pg_statements p)"
proof -
  assume ok: "parse_program B ls = Some (Inr p)"
  then obtain v st ss where "program_loop B (length ls + 1) ls (None, None, []) = Some (Inr (v, st, ss))" "pg_statements p = ss"
    by (cases "program_loop B (length ls + 1) ls (None, None, [])"; cases "the (program_loop B (length ls + 1) ls (None, None, []))")
      (auto simp: parse_program_def rbind_def map_sum_def ok_or_def split: option.splits)
  then show "read_ok ls (pg_statements p)" using program_loop_result [of B "length ls + 1" ls None None "[]"] by simp
qed

lemma lex_lines_numbered:
  "lex_lines k raws = Inr ls \<Longrightarrow>
     map ll_number ls = [k..<k + length raws] \<and> list_all2 (\<lambda>raw l. ll_text l = trim raw) raws ls"
proof (induction k raws arbitrary: ls rule: lex_lines.induct)
  case (2 k raw rest)
  then obtain l ls' where "lex_line k raw = Inr l" "lex_lines (Suc k) rest = Inr ls'" "ls = l # ls'"
    by (auto simp: rbind_def map_sum_def split: sum.splits)
  moreover from this(1) have "ll_number l = k" "ll_text l = trim raw"
    by (auto simp: lex_line_def Let_def map_sum_def split: if_splits sum.splits)
  ultimately show ?case using "2.IH" [of l ls'] by (simp add: upt_conv_Cons del: upt_Suc)
qed simp

definition line_parsed :: "nat list \<Rightarrow> nat \<Rightarrow> string \<Rightarrow> bool" where
  "line_parsed ns k raw \<longleftrightarrow>
     k \<in> set ns \<or> trim raw = [] \<or> starts_with (trim raw) ''//'' \<or> is_else (trim raw) \<or> starts_with (trim raw) ''strategy(''"

lemma covers_lines:
  assumes "covers declares ls ns" and "map ll_number ls = [k..<k + length raws]"
    and "list_all2 (\<lambda>raw l. ll_text l = trim raw) raws ls"
  shows "subseq ns [k..<k + length raws]" and "list_all (\<lambda>(i, raw). line_parsed ns i raw) (enumerate k raws)"
proof -
  show "subseq ns [k..<k + length raws]" using assms(1,2) by (simp add: covers_def)
  have len: "length ls = length raws" using assms(3) by (simp add: list_all2_lengthD)
  have "line_parsed ns (k + i) (raws ! i)" if i: "i < length raws" for i
  proof -
    have "ll_number (ls ! i) = k + i" using assms(2) len i by (metis nth_map nth_upt add_less_cancel_left)
    moreover have "ll_text (ls ! i) = trim (raws ! i)" using assms(3) i by (simp add: list_all2_conv_all_nth)
    moreover have "ls ! i \<in> set ls" using len i by simp
    ultimately show ?thesis using assms(1)
      by (fastforce simp: covers_def list_all_iff ignorable_def declares_def line_parsed_def)
  qed
  then show "list_all (\<lambda>(i, raw). line_parsed ns i raw) (enumerate k raws)"
    by (auto simp: list_all_length nth_enumerate_eq)
qed

text \<open>C14: the Pine parser returns on every source, and when it accepts one it has lost no line of it: the
statements of the program start on distinct lines in the order of the source, every line that holds code
starts a statement unless it is an \<open>else\<close> or the strategy's declaration, every body is non-empty where one
is required, and its statements stand in one column right of their header.\<close>

theorem parser_covers_source:
  "case parse B source of
     None \<Rightarrow> False
   | Some (Inl e) \<Rightarrow> True
   | Some (Inr p) \<Rightarrow>
       subseq (program_lines p) [1..<1 + length (lines_of source)] \<and>
       list_all (\<lambda>(i, raw). line_parsed (program_lines p) i raw) (enumerate 1 (lines_of source)) \<and>
       list_all (\<lambda>s. well_nested s \<and> statement_column s = 1) (pg_statements p)"
proof (cases "lex source")
  case (Inr ls)
  have n: "map ll_number ls = [1..<1 + length (lines_of source)]"
    "list_all2 (\<lambda>raw l. ll_text l = trim raw) (lines_of source) ls"
    using Inr lex_lines_numbered unfolding lex_def by blast+
  obtain res where res: "parse_program B ls = Some res" using parse_program_returns by blast
  show ?thesis
  proof (cases res)
    case (Inr p)
    then have "read_ok ls (pg_statements p)" using res by (simp add: parse_program_result)
    then have "covers declares ls (program_lines p)" "list_all (\<lambda>s. well_nested s \<and> statement_column s = 1) (pg_statements p)"
      by (simp_all add: read_ok_def program_lines_def)
    then show ?thesis using covers_lines [OF _ n] \<open>lex source = Inr ls\<close> res Inr by (simp add: parse_def)
  qed (use res Inr in \<open>simp add: parse_def\<close>)
qed (simp add: parse_def)

section \<open>Where the text and the tokens of a line part\<close>

text \<open>
  \<open>split_assignment\<close> cuts the trimmed text at the operator's column of the raw line, and
  \<open>expression_from_text\<close> finds the tokens of a text at its first occurrence. On an indented line
  \<open>x := close + 1\<close> the right-hand side is read as \<open>+ 1\<close>; \<open>x := 1\<close> there is no statement
  at all; \<open>x1 = 1\<close> is rejected, because its right-hand side first occurs inside the name; and a line
  indented with a tab loses its first tokens, a tab counting four columns of indent and one column of text.
\<close>

definition line_of :: "string \<Rightarrow> lexed_line" where
  "line_of raw = projr (lex_line 1 raw)"

lemma indented_assignment_misread:
  "parse_statement B 6 4 [line_of ''    x := close + 1''] =
     Some (Inr (Assignment (line_range 1 5 19) ''x''
       (Expr (line_range 1 16 19) (Unary_K Positive (Expr (line_range 1 18 19) (Number_K ''1'')))) Reassign_Mode, []))"
  by code_simp

lemma short_indented_assignment_unsupported:
  "parse_statement B 6 4 [line_of ''    x := 1''] =
     Some (Inr (Unsupported_Statement (line_range 1 5 11) ''x := 1'', []))"
  by code_simp

lemma repeated_text_rejected:
  "parse_statement B 6 0 [line_of ''x1 = 1''] =
     Some (Inl \<lparr>pe_code_name = ''PINE_EXPRESSION_INVALID'', pe_message = ''unexpected token '' @ dbg_str B ''='',
                pe_line = 1, pe_column = 4\<rparr>)"
  by code_simp

lemma tab_indent_loses_tokens:
  "parse_statement B 6 4 [line_of (char_of (9 :: nat) # ''alert()'')] =
     Some (Inr (Unsupported_Statement (line_range 1 5 12) ''alert()'', []))"
  by code_simp

lemma typed_variable_named_by_type:
  "split_assignment (line_of ''var float x = 1'') = Some ([''float''], ''var'', ''1'')"
  by code_simp

text \<open>\<open>not\<close> is read as a name, so that Pine's negation is a syntax error.\<close>

lemma not_operator_rejected:
  "parse_statement B 6 0 [line_of ''a = not b''] =
     Some (Inl \<lparr>pe_code_name = ''PINE_EXPRESSION_INVALID'', pe_message = ''unexpected token '' @ dbg_str B ''b'',
                pe_line = 1, pe_column = 9\<rparr>)"
  by code_simp

section \<open>The header of a function\<close>

lemma set_strip:
  assumes "\<not> ws1 c" and "\<And>a. \<not> w2 a c \<and> \<not> w2 c a" and "\<And>a b. \<not> w3 a b c \<and> \<not> w3 a c b \<and> \<not> w3 c a b"
  shows "c \<in> set (strip w2 w3 s) \<longleftrightarrow> c \<in> set s"
  using assms by (induction w2 w3 s rule: strip.induct) auto

lemma kept_by_trim: "byte c < 128 \<Longrightarrow> \<not> ws1 c \<Longrightarrow> c \<in> set (trim s) \<longleftrightarrow> c \<in> set s"
  unfolding trim_def trim_end_def trim_start_def
  by (simp add: set_strip ws2_def ws3_def)

lemma find_sub_single: "find_sub [c] s = Some n \<Longrightarrow> n < length s \<and> s ! n = c \<and> c \<notin> set (take n s)"
proof (induction s arbitrary: n)
  case (Cons x s)
  then show ?case by (auto simp: starts_with_def nth_Cons' split: if_splits)
qed simp

lemma rfind_char_Some:
  assumes "rfind_char c s = Some n"
  shows "n < length s \<and> s ! n = c"
proof -
  obtain m where m: "find_sub [c] (rev s) = Some m" "n = length s - 1 - m" using assms by (auto simp: rfind_char_def)
  then show ?thesis using find_sub_single [OF m(1)] by (auto simp: rev_nth)
qed

text \<open>The closing parenthesis stands behind the opening one, so that no slice of the header panics.\<close>

lemma header_slice_in_bounds:
  assumes "find_sub ''('' header = Some i" and "rfind_char (CHR '')'') header = Some j"
    and "is_name (trim (take i header))"
  shows "i + 1 \<le> j \<and> j < length header"
proof -
  have i: "i < length header" "header ! i = CHR ''(''" using find_sub_single assms(1) by blast+
  have j: "j < length header" "header ! j = CHR '')''" using rfind_char_Some assms(2) by blast+
  have "\<not> j < i"
  proof
    assume "j < i"
    then have "header ! j \<in> set (take i header)" using j(1) i(1) by (metis in_set_conv_nth length_take min_less_iff_conj nth_take)
    then have "CHR '')'' \<in> set (trim (take i header))" using j(2) by (simp add: kept_by_trim byte_def ws1_def)
    moreover have "\<not> word_char ['')'' ! 0]" by code_simp
    ultimately show False using assms(3) by (auto simp: is_name_def list_all_iff)
  qed
  then show ?thesis using i j by (cases "i = j") auto
qed

end
