(* ===== verification/Pine_Semantic.thy ===== *)
theory Pine_Semantic
  imports Pine_Parser Rust_Maps
begin

text \<open>
  \<open>crates/jftrade-strategy/src/pine/semantic.rs\<close>: the analyser of a parsed program. It threads a
  context through the statements: the diagnostics, declarations and visuals found so far, the types of
  the names, and the functions declared. The reference it is proved equal to is a typing of programs
  that threads nothing but the scope.
\<close>

section \<open>Diagnostics\<close>

datatype severity = Error_Severity | Warning_Severity

record diagnostic =
  di_severity :: severity
  di_code :: string
  di_message :: string
  di_line :: nat
  di_column :: nat
  di_end_line :: nat
  di_end_column :: nat

definition diagnostic_at :: "severity \<Rightarrow> string \<Rightarrow> string \<Rightarrow> nat \<Rightarrow> diagnostic" where
  "diagnostic_at severity code message line =
     \<lparr>di_severity = severity, di_code = code, di_message = message, di_line = line, di_column = 1,
      di_end_line = line, di_end_column = 1\<rparr>"

definition diagnostic_error :: "string \<Rightarrow> string \<Rightarrow> nat \<Rightarrow> diagnostic" where
  "diagnostic_error = diagnostic_at Error_Severity"

definition diagnostic_warning :: "string \<Rightarrow> string \<Rightarrow> nat \<Rightarrow> diagnostic" where
  "diagnostic_warning = diagnostic_at Warning_Severity"

definition has_errors :: "diagnostic list \<Rightarrow> bool" where
  "has_errors ds \<longleftrightarrow> list_ex (\<lambda>d. di_severity d = Error_Severity) ds"

record semantic_declaration =
  de_kind :: string
  de_name :: string
  de_line :: nat
  de_executable :: bool
  de_unsupported_reason :: "string option"

record visual =
  vi_line :: nat
  vi_kind :: string
  vi_call :: string
  vi_target :: "string option"
  vi_arguments :: "string list"
  vi_text :: string

datatype value_type = Bool_Type | Number_Type | String_Type | Null_Type | Unknown_Type

fun type_text :: "value_type \<Rightarrow> string" where
  "type_text Bool_Type = ''bool''" | "type_text Number_Type = ''number''" | "type_text String_Type = ''string''"
| "type_text Null_Type = ''na''" | "type_text Unknown_Type = ''unknown''"

record summary =
  su_diagnostics :: "diagnostic list"
  su_declarations :: "semantic_declaration list"
  su_visuals :: "visual list"
  su_symbols :: "(string, string) bmap"

definition empty_summary :: summary where
  "empty_summary = \<lparr>su_diagnostics = [], su_declarations = [], su_visuals = [], su_symbols = []\<rparr>"

record semantic =
  sm_summary :: summary
  sm_symbols :: "(string, value_type) bmap"
  sm_functions :: "string list"

definition report :: "diagnostic \<Rightarrow> semantic \<Rightarrow> semantic" where
  "report d s = s\<lparr>sm_summary := (sm_summary s)\<lparr>su_diagnostics := su_diagnostics (sm_summary s) @ [d]\<rparr>\<rparr>"

definition declare_as :: "string \<Rightarrow> string \<Rightarrow> nat \<Rightarrow> semantic \<Rightarrow> semantic" where
  "declare_as kind name line s =
     s\<lparr>sm_summary := (sm_summary s)\<lparr>su_declarations := su_declarations (sm_summary s) @
        [\<lparr>de_kind = kind, de_name = name, de_line = line, de_executable = True, de_unsupported_reason = None\<rparr>]\<rparr>\<rparr>"

definition bind_name :: "string \<Rightarrow> value_type \<Rightarrow> semantic \<Rightarrow> semantic" where
  "bind_name name ty s = s\<lparr>sm_symbols := bm_insert name ty (sm_symbols s)\<rparr>"

section \<open>Tables\<close>

definition supported_calls :: "string list" where
  "supported_calls =
     [''strategy.entry'', ''strategy.order'', ''strategy.close'', ''strategy.close_all'', ''strategy.exit'',
      ''strategy.cancel'', ''strategy.cancel_all'', ''strategy.risk.allow_entry_in'', ''alert'', ''alertcondition'',
      ''log.info'', ''log.warning'', ''log.error'', ''ta.ema'', ''ta.sma'', ''ta.rma'', ''ta.wma'', ''ta.hma'',
      ''ta.vwma'', ''ta.rsi'', ''ta.macd'', ''ta.atr'', ''ta.tr'', ''ta.stdev'', ''ta.variance'', ''ta.cci'',
      ''ta.highest'', ''ta.lowest'', ''ta.change'', ''ta.mom'', ''ta.roc'', ''ta.range'', ''ta.mode'', ''ta.sum'',
      ''ta.rising'', ''ta.falling'', ''ta.bb'', ''ta.bbw'', ''ta.cog'', ''ta.wpr'', ''ta.vwap'', ''ta.mfi'', ''ta.dmi'',
      ''ta.supertrend'', ''ta.sar'', ''ta.crossover'', ''ta.crossunder'', ''ta.cross'', ''request.security'', ''nz'',
      ''timestamp'', ''math.abs'', ''math.min'', ''math.max'', ''math.avg'', ''math.round'', ''math.round_to_mintick'',
      ''math.floor'', ''math.ceil'', ''math.sqrt'', ''math.pow'', ''math.log'', ''math.sign'', ''input'', ''input.int'',
      ''input.float'', ''input.bool'', ''input.string'', ''input.source'', ''input.time'', ''input.timeframe'',
      ''input.color'', ''color.new'', ''color.rgb'', ''ticker.heikinashi'', ''ticker.standard'', ''ticker.inherit'']"

definition is_supported_call :: "string \<Rightarrow> bool" where
  "is_supported_call callee \<longleftrightarrow> callee \<in> set supported_calls"

definition bool_calls :: "string list" where
  "bool_calls =
     [''ta.crossover'', ''ta.crossunder'', ''ta.cross'', ''ta.rising'', ''ta.falling'',
      ''strategy.risk.allow_entry_in'', ''input.bool'', ''barstate.isfirst'']"

definition unit_calls :: "string list" where
  "unit_calls =
     [''alert'', ''alertcondition'', ''log.info'', ''log.warning'', ''log.error'', ''strategy.entry'', ''strategy.order'',
      ''strategy.close'', ''strategy.close_all'', ''strategy.exit'', ''strategy.cancel'', ''strategy.cancel_all'']"

definition call_result_type :: "string \<Rightarrow> value_type" where
  "call_result_type callee =
     (if callee \<in> set bool_calls then Bool_Type else if callee \<in> set unit_calls then Unknown_Type else Number_Type)"

definition visual_calls :: "string list" where
  "visual_calls =
     [''plot'', ''plotchar'', ''plotshape'', ''hline'', ''bgcolor'', ''barcolor'', ''fill'', ''label.new'', ''line.new'',
      ''box.new'', ''table.new'', ''table.cell'', ''alertcondition'']"

definition is_visual_call :: "string \<Rightarrow> bool" where
  "is_visual_call callee \<longleftrightarrow> callee \<in> set visual_calls"

fun identifier_name :: "expr \<Rightarrow> string option" where
  "identifier_name (Expr r (Identifier_K n)) = Some n"
| "identifier_name (Expr r (Member_K ob m)) = Some m"
| "identifier_name _ = None"

definition format_expr_call :: "string \<Rightarrow> expr list \<Rightarrow> string" where
  "format_expr_call callee args = callee @ ''('' @ join '', '' (map show_expr args) @ '')''"

definition number_names :: "string list" where
  "number_names =
     [''close'', ''open'', ''high'', ''low'', ''volume'', ''hl2'', ''hlc3'', ''ohlc4'', ''bar_index'', ''time'', ''hour'',
      ''minute'', ''dayofweek'', ''dayofmonth'', ''month'', ''year'', ''na'']"

definition builtin_type :: "string \<Rightarrow> value_type" where
  "builtin_type name =
     (let n = lower name
      in if n \<in> set number_names then Number_Type
         else if n = ''true'' \<or> n = ''false'' then Bool_Type else Unknown_Type)"

definition identifier_type :: "semantic \<Rightarrow> string \<Rightarrow> value_type" where
  "identifier_type s name = (case bm_get (sm_symbols s) name of Some ty \<Rightarrow> ty | None \<Rightarrow> builtin_type name)"

text \<open>\<open>str::trim_start_matches\<close> of a string that is not empty.\<close>

function trim_start_matches :: "string \<Rightarrow> string \<Rightarrow> string" where
  "trim_start_matches p s =
     (case strip_prefix p s of
        None \<Rightarrow> s
      | Some r \<Rightarrow> if length r < length s then trim_start_matches p r else s)"
  by pat_completeness auto
termination by (relation "measure (\<lambda>(p, s). length s)") auto

section \<open>The analyser\<close>

text \<open>\<open>visit_call\<close> once its arguments have been visited.\<close>

definition finish_call :: "debug_lib \<Rightarrow> string \<Rightarrow> expr list \<Rightarrow> source_range \<Rightarrow> semantic \<Rightarrow> value_type \<times> semantic" where
  "finish_call B callee args r s =
     (let l = lower callee; line = sr_start_line r
      in if is_visual_call l then
           let s1 = report (diagnostic_warning ''PINE_VISUAL_IGNORED''
                 (''visual-only call '' @ quote_char @ callee @ quote_char @ '' is ignored by JFTrade'') line) s;
               v = \<lparr>vi_line = line, vi_kind = trim_start_matches ''ta.'' l, vi_call = callee,
                    vi_target = (case args of [] \<Rightarrow> None | a # _ \<Rightarrow> identifier_name a),
                    vi_arguments = map show_expr args, vi_text = format_expr_call callee args\<rparr>
           in (Unknown_Type, s1\<lparr>sm_summary := (sm_summary s1)\<lparr>su_visuals := su_visuals (sm_summary s1) @ [v]\<rparr>\<rparr>)
         else if is_supported_call l then (call_result_type l, s)
         else if callee \<in> set (sm_functions s) then (Unknown_Type, s)
         else (Unknown_Type, report (diagnostic_error ''PINE_CALL_UNSUPPORTED''
                 (''function '' @ dbg_str B callee @ '' is not supported by the Pine v6 runtime'') line) s))"

definition member_type :: "string \<Rightarrow> value_type" where
  "member_type m = (if m = ''long'' \<or> m = ''short'' \<or> starts_with m ''is'' then Bool_Type else Unknown_Type)"

definition binary_type :: "binary_op \<Rightarrow> value_type \<Rightarrow> value_type \<Rightarrow> value_type" where
  "binary_type op a b =
     (if op \<in> {Or_Op, And_Op, Equal, NotEqual, Less, LessEqual, Greater, GreaterEqual} then Bool_Type
      else if op = Add_Op \<and> (a = String_Type \<or> b = String_Type) then String_Type else Number_Type)"

definition ternary_type :: "value_type \<Rightarrow> value_type \<Rightarrow> value_type" where
  "ternary_type a b = (if a = b then a else Unknown_Type)"

definition unary_type :: "unary_op \<Rightarrow> value_type \<Rightarrow> value_type" where
  "unary_type op ty = (case op of Not_Op \<Rightarrow> Bool_Type | _ \<Rightarrow> ty)"

fun visit_expr :: "debug_lib \<Rightarrow> expr \<Rightarrow> semantic \<Rightarrow> value_type \<times> semantic"
  and visit_all :: "debug_lib \<Rightarrow> expr list \<Rightarrow> semantic \<Rightarrow> semantic" where
  "visit_expr B (Expr r (Number_K v)) s = (Number_Type, s)"
| "visit_expr B (Expr r (String_K v)) s = (String_Type, s)"
| "visit_expr B (Expr r (Boolean_K b)) s = (Bool_Type, s)"
| "visit_expr B (Expr r Null_K) s = (Null_Type, s)"
| "visit_expr B (Expr r (Identifier_K n)) s = (identifier_type s n, s)"
| "visit_expr B (Expr r (Member_K ob m)) s = (member_type m, snd (visit_expr B ob s))"
| "visit_expr B (Expr r (Index_K ob i)) s = visit_expr B ob (snd (visit_expr B i s))"
| "visit_expr B (Expr r (Unary_K op e)) s = (let (ty, s1) = visit_expr B e s in (unary_type op ty, s1))"
| "visit_expr B (Expr r (Binary_K a op b)) s =
     (let (ta, s1) = visit_expr B a s; (tb, s2) = visit_expr B b s1 in (binary_type op ta tb, s2))"
| "visit_expr B (Expr r (Ternary_K c t f)) s =
     (let (ty, s1) = visit_expr B c s;
          s2 = (if ty = Bool_Type then s1
                else let (ty', s1') = visit_expr B c s1
                     in if ty' = Unknown_Type then s1'
                        else report (diagnostic_error ''PINE_CONDITION_NOT_BOOL'' ''ternary condition must evaluate to bool''
                               (sr_start_line (ex_range c))) s1');
          (tt, s3) = visit_expr B t s2;
          (tf, s4) = visit_expr B f s3
      in (ternary_type tt tf, s4))"
| "visit_expr B (Expr r (Tuple_K items)) s = (Unknown_Type, visit_all B items s)"
| "visit_expr B (Expr r (Call_K callee args)) s = finish_call B callee args r (visit_all B args s)"
| "visit_all B [] s = s"
| "visit_all B (e # es) s = visit_all B es (snd (visit_expr B e s))"

text \<open>An expression that must have one of two types; it is visited again when it has not the first.\<close>

definition visit_checked :: "debug_lib \<Rightarrow> value_type \<Rightarrow> string \<Rightarrow> string \<Rightarrow> expr \<Rightarrow> semantic \<Rightarrow> semantic" where
  "visit_checked B wanted code message e s =
     (let (ty, s1) = visit_expr B e s
      in if ty = wanted then s1
         else let (ty', s2) = visit_expr B e s1
              in if ty' = Unknown_Type then s2
                 else report (diagnostic_error code message (sr_start_line (ex_range e))) s2)"

definition visit_bound :: "debug_lib \<Rightarrow> expr \<Rightarrow> semantic \<Rightarrow> semantic" where
  "visit_bound B = visit_checked B Number_Type ''PINE_FOR_BOUND_NOT_NUMBER'' ''for loop bounds must be numeric''"

definition unsupported_diagnostic :: "source_range \<Rightarrow> string \<Rightarrow> diagnostic" where
  "unsupported_diagnostic r t =
     (if starts_with t ''import '' \<or> starts_with t ''library('' \<or> starts_with t ''type '' \<or> starts_with t ''method ''
      then diagnostic_error ''PINE_DECLARATION_UNSUPPORTED''
             ''Pine libraries, types, and methods are not executable in this strategy runtime'' (sr_start_line r)
      else diagnostic_error ''PINE_STATEMENT_UNSUPPORTED'' ''statement is outside the executable Pine v6 subset'' (sr_start_line r))"

fun visit_statement :: "debug_lib \<Rightarrow> statement \<Rightarrow> semantic \<Rightarrow> semantic"
  and visit_statements :: "debug_lib \<Rightarrow> statement list \<Rightarrow> semantic \<Rightarrow> semantic" where
  "visit_statement B (Assignment r n e m) s =
     (let (ty, s1) = visit_expr B e s in declare_as ''variable'' n (sr_start_line (ex_range e)) (bind_name n ty s1))"
| "visit_statement B (Tuple_Assignment r ns e m) s =
     fold (\<lambda>n s. declare_as ''variable'' n (sr_start_line (ex_range e)) (bind_name n Unknown_Type s)) ns (snd (visit_expr B e s))"
| "visit_statement B (If_Statement r c a b) s =
     visit_statements B b (visit_statements B a
       (visit_checked B Bool_Type ''PINE_CONDITION_NOT_BOOL'' ''if condition must evaluate to bool'' c s))"
| "visit_statement B (For_Statement r v st en step b) s =
     visit_statements B b (case step of
         None \<Rightarrow> visit_bound B en (visit_bound B st s)
       | Some e \<Rightarrow> visit_bound B e (visit_bound B en (visit_bound B st s)))"
| "visit_statement B (Call_Statement r e) s = snd (visit_expr B e s)"
| "visit_statement B (Function_Statement r n ps b) s =
     (let s1 = (if n \<in> set (sm_functions s)
                then report (diagnostic_error ''PINE_FUNCTION_DUPLICATE''
                       (''function '' @ dbg_str B n @ '' is declared more than once'') (sr_start_line r)) s
                else s);
          s2 = s1\<lparr>sm_functions := bs_put n (sm_functions s1)\<rparr>;
          s3 = declare_as ''function'' n (sr_start_line r) s2
      in snd (visit_expr B b (fold (\<lambda>p. bind_name p Unknown_Type) ps s3)))"
| "visit_statement B (Unsupported_Statement r t) s = report (unsupported_diagnostic r t) s"
| "visit_statements B [] s = s"
| "visit_statements B (x # xs) s = visit_statements B xs (visit_statement B x s)"

definition initial_diagnostics :: "program \<Rightarrow> diagnostic list" where
  "initial_diagnostics p =
     (if pg_version p = 6 then []
      else [diagnostic_error ''PINE_VERSION_UNSUPPORTED''
              (''Pine version '' @ nat_text (pg_version p) @ '' is not supported; use //@version=6'') 1]) @
     (if pg_strategy p = None then [diagnostic_error ''PINE_STRATEGY_REQUIRED'' ''a strategy(...) declaration is required'' 1] else [])"

definition analyze :: "debug_lib \<Rightarrow> program \<Rightarrow> summary" where
  "analyze B p =
     (let s = visit_statements B (pg_statements p)
                \<lparr>sm_summary = empty_summary\<lparr>su_diagnostics := initial_diagnostics p\<rparr>, sm_symbols = [], sm_functions = []\<rparr>
      in (sm_summary s)\<lparr>su_symbols := map (\<lambda>(n, ty). (n, type_text ty)) (sm_symbols s)\<rparr>)"

section \<open>Well-typed programs\<close>

text \<open>What the analyser accepts, said without it: the types of the names and the functions in scope.\<close>

type_synonym scope = "(string \<Rightarrow> value_type option) \<times> string set"

definition callable :: "string set \<Rightarrow> string \<Rightarrow> bool" where
  "callable F callee \<longleftrightarrow> is_visual_call (lower callee) \<or> is_supported_call (lower callee) \<or> callee \<in> F"

definition call_type :: "string \<Rightarrow> value_type" where
  "call_type callee =
     (let l = lower callee
      in if is_visual_call l then Unknown_Type else if is_supported_call l then call_result_type l else Unknown_Type)"

definition name_type :: "(string \<Rightarrow> value_type option) \<Rightarrow> string \<Rightarrow> value_type" where
  "name_type \<Gamma> n = (case \<Gamma> n of Some ty \<Rightarrow> ty | None \<Rightarrow> builtin_type n)"

fun type_of :: "(string \<Rightarrow> value_type option) \<Rightarrow> expr \<Rightarrow> value_type" where
  "type_of \<Gamma> (Expr r (Number_K v)) = Number_Type"
| "type_of \<Gamma> (Expr r (String_K v)) = String_Type"
| "type_of \<Gamma> (Expr r (Boolean_K b)) = Bool_Type"
| "type_of \<Gamma> (Expr r Null_K) = Null_Type"
| "type_of \<Gamma> (Expr r (Identifier_K n)) = name_type \<Gamma> n"
| "type_of \<Gamma> (Expr r (Member_K ob m)) = member_type m"
| "type_of \<Gamma> (Expr r (Index_K ob i)) = type_of \<Gamma> ob"
| "type_of \<Gamma> (Expr r (Unary_K op e)) = unary_type op (type_of \<Gamma> e)"
| "type_of \<Gamma> (Expr r (Binary_K a op b)) = binary_type op (type_of \<Gamma> a) (type_of \<Gamma> b)"
| "type_of \<Gamma> (Expr r (Ternary_K c t f)) = ternary_type (type_of \<Gamma> t) (type_of \<Gamma> f)"
| "type_of \<Gamma> (Expr r (Tuple_K items)) = Unknown_Type"
| "type_of \<Gamma> (Expr r (Call_K callee args)) = call_type callee"

definition fits :: "value_type \<Rightarrow> value_type \<Rightarrow> bool" where
  "fits wanted ty \<longleftrightarrow> ty = wanted \<or> ty = Unknown_Type"

fun expr_ok :: "scope \<Rightarrow> expr \<Rightarrow> bool" where
  "expr_ok sc (Expr r (Member_K ob m)) \<longleftrightarrow> expr_ok sc ob"
| "expr_ok sc (Expr r (Index_K ob i)) \<longleftrightarrow> expr_ok sc ob \<and> expr_ok sc i"
| "expr_ok sc (Expr r (Unary_K op e)) \<longleftrightarrow> expr_ok sc e"
| "expr_ok sc (Expr r (Binary_K a op b)) \<longleftrightarrow> expr_ok sc a \<and> expr_ok sc b"
| "expr_ok sc (Expr r (Ternary_K c t f)) \<longleftrightarrow>
     expr_ok sc c \<and> fits Bool_Type (type_of (fst sc) c) \<and> expr_ok sc t \<and> expr_ok sc f"
| "expr_ok sc (Expr r (Tuple_K items)) \<longleftrightarrow> list_all (expr_ok sc) items"
| "expr_ok sc (Expr r (Call_K callee args)) \<longleftrightarrow> callable (snd sc) callee \<and> list_all (expr_ok sc) args"
| "expr_ok sc e \<longleftrightarrow> True"

definition unknown_names :: "string list \<Rightarrow> (string \<Rightarrow> value_type option) \<Rightarrow> (string \<Rightarrow> value_type option)" where
  "unknown_names ns \<Gamma> = (\<lambda>n. if n \<in> set ns then Some Unknown_Type else \<Gamma> n)"

definition checked_ok :: "scope \<Rightarrow> value_type \<Rightarrow> expr \<Rightarrow> bool" where
  "checked_ok sc wanted e \<longleftrightarrow> expr_ok sc e \<and> fits wanted (type_of (fst sc) e)"

text \<open>The scope after a statement, and the statements that are well typed in a scope.\<close>

fun scope_after :: "statement \<Rightarrow> scope \<Rightarrow> scope" where
  "scope_after (Assignment r n e m) (\<Gamma>, F) = (\<Gamma>(n \<mapsto> type_of \<Gamma> e), F)"
| "scope_after (Tuple_Assignment r ns e m) (\<Gamma>, F) = (unknown_names ns \<Gamma>, F)"
| "scope_after (If_Statement r c a b) sc = fold scope_after b (fold scope_after a sc)"
| "scope_after (For_Statement r v s e st b) sc = fold scope_after b sc"
| "scope_after (Function_Statement r n ps b) (\<Gamma>, F) = (unknown_names ps \<Gamma>, insert n F)"
| "scope_after s sc = sc"

fun well_typed :: "statement \<Rightarrow> scope \<Rightarrow> bool"
  and all_well_typed :: "statement list \<Rightarrow> scope \<Rightarrow> bool" where
  "well_typed (Assignment r n e m) sc = expr_ok sc e"
| "well_typed (Tuple_Assignment r ns e m) sc = expr_ok sc e"
| "well_typed (If_Statement r c a b) sc \<longleftrightarrow>
     checked_ok sc Bool_Type c \<and> all_well_typed a sc \<and> all_well_typed b (fold scope_after a sc)"
| "well_typed (For_Statement r v st en step b) sc \<longleftrightarrow>
     checked_ok sc Number_Type st \<and> checked_ok sc Number_Type en \<and>
     (case step of None \<Rightarrow> True | Some e \<Rightarrow> checked_ok sc Number_Type e) \<and> all_well_typed b sc"
| "well_typed (Call_Statement r e) sc = expr_ok sc e"
| "well_typed (Function_Statement r n ps b) sc \<longleftrightarrow>
     n \<notin> snd sc \<and> expr_ok (scope_after (Function_Statement r n ps b) sc) b"
| "well_typed (Unsupported_Statement r t) sc = False"
| "all_well_typed [] sc = True"
| "all_well_typed (x # xs) sc \<longleftrightarrow> well_typed x sc \<and> all_well_typed xs (scope_after x sc)"

definition well_typed_program :: "program \<Rightarrow> bool" where
  "well_typed_program p \<longleftrightarrow>
     pg_version p = 6 \<and> pg_strategy p \<noteq> None \<and> all_well_typed (pg_statements p) (Map.empty, {})"

section \<open>The analyser decides it\<close>

definition scope_of :: "semantic \<Rightarrow> scope" where
  "scope_of s = (bm_get (sm_symbols s), set (sm_functions s))"

definition failed :: "semantic \<Rightarrow> bool" where
  "failed s \<longleftrightarrow> has_errors (su_diagnostics (sm_summary s))"

named_theorems semantic_simps

lemma failed_report_error [semantic_simps]: "failed (report (diagnostic_error c m l) s)"
  by (simp add: failed_def report_def has_errors_def diagnostic_error_def diagnostic_at_def)

lemma failed_report_warning [semantic_simps]: "failed (report (diagnostic_warning c m l) s) \<longleftrightarrow> failed s"
  by (simp add: failed_def report_def has_errors_def diagnostic_warning_def diagnostic_at_def)

lemma failed_other [semantic_simps]:
  "failed (declare_as k n l s) \<longleftrightarrow> failed s" "failed (bind_name n ty s) \<longleftrightarrow> failed s"
  "failed (s\<lparr>sm_functions := F\<rparr>) \<longleftrightarrow> failed s" "failed (s\<lparr>sm_summary := (sm_summary s)\<lparr>su_visuals := vs\<rparr>\<rparr>) \<longleftrightarrow> failed s"
  by (simp_all add: failed_def declare_as_def bind_name_def)

lemma scope_of_other [semantic_simps]:
  "scope_of (report d s) = scope_of s" "scope_of (declare_as k n l s) = scope_of s"
  "scope_of (s\<lparr>sm_summary := x\<rparr>) = scope_of s"
  "scope_of (bind_name n ty s) = ((fst (scope_of s))(n \<mapsto> ty), snd (scope_of s))"
  "scope_of (s\<lparr>sm_functions := bs_put n (sm_functions s)\<rparr>) = (fst (scope_of s), insert n (snd (scope_of s)))"
  by (auto simp: scope_of_def report_def declare_as_def bind_name_def fun_upd_def)

lemma identifier_type_scope [semantic_simps]: "identifier_type s n = name_type (fst (scope_of s)) n"
  by (simp add: identifier_type_def name_type_def scope_of_def)

lemma functions_scope [semantic_simps]: "n \<in> set (sm_functions s) \<longleftrightarrow> n \<in> snd (scope_of s)"
  by (simp add: scope_of_def)

text \<open>What a visit does to the context.\<close>

definition visits :: "semantic \<Rightarrow> semantic \<Rightarrow> scope \<Rightarrow> bool \<Rightarrow> bool" where
  "visits s s' sc ok \<longleftrightarrow> scope_of s' = sc \<and> (failed s' \<longleftrightarrow> failed s \<or> \<not> ok)"

lemma finish_call_visits:
  "fst (finish_call B callee args r s) = call_type callee \<and>
   visits s (snd (finish_call B callee args r s)) (scope_of s) (callable (snd (scope_of s)) callee)"
  by (auto simp: finish_call_def Let_def visits_def call_type_def callable_def semantic_simps)

definition good_visit :: "semantic \<Rightarrow> value_type \<times> semantic \<Rightarrow> expr \<Rightarrow> bool" where
  "good_visit s p e \<longleftrightarrow> fst p = type_of (fst (scope_of s)) e \<and> visits s (snd p) (scope_of s) (expr_ok (scope_of s) e)"

lemma good_visitI:
  "ty = type_of (fst (scope_of s)) e \<Longrightarrow> visits s s' (scope_of s) (expr_ok (scope_of s) e) \<Longrightarrow> good_visit s (ty, s') e"
  by (simp add: good_visit_def)

lemma visit_expr_visits:
  "good_visit s (visit_expr B e s) e"
  "visits s (visit_all B es s) (scope_of s) (list_all (expr_ok (scope_of s)) es)"
proof (induction B e s and B es s rule: visit_expr_visit_all.induct)
  case (9 B r a op b s)
  obtain ta s1 tb s2 where v: "visit_expr B a s = (ta, s1)" "visit_expr B b s1 = (tb, s2)" by fastforce
  then show ?case using "9.IH"(1) "9.IH"(2) [OF v(1) [symmetric] refl] by (simp add: good_visit_def visits_def)
next
  case (10 B r c t f s)
  obtain ty s1 where c: "visit_expr B c s = (ty, s1)" by fastforce
  obtain ty' s1' where c': "visit_expr B c s1 = (ty', s1')" by fastforce
  define s2 where "s2 = (if ty = Bool_Type then s1 else if ty' = Unknown_Type then s1'
      else report (diagnostic_error ''PINE_CONDITION_NOT_BOOL'' ''ternary condition must evaluate to bool''
             (sr_start_line (ex_range c))) s1')"
  obtain tt s3 where t: "visit_expr B t s2 = (tt, s3)" by fastforce
  obtain tf s4 where f: "visit_expr B f s3 = (tf, s4)" by fastforce
  have g1: "good_visit s (ty, s1) c" using "10.IH"(1) c by simp
  have g2: "good_visit s1 (ty', s1') c" if "ty \<noteq> Bool_Type"
    using "10.IH"(2) [OF c [symmetric] refl that] c' by simp
  have s2: "s2 = (if ty = Bool_Type then s1
                else let (ty', s1') = visit_expr B c s1
                     in if ty' = Unknown_Type then s1'
                        else report (diagnostic_error ''PINE_CONDITION_NOT_BOOL'' ''ternary condition must evaluate to bool''
                               (sr_start_line (ex_range c))) s1')"
    by (simp add: s2_def c')
  have g3: "good_visit s2 (tt, s3) t" using "10.IH"(3) [OF c [symmetric] refl s2] t by simp
  have g4: "good_visit s3 (tf, s4) f" using "10.IH"(4) [OF c [symmetric] refl s2 t [symmetric] refl] f by simp
  have v: "visit_expr B (Expr r (Ternary_K c t f)) s = (ternary_type tt tf, s4)"
    using c c' t f by (simp add: s2_def Let_def split: if_splits)
  have "visits s s2 (scope_of s) (expr_ok (scope_of s) c \<and> fits Bool_Type (type_of (fst (scope_of s)) c))"
    using g1 g2 by (auto simp: s2_def good_visit_def visits_def fits_def semantic_simps)
  then show ?case unfolding v using g3 g4 by (auto simp: good_visit_def visits_def)
next
  case (12 B r callee args s)
  then show ?case using finish_call_visits [of B callee args r "visit_all B args s"]
    by (auto simp: good_visit_def visits_def)
qed (auto simp: good_visit_def visits_def semantic_simps split: prod.splits)

lemma good_visit_snd:
  "visits s (snd (visit_expr B e s)) (scope_of s) (expr_ok (scope_of s) e)"
  "fst (visit_expr B e s) = type_of (fst (scope_of s)) e"
  using visit_expr_visits(1) [of s B e] by (simp_all add: good_visit_def)

lemma visit_checked_visits:
  "visits s (visit_checked B wanted code message e s) (scope_of s) (checked_ok (scope_of s) wanted e)"
proof -
  obtain ty s1 where v: "visit_expr B e s = (ty, s1)" by fastforce
  obtain ty' s2 where v': "visit_expr B e s1 = (ty', s2)" by fastforce
  show ?thesis using visit_expr_visits(1) [of s B e] visit_expr_visits(1) [of s1 B e] v v'
    by (auto simp: visit_checked_def good_visit_def visits_def checked_ok_def fits_def semantic_simps)
qed

lemma visits_trans:
  "visits s s' sc ok \<Longrightarrow> visits s' s'' sc' ok' \<Longrightarrow> visits s s'' sc' (ok \<and> ok')"
  by (auto simp: visits_def)

lemma visits_scope: "visits s s' sc ok \<Longrightarrow> scope_of s' = sc"
  by (simp add: visits_def)

lemma bind_unknown_visits:
  "visits s (fold (\<lambda>p. bind_name p Unknown_Type) ps s) (unknown_names ps (fst (scope_of s)), snd (scope_of s)) True"
  "visits s (fold (\<lambda>n s. declare_as k n l (bind_name n Unknown_Type s)) ps s)
     (unknown_names ps (fst (scope_of s)), snd (scope_of s)) True"
  by (induction ps arbitrary: s) (auto simp: visits_def semantic_simps unknown_names_def fun_eq_iff)

lemma function_visits:
  defines "s1 \<equiv> (\<lambda>s n c m l. if n \<in> set (sm_functions s) then report (diagnostic_error c m l) s else s)"
  shows "visits s (declare_as k n l' ((s1 s n c m l)\<lparr>sm_functions := bs_put n (sm_functions (s1 s n c m l))\<rparr>))
    (fst (scope_of s), insert n (snd (scope_of s))) (n \<notin> snd (scope_of s))"
  by (auto simp: s1_def visits_def semantic_simps)

lemma unsupported_visits: "visits s (report (unsupported_diagnostic r t) s) (scope_of s) False"
  by (auto simp: unsupported_diagnostic_def visits_def semantic_simps simp del: if_split split: if_split)

lemma visit_statement_visits:
  "visits s (visit_statement B x s) (scope_after x (scope_of s)) (well_typed x (scope_of s))"
  "visits s (visit_statements B xs s) (fold scope_after xs (scope_of s)) (all_well_typed xs (scope_of s))"
proof (induction B x s and B xs s rule: visit_statement_visit_statements.induct)
  case (1 B r n e m s)
  obtain ty s1 where "visit_expr B e s = (ty, s1)" by fastforce
  then show ?case using good_visit_snd(1) [of s B e] good_visit_snd(2) [of B e s] by (cases "scope_of s") (auto simp: visits_def semantic_simps)
next
  case (2 B r ns e m s)
  show ?case using visits_trans [OF good_visit_snd(1) [of s B e] bind_unknown_visits(2)] visits_scope [OF good_visit_snd(1) [of s B e]]
    by (cases "scope_of s") simp
next
  case (3 B r c a b s)
  let ?s1 = "visit_checked B Bool_Type ''PINE_CONDITION_NOT_BOOL'' ''if condition must evaluate to bool'' c s"
  have v: "visits s ?s1 (scope_of s) (checked_ok (scope_of s) Bool_Type c)" by (rule visit_checked_visits)
  show ?case using visits_trans [OF visits_trans [OF v "3.IH"(1)] "3.IH"(2)]
    by (simp add: visits_scope [OF v] visits_scope [OF "3.IH"(1)])
next
  case (4 B r v st en step b s)
  let ?s1 = "visit_bound B st s" and ?s2 = "visit_bound B en (visit_bound B st s)"
  let ?s3 = "case step of None \<Rightarrow> ?s2 | Some e \<Rightarrow> visit_bound B e ?s2"
  have v1: "visits s ?s1 (scope_of s) (checked_ok (scope_of s) Number_Type st)"
    unfolding visit_bound_def by (rule visit_checked_visits)
  have v2: "visits ?s1 ?s2 (scope_of s) (checked_ok (scope_of s) Number_Type en)"
    using visit_checked_visits [of ?s1] visits_scope [OF v1] by (metis visit_bound_def)
  have v3: "visits ?s2 ?s3 (scope_of s) (case step of None \<Rightarrow> True | Some e \<Rightarrow> checked_ok (scope_of s) Number_Type e)"
  proof (cases step)
    case None
    then show ?thesis using visits_scope [OF v2] by (simp add: visits_def)
  next
    case (Some e)
    then show ?thesis using visit_checked_visits [of ?s2] visits_scope [OF v2] by (simp add: visit_bound_def)
  qed
  have v123: "visits s ?s3 (scope_of s) (checked_ok (scope_of s) Number_Type st \<and> checked_ok (scope_of s) Number_Type en \<and>
      (case step of None \<Rightarrow> True | Some e \<Rightarrow> checked_ok (scope_of s) Number_Type e))"
    using visits_trans [OF visits_trans [OF v1 v2] v3] by (simp add: conj_assoc)
  show ?case using visits_trans [OF v123 "4.IH"] visits_scope [OF v123] by simp
next
  case (6 B r n ps b s)
  define s3 where "s3 = (let s1 = (if n \<in> set (sm_functions s)
      then report (diagnostic_error ''PINE_FUNCTION_DUPLICATE''
             (''function '' @ dbg_str B n @ '' is declared more than once'') (sr_start_line r)) s
      else s) in declare_as ''function'' n (sr_start_line r) (s1\<lparr>sm_functions := bs_put n (sm_functions s1)\<rparr>))"
  have v1: "visits s s3 (fst (scope_of s), insert n (snd (scope_of s))) (n \<notin> snd (scope_of s))"
    unfolding s3_def Let_def by (rule function_visits)
  define s4 where "s4 = fold (\<lambda>p. bind_name p Unknown_Type) ps s3"
  have v2: "visits s3 s4 (scope_after (Function_Statement r n ps b) (scope_of s)) True"
    using bind_unknown_visits(1) [of s3 ps] visits_scope [OF v1] by (cases "scope_of s") (simp add: s4_def)
  have "visit_statement B (Function_Statement r n ps b) s = snd (visit_expr B b s4)"
    by (simp only: visit_statement.simps s4_def s3_def Let_def)
  then show ?case using visits_trans [OF visits_trans [OF v1 v2] good_visit_snd(1) [of s4 B b]] visits_scope [OF v2]
    by (simp add: conj_assoc)
next
  case (7 B r t s)
  then show ?case using unsupported_visits by simp
next
  case (9 B x xs s)
  then show ?case using visits_trans [OF "9.IH"(1) "9.IH"(2)] visits_scope [OF "9.IH"(1)] by simp
qed (simp_all add: good_visit_snd(1), simp_all add: visits_def)

definition final_scope :: "program \<Rightarrow> scope" where
  "final_scope p = fold scope_after (pg_statements p) (Map.empty, {})"

lemma bm_get_map_values: "bm_get (map (\<lambda>(k, v). (k, f v)) m) k = map_option f (bm_get m k)"
  by (induction m) (auto simp: bm_get_def)

lemma analyze_result:
  "has_errors (su_diagnostics (analyze B p)) \<longleftrightarrow> \<not> well_typed_program p"
  "bm_get (su_symbols (analyze B p)) n = map_option type_text (fst (final_scope p) n)"
proof -
  define s where "s = \<lparr>sm_summary = empty_summary\<lparr>su_diagnostics := initial_diagnostics p\<rparr>,
      sm_symbols = ([] :: (string, value_type) bmap), sm_functions = []\<rparr>"
  let ?t = "visit_statements B (pg_statements p) s"
  have sc: "scope_of s = (Map.empty, {})" by (simp add: scope_of_def s_def fun_eq_iff)
  moreover have "failed s \<longleftrightarrow> pg_version p \<noteq> 6 \<or> pg_strategy p = None"
    by (simp add: failed_def s_def initial_diagnostics_def has_errors_def diagnostic_error_def diagnostic_at_def)
  ultimately show "has_errors (su_diagnostics (analyze B p)) \<longleftrightarrow> \<not> well_typed_program p"
    using visit_statement_visits(2) [of s B "pg_statements p"]
    by (auto simp: analyze_def s_def [symmetric] Let_def visits_def well_typed_program_def failed_def)
  have "scope_of ?t = final_scope p"
    using visits_scope [OF visit_statement_visits(2) [of s B "pg_statements p"]] sc by (simp add: final_scope_def)
  then have "bm_get (sm_symbols ?t) = fst (final_scope p)" by (metis fst_conv scope_of_def)
  then show "bm_get (su_symbols (analyze B p)) n = map_option type_text (fst (final_scope p) n)"
    by (simp add: analyze_def s_def [symmetric] Let_def bm_get_map_values)
qed

text \<open>C13: the analyser reports an error on exactly the programs that are not well typed: those of another
version than 6 or without a strategy, and those in which some statement is outside the subset, declares a
function again, calls a function that is neither known nor declared before, or uses a condition or a bound
of a type it must not have, in the scope that the statements before it leave. The types it lists are those
of the scope at the end.\<close>

theorem analyze_decides_typing:
  "(has_errors (su_diagnostics (analyze B p)) \<longleftrightarrow> \<not> well_typed_program p) \<and>
   bm_get (su_symbols (analyze B p)) = (\<lambda>n. map_option type_text (fst (final_scope p) n))"
  by (simp add: analyze_result fun_eq_iff)

section \<open>Nested conditions\<close>

text \<open>
  A condition that is not of type bool is visited twice, and so is every condition inside it: \<open>n\<close>
  conditional expressions, each the condition of the next, are visited \<open>2 ^ n\<close> times, and report as many
  errors, although the source has only \<open>n\<close> conditions.
\<close>

fun nested_condition :: "source_range \<Rightarrow> nat \<Rightarrow> expr" where
  "nested_condition r 0 = Expr r (Number_K ''1'')"
| "nested_condition r (Suc n) = Expr r (Ternary_K (nested_condition r n) (Expr r (Number_K ''1'')) (Expr r (Number_K ''1'')))"

lemma nested_condition_type: "type_of \<Gamma> (nested_condition r n) = Number_Type"
  by (induction n) (simp_all add: ternary_type_def)

lemma nested_visit_type: "fst (visit_expr B (nested_condition r n) s) = Number_Type"
  using visit_expr_visits(1) [of s B "nested_condition r n"] by (simp add: good_visit_def nested_condition_type)

text \<open>the number of diagnostics of the analyser is not bounded by the size of the program:
\<open>n\<close> conditional expressions nested in each other's conditions add \<open>2 ^ n - 1\<close> of them.\<close>

theorem nested_conditions_explode:
  "length (su_diagnostics (sm_summary (snd (visit_expr B (nested_condition r n) s)))) + 1 =
     length (su_diagnostics (sm_summary s)) + 2 ^ n"
proof (induction n arbitrary: s)
  case (Suc n)
  obtain s1 s2 where v: "visit_expr B (nested_condition r n) s = (Number_Type, s1)"
      "visit_expr B (nested_condition r n) s1 = (Number_Type, s2)"
    using nested_visit_type by (metis prod.collapse)
  then show ?case using Suc [of s] Suc [of s1] by (simp add: report_def)
qed simp

end
