(* ===== verification/Pine_Lower.thy ===== *)
theory Pine_Lower
  imports Pine_Semantic "HOL-Library.Multiset"
begin

text \<open>
  \<open>crates/jftrade-strategy/src/pine/lower.rs\<close>: the lowering of a parsed program to the statements that
  the runtime executes, the functions apart, and the metadata that the strategy's declaration sets.
\<close>

section \<open>The lowered program\<close>

record metadata =
  md_name :: string
  md_version :: string
  md_symbol :: string
  md_interval :: string
  md_default_qty_mode :: string
  md_default_qty_value :: string
  md_pyramiding :: i64
  md_initial_capital :: "string option"
  md_commission_type :: "string option"
  md_commission_value :: "string option"
  md_slippage :: "i64 option"
  md_process_on_close :: bool
  md_allowed_entry_direction :: "string option"

definition default_metadata :: metadata where
  "default_metadata =
     \<lparr>md_name = [], md_version = [], md_symbol = [], md_interval = [], md_default_qty_mode = ''fixed'',
      md_default_qty_value = ''1'', md_pyramiding = 1, md_initial_capital = None, md_commission_type = None,
      md_commission_value = None, md_slippage = None, md_process_on_close = False, md_allowed_entry_direction = None\<rparr>"

datatype lowered =
    Let_Lowered source_range string expr string
  | If_Lowered source_range expr "lowered list" "lowered list"
  | For_Lowered source_range string expr expr "expr option" "lowered list"
  | Action_Lowered source_range string "expr list"
  | Tuple_Lowered source_range "string list" expr string

record lowered_function =
  lf_range :: source_range
  lf_name :: string
  lf_parameters :: "string list"
  lf_body :: expr

record hook =
  hk_kind :: string
  hk_range :: source_range
  hk_statements :: "lowered list"

record lowered_program =
  lp_source_format :: string
  lp_metadata :: metadata
  lp_hooks :: "hook list"
  lp_functions :: "lowered_function list"

record lower_error =
  le_code :: string
  le_line :: nat
  le_message :: string

definition lower_error_text :: "lower_error \<Rightarrow> string" where
  "lower_error_text e = ''pine line '' @ nat_text (le_line e) @ '': '' @ le_message e"

definition lower_failure :: "string \<Rightarrow> nat \<Rightarrow> string \<Rightarrow> lower_error" where
  "lower_failure code line message = \<lparr>le_code = code, le_line = line, le_message = message\<rparr>"

section \<open>Metadata\<close>

fun simple_string :: "expr \<Rightarrow> string option" where
  "simple_string (Expr r (String_K v)) = Some v"
| "simple_string (Expr r (Number_K v)) = Some v"
| "simple_string (Expr r (Identifier_K n)) = Some n"
| "simple_string (Expr r (Member_K ob m)) = Some (show_expr ob @ ''.'' @ m)"
| "simple_string (Expr r (Boolean_K b)) = Some (if b then ''true'' else ''false'')"
| "simple_string _ = None"

definition simple_i64 :: "expr \<Rightarrow> i64 option" where
  "simple_i64 e = Option.bind (simple_string e) parse_i64"

definition simple_bool :: "expr \<Rightarrow> bool option" where
  "simple_bool e =
     Option.bind (simple_string e) (\<lambda>v. if v = ''true'' then Some True else if v = ''false'' then Some False else None)"

text \<open>The named arguments behind the first, the last of a name winning.\<close>

definition named_arguments :: "argument list \<Rightarrow> (string, expr) bmap" where
  "named_arguments args =
     fold (\<lambda>a m. case ar_name a of None \<Rightarrow> m | Some n \<Rightarrow> bm_insert (lower n) (ar_value a) m) (tl args) []"

definition quantity_mode :: "string \<Rightarrow> string" where
  "quantity_mode v =
     (if v = ''strategy.percent_of_equity'' then ''percent_of_equity'' else if v = ''strategy.cash'' then ''cash'' else ''fixed'')"

definition lower_metadata :: "strategy_declaration \<Rightarrow> metadata" where
  "lower_metadata d =
     (let named = named_arguments (sd_arguments d);
          text_of = (\<lambda>n. Option.bind (bm_get named n) simple_string);
          number_of = (\<lambda>n. Option.bind (bm_get named n) simple_i64);
          m = default_metadata
      in m\<lparr>md_name := sd_name d,
           md_default_qty_mode := (case text_of ''default_qty_type'' of Some v \<Rightarrow> quantity_mode v | None \<Rightarrow> md_default_qty_mode m),
           md_default_qty_value := (case text_of ''default_qty_value'' of Some v \<Rightarrow> v | None \<Rightarrow> md_default_qty_value m),
           md_pyramiding := (case number_of ''pyramiding'' of Some v \<Rightarrow> max v 1 | None \<Rightarrow> md_pyramiding m),
           md_initial_capital := text_of ''initial_capital'',
           md_commission_type := text_of ''commission_type'',
           md_commission_value := text_of ''commission_value'',
           md_slippage := number_of ''slippage'',
           md_process_on_close :=
             (case Option.bind (bm_get named ''process_orders_on_close'') simple_bool of Some v \<Rightarrow> v | None \<Rightarrow> md_process_on_close m)\<rparr>)"

section \<open>Statements\<close>

fun mode_text :: "assignment_mode \<Rightarrow> string" where
  "mode_text Let_Mode = ''let''" | "mode_text Var_Mode = ''var''" | "mode_text Reassign_Mode = ''reassign''"

fun lower_statement :: "statement \<Rightarrow> lower_error + lowered"
  and lower_block :: "statement list \<Rightarrow> lower_error + lowered list" where
  "lower_statement (Assignment r n e m) = Inr (Let_Lowered r n e (mode_text m))"
| "lower_statement (Tuple_Assignment r ns e m) = Inr (Tuple_Lowered r ns e (mode_text m))"
| "lower_statement (If_Statement r c a b) =
     rbind (lower_block a) (\<lambda>a'. rbind (lower_block b) (\<lambda>b'. Inr (If_Lowered r c a' b')))"
| "lower_statement (For_Statement r v s e st b) = rbind (lower_block b) (\<lambda>b'. Inr (For_Lowered r v s e st b'))"
| "lower_statement (Call_Statement r e) =
     (case ex_kind e of
        Call_K callee args \<Rightarrow> Inr (Action_Lowered r callee args)
      | _ \<Rightarrow> Inl (lower_failure ''PINE_ACTION_REQUIRED'' (sr_start_line r)
                 ''top-level executable statement must be a call or assignment''))"
| "lower_statement (Function_Statement r n ps b) =
     Inl (lower_failure ''PINE_FUNCTION_INVALID'' (sr_start_line r) ''function declarations are lowered separately'')"
| "lower_statement (Unsupported_Statement r t) =
     Inl (lower_failure ''PINE_STATEMENT_UNSUPPORTED'' (sr_start_line r) ''statement is outside the executable Pine v6 subset'')"
| "lower_block [] = Inr []"
| "lower_block (x # xs) = rbind (lower_statement x) (\<lambda>y. rbind (lower_block xs) (\<lambda>ys. Inr (y # ys)))"

fun lowered_range :: "lowered \<Rightarrow> source_range" where
  "lowered_range (Let_Lowered r n e m) = r"
| "lowered_range (If_Lowered r c a b) = r"
| "lowered_range (For_Lowered r v s e st b) = r"
| "lowered_range (Action_Lowered r c as) = r"
| "lowered_range (Tuple_Lowered r ns e m) = r"

definition statement_line :: "lowered \<Rightarrow> nat" where
  "statement_line x = sr_start_line (lowered_range x)"

text \<open>The loop of \<open>lower\<close>, with the statements and functions so far.\<close>

fun lower_loop :: "statement list \<Rightarrow> lowered list \<Rightarrow> lowered_function list \<Rightarrow> lower_error + lowered list \<times> lowered_function list" where
  "lower_loop [] ss fs = Inr (ss, fs)"
| "lower_loop (Function_Statement r n ps b # xs) ss fs =
     lower_loop xs ss (fs @ [\<lparr>lf_range = r, lf_name = n, lf_parameters = ps, lf_body = b\<rparr>])"
| "lower_loop (x # xs) ss fs = rbind (lower_statement x) (\<lambda>y. lower_loop xs (ss @ [y]) fs)"

definition lower_program :: "program \<Rightarrow> lower_error + lowered_program" where
  "lower_program p =
     rbind (ok_or (pg_strategy p) (lower_failure ''PINE_STRATEGY_REQUIRED'' 1 ''a strategy(...) declaration is required'')) (\<lambda>d.
     rbind (lower_loop (pg_statements p) [] []) (\<lambda>(ss, fs).
     Inr \<lparr>lp_source_format = pg_source_format p, lp_metadata = lower_metadata d,
          lp_hooks = [\<lparr>hk_kind = ''on_kline_close'',
                       hk_range = \<lparr>sr_start_line = 1, sr_start_column = 1,
                                   sr_end_line = (if ss = [] then 1 else statement_line (last ss)), sr_end_column = 1\<rparr>,
                       hk_statements = ss\<rparr>],
          lp_functions = fs\<rparr>))"

section \<open>What is lowered\<close>

fun is_function :: "statement \<Rightarrow> bool" where
  "is_function (Function_Statement r n ps b) = True"
| "is_function s = False"

text \<open>Statements that have a lowered form.\<close>

fun lowerable :: "statement \<Rightarrow> bool" where
  "lowerable (If_Statement r c a b) \<longleftrightarrow> list_all lowerable a \<and> list_all lowerable b"
| "lowerable (For_Statement r v s e st b) \<longleftrightarrow> list_all lowerable b"
| "lowerable (Call_Statement r e) \<longleftrightarrow> (case ex_kind e of Call_K c as \<Rightarrow> True | _ \<Rightarrow> False)"
| "lowerable (Function_Statement r n ps b) = False"
| "lowerable (Unsupported_Statement r t) = False"
| "lowerable s = True"

fun lowered_lines :: "lowered \<Rightarrow> nat list" where
  "lowered_lines (If_Lowered r c a b) = sr_start_line r # concat (map lowered_lines a) @ concat (map lowered_lines b)"
| "lowered_lines (For_Lowered r v s e st b) = sr_start_line r # concat (map lowered_lines b)"
| "lowered_lines x = [statement_line x]"

definition lowered_program_lines :: "lowered_program \<Rightarrow> nat list" where
  "lowered_program_lines q =
     concat (map (\<lambda>h. concat (map lowered_lines (hk_statements h))) (lp_hooks q)) @ map (\<lambda>f. sr_start_line (lf_range f)) (lp_functions q)"

lemma lower_statement_iff:
  "(\<exists>y. lower_statement x = Inr y) \<longleftrightarrow> lowerable x"
  "(\<exists>ys. lower_block xs = Inr ys) \<longleftrightarrow> list_all lowerable xs"
proof (induction x and xs rule: lower_statement_lower_block.induct)
  case (5 r e)
  then show ?case by (cases "ex_kind e") auto
qed (auto simp: rbind_Inr_iff)

lemma lower_statement_lines:
  "lower_statement x = Inr y \<Longrightarrow> lowered_lines y = statement_lines x"
  "lower_block xs = Inr ys \<Longrightarrow> concat (map lowered_lines ys) = concat (map statement_lines xs)"
proof (induction x and xs arbitrary: y and ys rule: lower_statement_lower_block.induct)
  case (5 r e)
  then show ?case by (cases "ex_kind e") (auto simp: statement_line_def)
qed (auto simp: rbind_Inr_iff statement_line_def)

lemma lower_loop_iff:
  "(\<exists>res. lower_loop xs ss fs = Inr res) \<longleftrightarrow> list_all (\<lambda>x. is_function x \<or> lowerable x) xs"
  by (induction xs ss fs rule: lower_loop.induct) (auto simp: rbind_Inr_iff lower_statement_iff(1) [symmetric])

lemma lower_loop_lines:
  "lower_loop xs ss fs = Inr (ss', fs') \<Longrightarrow>
     \<exists>new nfs. ss' = ss @ new \<and> fs' = fs @ nfs \<and>
       concat (map lowered_lines new) = concat (map statement_lines (filter (\<lambda>x. \<not> is_function x) xs)) \<and>
       map (\<lambda>f. sr_start_line (lf_range f)) nfs = concat (map statement_lines (filter is_function xs))"
proof (induction xs arbitrary: ss fs)
  case (Cons x xs)
  show ?case
  proof (cases "is_function x")
    case True
    then obtain r n ps b where x: "x = Function_Statement r n ps b" by (cases x) auto
    show ?thesis using Cons.IH [of ss "fs @ [\<lparr>lf_range = r, lf_name = n, lf_parameters = ps, lf_body = b\<rparr>]"] Cons.prems x by auto
  next
    case False
    then have "lower_loop (x # xs) ss fs = rbind (lower_statement x) (\<lambda>y. lower_loop xs (ss @ [y]) fs)"
      by (cases x) auto
    then have "rbind (lower_statement x) (\<lambda>y. lower_loop xs (ss @ [y]) fs) = Inr (ss', fs')" using Cons.prems by simp
    then obtain y where y: "lower_statement x = Inr y" "lower_loop xs (ss @ [y]) fs = Inr (ss', fs')"
      unfolding rbind_Inr_iff by blast
    obtain new nfs where "ss' = (ss @ [y]) @ new" "fs' = fs @ nfs"
       "concat (map lowered_lines new) = concat (map statement_lines (filter (\<lambda>x. \<not> is_function x) xs))"
       "map (\<lambda>f. sr_start_line (lf_range f)) nfs = concat (map statement_lines (filter is_function xs))"
      using Cons.IH [OF y(2)] by blast
    then show ?thesis using lower_statement_lines(1) [OF y(1)] False
      by (intro exI [of _ "y # new"] exI [of _ nfs]) simp
  qed
qed simp

lemma mset_partition_lines:
  "mset (concat (map f (filter (\<lambda>x. \<not> P x) xs))) + mset (concat (map f (filter P xs))) = mset (concat (map f xs))"
  by (induction xs) auto

text \<open>a program is lowered exactly if it has a strategy and each statement at its top is a function or a
statement that has a lowered form, and then nothing of it is lost: the lines on which lowered statements and
functions start are the lines on which its statements start.\<close>

theorem lowering_keeps_statements:
  "case lower_program p of
     Inl e \<Rightarrow> \<not> (pg_strategy p \<noteq> None \<and> list_all (\<lambda>x. is_function x \<or> lowerable x) (pg_statements p))
   | Inr q \<Rightarrow>
       pg_strategy p \<noteq> None \<and> list_all (\<lambda>x. is_function x \<or> lowerable x) (pg_statements p) \<and>
       mset (lowered_program_lines q) = mset (program_lines p)"
proof (cases "pg_strategy p")
  case (Some d)
  note iff = lower_loop_iff [of "pg_statements p" "[]" "[]"]
  show ?thesis
  proof (cases "lower_loop (pg_statements p) [] []")
    case (Inl e)
    then show ?thesis using iff Some by (simp add: lower_program_def)
  next
    case (Inr res)
    then show ?thesis using iff Some lower_loop_lines [of "pg_statements p" "[]" "[]" "fst res" "snd res"]
        mset_partition_lines [of statement_lines is_function "pg_statements p"]
      by (cases res) (auto simp: lower_program_def lowered_program_lines_def program_lines_def)
  qed
qed (simp add: lower_program_def)

lemma pyramiding_positive: "1 \<le> md_pyramiding (lower_metadata d)"
  by (auto simp: lower_metadata_def Let_def default_metadata_def split: option.split)

text \<open>The slice of the arguments behind the title does not panic on a parsed declaration.\<close>

lemma parsed_strategy_has_title:
  assumes "parse_strategy B l = Inr d"
  shows "\<exists>a rest. sd_arguments d = a # rest"
proof -
  obtain e where "expression_from_text B l (ll_text l) = Inr e" using assms by (auto simp: parse_strategy_def rbind_Inr_iff)
  then obtain callee args where "ex_kind e = Call_K callee args" "args \<noteq> []" "sd_arguments d = map named_argument args"
    using assms by (cases "ex_kind e") (auto simp: parse_strategy_def split: if_splits list.splits expr.splits expr_kind.splits)
  then show ?thesis by (cases args) auto
qed

end
