(* ===== verification/Pine_Planner.thy ===== *)
theory Pine_Planner
  imports Pine_Lower
begin

text \<open>
  \<open>crates/jftrade-strategy/src/pine/planner.rs\<close>: the indicators a lowered program needs, and the bars of
  history that they need. A \<open>usize\<close> is a natural number below \<open>2 ^ 64\<close>; its products and sums wrap, as
  they do in a release build, and a division by zero, which panics, is \<open>None\<close>.
\<close>

section \<open>Requirements\<close>

record indicator =
  in_alias :: string
  in_kind :: string
  in_key :: string

record requirements =
  rq_indicators :: "indicator list"
  rq_position :: bool
  rq_account :: bool

record planner_error =
  pl_line :: nat
  pl_message :: string

definition planner_error_text :: "planner_error \<Rightarrow> string" where
  "planner_error_text e = ''pine line '' @ nat_text (pl_line e) @ '': '' @ pl_message e"

definition invalid :: "nat \<Rightarrow> string \<Rightarrow> planner_error" where
  "invalid line message = \<lparr>pl_line = line, pl_message = message\<rparr>"

definition argument_text :: "expr option \<Rightarrow> string option" where
  "argument_text e = map_option show_expr e"

definition nth_arg :: "nat \<Rightarrow> expr list \<Rightarrow> expr option" where
  "nth_arg n args = (if n < length args then Some (args ! n) else None)"

definition unwrap_or :: "'a \<Rightarrow> 'a option \<Rightarrow> 'a" where
  "unwrap_or d x = (case x of None \<Rightarrow> d | Some v \<Rightarrow> v)"

definition or_else :: "'a option \<Rightarrow> 'a option \<Rightarrow> 'a option" where
  "or_else x y = (case x of None \<Rightarrow> y | Some v \<Rightarrow> Some v)"

definition after_ta :: "string \<Rightarrow> string" where
  "after_ta l = unwrap_or [] (strip_prefix ''ta.'' l)"

definition cross_calls :: "string list" where
  "cross_calls = [''ta.crossover'', ''ta.crossunder'', ''ta.cross'']"

definition average_calls :: "string list" where
  "average_calls = [''ta.ema'', ''ta.sma'', ''ta.rma'', ''ta.wma'', ''ta.hma'', ''ta.vwma'']"

definition window_calls :: "string list" where
  "window_calls =
     [''ta.rsi'', ''ta.cci'', ''ta.mom'', ''ta.roc'', ''ta.range'', ''ta.mode'', ''ta.sum'', ''ta.rising'', ''ta.falling'']"

definition list_calls :: "string list" where
  "list_calls =
     [''ta.atr'', ''ta.stdev'', ''ta.variance'', ''ta.wpr'', ''ta.vwap'', ''ta.mfi'', ''ta.obv'',
      ''ta.highest'', ''ta.lowest'', ''ta.change'']"

definition requirement_of :: "string \<Rightarrow> string \<Rightarrow> string list \<Rightarrow> indicator option" where
  "requirement_of alias kind parts = Some \<lparr>in_alias = alias, in_kind = kind, in_key = kind @ '':'' @ join '':'' parts\<rparr>"

definition requirement_for_call :: "string \<Rightarrow> expr list \<Rightarrow> string \<Rightarrow> nat \<Rightarrow> planner_error + indicator option" where
  "requirement_for_call callee args alias line =
     (let l = lower callee;
          first = argument_text (nth_arg 0 args);
          second = argument_text (nth_arg 1 args);
          source = unwrap_or ''close'' first;
          no_length = invalid line (callee @ '' requires a length'')
      in if l \<in> set cross_calls then Inr None
         else if l \<in> set average_calls then
           rbind (ok_or second no_length) (\<lambda>size.
             Inr (requirement_of alias ''ma'' ([upper (after_ta l), size] @ (if source \<noteq> ''close'' then [source] else []))))
         else if l \<in> set window_calls then
           rbind (ok_or (or_else second first) no_length) (\<lambda>size.
             Inr (requirement_of alias (after_ta l) (if source = ''close'' then [size] else [source, size])))
         else if l = ''ta.macd'' then Inr (requirement_of alias ''macd'' (map show_expr args))
         else if l \<in> set list_calls then Inr (requirement_of alias (after_ta l) (map show_expr args))
         else if l = ''request.security'' then
           (if length args < 3 then Inl (invalid line ''request.security requires symbol, timeframe, and expression'')
            else Inr (requirement_of alias ''security''
                        [unwrap_or [] first, unwrap_or [] second, unwrap_or [] (argument_text (nth_arg 2 args))]))
         else Inr None)"

fun expr_contains_equity :: "expr \<Rightarrow> bool" where
  "expr_contains_equity (Expr r (Identifier_K n)) \<longleftrightarrow> n = ''strategy.equity''"
| "expr_contains_equity (Expr r (Member_K ob m)) \<longleftrightarrow> m = ''equity'' \<or> expr_contains_equity ob"
| "expr_contains_equity (Expr r (Unary_K op e)) \<longleftrightarrow> expr_contains_equity e"
| "expr_contains_equity (Expr r (Binary_K a op b)) \<longleftrightarrow> expr_contains_equity a \<or> expr_contains_equity b"
| "expr_contains_equity (Expr r (Ternary_K c t f)) \<longleftrightarrow>
     expr_contains_equity c \<or> expr_contains_equity t \<or> expr_contains_equity f"
| "expr_contains_equity (Expr r (Index_K ob i)) \<longleftrightarrow> expr_contains_equity ob \<or> expr_contains_equity i"
| "expr_contains_equity (Expr r (Call_K c args)) \<longleftrightarrow> list_ex expr_contains_equity args"
| "expr_contains_equity (Expr r (Tuple_K args)) \<longleftrightarrow> list_ex expr_contains_equity args"
| "expr_contains_equity e \<longleftrightarrow> False"

section \<open>The walk\<close>

record planner =
  pc_indicators :: "(string, indicator) bmap"
  pc_position :: bool
  pc_account :: bool

definition require_call :: "string \<Rightarrow> expr list \<Rightarrow> string \<Rightarrow> nat \<Rightarrow> planner \<Rightarrow> planner_error + planner" where
  "require_call callee args alias line c =
     rbind (requirement_for_call callee args alias line) (\<lambda>r.
     Inr (case r of None \<Rightarrow> c | Some i \<Rightarrow> c\<lparr>pc_indicators := bm_insert (in_key i) i (pc_indicators c)\<rparr>))"

definition note_account :: "bool \<Rightarrow> planner \<Rightarrow> planner" where
  "note_account b c = c\<lparr>pc_account := pc_account c \<or> b\<rparr>"

definition note_position :: "bool \<Rightarrow> planner \<Rightarrow> planner" where
  "note_position b c = c\<lparr>pc_position := pc_position c \<or> b\<rparr>"

fun plan_expr :: "expr \<Rightarrow> planner \<Rightarrow> planner_error + planner"
  and plan_exprs :: "expr list \<Rightarrow> planner \<Rightarrow> planner_error + planner" where
  "plan_expr (Expr r (Unary_K op e)) c = plan_expr e c"
| "plan_expr (Expr r (Binary_K a op b)) c = rbind (plan_expr a c) (plan_expr b)"
| "plan_expr (Expr r (Ternary_K d t f)) c = rbind (plan_expr d c) (\<lambda>c. rbind (plan_expr t c) (plan_expr f))"
| "plan_expr (Expr r (Member_K ob m)) c = plan_expr ob c"
| "plan_expr (Expr r (Index_K ob i)) c = rbind (plan_expr ob c) (plan_expr i)"
| "plan_expr (Expr r (Tuple_K items)) c = plan_exprs items c"
| "plan_expr (Expr r (Call_K callee args)) c =
     rbind (plan_exprs args c) (\<lambda>c.
     require_call callee args [] (sr_start_line r) (note_account (list_ex expr_contains_equity args) c))"
| "plan_expr e c = Inr c"
| "plan_exprs [] c = Inr c"
| "plan_exprs (e # es) c = rbind (plan_expr e c) (plan_exprs es)"

text \<open>The requirement of an expression that is itself a call, under the name it is assigned to.\<close>

definition plan_named :: "string \<Rightarrow> expr \<Rightarrow> planner \<Rightarrow> planner_error + planner" where
  "plan_named alias e c =
     rbind (plan_expr e c) (\<lambda>c.
     case ex_kind e of
       Call_K callee args \<Rightarrow> require_call callee args alias (sr_start_line (ex_range e)) c
     | _ \<Rightarrow> Inr c)"

definition order_calls :: "string list" where
  "order_calls = [''strategy.entry'', ''strategy.order'', ''strategy.close'', ''strategy.close_all'', ''strategy.exit'']"

definition plan_action :: "string \<Rightarrow> expr list \<Rightarrow> nat \<Rightarrow> planner \<Rightarrow> planner_error + planner" where
  "plan_action call args line c =
     rbind (plan_exprs args c) (\<lambda>c.
     require_call call args [] line
       (if call \<in> set order_calls then note_account (list_ex expr_contains_equity args) (note_position True c) else c))"

fun plan_statement :: "lowered \<Rightarrow> planner \<Rightarrow> planner_error + planner"
  and plan_statements :: "lowered list \<Rightarrow> planner \<Rightarrow> planner_error + planner" where
  "plan_statement (Let_Lowered r n e m) c = plan_named n e c"
| "plan_statement (Tuple_Lowered r ns e m) c = plan_named (case ns of [] \<Rightarrow> [] | n # _ \<Rightarrow> n) e c"
| "plan_statement (Action_Lowered r call args) c = plan_action call args (sr_start_line r) c"
| "plan_statement (If_Lowered r d a b) c = rbind (plan_expr d c) (\<lambda>c. rbind (plan_statements a c) (plan_statements b))"
| "plan_statement (For_Lowered r v s e step b) c =
     rbind (plan_expr s c) (\<lambda>c. rbind (plan_expr e c) (\<lambda>c.
     rbind (case step of None \<Rightarrow> Inr c | Some st \<Rightarrow> plan_expr st c) (plan_statements b)))"
| "plan_statements [] c = Inr c"
| "plan_statements (x # xs) c = rbind (plan_statement x c) (plan_statements xs)"

definition empty_planner :: planner where
  "empty_planner = \<lparr>pc_indicators = [], pc_position = False, pc_account = False\<rparr>"

definition plan_requirements :: "lowered_program \<Rightarrow> planner_error + requirements" where
  "plan_requirements p =
     rbind (try_fold (\<lambda>c h. plan_statements (hk_statements h) c) empty_planner (lp_hooks p)) (\<lambda>c.
     Inr \<lparr>rq_indicators = bm_values (pc_indicators c), rq_position = pc_position c, rq_account = pc_account c\<rparr>)"

section \<open>Time frames\<close>

text \<open>Arithmetic of \<open>usize\<close>.\<close>

definition wrap :: "nat \<Rightarrow> nat" where
  "wrap n = n mod 2 ^ 64"

definition saturating_add :: "nat \<Rightarrow> nat \<Rightarrow> nat" where
  "saturating_add a b = min (a + b) (2 ^ 64 - 1)"

definition div_ceil :: "nat \<Rightarrow> nat \<Rightarrow> nat option" where
  "div_ceil a b = (if b = 0 then None else Some ((a + (b - 1)) div b))"

definition strip_suffix :: "string \<Rightarrow> string \<Rightarrow> string option" where
  "strip_suffix p s = map_option rev (strip_prefix (rev p) (rev s))"

definition either_suffix :: "string \<Rightarrow> string \<Rightarrow> string \<Rightarrow> string option" where
  "either_suffix p q s = or_else (strip_suffix p s) (strip_suffix q s)"

definition trading_minutes_per_day :: "string \<Rightarrow> bool \<Rightarrow> nat" where
  "trading_minutes_per_day symbol extended =
     (let s = upper (trim symbol); starts = (\<lambda>m. starts_with s (m @ ''.'') \<or> starts_with s (m @ '':''))
      in if starts ''US'' then (if extended then 1440 else 390)
         else if starts ''HK'' then 330
         else if starts ''SH'' \<or> starts ''SZ'' \<or> starts ''CN'' then 240
         else 390)"

text \<open>The count in front of a unit, one if it cannot be read, and at least one.\<close>

definition unit_count :: "string \<Rightarrow> nat" where
  "unit_count v = max (unwrap_or 1 (parse_u64 (trim v))) 1"

definition resolve_interval_minutes :: "string \<Rightarrow> nat \<Rightarrow> nat" where
  "resolve_interval_minutes interval per_day =
     (let v = lower (trim interval)
      in if v = [] then 1
         else case either_suffix ''mo'' ''month'' v of Some n \<Rightarrow> wrap (wrap (unit_count n * per_day) * 20) | None \<Rightarrow>
              case either_suffix ''w'' ''week'' v of Some n \<Rightarrow> wrap (wrap (unit_count n * per_day) * 5) | None \<Rightarrow>
              case either_suffix ''d'' ''day'' v of Some n \<Rightarrow> wrap (unit_count n * per_day) | None \<Rightarrow>
              case either_suffix ''h'' ''hour'' v of Some n \<Rightarrow> wrap (unit_count n * 60) | None \<Rightarrow>
              case either_suffix ''min'' ''m'' v of Some n \<Rightarrow> unit_count n | None \<Rightarrow>
              max (unwrap_or 1 (parse_u64 v)) 1)"

definition unquoted :: "string \<Rightarrow> string" where
  "unquoted s =
     (let q = hd quote_char; a = char_of (39 :: nat); strip = (\<lambda>c v. trim_end_char c (trim_start_char c v))
      in strip a (strip q (trim s)))"

definition scaled :: "nat \<Rightarrow> string \<Rightarrow> nat option" where
  "scaled factor n = map_option (\<lambda>k. wrap (k * factor)) (parse_u64 (trim n))"

definition resolve_timeframe_minutes :: "string \<Rightarrow> nat \<Rightarrow> nat option" where
  "resolve_timeframe_minutes timeframe per_day =
     (let clean = unquoted timeframe; tf = upper clean
      in if clean = [] then None
         else case strip_suffix ''m'' clean of Some n \<Rightarrow> Some (unit_count n) | None \<Rightarrow>
              case either_suffix ''min'' ''MIN'' clean of Some n \<Rightarrow> Some (unit_count n) | None \<Rightarrow>
              if tf = ''D'' \<or> tf = ''1D'' \<or> tf = ''DAY'' then Some per_day
              else if tf = ''W'' \<or> tf = ''1W'' \<or> tf = ''WEEK'' then Some (wrap (per_day * 5))
              else if tf = ''M'' \<or> tf = ''1M'' \<or> tf = ''1MO'' \<or> tf = ''MONTH'' then Some (wrap (per_day * 20))
              else case strip_suffix ''D'' tf of Some n \<Rightarrow> scaled per_day n | None \<Rightarrow>
              case strip_suffix ''W'' tf of
                Some n \<Rightarrow> map_option (\<lambda>k. wrap (wrap (k * per_day) * 5)) (parse_u64 (trim n)) | None \<Rightarrow>
              case strip_suffix ''MO'' tf of
                Some n \<Rightarrow> map_option (\<lambda>k. wrap (wrap (k * per_day) * 20)) (parse_u64 (trim n)) | None \<Rightarrow>
              case strip_suffix ''H'' tf of Some n \<Rightarrow> scaled 60 n | None \<Rightarrow>
              case either_suffix ''M'' ''MIN'' tf of Some n \<Rightarrow> parse_u64 (trim n) | None \<Rightarrow>
              parse_u64 tf)"

definition contains :: "string \<Rightarrow> string \<Rightarrow> bool" where
  "contains s p \<longleftrightarrow> find_sub p s \<noteq> None"

definition max_of :: "nat \<Rightarrow> nat list \<Rightarrow> nat" where
  "max_of d ns = (case ns of [] \<Rightarrow> d | n # r \<Rightarrow> fold max r n)"

definition numbers :: "string list \<Rightarrow> nat list" where
  "numbers parts = List.map_filter parse_u64 parts"

definition parse_expression_period :: "string \<Rightarrow> nat" where
  "parse_expression_period e =
     (let l = lower e; ns = numbers (split_on (\<lambda>c. \<not> is_digit c) l)
      in if contains l ''macd'' \<and> 3 \<le> length ns then saturating_add (ns ! 1) (ns ! 2)
         else if contains l ''atr'' then saturating_add (max_of 14 ns) 1
         else max (max_of 1 ns) 1)"

section \<open>Bars of history\<close>

definition key_parts :: "indicator \<Rightarrow> string list" where
  "key_parts i = split_on (\<lambda>c. c = CHR '':'') (in_key i)"

definition fixed_timeframe :: "indicator \<Rightarrow> string option" where
  "fixed_timeframe i =
     (let parts = key_parts i
      in if in_kind i = ''security'' then (if 2 < length parts then Some (parts ! 2) else None)
         else if in_kind i = ''ma'' \<and> 4 \<le> length parts then Some (last parts) else None)"

text \<open>\<open>validate_timeframe_alignment\<close>; the remainder by zero panics.\<close>

datatype alignment = Aligned | Misaligned string | Panic

definition validate_timeframe_alignment :: "string \<Rightarrow> string \<Rightarrow> bool \<Rightarrow> indicator \<Rightarrow> alignment" where
  "validate_timeframe_alignment symbol interval extended i =
     (let per_day = trading_minutes_per_day symbol extended; step = resolve_interval_minutes interval per_day
      in case fixed_timeframe i of
           None \<Rightarrow> Aligned
         | Some tf \<Rightarrow>
             let t = unquoted tf
             in if t = [] then Aligned
                else case resolve_timeframe_minutes t per_day of
                       None \<Rightarrow> Aligned
                     | Some target \<Rightarrow>
                         if target < step then Misaligned
                           (''indicator '' @ in_kind i @ '' fixed timeframe '' @ t @ '' is lower than strategy interval '' @ interval @
                            ''; JFTrade supports request.security() only at the current or a higher timeframe'')
                         else if per_day \<le> target then Aligned
                         else if step = 0 then Panic
                         else if target mod step \<noteq> 0 then Misaligned
                           (''indicator '' @ in_kind i @ '' fixed timeframe '' @ t @ '' is not aligned with strategy interval '' @ interval @
                            ''; JFTrade aggregates MTF data from a single native interval'')
                         else Aligned)"

definition estimated_lookback_bars :: "string \<Rightarrow> string \<Rightarrow> bool \<Rightarrow> indicator \<Rightarrow> nat option" where
  "estimated_lookback_bars symbol interval extended i =
     (case validate_timeframe_alignment symbol interval extended i of
        Panic \<Rightarrow> None
      | Misaligned _ \<Rightarrow> Some 0
      | Aligned \<Rightarrow>
          let per_day = trading_minutes_per_day symbol extended; step = resolve_interval_minutes interval per_day;
              parts = key_parts i; kind = in_kind i; part = (\<lambda>n. if n < length parts then parts ! n else [])
          in if kind = ''security'' then
               div_ceil (wrap (parse_expression_period (part 3) * unwrap_or per_day (resolve_timeframe_minutes (part 2) per_day))) step
             else if kind = ''ma'' then
               (let period = max_of 0 (numbers parts)
                in case (if 4 \<le> length parts then resolve_timeframe_minutes (last parts) per_day else None) of
                     Some minutes \<Rightarrow> div_ceil (wrap (period * minutes)) step
                   | None \<Rightarrow> Some period)
             else if kind = ''macd'' then
               (let ns = numbers parts
                in Some (if 3 \<le> length ns then saturating_add (ns ! 1) (ns ! 2)
                         else if ns \<noteq> [] then fold (\<lambda>n acc. wrap (acc + n)) ns 0 else 35))
             else if kind \<in> {''atr'', ''change'', ''rising'', ''falling''} then Some (saturating_add (max_of 14 (numbers parts)) 1)
             else Some (max_of 0 (numbers parts)))"

text \<open>Over all indicators; the first panic, misalignment or the maximum.\<close>

fun validate_all :: "string \<Rightarrow> string \<Rightarrow> bool \<Rightarrow> indicator list \<Rightarrow> alignment" where
  "validate_all symbol interval extended [] = Aligned"
| "validate_all symbol interval extended (i # is) =
     (case validate_timeframe_alignment symbol interval extended i of
        Aligned \<Rightarrow> validate_all symbol interval extended is
      | a \<Rightarrow> a)"

definition derived_warmup_bars :: "string \<Rightarrow> string \<Rightarrow> bool \<Rightarrow> requirements \<Rightarrow> nat option" where
  "derived_warmup_bars symbol interval extended r =
     map_option (max_of 0) (those (map (estimated_lookback_bars symbol interval extended) (rq_indicators r)))"

datatype warmup = Warmup nat | Warmup_Error string | Warmup_Panic

definition try_derived_warmup_bars :: "string \<Rightarrow> string \<Rightarrow> bool \<Rightarrow> requirements \<Rightarrow> warmup" where
  "try_derived_warmup_bars symbol interval extended r =
     (case validate_all symbol interval extended (rq_indicators r) of
        Misaligned e \<Rightarrow> Warmup_Error e
      | Panic \<Rightarrow> Warmup_Panic
      | Aligned \<Rightarrow> (case derived_warmup_bars symbol interval extended r of None \<Rightarrow> Warmup_Panic | Some n \<Rightarrow> Warmup n))"

section \<open>What is required\<close>

text \<open>The calls in an expression, and the calls and actions of a statement.\<close>

fun expr_calls :: "expr \<Rightarrow> (string \<times> expr list) list" where
  "expr_calls (Expr r (Unary_K op e)) = expr_calls e"
| "expr_calls (Expr r (Binary_K a op b)) = expr_calls a @ expr_calls b"
| "expr_calls (Expr r (Ternary_K d t f)) = expr_calls d @ expr_calls t @ expr_calls f"
| "expr_calls (Expr r (Member_K ob m)) = expr_calls ob"
| "expr_calls (Expr r (Index_K ob i)) = expr_calls ob @ expr_calls i"
| "expr_calls (Expr r (Tuple_K items)) = concat (map expr_calls items)"
| "expr_calls (Expr r (Call_K callee args)) = concat (map expr_calls args) @ [(callee, args)]"
| "expr_calls e = []"

fun statement_calls :: "lowered \<Rightarrow> (string \<times> expr list) list" where
  "statement_calls (Let_Lowered r n e m) = expr_calls e"
| "statement_calls (Tuple_Lowered r ns e m) = expr_calls e"
| "statement_calls (Action_Lowered r call args) = concat (map expr_calls args)"
| "statement_calls (If_Lowered r d a b) = expr_calls d @ concat (map statement_calls a) @ concat (map statement_calls b)"
| "statement_calls (For_Lowered r v s e step b) =
     expr_calls s @ expr_calls e @ (case step of None \<Rightarrow> [] | Some st \<Rightarrow> expr_calls st) @ concat (map statement_calls b)"

fun statement_actions :: "lowered \<Rightarrow> (string \<times> expr list) list" where
  "statement_actions (Action_Lowered r call args) = [(call, args)]"
| "statement_actions (If_Lowered r d a b) = concat (map statement_actions a) @ concat (map statement_actions b)"
| "statement_actions (For_Lowered r v s e step b) = concat (map statement_actions b)"
| "statement_actions x = []"

definition hook_statements :: "lowered_program \<Rightarrow> lowered list" where
  "hook_statements p = concat (map hk_statements (lp_hooks p))"

definition call_key :: "string \<times> expr list \<Rightarrow> string option" where
  "call_key c = (case requirement_for_call (fst c) (snd c) [] 0 of Inr (Some i) \<Rightarrow> Some (in_key i) | _ \<Rightarrow> None)"

definition call_invalid :: "string \<times> expr list \<Rightarrow> bool" where
  "call_invalid c \<longleftrightarrow> (case requirement_for_call (fst c) (snd c) [] 0 of Inl _ \<Rightarrow> True | Inr _ \<Rightarrow> False)"

definition uses_equity :: "string \<times> expr list \<Rightarrow> bool" where
  "uses_equity c \<longleftrightarrow> list_ex expr_contains_equity (snd c)"

definition is_order :: "string \<times> expr list \<Rightarrow> bool" where
  "is_order c \<longleftrightarrow> fst c \<in> set order_calls"

definition keys_of :: "(string \<times> expr list) list \<Rightarrow> string set" where
  "keys_of cs = {k. \<exists>c. c \<in> set cs \<and> call_key c = Some k}"

text \<open>The alias and the line are only carried along.\<close>

lemma requirement_for_call_carries:
  "requirement_for_call callee args alias line =
     map_sum (\<lambda>e. e\<lparr>pl_line := line\<rparr>) (map_option (\<lambda>i. i\<lparr>in_alias := alias\<rparr>)) (requirement_for_call callee args [] 0)"
proof -
  have if_sum: "map_sum f g (if b then x else y) = (if b then map_sum f g x else map_sum f g y)"
    for f :: "planner_error \<Rightarrow> planner_error" and g :: "indicator option \<Rightarrow> indicator option" and b x y by simp
  have case_sum: "map_sum f g (case x of None \<Rightarrow> Inl e | Some v \<Rightarrow> Inr (h v)) =
      (case x of None \<Rightarrow> Inl (f e) | Some v \<Rightarrow> Inr (g (h v)))"
    for f :: "planner_error \<Rightarrow> planner_error" and g :: "indicator option \<Rightarrow> indicator option"
      and x :: "string option" and e h by (cases x) simp_all
  have bind_case: "rbind (ok_or x e) (\<lambda>v. Inr (h v)) = (case x of None \<Rightarrow> Inl e | Some v \<Rightarrow> Inr (h v))"
    for x :: "string option" and e :: planner_error and h :: "string \<Rightarrow> indicator option" by (cases x) simp_all
  have req: "map_option (\<lambda>i. i\<lparr>in_alias := alias\<rparr>) (requirement_of [] kind parts) = requirement_of alias kind parts"
    for kind parts by (simp add: requirement_of_def)
  have line: "(invalid 0 m)\<lparr>pl_line := line\<rparr> = invalid line m" for m by (simp add: invalid_def)
  show ?thesis unfolding requirement_for_call_def Let_def bind_case if_sum case_sum map_sum.simps req line option.map(1) ..
qed

lemma requirement_for_call_cases:
  "(\<exists>e. requirement_for_call callee args alias line = Inl e \<and> call_invalid (callee, args)) \<or>
   (requirement_for_call callee args alias line = Inr None \<and> call_key (callee, args) = None \<and> \<not> call_invalid (callee, args)) \<or>
   (\<exists>i. requirement_for_call callee args alias line = Inr (Some i) \<and> call_key (callee, args) = Some (in_key i) \<and>
      in_alias i = alias \<and> \<not> call_invalid (callee, args))"
proof (cases "requirement_for_call callee args [] 0")
  case (Inr r)
  then show ?thesis using requirement_for_call_carries [of callee args "alias" line]
    by (cases r) (auto simp: call_key_def call_invalid_def)
qed (use requirement_for_call_carries [of callee args "alias" line] in \<open>simp add: call_key_def call_invalid_def\<close>)

text \<open>What a step of the walk adds.\<close>

definition keyed :: "planner \<Rightarrow> bool" where
  "keyed c \<longleftrightarrow> bm_ok (pc_indicators c) \<and> list_all (\<lambda>(k, i). in_key i = k) (pc_indicators c)"

definition plans :: "planner \<Rightarrow> planner_error + planner \<Rightarrow> (string \<times> expr list) list \<Rightarrow> bool \<Rightarrow> bool \<Rightarrow> bool" where
  "plans c m cs account position \<longleftrightarrow>
     (case m of
        Inl _ \<Rightarrow> list_ex call_invalid cs
      | Inr c' \<Rightarrow>
          \<not> list_ex call_invalid cs \<and> (keyed c \<longrightarrow> keyed c') \<and>
          set (map fst (pc_indicators c')) = set (map fst (pc_indicators c)) \<union> keys_of cs \<and>
          pc_account c' = (pc_account c \<or> account) \<and> pc_position c' = (pc_position c \<or> position))"

lemma keys_of_simps [simp]: "keys_of [] = {}" "keys_of (a @ b) = keys_of a \<union> keys_of b"
  by (auto simp: keys_of_def)

lemma plans_id [simp]: "plans c (Inr c) [] False False"
  by (simp add: plans_def)

lemma plans_bind:
  assumes "plans c m cs a p" and "\<And>c'. m = Inr c' \<Longrightarrow> plans c' (f c') cs' a' p'"
  shows "plans c (rbind m f) (cs @ cs') (a \<or> a') (p \<or> p')"
proof (cases m)
  case (Inr c')
  then have "plans c (Inr c') cs a p" using assms(1) by simp
  then show ?thesis using assms(2) [OF Inr] Inr by (cases "f c'") (auto simp: plans_def)
qed (use assms in \<open>auto simp: plans_def\<close>)

lemma plans_seq:
  assumes "plans c m cs (list_ex uses_equity cs) False"
    and "\<And>c'. m = Inr c' \<Longrightarrow> plans c' (f c') cs' (list_ex uses_equity cs') False"
  shows "plans c (rbind m f) (cs @ cs') (list_ex uses_equity (cs @ cs')) False"
  using plans_bind [OF assms] by simp

lemma keyed_insert: "keyed c \<Longrightarrow> keyed (c\<lparr>pc_indicators := bm_insert (in_key i) i (pc_indicators c)\<rparr>)"
  using bm_insert_all [of "pc_indicators c" "\<lambda>k i. in_key i = k" "in_key i" i] by (simp add: keyed_def list_all_iff)

lemma plans_call: "plans c (require_call callee args alias line c) [(callee, args)] False False"
  using requirement_for_call_cases [of callee args "alias" line]
  by (auto simp: require_call_def plans_def bm_keys_insert keys_of_def keyed_insert simp del: set_map)

lemma plans_flags:
  "plans (note_account b c) m cs a p \<Longrightarrow> plans c m cs (b \<or> a) p"
  "plans (note_position b c) m cs a p \<Longrightarrow> plans c m cs a (b \<or> p)"
  by (auto simp: plans_def note_account_def note_position_def keyed_def split: sum.splits)

lemma uses_equity_pair [simp]: "uses_equity (callee, args) \<longleftrightarrow> list_ex expr_contains_equity args"
  by (simp add: uses_equity_def)

lemma plan_expr_plans:
  "plans c (plan_expr e c) (expr_calls e) (list_ex uses_equity (expr_calls e)) False"
  "plans c (plan_exprs es c) (concat (map expr_calls es)) (list_ex uses_equity (concat (map expr_calls es))) False"
proof (induction e c and es c rule: plan_expr_plan_exprs.induct)
  case (7 r callee args c)
  have "plans c (rbind (plan_exprs args c) (\<lambda>c.
      require_call callee args [] (sr_start_line r) (note_account (list_ex expr_contains_equity args) c)))
      (concat (map expr_calls args) @ [(callee, args)])
      (list_ex uses_equity (concat (map expr_calls args)) \<or> list_ex expr_contains_equity args \<or> False) (False \<or> False)"
    by (intro plans_bind "7.IH" plans_flags(1) plans_call)
  then show ?case by simp
next
  case (3 r d t f c)
  show ?case unfolding plan_expr.simps expr_calls.simps by (intro plans_seq "3.IH")
next
  case (2 r a op b c)
  show ?case unfolding plan_expr.simps expr_calls.simps by (intro plans_seq "2.IH")
next
  case (5 r ob i c)
  show ?case unfolding plan_expr.simps expr_calls.simps by (intro plans_seq "5.IH")
next
  case (10 e es c)
  show ?case unfolding plan_exprs.simps list.map concat.simps by (intro plans_seq "10.IH")
qed (simp_all)

definition order_equity :: "string \<times> expr list \<Rightarrow> bool" where
  "order_equity a \<longleftrightarrow> is_order a \<and> uses_equity a"

text \<open>The same for statements, calls and actions apart.\<close>

definition walks :: "planner \<Rightarrow> planner_error + planner \<Rightarrow> (string \<times> expr list) list \<Rightarrow> (string \<times> expr list) list \<Rightarrow> bool" where
  "walks c m cs as \<longleftrightarrow> plans c m (cs @ as) (list_ex uses_equity cs \<or> list_ex order_equity as) (list_ex is_order as)"

lemma plans_permute:
  "plans c m cs a p \<Longrightarrow> set cs = set cs' \<Longrightarrow> a = a' \<Longrightarrow> p = p' \<Longrightarrow> plans c m cs' a' p'"
  by (auto simp: plans_def keys_of_def list_ex_iff split: sum.splits)

lemma walks_seq:
  assumes "walks c m cs as" and "\<And>c'. m = Inr c' \<Longrightarrow> walks c' (f c') cs' as'"
  shows "walks c (rbind m f) (cs @ cs') (as @ as')"
  unfolding walks_def
  by (rule plans_permute [OF plans_bind [OF assms [unfolded walks_def]]]) auto

lemma walks_expr: "walks c (plan_expr e c) (expr_calls e) []"
  using plan_expr_plans(1) [of c e] by (simp add: walks_def)

lemma walks_exprs: "walks c (plan_exprs es c) (concat (map expr_calls es)) []"
  using plan_expr_plans(2) [of c es] by (simp add: walks_def)

lemma walks_id [simp]: "walks c (Inr c) [] []"
  by (simp add: walks_def)

text \<open>The second requirement of a named call has the key of the first.\<close>

lemma walks_named: "walks c (plan_named alias e c) (expr_calls e) []"
proof (cases "\<exists>callee args. ex_kind e = Call_K callee args")
  case True
  then obtain r callee args where e: "e = Expr r (Call_K callee args)" by (metis expr.exhaust_sel)
  have p: "plans c (rbind (plan_expr e c) (\<lambda>c. require_call callee args alias (sr_start_line r) c))
      (expr_calls e @ [(callee, args)]) (list_ex uses_equity (expr_calls e) \<or> False) (False \<or> False)"
    by (intro plans_bind plan_expr_plans plans_call)
  have "plan_named alias e c = rbind (plan_expr e c) (\<lambda>c. require_call callee args alias (sr_start_line r) c)"
    by (simp add: plan_named_def e)
  moreover have "plans c (rbind (plan_expr e c) (\<lambda>c. require_call callee args alias (sr_start_line r) c))
      (expr_calls e) (list_ex uses_equity (expr_calls e)) False"
    by (rule plans_permute [OF p]) (auto simp: e)
  ultimately show ?thesis by (simp add: walks_def)
next
  case False
  then have "plan_named alias e c = rbind (plan_expr e c) Inr" unfolding plan_named_def by (cases "ex_kind e") auto
  then show ?thesis using walks_seq [OF walks_expr [of c e], of Inr "[]" "[]"] by simp
qed

lemma walks_action: "walks c (plan_action call args line c) (concat (map expr_calls args)) [(call, args)]"
proof -
  have "walks c' (require_call call args [] line
      (if call \<in> set order_calls then note_account (list_ex expr_contains_equity args) (note_position True c') else c'))
      [] [(call, args)]" for c'
  proof (cases "call \<in> set order_calls")
    case True
    have "plans c' (require_call call args [] line (note_account (list_ex expr_contains_equity args) (note_position True c')))
        [(call, args)] (list_ex expr_contains_equity args \<or> False) (True \<or> False)"
      by (rule plans_flags(2), rule plans_flags(1), rule plans_call)
    then show ?thesis using True by (simp add: walks_def is_order_def order_equity_def)
  next
    case False
    then show ?thesis using plans_call [of c' call args "[]" line] by (simp add: walks_def is_order_def order_equity_def)
  qed
  then show ?thesis using walks_seq [OF walks_exprs] unfolding plan_action_def by fastforce
qed

lemma plan_statement_walks:
  "walks c (plan_statement x c) (statement_calls x) (statement_actions x)"
  "walks c (plan_statements xs c) (concat (map statement_calls xs)) (concat (map statement_actions xs))"
proof (induction x c and xs c rule: plan_statement_plan_statements.induct)
  case (4 r d a b c)
  have "walks c (rbind (plan_expr d c) (\<lambda>c. rbind (plan_statements a c) (plan_statements b)))
      (expr_calls d @ concat (map statement_calls a) @ concat (map statement_calls b))
      ([] @ concat (map statement_actions a) @ concat (map statement_actions b))"
    by (intro walks_seq walks_expr "4.IH")
  then show ?case by simp
next
  case (5 r v s e step b c)
  have st: "walks c' (case step of None \<Rightarrow> Inr c' | Some st \<Rightarrow> plan_expr st c') (case step of None \<Rightarrow> [] | Some st \<Rightarrow> expr_calls st) []"
    for c' by (cases step) (auto intro: walks_expr)
  have "walks c (rbind (plan_expr s c) (\<lambda>c. rbind (plan_expr e c) (\<lambda>c.
       rbind (case step of None \<Rightarrow> Inr c | Some st \<Rightarrow> plan_expr st c) (plan_statements b))))
      (expr_calls s @ expr_calls e @ (case step of None \<Rightarrow> [] | Some st \<Rightarrow> expr_calls st) @ concat (map statement_calls b))
      ([] @ [] @ [] @ concat (map statement_actions b))"
    by (intro walks_seq walks_expr st) (rule "5.IH")
  then show ?case by simp
next
  case (7 x xs c)
  show ?case unfolding plan_statements.simps list.map concat.simps by (intro walks_seq "7.IH")
qed (simp_all add: walks_named walks_action)

lemma try_fold_walks:
  "walks c (try_fold (\<lambda>c h. plan_statements (hk_statements h) c) c hs)
     (concat (map statement_calls (concat (map hk_statements hs)))) (concat (map statement_actions (concat (map hk_statements hs))))"
proof (induction hs arbitrary: c)
  case (Cons h hs)
  have "walks c (rbind (plan_statements (hk_statements h) c) (\<lambda>c. try_fold (\<lambda>c h. plan_statements (hk_statements h) c) c hs))
      (concat (map statement_calls (hk_statements h)) @ concat (map statement_calls (concat (map hk_statements hs))))
      (concat (map statement_actions (hk_statements h)) @ concat (map statement_actions (concat (map hk_statements hs))))"
    by (intro walks_seq plan_statement_walks Cons.IH)
  then show ?case by simp
qed simp

definition program_calls :: "lowered_program \<Rightarrow> (string \<times> expr list) list" where
  "program_calls p = concat (map statement_calls (hook_statements p))"

definition program_actions :: "lowered_program \<Rightarrow> (string \<times> expr list) list" where
  "program_actions p = concat (map statement_actions (hook_statements p))"


section \<open>How much history\<close>

lemma strip_prefix_length: "strip_prefix p s = Some r \<Longrightarrow> length r \<le> length s"
  by (induction p s rule: strip_prefix.induct) (auto split: if_splits)

lemma strip_suffix_length: "strip_suffix p s = Some r \<Longrightarrow> length r \<le> length s"
  using strip_prefix_length [of "rev p" "rev s"] by (auto simp: strip_suffix_def)

lemma either_suffix_length: "either_suffix p q s = Some r \<Longrightarrow> length r \<le> length s"
  by (auto simp: either_suffix_def or_else_def strip_suffix_length split: option.splits)

lemma strip_length: "length (strip w2 w3 s) \<le> length s"
  by (induction w2 w3 s rule: strip.induct) auto

lemma trim_length: "length (trim s) \<le> length s"
proof -
  have "length (trim s) \<le> length (trim_start s)" unfolding trim_def trim_end_def
    by (metis length_rev strip_length)
  also have "\<dots> \<le> length s" unfolding trim_start_def by (rule strip_length)
  finally show ?thesis .
qed

lemma parse_u64_bound: "parse_u64 s = Some n \<Longrightarrow> length s \<le> 12 \<Longrightarrow> n \<le> 10 ^ 12"
proof -
  assume p: "parse_u64 s = Some n" and l: "length s \<le> 12"
  then obtain ds where ds: "all_digits ds" "digits_val ds = n" "length ds \<le> length s"
    by (auto simp: parse_u64_def Let_def split: list.splits if_splits)
  have "n < 10 ^ length ds" using digits_val_less [OF ds(1)] ds(2) by simp
  also have "\<dots> \<le> 10 ^ 12" using ds(3) l by (intro power_increasing) auto
  finally show ?thesis by simp
qed

lemma unit_count_bound: "length v \<le> 12 \<Longrightarrow> 1 \<le> unit_count v \<and> unit_count v \<le> 10 ^ 12"
  using parse_u64_bound [of "trim v"] trim_length [of v]
  by (cases "parse_u64 (trim v)") (auto simp: unit_count_def unwrap_or_def)

lemma wrap_product: "1 \<le> n \<Longrightarrow> n \<le> 10 ^ 12 \<Longrightarrow> 1 \<le> m \<Longrightarrow> m \<le> 28800 \<Longrightarrow> wrap (n * m) = n * m \<and> 1 \<le> n * m"
proof -
  assume b: "1 \<le> n" "n \<le> 10 ^ 12" "1 \<le> m" "m \<le> 28800"
  have "n * m \<le> 10 ^ 12 * 28800" by (rule mult_mono) (use b in auto)
  then show ?thesis using b by (simp add: wrap_def)
qed

lemma per_day_bounds: "1 \<le> trading_minutes_per_day symbol extended \<and> trading_minutes_per_day symbol extended \<le> 1440"
  by (simp add: trading_minutes_per_day_def Let_def)

text \<open>An interval of at most twelve bytes is a positive number of minutes: no product wraps to zero.\<close>

lemma interval_minutes_positive:
  assumes "length interval \<le> 12"
  shows "1 \<le> resolve_interval_minutes interval (trading_minutes_per_day symbol extended)"
proof -
  define d where "d = trading_minutes_per_day symbol extended"
  define v where "v = lower (trim interval)"
  have v: "length v \<le> 12" using trim_length [of interval] assms by (simp add: v_def lower_def)
  have d: "1 \<le> d" "d \<le> 1440" using per_day_bounds by (simp_all add: d_def)
  have c: "1 \<le> unit_count n \<and> unit_count n \<le> 10 ^ 12" if "either_suffix p q v = Some n" for p q n
    using either_suffix_length [OF that] v by (intro unit_count_bound) simp
  have "1 \<le> wrap (wrap (n * d) * k)" if "1 \<le> n \<and> n \<le> 10 ^ 12" "1 \<le> k" "k \<le> 20" for n k
  proof -
    have "wrap (n * d) = n * d" using wrap_product [of n d] that(1) d by simp
    moreover have "d * k \<le> 28800" using mult_mono [of d 1440 k 20] d that by simp
    ultimately show ?thesis using wrap_product [of n "d * k"] that d by (simp add: mult.assoc)
  qed
  then have k: "1 \<le> wrap (wrap (n * d) * 20)" "1 \<le> wrap (wrap (n * d) * 5)" if "1 \<le> n \<and> n \<le> 10 ^ 12" for n
    using that by simp_all
  have m: "1 \<le> wrap (n * d)" "1 \<le> wrap (n * 60)" if "1 \<le> n \<and> n \<le> 10 ^ 12" for n
    using wrap_product [of n d] wrap_product [of n 60] that d by simp_all
  show ?thesis unfolding resolve_interval_minutes_def d_def [symmetric] v_def [symmetric] Let_def
    using c k m by (auto split: option.split)
qed

lemma div_ceil_covers:
  assumes "div_ceil a b = Some n"
  shows "a \<le> n * b \<and> (n = 0 \<or> (n - 1) * b < a)"
proof -
  have b: "0 < b" and n: "n = (a + (b - 1)) div b" using assms by (auto simp: div_ceil_def split: if_splits)
  have "a + (b - 1) < Suc n * b" unfolding n using dividend_less_div_times [OF b] by simp
  moreover have "n * b \<le> a + (b - 1)" unfolding n by (metis div_times_less_eq_dividend)
  ultimately show ?thesis using b by (cases n) auto
qed

lemma estimated_lookback_bars_returns:
  assumes "1 \<le> resolve_interval_minutes interval (trading_minutes_per_day symbol extended)"
  shows "validate_timeframe_alignment symbol interval extended i \<noteq> Panic"
    and "\<exists>n. estimated_lookback_bars symbol interval extended i = Some n"
proof -
  have div: "\<exists>n. div_ceil a (resolve_interval_minutes interval (trading_minutes_per_day symbol extended)) = Some n" for a
    using assms by (simp add: div_ceil_def)
  show p: "validate_timeframe_alignment symbol interval extended i \<noteq> Panic"
    using assms unfolding validate_timeframe_alignment_def Let_def by (auto split: option.split)
  show "\<exists>n. estimated_lookback_bars symbol interval extended i = Some n"
    using p div unfolding estimated_lookback_bars_def Let_def
    by (cases "validate_timeframe_alignment symbol interval extended i") (simp_all split: option.split)
qed

lemma validate_all_Aligned:
  "validate_all symbol interval extended is = Aligned \<longleftrightarrow>
     list_all (\<lambda>i. validate_timeframe_alignment symbol interval extended i = Aligned) is"
  by (induction "is") (auto split: alignment.split)

lemma validate_all_Misaligned:
  "validate_all symbol interval extended is = Misaligned e \<Longrightarrow>
     list_ex (\<lambda>i. validate_timeframe_alignment symbol interval extended i = Misaligned e) is"
  by (induction "is") (auto split: alignment.splits)

lemma validate_all_Panic:
  "validate_all symbol interval extended is = Panic \<Longrightarrow>
     list_ex (\<lambda>i. validate_timeframe_alignment symbol interval extended i = Panic) is"
  by (induction "is") (auto split: alignment.splits)

lemma fold_max: "fold max ns (n :: nat) = Max (set (n # ns))"
  by (simp only: Max.set_eq_fold)

lemma max_of_ge: "n \<in> set ns \<Longrightarrow> n \<le> max_of 0 ns"
  by (cases ns) (auto simp: max_of_def fold_max simp del: Max_insert)

lemma max_of_in: "max_of 0 ns = 0 \<or> max_of 0 ns \<in> set ns"
proof (cases ns)
  case (Cons n r)
  have "Max (set (n # r)) \<in> set (n # r)" by (rule Max_in) auto
  then show ?thesis using Cons by (simp add: max_of_def fold_max del: Max_insert)
qed (simp add: max_of_def)

lemma those_map_Some: "list_all (\<lambda>x. f x = Some (g x)) xs \<Longrightarrow> those (map f xs) = Some (map g xs)"
  by (induction xs) auto

text \<open>with an interval of at most twelve bytes the warm-up of a strategy is always computed, with no
panic: it is an error exactly if an indicator's time frame is misaligned with the interval, and otherwise the
least number of bars that covers the look-back of every indicator.\<close>

theorem warmup_covers_indicators:
  assumes "length interval \<le> 12"
  shows "case try_derived_warmup_bars symbol interval extended r of
     Warmup_Panic \<Rightarrow> False
   | Warmup_Error e \<Rightarrow> list_ex (\<lambda>i. validate_timeframe_alignment symbol interval extended i = Misaligned e) (rq_indicators r)
   | Warmup n \<Rightarrow>
       list_all (\<lambda>i. validate_timeframe_alignment symbol interval extended i = Aligned) (rq_indicators r) \<and>
       list_all (\<lambda>i. case estimated_lookback_bars symbol interval extended i of None \<Rightarrow> False | Some k \<Rightarrow> k \<le> n) (rq_indicators r) \<and>
       (n = 0 \<or> list_ex (\<lambda>i. estimated_lookback_bars symbol interval extended i = Some n) (rq_indicators r))"
proof -
  have ok: "1 \<le> resolve_interval_minutes interval (trading_minutes_per_day symbol extended)"
    using assms by (rule interval_minutes_positive)
  let ?f = "estimated_lookback_bars symbol interval extended"
  have f: "?f i = Some (the (?f i))" for i using estimated_lookback_bars_returns(2) [OF ok, of i] by auto
  then have th: "those (map ?f (rq_indicators r)) = Some (map (\<lambda>i. the (?f i)) (rq_indicators r))"
    by (intro those_map_Some) (simp add: list_all_iff)
  define n where "n = max_of 0 (map (\<lambda>i. the (?f i)) (rq_indicators r))"
  have "case ?f i of None \<Rightarrow> False | Some k \<Rightarrow> k \<le> n" if "i \<in> set (rq_indicators r)" for i
  proof -
    have "the (?f i) \<le> n" unfolding n_def by (rule max_of_ge) (use that in simp)
    then show ?thesis by (subst f) simp
  qed
  then have upper: "list_all (\<lambda>i. case ?f i of None \<Rightarrow> False | Some k \<Rightarrow> k \<le> n) (rq_indicators r)"
    unfolding list_all_iff by blast
  have least: "n = 0 \<or> list_ex (\<lambda>i. ?f i = Some n) (rq_indicators r)"
  proof (cases "n = 0")
    case False
    then have "n \<in> set (map (\<lambda>i. the (?f i)) (rq_indicators r))"
      using max_of_in [of "map (\<lambda>i. the (?f i)) (rq_indicators r)"] by (simp only: n_def simp_thms)
    then obtain i where "i \<in> set (rq_indicators r)" "n = the (?f i)" by auto
    then show ?thesis using f [of i] by (auto simp: list_ex_iff)
  qed simp
  show ?thesis
  proof (cases "validate_all symbol interval extended (rq_indicators r)")
    case Aligned
    moreover from Aligned have "list_all (\<lambda>i. validate_timeframe_alignment symbol interval extended i = Aligned) (rq_indicators r)"
      by (simp only: validate_all_Aligned)
    ultimately show ?thesis using upper least
      by (simp add: try_derived_warmup_bars_def derived_warmup_bars_def th n_def [symmetric])
  next
    case (Misaligned e)
    then show ?thesis using validate_all_Misaligned by (simp add: try_derived_warmup_bars_def)
  next
    case Panic
    then show ?thesis using validate_all_Panic estimated_lookback_bars_returns(1) [OF ok] by (fastforce simp: list_ex_iff)
  qed
qed

definition example_requirements :: requirements where
  "example_requirements =
     \<lparr>rq_indicators = [\<lparr>in_alias = [], in_kind = ''rsi'', in_key = ''rsi:14''\<rparr>], rq_position = False, rq_account = False\<rparr>"

theorem warmup_covers_indicators_witness:
  "case try_derived_warmup_bars ''US.AAPL'' ''5m'' False example_requirements of
     Warmup_Panic \<Rightarrow> False
   | Warmup_Error e \<Rightarrow>
       list_ex (\<lambda>i. validate_timeframe_alignment ''US.AAPL'' ''5m'' False i = Misaligned e) (rq_indicators example_requirements)
   | Warmup n \<Rightarrow>
       list_all (\<lambda>i. validate_timeframe_alignment ''US.AAPL'' ''5m'' False i = Aligned) (rq_indicators example_requirements) \<and>
       list_all (\<lambda>i. case estimated_lookback_bars ''US.AAPL'' ''5m'' False i of None \<Rightarrow> False | Some k \<Rightarrow> k \<le> n)
         (rq_indicators example_requirements) \<and>
       (n = 0 \<or> list_ex (\<lambda>i. estimated_lookback_bars ''US.AAPL'' ''5m'' False i = Some n) (rq_indicators example_requirements))"
  by (rule warmup_covers_indicators) simp

section \<open>Where the estimate goes wrong\<close>

text \<open>
  A huge count wraps the interval to zero minutes, which divides by zero; three months are three minutes,
  although one month is a month; the colon of a symbol shifts the parts of its key; a length that is not a
  literal, and an indicator inside a function, need no history; nor do indicators of which the planner knows nothing.
\<close>

lemma huge_count: "unit_count ''9223372036854775808'' = 9223372036854775808"
proof -
  have "trim ''9223372036854775808'' = ''9223372036854775808''" by code_simp
  moreover have "digits_val ''9223372036854775808'' = 9223372036854775808"
    by (simp add: digits_val_def digit_val_def byte_def)
  moreover have "all_digits ''9223372036854775808''" by code_simp
  ultimately show ?thesis by (simp add: unit_count_def parse_u64_def unwrap_or_def)
qed

lemma huge_interval: "resolve_interval_minutes ''9223372036854775808d'' 390 = 0"
proof -
  have "lower (trim ''9223372036854775808d'') = ''9223372036854775808d''" by code_simp
  moreover have "either_suffix ''mo'' ''month'' ''9223372036854775808d'' = None" by code_simp
  moreover have "either_suffix ''w'' ''week'' ''9223372036854775808d'' = None" by code_simp
  moreover have "either_suffix ''d'' ''day'' ''9223372036854775808d'' = Some ''9223372036854775808''" by code_simp
  ultimately show ?thesis by (simp add: resolve_interval_minutes_def huge_count wrap_def)
qed

lemma huge_interval_panics:
  assumes "in_kind i = ''security''" and "fixed_timeframe i = None"
  shows "estimated_lookback_bars ''US.AAPL'' ''9223372036854775808d'' False i = None"
proof -
  have "trading_minutes_per_day ''US.AAPL'' False = 390" by code_simp
  then show ?thesis using assms
    by (simp add: estimated_lookback_bars_def validate_timeframe_alignment_def huge_interval div_ceil_def)
qed

lemma months_are_minutes:
  "resolve_timeframe_minutes ''1M'' per_day = Some (wrap (per_day * 20))" "resolve_timeframe_minutes ''3M'' per_day = Some 3"
proof -
  have "unquoted ''1M'' = ''1M''" "upper ''1M'' = ''1M''" "strip_suffix ''m'' ''1M'' = None"
    "either_suffix ''min'' ''MIN'' ''1M'' = None" by code_simp+
  then show "resolve_timeframe_minutes ''1M'' per_day = Some (wrap (per_day * 20))"
    by (simp add: resolve_timeframe_minutes_def)
  have "unquoted ''3M'' = ''3M''" "upper ''3M'' = ''3M''" "strip_suffix ''m'' ''3M'' = None"
    "either_suffix ''min'' ''MIN'' ''3M'' = None" "strip_suffix ''D'' ''3M'' = None" "strip_suffix ''W'' ''3M'' = None"
    "strip_suffix ''MO'' ''3M'' = None" "strip_suffix ''H'' ''3M'' = None" "either_suffix ''M'' ''MIN'' ''3M'' = Some ''3''"
    "trim ''3'' = ''3''" "all_digits ''3''" by code_simp+
  moreover from this have "parse_u64 ''3'' = Some 3" by (simp add: parse_u64_def digits_val_def digit_val_def byte_def)
  ultimately show "resolve_timeframe_minutes ''3M'' per_day = Some 3"
    by (simp add: resolve_timeframe_minutes_def)
qed

lemma symbol_with_colon_shifts_key:
  "key_parts \<lparr>in_alias = [], in_kind = ''security'', in_key = ''security:HK:00700:D:close''\<rparr> =
     [''security'', ''HK'', ''00700'', ''D'', ''close'']"
  "fixed_timeframe \<lparr>in_alias = [], in_kind = ''security'', in_key = ''security:HK:00700:D:close''\<rparr> = Some ''00700''"
  by code_simp+

lemma named_length_needs_no_history:
  "numbers (key_parts \<lparr>in_alias = [], in_kind = ''ma'', in_key = ''ma:SMA:len''\<rparr>) = []"
proof -
  have "key_parts \<lparr>in_alias = [], in_kind = ''ma'', in_key = ''ma:SMA:len''\<rparr> = [''ma'', ''SMA'', ''len'']" by code_simp
  then show ?thesis
    by (simp add: numbers_def parse_u64_def all_digits_def is_digit_def byte_def Let_def map_filter_simps)
qed

lemma functions_not_planned: "plan_requirements (p\<lparr>lp_functions := fs\<rparr>) = plan_requirements p"
  by (simp add: plan_requirements_def)

definition unplanned_calls :: "string list" where
  "unplanned_calls = [''ta.bb'', ''ta.bbw'', ''ta.cog'', ''ta.dmi'', ''ta.supertrend'', ''ta.sar'', ''ta.tr'']"

lemma supported_without_requirement:
  "list_all (\<lambda>c. is_supported_call c \<and> requirement_for_call c args alias line = Inr None) unplanned_calls"
proof -
  have "list_all (\<lambda>c. is_supported_call c \<and> lower c \<notin> set (cross_calls @ average_calls @ window_calls @ list_calls) \<and>
      lower c \<noteq> ''ta.macd'' \<and> lower c \<noteq> ''request.security'') unplanned_calls" by code_simp
  then show ?thesis by (auto simp: list_all_iff requirement_for_call_def)
qed

end
