(* ===== verification/Pine_Compile.thy ===== *)
theory Pine_Compile
  imports Pine_Planner
begin

text \<open>
  \<open>crates/jftrade-strategy/src/pine/mod.rs\<close>: the pipeline of the compiler, from the source to the
  lowered program and its requirements, with every failure a diagnostic.
\<close>

record compilation =
  cm_normalized_script :: string
  cm_program :: "lowered_program option"
  cm_requirements :: requirements
  cm_warnings :: "string list"
  cm_diagnostics :: "diagnostic list"
  cm_semantic :: summary
  cm_features :: "string list"
  cm_ok :: bool

definition supported_features :: "string list" where
  "supported_features =
     [''metadata.version6'', ''metadata.strategy'', ''syntax.if_else'', ''syntax.assignment'', ''syntax.var'',
      ''syntax.reassign'', ''syntax.expression_parser'', ''expression.history_ref'', ''expression.ternary'',
      ''expression.strict_bool'', ''indicator.ma'', ''indicator.rsi'', ''indicator.macd'', ''indicator.atr'',
      ''indicator.rolling_window'', ''indicator.cross'', ''request.security.mtf_sources'', ''order.entry_close_exit'',
      ''order.qty_percent'', ''order.cancel'']"

definition no_requirements :: requirements where
  "no_requirements = \<lparr>rq_indicators = [], rq_position = False, rq_account = False\<rparr>"

definition parse_error_text :: "parse_error \<Rightarrow> string" where
  "parse_error_text e = ''pine line '' @ nat_text (pe_line e) @ '', column '' @ nat_text (pe_column e) @ '': '' @ pe_message e"

definition warning_text :: "diagnostic \<Rightarrow> string" where
  "warning_text d = ''pine line '' @ nat_text (di_line d) @ '': '' @ di_message d"

text \<open>The stages: diagnostics, semantic summary, requirements and program.\<close>

definition compile_stages ::
  "debug_lib \<Rightarrow> parse_error + program \<Rightarrow> diagnostic list \<times> summary \<times> requirements \<times> lowered_program option" where
  "compile_stages B parsed =
     (case parsed of
        Inl e \<Rightarrow> ([diagnostic_error (pe_code_name e) (parse_error_text e) (pe_line e)], empty_summary, no_requirements, None)
      | Inr ast \<Rightarrow>
          let sem = analyze B ast; ds = su_diagnostics sem
          in if has_errors ds then (ds, sem, no_requirements, None)
             else case lower_program ast of
                    Inl e \<Rightarrow> (ds @ [diagnostic_error (le_code e) (lower_error_text e) (le_line e)], sem, no_requirements, None)
                  | Inr q \<Rightarrow>
                      (case plan_requirements q of
                         Inr r \<Rightarrow> (ds, sem, r, Some q)
                       | Inl e \<Rightarrow> (ds @ [diagnostic_error ''PINE_REQUIREMENTS_INVALID'' (planner_error_text e) (pl_line e)],
                                sem, no_requirements, Some q)))"

definition compile :: "debug_lib \<Rightarrow> string \<Rightarrow> compilation option" where
  "compile B source =
     map_option (\<lambda>parsed.
       let (ds, sem, req, prog) = compile_stages B parsed
       in \<lparr>cm_normalized_script = trim source, cm_program = prog, cm_requirements = req,
           cm_warnings = map warning_text (filter (\<lambda>d. di_severity d = Warning_Severity) ds), cm_diagnostics = ds,
           cm_semantic = sem, cm_features = supported_features, cm_ok = (\<not> has_errors ds)\<rparr>)
       (parse B (trim source))"

definition analyze_script :: "debug_lib \<Rightarrow> string \<Rightarrow> compilation option" where
  "analyze_script = compile"

section \<open>The pipeline\<close>

text \<open>The sources whose stages all succeed, and what they give.\<close>

definition compiles_to :: "debug_lib \<Rightarrow> string \<Rightarrow> lowered_program \<Rightarrow> requirements \<Rightarrow> bool" where
  "compiles_to B source q r \<longleftrightarrow>
     (\<exists>p. parse B source = Some (Inr p) \<and> well_typed_program p \<and> lower_program p = Inr q \<and> plan_requirements q = Inr r)"

lemma has_errors_append [simp]: "has_errors (a @ b) \<longleftrightarrow> has_errors a \<or> has_errors b"
  by (simp add: has_errors_def)

lemma has_errors_error [simp]: "has_errors [diagnostic_error c m l]"
  by (simp add: has_errors_def diagnostic_error_def diagnostic_at_def)

text \<open>C11: the compiler returns on every source. Its answer is ok exactly if the trimmed source parses, is well
typed, is lowered and planned, and then it holds that program and those requirements and no error; an answer
that is not ok reports an error and requires nothing.\<close>

theorem compile_runs_pipeline:
  "case compile B source of
     None \<Rightarrow> False
   | Some c \<Rightarrow>
       if cm_ok c
       then \<not> has_errors (cm_diagnostics c) \<and> (\<exists>q. cm_program c = Some q \<and> compiles_to B (trim source) q (cm_requirements c))
       else has_errors (cm_diagnostics c) \<and> cm_requirements c = no_requirements \<and> \<not> (\<exists>q r. compiles_to B (trim source) q r)"
proof -
  have "\<exists>parsed. parse B (trim source) = Some parsed"
    using parse_program_returns by (cases "lex (trim source)") (auto simp: parse_def)
  then obtain parsed where parsed: "parse B (trim source) = Some parsed" by blast
  show ?thesis
  proof (cases parsed)
    case (Inl e)
    then show ?thesis using parsed by (simp add: compile_def compile_stages_def compiles_to_def)
  next
    case (Inr p)
    show ?thesis
    proof (cases "well_typed_program p")
      case False
      then show ?thesis using parsed Inr by (simp add: compile_def compile_stages_def compiles_to_def analyze_result Let_def)
    next
      case typed: True
      show ?thesis
      proof (cases "lower_program p")
        case (Inl e)
        then show ?thesis using parsed \<open>parsed = Inr p\<close> typed
          by (simp add: compile_def compile_stages_def compiles_to_def analyze_result Let_def)
      next
        case q: (Inr q)
        show ?thesis using parsed \<open>parsed = Inr p\<close> typed q
          by (cases "plan_requirements q")
            (simp_all add: compile_def compile_stages_def compiles_to_def analyze_result Let_def)
      qed
    qed
  qed
qed

text \<open>A source that compiles calls nothing the runtime does not know.\<close>

lemma compiled_program_well_typed:
  "compiles_to B source q r \<Longrightarrow> \<exists>p. parse B source = Some (Inr p) \<and> pg_version p = 6 \<and> list_all (\<lambda>x. is_function x \<or> lowerable x) (pg_statements p)"
proof -
  assume "compiles_to B source q r"
  then obtain p where p: "parse B source = Some (Inr p)" "well_typed_program p" "lower_program p = Inr q"
    by (auto simp: compiles_to_def)
  have "list_all (\<lambda>x. is_function x \<or> lowerable x) (pg_statements p)"
    using p(3) lower_loop_iff [of "pg_statements p" "[]" "[]"] by (auto simp: lower_program_def rbind_Inr_iff)
  then show ?thesis using p by (auto simp: well_typed_program_def)
qed

end
