(* ===== verification/Kernel_Codecs.thy ===== *)
theory Kernel_Codecs
  imports Kernel_Increments
begin

text \<open>
  The value codecs of \<open>crates/jftrade-kernel\<close>: \<open>decimal.rs\<close> (the canonical text of a decimal of any
  length), \<open>fixed8.rs\<close> (numbers of eight decimals in an \<open>i64\<close>, with two infinities) and \<open>timestamp.rs\<close>.
  A text is at most \<open>2 ^ 63\<close> bytes long, so that its length is an \<open>i64\<close>.
\<close>

section \<open>Decimal text\<close>

record parsed_decimal =
  pd_negative :: bool
  pd_digits :: string
  pd_scale :: int

definition max_expanded_digits :: int where
  "max_expanded_digits = 1000000"

definition checked_i64 :: "'e \<Rightarrow> int \<Rightarrow> 'e + int" where
  "checked_i64 e n = ok_or (try_i64 n) e"

definition exponent_mark :: "char \<Rightarrow> bool" where
  "exponent_mark c \<longleftrightarrow> c = CHR ''e'' \<or> c = CHR ''E''"

definition parse_exponent :: "string \<Rightarrow> string list \<Rightarrow> codec_error + int" where
  "parse_exponent input marks =
     rbind (case marks of
        [] \<Rightarrow> Inr 0
      | v # _ \<Rightarrow> if v = [] then Inl (InvalidDecimal input) else ok_or (parse_i64 v) (InvalidDecimal input)) (\<lambda>e.
     if 1 < length marks \<or> max_expanded_digits < \<bar>e\<bar> then Inl DecimalExpansionLimit else Inr e)"

definition parse_coefficient :: "string \<Rightarrow> string \<Rightarrow> codec_error + string \<times> string" where
  "parse_coefficient input coefficient =
     (let parts = split_on (\<lambda>c. c = CHR ''.'') coefficient;
          integer = hd parts;
          fraction = (case tl parts of [] \<Rightarrow> [] | f # _ \<Rightarrow> f)
      in if 2 < length parts \<or> integer = [] \<and> fraction = [] \<or> \<not> all_digits integer \<or> \<not> all_digits fraction
         then Inl (InvalidDecimal input) else Inr (integer, fraction))"

definition unsign :: "string \<Rightarrow> bool \<times> string" where
  "unsign s =
     (case s of
        c # r \<Rightarrow> if c = CHR ''-'' then (True, r) else if c = CHR ''+'' then (False, r) else (False, s)
      | [] \<Rightarrow> (False, []))"

definition parse_decimal :: "string \<Rightarrow> codec_error + parsed_decimal" where
  "parse_decimal input =
     (if input = [] \<or> trim input \<noteq> input then Inl (InvalidDecimal input)
      else let (negative, unsigned) = unsign input
           in if unsigned = [] then Inl (InvalidDecimal input)
              else let marks = split_on exponent_mark unsigned
                   in rbind (parse_exponent input (tl marks)) (\<lambda>exponent.
                      rbind (parse_coefficient input (hd marks)) (\<lambda>(integer, fraction).
                      rbind (checked_i64 DecimalExpansionLimit (int (length fraction))) (\<lambda>n.
                      rbind (checked_i64 DecimalExpansionLimit (n - exponent)) (\<lambda>scale.
                      Inr \<lparr>pd_negative = negative, pd_digits = integer @ fraction, pd_scale = scale\<rparr>)))))"

definition zeros :: "nat \<Rightarrow> string" where
  "zeros n = replicate n (CHR ''0'')"

abbreviation strip_zeros :: "string \<Rightarrow> string" where
  "strip_zeros \<equiv> trim_start_char (CHR ''0'')"

abbreviation drop_zeros :: "string \<Rightarrow> string" where
  "drop_zeros \<equiv> trim_end_char (CHR ''0'')"

text \<open>The text of a significant, a string of digits, at a scale.\<close>

definition expand :: "string \<Rightarrow> int \<Rightarrow> string" where
  "expand significant scale =
     (if scale \<le> 0 then significant @ zeros (nat (- scale))
      else let n = nat scale
           in if n < length significant then
                let split = length significant - n; fraction = drop_zeros (drop split significant)
                in if fraction = [] then take split significant else take split significant @ ''.'' @ fraction
              else ''0.'' @ drop_zeros (zeros (n - length significant) @ significant))"

definition canonical_decimal :: "string \<Rightarrow> codec_error + string" where
  "canonical_decimal input =
     rbind (parse_decimal input) (\<lambda>p.
     let significant = strip_zeros (pd_digits p)
     in if significant = [] then Inr ''0''
        else rbind (checked_i64 DecimalExpansionLimit (int (length significant))) (\<lambda>n.
             rbind (checked_i64 DecimalExpansionLimit (n + \<bar>pd_scale p\<bar>)) (\<lambda>size.
             if max_expanded_digits < size then Inl DecimalExpansionLimit
             else Inr ((if pd_negative p then ''-'' else []) @ expand significant (pd_scale p)))))"

section \<open>Fixed8\<close>

record fixed8 =
  fx_non_finite :: int
  fx_scaled :: int

definition fixed_scale :: int where
  "fixed_scale = 100000000"

definition neg_infinity :: fixed8 where
  "neg_infinity = \<lparr>fx_non_finite = - 1, fx_scaled = - (2 ^ 63)\<rparr>"

definition pos_infinity :: fixed8 where
  "pos_infinity = \<lparr>fx_non_finite = 1, fx_scaled = 2 ^ 63 - 1\<rparr>"

definition from_scaled :: "int \<Rightarrow> fixed8" where
  "from_scaled n = \<lparr>fx_non_finite = 0, fx_scaled = n\<rparr>"

definition fixed_zero :: fixed8 where
  "fixed_zero = \<lparr>fx_non_finite = 0, fx_scaled = 0\<rparr>"

definition fixed_is_zero :: "fixed8 \<Rightarrow> bool" where
  "fixed_is_zero x \<longleftrightarrow> fx_non_finite x = 0 \<and> fx_scaled x = 0"

definition fixed_is_finite :: "fixed8 \<Rightarrow> bool" where
  "fixed_is_finite x \<longleftrightarrow> fx_non_finite x = 0"

definition fixed_signum :: "fixed8 \<Rightarrow> int" where
  "fixed_signum x =
     (if fx_non_finite x \<noteq> 0 then fx_non_finite x else if 0 < fx_scaled x then 1 else if fx_scaled x < 0 then - 1 else 0)"

definition ensure_finite :: "fixed8 \<Rightarrow> codec_error + unit" where
  "ensure_finite x = guard_or (fx_non_finite x = 0) Fixed8NonFiniteArithmetic"

definition to_decimal :: "'d decimal_lib \<Rightarrow> fixed8 \<Rightarrow> 'd" where
  "to_decimal D x =
     (if fx_non_finite x = 1 then d_max D else if fx_non_finite x = - 1 then d_min D else d_new D (fx_scaled x) 8)"

definition to_decimal_checked :: "'d decimal_lib \<Rightarrow> fixed8 \<Rightarrow> codec_error + 'd" where
  "to_decimal_checked D x = rbind (ensure_finite x) (\<lambda>_. Inr (d_new D (fx_scaled x) 8))"

definition from_decimal :: "'d decimal_lib \<Rightarrow> 'd \<Rightarrow> codec_error + fixed8" where
  "from_decimal D v =
     (if d_eq D v (d_max D) then Inr pos_infinity
      else if d_eq D v (d_min D) then Inr neg_infinity
      else rbind (ok_or (d_mul D v (d_new D fixed_scale 0)) Fixed8ArithmeticOverflow) (\<lambda>m.
           rbind (checked_i64 Fixed8OutOfRange (d_mantissa D (d_trunc D m))) (\<lambda>n.
           Inr (from_scaled n))))"

text \<open>\<open>From<Decimal>\<close>: what does not fit is infinite.\<close>

definition fixed_of_decimal :: "'d decimal_lib \<Rightarrow> 'd \<Rightarrow> fixed8" where
  "fixed_of_decimal D v =
     (case from_decimal D v of Inr x \<Rightarrow> x | Inl _ \<Rightarrow> if d_is_neg D v then neg_infinity else pos_infinity)"

definition fixed_binary :: "'d decimal_lib \<Rightarrow> ('d \<Rightarrow> 'd \<Rightarrow> codec_error + 'd) \<Rightarrow> fixed8 \<Rightarrow> fixed8 \<Rightarrow> codec_error + fixed8" where
  "fixed_binary D f x y =
     rbind (ensure_finite x) (\<lambda>_. rbind (ensure_finite y) (\<lambda>_.
     rbind (to_decimal_checked D x) (\<lambda>a. rbind (to_decimal_checked D y) (\<lambda>b.
     rbind (f a b) (from_decimal D)))))"

definition fixed_add :: "'d decimal_lib \<Rightarrow> fixed8 \<Rightarrow> fixed8 \<Rightarrow> codec_error + fixed8" where
  "fixed_add D = fixed_binary D (\<lambda>a b. ok_or (d_add D a b) Fixed8ArithmeticOverflow)"

definition fixed_sub :: "'d decimal_lib \<Rightarrow> fixed8 \<Rightarrow> fixed8 \<Rightarrow> codec_error + fixed8" where
  "fixed_sub D = fixed_binary D (\<lambda>a b. ok_or (d_sub D a b) Fixed8ArithmeticOverflow)"

definition fixed_mul :: "'d decimal_lib \<Rightarrow> fixed8 \<Rightarrow> fixed8 \<Rightarrow> codec_error + fixed8" where
  "fixed_mul D = fixed_binary D (\<lambda>a b. ok_or (d_mul D a b) Fixed8ArithmeticOverflow)"

definition fixed_div :: "'d decimal_lib \<Rightarrow> fixed8 \<Rightarrow> fixed8 \<Rightarrow> codec_error + fixed8" where
  "fixed_div D x y =
     rbind (ensure_finite x) (\<lambda>_. rbind (ensure_finite y) (\<lambda>_.
     if fixed_is_zero y then Inl Fixed8DivisionByZero
     else fixed_binary D (\<lambda>a b. ok_or (d_div D a b) Fixed8ArithmeticOverflow) x y))"

definition fixed_neg :: "'d decimal_lib \<Rightarrow> fixed8 \<Rightarrow> codec_error + fixed8" where
  "fixed_neg D x =
     rbind (to_decimal_checked D x) (\<lambda>a.
     rbind (ok_or (d_sub D (d_zero D) a) Fixed8ArithmeticOverflow) (from_decimal D))"

definition fixed_abs :: "'d decimal_lib \<Rightarrow> fixed8 \<Rightarrow> codec_error + fixed8" where
  "fixed_abs D x = rbind (to_decimal_checked D x) (\<lambda>a. from_decimal D (d_abs D a))"

definition fixed_to_increment ::
  "('d decimal_lib \<Rightarrow> 'd \<Rightarrow> 'd \<Rightarrow> codec_error + 'd) \<Rightarrow> 'd decimal_lib \<Rightarrow> fixed8 \<Rightarrow> fixed8 \<Rightarrow> codec_error + fixed8" where
  "fixed_to_increment align D x inc =
     rbind (ensure_finite x) (\<lambda>_. rbind (ensure_finite inc) (\<lambda>_.
     if fixed_is_zero inc \<or> fx_scaled inc \<le> 0 then Inl InvalidFixed8Increment
     else fixed_binary D (align D) x inc))"

definition fixed_truncate_to_increment :: "'d decimal_lib \<Rightarrow> fixed8 \<Rightarrow> fixed8 \<Rightarrow> codec_error + fixed8" where
  "fixed_truncate_to_increment = fixed_to_increment truncate_decimal_to_increment"

definition fixed_ceil_to_increment :: "'d decimal_lib \<Rightarrow> fixed8 \<Rightarrow> fixed8 \<Rightarrow> codec_error + fixed8" where
  "fixed_ceil_to_increment = fixed_to_increment ceil_decimal_to_increment"

definition infinity_text :: "fixed8 \<Rightarrow> string option" where
  "infinity_text x =
     (if fx_non_finite x = 1 then Some ''inf'' else if fx_non_finite x = - 1 then Some ''-inf'' else None)"

definition magnitude_text :: "fixed8 \<Rightarrow> string" where
  "magnitude_text x =
     (let m = nat \<bar>fx_scaled x\<bar>; k = nat fixed_scale
      in (if fx_scaled x < 0 then ''-'' else []) @ nat_text (m div k) @ ''.'' @ pad_zero 8 (nat_text (m mod k)))"

definition fixed_text :: "fixed8 \<Rightarrow> string" where
  "fixed_text x = (case infinity_text x of Some t \<Rightarrow> t | None \<Rightarrow> magnitude_text x)"

definition storage_text :: "fixed8 \<Rightarrow> string" where
  "storage_text x =
     (case infinity_text x of Some t \<Rightarrow> t | None \<Rightarrow> trim_end_char (CHR ''.'') (drop_zeros (fixed_text x)))"

text \<open>The digits of a magnitude in units of \<open>10\<^sup>-\<^sup>8\<close>; what stands behind them is cut off.\<close>

definition shifted_digits :: "string \<Rightarrow> int \<Rightarrow> codec_error + string" where
  "shifted_digits significant shift =
     (if 0 \<le> shift then
        (if 20 < length significant + nat shift then Inl Fixed8OutOfRange else Inr (significant @ zeros (nat shift)))
      else if length significant \<le> nat (- shift) then Inr []
      else Inr (take (length significant - nat (- shift)) significant))"

definition scaled_value :: "parsed_decimal \<Rightarrow> codec_error + int" where
  "scaled_value p =
     (let significant = strip_zeros (pd_digits p)
      in if significant = [] then Inr 0
         else rbind (checked_i64 Fixed8OutOfRange (8 - pd_scale p)) (\<lambda>shift.
              rbind (shifted_digits significant shift) (\<lambda>ds.
              if ds = [] then Inr 0
              else rbind (ok_or (parse_u64 ds) Fixed8OutOfRange) (\<lambda>m.
                   if pd_negative p
                   then (if 2 ^ 63 < m then Inl Fixed8OutOfRange else checked_i64 Fixed8OutOfRange (- int m))
                   else checked_i64 Fixed8OutOfRange (int m)))))"

definition parse_fixed8 :: "string \<Rightarrow> codec_error + fixed8" where
  "parse_fixed8 input =
     (if input = [] then Inr fixed_zero
      else if lower input = ''inf'' \<or> lower input = ''+inf'' then Inr pos_infinity
      else if lower input = ''-inf'' then Inr neg_infinity
      else let (numeric, percentage) = (case strip_suffix_char (CHR ''%'') input of Some v \<Rightarrow> (v, True) | None \<Rightarrow> (input, False))
           in rbind (parse_decimal numeric) (\<lambda>p.
              rbind (if percentage
                     then rbind (checked_i64 Fixed8OutOfRange (pd_scale p + 2)) (\<lambda>scale. Inr (p\<lparr>pd_scale := scale\<rparr>))
                     else Inr p) (\<lambda>p.
              map_sum id from_scaled (scaled_value p))))"

section \<open>Timestamps\<close>

text \<open>\<open>WireTimestamp::unix_millis\<close>, of the nanoseconds since the epoch.\<close>

definition unix_millis :: "int \<Rightarrow> codec_error + i64" where
  "unix_millis nanos = ok_or (try_i64 (nanos div 1000000)) TimestampOutOfRange"

section \<open>Digits\<close>

lemma zeros_digits [simp]: "all_digits (zeros n)" "digits_val (zeros n) = 0" "length (zeros n) = n"
  "zeros 0 = []" "(zeros n = []) = (n = 0)"
  by (simp_all add: zeros_def)

lemma zeros_add: "zeros (m + n) = zeros m @ zeros n"
  by (simp add: zeros_def replicate_add)

lemma set_zeros: "c \<in> set (zeros n) \<Longrightarrow> c = CHR ''0''"
  by (simp add: zeros_def)

lemma strip_zeros_decomp: "\<exists>n. s = zeros n @ strip_zeros s"
proof (induction s)
  case Nil
  show ?case by (rule exI [of _ 0]) (simp add: trim_start_char_def)
next
  case (Cons c s)
  then obtain n where n: "s = zeros n @ strip_zeros s" by blast
  show ?case
  proof (cases "c = CHR ''0''")
    case True
    then show ?thesis using n by (intro exI [of _ "Suc n"]) (simp add: trim_start_char_def zeros_def)
  next
    case False
    then show ?thesis by (intro exI [of _ 0]) (simp add: trim_start_char_def)
  qed
qed

lemma drop_zeros_decomp: "\<exists>n. s = drop_zeros s @ zeros n"
  unfolding zeros_def by (rule trim_end_char_decomp)

lemma strip_zeros_hd: "strip_zeros s \<noteq> [] \<Longrightarrow> hd (strip_zeros s) \<noteq> CHR ''0''"
  unfolding trim_start_char_def by (rule hd_dropWhile)

lemma drop_zeros_last: "drop_zeros s \<noteq> [] \<Longrightarrow> last (drop_zeros s) \<noteq> CHR ''0''"
  unfolding trim_end_char_def using hd_dropWhile [of "\<lambda>x. x = CHR ''0''" "rev s"] by (simp add: last_rev)

lemma strip_zeros_val [simp]: "digits_val (strip_zeros s) = digits_val s"
proof -
  obtain n where "s = zeros n @ strip_zeros s" using strip_zeros_decomp by blast
  then have "digits_val s = digits_val (zeros n @ strip_zeros s)" by simp
  then show ?thesis by (simp add: digits_val_append)
qed

lemma strip_zeros_digits: "all_digits s \<Longrightarrow> all_digits (strip_zeros s)"
  using strip_zeros_decomp by (metis all_digits_simps(3))

lemma drop_zeros_digits: "all_digits s \<Longrightarrow> all_digits (drop_zeros s)"
  using drop_zeros_decomp by (metis all_digits_simps(3))

lemma drop_zeros_append: "drop_zeros (s @ zeros n) = drop_zeros s"
proof (induction n)
  case (Suc n)
  have "s @ zeros (Suc n) = (s @ zeros n) @ ''0''" by (simp add: zeros_def replicate_append_same)
  then show ?case using Suc trim_end_char_snoc [of "CHR ''0''" "s @ zeros n" "CHR ''0''"] by (simp only: simp_thms if_True)
qed simp

lemma drop_zeros_id: "s = [] \<or> last s \<noteq> CHR ''0'' \<Longrightarrow> drop_zeros s = s"
  by (cases s rule: rev_cases) auto

lemma strip_zeros_id: "s = [] \<or> hd s \<noteq> CHR ''0'' \<Longrightarrow> strip_zeros s = s"
  by (cases s) (auto simp: trim_start_char_def)

text \<open>A string of digits without leading zeros is the text of its value.\<close>

lemma digit_char_val: "is_digit c \<Longrightarrow> digit_char (digit_val c) = c"
  by (simp add: digit_char_def digit_val_def is_digit_def) (simp add: byte_def)

lemma nat_text_snoc: "0 < n \<Longrightarrow> d < 10 \<Longrightarrow> nat_text (10 * n + d) = nat_text n @ [digit_char d]"
  by (subst nat_text.simps) simp

lemma digits_val_pos: "all_digits s \<Longrightarrow> s \<noteq> [] \<Longrightarrow> hd s \<noteq> CHR ''0'' \<Longrightarrow> 0 < digits_val s"
proof (induction s rule: rev_induct)
  case (snoc c s)
  show ?case
  proof (cases "s = []")
    case True
    have "digit_char (digit_val c) = c" using snoc.prems digit_char_val by simp
    moreover have "digit_char 0 = CHR ''0''" by code_simp
    ultimately have "digit_val c \<noteq> 0" using snoc.prems True by (intro notI) simp
    then show ?thesis using True digits_val_snoc [of "[]" c] by (simp only: append_Nil digits_val_Nil)
  next
    case False
    then show ?thesis using snoc by simp
  qed
qed simp

lemma significant_text: "all_digits s \<Longrightarrow> s \<noteq> [] \<Longrightarrow> hd s \<noteq> CHR ''0'' \<Longrightarrow> nat_text (digits_val s) = s"
proof (induction s rule: rev_induct)
  case (snoc c s)
  have c: "digit_char (digit_val c) = c" "digit_val c < 10"
    using snoc.prems digit_char_val by (auto simp: is_digit_def digit_val_def)
  show ?case
  proof (cases "s = []")
    case True
    then show ?thesis using c digits_val_snoc [of "[]" c] by (simp add: nat_text.simps [of "digit_val c"])
  next
    case False
    then have "nat_text (digits_val s) = s" "0 < digits_val s" using snoc digits_val_pos by auto
    then show ?thesis using nat_text_snoc c by simp
  qed
qed simp

lemma strip_zeros_Nil_iff: "all_digits s \<Longrightarrow> strip_zeros s = [] \<longleftrightarrow> digits_val s = 0"
  using digits_val_pos [OF strip_zeros_digits, of s] strip_zeros_hd [of s] strip_zeros_val [of s]
  by (metis digits_val_Nil less_numeral_extra(3))

lemma digits_val_take: "all_digits s \<Longrightarrow> k \<le> length s \<Longrightarrow> digits_val (take (length s - k) s) = digits_val s div 10 ^ k"
proof -
  assume s: "all_digits s" and k: "k \<le> length s"
  let ?a = "take (length s - k) s" and ?b = "drop (length s - k) s"
  have "digits_val s = digits_val ?a * 10 ^ length ?b + digits_val ?b"
    by (metis append_take_drop_id digits_val_append)
  moreover have "length ?b = k" using k by simp
  moreover have "all_digits ?b" using s by (metis all_digits_simps(3) append_take_drop_id)
  ultimately show ?thesis using digits_val_less [of ?b] by simp
qed

lemma parse_u64_digits: "all_digits ds \<Longrightarrow> ds \<noteq> [] \<Longrightarrow> parse_u64 ds = (if digits_val ds < 2 ^ 64 then Some (digits_val ds) else None)"
  by (cases ds) (auto simp: parse_u64_def is_digit_def byte_def)

section \<open>Scaling\<close>

text \<open>The magnitude of a decimal in units of \<open>10\<^sup>-\<^sup>8\<close>, cut off towards zero.\<close>

definition magnitude8 :: "parsed_decimal \<Rightarrow> nat" where
  "magnitude8 p =
     (if pd_scale p \<le> 8 then digits_val (pd_digits p) * 10 ^ nat (8 - pd_scale p)
      else digits_val (pd_digits p) div 10 ^ nat (pd_scale p - 8))"

definition signed8 :: "parsed_decimal \<Rightarrow> int" where
  "signed8 p = (if pd_negative p then - int (magnitude8 p) else int (magnitude8 p))"

lemma shifted_digits_val:
  assumes "all_digits s" and "s \<noteq> []" and "hd s \<noteq> CHR ''0''" and s: "digits_val s = digits_val (pd_digits p)"
  shows "case shifted_digits s (8 - pd_scale p) of
     Inl e \<Rightarrow> e = Fixed8OutOfRange \<and> 2 ^ 64 \<le> magnitude8 p
   | Inr ds \<Rightarrow> all_digits ds \<and> digits_val ds = magnitude8 p"
proof (cases "pd_scale p \<le> 8")
  case True
  let ?n = "nat (8 - pd_scale p)"
  show ?thesis
  proof (cases "20 < length s + ?n")
    case big: True
    have "10 ^ (length s - 1) \<le> digits_val s"
    proof (cases s)
      case (Cons c r)
      have "0 < digits_val [c]" using digits_val_pos [of "[c]"] assms Cons by auto
      moreover have "digits_val s = digits_val [c] * 10 ^ length r + digits_val r"
        using digits_val_append [of "[c]" r] Cons by simp
      ultimately have "1 * 10 ^ length r \<le> digits_val s" using mult_right_mono [of 1 "digits_val [c]" "10 ^ length r"] by linarith
      then show ?thesis using Cons by simp
    qed (use assms in simp)
    then have "10 ^ (length s - 1) * 10 ^ ?n \<le> magnitude8 p" using True s by (simp add: magnitude8_def)
    moreover have "(10 :: nat) ^ 20 \<le> 10 ^ (length s - 1 + ?n)" using big assms(2)
      by (intro power_increasing) (cases s; auto)+
    ultimately have "2 ^ 64 \<le> magnitude8 p" by (simp add: power_add)
    then show ?thesis using True big by (simp add: shifted_digits_def)
  next
    case False
    then show ?thesis using True assms
      by (simp add: shifted_digits_def magnitude8_def digits_val_append)
  qed
next
  case False
  let ?k = "nat (pd_scale p - 8)"
  show ?thesis
  proof (cases "length s \<le> ?k")
    case True
    have "digits_val s < 10 ^ length s" using digits_val_less assms(1) by blast
    also have "\<dots> \<le> 10 ^ ?k" using True by (intro power_increasing) auto
    finally show ?thesis using True False s by (simp add: shifted_digits_def magnitude8_def)
  next
    case short: False
    moreover have "all_digits (take (length s - ?k) s)" using assms(1) by (metis all_digits_simps(3) append_take_drop_id)
    ultimately show ?thesis using False s digits_val_take [OF assms(1), of ?k]
      by (simp add: shifted_digits_def magnitude8_def)
  qed
qed

lemma scaled_value_exact:
  assumes "all_digits (pd_digits p)" and "\<bar>pd_scale p\<bar> < 2 ^ 62"
  shows "scaled_value p = checked_i64 Fixed8OutOfRange (signed8 p)"
proof (cases "strip_zeros (pd_digits p) = []")
  case True
  then have "magnitude8 p = 0" using strip_zeros_Nil_iff [OF assms(1)] by (simp add: magnitude8_def)
  then show ?thesis using True by (simp add: scaled_value_def signed8_def checked_i64_def try_i64_def)
next
  case False
  let ?s = "strip_zeros (pd_digits p)"
  have shift: "checked_i64 Fixed8OutOfRange (8 - pd_scale p) = Inr (8 - pd_scale p)"
    using assms(2) by (simp add: checked_i64_def try_i64_Some_iff abs_less_iff)
  note val = shifted_digits_val [OF strip_zeros_digits [OF assms(1)] False strip_zeros_hd [OF False] strip_zeros_val]
  show ?thesis
  proof (cases "shifted_digits ?s (8 - pd_scale p)")
    case (Inl e)
    then show ?thesis using val False shift
      by (simp add: scaled_value_def checked_i64_def try_i64_def signed8_def)
  next
    case (Inr ds)
    then have ds: "all_digits ds" "digits_val ds = magnitude8 p" using val by simp_all
    show ?thesis
    proof (cases "ds = []")
      case True
      then show ?thesis using ds Inr False shift by (simp add: scaled_value_def checked_i64_def try_i64_def signed8_def)
    next
      case nonempty: False
      then show ?thesis using parse_u64_digits [OF ds(1)] ds Inr False shift
        by (simp add: scaled_value_def checked_i64_def try_i64_def signed8_def)
    qed
  qed
qed

section \<open>Round trips\<close>

lemma digits_chars:
  "all_digits s \<Longrightarrow> c \<in> set s \<Longrightarrow> solid c \<and> \<not> exponent_mark c \<and> c \<noteq> CHR ''.''"
  by (auto simp: all_digits_def list_all_iff is_digit_def solid_def ws1_def exponent_mark_def byte_def)

lemma parse_decimal_plain:
  assumes a: "all_digits a" "a \<noteq> []" and f: "all_digits f" "int (length f) < 2 ^ 62"
  shows "parse_decimal ((if neg then ''-'' else []) @ a @ (if f = [] then [] else ''.'' @ f)) =
    Inr \<lparr>pd_negative = neg, pd_digits = a @ f, pd_scale = int (length f)\<rparr>"
proof -
  let ?u = "a @ (if f = [] then [] else ''.'' @ f)"
  let ?t = "(if neg then ''-'' else []) @ ?u"
  have solid: "list_all solid ?t" using digits_chars [OF a(1)] digits_chars [OF f(1)]
    by (auto simp: list_all_iff solid_def ws1_def byte_def)
  obtain c r where c: "a = c # r" "is_digit c" using a by (cases a) auto
  then have "unsign ?t = (neg, ?u)" by (auto simp: unsign_def is_digit_def byte_def)
  moreover have "split_on exponent_mark ?u = [?u]"
    using digits_chars [OF a(1)] digits_chars [OF f(1)] by (intro split_on_none) (auto simp: exponent_mark_def)
  moreover have "split_on (\<lambda>c. c = CHR ''.'') ?u = (if f = [] then [a] else [a, f])"
    using digits_chars [OF a(1)] digits_chars [OF f(1)]
      split_on_none [of a "\<lambda>c. c = CHR ''.''"] split_on_none [of f "\<lambda>c. c = CHR ''.''"]
      split_on_one [of a "\<lambda>c. c = CHR ''.''" "CHR ''.''" f] by auto
  moreover have "try_i64 (int (length f)) = Some (int (length f))" "try_i64 0 = Some 0"
    using f(2) by (simp_all add: try_i64_Some_iff)
  ultimately show ?thesis using trim_solid [OF solid] a f c
    by (simp add: parse_decimal_def parse_exponent_def parse_coefficient_def max_expanded_digits_def checked_i64_def)
qed

lemma lower_digit: "is_digit c \<Longrightarrow> lower_char c = c"
  by (simp add: lower_char_def is_digit_def)

lemma parse_fixed8_numeric:
  assumes "s \<noteq> []" and "is_digit (last s)"
  shows "parse_fixed8 s = rbind (parse_decimal s) (\<lambda>p. map_sum id from_scaled (scaled_value p))"
proof -
  have "last (lower s) = last s" using assms lower_digit by (simp add: lower_def last_map)
  moreover have "\<not> is_digit (CHR ''f'')" "\<not> is_digit (CHR ''%'')" by code_simp+
  ultimately have "lower s \<noteq> ''inf''" "lower s \<noteq> ''+inf''" "lower s \<noteq> ''-inf''" "last s \<noteq> CHR ''%''"
    using assms(2) by fastforce+
  then show ?thesis using assms(1) by (simp add: parse_fixed8_def strip_suffix_char_def)
qed

definition fixed_ok :: "fixed8 \<Rightarrow> bool" where
  "fixed_ok x \<longleftrightarrow> x = neg_infinity \<or> x = pos_infinity \<or> fx_non_finite x = 0 \<and> - (2 ^ 63) \<le> fx_scaled x \<and> fx_scaled x < 2 ^ 63"

lemma parse_scaled_text:
  assumes "all_digits a" "a \<noteq> []" "all_digits f" "length f \<le> 8"
    and "digits_val (a @ f) * 10 ^ (8 - length f) = nat \<bar>n\<bar>" and "- (2 ^ 63) \<le> n" "n < 2 ^ 63"
  shows "parse_fixed8 ((if n < 0 then ''-'' else []) @ a @ (if f = [] then [] else ''.'' @ f)) = Inr (from_scaled n)"
proof -
  let ?t = "(if n < 0 then ''-'' else []) @ a @ (if f = [] then [] else ''.'' @ f)"
  let ?p = "\<lparr>pd_negative = n < 0, pd_digits = a @ f, pd_scale = int (length f)\<rparr>"
  have p: "parse_decimal ?t = Inr ?p" using assms by (intro parse_decimal_plain) auto
  have "nat (8 - int (length f)) = 8 - length f" using assms(4) by simp
  then have "magnitude8 ?p = nat \<bar>n\<bar>" using assms(4,5) by (simp add: magnitude8_def)
  then have "signed8 ?p = n" by (cases "n < 0") (simp_all add: signed8_def)
  then have "scaled_value ?p = Inr n" using assms scaled_value_exact [of ?p]
    by (simp add: checked_i64_def try_i64_Some_iff)
  moreover have "is_digit (last a)" "f \<noteq> [] \<Longrightarrow> is_digit (last f)"
    using assms(1-3) by (auto simp: all_digits_def list_all_iff)
  then have "is_digit (last ?t)" using assms(2) by simp
  ultimately show ?thesis using parse_fixed8_numeric [of ?t] p assms(2) by simp
qed

lemma magnitude_parts:
  "digits_val (nat_text (m div nat fixed_scale) @ pad_zero 8 (nat_text (m mod nat fixed_scale))) = m"
  "length (pad_zero 8 (nat_text (m mod nat fixed_scale))) = 8"
proof -
  have k: "nat fixed_scale = 10 ^ 8" by (simp add: fixed_scale_def)
  show l: "length (pad_zero 8 (nat_text (m mod nat fixed_scale))) = 8"
    by (intro length_pad_zero length_nat_text_le) (simp_all add: k)
  show "digits_val (nat_text (m div nat fixed_scale) @ pad_zero 8 (nat_text (m mod nat fixed_scale))) = m"
    using l by (simp add: digits_val_append k)
qed

lemma storage_text_finite:
  assumes "fx_non_finite x = 0"
  shows "\<exists>f. all_digits f \<and> length f \<le> 8 \<and>
    digits_val (nat_text (nat \<bar>fx_scaled x\<bar> div nat fixed_scale) @ f) * 10 ^ (8 - length f) = nat \<bar>fx_scaled x\<bar> \<and>
    storage_text x = (if fx_scaled x < 0 then ''-'' else []) @ nat_text (nat \<bar>fx_scaled x\<bar> div nat fixed_scale) @ (if f = [] then [] else ''.'' @ f)"
proof -
  let ?m = "nat \<bar>fx_scaled x\<bar>" and ?g = "pad_zero 8 (nat_text (nat \<bar>fx_scaled x\<bar> mod nat fixed_scale))"
  let ?a = "nat_text (?m div nat fixed_scale)" and ?sg = "if fx_scaled x < 0 then ''-'' else []"
  define f where "f = drop_zeros ?g"
  obtain n where g: "?g = f @ zeros n" using drop_zeros_decomp f_def by blast
  have len: "length f + n = 8" using arg_cong [OF g, of length] magnitude_parts(2) by simp
  have digits: "all_digits f" unfolding f_def by (rule drop_zeros_digits) simp
  have last_f: "f \<noteq> [] \<Longrightarrow> last f \<noteq> CHR ''0''" unfolding f_def by (rule drop_zeros_last)
  have "digits_val (?a @ f @ zeros n) = ?m" using magnitude_parts(1) [of ?m] g by simp
  then have val: "digits_val (?a @ f) * 10 ^ (8 - length f) = ?m"
    using digits_val_append [of "?a @ f" "zeros n"] by (simp flip: len)
  have "fixed_text x = (?sg @ ?a @ ''.'' @ f) @ zeros n"
    using assms g by (simp add: fixed_text_def infinity_text_def magnitude_text_def Let_def)
  moreover have "drop_zeros (?sg @ ?a @ ''.'' @ f) = ?sg @ ?a @ ''.'' @ f"
    by (rule drop_zeros_id) (use last_f in \<open>cases "f = []"; simp\<close>)
  ultimately have dz: "drop_zeros (fixed_text x) = ?sg @ ?a @ ''.'' @ f" using drop_zeros_append by metis
  have "storage_text x = ?sg @ ?a @ (if f = [] then [] else ''.'' @ f)"
  proof (cases f rule: rev_cases)
    case Nil
    obtain b c where b: "?a = b @ [c]" "c \<noteq> CHR ''.''"
      using digits_chars [OF all_digits_nat_text] by (metis last_in_set append_butlast_last_id nat_text_not_Nil)
    have "trim_end_char (CHR ''.'') ((?sg @ b) @ [c]) = (?sg @ b) @ [c]" using b(2) by (simp only: trim_end_char_snoc if_False)
    then have "trim_end_char (CHR ''.'') (?sg @ ?a) = ?sg @ ?a" by (simp only: b(1) append_assoc)
    then have "trim_end_char (CHR ''.'') ((?sg @ ?a) @ ''.'') = ?sg @ ?a"
      unfolding trim_end_char_snoc by (simp only: simp_thms if_True)
    then show ?thesis using Nil dz assms by (simp add: storage_text_def infinity_text_def)
  next
    case (snoc b c)
    then have "c \<noteq> CHR ''.''" using digits_chars [OF digits] by simp
    then have "trim_end_char (CHR ''.'') ((?sg @ ?a @ ''.'' @ b) @ [c]) = (?sg @ ?a @ ''.'' @ b) @ [c]"
      by (simp only: trim_end_char_snoc if_False)
    then show ?thesis using snoc dz assms by (simp add: storage_text_def infinity_text_def)
  qed
  then show ?thesis using digits len val by (intro exI [of _ f]) simp
qed

text \<open>C37: a fixed-point number survives its texts: the text of eight decimals and the storage text, which
drops trailing zeros, are both read back as the number, for every \<open>i64\<close> and for both infinities.\<close>

theorem fixed8_text_roundtrip:
  assumes "fixed_ok x"
  shows "parse_fixed8 (fixed_text x) = Inr x \<and> parse_fixed8 (storage_text x) = Inr x"
proof (cases "fx_non_finite x = 0")
  case False
  have "parse_fixed8 ''inf'' = Inr pos_infinity" "parse_fixed8 ''-inf'' = Inr neg_infinity"
    by (simp_all add: parse_fixed8_def lower_def lower_char_def byte_def)
  moreover have "x = neg_infinity \<or> x = pos_infinity" using assms False by (auto simp: fixed_ok_def)
  ultimately show ?thesis
    by (auto simp: fixed_text_def storage_text_def infinity_text_def neg_infinity_def pos_infinity_def)
next
  case True
  then have r: "- (2 ^ 63) \<le> fx_scaled x" "fx_scaled x < 2 ^ 63" and x: "x = from_scaled (fx_scaled x)"
    using assms by (auto simp: fixed_ok_def neg_infinity_def pos_infinity_def from_scaled_def)
  let ?m = "nat \<bar>fx_scaled x\<bar>"
  let ?a = "nat_text (?m div nat fixed_scale)" and ?g = "pad_zero 8 (nat_text (?m mod nat fixed_scale))"
  have g: "?g \<noteq> []" using magnitude_parts(2) [of ?m] by force
  have "fixed_text x = (if fx_scaled x < 0 then ''-'' else []) @ ?a @ (if ?g = [] then [] else ''.'' @ ?g)"
    using True g by (simp add: fixed_text_def infinity_text_def magnitude_text_def Let_def)
  moreover have "parse_fixed8 ((if fx_scaled x < 0 then ''-'' else []) @ ?a @ (if ?g = [] then [] else ''.'' @ ?g)) = Inr (from_scaled (fx_scaled x))"
    by (rule parse_scaled_text) (use magnitude_parts [of ?m] r in simp_all)
  ultimately have "parse_fixed8 (fixed_text x) = Inr x" using x by simp
  moreover have "parse_fixed8 (storage_text x) = Inr x"
    using storage_text_finite [OF True] parse_scaled_text [of "nat_text (?m div nat fixed_scale)" _ "fx_scaled x"] r x by force
  ultimately show ?thesis by blast
qed

theorem fixed8_text_roundtrip_witness:
  "parse_fixed8 (fixed_text (from_scaled (- (2 ^ 63)))) = Inr (from_scaled (- (2 ^ 63))) \<and>
   parse_fixed8 (storage_text (from_scaled (- (2 ^ 63)))) = Inr (from_scaled (- (2 ^ 63)))"
  by (rule fixed8_text_roundtrip) (simp add: fixed_ok_def from_scaled_def)

section \<open>Canonical text\<close>

text \<open>The number a parsed decimal denotes.\<close>

definition tens :: "int \<Rightarrow> rat" where
  "tens n = (if n \<le> 0 then 10 ^ nat (- n) else 1 / 10 ^ nat n)"

definition decimal_value :: "parsed_decimal \<Rightarrow> rat" where
  "decimal_value p = (if pd_negative p then - 1 else 1) * (of_nat (digits_val (pd_digits p)) * tens (pd_scale p))"

definition text_value :: "string \<Rightarrow> rat option" where
  "text_value s = (case parse_decimal s of Inl _ \<Rightarrow> None | Inr p \<Rightarrow> Some (decimal_value p))"

lemma tens_pos [simp]: "0 < tens n"
  by (simp add: tens_def)

lemma tens_shift: "10 ^ k * tens (n + int k) = tens n"
proof -
  have t: "tens m = 10 powi (- m)" for m
    by (simp add: tens_def power_int_def inverse_eq_divide power_one_over)
  have "(10 :: rat) ^ k * 10 powi (- (n + int k)) = 10 powi (int k + - (n + int k))"
    by (subst power_int_add) (simp_all add: power_int_of_nat)
  then show ?thesis by (simp add: t)
qed

lemma parse_decimal_digits: "parse_decimal s = Inr p \<Longrightarrow> all_digits (pd_digits p)"
  by (auto simp: parse_decimal_def parse_coefficient_def rbind_Inr_iff Let_def split: if_splits prod.splits)

text \<open>The plain form of a significant without zeros at its ends: integer and fraction.\<close>

definition plain_parts :: "string \<Rightarrow> int \<Rightarrow> string \<times> string" where
  "plain_parts d s =
     (if s \<le> 0 then (d @ zeros (nat (- s)), [])
      else if nat s < length d then (take (length d - nat s) d, drop (length d - nat s) d)
      else (''0'', zeros (nat s - length d) @ d))"

definition trimmed :: "string \<Rightarrow> bool" where
  "trimmed d \<longleftrightarrow> all_digits d \<and> d \<noteq> [] \<and> hd d \<noteq> CHR ''0'' \<and> last d \<noteq> CHR ''0''"

lemma expand_trimmed:
  assumes "trimmed d"
  shows "expand d s = fst (plain_parts d s) @ (if snd (plain_parts d s) = [] then [] else ''.'' @ snd (plain_parts d s))"
proof -
  have "drop_zeros (drop k d) = drop k d" if "k < length d" for k
    using assms that by (intro drop_zeros_id) (simp add: trimmed_def)
  moreover have "drop_zeros (zeros k @ d) = zeros k @ d" for k
    using assms by (intro drop_zeros_id) (simp add: trimmed_def)
  ultimately show ?thesis using assms
    by (auto simp: expand_def plain_parts_def trimmed_def Let_def)
qed

text \<open>Zeros at the end of a significant move the scale only.\<close>

lemma expand_zeros:
  assumes "trimmed d"
  shows "expand (d @ zeros k) (s + int k) = expand d s"
proof -
  have d: "drop_zeros d = d" using assms by (intro drop_zeros_id) (simp add: trimmed_def)
  consider (int) "s + int k \<le> 0" | (zeros) "s \<le> 0" "0 < s + int k" | (split) "0 < s" "nat s < length d" | (frac) "0 < s" "length d \<le> nat s"
    by linarith
  then show ?thesis
  proof cases
    case int
    then have "nat (- s) = k + nat (- (s + int k))" by simp
    then show ?thesis using int by (simp add: expand_def zeros_add)
  next
    case zeros
    let ?n = "nat (s + int k)"
    have n: "?n \<le> k" "k - ?n = nat (- s)" "nat (- s) \<le> k" using zeros by simp_all
    have "d \<noteq> []" using assms by (simp add: trimmed_def)
    then have "?n < length (d @ zeros k)" using n by (cases d) simp_all
    moreover have "length (d @ zeros k) - ?n = length d + nat (- s)" using n by simp
    moreover have "take (length d + nat (- s)) (d @ zeros k) = d @ zeros (nat (- s))"
      using n by (simp add: zeros_def min_def)
    moreover have "drop_zeros (drop (length d + nat (- s)) (d @ zeros k)) = []"
      using drop_zeros_append [of "[]"] by (simp add: zeros_def)
    ultimately show ?thesis using zeros by (simp add: expand_def Let_def)
  next
    case split
    let ?n = "nat (s + int k)"
    have n: "?n = nat s + k" using split by simp
    have "drop_zeros (drop (length d - nat s) d @ zeros k) = drop_zeros (drop (length d - nat s) d)"
      by (rule drop_zeros_append)
    then show ?thesis using split n by (simp add: expand_def Let_def)
  next
    case frac
    let ?n = "nat (s + int k)"
    have n: "?n = nat s + k" using frac by simp
    have "drop_zeros ((zeros (nat s - length d) @ d) @ zeros k) = drop_zeros (zeros (nat s - length d) @ d)"
      by (rule drop_zeros_append)
    then show ?thesis using frac n by (simp add: expand_def Let_def)
  qed
qed

lemma significant_cases:
  assumes "all_digits ds" and "strip_zeros ds \<noteq> []"
  obtains d k where "strip_zeros ds = d @ zeros k" and "trimmed d"
proof -
  let ?s = "strip_zeros ds"
  obtain k where k: "?s = drop_zeros ?s @ zeros k" using drop_zeros_decomp by blast
  have "drop_zeros ?s \<noteq> []"
  proof
    assume "drop_zeros ?s = []"
    then have "?s = zeros k" using k by simp
    moreover have "0 < digits_val ?s"
      using digits_val_pos [OF strip_zeros_digits [OF assms(1)] assms(2)] strip_zeros_hd [OF assms(2)] by simp
    ultimately show False by (metis less_numeral_extra(3) zeros_digits(2))
  qed
  moreover from this have "hd (drop_zeros ?s) = hd ?s" using k by (metis hd_append2)
  ultimately have "trimmed (drop_zeros ?s)"
    using strip_zeros_hd [OF assms(2)] drop_zeros_last [of ?s] drop_zeros_digits [OF strip_zeros_digits [OF assms(1)]]
    by (simp add: trimmed_def)
  then show thesis using that k by blast
qed

lemma plain_parts_facts:
  assumes "trimmed d"
  shows "all_digits (fst (plain_parts d s))" "fst (plain_parts d s) \<noteq> []" "all_digits (snd (plain_parts d s))"
    "int (length (snd (plain_parts d s))) = max 0 s"
    "strip_zeros (fst (plain_parts d s) @ snd (plain_parts d s)) = d @ zeros (nat (- s))"
proof -
  have d: "all_digits d" "d \<noteq> []" "hd d \<noteq> CHR ''0''" using assms by (simp_all add: trimmed_def)
  have "all_digits (take k d)" "all_digits (drop k d)" for k
    using d(1) by (metis all_digits_simps(3) append_take_drop_id)+
  then show "all_digits (fst (plain_parts d s))" "all_digits (snd (plain_parts d s))"
    using d by (simp_all add: plain_parts_def is_digit_def byte_def)
  show "fst (plain_parts d s) \<noteq> []" using d by (simp add: plain_parts_def)
  show "int (length (snd (plain_parts d s))) = max 0 s" by (simp add: plain_parts_def)
  have "strip_zeros d = d" using d by (intro strip_zeros_id) simp
  moreover have "strip_zeros (d @ t) = d @ t" for t using d by (intro strip_zeros_id) simp
  moreover from this have "strip_zeros (zeros k @ d) = d" for k
    by (induction k) (simp_all add: zeros_def trim_start_char_def, metis append_Nil2)
  ultimately show "strip_zeros (fst (plain_parts d s) @ snd (plain_parts d s)) = d @ zeros (nat (- s))"
    using zeros_add [of 1] by (simp add: plain_parts_def) (simp add: trim_start_char_def)
qed

text \<open>The canonical text of a normalised number is read back as that number.\<close>

lemma parse_expand:
  assumes "trimmed d" and "s < 2 ^ 62"
  shows "parse_decimal ((if neg then ''-'' else []) @ expand d s) =
    Inr \<lparr>pd_negative = neg, pd_digits = fst (plain_parts d s) @ snd (plain_parts d s), pd_scale = max 0 s\<rparr>"
proof -
  have "int (length (snd (plain_parts d s))) < 2 ^ 62" using plain_parts_facts(4) [OF assms(1)] assms(2) by simp
  then show ?thesis
    using parse_decimal_plain [of "fst (plain_parts d s)" "snd (plain_parts d s)" neg, OF plain_parts_facts(1,2,3) [OF assms(1)]]
      plain_parts_facts(4) [OF assms(1), of s]
    unfolding expand_trimmed [OF assms(1)] by simp
qed

lemma significant_tens: "strip_zeros ds = d @ zeros k \<Longrightarrow>
  of_nat (digits_val ds) * tens (s + int k) = of_nat (digits_val d) * tens s"
proof -
  assume "strip_zeros ds = d @ zeros k"
  then have "digits_val ds = digits_val d * 10 ^ k" using digits_val_append [of d "zeros k"] by (metis add.right_neutral strip_zeros_val zeros_digits(2,3))
  then have "of_nat (digits_val ds) * tens (s + int k) = of_nat (digits_val d) * (10 ^ k * tens (s + int k))" by simp
  then show ?thesis by (simp only: tens_shift)
qed

text \<open>What a text means: zero, or a sign with a significant without zeros at its ends and a scale.\<close>

definition means :: "parsed_decimal \<Rightarrow> bool \<Rightarrow> string \<Rightarrow> int \<Rightarrow> bool" where
  "means p neg d s \<longleftrightarrow> trimmed d \<and> pd_negative p = neg \<and> (\<exists>k. strip_zeros (pd_digits p) = d @ zeros k \<and> pd_scale p = s + int k)"

lemma means_value: "means p neg d s \<Longrightarrow> decimal_value p = (if neg then - 1 else 1) * (of_nat (digits_val d) * tens s)"
  using significant_tens by (fastforce simp: means_def decimal_value_def)

lemma means_expand: "means p neg d s \<Longrightarrow> expand (strip_zeros (pd_digits p)) (pd_scale p) = expand d s"
  using expand_zeros by (force simp: means_def)

lemma means_parse:
  assumes "trimmed d" and "s < 2 ^ 62"
  obtains p where "parse_decimal ((if neg then ''-'' else []) @ expand d s) = Inr p" "means p neg d s"
    "int (length (strip_zeros (pd_digits p))) + \<bar>pd_scale p\<bar> = int (length d) + \<bar>s\<bar>"
proof
  let ?p = "\<lparr>pd_negative = neg, pd_digits = fst (plain_parts d s) @ snd (plain_parts d s), pd_scale = max 0 s\<rparr>"
  show "parse_decimal ((if neg then ''-'' else []) @ expand d s) = Inr ?p" by (rule parse_expand [OF assms])
  note z = plain_parts_facts(5) [OF assms(1), of s]
  show "means ?p neg d s" unfolding means_def
    by (intro conjI assms exI [of _ "nat (- s)"]) (use z in simp_all)
  show "int (length (strip_zeros (pd_digits ?p))) + \<bar>pd_scale ?p\<bar> = int (length d) + \<bar>s\<bar>" by (simp add: z)
qed

lemma decimal_cases:
  assumes "parse_decimal a = Inr p"
  obtains (zero) "strip_zeros (pd_digits p) = []" "decimal_value p = 0"
  | (number) d s where "means p (pd_negative p) d s" "strip_zeros (pd_digits p) \<noteq> []"
proof (cases "strip_zeros (pd_digits p) = []")
  case True
  then show thesis using zero strip_zeros_Nil_iff [OF parse_decimal_digits [OF assms]] by (simp add: decimal_value_def)
next
  case False
  then obtain d k where "strip_zeros (pd_digits p) = d @ zeros k" "trimmed d"
    using significant_cases parse_decimal_digits [OF assms] by blast
  then have "means p (pd_negative p) d (pd_scale p - int k)" by (auto simp: means_def)
  then show thesis using number False by blast
qed

lemma canonical_number:
  assumes "parse_decimal a = Inr p" and "means p neg d s"
  shows "canonical_decimal a = Inr t \<longleftrightarrow>
    int (length (strip_zeros (pd_digits p))) + \<bar>pd_scale p\<bar> \<le> max_expanded_digits \<and> t = (if neg then ''-'' else []) @ expand d s"
proof -
  have "strip_zeros (pd_digits p) \<noteq> []" using assms(2) by (auto simp: means_def trimmed_def)
  then show ?thesis using assms(1) means_expand [OF assms(2)] assms(2)
    by (auto simp: canonical_decimal_def Let_def checked_i64_def rbind_Inr_iff try_i64_Some_iff max_expanded_digits_def means_def)
qed

lemma trimmed_value_pos: "trimmed d \<Longrightarrow> 0 < digits_val d"
  by (simp add: trimmed_def digits_val_pos)

lemma trimmed_last: "trimmed d \<Longrightarrow> digits_val d mod 10 \<noteq> 0"
proof -
  assume d: "trimmed d"
  then obtain b c where b: "d = b @ [c]" by (metis append_butlast_last_id trimmed_def)
  then have c: "is_digit c" "c \<noteq> CHR ''0''" using d by (auto simp: trimmed_def)
  have "digit_char 0 = CHR ''0''" by code_simp
  then have "digit_val c \<noteq> 0" using c digit_char_val [of c] by metis
  moreover have "digit_val c < 10" using c(1) by (auto simp: is_digit_def digit_val_def)
  ultimately show ?thesis by (simp add: b)
qed

lemma trimmed_inject_le:
  assumes "trimmed d" "trimmed e" and "of_nat (digits_val d) * tens s = of_nat (digits_val e) * tens u" and "s \<le> u"
  shows "d = e \<and> s = u"
proof -
  let ?n = "nat (u - s)"
  have u: "u = s + int ?n" using assms(4) by simp
  have "of_nat (digits_val d) * (10 ^ ?n * tens u) = of_nat (digits_val e) * tens u"
    using assms(3) tens_shift [of ?n s] u by simp
  then have "(of_nat (digits_val d * 10 ^ ?n) :: rat) = of_nat (digits_val e)" by (simp add: order_less_imp_not_eq2)
  then have e: "digits_val d * 10 ^ ?n = digits_val e" by (simp only: of_nat_eq_iff)
  have "?n = 0"
  proof (rule ccontr)
    assume "?n \<noteq> 0"
    then have "digits_val e mod 10 = 0" unfolding e [symmetric] by (cases ?n) simp_all
    then show False using trimmed_last [OF assms(2)] by simp
  qed
  then have "digits_val d = digits_val e" using e by simp
  then have "d = e" using significant_text assms(1,2) unfolding trimmed_def by metis
  then show ?thesis using u \<open>?n = 0\<close> by simp
qed

lemma trimmed_inject:
  assumes "trimmed d" "trimmed e" and "of_nat (digits_val d) * tens s = of_nat (digits_val e) * tens u"
  shows "d = e \<and> s = u"
  using trimmed_inject_le [OF assms] trimmed_inject_le [OF assms(2,1) assms(3) [symmetric]] by (cases "s \<le> u") auto

lemma means_nonzero: "means p neg d s \<Longrightarrow> decimal_value p \<noteq> 0 \<and> (decimal_value p < 0 \<longleftrightarrow> neg)"
proof -
  assume m: "means p neg d s"
  define x where "x = (of_nat (digits_val d) :: rat) * tens s"
  have "0 < x" using m trimmed_value_pos [of d] by (simp add: means_def x_def)
  moreover have "decimal_value p = (if neg then - x else x)" using means_value [OF m] by (simp add: x_def)
  ultimately show ?thesis by (cases neg) simp_all
qed

lemma means_unique:
  assumes "means p neg d s" "means q neg' e u" and "decimal_value p = decimal_value q"
  shows "neg = neg' \<and> d = e \<and> s = u"
proof -
  have n: "neg = neg'" using means_nonzero assms by metis
  then have "of_nat (digits_val d) * tens s = of_nat (digits_val e) * tens u"
    using means_value [OF assms(1)] means_value [OF assms(2)] assms(3) by (cases neg) simp_all
  then show ?thesis using trimmed_inject assms(1,2) n unfolding means_def by blast
qed

lemma canonical_zero: "canonical_decimal ''0'' = Inr ''0''" "text_value ''0'' = Some 0"
proof -
  have p: "parse_decimal ''0'' = Inr \<lparr>pd_negative = False, pd_digits = ''0'', pd_scale = 0\<rparr>"
    using parse_decimal_plain [of "''0''" "[]" False] by (simp add: is_digit_def byte_def)
  show "canonical_decimal ''0'' = Inr ''0''" by (simp add: canonical_decimal_def p trim_start_char_def)
  show "text_value ''0'' = Some 0" by (simp add: text_value_def p decimal_value_def digits_val_def digit_val_def byte_def)
qed

text \<open>A canonical text: zero, or the expansion of what the parsed text means.\<close>

lemma canonical_cases:
  assumes "canonical_decimal a = Inr t"
  obtains (zero) "t = ''0''" "text_value a = Some 0"
  | (number) p neg d s where "parse_decimal a = Inr p" "means p neg d s" "s < 2 ^ 62"
      "int (length d) + \<bar>s\<bar> \<le> max_expanded_digits" "t = (if neg then ''-'' else []) @ expand d s"
proof -
  obtain p where p: "parse_decimal a = Inr p" using assms by (auto simp: canonical_decimal_def rbind_Inr_iff)
  show thesis
  proof (cases rule: decimal_cases [OF p])
    case 1
    then show ?thesis using zero assms p by (simp add: canonical_decimal_def text_value_def)
  next
    case (2 d s)
    then have c: "int (length (strip_zeros (pd_digits p))) + \<bar>pd_scale p\<bar> \<le> max_expanded_digits"
      "t = (if pd_negative p then ''-'' else []) @ expand d s" using canonical_number [OF p 2(1)] assms by blast+
    obtain k where "strip_zeros (pd_digits p) = d @ zeros k" "pd_scale p = s + int k" using 2(1) by (auto simp: means_def)
    then have "int (length d) + \<bar>s\<bar> \<le> max_expanded_digits" using c(1) by simp
    moreover from this have "s < 2 ^ 62" by (simp add: max_expanded_digits_def)
    ultimately show ?thesis using number [OF p 2(1)] c(2) by blast
  qed
qed

text \<open>the canonical text of a decimal is canonical: it is its own canonical text, it denotes the same number
as the text it was made from, and two texts have the same canonical text exactly if they denote the same
number, however their digits, leading and trailing zeros, signs of zero and exponents were written.\<close>

theorem canonical_decimal_unique:
  assumes "canonical_decimal a = Inr t" and "canonical_decimal b = Inr u"
  shows "canonical_decimal t = Inr t \<and> text_value t = text_value a \<and> (t = u \<longleftrightarrow> text_value a = text_value b)"
proof -
  have keeps: "canonical_decimal t = Inr t \<and> text_value t = text_value a" if "canonical_decimal a = Inr t" for a t
    using that
  proof (cases rule: canonical_cases)
    case zero
    then show ?thesis by (simp add: canonical_zero)
  next
    case (number p neg d s)
    obtain q where q: "parse_decimal t = Inr q" "means q neg d s"
      "int (length (strip_zeros (pd_digits q))) + \<bar>pd_scale q\<bar> = int (length d) + \<bar>s\<bar>"
      using means_parse [of d s neg] number unfolding means_def by metis
    then show ?thesis using canonical_number [OF q(1,2)] number means_value by (simp add: text_value_def)
  qed
  have "t = u" if eq: "text_value a = text_value b"
    using assms(1)
  proof (cases rule: canonical_cases)
    case zero
    show ?thesis using assms(2)
    proof (cases rule: canonical_cases)
      case (number p neg d s)
      then show ?thesis using eq zero means_nonzero [OF number(2)] by (simp add: text_value_def)
    qed (use zero in simp)
  next
    case a: (number p neg d s)
    show ?thesis using assms(2)
    proof (cases rule: canonical_cases)
      case zero
      then show ?thesis using eq a means_nonzero [OF a(2)] by (simp add: text_value_def)
    next
      case b: (number q neg' e w)
      then have "decimal_value p = decimal_value q" using eq a by (simp add: text_value_def)
      then show ?thesis using means_unique [OF a(2) b(2)] a b by simp
    qed
  qed
  then show ?thesis using keeps assms by metis
qed


theorem canonical_decimal_unique_witness:
  "canonical_decimal ''-1.5'' = Inr ''-1.5'' \<and> text_value ''-1.5'' = text_value ''-01.50'' \<and>
   (''-1.5'' = ''-1.5'' \<longleftrightarrow> text_value ''-01.50'' = text_value ''-150e-2'')"
proof -
  have "canonical_decimal ''-01.50'' = Inr ''-1.5''" by code_simp
  moreover have "canonical_decimal ''-150e-2'' = Inr ''-1.5''" by code_simp
  ultimately show ?thesis by (rule canonical_decimal_unique)
qed

end
