(* ===== verification/Calendar_Dates.thy ===== *)
theory Calendar_Dates
  imports Rust_Maps
begin

text \<open>
  The trading days and sessions that \<open>crates/jftrade-calendar\<close> knows without a calendar source:
  \<open>manager_policy.rs\<close>, with the holidays of the exchanges of New York and of the mainland. The dates are those of
  the \<open>time\<close> crate, a parameter: a record of its operations, and \<open>date_laws\<close>, which states that they are the days of
  the proleptic Gregorian calendar from year -9999 to 9999. \<open>civil_dates\<close> is an implementation of that record.
\<close>

section \<open>The civil calendar\<close>

definition leap :: "int \<Rightarrow> bool" where
  "leap y \<longleftrightarrow> y mod 4 = 0 \<and> (y mod 100 \<noteq> 0 \<or> y mod 400 = 0)"

definition month_days :: "int \<Rightarrow> nat \<Rightarrow> nat" where
  "month_days y m = (if m = 2 then (if leap y then 29 else 28) else if m \<in> {4, 6, 9, 11} then 30 else 31)"

definition valid_ymd :: "int \<Rightarrow> nat \<Rightarrow> nat \<Rightarrow> bool" where
  "valid_ymd y m d \<longleftrightarrow> - 9999 \<le> y \<and> y \<le> 9999 \<and> 1 \<le> m \<and> m \<le> 12 \<and> 1 \<le> d \<and> d \<le> month_days y m"

definition year_start :: "int \<Rightarrow> int" where
  "year_start y = 365 * (y - 1) + (y - 1) div 4 - (y - 1) div 100 + (y - 1) div 400"

definition days_before :: "int \<Rightarrow> nat \<Rightarrow> int" where
  "days_before y m =
     (if m \<le> 1 then 0 else if m = 2 then 31 else if m = 3 then 59 else if m = 4 then 90 else if m = 5 then 120
      else if m = 6 then 151 else if m = 7 then 181 else if m = 8 then 212 else if m = 9 then 243
      else if m = 10 then 273 else if m = 11 then 304 else 334) + (if 2 < m \<and> leap y then 1 else 0)"

text \<open>The number of a day: day 1 is the first of January of year 1, a Monday.\<close>

definition day_number :: "int \<Rightarrow> nat \<Rightarrow> nat \<Rightarrow> int" where
  "day_number y m d = year_start y + days_before y m + int d"

record 'd date_lib =
  dl_ok :: "'d \<Rightarrow> bool" \<comment> \<open>the values of the type \<open>Date\<close>\<close>
  dl_from :: "int \<Rightarrow> nat \<Rightarrow> nat \<Rightarrow> 'd option" \<comment> \<open>\<open>Date::from_calendar_date\<close>\<close>
  dl_year :: "'d \<Rightarrow> int"
  dl_month :: "'d \<Rightarrow> nat"
  dl_day :: "'d \<Rightarrow> nat"
  dl_weekday :: "'d \<Rightarrow> nat" \<comment> \<open>\<open>number_from_monday\<close>: 1 is Monday, 7 is Sunday\<close>
  dl_add :: "'d \<Rightarrow> int \<Rightarrow> 'd option" \<comment> \<open>\<open>checked_add\<close> of a number of days\<close>

abbreviation number :: "('d, 'x) date_lib_scheme \<Rightarrow> 'd \<Rightarrow> int" where
  "number L x \<equiv> day_number (dl_year L x) (dl_month L x) (dl_day L x)"

definition date_laws :: "('d, 'x) date_lib_scheme \<Rightarrow> bool" where
  "date_laws L \<longleftrightarrow>
     (\<forall>y m d. case dl_from L y m d of
        None \<Rightarrow> \<not> valid_ymd y m d
      | Some x \<Rightarrow> valid_ymd y m d \<and> dl_ok L x \<and> dl_year L x = y \<and> dl_month L x = m \<and> dl_day L x = d) \<and>
     (\<forall>x. dl_ok L x \<longrightarrow> dl_from L (dl_year L x) (dl_month L x) (dl_day L x) = Some x) \<and>
     (\<forall>x. dl_ok L x \<longrightarrow> int (dl_weekday L x) = (number L x - 1) mod 7 + 1) \<and>
     (\<forall>x n. dl_ok L x \<longrightarrow> (case dl_add L x n of
        None \<Rightarrow> number L x + n < day_number (- 9999) 1 1 \<or> day_number 9999 12 31 < number L x + n
      | Some y \<Rightarrow> dl_ok L y \<and> number L y = number L x + n))"

section \<open>Sessions\<close>

record calendar_window =
  sw_kind :: string
  sw_start :: int
  sw_end :: int

definition trading_window :: "string \<Rightarrow> int \<Rightarrow> int \<Rightarrow> calendar_window" where
  "trading_window kind start_minute end_minute = \<lparr>sw_kind = kind, sw_start = start_minute, sw_end = end_minute\<rparr>"

definition mainland :: "string \<Rightarrow> bool" where
  "mainland market \<longleftrightarrow> market = ''CN'' \<or> market = ''SH'' \<or> market = ''SZ''"

definition builtin_sessions :: "string \<Rightarrow> calendar_window list" where
  "builtin_sessions market =
     (if market = ''US'' then
        [trading_window ''overnight'' 0 240, trading_window ''pre'' 240 570, trading_window ''regular'' 570 960, trading_window ''after'' 960 1200]
      else if market = ''HK'' then [trading_window ''regular'' 570 720, trading_window ''regular'' 780 960]
      else if mainland market then [trading_window ''regular'' 570 690, trading_window ''regular'' 780 900]
      else [trading_window ''regular'' 570 960])"

section \<open>Holidays of New York\<close>

definition is_weekend :: "nat \<Rightarrow> bool" where
  "is_weekend w \<longleftrightarrow> w = 6 \<or> w = 7"

definition observed_fixed_holiday :: "('d, 'x) date_lib_scheme \<Rightarrow> int \<Rightarrow> nat \<Rightarrow> nat \<Rightarrow> 'd option" where
  "observed_fixed_holiday L y m d =
     Option.bind (dl_from L y m d) (\<lambda>base.
     dl_add L base (if dl_weekday L base = 6 then - 1 else if dl_weekday L base = 7 then 1 else 0))"

definition nth_weekday_of_month :: "('d, 'x) date_lib_scheme \<Rightarrow> int \<Rightarrow> nat \<Rightarrow> nat \<Rightarrow> nat \<Rightarrow> 'd option" where
  "nth_weekday_of_month L y m w k =
     Option.bind (dl_from L y m 1) (\<lambda>first.
     let delta = (int w - int (dl_weekday L first) + 7) mod 7
     in dl_add L first (delta + 7 * int (k - 1)))"

definition last_weekday_of_month :: "('d, 'x) date_lib_scheme \<Rightarrow> int \<Rightarrow> nat \<Rightarrow> nat \<Rightarrow> 'd option" where
  "last_weekday_of_month L y m w =
     Option.bind (if m = 12 then dl_from L (y + 1) 1 1 else dl_from L y (m + 1) 1) (\<lambda>next_month.
     Option.bind (dl_add L next_month (- 1)) (\<lambda>last.
     let delta = (int (dl_weekday L last) - int w + 7) mod 7
     in dl_add L last (- delta)))"

text \<open>The month and the day of Easter. All divisions have operands that are not negative.\<close>

definition easter_parts :: "int \<Rightarrow> int \<times> int" where
  "easter_parts year =
     (let a = year mod 19; b = year div 100; c = year mod 100; d = b div 4; e = b mod 4;
          f = (b + 8) div 25; g = (b - f + 1) div 3; h = (19 * a + b - d - g + 15) mod 30;
          i = c div 4; k = c mod 4; l = (32 + 2 * e + 2 * i - h - k) mod 7; m = (a + 11 * h + 22 * l) div 451
      in ((h + l - 7 * m + 114) div 31, (h + l - 7 * m + 114) mod 31 + 1))"

definition easter_sunday :: "('d, 'x) date_lib_scheme \<Rightarrow> int \<Rightarrow> 'd option" where
  "easter_sunday L year =
     (if year \<le> 0 then None
      else let (month, day) = easter_parts year
           in if 1 \<le> month \<and> month \<le> 12 \<and> 0 \<le> day \<and> day < 256 then dl_from L year (nat month) (nat day) else None)"

definition good_friday :: "('d, 'x) date_lib_scheme \<Rightarrow> int \<Rightarrow> 'd option" where
  "good_friday L year = Option.bind (easter_sunday L year) (\<lambda>easter. dl_add L easter (- 2))"

definition date_for :: "('d, 'x) date_lib_scheme \<Rightarrow> int \<Rightarrow> string \<Rightarrow> 'd option" where
  "date_for L year reason =
     (if reason = ''new_years_day'' then dl_from L year 1 1
      else if reason = ''juneteenth'' then dl_from L year 6 19
      else if reason = ''independence_day'' then dl_from L year 7 4
      else if reason = ''christmas_day'' then dl_from L year 12 25
      else None)"

definition us_candidates :: "('d, 'x) date_lib_scheme \<Rightarrow> int \<Rightarrow> (string \<times> 'd option \<times> bool) list" where
  "us_candidates L y =
     [(''new_years_day'', observed_fixed_holiday L y 1 1, True),
      (''martin_luther_king_jr_day'', nth_weekday_of_month L y 1 1 3, False),
      (''presidents_day'', nth_weekday_of_month L y 2 1 3, False),
      (''good_friday'', good_friday L y, False),
      (''memorial_day'', last_weekday_of_month L y 5 1, False),
      (''juneteenth'', observed_fixed_holiday L y 6 19, True),
      (''independence_day'', observed_fixed_holiday L y 7 4, True),
      (''labor_day'', nth_weekday_of_month L y 9 1 1, False),
      (''thanksgiving'', nth_weekday_of_month L y 11 4 4, False),
      (''christmas_day'', observed_fixed_holiday L y 12 25, True)]"

definition us_holiday_reason :: "('d, 'x) date_lib_scheme \<Rightarrow> 'd \<Rightarrow> (string \<times> bool) option" where
  "us_holiday_reason L day =
     map_option (\<lambda>(reason, found, observed_if_shifted). (reason, found \<noteq> date_for L (dl_year L day) reason \<and> observed_if_shifted))
       (find (\<lambda>(_, found, _). found = Some day) (us_candidates L (dl_year L day)))"

definition independence_day_early_close :: "('d, 'x) date_lib_scheme \<Rightarrow> 'd \<Rightarrow> bool" where
  "independence_day_early_close L day =
     (case dl_from L (dl_year L day) 7 4 of
        None \<Rightarrow> False
      | Some fourth \<Rightarrow>
          dl_add L fourth (if is_weekend (dl_weekday L fourth) then - 2 else - 1) = Some day \<and>
          \<not> is_weekend (dl_weekday L day))"

definition is_black_friday :: "('d, 'x) date_lib_scheme \<Rightarrow> 'd \<Rightarrow> bool" where
  "is_black_friday L day \<longleftrightarrow>
     Option.bind (nth_weekday_of_month L (dl_year L day) 11 4 4) (\<lambda>x. dl_add L x 1) = Some day"

definition is_christmas_eve_early_close :: "('d, 'x) date_lib_scheme \<Rightarrow> 'd \<Rightarrow> bool" where
  "is_christmas_eve_early_close L day \<longleftrightarrow>
     dl_month L day = 12 \<and> dl_day L day = 24 \<and> \<not> is_weekend (dl_weekday L day) \<and>
     observed_fixed_holiday L (dl_year L day) 12 25 \<noteq> Some day"

definition us_early_close_reason :: "('d, 'x) date_lib_scheme \<Rightarrow> 'd \<Rightarrow> string option" where
  "us_early_close_reason L day =
     (if independence_day_early_close L day then Some ''independence_day_early_close''
      else if is_black_friday L day then Some ''black_friday_early_close''
      else if is_christmas_eve_early_close L day then Some ''christmas_eve_early_close''
      else None)"

definition us_schedule_sessions :: "('d, 'x) date_lib_scheme \<Rightarrow> 'd \<Rightarrow> calendar_window list" where
  "us_schedule_sessions L day =
     (let regular_end = (if us_early_close_reason L day \<noteq> None then 780 else 960);
          after_end = (if regular_end = 780 then 1080 else 1200)
      in [trading_window ''overnight'' 0 240, trading_window ''pre'' 240 570, trading_window ''regular'' 570 regular_end,
          trading_window ''after'' regular_end after_end])"

type_synonym special_day = "string \<times> string \<times> bool \<times> calendar_window list option"

definition us_holiday_or_early_close :: "('d, 'x) date_lib_scheme \<Rightarrow> 'd \<Rightarrow> special_day option" where
  "us_holiday_or_early_close L day =
     (if observed_fixed_holiday L (dl_year L day + 1) 1 1 = Some day
      then Some (''closed'', ''new_years_day_observed'', True, None)
      else case us_holiday_reason L day of
             Some (reason, observed) \<Rightarrow> Some (''closed'', reason, observed, None)
           | None \<Rightarrow> map_option (\<lambda>reason. (''early_close'', reason, False, Some (us_schedule_sessions L day)))
                      (us_early_close_reason L day))"

section \<open>Holidays of the mainland\<close>

definition among :: "int \<times> nat \<times> nat \<Rightarrow> (int \<times> nat \<times> nat \<times> nat) list \<Rightarrow> bool" where
  "among key ranges = (case key of (y, m, d) \<Rightarrow> list_ex (\<lambda>(y', m', a, b). y = y' \<and> m = m' \<and> a \<le> d \<and> d \<le> b) ranges)"

definition mainland_holiday_reason :: "('d, 'x) date_lib_scheme \<Rightarrow> 'd \<Rightarrow> string option" where
  "mainland_holiday_reason L day =
     (let key = (dl_year L day, dl_month L day, dl_day L day)
      in if among key [(2025, 1, 1, 1), (2026, 1, 1, 1), (2026, 1, 2, 2), (2027, 1, 1, 1)] then Some ''new_year_holiday''
         else if among key [(2025, 1, 28, 31), (2025, 2, 3, 4), (2026, 2, 16, 20), (2026, 2, 23, 23), (2027, 2, 5, 5), (2027, 2, 8, 12)]
         then Some ''spring_festival_holiday''
         else if among key [(2025, 4, 4, 4), (2026, 4, 6, 6), (2027, 4, 5, 5)] then Some ''qingming_festival_holiday''
         else if among key [(2025, 5, 1, 2), (2025, 5, 5, 5), (2026, 5, 1, 1), (2026, 5, 4, 5), (2027, 5, 3, 5)]
         then Some ''labour_day_holiday''
         else if among key [(2025, 6, 2, 2), (2026, 6, 19, 19), (2027, 6, 9, 9)] then Some ''dragon_boat_festival_holiday''
         else if among key [(2026, 9, 25, 25), (2027, 9, 15, 15)] then Some ''mid_autumn_festival_holiday''
         else if among key [(2025, 10, 1, 3), (2025, 10, 6, 8), (2026, 10, 1, 2), (2026, 10, 5, 7), (2027, 10, 1, 1), (2027, 10, 4, 7)]
         then Some ''national_day_holiday''
         else None)"

section \<open>The schedule of a day\<close>

text \<open>Status, reason, whether the holiday is observed on another day, and the sessions.\<close>

type_synonym day_rules = "string \<times> string \<times> bool \<times> calendar_window list"

definition builtin_rules :: "('d, 'x) date_lib_scheme \<Rightarrow> string \<Rightarrow> 'd \<Rightarrow> day_rules" where
  "builtin_rules L market day =
     (if is_weekend (dl_weekday L day) then (''closed'', ''weekend'', False, [])
      else if market = ''US'' then
        (case us_holiday_or_early_close L day of
           None \<Rightarrow> (''open'', [], False, us_schedule_sessions L day)
         | Some (status, reason, observed, sessions) \<Rightarrow>
             (status, reason, observed, (case sessions of None \<Rightarrow> [] | Some s \<Rightarrow> s)))
      else if mainland market then
        (case mainland_holiday_reason L day of
           None \<Rightarrow> (''open'', [], False, builtin_sessions market)
         | Some reason \<Rightarrow> (''closed'', reason, False, []))
      else (''open'', [], False, builtin_sessions market))"


section \<open>Days and their numbers\<close>

lemma month_days_range: "28 \<le> month_days y m" "month_days y m \<le> 31"
  by (auto simp: month_days_def)

lemma leap_div: "y div 4 - y div 100 + y div 400 - ((y - 1) div 4 - (y - 1) div 100 + (y - 1) div 400) = (if leap y then 1 else 0)"
proof -
  have step: "y div k - (y - 1) div k = (if y mod k = 0 then 1 else 0)" if "1 < k" for k :: int
  proof -
    have y: "y = k * (y div k) + y mod k" "0 \<le> y mod k" "y mod k < k" using that by simp_all
    show ?thesis
    proof (cases "y mod k = 0")
      case True
      then have "(y - 1) div k = y div k - 1"
        using y(1) that by (intro int_div_pos_eq [of _ _ _ "k - 1"]) (simp_all add: algebra_simps)
      with True show ?thesis by simp
    next
      case False
      then have "(y - 1) div k = y div k" using y by (intro int_div_pos_eq [of _ _ _ "y mod k - 1"]) linarith+
      with False show ?thesis by simp
    qed
  qed
  have d: "y mod 400 = 0 \<Longrightarrow> y mod 100 = 0" "y mod 100 = 0 \<Longrightarrow> y mod 4 = 0"
    using mod_mod_cancel [of 100 400 y] mod_mod_cancel [of 4 100 y] by simp_all
  have "y div 4 - y div 100 + y div 400 - ((y - 1) div 4 - (y - 1) div 100 + (y - 1) div 400) =
    (y div 4 - (y - 1) div 4) - (y div 100 - (y - 1) div 100) + (y div 400 - (y - 1) div 400)" by simp
  also have "\<dots> = (if y mod 4 = 0 then 1 else 0) - (if y mod 100 = 0 then 1 else 0) + (if y mod 400 = 0 then 1 else 0)"
    by (simp only: step [of 4, simplified] step [of 100, simplified] step [of 400, simplified])
  also have "\<dots> = (if leap y then 1 else 0)" 
    by (cases "y mod 400 = 0"; cases "y mod 100 = 0"; cases "y mod 4 = 0"; simp only: leap_def d; simp)
  finally show ?thesis .
qed

lemma year_start_Suc: "year_start (y + 1) = year_start y + 365 + (if leap y then 1 else 0)"
  using leap_div [of y] by (simp add: year_start_def)

lemma year_start_mono: "a \<le> b \<Longrightarrow> year_start a \<le> year_start b"
  by (induction b rule: int_ge_induct) (auto simp: year_start_Suc)

lemma days_before_end:
  assumes "1 \<le> m" "m \<le> 12"
  shows "days_before y m + int (month_days y m) \<le> 365 + (if leap y then 1 else 0)" and "0 \<le> days_before y m"
    and "m < n \<Longrightarrow> n \<le> 12 \<Longrightarrow> days_before y m + int (month_days y m) \<le> days_before y n"
proof -
  have "m \<in> {1..12}" using assms by simp
  also have "{1..12} = {1, 2, 3, 4, 5, 6, 7, 8, 9, 10, 11, 12 :: nat}"
    by (simp add: atLeastAtMost_insertL [symmetric] numeral_eq_Suc atLeastAtMostSuc_conv insert_commute)
  finally show "days_before y m + int (month_days y m) \<le> 365 + (if leap y then 1 else 0)" and "0 \<le> days_before y m"
    and "m < n \<Longrightarrow> n \<le> 12 \<Longrightarrow> days_before y m + int (month_days y m) \<le> days_before y n"
    by (elim insertE; simp add: days_before_def month_days_def)+
qed

lemma number_in_year:
  assumes "valid_ymd y m d"
  shows "year_start y < day_number y m d" and "day_number y m d \<le> year_start (y + 1)"
proof -
  have "1 \<le> m" "m \<le> 12" "1 \<le> d" "d \<le> month_days y m" using assms by (simp_all add: valid_ymd_def)
  then show "year_start y < day_number y m d" and "day_number y m d \<le> year_start (y + 1)"
    using days_before_end(1,2) [of m y] by (simp_all add: day_number_def year_start_Suc)
qed

lemma day_number_inject:
  assumes "valid_ymd y m d" "valid_ymd y' m' d'" and "day_number y m d = day_number y' m' d'"
  shows "y = y' \<and> m = m' \<and> d = d'"
proof -
  have le: "b \<le> a" if "valid_ymd a m d" "valid_ymd b m' d'" "day_number a m d = day_number b m' d'" for a b m m' d d'
  proof (rule ccontr)
    assume "\<not> b \<le> a"
    then have "year_start (a + 1) \<le> year_start b" by (intro year_start_mono) simp
    then show False using number_in_year [OF that(1)] number_in_year [OF that(2)] that(3) by simp
  qed
  have y: "y = y'" using le [OF assms] le [OF assms(2,1) assms(3) [symmetric]] by simp
  have m: "n \<le> m" if "valid_ymd y m d" "valid_ymd y n e" "day_number y m d = day_number y n e" for m n d e
  proof (rule ccontr)
    assume "\<not> n \<le> m"
    then have "days_before y m + int (month_days y m) \<le> days_before y n"
      using that by (intro days_before_end(3)) (auto simp: valid_ymd_def)
    then show False using that by (auto simp: valid_ymd_def day_number_def)
  qed
  have "m = m'" using m [of m d m' d'] m [of m' d' m d] assms y by simp
  then show ?thesis using assms(3) y by (simp add: day_number_def)
qed

lemma day_number_bounds:
  assumes "valid_ymd y m d"
  shows "day_number (- 9999) 1 1 \<le> day_number y m d \<and> day_number y m d \<le> day_number 9999 12 31"
proof -
  have y: "- 9999 \<le> y" "y \<le> 9999" using assms by (simp_all add: valid_ymd_def)
  have "day_number (- 9999) 1 1 = year_start (- 9999) + 1" by (simp add: day_number_def days_before_def)
  also have "year_start (- 9999) \<le> year_start y" using y(1) by (rule year_start_mono)
  finally have low: "day_number (- 9999) 1 1 \<le> day_number y m d" using number_in_year(1) [OF assms] by simp
  have "year_start (y + 1) \<le> year_start 10000" using y by (intro year_start_mono) simp
  also have "year_start 10000 = day_number 9999 12 31" by code_simp
  finally show ?thesis using low number_in_year(2) [OF assms] by simp
qed

section \<open>The date library\<close>

lemma dl_from_laws:
  assumes "date_laws L"
  shows "dl_from L y m d = None \<Longrightarrow> \<not> valid_ymd y m d"
    and "dl_from L y m d = Some x \<Longrightarrow> valid_ymd y m d \<and> dl_ok L x \<and> dl_year L x = y \<and> dl_month L x = m \<and> dl_day L x = d"
    and "dl_ok L x \<Longrightarrow> dl_from L (dl_year L x) (dl_month L x) (dl_day L x) = Some x"
proof -
  have l: "case dl_from L y m d of None \<Rightarrow> \<not> valid_ymd y m d
    | Some x \<Rightarrow> valid_ymd y m d \<and> dl_ok L x \<and> dl_year L x = y \<and> dl_month L x = m \<and> dl_day L x = d"
    using assms by (simp add: date_laws_def)
  show "\<not> valid_ymd y m d" if "dl_from L y m d = None" using l that by simp
  show "valid_ymd y m d \<and> dl_ok L x \<and> dl_year L x = y \<and> dl_month L x = m \<and> dl_day L x = d" if "dl_from L y m d = Some x"
    using l that by simp
  show "dl_from L (dl_year L x) (dl_month L x) (dl_day L x) = Some x" if "dl_ok L x" using assms that by (simp add: date_laws_def)
qed

lemma dl_add_laws:
  assumes "date_laws L" "dl_ok L x"
  shows "dl_add L x n = None \<Longrightarrow> number L x + n < day_number (- 9999) 1 1 \<or> day_number 9999 12 31 < number L x + n"
    and "dl_add L x n = Some y \<Longrightarrow> dl_ok L y \<and> number L y = number L x + n"
proof -
  have l: "case dl_add L x n of None \<Rightarrow> number L x + n < day_number (- 9999) 1 1 \<or> day_number 9999 12 31 < number L x + n
    | Some y \<Rightarrow> dl_ok L y \<and> number L y = number L x + n"
    using assms by (simp add: date_laws_def)
  show "number L x + n < day_number (- 9999) 1 1 \<or> day_number 9999 12 31 < number L x + n" if "dl_add L x n = None"
    using l that by simp
  show "dl_ok L y \<and> number L y = number L x + n" if "dl_add L x n = Some y" using l that by simp
qed

lemma dl_from_Some_iff:
  assumes "date_laws L"
  shows "dl_from L y m d = Some x \<longleftrightarrow> valid_ymd y m d \<and> dl_ok L x \<and> dl_year L x = y \<and> dl_month L x = m \<and> dl_day L x = d"
  using dl_from_laws [OF assms] by blast

lemma dl_from_valid: "date_laws L \<Longrightarrow> valid_ymd y m d \<Longrightarrow> \<exists>x. dl_from L y m d = Some x"
  using dl_from_laws(1) by (metis not_None_eq)

lemma dl_ok_valid: "date_laws L \<Longrightarrow> dl_ok L x \<Longrightarrow> valid_ymd (dl_year L x) (dl_month L x) (dl_day L x)"
  by (rule conjunct1 [OF dl_from_laws(2) [OF _ dl_from_laws(3)]])

lemma number_inject:
  assumes "date_laws L" "dl_ok L x" "dl_ok L y"
  shows "number L x = number L y \<longleftrightarrow> x = y"
proof
  assume "number L x = number L y"
  then have "dl_year L x = dl_year L y \<and> dl_month L x = dl_month L y \<and> dl_day L x = dl_day L y"
    by (rule day_number_inject [OF dl_ok_valid [OF assms(1,2)] dl_ok_valid [OF assms(1,3)]])
  then have "dl_from L (dl_year L x) (dl_month L x) (dl_day L x) = dl_from L (dl_year L y) (dl_month L y) (dl_day L y)" by simp
  then show "x = y" unfolding dl_from_laws(3) [OF assms(1,2)] dl_from_laws(3) [OF assms(1,3)] by (rule option.inject [THEN iffD1])
qed simp

lemma weekday_number: "date_laws L \<Longrightarrow> dl_ok L x \<Longrightarrow> int (dl_weekday L x) = (number L x - 1) mod 7 + 1"
  by (simp add: date_laws_def)

lemma dl_add_Some_iff:
  assumes "date_laws L" "dl_ok L x" "dl_ok L y"
  shows "dl_add L x n = Some y \<longleftrightarrow> number L y = number L x + n"
proof (cases "dl_add L x n")
  case None
  then show ?thesis using dl_add_laws(1) [OF assms(1,2) None] day_number_bounds [OF dl_ok_valid [OF assms(1,3)]] by auto
next
  case (Some z)
  then show ?thesis using dl_add_laws(2) [OF assms(1,2) Some] number_inject [OF assms(1) _ assms(3), of z] by auto
qed

lemma dl_add_ok: "date_laws L \<Longrightarrow> dl_ok L x \<Longrightarrow> dl_add L x n = Some y \<Longrightarrow> dl_ok L y"
  by (rule conjunct1 [OF dl_add_laws(2)])


section \<open>What the rules of a holiday mean\<close>

text \<open>The day of the week of a day number, counted from Monday.\<close>

definition week_day :: "int \<Rightarrow> int" where
  "week_day n = (n - 1) mod 7 + 1"

lemma week_day_range: "1 \<le> week_day n" "week_day n \<le> 7"
  using pos_mod_bound [of 7 "n - 1"] by (simp_all add: week_day_def)

lemma weekday_week_day: "date_laws L \<Longrightarrow> dl_ok L x \<Longrightarrow> int (dl_weekday L x) = week_day (number L x)"
  by (simp add: weekday_number week_day_def)

lemma week_day_pred: "week_day (n - 1) = (if week_day n = 1 then 7 else week_day n - 1)"
proof -
  define q r where "q = (n - 1) div 7" and "r = (n - 1) mod 7"
  have n: "n - 1 = 7 * q + r" "0 \<le> r" "r < 7" by (simp_all add: q_def r_def)
  show ?thesis
  proof (cases "r = 0")
    case True
    then have "(n - 1 - 1) mod 7 = 6" using n by (intro int_mod_pos_eq [of _ _ "q - 1"]) simp_all
    with True show ?thesis by (simp add: week_day_def r_def)
  next
    case False
    then have "(n - 1 - 1) mod 7 = r - 1" using n by (intro int_mod_pos_eq [of _ _ q]) simp_all
    with False show ?thesis by (simp add: week_day_def r_def)
  qed
qed

lemma week_day_shift:
  "week_day n = 6 \<longleftrightarrow> week_day (n - 1) = 5" "week_day n = 7 \<longleftrightarrow> week_day (n + 1) = 1"
  using week_day_pred [of n] week_day_pred [of "n + 1"] week_day_range [of "n + 1"] week_day_range [of n] by (auto split: if_splits)

lemma number_is:
  assumes "date_laws L" "dl_ok L x" "valid_ymd y m d"
  shows "number L x = day_number y m d \<longleftrightarrow> dl_year L x = y \<and> dl_month L x = m \<and> dl_day L x = d"
  using day_number_inject [OF dl_ok_valid [OF assms(1,2)] assms(3)] by auto

lemma dl_from_obtain:
  assumes "date_laws L" "valid_ymd y m d"
  obtains x where "dl_from L y m d = Some x" "dl_ok L x" "number L x = day_number y m d"
proof -
  obtain x where x: "dl_from L y m d = Some x" using dl_from_valid [OF assms] by blast
  then show thesis using that dl_from_laws(2) [OF assms(1) x] by blast
qed

lemma observed_number:
  assumes "date_laws L" "dl_ok L day" "valid_ymd y m d"
  shows "observed_fixed_holiday L y m d = Some day \<longleftrightarrow>
    number L day = day_number y m d \<and> week_day (number L day) \<le> 5 \<or>
    number L day = day_number y m d - 1 \<and> week_day (number L day) = 5 \<or>
    number L day = day_number y m d + 1 \<and> week_day (number L day) = 1"
proof -
  obtain x where x: "dl_from L y m d = Some x" "dl_ok L x" "number L x = day_number y m d"
    using dl_from_obtain [OF assms(1,3)] .
  let ?n = "day_number y m d"
  have w: "dl_weekday L x = 6 \<longleftrightarrow> week_day ?n = 6" "dl_weekday L x = 7 \<longleftrightarrow> week_day ?n = 7"
    using weekday_week_day [OF assms(1) x(2)] x(3) by auto
  have "observed_fixed_holiday L y m d = Some day \<longleftrightarrow>
    number L day = ?n + (if week_day ?n = 6 then - 1 else if week_day ?n = 7 then 1 else 0)"
    using dl_add_Some_iff [OF assms(1) x(2) assms(2)] x(1,3) w by (simp add: observed_fixed_holiday_def)
  then show ?thesis using week_day_range [of ?n] week_day_shift [of ?n] by auto
qed

lemma mod_seven_cancel:
  assumes "0 \<le> r" "r < 7" "0 \<le> e" "e < (7 :: int)"
  shows "(a + r) mod 7 = (a + e) mod 7 \<longleftrightarrow> r = e"
proof
  assume "(a + r) mod 7 = (a + e) mod 7"
  then have "(r - e) mod 7 = 0" using mod_eq_dvd_iff [of "a + r" 7 "a + e"] by (simp add: algebra_simps dvd_eq_mod_eq_0)
  then show "r = e" using assms by presburger
qed simp

lemma mod_seven_zero:
  assumes "0 \<le> r" "r < 7" "0 \<le> e" "e < (7 :: int)"
  shows "(e - r) mod 7 = 0 \<longleftrightarrow> r = e"
  using mod_seven_cancel [OF assms(3,4,1,2), of "- r"] by auto

lemma nth_weekday_number:
  assumes "date_laws L" "dl_ok L day" "valid_ymd y m (7 * k)" "1 \<le> w" "w \<le> 7" "0 < k"
  shows "nth_weekday_of_month L y m w k = Some day \<longleftrightarrow>
    dl_year L day = y \<and> dl_month L day = m \<and> dl_weekday L day = w \<and> 7 * (k - 1) < dl_day L day \<and> dl_day L day \<le> 7 * k"
proof -
  have v: "valid_ymd y m d" if "1 \<le> d" "d \<le> 7 * k" for d using assms(3) that by (auto simp: valid_ymd_def)
  obtain x where x: "dl_from L y m 1 = Some x" "dl_ok L x" "number L x = day_number y m 1"
    using dl_from_obtain [OF assms(1) v [of 1]] assms(6) by auto
  let ?n = "day_number y m 1"
  define e where "e = (int w - week_day ?n + 7) mod 7"
  have e: "0 \<le> e" "e < 7" by (simp_all add: e_def)
  have at: "nth_weekday_of_month L y m w k = Some day \<longleftrightarrow> number L day = ?n + (e + 7 * int (k - 1))"
    using dl_add_Some_iff [OF assms(1) x(2) assms(2)] x(1,3) weekday_week_day [OF assms(1) x(2)]
    by (simp add: nth_weekday_of_month_def Let_def e_def)
  let ?d = "1 + nat e + 7 * (k - 1)"
  have "?n + (e + 7 * int (k - 1)) = day_number y m ?d" using e by (simp add: day_number_def)
  then have on: "nth_weekday_of_month L y m w k = Some day \<longleftrightarrow> dl_year L day = y \<and> dl_month L day = m \<and> dl_day L day = ?d"
    using at number_is [OF assms(1,2) v [of ?d]] e assms(6) by (cases k) auto
  have wd: "dl_weekday L day = w \<longleftrightarrow> dl_day L day = ?d"
    if "dl_year L day = y" "dl_month L day = m" "7 * (k - 1) < dl_day L day" "dl_day L day \<le> 7 * k"
  proof -
    define r where "r = dl_day L day - 7 * (k - 1) - 1"
    have r: "dl_day L day = 1 + r + 7 * (k - 1)" "r < 7" using that(3,4) assms(6) unfolding r_def by (cases k; simp)+
    have "number L day = ?n + (int r + 7 * int (k - 1))" using that(1,2) r by (simp add: day_number_def)
    then have "int (dl_weekday L day) = (?n - 1 + int r + 7 * int (k - 1)) mod 7 + 1"
      using weekday_number [OF assms(1,2)] by (simp add: algebra_simps)
    then have "int (dl_weekday L day) = (?n - 1 + int r) mod 7 + 1" by simp
    moreover have "int w = (?n - 1 + e) mod 7 + 1"
    proof -
      have "(?n - 1 + e) mod 7 = (?n - 1 + (int w - week_day ?n + 7)) mod 7" unfolding e_def by (simp only: mod_add_right_eq)
      also have "\<dots> = (?n - 1 - (?n - 1) mod 7 + (int w + 6)) mod 7" by (simp add: week_day_def algebra_simps)
      also have "\<dots> = (int w + 6) mod 7" by (simp add: minus_mod_eq_mult_div)
      also have "\<dots> = int w - 1" using assms(4,5) by presburger
      finally show ?thesis by linarith
    qed
    ultimately have "dl_weekday L day = w \<longleftrightarrow> (?n - 1 + int r) mod 7 = (?n - 1 + e) mod 7" by linarith
    also have "\<dots> \<longleftrightarrow> int r = e" using r(2) e by (intro mod_seven_cancel) simp_all
    finally show ?thesis using r e by auto
  qed
  have "dl_day L day = ?d \<Longrightarrow> 7 * (k - 1) < dl_day L day \<and> dl_day L day \<le> 7 * k" using e assms(6) by (cases k) auto
  then show ?thesis using on wd by blast
qed

lemma last_monday_of_may:
  assumes "date_laws L" "dl_ok L day" "- 9999 \<le> y" "y \<le> 9999"
  shows "last_weekday_of_month L y 5 1 = Some day \<longleftrightarrow>
    dl_year L day = y \<and> dl_month L day = 5 \<and> dl_weekday L day = 1 \<and> 25 \<le> dl_day L day"
proof -
  have v: "valid_ymd y 5 d" if "1 \<le> d" "d \<le> 31" for d using assms(3,4) that by (auto simp: valid_ymd_def month_days_def)
  have june: "valid_ymd y 6 1" using assms(3,4) by (auto simp: valid_ymd_def month_days_def)
  obtain x where x: "dl_from L y 6 1 = Some x" "dl_ok L x" "number L x = day_number y 6 1"
    using dl_from_obtain [OF assms(1) june] .
  obtain z where z: "dl_from L y 5 31 = Some z" "dl_ok L z" "number L z = day_number y 5 31"
    using dl_from_obtain [OF assms(1) v [of 31]] by auto
  let ?n = "day_number y 5 31"
  have "day_number y 6 1 = ?n + 1" by (simp add: day_number_def days_before_def)
  then have last: "dl_add L x (- 1) = Some z" using dl_add_Some_iff [OF assms(1) x(2) z(2)] x(3) z(3) by simp
  define e where "e = (week_day ?n - 1 + 7) mod 7"
  have e: "0 \<le> e" "e < 7" by (simp_all add: e_def)
  have at: "last_weekday_of_month L y 5 1 = Some day \<longleftrightarrow> number L day = ?n - e"
    using dl_add_Some_iff [OF assms(1) z(2) assms(2)] x(1) last z(3) weekday_week_day [OF assms(1) z(2)]
    by (simp add: last_weekday_of_month_def Let_def e_def)
  let ?d = "31 - nat e"
  have "?n - e = day_number y 5 ?d" using e by (simp add: day_number_def)
  then have on: "last_weekday_of_month L y 5 1 = Some day \<longleftrightarrow> dl_year L day = y \<and> dl_month L day = 5 \<and> dl_day L day = ?d"
    using at number_is [OF assms(1,2) v [of ?d]] e by auto
  have wd: "dl_weekday L day = 1 \<longleftrightarrow> dl_day L day = ?d" if "dl_year L day = y" "dl_month L day = 5" "25 \<le> dl_day L day"
  proof -
    have "dl_day L day \<le> 31" using dl_ok_valid [OF assms(1,2)] that(2) by (simp add: valid_ymd_def month_days_def)
    then have r: "number L day = ?n - int (31 - dl_day L day)" "31 - dl_day L day < 7"
      using that by (simp_all add: day_number_def)
    define r where "r = int (31 - dl_day L day)"
    have "dl_weekday L day = 1 \<longleftrightarrow> week_day (?n - r) = 1" using weekday_week_day [OF assms(1,2)] r by (auto simp: r_def)
    also have "\<dots> \<longleftrightarrow> (?n - 1 - r) mod 7 = 0" by (simp add: week_day_def algebra_simps)
    also have "\<dots> \<longleftrightarrow> r = e"
    proof -
      have "e = (?n - 1) mod 7" by (simp add: e_def week_day_def)
      then have "(?n - 1 - r) mod 7 = (e - r) mod 7" by (simp add: mod_diff_left_eq)
      moreover have "0 \<le> r" "r < 7" using r(2) by (simp_all add: r_def)
      ultimately show ?thesis using mod_seven_zero [OF _ _ e] by simp
    qed
    finally show ?thesis using that(3) \<open>dl_day L day \<le> 31\<close> e unfolding r_def by auto
  qed
  have "dl_day L day = ?d \<Longrightarrow> 25 \<le> dl_day L day" using e by simp
  then show ?thesis using on wd by blast
qed

section \<open>Easter\<close>

lemma easter_days:
  assumes "0 < y"
  obtains q where "0 \<le> q" "q \<le> 34" "(day_number y 3 22 + q) mod 7 = 0"
    "easter_parts y = (if q \<le> 9 then (3, q + 22) else (4, q - 9))"
proof -
  define a b c where "a = y mod 19" and "b = y div 100" and "c = y mod 100"
  define d e i k where "d = b div 4" and "e = b mod 4" and "i = c div 4" and "k = c mod 4"
  define h where "h = (19 * a + b - d - (b - (b + 8) div 25 + 1) div 3 + 15) mod 30"
  define u where "u = 32 + 2 * e + 2 * i - h - k"
  define l where "l = u mod 7"
  define m where "m = (a + 11 * h + 22 * l) div 451"
  define q where "q = h + l - 7 * m"
  have parts: "easter_parts y = ((q + 114) div 31, (q + 114) mod 31 + 1)"
    by (simp only: easter_parts_def Let_def q_def m_def l_def u_def h_def a_def b_def c_def d_def e_def i_def k_def)
  have bounds: "0 \<le> a" "a \<le> 18" "0 \<le> h" "h \<le> 29" "0 \<le> l" "l \<le> 6"
    using pos_mod_bound [of 19 y] pos_mod_bound [of 30 "19 * a + b - d - (b - (b + 8) div 25 + 1) div 3 + 15"]
      pos_mod_bound [of 7 u] by (simp_all add: a_def h_def l_def)
  have q: "0 \<le> q" "q \<le> 34"
  proof -
    let ?s = "a + 11 * h + 22 * l"
    have "m = (if ?s < 451 then 0 else 1)"
      unfolding m_def using bounds int_div_pos_eq [of ?s 451 1 "?s - 451"] by (simp add: div_pos_pos_trivial)
    then show "0 \<le> q" "q \<le> 34" using bounds unfolding q_def by (auto split: if_splits)
  qed
  have y: "y = 100 * b + c" "b = 4 * d + e" "c = 4 * i + k" by (simp_all add: b_def c_def d_def e_def i_def k_def)
  have ranges: "0 \<le> c" "c < 100" "0 \<le> k" "k < 4" "0 \<le> e" "e < 4"
    by (simp_all add: c_def k_def e_def)
  have "y div 4 = 25 * b + i" using y(1,3) ranges by (intro int_div_pos_eq [of _ _ _ k]) simp_all
  moreover have "y div 100 = b" by (simp add: b_def)
  moreover have "y div 400 = d" using y(1,2) ranges by (intro int_div_pos_eq [of _ _ _ "100 * e + c"]) simp_all
  ultimately have "year_start (y + 1) = 365 * y + (25 * b + i) - b + d" by (simp add: year_start_def)
  moreover have "day_number y 3 22 = year_start (y + 1) - 284"
    by (simp add: year_start_Suc day_number_def days_before_def)
  moreover have "u = 7 * (u div 7) + l" by (simp add: l_def)
  ultimately have "day_number y 3 22 + q = 7 * (20871 * d + 5218 * e + 209 * i + 52 * k - 36 - u div 7 - m)"
    using y unfolding q_def u_def by (simp add: algebra_simps)
  then have sunday: "(day_number y 3 22 + q) mod 7 = 0" by simp
  have "easter_parts y = (if q \<le> 9 then (3, q + 22) else (4, q - 9))"
  proof (cases "q \<le> 9")
    case True
    then have "(q + 114) div 31 = 3" "(q + 114) mod 31 = q + 21"
      using q by (auto intro!: int_div_pos_eq [of _ _ _ "q + 21"] int_mod_pos_eq [of _ _ 3])
    with True show ?thesis unfolding parts by simp
  next
    case False
    then have "(q + 114) div 31 = 4" "(q + 114) mod 31 = q - 10"
      using q by (auto intro!: int_div_pos_eq [of _ _ _ "q - 10"] int_mod_pos_eq [of _ _ 4])
    with False show ?thesis unfolding parts by simp
  qed
  then show thesis by (rule that [OF q sunday])
qed

lemma easter_date:
  assumes "date_laws L" "0 < y" "y \<le> 9999"
  obtains x where "easter_sunday L y = Some x" "dl_ok L x" "dl_weekday L x = 7" "dl_year L x = y"
    "day_number y 3 22 \<le> number L x" "number L x \<le> day_number y 4 25"
proof -
  obtain q where q: "0 \<le> q" "q \<le> 34" "(day_number y 3 22 + q) mod 7 = 0"
    "easter_parts y = (if q \<le> 9 then (3, q + 22) else (4, q - 9))" using easter_days [OF assms(2)] .
  define m d where "m = (if q \<le> 9 then 3 else 4 :: nat)" and "d = (if q \<le> 9 then nat (q + 22) else nat (q - 9))"
  have v: "valid_ymd y m d" using q(1,2) assms(2,3) by (auto simp: m_def d_def valid_ymd_def month_days_def)
  obtain x where x: "dl_from L y m d = Some x" "dl_ok L x" "number L x = day_number y m d"
    using dl_from_obtain [OF assms(1) v] .
  have n: "day_number y m d = day_number y 3 22 + q" using q(1,2) by (auto simp: day_number_def days_before_def m_def d_def)
  have "easter_sunday L y = dl_from L y m d" using assms(2) q by (auto simp: easter_sunday_def m_def d_def)
  moreover have "(number L x - 1) mod 7 = 6" using q(3) n x(3) by presburger
  then have "dl_weekday L x = 7" using weekday_number [OF assms(1) x(2)] by linarith
  moreover have "dl_year L x = y" using dl_from_laws(2) [OF assms(1) x(1)] by simp
  moreover have "day_number y 4 25 = day_number y 3 22 + 34" by (simp add: day_number_def days_before_def)
  ultimately show thesis using that x n q(1,2) by (metis add.commute add_left_mono le_add_same_cancel1)
qed

text \<open>the computed Easter is a Sunday between the 22nd of March and the 25th of April in every year from 1 to
9999, so that the exchange is closed on a Friday, and no step of the computation leaves the calendar.\<close>

theorem easter_is_sunday:
  assumes "date_laws L" and "0 < y" and "y \<le> 9999"
  shows "\<exists>easter friday. easter_sunday L y = Some easter \<and> good_friday L y = Some friday \<and>
    dl_weekday L easter = 7 \<and> dl_weekday L friday = 5 \<and> number L friday = number L easter - 2 \<and>
    day_number y 3 22 \<le> number L easter \<and> number L easter \<le> day_number y 4 25"
proof -
  obtain x where x: "easter_sunday L y = Some x" "dl_ok L x" "dl_weekday L x = 7"
    "day_number y 3 22 \<le> number L x" "number L x \<le> day_number y 4 25" using easter_date [OF assms] by blast
  have n: "day_number y 3 20 = day_number y 3 22 - 2" by (simp add: day_number_def)
  have v: "valid_ymd y 3 20" "valid_ymd y 4 25" using assms(2,3) by (auto simp: valid_ymd_def month_days_def)
  obtain f where f: "dl_add L x (- 2) = Some f"
    using dl_add_laws(1) [OF assms(1) x(2), of "- 2"] day_number_bounds [OF v(1)] day_number_bounds [OF v(2)] n x(4,5)
    by (cases "dl_add L x (- 2)") auto
  then have fn: "dl_ok L f" "number L f = number L x - 2" using dl_add_laws(2) [OF assms(1) x(2) f] by simp_all
  have "(number L x - 1) mod 7 = 6" using weekday_number [OF assms(1) x(2)] x(3) by linarith
  then have "(number L f - 1) mod 7 = 4" unfolding fn(2) by presburger
  then have "dl_weekday L f = 5" using weekday_number [OF assms(1) fn(1)] by linarith
  moreover have "good_friday L y = Some f" by (simp add: good_friday_def x(1) f)
  ultimately show ?thesis using x fn by blast
qed

section \<open>The calendar of New York\<close>

text \<open>The holidays of the exchange, on the month, the day and the day of the week: a holiday with a date is kept on
the Friday before when it falls on a Saturday and on the Monday after when it falls on a Sunday.\<close>

definition dated_holiday :: "nat \<Rightarrow> nat \<Rightarrow> bool" where
  "dated_holiday m d \<longleftrightarrow> m = 1 \<and> d = 1 \<or> m = 6 \<and> d = 19 \<or> m = 7 \<and> d = 4 \<or> m = 12 \<and> d = 25"

definition us_holiday :: "nat \<Rightarrow> nat \<Rightarrow> nat \<Rightarrow> bool" where
  "us_holiday m d w \<longleftrightarrow>
     w \<le> 5 \<and> dated_holiday m d \<or>
     w = 5 \<and> (m = 12 \<and> d = 31 \<or> dated_holiday m (d + 1) \<and> d \<noteq> 0) \<or>
     w = 1 \<and> 1 < d \<and> dated_holiday m (d - 1) \<or>
     w = 1 \<and> (m = 1 \<or> m = 2) \<and> 15 \<le> d \<and> d \<le> 21 \<or>
     w = 1 \<and> m = 5 \<and> 25 \<le> d \<or>
     w = 1 \<and> m = 9 \<and> d \<le> 7 \<or>
     w = 4 \<and> m = 11 \<and> 22 \<le> d \<and> d \<le> 28"

text \<open>The days on which it closes at one o'clock, unless they are holidays.\<close>

definition us_half_day :: "nat \<Rightarrow> nat \<Rightarrow> nat \<Rightarrow> bool" where
  "us_half_day m d w \<longleftrightarrow>
     m = 7 \<and> d = 3 \<and> w \<le> 4 \<or> m = 7 \<and> d = 2 \<and> (w = 4 \<or> w = 5) \<or>
     m = 11 \<and> w = 5 \<and> 23 \<le> d \<and> d \<le> 29 \<or>
     m = 12 \<and> d = 24 \<and> w \<le> 4"

definition us_sessions :: "int \<Rightarrow> calendar_window list" where
  "us_sessions regular_end =
     [trading_window ''overnight'' 0 240, trading_window ''pre'' 240 570, trading_window ''regular'' 570 regular_end,
      trading_window ''after'' regular_end (if regular_end = 780 then 1080 else 1200)]"

definition us_day :: "bool \<Rightarrow> bool \<Rightarrow> string \<times> calendar_window list" where
  "us_day closed half =
     (if closed then (''closed'', []) else if half then (''early_close'', us_sessions 780) else (''open'', us_sessions 960))"

lemma week_day_of: "date_laws L \<Longrightarrow> dl_ok L x \<Longrightarrow> 1 \<le> dl_weekday L x \<and> dl_weekday L x \<le> 7"
  using weekday_week_day [of L x] week_day_range [of "number L x"] by linarith

lemma observed_day:
  assumes "date_laws L" "dl_ok L day" and y: "dl_year L day = y" and "1 < d" "d < 31" "valid_ymd y m (d + 1)"
  shows "observed_fixed_holiday L y m d = Some day \<longleftrightarrow>
    dl_month L day = m \<and> (dl_day L day = d \<and> dl_weekday L day \<le> 5 \<or>
      dl_day L day = d - 1 \<and> dl_weekday L day = 5 \<or> dl_day L day = d + 1 \<and> dl_weekday L day = 1)"
proof -
  have v: "valid_ymd y m (d - 1)" "valid_ymd y m d" using assms(4-6) by (auto simp: valid_ymd_def)
  have "day_number y m d - 1 = day_number y m (d - 1)" "day_number y m d + 1 = day_number y m (d + 1)"
    using assms(4) by (simp_all add: day_number_def)
  then have n: "number L day = day_number y m d \<longleftrightarrow> dl_month L day = m \<and> dl_day L day = d"
    "number L day = day_number y m d - 1 \<longleftrightarrow> dl_month L day = m \<and> dl_day L day = d - 1"
    "number L day = day_number y m d + 1 \<longleftrightarrow> dl_month L day = m \<and> dl_day L day = d + 1"
    using number_is [OF assms(1,2) v(1)] number_is [OF assms(1,2) v(2)] number_is [OF assms(1,2,6)] y by metis+
  show ?thesis unfolding observed_number [OF assms(1,2) v(2)] n weekday_week_day [OF assms(1,2), symmetric] by auto
qed

lemma observed_new_year:
  assumes "date_laws L" "dl_ok L day" and y: "dl_year L day = y" and "y < 9999"
  shows "observed_fixed_holiday L y 1 1 = Some day \<longleftrightarrow>
      dl_month L day = 1 \<and> (dl_day L day = 1 \<and> dl_weekday L day \<le> 5 \<or> dl_day L day = 2 \<and> dl_weekday L day = 1)"
    and "observed_fixed_holiday L (y + 1) 1 1 = Some day \<longleftrightarrow>
      dl_month L day = 12 \<and> dl_day L day = 31 \<and> dl_weekday L day = 5"
proof -
  have y': "- 9999 \<le> y" using dl_ok_valid [OF assms(1,2)] y by (simp add: valid_ymd_def)
  have v: "valid_ymd y 1 1" "valid_ymd y 1 2" "valid_ymd (y + 1) 1 1" "valid_ymd y 12 31" "valid_ymd (y + 1) 1 2"
    using y' assms(4) by (auto simp: valid_ymd_def month_days_def)
  have n: "day_number y 1 1 + 1 = day_number y 1 2" "day_number (y + 1) 1 1 - 1 = day_number y 12 31"
    "day_number (y + 1) 1 1 + 1 = day_number (y + 1) 1 2" "day_number y 1 1 - 1 = year_start y"
    by (simp_all add: day_number_def days_before_def year_start_Suc)
  have old: "number L day \<noteq> year_start y" using number_in_year(1) [OF dl_ok_valid [OF assms(1,2)]] y by simp
  have n1: "number L day = day_number y 1 1 \<longleftrightarrow> dl_month L day = 1 \<and> dl_day L day = 1"
    "number L day = day_number y 1 1 + 1 \<longleftrightarrow> dl_month L day = 1 \<and> dl_day L day = 2"
    "number L day = day_number y 1 1 - 1 \<longleftrightarrow> False"
    using number_is [OF assms(1,2) v(1)] number_is [OF assms(1,2) v(2)] y n old by metis+
  have n2: "number L day = day_number (y + 1) 1 1 \<longleftrightarrow> False" "number L day = day_number (y + 1) 1 1 + 1 \<longleftrightarrow> False"
    "number L day = day_number (y + 1) 1 1 - 1 \<longleftrightarrow> dl_month L day = 12 \<and> dl_day L day = 31"
    using number_is [OF assms(1,2) v(3)] number_is [OF assms(1,2) v(4)] number_is [OF assms(1,2) v(5)] y n by auto
  show "observed_fixed_holiday L y 1 1 = Some day \<longleftrightarrow>
      dl_month L day = 1 \<and> (dl_day L day = 1 \<and> dl_weekday L day \<le> 5 \<or> dl_day L day = 2 \<and> dl_weekday L day = 1)"
    unfolding observed_number [OF assms(1,2) v(1)] n1 weekday_week_day [OF assms(1,2), symmetric] by auto
  show "observed_fixed_holiday L (y + 1) 1 1 = Some day \<longleftrightarrow> dl_month L day = 12 \<and> dl_day L day = 31 \<and> dl_weekday L day = 5"
    unfolding observed_number [OF assms(1,2) v(3)] n2 weekday_week_day [OF assms(1,2), symmetric] by auto
qed


lemma black_friday:
  assumes "date_laws L" "dl_ok L day" and y: "dl_year L day = y"
  shows "is_black_friday L day \<longleftrightarrow> dl_month L day = 11 \<and> dl_weekday L day = 5 \<and> 23 \<le> dl_day L day \<and> dl_day L day \<le> 29"
proof -
  have y': "- 9999 \<le> y" "y \<le> 9999" using dl_ok_valid [OF assms(1,2)] y by (simp_all add: valid_ymd_def)
  have v: "valid_ymd y 11 d" if "1 \<le> d" "d \<le> 30" for d using y' that by (auto simp: valid_ymd_def month_days_def)
  have nth: "nth_weekday_of_month L y 11 4 4 = Some x \<longleftrightarrow>
      dl_year L x = y \<and> dl_month L x = 11 \<and> dl_weekday L x = 4 \<and> 21 < dl_day L x \<and> dl_day L x \<le> 28" if "dl_ok L x" for x
    using v [of 28] nth_weekday_number [OF assms(1) that, of y 11 4 4] by simp
  have wd: "week_day (n + 1) = 5 \<longleftrightarrow> week_day n = 4" for n
    using week_day_pred [of "n + 1"] week_day_range [of n] by (auto split: if_splits)
  have after_x: "dl_add L x 1 = Some day \<longleftrightarrow> dl_month L day = 11 \<and> dl_day L day = dl_day L x + 1"
    if "dl_ok L x" "dl_year L x = y" "dl_month L x = 11" "dl_day L x \<le> 28" "1 \<le> dl_day L x" for x
  proof -
    have "number L x + 1 = day_number y 11 (dl_day L x + 1)" using that by (simp add: day_number_def)
    then show ?thesis using dl_add_Some_iff [OF assms(1) that(1) assms(2)] number_is [OF assms(1,2) v [of "dl_day L x + 1"]] y that by auto
  qed
  have w: "dl_weekday L day = 5 \<longleftrightarrow> dl_weekday L x = 4" if "dl_ok L x" "dl_add L x 1 = Some day" for x
    using weekday_week_day [OF assms(1,2)] weekday_week_day [OF assms(1) that(1)] wd [of "number L x"]
      dl_add_Some_iff [OF assms(1) that(1) assms(2), of 1] that(2) by auto
  show ?thesis
  proof
    assume "is_black_friday L day"
    then obtain x where x: "nth_weekday_of_month L y 11 4 4 = Some x" "dl_add L x 1 = Some day"
      using y by (auto simp: is_black_friday_def bind_eq_Some_conv)
    moreover have "dl_ok L x"
    proof -
      obtain f where f: "dl_from L y 11 1 = Some f" "dl_ok L f" using dl_from_obtain [OF assms(1) v [of 1]] by auto
      then show ?thesis using x(1) by (auto simp: nth_weekday_of_month_def Let_def intro: dl_add_ok [OF assms(1) f(2)])
    qed
    ultimately show "dl_month L day = 11 \<and> dl_weekday L day = 5 \<and> 23 \<le> dl_day L day \<and> dl_day L day \<le> 29"
      using nth after_x [of x] w [of x] by auto
  next
    assume d: "dl_month L day = 11 \<and> dl_weekday L day = 5 \<and> 23 \<le> dl_day L day \<and> dl_day L day \<le> 29"
    have before: "valid_ymd y 11 (dl_day L day - 1)" using conjunct2 [OF conjunct2 [OF d]] by (intro v) linarith+
    obtain x where x: "dl_from L y 11 (dl_day L day - 1) = Some x" "dl_ok L x" "number L x = day_number y 11 (dl_day L day - 1)"
      using dl_from_obtain [OF assms(1) before] .
    then have ymd: "dl_year L x = y" "dl_month L x = 11" "dl_day L x = dl_day L day - 1" using dl_from_laws(2) [OF assms(1) x(1)] by simp_all
    then have add: "dl_add L x 1 = Some day" using after_x [OF x(2)] d by auto
    then have "nth_weekday_of_month L y 11 4 4 = Some x" using nth [OF x(2)] ymd d w [OF x(2)] by auto
    then show "is_black_friday L day" using add y by (simp add: is_black_friday_def)
  qed
qed

lemma independence_eve:
  assumes "date_laws L" "dl_ok L day" and y: "dl_year L day = y"
  shows "independence_day_early_close L day \<longleftrightarrow>
    dl_month L day = 7 \<and> (dl_day L day = 3 \<and> dl_weekday L day \<le> 4 \<or> dl_day L day = 2 \<and> (dl_weekday L day = 4 \<or> dl_weekday L day = 5))"
proof -
  have y': "- 9999 \<le> y" "y \<le> 9999" using dl_ok_valid [OF assms(1,2)] y by (simp_all add: valid_ymd_def)
  have v: "valid_ymd y 7 d" if "1 \<le> d" "d \<le> 31" for d using y' that by (auto simp: valid_ymd_def month_days_def)
  obtain f where f: "dl_from L y 7 4 = Some f" "dl_ok L f" "number L f = day_number y 7 4"
    using dl_from_obtain [OF assms(1) v [of 4]] by auto
  have n: "number L day = number L f - 1 \<longleftrightarrow> dl_month L day = 7 \<and> dl_day L day = 3"
    "number L day = number L f - 2 \<longleftrightarrow> dl_month L day = 7 \<and> dl_day L day = 2"
    using number_is [OF assms(1,2) v [of 3]] number_is [OF assms(1,2) v [of 2]] y f(3) by (auto simp: day_number_def)
  have wd: "week_day n \<le> 5 \<Longrightarrow> week_day (n - 1) \<le> 5 \<longleftrightarrow> week_day (n - 1) \<le> 4" "5 < week_day n \<longleftrightarrow> week_day (n - 2) = 4 \<or> week_day (n - 2) = 5"
    "week_day (n - 1) \<le> 4 \<Longrightarrow> week_day n \<le> 5" for n
    using week_day_pred [of n] week_day_pred [of "n - 1"] week_day_range [of n] by (auto split: if_splits)
  have fw: "is_weekend (dl_weekday L f) \<longleftrightarrow> 5 < week_day (number L f)" "is_weekend (dl_weekday L day) \<longleftrightarrow> 5 < week_day (number L day)"
    using weekday_week_day [OF assms(1) f(2)] weekday_week_day [OF assms(1,2)] week_day_of [OF assms(1) f(2)] week_day_of [OF assms(1,2)]
    unfolding is_weekend_def by linarith+
  have "independence_day_early_close L day \<longleftrightarrow>
    number L day = number L f - 1 \<and> week_day (number L day) \<le> 4 \<or>
    number L day = number L f - 2 \<and> (week_day (number L day) = 4 \<or> week_day (number L day) = 5)"
    using dl_add_Some_iff [OF assms(1) f(2) assms(2)] f(1) y fw wd [of "number L f"]
    by (auto simp: independence_day_early_close_def)
  then show ?thesis unfolding n weekday_week_day [OF assms(1,2), symmetric] by auto
qed


lemma christmas_eve:
  assumes "date_laws L" "dl_ok L day"
  shows "is_christmas_eve_early_close L day \<longleftrightarrow> dl_month L day = 12 \<and> dl_day L day = 24 \<and> dl_weekday L day \<le> 4"
proof -
  have "valid_ymd (dl_year L day) 12 26" using dl_ok_valid [OF assms] by (auto simp: valid_ymd_def month_days_def)
  then have "observed_fixed_holiday L (dl_year L day) 12 25 = Some day \<longleftrightarrow>
    dl_month L day = 12 \<and> (dl_day L day = 25 \<and> dl_weekday L day \<le> 5 \<or> dl_day L day = 24 \<and> dl_weekday L day = 5 \<or>
      dl_day L day = 26 \<and> dl_weekday L day = 1)" using observed_day [OF assms refl, of 25 12] by simp
  then show ?thesis using week_day_of [OF assms] by (auto simp: is_christmas_eve_early_close_def is_weekend_def)
qed

lemma early_close_days:
  assumes "date_laws L" "dl_ok L day"
  shows "us_early_close_reason L day \<noteq> None \<longleftrightarrow> us_half_day (dl_month L day) (dl_day L day) (dl_weekday L day)"
  unfolding us_early_close_reason_def us_half_day_def independence_eve [OF assms refl] black_friday [OF assms refl] christmas_eve [OF assms]
  by auto

lemma dated_shifts:
  "dated_holiday m (d + 1) \<and> d \<noteq> 0 \<longleftrightarrow> m = 6 \<and> d = 18 \<or> m = 7 \<and> d = 3 \<or> m = 12 \<and> d = 24"
  "1 < d \<and> dated_holiday m (d - 1) \<longleftrightarrow> m = 1 \<and> d = 2 \<or> m = 6 \<and> d = 20 \<or> m = 7 \<and> d = 5 \<or> m = 12 \<and> d = 26"
  by (auto simp: dated_holiday_def)

lemma us_holiday_cases:
  assumes "1 \<le> d"
  shows "us_holiday m d w \<longleftrightarrow>
    m = 1 \<and> (d = 1 \<and> w \<le> 5 \<or> d = 2 \<and> w = 1) \<or> m = 12 \<and> d = 31 \<and> w = 5 \<or>
    m = 6 \<and> (d = 19 \<and> w \<le> 5 \<or> d = 18 \<and> w = 5 \<or> d = 20 \<and> w = 1) \<or>
    m = 7 \<and> (d = 4 \<and> w \<le> 5 \<or> d = 3 \<and> w = 5 \<or> d = 5 \<and> w = 1) \<or>
    m = 12 \<and> (d = 25 \<and> w \<le> 5 \<or> d = 24 \<and> w = 5 \<or> d = 26 \<and> w = 1) \<or>
    m = 1 \<and> w = 1 \<and> 14 < d \<and> d \<le> 21 \<or> m = 2 \<and> w = 1 \<and> 14 < d \<and> d \<le> 21 \<or>
    m = 9 \<and> w = 1 \<and> 0 < d \<and> d \<le> 7 \<or> m = 11 \<and> w = 4 \<and> 21 < d \<and> d \<le> 28 \<or> m = 5 \<and> w = 1 \<and> 25 \<le> d"
proof -
  have n: "15 \<le> d \<longleftrightarrow> 14 < d" "22 \<le> d \<longleftrightarrow> 21 < d" "0 < d" using assms by linarith+
  show ?thesis unfolding us_holiday_def dated_shifts n(1,2) unfolding dated_holiday_def using n(3)
    by (intro iffI; elim disjE conjE; simp)
qed

lemma holiday_days:
  assumes "date_laws L" "dl_ok L day" "dl_year L day < 9999"
  shows "observed_fixed_holiday L (dl_year L day + 1) 1 1 = Some day \<or> us_holiday_reason L day \<noteq> None \<longleftrightarrow>
    us_holiday (dl_month L day) (dl_day L day) (dl_weekday L day) \<or> good_friday L (dl_year L day) = Some day"
proof -
  let ?y = "dl_year L day"
  have y': "- 9999 \<le> ?y" "?y \<le> 9999" and d: "1 \<le> dl_day L day" using dl_ok_valid [OF assms(1,2)] by (simp_all add: valid_ymd_def)
  have v: "valid_ymd ?y 6 20" "valid_ymd ?y 7 5" "valid_ymd ?y 12 26" "valid_ymd ?y 1 21" "valid_ymd ?y 2 21" "valid_ymd ?y 9 7" "valid_ymd ?y 11 28"
    using y' by (auto simp: valid_ymd_def month_days_def)
  have fixed: "observed_fixed_holiday L ?y 6 19 = Some day \<longleftrightarrow> dl_month L day = 6 \<and> (dl_day L day = 19 \<and> dl_weekday L day \<le> 5 \<or>
      dl_day L day = 18 \<and> dl_weekday L day = 5 \<or> dl_day L day = 20 \<and> dl_weekday L day = 1)"
    "observed_fixed_holiday L ?y 7 4 = Some day \<longleftrightarrow> dl_month L day = 7 \<and> (dl_day L day = 4 \<and> dl_weekday L day \<le> 5 \<or>
      dl_day L day = 3 \<and> dl_weekday L day = 5 \<or> dl_day L day = 5 \<and> dl_weekday L day = 1)"
    "observed_fixed_holiday L ?y 12 25 = Some day \<longleftrightarrow> dl_month L day = 12 \<and> (dl_day L day = 25 \<and> dl_weekday L day \<le> 5 \<or>
      dl_day L day = 24 \<and> dl_weekday L day = 5 \<or> dl_day L day = 26 \<and> dl_weekday L day = 1)"
    using observed_day [OF assms(1,2) refl, of 19 6] observed_day [OF assms(1,2) refl, of 4 7] observed_day [OF assms(1,2) refl, of 25 12] v
    by simp_all
  have moving: "nth_weekday_of_month L ?y 1 1 3 = Some day \<longleftrightarrow> dl_month L day = 1 \<and> dl_weekday L day = 1 \<and> 14 < dl_day L day \<and> dl_day L day \<le> 21"
    "nth_weekday_of_month L ?y 2 1 3 = Some day \<longleftrightarrow> dl_month L day = 2 \<and> dl_weekday L day = 1 \<and> 14 < dl_day L day \<and> dl_day L day \<le> 21"
    "nth_weekday_of_month L ?y 9 1 1 = Some day \<longleftrightarrow> dl_month L day = 9 \<and> dl_weekday L day = 1 \<and> 0 < dl_day L day \<and> dl_day L day \<le> 7"
    "nth_weekday_of_month L ?y 11 4 4 = Some day \<longleftrightarrow> dl_month L day = 11 \<and> dl_weekday L day = 4 \<and> 21 < dl_day L day \<and> dl_day L day \<le> 28"
    using nth_weekday_number [OF assms(1,2), of ?y 1 3 1] nth_weekday_number [OF assms(1,2), of ?y 2 3 1]
      nth_weekday_number [OF assms(1,2), of ?y 9 1 1] nth_weekday_number [OF assms(1,2), of ?y 11 4 4] v by simp_all
  have may: "last_weekday_of_month L ?y 5 1 = Some day \<longleftrightarrow> dl_month L day = 5 \<and> dl_weekday L day = 1 \<and> 25 \<le> dl_day L day"
    using last_monday_of_may [OF assms(1,2) y'] by simp
  have some: "us_holiday_reason L day \<noteq> None \<longleftrightarrow> list_ex (\<lambda>(_, found, _). found = Some day) (us_candidates L ?y)"
    by (auto simp: us_holiday_reason_def find_None_iff list_ex_iff)
  have all: "us_holiday_reason L day \<noteq> None \<longleftrightarrow>
    observed_fixed_holiday L ?y 1 1 = Some day \<or> nth_weekday_of_month L ?y 1 1 3 = Some day \<or> nth_weekday_of_month L ?y 2 1 3 = Some day \<or>
    good_friday L ?y = Some day \<or> last_weekday_of_month L ?y 5 1 = Some day \<or> observed_fixed_holiday L ?y 6 19 = Some day \<or>
    observed_fixed_holiday L ?y 7 4 = Some day \<or> nth_weekday_of_month L ?y 9 1 1 = Some day \<or> nth_weekday_of_month L ?y 11 4 4 = Some day \<or>
    observed_fixed_holiday L ?y 12 25 = Some day" unfolding some by (simp add: us_candidates_def)
  have listed: "us_holiday (dl_month L day) (dl_day L day) (dl_weekday L day) \<longleftrightarrow>
    observed_fixed_holiday L ?y 1 1 = Some day \<or> observed_fixed_holiday L (?y + 1) 1 1 = Some day \<or>
    observed_fixed_holiday L ?y 6 19 = Some day \<or> observed_fixed_holiday L ?y 7 4 = Some day \<or>
    observed_fixed_holiday L ?y 12 25 = Some day \<or> nth_weekday_of_month L ?y 1 1 3 = Some day \<or>
    nth_weekday_of_month L ?y 2 1 3 = Some day \<or> nth_weekday_of_month L ?y 9 1 1 = Some day \<or>
    nth_weekday_of_month L ?y 11 4 4 = Some day \<or> last_weekday_of_month L ?y 5 1 = Some day"
    unfolding us_holiday_cases [OF d] observed_new_year [OF assms(1,2) refl assms(3)] fixed moving may by (rule refl)
  show ?thesis unfolding all listed by blast
qed

lemma us_sessions_of: "us_schedule_sessions L day = us_sessions (if us_early_close_reason L day \<noteq> None then 780 else 960)"
  by (simp add: us_schedule_sessions_def us_sessions_def Let_def)

text \<open>C29: the rules of the New York exchange: the market is closed on weekends, on the fixed holidays (kept on the
nearest weekday), on the third Monday of January and February, the last of May, the first of September, the fourth
Thursday of November and on Good Friday; it closes at one on the eve of Independence Day, the day after Thanksgiving
and on Christmas Eve; and on every other day it is open, with its four sessions.\<close>

theorem us_calendar_rules:
  assumes "date_laws L" and "dl_ok L day" and "dl_year L day < 9999"
  shows "(case builtin_rules L ''US'' day of (status, reason, observed, sessions) \<Rightarrow> (status, sessions)) =
    us_day (is_weekend (dl_weekday L day) \<or> us_holiday (dl_month L day) (dl_day L day) (dl_weekday L day) \<or>
            good_friday L (dl_year L day) = Some day)
      (us_half_day (dl_month L day) (dl_day L day) (dl_weekday L day))"
proof (cases "is_weekend (dl_weekday L day)")
  case True
  then show ?thesis by (simp add: builtin_rules_def us_day_def)
next
  case open_day: False
  show ?thesis
  proof (cases "observed_fixed_holiday L (dl_year L day + 1) 1 1 = Some day \<or> us_holiday_reason L day \<noteq> None")
    case True
    then have "us_day (is_weekend (dl_weekday L day) \<or> us_holiday (dl_month L day) (dl_day L day) (dl_weekday L day) \<or>
        good_friday L (dl_year L day) = Some day) (us_half_day (dl_month L day) (dl_day L day) (dl_weekday L day)) = (''closed'', [])"
      unfolding holiday_days [OF assms] by (auto simp: us_day_def)
    with open_day True show ?thesis by (auto simp: builtin_rules_def us_holiday_or_early_close_def)
  next
    case False
    then have "us_day (is_weekend (dl_weekday L day) \<or> us_holiday (dl_month L day) (dl_day L day) (dl_weekday L day) \<or>
        good_friday L (dl_year L day) = Some day) (us_half_day (dl_month L day) (dl_day L day) (dl_weekday L day)) =
        (if us_early_close_reason L day \<noteq> None then (''early_close'', us_sessions 780) else (''open'', us_sessions 960))"
      using open_day unfolding holiday_days [OF assms] early_close_days [OF assms(1,2)] by (simp add: us_day_def)
    with open_day False show ?thesis
      by (auto simp: builtin_rules_def us_holiday_or_early_close_def us_sessions_of split: option.splits)
  qed
qed


section \<open>An implementation of the date library\<close>

type_synonym civil = "int \<times> nat \<times> nat"

fun next_date :: "civil \<Rightarrow> civil option" where
  "next_date (y, m, d) =
     (if d < month_days y m then Some (y, m, d + 1) else if m < 12 then Some (y, m + 1, 1)
      else if y < 9999 then Some (y + 1, 1, 1) else None)"

fun prev_date :: "civil \<Rightarrow> civil option" where
  "prev_date (y, m, d) =
     (if 1 < d then Some (y, m, d - 1) else if 1 < m then Some (y, m - 1, month_days y (m - 1))
      else if - 9999 < y then Some (y - 1, 12, 31) else None)"

fun iterate :: "('a \<Rightarrow> 'a option) \<Rightarrow> nat \<Rightarrow> 'a \<Rightarrow> 'a option" where
  "iterate f 0 x = Some x"
| "iterate f (Suc n) x = Option.bind (f x) (iterate f n)"

definition civil_number :: "civil \<Rightarrow> int" where
  "civil_number x = (case x of (y, m, d) \<Rightarrow> day_number y m d)"

definition civil_ok :: "civil \<Rightarrow> bool" where
  "civil_ok x = (case x of (y, m, d) \<Rightarrow> valid_ymd y m d)"

definition civil_dates :: "civil date_lib" where
  "civil_dates = \<lparr>dl_ok = civil_ok, dl_from = (\<lambda>y m d. if valid_ymd y m d then Some (y, m, d) else None),
     dl_year = fst, dl_month = fst \<circ> snd, dl_day = snd \<circ> snd,
     dl_weekday = (\<lambda>x. nat ((civil_number x - 1) mod 7 + 1)),
     dl_add = (\<lambda>x n. if 0 \<le> n then iterate next_date (nat n) x else iterate prev_date (nat (- n)) x)\<rparr>"

lemma days_before_next:
  assumes "1 \<le> m" "m < 12"
  shows "days_before y (m + 1) = days_before y m + int (month_days y m)"
proof -
  have "m \<in> {1, 2, 3, 4, 5, 6, 7, 8, 9, 10, 11}" using assms by (simp; presburger)
  then show ?thesis by (elim insertE; simp add: days_before_def month_days_def)
qed

lemma next_date_number:
  assumes "civil_ok x"
  shows "case next_date x of None \<Rightarrow> civil_number x = day_number 9999 12 31
    | Some z \<Rightarrow> civil_ok z \<and> civil_number z = civil_number x + 1"
proof -
  obtain y m d where x: "x = (y, m, d)" by (cases x) auto
  then have v: "valid_ymd y m d" using assms by (simp add: civil_ok_def)
  consider (day) "d < month_days y m" | (month) "d = month_days y m" "m < 12" | (year) "d = 31" "m = 12"
    using v by (fastforce simp: valid_ymd_def month_days_def)
  then show ?thesis
  proof cases
    case day
    then show ?thesis using v by (auto simp: x civil_ok_def civil_number_def valid_ymd_def day_number_def)
  next
    case month
    then show ?thesis using v days_before_next [of m y] month_days_range [of y "m + 1"]
      by (auto simp: x civil_ok_def civil_number_def valid_ymd_def day_number_def)
  next
    case year
    have "day_number (y + 1) 1 1 = day_number y 12 31 + 1" by (simp add: day_number_def days_before_def year_start_Suc)
    then show ?thesis using year v by (auto simp: x civil_ok_def civil_number_def valid_ymd_def month_days_def)
  qed
qed

lemma prev_date_number:
  assumes "civil_ok x"
  shows "case prev_date x of None \<Rightarrow> civil_number x = day_number (- 9999) 1 1
    | Some z \<Rightarrow> civil_ok z \<and> civil_number z = civil_number x - 1"
proof -
  obtain y m d where x: "x = (y, m, d)" by (cases x) auto
  then have v: "valid_ymd y m d" using assms by (simp add: civil_ok_def)
  then have "1 \<le> d" "1 \<le> m" by (simp_all add: valid_ymd_def)
  then consider (day) "1 < d" | (month) "d = 1" "1 < m" | (year) "d = 1" "m = 1" by linarith
  then show ?thesis
  proof cases
    case day
    then show ?thesis using v by (auto simp: x civil_ok_def civil_number_def valid_ymd_def day_number_def)
  next
    case month
    then show ?thesis using v days_before_next [of "m - 1" y] month_days_range [of y "m - 1"]
      by (auto simp: x civil_ok_def civil_number_def valid_ymd_def day_number_def)
  next
    case year
    have "day_number y 1 1 - 1 = day_number (y - 1) 12 31"
      using year_start_Suc [of "y - 1"] by (simp add: day_number_def days_before_def)
    then show ?thesis using year v by (auto simp: x civil_ok_def civil_number_def valid_ymd_def month_days_def)
  qed
qed

lemma iterate_number:
  assumes "\<And>x. civil_ok x \<Longrightarrow> (case f x of None \<Rightarrow> civil_number x = e | Some z \<Rightarrow> civil_ok z \<and> civil_number z = civil_number x + s)"
    and "civil_ok x"
  shows "case iterate f n x of None \<Rightarrow> \<exists>k. k < int n \<and> 0 \<le> k \<and> civil_number x + k * s = e
    | Some z \<Rightarrow> civil_ok z \<and> civil_number z = civil_number x + int n * s"
  using assms(2)
proof (induction n arbitrary: x)
  case (Suc n)
  note step = assms(1) [OF Suc.prems]
  show ?case
  proof (cases "f x")
    case None
    then show ?thesis using step by (auto intro!: exI [of _ 0])
  next
    case (Some z)
    then have z: "civil_ok z" "civil_number z = civil_number x + s" using step by simp_all
    show ?thesis
    proof (cases "iterate f n z")
      case None
      then obtain k where k: "k < int n" "0 \<le> k" "civil_number z + k * s = e" using Suc.IH [OF z(1)] by auto
      then show ?thesis using Some None z(2) by (auto intro!: exI [of _ "k + 1"] simp: algebra_simps)
    next
      case (Some w)
      then show ?thesis using \<open>f x = Some z\<close> z Suc.IH [OF z(1)] by (simp add: algebra_simps)
    qed
  qed
qed simp

lemma civil_number_ymd: "number civil_dates x = civil_number x"
  by (cases x) (simp add: civil_dates_def civil_number_def)

lemma civil_dates_laws: "date_laws civil_dates"
  unfolding date_laws_def
proof (intro conjI allI impI)
  fix y m d
  show "case dl_from civil_dates y m d of None \<Rightarrow> \<not> valid_ymd y m d
    | Some x \<Rightarrow> valid_ymd y m d \<and> dl_ok civil_dates x \<and> dl_year civil_dates x = y \<and> dl_month civil_dates x = m \<and> dl_day civil_dates x = d"
    by (simp add: civil_dates_def civil_ok_def)
next
  fix x assume "dl_ok civil_dates x"
  then show "dl_from civil_dates (dl_year civil_dates x) (dl_month civil_dates x) (dl_day civil_dates x) = Some x"
    by (cases x) (simp add: civil_dates_def civil_ok_def)
next
  fix x
  have "0 \<le> (civil_number x - 1) mod 7 + 1" by (simp add: add_nonneg_nonneg)
  then show "int (dl_weekday civil_dates x) = (number civil_dates x - 1) mod 7 + 1"
    unfolding civil_number_ymd by (simp add: civil_dates_def)
next
  fix x :: civil and n assume "dl_ok civil_dates x"
  then have x: "civil_ok x" by (simp add: civil_dates_def)
  have ok: "dl_ok civil_dates z \<longleftrightarrow> civil_ok z" for z by (simp add: civil_dates_def)
  show "case dl_add civil_dates x n of None \<Rightarrow> number civil_dates x + n < day_number (- 9999) 1 1 \<or> day_number 9999 12 31 < number civil_dates x + n
    | Some y \<Rightarrow> dl_ok civil_dates y \<and> number civil_dates y = number civil_dates x + n"
  proof (cases "0 \<le> n")
    case True
    then have "dl_add civil_dates x n = iterate next_date (nat n) x" by (simp add: civil_dates_def)
    then show ?thesis unfolding civil_number_ymd ok
      using iterate_number [where f = next_date and e = "day_number 9999 12 31" and s = 1, OF next_date_number x, of "nat n"] True by (auto split: option.splits)
  next
    case False
    then have "dl_add civil_dates x n = iterate prev_date (nat (- n)) x" by (simp add: civil_dates_def)
    moreover have "\<And>x. civil_ok x \<Longrightarrow> (case prev_date x of None \<Rightarrow> civil_number x = day_number (- 9999) 1 1
      | Some z \<Rightarrow> civil_ok z \<and> civil_number z = civil_number x + - 1)" by (drule prev_date_number) (auto split: option.splits)
    note iterate_number [where f = prev_date and e = "day_number (- 9999) 1 1" and s = "- 1", OF this x, of "nat (- n)"]
    ultimately show ?thesis unfolding civil_number_ymd ok using False by (auto split: option.splits)
  qed
qed

theorem easter_is_sunday_witness:
  "\<exists>easter friday. easter_sunday civil_dates 2026 = Some easter \<and> good_friday civil_dates 2026 = Some friday \<and>
    dl_weekday civil_dates easter = 7 \<and> dl_weekday civil_dates friday = 5 \<and>
    number civil_dates friday = number civil_dates easter - 2 \<and>
    day_number 2026 3 22 \<le> number civil_dates easter \<and> number civil_dates easter \<le> day_number 2026 4 25"
  by (rule easter_is_sunday [OF civil_dates_laws]) simp_all

text \<open>Christmas Day of 2027 is a Saturday, and is kept on the Friday before.\<close>

theorem us_calendar_rules_witness:
  "(case builtin_rules civil_dates ''US'' (2027, 12, 24) of (status, reason, observed, sessions) \<Rightarrow> (status, sessions)) = (''closed'', [])"
proof -
  let ?day = "(2027, 12, 24) :: civil"
  have w: "dl_weekday civil_dates ?day = 5" by code_simp
  have "us_day (is_weekend (dl_weekday civil_dates ?day) \<or>
      us_holiday (dl_month civil_dates ?day) (dl_day civil_dates ?day) (dl_weekday civil_dates ?day) \<or>
      good_friday civil_dates (dl_year civil_dates ?day) = Some ?day)
    (us_half_day (dl_month civil_dates ?day) (dl_day civil_dates ?day) (dl_weekday civil_dates ?day)) = (''closed'', [])"
    unfolding w by (simp add: us_day_def us_holiday_def dated_holiday_def civil_dates_def)
  then show ?thesis
    using us_calendar_rules [OF civil_dates_laws, of ?day] by (simp add: civil_dates_def civil_ok_def valid_ymd_def month_days_def)
qed

end
