(* ===== verification/Calendar_Sources.thy ===== *)
theory Calendar_Sources
  imports Calendar_Dates "HOL-Library.Product_Lexorder"
begin

text \<open>
  The data of \<open>crates/jftrade-calendar\<close>: settings, policies, schedules and snapshots (\<open>manager_types.rs\<close>,
  \<open>snapshot.rs\<close>), the registry of calendar sources (\<open>manager_registry.rs\<close>, \<open>sources.rs\<close>), the overrides and the
  local days of the markets (\<open>manager_policy.rs\<close>), and the checks of \<open>manager_calendar.rs\<close>. The clock, time zones and
  texts of the crates \<open>time\<close> and \<open>jiff\<close> and the Unicode case maps are the parameter \<open>L\<close>; a civil date of \<open>jiff\<close> and
  a date of \<open>time\<close> are the same value.
\<close>

section \<open>Points in time\<close>

text \<open>An \<open>OffsetDateTime\<close>: the date and the nanosecond of the day at an offset in seconds.\<close>

record 'd stamp =
  st_date :: 'd
  st_nanos :: int
  st_offset :: int

record 'd cal_lib = "'d date_lib" +
  cl_upper :: "string \<Rightarrow> string" \<comment> \<open>\<open>str::to_uppercase\<close>\<close>
  cl_lower :: "string \<Rightarrow> string" \<comment> \<open>\<open>str::to_lowercase\<close>\<close>
  cl_debug :: "string \<Rightarrow> string" \<comment> \<open>the \<open>Debug\<close> form of a string\<close>
  cl_date_text :: "'d \<Rightarrow> string"
  cl_range_text :: string \<comment> \<open>the error for a year out of range\<close>
  cl_unix :: "'d stamp \<Rightarrow> int" \<comment> \<open>\<open>unix_timestamp_nanos\<close>; its order is that of \<open>OffsetDateTime\<close>\<close>
  cl_text :: "'d stamp \<Rightarrow> string"
  cl_parse :: "string \<Rightarrow> 'd stamp option"
  cl_plus_hours :: "'d stamp \<Rightarrow> int \<Rightarrow> 'd stamp option"
  cl_instant :: "'d stamp \<Rightarrow> string + int" \<comment> \<open>\<open>to_string().parse::<Timestamp>()\<close>\<close>
  cl_zone :: "string \<Rightarrow> string + unit" \<comment> \<open>\<open>TimeZone::get\<close>\<close>
  cl_local :: "string \<Rightarrow> int \<Rightarrow> 'd \<times> int" \<comment> \<open>\<open>to_zoned\<close>: the local date and minute of the day\<close>
  cl_civil :: "string \<Rightarrow> 'd \<Rightarrow> int \<Rightarrow> string + int \<times> int" \<comment> \<open>a local date and second, as an instant and an offset\<close>
  cl_timestamp :: "int \<Rightarrow> string + int" \<comment> \<open>\<open>Timestamp::from_nanosecond\<close>\<close>
  cl_plus_seconds :: "int \<Rightarrow> int \<Rightarrow> string + int" \<comment> \<open>\<open>Timestamp::checked_add\<close>\<close>
  cl_last_of_month :: "'d \<Rightarrow> 'd"
  cl_stamp :: "int \<Rightarrow> int \<Rightarrow> string + 'd stamp" \<comment> \<open>\<open>from_unix_timestamp_nanos\<close> and \<open>to_offset\<close>\<close>

datatype calendar_manager_error =
    InvalidSettings string
  | ManagerClosed
  | NotRunning
  | UnsupportedMarket string
  | SourceStart string string
  | WorkerStart string

definition settings_error :: "string + 'a \<Rightarrow> calendar_manager_error + 'a" where
  "settings_error r = map_sum InvalidSettings id r"

section \<open>Schedules, snapshots and settings\<close>

record 'd day_schedule =
  ds_market :: string
  ds_date :: "'d stamp"
  ds_status :: string
  ds_sessions :: "calendar_window list"
  ds_reason :: string
  ds_source :: string
  ds_observed :: bool
  ds_updated :: "'d stamp option"

record 'd snapshot =
  sn_market :: string
  sn_source :: string
  sn_from :: "'d stamp"
  sn_to :: "'d stamp"
  sn_schedules :: "'d day_schedule list"
  sn_fetched :: "'d stamp"
  sn_valid_until :: "'d stamp"
  sn_checksum :: string

record source_policy =
  po_market :: string
  po_preferred :: "string list"
  po_enabled :: "string list"
  po_fallback :: bool
  po_require_official :: bool
  po_stale_hours :: int

record manual_override =
  mo_market :: string
  mo_date :: string
  mo_status :: string
  mo_sessions :: "calendar_window list"
  mo_reason :: string
  mo_observed :: bool

record calendar_settings =
  cs_auto_refresh :: bool
  cs_error_notifications :: bool
  cs_refresh_hours :: int
  cs_warmup_markets :: "string list"
  cs_policies :: "source_policy list"
  cs_overrides :: "manual_override list"

record source_descriptor =
  sd_id :: string
  sd_kind :: string
  sd_authority :: string
  sd_markets :: "string list"

definition builtin_source_id :: string where
  "builtin_source_id = ''builtin_rules''"

definition manual_source_id :: string where
  "manual_source_id = ''manual_override''"

section \<open>Markets\<close>

definition normalize_market :: "('d, 'x) cal_lib_scheme \<Rightarrow> string \<Rightarrow> string" where
  "normalize_market L market = cl_upper L (trim market)"

definition supported_market :: "string \<Rightarrow> bool" where
  "supported_market market \<longleftrightarrow> market = ''US'' \<or> market = ''HK'' \<or> mainland market"

text \<open>Keeps the first of equal names and drops empty ones.\<close>

fun push_new :: "string list \<Rightarrow> string list \<Rightarrow> string list" where
  "push_new acc [] = acc"
| "push_new acc (x # xs) = push_new (if x = [] \<or> x \<in> set acc then acc else acc @ [x]) xs"

definition normalized_markets :: "('d, 'x) cal_lib_scheme \<Rightarrow> string list \<Rightarrow> string list" where
  "normalized_markets L markets = push_new [] (map (normalize_market L) markets)"

definition candidate_markets :: "string \<Rightarrow> string list" where
  "candidate_markets market =
     (if market = ''SH'' then [''SH'', ''CN''] else if market = ''SZ'' then [''SZ'', ''CN'']
      else if market = ''CN'' then [''CN'', ''SH'', ''SZ''] else if market = ''HK'' then [''HK''] else [''US''])"

definition market_matches :: "('d, 'x) cal_lib_scheme \<Rightarrow> string \<Rightarrow> string \<Rightarrow> bool" where
  "market_matches L left right =
     (let l = normalize_market L left; r = normalize_market L right
      in l = r \<or> l = ''CN'' \<and> (r = ''SH'' \<or> r = ''SZ'') \<or> r = ''CN'' \<and> (l = ''SH'' \<or> l = ''SZ''))"

definition day_zone :: "string \<Rightarrow> string option" where
  "day_zone market =
     (if market = ''US'' then Some ''America/New_York'' else if market = ''HK'' then Some ''Asia/Hong_Kong''
      else if mainland market then Some ''Asia/Shanghai'' else None)"

definition market_timezone :: "string \<Rightarrow> string option" where
  "market_timezone market = day_zone (upper (trim market))"

text \<open>The midnight of the local day of an instant.\<close>

definition market_day_start :: "('d, 'x) cal_lib_scheme \<Rightarrow> string \<Rightarrow> 'd stamp \<Rightarrow> calendar_manager_error + 'd stamp" where
  "market_day_start L market at =
     (case day_zone market of
        None \<Rightarrow> Inr at
      | Some zone \<Rightarrow>
          rbind (settings_error (cl_instant L at)) (\<lambda>t.
          rbind (settings_error (cl_zone L zone)) (\<lambda>_.
          rbind (settings_error (cl_civil L zone (fst (cl_local L zone t)) 0)) (\<lambda>(n, offset).
          settings_error (cl_stamp L n offset)))))"

definition market_local_date :: "('d, 'x) cal_lib_scheme \<Rightarrow> string \<Rightarrow> 'd stamp \<Rightarrow> calendar_manager_error + 'd" where
  "market_local_date L market at = map_sum id st_date (market_day_start L market at)"

definition market_local_year :: "('d, 'x) cal_lib_scheme \<Rightarrow> string \<Rightarrow> 'd stamp \<Rightarrow> calendar_manager_error + int" where
  "market_local_year L market at = map_sum id (dl_year L) (market_local_date L market at)"

definition same_market_day :: "('d, 'x) cal_lib_scheme \<Rightarrow> 'd stamp \<Rightarrow> 'd stamp \<Rightarrow> string \<Rightarrow> bool" where
  "same_market_day L left right market =
     (case (market_day_start L market left, market_day_start L market right) of
        (Inr l, Inr r) \<Rightarrow> st_date l = st_date r
      | _ \<Rightarrow> st_date left = st_date right)"

text \<open>The range a source is asked for: this year and the next, in the time of the market.\<close>

definition fetch_window :: "('d, 'x) cal_lib_scheme \<Rightarrow> 'd stamp \<Rightarrow> calendar_manager_error + 'd stamp \<times> 'd stamp" where
  "fetch_window L now =
     (case (dl_from L (dl_year L (st_date now)) 1 1, dl_from L (dl_year L (st_date now) + 1) 12 31) of
        (Some from, Some until) \<Rightarrow>
          Inr (\<lparr>st_date = from, st_nanos = 0, st_offset = st_offset now\<rparr>,
               \<lparr>st_date = until, st_nanos = 86399 * 1000000000, st_offset = st_offset now\<rparr>)
      | _ \<Rightarrow> Inl (InvalidSettings (cl_range_text L)))"

definition zoned_to_wire :: "('d, 'x) cal_lib_scheme \<Rightarrow> int \<times> int \<Rightarrow> calendar_manager_error + 'd stamp" where
  "zoned_to_wire L zoned = (case zoned of (n, offset) \<Rightarrow> settings_error (cl_stamp L n offset))"

definition fetch_window_for_market :: "('d, 'x) cal_lib_scheme \<Rightarrow> 'd stamp \<Rightarrow> string \<Rightarrow> calendar_manager_error + 'd stamp \<times> 'd stamp" where
  "fetch_window_for_market L now market =
     (case market_timezone market of
        None \<Rightarrow> fetch_window L now
      | Some zone \<Rightarrow>
          rbind (settings_error (cl_instant L now)) (\<lambda>t.
          rbind (settings_error (cl_zone L zone)) (\<lambda>_.
          let year = dl_year L (fst (cl_local L zone t))
          in rbind (ok_or (dl_from L year 1 1) (InvalidSettings (cl_range_text L))) (\<lambda>from_date.
             rbind (ok_or (dl_from L (year + 1) 12 31) (InvalidSettings (cl_range_text L))) (\<lambda>to_date.
             rbind (settings_error (cl_civil L zone from_date 0)) (\<lambda>from.
             rbind (settings_error (cl_civil L zone to_date 86399)) (\<lambda>until.
             rbind (zoned_to_wire L from) (\<lambda>from.
             rbind (zoned_to_wire L until) (\<lambda>until. Inr (from, until))))))))))"

section \<open>The registry of sources\<close>

record source_registry =
  rg_sources :: "(string, source_descriptor) bmap" \<comment> \<open>the descriptor each source reports\<close>
  rg_order :: "string list"

definition registry_empty :: source_registry where
  "registry_empty = \<lparr>rg_sources = [], rg_order = []\<rparr>"

definition normalized_descriptor :: "('d, 'x) cal_lib_scheme \<Rightarrow> source_descriptor \<Rightarrow> source_descriptor" where
  "normalized_descriptor L d =
     \<lparr>sd_id = trim (sd_id d), sd_kind = trim (sd_kind d), sd_authority = trim (sd_authority d),
      sd_markets = bs_of_list (filter (\<lambda>m. m \<noteq> []) (map (\<lambda>m. cl_upper L (trim m)) (sd_markets d)))\<rparr>"

definition register :: "('d, 'x) cal_lib_scheme \<Rightarrow> source_descriptor \<Rightarrow> source_registry \<Rightarrow> calendar_manager_error + source_registry" where
  "register L source r =
     (let i = sd_id (normalized_descriptor L source)
      in if i = [] then Inl (InvalidSettings ''calendar source id is required'')
         else Inr \<lparr>rg_sources = bm_insert i source (rg_sources r),
                   rg_order = (if bm_get (rg_sources r) i = None then rg_order r @ [i] else rg_order r)\<rparr>)"

definition source :: "source_registry \<Rightarrow> string \<Rightarrow> source_descriptor option" where
  "source r i = bm_get (rg_sources r) (trim i)"

definition descriptors :: "('d, 'x) cal_lib_scheme \<Rightarrow> source_registry \<Rightarrow> source_descriptor list" where
  "descriptors L r = map (normalized_descriptor L) (bm_values (rg_sources r))"

definition source_supports :: "('d, 'x) cal_lib_scheme \<Rightarrow> source_descriptor \<Rightarrow> string \<Rightarrow> bool" where
  "source_supports L d market =
     list_ex (\<lambda>m. let c = cl_upper L (trim m) in c = market \<or> c = ''CN'' \<and> (market = ''SH'' \<or> market = ''SZ'')) (sd_markets d)"

definition enabled_ids :: "source_policy \<Rightarrow> string list" where
  "enabled_ids policy = filter (\<lambda>i. i \<noteq> []) (map trim (po_enabled policy))"

text \<open>The preferred sources first, then the others in the order of their registration.\<close>

definition ordered_sources :: "('d, 'x) cal_lib_scheme \<Rightarrow> source_registry \<Rightarrow> string \<Rightarrow> source_policy \<Rightarrow> source_descriptor list" where
  "ordered_sources L r market policy =
     (let enabled = enabled_ids policy;
          ids = map trim (po_preferred policy) @ rg_order r;
          kept = filter (\<lambda>i. enabled = [] \<or> i \<in> set enabled) ids;
          once = rev (remdups (rev kept))
      in filter (\<lambda>d. source_supports L d market) (List.map_filter (source r) once))"

definition ordered_source_ids :: "('d, 'x) cal_lib_scheme \<Rightarrow> source_registry \<Rightarrow> string \<Rightarrow> source_policy \<Rightarrow> string list" where
  "ordered_source_ids L r market policy = map (\<lambda>d. trim (sd_id d)) (ordered_sources L r market policy)"

definition lifecycle_sources :: "source_registry \<Rightarrow> source_descriptor list" where
  "lifecycle_sources r = List.map_filter (source r) (rg_order r)"

section \<open>Policies\<close>

definition default_policy :: "string \<Rightarrow> source_policy" where
  "default_policy market = \<lparr>po_market = market, po_preferred = [], po_enabled = [], po_fallback = True,
     po_require_official = False, po_stale_hours = 0\<rparr>"

definition policy_for_market :: "('d, 'x) cal_lib_scheme \<Rightarrow> calendar_settings \<Rightarrow> string \<Rightarrow> source_policy" where
  "policy_for_market L settings market =
     (let named = (\<lambda>name. find (\<lambda>p. normalize_market L (po_market p) = name) (cs_policies settings))
      in case named market of
           Some p \<Rightarrow> p
         | None \<Rightarrow>
             (case (if market = ''SH'' \<or> market = ''SZ'' then named ''CN'' else None) of
                Some p \<Rightarrow> p
              | None \<Rightarrow> default_policy market))"

definition policy_source_ids :: "source_policy \<Rightarrow> string list" where
  "policy_source_ids policy =
     (let enabled = enabled_ids policy
      in push_new [] (filter (\<lambda>i. enabled = [] \<or> i \<in> set enabled) (map trim (po_preferred policy @ po_enabled policy))))"

definition source_enabled :: "calendar_settings \<Rightarrow> string \<Rightarrow> bool" where
  "source_enabled settings i \<longleftrightarrow>
     trim i = builtin_source_id \<or> trim i = manual_source_id \<or>
     list_ex (\<lambda>p. list_ex (\<lambda>e. trim e = i) (po_enabled p)) (cs_policies settings)"

definition validate_settings :: "('d, 'x) cal_lib_scheme \<Rightarrow> calendar_settings \<Rightarrow> calendar_manager_error + unit" where
  "validate_settings L settings =
     (if cs_refresh_hours settings < 0 then Inl (InvalidSettings ''refreshIntervalHours must not be negative'')
      else case find (\<lambda>m. \<not> supported_market (normalize_market L m)) (cs_warmup_markets settings) of
             Some m \<Rightarrow> Inl (UnsupportedMarket m)
           | None \<Rightarrow> Inr ())"

text \<open>The ids of the settings, with the old name of the source for Hong Kong.\<close>

definition normalize_source_ids :: "string list \<Rightarrow> string list" where
  "normalize_source_ids values =
     push_new [] (map (\<lambda>v. if trim v = ''hkex_official'' then ''hk_gov_1823_ical'' else trim v) values)"

section \<open>Overrides and built-in days\<close>

definition schedule_status :: "('d, 'x) cal_lib_scheme \<Rightarrow> string \<Rightarrow> string" where
  "schedule_status L status =
     (let s = cl_lower L (trim status)
      in if s \<in> set [''open'', ''closed'', ''early_close'', ''special''] then s else ''unknown'')"

definition normalize_session_kind :: "('d, 'x) cal_lib_scheme \<Rightarrow> string \<Rightarrow> string" where
  "normalize_session_kind L kind =
     (let k = cl_lower L (trim kind)
      in if k \<in> set [''closed'', ''pre'', ''regular'', ''after'', ''overnight''] then k else ''unknown'')"

definition schedule_from_manual :: "('d, 'x) cal_lib_scheme \<Rightarrow> manual_override \<Rightarrow> string \<Rightarrow> 'd stamp \<Rightarrow> 'd day_schedule" where
  "schedule_from_manual L manual market at =
     \<lparr>ds_market = market, ds_date = at, ds_status = schedule_status L (mo_status manual),
      ds_sessions = sort_key (\<lambda>s. (sw_start s, sw_end s))
        (map (\<lambda>s. s\<lparr>sw_kind := normalize_session_kind L (sw_kind s)\<rparr>)
          (filter (\<lambda>s. sw_start s < sw_end s) (mo_sessions manual))),
      ds_reason = trim (mo_reason manual), ds_source = manual_source_id, ds_observed = mo_observed manual, ds_updated = None\<rparr>"

definition manual_schedule_for_date ::
  "('d, 'x) cal_lib_scheme \<Rightarrow> calendar_settings \<Rightarrow> string \<Rightarrow> string \<Rightarrow> 'd stamp \<Rightarrow> 'd day_schedule option" where
  "manual_schedule_for_date L settings market date at =
     map_option (\<lambda>manual. schedule_from_manual L manual market at)
       (find (\<lambda>manual. let m = normalize_market L (mo_market manual)
              in (m = market \<or> m = ''CN'' \<and> (market = ''SH'' \<or> market = ''SZ'')) \<and> trim (mo_date manual) = date)
         (cs_overrides settings))"

definition explicit_utc_date_input :: "'d stamp \<Rightarrow> bool" where
  "explicit_utc_date_input at \<longleftrightarrow> st_offset at = 0 \<and> st_nanos at = 0"

definition manual_schedule_with_raw_fallback ::
  "('d, 'x) cal_lib_scheme \<Rightarrow> calendar_settings \<Rightarrow> string \<Rightarrow> 'd stamp \<Rightarrow> 'd stamp \<Rightarrow> 'd day_schedule option" where
  "manual_schedule_with_raw_fallback L settings market normalized raw =
     (case manual_schedule_for_date L settings market (cl_date_text L (st_date normalized)) normalized of
        Some s \<Rightarrow> Some s
      | None \<Rightarrow>
          if \<not> explicit_utc_date_input raw \<or> st_date raw = st_date normalized then None
          else manual_schedule_for_date L settings market (cl_date_text L (st_date raw)) normalized)"

definition builtin_schedule :: "('d, 'x) cal_lib_scheme \<Rightarrow> string \<Rightarrow> 'd stamp \<Rightarrow> 'd day_schedule" where
  "builtin_schedule L market at =
     (case builtin_rules L market (st_date at) of
        (status, reason, observed, sessions) \<Rightarrow>
          \<lparr>ds_market = market, ds_date = at, ds_status = status, ds_sessions = sessions, ds_reason = reason,
           ds_source = builtin_source_id, ds_observed = observed, ds_updated = None\<rparr>)"

section \<open>Snapshots\<close>

definition is_zero_timestamp :: "('d, 'x) cal_lib_scheme \<Rightarrow> 'd stamp \<Rightarrow> bool" where
  "is_zero_timestamp L s \<longleftrightarrow>
     dl_year L (st_date s) = 1 \<and> dl_month L (st_date s) = 1 \<and> dl_day L (st_date s) = 1 \<and> st_nanos s = 0 \<and> st_offset s = 0"

fun windows_apart :: "int option \<Rightarrow> calendar_window list \<Rightarrow> string + unit" where
  "windows_apart prev_end [] = Inr ()"
| "windows_apart prev_end (s # rest) =
     (if sw_start s < 0 \<or> 1440 < sw_end s \<or> sw_end s \<le> sw_start s
      then Inl ''session window must be within one day and open before close''
      else if is_some_and prev_end (\<lambda>e. sw_start s < e) then Inl ''session windows must not overlap''
      else windows_apart (Some (sw_end s)) rest)"

definition validate_session_windows :: "calendar_window list \<Rightarrow> string + unit" where
  "validate_session_windows sessions = windows_apart None (sort_key (\<lambda>s. (sw_start s, sw_end s)) sessions)"

definition schedule_within_market_range ::
  "('d, 'x) cal_lib_scheme \<Rightarrow> 'd stamp \<Rightarrow> 'd stamp \<Rightarrow> 'd stamp \<Rightarrow> string \<Rightarrow> bool" where
  "schedule_within_market_range L schedule from until market =
     (case (market_local_date L market schedule, market_local_date L market from, market_local_date L market until) of
        (Inr s, Inr f, Inr t) \<Rightarrow> number L f \<le> number L s \<and> number L s \<le> number L t
      | _ \<Rightarrow> False)"

definition validate_schedule :: "('d, 'x) cal_lib_scheme \<Rightarrow> string \<Rightarrow> 'd snapshot \<Rightarrow> 'd day_schedule \<Rightarrow> string + unit" where
  "validate_schedule L market snapshot s =
     (if is_zero_timestamp L (ds_date s) then Inl ''schedule has empty date''
      else if \<not> market_matches L (ds_market s) market then Inl ''snapshot schedule market does not match snapshot market''
      else if \<not> schedule_within_market_range L (ds_date s) (sn_from snapshot) (sn_to snapshot) market
      then Inl ''snapshot schedule is outside its market or range''
      else validate_session_windows (ds_sessions s))"

definition validate_snapshot :: "('d, 'x) cal_lib_scheme \<Rightarrow> 'd snapshot \<Rightarrow> string + unit" where
  "validate_snapshot L snapshot =
     (let market = normalize_market L (sn_market snapshot)
      in if blank (sn_source snapshot) \<or> blank (sn_market snapshot) then Inl ''snapshot marketCode and sourceId are required''
         else if \<not> supported_market market then Inl (''unsupported snapshot market '' @ cl_debug L (sn_market snapshot))
         else if is_zero_timestamp L (sn_from snapshot) \<or> is_zero_timestamp L (sn_to snapshot) then Inl ''missing snapshot range''
         else if cl_unix L (sn_to snapshot) < cl_unix L (sn_from snapshot) then Inl ''snapshot range is invalid''
         else if sn_schedules snapshot = [] then Inl ''no schedules parsed''
         else try_fold (\<lambda>_ s. validate_schedule L market snapshot s) () (sn_schedules snapshot))"

definition year_text :: "int \<Rightarrow> string" where
  "year_text y = (if y < 0 then ''-'' @ pad_zero 3 (nat_text (nat (- y))) else pad_zero 4 (nat_text (nat y)))"

definition snapshot_key :: "('d, 'x) cal_lib_scheme \<Rightarrow> string \<Rightarrow> string \<Rightarrow> int \<Rightarrow> string" where
  "snapshot_key L source_id market year = trim source_id @ ''|'' @ normalize_market L market @ ''|'' @ year_text year"

definition snapshot_identity :: "('d, 'x) cal_lib_scheme \<Rightarrow> 'd snapshot \<Rightarrow> string" where
  "snapshot_identity L s =
     trim (sn_source s) @ ''|'' @ normalize_market L (sn_market s) @ ''|'' @ cl_text L (sn_from s) @ ''|'' @ cl_text L (sn_to s)"

definition snapshot_fresh :: "('d, 'x) cal_lib_scheme \<Rightarrow> 'd snapshot \<Rightarrow> source_policy \<Rightarrow> 'd stamp \<Rightarrow> bool" where
  "snapshot_fresh L snapshot policy now \<longleftrightarrow>
     \<not> (\<not> is_zero_timestamp L (sn_valid_until snapshot) \<and> cl_unix L (sn_valid_until snapshot) < cl_unix L now) \<and>
     \<not> (0 < po_stale_hours policy \<and> \<not> is_zero_timestamp L (sn_fetched snapshot) \<and>
        (case cl_plus_hours L (sn_fetched snapshot) (po_stale_hours policy) of
           None \<Rightarrow> True | Some expiry \<Rightarrow> cl_unix L expiry < cl_unix L now))"

section \<open>The files of the snapshots\<close>

datatype store_error = EmptyRoot | MissingIdentity | UnsafeIdentity | MissingYear

definition safe_component :: "string \<Rightarrow> bool" where
  "safe_component v \<longleftrightarrow>
     v \<noteq> ''.'' \<and> v \<noteq> ''..'' \<and> \<not> list_ex (\<lambda>c. c = CHR ''/'' \<or> c = CHR 0x5C \<or> c = CHR '':'' \<or> c = CHR 0x00) v"

definition snapshot_year :: "('d, 'x) cal_lib_scheme \<Rightarrow> 'd snapshot \<Rightarrow> int option" where
  "snapshot_year L s =
     opt_filter (\<lambda>y. 0 < y)
       (map_option (\<lambda>t. dl_year L (st_date t))
         (find (\<lambda>t. \<not> is_zero_timestamp L t) (sn_from s # sn_to s # map ds_date (sn_schedules s))))"

text \<open>The path below the root of the store, as its components.\<close>

definition snapshot_path :: "('d, 'x) cal_lib_scheme \<Rightarrow> 'd snapshot \<Rightarrow> store_error + string list" where
  "snapshot_path L s =
     (let market = cl_upper L (trim (sn_market s)); source_id = trim (sn_source s)
      in if market = [] \<or> source_id = [] then Inl MissingIdentity
         else if \<not> safe_component market \<or> \<not> safe_component source_id then Inl UnsafeIdentity
         else case snapshot_year L s of
                None \<Rightarrow> Inl MissingYear
              | Some year \<Rightarrow> Inr [market, year_text year, source_id @ ''.json''])"

section \<open>Paths\<close>

text \<open>The file of a snapshot lies three levels below the root: no component leads elsewhere.\<close>

lemma year_text_safe: "safe_component (year_text y)"
proof -
  have d: "c \<noteq> CHR ''/''" "c \<noteq> CHR 0x5C" "c \<noteq> CHR '':''" "c \<noteq> CHR 0x00" "c \<noteq> CHR ''.''" if "is_digit c" for c
    using that by (auto simp: is_digit_def byte_def)
  have z: "list_all is_digit (pad_zero n (nat_text k))" for n k
    using all_digits_nat_text [of k] by (auto simp: pad_zero_def all_digits_def list_all_iff is_digit_def byte_def)
  have len: "2 < length (pad_zero n (nat_text k))" if "2 < n" for n k using that by (simp add: pad_zero_def)
  have part: "\<not> list_ex (\<lambda>c. c = CHR ''/'' \<or> c = CHR 0x5C \<or> c = CHR '':'' \<or> c = CHR 0x00) s" if "list_all is_digit s" for s
    using that by (induction s) (auto dest: d)
  have digits: "safe_component s" if "list_all is_digit s" "2 < length s" for s
    using part [OF that(1)] that(2) by (auto simp: safe_component_def)
  have minus: "safe_component (CHR ''-'' # s)" if "list_all is_digit s" for s
    using part [OF that] by (simp add: safe_component_def)
  show ?thesis
  proof (cases "y < 0")
    case True
    then show ?thesis using minus [OF z] by (simp add: year_text_def)
  next
    case False
    then show ?thesis using digits [OF z len] by (simp add: year_text_def)
  qed
qed

theorem snapshot_stays_below_root:
  assumes "snapshot_path L s = Inr path"
  shows "length path = 3 \<and> list_all safe_component path"
proof -
  obtain market i year where p: "path = [market, year_text year, i @ ''.json'']" "safe_component market" "safe_component i"
    using assms by (auto simp: snapshot_path_def Let_def split: if_splits option.splits)
  have "safe_component (i @ ''.json'')" using p(3) by (cases i) (auto simp: safe_component_def list_ex_iff)
  then show ?thesis using p year_text_safe by simp
qed

end
