(* ===== verification/Calendar_Manager.thy ===== *)
theory Calendar_Manager
  imports Calendar_Sources
begin

text \<open>
  The calendar manager of \<open>crates/jftrade-calendar\<close>: \<open>manager.rs\<close> (life cycle, worker, refresh, cache, answer of a
  day), \<open>manager_probe.rs\<close>, \<open>manager_session.rs\<close> and \<open>candle.rs\<close>. What the outside does during an operation, the
  answers of the sources, of the store and of the thread library, whether the manager was cancelled meanwhile and
  the clock, which does not move during an operation, is the environment \<open>E\<close> of the operation. A poisoned lock is
  not modelled.
\<close>

section \<open>State\<close>

record source_status =
  ss_id :: string
  ss_enabled :: bool
  ss_last_success :: "string option"
  ss_last_failure :: "string option"
  ss_last_error :: string
  ss_failures :: int
  ss_next_refresh :: "string option"
  ss_last_fetched :: "string option"
  ss_last_probe :: "string option"
  ss_probe_success :: "string option"
  ss_probe_failure :: "string option"
  ss_probe_status :: string
  ss_probe_error :: string
  ss_probe_market :: string
  ss_probe_schedules :: int
  ss_health :: string
  ss_fingerprint :: string
  ss_last_alert :: "string option"
  ss_alert_status :: string
  ss_alert_fingerprint :: string

definition status_default :: source_status where
  "status_default = \<lparr>ss_id = [], ss_enabled = False, ss_last_success = None, ss_last_failure = None, ss_last_error = [],
     ss_failures = 0, ss_next_refresh = None, ss_last_fetched = None, ss_last_probe = None, ss_probe_success = None,
     ss_probe_failure = None, ss_probe_status = [], ss_probe_error = [], ss_probe_market = [], ss_probe_schedules = 0,
     ss_health = [], ss_fingerprint = [], ss_last_alert = None, ss_alert_status = [], ss_alert_fingerprint = []\<rparr>"

datatype lifecycle_state = New | Running | Closed

datatype manager_command = Reload | Stop

datatype source_call = StartSource string | CloseSource string

record 'd manager =
  mg_registry :: source_registry
  mg_persistent :: bool
  mg_settings :: calendar_settings
  mg_snapshots :: "(string, 'd snapshot) bmap"
  mg_statuses :: "(string, source_status) bmap"
  mg_cancelled :: bool
  mg_state :: lifecycle_state
  mg_sender :: bool \<comment> \<open>the manager holds the sender of the commands\<close>
  mg_queue :: "manager_command option" \<comment> \<open>the channel, of capacity one\<close>
  mg_worker :: bool
  mg_started :: "string list"
  mg_saved :: "'d snapshot list" \<comment> \<open>what was read from or written to the store, for the statements only\<close>
  mg_calls :: "source_call list" \<comment> \<open>calls of \<open>start\<close> that succeeded and of \<open>close\<close>, for the statements only\<close>

record 'd environment =
  en_now :: "'d stamp"
  en_cancelled :: "string \<Rightarrow> bool" \<comment> \<open>cancelled, when asked before this source\<close>
  en_fetch :: "string \<Rightarrow> string \<Rightarrow> 'd stamp \<Rightarrow> 'd stamp \<Rightarrow> string + 'd snapshot"
  en_save :: "'d snapshot \<Rightarrow> string option" \<comment> \<open>the error\<close>
  en_delete :: "'d snapshot \<Rightarrow> string option"
  en_loaded :: "'d snapshot list"
  en_load_errors :: "string list"
  en_start :: "string \<Rightarrow> string option"
  en_spawn :: "string option"

record refresh_result =
  rr_accepted :: bool
  rr_market :: string
  rr_updated :: int
  rr_failures :: int
  rr_skipped :: int
  rr_requested_at :: string
  rr_warmup :: "string list"

definition sat_add :: "int \<Rightarrow> int \<Rightarrow> int" where
  "sat_add a b = max (- (2 ^ 31)) (min (2 ^ 31 - 1) (a + b))"

definition manager_new :: "('d, 'x) cal_lib_scheme \<Rightarrow> source_registry \<Rightarrow> bool \<Rightarrow> calendar_settings \<Rightarrow> calendar_manager_error + 'd manager" where
  "manager_new L registry persistent settings =
     rbind (validate_settings L settings) (\<lambda>_.
     Inr \<lparr>mg_registry = registry, mg_persistent = persistent, mg_settings = settings, mg_snapshots = [], mg_statuses = [],
          mg_cancelled = False, mg_state = New, mg_sender = False, mg_queue = None, mg_worker = False, mg_started = [],
          mg_saved = [], mg_calls = []\<rparr>)"

section \<open>Records of success and failure\<close>

definition status_of :: "'d manager \<Rightarrow> string \<Rightarrow> source_status" where
  "status_of m i = (case bm_get (mg_statuses m) i of None \<Rightarrow> status_default | Some s \<Rightarrow> s)"

definition set_status :: "string \<Rightarrow> source_status \<Rightarrow> 'd manager \<Rightarrow> 'd manager" where
  "set_status i s m = m\<lparr>mg_statuses := bm_insert i s (mg_statuses m)\<rparr>"

definition record_success :: "('d, 'x) cal_lib_scheme \<Rightarrow> 'd stamp \<Rightarrow> 'd snapshot \<Rightarrow> 'd manager \<Rightarrow> 'd manager" where
  "record_success L now s m =
     set_status (sn_source s)
       ((status_of m (sn_source s))\<lparr>ss_id := sn_source s, ss_last_success := Some (cl_text L now), ss_last_failure := None,
          ss_last_error := [], ss_failures := 0, ss_next_refresh := None, ss_last_fetched := Some (cl_text L (sn_fetched s)),
          ss_health := ''healthy'', ss_fingerprint := []\<rparr>) m"

definition backoff_hours :: "int \<Rightarrow> int" where
  "backoff_hours failures = max 1 (min 24 failures)"

definition record_failure :: "('d, 'x) cal_lib_scheme \<Rightarrow> 'd stamp \<Rightarrow> string \<Rightarrow> string \<Rightarrow> 'd manager \<Rightarrow> 'd manager" where
  "record_failure L now source_id error m =
     (let i = trim source_id; s = status_of m i; failures = sat_add (ss_failures s) 1
      in set_status i
        (s\<lparr>ss_id := i, ss_last_failure := Some (cl_text L now), ss_last_error := error, ss_failures := failures,
           ss_next_refresh := map_option (cl_text L) (cl_plus_hours L now (backoff_hours failures)), ss_health := ''unhealthy''\<rparr>) m)"

definition in_backoff :: "('d, 'x) cal_lib_scheme \<Rightarrow> 'd stamp \<Rightarrow> string \<Rightarrow> 'd manager \<Rightarrow> bool" where
  "in_backoff L now source_id m =
     (case Option.bind (bm_get (mg_statuses m) source_id) ss_next_refresh of
        None \<Rightarrow> False
      | Some text \<Rightarrow> is_some_and (cl_parse L text) (\<lambda>t. cl_unix L now < cl_unix L t))"

section \<open>The cache\<close>

definition cache_years :: "('d, 'x) cal_lib_scheme \<Rightarrow> 'd snapshot \<Rightarrow> calendar_manager_error + int list" where
  "cache_years L s =
     rbind (market_local_year L (sn_market s) (sn_from s)) (\<lambda>first.
     rbind (market_local_year L (sn_market s) (sn_to s)) (\<lambda>last.
     Inr [first..max last first]))"

definition insert_years :: "('d, 'x) cal_lib_scheme \<Rightarrow> 'd snapshot \<Rightarrow> int list \<Rightarrow> (string, 'd snapshot) bmap \<Rightarrow> (string, 'd snapshot) bmap" where
  "insert_years L s years cache = fold (\<lambda>y. bm_insert (snapshot_key L (sn_source s) (sn_market s) y) s) years cache"

definition cache_snapshot :: "('d, 'x) cal_lib_scheme \<Rightarrow> 'd snapshot \<Rightarrow> 'd manager \<Rightarrow> calendar_manager_error + 'd manager" where
  "cache_snapshot L s m =
     rbind (cache_years L s) (\<lambda>years. Inr (m\<lparr>mg_snapshots := insert_years L s years (mg_snapshots m)\<rparr>))"

section \<open>Refresh\<close>

text \<open>An operation that can fail keeps what it has done: the state, and the error or the result.\<close>

type_synonym ('d, 'a) outcome = "'d manager \<times> (calendar_manager_error + 'a)"

definition count_failure :: "refresh_result \<Rightarrow> refresh_result" where
  "count_failure r = r\<lparr>rr_failures := sat_add (rr_failures r) 1\<rparr>"

definition count_update :: "refresh_result \<Rightarrow> refresh_result" where
  "count_update r = r\<lparr>rr_updated := sat_add (rr_updated r) 1\<rparr>"

definition count_skip :: "refresh_result \<Rightarrow> refresh_result" where
  "count_skip r = r\<lparr>rr_skipped := sat_add (rr_skipped r) 1\<rparr>"

text \<open>A source may leave its name and its market out.\<close>

definition complete :: "string \<Rightarrow> string \<Rightarrow> 'd snapshot \<Rightarrow> 'd snapshot" where
  "complete source_id market s =
     s\<lparr>sn_source := (if blank (sn_source s) then source_id else sn_source s),
       sn_market := (if blank (sn_market s) then market else sn_market s)\<rparr>"

definition accept_snapshot ::
  "('d, 'x) cal_lib_scheme \<Rightarrow> 'd environment \<Rightarrow> string \<Rightarrow> 'd snapshot \<Rightarrow> 'd manager \<Rightarrow> refresh_result \<Rightarrow> ('d, refresh_result) outcome" where
  "accept_snapshot L E source_id s m r =
     (let now = en_now E
      in case validate_snapshot L s of
           Inl error \<Rightarrow> (record_failure L now source_id error m, Inr (count_failure r))
         | Inr _ \<Rightarrow>
             (case (if mg_persistent m then en_save E s else None) of
                Some error \<Rightarrow> (record_failure L now source_id error m, Inr (count_failure r))
              | None \<Rightarrow>
                  let m = (if mg_persistent m then m\<lparr>mg_saved := mg_saved m @ [s]\<rparr> else m)
                  in case cache_snapshot L s m of
                       Inl error \<Rightarrow> (m, Inl error)
                     | Inr m \<Rightarrow> (record_success L now s m, Inr (count_update r))))"

fun refresh_sources ::
  "('d, 'x) cal_lib_scheme \<Rightarrow> 'd environment \<Rightarrow> string \<Rightarrow> 'd stamp \<times> 'd stamp \<Rightarrow> string list \<Rightarrow> 'd manager \<Rightarrow> refresh_result \<Rightarrow>
   ('d, refresh_result) outcome" where
  "refresh_sources L E market window [] m r = (m, Inr r)"
| "refresh_sources L E market window (source_id # rest) m r =
     (if in_backoff L (en_now E) source_id m then refresh_sources L E market window rest m (count_skip r)
      else if en_cancelled E source_id then (m, Inr r)
      else case en_fetch E source_id market (fst window) (snd window) of
             Inl error \<Rightarrow> refresh_sources L E market window rest (record_failure L (en_now E) source_id error m) (count_failure r)
           | Inr s \<Rightarrow>
               (case accept_snapshot L E source_id (complete source_id market s) m r of
                  (m, Inl error) \<Rightarrow> (m, Inl error)
                | (m, Inr r) \<Rightarrow> refresh_sources L E market window rest m r))"

definition refresh_market ::
  "('d, 'x) cal_lib_scheme \<Rightarrow> 'd environment \<Rightarrow> string \<Rightarrow> 'd manager \<Rightarrow> ('d, refresh_result) outcome" where
  "refresh_market L E name m =
     (let market = normalize_market L name;
          r = \<lparr>rr_accepted = True, rr_market = market, rr_updated = 0, rr_failures = 0, rr_skipped = 0,
               rr_requested_at = cl_text L (en_now E), rr_warmup = [market]\<rparr>
      in if \<not> supported_market market then (m, Inr r)
         else let policy = policy_for_market L (mg_settings m) market
              in case fetch_window_for_market L (en_now E) market of
                   Inl error \<Rightarrow> (m, Inl error)
                 | Inr window \<Rightarrow>
                     refresh_sources L E market window (ordered_source_ids L (mg_registry m) market policy) m r)"

definition warmup_defaults :: "string list" where
  "warmup_defaults = [''US'', ''HK'', ''CN'']"

fun refresh_markets ::
  "('d, 'x) cal_lib_scheme \<Rightarrow> 'd environment \<Rightarrow> string list \<Rightarrow> 'd manager \<Rightarrow> refresh_result \<Rightarrow> ('d, refresh_result) outcome" where
  "refresh_markets L E [] m acc = (m, Inr acc)"
| "refresh_markets L E (market # rest) m acc =
     (case refresh_market L E market m of
        (m, Inl error) \<Rightarrow> (m, Inl error)
      | (m, Inr r) \<Rightarrow>
          refresh_markets L E rest m
            (acc\<lparr>rr_updated := sat_add (rr_updated acc) (rr_updated r), rr_failures := sat_add (rr_failures acc) (rr_failures r),
                   rr_skipped := sat_add (rr_skipped acc) (rr_skipped r)\<rparr>))"

definition refresh_all :: "('d, 'x) cal_lib_scheme \<Rightarrow> 'd environment \<Rightarrow> 'd manager \<Rightarrow> ('d, refresh_result) outcome" where
  "refresh_all L E m =
     (let warmup = cs_warmup_markets (mg_settings m);
          markets = normalized_markets L (if warmup = [] then warmup_defaults else warmup)
      in refresh_markets L E markets m
           \<lparr>rr_accepted = True, rr_market = [], rr_updated = 0, rr_failures = 0, rr_skipped = 0,
            rr_requested_at = cl_text L (en_now E), rr_warmup = markets\<rparr>)"

definition require_running :: "'d manager \<Rightarrow> calendar_manager_error + unit" where
  "require_running m = (case mg_state m of Running \<Rightarrow> Inr () | Closed \<Rightarrow> Inl ManagerClosed | New \<Rightarrow> Inl NotRunning)"

definition when_running :: "('d manager \<Rightarrow> ('d, 'a) outcome) \<Rightarrow> 'd manager \<Rightarrow> ('d, 'a) outcome" where
  "when_running f m = (case require_running m of Inl error \<Rightarrow> (m, Inl error) | Inr _ \<Rightarrow> f m)"

section \<open>The answer for a day\<close>

definition covering_schedule ::
  "('d, 'x) cal_lib_scheme \<Rightarrow> 'd stamp \<Rightarrow> source_policy \<Rightarrow> 'd manager \<Rightarrow> 'd stamp \<Rightarrow> int \<Rightarrow> string \<Rightarrow> string \<Rightarrow> 'd day_schedule option" where
  "covering_schedule L now policy m at year source_id candidate =
     (case bm_get (mg_snapshots m) (snapshot_key L source_id candidate year) of
        None \<Rightarrow> None
      | Some s \<Rightarrow>
          if snapshot_fresh L s policy now
          then find (\<lambda>d. same_market_day L (ds_date d) at candidate \<and> market_matches L (ds_market d) candidate) (sn_schedules s)
          else None)"

fun find_first :: "('a \<Rightarrow> 'b option) \<Rightarrow> 'a list \<Rightarrow> 'b option" where
  "find_first f [] = None"
| "find_first f (x # xs) = (case f x of Some y \<Rightarrow> Some y | None \<Rightarrow> find_first f xs)"

definition reading_order :: "('d, 'x) cal_lib_scheme \<Rightarrow> source_registry \<Rightarrow> string \<Rightarrow> source_policy \<Rightarrow> string list" where
  "reading_order L registry market policy =
     fold (\<lambda>i ids. if i \<in> set ids then ids else ids @ [i]) (policy_source_ids policy) (ordered_source_ids L registry market policy)"

definition remote_schedule ::
  "('d, 'x) cal_lib_scheme \<Rightarrow> 'd stamp \<Rightarrow> source_policy \<Rightarrow> 'd manager \<Rightarrow> string \<Rightarrow> 'd stamp \<Rightarrow> 'd day_schedule option" where
  "remote_schedule L now policy m market at =
     find_first (\<lambda>source_id. find_first (\<lambda>candidate.
         map_option (\<lambda>d. d\<lparr>ds_market := market, ds_source := source_id\<rparr>)
           (covering_schedule L now policy m at (dl_year L (st_date at)) source_id candidate)) (candidate_markets market))
       (reading_order L (mg_registry m) market policy)"

definition schedule ::
  "('d, 'x) cal_lib_scheme \<Rightarrow> 'd stamp \<Rightarrow> 'd manager \<Rightarrow> string \<Rightarrow> 'd stamp \<Rightarrow> calendar_manager_error + 'd day_schedule option" where
  "schedule L now m name requested =
     (let market = normalize_market L name
      in if \<not> supported_market market then Inl (UnsupportedMarket market)
         else rbind (market_day_start L market requested) (\<lambda>at.
              case manual_schedule_with_raw_fallback L (mg_settings m) market at requested of
                Some d \<Rightarrow> Inr (Some d)
              | None \<Rightarrow>
                  let policy = policy_for_market L (mg_settings m) market
                  in case remote_schedule L now policy m market at of
                       Some d \<Rightarrow> Inr (Some d)
                     | None \<Rightarrow>
                         if po_fallback policy
                         then Inr (Some (builtin_schedule L market
                           (if explicit_utc_date_input requested \<and> is_weekend (dl_weekday L (st_date at)) \<and>
                               \<not> is_weekend (dl_weekday L (st_date requested)) then requested else at)))
                         else Inr None))"

definition classify_session ::
  "('d, 'x) cal_lib_scheme \<Rightarrow> 'd stamp \<Rightarrow> 'd manager \<Rightarrow> string \<Rightarrow> 'd stamp \<Rightarrow> calendar_manager_error + string option" where
  "classify_session L now m name at =
     (let market = upper (trim name)
      in rbind (ok_or (market_timezone market) (UnsupportedMarket market)) (\<lambda>zone.
         rbind (settings_error (cl_instant L at)) (\<lambda>t.
         rbind (settings_error (cl_zone L zone)) (\<lambda>_.
         rbind (market_day_start L market at) (\<lambda>lookup.
         rbind (schedule L now m market lookup) (\<lambda>answer.
         case answer of
           None \<Rightarrow> Inr None
         | Some d \<Rightarrow>
             if ds_status d = ''closed'' \<or> ds_sessions d = [] then Inr None
             else let minute = snd (cl_local L zone t)
                  in Inr (map_option sw_kind (find (\<lambda>w. sw_start w \<le> minute \<and> minute < sw_end w) (ds_sessions d)))))))))"

section \<open>Life cycle\<close>

definition restore_one :: "('d, 'x) cal_lib_scheme \<Rightarrow> 'd environment \<Rightarrow> 'd manager \<Rightarrow> 'd snapshot \<Rightarrow> calendar_manager_error + 'd manager" where
  "restore_one L E m s =
     (case validate_snapshot L s of
        Inr _ \<Rightarrow> rbind (cache_snapshot L s (m\<lparr>mg_saved := mg_saved m @ [s]\<rparr>)) (\<lambda>m. Inr (record_success L (en_now E) s m))
      | Inl error \<Rightarrow>
          let i = trim (sn_source s);
              m = record_failure L (en_now E) i
                (''discard invalid cached snapshot '' @ sn_market s @ ''/'' @ sn_source s @ '': '' @ error) m
          in Inr (case en_delete E s of
                    None \<Rightarrow> m
                  | Some error \<Rightarrow> record_failure L (en_now E) i (''failed to delete invalid cached snapshot: '' @ error) m))"

text \<open>An error ends the restoration; what was restored before it stays.\<close>

fun restore_list :: "('d, 'x) cal_lib_scheme \<Rightarrow> 'd environment \<Rightarrow> 'd manager \<Rightarrow> 'd snapshot list \<Rightarrow> ('d, unit) outcome" where
  "restore_list L E m [] = (m, Inr ())"
| "restore_list L E m (s # rest) =
     (case restore_one L E m s of Inl error \<Rightarrow> (m, Inl error) | Inr m \<Rightarrow> restore_list L E m rest)"

definition restore_snapshots :: "('d, 'x) cal_lib_scheme \<Rightarrow> 'd environment \<Rightarrow> 'd manager \<Rightarrow> ('d, unit) outcome" where
  "restore_snapshots L E m =
     (if \<not> mg_persistent m then (m, Inr ())
      else case restore_list L E m (en_loaded E) of
             (m, Inl error) \<Rightarrow> (m, Inl error)
           | (m, Inr _) \<Rightarrow> (fold (record_failure L (en_now E) builtin_source_id) (en_load_errors E) m, Inr ()))"

definition close_sources :: "string list \<Rightarrow> 'd manager \<Rightarrow> 'd manager" where
  "close_sources started m = m\<lparr>mg_calls := mg_calls m @ map CloseSource (rev started)\<rparr>"

text \<open>Starts the sources in order, up to the first that fails.\<close>

fun start_sources :: "(string \<Rightarrow> string option) \<Rightarrow> string list \<Rightarrow> string list \<Rightarrow> string list \<times> (string \<times> string) option" where
  "start_sources attempt [] started = (started, None)"
| "start_sources attempt (i # rest) started =
     (case attempt i of Some error \<Rightarrow> (started, Some (i, error)) | None \<Rightarrow> start_sources attempt rest (started @ [i]))"

definition give_up :: "string list \<Rightarrow> 'd manager \<Rightarrow> 'd manager" where
  "give_up started m = (close_sources started m)\<lparr>mg_cancelled := True, mg_state := Closed\<rparr>"

definition start :: "('d, 'x) cal_lib_scheme \<Rightarrow> 'd environment \<Rightarrow> 'd manager \<Rightarrow> ('d, unit) outcome" where
  "start L E m =
     (case mg_state m of
        Running \<Rightarrow> (m, Inr ())
      | Closed \<Rightarrow> (m, Inl ManagerClosed)
      | New \<Rightarrow>
          let (started, failure) = start_sources (en_start E) (map sd_id (lifecycle_sources (mg_registry m))) [];
              m = m\<lparr>mg_calls := mg_calls m @ map StartSource started\<rparr>
          in case failure of
               Some (i, error) \<Rightarrow> (give_up started m, Inl (SourceStart i error))
             | None \<Rightarrow>
                 (case restore_snapshots L E m of
                    (m, Inl error) \<Rightarrow> (give_up started m, Inl error)
                  | (m, Inr _) \<Rightarrow>
                      (case en_spawn E of
                         Some error \<Rightarrow> (give_up started m, Inl (WorkerStart error))
                       | None \<Rightarrow>
                           (m\<lparr>mg_state := Running, mg_sender := True, mg_worker := True, mg_started := started,
                              mg_queue := Some Reload\<rparr>, Inr ()))))"

definition try_send :: "manager_command \<Rightarrow> 'd manager \<Rightarrow> 'd manager" where
  "try_send c m = m\<lparr>mg_queue := (case mg_queue m of None \<Rightarrow> Some c | Some d \<Rightarrow> Some d)\<rparr>"

definition close :: "'d manager \<Rightarrow> 'd manager" where
  "close m =
     (if mg_state m = Closed then m
      else let started = mg_started m;
               m = m\<lparr>mg_state := Closed, mg_cancelled := True, mg_started := []\<rparr>;
               m = (if mg_sender m then (try_send Stop m)\<lparr>mg_sender := False\<rparr> else m)
           in close_sources started (m\<lparr>mg_worker := False\<rparr>))"

text \<open>A reload reaches the worker as a command; a channel that is full already holds one.\<close>

definition reload_settings :: "('d, 'x) cal_lib_scheme \<Rightarrow> calendar_settings \<Rightarrow> 'd manager \<Rightarrow> ('d, unit) outcome" where
  "reload_settings L settings m =
     (case validate_settings L settings of
        Inl error \<Rightarrow> (m, Inl error)
      | Inr _ \<Rightarrow>
          if mg_state m = Closed then (m, Inl ManagerClosed)
          else let m = m\<lparr>mg_settings := settings\<rparr>
               in if \<not> mg_sender m then (m, Inr ())
                  else if \<not> mg_worker m then (m, Inl NotRunning)
                  else (try_send Reload m, Inr ()))"

text \<open>What the worker receives after waiting: a command, the end of the channel, or nothing.\<close>

datatype received = Command manager_command | Timeout | Disconnected

definition receive :: "'d manager \<Rightarrow> received \<times> 'd manager" where
  "receive m =
     (case mg_queue m of
        Some c \<Rightarrow> (Command c, m\<lparr>mg_queue := None\<rparr>)
      | None \<Rightarrow> (if mg_sender m then Timeout else Disconnected, m))"

text \<open>A turn of the worker: \<open>None\<close> when its loop ends.\<close>

definition worker_step :: "('d, 'x) cal_lib_scheme \<Rightarrow> 'd environment \<Rightarrow> received \<Rightarrow> 'd manager \<Rightarrow> 'd manager option" where
  "worker_step L E got m =
     (if got = Command Stop \<or> got = Disconnected \<or> mg_cancelled m then None
      else if cs_auto_refresh (mg_settings m) then Some (fst (refresh_all L E m)) else Some m)"

definition worker_turn :: "('d, 'x) cal_lib_scheme \<Rightarrow> 'd environment \<Rightarrow> 'd manager \<Rightarrow> 'd manager" where
  "worker_turn L E m =
     (case receive m of (got, m) \<Rightarrow>
        case worker_step L E got m of None \<Rightarrow> m\<lparr>mg_worker := False\<rparr> | Some m \<Rightarrow> m)"

definition worker_wait_seconds :: "calendar_settings \<Rightarrow> int" where
  "worker_wait_seconds settings = max 1 (cs_refresh_hours settings) * (60 * 60)"

section \<open>Probes\<close>

record probe_item =
  pi_source :: string
  pi_market :: string
  pi_status :: string
  pi_error :: string
  pi_fetched_at :: "string option"
  pi_valid_until :: "string option"
  pi_schedules :: int
  pi_checksum :: string

record probe_result =
  pr_accepted :: bool
  pr_market :: string
  pr_checked_at :: string
  pr_healthy :: int
  pr_failures :: int
  pr_results :: "probe_item list"
  pr_scope :: "string list"

definition probe_item_of :: "('d, 'x) cal_lib_scheme \<Rightarrow> string \<Rightarrow> string \<Rightarrow> bool \<Rightarrow> string + 'd snapshot \<Rightarrow> probe_item" where
  "probe_item_of L source_id market cancelled fetched =
     (case fetched of
        Inl error \<Rightarrow>
          \<lparr>pi_source = source_id, pi_market = market, pi_status = ''unhealthy'',
           pi_error = (if cancelled then ''calendar source operation timed out or was cancelled'' else error),
           pi_fetched_at = None, pi_valid_until = None, pi_schedules = 0, pi_checksum = []\<rparr>
      | Inr s \<Rightarrow>
          if sn_schedules s = []
          then \<lparr>pi_source = source_id, pi_market = market, pi_status = ''unhealthy'', pi_error = ''no schedules parsed'',
                pi_fetched_at = Some (cl_text L (sn_fetched s)), pi_valid_until = Some (cl_text L (sn_valid_until s)),
                pi_schedules = 0, pi_checksum = []\<rparr>
          else \<lparr>pi_source = source_id, pi_market = market, pi_status = ''healthy'', pi_error = [],
                pi_fetched_at = Some (cl_text L (sn_fetched s)), pi_valid_until = Some (cl_text L (sn_valid_until s)),
                pi_schedules = min (2 ^ 31 - 1) (int (length (sn_schedules s))), pi_checksum = sn_checksum s\<rparr>)"

fun contains_text :: "string \<Rightarrow> string \<Rightarrow> bool" where
  "contains_text part [] = (part = [])"
| "contains_text part (c # s) = (strip_prefix part (c # s) \<noteq> None \<or> contains_text part s)"

definition failure_kind :: "probe_item \<Rightarrow> string" where
  "failure_kind item = (if pi_error item = ''no schedules parsed'' then ''structure_changed'' else ''fetch_failed'')"

definition failure_detail :: "probe_item \<Rightarrow> string" where
  "failure_detail item =
     (if failure_kind item = ''structure_changed'' then ''structure_changed''
      else if contains_text ''timed out'' (pi_error item) \<or> contains_text ''cancelled'' (pi_error item)
      then ''network_timeout_or_cancelled'' else trim (pi_error item))"

definition probe_fingerprint :: "probe_item \<Rightarrow> string" where
  "probe_fingerprint item =
     pi_source item @ ''|'' @ pi_market item @ ''|'' @ failure_kind item @ ''|'' @ failure_detail item"

definition probed :: "string \<Rightarrow> probe_item \<Rightarrow> source_status \<Rightarrow> source_status" where
  "probed now item s =
     s\<lparr>ss_id := pi_source item, ss_last_probe := Some now, ss_probe_market := pi_market item,
       ss_probe_schedules := pi_schedules item\<rparr>"

definition probe_succeeded :: "string \<Rightarrow> probe_item \<Rightarrow> source_status \<Rightarrow> source_status" where
  "probe_succeeded now item s =
     (let recovered = (ss_health s = ''unhealthy''); previous = ss_fingerprint s;
          s = (probed now item s)\<lparr>ss_health := ''healthy'', ss_fingerprint := [], ss_last_error := [], ss_failures := 0,
            ss_next_refresh := None, ss_probe_success := Some now, ss_probe_status := ''healthy'', ss_probe_error := []\<rparr>
      in if recovered
         then s\<lparr>ss_last_alert := ss_last_probe s, ss_alert_status := ''recovered'', ss_alert_fingerprint := previous\<rparr> else s)"

definition probe_failed :: "string \<Rightarrow> probe_item \<Rightarrow> source_status \<Rightarrow> source_status" where
  "probe_failed now item s =
     (let fingerprint = probe_fingerprint item;
          should_alert = (ss_health s \<noteq> ''unhealthy'' \<or> ss_fingerprint s \<noteq> fingerprint);
          s = (probed now item s)\<lparr>ss_health := ''unhealthy'', ss_fingerprint := fingerprint, ss_probe_failure := Some now,
            ss_probe_status := ''unhealthy'', ss_probe_error := pi_error item\<rparr>
      in if should_alert
         then s\<lparr>ss_last_alert := ss_last_probe s, ss_alert_status := ''triggered'', ss_alert_fingerprint := fingerprint\<rparr> else s)"

definition update_probe_status :: "('d, 'x) cal_lib_scheme \<Rightarrow> 'd stamp \<Rightarrow> probe_item \<Rightarrow> 'd manager \<Rightarrow> 'd manager" where
  "update_probe_status L now item m =
     (let s = status_of m (pi_source item); text_now = cl_text L now
      in set_status (pi_source item)
           (if pi_status item = ''healthy'' then probe_succeeded text_now item s else probe_failed text_now item s) m)"

text \<open>The probes of a market: the flag says that the operation was cancelled, which ends it.\<close>

fun probe_sources ::
  "('d, 'x) cal_lib_scheme \<Rightarrow> 'd environment \<Rightarrow> string \<Rightarrow> 'd stamp \<times> 'd stamp \<Rightarrow> string list \<Rightarrow> 'd manager \<Rightarrow> probe_result \<Rightarrow>
   'd manager \<times> probe_result \<times> bool" where
  "probe_sources L E market window [] m r = (m, r, False)"
| "probe_sources L E market window (source_id # rest) m r =
     (let item = probe_item_of L source_id market (en_cancelled E source_id) (en_fetch E source_id market (fst window) (snd window));
          r = (if pi_status item = ''healthy'' then r\<lparr>pr_healthy := sat_add (pr_healthy r) 1\<rparr>
               else r\<lparr>pr_failures := sat_add (pr_failures r) 1\<rparr>);
          m = update_probe_status L (en_now E) item m;
          r = r\<lparr>pr_results := pr_results r @ [item]\<rparr>
      in if en_cancelled E source_id then (m, r, True) else probe_sources L E market window rest m r)"

fun probe_markets ::
  "('d, 'x) cal_lib_scheme \<Rightarrow> 'd environment \<Rightarrow> calendar_settings \<Rightarrow> string list \<Rightarrow> 'd manager \<Rightarrow> probe_result \<Rightarrow> ('d, probe_result) outcome" where
  "probe_markets L E settings [] m r = (m, Inr r)"
| "probe_markets L E settings (market # rest) m r =
     (if \<not> supported_market market then probe_markets L E settings rest m r
      else case fetch_window_for_market L (en_now E) market of
             Inl error \<Rightarrow> (m, Inl error)
           | Inr window \<Rightarrow>
               (case probe_sources L E market window
                   (ordered_source_ids L (mg_registry m) market (policy_for_market L settings market)) m r of
                  (m, r, ended) \<Rightarrow> if ended then (m, Inr r) else probe_markets L E settings rest m r))"

definition probe :: "('d, 'x) cal_lib_scheme \<Rightarrow> 'd environment \<Rightarrow> string \<Rightarrow> string list \<Rightarrow> 'd manager \<Rightarrow> ('d, probe_result) outcome" where
  "probe L E target scope m =
     probe_markets L E (mg_settings m) scope m
       \<lparr>pr_accepted = True, pr_market = target, pr_checked_at = cl_text L (en_now E), pr_healthy = 0, pr_failures = 0,
        pr_results = [], pr_scope = scope\<rparr>"

definition probe_market :: "('d, 'x) cal_lib_scheme \<Rightarrow> 'd environment \<Rightarrow> string \<Rightarrow> 'd manager \<Rightarrow> ('d, probe_result) outcome" where
  "probe_market L E name =
     when_running (\<lambda>m. let market = normalize_market L name
       in probe L E market (if mainland market then [''CN''] else [market]) m)"

definition normalized_scope :: "('d, 'x) cal_lib_scheme \<Rightarrow> string list \<Rightarrow> string list" where
  "normalized_scope L markets =
     push_new [] (map (\<lambda>m. if m = ''SH'' \<or> m = ''SZ'' then ''CN'' else m) (normalized_markets L markets))"

definition probe_all :: "('d, 'x) cal_lib_scheme \<Rightarrow> 'd environment \<Rightarrow> 'd manager \<Rightarrow> ('d, probe_result) outcome" where
  "probe_all L E =
     when_running (\<lambda>m. let warmup = cs_warmup_markets (mg_settings m)
       in probe L E [] (normalized_scope L (if warmup = [] then warmup_defaults else warmup)) m)"

section \<open>What the manager reports\<close>

definition source_statuses :: "('d, 'x) cal_lib_scheme \<Rightarrow> 'd manager \<Rightarrow> source_status list" where
  "source_statuses L m =
     map (\<lambda>d. (status_of m (sd_id d))\<lparr>ss_id := sd_id d, ss_enabled := source_enabled (mg_settings m) (sd_id d)\<rparr>)
       (descriptors L (mg_registry m))"

definition snapshots :: "('d, 'x) cal_lib_scheme \<Rightarrow> 'd manager \<Rightarrow> 'd snapshot list" where
  "snapshots L m = bm_values (fold (\<lambda>s. bm_insert (snapshot_identity L s) s) (bm_values (mg_snapshots m)) [])"

section \<open>Candles\<close>

definition candle_zone :: "string \<Rightarrow> string option" where
  "candle_zone market =
     (case market_timezone market of
        Some z \<Rightarrow> Some z
      | None \<Rightarrow>
          if market = ''JP'' then Some ''Asia/Tokyo'' else if market = ''SG'' then Some ''Asia/Singapore''
          else if market = ''MY'' then Some ''Asia/Kuala_Lumpur'' else if market = ''AU'' then Some ''Australia/Sydney''
          else if market = ''CA'' then Some ''America/Toronto'' else None)"

definition requested :: "string list \<Rightarrow> string \<Rightarrow> bool" where
  "requested sessions kind \<longleftrightarrow>
     sessions = [] \<or> ''all'' \<in> set sessions \<or> kind \<in> set sessions \<or>
     ''extended'' \<in> set sessions \<and> (kind = ''pre'' \<or> kind = ''after'')"

definition at_minute :: "('d, 'x) cal_lib_scheme \<Rightarrow> string \<Rightarrow> 'd \<Rightarrow> int \<Rightarrow> calendar_manager_error + int" where
  "at_minute L zone date minute = map_sum id fst (settings_error (cl_civil L zone date (minute * 60)))"

text \<open>The calendar is optional; its clock is \<open>clock\<close>.\<close>

definition schedule_of_day ::
  "('d, 'x) cal_lib_scheme \<Rightarrow> 'd stamp \<Rightarrow> 'd manager option \<Rightarrow> string \<Rightarrow> string \<Rightarrow> 'd \<Rightarrow> calendar_manager_error + 'd day_schedule option" where
  "schedule_of_day L clock calendar market zone date =
     (if \<not> supported_market market then Inr None
      else rbind (settings_error (cl_civil L zone date (12 * 3600))) (\<lambda>(n, _).
           rbind (settings_error (cl_stamp L n 0)) (\<lambda>at.
           case calendar of
             Some m \<Rightarrow> schedule L clock m market at
           | None \<Rightarrow> rbind (market_day_start L market at) (\<lambda>start_of_day. Inr (Some (builtin_schedule L market start_of_day))))))"

definition requested_end :: "string list \<Rightarrow> 'd day_schedule option \<Rightarrow> int option" where
  "requested_end sessions answer =
     (case answer of
        None \<Rightarrow> None
      | Some d \<Rightarrow>
          if ds_status d = ''closed'' then None
          else (case map sw_end (filter (\<lambda>w. requested sessions (sw_kind w)) (ds_sessions d)) of
                  [] \<Rightarrow> None
                | e # ends \<Rightarrow> Some (fold max ends e)))"

text \<open>Looks back from a day for the last one with a requested session; the fuel is the number of days.\<close>

fun last_session_close ::
  "('d, 'x) cal_lib_scheme \<Rightarrow> 'd stamp \<Rightarrow> 'd manager option \<Rightarrow> string \<Rightarrow> string \<Rightarrow> string list \<Rightarrow> nat \<Rightarrow> 'd \<Rightarrow>
   calendar_manager_error + int option" where
  "last_session_close L clock calendar market zone sessions 0 date = Inr None"
| "last_session_close L clock calendar market zone sessions (Suc n) date =
     rbind (schedule_of_day L clock calendar market zone date) (\<lambda>answer.
     case requested_end sessions answer of
       Some e \<Rightarrow> map_sum id Some (at_minute L zone date e)
     | None \<Rightarrow>
         rbind (ok_or (dl_add L date (- 1)) (InvalidSettings (cl_range_text L))) (\<lambda>date.
         last_session_close L clock calendar market zone sessions n date))"

definition period_minutes :: "string \<Rightarrow> int option" where
  "period_minutes period =
     map_of [(''1m'', 1), (''3m'', 3), (''5m'', 5), (''10m'', 10), (''15m'', 15), (''30m'', 30), (''60m'', 60), (''1h'', 60),
       (''120m'', 120), (''2h'', 120), (''180m'', 180), (''3h'', 180), (''240m'', 240), (''4h'', 240)] period"

definition period_end_day :: "('d, 'x) cal_lib_scheme \<Rightarrow> string \<Rightarrow> 'd \<Rightarrow> calendar_manager_error + 'd option" where
  "period_end_day L period date =
     (if period = ''1d'' \<or> period = ''day'' then Inr (Some date)
      else if period = ''1w'' \<or> period = ''week''
      then map_sum id Some (ok_or (dl_add L date (7 - int (dl_weekday L date))) (InvalidSettings (cl_range_text L)))
      else if period = ''1mo'' \<or> period = ''month'' then Inr (Some (cl_last_of_month L date))
      else Inr None)"

definition intraday_close ::
  "('d, 'x) cal_lib_scheme \<Rightarrow> 'd stamp \<Rightarrow> 'd manager option \<Rightarrow> string \<Rightarrow> string \<Rightarrow> string \<Rightarrow> int \<Rightarrow> string list \<Rightarrow>
   calendar_manager_error + int" where
  "intraday_close L clock calendar market zone period open_at sessions =
     rbind (ok_or (period_minutes period) (InvalidSettings (''unsupported candle period '' @ period))) (\<lambda>minutes.
     rbind (settings_error (cl_plus_seconds L open_at (minutes * 60))) (\<lambda>nominal.
     let (date, minute) = cl_local L zone open_at
     in rbind (schedule_of_day L clock calendar market zone date) (\<lambda>answer.
        case Option.bind answer (\<lambda>d. find (\<lambda>w. sw_start w \<le> minute \<and> minute < sw_end w \<and> requested sessions (sw_kind w)) (ds_sessions d)) of
          Some w \<Rightarrow> map_sum id (min nominal) (at_minute L zone date (sw_end w))
        | None \<Rightarrow> Inr nominal)))"

definition candle_close ::
  "('d, 'x) cal_lib_scheme \<Rightarrow> 'd stamp \<Rightarrow> 'd manager option \<Rightarrow> string \<Rightarrow> string \<Rightarrow> string \<Rightarrow> int \<Rightarrow> string list \<Rightarrow>
   calendar_manager_error + int option" where
  "candle_close L clock calendar market zone period open_at sessions =
     (let date = fst (cl_local L zone open_at)
      in rbind (period_end_day L period date) (\<lambda>end_day.
         case end_day of
           None \<Rightarrow> map_sum id Some (intraday_close L clock calendar market zone period open_at sessions)
         | Some final \<Rightarrow>
             if supported_market market
             then last_session_close L clock calendar market zone sessions (nat (number L final - number L date + 1)) final
             else rbind (ok_or (dl_add L final 1) (InvalidSettings (cl_range_text L))) (\<lambda>following.
                  map_sum id Some (at_minute L zone following 0))))"

definition candle_is_closed ::
  "('d, 'x) cal_lib_scheme \<Rightarrow> 'd stamp \<Rightarrow> 'd manager option \<Rightarrow> string \<Rightarrow> string \<Rightarrow> int \<Rightarrow> int \<Rightarrow> string list \<Rightarrow>
   calendar_manager_error + bool" where
  "candle_is_closed L clock calendar market period open_nanos now_nanos sessions =
     rbind (ok_or (candle_zone market) (UnsupportedMarket market)) (\<lambda>zone.
     rbind (settings_error (cl_zone L zone)) (\<lambda>_.
     rbind (settings_error (cl_timestamp L open_nanos)) (\<lambda>open_at.
     rbind (settings_error (cl_timestamp L now_nanos)) (\<lambda>now_at.
     if now_at < open_at then Inr False
     else let period = lower (trim period)
          in if period = ''tick'' then Inr True
             else rbind (candle_close L clock calendar market zone period open_at sessions) (\<lambda>closes.
                  Inr (is_some_and closes (\<lambda>c. c \<le> now_at)))))))"

section \<open>Steps\<close>

datatype 'd manager_op =
    OpStart "'d environment"
  | OpClose
  | OpReload calendar_settings
  | OpRefreshMarket "'d environment" string
  | OpRefreshAll "'d environment"
  | OpProbeMarket "'d environment" string
  | OpProbeAll "'d environment"
  | OpWorker "'d environment"

fun manager_step :: "('d, 'x) cal_lib_scheme \<Rightarrow> 'd manager \<Rightarrow> 'd manager_op \<Rightarrow> 'd manager" where
  "manager_step L m (OpStart E) = fst (start L E m)"
| "manager_step L m OpClose = close m"
| "manager_step L m (OpReload settings) = fst (reload_settings L settings m)"
| "manager_step L m (OpRefreshMarket E market) = fst (when_running (refresh_market L E market) m)"
| "manager_step L m (OpRefreshAll E) = fst (when_running (refresh_all L E) m)"
| "manager_step L m (OpProbeMarket E market) = fst (probe_market L E market m)"
| "manager_step L m (OpProbeAll E) = fst (probe_all L E m)"
| "manager_step L m (OpWorker E) = (if mg_worker m then worker_turn L E m else m)"


section \<open>The invariant\<close>

text \<open>The cache holds valid snapshots under their keys, each of which is in the store if there is one, and a source
waits only after a failure.\<close>

definition cached_ok :: "('d, 'x) cal_lib_scheme \<Rightarrow> 'd manager \<Rightarrow> bool" where
  "cached_ok L m \<longleftrightarrow> list_all (\<lambda>(k, s). validate_snapshot L s = Inr () \<and>
     (\<exists>y. k = snapshot_key L (sn_source s) (sn_market s) y) \<and> (mg_persistent m \<longrightarrow> s \<in> set (mg_saved m))) (mg_snapshots m)"

definition source_status_ok :: "source_status \<Rightarrow> bool" where
  "source_status_ok s \<longleftrightarrow> 0 \<le> ss_failures s \<and> (ss_failures s = 0 \<longrightarrow> ss_next_refresh s = None)"

definition manager_ok :: "('d, 'x) cal_lib_scheme \<Rightarrow> 'd manager \<Rightarrow> bool" where
  "manager_ok L m \<longleftrightarrow> bm_ok (mg_snapshots m) \<and> cached_ok L m \<and> list_all (\<lambda>(_, s). source_status_ok s) (mg_statuses m)"

text \<open>The life of the sources: all are running, or all that were started have been closed, in reverse.\<close>

definition lifecycle_ok :: "'d manager \<Rightarrow> bool" where
  "lifecycle_ok m \<longleftrightarrow>
     (case mg_state m of
        New \<Rightarrow> mg_calls m = [] \<and> mg_started m = [] \<and> \<not> mg_sender m \<and> \<not> mg_worker m \<and> \<not> mg_cancelled m \<and> mg_queue m = None
      | Running \<Rightarrow> mg_calls m = map StartSource (mg_started m) \<and> mg_started m = map sd_id (lifecycle_sources (mg_registry m)) \<and>
          mg_sender m \<and> mg_worker m \<and> \<not> mg_cancelled m \<and> mg_queue m \<noteq> Some Stop
      | Closed \<Rightarrow> (\<exists>xs. mg_calls m = map StartSource xs @ map CloseSource (rev xs)) \<and> mg_started m = [] \<and>
          \<not> mg_sender m \<and> \<not> mg_worker m \<and> mg_cancelled m)"

text \<open>What the operations on the cache and the statuses leave alone.\<close>

definition same_life :: "'d manager \<Rightarrow> 'd manager \<Rightarrow> bool" where
  "same_life m n \<longleftrightarrow> mg_state n = mg_state m \<and> mg_calls n = mg_calls m \<and> mg_started n = mg_started m \<and> mg_sender n = mg_sender m \<and>
     mg_worker n = mg_worker m \<and> mg_cancelled n = mg_cancelled m \<and> mg_queue n = mg_queue m \<and> mg_registry n = mg_registry m \<and>
     mg_persistent n = mg_persistent m \<and> mg_settings n = mg_settings m"

lemma same_life_refl [simp]: "same_life m m"
  by (simp add: same_life_def)

lemma same_life_trans: "same_life a b \<Longrightarrow> same_life b c \<Longrightarrow> same_life a c"
  by (simp add: same_life_def)

lemma same_life_ok: "same_life m n \<Longrightarrow> lifecycle_ok n = lifecycle_ok m"
  by (cases "mg_state m") (simp_all add: same_life_def lifecycle_ok_def)

text \<open>An undisturbed operation keeps the invariant and the life of the manager.\<close>

definition undisturbed :: "('d, 'x) cal_lib_scheme \<Rightarrow> 'd manager \<Rightarrow> 'd manager \<Rightarrow> bool" where
  "undisturbed L m n \<longleftrightarrow> same_life m n \<and> (manager_ok L m \<longrightarrow> manager_ok L n)"

lemma quiet_refl [simp]: "undisturbed L m m"
  by (simp add: undisturbed_def)

lemma quiet_trans: "undisturbed L a b \<Longrightarrow> undisturbed L b c \<Longrightarrow> undisturbed L a c"
  by (auto simp: undisturbed_def intro: same_life_trans)

lemma status_of_ok: "manager_ok L m \<Longrightarrow> source_status_ok (status_of m i)"
  by (auto simp: manager_ok_def status_of_def source_status_ok_def status_default_def list_all_iff dest: bm_get_in_set split: option.splits)

lemma set_status_quiet:
  assumes "manager_ok L m \<Longrightarrow> source_status_ok s"
  shows "undisturbed L m (set_status i s m)"
proof -
  have "list_all (\<lambda>(_, s). source_status_ok s) (bm_insert i s (mg_statuses m))" if "manager_ok L m"
    using bm_insert_all [of "mg_statuses m" "\<lambda>_ s. source_status_ok s" i s] that assms by (simp add: manager_ok_def list_all_iff)
  then show ?thesis by (auto simp: undisturbed_def same_life_def set_status_def manager_ok_def cached_ok_def)
qed

lemma record_success_quiet: "undisturbed L m (record_success L now s m)"
  unfolding record_success_def by (rule set_status_quiet) (simp add: source_status_ok_def)

lemma record_failure_quiet: "undisturbed L m (record_failure L now i e m)"
proof -
  have "source_status_ok (status_of m (trim i)) \<Longrightarrow> 1 \<le> sat_add (ss_failures (status_of m (trim i))) 1"
    by (simp add: source_status_ok_def sat_add_def)
  then show ?thesis
    unfolding record_failure_def Let_def by (intro set_status_quiet) (fastforce simp: source_status_ok_def dest: status_of_ok)
qed

lemma insert_years_entries:
  "set (insert_years L s years cache) \<subseteq> set cache \<union> {(snapshot_key L (sn_source s) (sn_market s) y, s) |y. y \<in> set years}"
proof (induction years arbitrary: cache)
  case (Cons y years)
  show ?case
    using Cons.IH [of "bm_insert (snapshot_key L (sn_source s) (sn_market s) y) s cache"]
      bm_entries_insert [of "snapshot_key L (sn_source s) (sn_market s) y" s cache] by (auto simp: insert_years_def)
qed (simp add: insert_years_def)

lemma insert_years_ok: "bm_ok cache \<Longrightarrow> bm_ok (insert_years L s years cache)"
  unfolding insert_years_def by (induction years arbitrary: cache) auto

lemma cache_snapshot_quiet:
  assumes "cache_snapshot L s m = Inr n" "validate_snapshot L s = Inr ()" "mg_persistent m \<Longrightarrow> s \<in> set (mg_saved m)"
  shows "undisturbed L m n"
proof -
  obtain years where n: "n = m\<lparr>mg_snapshots := insert_years L s years (mg_snapshots m)\<rparr>"
    using assms(1) by (auto simp: cache_snapshot_def rbind_Inr_iff)
  have "cached_ok L n" if "cached_ok L m"
    using that insert_years_entries [of L s years "mg_snapshots m"] assms(2,3) by (fastforce simp: n cached_ok_def list_all_iff)
  then show ?thesis by (auto simp: n undisturbed_def same_life_def manager_ok_def insert_years_ok)
qed

lemma store_quiet: "undisturbed L m (m\<lparr>mg_saved := mg_saved m @ [s]\<rparr>)"
  by (auto simp: undisturbed_def same_life_def manager_ok_def cached_ok_def list_all_iff)

lemma accept_snapshot_quiet: "accept_snapshot L E i s m r = (n, out) \<Longrightarrow> undisturbed L m n"
proof -
  assume out: "accept_snapshot L E i s m r = (n, out)"
  show ?thesis
  proof (cases "validate_snapshot L s")
    case (Inl e)
    then have "n = record_failure L (en_now E) i e m" using out by (simp add: accept_snapshot_def Let_def)
    then show ?thesis by (simp add: record_failure_quiet)
  next
    case (Inr u)
    show ?thesis
    proof (cases "if mg_persistent m then en_save E s else None")
      case (Some e)
      then have "n = record_failure L (en_now E) i e m" using out Inr by (simp add: accept_snapshot_def Let_def)
      then show ?thesis by (simp add: record_failure_quiet)
    next
      case None
      define m' where "m' = (if mg_persistent m then m\<lparr>mg_saved := mg_saved m @ [s]\<rparr> else m)"
      have m': "undisturbed L m m'" by (simp add: m'_def store_quiet)
      show ?thesis
      proof (cases "cache_snapshot L s m'")
        case (Inl e)
        then have "n = m'" using out Inr None by (simp add: accept_snapshot_def Let_def m'_def split: if_splits)
        then show ?thesis using m' by simp
      next
        case c: (Inr k)
        then have "n = record_success L (en_now E) s k" using out Inr None by (simp add: accept_snapshot_def Let_def m'_def split: if_splits)
        moreover have "undisturbed L m' k" by (rule cache_snapshot_quiet [OF c]) (use Inr in \<open>auto simp: m'_def\<close>)
        ultimately show ?thesis using m' record_success_quiet quiet_trans by metis
      qed
    qed
  qed
qed

lemma refresh_sources_quiet: "refresh_sources L E market window ids m r = (n, out) \<Longrightarrow> undisturbed L m n"
proof (induction ids arbitrary: m r)
  case (Cons i ids)
  consider (wait) "in_backoff L (en_now E) i m" | (stop) "\<not> in_backoff L (en_now E) i m" "en_cancelled E i"
    | (attempt) "\<not> in_backoff L (en_now E) i m" "\<not> en_cancelled E i" by blast
  then show ?case
  proof cases
    case wait
    then show ?thesis using Cons by simp
  next
    case stop
    then show ?thesis using Cons.prems by simp
  next
    case attempt
    show ?thesis
    proof (cases "en_fetch E i market (fst window) (snd window)")
      case (Inl e)
      then have "undisturbed L (record_failure L (en_now E) i e m) n" using Cons attempt by simp
      then show ?thesis using record_failure_quiet quiet_trans by metis
    next
      case (Inr s)
      obtain k res where k: "accept_snapshot L E i (complete i market s) m r = (k, res)" by (cases "accept_snapshot L E i (complete i market s) m r") auto
      have "undisturbed L k n" using Cons attempt Inr k by (cases res) auto
      then show ?thesis using accept_snapshot_quiet [OF k] quiet_trans by metis
    qed
  qed
qed simp

lemma refresh_market_quiet: "refresh_market L E name m = (n, out) \<Longrightarrow> undisturbed L m n"
  by (auto simp: refresh_market_def Let_def split: if_splits sum.splits dest: refresh_sources_quiet)

lemma refresh_markets_quiet: "refresh_markets L E markets m acc = (n, out) \<Longrightarrow> undisturbed L m n"
proof (induction markets arbitrary: m acc)
  case (Cons market markets)
  obtain k res where k: "refresh_market L E market m = (k, res)" by (cases "refresh_market L E market m") auto
  have "undisturbed L k n" using Cons k by (cases res) auto
  then show ?case using refresh_market_quiet [OF k] quiet_trans by metis
qed simp

lemma refresh_all_quiet: "refresh_all L E m = (n, out) \<Longrightarrow> undisturbed L m n"
  by (auto simp: refresh_all_def Let_def dest: refresh_markets_quiet)

lemma probe_status_ok: "source_status_ok s \<Longrightarrow> source_status_ok (probe_succeeded now item s) \<and> source_status_ok (probe_failed now item s)"
  by (simp add: probe_succeeded_def probe_failed_def Let_def probed_def source_status_ok_def)

lemma update_probe_quiet: "undisturbed L m (update_probe_status L now item m)"
  unfolding update_probe_status_def Let_def using probe_status_ok status_of_ok by (intro set_status_quiet) (simp; blast)

lemma probe_sources_quiet: "probe_sources L E market window ids m r = (n, out) \<Longrightarrow> undisturbed L m n"
proof (induction ids arbitrary: m r)
  case (Cons i ids)
  let ?k = "update_probe_status L (en_now E)
    (probe_item_of L i market (en_cancelled E i) (en_fetch E i market (fst window) (snd window))) m"
  have "undisturbed L ?k n" using Cons by (cases "en_cancelled E i") (auto simp: Let_def)
  then show ?case using update_probe_quiet quiet_trans by metis
qed simp

lemma probe_markets_quiet: "probe_markets L E settings markets m r = (n, out) \<Longrightarrow> undisturbed L m n"
proof (induction markets arbitrary: m r)
  case (Cons market markets)
  show ?case
  proof (cases "supported_market market")
    case True
    show ?thesis
    proof (cases "fetch_window_for_market L (en_now E) market")
      case (Inr window)
      obtain k r' ended where k: "probe_sources L E market window
        (ordered_source_ids L (mg_registry m) market (policy_for_market L settings market)) m r = (k, r', ended)"
        using prod_cases3 by blast
      have "undisturbed L k n" using Cons True Inr k by (cases ended) auto
      then show ?thesis using probe_sources_quiet [OF k] quiet_trans by metis
    qed (use Cons True in auto)
  qed (use Cons in auto)
qed simp


lemma probe_quiet: "probe L E target scope m = (n, out) \<Longrightarrow> undisturbed L m n"
  by (auto simp: probe_def dest: probe_markets_quiet)

lemma when_running_quiet:
  assumes "\<And>n out. f m = (n, out) \<Longrightarrow> undisturbed L m n"
  shows "undisturbed L m (fst (when_running f m))"
  using assms [of "fst (f m)" "snd (f m)"] by (auto simp: when_running_def split: sum.splits)

lemma restore_list_quiet:
  assumes "mg_persistent m" "restore_list L E m ss = (n, out)"
  shows "undisturbed L m n"
  using assms
proof (induction ss arbitrary: m)
  case (Cons s ss)
  show ?case
  proof (cases "restore_one L E m s")
    case (Inr k)
    have "undisturbed L m k"
    proof (cases "validate_snapshot L s")
      case (Inl e)
      let ?f = "record_failure L (en_now E) (trim (sn_source s))"
      let ?a = "?f (''discard invalid cached snapshot '' @ sn_market s @ ''/'' @ sn_source s @ '': '' @ e) m"
      have "k = ?a \<or> (\<exists>error. k = ?f error ?a)"
        using Inl Inr by (cases "en_delete E s") (simp_all add: restore_one_def Let_def, metis)
      moreover have "undisturbed L m ?a" by (rule record_failure_quiet)
      moreover have "undisturbed L m (?f error ?a)" for error by (rule quiet_trans [OF record_failure_quiet record_failure_quiet])
      ultimately show ?thesis by blast
    next
      case v: (Inr u)
      then obtain c where c: "cache_snapshot L s (m\<lparr>mg_saved := mg_saved m @ [s]\<rparr>) = Inr c" "k = record_success L (en_now E) s c"
        using Inr by (auto simp: restore_one_def rbind_Inr_iff)
      have "undisturbed L (m\<lparr>mg_saved := mg_saved m @ [s]\<rparr>) c" by (rule cache_snapshot_quiet [OF c(1)]) (use v in simp_all)
      then show ?thesis using store_quiet record_success_quiet quiet_trans c(2) by metis
    qed
    moreover from this have "mg_persistent k" using Cons.prems(1) by (simp add: undisturbed_def same_life_def)
    then have "undisturbed L k n" using Cons Inr by simp
    ultimately show ?thesis by (rule quiet_trans)
  qed (use Cons.prems in simp)
qed simp

lemma record_failures_quiet: "undisturbed L m (fold (record_failure L now i) errors m)"
proof (induction errors arbitrary: m)
  case (Cons e errors)
  show ?case using quiet_trans [OF record_failure_quiet Cons.IH] by simp
qed simp

lemma restore_snapshots_quiet: "restore_snapshots L E m = (n, out) \<Longrightarrow> undisturbed L m n"
proof -
  assume out: "restore_snapshots L E m = (n, out)"
  show ?thesis
  proof (cases "mg_persistent m")
    case True
    obtain k res where k: "restore_list L E m (en_loaded E) = (k, res)" by (cases "restore_list L E m (en_loaded E)") auto
    have "undisturbed L k n" using out True k record_failures_quiet by (cases res) (auto simp: restore_snapshots_def)
    then show ?thesis using restore_list_quiet [OF True k] quiet_trans by metis
  qed (use out in \<open>simp add: restore_snapshots_def\<close>)
qed

lemma start_sources_none:
  "start_sources attempt ids started = (xs, None) \<Longrightarrow> xs = started @ ids"
proof (induction ids arbitrary: started)
  case (Cons a ids)
  then show ?case by (cases "attempt a") (simp_all, metis append_Cons append_Nil append_assoc)
qed simp

lemma ok_frame [simp]:
  "manager_ok L (m\<lparr>mg_state := st\<rparr>) = manager_ok L m" "manager_ok L (m\<lparr>mg_calls := cs\<rparr>) = manager_ok L m"
  "manager_ok L (m\<lparr>mg_sender := b\<rparr>) = manager_ok L m" "manager_ok L (m\<lparr>mg_worker := b\<rparr>) = manager_ok L m"
  "manager_ok L (m\<lparr>mg_started := xs\<rparr>) = manager_ok L m" "manager_ok L (m\<lparr>mg_queue := q\<rparr>) = manager_ok L m"
  "manager_ok L (m\<lparr>mg_cancelled := b\<rparr>) = manager_ok L m" "manager_ok L (m\<lparr>mg_settings := settings\<rparr>) = manager_ok L m"
  by (simp_all add: manager_ok_def cached_ok_def)

lemma close_ok:
  assumes "lifecycle_ok m"
  shows "lifecycle_ok (close m) \<and> manager_ok L (close m) = manager_ok L m"
proof (cases "mg_state m = Closed")
  case False
  have calls: "mg_calls m = map StartSource (mg_started m)" using assms False by (cases "mg_state m") (simp_all add: lifecycle_ok_def)
  have "mg_calls (close m) = map StartSource (mg_started m) @ map CloseSource (rev (mg_started m))"
    using calls False by (simp add: close_def close_sources_def try_send_def Let_def)
  moreover have "mg_state (close m) = Closed" "mg_started (close m) = []" "\<not> mg_sender (close m)" "\<not> mg_worker (close m)" "mg_cancelled (close m)"
    using False by (simp_all add: close_def close_sources_def try_send_def Let_def)
  ultimately have "lifecycle_ok (close m)" by (auto simp: lifecycle_ok_def)
  then show ?thesis using False by (simp add: close_def close_sources_def try_send_def Let_def)
qed (use assms in \<open>simp add: close_def\<close>)

lemma start_ok:
  assumes "lifecycle_ok m" "start L E m = (n, out)"
  shows "lifecycle_ok n \<and> (manager_ok L m \<longrightarrow> manager_ok L n)"
proof (cases "mg_state m")
  case New
  obtain started failure where s: "start_sources (en_start E) (map sd_id (lifecycle_sources (mg_registry m))) [] = (started, failure)"
    by (cases "start_sources (en_start E) (map sd_id (lifecycle_sources (mg_registry m))) []") auto
  define m' where "m' = m\<lparr>mg_calls := mg_calls m @ map StartSource started\<rparr>"
  have m': "manager_ok L m' = manager_ok L m" "mg_calls m' = map StartSource started" "mg_started m' = []" "\<not> mg_sender m'" "\<not> mg_worker m'"
    "\<not> mg_cancelled m'" "mg_registry m' = mg_registry m" using assms(1) New by (simp_all add: m'_def lifecycle_ok_def)
  obtain k res where k: "restore_snapshots L E m' = (k, res)" by (cases "restore_snapshots L E m'") auto
  have kq: "undisturbed L m' k" by (rule restore_snapshots_quiet [OF k])
  then have ks: "mg_calls k = map StartSource started" "mg_started k = []" "\<not> mg_sender k" "\<not> mg_worker k" "\<not> mg_cancelled k" "mg_registry k = mg_registry m"
    using m' by (simp_all add: undisturbed_def same_life_def)
  have up: "lifecycle_ok (give_up started x) \<and> manager_ok L (give_up started x) = manager_ok L x"
    if "mg_calls x = map StartSource started" "mg_started x = []" "\<not> mg_sender x" "\<not> mg_worker x" for x
    using that by (auto simp: give_up_def close_sources_def lifecycle_ok_def)
  consider (source) i e where "failure = Some (i, e)" "n = give_up started m'"
    | (restore) e where "failure = None" "res = Inl e" "n = give_up started k"
    | (spawn) e where "failure = None" "res = Inr ()" "en_spawn E = Some e" "n = give_up started k"
    | (started) "failure = None" "res = Inr ()" "en_spawn E = None"
        "n = k\<lparr>mg_state := Running, mg_sender := True, mg_worker := True, mg_started := started, mg_queue := Some Reload\<rparr>"
    using assms(2) New s k unfolding start_def by (auto simp: m'_def [symmetric] split: option.splits sum.splits)
  then show ?thesis
  proof cases
    case source
    then show ?thesis using up [of m'] m' by simp
  next
    case restore
    then show ?thesis using up [of k] ks kq m'(1) by (simp add: undisturbed_def)
  next
    case spawn
    then show ?thesis using up [of k] ks kq m'(1) by (simp add: undisturbed_def)
  next
    case started
    have "started = map sd_id (lifecycle_sources (mg_registry m))" using start_sources_none [of _ _ "[]"] s started(1) by auto
    then show ?thesis using started ks kq m'(1) by (simp add: undisturbed_def lifecycle_ok_def)
  qed
qed (use assms in \<open>auto simp: start_def\<close>)

lemma reload_ok:
  assumes "lifecycle_ok m" "reload_settings L settings m = (n, out)"
  shows "lifecycle_ok n \<and> manager_ok L n = manager_ok L m"
proof -
  have "n = m \<or> mg_state m \<noteq> Closed \<and> (n = m\<lparr>mg_settings := settings\<rparr> \<and> (mg_sender m \<longrightarrow> \<not> mg_worker m) \<or>
      n = try_send Reload (m\<lparr>mg_settings := settings\<rparr>) \<and> mg_sender m)"
    using assms(2) by (auto simp: reload_settings_def Let_def split: sum.splits if_splits)
  then show ?thesis using assms(1) by (cases "mg_state m") (auto simp: lifecycle_ok_def try_send_def split: option.splits)
qed

lemma worker_ok:
  assumes "lifecycle_ok m" "mg_worker m"
  shows "lifecycle_ok (worker_turn L E m) \<and> (manager_ok L m \<longrightarrow> manager_ok L (worker_turn L E m))"
proof -
  have run: "mg_state m = Running" using assms by (cases "mg_state m") (auto simp: lifecycle_ok_def)
  then have m: "mg_sender m" "\<not> mg_cancelled m" "mg_queue m \<noteq> Some Stop" using assms(1) by (simp_all add: lifecycle_ok_def)
  define k where "k = (case mg_queue m of None \<Rightarrow> m | Some c \<Rightarrow> m\<lparr>mg_queue := None\<rparr>)"
  have k: "lifecycle_ok k" "manager_ok L k = manager_ok L m"
    using assms(1) run by (auto simp: k_def lifecycle_ok_def split: option.splits)
  have "worker_turn L E m = (if cs_auto_refresh (mg_settings m) then fst (refresh_all L E k) else k)"
    using m by (cases "mg_queue m") (auto simp: worker_turn_def receive_def worker_step_def k_def)
  moreover have "undisturbed L k (fst (refresh_all L E k))" by (rule refresh_all_quiet [of _ _ _ _ "snd (refresh_all L E k)"]) simp
  ultimately show ?thesis using k same_life_ok by (auto simp: undisturbed_def)
qed

lemma manager_step_ok:
  "manager_ok L m \<and> lifecycle_ok m \<Longrightarrow> manager_ok L (manager_step L m a) \<and> lifecycle_ok (manager_step L m a)"
proof (cases a)
  case (OpStart E)
  assume "manager_ok L m \<and> lifecycle_ok m"
  then show ?thesis using OpStart start_ok [of m L E "fst (start L E m)" "snd (start L E m)"] by simp
next
  case OpClose
  assume "manager_ok L m \<and> lifecycle_ok m"
  then show ?thesis using OpClose close_ok [of m L] by simp
next
  case (OpReload settings)
  assume "manager_ok L m \<and> lifecycle_ok m"
  then show ?thesis
    using OpReload reload_ok [of m L settings "fst (reload_settings L settings m)" "snd (reload_settings L settings m)"] by simp
next
  case (OpWorker E)
  assume "manager_ok L m \<and> lifecycle_ok m"
  then show ?thesis using OpWorker worker_ok [of m L E] by simp
next
  case (OpRefreshMarket E market)
  assume ok: "manager_ok L m \<and> lifecycle_ok m"
  have "undisturbed L m (manager_step L m a)" unfolding OpRefreshMarket manager_step.simps by (rule when_running_quiet) (rule refresh_market_quiet)
  then show ?thesis using ok same_life_ok by (auto simp: undisturbed_def)
next
  case (OpRefreshAll E)
  assume ok: "manager_ok L m \<and> lifecycle_ok m"
  have "undisturbed L m (manager_step L m a)" unfolding OpRefreshAll manager_step.simps by (rule when_running_quiet) (rule refresh_all_quiet)
  then show ?thesis using ok same_life_ok by (auto simp: undisturbed_def)
next
  case (OpProbeMarket E market)
  assume ok: "manager_ok L m \<and> lifecycle_ok m"
  have "undisturbed L m (manager_step L m a)" unfolding OpProbeMarket manager_step.simps probe_market_def
    by (rule when_running_quiet) (auto simp: Let_def dest: probe_quiet)
  then show ?thesis using ok same_life_ok by (auto simp: undisturbed_def)
next
  case (OpProbeAll E)
  assume ok: "manager_ok L m \<and> lifecycle_ok m"
  have "undisturbed L m (manager_step L m a)" unfolding OpProbeAll manager_step.simps probe_all_def
    by (rule when_running_quiet) (auto simp: Let_def dest: probe_quiet)
  then show ?thesis using ok same_life_ok by (auto simp: undisturbed_def)
qed

interpretation calendar: machine "manager_step L" "\<lambda>m. manager_ok L m \<and> lifecycle_ok m"
  by unfold_locales (rule manager_step_ok)

lemma manager_new_ok: "manager_new L registry persistent settings = Inr m \<Longrightarrow> manager_ok L m \<and> lifecycle_ok m"
  by (auto simp: manager_new_def rbind_Inr_iff manager_ok_def cached_ok_def lifecycle_ok_def)


lemma quiet_registry: "undisturbed L m n \<Longrightarrow> mg_registry n = mg_registry m"
  by (simp add: undisturbed_def same_life_def)

lemma start_registry: "start L E m = (n, out) \<Longrightarrow> mg_registry n = mg_registry m"
  by (auto simp: start_def Let_def give_up_def close_sources_def dest!: restore_snapshots_quiet quiet_registry
      split: lifecycle_state.splits prod.splits option.splits sum.splits)

lemma worker_registry: "mg_registry (worker_turn L E m) = mg_registry m"
proof -
  have "mg_registry (fst (refresh_all L E k)) = mg_registry k" for k
    by (rule quiet_registry [OF refresh_all_quiet [of _ _ _ _ "snd (refresh_all L E k)"]]) simp
  then show ?thesis
    by (cases "mg_queue m") (auto simp: worker_turn_def receive_def worker_step_def)
qed

lemma step_registry: "mg_registry (manager_step L m a) = mg_registry m"
proof (cases a)
  case (OpStart E)
  then show ?thesis using start_registry [of L E m "fst (start L E m)" "snd (start L E m)"] by simp
next
  case OpClose
  then show ?thesis by (simp add: close_def Let_def close_sources_def try_send_def)
next
  case (OpReload settings)
  then show ?thesis by (auto simp: reload_settings_def Let_def try_send_def split: sum.splits)
next
  case (OpWorker E)
  then show ?thesis by (simp add: worker_registry)
next
  case (OpRefreshMarket E market)
  show ?thesis unfolding OpRefreshMarket manager_step.simps
    by (rule quiet_registry [OF when_running_quiet]) (rule refresh_market_quiet)
next
  case (OpRefreshAll E)
  show ?thesis unfolding OpRefreshAll manager_step.simps by (rule quiet_registry [OF when_running_quiet]) (rule refresh_all_quiet)
next
  case (OpProbeMarket E market)
  show ?thesis unfolding OpProbeMarket manager_step.simps probe_market_def
    by (rule quiet_registry [OF when_running_quiet]) (auto simp: Let_def dest: probe_quiet)
next
  case (OpProbeAll E)
  show ?thesis unfolding OpProbeAll manager_step.simps probe_all_def
    by (rule quiet_registry [OF when_running_quiet]) (auto simp: Let_def dest: probe_quiet)
qed

lemma run_registry: "mg_registry (run (manager_step L) m ops) = mg_registry m"
  by (induction ops arbitrary: m) (simp_all add: step_registry)


section \<open>What an answer rests on\<close>

lemma sort_two: "sort_key f [a, b] = (if f a \<le> f b then [a, b] else [b, a])"
  by simp

lemma us_windows: "validate_session_windows (us_schedule_sessions L day) = Inr ()"
  by (simp add: us_schedule_sessions_def Let_def validate_session_windows_def trading_window_def)

lemma builtin_windows: "supported_market market \<Longrightarrow> market \<noteq> ''US'' \<Longrightarrow> validate_session_windows (builtin_sessions market) = Inr ()"
  by (auto simp: supported_market_def mainland_def builtin_sessions_def validate_session_windows_def trading_window_def)

lemma no_windows [simp]: "validate_session_windows [] = Inr ()"
  by (simp add: validate_session_windows_def)

lemma builtin_rules_windows:
  assumes "supported_market market" "builtin_rules L market day = (status, reason, observed, sessions)"
  shows "validate_session_windows sessions = Inr ()"
proof -
  have "sessions = [] \<or> sessions = us_schedule_sessions L day \<or> market \<noteq> ''US'' \<and> sessions = builtin_sessions market"
    using assms(2) by (auto simp: builtin_rules_def us_holiday_or_early_close_def split: if_splits option.splits)
  then show ?thesis using us_windows builtin_windows [OF assms(1)] by auto
qed

lemma validate_schedules:
  "try_fold (\<lambda>_ s. validate_schedule L market snapshot s) () ss = Inr () \<Longrightarrow> s \<in> set ss \<Longrightarrow> validate_schedule L market snapshot s = Inr ()"
  by (induction ss) (auto simp: rbind_Inr_iff)

lemma valid_snapshot_windows:
  assumes "validate_snapshot L s = Inr ()" "d \<in> set (sn_schedules s)"
  shows "validate_session_windows (ds_sessions d) = Inr ()"
proof -
  have "validate_schedule L (normalize_market L (sn_market s)) s d = Inr ()"
    using assms validate_schedules by (simp add: validate_snapshot_def Let_def split: if_splits)
  then show ?thesis by (simp add: validate_schedule_def split: if_splits)
qed

lemma find_first_Some: "find_first f xs = Some y \<Longrightarrow> \<exists>x \<in> set xs. f x = Some y"
  by (induction xs) (auto split: option.splits)

text \<open>The sources an answer may come from are those the policy enables.\<close>

definition sources_ok :: "source_registry \<Rightarrow> bool" where
  "sources_ok r \<longleftrightarrow> list_all (\<lambda>(k, d). k = trim (sd_id d)) (rg_sources r)"

lemma registered_ok:
  assumes "try_fold (\<lambda>r d. register L d r) registry_empty ds = Inr r"
  shows "sources_ok r"
proof (rule try_fold_invariant [OF assms])
  show "sources_ok registry_empty" by (simp add: sources_ok_def registry_empty_def)
  show "sources_ok r'" if "sources_ok r" "register L d r = Inr r'" for r d r'
    using that bm_insert_all [of "rg_sources r" "\<lambda>k d. k = trim (sd_id d)" "trim (sd_id d)" d]
    by (auto simp: register_def Let_def sources_ok_def normalized_descriptor_def list_all_iff split: if_splits)
qed

lemma source_id_of:
  assumes "sources_ok r" "source r i = Some d"
  shows "trim (sd_id d) = trim i"
  using assms bm_get_in_set [of "rg_sources r" "trim i" d] by (auto simp: sources_ok_def source_def list_all_iff)

lemma ordered_source_ids_enabled:
  assumes "sources_ok r" "i \<in> set (ordered_source_ids L r market policy)"
  shows "enabled_ids policy = [] \<or> (\<exists>e \<in> set (enabled_ids policy). i = trim e)"
proof -
  obtain k d where k: "source r k = Some d" "i = trim (sd_id d)" "enabled_ids policy = [] \<or> k \<in> set (enabled_ids policy)"
    using assms(2) by (auto simp: ordered_source_ids_def ordered_sources_def Let_def List.map_filter_def split: if_splits)
  then show ?thesis using source_id_of [OF assms(1) k(1)] by auto
qed

lemma push_new_set: "set (push_new acc xs) \<subseteq> set acc \<union> set xs"
  by (induction acc xs rule: push_new.induct) (auto split: if_splits)

lemma enabled_trimmed: "e \<in> set (enabled_ids policy) \<Longrightarrow> trim e = e"
  by (auto simp: enabled_ids_def)

lemma policy_source_ids_enabled:
  "i \<in> set (policy_source_ids policy) \<Longrightarrow> enabled_ids policy = [] \<or> i \<in> set (enabled_ids policy)"
  using push_new_set [of "[]" "filter (\<lambda>i. enabled_ids policy = [] \<or> i \<in> set (enabled_ids policy)) (map trim (po_preferred policy @ po_enabled policy))"]
  unfolding policy_source_ids_def Let_def by auto

lemma reading_order_set:
  "set (reading_order L r market policy) = set (policy_source_ids policy) \<union> set (ordered_source_ids L r market policy)"
proof -
  have "set (fold (\<lambda>i ids. if i \<in> set ids then ids else ids @ [i]) xs ids) = set xs \<union> set ids" for xs ids :: "string list"
    by (induction xs arbitrary: ids) auto
  then show ?thesis by (simp add: reading_order_def)
qed

lemma reading_order_enabled:
  assumes "sources_ok r" "i \<in> set (reading_order L r market policy)"
  shows "enabled_ids policy = [] \<or> i \<in> set (enabled_ids policy)"
  using assms(2) policy_source_ids_enabled ordered_source_ids_enabled [OF assms(1)] enabled_trimmed
  unfolding reading_order_set by fastforce

lemma remote_answer:
  assumes "remote_schedule L now policy m market at = Some d"
  obtains s e candidate where "bm_get (mg_snapshots m) (snapshot_key L (ds_source d) candidate (dl_year L (st_date at))) = Some s"
    "snapshot_fresh L s policy now" "e \<in> set (sn_schedules s)" "same_market_day L (ds_date e) at candidate"
    "d = e\<lparr>ds_market := market, ds_source := ds_source d\<rparr>" "ds_source d \<in> set (reading_order L (mg_registry m) market policy)"
proof -
  obtain i where i: "i \<in> set (reading_order L (mg_registry m) market policy)"
    "find_first (\<lambda>candidate. map_option (\<lambda>d. d\<lparr>ds_market := market, ds_source := i\<rparr>)
       (covering_schedule L now policy m at (dl_year L (st_date at)) i candidate)) (candidate_markets market) = Some d"
    using find_first_Some [OF assms [unfolded remote_schedule_def]] by auto
  obtain candidate where "map_option (\<lambda>d. d\<lparr>ds_market := market, ds_source := i\<rparr>)
      (covering_schedule L now policy m at (dl_year L (st_date at)) i candidate) = Some d"
    using find_first_Some [OF i(2)] by auto
  then obtain e where e: "covering_schedule L now policy m at (dl_year L (st_date at)) i candidate = Some e"
    "d = e\<lparr>ds_market := market, ds_source := i\<rparr>" by auto
  then obtain s where s: "bm_get (mg_snapshots m) (snapshot_key L i candidate (dl_year L (st_date at))) = Some s" "snapshot_fresh L s policy now"
    "find (\<lambda>d. same_market_day L (ds_date d) at candidate \<and> market_matches L (ds_market d) candidate) (sn_schedules s) = Some e"
    by (auto simp: covering_schedule_def split: option.splits if_splits)
  then have "e \<in> set (sn_schedules s)" "same_market_day L (ds_date e) at candidate"
    by (auto simp: find_Some_iff in_set_conv_nth)
  then show thesis using that [of candidate s e] s e(2) i(1) by simp
qed

lemma schedule_cases:
  assumes "schedule L now m name asked = Inr (Some d)"
  obtains (manual) "ds_source d = manual_source_id" "ds_market d = normalize_market L name"
  | (remote) at where "remote_schedule L now (policy_for_market L (mg_settings m) (normalize_market L name)) m (normalize_market L name) at = Some d"
      "market_day_start L (normalize_market L name) asked = Inr at"
  | (builtin) at where "supported_market (normalize_market L name)" "d = builtin_schedule L (normalize_market L name) at"
      "po_fallback (policy_for_market L (mg_settings m) (normalize_market L name))"
proof -
  let ?market = "normalize_market L name"
  have s: "supported_market ?market" using assms by (simp add: schedule_def Let_def split: if_splits)
  then obtain at where at: "market_day_start L ?market asked = Inr at"
    using assms by (auto simp: schedule_def Let_def rbind_Inr_iff)
  show thesis
  proof (cases "manual_schedule_with_raw_fallback L (mg_settings m) ?market at asked")
    case (Some x)
    then have d: "d = x" using assms s at by (simp add: schedule_def Let_def)
    have one: "ds_source z = manual_source_id \<and> ds_market z = ?market"
      if "manual_schedule_for_date L settings ?market date stamp = Some z" for settings date stamp z
      using that by (auto simp: manual_schedule_for_date_def schedule_from_manual_def)
    have "ds_source x = manual_source_id \<and> ds_market x = ?market"
      using Some one by (auto simp: manual_schedule_with_raw_fallback_def split: option.splits if_splits)
    then show thesis using manual d by simp
  next
    case None
    show thesis
    proof (cases "remote_schedule L now (policy_for_market L (mg_settings m) ?market) m ?market at")
      case (Some x)
      then show thesis using remote [of at] assms s at None by (simp add: schedule_def Let_def)
    next
      case none: None
      then show thesis using builtin assms s at None by (auto simp: schedule_def Let_def split: if_splits)
    qed
  qed
qed



section \<open>Life cycle\<close>

lemma closed_step: "lifecycle_ok m \<Longrightarrow> mg_state m = Closed \<Longrightarrow> manager_step L m a = m"
  by (cases a)
     (simp_all add: start_def close_def when_running_def require_running_def probe_market_def probe_all_def lifecycle_ok_def
       reload_settings_def split: sum.split)


section \<open>Waiting after failures\<close>

lemma failed_source_waits:
  assumes "cl_plus_hours L now (backoff_hours (sat_add (ss_failures (status_of m (trim i))) 1)) = Some t"
    and "is_some_and (cl_parse L (cl_text L t)) (\<lambda>u. cl_unix L u = cl_unix L t)"
  shows "in_backoff L later (trim i) (record_failure L now i e m) \<longleftrightarrow> cl_unix L later < cl_unix L t"
  using assms by (auto simp: in_backoff_def record_failure_def Let_def set_status_def is_some_and_iff)

section \<open>Candles\<close>

lemma candle_closed_iff:
  "candle_is_closed L clock calendar market period open_nanos now_nanos sessions = Inr True \<longleftrightarrow>
    (\<exists>zone open_at now_at. candle_zone market = Some zone \<and> cl_zone L zone = Inr () \<and> cl_timestamp L open_nanos = Inr open_at \<and>
       cl_timestamp L now_nanos = Inr now_at \<and> open_at \<le> now_at \<and>
       (lower (trim period) = ''tick'' \<or>
        (\<exists>c. candle_close L clock calendar market zone (lower (trim period)) open_at sessions = Inr (Some c) \<and> c \<le> now_at)))"
proof -
  have inv: "settings_error r = Inr x \<longleftrightarrow> r = Inr x" for r :: "string + 'z" and x by (cases r) (auto simp: settings_error_def)
  show ?thesis
    by (auto simp: candle_is_closed_def rbind_Inr_iff inv Let_def is_some_and_iff not_less split: if_splits)
qed

lemma last_session_close_spec:
  assumes "date_laws L" "dl_ok L date" "last_session_close L clock calendar market zone sessions n date = Inr (Some c)"
  shows "\<exists>day answer e. dl_ok L day \<and> number L date - int n < number L day \<and> number L day \<le> number L date \<and>
    schedule_of_day L clock calendar market zone day = Inr answer \<and> requested_end sessions answer = Some e \<and> at_minute L zone day e = Inr c"
  using assms(2,3)
proof (induction n arbitrary: date)
  case (Suc n)
  obtain answer where a: "schedule_of_day L clock calendar market zone date = Inr answer" using Suc.prems(2) by (auto simp: rbind_Inr_iff)
  show ?case
  proof (cases "requested_end sessions answer")
    case (Some e)
    then have "at_minute L zone date e = Inr c" using Suc.prems(2) a by (cases "at_minute L zone date e") simp_all
    then show ?thesis using a Some Suc.prems(1) by (intro exI [of _ date] exI [of _ answer] exI [of _ e]) simp
  next
    case None
    then obtain before where b: "dl_add L date (- 1) = Some before"
      "last_session_close L clock calendar market zone sessions n before = Inr (Some c)"
      using Suc.prems(2) a by (auto simp: rbind_Inr_iff)
    have "dl_ok L before \<and> number L before = number L date - 1" using dl_add_laws(2) [OF assms(1) Suc.prems(1) b(1)] by simp
    then show ?thesis using Suc.IH [OF _ b(2)] by fastforce
  qed
qed simp

lemma requested_end_in:
  assumes "requested_end sessions answer = Some e"
  obtains d w where "answer = Some d" "ds_status d \<noteq> ''closed''" "w \<in> set (ds_sessions d)" "requested sessions (sw_kind w)" "sw_end w = e"
    "\<forall>v \<in> set (ds_sessions d). requested sessions (sw_kind v) \<longrightarrow> sw_end v \<le> e"
proof -
  have max: "fold max xs a \<in> set (a # xs) \<and> (\<forall>x \<in> set (a # xs). x \<le> fold max xs a)" for xs and a :: int
  proof (induction xs arbitrary: a)
    case (Cons x xs)
    have "max x a = x \<or> max x a = a" by (simp add: max_def)
    then show ?case using Cons.IH [of "max x a"] by auto
  qed simp
  obtain d where d: "answer = Some d" "ds_status d \<noteq> ''closed''"
    using assms by (auto simp: requested_end_def split: option.splits if_splits)
  let ?ws = "filter (\<lambda>w. requested sessions (sw_kind w)) (ds_sessions d)"
  obtain a ends where ends: "map sw_end ?ws = a # ends" "e = fold max ends a"
    using assms d by (auto simp: requested_end_def split: list.splits)
  have "e \<in> set (map sw_end ?ws)" "\<forall>x \<in> set (map sw_end ?ws). x \<le> e" using max [of ends a] ends by simp_all
  then show thesis using that [OF d] by auto
qed


text \<open>The candle of a day closes with the last requested session of the day.\<close>

theorem day_candle_closes_with_session:
  assumes "date_laws L" and "dl_ok L (fst (cl_local L zone open_at))" and "supported_market market" and "period = ''1d''"
    and "candle_close L clock calendar market zone period open_at sessions = Inr (Some c)"
  shows "\<exists>d w. schedule_of_day L clock calendar market zone (fst (cl_local L zone open_at)) = Inr (Some d) \<and> ds_status d \<noteq> ''closed'' \<and>
    w \<in> set (ds_sessions d) \<and> requested sessions (sw_kind w) \<and> at_minute L zone (fst (cl_local L zone open_at)) (sw_end w) = Inr c"
proof -
  let ?date = "fst (cl_local L zone open_at)"
  have "last_session_close L clock calendar market zone sessions 1 ?date = Inr (Some c)"
    using assms(3-5) by (simp add: candle_close_def period_end_day_def Let_def)
  then obtain day answer e where day: "dl_ok L day" "number L ?date - 1 < number L day" "number L day \<le> number L ?date"
    "schedule_of_day L clock calendar market zone day = Inr answer" "requested_end sessions answer = Some e" "at_minute L zone day e = Inr c"
    using last_session_close_spec [OF assms(1,2)] by fastforce
  then have "day = ?date" using number_inject [OF assms(1) day(1) assms(2)] by simp
  then show ?thesis using day requested_end_in [OF day(5)] by metis
qed

section \<open>Two gaps\<close>

text \<open>The success of a source is recorded under the name its snapshot carries; if that is not the name the source is
registered under, its failures and its waiting time stay.\<close>

lemma success_under_reported_name:
  "i \<noteq> sn_source s \<Longrightarrow> status_of (record_success L now s m) i = status_of m i"
  by (simp add: record_success_def set_status_def status_of_def)

text \<open>The sessions of an override are not checked: they may overlap and leave the day.\<close>

lemma override_sessions_unchecked:
  assumes "mo_sessions manual = [trading_window ''regular'' 0 1500, trading_window ''regular'' 10 20]"
  shows "validate_session_windows (ds_sessions (schedule_from_manual L manual market at)) =
    Inl ''session window must be within one day and open before close''"
  by (simp add: schedule_from_manual_def assms trading_window_def validate_session_windows_def)


section \<open>A library and a manager\<close>

text \<open>A library whose zones are all UTC, with days counted from the first of January of 1970.\<close>

definition epoch :: int where
  "epoch = day_number 1970 1 1"

definition utc_date :: "int \<Rightarrow> civil" where
  "utc_date n = (case dl_add civil_dates (1970, 1, 1) n of Some x \<Rightarrow> x | None \<Rightarrow> (1970, 1, 1))"

definition day_nanos :: int where
  "day_nanos = 86400 * 1000000000"

definition utc_stamp :: "int \<Rightarrow> civil stamp" where
  "utc_stamp n = \<lparr>st_date = utc_date (n div day_nanos), st_nanos = n mod day_nanos, st_offset = 0\<rparr>"

definition utc_unix :: "civil stamp \<Rightarrow> int" where
  "utc_unix s = (civil_number (st_date s) - epoch) * day_nanos + st_nanos s - st_offset s * 1000000000"

definition utc_lib :: "civil cal_lib" where
  "utc_lib = date_lib.extend civil_dates
     \<lparr>cl_upper = upper, cl_lower = lower, cl_debug = (\<lambda>s. s), cl_date_text = (\<lambda>(y, m, d). year_text y), cl_range_text = [],
      cl_unix = utc_unix, cl_text = (\<lambda>s. int_text (utc_unix s)), cl_parse = (\<lambda>t. map_option utc_stamp (parse_i64 t)),
      cl_plus_hours = (\<lambda>s h. Some (utc_stamp (utc_unix s + h * 3600 * 1000000000))), cl_instant = (\<lambda>s. Inr (utc_unix s)),
      cl_zone = (\<lambda>_. Inr ()), cl_local = (\<lambda>_ n. (utc_date (n div day_nanos), n mod day_nanos div (60 * 1000000000))),
      cl_civil = (\<lambda>_ d s. Inr ((civil_number d - epoch) * day_nanos + s * 1000000000, 0)),
      cl_timestamp = Inr, cl_plus_seconds = (\<lambda>n s. Inr (n + s * 1000000000)), cl_last_of_month = (\<lambda>(y, m, d). (y, m, month_days y m)),
      cl_stamp = (\<lambda>n _. Inr (utc_stamp n))\<rparr>"

definition sample_settings :: calendar_settings where
  "sample_settings = \<lparr>cs_auto_refresh = False, cs_error_notifications = False, cs_refresh_hours = 24, cs_warmup_markets = [],
     cs_policies = [], cs_overrides = []\<rparr>"

definition sample_source :: source_descriptor where
  "sample_source = \<lparr>sd_id = ''nyse_official'', sd_kind = ''official_html'', sd_authority = ''NYSE'', sd_markets = [''US'']\<rparr>"

definition sample_registry :: source_registry where
  "sample_registry = \<lparr>rg_sources = [(''nyse_official'', sample_source)], rg_order = [''nyse_official'']\<rparr>"

definition sample_manager :: "civil manager" where
  "sample_manager = \<lparr>mg_registry = sample_registry, mg_persistent = False, mg_settings = sample_settings, mg_snapshots = [],
     mg_statuses = [], mg_cancelled = False, mg_state = New, mg_sender = False, mg_queue = None, mg_worker = False, mg_started = [],
     mg_saved = [], mg_calls = []\<rparr>"

definition sample_environment :: "civil environment" where
  "sample_environment = \<lparr>en_now = utc_stamp 0, en_cancelled = (\<lambda>_. False), en_fetch = (\<lambda>_ _ _ _. Inl ''offline''),
     en_save = (\<lambda>_. None), en_delete = (\<lambda>_. None), en_loaded = [], en_load_errors = [], en_start = (\<lambda>_. None), en_spawn = None\<rparr>"

lemma sample_new: "manager_new utc_lib sample_registry False sample_settings = Inr sample_manager"
  by (simp add: manager_new_def validate_settings_def sample_settings_def sample_manager_def)

lemma sample_registered: "try_fold (\<lambda>r d. register utc_lib d r) registry_empty [sample_source] = Inr sample_registry"
proof -
  have "trim ''nyse_official'' = ''nyse_official''" by code_simp
  then show ?thesis
    by (simp add: register_def Let_def normalized_descriptor_def registry_empty_def sample_registry_def sample_source_def)
qed

text \<open>The second of January of 1970 is an ordinary Friday.\<close>

lemma sample_answer:
  "schedule utc_lib (utc_stamp 0) sample_manager ''us'' (utc_stamp day_nanos) =
   Inr (Some (builtin_schedule utc_lib ''US'' (utc_stamp day_nanos)))"
  by code_simp




end
