(* ===== verification/Opend_Frame.thy ===== *)
theory Opend_Frame
  imports Rust_Strings
begin

text \<open>
  \<open>crates/jftrade-integration-futu/src/frame.rs\<close> and \<open>transport.rs\<close>: the frames of the OpenD
  protocol. A frame is a header of 44 bytes (magic, protocol, serial number, length and SHA-1 of
  the body, little endian) and the body. The reader takes the frames off a socket one by one; a
  socket is the bytes that still arrive on it and the error that ends it. The digest of the
  crate \<open>sha1\<close> is the parameter \<open>sha\<close>; all that is used of it is that it has 20 bytes.
\<close>

type_synonym u8 = "8 word"
type_synonym u32 = "32 word"
type_synonym bytes = "u8 list"

section \<open>Byte slices\<close>

text \<open>\<open>packet[at..at + xs.len()].copy_from_slice(xs)\<close> and \<open>packet[from..to]\<close>, within the packet.\<close>

definition copy_at :: "nat \<Rightarrow> bytes \<Rightarrow> bytes \<Rightarrow> bytes" where
  "copy_at at xs packet = take at packet @ xs @ drop (at + length xs) packet"

definition slice_at :: "nat \<Rightarrow> nat \<Rightarrow> bytes \<Rightarrow> bytes" where
  "slice_at i j packet = take (j - i) (drop i packet)"

definition to_le_bytes :: "u32 \<Rightarrow> bytes" where
  "to_le_bytes w = [ucast w, ucast (drop_bit 8 w), ucast (drop_bit 16 w), ucast (drop_bit 24 w)]"

definition from_le_bytes :: "bytes \<Rightarrow> u32" where
  "from_le_bytes bs = foldr (\<lambda>b w. or (push_bit 8 w) (ucast b)) bs 0"

lemma length_copy_at [simp]: "at + length xs \<le> length p \<Longrightarrow> length (copy_at at xs p) = length p"
  by (simp add: copy_at_def)

lemma length_to_le_bytes [simp]: "length (to_le_bytes w) = 4"
  by (simp add: to_le_bytes_def)

lemma le_bytes_roundtrip [simp]: "from_le_bytes (to_le_bytes w) = w"
proof (rule bit_word_eqI)
  fix n :: nat
  consider "n < 8" | "8 \<le> n" "n < 16" | "16 \<le> n" "n < 24" | "24 \<le> n" by linarith
  moreover assume "n < LENGTH(32)"
  ultimately show "bit (from_le_bytes (to_le_bytes w)) n = bit w n"
    by cases (auto simp: from_le_bytes_def to_le_bytes_def bit_simps)
qed

lemma u8_bit_bound [simp]: "\<not> bit (a :: u8) (8 + n)" "\<not> bit (a :: u8) (16 + n)" "\<not> bit (a :: u8) (24 + n)"
  by (auto dest: bit_imp_le_length)

lemma le_bytes_inverse: "length bs = 4 \<Longrightarrow> to_le_bytes (from_le_bytes bs) = bs"
proof -
  assume "length bs = 4"
  then obtain a b c d where bs: "bs = [a, b, c, d]"
    by (auto simp: numeral_eq_Suc length_Suc_conv)
  show ?thesis unfolding bs from_le_bytes_def to_le_bytes_def
    by (auto intro!: bit_word_eqI simp: bit_simps)
qed

section \<open>Frames\<close>

definition header_len :: nat where "header_len = 44"

definition max_body_len :: nat where "max_body_len = 33554432"

record header =
  hd_proto_id :: u32
  hd_proto_format :: u8
  hd_proto_version :: u8
  hd_serial_no :: u32
  hd_body_len :: u32
  hd_body_sha1 :: bytes

record frame =
  fr_header :: header
  fr_body :: bytes

datatype frame_error = TooShort | BadMagic | BadBodyHash | BodyTooLarge | LengthMismatch nat nat

definition encode_frame :: "(bytes \<Rightarrow> bytes) \<Rightarrow> u32 \<Rightarrow> u32 \<Rightarrow> bytes \<Rightarrow> frame_error + bytes" where
  "encode_frame sha proto_id serial_no body =
     (if max_body_len < length body then Inl BodyTooLarge
      else let packet = replicate (header_len + length body) 0;
               packet = packet[0 := 0x46];
               packet = packet[1 := 0x54];
               packet = copy_at 2 (to_le_bytes proto_id) packet;
               packet = copy_at 8 (to_le_bytes serial_no) packet;
               packet = copy_at 12 (to_le_bytes (of_nat (length body))) packet;
               packet = copy_at 16 (sha body) packet
           in Inr (copy_at header_len body packet))"

definition decode_frame :: "(bytes \<Rightarrow> bytes) \<Rightarrow> bytes \<Rightarrow> frame_error + frame" where
  "decode_frame sha packet =
     (if length packet < header_len then Inl TooShort
      else if slice_at 0 2 packet \<noteq> [0x46, 0x54] then Inl BadMagic
      else
        let declared = unat (from_le_bytes (slice_at 12 16 packet))
        in if max_body_len < declared then Inl BodyTooLarge
           else if length packet \<noteq> header_len + declared
             then Inl (LengthMismatch declared (length packet - header_len))
           else
             let body = drop header_len packet
             in if slice_at 16 36 packet \<noteq> sha body then Inl BadBodyHash
                else Inr \<lparr>fr_header =
                       \<lparr>hd_proto_id = from_le_bytes (slice_at 2 6 packet), hd_proto_format = packet ! 6,
                        hd_proto_version = packet ! 7, hd_serial_no = from_le_bytes (slice_at 8 12 packet),
                        hd_body_len = of_nat declared, hd_body_sha1 = slice_at 16 36 packet\<rparr>,
                     fr_body = body\<rparr>)"

section \<open>The socket\<close>

datatype os_error = UnexpectedEof | Io_Error string

datatype tcp_error = Tcp_Io os_error | Tcp_Frame frame_error

text \<open>What still arrives, and what every read fails with when less than it asks for is left.\<close>

record socket =
  so_bytes :: bytes
  so_end :: os_error

definition read_exact :: "nat \<Rightarrow> socket \<Rightarrow> (os_error + bytes) \<times> socket" where
  "read_exact n s =
     (if n \<le> length (so_bytes s) then (Inr (take n (so_bytes s)), s\<lparr>so_bytes := drop n (so_bytes s)\<rparr>)
      else (Inl (so_end s), s\<lparr>so_bytes := []\<rparr>))"

definition read_framed_packet :: "socket \<Rightarrow> (tcp_error + bytes) \<times> socket" where
  "read_framed_packet s =
     (case read_exact header_len s of
        (Inl e, s) \<Rightarrow> (Inl (Tcp_Io e), s)
      | (Inr header, s) \<Rightarrow>
          let body_len = unat (from_le_bytes (slice_at 12 16 header))
          in if max_body_len < body_len then (Inl (Tcp_Frame BodyTooLarge), s)
             else case read_exact body_len s of
                    (Inl e, s) \<Rightarrow> (Inl (Tcp_Io e), s)
                  | (Inr body, s) \<Rightarrow> (Inr (header @ body), s))"

definition read_framed_frame :: "(bytes \<Rightarrow> bytes) \<Rightarrow> socket \<Rightarrow> (tcp_error + frame) \<times> socket" where
  "read_framed_frame sha s =
     (case read_framed_packet s of
        (Inl e, s) \<Rightarrow> (Inl e, s)
      | (Inr packet, s) \<Rightarrow> (map_sum Tcp_Frame id (decode_frame sha packet), s))"

text \<open>\<open>OpenDTcpTransport::exchange\<close>: \<open>written\<close> is the error of \<open>write_all\<close>.\<close>

definition tcp_exchange :: "(bytes \<Rightarrow> bytes) \<Rightarrow> (bytes \<Rightarrow> os_error option) \<Rightarrow> bytes \<Rightarrow> socket \<Rightarrow> (tcp_error + bytes) \<times> socket" where
  "tcp_exchange sha written packet s =
     (case written packet of
        Some e \<Rightarrow> (Inl (Tcp_Io e), s)
      | None \<Rightarrow>
          (case read_framed_packet s of
             (Inl e, s) \<Rightarrow> (Inl e, s)
           | (Inr response, s) \<Rightarrow> (rbind (map_sum Tcp_Frame id (decode_frame sha response)) (\<lambda>_. Inr response), s)))"

section \<open>The request-response client\<close>

datatype transport_error =
    Bad_Frame frame_error
  | Exchange string
  | ProtocolMismatch u32 u32 \<comment> \<open>expected, actual\<close>
  | SerialMismatch u32 u32

record 'x opend_client =
  oc_transport :: 'x
  oc_next_serial :: u32

definition client_new :: "'x \<Rightarrow> 'x opend_client" where
  "client_new t = \<lparr>oc_transport = t, oc_next_serial = 0\<rparr>"

definition sat_inc_u32 :: "u32 \<Rightarrow> u32" where
  "sat_inc_u32 n = (if n = - 1 then n else n + 1)"

definition client_call ::
  "(bytes \<Rightarrow> bytes) \<Rightarrow> ('x \<Rightarrow> bytes \<Rightarrow> (string + bytes) \<times> 'x) \<Rightarrow> u32 \<Rightarrow> bytes \<Rightarrow> 'x opend_client \<Rightarrow> (transport_error + bytes) \<times> 'x opend_client" where
  "client_call sha exchange proto_id body c =
     (let serial = sat_inc_u32 (oc_next_serial c);
          c = c\<lparr>oc_next_serial := serial\<rparr>
      in case encode_frame sha proto_id serial body of
           Inl e \<Rightarrow> (Inl (Bad_Frame e), c)
         | Inr request \<Rightarrow>
             (case exchange (oc_transport c) request of
                (Inl e, t) \<Rightarrow> (Inl (Exchange e), c\<lparr>oc_transport := t\<rparr>)
              | (Inr response, t) \<Rightarrow>
                  (rbind (map_sum Bad_Frame id (decode_frame sha response)) (\<lambda>f.
                     if hd_proto_id (fr_header f) \<noteq> proto_id
                     then Inl (ProtocolMismatch proto_id (hd_proto_id (fr_header f)))
                     else if hd_serial_no (fr_header f) \<noteq> serial
                     then Inl (SerialMismatch serial (hd_serial_no (fr_header f)))
                     else Inr (fr_body f)),
                   c\<lparr>oc_transport := t\<rparr>)))"

section \<open>What a packet looks like\<close>

lemma slice_append [simp]:
  "length xs \<le> i \<Longrightarrow> slice_at i j (xs @ ys) = slice_at (i - length xs) (j - length xs) ys"
  by (auto simp: slice_at_def)

lemma slice_prefix [simp]: "j = i + length xs \<Longrightarrow> i = 0 \<Longrightarrow> slice_at i j (xs @ ys) = xs"
  by (simp add: slice_at_def)

definition packet_of :: "(bytes \<Rightarrow> bytes) \<Rightarrow> u32 \<Rightarrow> u32 \<Rightarrow> bytes \<Rightarrow> bytes" where
  "packet_of sha proto_id serial_no body =
     [0x46, 0x54] @ to_le_bytes proto_id @ [0, 0] @ to_le_bytes serial_no @ to_le_bytes (of_nat (length body)) @
     sha body @ replicate 8 0 @ body"

definition frame_of :: "(bytes \<Rightarrow> bytes) \<Rightarrow> u32 \<Rightarrow> u32 \<Rightarrow> bytes \<Rightarrow> frame" where
  "frame_of sha proto_id serial_no body =
     \<lparr>fr_header = \<lparr>hd_proto_id = proto_id, hd_proto_format = 0, hd_proto_version = 0, hd_serial_no = serial_no,
                   hd_body_len = of_nat (length body), hd_body_sha1 = sha body\<rparr>,
      fr_body = body\<rparr>"

lemma encode_layout:
  assumes "length (sha body) = 20" and "length body \<le> max_body_len"
  shows "encode_frame sha p s body = Inr (packet_of sha p s body)"
proof -
  have z: "(replicate (header_len + length body) (0 :: u8))[0 := 0x46, 1 := 0x54] = [0x46, 0x54] @ replicate 42 0 @ replicate (length body) 0"
    by (simp add: header_len_def numeral_eq_Suc replicate_add [symmetric] del: replicate_add)
  have r: "replicate 2 (0 :: u8) = [0, 0]" by (simp add: numeral_2_eq_2)
  show ?thesis using assms
    unfolding encode_frame_def Let_def z packet_of_def
    by (simp add: copy_at_def header_len_def r)
qed

lemma length_packet_of: "length (sha body) = 20 \<Longrightarrow> length (packet_of sha p s body) = header_len + length body"
  by (simp add: packet_of_def header_len_def)

lemma body_len_fits: "length body \<le> max_body_len \<Longrightarrow> unat (of_nat (length body) :: u32) = length body"
  by (simp add: max_body_len_def unat_of_nat)

lemma packet_body_len:
  "length (sha body) = 20 \<Longrightarrow> slice_at 12 16 (packet_of sha p s body @ rest) = to_le_bytes (of_nat (length body))"
  by (simp add: packet_of_def slice_at_def)

lemma decode_packet:
  assumes "length (sha body) = 20" and "length body \<le> max_body_len"
  shows "decode_frame sha (packet_of sha p s body) = Inr (frame_of sha p s body)"
proof -
  let ?k = "packet_of sha p s body"
  have d: "unat (from_le_bytes (slice_at 12 16 ?k)) = length body"
    using packet_body_len [of sha body p s "[]"] assms by (simp add: body_len_fits)
  have b: "drop header_len ?k = body" using assms(1) by (simp add: packet_of_def header_len_def)
  have h: "slice_at 16 36 ?k = sha body" "slice_at 0 2 ?k = [0x46, 0x54]" "slice_at 2 6 ?k = to_le_bytes p"
    "slice_at 8 12 ?k = to_le_bytes s" "?k ! 6 = 0" "?k ! 7 = 0"
    using assms(1) by (simp_all add: packet_of_def slice_at_def to_le_bytes_def)
  show ?thesis
    unfolding decode_frame_def Let_def d b h frame_of_def
    using assms by (simp add: length_packet_of)
qed

text \<open>The reserved bytes 6, 7 and 36 to 43 are all that a decoded frame forgets of its packet.\<close>

lemma split_packet:
  assumes "header_len \<le> length packet"
  shows "packet = slice_at 0 2 packet @ slice_at 2 6 packet @ slice_at 6 8 packet @ slice_at 8 12 packet @ slice_at 12 16 packet @
    slice_at 16 36 packet @ slice_at 36 44 packet @ drop header_len packet"
proof -
  have cut: "drop i packet = slice_at i j packet @ drop j packet" if "i \<le> j" for i j
    using that by (simp add: slice_at_def append_take_drop_id flip: drop_drop add_diff_inverse_nat) (metis append_take_drop_id drop_drop le_add_diff_inverse2)
  show ?thesis
    using cut [of 0 2] cut [of 2 6] cut [of 6 8] cut [of 8 12] cut [of 12 16] cut [of 16 36] cut [of 36 44]
    by (simp add: header_len_def)
qed

lemma decoded_packet:
  assumes "decode_frame sha packet = Inr f"
  shows "length (fr_body f) \<le> max_body_len"
    and "hd_body_sha1 (fr_header f) = sha (fr_body f)"
    and "hd_body_len (fr_header f) = of_nat (length (fr_body f))"
    and "packet = [0x46, 0x54] @ to_le_bytes (hd_proto_id (fr_header f)) @ slice_at 6 8 packet @ to_le_bytes (hd_serial_no (fr_header f)) @
      to_le_bytes (hd_body_len (fr_header f)) @ sha (fr_body f) @ slice_at 36 44 packet @ fr_body f"
proof -
  let ?d = "unat (from_le_bytes (slice_at 12 16 packet))"
  from assms have ok: "header_len \<le> length packet" "slice_at 0 2 packet = [0x46, 0x54]" "?d \<le> max_body_len"
    "length packet = header_len + ?d" "slice_at 16 36 packet = sha (drop header_len packet)"
    and f: "hd_proto_id (fr_header f) = from_le_bytes (slice_at 2 6 packet)" "hd_serial_no (fr_header f) = from_le_bytes (slice_at 8 12 packet)"
      "hd_body_len (fr_header f) = of_nat ?d" "hd_body_sha1 (fr_header f) = slice_at 16 36 packet" "fr_body f = drop header_len packet"
    by (auto simp: decode_frame_def Let_def split: if_splits)
  have l: "length (slice_at 2 6 packet) = 4" "length (slice_at 8 12 packet) = 4" "length (slice_at 12 16 packet) = 4"
    using ok(1) by (simp_all add: slice_at_def header_len_def)
  show "length (fr_body f) \<le> max_body_len" using ok(3,4) f(5) by simp
  show "hd_body_sha1 (fr_header f) = sha (fr_body f)" using ok(5) f(4,5) by simp
  show "hd_body_len (fr_header f) = of_nat (length (fr_body f))" using ok(4) f(3,5) by simp
  have "hd_body_len (fr_header f) = from_le_bytes (slice_at 12 16 packet)" using f(3) by simp
  then show "packet = [0x46, 0x54] @ to_le_bytes (hd_proto_id (fr_header f)) @ slice_at 6 8 packet @ to_le_bytes (hd_serial_no (fr_header f)) @
      to_le_bytes (hd_body_len (fr_header f)) @ sha (fr_body f) @ slice_at 36 44 packet @ fr_body f"
    using split_packet [OF ok(1)] ok(2,5) f(1,2,5) l by (simp add: le_bytes_inverse)
qed

section \<open>Frames off the socket\<close>

lemma read_exact_append [simp]:
  "n = length xs \<Longrightarrow> read_exact n (s\<lparr>so_bytes := xs @ ys\<rparr>) = (Inr xs, s\<lparr>so_bytes := ys\<rparr>)"
  by (simp add: read_exact_def)

lemma read_packet:
  assumes "length (sha body) = 20" and "length body \<le> max_body_len"
  shows "read_framed_packet (s\<lparr>so_bytes := packet_of sha p n body @ rest\<rparr>) =
    (Inr (packet_of sha p n body), s\<lparr>so_bytes := rest\<rparr>)"
proof -
  let ?h = "take header_len (packet_of sha p n body)"
  have k: "packet_of sha p n body = ?h @ body"
    using assms(1) append_take_drop_id [of header_len "packet_of sha p n body"] by (simp add: packet_of_def header_len_def)
  have l: "length ?h = header_len" using length_packet_of [of sha body p n] assms(1) by simp
  have "slice_at 12 16 ?h = to_le_bytes (of_nat (length body))"
    using packet_body_len [of sha body p n "[]"] assms(1) by (simp add: slice_at_def header_len_def drop_take)
  then have b: "unat (from_le_bytes (slice_at 12 16 ?h)) = length body" using assms(2) by (simp add: body_len_fits)
  have r: "read_exact header_len (s\<lparr>so_bytes := packet_of sha p n body @ rest\<rparr>) = (Inr ?h, s\<lparr>so_bytes := body @ rest\<rparr>)"
    using read_exact_append [where s = s and ys = "body @ rest", OF l [symmetric]]
    unfolding append_assoc [symmetric] k [symmetric] .
  show ?thesis
    unfolding read_framed_packet_def r using assms(2) k by (simp add: b Let_def)
qed

lemma read_frame:
  assumes "length (sha body) = 20" and "length body \<le> max_body_len"
  shows "read_framed_frame sha (s\<lparr>so_bytes := packet_of sha p n body @ rest\<rparr>) = (Inr (frame_of sha p n body), s\<lparr>so_bytes := rest\<rparr>)"
  unfolding read_framed_frame_def read_packet [where sha = sha and body = body, OF assms]
  by (simp add: decode_packet [where sha = sha and body = body, OF assms])

text \<open>A frame takes at least its header off the socket, so that the reader's loop ends.\<close>

lemma read_exact_shrinks: "read_exact n s = (Inr xs, t) \<Longrightarrow> length (so_bytes s) = n + length (so_bytes t)"
  by (auto simp: read_exact_def split: if_splits)

lemma read_frame_shrinks:
  assumes "read_framed_frame sha s = (Inr f, t)"
  shows "length (so_bytes t) < length (so_bytes s)"
  using assms
  by (auto simp: read_framed_frame_def read_framed_packet_def header_len_def Let_def split: prod.splits sum.splits if_splits
      dest!: read_exact_shrinks)

text \<open>The loop of \<open>run_reader\<close>: the frames of a socket and the error that ends it.\<close>

function read_frames :: "(bytes \<Rightarrow> bytes) \<Rightarrow> socket \<Rightarrow> frame list \<times> tcp_error" where
  "read_frames sha s =
     (case read_framed_frame sha s of
        (Inl e, _) \<Rightarrow> ([], e)
      | (Inr f, t) \<Rightarrow> apfst (Cons f) (read_frames sha t))"
  by pat_completeness auto

termination
  by (relation "measure (\<lambda>(_, s). length (so_bytes s))") (use read_frame_shrinks [OF sym] in auto)

declare read_frames.simps [simp del]

lemma encode_too_large: "max_body_len < length body \<Longrightarrow> encode_frame sha p n body = Inl BodyTooLarge"
  by (simp add: encode_frame_def)

lemma decoded_is_encoded:
  assumes "\<And>body. length (sha body) = 20" and f: "decode_frame sha packet = Inr f"
  shows "encode_frame sha (hd_proto_id (fr_header f)) (hd_serial_no (fr_header f)) (fr_body f) =
    Inr (copy_at 36 (replicate 8 0) (copy_at 6 [0, 0] packet))"
proof -
  note d = decoded_packet [OF f]
  have "header_len \<le> length packet" using f by (auto simp: decode_frame_def split: if_splits)
  then have l: "length (slice_at 6 8 packet) = 2" "length (slice_at 36 44 packet) = 8" by (simp_all add: slice_at_def header_len_def)
  have z: "length (sha (fr_body f)) = 20" by (rule assms)
  show ?thesis
    unfolding encode_layout [where sha = sha and body = "fr_body f", OF z d(1)] arg_cong [OF d(4), of "copy_at 6 [0, 0]"] packet_of_def
    using l z by (simp add: copy_at_def d(3))
qed

lemma client_call_answer:
  assumes "client_call sha exchange p body c = (Inr answer, c')"
  shows "\<exists>request response f. encode_frame sha p (oc_next_serial c') body = Inr request \<and>
    exchange (oc_transport c) request = (Inr response, oc_transport c') \<and>
    decode_frame sha response = Inr f \<and> fr_body f = answer \<and> hd_proto_id (fr_header f) = p \<and>
    hd_serial_no (fr_header f) = oc_next_serial c'"
  using assms
  by (auto simp: client_call_def Let_def rbind_Inr_iff split: sum.splits prod.splits if_splits)
    (auto simp: map_sum_def split: sum.splits)

lemma read_frames_Cons:
  assumes "\<And>body. length (sha body) = 20" and "encode_frame sha p n body = Inr packet"
  shows "read_frames sha (s\<lparr>so_bytes := packet @ rest\<rparr>) = apfst (Cons (frame_of sha p n body)) (read_frames sha (s\<lparr>so_bytes := rest\<rparr>))"
proof -
  have b: "length body \<le> max_body_len" using assms(2) encode_too_large [of body sha p n] by (cases "length body \<le> max_body_len") auto
  have k: "packet = packet_of sha p n body"
    using encode_layout [where sha = sha and body = body, OF assms(1) b, of p n] assms(2) by simp
  show ?thesis
    unfolding k read_frames.simps [of sha "s\<lparr>so_bytes := packet_of sha p n body @ rest\<rparr>"]
      read_frame [where sha = sha and body = body, OF assms(1) b]
    by simp
qed

lemma received_frames_sound:
  "f \<in> set (fst (read_frames sha s)) \<Longrightarrow> hd_body_sha1 (fr_header f) = sha (fr_body f) \<and> length (fr_body f) \<le> max_body_len"
proof (induction sha s rule: read_frames.induct)
  case (1 sha s)
  show ?case
  proof (cases "read_framed_frame sha s")
    case (Pair r t)
    show ?thesis
    proof (cases r)
      case (Inl e)
      then show ?thesis using 1(2) Pair by (simp add: read_frames.simps [of sha s])
    next
      case (Inr g)
      then obtain packet where "decode_frame sha packet = Inr g"
        using Pair by (auto simp: read_framed_frame_def map_sum_def split: prod.splits sum.splits)
      note g = decoded_packet(1,2) [OF this]
      show ?thesis using 1 Pair Inr g by (auto simp: read_frames.simps [of sha s])
    qed
  qed
qed

section \<open>The codec\<close>

text \<open>What \<open>encode_frame\<close> writes \<open>decode_frame\<close> reads back, field by field, and a body is refused
  exactly when it is above 32 MiB; a packet that \<open>decode_frame\<close> accepts is, up to the reserved bytes, the one
  that \<open>encode_frame\<close> writes for its frame.\<close>

theorem frame_roundtrip:
  assumes "\<And>body. length (sha body) = 20"
  shows "(case encode_frame sha proto_id serial_no body of
      Inl e \<Rightarrow> e = BodyTooLarge \<and> max_body_len < length body
    | Inr packet \<Rightarrow> length body \<le> max_body_len \<and> decode_frame sha packet = Inr (frame_of sha proto_id serial_no body)) \<and>
    (case decode_frame sha received of
      Inl _ \<Rightarrow> True
    | Inr f \<Rightarrow> encode_frame sha (hd_proto_id (fr_header f)) (hd_serial_no (fr_header f)) (fr_body f) =
        Inr (copy_at 36 (replicate 8 0) (copy_at 6 [0, 0] received)))"
proof
  show "case decode_frame sha received of
      Inl _ \<Rightarrow> True
    | Inr f \<Rightarrow> encode_frame sha (hd_proto_id (fr_header f)) (hd_serial_no (fr_header f)) (fr_body f) =
        Inr (copy_at 36 (replicate 8 0) (copy_at 6 [0, 0] received))"
    using decoded_is_encoded [of sha received] assms by (simp split: sum.split)
next
  show "case encode_frame sha proto_id serial_no body of
      Inl e \<Rightarrow> e = BodyTooLarge \<and> max_body_len < length body
    | Inr packet \<Rightarrow> length body \<le> max_body_len \<and> decode_frame sha packet = Inr (frame_of sha proto_id serial_no body)"
    using encode_too_large [of body sha proto_id serial_no] encode_layout [of sha body] decode_packet [of sha body] assms
    by (cases "length body \<le> max_body_len") simp_all
qed

text \<open>C40: The framing is self-delimiting. The reader's loop takes the frames that were written to a
  socket one after the other off it again, each with its own body, and goes on with what follows them.\<close>

theorem frames_on_the_wire:
  assumes "\<And>body. length (sha body) = 20"
    and "list_all2 (\<lambda>(p, n, body) packet. encode_frame sha p n body = Inr packet) requests packets"
  shows "read_frames sha (s\<lparr>so_bytes := concat packets @ rest\<rparr>) =
    apfst ((@) (map (\<lambda>(p, n, body). frame_of sha p n body) requests)) (read_frames sha (s\<lparr>so_bytes := rest\<rparr>))"
  using assms(2)
proof (induction rule: list_all2_induct)
  case Nil
  show ?case by (simp add: apfst_def map_prod_def split: prod.split)
next
  case (Cons r rs k ks)
  obtain p n body where r: "r = (p, n, body)" by (cases r) auto
  then show ?case
    using Cons read_frames_Cons [where sha = sha and p = p and n = n and body = body and packet = k and s = s and rest = "concat ks @ rest", OF assms(1)] by (simp add: apfst_compose o_def)
qed

section \<open>Instances\<close>

text \<open>A digest of 20 bytes to run the codec with.\<close>

definition count_digest :: "bytes \<Rightarrow> bytes" where
  "count_digest body = replicate 20 (of_nat (length body))"

lemma count_digest_length: "length (count_digest body) = 20"
  by (simp add: count_digest_def)

theorem frame_roundtrip_witness:
  "encode_frame count_digest 1001 42 [1, 2, 3] = Inr (packet_of count_digest 1001 42 [1, 2, 3]) \<and>
   decode_frame count_digest (packet_of count_digest 1001 42 [1, 2, 3]) = Inr (frame_of count_digest 1001 42 [1, 2, 3])"
proof -
  have e: "encode_frame count_digest 1001 42 [1, 2, 3] = Inr (packet_of count_digest 1001 42 [1, 2, 3])"
    by (rule encode_layout) (simp_all add: count_digest_def max_body_len_def)
  show ?thesis using frame_roundtrip [where sha = count_digest and proto_id = 1001 and serial_no = 42 and body = "[1, 2, 3]", OF count_digest_length] e by simp
qed

theorem frames_on_the_wire_witness:
  "read_frames count_digest \<lparr>so_bytes = packet_of count_digest 1001 1 [7] @ packet_of count_digest 3001 2 [] @ [9], so_end = UnexpectedEof\<rparr> =
    ([frame_of count_digest 1001 1 [7], frame_of count_digest 3001 2 []], Tcp_Io UnexpectedEof)"
proof -
  let ?p = "packet_of count_digest 1001 1 [7]" and ?q = "packet_of count_digest 3001 2 []"
  have e: "encode_frame count_digest 1001 1 [7] = Inr ?p" "encode_frame count_digest 3001 2 [] = Inr ?q"
    by (rule encode_layout; simp add: count_digest_def max_body_len_def)+
  have rest: "read_frames count_digest \<lparr>so_bytes = [9], so_end = UnexpectedEof\<rparr> = ([], Tcp_Io UnexpectedEof)"
    by (simp add: read_frames.simps [of count_digest] read_framed_frame_def read_framed_packet_def read_exact_def header_len_def)
  show ?thesis
    using frames_on_the_wire [where sha = count_digest and requests = "[(1001, 1, [7]), (3001, 2, [])]" and packets = "[?p, ?q]" and rest = "[9]" and
      s = "\<lparr>so_bytes = [], so_end = UnexpectedEof\<rparr>", OF count_digest_length] e rest
    by simp
qed

end
