(* ===== verification/Opend_Session.thy ===== *)
theory Opend_Session
  imports Opend_Frame Rust_Maps "HOL-Library.Multiset"
begin

text \<open>
  \<open>crates/jftrade-integration-futu/src/managed_session.rs\<close>: a session with OpenD. Many threads
  call at the same time; one reader thread takes the frames off the socket and gives each to the
  call it answers, or to the channel of events. A step of the relation \<open>opend_step\<close> is what one
  thread does under one lock, or one operation on a channel, so that the runs of the relation are the
  interleavings of the threads. The socket is all that will ever arrive on it; a channel is what was
  sent to it. No code that holds a lock panics, so a lock is never poisoned and no join fails.
\<close>

section \<open>The state\<close>

datatype close_reason = Local | PeerClosed | Transport string | InvalidFrame frame_error

datatype session_event = UnsolicitedFrame u64 frame | Session_Closed u64 close_reason

datatype session_error =
    Bad_Packet frame_error
  | Session_Io os_error
  | Session_Is_Closed close_reason
  | RequestTimeout u32 u32 \<comment> \<open>protocol, serial\<close>

text \<open>Where a thread stands in \<open>call_with_timeout\<close>.\<close>

datatype call_phase =
    Numbered | Registered | Waiting | Timed_Out
  | Write_Failed os_error | Ending os_error | Joining os_error
  | Finished "session_error + bytes"

text \<open>A call; \<open>ca_reply\<close> is what was sent to its channel of capacity one.\<close>

record call =
  ca_protocol :: u32
  ca_serial :: u32
  ca_packet :: bytes
  ca_phase :: call_phase
  ca_reply :: "(close_reason + frame) option"

datatype reader_state = Reading | Answering nat frame | Emitting frame | Leaving | Ended

text \<open>What is left to do of the one \<open>terminate\<close> that closed the session, and the thread it runs in.\<close>

datatype closer = By_Reader | By_Call nat | By_Owner

datatype closing_state = No_Closing | Shutting closer close_reason "nat list" | Telling closer close_reason "nat list"

record session =
  ss_generation :: u64
  ss_next_serial :: u32
  ss_pending :: "(u32, u32 \<times> nat) bmap" \<comment> \<open>protocol and call\<close>
  ss_closed :: bool
  ss_close_reason :: "close_reason option"
  ss_calls :: "call list"
  ss_written :: "bytes list"
  ss_shut :: bool
  ss_socket :: socket
  ss_reader :: reader_state
  ss_closing :: closing_state
  ss_events :: "session_event list"
  ss_received :: nat

definition session_new :: "u64 \<Rightarrow> socket \<Rightarrow> session" where
  "session_new generation socket =
     \<lparr>ss_generation = generation, ss_next_serial = 0, ss_pending = [], ss_closed = False, ss_close_reason = None,
      ss_calls = [], ss_written = [], ss_shut = False, ss_socket = socket, ss_reader = Reading, ss_closing = No_Closing,
      ss_events = [], ss_received = 0\<rparr>"

section \<open>What the threads do\<close>

definition in_phase :: "session \<Rightarrow> nat \<Rightarrow> call_phase \<Rightarrow> bool" where
  "in_phase s c ph \<longleftrightarrow> c < length (ss_calls s) \<and> ca_phase (ss_calls s ! c) = ph"

definition on_call :: "nat \<Rightarrow> (call \<Rightarrow> call) \<Rightarrow> session \<Rightarrow> session" where
  "on_call c f s = s\<lparr>ss_calls := (ss_calls s)[c := f (ss_calls s ! c)]\<rparr>"

definition set_phase :: "nat \<Rightarrow> call_phase \<Rightarrow> session \<Rightarrow> session" where
  "set_phase c ph = on_call c (\<lambda>x. x\<lparr>ca_phase := ph\<rparr>)"

definition send_reply :: "nat \<Rightarrow> close_reason + frame \<Rightarrow> session \<Rightarrow> session" where
  "send_reply c r = on_call c (\<lambda>x. x\<lparr>ca_reply := Some r\<rparr>)"

definition current_close_reason :: "session \<Rightarrow> close_reason" where
  "current_close_reason s = (case ss_close_reason s of Some r \<Rightarrow> r | None \<Rightarrow> PeerClosed)"

text \<open>\<open>wrapping_add(1).max(1)\<close>.\<close>

definition next_serial :: "u32 \<Rightarrow> u32" where
  "next_serial n = max (n + 1) 1"

definition begin_call :: "(bytes \<Rightarrow> bytes) \<Rightarrow> u32 \<Rightarrow> bytes \<Rightarrow> session \<Rightarrow> session" where
  "begin_call sha protocol body s =
     (let serial = next_serial (ss_next_serial s);
          new = \<lparr>ca_protocol = protocol, ca_serial = serial, ca_packet = [], ca_phase = Numbered, ca_reply = None\<rparr>
      in s\<lparr>ss_next_serial := serial,
           ss_calls := ss_calls s @
             [case encode_frame sha protocol serial body of
                Inl e \<Rightarrow> new\<lparr>ca_phase := Finished (Inl (Bad_Packet e))\<rparr>
              | Inr packet \<Rightarrow> new\<lparr>ca_packet := packet\<rparr>]\<rparr>)"

definition register_pending :: "nat \<Rightarrow> session \<Rightarrow> session" where
  "register_pending c s =
     (if ss_closed s then set_phase c (Finished (Inl (Session_Is_Closed (current_close_reason s)))) s
      else let x = ss_calls s ! c
           in set_phase c Registered (s\<lparr>ss_pending := bm_insert (ca_serial x) (ca_protocol x, c) (ss_pending s)\<rparr>))"

definition remove_pending :: "nat \<Rightarrow> session \<Rightarrow> session" where
  "remove_pending c s = s\<lparr>ss_pending := bm_remove (ca_serial (ss_calls s ! c)) (ss_pending s)\<rparr>"

text \<open>The part of \<open>terminate\<close> under the lock of the pending calls.\<close>

definition terminate :: "closer \<Rightarrow> close_reason \<Rightarrow> session \<Rightarrow> session" where
  "terminate by reason s =
     (if ss_closed s then s
      else s\<lparr>ss_closed := True, ss_close_reason := Some reason, ss_pending := [],
             ss_closing := Shutting by reason (map snd (bm_values (ss_pending s)))\<rparr>)"

definition dispatch_frame :: "frame \<Rightarrow> session \<Rightarrow> session" where
  "dispatch_frame f s =
     (let serial = hd_serial_no (fr_header f)
      in case opt_filter (\<lambda>(protocol, _). protocol = hd_proto_id (fr_header f)) (bm_get (ss_pending s) serial) of
           Some (_, c) \<Rightarrow> s\<lparr>ss_pending := bm_remove serial (ss_pending s), ss_reader := Answering c f\<rparr>
         | None \<Rightarrow> s\<lparr>ss_reader := Emitting f\<rparr>)"

definition os_text :: "os_error \<Rightarrow> string" where
  "os_text e = (case e of UnexpectedEof \<Rightarrow> ''failed to fill whole buffer'' | Io_Error message \<Rightarrow> message)"

definition close_reason_from_read :: "tcp_error \<Rightarrow> close_reason" where
  "close_reason_from_read e =
     (case e of
        Tcp_Io UnexpectedEof \<Rightarrow> PeerClosed
      | Tcp_Io io \<Rightarrow> Transport (os_text io)
      | Tcp_Frame error \<Rightarrow> InvalidFrame error)"

definition write_reason :: "os_error \<Rightarrow> close_reason" where
  "write_reason e = Transport (''OpenD managed session I/O failed: '' @ os_text e)"

definition leave_reader :: "tcp_error \<Rightarrow> session \<Rightarrow> session" where
  "leave_reader e s = (terminate By_Reader (close_reason_from_read e) s)\<lparr>ss_reader := Leaving\<rparr>"

text \<open>The calls whose sender is alive: it is in the table, in the hands of the reader or of who closes.\<close>

definition closing_calls :: "closing_state \<Rightarrow> nat list" where
  "closing_calls x = (case x of No_Closing \<Rightarrow> [] | Shutting _ _ cs \<Rightarrow> cs | Telling _ _ cs \<Rightarrow> cs)"

definition reader_calls :: "reader_state \<Rightarrow> nat list" where
  "reader_calls x = (case x of Answering c _ \<Rightarrow> [c] | _ \<Rightarrow> [])"

definition senders :: "session \<Rightarrow> nat list" where
  "senders s = map snd (bm_values (ss_pending s)) @ reader_calls (ss_reader s) @ closing_calls (ss_closing s)"

definition closing_by :: "closer \<Rightarrow> session \<Rightarrow> bool" where
  "closing_by who s \<longleftrightarrow> (case ss_closing s of No_Closing \<Rightarrow> False | Shutting by _ _ \<Rightarrow> by = who | Telling by _ _ \<Rightarrow> by = who)"

section \<open>The interleavings\<close>

inductive opend_step :: "(bytes \<Rightarrow> bytes) \<Rightarrow> session \<Rightarrow> session \<Rightarrow> bool" for sha where
  Begin: "opend_step sha s (begin_call sha protocol body s)"
| Register: "in_phase s c Numbered \<Longrightarrow> opend_step sha s (register_pending c s)"
| Write: "in_phase s c Registered \<Longrightarrow> \<not> ss_shut s \<Longrightarrow>
    opend_step sha s (set_phase c Waiting (s\<lparr>ss_written := ss_written s @ [ca_packet (ss_calls s ! c)]\<rparr>))"
| Write_Fails: "in_phase s c Registered \<Longrightarrow> opend_step sha s (set_phase c (Write_Failed e) s)"
| Forget: "in_phase s c (Write_Failed e) \<Longrightarrow> opend_step sha s (set_phase c (Ending e) (remove_pending c s))"
| End_Session: "in_phase s c (Ending e) \<Longrightarrow>
    opend_step sha s (set_phase c (Joining e) (terminate (By_Call c) (write_reason e) s))"
| Join: "in_phase s c (Joining e) \<Longrightarrow> \<not> closing_by (By_Call c) s \<Longrightarrow> ss_reader s = Ended \<Longrightarrow>
    opend_step sha s (set_phase c (Finished (Inl (Session_Io e))) s)"
| Answered: "in_phase s c Waiting \<Longrightarrow> ca_reply (ss_calls s ! c) = Some r \<Longrightarrow>
    opend_step sha s (set_phase c (Finished (map_sum Session_Is_Closed fr_body r)) s)"
| Disconnected: "in_phase s c Waiting \<Longrightarrow> ca_reply (ss_calls s ! c) = None \<Longrightarrow> c \<notin> set (senders s) \<Longrightarrow>
    opend_step sha s (set_phase c (Finished (Inl (Session_Is_Closed (current_close_reason s)))) s)"
| Timeout: "in_phase s c Waiting \<Longrightarrow> ca_reply (ss_calls s ! c) = None \<Longrightarrow> c \<in> set (senders s) \<Longrightarrow>
    opend_step sha s (set_phase c Timed_Out s)"
| Give_Up: "in_phase s c Timed_Out \<Longrightarrow> x = ss_calls s ! c \<Longrightarrow>
    opend_step sha s (set_phase c (Finished (Inl (RequestTimeout (ca_protocol x) (ca_serial x)))) (remove_pending c s))"
| Close: "opend_step sha s (terminate By_Owner Local s)"
| Read: "ss_reader s = Reading \<Longrightarrow> read_framed_frame sha (ss_socket s) = (Inr f, t) \<Longrightarrow>
    opend_step sha s (dispatch_frame f (s\<lparr>ss_socket := t\<rparr>))"
| Read_Fails: "ss_reader s = Reading \<Longrightarrow> read_framed_frame sha (ss_socket s) = (Inl e, t) \<Longrightarrow>
    opend_step sha s (leave_reader e s)"
| Read_Shut: "ss_reader s = Reading \<Longrightarrow> ss_shut s \<Longrightarrow> opend_step sha s (leave_reader (Tcp_Io io) s)"
| Reply: "ss_reader s = Answering c f \<Longrightarrow> opend_step sha s ((send_reply c (Inr f) s)\<lparr>ss_reader := Reading\<rparr>)"
| Emit: "ss_reader s = Emitting f \<Longrightarrow>
    opend_step sha s (s\<lparr>ss_reader := Reading, ss_events := ss_events s @ [UnsolicitedFrame (ss_generation s) f]\<rparr>)"
| Reader_Ends: "ss_reader s = Leaving \<Longrightarrow> \<not> closing_by By_Reader s \<Longrightarrow> opend_step sha s (s\<lparr>ss_reader := Ended\<rparr>)"
| Shutdown: "ss_closing s = Shutting by r cs \<Longrightarrow> opend_step sha s (s\<lparr>ss_shut := True, ss_closing := Telling by r cs\<rparr>)"
| Tell: "ss_closing s = Telling by r (c # cs) \<Longrightarrow>
    opend_step sha s ((send_reply c (Inl r) s)\<lparr>ss_closing := Telling by r cs\<rparr>)"
| Tell_Owner: "ss_closing s = Telling by r [] \<Longrightarrow>
    opend_step sha s (s\<lparr>ss_closing := No_Closing, ss_events := ss_events s @ [Session_Closed (ss_generation s) r]\<rparr>)"
| Receive: "ss_received s < length (ss_events s) \<Longrightarrow> opend_step sha s (s\<lparr>ss_received := ss_received s + 1\<rparr>)"

abbreviation session_run :: "(bytes \<Rightarrow> bytes) \<Rightarrow> session \<Rightarrow> session \<Rightarrow> bool" where
  "session_run sha \<equiv> (opend_step sha)\<^sup>*\<^sup>*"

inductive_cases opend_stepE: "opend_step sha s t"

section \<open>Invariants\<close>

lemma nth_update: "xs[c := y] ! d = (if d = c \<and> c < length xs then y else xs ! d)"
  by (cases "c < length xs") (auto simp: nth_list_update list_update_beyond)

lemma on_call_simps [simp]:
  "ss_pending (on_call c f s) = ss_pending s" "ss_closed (on_call c f s) = ss_closed s"
  "ss_close_reason (on_call c f s) = ss_close_reason s" "ss_reader (on_call c f s) = ss_reader s"
  "ss_closing (on_call c f s) = ss_closing s" "ss_events (on_call c f s) = ss_events s" "ss_shut (on_call c f s) = ss_shut s"
  "ss_generation (on_call c f s) = ss_generation s" "ss_socket (on_call c f s) = ss_socket s"
  "ss_next_serial (on_call c f s) = ss_next_serial s"
  "length (ss_calls (on_call c f s)) = length (ss_calls s)"
  "senders (on_call c f s) = senders s"
  by (simp_all add: on_call_def senders_def)

lemma on_call_nth [simp]:
  "d < length (ss_calls s) \<Longrightarrow> ss_calls (on_call c f s) ! d = (if d = c then f (ss_calls s ! d) else ss_calls s ! d)"
  by (simp add: on_call_def nth_list_update)

lemmas thread_defs = set_phase_def send_reply_def begin_call_def register_pending_def remove_pending_def terminate_def
  dispatch_frame_def leave_reader_def Let_def

text \<open>How a session closes: once, for one reason, with one event.\<close>

definition closed_events :: "session \<Rightarrow> session_event list" where
  "closed_events s = filter (\<lambda>e. case e of Session_Closed _ _ \<Rightarrow> True | _ \<Rightarrow> False) (ss_events s)"

definition closing_ok :: "session \<Rightarrow> bool" where
  "closing_ok s \<longleftrightarrow>
     (if ss_closed s
      then ss_pending s = [] \<and>
        (case ss_close_reason s of
           None \<Rightarrow> False
         | Some r \<Rightarrow>
             (case ss_closing s of
                No_Closing \<Rightarrow> closed_events s = [Session_Closed (ss_generation s) r]
              | Shutting _ r' _ \<Rightarrow> r' = r \<and> closed_events s = []
              | Telling _ r' _ \<Rightarrow> r' = r \<and> closed_events s = []))
      else ss_close_reason s = None \<and> ss_closing s = No_Closing \<and> closed_events s = [] \<and> \<not> ss_shut s \<and>
        ss_reader s \<noteq> Leaving \<and> ss_reader s \<noteq> Ended)"

lemma closing_new: "closing_ok (session_new g k)"
  by (simp add: closing_ok_def session_new_def closed_events_def)

lemma closing_stage_step: "opend_step sha s t \<Longrightarrow> closing_ok s \<Longrightarrow> closing_ok t"
  by (induction rule: opend_step.induct)
    (auto simp: closing_ok_def thread_defs closed_events_def split: option.splits closing_state.splits prod.splits if_splits)

text \<open>The table of pending calls holds each call under its own serial and protocol.\<close>

definition table_ok :: "session \<Rightarrow> bool" where
  "table_ok s \<longleftrightarrow> bm_ok (ss_pending s) \<and>
     (\<forall>n p c. bm_get (ss_pending s) n = Some (p, c) \<longrightarrow>
        c < length (ss_calls s) \<and> ca_protocol (ss_calls s ! c) = p \<and> ca_serial (ss_calls s ! c) = n)"

lemma table_new: "table_ok (session_new g k)"
  by (simp add: table_ok_def session_new_def)

lemma table_step: "opend_step sha s t \<Longrightarrow> table_ok s \<Longrightarrow> table_ok t"
  by (induction rule: opend_step.induct)
    (auto simp: table_ok_def thread_defs in_phase_def bm_get_remove nth_append opt_filter_Some_iff intro: less_SucI split: option.splits prod.splits if_splits)

text \<open>A call has one sender at most, which has sent nothing yet.\<close>

definition senders_ok :: "session \<Rightarrow> bool" where
  "senders_ok s \<longleftrightarrow> distinct (senders s) \<and>
     (\<forall>c \<in> set (senders s). c < length (ss_calls s) \<and> ca_reply (ss_calls s ! c) = None \<and> ca_phase (ss_calls s ! c) \<noteq> Numbered) \<and>
     (\<forall>c < length (ss_calls s). ca_phase (ss_calls s ! c) = Numbered \<longrightarrow> ca_reply (ss_calls s ! c) = None)"

lemma senders_new: "senders_ok (session_new g k)"
  by (simp add: senders_ok_def senders_def session_new_def bm_values_def reader_calls_def closing_calls_def)

lemma pending_calls_distinct:
  assumes "table_ok s"
  shows "distinct (map snd (bm_values (ss_pending s)))"
proof -
  have k: "map fst (ss_pending s) = map (\<lambda>c. ca_serial (ss_calls s ! c)) (map snd (bm_values (ss_pending s)))"
    using assms by (auto simp: table_ok_def bm_values_def bm_in_set_get [symmetric])
  have "distinct (map fst (ss_pending s))" using assms by (simp add: table_ok_def bm_distinct)
  then show ?thesis unfolding k distinct_map by simp
qed

lemma values_insert: "set (bm_values (bm_insert k v m)) \<subseteq> insert v (set (bm_values m))"
  using bm_entries_insert [of k v m] by (force simp: bm_values_def)

lemma values_remove: "set (bm_values (bm_remove k m)) \<subseteq> set (bm_values m)"
  using bm_remove_subset [of k m] by (auto simp: bm_values_def)

lemma remove_gone:
  assumes "table_ok s" and "bm_get (ss_pending s) n = Some (p, c)"
  shows "c \<notin> snd ` set (bm_values (bm_remove n (ss_pending s)))"
proof
  assume "c \<in> snd ` set (bm_values (bm_remove n (ss_pending s)))"
  then obtain n' p' where e: "(n', (p', c)) \<in> set (bm_remove n (ss_pending s))" by (auto simp: bm_values_def)
  have ok: "bm_ok (ss_pending s)" using assms(1) by (simp add: table_ok_def)
  have "bm_get (bm_remove n (ss_pending s)) n' = Some (p', c)" using e bm_in_set_get [OF bm_ok_remove [OF ok]] by blast
  then have "n' \<noteq> n" "bm_get (ss_pending s) n' = Some (p', c)" using ok by (auto simp: bm_get_remove split: if_splits)
  moreover from this(2) have "ca_serial (ss_calls s ! c) = n'" using assms(1) by (simp add: table_ok_def)
  moreover have "ca_serial (ss_calls s ! c) = n" using assms by (simp add: table_ok_def)
  ultimately show False by simp
qed

lemma senders_okI:
  assumes "senders_ok s" and "set (senders t) \<subseteq> insert c (set (senders s))" and "distinct (senders t)"
    and "c < length (ss_calls s)" and "ss_calls t = (ss_calls s)[c := x]" and "ca_reply x = None" and "ca_phase x \<noteq> Numbered"
  shows "senders_ok t"
  using assms by (auto simp: senders_ok_def nth_list_update)

lemma senders_ok_less:
  assumes "senders_ok s" and "set (senders t) \<subseteq> set (senders s)" and "distinct (senders t)"
    and "c < length (ss_calls s)" and "ss_calls t = (ss_calls s)[c := x]" and "ca_reply x = ca_reply (ss_calls s ! c)" and "ca_phase x \<noteq> Numbered"
  shows "senders_ok t"
  using assms by (auto simp: senders_ok_def nth_list_update)

lemma senders_removed:
  assumes "senders_ok s" and "distinct (map snd (bm_values (bm_remove n (ss_pending s))))"
  shows "distinct (senders (s\<lparr>ss_pending := bm_remove n (ss_pending s)\<rparr>))"
    and "set (senders (s\<lparr>ss_pending := bm_remove n (ss_pending s)\<rparr>)) \<subseteq> set (senders s)"
proof -
  have v: "snd ` set (bm_values (bm_remove n (ss_pending s))) \<subseteq> snd ` set (bm_values (ss_pending s))"
    using values_remove [of n "ss_pending s"] by blast
  show "distinct (senders (s\<lparr>ss_pending := bm_remove n (ss_pending s)\<rparr>))"
    using assms v by (auto simp: senders_ok_def senders_def)
  show "set (senders (s\<lparr>ss_pending := bm_remove n (ss_pending s)\<rparr>)) \<subseteq> set (senders s)"
    using v by (auto simp: senders_def)
qed

lemma senders_ok_move:
  assumes "senders_ok s" and "ss_calls t = ss_calls s" and "set (senders t) \<subseteq> set (senders s)" and "distinct (senders t)"
  shows "senders_ok t"
  using assms by (auto simp: senders_ok_def)

lemma set_phase_senders: "senders_ok s \<Longrightarrow> ph \<noteq> Numbered \<Longrightarrow> senders_ok (set_phase c ph s)"
proof (cases "c < length (ss_calls s)")
  case True
  assume s: "senders_ok s" and ph: "ph \<noteq> Numbered"
  have d: "distinct (senders s)" using s by (simp add: senders_ok_def)
  show ?thesis
    by (rule senders_ok_less [OF s _ _ True, where x = "(ss_calls s ! c)\<lparr>ca_phase := ph\<rparr>"])
      (use d ph in \<open>simp_all add: set_phase_def on_call_def senders_def\<close>)
qed (simp add: set_phase_def on_call_def list_update_beyond)

lemma terminate_senders: "closing_ok s \<Longrightarrow> senders_ok s \<Longrightarrow> senders_ok (terminate who r s)"
proof (cases "ss_closed s")
  case False
  assume "closing_ok s" and s: "senders_ok s"
  then have "ss_closing s = No_Closing" using False by (simp add: closing_ok_def)
  then have t: "senders s = map snd (bm_values (ss_pending s)) @ reader_calls (ss_reader s)"
    "senders (terminate who r s) = reader_calls (ss_reader s) @ map snd (bm_values (ss_pending s))"
    using False by (simp_all add: senders_def terminate_def closing_calls_def bm_values_def)
  show ?thesis
    by (rule senders_ok_move [OF s]) (use s False in \<open>auto simp: t senders_ok_def, simp add: terminate_def\<close>)
qed (simp add: terminate_def)

lemma leave_senders: "closing_ok s \<Longrightarrow> senders_ok s \<Longrightarrow> ss_reader s = Reading \<Longrightarrow> senders_ok (leave_reader e s)"
  using terminate_senders [of s By_Reader "close_reason_from_read e"]
  by (auto simp: leave_reader_def senders_ok_def senders_def reader_calls_def terminate_def split: if_splits)

lemma senders_step:
  assumes "opend_step sha s t" and "table_ok s" and "table_ok t" and "closing_ok s" and "senders_ok s"
  shows "senders_ok t"
  using assms
proof (induction rule: opend_step.induct)
  case (Begin s p body)
  then show ?case by (auto simp: senders_ok_def senders_def begin_call_def Let_def nth_append intro: less_SucI split: sum.split)
next
  case (Register s c)
  have d: "distinct (map snd (bm_values (ss_pending (register_pending c s))))" by (rule pending_calls_distinct [OF Register(3)])
  show ?case
  proof (cases "ss_closed s")
    case True
    then show ?thesis using Register by (auto simp: senders_ok_def register_pending_def set_phase_def)
  next
    case False
    let ?m = "bm_insert (ca_serial (ss_calls s ! c)) (ca_protocol (ss_calls s ! c), c) (ss_pending s)"
    have v: "snd ` set (bm_values ?m) \<subseteq> insert c (snd ` set (bm_values (ss_pending s)))"
      using values_insert [of "ca_serial (ss_calls s ! c)" "(ca_protocol (ss_calls s ! c), c)" "ss_pending s"] by auto
    let ?t = "register_pending c s"
    have t: "senders ?t = map snd (bm_values ?m) @ reader_calls (ss_reader s)"
      using False Register(4) by (simp add: register_pending_def set_phase_def Let_def senders_def closing_ok_def closing_calls_def)
    have c: "c \<notin> set (senders s)" using Register(1,5) by (auto simp: senders_ok_def in_phase_def)
    have calls: "ss_calls ?t = (ss_calls s)[c := (ss_calls s ! c)\<lparr>ca_phase := Registered\<rparr>]"
      using False by (simp add: register_pending_def set_phase_def Let_def on_call_def)
    have dt: "distinct (senders ?t)"
    proof -
      have "distinct (map snd (bm_values ?m))" using d False by (simp add: register_pending_def set_phase_def Let_def)
      moreover have "c \<notin> set (reader_calls (ss_reader s))" "distinct (reader_calls (ss_reader s))"
        "snd ` set (bm_values (ss_pending s)) \<inter> set (reader_calls (ss_reader s)) = {}"
        using Register(5) c by (auto simp: senders_ok_def senders_def)
      ultimately show ?thesis unfolding t distinct_append set_map using v by blast
    qed
    have sub: "set (senders ?t) \<subseteq> insert c (set (senders s))" unfolding t using v by (auto simp: senders_def)
    show ?thesis
      by (rule senders_okI [OF Register(5) sub dt _ calls]) (use Register(1,5) in \<open>auto simp: senders_ok_def in_phase_def\<close>)
  qed
next
  case (Forget s c e)
  have d: "distinct (map snd (bm_values (bm_remove (ca_serial (ss_calls s ! c)) (ss_pending s))))"
    using pending_calls_distinct [OF Forget(3)] by (simp add: set_phase_def remove_pending_def)
  note r = senders_removed [OF Forget(5) d]
  show ?case
    by (rule senders_ok_less [OF Forget(5), where c = c and x = "(ss_calls s ! c)\<lparr>ca_phase := Ending e\<rparr>"])
      (use r Forget(1) in \<open>simp_all add: set_phase_def remove_pending_def on_call_def senders_def in_phase_def\<close>)
next
  case (Give_Up s c x)
  have d: "distinct (map snd (bm_values (bm_remove (ca_serial (ss_calls s ! c)) (ss_pending s))))"
    using pending_calls_distinct [OF Give_Up(4)] by (simp add: set_phase_def remove_pending_def)
  note r = senders_removed [OF Give_Up(6) d]
  show ?case
    by (rule senders_ok_less [OF Give_Up(6), where c = c and x = "(ss_calls s ! c)\<lparr>ca_phase := Finished (Inl (RequestTimeout (ca_protocol x) (ca_serial x)))\<rparr>"])
      (use r Give_Up(1) in \<open>simp_all add: set_phase_def remove_pending_def on_call_def senders_def in_phase_def\<close>)
next
  case (Read s f k)
  let ?n = "hd_serial_no (fr_header f)"
  show ?case
  proof (cases "bm_get (ss_pending s) ?n")
    case None
    then show ?thesis using Read by (auto simp: dispatch_frame_def Let_def senders_ok_def senders_def reader_calls_def)
  next
    case (Some e)
    obtain p c where e: "e = (p, c)" by (cases e)
    show ?thesis
    proof (cases "p = hd_proto_id (fr_header f)")
      case False
      then show ?thesis using Read Some e by (auto simp: dispatch_frame_def Let_def opt_filter_def senders_ok_def senders_def reader_calls_def)
    next
      case True
      let ?t = "dispatch_frame f (s\<lparr>ss_socket := k\<rparr>)"
      have t: "ss_calls ?t = ss_calls s" "ss_pending ?t = bm_remove ?n (ss_pending s)"
        "senders ?t = map snd (bm_values (bm_remove ?n (ss_pending s))) @ c # closing_calls (ss_closing s)"
        using Some e True by (simp_all add: dispatch_frame_def Let_def opt_filter_def senders_def reader_calls_def)
      have c: "c \<in> snd ` set (bm_values (ss_pending s))" using bm_get_in_set [OF Some] e by (force simp: bm_values_def)
      have g: "c \<notin> snd ` set (bm_values (bm_remove ?n (ss_pending s)))" using remove_gone [OF Read(3)] Some e by simp
      have d: "distinct (map snd (bm_values (bm_remove ?n (ss_pending s))))" using pending_calls_distinct [OF Read(4)] t(2) by simp
      note r = senders_removed [OF Read(6) d]
      have s: "reader_calls (ss_reader s) = []" using Read(1) by (simp add: reader_calls_def)
      have "c \<notin> set (closing_calls (ss_closing s))" using Read(6) c by (auto simp: senders_ok_def senders_def)
      then have "distinct (senders ?t)" using r(1) g s t(3) by (simp add: senders_def)
      moreover have "set (senders ?t) \<subseteq> set (senders s)" using r(2) c s t(3) by (auto simp: senders_def)
      ultimately show ?thesis by (rule senders_ok_move [OF Read(6) t(1), rotated])
    qed
  qed
next
  case (End_Session s c e)
  show ?case by (rule set_phase_senders [OF terminate_senders [OF End_Session(4,5)]]) simp
next
  case (Close s)
  show ?case by (rule terminate_senders [OF Close(3,4)])
next
  case (Read_Fails s e k)
  show ?case by (rule leave_senders [OF Read_Fails(5,6,1)])
next
  case (Read_Shut s io)
  show ?case by (rule leave_senders [OF Read_Shut(5,6,1)])
next
  case (Reply s c f)
  then have "c < length (ss_calls s)" by (auto simp: senders_ok_def senders_def reader_calls_def)
  then show ?case using Reply
    by (auto simp: senders_ok_def senders_def reader_calls_def send_reply_def on_call_def nth_list_update)
next
  case (Tell s who r c cs)
  then have "c < length (ss_calls s)" by (auto simp: senders_ok_def senders_def closing_calls_def)
  then show ?case using Tell
    by (auto simp: senders_ok_def senders_def closing_calls_def send_reply_def on_call_def nth_list_update)
next
  case (Write s c)
  show ?case by (rule set_phase_senders) (use Write in \<open>simp_all add: senders_ok_def senders_def\<close>)
next
  case (Write_Fails s c e)
  show ?case by (rule set_phase_senders) (use Write_Fails in \<open>simp_all add: senders_ok_def senders_def\<close>)
next
  case (Join s c e)
  show ?case by (rule set_phase_senders) (use Join in \<open>simp_all add: senders_ok_def senders_def\<close>)
next
  case (Answered s c r)
  show ?case by (rule set_phase_senders) (use Answered in \<open>simp_all add: senders_ok_def senders_def\<close>)
next
  case (Disconnected s c)
  show ?case by (rule set_phase_senders) (use Disconnected in \<open>simp_all add: senders_ok_def senders_def\<close>)
next
  case (Timeout s c)
  show ?case by (rule set_phase_senders) (use Timeout in \<open>simp_all add: senders_ok_def senders_def\<close>)
qed (simp_all add: senders_ok_def senders_def reader_calls_def closing_calls_def)

text \<open>A reply is a frame of the protocol and serial of the call, or the reason the session closed for.\<close>

definition reply_fits :: "session \<Rightarrow> call \<Rightarrow> bool" where
  "reply_fits s x \<longleftrightarrow>
     (case ca_reply x of
        None \<Rightarrow> True
      | Some (Inr f) \<Rightarrow> hd_proto_id (fr_header f) = ca_protocol x \<and> hd_serial_no (fr_header f) = ca_serial x
      | Some (Inl r) \<Rightarrow> ss_close_reason s = Some r)"

definition result_fits :: "session \<Rightarrow> call \<Rightarrow> bool" where
  "result_fits s x \<longleftrightarrow>
     (case ca_phase x of
        Finished (Inr body) \<Rightarrow> (\<exists>f. ca_reply x = Some (Inr f) \<and> fr_body f = body)
      | Finished (Inl (Session_Is_Closed r)) \<Rightarrow> ss_close_reason s = Some r \<or> r = PeerClosed
      | Finished (Inl (RequestTimeout p n)) \<Rightarrow> p = ca_protocol x \<and> n = ca_serial x
      | _ \<Rightarrow> True)"

definition reader_fits :: "session \<Rightarrow> bool" where
  "reader_fits s \<longleftrightarrow>
     (case ss_reader s of
        Answering c f \<Rightarrow> hd_proto_id (fr_header f) = ca_protocol (ss_calls s ! c) \<and> hd_serial_no (fr_header f) = ca_serial (ss_calls s ! c)
      | _ \<Rightarrow> True)"

definition replies_ok :: "session \<Rightarrow> bool" where
  "replies_ok s \<longleftrightarrow> (\<forall>c < length (ss_calls s). reply_fits s (ss_calls s ! c) \<and> result_fits s (ss_calls s ! c)) \<and> reader_fits s"

lemma replies_new: "replies_ok (session_new g k)"
  by (simp add: replies_ok_def session_new_def reader_fits_def)

text \<open>Steps that touch one call, or none, and give no reason up.\<close>

lemma fits_mono:
  assumes "ss_close_reason s = None \<or> ss_close_reason t = ss_close_reason s"
  shows "reply_fits s x \<Longrightarrow> reply_fits t x" and "result_fits s x \<Longrightarrow> result_fits t x"
  using assms by (auto simp: reply_fits_def result_fits_def split: option.splits sum.splits call_phase.splits session_error.splits)

lemma replies_okI:
  assumes "replies_ok s" and "ss_calls t = (ss_calls s)[c := x]" and "ss_close_reason s = None \<or> ss_close_reason t = ss_close_reason s"
    and "c < length (ss_calls s) \<Longrightarrow> reply_fits t x \<and> result_fits t x" and "reader_fits t"
  shows "replies_ok t"
  unfolding replies_ok_def
proof (intro conjI allI impI)
  fix d assume "d < length (ss_calls t)"
  then have d: "d < length (ss_calls s)" using assms(2) by simp
  show "reply_fits t (ss_calls t ! d)" "result_fits t (ss_calls t ! d)"
    using assms(1,2,4) d fits_mono [OF assms(3), of "ss_calls s ! d"] by (auto simp: replies_ok_def nth_update)
qed (rule assms(5))

lemma replies_same:
  assumes "replies_ok s" and "ss_calls t = ss_calls s" and "ss_close_reason s = None \<or> ss_close_reason t = ss_close_reason s" and "reader_fits t"
  shows "replies_ok t"
  using assms(1,2,4) fits_mono [OF assms(3)] by (simp add: replies_ok_def)

lemma reader_fits_cong: "ss_reader t = ss_reader s \<Longrightarrow> ss_calls t = ss_calls s \<Longrightarrow> reader_fits t = reader_fits s"
  by (cases "ss_reader s") (simp_all add: reader_fits_def)

lemma reader_fits_update [simp]:
  "reader_fits (s\<lparr>ss_pending := m\<rparr>) = reader_fits s" "reader_fits (s\<lparr>ss_written := w\<rparr>) = reader_fits s"
  "reader_fits (s\<lparr>ss_closing := x\<rparr>) = reader_fits s" "reader_fits (s\<lparr>ss_events := es\<rparr>) = reader_fits s"
  "reader_fits (s\<lparr>ss_received := n\<rparr>) = reader_fits s" "reader_fits (s\<lparr>ss_shut := b\<rparr>) = reader_fits s"
  by (rule reader_fits_cong; simp)+

lemma reader_fits_phase: "reader_fits s \<Longrightarrow> reader_fits (set_phase c ph s)"
  by (cases "c < length (ss_calls s)")
    (auto simp: reader_fits_def set_phase_def on_call_def nth_update split: reader_state.splits)

lemma replies_set_phase:
  assumes "replies_ok s" and "c < length (ss_calls s) \<Longrightarrow> result_fits s ((ss_calls s ! c)\<lparr>ca_phase := ph\<rparr>)"
  shows "replies_ok (set_phase c ph s)"
proof (rule replies_okI [OF assms(1), where c = c and x = "(ss_calls s ! c)\<lparr>ca_phase := ph\<rparr>"])
  show "reader_fits (set_phase c ph s)" using assms(1) reader_fits_phase by (simp add: replies_ok_def)
  assume c: "c < length (ss_calls s)"
  show "reply_fits (set_phase c ph s) ((ss_calls s ! c)\<lparr>ca_phase := ph\<rparr>) \<and> result_fits (set_phase c ph s) ((ss_calls s ! c)\<lparr>ca_phase := ph\<rparr>)"
  proof -
    have r: "ss_close_reason s = None \<or> ss_close_reason (set_phase c ph s) = ss_close_reason s" by (simp add: set_phase_def)
    have "reply_fits s ((ss_calls s ! c)\<lparr>ca_phase := ph\<rparr>)" using assms(1) c
      by (auto simp: replies_ok_def reply_fits_def split: option.splits sum.splits)
    then show ?thesis using fits_mono [OF r] assms(2) [OF c] by simp
  qed
qed (simp_all add: set_phase_def on_call_def)

lemma replies_terminate:
  assumes "replies_ok s" and "closing_ok s"
  shows "replies_ok (terminate who r s)"
  by (rule replies_same [OF assms(1)])
    (use assms in \<open>auto simp: terminate_def closing_ok_def replies_ok_def reader_fits_def split: option.splits reader_state.splits\<close>)

lemma replies_send:
  assumes "replies_ok s" and "ca_reply (ss_calls s ! c) = None" and "c < length (ss_calls s) \<Longrightarrow> reply_fits s ((ss_calls s ! c)\<lparr>ca_reply := Some r\<rparr>)"
  shows "replies_ok (send_reply c r s)"
proof (rule replies_okI [OF assms(1), where c = c and x = "(ss_calls s ! c)\<lparr>ca_reply := Some r\<rparr>"])
  show "reader_fits (send_reply c r s)" using assms(1)
    by (cases "c < length (ss_calls s)")
      (auto simp: replies_ok_def reader_fits_def send_reply_def on_call_def nth_update split: reader_state.splits)
  assume c: "c < length (ss_calls s)"
  have "result_fits s (ss_calls s ! c)" using assms(1) c by (simp add: replies_ok_def)
  then have "result_fits s ((ss_calls s ! c)\<lparr>ca_reply := Some r\<rparr>)"
    using assms(2) by (auto simp: result_fits_def split: call_phase.splits sum.splits session_error.splits)
  then show "reply_fits (send_reply c r s) ((ss_calls s ! c)\<lparr>ca_reply := Some r\<rparr>) \<and> result_fits (send_reply c r s) ((ss_calls s ! c)\<lparr>ca_reply := Some r\<rparr>)"
    using assms(3) [OF c] fits_mono [of s "send_reply c r s"] by (simp add: send_reply_def)
qed (simp_all add: send_reply_def on_call_def)

lemma replies_step:
  assumes "opend_step sha s t" and "table_ok s" and "closing_ok s" and "senders_ok s" and "replies_ok s"
  shows "replies_ok t"
  using assms
proof (induction rule: opend_step.induct)
  case (Begin s p body)
  let ?t = "begin_call sha p body s"
  obtain x where x: "ss_calls ?t = ss_calls s @ [x]" "ca_reply x = None"
    and ph: "ca_phase x = Numbered \<or> (\<exists>e. ca_phase x = Finished (Inl (Bad_Packet e)))"
    and r: "ss_close_reason ?t = ss_close_reason s" "ss_reader ?t = ss_reader s"
    by (cases "encode_frame sha p (next_serial (ss_next_serial s)) body") (auto simp: begin_call_def Let_def)
  have "reply_fits ?t x \<and> result_fits ?t x" using x(2) ph by (auto simp: reply_fits_def result_fits_def)
  moreover have "reader_fits ?t"
    using Begin(4,3) x(1) r(2)
    by (auto simp: replies_ok_def reader_fits_def senders_ok_def senders_def reader_calls_def nth_append split: reader_state.splits)
  ultimately show ?case
    using Begin(4) fits_mono [of s ?t] r(1) by (auto simp: replies_ok_def x(1) nth_append less_Suc_eq)
next
  case (Register s c)
  then show ?case
  proof (cases "ss_closed s")
    case True
    then show ?thesis using Register
      by (auto simp: register_pending_def current_close_reason_def closing_ok_def result_fits_def split: option.splits intro!: replies_set_phase)
  next
    case False
    have "replies_ok (s\<lparr>ss_pending := m\<rparr>)" for m
      by (rule replies_same [OF Register(5)]) (use Register(5) in \<open>simp_all add: replies_ok_def\<close>)
    then show ?thesis using False
      by (auto simp: register_pending_def Let_def result_fits_def intro!: replies_set_phase)
  qed
next
  case (Write s c)
  have "replies_ok (s\<lparr>ss_written := m\<rparr>)" for m
    by (rule replies_same [OF Write(6)]) (use Write(6) in \<open>simp_all add: replies_ok_def\<close>)
  then show ?case by (auto simp: result_fits_def intro!: replies_set_phase)
next
  case (Forget s c e)
  have "replies_ok (remove_pending c s)"
    by (rule replies_same [OF Forget(5)]) (use Forget(5) in \<open>simp_all add: remove_pending_def replies_ok_def\<close>)
  then show ?case by (auto simp: result_fits_def intro!: replies_set_phase)
next
  case (End_Session s c e)
  show ?case by (rule replies_set_phase [OF replies_terminate [OF End_Session(5,3)]]) (simp add: result_fits_def)
next
  case (Answered s c r)
  have "reply_fits s (ss_calls s ! c)" using Answered(1,6) by (simp add: replies_ok_def in_phase_def)
  then show ?case using Answered
    by (intro replies_set_phase) (auto simp: result_fits_def reply_fits_def map_sum_def split: sum.splits)
next
  case (Disconnected s c)
  then show ?case
    by (intro replies_set_phase) (auto simp: result_fits_def current_close_reason_def split: option.splits)
next
  case (Give_Up s c x)
  have "replies_ok (remove_pending c s)"
    by (rule replies_same [OF Give_Up(6)]) (use Give_Up(6) in \<open>simp_all add: remove_pending_def replies_ok_def\<close>)
  then show ?case using Give_Up(2) by (auto simp: result_fits_def remove_pending_def intro!: replies_set_phase)
next
  case (Close s)
  show ?case by (rule replies_terminate [OF Close(4,2)])
next
  case (Read s f k)
  show ?case
    by (rule replies_same [OF Read(6)])
      (use Read(3) in \<open>auto simp: dispatch_frame_def Let_def reader_fits_def table_ok_def opt_filter_Some_iff split: option.splits\<close>)
next
  case (Read_Fails s e k)
  show ?case unfolding leave_reader_def
    by (rule replies_same [OF replies_terminate [OF Read_Fails(6,4), of By_Reader "close_reason_from_read e"]]) (simp_all add: reader_fits_def)
next
  case (Read_Shut s io)
  show ?case unfolding leave_reader_def
    by (rule replies_same [OF replies_terminate [OF Read_Shut(6,4), of By_Reader "close_reason_from_read (Tcp_Io io)"]]) (simp_all add: reader_fits_def)
next
  case (Reply s c f)
  have n: "ca_reply (ss_calls s ! c) = None" using Reply by (auto simp: senders_ok_def senders_def reader_calls_def)
  have "replies_ok (send_reply c (Inr f) s)"
    by (rule replies_send [OF Reply(5) n]) (use Reply in \<open>simp add: replies_ok_def reader_fits_def reply_fits_def\<close>)
  then show ?case by (rule replies_same) (simp_all add: reader_fits_def)
next
  case (Tell s who r c cs)
  have n: "ca_reply (ss_calls s ! c) = None" using Tell by (auto simp: senders_ok_def senders_def closing_calls_def)
  have "ss_close_reason s = Some r" using Tell(1,3) by (auto simp: closing_ok_def split: if_splits option.splits)
  then have "replies_ok (send_reply c (Inl r) s)"
    by (intro replies_send [OF Tell(5) n]) (simp add: reply_fits_def)
  then show ?case by (rule replies_same) (use \<open>replies_ok (send_reply c (Inl r) s)\<close> in \<open>simp_all add: replies_ok_def\<close>)
next
  case (Write_Fails s c e)
  then show ?case by (intro replies_set_phase) (auto simp: result_fits_def)
next
  case (Join s c e)
  then show ?case by (intro replies_set_phase) (auto simp: result_fits_def)
next
  case (Timeout s c)
  then show ?case by (intro replies_set_phase) (auto simp: result_fits_def)
next
  case (Emit s f)
  show ?case by (rule replies_same [OF Emit(5)]) (simp_all add: reader_fits_def)
next
  case (Reader_Ends s)
  show ?case by (rule replies_same [OF Reader_Ends(6)]) (simp_all add: reader_fits_def)
next
  case (Shutdown s who r cs)
  show ?case by (rule replies_same [OF Shutdown(5)]) (use Shutdown(5) in \<open>simp_all add: replies_ok_def\<close>)
next
  case (Tell_Owner s who r)
  show ?case by (rule replies_same [OF Tell_Owner(5)]) (use Tell_Owner(5) in \<open>simp_all add: replies_ok_def\<close>)
next
  case (Receive s)
  show ?case by (rule replies_same [OF Receive(5)]) (use Receive(5) in \<open>simp_all add: replies_ok_def\<close>)
qed

section \<open>Where the frames go\<close>

definition replied_frame :: "call \<Rightarrow> frame list" where
  "replied_frame x = (case ca_reply x of Some (Inr f) \<Rightarrow> [f] | _ \<Rightarrow> [])"

definition replied_frames :: "session \<Rightarrow> frame list" where
  "replied_frames s = concat (map replied_frame (ss_calls s))"

definition pushed_frames :: "session \<Rightarrow> frame list" where
  "pushed_frames s = concat (map (\<lambda>e. case e of UnsolicitedFrame _ f \<Rightarrow> [f] | _ \<Rightarrow> []) (ss_events s))"

definition held_frames :: "session \<Rightarrow> frame list" where
  "held_frames s = (case ss_reader s of Answering _ f \<Rightarrow> [f] | Emitting f \<Rightarrow> [f] | _ \<Rightarrow> [])"

definition unread_frames :: "(bytes \<Rightarrow> bytes) \<Rightarrow> session \<Rightarrow> frame list" where
  "unread_frames sha s = fst (read_frames sha (ss_socket s))"

definition all_frames :: "(bytes \<Rightarrow> bytes) \<Rightarrow> session \<Rightarrow> frame multiset" where
  "all_frames sha s =
     mset (replied_frames s) + mset (pushed_frames s) + mset (held_frames s) + mset (unread_frames sha s)"

lemmas frames_defs = all_frames_def replied_frames_def pushed_frames_def held_frames_def unread_frames_def

lemma mset_concat_update:
  assumes "c < length xs"
  shows "mset (concat (map g (xs[c := x]))) + mset (g (xs ! c)) = mset (concat (map g xs)) + mset (g x)"
proof -
  have "mset (concat (map g xs)) = mset (concat (map g (take c xs @ xs ! c # drop (Suc c) xs)))"
    using assms by (simp add: id_take_nth_drop [symmetric])
  then show ?thesis using assms by (simp add: upd_conv_take_nth_drop)
qed

lemma replied_frames_on_call:
  assumes "\<And>x. replied_frame (f x) = replied_frame x"
  shows "mset (replied_frames (on_call c f s)) = mset (replied_frames s)"
proof (cases "c < length (ss_calls s)")
  case True
  then show ?thesis
    using mset_concat_update [OF True, of replied_frame "f (ss_calls s ! c)"] assms by (simp add: replied_frames_def on_call_def)
qed (simp add: replied_frames_def on_call_def list_update_beyond)

lemma replied_frames_phase [simp]: "mset (replied_frames (set_phase c ph s)) = mset (replied_frames s)"
  unfolding set_phase_def by (rule replied_frames_on_call) (simp add: replied_frame_def)

lemma replied_frames_send:
  assumes "c < length (ss_calls s)" and "ca_reply (ss_calls s ! c) = None"
  shows "mset (replied_frames (send_reply c r s)) = mset (replied_frames s) + (case r of Inl _ \<Rightarrow> {#} | Inr f \<Rightarrow> {#f#})"
  using mset_concat_update [OF assms(1), of replied_frame "(ss_calls s ! c)\<lparr>ca_reply := Some r\<rparr>"] assms(2)
  by (simp add: replied_frames_def send_reply_def on_call_def replied_frame_def split: sum.splits)

lemma frames_update [simp]:
  "pushed_frames (on_call c f s) = pushed_frames s" "held_frames (on_call c f s) = held_frames s"
  "unread_frames sha (on_call c f s) = unread_frames sha s"
  "all_frames sha (remove_pending c s) = all_frames sha s" "all_frames sha (terminate who r s) = all_frames sha s"
  "all_frames sha (s\<lparr>ss_pending := m\<rparr>) = all_frames sha s" "all_frames sha (s\<lparr>ss_written := w\<rparr>) = all_frames sha s"
  "all_frames sha (s\<lparr>ss_shut := b\<rparr>) = all_frames sha s" "all_frames sha (s\<lparr>ss_closing := x\<rparr>) = all_frames sha s"
  "all_frames sha (s\<lparr>ss_received := n\<rparr>) = all_frames sha s"
  by (simp_all add: frames_defs remove_pending_def terminate_def)

lemma frames_phase [simp]: "all_frames sha (set_phase c ph s) = all_frames sha s"
  by (simp add: all_frames_def) (simp add: set_phase_def)

lemma frames_step:
  assumes "opend_step sha s t" and "senders_ok s"
  shows "all_frames sha t = all_frames sha s"
  using assms
proof (induction rule: opend_step.induct)
  case (Begin s p body)
  then show ?case by (simp add: frames_defs begin_call_def Let_def replied_frame_def split: sum.split)
next
  case (Read s f k)
  have u: "read_frames sha (ss_socket s) = apfst (Cons f) (read_frames sha k)"
    using Read(2) by (simp add: read_frames.simps [of sha "ss_socket s"])
  show ?case using Read(1)
    by (auto simp: frames_defs dispatch_frame_def Let_def u split: option.split)
next
  case (Reply s c f)
  then have "c < length (ss_calls s)" "ca_reply (ss_calls s ! c) = None"
    by (auto simp: senders_ok_def senders_def reader_calls_def)
  note r = replied_frames_send [OF this]
  have "all_frames sha ((send_reply c (Inr f) s)\<lparr>ss_reader := Reading\<rparr>) =
    mset (replied_frames (send_reply c (Inr f) s)) + mset (pushed_frames s) + mset (unread_frames sha s)"
    by (simp add: frames_defs send_reply_def on_call_def)
  then show ?case using r [of "Inr f"] Reply(1) by (simp add: all_frames_def held_frames_def)
next
  case (Tell s who r c cs)
  then have "c < length (ss_calls s)" "ca_reply (ss_calls s ! c) = None"
    by (auto simp: senders_ok_def senders_def closing_calls_def)
  note r = replied_frames_send [OF this]
  have "all_frames sha (send_reply c (Inl r) s) = all_frames sha s"
    using r [of "Inl r"] by (simp add: all_frames_def) (simp add: send_reply_def)
  then show ?case by simp
next
  case (Register s c)
  then show ?case by (simp add: register_pending_def Let_def)
next
  case (Read_Fails s e k)
  then show ?case by (simp add: frames_defs leave_reader_def terminate_def)
next
  case (Read_Shut s io)
  then show ?case by (simp add: frames_defs leave_reader_def terminate_def)
next
  case (Emit s f)
  then show ?case by (simp add: frames_defs)
next
  case (Reader_Ends s)
  then show ?case by (simp add: frames_defs)
next
  case (Tell_Owner s who r)
  then show ?case by (simp add: frames_defs)
qed simp_all

section \<open>No call is forgotten\<close>

text \<open>The serials go round \<open>1, \<dots>, 2\<^sup>3\<^sup>2 - 1\<close>, so that the first \<open>2\<^sup>3\<^sup>2 - 1\<close> calls have their own.\<close>

definition serial_at :: "nat \<Rightarrow> nat" where
  "serial_at i = i mod (2 ^ 32 - 1) + 1"

definition serials_ok :: "session \<Rightarrow> bool" where
  "serials_ok s \<longleftrightarrow> (\<forall>c < length (ss_calls s). unat (ca_serial (ss_calls s ! c)) = serial_at c) \<and>
     unat (ss_next_serial s) = (if ss_calls s = [] then 0 else serial_at (length (ss_calls s) - 1))"

lemma serial_at_Suc: "serial_at (Suc i) = (if serial_at i = 2 ^ 32 - 1 then 1 else serial_at i + 1)"
  by (simp add: serial_at_def mod_Suc)

lemma serial_at_bound: "serial_at i \<le> 2 ^ 32 - 1"
  using mod_less_divisor [of "2 ^ 32 - 1" i] by (simp add: serial_at_def)

lemma unat_next_serial: "unat (next_serial n) = (if unat n = 2 ^ 32 - 1 then 1 else unat n + 1)"
proof (cases "n = - 1")
  case True
  then show ?thesis by (simp add: next_serial_def unsigned_minus_1_eq_mask mask_eq_exp_minus_1)
next
  case False
  have "unat n \<noteq> unat (- 1 :: u32)" using False unfolding word_unat_eq_iff .
  moreover have "unat (- 1 :: u32) = 2 ^ 32 - 1" by (simp add: unsigned_minus_1_eq_mask mask_eq_exp_minus_1)
  ultimately have b: "unat n < 2 ^ 32 - 1" using unsigned_less [of n, where ?'a = nat] by simp
  have s: "unat (n + 1) = unat n + 1" using b by (simp add: unat_word_ariths)
  then have "1 \<le> n + 1" by (simp add: word_le_nat_alt)
  then show ?thesis using b s by (simp add: next_serial_def max_def)
qed

lemma serials_step: "opend_step sha s t \<Longrightarrow> serials_ok s \<Longrightarrow> serials_ok t"
proof (induction rule: opend_step.induct)
  case (Begin s p body)
  have n: "unat (next_serial (ss_next_serial s)) = serial_at (length (ss_calls s))"
  proof (cases "ss_calls s")
    case Nil
    then show ?thesis using Begin by (simp add: serials_ok_def unat_next_serial serial_at_def)
  next
    case (Cons x xs)
    then show ?thesis using Begin by (simp add: serials_ok_def unat_next_serial serial_at_Suc)
  qed
  show ?case using Begin n
    by (auto simp: serials_ok_def begin_call_def Let_def nth_append less_Suc_eq split: sum.splits)
qed (auto simp: serials_ok_def thread_defs on_call_def nth_update split: option.splits)

text \<open>A call that waits has its answer, or its sender is alive.\<close>

definition owned :: "session \<Rightarrow> bool" where
  "owned s \<longleftrightarrow> (\<forall>c < length (ss_calls s). ca_phase (ss_calls s ! c) \<in> {Registered, Waiting} \<longrightarrow>
     ca_reply (ss_calls s ! c) \<noteq> None \<or> c \<in> set (senders s))"

lemma owned_new: "owned (session_new g k)"
  by (simp add: owned_def session_new_def)

lemma serials_new: "serials_ok (session_new g k)"
  by (simp add: serials_ok_def session_new_def)

lemma serials_inj:
  assumes "serials_ok s" and "length (ss_calls s) < 2 ^ 32" and "c < length (ss_calls s)" and "d < length (ss_calls s)"
    and "ca_serial (ss_calls s ! c) = ca_serial (ss_calls s ! d)"
  shows "c = d"
proof -
  have "serial_at c = serial_at d" using assms(1,3,4,5) by (metis serials_ok_def)
  moreover have "c < 2 ^ 32 - 1" "d < 2 ^ 32 - 1" using assms(2-4) by simp_all
  ultimately show ?thesis by (simp add: serial_at_def)
qed

lemma ownedI:
  assumes "owned s" and "ss_calls t = (ss_calls s)[c := x]"
    and "\<And>d. d \<noteq> c \<Longrightarrow> d \<in> set (senders s) \<Longrightarrow> d \<in> set (senders t)"
    and "c < length (ss_calls s) \<Longrightarrow> ca_phase x \<in> {Registered, Waiting} \<Longrightarrow> ca_reply x \<noteq> None \<or> c \<in> set (senders t)"
  shows "owned t"
  unfolding owned_def
proof (intro allI impI)
  fix d assume d: "d < length (ss_calls t)" and ph: "ca_phase (ss_calls t ! d) \<in> {Registered, Waiting}"
  show "ca_reply (ss_calls t ! d) \<noteq> None \<or> d \<in> set (senders t)"
  proof (cases "d = c")
    case True
    then show ?thesis using assms(2,4) d ph by (simp add: nth_update)
  next
    case False
    then show ?thesis using assms(1,2) assms(3) [OF False] d ph by (auto simp: owned_def nth_update)
  qed
qed

lemma owned_same: "owned s \<Longrightarrow> ss_calls t = ss_calls s \<Longrightarrow> set (senders s) \<subseteq> set (senders t) \<Longrightarrow> owned t"
  by (auto simp: owned_def)

lemma table_bm_ok: "table_ok s \<Longrightarrow> bm_ok (ss_pending s)"
  by (simp add: table_ok_def)

lemma get_value: "bm_get m k = Some v \<Longrightarrow> v \<in> set (bm_values m)"
  using bm_get_in_set [of m k v] by (force simp: bm_values_def)

lemma pending_sender:
  assumes "table_ok s"
  shows "c \<in> snd ` set (bm_values (ss_pending s)) \<longleftrightarrow> (\<exists>p. bm_get (ss_pending s) (ca_serial (ss_calls s ! c)) = Some (p, c))"
proof
  assume "c \<in> snd ` set (bm_values (ss_pending s))"
  then obtain n p where "bm_get (ss_pending s) n = Some (p, c)" using assms by (auto simp: table_ok_def bm_values_def bm_in_set_get)
  then show "\<exists>p. bm_get (ss_pending s) (ca_serial (ss_calls s ! c)) = Some (p, c)" using assms by (auto simp: table_ok_def)
next
  assume "\<exists>p. bm_get (ss_pending s) (ca_serial (ss_calls s ! c)) = Some (p, c)"
  then show "c \<in> snd ` set (bm_values (ss_pending s))" by (force dest: get_value)
qed

lemma table_entry: "table_ok s \<Longrightarrow> bm_get (ss_pending s) n = Some (p, c) \<Longrightarrow> c < length (ss_calls s) \<and> ca_serial (ss_calls s ! c) = n"
  by (simp add: table_ok_def)

lemma owned_set_phase: "owned s \<Longrightarrow> ph \<noteq> Registered \<and> ph \<noteq> Waiting \<or> in_phase s c Registered \<Longrightarrow> owned (set_phase c ph s)"
  by (rule ownedI [where c = c and x = "(ss_calls s ! c)\<lparr>ca_phase := ph\<rparr>"])
    (auto simp: set_phase_def in_phase_def owned_def, simp_all add: on_call_def)

lemma owned_terminate: "closing_ok s \<Longrightarrow> owned s \<Longrightarrow> owned (terminate who r s)"
  by (cases "ss_closed s") (auto simp: owned_def terminate_def senders_def closing_ok_def closing_calls_def)

lemma remove_keeps:
  assumes "table_ok s" and "serials_ok s" and "length (ss_calls s) < 2 ^ 32" and "c < length (ss_calls s)" and "d \<noteq> c"
    and "d \<in> set (senders s)"
  shows "d \<in> set (senders (remove_pending c s))"
proof (cases "d \<in> snd ` set (bm_values (ss_pending s))")
  case True
  then obtain p where p: "bm_get (ss_pending s) (ca_serial (ss_calls s ! d)) = Some (p, d)" using pending_sender [OF assms(1)] by blast
  have "ca_serial (ss_calls s ! d) \<noteq> ca_serial (ss_calls s ! c)"
    using serials_inj [OF assms(2,3) _ assms(4)] table_entry [OF assms(1) p] assms(5) by blast
  then have "bm_get (bm_remove (ca_serial (ss_calls s ! c)) (ss_pending s)) (ca_serial (ss_calls s ! d)) = Some (p, d)"
    using p by (simp add: bm_get_remove [OF table_bm_ok [OF assms(1)]])
  then have "(p, d) \<in> set (bm_values (bm_remove (ca_serial (ss_calls s ! c)) (ss_pending s)))"
    by (rule get_value)
  then have "d \<in> snd ` set (bm_values (bm_remove (ca_serial (ss_calls s ! c)) (ss_pending s)))" by (rule rev_image_eqI) simp
  then show ?thesis by (simp add: senders_def remove_pending_def)
next
  case False
  then show ?thesis using assms(6) by (auto simp: senders_def remove_pending_def)
qed

lemma owned_remove:
  assumes "table_ok s" and "serials_ok s" and "length (ss_calls s) < 2 ^ 32" and "in_phase s c ph0" and "owned s"
    and "ph \<noteq> Registered \<and> ph \<noteq> Waiting"
  shows "owned (set_phase c ph (remove_pending c s))"
proof (rule ownedI [OF assms(5), where c = c and x = "(ss_calls s ! c)\<lparr>ca_phase := ph\<rparr>"])
  show "ss_calls (set_phase c ph (remove_pending c s)) = (ss_calls s)[c := (ss_calls s ! c)\<lparr>ca_phase := ph\<rparr>]"
    by (simp add: set_phase_def on_call_def remove_pending_def)
  show "d \<in> set (senders (set_phase c ph (remove_pending c s)))" if "d \<noteq> c" "d \<in> set (senders s)" for d
    using remove_keeps [OF assms(1-3) _ that] assms(4) by (simp add: set_phase_def in_phase_def)
qed (use assms(6) in simp)

lemma step_calls: "opend_step sha s t \<Longrightarrow> length (ss_calls s) \<le> length (ss_calls t)"
  by (induction rule: opend_step.induct) (auto simp: thread_defs split: option.splits)

lemma owned_step:
  assumes "opend_step sha s t" and "length (ss_calls s) < 2 ^ 32" and "table_ok s" and "serials_ok s" and "closing_ok s" and "owned s"
  shows "owned t"
  using assms
proof (induction rule: opend_step.induct)
  case (Begin s p body)
  then show ?case
    by (auto simp: owned_def begin_call_def Let_def nth_append less_Suc_eq senders_def split: sum.splits)
next
  case (Register s c)
  have c: "c < length (ss_calls s)" using Register(1) by (simp add: in_phase_def)
  show ?case
  proof (cases "ss_closed s")
    case True
    then show ?thesis using Register(6) by (simp add: register_pending_def owned_set_phase)
  next
    case False
    let ?x = "ss_calls s ! c" and ?t = "register_pending c s"
    let ?m = "bm_insert (ca_serial ?x) (ca_protocol ?x, c) (ss_pending s)"
    have t: "ss_calls ?t = (ss_calls s)[c := ?x\<lparr>ca_phase := Registered\<rparr>]"
      "set (senders ?t) = snd ` set (bm_values ?m) \<union> set (reader_calls (ss_reader s)) \<union> set (closing_calls (ss_closing s))"
      using False by (auto simp: register_pending_def set_phase_def Let_def on_call_def senders_def)
    have new: "(v, d) \<in> set (bm_values ?m)" if "bm_get ?m n = Some (v, d)" for n v d
      using that by (rule get_value)
    show ?thesis
    proof (rule ownedI [OF Register(6) t(1)])
      have "(ca_protocol ?x, c) \<in> set (bm_values ?m)" by (rule new [of "ca_serial ?x"]) simp
      then show "ca_reply (?x\<lparr>ca_phase := Registered\<rparr>) \<noteq> None \<or> c \<in> set (senders ?t)" unfolding t(2) by force
      fix d assume d: "d \<noteq> c" "d \<in> set (senders s)"
      show "d \<in> set (senders ?t)"
      proof (cases "d \<in> snd ` set (bm_values (ss_pending s))")
        case True
        then obtain p where p: "bm_get (ss_pending s) (ca_serial (ss_calls s ! d)) = Some (p, d)" using pending_sender [OF Register(3)] by blast
        have "ca_serial (ss_calls s ! d) \<noteq> ca_serial ?x"
          using serials_inj [OF Register(4,2) _ c] table_entry [OF Register(3) p] d(1) by blast
        then have "bm_get ?m (ca_serial (ss_calls s ! d)) = Some (p, d)" using p by simp
        then have "(p, d) \<in> set (bm_values ?m)" by (rule new)
        then show ?thesis unfolding t(2) by force
      next
        case False
        then show ?thesis using d(2) unfolding t(2) by (auto simp: senders_def)
      qed
    qed
  qed
next
  case (Write s c)
  then have "owned (s\<lparr>ss_written := ss_written s @ [ca_packet (ss_calls s ! c)]\<rparr>)" by (simp add: owned_def senders_def)
  then show ?case by (rule owned_set_phase) (use Write(1) in \<open>simp add: in_phase_def\<close>)
next
  case (Forget s c e)
  show ?case by (rule owned_remove [OF Forget(3,4,2,1,6)]) simp
next
  case (End_Session s c e)
  show ?case by (rule owned_set_phase [OF owned_terminate [OF End_Session(5,6)]]) simp
next
  case (Give_Up s c x)
  show ?case by (rule owned_remove [OF Give_Up(4,5,3,1,7)]) simp
next
  case (Close s)
  show ?case by (rule owned_terminate [OF Close(4,5)])
next
  case (Read s f k)
  let ?n = "hd_serial_no (fr_header f)"
  have keep: "d \<in> set (senders (dispatch_frame f (s\<lparr>ss_socket := k\<rparr>)))" if d: "d \<in> set (senders s)" for d
  proof (cases "opt_filter (\<lambda>(protocol, _). protocol = hd_proto_id (fr_header f)) (bm_get (ss_pending s) ?n)")
    case None
    then show ?thesis using d Read(1) by (simp add: dispatch_frame_def senders_def reader_calls_def)
  next
    case (Some e)
    obtain p c where e: "e = (p, c)" by (cases e)
    have t: "set (senders (dispatch_frame f (s\<lparr>ss_socket := k\<rparr>))) =
      insert c (snd ` set (bm_values (bm_remove ?n (ss_pending s))) \<union> set (closing_calls (ss_closing s)))"
      using Some e by (auto simp: dispatch_frame_def senders_def reader_calls_def)
    have g: "bm_get (ss_pending s) ?n = Some (p, c)" using Some e by (simp add: opt_filter_Some_iff)
    show ?thesis
    proof (cases "d \<in> snd ` set (bm_values (ss_pending s))")
      case True
      then obtain q where q: "bm_get (ss_pending s) (ca_serial (ss_calls s ! d)) = Some (q, d)" using pending_sender [OF Read(4)] by blast
      show ?thesis
      proof (cases "ca_serial (ss_calls s ! d) = ?n")
        case True
        then show ?thesis using q g unfolding t by simp
      next
        case False
        then have "bm_get (bm_remove ?n (ss_pending s)) (ca_serial (ss_calls s ! d)) = Some (q, d)"
          using q by (simp add: bm_get_remove [OF table_bm_ok [OF Read(4)]])
        then have "(q, d) \<in> set (bm_values (bm_remove ?n (ss_pending s)))" by (rule get_value)
        then show ?thesis unfolding t by force
      qed
    next
      case False
      then show ?thesis using d Read(1) unfolding t by (auto simp: senders_def reader_calls_def)
    qed
  qed
  have "ss_calls (dispatch_frame f (s\<lparr>ss_socket := k\<rparr>)) = ss_calls s"
    by (simp add: dispatch_frame_def Let_def split: option.split)
  then show ?case using owned_same [OF Read(7)] keep by blast
next
  case (Read_Fails s e k)
  have o: "owned (terminate By_Reader (close_reason_from_read e) s)" by (rule owned_terminate [OF Read_Fails(6,7)])
  have sub: "set (senders (terminate By_Reader (close_reason_from_read e) s)) \<subseteq> set (senders (leave_reader e s))"
    using Read_Fails(1) by (auto simp: leave_reader_def senders_def terminate_def reader_calls_def)
  show ?case by (rule owned_same [OF o _ sub]) (simp add: leave_reader_def terminate_def)
next
  case (Read_Shut s io)
  have o: "owned (terminate By_Reader (close_reason_from_read (Tcp_Io io)) s)" by (rule owned_terminate [OF Read_Shut(6,7)])
  have sub: "set (senders (terminate By_Reader (close_reason_from_read (Tcp_Io io)) s)) \<subseteq> set (senders (leave_reader (Tcp_Io io) s))"
    using Read_Shut(1) by (auto simp: leave_reader_def senders_def terminate_def reader_calls_def)
  show ?case by (rule owned_same [OF o _ sub]) (simp add: leave_reader_def terminate_def)
next
  case (Reply s c f)
  show ?case
    by (rule ownedI [OF Reply(6), where c = c and x = "(ss_calls s ! c)\<lparr>ca_reply := Some (Inr f)\<rparr>"])
      (use Reply(1) in \<open>auto simp: send_reply_def on_call_def senders_def reader_calls_def\<close>)
next
  case (Tell s who r c cs)
  show ?case
    by (rule ownedI [OF Tell(6), where c = c and x = "(ss_calls s ! c)\<lparr>ca_reply := Some (Inl r)\<rparr>"])
      (use Tell(1) in \<open>auto simp: send_reply_def on_call_def senders_def closing_calls_def\<close>)
qed (auto simp: owned_set_phase intro: owned_same simp: senders_def reader_calls_def closing_calls_def)

section \<open>Every interleaving\<close>

definition opend_ok :: "session \<Rightarrow> bool" where
  "opend_ok s \<longleftrightarrow> table_ok s \<and> closing_ok s \<and> senders_ok s \<and> replies_ok s \<and> serials_ok s"

lemma session_ok_new: "opend_ok (session_new g k)"
  by (simp add: opend_ok_def table_new closing_new senders_new replies_new serials_new)

lemma session_ok_step: "opend_step sha s t \<Longrightarrow> opend_ok s \<Longrightarrow> opend_ok t"
  using table_step closing_stage_step senders_step replies_step serials_step by (auto simp: opend_ok_def)

lemma session_run_ok: "session_run sha s t \<Longrightarrow> opend_ok s \<Longrightarrow> opend_ok t"
  by (induction rule: rtranclp_induct) (auto intro: session_ok_step)

lemma session_run_frames: "session_run sha s t \<Longrightarrow> opend_ok s \<Longrightarrow> all_frames sha t = all_frames sha s"
proof (induction rule: rtranclp_induct)
  case (step t u)
  then have "senders_ok t" using session_run_ok by (simp add: opend_ok_def)
  then show ?case using frames_step [OF step(2)] step(3,4) by simp
qed simp

lemma session_run_calls: "session_run sha s t \<Longrightarrow> length (ss_calls s) \<le> length (ss_calls t)"
  by (induction rule: rtranclp_induct) (auto dest: step_calls)

lemma session_run_owned:
  "session_run sha s t \<Longrightarrow> opend_ok s \<Longrightarrow> owned s \<Longrightarrow> length (ss_calls t) < 2 ^ 32 \<Longrightarrow> owned t"
proof (induction rule: rtranclp_induct)
  case (step t u)
  have ok: "opend_ok t" by (rule session_run_ok [OF step(1,4)])
  have l: "length (ss_calls t) < 2 ^ 32" using step_calls [OF step(2)] step(6) by simp
  have "owned t" by (rule step(3) [OF step(4,5) l])
  then show ?case using owned_step [OF step(2) l] ok by (simp add: opend_ok_def)
qed

lemma step_generation: "opend_step sha s t \<Longrightarrow> ss_generation t = ss_generation s"
  by (induction rule: opend_step.induct) (auto simp: thread_defs split: option.splits)

lemma session_run_generation: "session_run sha s t \<Longrightarrow> ss_generation t = ss_generation s"
  by (induction rule: rtranclp_induct) (auto dest: step_generation)

text \<open>The thread that closes the session and the reader finish what they hold.\<close>

definition calm :: "session \<Rightarrow> session \<Rightarrow> bool" where
  "calm s t \<longleftrightarrow> length (ss_calls t) = length (ss_calls s) \<and> map ca_phase (ss_calls t) = map ca_phase (ss_calls s) \<and>
     ss_closed t = ss_closed s \<and> ss_pending t = ss_pending s"

lemma calm_trans: "calm s t \<Longrightarrow> calm t u \<Longrightarrow> calm s u"
  by (simp add: calm_def)

lemma calm_send: "calm s (send_reply c r s)"
  by (simp add: calm_def send_reply_def) (simp add: on_call_def map_update list_update_same_conv list_update_beyond nth_equalityI nth_update)

lemma tell_all:
  assumes "ss_closing s = Telling who r cs"
  shows "\<exists>t. session_run sha s t \<and> calm s t \<and> closing_calls (ss_closing t) = [] \<and> ss_reader t = ss_reader s"
  using assms
proof (induction cs arbitrary: s)
  case Nil
  then show ?case by (intro exI [of _ s]) (simp add: calm_def closing_calls_def)
next
  case (Cons c cs)
  let ?t = "(send_reply c (Inl r) s)\<lparr>ss_closing := Telling who r cs\<rparr>"
  obtain u where u: "session_run sha ?t u" "calm ?t u" "closing_calls (ss_closing u) = []" "ss_reader u = ss_reader ?t"
    using Cons.IH [of ?t] by auto
  have "calm s ?t" using calm_send [of s c "Inl r"] by (simp add: calm_def)
  moreover have "opend_step sha s ?t" by (rule opend_step.Tell [OF Cons.prems])
  ultimately show ?case
    using u by (intro exI [of _ u]) (auto simp: send_reply_def intro: converse_rtranclp_into_rtranclp calm_trans)
qed

lemma close_all:
  obtains t where "session_run sha s t" and "calm s t" and "closing_calls (ss_closing t) = []" and "reader_calls (ss_reader t) = []"
proof -
  obtain s1 where s1: "session_run sha s s1" "calm s s1" "reader_calls (ss_reader s1) = []" "ss_closing s1 = ss_closing s"
  proof (cases "ss_reader s")
    case (Answering c f)
    let ?t = "(send_reply c (Inr f) s)\<lparr>ss_reader := Reading\<rparr>"
    have "session_run sha s ?t" using opend_step.Reply [OF Answering] by blast
    moreover have "calm s ?t" using calm_send [of s c "Inr f"] by (simp add: calm_def)
    ultimately show ?thesis by (rule that) (simp_all add: reader_calls_def send_reply_def)
  qed (auto simp: reader_calls_def calm_def intro: that [of s])
  obtain s2 where s2: "session_run sha s1 s2" "calm s1 s2" "ss_reader s2 = ss_reader s1"
    "case ss_closing s2 of Shutting _ _ _ \<Rightarrow> False | _ \<Rightarrow> True"
  proof (cases "ss_closing s1")
    case (Shutting who r cs)
    let ?t = "s1\<lparr>ss_shut := True, ss_closing := Telling who r cs\<rparr>"
    have "session_run sha s1 ?t" using opend_step.Shutdown [OF Shutting] by blast
    then show ?thesis by (rule that) (simp_all add: calm_def)
  qed (auto simp: calm_def intro: that [of s1])
  obtain s3 where s3: "session_run sha s2 s3" "calm s2 s3" "closing_calls (ss_closing s3) = []" "ss_reader s3 = ss_reader s2"
  proof (cases "ss_closing s2")
    case (Telling who r cs)
    then show ?thesis using tell_all [OF Telling] that by blast
  qed (use s2(4) in \<open>auto simp: calm_def closing_calls_def intro: that [of s2]\<close>)
  show ?thesis
    by (rule that [of s3]) (use s1 s2 s3 in \<open>auto intro: rtranclp_trans calm_trans\<close>)
qed

text \<open>C21: Whatever the interleaving of the callers, the reader and those who close the session: every frame
  that arrives goes to one call or to the channel of events, and is neither lost nor delivered twice; and a
  call that returns a body returns the body of a frame that carries its own protocol and its own serial.\<close>

theorem frames_reach_one_reader:
  assumes "session_run sha (session_new generation socket) s" and "c < length (ss_calls s)"
  shows "all_frames sha s = mset (fst (read_frames sha socket)) \<and>
    (let x = ss_calls s ! c
     in case ca_phase x of
          Finished (Inr body) \<Rightarrow>
            (\<exists>f. f \<in> set (fst (read_frames sha socket)) \<and> fr_body f = body \<and>
               hd_proto_id (fr_header f) = ca_protocol x \<and> hd_serial_no (fr_header f) = ca_serial x)
        | Finished (Inl (Session_Is_Closed r)) \<Rightarrow> r = PeerClosed \<or> ss_close_reason s = Some r
        | Finished (Inl (RequestTimeout p n)) \<Rightarrow> p = ca_protocol x \<and> n = ca_serial x
        | _ \<Rightarrow> True)"
proof -
  let ?x = "ss_calls s ! c"
  have ok: "opend_ok s" by (rule session_run_ok [OF assms(1) session_ok_new])
  have all: "all_frames sha s = mset (fst (read_frames sha socket))"
    using session_run_frames [OF assms(1) session_ok_new] by (simp add: frames_defs session_new_def)
  have x: "reply_fits s ?x" "result_fits s ?x" using ok assms(2) by (simp_all add: opend_ok_def replies_ok_def)
  have arrived: "f \<in> set (fst (read_frames sha socket))" if f: "ca_reply ?x = Some (Inr f)" for f
  proof -
    have "f \<in> set (replied_frame ?x)" using f by (simp add: replied_frame_def)
    then have "f \<in># mset (replied_frames s)" using assms(2) by (auto simp: replied_frames_def)
    then have "f \<in># all_frames sha s" by (simp add: all_frames_def)
    then show ?thesis unfolding all by simp
  qed
  show ?thesis
    using all x arrived
    by (auto simp: Let_def reply_fits_def result_fits_def split: call_phase.splits sum.splits session_error.splits)
qed


section \<open>Instances\<close>

text \<open>A call of protocol 1001 that OpenD answers.\<close>

definition sample_frame :: frame where
  "sample_frame = frame_of count_digest 1001 1 [7]"

definition sample_socket :: socket where
  "sample_socket = \<lparr>so_bytes = packet_of count_digest 1001 1 [7], so_end = UnexpectedEof\<rparr>"

definition sample_waiting :: session where
  "sample_waiting =
     (session_new 1 sample_socket)\<lparr>ss_next_serial := 1, ss_pending := [(1, 1001, 0)],
        ss_calls := [\<lparr>ca_protocol = 1001, ca_serial = 1, ca_packet = packet_of count_digest 1001 1 [3], ca_phase = Waiting, ca_reply = None\<rparr>],
        ss_written := [packet_of count_digest 1001 1 [3]]\<rparr>"

definition sample_answered :: session where
  "sample_answered =
     sample_waiting\<lparr>ss_pending := [], ss_socket := sample_socket\<lparr>so_bytes := []\<rparr>,
        ss_calls := [\<lparr>ca_protocol = 1001, ca_serial = 1, ca_packet = packet_of count_digest 1001 1 [3],
           ca_phase = Finished (Inr [7]), ca_reply = Some (Inr sample_frame)\<rparr>]\<rparr>"

lemma opend_encode: "encode_frame count_digest 1001 1 [3] = Inr (packet_of count_digest 1001 1 [3])"
  by (rule encode_layout) (simp_all add: count_digest_def max_body_len_def)

lemma sample_read: "read_framed_frame count_digest sample_socket = (Inr sample_frame, sample_socket\<lparr>so_bytes := []\<rparr>)"
  using read_frame [where sha = count_digest and body = "[7]" and p = 1001 and n = 1 and rest = "[]" and s = sample_socket, OF count_digest_length]
  by (simp add: sample_socket_def sample_frame_def max_body_len_def)

lemma opend_run: "session_run count_digest (session_new 1 sample_socket) sample_waiting"
proof -
  let ?s0 = "session_new 1 sample_socket"
  let ?s1 = "begin_call count_digest 1001 [3] ?s0"
  let ?s2 = "register_pending 0 ?s1"
  let ?s3 = "set_phase 0 Waiting (?s2\<lparr>ss_written := ss_written ?s2 @ [ca_packet (ss_calls ?s2 ! 0)]\<rparr>)"
  have n: "next_serial 0 = 1" by (simp add: next_serial_def)
  have p: "in_phase ?s1 0 Numbered" "in_phase ?s2 0 Registered" "\<not> ss_shut ?s2"
    by (simp_all add: thread_defs session_new_def n opend_encode in_phase_def on_call_def)
  have "?s3 = sample_waiting"
    by (simp add: thread_defs session_new_def n opend_encode on_call_def sample_waiting_def)
  then show ?thesis
    using opend_step.Begin [of count_digest ?s0 1001 "[3]"] opend_step.Register [OF p(1), of count_digest]
      opend_step.Write [OF p(2,3), of count_digest]
    by (metis (no_types) rtranclp.rtrancl_into_rtrancl rtranclp.rtrancl_refl)
qed

lemma sample_run_answered: "session_run count_digest (session_new 1 sample_socket) sample_answered"
proof -
  let ?s3 = sample_waiting
  let ?s4 = "dispatch_frame sample_frame (?s3\<lparr>ss_socket := sample_socket\<lparr>so_bytes := []\<rparr>\<rparr>)"
  let ?s5 = "(send_reply 0 (Inr sample_frame) ?s4)\<lparr>ss_reader := Reading\<rparr>"
  have r: "ss_reader ?s3 = Reading" "ss_socket ?s3 = sample_socket" by (simp_all add: sample_waiting_def session_new_def)
  have p: "ss_reader ?s4 = Answering 0 sample_frame" "in_phase ?s5 0 Waiting" "ca_reply (ss_calls ?s5 ! 0) = Some (Inr sample_frame)"
    by (simp_all add: thread_defs sample_waiting_def session_new_def sample_frame_def frame_of_def bm_get_def in_phase_def on_call_def)
  have "set_phase 0 (Finished (map_sum Session_Is_Closed fr_body (Inr sample_frame))) ?s5 = sample_answered"
    by (simp add: thread_defs sample_waiting_def session_new_def sample_frame_def frame_of_def bm_get_def on_call_def sample_answered_def)
  moreover have "opend_step count_digest ?s3 ?s4" using opend_step.Read [OF r(1)] sample_read r(2) by simp
  ultimately show ?thesis
    using opend_run opend_step.Reply [OF p(1), of count_digest] opend_step.Answered [OF p(2,3), of count_digest]
    by (metis (no_types) rtranclp.rtrancl_into_rtrancl)
qed

theorem frames_reach_one_reader_witness:
  "all_frames count_digest sample_answered = mset (fst (read_frames count_digest sample_socket)) \<and>
   ca_phase (ss_calls sample_answered ! 0) = Finished (Inr [7])"
  using frames_reach_one_reader [OF sample_run_answered, of 0] by (simp add: sample_answered_def)


end
