(* ===== verification/Opend_Subscriptions.thy ===== *)
theory Opend_Subscriptions
  imports Market_Poll Opend_Session
begin

text \<open>
  \<open>crates/jftrade-integration-futu/src/subscriptions.rs\<close> and \<open>subscription_executor.rs\<close>: from the
  demand of the market-data runtime to the subscriptions that OpenD holds. The reconciler keeps a
  record per physical subscription and plans the requests; the lifecycle fences everything by the
  generation of the recorder. The RFC 3339 text of a time in milliseconds is the parameter \<open>F\<close>.
\<close>

section \<open>What a demand asks of OpenD\<close>

datatype subscription_kind = Basic | Kline | Order_Book

datatype physical_subscription =
  Physical_Subscription (su_key: string) (su_kind: subscription_kind) (su_instrument_id: string) (su_interval: "string option")

text \<open>\<open>derive(Ord)\<close>: field by field, the kinds in the order of their declaration, \<open>None\<close> first.\<close>

fun kind_rank :: "subscription_kind \<Rightarrow> string" where
  "kind_rank Basic = ''0''"
| "kind_rank Kline = ''1''"
| "kind_rank Order_Book = ''2''"

lemma kind_rank_inject [simp]: "kind_rank a = kind_rank b \<longleftrightarrow> a = b"
  by (cases a; cases b) simp_all

definition subscription_fields :: "physical_subscription \<Rightarrow> string list" where
  "subscription_fields s =
     [su_key s, kind_rank (su_kind s), su_instrument_id s] @ (case su_interval s of None \<Rightarrow> [] | Some i \<Rightarrow> [i])"

lemma subscription_fields_inject [simp]: "subscription_fields r = subscription_fields s \<longleftrightarrow> r = s"
  by (cases r; cases s) (auto simp: subscription_fields_def split: option.splits)

instantiation physical_subscription :: linorder
begin

definition less_eq_physical_subscription :: "physical_subscription \<Rightarrow> physical_subscription \<Rightarrow> bool" where
  "less_eq_physical_subscription r s \<longleftrightarrow> subscription_fields r \<le> subscription_fields s"

definition less_physical_subscription :: "physical_subscription \<Rightarrow> physical_subscription \<Rightarrow> bool" where
  "less_physical_subscription r s \<longleftrightarrow> subscription_fields r < subscription_fields s"

instance
proof
  fix r s t :: physical_subscription
  show "(r < s) = (r \<le> s \<and> \<not> s \<le> r)"
    unfolding less_eq_physical_subscription_def less_physical_subscription_def by (rule less_le_not_le)
  show "r \<le> r" by (simp add: less_eq_physical_subscription_def)
  show "r \<le> s \<Longrightarrow> s \<le> t \<Longrightarrow> r \<le> t" by (auto simp: less_eq_physical_subscription_def)
  show "r \<le> s \<Longrightarrow> s \<le> r \<Longrightarrow> r = s" by (auto simp: less_eq_physical_subscription_def)
  show "r \<le> s \<or> s \<le> r" unfolding less_eq_physical_subscription_def by (rule linear)
qed

end

record subscription_plan =
  sp_logical_count :: nat
  sp_physical :: "physical_subscription list"

definition logical_key :: "instrument_ref \<Rightarrow> string" where
  "logical_key r =
     (case ir_interval r of
        Some interval \<Rightarrow> ir_channel r @ '':'' @ instrument_id r @ '':'' @ interval
      | None \<Rightarrow> ir_channel r @ '':'' @ instrument_id r)"

text \<open>The physical subscriptions of one normalised reference, in the order they are put into the set.\<close>

definition physical_of :: "instrument_ref \<Rightarrow> physical_subscription list" where
  "physical_of r =
     (let i = instrument_id r
      in if ir_channel r = ''ORDER_BOOK'' then [Physical_Subscription (''ORDER_BOOK:'' @ i) Order_Book i None]
         else Physical_Subscription (''BASIC:'' @ i) Basic i None #
           (case (if ir_channel r = ''KLINE'' then ir_interval r else None) of
              Some interval \<Rightarrow> [Physical_Subscription (''KLINE:'' @ i @ '':'' @ interval) Kline i (Some interval)]
            | None \<Rightarrow> []))"

definition desired_subscriptions :: "instrument_ref list \<Rightarrow> subscription_plan" where
  "desired_subscriptions desired =
     (let (logical, physical) =
        fold (\<lambda>raw (logical, physical).
          case ref_normalize raw of
            Inl _ \<Rightarrow> (logical, physical)
          | Inr r \<Rightarrow> (bs_put (logical_key r) logical, fold bs_put (physical_of r) physical)) desired ([], [])
      in \<lparr>sp_logical_count = length logical, sp_physical = physical\<rparr>)"

definition desired_by_key :: "instrument_ref list \<Rightarrow> (string, physical_subscription) bmap" where
  "desired_by_key desired = fold (\<lambda>s m. bm_insert (su_key s) s m) (sp_physical (desired_subscriptions desired)) []"

section \<open>The reconciler\<close>

datatype reconcile_action = Subscribe physical_subscription | Unsubscribe physical_subscription

record active_record =
  ar_subscription :: physical_subscription
  ar_subscribed_at_ms :: i64
  ar_generation :: u64
  ar_active :: bool
  ar_failures :: nat
  ar_last_error :: "string option"
  ar_retry_at_ms :: i64
  ar_fallback :: bool

record reconciler =
  rc_records :: "(string, active_record) bmap"
  rc_minimum_age_ms :: i64
  rc_fallback_count :: nat
  rc_total_used_quota :: "u64 option"
  rc_remain_quota :: "u64 option"
  rc_own_used_quota :: "u64 option"
  rc_quota_checked_at_ms :: "i64 option"
  rc_quota_last_error :: "string option"
  rc_last_reconciled_at_ms :: "i64 option"

definition reconciler_new :: "i64 \<Rightarrow> reconciler" where
  "reconciler_new minimum_age_ms =
     \<lparr>rc_records = [], rc_minimum_age_ms = max minimum_age_ms 0, rc_fallback_count = 0, rc_total_used_quota = None,
      rc_remain_quota = None, rc_own_used_quota = None, rc_quota_checked_at_ms = None, rc_quota_last_error = None,
      rc_last_reconciled_at_ms = None\<rparr>"

definition keep_quota :: "u64 option \<Rightarrow> u64 option \<Rightarrow> u64 option" where
  "keep_quota new old = (case new of Some q \<Rightarrow> Some q | None \<Rightarrow> old)"

definition positive_ms :: "i64 \<Rightarrow> i64 option" where
  "positive_ms ms = (if 0 < ms then Some ms else None)"

definition set_quota :: "u64 option \<Rightarrow> u64 option \<Rightarrow> u64 option \<Rightarrow> i64 \<Rightarrow> string option \<Rightarrow> reconciler \<Rightarrow> reconciler" where
  "set_quota total_used remain own_used checked_at_ms error r =
     r\<lparr>rc_total_used_quota := keep_quota total_used (rc_total_used_quota r),
       rc_remain_quota := keep_quota remain (rc_remain_quota r),
       rc_own_used_quota := keep_quota own_used (rc_own_used_quota r),
       rc_quota_checked_at_ms := positive_ms checked_at_ms, rc_quota_last_error := error\<rparr>"

definition set_last_reconciled_at_ms :: "i64 \<Rightarrow> reconciler \<Rightarrow> reconciler" where
  "set_last_reconciled_at_ms ms r = r\<lparr>rc_last_reconciled_at_ms := positive_ms ms\<rparr>"

definition retry_delay_ms :: "nat \<Rightarrow> i64" where
  "retry_delay_ms failures = [5000, 10000, 20000, 30000] ! min failures 3"

definition sat_add_i64 :: "i64 \<Rightarrow> i64 \<Rightarrow> i64" where
  "sat_add_i64 a b = max (- (2 ^ 63)) (min (2 ^ 63 - 1) (a + b))"

text \<open>A wanted subscription is skipped while it is active, or while it waits to be tried again.\<close>

definition skip_subscribe :: "i64 \<Rightarrow> u64 \<Rightarrow> active_record option \<Rightarrow> bool" where
  "skip_subscribe now_ms generation entry =
     (case entry of
        None \<Rightarrow> False
      | Some r \<Rightarrow> ar_generation r = generation \<and> (ar_active r \<or> 0 < ar_failures r \<and> now_ms < ar_retry_at_ms r))"

definition may_unsubscribe :: "i64 \<Rightarrow> i64 \<Rightarrow> active_record \<Rightarrow> bool" where
  "may_unsubscribe minimum_age_ms now_ms r \<longleftrightarrow>
     ar_active r \<and> minimum_age_ms \<le> sat_sub_i64 now_ms (ar_subscribed_at_ms r) \<and>
     (ar_failures r = 0 \<or> ar_retry_at_ms r \<le> now_ms)"

definition plan_actions :: "reconciler \<Rightarrow> instrument_ref list \<Rightarrow> i64 \<Rightarrow> u64 \<Rightarrow> reconcile_action list" where
  "plan_actions c desired now_ms generation =
     (let wanted = desired_by_key desired
      in map (\<lambda>(_, s). Subscribe s) (filter (\<lambda>(key, _). \<not> skip_subscribe now_ms generation (bm_get (rc_records c) key)) wanted) @
         map (\<lambda>(_, r). Unsubscribe (ar_subscription r))
           (filter (\<lambda>(key, r). bm_get wanted key = None \<and> may_unsubscribe (rc_minimum_age_ms c) now_ms r) (rc_records c)))"

definition reconciler_success :: "reconcile_action \<Rightarrow> i64 \<Rightarrow> u64 \<Rightarrow> reconciler \<Rightarrow> reconciler" where
  "reconciler_success action now_ms generation c =
     (let c = c\<lparr>rc_fallback_count := rc_fallback_count c - 1\<rparr>
      in case action of
           Subscribe s \<Rightarrow>
             c\<lparr>rc_records := bm_insert (su_key s)
                  \<lparr>ar_subscription = s, ar_subscribed_at_ms = now_ms, ar_generation = generation, ar_active = True,
                   ar_failures = 0, ar_last_error = None, ar_retry_at_ms = 0, ar_fallback = False\<rparr> (rc_records c)\<rparr>
         | Unsubscribe s \<Rightarrow> c\<lparr>rc_records := bm_remove (su_key s) (rc_records c)\<rparr>)"

text \<open>The lines that both kinds of failure share: the error, and a longer wait after each failure.\<close>

definition failed_once :: "i64 \<Rightarrow> string option \<Rightarrow> active_record \<Rightarrow> active_record" where
  "failed_once now_ms error r =
     r\<lparr>ar_last_error := error, ar_failures := sat_inc_usize (ar_failures r),
       ar_retry_at_ms := sat_add_i64 now_ms (retry_delay_ms (ar_failures r))\<rparr>"

definition reconciler_failure ::
  "physical_subscription \<Rightarrow> i64 \<Rightarrow> u64 \<Rightarrow> string option \<Rightarrow> reconciler \<Rightarrow> i64 \<times> reconciler" where
  "reconciler_failure s now_ms generation error c =
     (let r = (case bm_get (rc_records c) (su_key s) of
                 Some r \<Rightarrow> r
               | None \<Rightarrow> \<lparr>ar_subscription = s, ar_subscribed_at_ms = 0, ar_generation = generation, ar_active = False,
                          ar_failures = 0, ar_last_error = None, ar_retry_at_ms = 0, ar_fallback = False\<rparr>);
          r' = failed_once now_ms error (r\<lparr>ar_generation := generation, ar_active := False\<rparr>)
      in (retry_delay_ms (ar_failures r),
          c\<lparr>rc_fallback_count := sat_inc_usize (rc_fallback_count c), rc_records := bm_insert (su_key s) r' (rc_records c)\<rparr>))"

definition record_unsubscribe_failure ::
  "physical_subscription \<Rightarrow> i64 \<Rightarrow> u64 \<Rightarrow> string option \<Rightarrow> reconciler \<Rightarrow> i64 \<times> reconciler" where
  "record_unsubscribe_failure s now_ms generation error c =
     (case bm_get (rc_records c) (su_key s) of
        None \<Rightarrow> (retry_delay_ms 0, c)
      | Some r \<Rightarrow>
          if ar_generation r \<noteq> generation then (retry_delay_ms 0, c)
          else (retry_delay_ms (ar_failures r),
                c\<lparr>rc_records := bm_insert (su_key s) (failed_once now_ms error r) (rc_records c)\<rparr>))"

definition replay_actions :: "instrument_ref list \<Rightarrow> u64 \<Rightarrow> reconciler \<Rightarrow> reconcile_action list \<times> reconciler" where
  "replay_actions desired generation c =
     (let wanted = desired_by_key desired
      in (map Subscribe (bm_values wanted),
          c\<lparr>rc_records :=
              map (\<lambda>(key, r). (key, r\<lparr>ar_generation := generation, ar_active := False, ar_failures := 0, ar_retry_at_ms := 0\<rparr>))
                (filter (\<lambda>(key, _). bm_get wanted key \<noteq> None) (rc_records c))\<rparr>))"

definition active_instruments :: "subscription_kind \<Rightarrow> u64 \<Rightarrow> reconciler \<Rightarrow> string list" where
  "active_instruments kind generation c =
     map (\<lambda>r. su_instrument_id (ar_subscription r))
       (filter (\<lambda>r. ar_generation r = generation \<and> ar_active r \<and> su_kind (ar_subscription r) = kind) (bm_values (rc_records c)))"

section \<open>The projection\<close>

record subscription_entry =
  se_key :: string
  se_kind :: string
  se_instrument_id :: string
  se_interval :: "string option"
  se_broker_state :: string
  se_subscribed_at :: "string option"
  se_unsubscribe_eligible_at :: "string option"
  se_last_error :: "string option"

record subscription_snapshot =
  px_desired_count :: nat
  px_own_active_count :: nat
  px_pending_release_count :: nat
  px_fallback_count :: nat
  px_connection_generation :: "u64 option"
  px_observed_generation :: "u64 option"
  px_total_used_quota :: "u64 option"
  px_remain_quota :: "u64 option"
  px_own_used_quota :: "u64 option"
  px_checked_at :: "string option"
  px_last_error :: "string option"
  px_reconciled_at :: "string option"
  px_entries :: "subscription_entry list"

definition snapshot_default :: subscription_snapshot where
  "snapshot_default =
     \<lparr>px_desired_count = 0, px_own_active_count = 0, px_pending_release_count = 0, px_fallback_count = 0,
      px_connection_generation = None, px_observed_generation = None, px_total_used_quota = None, px_remain_quota = None,
      px_own_used_quota = None, px_checked_at = None, px_last_error = None, px_reconciled_at = None, px_entries = []\<rparr>"

fun kind_text :: "subscription_kind \<Rightarrow> string" where
  "kind_text Basic = ''BASIC''"
| "kind_text Kline = ''KLINE''"
| "kind_text Order_Book = ''ORDER_BOOK''"

definition format_millis :: "(i64 \<Rightarrow> string option) \<Rightarrow> i64 \<Rightarrow> string option" where
  "format_millis F ms = (if ms \<le> 0 then None else F ms)"

text \<open>The wrap-around of \<open>+\<close> on \<open>i64\<close> in a release build.\<close>

definition wrap_i64 :: "int \<Rightarrow> i64" where
  "wrap_i64 n = (n + 2 ^ 63) mod 2 ^ 64 - 2 ^ 63"

definition broker_state :: "bool \<Rightarrow> u64 \<Rightarrow> active_record \<Rightarrow> string" where
  "broker_state desired generation r =
     (if ar_fallback r then ''fallback''
      else if ar_active r \<and> ar_generation r = generation then (if desired then ''active'' else ''pending_release'')
      else if 0 < ar_failures r then ''retrying''
      else ''pending_subscribe'')"

definition subscription_entry_of :: "(i64 \<Rightarrow> string option) \<Rightarrow> i64 \<Rightarrow> bool \<Rightarrow> u64 \<Rightarrow> string \<times> active_record \<Rightarrow> subscription_entry" where
  "subscription_entry_of F minimum_age_ms desired generation = (\<lambda>(key, r).
     \<lparr>se_key = key, se_kind = kind_text (su_kind (ar_subscription r)), se_instrument_id = su_instrument_id (ar_subscription r),
      se_interval = su_interval (ar_subscription r), se_broker_state = broker_state desired generation r,
      se_subscribed_at = format_millis F (ar_subscribed_at_ms r),
      se_unsubscribe_eligible_at =
        format_millis F (if 0 < ar_subscribed_at_ms r then wrap_i64 (ar_subscribed_at_ms r + minimum_age_ms) else 0),
      se_last_error = ar_last_error r\<rparr>)"

definition physical_snapshot ::
  "(i64 \<Rightarrow> string option) \<Rightarrow> reconciler \<Rightarrow> instrument_ref list \<Rightarrow> u64 \<Rightarrow> u64 option \<Rightarrow> subscription_snapshot" where
  "physical_snapshot F c desired generation observed =
     (let wanted = desired_by_key desired;
          entries = map (\<lambda>e. subscription_entry_of F (rc_minimum_age_ms c) (bm_get wanted (fst e) \<noteq> None) generation e) (rc_records c);
          count = (\<lambda>s. length (filter (\<lambda>e. se_broker_state e = s) entries))
      in \<lparr>px_desired_count = length wanted, px_own_active_count = count ''active'',
          px_pending_release_count = count ''pending_release'', px_fallback_count = rc_fallback_count c,
          px_connection_generation = Some generation,
          px_observed_generation = (case observed of Some g \<Rightarrow> Some g | None \<Rightarrow> Some generation),
          px_total_used_quota = rc_total_used_quota c, px_remain_quota = rc_remain_quota c, px_own_used_quota = rc_own_used_quota c,
          px_checked_at = Option.bind (rc_quota_checked_at_ms c) (format_millis F), px_last_error = rc_quota_last_error c,
          px_reconciled_at = Option.bind (rc_last_reconciled_at_ms c) (format_millis F), px_entries = entries\<rparr>)"

section \<open>The requests\<close>

datatype executor_error =
    Ex_Session session_error
  | Ex_Decode string
  | Ex_Rejected int int string \<comment> \<open>return type, error code, message\<close>
  | InvalidInstrument string
  | UnsupportedInterval string

definition market_code :: "string \<Rightarrow> int option" where
  "market_code m = map_of
     [(''HK'', 1), (''US'', 11), (''SH'', 21), (''CNSH'', 21), (''SZ'', 22), (''CNSZ'', 22), (''SG'', 31), (''JP'', 41),
      (''AU'', 51), (''MY'', 61), (''CA'', 71)] m"

definition split_instrument :: "string \<Rightarrow> executor_error + int \<times> string" where
  "split_instrument v =
     (case split_once (CHR ''.'') (trim v) of
        None \<Rightarrow> Inl (InvalidInstrument v)
      | Some (market, code) \<Rightarrow>
          rbind (ok_or (market_code (upper market)) (InvalidInstrument v)) (\<lambda>m.
          let code = trim code
          in if code = [] \<or> CHR ''.'' \<in> set code then Inl (InvalidInstrument v) else Inr (m, upper code)))"

definition kline_codes :: "(string \<times> int) list" where
  "kline_codes =
     [(''1d'', 6), (''day'', 6), (''5m'', 7), (''15m'', 8), (''30m'', 9), (''60m'', 10), (''1h'', 10), (''1m'', 11), (''1w'', 12),
      (''week'', 12), (''1mo'', 13), (''month'', 13), (''3mo'', 15), (''quarter'', 15), (''1y'', 16), (''year'', 16), (''3m'', 17),
      (''10m'', 18), (''120m'', 19), (''180m'', 20), (''240m'', 21)]"

definition kline_sub_type :: "string option \<Rightarrow> executor_error + int" where
  "kline_sub_type interval =
     (let i = lower (trim (case interval of None \<Rightarrow> [] | Some i \<Rightarrow> i))
      in ok_or (map_of kline_codes i) (UnsupportedInterval i))"

text \<open>The request of \<open>Qot_Sub\<close>: one security, one type, and the two flags.\<close>

record qot_sub =
  qr_market :: int
  qr_code :: string
  qr_sub_type :: int
  qr_subscribe :: bool
  qr_register_push :: "bool option"

definition qot_sub_request :: "reconcile_action \<Rightarrow> executor_error + qot_sub" where
  "qot_sub_request action =
     (let (s, subscribe) = (case action of Subscribe s \<Rightarrow> (s, True) | Unsubscribe s \<Rightarrow> (s, False))
      in rbind (split_instrument (su_instrument_id s)) (\<lambda>(market, code).
         rbind (case su_kind s of
                  Basic \<Rightarrow> Inr (1, None)
                | Kline \<Rightarrow> map_sum id (\<lambda>t. (t, Some False)) (kline_sub_type (su_interval s))
                | Order_Book \<Rightarrow> Inr (2, Some False)) (\<lambda>(sub_type, push).
         Inr \<lparr>qr_market = market, qr_code = code, qr_sub_type = sub_type, qr_subscribe = subscribe, qr_register_push = push\<rparr>)))"

text \<open>What OpenD answers to a request: the outcome of the call on the session, and the decoded response
  (return type, error code, message), or why it could not be decoded.\<close>

type_synonym sub_response = "int option \<times> int option \<times> string option"

type_synonym sub_call = "qot_sub \<Rightarrow> session_error + (string + sub_response)"

definition execute_sub :: "sub_call \<Rightarrow> reconcile_action \<Rightarrow> executor_error + unit" where
  "execute_sub call action =
     rbind (qot_sub_request action) (\<lambda>request.
     rbind (map_sum Ex_Session id (call request)) (\<lambda>body.
     rbind (map_sum Ex_Decode id body) (\<lambda>(ret_type, error_code, message).
       let ret = (case ret_type of None \<Rightarrow> - 400 | Some t \<Rightarrow> t)
       in if ret \<noteq> 0
          then Inl (Ex_Rejected ret (case error_code of None \<Rightarrow> 0 | Some c \<Rightarrow> c)
                 (case message of None \<Rightarrow> ''OpenD Qot_Sub request failed'' | Some m \<Rightarrow> m))
          else Inr ())))"

section \<open>The lifecycle\<close>

text \<open>The recorder is shared with the router; it is part of the state here, and others may move it.\<close>

record 't lifecycle =
  lc_reconciler :: reconciler
  lc_recorder :: "'t recorder"
  lc_desired :: "instrument_ref list"
  lc_generation :: u64
  lc_reconnect_generation :: u64
  lc_closed :: bool

definition lifecycle_new :: "'t recorder \<Rightarrow> i64 \<Rightarrow> 't lifecycle" where
  "lifecycle_new recorder minimum_age_ms =
     \<lparr>lc_reconciler = reconciler_new minimum_age_ms, lc_recorder = recorder, lc_desired = [], lc_generation = 0,
      lc_reconnect_generation = 0, lc_closed = False\<rparr>"

definition runtime_instruments :: "instrument_ref list \<Rightarrow> string list" where
  "runtime_instruments desired =
     concat (map (\<lambda>r. case ref_normalize r of Inl _ \<Rightarrow> [] | Inr n \<Rightarrow> [instrument_id n]) desired)"

definition reconcile_demand :: "instrument_ref list \<Rightarrow> i64 \<Rightarrow> 't lifecycle \<Rightarrow> reconcile_action list \<times> 't lifecycle" where
  "reconcile_demand desired now_ms l =
     (if lc_closed l then ([], l)
      else let recorder = recorder_reconcile (lc_recorder l) (runtime_instruments desired);
               l = l\<lparr>lc_desired := desired, lc_recorder := recorder, lc_generation := generation_of recorder\<rparr>
           in (plan_actions (lc_reconciler l) desired now_ms (lc_generation l), l))"

definition active_basic_instruments :: "'t lifecycle \<Rightarrow> string list" where
  "active_basic_instruments l = (if lc_closed l then [] else active_instruments Basic (lc_generation l) (lc_reconciler l))"

definition lifecycle_snapshot :: "(i64 \<Rightarrow> string option) \<Rightarrow> u64 option \<Rightarrow> 't lifecycle \<Rightarrow> subscription_snapshot" where
  "lifecycle_snapshot F observed l =
     (if lc_closed l then snapshot_default
      else physical_snapshot F (lc_reconciler l) (lc_desired l) (lc_generation l) observed)"

definition lifecycle_reconfigure :: "'t lifecycle \<Rightarrow> 't lifecycle" where
  "lifecycle_reconfigure l =
     (if lc_closed l then l
      else let recorder = recorder_reconfigure (lc_recorder l)
           in l\<lparr>lc_recorder := recorder, lc_generation := generation_of recorder\<rparr>)"

definition reconfigure_for_reconnect :: "instrument_ref list \<Rightarrow> 't lifecycle \<Rightarrow> reconcile_action list \<times> 't lifecycle" where
  "reconfigure_for_reconnect desired l =
     (if lc_closed l then ([], l)
      else
        let previous = lc_generation l;
            reconciled = recorder_reconcile (lc_recorder l) (runtime_instruments desired);
            recorder = (if generation_of reconciled = previous then recorder_reconfigure reconciled else reconciled);
            (actions, reconciler) = replay_actions desired (generation_of recorder) (lc_reconciler l)
        in (actions,
            l\<lparr>lc_desired := desired, lc_recorder := recorder, lc_generation := generation_of recorder,
              lc_reconnect_generation := generation_of recorder, lc_reconciler := reconciler\<rparr>))"

definition record_subscription_success :: "reconcile_action \<Rightarrow> i64 \<Rightarrow> u64 \<Rightarrow> 't lifecycle \<Rightarrow> bool \<times> 't lifecycle" where
  "record_subscription_success action now_ms generation l =
     (if lc_closed l \<or> generation \<noteq> lc_generation l then (False, l)
      else (True, l\<lparr>lc_reconciler := reconciler_success action now_ms generation (lc_reconciler l)\<rparr>))"

definition record_subscription_failure ::
  "physical_subscription \<Rightarrow> i64 \<Rightarrow> u64 \<Rightarrow> string option \<Rightarrow> 't lifecycle \<Rightarrow> i64 option \<times> 't lifecycle" where
  "record_subscription_failure s now_ms generation error l =
     (if lc_closed l \<or> generation \<noteq> lc_generation l then (None, l)
      else let (delay, reconciler) = reconciler_failure s now_ms generation error (lc_reconciler l)
           in (Some delay, l\<lparr>lc_reconciler := reconciler\<rparr>))"

text \<open>\<open>session_generation\<close> is the one of the session of the executor, \<open>text\<close> the message of its error.\<close>

definition execute_action ::
  "(executor_error \<Rightarrow> string) \<Rightarrow> u64 \<Rightarrow> sub_call \<Rightarrow> reconcile_action \<Rightarrow> i64 \<Rightarrow> u64 \<Rightarrow> 't lifecycle \<Rightarrow>
     (executor_error + bool) \<times> 't lifecycle" where
  "execute_action error_text session_generation call action now_ms generation l =
     (if lc_closed l \<or> generation \<noteq> lc_generation l \<or> session_generation < lc_reconnect_generation l \<or> generation < session_generation
      then (Inr False, l)
      else case execute_sub call action of
             Inr _ \<Rightarrow> (Inr True, l\<lparr>lc_reconciler := reconciler_success action now_ms generation (lc_reconciler l)\<rparr>)
           | Inl e \<Rightarrow>
               (Inl e,
                l\<lparr>lc_reconciler :=
                    snd (case action of
                           Subscribe s \<Rightarrow> reconciler_failure s now_ms generation (Some (error_text e)) (lc_reconciler l)
                         | Unsubscribe s \<Rightarrow> record_unsubscribe_failure s now_ms generation (Some (error_text e)) (lc_reconciler l))\<rparr>))"

definition accepts_generation :: "u64 \<Rightarrow> 't lifecycle \<Rightarrow> bool" where
  "accepts_generation generation l \<longleftrightarrow> \<not> lc_closed l \<and> generation = lc_generation l"

text \<open>A push of the current generation is decoded; what cannot be decoded is dropped. The decoder is \<open>decode\<close>.\<close>

definition ingest_quote_push :: "(frame \<Rightarrow> string + 'p option) \<Rightarrow> frame \<Rightarrow> u64 \<Rightarrow> 't lifecycle \<Rightarrow> 'p option" where
  "ingest_quote_push decode f generation l =
     (if \<not> accepts_generation generation l then None
      else case decode f of Inr p \<Rightarrow> p | Inl _ \<Rightarrow> None)"

text \<open>The recorder's updates of the lifecycle (poll started, quote and stream outcomes), behind the fence.\<close>

definition lifecycle_update :: "'t time_lib \<Rightarrow> u64 \<Rightarrow> 't recorder_update \<Rightarrow> 't lifecycle \<Rightarrow> bool \<times> 't lifecycle" where
  "lifecycle_update T generation u l =
     (if \<not> accepts_generation generation l then (False, l)
      else let (ok, recorder) = recorder_update T generation u (lc_recorder l) in (ok, l\<lparr>lc_recorder := recorder\<rparr>))"

fun frame_error_text :: "frame_error \<Rightarrow> string" where
  "frame_error_text TooShort = ''futu opend frame too short''"
| "frame_error_text BadMagic = ''futu opend frame has invalid magic''"
| "frame_error_text BadBodyHash = ''futu opend frame body hash mismatch''"
| "frame_error_text BodyTooLarge = ''futu opend frame body too large''"
| "frame_error_text (LengthMismatch declared actual) =
     ''futu opend frame length mismatch: declared '' @ nat_text declared @ '', actual '' @ nat_text actual"

fun close_reason_text :: "close_reason \<Rightarrow> string" where
  "close_reason_text Local = ''closed locally''"
| "close_reason_text PeerClosed = ''OpenD peer closed the TCP session''"
| "close_reason_text (Transport m) = ''OpenD TCP session failed: '' @ m"
| "close_reason_text (InvalidFrame e) = ''OpenD sent an invalid frame: '' @ frame_error_text e"

definition ingest_session_event ::
  "'t time_lib \<Rightarrow> (frame \<Rightarrow> string + 'p option) \<Rightarrow> session_event \<Rightarrow> 't \<Rightarrow> 't lifecycle \<Rightarrow> 'p option \<times> 't lifecycle" where
  "ingest_session_event T decode event now l =
     (case event of
        UnsolicitedFrame generation f \<Rightarrow> (ingest_quote_push decode f generation l, l)
      | Session_Closed generation reason \<Rightarrow>
          (None,
           if reason \<noteq> Local \<and> accepts_generation generation l
           then l\<lparr>lc_recorder := snd (recorder_update T generation (Stream_Failure now (close_reason_text reason)) (lc_recorder l))\<rparr>
           else l))"

definition lifecycle_close :: "'t lifecycle \<Rightarrow> bool \<times> 't lifecycle" where
  "lifecycle_close l =
     (if lc_closed l then (False, l) else (True, l\<lparr>lc_closed := True, lc_recorder := recorder_close (lc_recorder l)\<rparr>))"

section \<open>The records\<close>

definition records_ok :: "reconciler \<Rightarrow> bool" where
  "records_ok c \<longleftrightarrow> bm_ok (rc_records c) \<and> (\<forall>k r. bm_get (rc_records c) k = Some r \<longrightarrow> su_key (ar_subscription r) = k)"

lemma records_okD: "records_ok c \<Longrightarrow> bm_get (rc_records c) k = Some r \<Longrightarrow> su_key (ar_subscription r) = k"
  by (simp add: records_ok_def)

lemma records_bm_ok: "records_ok c \<Longrightarrow> bm_ok (rc_records c)"
  by (simp add: records_ok_def)

lemma records_new: "records_ok (reconciler_new n)"
  by (simp add: records_ok_def reconciler_new_def)

lemma record_success_ok [invar_intros]: "records_ok c \<Longrightarrow> records_ok (reconciler_success a now g c)"
  by (auto simp: records_ok_def reconciler_success_def Let_def bm_get_remove split: reconcile_action.splits)

lemma record_failure_ok [invar_intros]: "records_ok c \<Longrightarrow> records_ok (snd (reconciler_failure s now g e c))"
  by (auto simp: records_ok_def reconciler_failure_def failed_once_def Let_def split: option.splits)

lemma record_unsubscribe_failure_ok [invar_intros]: "records_ok c \<Longrightarrow> records_ok (snd (record_unsubscribe_failure s now g e c))"
  by (auto simp: records_ok_def record_unsubscribe_failure_def failed_once_def split: option.splits)

lemma get_map_values: "bm_get (map (\<lambda>(k, r). (k, h r)) m) k = map_option h (bm_get m k)"
  by (induction m) (auto simp: bm_get_def)

lemma bm_ok_map_values: "bm_ok (map (\<lambda>(k, r). (k, h r)) m) = bm_ok m"
  by (simp add: bm_ok_def comp_def case_prod_beta)

lemma replay_records:
  assumes "records_ok c"
  shows "bm_get (rc_records (snd (replay_actions desired g c))) k =
    (if bm_get (desired_by_key desired) k = None then None
     else map_option (\<lambda>r. r\<lparr>ar_generation := g, ar_active := False, ar_failures := 0, ar_retry_at_ms := 0\<rparr>) (bm_get (rc_records c) k))"
  using records_bm_ok [OF assms]
  by (simp add: replay_actions_def Let_def get_map_values bm_get_filter case_prod_beta split: option.splits)

lemma replay_ok [invar_intros]: "records_ok c \<Longrightarrow> records_ok (snd (replay_actions desired g c))"
  unfolding records_ok_def [of "snd (replay_actions desired g c)"]
  by (auto simp: replay_records dest: records_okD split: if_splits)
    (simp add: replay_actions_def Let_def bm_ok_map_values records_bm_ok)

subsection \<open>The demand\<close>

lemma fold_insert_ok: "bm_ok m \<Longrightarrow> bm_ok (fold (\<lambda>s m. bm_insert (key s) s m) ss m)"
  by (induction ss arbitrary: m) simp_all

definition keyed_records :: "('v \<Rightarrow> 'k::linorder) \<Rightarrow> ('k, 'v) bmap \<Rightarrow> bool" where
  "keyed_records key m \<longleftrightarrow> (\<forall>k s. bm_get m k = Some s \<longrightarrow> k = key s)"

lemma keyed_records_insert: "keyed_records key m \<Longrightarrow> keyed_records key (bm_insert (key s) s m)"
  by (auto simp: keyed_records_def)

lemma fold_insert_keyed: "keyed_records key m \<Longrightarrow> keyed_records key (fold (\<lambda>s m. bm_insert (key s) s m) ss m)"
  by (induction ss arbitrary: m) (auto intro: keyed_records_insert)

lemma desired_ok: "bm_ok (desired_by_key desired)"
  unfolding desired_by_key_def by (rule fold_insert_ok) simp

lemma desired_keyed: "bm_get (desired_by_key desired) k = Some s \<Longrightarrow> su_key s = k"
proof -
  have "keyed_records su_key ([] :: (string, physical_subscription) bmap)" by (simp add: keyed_records_def)
  then have "keyed_records su_key (desired_by_key desired)" unfolding desired_by_key_def by (rule fold_insert_keyed)
  then show "bm_get (desired_by_key desired) k = Some s \<Longrightarrow> su_key s = k" unfolding keyed_records_def by blast
qed

section \<open>Planning\<close>

lemma plan_subscribe:
  "Subscribe s \<in> set (plan_actions c desired now g) \<longleftrightarrow>
     bm_get (desired_by_key desired) (su_key s) = Some s \<and> \<not> skip_subscribe now g (bm_get (rc_records c) (su_key s))"
proof -
  have "Subscribe s \<in> set (plan_actions c desired now g) \<longleftrightarrow>
    (\<exists>k. bm_get (desired_by_key desired) k = Some s \<and> \<not> skip_subscribe now g (bm_get (rc_records c) k))"
    by (auto simp: plan_actions_def Let_def bm_in_set_get [OF desired_ok])
  then show ?thesis using desired_keyed by blast
qed

lemma plan_unsubscribe:
  assumes "records_ok c"
  shows "Unsubscribe s \<in> set (plan_actions c desired now g) \<longleftrightarrow>
    (\<exists>r. bm_get (rc_records c) (su_key s) = Some r \<and> ar_subscription r = s \<and> bm_get (desired_by_key desired) (su_key s) = None \<and>
       may_unsubscribe (rc_minimum_age_ms c) now r)"
proof -
  have "Unsubscribe s \<in> set (plan_actions c desired now g) \<longleftrightarrow>
    (\<exists>k r. bm_get (rc_records c) k = Some r \<and> ar_subscription r = s \<and> bm_get (desired_by_key desired) k = None \<and>
       may_unsubscribe (rc_minimum_age_ms c) now r)"
    by (auto simp: plan_actions_def Let_def bm_in_set_get [OF records_bm_ok [OF assms]]) blast
  then show ?thesis using records_okD [OF assms] by blast
qed

fun action_key :: "reconcile_action \<Rightarrow> string" where
  "action_key (Subscribe s) = su_key s"
| "action_key (Unsubscribe s) = su_key s"

lemma plan_keys_distinct:
  assumes "records_ok c"
  shows "distinct (map action_key (plan_actions c desired now g))"
proof -
  let ?w = "desired_by_key desired"
  let ?ws = "filter (\<lambda>(key, _). \<not> skip_subscribe now g (bm_get (rc_records c) key)) ?w"
  let ?us = "filter (\<lambda>(key, r). bm_get ?w key = None \<and> may_unsubscribe (rc_minimum_age_ms c) now r) (rc_records c)"
  have w: "map action_key (map (\<lambda>(_, s). Subscribe s) ?ws) = map fst ?ws"
    using desired_keyed bm_in_set_get [OF desired_ok] by auto
  have u: "map action_key (map (\<lambda>(_, r). Unsubscribe (ar_subscription r)) ?us) = map fst ?us"
    using records_okD [OF assms] bm_in_set_get [OF records_bm_ok [OF assms]] by auto
  have "distinct (map fst ?ws)" using bm_distinct [OF bm_ok_filter [OF desired_ok]] .
  moreover have "distinct (map fst ?us)" using bm_distinct [OF bm_ok_filter [OF records_bm_ok [OF assms]]] .
  moreover have "set (map fst ?ws) \<inter> set (map fst ?us) = {}"
    using bm_in_set_get [OF desired_ok, of _ _ desired] by fastforce
  ultimately show ?thesis
    unfolding plan_actions_def Let_def map_append w u by simp
qed

subsection \<open>One round of actions\<close>

text \<open>What the lifecycle records for an action: its success, or its failure with a message.\<close>

definition record_outcome :: "i64 \<Rightarrow> u64 \<Rightarrow> reconcile_action \<times> string option \<Rightarrow> reconciler \<Rightarrow> reconciler" where
  "record_outcome now g = (\<lambda>(a, error) c.
     case error of
       None \<Rightarrow> reconciler_success a now g c
     | Some e \<Rightarrow>
         snd (case a of
                Subscribe s \<Rightarrow> reconciler_failure s now g (Some e) c
              | Unsubscribe s \<Rightarrow> record_unsubscribe_failure s now g (Some e) c))"

lemma record_outcome_ok: "records_ok c \<Longrightarrow> records_ok (record_outcome now g x c)"
  by (auto simp: record_outcome_def case_prod_beta intro!: invar_intros split: option.splits reconcile_action.splits)

lemma record_outcome_frame:
  "records_ok c \<Longrightarrow> k \<noteq> action_key a \<Longrightarrow> bm_get (rc_records (record_outcome now g (a, e) c)) k = bm_get (rc_records c) k"
  by (auto simp: record_outcome_def reconciler_success_def reconciler_failure_def record_unsubscribe_failure_def Let_def bm_get_remove records_bm_ok
      split: option.splits reconcile_action.splits)

lemma record_outcome_local:
  assumes "records_ok c" and "records_ok d" and "bm_get (rc_records c) (action_key a) = bm_get (rc_records d) (action_key a)"
  shows "bm_get (rc_records (record_outcome now g (a, e) c)) (action_key a) = bm_get (rc_records (record_outcome now g (a, e) d)) (action_key a)"
  using assms
  by (cases a) (auto simp: record_outcome_def reconciler_success_def reconciler_failure_def record_unsubscribe_failure_def Let_def bm_get_remove records_bm_ok
      split: option.splits)

lemma record_outcomes:
  assumes "records_ok c" and "distinct (map (\<lambda>x. action_key (fst x)) xs)"
  shows "records_ok (fold (record_outcome now g) xs c) \<and>
    bm_get (rc_records (fold (record_outcome now g) xs c)) k =
      (case find (\<lambda>x. action_key (fst x) = k) xs of
         None \<Rightarrow> bm_get (rc_records c) k
       | Some x \<Rightarrow> bm_get (rc_records (record_outcome now g x c)) k)"
  using assms
proof (induction xs arbitrary: c)
  case (Cons x xs)
  let ?d = "record_outcome now g x c"
  have d: "records_ok ?d" by (rule record_outcome_ok [OF Cons.prems(1)])
  have ih: "records_ok (fold (record_outcome now g) xs ?d) \<and>
    bm_get (rc_records (fold (record_outcome now g) xs ?d)) k =
      (case find (\<lambda>x. action_key (fst x) = k) xs of
         None \<Rightarrow> bm_get (rc_records ?d) k
       | Some x \<Rightarrow> bm_get (rc_records (record_outcome now g x ?d)) k)"
    by (rule Cons.IH [OF d]) (use Cons.prems(2) in simp)
  show ?case
  proof (cases "action_key (fst x) = k")
    case True
    then have "find (\<lambda>x. action_key (fst x) = k) xs = None" using Cons.prems(2) by (auto simp: find_None_iff image_iff)
    then show ?thesis using ih True by simp
  next
    case False
    have f: "bm_get (rc_records ?d) k = bm_get (rc_records c) k"
      using record_outcome_frame [OF Cons.prems(1), of k "fst x" now g "snd x"] False by simp
    show ?thesis
    proof (cases "find (\<lambda>x. action_key (fst x) = k) xs")
      case None
      then show ?thesis using ih f False by simp
    next
      case (Some y)
      then have "action_key (fst y) = k" by (auto simp: find_Some_iff)
      then have "bm_get (rc_records (record_outcome now g y ?d)) k = bm_get (rc_records (record_outcome now g y c)) k"
        using record_outcome_local [OF d Cons.prems(1), of "fst y" now g "snd y"] f by simp
      then show ?thesis using ih Some False by simp
    qed
  qed
qed simp

lemma retry_delay_ms_bounds: "5000 \<le> retry_delay_ms n \<and> retry_delay_ms n \<le> 30000"
proof -
  have "min n 3 = 0 \<or> min n 3 = 1 \<or> min n 3 = 2 \<or> min n 3 = 3" by linarith
  then show ?thesis by (auto simp: retry_delay_ms_def)
qed

lemma sat_inc_usize_pos: "0 < sat_inc_usize n"
  by (simp add: sat_inc_usize_def)

lemma retry_later:
  assumes "now + 30000 < 2 ^ 63" and "- (2 ^ 63) \<le> now"
  shows "now < sat_add_i64 now (retry_delay_ms n)"
  using assms retry_delay_ms_bounds [of n] by (simp add: sat_add_i64_def)

lemma subscribe_settles:
  assumes "records_ok c" and "now + 30000 < 2 ^ 63" and "- (2 ^ 63) \<le> now"
  shows "skip_subscribe now g (bm_get (rc_records (record_outcome now g (Subscribe s, e) c)) (su_key s))"
  using retry_later [OF assms(2,3)] sat_inc_usize_pos
  by (auto simp: record_outcome_def reconciler_success_def reconciler_failure_def failed_once_def Let_def skip_subscribe_def split: option.splits)

lemma unsubscribe_settles:
  assumes "records_ok c" and "now + 30000 < 2 ^ 63" and "- (2 ^ 63) \<le> now"
    and "bm_get (rc_records c) (su_key s) = Some r" and "e \<noteq> None \<Longrightarrow> ar_generation r = g"
    and "bm_get (rc_records (record_outcome now g (Unsubscribe s, e) c)) (su_key s) = Some r'"
  shows "\<not> may_unsubscribe n now r'"
proof (cases e)
  case None
  then show ?thesis using assms(6) records_bm_ok [OF assms(1)] by (simp add: record_outcome_def reconciler_success_def Let_def bm_get_remove)
next
  case (Some message)
  then have "r' = failed_once now (Some message) r"
    using assms(4-6) by (simp add: record_outcome_def record_unsubscribe_failure_def)
  then show ?thesis
    using retry_later [OF assms(2,3), of "ar_failures r"] sat_inc_usize_pos [of "ar_failures r"] by (simp add: failed_once_def may_unsubscribe_def)
qed

lemma outcomes_minimum_age [simp]: "rc_minimum_age_ms (record_outcome now g x c) = rc_minimum_age_ms c"
  by (auto simp: record_outcome_def reconciler_success_def reconciler_failure_def record_unsubscribe_failure_def Let_def case_prod_beta
      split: option.splits reconcile_action.splits)

lemma fold_minimum_age [simp]: "rc_minimum_age_ms (fold (record_outcome now g) xs c) = rc_minimum_age_ms c"
  by (induction xs arbitrary: c) simp_all

text \<open>An unsubscription that fails starts a window only when its record is of the current generation.\<close>

definition failure_counts :: "u64 \<Rightarrow> reconciler \<Rightarrow> reconcile_action \<times> string option \<Rightarrow> bool" where
  "failure_counts g c = (\<lambda>(a, error).
     case a of
       Subscribe _ \<Rightarrow> True
     | Unsubscribe s \<Rightarrow> error = None \<or> is_some_and (bm_get (rc_records c) (su_key s)) (\<lambda>r. ar_generation r = g))"

text \<open>A round of reconciliation settles. Whatever OpenD answers to the planned requests, in whatever mix of
  successes and failures, nothing is left to do at the same time: what succeeded is as demanded, what
  failed waits for its retry window.\<close>

theorem reconcile_round_settles:
  assumes "records_ok c" and "now + 30000 < 2 ^ 63" and "- (2 ^ 63) \<le> now"
    and "map fst outcomes = plan_actions c desired now g" and "list_all (failure_counts g c) outcomes"
  shows "plan_actions (fold (record_outcome now g) outcomes c) desired now g = []"
proof -
  let ?c = "fold (record_outcome now g) outcomes c"
  have d: "distinct (map (\<lambda>x. action_key (fst x)) outcomes)"
    using plan_keys_distinct [OF assms(1), of desired now g] unfolding assms(4) [symmetric] by (simp add: comp_def)
  note r = record_outcomes [OF assms(1) d, of now g]
  have ok: "records_ok ?c" using r by blast
  have settled: "x \<in> set outcomes \<Longrightarrow> bm_get (rc_records ?c) (action_key (fst x)) = bm_get (rc_records (record_outcome now g x c)) (action_key (fst x))" for x
  proof -
    assume x: "x \<in> set outcomes"
    have "find (\<lambda>z. action_key (fst z) = action_key (fst x)) outcomes \<noteq> None" unfolding find_None_iff using x by blast
    then obtain y where y: "find (\<lambda>z. action_key (fst z) = action_key (fst x)) outcomes = Some y" by blast
    then have "y \<in> set outcomes" "action_key (fst y) = action_key (fst x)" by (auto simp: find_Some_iff)
    then have "y = x" using d x by (auto simp: distinct_map dest: inj_onD)
    then show ?thesis using r [of "action_key (fst x)"] y by simp
  qed
  have idle: "a \<notin> set (map fst outcomes) \<Longrightarrow> a \<notin> set (plan_actions c desired now g)" for a unfolding assms(4) .
  have untouched: "bm_get (rc_records ?c) k = bm_get (rc_records c) k" if "\<forall>x \<in> set outcomes. action_key (fst x) \<noteq> k" for k
  proof -
    have "find (\<lambda>x. action_key (fst x) = k) outcomes = None" unfolding find_None_iff using that by blast
    then show ?thesis using r [of k] by simp
  qed
  have sub: "Subscribe s \<notin> set (plan_actions ?c desired now g)" for s
  proof
    assume a: "Subscribe s \<in> set (plan_actions ?c desired now g)"
    then have w: "bm_get (desired_by_key desired) (su_key s) = Some s" "\<not> skip_subscribe now g (bm_get (rc_records ?c) (su_key s))"
      by (simp_all add: plan_subscribe)
    show False
    proof (cases "\<exists>x \<in> set outcomes. action_key (fst x) = su_key s")
      case True
      then obtain x where x: "x \<in> set outcomes" "action_key (fst x) = su_key s" by blast
      have p: "fst x \<in> set (plan_actions c desired now g)" unfolding assms(4) [symmetric] using x(1) by simp
      obtain t where t: "fst x = Subscribe t" "su_key t = su_key s"
        using x(2) p w(1) plan_unsubscribe [OF assms(1)] by (cases "fst x") auto
      have "x = (Subscribe t, snd x)" using t(1) by (cases x) simp
      then show False using settled [OF x(1)] subscribe_settles [OF assms(1-3), of g t "snd x"] w(2) t x(2) by simp
    next
      case False
      then have "Subscribe s \<in> set (plan_actions c desired now g)" using w untouched [of "su_key s"] by (simp add: plan_subscribe)
      then show False using False unfolding assms(4) [symmetric] by force
    qed
  qed
  have unsub: "Unsubscribe s \<notin> set (plan_actions ?c desired now g)" for s
  proof
    assume a: "Unsubscribe s \<in> set (plan_actions ?c desired now g)"
    then obtain q where q: "bm_get (rc_records ?c) (su_key s) = Some q" "ar_subscription q = s"
      "bm_get (desired_by_key desired) (su_key s) = None" "may_unsubscribe (rc_minimum_age_ms c) now q"
      using plan_unsubscribe [OF ok] by auto
    show False
    proof (cases "\<exists>x \<in> set outcomes. action_key (fst x) = su_key s")
      case True
      then obtain x where x: "x \<in> set outcomes" "action_key (fst x) = su_key s" by blast
      have p: "fst x \<in> set (plan_actions c desired now g)" unfolding assms(4) [symmetric] using x(1) by simp
      obtain t where t: "fst x = Unsubscribe t" "su_key t = su_key s"
        using x(2) p q(3) by (cases "fst x") (auto simp: plan_subscribe)
      obtain e where e: "x = (Unsubscribe t, e)" using t(1) by (cases x) simp
      obtain old where old: "bm_get (rc_records c) (su_key t) = Some old" using p t(1) plan_unsubscribe [OF assms(1)] by auto
      have "e \<noteq> None \<Longrightarrow> ar_generation old = g"
        using assms(5) x(1) e old by (auto simp: list_all_iff failure_counts_def is_some_and_def)
      then show False
        using unsubscribe_settles [OF assms(1-3) old, of e g q] settled [OF x(1)] e t(2) q(1,4) by simp
    next
      case False
      then have "Unsubscribe s \<in> set (plan_actions c desired now g)" using q untouched [of "su_key s"] plan_unsubscribe [OF assms(1)] by auto
      then show False using False unfolding assms(4) [symmetric] by force
    qed
  qed
  have "a \<notin> set (plan_actions ?c desired now g)" for a using sub unsub by (cases a) blast+
  then show ?thesis by (metis list.set_intros(1) neq_Nil_conv)
qed

section \<open>The demanded subscriptions\<close>

definition demanded :: "instrument_ref list \<Rightarrow> physical_subscription set" where
  "demanded desired = {s. \<exists>raw r. raw \<in> set desired \<and> ref_normalize raw = Inr r \<and> s \<in> set (physical_of r)}"

lemma physical_set: "set (sp_physical (desired_subscriptions desired)) = demanded desired"
proof -
  let ?f = "\<lambda>raw (logical, physical). case ref_normalize raw of
      Inl _ \<Rightarrow> (logical, physical) | Inr r \<Rightarrow> (bs_put (logical_key r) logical, fold bs_put (physical_of r) physical)"
  have "set (snd (fold ?f desired (l, p))) = demanded desired \<union> set p" for l p
  proof (induction desired arbitrary: l p)
    case Nil
    show ?case by (simp add: demanded_def)
  next
    case (Cons raw ds)
    show ?case
    proof (cases "ref_normalize raw")
      case (Inl e)
      then have "demanded (raw # ds) = demanded ds" by (auto simp: demanded_def)
      then show ?thesis using Cons.IH Inl by simp
    next
      case (Inr r)
      then have "demanded (raw # ds) = demanded ds \<union> set (physical_of r)" by (auto simp: demanded_def)
      then show ?thesis using Cons.IH Inr by (auto simp: set_fold_bs_put)
    qed
  qed
  from this [of "[]" "[]"] show ?thesis by (simp add: desired_subscriptions_def case_prod_beta Let_def)
qed

lemma suffix_unique:
  assumes "xs @ c # ys = xs' @ c # ys'" and "c \<notin> set ys" and "c \<notin> set ys'"
  shows "xs = xs' \<and> ys = ys'"
proof -
  have "rev ys @ c # rev xs = rev ys' @ c # rev xs'" using arg_cong [OF assms(1), of rev] by simp
  then have "takeWhile (\<lambda>z. z \<noteq> c) (rev ys @ c # rev xs) = takeWhile (\<lambda>z. z \<noteq> c) (rev ys' @ c # rev xs')" by simp
  moreover have "takeWhile (\<lambda>z. z \<noteq> c) (rev zs @ c # ws) = rev zs" if "c \<notin> set zs" for zs ws
    using takeWhile_append2 [of "rev zs" "\<lambda>z. z \<noteq> c" "c # ws"] that by fastforce
  ultimately have "rev ys = rev ys'" using assms(2,3) by simp
  then have "ys = ys'" by simp
  then show ?thesis using assms(1) by simp
qed

lemma kline_interval:
  assumes "ref_normalize raw = Inr r" and "ir_channel r = ''KLINE''" and "ir_interval r = Some i"
  shows "CHR '':'' \<notin> set i"
proof -
  have "i \<in> set valid_intervals"
    using assms by (auto simp: ref_normalize_def normal_interval_def Let_def map_sum_def split: prod.splits if_splits sum.splits option.splits)
  then show ?thesis by (auto simp: valid_intervals_def)
qed

lemma demanded_key_inject:
  assumes "s \<in> demanded d" and "t \<in> demanded d" and "su_key s = su_key t"
  shows "s = t"
proof -
  obtain r p where r: "ref_normalize p = Inr r" "s \<in> set (physical_of r)" using assms(1) by (auto simp: demanded_def)
  obtain r' p' where r': "ref_normalize p' = Inr r'" "t \<in> set (physical_of r')" using assms(2) by (auto simp: demanded_def)
  show ?thesis
    using r(2) r'(2) assms(3) kline_interval [OF r(1)] kline_interval [OF r'(1)]
    by (auto simp: physical_of_def Let_def split: if_splits option.splits dest!: suffix_unique)
qed

lemma fold_insert_get:
  assumes "inj_on key (set ss)"
  shows "bm_get (fold (\<lambda>s m. bm_insert (key s) s m) ss m) k =
    (if k \<in> key ` set ss then Some (the_inv_into (set ss) key k) else bm_get m k)"
  using assms
proof (induction ss arbitrary: m)
  case (Cons s ss)
  have i: "inj_on key (set ss)" using Cons.prems by simp
  have e: "the_inv_into (set ss) key k = the_inv_into (set (s # ss)) key k" if "k \<in> key ` set ss"
    using that Cons.prems i by (auto simp: the_inv_into_f_f)
  show ?case
    using Cons.IH [OF i, of "bm_insert (key s) s m"] e Cons.prems by (auto simp: the_inv_into_f_f)
qed simp

lemma wanted_iff: "bm_get (desired_by_key desired) k = Some s \<longleftrightarrow> s \<in> demanded desired \<and> su_key s = k"
proof -
  let ?ss = "sp_physical (desired_subscriptions desired)"
  have i: "inj_on su_key (demanded desired)" by (rule inj_onI) (rule demanded_key_inject)
  have g: "bm_get (desired_by_key desired) k =
    (if k \<in> su_key ` demanded desired then Some (the_inv_into (demanded desired) su_key k) else None)"
    using fold_insert_get [of su_key ?ss "[]" k] i by (simp add: desired_by_key_def physical_set)
  show ?thesis
  proof (cases "k \<in> su_key ` demanded desired")
    case True
    then obtain t where t: "t \<in> demanded desired" "k = su_key t" by blast
    have "bm_get (desired_by_key desired) k = Some t" unfolding g using the_inv_into_f_f [OF i t(1)] t by simp
    then show ?thesis using t demanded_key_inject by auto
  next
    case False
    then have "bm_get (desired_by_key desired) k = None" unfolding g by simp
    then show ?thesis using False by auto
  qed
qed

lemma wanted_none: "bm_get (desired_by_key desired) k = None \<longleftrightarrow> k \<notin> su_key ` demanded desired"
proof
  assume n: "bm_get (desired_by_key desired) k = None"
  show "k \<notin> su_key ` demanded desired"
  proof
    assume "k \<in> su_key ` demanded desired"
    then obtain s where "s \<in> demanded desired" "su_key s = k" by blast
    then have "bm_get (desired_by_key desired) k = Some s" by (simp add: wanted_iff)
    then show False using n by simp
  qed
next
  assume "k \<notin> su_key ` demanded desired"
  then show "bm_get (desired_by_key desired) k = None"
    using wanted_iff [of desired k] by (metis imageI not_Some_eq)
qed

text \<open>C23: The plan asks OpenD for exactly what is missing: it subscribes to what the demand implies and is not
  active in this generation, unless an attempt of this generation waits for its retry; and it gives up
  what nothing demands any more, not before the minimum age, and not within a retry window.\<close>

theorem planned_requests_exact:
  assumes "records_ok c"
  shows "set (plan_actions c desired now g) =
    {Subscribe s |s. s \<in> demanded desired \<and>
       (case bm_get (rc_records c) (su_key s) of
          None \<Rightarrow> True
        | Some r \<Rightarrow> ar_generation r \<noteq> g \<or> \<not> ar_active r \<and> (ar_failures r = 0 \<or> ar_retry_at_ms r \<le> now))} \<union>
    {Unsubscribe s |s r. bm_get (rc_records c) (su_key s) = Some r \<and> ar_subscription r = s \<and> su_key s \<notin> su_key ` demanded desired \<and>
       ar_active r \<and> rc_minimum_age_ms c \<le> sat_sub_i64 now (ar_subscribed_at_ms r) \<and> (ar_failures r = 0 \<or> ar_retry_at_ms r \<le> now)}"
proof (rule set_eqI)
  fix a
  show "a \<in> set (plan_actions c desired now g) \<longleftrightarrow> a \<in>
    {Subscribe s |s. s \<in> demanded desired \<and>
       (case bm_get (rc_records c) (su_key s) of
          None \<Rightarrow> True
        | Some r \<Rightarrow> ar_generation r \<noteq> g \<or> \<not> ar_active r \<and> (ar_failures r = 0 \<or> ar_retry_at_ms r \<le> now))} \<union>
    {Unsubscribe s |s r. bm_get (rc_records c) (su_key s) = Some r \<and> ar_subscription r = s \<and> su_key s \<notin> su_key ` demanded desired \<and>
       ar_active r \<and> rc_minimum_age_ms c \<le> sat_sub_i64 now (ar_subscribed_at_ms r) \<and> (ar_failures r = 0 \<or> ar_retry_at_ms r \<le> now)}"
  proof (cases a)
    case (Subscribe s)
    then show ?thesis
      by (auto simp: plan_subscribe wanted_iff skip_subscribe_def not_less split: option.splits)
  next
    case (Unsubscribe s)
    then show ?thesis
      by (auto simp: plan_unsubscribe [OF assms] wanted_none may_unsubscribe_def)
  qed
qed

section \<open>Instances\<close>

definition sample_ref :: instrument_ref where
  "sample_ref = Instrument_Ref ''KLINE'' ''US'' ''AAPL'' (Some ''1m'')"

definition sample_plan :: "reconcile_action list" where
  "sample_plan =
     [Subscribe (Physical_Subscription ''BASIC:US.AAPL'' Basic ''US.AAPL'' None),
      Subscribe (Physical_Subscription ''KLINE:US.AAPL:1m'' Kline ''US.AAPL'' (Some ''1m''))]"

lemma sample_planned: "plan_actions (reconciler_new 60000) [sample_ref] 1000 1 = sample_plan"
  by code_simp

theorem reconcile_round_settles_witness:
  "plan_actions
     (record_outcome 1000 1 (sample_plan ! 1, Some ''quota'') (record_outcome 1000 1 (sample_plan ! 0, None) (reconciler_new 60000)))
     [sample_ref] 1000 1 = []"
proof -
  let ?out = "[(sample_plan ! 0, None), (sample_plan ! 1, Some ''quota'')]"
  have "map fst ?out = plan_actions (reconciler_new 60000) [sample_ref] 1000 1" unfolding sample_planned by (simp add: sample_plan_def)
  moreover have "list_all (failure_counts 1 (reconciler_new 60000)) ?out" by (simp add: failure_counts_def sample_plan_def)
  ultimately have "plan_actions (fold (record_outcome 1000 1) ?out (reconciler_new 60000)) [sample_ref] 1000 1 = []"
    by (intro reconcile_round_settles) (simp_all add: records_new)
  then show ?thesis by simp
qed

theorem planned_requests_exact_witness:
  "set (plan_actions (reconciler_new 60000) [sample_ref] 1000 1) = {Subscribe s |s. s \<in> demanded [sample_ref]} \<and>
   Physical_Subscription ''BASIC:US.AAPL'' Basic ''US.AAPL'' None \<in> demanded [sample_ref]"
proof -
  have e: "set (plan_actions (reconciler_new 60000) [sample_ref] 1000 1) = {Subscribe s |s. s \<in> demanded [sample_ref]}"
    using planned_requests_exact [OF records_new, of 60000 "[sample_ref]" 1000 1] by (simp add: reconciler_new_def)
  have "Subscribe (Physical_Subscription ''BASIC:US.AAPL'' Basic ''US.AAPL'' None) \<in> set sample_plan" by (simp add: sample_plan_def)
  then show ?thesis using e unfolding sample_planned by auto
qed

end
