(* ===== verification/Opend_Coordinator.thy ===== *)
theory Opend_Coordinator
  imports Opend_Subscriptions
begin

text \<open>
  \<open>crates/jftrade-integration-futu/src\<close>: \<open>session_coordinator.rs\<close>, \<open>session_event_pump.rs\<close>, the
  handshake of \<open>health.rs\<close> and the task of \<open>runtime_task.rs\<close>. The coordinator owns one session and the
  lifecycle of its subscriptions, reconnects when the session ends and replays the demand. A session is
  seen here as its owner sees it: its generation, whether it has closed, the events that wait in its
  channel, and the requests that OpenD has acknowledged on it. What the outside does in an operation
  (the outcome of a connection, the answers to the calls) is an argument of it.
\<close>

section \<open>Connecting\<close>

datatype probe_error =
    Pr_Session session_error
  | Pr_Decode string string
  | Pr_Rejected string int string
  | MissingInitState
  | MissingGlobalState

definition ensure_success :: "string \<Rightarrow> int option \<Rightarrow> string option \<Rightarrow> probe_error + unit" where
  "ensure_success operation ret_type message =
     (let ret = (case ret_type of None \<Rightarrow> - 400 | Some t \<Rightarrow> t)
      in if ret = 0 then Inr ()
         else Inl (Pr_Rejected operation ret (case message of None \<Rightarrow> ''OpenD request failed'' | Some m \<Rightarrow> m)))"

text \<open>The response to \<open>InitConnect\<close>: return type, message, and the connection id of its state.\<close>

type_synonym init_response = "int option \<times> string option \<times> u64 option"

definition initialize_session :: "session_error + (string + init_response) \<Rightarrow> probe_error + u64" where
  "initialize_session response =
     rbind (map_sum Pr_Session id response) (\<lambda>body.
     rbind (map_sum (Pr_Decode ''InitConnect'') id body) (\<lambda>(ret_type, message, state).
     rbind (ensure_success ''InitConnect'' ret_type message) (\<lambda>_.
     ok_or state MissingInitState)))"

record live_session =
  lv_generation :: u64
  lv_conn_id :: u64
  lv_closed :: "close_reason option"
  lv_events :: "session_event list"
  lv_acked :: "reconcile_action list"

text \<open>The outcome of a connection: the error of the socket, if any, and the answer to \<open>InitConnect\<close>.\<close>

type_synonym connection = "session_error option \<times> (session_error + (string + init_response))"

definition connect_with_push :: "connection \<Rightarrow> u64 \<Rightarrow> probe_error + live_session" where
  "connect_with_push connection generation =
     (case fst connection of
        Some e \<Rightarrow> Inl (Pr_Session e)
      | None \<Rightarrow>
          rbind (initialize_session (snd connection)) (\<lambda>conn_id.
          Inr \<lparr>lv_generation = generation, lv_conn_id = conn_id, lv_closed = None, lv_events = [], lv_acked = []\<rparr>))"

section \<open>The coordinator\<close>

record ('t, 'p) opend_lib =
  ol_time :: "'t time_lib"
  ol_millis :: "'t \<Rightarrow> string + i64" \<comment> \<open>\<open>WireTimestamp::unix_millis\<close>\<close>
  ol_decode :: "frame \<Rightarrow> string + 'p option" \<comment> \<open>\<open>decode_quote_push\<close>\<close>
  ol_text :: "executor_error \<Rightarrow> string" \<comment> \<open>the display of the error\<close>

datatype coordinator_error =
    Coordinator_Closed
  | Handshake probe_error
  | Coordinator_Session session_error
  | Subscription executor_error
  | TopologyChangeUnsupported
  | Coordinator_Time string
  | Coordinator_Decode string

text \<open>An operation returns, fails, or panics in an \<open>assert!\<close>.\<close>

datatype 'a attempt = Succeeds 'a | Fails coordinator_error | Panics

datatype 'p poll_result = Idle | Pushed 'p | Dropped | Reconnected u64 close_reason

record pending_reconnect =
  pn_generation :: u64
  pn_reason :: close_reason
  pn_actions :: "reconcile_action list"

record 't opend_coordinator =
  sc_lifecycle :: "'t lifecycle"
  sc_desired :: "instrument_ref list"
  sc_session :: "live_session option"
  sc_pending :: "pending_reconnect option"
  sc_closed :: bool

abbreviation recorder_of :: "'t opend_coordinator \<Rightarrow> 't recorder" where
  "recorder_of s \<equiv> lc_recorder (sc_lifecycle s)"

text \<open>A write that fails ends the session, which its reader is told.\<close>

definition after_error :: "executor_error \<Rightarrow> live_session \<Rightarrow> live_session" where
  "after_error e v =
     (case e of
        Ex_Session (Session_Io io) \<Rightarrow>
          (case lv_closed v of
             Some _ \<Rightarrow> v
           | None \<Rightarrow> v\<lparr>lv_closed := Some (write_reason io), lv_events := lv_events v @ [Session_Closed (lv_generation v) (write_reason io)]\<rparr>)
      | _ \<Rightarrow> v)"

fun run_actions ::
  "(executor_error \<Rightarrow> string) \<Rightarrow> sub_call \<Rightarrow> i64 \<Rightarrow> u64 \<Rightarrow> reconcile_action list \<Rightarrow> live_session \<Rightarrow> 't lifecycle \<Rightarrow>
     executor_error option \<times> live_session \<times> 't lifecycle" where
  "run_actions error_text call now generation [] v l = (None, v, l)"
| "run_actions error_text call now generation (a # as) v l =
     (case execute_action error_text (lv_generation v) call a now generation l of
        (Inl e, l) \<Rightarrow> (Some e, after_error e v, l)
      | (Inr executed, l) \<Rightarrow>
          run_actions error_text call now generation as (if executed then v\<lparr>lv_acked := lv_acked v @ [a]\<rparr> else v) l)"

definition execute_actions ::
  "('t, 'p) opend_lib \<Rightarrow> sub_call \<Rightarrow> reconcile_action list \<Rightarrow> i64 \<Rightarrow> 't opend_coordinator \<Rightarrow> unit attempt \<times> 't opend_coordinator" where
  "execute_actions P call actions now s =
     (case sc_session s of
        None \<Rightarrow> (Fails Coordinator_Closed, s)
      | Some v \<Rightarrow>
          let (error, v, l) = run_actions (ol_text P) call now (lc_generation (sc_lifecycle s)) actions v (sc_lifecycle s)
          in (case error of None \<Rightarrow> Succeeds () | Some e \<Rightarrow> Fails (Subscription e),
              s\<lparr>sc_session := Some v, sc_lifecycle := l\<rparr>))"

definition stream_connected :: "('t, 'p) opend_lib \<Rightarrow> u64 \<Rightarrow> 't opend_coordinator \<Rightarrow> bool \<times> 't opend_coordinator" where
  "stream_connected P generation s =
     (let (ok, l) = lifecycle_update (ol_time P) generation Stream_Connected (sc_lifecycle s) in (ok, s\<lparr>sc_lifecycle := l\<rparr>))"

definition coordinator_close :: "'t opend_coordinator \<Rightarrow> bool \<times> 't opend_coordinator" where
  "coordinator_close s =
     (if sc_closed s then (False, s)
      else (True, s\<lparr>sc_closed := True, sc_pending := None, sc_lifecycle := snd (lifecycle_close (sc_lifecycle s)), sc_session := None\<rparr>))"

text \<open>\<open>connect\<close>; the second result is the recorder, which outlives a failure.\<close>

definition coordinator_connect ::
  "('t, 'p) opend_lib \<Rightarrow> 't recorder \<Rightarrow> instrument_ref list \<Rightarrow> i64 \<Rightarrow> connection \<Rightarrow> sub_call \<Rightarrow> 't opend_coordinator attempt \<times> 't recorder" where
  "coordinator_connect P recorder desired now connection call =
     (let (actions, l) = reconcile_demand desired now (lifecycle_new recorder 60000);
          generation = lc_generation l
      in case connect_with_push connection generation of
           Inl e \<Rightarrow> (Fails (Handshake e), lc_recorder (snd (lifecycle_close l)))
         | Inr v \<Rightarrow>
             (case execute_actions P call actions now
                     \<lparr>sc_lifecycle = l, sc_desired = desired, sc_session = Some v, sc_pending = None, sc_closed = False\<rparr> of
                (Succeeds _, s) \<Rightarrow>
                  if actions = [] then (Succeeds s, recorder_of s)
                  else let (ok, s) = stream_connected P generation s in (if ok then Succeeds s else Panics, recorder_of s)
              | (Fails e, s) \<Rightarrow> (Fails e, recorder_of (snd (coordinator_close s)))
              | (Panics, s) \<Rightarrow> (Panics, recorder_of s)))"

definition reconcile_topology ::
  "('t, 'p) opend_lib \<Rightarrow> instrument_ref list \<Rightarrow> i64 \<Rightarrow> sub_call \<Rightarrow> 't opend_coordinator \<Rightarrow> unit attempt \<times> 't opend_coordinator" where
  "reconcile_topology P desired now call s =
     (if sc_closed s then (Fails Coordinator_Closed, s)
      else
        let l = sc_lifecycle s;
            l = l\<lparr>lc_reconciler := set_last_reconciled_at_ms now (lc_reconciler l)\<rparr>;
            s = s\<lparr>sc_desired := desired\<rparr>
        in case sc_pending s of
             Some p \<Rightarrow>
               let (actions, l) = reconfigure_for_reconnect desired l
               in (Succeeds (), s\<lparr>sc_lifecycle := l, sc_pending := Some (p\<lparr>pn_generation := lc_generation l, pn_actions := actions\<rparr>)\<rparr>)
           | None \<Rightarrow>
               let (actions, l) = reconcile_demand desired now l
               in execute_actions P call actions now (s\<lparr>sc_lifecycle := l\<rparr>))"

definition coordinator_reconcile ::
  "('t, 'p) opend_lib \<Rightarrow> instrument_ref list \<Rightarrow> i64 \<Rightarrow> sub_call \<Rightarrow> 't opend_coordinator \<Rightarrow> unit attempt \<times> 't opend_coordinator" where
  "coordinator_reconcile P desired now call s =
     (if sc_closed s then (Fails Coordinator_Closed, s)
      else if sp_physical (desired_subscriptions (sc_desired s)) \<noteq> sp_physical (desired_subscriptions desired)
      then (Fails TopologyChangeUnsupported, s)
      else reconcile_topology P desired now call s)"

definition begin_reconnect :: "close_reason \<Rightarrow> 't opend_coordinator \<Rightarrow> unit attempt \<times> 't opend_coordinator" where
  "begin_reconnect reason s =
     (if sc_closed s then (Fails Coordinator_Closed, s)
      else if sc_pending s \<noteq> None then (Succeeds (), s)
      else let (actions, l) = reconfigure_for_reconnect (sc_desired s) (sc_lifecycle s)
           in (Succeeds (),
               s\<lparr>sc_lifecycle := l, sc_session := None,
                 sc_pending := Some \<lparr>pn_generation = lc_generation l, pn_reason = reason, pn_actions = actions\<rparr>\<rparr>))"

definition attempt_reconnect ::
  "('t, 'p) opend_lib \<Rightarrow> i64 \<Rightarrow> connection \<Rightarrow> sub_call \<Rightarrow> 't opend_coordinator \<Rightarrow> (u64 \<times> close_reason) attempt \<times> 't opend_coordinator" where
  "attempt_reconnect P now connection call s =
     (case sc_pending s of
        None \<Rightarrow> (Fails Coordinator_Closed, s)
      | Some p \<Rightarrow>
          (case connect_with_push connection (pn_generation p) of
             Inl e \<Rightarrow> (Fails (Handshake e), s)
           | Inr v \<Rightarrow>
               (case execute_actions P call (pn_actions p) now (s\<lparr>sc_session := Some v\<rparr>) of
                  (Succeeds _, s) \<Rightarrow>
                    let (ok, s) = (if pn_actions p = [] then (True, s) else stream_connected P (pn_generation p) s)
                    in if ok then (Succeeds (pn_generation p, pn_reason p), s\<lparr>sc_pending := None\<rparr>) else (Panics, s)
                | (Fails e, s) \<Rightarrow> (Fails e, s\<lparr>sc_session := None\<rparr>)
                | (Panics, s) \<Rightarrow> (Panics, s))))"

text \<open>\<open>begin_reconnect\<close> and \<open>attempt_reconnect\<close> one after the other, as \<open>poll_once\<close> calls them.\<close>

definition reconnected :: "(u64 \<times> close_reason) attempt \<times> 't opend_coordinator \<Rightarrow> 'p poll_result attempt \<times> 't opend_coordinator" where
  "reconnected r =
     (case r of
        (Succeeds (generation, reason), s) \<Rightarrow> (Succeeds (Reconnected generation reason), s)
      | (Fails e, s) \<Rightarrow> (Fails e, s)
      | (Panics, s) \<Rightarrow> (Panics, s))"

definition try_reconnect ::
  "('t, 'p) opend_lib \<Rightarrow> 't \<Rightarrow> connection \<Rightarrow> sub_call \<Rightarrow> 't opend_coordinator \<Rightarrow> 'p poll_result attempt \<times> 't opend_coordinator" where
  "try_reconnect P now connection call s =
     (case ol_millis P now of
        Inl e \<Rightarrow> (Fails (Coordinator_Time e), s)
      | Inr ms \<Rightarrow> reconnected (attempt_reconnect P ms connection call s))"

definition leave_session ::
  "('t, 'p) opend_lib \<Rightarrow> 't \<Rightarrow> connection \<Rightarrow> sub_call \<Rightarrow> close_reason \<Rightarrow> 't opend_coordinator \<Rightarrow> 'p poll_result attempt \<times> 't opend_coordinator" where
  "leave_session P now connection call reason s =
     (case begin_reconnect reason s of
        (Succeeds _, s) \<Rightarrow> try_reconnect P now connection call s
      | (Fails e, s) \<Rightarrow> (Fails e, s)
      | (Panics, s) \<Rightarrow> (Panics, s))"

definition ingest_event :: "('t, 'p) opend_lib \<Rightarrow> session_event \<Rightarrow> 't \<Rightarrow> 't opend_coordinator \<Rightarrow> 'p option \<times> 't opend_coordinator" where
  "ingest_event P event now s =
     (let (push, l) = ingest_session_event (ol_time P) (ol_decode P) event now (sc_lifecycle s) in (push, s\<lparr>sc_lifecycle := l\<rparr>))"

text \<open>\<open>OpenDSessionEventPump::dispatch_event\<close>; \<open>Some reason\<close> asks for a reconnection.\<close>

definition dispatch_event :: "('t, 'p) opend_lib \<Rightarrow> session_event \<Rightarrow> 't \<Rightarrow> 't opend_coordinator \<Rightarrow> ('p option \<times> close_reason option) \<times> 't opend_coordinator" where
  "dispatch_event P event now s =
     (let (push, s') = ingest_event P event now s
      in ((push,
           case event of
             UnsolicitedFrame _ _ \<Rightarrow> None
           | Session_Closed generation reason \<Rightarrow>
               if reason \<noteq> Local \<and> accepts_generation generation (sc_lifecycle s) then Some reason else None), s'))"

definition poll_once ::
  "('t, 'p) opend_lib \<Rightarrow> 't \<Rightarrow> connection \<Rightarrow> sub_call \<Rightarrow> 't opend_coordinator \<Rightarrow> 'p poll_result attempt \<times> 't opend_coordinator" where
  "poll_once P now connection call s =
     (if sc_closed s then (Fails Coordinator_Closed, s)
      else if sc_pending s \<noteq> None then try_reconnect P now connection call s
      else case sc_session s of
             None \<Rightarrow> (Fails Coordinator_Closed, s)
           | Some v \<Rightarrow>
               (case lv_closed v of
                  Some reason \<Rightarrow>
                    let s = snd (ingest_event P (Session_Closed (lv_generation v) reason) now s)
                    in if reason = Local then (Succeeds Dropped, s) else leave_session P now connection call reason s
                | None \<Rightarrow>
                    (case lv_events v of
                       [] \<Rightarrow> (Succeeds Idle, s)
                     | event # rest \<Rightarrow>
                         let ((push, reconnect), s) = dispatch_event P event now (s\<lparr>sc_session := Some (v\<lparr>lv_events := rest\<rparr>)\<rparr>)
                         in case reconnect of
                              Some reason \<Rightarrow> leave_session P now connection call reason s
                            | None \<Rightarrow> (Succeeds (case push of Some p \<Rightarrow> Pushed p | None \<Rightarrow> Dropped), s))))"

section \<open>Quota and snapshots\<close>

text \<open>The response to \<open>Qot_GetSubInfo\<close>: return type, message, and the three quotas of its state.\<close>

type_synonym quota_response = "int option \<times> string option \<times> (int option \<times> int option \<times> int option) option"

definition to_quota :: "int option \<Rightarrow> u64 option" where
  "to_quota v = (case v of Some n \<Rightarrow> if 0 \<le> n then Some (of_int n) else None | None \<Rightarrow> None)"

definition lifecycle_quota ::
  "u64 option \<Rightarrow> u64 option \<Rightarrow> u64 option \<Rightarrow> i64 \<Rightarrow> string option \<Rightarrow> 't opend_coordinator \<Rightarrow> 't opend_coordinator" where
  "lifecycle_quota used remain own checked_at error s =
     s\<lparr>sc_lifecycle := (sc_lifecycle s)\<lparr>lc_reconciler := set_quota used remain own checked_at error (lc_reconciler (sc_lifecycle s))\<rparr>\<rparr>"

definition refresh_quota ::
  "i64 \<Rightarrow> session_error + (string + quota_response) \<Rightarrow> 't opend_coordinator \<Rightarrow> unit attempt \<times> 't opend_coordinator" where
  "refresh_quota checked_at response s =
     (if sc_closed s then (Fails Coordinator_Closed, s)
      else if sc_session s = None then (Fails Coordinator_Closed, s)
      else case response of
             Inl e \<Rightarrow> (Fails (Coordinator_Session e), s\<lparr>sc_session := map_option (after_error (Ex_Session e)) (sc_session s)\<rparr>)
           | Inr (Inl e) \<Rightarrow> (Fails (Coordinator_Decode e), s)
           | Inr (Inr (ret_type, message, state)) \<Rightarrow>
               (Succeeds (),
                if (case ret_type of None \<Rightarrow> - 400 | Some t \<Rightarrow> t) \<noteq> 0
                then lifecycle_quota None None None checked_at
                       (Some (case message of None \<Rightarrow> ''OpenD Qot_GetSubInfo request failed'' | Some m \<Rightarrow> m)) s
                else case state of
                       None \<Rightarrow> lifecycle_quota None None None checked_at (Some ''OpenD Qot_GetSubInfo response missing s2c'') s
                     | Some (used, remain, own) \<Rightarrow>
                         lifecycle_quota (to_quota used) (to_quota remain) (to_quota own) checked_at None s))"

definition record_quota_error :: "i64 \<Rightarrow> string \<Rightarrow> 't opend_coordinator \<Rightarrow> 't opend_coordinator" where
  "record_quota_error checked_at error s = lifecycle_quota None None None checked_at (Some error) s"

definition basic_snapshot_demand :: "string list \<Rightarrow> instrument_ref list" where
  "basic_snapshot_demand instruments =
     List.map_filter (\<lambda>i. map_option (\<lambda>(market, symbol). Instrument_Ref ''SNAPSHOT'' market symbol None) (split_once (CHR ''.'') i)) instruments"

definition poll_snapshot ::
  "('t::linorder, 'p) opend_lib \<Rightarrow> 't \<Rightarrow> ('d, 't) poll_query \<Rightarrow> 'd tick_cache \<Rightarrow> 't opend_coordinator \<Rightarrow>
     poll_outcome attempt \<times> 'd tick_cache \<times> 't opend_coordinator" where
  "poll_snapshot P now query cache s =
     (if sc_closed s then (Fails Coordinator_Closed, cache, s)
      else if sc_session s = None then (Fails Coordinator_Closed, cache, s)
      else case ol_millis P now of
             Inl e \<Rightarrow> (Fails (Coordinator_Time e), cache, s)
           | Inr _ \<Rightarrow>
               let demand = basic_snapshot_demand (active_basic_instruments (sc_lifecycle s));
                   (outcome, recorder, cache) =
                     poll_execute (ol_time P) policy_default (recorder_of s) cache demand (lc_generation (sc_lifecycle s)) now query
               in (Succeeds outcome, cache, s\<lparr>sc_lifecycle := (sc_lifecycle s)\<lparr>lc_recorder := recorder\<rparr>\<rparr>))"

definition session_snapshot :: "(i64 \<Rightarrow> string option) \<Rightarrow> 't opend_coordinator \<Rightarrow> subscription_snapshot option" where
  "session_snapshot F s =
     (if sc_closed s then None
      else Some (lifecycle_snapshot F (map_option lv_generation (sc_session s)) (sc_lifecycle s)))"

section \<open>The task\<close>

text \<open>Durations are nanoseconds; a duration ends below \<open>2\<^sup>6\<^sup>4\<close> seconds.\<close>

definition checked_mul_duration :: "nat \<Rightarrow> nat \<Rightarrow> nat option" where
  "checked_mul_duration d k = (if d * k < 2 ^ 64 * 10 ^ 9 then Some (d * k) else None)"

definition reconnect_delay :: "nat \<Rightarrow> nat \<Rightarrow> nat \<Rightarrow> nat" where
  "reconnect_delay first longest failures =
     min (case checked_mul_duration first (2 ^ min (failures - 1) 31) of Some d \<Rightarrow> d | None \<Rightarrow> longest) longest"

definition positive_duration :: "nat \<Rightarrow> nat \<Rightarrow> nat" where
  "positive_duration v fallback = (if v = 0 then fallback else v)"

record runtime_config =
  rt_reconnect_initial_delay :: nat
  rt_reconnect_max_delay :: nat
  rt_quota_refresh_enabled :: bool

record runtime_status =
  rt_iterations :: u64
  rt_snapshot_polls :: u64
  rt_reconnects :: u64
  rt_last_error :: "string option"

record ('d, 't) runtime_task =
  ta_coordinator :: "'t opend_coordinator"
  ta_cache :: "'d tick_cache"
  ta_status :: runtime_status
  ta_reconnect_failures :: nat
  ta_not_before :: "nat option"
  ta_quota_pending :: bool

text \<open>What an iteration meets: the clock, the demand, and the outcomes of its calls. \<open>ri_text\<close> is the display of the errors.\<close>

record ('d, 't) runtime_input =
  ri_instant :: nat
  ri_end_instant :: nat
  ri_now :: 't
  ri_desired :: "instrument_ref list"
  ri_connection :: connection
  ri_topology_call :: sub_call
  ri_replay_call :: sub_call
  ri_quota :: "session_error + (string + quota_response)"
  ri_query :: "('d, 't) poll_query"
  ri_text :: "coordinator_error \<Rightarrow> string"

text \<open>One iteration of \<open>run_task\<close>; \<open>None\<close> when the thread dies of a panic.\<close>

definition count_u64 :: "u64 \<Rightarrow> u64" where
  "count_u64 n = sat_inc n"

definition end_iteration :: "runtime_config \<Rightarrow> ('d, 't) runtime_input \<Rightarrow> string option \<Rightarrow> ('d, 't) runtime_task \<Rightarrow> ('d, 't) runtime_task" where
  "end_iteration c i error t =
     (let st = ta_status t;
          t = t\<lparr>ta_status := st\<lparr>rt_iterations := count_u64 (rt_iterations st), rt_last_error := error\<rparr>\<rparr>;
          first = positive_duration (rt_reconnect_initial_delay c) 250000000;
          longest = max (positive_duration (rt_reconnect_max_delay c) 5000000000) first
      in case error of
           None \<Rightarrow> t\<lparr>ta_reconnect_failures := 0\<rparr>
         | Some _ \<Rightarrow>
             let failures = min (2 ^ 32 - 1) (ta_reconnect_failures t + 1)
             in t\<lparr>ta_reconnect_failures := failures, ta_not_before := Some (ri_end_instant i + reconnect_delay first longest failures)\<rparr>)"

definition task_topology :: "('t, 'p) opend_lib \<Rightarrow> runtime_config \<Rightarrow> ('d, 't) runtime_input \<Rightarrow> ('d, 't) runtime_task \<Rightarrow>
    (string option \<times> ('d, 't) runtime_task) option" where
  "task_topology P c i t =
     (if sc_desired (ta_coordinator t) = ri_desired i then Some (None, t)
      else case reconcile_topology P (ri_desired i) (case ol_millis P (ri_now i) of Inr ms \<Rightarrow> ms | Inl _ \<Rightarrow> 0) (ri_topology_call i) (ta_coordinator t) of
             (Succeeds _, s) \<Rightarrow> Some (None, t\<lparr>ta_coordinator := s, ta_quota_pending := rt_quota_refresh_enabled c\<rparr>)
           | (Fails e, s) \<Rightarrow> Some (Some (ri_text i e), t\<lparr>ta_coordinator := s\<rparr>)
           | (Panics, s) \<Rightarrow> None)"

definition task_poll :: "('t, 'p) opend_lib \<Rightarrow> runtime_config \<Rightarrow> ('d, 't) runtime_input \<Rightarrow> ('d, 't) runtime_task \<Rightarrow>
    (string option \<times> ('d, 't) runtime_task) option" where
  "task_poll P c i t =
     (case poll_once P (ri_now i) (ri_connection i) (ri_replay_call i) (ta_coordinator t) of
        (Succeeds (Reconnected _ _), s) \<Rightarrow>
          let st = ta_status t
          in Some (None, t\<lparr>ta_coordinator := s, ta_status := st\<lparr>rt_reconnects := count_u64 (rt_reconnects st)\<rparr>,
                           ta_reconnect_failures := 0, ta_quota_pending := rt_quota_refresh_enabled c\<rparr>)
      | (Succeeds _, s) \<Rightarrow> Some (None, t\<lparr>ta_coordinator := s\<rparr>)
      | (Fails e, s) \<Rightarrow> Some (Some (ri_text i e), t\<lparr>ta_coordinator := s\<rparr>)
      | (Panics, s) \<Rightarrow> None)"

definition task_quota :: "('t, 'p) opend_lib \<Rightarrow> ('d, 't) runtime_input \<Rightarrow> ('d, 't) runtime_task \<Rightarrow>
    (string option \<times> ('d, 't) runtime_task) option" where
  "task_quota P i t =
     (if \<not> ta_quota_pending t then Some (None, t)
      else
        let checked_at = (case ol_millis P (ri_now i) of Inr ms \<Rightarrow> ms | Inl _ \<Rightarrow> 0)
        in case refresh_quota checked_at (ri_quota i) (ta_coordinator t) of
             (Succeeds _, s) \<Rightarrow> Some (None, t\<lparr>ta_coordinator := s, ta_quota_pending := False\<rparr>)
           | (Fails e, s) \<Rightarrow>
               Some (Some (ri_text i e), t\<lparr>ta_coordinator := record_quota_error checked_at (ri_text i e) s\<rparr>)
           | (Panics, s) \<Rightarrow> None)"

definition task_snapshot :: "('t::linorder, 'p) opend_lib \<Rightarrow> ('d, 't) runtime_input \<Rightarrow> ('d, 't) runtime_task \<Rightarrow>
    (string option \<times> ('d, 't) runtime_task) option" where
  "task_snapshot P i t =
     (case poll_snapshot P (ri_now i) (ri_query i) (ta_cache t) (ta_coordinator t) of
        (Fails e, cache, s) \<Rightarrow> Some (Some (ri_text i e), t\<lparr>ta_coordinator := s, ta_cache := cache\<rparr>)
      | (Panics, _, _) \<Rightarrow> None
      | (Succeeds _, cache, s) \<Rightarrow>
          let st = ta_status t
          in Some (None, t\<lparr>ta_coordinator := s, ta_cache := cache, ta_status := st\<lparr>rt_snapshot_polls := count_u64 (rt_snapshot_polls st)\<rparr>\<rparr>))"

text \<open>The phases run one after the other, until one fails.\<close>

fun task_phases :: "(('d, 't) runtime_task \<Rightarrow> (string option \<times> ('d, 't) runtime_task) option) list \<Rightarrow> ('d, 't) runtime_task \<Rightarrow>
    (string option \<times> ('d, 't) runtime_task) option" where
  "task_phases [] t = Some (None, t)"
| "task_phases (phase # phases) t =
     (case phase t of
        Some (None, t) \<Rightarrow> task_phases phases t
      | r \<Rightarrow> r)"

definition run_iteration :: "('t::linorder, 'p) opend_lib \<Rightarrow> runtime_config \<Rightarrow> ('d, 't) runtime_input \<Rightarrow> ('d, 't) runtime_task \<Rightarrow>
    ('d, 't) runtime_task option" where
  "run_iteration P c i t =
     (if is_some_and (ta_not_before t) (\<lambda>n. ri_instant i < n) then Some t
      else map_option (\<lambda>(error, t). end_iteration c i error t)
             (task_phases [task_topology P c i, task_poll P c i, task_quota P i, task_snapshot P i] (t\<lparr>ta_not_before := None\<rparr>)))"

definition runtime_health :: "'t recorder \<Rightarrow> health_status option" where
  "runtime_health r =
     (let st = rs_runtime r;
          error = (case co_stream_last_error st of
                     Some e \<Rightarrow> Some e
                   | None \<Rightarrow> (case co_quote_last_error st of
                               Some e \<Rightarrow> Some e
                             | None \<Rightarrow> if co_closed st then Some ''OpenD session closed'' else None))
      in if co_active_count st = 0 \<and> \<not> co_closed st then None
         else Some \<lparr>hs_connected = co_connected st \<and> \<not> co_closed st, hs_stream_mode = ''streaming'', hs_active_count = co_active_count st,
                hs_readiness = (if co_closed st \<or> error \<noteq> None then Failed else if co_connected st then Ready else Warming),
                hs_last_error = error\<rparr>)"

definition runtime_shutdown :: "bool \<Rightarrow> 't opend_coordinator \<Rightarrow> bool \<times> 't opend_coordinator" where
  "runtime_shutdown running s = (if running then (True, snd (coordinator_close s)) else (False, s))"

section \<open>The machine\<close>

text \<open>
  What happens to a coordinator: the operations of its owner, what its session does, and what others do
  to the recorder they share with it.
\<close>

datatype session_news = Frame_Arrives frame | Session_Ends close_reason | Told_Closed close_reason

definition hear :: "session_news \<Rightarrow> live_session \<Rightarrow> live_session" where
  "hear n v =
     (case n of
        Frame_Arrives f \<Rightarrow> v\<lparr>lv_events := lv_events v @ [UnsolicitedFrame (lv_generation v) f]\<rparr>
      | Session_Ends r \<Rightarrow> (case lv_closed v of None \<Rightarrow> v\<lparr>lv_closed := Some r\<rparr> | Some _ \<Rightarrow> v)
      | Told_Closed r \<Rightarrow> v\<lparr>lv_events := lv_events v @ [Session_Closed (lv_generation v) r]\<rparr>)"

datatype 't coordinator_op =
    Op_Topology "instrument_ref list" i64 sub_call
  | Op_Reconcile "instrument_ref list" i64 sub_call
  | Op_Poll 't connection sub_call
  | Op_Quota i64 "session_error + (string + quota_response)"
  | Op_News session_news
  | Op_Recorder "'t recorder_op"
  | Op_Close

fun coordinator_step :: "('t, 'p) opend_lib \<Rightarrow> 't opend_coordinator \<Rightarrow> 't coordinator_op \<Rightarrow> 't opend_coordinator" where
  "coordinator_step P s (Op_Topology desired now call) = snd (reconcile_topology P desired now call s)"
| "coordinator_step P s (Op_Reconcile desired now call) = snd (coordinator_reconcile P desired now call s)"
| "coordinator_step P s (Op_Poll now connection call) = snd (poll_once P now connection call s)"
| "coordinator_step P s (Op_Quota checked_at response) = snd (refresh_quota checked_at response s)"
| "coordinator_step P s (Op_News n) = s\<lparr>sc_session := map_option (hear n) (sc_session s)\<rparr>"
| "coordinator_step P s (Op_Recorder a) =
     s\<lparr>sc_lifecycle := (sc_lifecycle s)\<lparr>lc_recorder := recorder_step (ol_time P) (recorder_of s) a\<rparr>\<rparr>"
| "coordinator_step P s Op_Close = snd (coordinator_close s)"

text \<open>The subscriptions that OpenD keeps for a connection, from the requests it has acknowledged on it.\<close>

fun acknowledge :: "reconcile_action \<Rightarrow> string set \<Rightarrow> string set" where
  "acknowledge (Subscribe s) keys = insert (su_key s) keys"
| "acknowledge (Unsubscribe s) keys = keys - {su_key s}"

definition opend_table :: "live_session \<Rightarrow> string set" where
  "opend_table v = fold acknowledge (lv_acked v) {}"

lemma opend_table_new [simp]: "lv_acked v = [] \<Longrightarrow> opend_table v = {}"
  by (simp add: opend_table_def)

lemma opend_table_ack [simp]: "opend_table (v\<lparr>lv_acked := lv_acked v @ [a]\<rparr>) = acknowledge a (opend_table v)"
  by (simp add: opend_table_def)

lemma after_error_frame [simp]:
  "opend_table (after_error e v) = opend_table v" "lv_generation (after_error e v) = lv_generation v"
  by (auto simp: after_error_def opend_table_def split: executor_error.splits session_error.splits option.splits)

lemma hear_frame [simp]: "opend_table (hear n v) = opend_table v" "lv_generation (hear n v) = lv_generation v"
  by (auto simp: hear_def opend_table_def split: session_news.splits option.splits)

definition active_keys :: "'t lifecycle \<Rightarrow> string set" where
  "active_keys l = {k. \<exists>r. bm_get (rc_records (lc_reconciler l)) k = Some r \<and> ar_active r}"

definition record_keys :: "'t lifecycle \<Rightarrow> string set" where
  "record_keys l = {k. bm_get (rc_records (lc_reconciler l)) k \<noteq> None}"

text \<open>What one action does: the records stay well-formed, and what becomes active has been acknowledged.\<close>

lemma execute_action_ok:
  "execute_action tx sg call a now g l = (res, l') \<Longrightarrow> records_ok (lc_reconciler l) \<Longrightarrow> records_ok (lc_reconciler l')"
  by (auto simp: execute_action_def intro!: invar_intros split: if_splits sum.splits reconcile_action.splits)

lemma execute_action_cases:
  assumes "execute_action tx sg call a now g l = (res, l')" and "records_ok (lc_reconciler l)"
  shows "lc_recorder l' = lc_recorder l \<and> lc_desired l' = lc_desired l \<and> lc_generation l' = lc_generation l \<and>
    lc_reconnect_generation l' = lc_reconnect_generation l \<and> lc_closed l' = lc_closed l \<and>
    rc_minimum_age_ms (lc_reconciler l') = rc_minimum_age_ms (lc_reconciler l) \<and>
    (case res of
       Inl _ \<Rightarrow> active_keys l' \<subseteq> active_keys l
     | Inr executed \<Rightarrow>
         (if executed
          then (case a of
                  Subscribe s \<Rightarrow> active_keys l' = insert (su_key s) (active_keys l) \<and>
                    (\<exists>r. bm_get (rc_records (lc_reconciler l')) (su_key s) = Some r \<and> ar_active r \<and> ar_generation r = g)
                | Unsubscribe s \<Rightarrow> active_keys l' = active_keys l - {su_key s})
          else l' = l)) \<and>
    record_keys l' \<subseteq> insert (action_key a) (record_keys l)"
proof -
  note get = bm_get_remove [OF records_bm_ok [OF assms(2)]]
  show ?thesis
    using assms
    by (cases a)
      (auto simp: execute_action_def active_keys_def record_keys_def reconciler_success_def reconciler_failure_def record_unsubscribe_failure_def
        failed_once_def Let_def get split: if_splits sum.splits option.splits prod.splits)
qed

lemma execute_action_other:
  assumes "execute_action tx sg call a now g l = (res, l')" and "records_ok (lc_reconciler l)" and "k \<noteq> action_key a"
  shows "bm_get (rc_records (lc_reconciler l')) k = bm_get (rc_records (lc_reconciler l)) k"
  using assms
  by (cases a)
    (auto simp: execute_action_def reconciler_success_def reconciler_failure_def record_unsubscribe_failure_def Let_def
      bm_get_remove [OF records_bm_ok [OF assms(2)]] split: if_splits sum.splits option.splits prod.splits)

definition same_frame :: "'t lifecycle \<Rightarrow> 't lifecycle \<Rightarrow> bool" where
  "same_frame l l' \<longleftrightarrow> lc_recorder l' = lc_recorder l \<and> lc_desired l' = lc_desired l \<and> lc_generation l' = lc_generation l \<and>
     lc_reconnect_generation l' = lc_reconnect_generation l \<and> lc_closed l' = lc_closed l"

lemma same_frame_trans: "same_frame l l' \<Longrightarrow> same_frame l' l'' \<Longrightarrow> same_frame l l''"
  by (simp add: same_frame_def)

lemma run_actions_ok:
  assumes "run_actions tx call now g as v l = (e, v', l')" and "records_ok (lc_reconciler l)"
  shows "records_ok (lc_reconciler l') \<and> same_frame l l' \<and> lv_generation v' = lv_generation v \<and>
    (active_keys l \<subseteq> opend_table v \<longrightarrow> active_keys l' \<subseteq> opend_table v') \<and>
    record_keys l' \<subseteq> action_key ` set as \<union> record_keys l"
  using assms
proof (induction as arbitrary: v l)
  case Nil
  then show ?case by (simp add: same_frame_def)
next
  case (Cons a as)
  obtain res m where x: "execute_action tx (lv_generation v) call a now g l = (res, m)" by (cases "execute_action tx (lv_generation v) call a now g l")
  note m = execute_action_cases [OF x Cons.prems(2)] and ok = execute_action_ok [OF x Cons.prems(2)]
  have f: "same_frame l m" using m by (simp add: same_frame_def)
  show ?case
  proof (cases res)
    case (Inl error)
    then have "l' = m" "v' = after_error error v" using Cons.prems(1) x by simp_all
    then show ?thesis using m ok f Inl by auto
  next
    case (Inr executed)
    let ?v = "if executed then v\<lparr>lv_acked := lv_acked v @ [a]\<rparr> else v"
    have r: "run_actions tx call now g as ?v m = (e, v', l')" using Cons.prems(1) x Inr by simp
    have "active_keys l \<subseteq> opend_table v \<Longrightarrow> active_keys m \<subseteq> opend_table ?v"
      using m Inr by (cases a) (auto split: if_splits)
    moreover note ih = Cons.IH [OF r ok]
    moreover have "same_frame l l'" using same_frame_trans [OF f] ih by blast
    moreover have "record_keys l' \<subseteq> action_key ` set (a # as) \<union> record_keys l" using ih m by auto
    moreover have "lv_generation v' = lv_generation v" using ih by simp
    ultimately show ?thesis by blast
  qed
qed

definition current :: "'t lifecycle \<Rightarrow> u64 \<Rightarrow> string \<Rightarrow> bool" where
  "current l g k \<longleftrightarrow> is_some_and (bm_get (rc_records (lc_reconciler l)) k) (\<lambda>r. ar_active r \<and> ar_generation r = g)"

lemma replay_runs:
  assumes "run_actions tx call now g (map Subscribe ss) v l = (None, v', l')" and "records_ok (lc_reconciler l)"
    and "\<not> lc_closed l" and "g = lc_generation l" and "lc_reconnect_generation l \<le> lv_generation v" and "lv_generation v \<le> g"
  shows "opend_table v' = su_key ` set ss \<union> opend_table v \<and> active_keys l' = su_key ` set ss \<union> active_keys l \<and>
    (\<forall>k. current l g k \<or> k \<in> su_key ` set ss \<longrightarrow> current l' g k)"
  using assms
proof (induction ss arbitrary: v l)
  case (Cons s ss)
  obtain res m where x: "execute_action tx (lv_generation v) call (Subscribe s) now g l = (res, m)"
    by (cases "execute_action tx (lv_generation v) call (Subscribe s) now g l")
  note m = execute_action_cases [OF x Cons.prems(2)] and ok = execute_action_ok [OF x Cons.prems(2)]
  have res: "res = Inr True"
    using x Cons.prems(1,3-6) by (auto simp: execute_action_def not_less split: sum.splits if_splits)
  let ?v = "v\<lparr>lv_acked := lv_acked v @ [Subscribe s]\<rparr>"
  have r: "run_actions tx call now g (map Subscribe ss) ?v m = (None, v', l')" using Cons.prems(1) x res by simp
  have ih: "opend_table v' = su_key ` set ss \<union> opend_table ?v \<and> active_keys l' = su_key ` set ss \<union> active_keys m \<and>
    (\<forall>k. current m g k \<or> k \<in> su_key ` set ss \<longrightarrow> current l' g k)"
    by (rule Cons.IH [OF r ok]) (use m Cons.prems in simp_all)
  have c: "current m g k" if "current l g k \<or> k = su_key s" for k
  proof (cases "k = su_key s")
    case True
    then show ?thesis using m res by (auto simp: current_def is_some_and_def)
  next
    case False
    then show ?thesis using that execute_action_other [OF x Cons.prems(2), of k] by (simp add: current_def)
  qed
  have "active_keys m = insert (su_key s) (active_keys l)" using m res by simp
  then show ?case using ih c by auto
qed simp

section \<open>The invariant\<close>

definition replay_of :: "instrument_ref list \<Rightarrow> reconcile_action list" where
  "replay_of desired = map Subscribe (bm_values (desired_by_key desired))"

definition coordinator_ok :: "'t opend_coordinator \<Rightarrow> bool" where
  "coordinator_ok s \<longleftrightarrow>
     records_ok (lc_reconciler (sc_lifecycle s)) \<and>
     lc_generation (sc_lifecycle s) \<le> generation_of (recorder_of s) \<and>
     lc_reconnect_generation (sc_lifecycle s) \<le> lc_generation (sc_lifecycle s) \<and>
     lc_closed (sc_lifecycle s) = sc_closed s \<and>
     (sc_closed s \<longrightarrow> sc_session s = None \<and> sc_pending s = None) \<and>
     (case sc_session s of
        None \<Rightarrow> True
      | Some v \<Rightarrow>
          active_keys (sc_lifecycle s) \<subseteq> opend_table v \<and>
          (sc_pending s = None \<longrightarrow> lc_reconnect_generation (sc_lifecycle s) \<le> lv_generation v) \<and>
          lv_generation v \<le> lc_generation (sc_lifecycle s)) \<and>
     (case sc_pending s of
        None \<Rightarrow> True
      | Some p \<Rightarrow>
          pn_generation p = lc_generation (sc_lifecycle s) \<and> lc_reconnect_generation (sc_lifecycle s) = pn_generation p \<and>
          pn_actions p = replay_of (sc_desired s) \<and>
          record_keys (sc_lifecycle s) \<subseteq> su_key ` demanded (sc_desired s))"

lemma replay_keys: "action_key ` set (replay_of desired) = su_key ` demanded desired"
proof -
  have v: "set (bm_values (desired_by_key desired)) = demanded desired"
  proof (rule set_eqI)
    fix s
    show "s \<in> set (bm_values (desired_by_key desired)) \<longleftrightarrow> s \<in> demanded desired"
    proof
      assume "s \<in> set (bm_values (desired_by_key desired))"
      then obtain k where "(k, s) \<in> set (desired_by_key desired)" by (auto simp: bm_values_def)
      then show "s \<in> demanded desired" unfolding bm_in_set_get [OF desired_ok] wanted_iff by simp
    next
      assume "s \<in> demanded desired"
      then have "bm_get (desired_by_key desired) (su_key s) = Some s" unfolding wanted_iff by simp
      then show "s \<in> set (bm_values (desired_by_key desired))" by (rule get_value)
    qed
  qed
  have "action_key ` set (replay_of desired) = su_key ` set (bm_values (desired_by_key desired))"
    unfolding replay_of_def by (simp add: image_image)
  then show ?thesis unfolding v .
qed

lemma le_trans_u64: "(a :: u64) \<le> b \<Longrightarrow> b \<le> c \<Longrightarrow> a \<le> c"
  by (rule order_trans)

lemma reconcile_grows: "generation_of r \<le> generation_of (recorder_reconcile r is)"
  by (simp add: recorder_defs Let_def sat_inc_le)

lemma reconfigure_grows: "generation_of r \<le> generation_of (recorder_reconfigure r)"
  by (simp add: recorder_defs sat_inc_le)

text \<open>Execution keeps the invariant as long as what is already active has been acknowledged.\<close>

lemma execute_actions_ok:
  assumes "execute_actions P call as now s = (res, s')" and "coordinator_ok s"
    and "sc_pending s \<noteq> None \<Longrightarrow> action_key ` set as \<subseteq> su_key ` demanded (sc_desired s)"
  shows "coordinator_ok s' \<and> same_frame (sc_lifecycle s) (sc_lifecycle s') \<and> sc_desired s' = sc_desired s \<and> sc_pending s' = sc_pending s \<and>
    sc_closed s' = sc_closed s \<and> res \<noteq> Panics"
proof (cases "sc_session s")
  case None
  then have "res = Fails Coordinator_Closed" "s' = s" using assms(1) by (auto simp: execute_actions_def)
  then show ?thesis using assms(2) by (simp add: same_frame_def)
next
  case (Some v)
  obtain e v' l' where r: "run_actions (ol_text P) call now (lc_generation (sc_lifecycle s)) as v (sc_lifecycle s) = (e, v', l')"
    by (cases "run_actions (ol_text P) call now (lc_generation (sc_lifecycle s)) as v (sc_lifecycle s)")
  have ok: "records_ok (lc_reconciler (sc_lifecycle s))" using assms(2) by (simp add: coordinator_ok_def)
  note x = run_actions_ok [OF r ok]
  have s': "s' = s\<lparr>sc_session := Some v', sc_lifecycle := l'\<rparr>" "res \<noteq> Panics"
    using assms(1) r Some by (auto simp: execute_actions_def split: option.splits)
  have k: "record_keys l' \<subseteq> su_key ` demanded (sc_desired s)" if "sc_pending s = Some p" for p
  proof -
    have "record_keys (sc_lifecycle s) \<subseteq> su_key ` demanded (sc_desired s)" using assms(2) that by (simp add: coordinator_ok_def)
    moreover have "action_key ` set as \<subseteq> su_key ` demanded (sc_desired s)" by (rule assms(3)) (simp add: that)
    ultimately show ?thesis using x by blast
  qed
  have "coordinator_ok s'"
    using assms(2) x Some k unfolding s'(1) coordinator_ok_def same_frame_def by (simp split: option.splits)
  then show ?thesis using x s' by simp
qed

lemma reconfigure_result:
  assumes "reconfigure_for_reconnect desired l = (as, l')" and "\<not> lc_closed l" and "records_ok (lc_reconciler l)"
    and "lc_generation l \<le> generation_of (lc_recorder l)"
  shows "as = replay_of desired \<and> records_ok (lc_reconciler l') \<and> \<not> lc_closed l' \<and> lc_generation l' = generation_of (lc_recorder l') \<and>
    lc_reconnect_generation l' = lc_generation l' \<and> lc_generation l \<le> lc_generation l' \<and>
    active_keys l' = {} \<and> record_keys l' \<subseteq> su_key ` demanded desired \<and>
    (\<not> closed_recorder (lc_recorder l) \<longrightarrow> \<not> closed_recorder (lc_recorder l'))"
proof -
  define reconciled where "reconciled = recorder_reconcile (lc_recorder l) (runtime_instruments desired)"
  define recorder where "recorder = (if generation_of reconciled = lc_generation l then recorder_reconfigure reconciled else reconciled)"
  obtain rs c where rp: "replay_actions desired (generation_of recorder) (lc_reconciler l) = (rs, c)"
    by (cases "replay_actions desired (generation_of recorder) (lc_reconciler l)")
  have l': "l' = l\<lparr>lc_desired := desired, lc_recorder := recorder, lc_generation := generation_of recorder,
      lc_reconnect_generation := generation_of recorder, lc_reconciler := c\<rparr>" "as = rs"
    using assms(1,2) rp by (auto simp: reconfigure_for_reconnect_def Let_def reconciled_def [symmetric] recorder_def [symmetric])
  have c: "c = snd (replay_actions desired (generation_of recorder) (lc_reconciler l))" "rs = replay_of desired"
    using rp by (auto simp: replay_actions_def Let_def replay_of_def)
  have g: "lc_generation l \<le> generation_of recorder"
    using assms(4) reconcile_grows [of "lc_recorder l" "runtime_instruments desired"] reconfigure_grows [of reconciled]
    by (auto simp: recorder_def reconciled_def intro: order_trans)
  have stays: "\<not> closed_recorder (lc_recorder l) \<longrightarrow> \<not> closed_recorder recorder"
    by (simp add: recorder_def reconciled_def recorder_defs Let_def)
  have ok: "records_ok c" unfolding c(1) by (rule replay_ok [OF assms(3)])
  have a: "active_keys l' = {}"
    unfolding active_keys_def l'(1) c(1) by (auto simp: replay_records [OF assms(3)] split: if_splits)
  have k: "record_keys l' \<subseteq> su_key ` demanded desired"
    unfolding record_keys_def l'(1) c(1) by (auto simp: replay_records [OF assms(3)] wanted_none split: if_splits)
  show ?thesis using l' c(2) g stays ok a k assms(2) by simp
qed

lemma connect_result:
  "connect_with_push conn g = Inr v \<Longrightarrow> lv_generation v = g \<and> opend_table v = {} \<and> lv_closed v = None \<and> lv_events v = [] \<and> lv_acked v = []"
  by (auto simp: connect_with_push_def rbind_Inr_iff split: option.splits)

lemma quota_frame [simp]:
  "records_ok (set_quota a b c n e r) = records_ok r" "records_ok (set_last_reconciled_at_ms n r) = records_ok r"
  "rc_records (set_quota a b c n e r) = rc_records r" "rc_records (set_last_reconciled_at_ms n r) = rc_records r"
  by (simp_all add: records_ok_def set_quota_def set_last_reconciled_at_ms_def)

lemma keys_frame [simp]:
  "active_keys (l\<lparr>lc_recorder := r\<rparr>) = active_keys l" "record_keys (l\<lparr>lc_recorder := r\<rparr>) = record_keys l"
  "active_keys (l\<lparr>lc_desired := d, lc_recorder := r, lc_generation := g\<rparr>) = active_keys l"
  "record_keys (l\<lparr>lc_desired := d, lc_recorder := r, lc_generation := g\<rparr>) = record_keys l"
  "active_keys (l\<lparr>lc_reconciler := set_quota a b c n e (lc_reconciler l)\<rparr>) = active_keys l"
  "record_keys (l\<lparr>lc_reconciler := set_quota a b c n e (lc_reconciler l)\<rparr>) = record_keys l"
  "active_keys (l\<lparr>lc_reconciler := set_last_reconciled_at_ms n (lc_reconciler l)\<rparr>) = active_keys l"
  "record_keys (l\<lparr>lc_reconciler := set_last_reconciled_at_ms n (lc_reconciler l)\<rparr>) = record_keys l"
  by (simp_all add: active_keys_def record_keys_def)

text \<open>An update of the recorder moves neither the generation nor the end of the recorder.\<close>

lemma coordinator_ok_recorder:
  assumes "coordinator_ok s" and "generation_of (recorder_of s) \<le> generation_of r"
  shows "coordinator_ok (s\<lparr>sc_lifecycle := (sc_lifecycle s)\<lparr>lc_recorder := r\<rparr>\<rparr>)"
  using assms by (auto simp: coordinator_ok_def intro: order_trans split: option.splits)

lemma update_generation_of: "generation_of (snd (recorder_update T g u r)) = generation_of r"
  by (simp add: recorder_update_def update_generation_def)

lemma coordinator_ok_quota: "coordinator_ok s \<Longrightarrow> coordinator_ok (lifecycle_quota a b c n e s)"
  by (auto simp: coordinator_ok_def lifecycle_quota_def split: option.splits)

lemma coordinator_ok_ingest: "coordinator_ok s \<Longrightarrow> coordinator_ok (snd (ingest_event P event now s))"
  using coordinator_ok_recorder [of s "snd (recorder_update (ol_time P) g u (recorder_of s))" for g u]
  by (auto simp: ingest_event_def ingest_session_event_def case_prod_beta update_generation_of split: session_event.splits)

lemma coordinator_ok_live:
  assumes "coordinator_ok s" and "sc_session s = Some v" and "opend_table w = opend_table v" and "lv_generation w = lv_generation v"
  shows "coordinator_ok (s\<lparr>sc_session := Some w\<rparr>)"
  using assms by (simp add: coordinator_ok_def split: option.splits)

lemma begin_reconnect_ok:
  assumes "begin_reconnect r s = (res, s')" and "coordinator_ok s" and "\<not> sc_closed s" and "sc_pending s = None"
  shows "res = Succeeds () \<and> coordinator_ok s' \<and> \<not> sc_closed s' \<and> sc_desired s' = sc_desired s \<and> sc_session s' = None \<and>
    (\<exists>p. sc_pending s' = Some p \<and> pn_reason p = r \<and> pn_generation p = generation_of (recorder_of s')) \<and>
    (\<not> closed_recorder (recorder_of s) \<longrightarrow> \<not> closed_recorder (recorder_of s'))"
proof -
  obtain as l' where rc: "reconfigure_for_reconnect (sc_desired s) (sc_lifecycle s) = (as, l')"
    by (cases "reconfigure_for_reconnect (sc_desired s) (sc_lifecycle s)")
  note x = reconfigure_result [OF rc]
  have pre: "\<not> lc_closed (sc_lifecycle s)" "records_ok (lc_reconciler (sc_lifecycle s))" "lc_generation (sc_lifecycle s) \<le> generation_of (recorder_of s)"
    using assms(2,3) by (simp_all add: coordinator_ok_def)
  note y = x [OF pre]
  have s': "res = Succeeds ()" "s' = s\<lparr>sc_lifecycle := l', sc_session := None,
      sc_pending := Some \<lparr>pn_generation = lc_generation l', pn_reason = r, pn_actions = as\<rparr>\<rparr>"
    using assms(1,3,4) rc by (auto simp: begin_reconnect_def)
  show ?thesis using y assms(2,3) unfolding s' by (simp add: coordinator_ok_def)
qed

text \<open>A reconnection that is complete: the demand is active on the new session, and the stream counts as connected.\<close>

definition restored :: "u64 \<Rightarrow> 't opend_coordinator \<Rightarrow> bool" where
  "restored g s \<longleftrightarrow>
     sc_pending s = None \<and> lc_generation (sc_lifecycle s) = g \<and>
     (case sc_session s of
        None \<Rightarrow> False
      | Some v \<Rightarrow> lv_generation v = g \<and> opend_table v = su_key ` demanded (sc_desired s) \<and>
          active_keys (sc_lifecycle s) = su_key ` demanded (sc_desired s)) \<and>
     list_all (current (sc_lifecycle s) g) (map su_key (sp_physical (desired_subscriptions (sc_desired s)))) \<and>
     (demanded (sc_desired s) \<noteq> {} \<longrightarrow> co_connected (rs_runtime (recorder_of s)))"

lemma stream_connected_cases:
  "stream_connected P g s = (up, s') \<Longrightarrow>
     (if up then accepts_generation g (sc_lifecycle s) \<and> \<not> closed_recorder (recorder_of s) \<and> generation_of (recorder_of s) = g \<and>
        s' = s\<lparr>sc_lifecycle := (sc_lifecycle s)\<lparr>lc_recorder := (recorder_of s)\<lparr>rs_runtime := apply_update (ol_time P) Stream_Connected (rs_runtime (recorder_of s))\<rparr>\<rparr>\<rparr>
      else s' = s \<and> (\<not> accepts_generation g (sc_lifecycle s) \<or> closed_recorder (recorder_of s) \<or> generation_of (recorder_of s) \<noteq> g))"
  by (auto simp: stream_connected_def lifecycle_update_def recorder_update_def update_generation_def case_prod_beta split: if_splits)

lemma demanded_empty: "replay_of d = [] \<longleftrightarrow> demanded d = {}"
  using replay_keys [of d] by (cases "replay_of d") auto

lemma attempt_reconnect_ok:
  assumes "attempt_reconnect P now conn call s = (res, s')" and "coordinator_ok s"
  shows "coordinator_ok s' \<and> sc_closed s' = sc_closed s \<and> sc_desired s' = sc_desired s \<and>
    generation_of (recorder_of s') = generation_of (recorder_of s) \<and> closed_recorder (recorder_of s') = closed_recorder (recorder_of s) \<and>
    lc_generation (sc_lifecycle s') = lc_generation (sc_lifecycle s) \<and>
    (case res of
       Succeeds (g, r) \<Rightarrow> restored g s'
     | Fails _ \<Rightarrow> True
     | Panics \<Rightarrow> closed_recorder (recorder_of s) \<or> generation_of (recorder_of s) \<noteq> lc_generation (sc_lifecycle s))"
proof (cases "sc_pending s")
  case None
  then show ?thesis using assms by (auto simp: attempt_reconnect_def)
next
  case (Some p)
  have p: "pn_generation p = lc_generation (sc_lifecycle s)" "lc_reconnect_generation (sc_lifecycle s) = pn_generation p"
    "pn_actions p = replay_of (sc_desired s)" "record_keys (sc_lifecycle s) \<subseteq> su_key ` demanded (sc_desired s)"
    "records_ok (lc_reconciler (sc_lifecycle s))" "\<not> sc_closed s" "\<not> lc_closed (sc_lifecycle s)"
    using assms(2) Some by (auto simp: coordinator_ok_def)
  show ?thesis
  proof (cases "connect_with_push conn (pn_generation p)")
    case (Inl e)
    then show ?thesis using assms Some by (auto simp: attempt_reconnect_def)
  next
    case (Inr v)
    note c = connect_result [OF Inr]
    let ?l = "sc_lifecycle s"
    obtain e v' l' where r: "run_actions (ol_text P) call now (lc_generation ?l) (pn_actions p) v ?l = (e, v', l')"
      by (cases "run_actions (ol_text P) call now (lc_generation ?l) (pn_actions p) v ?l")
    note x = run_actions_ok [OF r p(5)]
    have ex: "execute_actions P call (pn_actions p) now (s\<lparr>sc_session := Some v\<rparr>) =
        ((case e of None \<Rightarrow> Succeeds () | Some e \<Rightarrow> Fails (Subscription e)), s\<lparr>sc_session := Some v', sc_lifecycle := l'\<rparr>)"
      using r by (simp add: execute_actions_def)
    have keys: "record_keys l' \<subseteq> su_key ` demanded (sc_desired s)"
      using x p(3,4) replay_keys [of "sc_desired s"] by auto
    have frame: "lc_recorder l' = recorder_of s" "lc_generation l' = lc_generation ?l" "lc_reconnect_generation l' = lc_reconnect_generation ?l"
      "lc_closed l' = lc_closed ?l" "records_ok (lc_reconciler l')" "lv_generation v' = lv_generation v"
      using x by (simp_all add: same_frame_def)
    have off: "coordinator_ok (s\<lparr>sc_session := None, sc_lifecycle := l'\<rparr>)"
      using assms(2) frame keys p Some by (simp add: coordinator_ok_def)
    show ?thesis
    proof (cases e)
      case (Some er)
      then have "s' = s\<lparr>sc_session := None, sc_lifecycle := l'\<rparr>" "res = Fails (Subscription er)"
        using assms(1) \<open>sc_pending s = Some p\<close> Inr ex by (auto simp: attempt_reconnect_def)
      then show ?thesis using off frame by simp
    next
      case None
      have g: "lc_generation ?l = lc_generation ?l" "lc_reconnect_generation ?l \<le> lv_generation v" "lv_generation v \<le> lc_generation ?l"
        using p(1,2) c by simp_all
      have rep: "opend_table v' = su_key ` set (bm_values (desired_by_key (sc_desired s))) \<union> opend_table v \<and>
          active_keys l' = su_key ` set (bm_values (desired_by_key (sc_desired s))) \<union> active_keys ?l \<and>
          (\<forall>k. current ?l (lc_generation ?l) k \<or> k \<in> su_key ` set (bm_values (desired_by_key (sc_desired s))) \<longrightarrow> current l' (lc_generation ?l) k)"
        by (rule replay_runs [OF r [unfolded None p(3) replay_of_def] p(5,7) g])
      have vals: "su_key ` set (bm_values (desired_by_key (sc_desired s))) = su_key ` demanded (sc_desired s)"
        using replay_keys [of "sc_desired s"] by (simp add: replay_of_def image_image)
      have table: "opend_table v' = su_key ` demanded (sc_desired s)" using rep c unfolding vals by simp
      have "active_keys ?l \<subseteq> record_keys ?l" by (auto simp: active_keys_def record_keys_def)
      then have act: "active_keys l' = su_key ` demanded (sc_desired s)" using rep p(4) unfolding vals by blast
      have cur: "\<forall>k \<in> su_key ` demanded (sc_desired s). current l' (lc_generation ?l) k" using rep unfolding vals by blast
      let ?s = "s\<lparr>sc_session := Some v', sc_lifecycle := l'\<rparr>"
      have on: "coordinator_ok ?s"
        using assms(2) frame keys p Some \<open>sc_pending s = Some p\<close> act table c by (simp add: coordinator_ok_def)
      have att: "attempt_reconnect P now conn call s =
        (let (ok, s) = (if pn_actions p = [] then (True, ?s) else stream_connected P (pn_generation p) ?s)
         in if ok then (Succeeds (pn_generation p, pn_reason p), s\<lparr>sc_pending := None\<rparr>) else (Panics, s))"
        using \<open>sc_pending s = Some p\<close> Inr ex None by (simp add: attempt_reconnect_def)
      obtain up t where up: "(if pn_actions p = [] then (True, ?s) else stream_connected P (pn_generation p) ?s) = (up, t)"
        by (cases "if pn_actions p = [] then (True, ?s) else stream_connected P (pn_generation p) ?s")
      show ?thesis
      proof (cases up)
        case False
        then have "pn_actions p \<noteq> []" using up by (auto split: if_splits)
        then have "stream_connected P (pn_generation p) ?s = (False, t)" using up False by simp
        from stream_connected_cases [OF this] have t: "t = ?s"
          "\<not> accepts_generation (pn_generation p) (sc_lifecycle ?s) \<or> closed_recorder (recorder_of ?s) \<or> generation_of (recorder_of ?s) \<noteq> pn_generation p"
          by simp_all
        have "res = Panics" "s' = ?s" using assms(1) att up False t(1) by auto
        then show ?thesis using on t(2) frame p by (simp add: accepts_generation_def)
      next
        case True
        have fin: "res = Succeeds (pn_generation p, pn_reason p)" "s' = t\<lparr>sc_pending := None\<rparr>" using assms(1) att up True by auto
        have t: "t = ?s \<and> demanded (sc_desired s) = {} \<or>
          t = ?s\<lparr>sc_lifecycle := l'\<lparr>lc_recorder := (recorder_of s)\<lparr>rs_runtime := apply_update (ol_time P) Stream_Connected (rs_runtime (recorder_of s))\<rparr>\<rparr>\<rparr>"
        proof (cases "pn_actions p = []")
          case True
          then show ?thesis using up demanded_empty [of "sc_desired s"] p(3) by simp
        next
          case False
          then have "stream_connected P (pn_generation p) ?s = (True, t)" using up True by simp
          from stream_connected_cases [OF this] show ?thesis using frame(1) by simp
        qed
        have rg: "lc_reconnect_generation l' \<le> lv_generation v'" using g(2) frame by simp
        have "coordinator_ok (t\<lparr>sc_pending := None\<rparr>)"
          using t on rg frame(1) by (auto simp: coordinator_ok_def split: option.splits)
        moreover have "restored (pn_generation p) (t\<lparr>sc_pending := None\<rparr>)"
          using t table act cur frame p(1) c
          by (auto simp: restored_def current_def list_all_iff physical_set)
        ultimately show ?thesis using fin t frame by auto
      qed
    qed
  qed
qed

lemma coordinator_ok_open: "coordinator_ok s \<Longrightarrow> sc_session s = Some v \<Longrightarrow> \<not> sc_closed s"
  by (auto simp: coordinator_ok_def)

lemma leave_session_ok:
  assumes "leave_session P now conn call r s = (res, s')" and "coordinator_ok s" and "\<not> sc_closed s" and "sc_pending s = None"
  shows "coordinator_ok s' \<and> sc_closed s' = sc_closed s \<and> sc_desired s' = sc_desired s \<and>
    (\<not> closed_recorder (recorder_of s) \<longrightarrow> res \<noteq> Panics \<and> \<not> closed_recorder (recorder_of s') \<and>
       generation_of (recorder_of s') = lc_generation (sc_lifecycle s')) \<and>
    (case res of
       Succeeds x \<Rightarrow> (case x of Reconnected g q \<Rightarrow> q = r \<and> restored g s' | _ \<Rightarrow> False)
     | _ \<Rightarrow> True)"
proof -
  obtain b m where b: "begin_reconnect r s = (b, m)" by (cases "begin_reconnect r s")
  note x = begin_reconnect_ok [OF b assms(2-4)]
  then obtain p where p: "sc_pending m = Some p" "pn_reason p = r" "pn_generation p = generation_of (recorder_of m)" by blast
  have gen: "generation_of (recorder_of m) = lc_generation (sc_lifecycle m)" using x p by (auto simp: coordinator_ok_def)
  have l: "leave_session P now conn call r s = try_reconnect P now conn call m" using b x by (simp add: leave_session_def)
  show ?thesis
  proof (cases "ol_millis P now")
    case (Inl e)
    then have "res = Fails (Coordinator_Time e)" "s' = m" using assms(1) l by (simp_all add: try_reconnect_def)
    then show ?thesis using x gen assms(3) by simp
  next
    case (Inr ms)
    obtain q t where a: "attempt_reconnect P ms conn call m = (q, t)" by (cases "attempt_reconnect P ms conn call m")
    have y: "coordinator_ok t" "sc_closed t = sc_closed m" "sc_desired t = sc_desired m"
      "generation_of (recorder_of t) = generation_of (recorder_of m)" "closed_recorder (recorder_of t) = closed_recorder (recorder_of m)"
      "lc_generation (sc_lifecycle t) = lc_generation (sc_lifecycle m)"
      "case q of Succeeds (g, r) \<Rightarrow> restored g t | Fails _ \<Rightarrow> True | Panics \<Rightarrow> closed_recorder (recorder_of m) \<or> generation_of (recorder_of m) \<noteq> lc_generation (sc_lifecycle m)"
      using attempt_reconnect_ok [OF a] x by simp_all
    have out: "(res, s') = reconnected (q, t)" using assms(1) l Inr a by (simp add: try_reconnect_def)
    have reason: "q = Succeeds (g, r') \<Longrightarrow> r' = r" for g r'
      using a p(1,2) by (auto simp: attempt_reconnect_def split: sum.splits prod.splits attempt.splits if_splits)
    show ?thesis using out x y gen reason assms(3)
      by (auto simp: reconnected_def split: attempt.splits prod.splits)
  qed
qed

text \<open>What one poll does.\<close>

lemma poll_once_ok:
  assumes "poll_once P now conn call s = (res, s')" and "coordinator_ok s"
  shows "coordinator_ok s' \<and> sc_closed s' = sc_closed s \<and> sc_desired s' = sc_desired s \<and>
    (\<not> closed_recorder (recorder_of s) \<and> generation_of (recorder_of s) = lc_generation (sc_lifecycle s) \<longrightarrow>
       res \<noteq> Panics \<and> \<not> closed_recorder (recorder_of s') \<and> generation_of (recorder_of s') = lc_generation (sc_lifecycle s')) \<and>
    (case res of
       Succeeds x \<Rightarrow>
         (case x of
            Reconnected g r \<Rightarrow> restored g s'
          | Pushed push \<Rightarrow>
              (\<exists>v f rest. sc_session s = Some v \<and> lv_closed v = None \<and>
                 lv_events v = UnsolicitedFrame (lc_generation (sc_lifecycle s)) f # rest \<and> ol_decode P f = Inr (Some push))
          | _ \<Rightarrow> True)
     | _ \<Rightarrow> True)"
proof -
  consider (closed) "sc_closed s" | (pending) p where "\<not> sc_closed s" "sc_pending s = Some p"
    | (none) "\<not> sc_closed s" "sc_pending s = None" "sc_session s = None"
    | (ended) v r where "\<not> sc_closed s" "sc_pending s = None" "sc_session s = Some v" "lv_closed v = Some r"
    | (quiet) v where "\<not> sc_closed s" "sc_pending s = None" "sc_session s = Some v" "lv_closed v = None" "lv_events v = []"
    | (event) v e rest where "\<not> sc_closed s" "sc_pending s = None" "sc_session s = Some v" "lv_closed v = None" "lv_events v = e # rest"
    by (cases "sc_closed s"; cases "sc_pending s"; cases "sc_session s") (auto, metis list.exhaust not_Some_eq)
  then show ?thesis
  proof cases
    case closed
    then show ?thesis using assms by (auto simp: poll_once_def)
  next
    case (pending p)
    show ?thesis
    proof (cases "ol_millis P now")
      case (Inl e)
      then show ?thesis using assms pending by (auto simp: poll_once_def try_reconnect_def)
    next
      case (Inr ms)
      obtain q t where a: "attempt_reconnect P ms conn call s = (q, t)" by (cases "attempt_reconnect P ms conn call s")
      note y = attempt_reconnect_ok [OF a assms(2)]
      have "(res, s') = reconnected (q, t)" using assms(1) pending Inr a by (simp add: poll_once_def try_reconnect_def)
      then show ?thesis using y by (auto simp: reconnected_def split: attempt.splits prod.splits)
    qed
  next
    case none
    then show ?thesis using assms by (auto simp: poll_once_def)
  next
    case (quiet v)
    then show ?thesis using assms by (auto simp: poll_once_def)
  next
    case (ended v r)
    let ?m = "snd (ingest_event P (Session_Closed (lv_generation v) r) now s)"
    have m: "coordinator_ok ?m" by (rule coordinator_ok_ingest [OF assms(2)])
    have f: "sc_closed ?m = sc_closed s" "sc_pending ?m = sc_pending s" "sc_desired ?m = sc_desired s"
      "generation_of (recorder_of ?m) = generation_of (recorder_of s)" "closed_recorder (recorder_of ?m) = closed_recorder (recorder_of s)"
      "lc_generation (sc_lifecycle ?m) = lc_generation (sc_lifecycle s)"
      by (auto simp: ingest_event_def ingest_session_event_def case_prod_beta recorder_update_def update_generation_def)
    show ?thesis
    proof (cases "r = Local")
      case True
      then have "res = Succeeds Dropped" "s' = ?m" using assms(1) ended by (simp_all add: poll_once_def Let_def)
      then show ?thesis using m f by simp
    next
      case False
      then have l: "leave_session P now conn call r ?m = (res, s')" using assms(1) ended by (simp add: poll_once_def Let_def)
      have o: "\<not> sc_closed ?m" "sc_pending ?m = None" using f ended by simp_all
      show ?thesis using leave_session_ok [OF l m o] f by (auto split: attempt.splits poll_result.splits)
    qed
  next
    case (event v e rest)
    let ?s = "s\<lparr>sc_session := Some (v\<lparr>lv_events := rest\<rparr>)\<rparr>"
    let ?m = "snd (ingest_event P e now ?s)"
    have ok: "coordinator_ok ?s" by (rule coordinator_ok_live [OF assms(2) event(3)]) (simp_all add: opend_table_def)
    have m: "coordinator_ok ?m" by (rule coordinator_ok_ingest [OF ok])
    have f: "sc_closed ?m = sc_closed s" "sc_pending ?m = sc_pending s" "sc_desired ?m = sc_desired s"
      "generation_of (recorder_of ?m) = generation_of (recorder_of s)" "closed_recorder (recorder_of ?m) = closed_recorder (recorder_of s)"
      "lc_generation (sc_lifecycle ?m) = lc_generation (sc_lifecycle s)"
      by (auto simp: ingest_event_def ingest_session_event_def case_prod_beta recorder_update_def update_generation_def split: session_event.splits)
    obtain push rc where d: "dispatch_event P e now ?s = ((push, rc), ?m)"
      by (cases "dispatch_event P e now ?s") (auto simp: dispatch_event_def case_prod_beta)
    have pushed: "push = Some x \<Longrightarrow> \<exists>g. e = UnsolicitedFrame (lc_generation (sc_lifecycle s)) g \<and> ol_decode P g = Inr (Some x)" for x
      using d by (auto simp: dispatch_event_def ingest_event_def ingest_session_event_def ingest_quote_push_def accepts_generation_def case_prod_beta
          split: session_event.splits if_splits sum.splits)
    have out: "poll_once P now conn call s = (case rc of
        Some r \<Rightarrow> leave_session P now conn call r ?m
      | None \<Rightarrow> (Succeeds (case push of Some x \<Rightarrow> Pushed x | None \<Rightarrow> Dropped), ?m))"
      using event d by (simp add: poll_once_def)
    show ?thesis
    proof (cases rc)
      case None
      then have r: "res = Succeeds (case push of Some x \<Rightarrow> Pushed x | None \<Rightarrow> Dropped)" "s' = ?m" using assms(1) out by simp_all
      show ?thesis
      proof (cases push)
        case None
        then show ?thesis using m f r by simp
      next
        case (Some x)
        then obtain g where "e = UnsolicitedFrame (lc_generation (sc_lifecycle s)) g" "ol_decode P g = Inr (Some x)" using pushed by blast
        then show ?thesis using m f r Some event by simp
      qed
    next
      case (Some r)
      then have l: "leave_session P now conn call r ?m = (res, s')" using assms(1) out by simp
      have o: "\<not> sc_closed ?m" "sc_pending ?m = None" using f event by simp_all
      show ?thesis using leave_session_ok [OF l m o] f by (auto split: attempt.splits poll_result.splits)
    qed
  qed
qed

lemma topology_ok:
  assumes "coordinator_ok s"
  shows "coordinator_ok (snd (reconcile_topology P desired now call s))"
proof (cases "sc_closed s")
  case True
  then show ?thesis using assms by (simp add: reconcile_topology_def)
next
  case False
  let ?l = "(sc_lifecycle s)\<lparr>lc_reconciler := set_last_reconciled_at_ms now (lc_reconciler (sc_lifecycle s))\<rparr>"
  have pre: "\<not> lc_closed ?l" "records_ok (lc_reconciler ?l)" "lc_generation ?l \<le> generation_of (lc_recorder ?l)"
    using assms False by (simp_all add: coordinator_ok_def)
  show ?thesis
  proof (cases "sc_pending s")
    case (Some p)
    obtain as l' where rc: "reconfigure_for_reconnect desired ?l = (as, l')" by (cases "reconfigure_for_reconnect desired ?l")
    note x = reconfigure_result [OF rc pre]
    have "snd (reconcile_topology P desired now call s) =
      s\<lparr>sc_desired := desired, sc_lifecycle := l', sc_pending := Some (p\<lparr>pn_generation := lc_generation l', pn_actions := as\<rparr>)\<rparr>"
      using False Some rc by (simp add: reconcile_topology_def Let_def)
    moreover have "sc_session s = Some v \<Longrightarrow> lv_generation v \<le> lc_generation l'" for v
      using assms x by (auto simp: coordinator_ok_def intro: order_trans)
    ultimately show ?thesis using assms x False by (auto simp: coordinator_ok_def split: option.splits)
  next
    case None
    let ?rec = "recorder_reconcile (recorder_of s) (runtime_instruments desired)"
    let ?m = "s\<lparr>sc_desired := desired, sc_lifecycle := ?l\<lparr>lc_desired := desired, lc_recorder := ?rec, lc_generation := generation_of ?rec\<rparr>\<rparr>"
    have g: "lc_generation (sc_lifecycle s) \<le> generation_of ?rec"
      using assms reconcile_grows [of "recorder_of s" "runtime_instruments desired"] by (auto simp: coordinator_ok_def intro: order_trans)
    have m: "coordinator_ok ?m"
      using assms False None g by (auto simp: coordinator_ok_def active_keys_def intro: order_trans split: option.splits)
    obtain res t where t: "execute_actions P call (plan_actions (lc_reconciler ?l) desired now (generation_of ?rec)) now ?m = (res, t)"
      by (cases "execute_actions P call (plan_actions (lc_reconciler ?l) desired now (generation_of ?rec)) now ?m")
    have "coordinator_ok t" using execute_actions_ok [OF t m] None by simp
    moreover have "reconcile_topology P desired now call s = (res, t)"
      using pre(1) False None t by (simp add: reconcile_topology_def reconcile_demand_def Let_def)
    ultimately show ?thesis by simp
  qed
qed

lemma coordinator_step_ok: "coordinator_ok s \<Longrightarrow> coordinator_ok (coordinator_step P s a)"
proof (cases a)
  case (Op_Topology desired now call)
  assume "coordinator_ok s"
  then show ?thesis using Op_Topology by (simp add: topology_ok)
next
  case (Op_Reconcile desired now call)
  assume "coordinator_ok s"
  then show ?thesis using Op_Reconcile by (simp add: coordinator_reconcile_def topology_ok)
next
  case (Op_Poll now connection call)
  assume "coordinator_ok s"
  then show ?thesis using Op_Poll poll_once_ok [of P now connection call s] by (cases "poll_once P now connection call s") simp
next
  case (Op_Quota checked_at response)
  assume "coordinator_ok s"
  then have "coordinator_ok (s\<lparr>sc_session := map_option (after_error (Ex_Session e)) (sc_session s)\<rparr>)" for e
    by (auto simp: coordinator_ok_def split: option.splits)
  with \<open>coordinator_ok s\<close> show ?thesis
    using Op_Quota by (auto simp: refresh_quota_def coordinator_ok_quota split: sum.split prod.split option.split)
next
  case (Op_News n)
  assume ok: "coordinator_ok s"
  show ?thesis
  proof (cases "sc_session s")
    case None
    have "coordinator_step P s a = s" unfolding Op_News by (cases s) (use None in simp)
    then show ?thesis using ok by simp
  next
    case (Some v)
    then show ?thesis using coordinator_ok_live [OF ok Some, of "hear n v"] Op_News by simp
  qed
next
  case (Op_Recorder b)
  assume "coordinator_ok s"
  moreover have "generation_of (recorder_of s) \<le> generation_of (recorder_step (ol_time P) (recorder_of s) b)"
    using recorder_step_le [of "recorder_of s" "ol_time P" b] by (simp add: recorder_le_def)
  ultimately show ?thesis using Op_Recorder by (simp add: coordinator_ok_recorder)
next
  case Op_Close
  assume "coordinator_ok s"
  moreover have "generation_of (recorder_of s) \<le> generation_of (recorder_close (recorder_of s))"
    by (simp add: recorder_defs sat_inc_le)
  ultimately show ?thesis using Op_Close
    by (auto simp: coordinator_close_def lifecycle_close_def coordinator_ok_def active_keys_def intro: order_trans)
qed

interpretation opend: machine "coordinator_step P" coordinator_ok
  by unfold_locales (rule coordinator_step_ok)

lemma connect_ok:
  assumes "coordinator_connect P recorder desired now conn call = (Succeeds s, r)"
  shows "coordinator_ok s \<and> \<not> sc_closed s \<and> sc_desired s = desired \<and> sc_pending s = None \<and>
    generation_of (recorder_of s) = lc_generation (sc_lifecycle s) \<and>
    (closed_recorder (recorder_of s) \<longrightarrow> closed_recorder recorder)"
proof -
  let ?rec = "recorder_reconcile recorder (runtime_instruments desired)"
  let ?l = "(lifecycle_new recorder 60000)\<lparr>lc_desired := desired, lc_recorder := ?rec, lc_generation := generation_of ?rec\<rparr>"
  let ?as = "plan_actions (reconciler_new 60000) desired now (generation_of ?rec)"
  have d: "reconcile_demand desired now (lifecycle_new recorder 60000) = (?as, ?l)"
    by (simp add: reconcile_demand_def lifecycle_new_def Let_def)
  obtain v where v: "connect_with_push conn (generation_of ?rec) = Inr v"
    using assms d by (auto simp: coordinator_connect_def Let_def split: sum.splits)
  note c = connect_result [OF v]
  let ?m = "\<lparr>sc_lifecycle = ?l, sc_desired = desired, sc_session = Some v, sc_pending = None, sc_closed = False\<rparr>"
  have m: "coordinator_ok ?m"
    using c records_new [of 60000] by (simp add: coordinator_ok_def lifecycle_new_def active_keys_def reconciler_new_def)
  obtain res t where t: "execute_actions P call ?as now ?m = (res, t)" by (cases "execute_actions P call ?as now ?m")
  have x: "coordinator_ok t" "same_frame ?l (sc_lifecycle t)" "sc_desired t = desired" "sc_pending t = None" "\<not> sc_closed t"
    using execute_actions_ok [OF t m] by simp_all
  have cr: "closed_recorder ?rec = closed_recorder recorder" by (simp add: recorder_defs Let_def)
  have res: "\<exists>u. res = Succeeds u" using assms d v t by (auto simp: coordinator_connect_def Let_def split: attempt.splits)
  show ?thesis
  proof (cases "?as = []")
    case True
    then have "s = t" using assms d v t res by (auto simp: coordinator_connect_def Let_def)
    then show ?thesis using x cr by (simp add: same_frame_def)
  next
    case False
    then obtain up u where u: "stream_connected P (generation_of ?rec) t = (up, u)" and s: "up" "s = u"
      using assms d v t res by (auto simp: coordinator_connect_def Let_def split: if_splits prod.splits)
    have "s = t\<lparr>sc_lifecycle := (sc_lifecycle t)\<lparr>lc_recorder := (recorder_of t)\<lparr>rs_runtime := apply_update (ol_time P) Stream_Connected (rs_runtime (recorder_of t))\<rparr>\<rparr>\<rparr>"
      using stream_connected_cases [OF u] s by simp
    moreover have "coordinator_ok \<dots>" by (rule coordinator_ok_recorder [OF x(1)]) simp
    ultimately show ?thesis using x cr by (simp add: same_frame_def)
  qed
qed

section \<open>What the coordinator promises\<close>

text \<open>C24: What the lifecycle takes for active OpenD has on its books: whatever the owner asks, the session does and
  others do to the recorder, every subscription recorded as active has been acknowledged on the connection
  that is open now, and not given up on it since.\<close>

theorem active_means_subscribed:
  assumes "coordinator_connect P recorder desired now conn call = (Succeeds s0, r)"
    and "s = run (coordinator_step P) s0 ops" and "sc_session s = Some v"
    and "bm_get (rc_records (lc_reconciler (sc_lifecycle s))) k = Some record" and "ar_active record"
  shows "k \<in> opend_table v"
proof -
  have "coordinator_ok s" using opend.run_inv connect_ok [OF assms(1)] assms(2) by blast
  then have "active_keys (sc_lifecycle s) \<subseteq> opend_table v" using assms(3) by (simp add: coordinator_ok_def)
  moreover have "k \<in> active_keys (sc_lifecycle s)" using assms(4,5) by (auto simp: active_keys_def)
  ultimately show ?thesis by blast
qed

text \<open>C25: A reconnection restores the demand. When a poll reports that it has reconnected, the new session carries the
  current generation, OpenD holds on it exactly the subscriptions that the present demand implies, they
  are exactly what is recorded as active, and the stream counts as connected when there is a demand.\<close>

theorem reconnect_restores_demand:
  assumes "coordinator_connect P recorder desired now conn call = (Succeeds s0, r)"
    and "s = run (coordinator_step P) s0 ops"
    and "poll_once P later conn' call' s = (Succeeds (Reconnected g reason), s')"
  shows "lc_generation (sc_lifecycle s') = g \<and> sc_pending s' = None \<and> sc_desired s' = sc_desired s \<and>
    (\<exists>v. sc_session s' = Some v \<and> lv_generation v = g \<and> opend_table v = su_key ` demanded (sc_desired s)) \<and>
    active_keys (sc_lifecycle s') = su_key ` demanded (sc_desired s) \<and>
    (demanded (sc_desired s) = {} \<or> co_connected (rs_runtime (recorder_of s')))"
proof -
  have "coordinator_ok s" using opend.run_inv connect_ok [OF assms(1)] assms(2) by blast
  note x = poll_once_ok [OF assms(3) this]
  then have "restored g s'" by simp
  then show ?thesis using x by (auto simp: restored_def split: option.splits)
qed

text \<open>C26: Pushes are current. A poll hands on a push only if it is the oldest event of the open session, was sent by the
  connection of the current generation, and decodes to it.\<close>

theorem pushes_are_current:
  assumes "coordinator_connect P recorder desired now conn call = (Succeeds s0, r)"
    and "s = run (coordinator_step P) s0 ops"
    and "poll_once P later conn' call' s = (Succeeds (Pushed push), s')"
  shows "\<exists>v f rest. sc_session s = Some v \<and> lv_closed v = None \<and>
    lv_events v = UnsolicitedFrame (lc_generation (sc_lifecycle s)) f # rest \<and> ol_decode P f = Inr (Some push)"
proof -
  have "coordinator_ok s" using opend.run_inv connect_ok [OF assms(1)] assms(2) by blast
  from poll_once_ok [OF assms(3) this] show ?thesis by simp
qed

text \<open>The operations that leave the generation of the recorder to the coordinator.\<close>

definition leaves_generation :: "'t coordinator_op \<Rightarrow> bool" where
  "leaves_generation a = (case a of Op_Recorder b \<Rightarrow> (case b of R_Update _ _ \<Rightarrow> True | _ \<Rightarrow> False) | _ \<Rightarrow> True)"

definition in_step :: "'t opend_coordinator \<Rightarrow> bool" where
  "in_step s \<longleftrightarrow> sc_closed s \<or> \<not> closed_recorder (recorder_of s) \<and> generation_of (recorder_of s) = lc_generation (sc_lifecycle s)"

lemma topology_in_step:
  assumes "coordinator_ok s" and "in_step s"
  shows "in_step (snd (reconcile_topology P desired now call s)) \<and> fst (reconcile_topology P desired now call s) \<noteq> Panics"
proof (cases "sc_closed s")
  case True
  then show ?thesis using assms by (simp add: reconcile_topology_def)
next
  case False
  let ?l = "(sc_lifecycle s)\<lparr>lc_reconciler := set_last_reconciled_at_ms now (lc_reconciler (sc_lifecycle s))\<rparr>"
  have pre: "\<not> lc_closed ?l" "records_ok (lc_reconciler ?l)" "lc_generation ?l \<le> generation_of (lc_recorder ?l)"
    using assms False by (simp_all add: coordinator_ok_def)
  have o: "\<not> closed_recorder (recorder_of s)" using assms(2) False by (simp add: in_step_def)
  show ?thesis
  proof (cases "sc_pending s")
    case (Some p)
    obtain as l' where rc: "reconfigure_for_reconnect desired ?l = (as, l')" by (cases "reconfigure_for_reconnect desired ?l")
    note x = reconfigure_result [OF rc pre]
    have "reconcile_topology P desired now call s = (Succeeds (),
      s\<lparr>sc_desired := desired, sc_lifecycle := l', sc_pending := Some (p\<lparr>pn_generation := lc_generation l', pn_actions := as\<rparr>)\<rparr>)"
      using False Some rc by (simp add: reconcile_topology_def Let_def)
    then show ?thesis using x o False by (simp add: in_step_def)
  next
    case None
    let ?rec = "recorder_reconcile (recorder_of s) (runtime_instruments desired)"
    let ?m = "s\<lparr>sc_desired := desired, sc_lifecycle := ?l\<lparr>lc_desired := desired, lc_recorder := ?rec, lc_generation := generation_of ?rec\<rparr>\<rparr>"
    let ?as = "plan_actions (lc_reconciler ?l) desired now (generation_of ?rec)"
    have e: "reconcile_topology P desired now call s = execute_actions P call ?as now ?m"
      using pre(1) False None by (simp add: reconcile_topology_def reconcile_demand_def Let_def)
    have c: "\<not> closed_recorder ?rec" using o by (simp add: recorder_defs Let_def)
    obtain res t where t: "execute_actions P call ?as now ?m = (res, t)" by (cases "execute_actions P call ?as now ?m")
    have g: "lc_generation (sc_lifecycle s) \<le> generation_of ?rec"
      using assms(1) reconcile_grows [of "recorder_of s" "runtime_instruments desired"] by (auto simp: coordinator_ok_def intro: order_trans)
    have m: "coordinator_ok ?m"
      using assms(1) False None g by (auto simp: coordinator_ok_def active_keys_def intro: order_trans split: option.splits)
    have "same_frame (sc_lifecycle ?m) (sc_lifecycle t) \<and> sc_closed t = sc_closed ?m \<and> res \<noteq> Panics"
      using execute_actions_ok [OF t m] None by simp
    then show ?thesis unfolding e t using c False by (simp add: in_step_def same_frame_def)
  qed
qed

lemma in_step_step:
  assumes "coordinator_ok s" and "in_step s" and "leaves_generation a"
  shows "in_step (coordinator_step P s a)"
proof (cases a)
  case (Op_Poll now connection call)
  obtain res s' where p: "poll_once P now connection call s = (res, s')" by (cases "poll_once P now connection call s")
  show ?thesis using poll_once_ok [OF p assms(1)] Op_Poll p assms(2) by (auto simp: in_step_def)
next
  case (Op_Recorder b)
  then obtain g u where "b = R_Update g u" using assms(3) by (auto simp: leaves_generation_def split: recorder_op.splits)
  then show ?thesis using Op_Recorder assms(2) by (auto simp: in_step_def recorder_update_def update_generation_def)
next
  case (Op_Topology desired now call)
  then show ?thesis using topology_in_step [OF assms(1,2), where P = P] by simp
next
  case (Op_Reconcile now call)
  then show ?thesis using topology_in_step [OF assms(1,2), where P = P] assms(2) by (simp add: coordinator_reconcile_def)
next
  case (Op_Quota now call)
  then show ?thesis using assms(2) by (auto simp: in_step_def refresh_quota_def lifecycle_quota_def split: sum.splits prod.splits option.splits)
next
  case (Op_News event)
  then show ?thesis using assms(2) by (auto simp: in_step_def split: option.splits)
next
  case Op_Close
  then show ?thesis by (simp add: in_step_def coordinator_close_def)
qed

lemma in_step_run:
  assumes "coordinator_ok s" and "in_step s" and "list_all leaves_generation ops"
  shows "coordinator_ok (run (coordinator_step P) s ops) \<and> in_step (run (coordinator_step P) s ops)"
  using assms
proof (induction ops arbitrary: s)
  case (Cons a ops)
  have "leaves_generation a" "list_all leaves_generation ops" using Cons.prems(3) by simp_all
  from Cons.IH [OF coordinator_step_ok [OF Cons.prems(1)] in_step_step [OF Cons.prems(1,2) this(1)] this(2)]
  show ?case by simp
qed simp

text \<open>C27: The coordinator never panics as long as it alone begins the generations of the recorder it shares: the
  assertion after a replay holds at every poll, whatever the connections, OpenD and the updates of others do.\<close>

theorem poll_never_panics:
  assumes "coordinator_connect P recorder desired now conn call = (Succeeds s0, r)" and "\<not> closed_recorder recorder"
    and "list_all leaves_generation ops"
  shows "fst (poll_once P later conn' call' (run (coordinator_step P) s0 ops)) \<noteq> Panics"
proof -
  have s0: "coordinator_ok s0" "in_step s0" using connect_ok [OF assms(1)] assms(2) by (auto simp: in_step_def)
  from in_step_run [OF s0 assms(3)] obtain ok: "coordinator_ok (run (coordinator_step P) s0 ops)" and st: "in_step (run (coordinator_step P) s0 ops)" by blast
  obtain res s' where p: "poll_once P later conn' call' (run (coordinator_step P) s0 ops) = (res, s')"
    by (cases "poll_once P later conn' call' (run (coordinator_step P) s0 ops)")
  show ?thesis
  proof (cases "sc_closed (run (coordinator_step P) s0 ops)")
    case True
    then show ?thesis by (simp add: poll_once_def)
  next
    case False
    then show ?thesis using poll_once_ok [OF p ok] st p by (simp add: in_step_def)
  qed
qed

section \<open>Instances\<close>

definition sample_lib :: "(int, nat) opend_lib" where
  "sample_lib = \<lparr>ol_time = sample_time, ol_millis = (\<lambda>t. Inr (1000 * t)),
     ol_decode = (\<lambda>f. Inr (Some (length (fr_body f)))), ol_text = (\<lambda>_. ''rejected'')\<rparr>"

definition sample_push :: frame where
  "sample_push = \<lparr>fr_header = \<lparr>hd_proto_id = 3005, hd_proto_format = 0, hd_proto_version = 0, hd_serial_no = 1, hd_body_len = 2,
     hd_body_sha1 = replicate 20 0\<rparr>, fr_body = [1, 2]\<rparr>"

abbreviation accepting :: sub_call where
  "accepting \<equiv> \<lambda>_. Inr (Inr (Some 0, None, None))"

abbreviation sample_connection :: connection where
  "sample_connection \<equiv> (None, Inr (Inr (Some 0, None, Some 7)))"

abbreviation silent_connection :: connection where
  "silent_connection \<equiv> (None, Inl (RequestTimeout 1001 1))"

definition sample_basic :: "string \<Rightarrow> instrument_ref" where
  "sample_basic symbol = Instrument_Ref ''SNAPSHOT'' ''US'' symbol None"

definition sample_subscription :: "string \<Rightarrow> physical_subscription" where
  "sample_subscription symbol = Physical_Subscription (''BASIC:US.'' @ symbol) Basic (''US.'' @ symbol) None"

definition sample_record :: active_record where
  "sample_record = \<lparr>ar_subscription = sample_subscription ''AAPL'', ar_subscribed_at_ms = 1000, ar_generation = 1,
     ar_active = True, ar_failures = 0, ar_last_error = None, ar_retry_at_ms = 0, ar_fallback = False\<rparr>"

definition sample_session :: live_session where
  "sample_session = \<lparr>lv_generation = 1, lv_conn_id = 7, lv_closed = None, lv_events = [],
     lv_acked = [Subscribe (sample_subscription ''AAPL'')]\<rparr>"

definition sample_state :: "int opend_coordinator" where
  "sample_state =
     \<lparr>sc_lifecycle =
        \<lparr>lc_reconciler = (reconciler_new 60000)\<lparr>rc_records := [(''BASIC:US.AAPL'', sample_record)]\<rparr>,
           lc_recorder = \<lparr>rs_runtime = collector_default\<lparr>co_connected := True, co_generation := 1, co_active_count := 1\<rparr>,
             rs_active_instruments = [''US.AAPL'']\<rparr>,
           lc_desired = [sample_basic ''AAPL''], lc_generation = 1, lc_reconnect_generation = 0, lc_closed = False\<rparr>,
      sc_desired = [sample_basic ''AAPL''], sc_session = Some sample_session, sc_pending = None, sc_closed = False\<rparr>"

lemma sample_started:
  "coordinator_connect sample_lib recorder_default [sample_basic ''AAPL''] 1000 sample_connection accepting =
     (Succeeds sample_state, recorder_of sample_state)"
  by code_simp

text \<open>The session ends; the coordinator is told and reconnects.\<close>

definition sample_ended :: "int opend_coordinator" where
  "sample_ended = sample_state\<lparr>sc_session := Some (sample_session\<lparr>lv_closed := Some PeerClosed\<rparr>)\<rparr>"

definition sample_down :: "int opend_coordinator" where
  "sample_down = sample_ended\<lparr>sc_lifecycle := (sc_lifecycle sample_state)\<lparr>lc_recorder := (recorder_of sample_state)\<lparr>rs_runtime :=
     (rs_runtime (recorder_of sample_state))\<lparr>co_connected := False, co_stream_retry_at := Some 10, co_stream_failures := 1,
       co_stream_last_error := Some (close_reason_text PeerClosed)\<rparr>\<rparr>\<rparr>\<rparr>"

lemma sample_ends: "run (coordinator_step sample_lib) sample_state [Op_News (Session_Ends PeerClosed)] = sample_ended"
  by (simp add: sample_state_def sample_ended_def sample_session_def hear_def)

lemma sample_heard: "ingest_event sample_lib (Session_Closed 1 PeerClosed) 5 sample_ended = (None, sample_down)"
  by (simp add: sample_lib_def sample_time_def sample_ended_def sample_down_def sample_state_def sample_session_def ingest_event_def
      ingest_session_event_def accepts_generation_def recorder_update_def update_generation_def collector_default_def
      retry_at_def retry_delay_def sat_inc_usize_def)

lemma sample_poll: "poll_once sample_lib 5 conn call sample_ended = leave_session sample_lib 5 conn call PeerClosed sample_down"
proof -
  have "sc_session sample_ended = Some (sample_session\<lparr>lv_closed := Some PeerClosed\<rparr>)" "\<not> sc_closed sample_ended"
    "sc_pending sample_ended = None" "lv_generation (sample_session\<lparr>lv_closed := Some PeerClosed\<rparr>) = 1"
    by (simp_all add: sample_ended_def sample_state_def sample_session_def)
  then show ?thesis using sample_heard by (simp add: poll_once_def)
qed

definition sample_again :: "int opend_coordinator" where
  "sample_again = snd (poll_once sample_lib 5 sample_connection accepting sample_ended)"

lemma sample_reconnects:
  "poll_once sample_lib 5 sample_connection accepting sample_ended = (Succeeds (Reconnected 2 PeerClosed), sample_again)"
proof -
  have "fst (poll_once sample_lib 5 sample_connection accepting sample_ended) = Succeeds (Reconnected 2 PeerClosed)"
    unfolding sample_poll by code_simp
  then show ?thesis by (simp add: sample_again_def prod_eq_iff)
qed

lemma sample_again_record:
  "map_option lv_generation (sc_session sample_again) = Some 2 \<and>
   map_option ar_active (bm_get (rc_records (lc_reconciler (sc_lifecycle sample_again))) ''BASIC:US.AAPL'') = Some True"
  unfolding sample_again_def sample_poll by code_simp

theorem active_means_subscribed_witness:
  "map_option (\<lambda>v. ''BASIC:US.AAPL'' \<in> opend_table v) (sc_session sample_again) = Some True"
proof -
  let ?ops = "[Op_News (Session_Ends PeerClosed), Op_Poll 5 sample_connection accepting]"
  obtain v where v: "sc_session sample_again = Some v" using sample_again_record by auto
  obtain r where r: "bm_get (rc_records (lc_reconciler (sc_lifecycle sample_again))) ''BASIC:US.AAPL'' = Some r" "ar_active r"
    using sample_again_record by auto
  have "run (coordinator_step sample_lib) sample_state ?ops = sample_again"
    using sample_ends by (simp add: sample_again_def)
  then have "''BASIC:US.AAPL'' \<in> opend_table v"
    using active_means_subscribed [OF sample_started, of sample_again ?ops v] v r by simp
  then show ?thesis by (simp add: v)
qed

theorem reconnect_restores_demand_witness:
  "lc_generation (sc_lifecycle sample_again) = 2 \<and>
   active_keys (sc_lifecycle sample_again) = su_key ` demanded [sample_basic ''AAPL'']"
  using reconnect_restores_demand [OF sample_started, of sample_ended "[Op_News (Session_Ends PeerClosed)]"] sample_ends sample_reconnects
  by (simp add: sample_ended_def sample_state_def)

definition sample_told :: "int opend_coordinator" where
  "sample_told = run (coordinator_step sample_lib) sample_state [Op_News (Frame_Arrives sample_push)]"

theorem pushes_are_current_witness:
  "fst (poll_once sample_lib 5 sample_connection accepting sample_told) = Succeeds (Pushed 2) \<and>
   map_option lv_events (sc_session sample_told) = Some [UnsolicitedFrame 1 sample_push]"
proof -
  have p: "fst (poll_once sample_lib 5 sample_connection accepting sample_told) = Succeeds (Pushed 2)" by code_simp
  then obtain t where t: "poll_once sample_lib 5 sample_connection accepting sample_told = (Succeeds (Pushed 2), t)"
    by (cases "poll_once sample_lib 5 sample_connection accepting sample_told") simp
  from pushes_are_current [OF sample_started sample_told_def t] obtain v f rest where
    v: "sc_session sample_told = Some v" "lv_events v = UnsolicitedFrame (lc_generation (sc_lifecycle sample_told)) f # rest" by blast
  have e: "map_option lv_events (sc_session sample_told) = Some [UnsolicitedFrame 1 sample_push]"
    by (simp add: sample_told_def sample_state_def sample_session_def hear_def)
  then show ?thesis using p by blast
qed

theorem poll_never_panics_witness:
  "fst (poll_once sample_lib 6 sample_connection accepting
     (run (coordinator_step sample_lib) sample_state [Op_News (Session_Ends PeerClosed), Op_Poll 5 silent_connection accepting])) \<noteq> Panics"
  by (rule poll_never_panics [OF sample_started]) (simp_all add: recorder_default_def collector_default_def leaves_generation_def)

text \<open>Without the hypothesis on the generations it does panic: another user of the recorder that moves it to other
  instruments and back between two attempts leaves it one generation ahead of the pending reconnection.\<close>

definition sample_retrying :: "int opend_coordinator" where
  "sample_retrying = snd (leave_session sample_lib 5 silent_connection accepting PeerClosed sample_down)"

theorem shared_recorder_panics:
  "fst (poll_once sample_lib 6 sample_connection accepting
     (run (coordinator_step sample_lib) sample_state
       [Op_News (Session_Ends PeerClosed), Op_Poll 5 silent_connection accepting,
        Op_Recorder (R_Reconcile [''US.MSFT'']), Op_Recorder (R_Reconcile [''US.AAPL''])])) = Panics"
proof -
  have "run (coordinator_step sample_lib) sample_state
       [Op_News (Session_Ends PeerClosed), Op_Poll 5 silent_connection accepting,
        Op_Recorder (R_Reconcile [''US.MSFT'']), Op_Recorder (R_Reconcile [''US.AAPL''])] =
    run (coordinator_step sample_lib) sample_retrying [Op_Recorder (R_Reconcile [''US.MSFT'']), Op_Recorder (R_Reconcile [''US.AAPL''])]"
    using sample_ends by (simp add: sample_retrying_def sample_poll)
  moreover have "fst (poll_once sample_lib 6 sample_connection accepting
    (run (coordinator_step sample_lib) sample_retrying [Op_Recorder (R_Reconcile [''US.MSFT'']), Op_Recorder (R_Reconcile [''US.AAPL''])])) = Panics"
    by code_simp
  ultimately show ?thesis by simp
qed

text \<open>A new instrument on a live session: the generation of the lifecycle moves on, the one of the session does not, and
  the pushes of the session are dropped from then on.\<close>

theorem topology_change_mutes_session:
  "fst (poll_once sample_lib 5 sample_connection accepting
     (run (coordinator_step sample_lib) sample_state
       [Op_Topology [sample_basic ''AAPL'', sample_basic ''MSFT''] 2000 accepting, Op_News (Frame_Arrives sample_push)])) = Succeeds Dropped"
  by code_simp

end
