(* ===== verification/Spec2Isabelle.thy ===== *)
theory Spec2Isabelle
  imports Trading_Ledger Trading_Portfolio Trading_Session Control_Plane Backtest_Report
    Strategy_Registry Market_Router Market_Poll Market_Catalog Pine_Grammar Pine_Compile Kernel_Codecs Calendar_Manager
    Opend_Coordinator
begin

text \<open>
  JFTrade is a trading workstation: a set of Rust crates (\<open>src/crates\<close>) behind a desktop and a web
  client. This development models the crates that decide what may be traded, keep the books, run
  strategies and back-tests and follow the market, and proves what makes them correct. It models the
  Rust code only.

  \<^bold>\<open>Parts and theories.\<close> Every theory names the files it models in its opening text.

  \<^item> \<open>Prelude\<close>, \<open>Rust_Strings\<close>, \<open>Rust_Maps\<close>, \<open>Decimal_Lib\<close>: results as sums with \<open>?\<close> as \<open>rbind\<close>, machine
    integers, strings as their UTF-8 bytes, \<open>BTreeMap\<close> and \<open>BTreeSet\<close> as sorted lists, and the record
    of operations that stands for \<open>rust_decimal::Decimal\<close>.
  \<^item> \<open>Trading_Model\<close>, \<open>Trading_Risk\<close>, \<open>Trading_Ledger\<close>: \<open>jftrade-trading\<close> \<open>model.rs\<close>, \<open>risk.rs\<close> and
    \<open>ledger.rs\<close>. Orders and their life cycle, the pre-trade gateway and the runtime limits, and the
    shadow ledger that plans orders and applies broker events exactly once.
  \<^item> \<open>Trading_Portfolio\<close>, \<open>Trading_Session\<close>: \<open>portfolio.rs\<close>, \<open>session.rs\<close>, \<open>notification.rs\<close>.
  \<^item> \<open>Trading_Control\<close>, \<open>Control_Plane\<close>: \<open>real_trade.rs\<close> and, of \<open>jftrade-engine\<close>, the control file, the
    execution risk coordinator and the seven operations of the real-trade controls. The gateway of
    \<open>Trading_Risk\<close> is called with the control state that has just been read from the file.
  \<^item> \<open>Kernel_Increments\<close>, \<open>Kernel_Codecs\<close>: \<open>jftrade-kernel\<close>. The increments of prices and quantities, the
    parser and the canonical text of decimals, and \<open>Fixed8\<close>: its texts, its arithmetic and its two
    round trips.
  \<^item> \<open>Backtest_Model\<close>, \<open>Backtest_Books\<close>, \<open>Backtest_Fees\<close>, \<open>Backtest_Engine\<close>, \<open>Backtest_Invariants\<close>,
    \<open>Backtest_Replay\<close>, \<open>Backtest_Report\<close>: \<open>jftrade-backtest\<close>, from the price rules to the replay of a
    case and its report. Cancelling an order cancels its dependents; the recursion of the code is a
    work list here, and its termination is proved.
  \<^item> \<open>Strategy_Service\<close>, \<open>Strategy_Registry\<close>: \<open>jftrade-strategy\<close> \<open>model.rs\<close>, \<open>service.rs\<close> and
    \<open>runtime_registry.rs\<close>, and the port of \<open>jftrade-engine\<close> that replays a strategy over the shadow ledger.
    The coordinator is proved against any planner that keeps a contract, a locale, and the contract is
    discharged for the model of that port.
  \<^item> \<open>Pine_Lexer\<close>, \<open>Pine_Expressions\<close>, \<open>Pine_Grammar\<close>, \<open>Pine_Parser\<close>, \<open>Pine_Semantic\<close>, \<open>Pine_Lower\<close>,
    \<open>Pine_Planner\<close>, \<open>Pine_Compile\<close>: the compiler of Pine scripts, \<open>jftrade-strategy\<close> \<open>pine/*.rs\<close>. The parser
    of expressions is proved equal to an inductive grammar, the analyser to a typing of programs; the
    parser of statements, the lowering and the planner are followed line by line and call by call. The
    parsers spend fuel: four units for each token and three for each line, and they are proved to return.
    The theorems do not say that the parser reads what its author meant: the last sections of
    \<open>Pine_Parser\<close> and \<open>Pine_Planner\<close> prove on concrete lines where it does not.
  \<^item> \<open>Market_Model\<close>, \<open>Market_Demand\<close>, \<open>Market_Runtime\<close>, \<open>Market_Router\<close>, \<open>Market_Poll\<close>, \<open>Market_Catalog\<close>:
    \<open>jftrade-marketdata\<close>. The router owns the book of demand, the recorder and the tick cache; the poll
    writes to the cache under the generation of the recorder; the catalog normalises identifiers.
  \<^item> \<open>Calendar_Dates\<close>, \<open>Calendar_Sources\<close>, \<open>Calendar_Manager\<close>: \<open>jftrade-calendar\<close>. The rules of the built-in
    calendars, the registry and the policies of the sources, and the manager with its worker: what it
    restores, fetches, keeps, saves and answers, with its probes, sessions and candles.
  \<^item> \<open>Opend_Frame\<close>, \<open>Opend_Session\<close>, \<open>Opend_Subscriptions\<close>, \<open>Opend_Coordinator\<close>: of
    \<open>jftrade-integration-futu\<close> the stack that keeps a session with the gateway of the broker (\<open>frame.rs\<close>,
    \<open>transport.rs\<close>, \<open>managed_session.rs\<close>, \<open>subscriptions.rs\<close>, \<open>subscription_executor.rs\<close>,
    \<open>session_coordinator.rs\<close>, \<open>session_event_pump.rs\<close>, the handshake of \<open>health.rs\<close> and the task of
    \<open>runtime_task.rs\<close>). The frames are proved self-delimiting; the threads of a session are an inductive
    relation of their critical sections, for every interleaving of which frames and calls are proved to
    meet; the subscriptions are planned from the demand of \<open>Market_Model\<close>, and the coordinator, a machine
    over the recorder of \<open>Market_Runtime\<close>, replays them after a reconnection. The coordinator sees a
    session as its owner does: a generation, a queue of events, a reason when it has closed.

  \<^bold>\<open>How the code is modelled.\<close> A struct is a record, an enum a datatype, a method a function from the
  state and its arguments to the result and the new state; \<open>Result\<close> is a sum. A panic is a value of the
  model where the code can reach one. Counters of type \<open>u64\<close> wrap as in a release build where the code
  uses \<open>+\<close> and saturate where it uses \<open>saturating_add\<close>; \<open>i64\<close> is \<open>int\<close> with its bounds written out where
  they matter; lengths and capacities (\<open>usize\<close>) are \<open>nat\<close>. A \<open>HashMap\<close> that is only looked up is modelled
  as a sorted map. Every operation that takes a lock is one step, and concurrency is a list of steps in
  any order; the query of a poll, which runs without the lock, is a function that may change the recorder.
  A poisoned lock is not represented.

  \<^bold>\<open>Parameters.\<close> Code that is not in this repository is an argument: the operations of
  \<open>Decimal\<close> (a record; theorems that need arithmetic assume exactness on the values at hand or the laws
  of an order, and \<open>dec28\<close> is a concrete instance), the JSON coding of the control file, the file system,
  the clock, the calendar arithmetic of \<open>time\<close> and the time zones of \<open>jiff\<close>, SHA-1 (of which only
  the length of a digest is assumed), the protobuf coding of the gateway's messages, the answers of
  quote sources, calendars and gateways, and a planner.

  \<^bold>\<open>What the lemmas show.\<close> For every component: the invariant its operations keep (by the locales of
  \<open>Prelude\<close> for machines, interpreted for each of them), what each operation does on each branch,
  and the properties that connect components. The text before each property states it.

  \<^bold>\<open>Not modelled.\<close> The stores on SQLite and the settings file (their meaning is in SQL and JSON), the HTTP
  interface and the composition of the product in \<open>jftrade-engine\<close> beyond the parts named above (they
  translate between the API and the crates modelled here), the queries of the gateway (one message each
  way, projected on \<open>f64\<close>), the workers and helpers in other processes, the assistant, serialisation,
  the texts of RFC 3339, and indicators on floating-point numbers.
\<close>

end
